(* ===== verification/FD_Prelude.thy ===== *)
theory FD_Prelude imports Main "HOL-Library.Word" "HOL-Library.Monad_Syntax" begin

text \<open>
  Shared vocabulary of the development.

  Machine integers: \<open>uint8_t\<close>, \<open>uint16_t\<close>, \<open>uint32_t\<close> and \<open>uint64_t\<close> are words of that width,
  so that their arithmetic wraps as it does in C. \<open>size_t\<close> is 32 bits wide on the Cortex-M
  targets; a \<open>size_t\<close> that indexes an object in memory is a \<open>nat\<close> (no object reaches
  \<open>2 ^ 32\<close> bytes, so an in-range index never wraps), and a subtraction that may underflow is
  written with \<open>size_sub\<close>.

  Memory: a \<open>uint8_t *\<close> is the list of bytes it points to. Reads and writes are checked:
  an access outside the list is \<open>None\<close>, and so is every other undefined behaviour of C that
  the code can run into (a shift by the width of the operand or more, a signed overflow).
  A theorem that a function returns \<open>Some\<close> is therefore a memory-safety statement.

  Assertions: \<open>fd_assert\<close> (subsys/base/include/fd_assert.h) calls \<open>fd_assert_failure\<close>, which
  counts the failure and returns; the program goes on. Functions that assert carry a log of the
  failed conditions, \<open>assert_log\<close>.
\<close>

unbundle bit_operations_syntax

type_synonym u8 = "8 word"
type_synonym u16 = "16 word"
type_synonym u32 = "32 word"
type_synonym u64 = "64 word"

type_synonym assert_log = "string list"

named_theorems mem_simps \<open>checked memory accesses\<close>
named_theorems ring_simps \<open>ring buffers as lists\<close>

section \<open>Assertions\<close>

definition fd_assert :: "bool \<Rightarrow> string \<Rightarrow> assert_log \<Rightarrow> assert_log" where
  "fd_assert condition message log = (if condition then log else log @ [message])"

lemma fd_assert_True [simp]: "fd_assert True msg log = log"
  by (simp add: fd_assert_def)

lemma fd_assert_holds: "c \<Longrightarrow> fd_assert c msg log = log"
  by (simp add: fd_assert_def)

section \<open>Sizes\<close>

definition size_sub :: "nat \<Rightarrow> nat \<Rightarrow> nat" where
  "size_sub a b = (if b \<le> a then a - b else 2 ^ 32 + a - b)"

lemma size_sub_le [simp]: "b \<le> a \<Longrightarrow> size_sub a b = a - b"
  by (simp add: size_sub_def)

section \<open>Words\<close>

lemma unat_drop_bit: "unat (drop_bit n w) = unat w div 2 ^ n" for w :: "'a::len word"
  by (simp only: unsigned_drop_bit_eq) (simp add: drop_bit_eq_div take_bit_nat_eq_self)

text \<open>The value of a 64 bit integer converted to \<open>int32_t\<close>.\<close>

definition int32 :: "int \<Rightarrow> int" where
  "int32 v = sint (word_of_int v :: 32 word)"

lemma int32_in: "- (2 ^ 31) \<le> v \<Longrightarrow> v < 2 ^ 31 \<Longrightarrow> int32 v = v"
  using signed_take_bit_int_eq_self_iff[of 31 v] by (simp add: int32_def signed_of_int)

section \<open>Checked memory\<close>

definition rd :: "'a list \<Rightarrow> nat \<Rightarrow> 'a option" where
  "rd xs i = (if i < length xs then Some (xs ! i) else None)"

definition wr :: "'a list \<Rightarrow> nat \<Rightarrow> 'a \<Rightarrow> 'a list option" where
  "wr xs i x = (if i < length xs then Some (xs[i := x]) else None)"

definition rd_block :: "'a list \<Rightarrow> nat \<Rightarrow> nat \<Rightarrow> 'a list option" where
  "rd_block xs i n = (if i + n \<le> length xs then Some (take n (drop i xs)) else None)"

definition wr_block :: "'a list \<Rightarrow> nat \<Rightarrow> 'a list \<Rightarrow> 'a list option" where
  "wr_block xs i ys =
     (if i + length ys \<le> length xs then Some (take i xs @ ys @ drop (i + length ys) xs) else None)"

lemma rd_in [mem_simps]: "i < length xs \<Longrightarrow> rd xs i = Some (xs ! i)"
  by (simp add: rd_def)

lemma wr_in [mem_simps]: "i < length xs \<Longrightarrow> wr xs i x = Some (xs[i := x])"
  by (simp add: wr_def)

lemma rd_block_in [mem_simps]: "i + n \<le> length xs \<Longrightarrow> rd_block xs i n = Some (take n (drop i xs))"
  by (simp add: rd_block_def)

lemma wr_block_in [mem_simps]:
  "i + length ys \<le> length xs \<Longrightarrow> wr_block xs i ys = Some (take i xs @ ys @ drop (i + length ys) xs)"
  by (simp add: wr_block_def)

lemma rd_SomeD: "rd xs i = Some x \<Longrightarrow> i < length xs \<and> x = xs ! i"
  by (simp add: rd_def split: if_splits)

lemma wr_SomeD: "wr xs i x = Some ys \<Longrightarrow> i < length xs \<and> ys = xs[i := x]"
  by (simp add: wr_def split: if_splits)

lemma rd_block_SomeD:
  "rd_block xs i n = Some ys \<Longrightarrow> i + n \<le> length xs \<and> ys = take n (drop i xs) \<and> length ys = n"
  by (auto simp: rd_block_def split: if_splits)

lemma wr_block_SomeD:
  "wr_block xs i ys = Some zs \<Longrightarrow>
     i + length ys \<le> length xs \<and> zs = take i xs @ ys @ drop (i + length ys) xs \<and>
     length zs = length xs"
  by (auto simp: wr_block_def split: if_splits)

lemma rd_block_wr_block:
  "wr_block xs i ys = Some zs \<Longrightarrow> rd_block zs i (length ys) = Some ys"
  by (auto simp: wr_block_def rd_block_def split: if_splits)

lemma rd_block_append:
  "rd_block (xs @ ys @ zs) (length xs) (length ys) = Some ys"
  by (simp add: rd_block_def)

lemma take_Suc_update:
  "i < length xs \<Longrightarrow> take (Suc i) (xs[i := x]) = take i xs @ [x]"
  by (simp add: take_Suc_conv_app_nth)

lemma take_drop_blit_below [mem_simps]:
  "i + n \<le> k \<Longrightarrow> k \<le> length xs \<Longrightarrow> take n (drop i (take k xs @ ys)) = take n (drop i xs)"
  by (auto simp: nth_append intro!: nth_equalityI)

lemma take_drop_take_below [mem_simps]:
  "i + n \<le> k \<Longrightarrow> take n (drop i (take k xs)) = take n (drop i xs)"
  by (simp add: drop_take min_def)

section \<open>Ring buffers as lists\<close>

text \<open>
  The two queues of the base library (\<open>fd_fifo_t\<close> and \<open>fd_object_fifo_t\<close>) keep a ring of
  \<open>n\<close> slots, of which those from \<open>h\<close> (included) to \<open>t\<close> (excluded) are in use.
\<close>

definition ring_next :: "nat \<Rightarrow> nat \<Rightarrow> nat" where
  "ring_next n i = (if i + 1 \<ge> n then 0 else i + 1)"

definition ring_count :: "nat \<Rightarrow> nat \<Rightarrow> nat \<Rightarrow> nat" where
  "ring_count n h t = (if h \<le> t then t - h else n - h + t)"

definition ring_list :: "'a list \<Rightarrow> nat \<Rightarrow> nat \<Rightarrow> nat \<Rightarrow> 'a list" where
  "ring_list buf n h t = map (\<lambda>i. buf ! ((h + i) mod n)) [0..<ring_count n h t]"

lemma length_ring_list [ring_simps]: "length (ring_list buf n h t) = ring_count n h t"
  by (simp add: ring_list_def)

lemma ring_next_less: "0 < n \<Longrightarrow> ring_next n i < n"
  by (simp add: ring_next_def)

lemma ring_count_less: "h < n \<Longrightarrow> t < n \<Longrightarrow> ring_count n h t < n"
  unfolding ring_count_def by arith

lemma ring_count_0_iff: "h < n \<Longrightarrow> t < n \<Longrightarrow> ring_count n h t = 0 \<longleftrightarrow> h = t"
  by (auto simp: ring_count_def)

lemma ring_full_iff:
  "h < n \<Longrightarrow> t < n \<Longrightarrow> ring_next n t = h \<longleftrightarrow> n - 1 \<le> ring_count n h t"
  by (auto simp: ring_count_def ring_next_def)

lemma ring_count_put:
  "h < n \<Longrightarrow> t < n \<Longrightarrow> ring_next n t \<noteq> h \<Longrightarrow> ring_count n h (ring_next n t) = Suc (ring_count n h t)"
  by (auto simp: ring_count_def ring_next_def split: if_splits)

lemma ring_count_get:
  "h < n \<Longrightarrow> t < n \<Longrightarrow> h \<noteq> t \<Longrightarrow> ring_count n h t = Suc (ring_count n (ring_next n h) t)"
  by (auto simp: ring_count_def ring_next_def split: if_splits)

lemma ring_slot_mod: "a < 2 * n \<Longrightarrow> a mod n = (if a < n then a else a - n)" for a n :: nat
  by (simp add: mod_nat_eqI)

lemma ring_slot_used:
  assumes "h < n" "t < n" "i < ring_count n h t"
  shows "(h + i) mod n \<noteq> t"
proof -
  have "h + i < 2 * n"
    using assms ring_count_less[of h n t] by linarith
  then show ?thesis
    using assms unfolding ring_count_def by (auto simp: ring_slot_mod split: if_splits)
qed

lemma ring_slot_end: "h < n \<Longrightarrow> t < n \<Longrightarrow> (h + ring_count n h t) mod n = t"
  by (auto simp: ring_count_def)

lemma ring_slot_next:
  assumes "h < n" shows "(ring_next n h + i) mod n = (h + Suc i) mod n"
proof (cases "h + 1 < n")
  case False
  with assms have "n = Suc h" by simp
  then show ?thesis
    by (simp add: ring_next_def flip: add_Suc)
qed (simp add: ring_next_def)

lemma ring_list_put:
  assumes "h < n" "t < n" "n \<le> length buf" "ring_next n t \<noteq> h"
  shows "ring_list (buf[t := x]) n h (ring_next n t) = ring_list buf n h t @ [x]"
proof -
  have "buf[t := x] ! ((h + i) mod n) = buf ! ((h + i) mod n)" if "i < ring_count n h t" for i
    using ring_slot_used[OF assms(1,2) that] by (metis nth_list_update_neq)
  then show ?thesis
    using assms by (simp add: ring_list_def ring_count_put ring_slot_end)
qed

lemma ring_list_get:
  assumes "h < n" "t < n" "h \<noteq> t"
  shows "ring_list buf n h t = buf ! h # ring_list buf n (ring_next n h) t"
  using assms
  by (simp add: ring_list_def ring_count_get upt_conv_Cons ring_slot_next map_Suc_upt[symmetric]
      del: upt_Suc)

lemma ring_list_empty: "h < n \<Longrightarrow> t < n \<Longrightarrow> ring_list buf n h t = [] \<longleftrightarrow> h = t"
  by (simp add: ring_list_def ring_count_0_iff)

lemma ring_list_nth:
  "i < ring_count n h t \<Longrightarrow> ring_list buf n h t ! i = buf ! ((h + i) mod n)"
  by (simp add: ring_list_def)

lemma ring_list_update_free:
  assumes "h < n" "t < n" shows "ring_list (buf[t := x]) n h t = ring_list buf n h t"
proof -
  have "buf[t := x] ! ((h + i) mod n) = buf ! ((h + i) mod n)" if "i < ring_count n h t" for i
    using ring_slot_used[OF assms that] by (metis nth_list_update_neq)
  then show ?thesis by (simp add: ring_list_def)
qed

end
