(* ===== verification/FD_Queue.thy ===== *)
theory FD_Queue imports FD_Prelude begin

text \<open>
  The contract both queues of the base library share. A provider gives the operations its client
  calls (\<open>put\<close>, \<open>get\<close>), the list of values it holds, oldest first, its capacity and its
  invariant, and says which values fit into it. The client's lemmas are proved once here: one operation at a time, and for a whole
  script of puts and gets in any order (the producer and the consumer of such a queue run in
  different threads or interrupt handlers, so any interleaving of their calls can happen), which
  behaves exactly as the same script on a bounded list.
\<close>

datatype 'a queue_op = Put 'a | Get

datatype 'a queue_reply = Accepted | Rejected | Got 'a | Nothing

text \<open>Running a script on an implementation; \<open>None\<close> is an access outside the buffer.\<close>

fun queue_run ::
  "('q \<Rightarrow> 'a \<Rightarrow> (bool \<times> 'q) option) \<Rightarrow> ('q \<Rightarrow> ('a option \<times> 'q) option) \<Rightarrow>
   'q \<Rightarrow> 'a queue_op list \<Rightarrow> ('a queue_reply list \<times> 'q) option" where
  "queue_run put get q [] = Some ([], q)"
| "queue_run put get q (Put x # ops) = do {
     (ok, q1) \<leftarrow> put q x;
     (rs, q2) \<leftarrow> queue_run put get q1 ops;
     Some ((if ok then Accepted else Rejected) # rs, q2) }"
| "queue_run put get q (Get # ops) = do {
     (r, q1) \<leftarrow> get q;
     (rs, q2) \<leftarrow> queue_run put get q1 ops;
     Some ((case r of None \<Rightarrow> Nothing | Some x \<Rightarrow> Got x) # rs, q2) }"

text \<open>The same script on a list of at most \<open>cap\<close> elements: the specification.\<close>

fun list_queue_run :: "nat \<Rightarrow> 'a list \<Rightarrow> 'a queue_op list \<Rightarrow> 'a queue_reply list \<times> 'a list" where
  "list_queue_run cap xs [] = ([], xs)"
| "list_queue_run cap xs (Put x # ops) =
     (if length xs < cap
      then let (rs, ys) = list_queue_run cap (xs @ [x]) ops in (Accepted # rs, ys)
      else let (rs, ys) = list_queue_run cap xs ops in (Rejected # rs, ys))"
| "list_queue_run cap xs (Get # ops) =
     (case xs of
        [] \<Rightarrow> let (rs, ys) = list_queue_run cap [] ops in (Nothing # rs, ys)
      | y # ys \<Rightarrow> let (rs, zs) = list_queue_run cap ys ops in (Got y # rs, zs))"

fun op_fits :: "('a \<Rightarrow> bool) \<Rightarrow> 'a queue_op \<Rightarrow> bool" where
  "op_fits P (Put x) = P x"
| "op_fits P Get = True"

lemma list_all_op_fits_True [simp]: "list_all (op_fits (\<lambda>_. True)) ops"
  by (auto simp: list_all_iff elim: op_fits.elims intro: queue_op.exhaust)

text \<open>What was accepted is what was handed out, in order, followed by what is still held.\<close>

fun accepted :: "'a queue_op list \<Rightarrow> 'a queue_reply list \<Rightarrow> 'a list" where
  "accepted (Put x # ops) (Accepted # rs) = x # accepted ops rs"
| "accepted (_ # ops) (_ # rs) = accepted ops rs"
| "accepted _ _ = []"

fun handed_out :: "'a queue_reply list \<Rightarrow> 'a list" where
  "handed_out [] = []"
| "handed_out (Got x # rs) = x # handed_out rs"
| "handed_out (_ # rs) = handed_out rs"

lemma list_queue_fifo:
  "list_queue_run cap xs ops = (rs, ys) \<Longrightarrow> xs @ accepted ops rs = handed_out rs @ ys"
proof (induction cap xs ops arbitrary: rs ys rule: list_queue_run.induct)
  case (2 cap xs x ops)
  show ?case
  proof (cases "length xs < cap")
    case True
    obtain rs' where rs: "rs = Accepted # rs'" "list_queue_run cap (xs @ [x]) ops = (rs', ys)"
      using 2(3) True by (auto split: prod.splits)
    show ?thesis using 2(1)[OF True rs(2)] rs by simp
  next
    case False
    obtain rs' where rs: "rs = Rejected # rs'" "list_queue_run cap xs ops = (rs', ys)"
      using 2(3) False by (auto split: prod.splits)
    show ?thesis using 2(2)[OF False rs(2)] rs by simp
  qed
next
  case (3 cap xs ops)
  then show ?case by (auto split: list.splits prod.splits)
qed simp

lemma list_queue_bounded:
  "list_queue_run cap xs ops = (rs, ys) \<Longrightarrow> length xs \<le> cap \<Longrightarrow> length ys \<le> cap"
  by (induction cap xs ops arbitrary: rs ys rule: list_queue_run.induct)
    (auto split: if_splits list.splits prod.splits)

locale bounded_queue =
  fixes put :: "'q \<Rightarrow> 'a \<Rightarrow> (bool \<times> 'q) option"
    and get :: "'q \<Rightarrow> ('a option \<times> 'q) option"
    and contents :: "'q \<Rightarrow> 'a list"
    and capacity :: "'q \<Rightarrow> nat"
    and inv :: "'q \<Rightarrow> bool"
    and fits :: "'q \<Rightarrow> 'a \<Rightarrow> bool"
  assumes put_room: "inv q \<Longrightarrow> fits q x \<Longrightarrow> length (contents q) < capacity q \<Longrightarrow>
      \<exists>q'. put q x = Some (True, q') \<and> inv q' \<and> contents q' = contents q @ [x] \<and>
        capacity q' = capacity q \<and> fits q' = fits q"
    and put_full: "inv q \<Longrightarrow> capacity q \<le> length (contents q) \<Longrightarrow> put q x = Some (False, q)"
    and get_some: "inv q \<Longrightarrow> contents q = y # ys \<Longrightarrow>
      \<exists>q'. get q = Some (Some y, q') \<and> inv q' \<and> contents q' = ys \<and> capacity q' = capacity q \<and>
        fits q' = fits q"
    and get_none: "inv q \<Longrightarrow> contents q = [] \<Longrightarrow> get q = Some (None, q)"
begin

lemma run_refines:
  "inv q \<Longrightarrow> list_all (op_fits (fits q)) ops \<Longrightarrow>
   list_queue_run (capacity q) (contents q) ops = (rs, ys) \<Longrightarrow>
   \<exists>q'. queue_run put get q ops = Some (rs, q') \<and> inv q' \<and> contents q' = ys \<and>
     capacity q' = capacity q"
proof (induction ops arbitrary: q rs ys)
  case (Cons x ops)
  show ?case
  proof (cases x)
    case (Put a)
    show ?thesis
    proof (cases "length (contents q) < capacity q")
      case True
      obtain q1 where q1: "put q a = Some (True, q1)" "inv q1" "contents q1 = contents q @ [a]"
          "capacity q1 = capacity q" "fits q1 = fits q"
        using put_room[OF Cons.prems(1) _ True] Cons.prems(2) Put by auto
      obtain rs' where "rs = Accepted # rs'"
          "list_queue_run (capacity q1) (contents q1) ops = (rs', ys)"
        using Cons.prems(3) Put True q1 by (auto split: prod.splits)
      then show ?thesis using Cons.IH[OF q1(2)] Cons.prems(2) q1 Put by fastforce
    next
      case False
      then have p: "put q a = Some (False, q)" by (simp add: put_full Cons.prems(1))
      obtain rs' where "rs = Rejected # rs'"
          "list_queue_run (capacity q) (contents q) ops = (rs', ys)"
        using Cons.prems(3) Put False by (auto split: prod.splits)
      then show ?thesis using Cons.IH[OF Cons.prems(1)] Cons.prems(2) p Put by fastforce
    qed
  next
    case Get
    show ?thesis
    proof (cases "contents q")
      case Nil
      obtain rs' where "rs = Nothing # rs'"
          "list_queue_run (capacity q) (contents q) ops = (rs', ys)"
        using Cons.prems(3) Get Nil by (auto split: prod.splits)
      then show ?thesis
        using Cons.IH[OF Cons.prems(1)] Cons.prems(2) get_none[OF Cons.prems(1) Nil] Get by fastforce
    next
      case (Cons y zs)
      obtain q1 where q1: "get q = Some (Some y, q1)" "inv q1" "contents q1 = zs"
          "capacity q1 = capacity q" "fits q1 = fits q"
        using get_some[OF Cons.prems(1) Cons] by blast
      obtain rs' where "rs = Got y # rs'"
          "list_queue_run (capacity q1) (contents q1) ops = (rs', ys)"
        using Cons.prems(3) Get Cons q1 by (auto split: prod.splits)
      then show ?thesis using Cons.IH[OF q1(2)] Cons.prems(2) q1 Get by fastforce
    qed
  qed
qed simp

lemma run_fifo:
  assumes "inv q" "list_all (op_fits (fits q)) ops" "queue_run put get q ops = Some (rs, q')"
  shows "contents q @ accepted ops rs = handed_out rs @ contents q'"
proof -
  obtain rs' ys where "list_queue_run (capacity q) (contents q) ops = (rs', ys)" by fastforce
  then show ?thesis
    using run_refines[OF assms(1,2)] assms(3) list_queue_fifo by fastforce
qed

end

end
