(* ===== verification/FD_Fifo.thy ===== *)
theory FD_Fifo imports FD_Queue begin

text \<open>
  The byte FIFO of subsys/base/src/fd_fifo.c: \<open>fd_fifo_t\<close> as a record, each function as a
  definition, its invariant, and its refinement of a bounded list queue through
  \<^const>\<open>bounded_queue\<close>. The \<open>static int count\<close> that \<open>fd_fifo_put\<close> increments when it refuses
  a byte is read nowhere and is left out.
\<close>

record fd_fifo_t =
  fifo_buffer :: "u8 list"
  fifo_size :: nat
  fifo_head :: nat
  fifo_tail :: nat

definition fd_fifo_initialize :: "u8 list \<Rightarrow> nat \<Rightarrow> fd_fifo_t" where
  "fd_fifo_initialize data size' =
     \<lparr>fifo_buffer = data, fifo_size = size', fifo_head = 0, fifo_tail = 0\<rparr>"

definition fd_fifo_flush :: "fd_fifo_t \<Rightarrow> fd_fifo_t" where
  "fd_fifo_flush fifo = fifo\<lparr>fifo_head := 0, fifo_tail := 0\<rparr>"

definition fd_fifo_is_empty :: "fd_fifo_t \<Rightarrow> bool" where
  "fd_fifo_is_empty fifo = (fifo_head fifo = fifo_tail fifo)"

definition fd_fifo_get_count :: "fd_fifo_t \<Rightarrow> nat" where
  "fd_fifo_get_count fifo =
     (let head = fifo_head fifo; tail = fifo_tail fifo; size' = fifo_size fifo
      in if head \<le> tail then tail - head else size' - head + tail)"

definition fd_fifo_get :: "fd_fifo_t \<Rightarrow> (u8 option \<times> fd_fifo_t) option" where
  "fd_fifo_get fifo =
     (if fifo_head fifo \<noteq> fifo_tail fifo
      then do {
        byte \<leftarrow> rd (fifo_buffer fifo) (fifo_head fifo);
        let head = fifo_head fifo + 1;
        let head = (if head \<ge> fifo_size fifo then 0 else head);
        Some (Some byte, fifo\<lparr>fifo_head := head\<rparr>) }
      else Some (None, fifo))"

definition fd_fifo_put :: "fd_fifo_t \<Rightarrow> u8 \<Rightarrow> (bool \<times> fd_fifo_t) option" where
  "fd_fifo_put fifo data =
     (let tail = fifo_tail fifo;
          next_tail = tail + 1;
          next_tail = (if next_tail \<ge> fifo_size fifo then 0 else next_tail)
      in if next_tail \<noteq> fifo_head fifo
         then do {
           buffer \<leftarrow> wr (fifo_buffer fifo) tail data;
           Some (True, fifo\<lparr>fifo_buffer := buffer, fifo_tail := next_tail\<rparr>) }
         else Some (False, fifo))"

section \<open>Invariant and abstraction\<close>

definition fifo_inv :: "fd_fifo_t \<Rightarrow> bool" where
  "fifo_inv f \<longleftrightarrow> fifo_head f < fifo_size f \<and> fifo_tail f < fifo_size f \<and>
     fifo_size f \<le> length (fifo_buffer f)"

definition fifo_list :: "fd_fifo_t \<Rightarrow> u8 list" where
  "fifo_list f = ring_list (fifo_buffer f) (fifo_size f) (fifo_head f) (fifo_tail f)"

definition fifo_capacity :: "fd_fifo_t \<Rightarrow> nat" where
  "fifo_capacity f = fifo_size f - 1"

lemmas fifo_abs_defs = fifo_inv_def fifo_list_def fifo_capacity_def

lemma fd_fifo_put_ring:
  "fd_fifo_put f x =
     (if ring_next (fifo_size f) (fifo_tail f) \<noteq> fifo_head f
      then map_option (\<lambda>buffer. (True, f\<lparr>fifo_buffer := buffer,
             fifo_tail := ring_next (fifo_size f) (fifo_tail f)\<rparr>)) (wr (fifo_buffer f) (fifo_tail f) x)
      else Some (False, f))"
  by (auto simp: fd_fifo_put_def ring_next_def Let_def wr_def)

lemma fd_fifo_get_ring:
  "fd_fifo_get f =
     (if fifo_head f \<noteq> fifo_tail f
      then map_option (\<lambda>byte. (Some byte, f\<lparr>fifo_head := ring_next (fifo_size f) (fifo_head f)\<rparr>))
             (rd (fifo_buffer f) (fifo_head f))
      else Some (None, f))"
  by (auto simp: fd_fifo_get_def ring_next_def Let_def rd_def)

lemma fifo_inv_initialize:
  "0 < n \<Longrightarrow> n \<le> length data \<Longrightarrow> fifo_inv (fd_fifo_initialize data n)"
  by (simp add: fifo_inv_def fd_fifo_initialize_def)

lemma fifo_list_initialize [simp]: "fifo_list (fd_fifo_initialize data n) = []"
  by (simp add: fifo_list_def fd_fifo_initialize_def ring_list_def ring_count_def)

lemma fifo_capacity_initialize [simp]: "fifo_capacity (fd_fifo_initialize data n) = n - 1"
  by (simp add: fifo_capacity_def fd_fifo_initialize_def)

lemma fifo_flush: "fifo_inv f \<Longrightarrow> fifo_inv (fd_fifo_flush f) \<and> fifo_list (fd_fifo_flush f) = []"
  by (auto simp: fifo_abs_defs fd_fifo_flush_def ring_list_def ring_count_def)

lemma fifo_is_empty: "fifo_inv f \<Longrightarrow> fd_fifo_is_empty f \<longleftrightarrow> fifo_list f = []"
  by (simp add: fifo_abs_defs fd_fifo_is_empty_def ring_list_empty)

lemma fifo_get_count: "fd_fifo_get_count f = length (fifo_list f)"
  by (simp add: fifo_abs_defs fd_fifo_get_count_def ring_simps ring_count_def)

interpretation fifo_queue: bounded_queue fd_fifo_put fd_fifo_get fifo_list fifo_capacity fifo_inv
  "\<lambda>_ _. True"
proof unfold_locales
  fix q x assume q: "fifo_inv q" and "length (fifo_list q) < fifo_capacity q"
  then have "ring_next (fifo_size q) (fifo_tail q) \<noteq> fifo_head q"
    by (simp add: fifo_abs_defs ring_simps ring_full_iff)
  then show "\<exists>q'. fd_fifo_put q x = Some (True, q') \<and> fifo_inv q' \<and>
      fifo_list q' = fifo_list q @ [x] \<and> fifo_capacity q' = fifo_capacity q \<and>
      (\<lambda>_. True) = (\<lambda>_. True)"
    using q by (auto simp: fd_fifo_put_ring fifo_abs_defs mem_simps ring_list_put ring_next_less)
next
  fix q x assume "fifo_inv q" and "fifo_capacity q \<le> length (fifo_list q)"
  then show "fd_fifo_put q x = Some (False, q)"
    by (simp add: fd_fifo_put_ring fifo_abs_defs ring_simps ring_full_iff)
next
  fix q y ys assume q: "fifo_inv q" and c: "fifo_list q = y # ys"
  then have "fifo_head q \<noteq> fifo_tail q" by (auto simp: fifo_list_def ring_list_def ring_count_def)
  then show "\<exists>q'. fd_fifo_get q = Some (Some y, q') \<and> fifo_inv q' \<and> fifo_list q' = ys \<and>
      fifo_capacity q' = fifo_capacity q \<and> (\<lambda>_. True) = (\<lambda>_. True)"
    using q c by (auto simp: fd_fifo_get_ring fifo_abs_defs mem_simps ring_list_get ring_next_less)
next
  fix q assume "fifo_inv q" and "fifo_list q = []"
  then show "fd_fifo_get q = Some (None, q)"
    by (simp add: fd_fifo_get_ring fifo_abs_defs ring_list_empty)
qed

section \<open>Properties\<close>

text \<open>C1: any interleaving of \<open>fd_fifo_put\<close> and \<open>fd_fifo_get\<close> calls on a freshly initialised
  FIFO of \<open>n\<close> slots stays inside its buffer and answers exactly as a list bounded by \<open>n - 1\<close>
  elements: a put is refused only when \<open>n - 1\<close> bytes are held, a get returns the oldest byte.\<close>

theorem fd_fifo_refines_list_queue:
  assumes "0 < n" "n \<le> length data"
  shows "\<exists>f. queue_run fd_fifo_put fd_fifo_get (fd_fifo_initialize data n) ops =
      Some (fst (list_queue_run (n - 1) [] ops), f) \<and>
    fifo_list f = snd (list_queue_run (n - 1) [] ops) \<and> fd_fifo_get_count f \<le> n - 1"
  using fifo_queue.run_refines[OF fifo_inv_initialize[OF assms] list_all_op_fits_True, of ops]
    list_queue_bounded[of "n - 1" "[]" ops]
  by (cases "list_queue_run (n - 1) [] ops") (auto simp: fifo_get_count)

theorem fd_fifo_refines_list_queue_witness:
  "\<exists>f. queue_run fd_fifo_put fd_fifo_get (fd_fifo_initialize [0, 0, 0] 3)
      [Put 7, Put 8, Put 9, Get, Put 10, Get, Get, Get] =
      Some ([Accepted, Accepted, Rejected, Got 7, Accepted, Got 8, Got 10, Nothing], f)"
  using fd_fifo_refines_list_queue
    [of 3 "[0, 0, 0]" "[Put 7, Put 8, Put 9, Get, Put 10, Get, Get, Get]"]
  by auto

end
