(* ===== verification/FD_ObjectFifo.thy ===== *)
theory FD_ObjectFifo imports FD_Queue begin

text \<open>
  The object FIFO of subsys/base/src/fd_object_fifo.c. The ring holds \<open>size\<close> slots of
  \<open>object_size\<close> bytes; a producer allocates the slot at the tail, writes the object into it and
  commits it, a consumer views a committed object and later deallocates the oldest one. A pointer
  into the buffer is the offset of its first byte. The operations that assert return the log of
  failed assertions last.
\<close>

record fd_object_fifo_t =
  of_buffer :: "u8 list"
  of_object_size :: nat
  of_size :: nat
  of_head :: nat
  of_tail :: nat
  of_is_allocated :: bool

definition fd_object_fifo_initialize ::
  "u8 list \<Rightarrow> nat \<Rightarrow> nat \<Rightarrow> (fd_object_fifo_t \<times> assert_log) option" where
  "fd_object_fifo_initialize buffer size' object_size =
     (let fifo = \<lparr>of_buffer = [], of_object_size = 0, of_size = 0, of_head = 0, of_tail = 0,
                  of_is_allocated = False\<rparr>
      in if size' = 0 then Some (fifo, [])
         else if object_size = 0 then None
         else let fifo = fifo\<lparr>of_buffer := buffer, of_object_size := object_size,
                              of_size := size' div object_size\<rparr>
              in Some (fifo, fd_assert (of_size fifo \<ge> 1) ''fifo->size >= 1'' []))"

definition fd_object_fifo_flush :: "fd_object_fifo_t \<Rightarrow> fd_object_fifo_t" where
  "fd_object_fifo_flush fifo = fifo\<lparr>of_head := 0, of_tail := 0\<rparr>"

definition fd_object_fifo_get_count :: "fd_object_fifo_t \<Rightarrow> nat" where
  "fd_object_fifo_get_count fifo =
     (let head = of_head fifo; tail = of_tail fifo; size' = of_size fifo
      in if head \<le> tail then tail - head else size' - head + tail)"

definition fd_object_fifo_is_empty :: "fd_object_fifo_t \<Rightarrow> bool" where
  "fd_object_fifo_is_empty fifo = (of_head fifo = of_tail fifo)"

definition fd_object_fifo_is_full :: "fd_object_fifo_t \<Rightarrow> bool" where
  "fd_object_fifo_is_full fifo = (fd_object_fifo_get_count fifo \<ge> size_sub (of_size fifo) 1)"

definition fd_object_fifo_allocate ::
  "fd_object_fifo_t \<Rightarrow> nat option \<times> fd_object_fifo_t \<times> assert_log" where
  "fd_object_fifo_allocate fifo =
     (if of_is_allocated fifo then (None, fifo, [''missing commit''])
      else if fd_object_fifo_is_full fifo then (None, fifo, [])
      else (Some (of_tail fifo * of_object_size fifo), fifo\<lparr>of_is_allocated := True\<rparr>, []))"

definition fd_object_fifo_get_next_tail :: "fd_object_fifo_t \<Rightarrow> nat" where
  "fd_object_fifo_get_next_tail fifo =
     (let next_tail = of_tail fifo + 1 in if next_tail \<ge> of_size fifo then 0 else next_tail)"

definition fd_object_fifo_commit :: "fd_object_fifo_t \<Rightarrow> fd_object_fifo_t \<times> assert_log" where
  "fd_object_fifo_commit fifo =
     (if \<not> of_is_allocated fifo then (fifo, [''missing allocate''])
      else (fifo\<lparr>of_tail := fd_object_fifo_get_next_tail fifo, of_is_allocated := False\<rparr>, []))"

definition fd_object_fifo_view :: "fd_object_fifo_t \<Rightarrow> nat \<Rightarrow> nat option" where
  "fd_object_fifo_view fifo index =
     (let count = fd_object_fifo_get_count fifo
      in if index \<ge> count then None
         else let position = (of_head fifo + index) mod of_size fifo
              in Some (position * of_object_size fifo))"

definition fd_object_fifo_deallocate :: "fd_object_fifo_t \<Rightarrow> fd_object_fifo_t \<times> assert_log" where
  "fd_object_fifo_deallocate fifo =
     (if fd_object_fifo_is_empty fifo then (fifo, [''missing commit''])
      else let head = of_head fifo + 1;
               head = (if head \<ge> of_size fifo then 0 else head)
           in (fifo\<lparr>of_head := head\<rparr>, []))"

section \<open>Invariant and abstraction\<close>

definition of_slot :: "fd_object_fifo_t \<Rightarrow> nat \<Rightarrow> u8 list" where
  "of_slot f k = take (of_object_size f) (drop (k * of_object_size f) (of_buffer f))"

definition of_slots :: "fd_object_fifo_t \<Rightarrow> u8 list list" where
  "of_slots f = map (of_slot f) [0..<of_size f]"

definition of_list :: "fd_object_fifo_t \<Rightarrow> u8 list list" where
  "of_list f = ring_list (of_slots f) (of_size f) (of_head f) (of_tail f)"

definition of_capacity :: "fd_object_fifo_t \<Rightarrow> nat" where
  "of_capacity f = of_size f - 1"

definition of_inv :: "fd_object_fifo_t \<Rightarrow> bool" where
  "of_inv f \<longleftrightarrow> of_head f < of_size f \<and> of_tail f < of_size f \<and>
     of_size f * of_object_size f \<le> length (of_buffer f) \<and> of_size f < 2 ^ 32"

lemma length_of_slots: "length (of_slots f) = of_size f"
  by (simp add: of_slots_def)

lemma of_slots_frame [simp]:
  "of_slots (f\<lparr>of_head := h\<rparr>) = of_slots f"
  "of_slots (f\<lparr>of_tail := t\<rparr>) = of_slots f"
  "of_slots (f\<lparr>of_is_allocated := a\<rparr>) = of_slots f"
  "of_slots (f\<lparr>of_is_allocated := a, of_buffer := b\<rparr>) = of_slots (f\<lparr>of_buffer := b\<rparr>)"
  by (simp_all add: of_slots_def of_slot_def)

lemmas of_abs_defs = of_inv_def of_list_def of_capacity_def

lemma of_slot_bound:
  assumes "of_inv f" "k < of_size f"
  shows "k * of_object_size f + of_object_size f \<le> length (of_buffer f)"
proof -
  have "Suc k * of_object_size f \<le> of_size f * of_object_size f"
    using assms(2) by (intro mult_le_mono1) simp
  then show ?thesis using assms(1) by (simp add: of_inv_def add.commute)
qed

lemma of_get_count: "fd_object_fifo_get_count f = length (of_list f)"
  by (simp add: of_list_def fd_object_fifo_get_count_def ring_simps ring_count_def)

lemma of_is_empty: "of_inv f \<Longrightarrow> fd_object_fifo_is_empty f \<longleftrightarrow> of_list f = []"
  by (simp add: of_abs_defs fd_object_fifo_is_empty_def ring_list_empty)

lemma of_is_full: "of_inv f \<Longrightarrow> fd_object_fifo_is_full f \<longleftrightarrow> of_capacity f \<le> length (of_list f)"
  by (simp add: of_inv_def of_capacity_def fd_object_fifo_is_full_def of_get_count)

lemma of_next_tail: "fd_object_fifo_get_next_tail f = ring_next (of_size f) (of_tail f)"
  by (simp add: fd_object_fifo_get_next_tail_def ring_next_def)

lemma of_initialize_inv:
  assumes "0 < os" "os \<le> n" "n \<le> length buf" "n < 2 ^ 32"
  shows "\<exists>f. fd_object_fifo_initialize buf n os = Some (f, []) \<and> of_inv f \<and> of_list f = [] \<and>
    \<not> of_is_allocated f \<and> of_size f = n div os \<and> of_object_size f = os"
proof -
  have "0 < n div os" using assms by (simp add: div_greater_zero_iff)
  moreover have "n div os * os \<le> length buf" "n div os < 2 ^ 32"
    using assms(3,4) div_times_less_eq_dividend[of n os] div_le_dividend[of n os] by linarith+
  ultimately show ?thesis
    using assms by (auto simp: fd_object_fifo_initialize_def of_abs_defs ring_list_def
        ring_count_def Let_def fd_assert_def)
qed

text \<open>Writing the object of one slot changes no other slot.\<close>

lemma of_slot_write:
  assumes "of_inv f" "k < of_size f" "length obj = of_object_size f"
    and "wr_block (of_buffer f) (k * of_object_size f) obj = Some b"
  shows "of_slots (f\<lparr>of_buffer := b\<rparr>) = (of_slots f)[k := obj]"
proof -
  let ?n = "of_object_size f"
  note b = wr_block_SomeD[OF assms(4)] and kb = of_slot_bound[OF assms(1,2)]
  have "take ?n (drop (j * ?n) b) = (if j = k then obj else of_slot f j)" if "j < of_size f" for j
  proof -
    consider "j < k" | "j = k" | "k < j" by linarith
    then show ?thesis
    proof cases
      case 1
      then have "Suc j * ?n \<le> k * ?n" by (intro mult_le_mono1) simp
      then have "j * ?n + ?n \<le> k * ?n" by (simp add: add.commute)
      then show ?thesis using b 1 kb by (simp add: of_slot_def mem_simps)
    next
      case 2 then show ?thesis using b assms(3) kb by (simp add: min_def)
    next
      case 3
      then have "Suc k * ?n \<le> j * ?n" by (intro mult_le_mono1) simp
      then have le: "k * ?n + ?n \<le> j * ?n" by (simp add: add.commute)
      then have "drop (j * ?n) b = drop (j * ?n) (of_buffer f)"
        using b assms(3) kb 3 by (simp add: min_def)
      then show ?thesis using 3 by (simp add: of_slot_def)
    qed
  qed
  then show ?thesis
    by (auto simp: of_slots_def of_slot_def nth_list_update intro!: nth_equalityI)
qed

section \<open>The producer's and the consumer's use\<close>

text \<open>
  As the header prescribes: to put an object, allocate, write the content, commit; to get one,
  view it, read the content, deallocate.
\<close>

definition object_put :: "fd_object_fifo_t \<Rightarrow> u8 list \<Rightarrow> (bool \<times> fd_object_fifo_t) option" where
  "object_put f obj =
     (case fd_object_fifo_allocate f of
        (None, f1, _) \<Rightarrow> Some (False, f1)
      | (Some p, f1, _) \<Rightarrow> do {
          b \<leftarrow> wr_block (of_buffer f1) p obj;
          Some (True, fst (fd_object_fifo_commit (f1\<lparr>of_buffer := b\<rparr>))) })"

definition object_get :: "fd_object_fifo_t \<Rightarrow> (u8 list option \<times> fd_object_fifo_t) option" where
  "object_get f =
     (case fd_object_fifo_view f 0 of
        None \<Rightarrow> Some (None, f)
      | Some p \<Rightarrow> do {
          obj \<leftarrow> rd_block (of_buffer f) p (of_object_size f);
          Some (Some obj, fst (fd_object_fifo_deallocate f)) })"

definition of_ready :: "fd_object_fifo_t \<Rightarrow> bool" where
  "of_ready f \<longleftrightarrow> of_inv f \<and> \<not> of_is_allocated f"

definition of_fits :: "fd_object_fifo_t \<Rightarrow> u8 list \<Rightarrow> bool" where
  "of_fits f obj \<longleftrightarrow> length obj = of_object_size f"

lemma of_view:
  "of_inv f \<Longrightarrow> i < length (of_list f) \<Longrightarrow>
   \<exists>p. fd_object_fifo_view f i = Some p \<and>
     rd_block (of_buffer f) p (of_object_size f) = Some (of_list f ! i)"
proof -
  assume f: "of_inv f" and i: "i < length (of_list f)"
  let ?k = "(of_head f + i) mod of_size f"
  have k: "?k < of_size f" using f by (simp add: of_inv_def)
  moreover have "of_list f ! i = of_slot f ?k"
    using i k by (simp add: of_list_def ring_simps ring_list_nth of_slots_def)
  ultimately show ?thesis
    using of_slot_bound[OF f k] i
    by (simp add: fd_object_fifo_view_def of_get_count mem_simps of_slot_def)
qed

interpretation object_queue: bounded_queue object_put object_get of_list of_capacity of_ready of_fits
proof unfold_locales
  fix q x assume q: "of_ready q" and x: "of_fits q x" and room: "length (of_list q) < of_capacity q"
  then have inv: "of_inv q" and t: "of_tail q < of_size q" by (simp_all add: of_ready_def of_inv_def)
  obtain b where b: "wr_block (of_buffer q) (of_tail q * of_object_size q) x = Some b"
    using of_slot_bound[OF inv t] x by (simp add: wr_block_def of_fits_def)
  have nn: "ring_next (of_size q) (of_tail q) \<noteq> of_head q"
    using inv room by (simp add: of_abs_defs ring_simps ring_full_iff)
  let ?q = "q\<lparr>of_buffer := b, of_tail := ring_next (of_size q) (of_tail q), of_is_allocated := False\<rparr>"
  have put: "object_put q x = Some (True, ?q)"
    using q inv room b by (simp add: object_put_def fd_object_fifo_allocate_def of_ready_def
        of_is_full fd_object_fifo_commit_def of_next_tail)
  have "of_slots ?q = (of_slots q)[of_tail q := x]"
    using of_slot_write[OF inv t _ b] x by (simp add: of_fits_def)
  then have "of_list ?q = of_list q @ [x]"
    using inv nn by (simp add: of_list_def of_inv_def ring_list_put length_of_slots)
  then show "\<exists>q'. object_put q x = Some (True, q') \<and> of_ready q' \<and> of_list q' = of_list q @ [x] \<and>
      of_capacity q' = of_capacity q \<and> of_fits q' = of_fits q"
    using put inv wr_block_SomeD[OF b]
    by (auto simp: of_ready_def of_inv_def of_capacity_def of_fits_def ring_next_less)
next
  fix q x assume "of_ready q" and "of_capacity q \<le> length (of_list q)"
  then show "object_put q x = Some (False, q)"
    by (simp add: object_put_def fd_object_fifo_allocate_def of_ready_def of_is_full)
next
  fix q y ys assume q: "of_ready q" and c: "of_list q = y # ys"
  then have inv: "of_inv q" by (simp add: of_ready_def)
  have ne: "of_head q \<noteq> of_tail q"
    using c by (auto simp: of_list_def ring_list_def ring_count_def)
  obtain p where p: "fd_object_fifo_view q 0 = Some p"
      "rd_block (of_buffer q) p (of_object_size q) = Some y"
    using of_view[OF inv, of 0] c by auto
  let ?q = "q\<lparr>of_head := ring_next (of_size q) (of_head q)\<rparr>"
  have "object_get q = Some (Some y, ?q)"
    using p ne by (simp add: object_get_def fd_object_fifo_deallocate_def fd_object_fifo_is_empty_def
        ring_next_def Let_def)
  moreover have "of_list ?q = ys"
    using c inv ne by (simp add: of_list_def of_inv_def ring_list_get)
  ultimately show "\<exists>q'. object_get q = Some (Some y, q') \<and> of_ready q' \<and> of_list q' = ys \<and>
      of_capacity q' = of_capacity q \<and> of_fits q' = of_fits q"
    using q by (auto simp: of_ready_def of_inv_def of_capacity_def of_fits_def ring_next_less)
next
  fix q assume "of_ready q" and "of_list q = []"
  then show "object_get q = Some (None, q)"
    by (simp add: object_get_def fd_object_fifo_view_def of_get_count)
qed

section \<open>Properties\<close>

text \<open>after initialisation with room for at least one object, any interleaving of whole puts
  (allocate, write, commit) and gets (view, read, deallocate) stays inside the buffer and answers
  exactly as a list queue that holds one object less than the buffer has slots, as the header
  announces, and no assertion fails on the way in.\<close>

theorem fd_object_fifo_refines_list_queue:
  assumes "0 < os" "os \<le> n" "n \<le> length buf" "n < 2 ^ 32"
    and "list_all (op_fits (\<lambda>obj. length obj = os)) ops"
  shows "\<exists>start f. fd_object_fifo_initialize buf n os = Some (start, []) \<and>
    queue_run object_put object_get start ops = Some (fst (list_queue_run (n div os - 1) [] ops), f) \<and>
    of_list f = snd (list_queue_run (n div os - 1) [] ops)"
proof -
  obtain start where ini: "fd_object_fifo_initialize buf n os = Some (start, [])"
    and start: "of_inv start" "of_list start = []" "\<not> of_is_allocated start" "of_size start = n div os"
      "of_object_size start = os"
    using of_initialize_inv[OF assms(1-4)] by blast
  have q: "of_ready start" "of_capacity start = n div os - 1" "of_fits start = (\<lambda>obj. length obj = os)"
    using start by (auto simp: of_ready_def of_capacity_def of_fits_def)
  obtain rs ys where l: "list_queue_run (n div os - 1) [] ops = (rs, ys)" by fastforce
  have "\<exists>f. queue_run object_put object_get start ops = Some (rs, f) \<and> of_ready f \<and> of_list f = ys \<and>
    of_capacity f = of_capacity start"
    using assms(5) q start(2) l by (intro object_queue.run_refines) (simp_all only:)
  then show ?thesis using ini l by auto
qed

theorem fd_object_fifo_refines_list_queue_witness:
  "\<exists>start f. fd_object_fifo_initialize [0, 0, 0, 0, 0] 5 2 = Some (start, []) \<and>
    queue_run object_put object_get start
      [Put [1, 2], Put [3, 4], Get, Put [5, 6], Get, Get] =
      Some ([Accepted, Rejected, Got [1, 2], Accepted, Got [5, 6], Nothing], f)"
  using fd_object_fifo_refines_list_queue
    [of 2 5 "[0, 0, 0, 0, 0]" "[Put [1, 2], Put [3, 4], Get, Put [5, 6], Get, Get]"]
  by auto

text \<open>the slot handed out by \<open>fd_object_fifo_allocate\<close> belongs to the producer alone: whatever
  is written into it, every object already committed can still be viewed unchanged (so a viewed
  object can be held while the next one is filled), and the commit appends exactly what was
  written.\<close>

theorem fd_object_fifo_allocate_exclusive:
  assumes "of_ready f" and "fd_object_fifo_allocate f = (Some p, f1, log)"
    and "length obj = of_object_size f"
  shows "\<exists>b. wr_block (of_buffer f1) p obj = Some b \<and>
    (\<forall>i < length (of_list f). \<exists>v. fd_object_fifo_view (f1\<lparr>of_buffer := b\<rparr>) i = Some v \<and>
      rd_block b v (of_object_size f) = Some (of_list f ! i)) \<and>
    of_list (fst (fd_object_fifo_commit (f1\<lparr>of_buffer := b\<rparr>))) = of_list f @ [obj] \<and>
    log = [] \<and> snd (fd_object_fifo_commit (f1\<lparr>of_buffer := b\<rparr>)) = []"
proof -
  have inv: "of_inv f" and t: "of_tail f < of_size f"
    using assms(1) by (simp_all add: of_ready_def of_inv_def)
  have al: "p = of_tail f * of_object_size f" "f1 = f\<lparr>of_is_allocated := True\<rparr>" "log = []"
      "\<not> fd_object_fifo_is_full f"
    using assms(2) by (auto simp: fd_object_fifo_allocate_def split: if_splits)
  then have nn: "ring_next (of_size f) (of_tail f) \<noteq> of_head f"
    using inv by (simp add: of_is_full of_abs_defs ring_simps ring_full_iff)
  obtain b where b: "wr_block (of_buffer f) p obj = Some b"
    using of_slot_bound[OF inv t] assms(3) al(1) by (simp add: wr_block_def)
  let ?g = "f1\<lparr>of_buffer := b\<rparr>"
  have slots: "of_slots ?g = (of_slots f)[of_tail f := obj]"
    using of_slot_write[OF inv t assms(3)] b al by simp
  have "of_inv ?g" "of_list ?g = of_list f"
    using inv wr_block_SomeD[OF b] al(2) slots
    by (simp_all add: of_inv_def of_list_def ring_list_update_free)
  then have "\<exists>v. fd_object_fifo_view ?g i = Some v \<and> rd_block b v (of_object_size f) = Some (of_list f ! i)"
    if "i < length (of_list f)" for i
    using of_view[of ?g i] that al(2) by simp
  moreover have "of_list (fst (fd_object_fifo_commit ?g)) = of_list f @ [obj]"
    using slots inv nn al(2)
    by (simp add: fd_object_fifo_commit_def of_next_tail of_list_def of_inv_def ring_list_put length_of_slots)
  ultimately show ?thesis
    using b al by (auto simp: fd_object_fifo_commit_def)
qed

theorem fd_object_fifo_allocate_exclusive_witness:
  "let f = \<lparr>of_buffer = [1, 2, 3, 4, 5, 6], of_object_size = 2, of_size = 3, of_head = 2,
      of_tail = 0, of_is_allocated = False\<rparr> in
    \<exists>b. wr_block (of_buffer f) 0 [8, 9] = Some b \<and>
    of_list (fst (fd_object_fifo_commit (f\<lparr>of_is_allocated := True, of_buffer := b\<rparr>))) =
      [[5, 6], [8, 9]]"
proof -
  let ?f = "\<lparr>of_buffer = [1, 2, 3, 4, 5, 6], of_object_size = 2, of_size = 3, of_head = 2,
      of_tail = 0, of_is_allocated = False\<rparr>"
  have "of_ready ?f" "fd_object_fifo_allocate ?f = (Some 0, ?f\<lparr>of_is_allocated := True\<rparr>, [])"
    by (simp_all add: of_ready_def of_inv_def fd_object_fifo_allocate_def
        fd_object_fifo_is_full_def fd_object_fifo_get_count_def)
  from fd_object_fifo_allocate_exclusive[OF this, of "[8, 9]"]
  have "\<exists>b. wr_block (of_buffer ?f) 0 [8, 9] = Some b \<and>
    of_list (fst (fd_object_fifo_commit (?f\<lparr>of_is_allocated := True, of_buffer := b\<rparr>))) =
      of_list ?f @ [[8, 9]]"
    by auto
  moreover have "of_list ?f = [[5, 6]]"
    by (simp add: of_list_def of_slots_def of_slot_def ring_list_def ring_count_def upt_rec)
  ultimately show ?thesis by simp
qed

end
