(* ===== verification/FD_Cobs.thy ===== *)
theory FD_Cobs imports FD_Fifo begin

text \<open>
  Consistent Overhead Byte Stuffing, subsys/base/src/fd_cobs.c. Both functions work in place. The
  encoder's output runs ahead of its input, so it reads through a FIFO of \<open>buffer_size - 1\<close> bytes
  that keeps unread input safe from the bytes it writes. The model keeps that structure: one array
  that is read and written, the FIFO of \<^theory_text>\<open>FD_Fifo\<close>, and the indices of the C code. Writes
  outside the array and reads of an uninitialised byte are \<^const>\<open>None\<close>.

  \<open>cobs_stuff\<close> and \<open>cobs_unstuff\<close> are the reference encoder and decoder on lists.
\<close>

section \<open>The encoder\<close>

record cobs_state =
  cs_data :: "u8 list"
  cs_fifo :: fd_fifo_t
  cs_offset :: nat
  cs_dst :: nat
  cs_code_pointer :: nat
  cs_code :: u8
  cs_log :: assert_log

fun cobs_preload ::
  "u8 list \<Rightarrow> nat \<Rightarrow> nat \<Rightarrow> fd_fifo_t \<Rightarrow> assert_log \<Rightarrow> (fd_fifo_t \<times> assert_log) option" where
  "cobs_preload data offset 0 fifo log = Some (fifo, log)"
| "cobs_preload data offset (Suc k) fifo log = do {
     byte \<leftarrow> rd data offset;
     (ok, fifo) \<leftarrow> fd_fifo_put fifo byte;
     cobs_preload data (offset + 1) k fifo (fd_assert ok ''ok'' log) }"

definition cobs_refill :: "nat \<Rightarrow> cobs_state \<Rightarrow> cobs_state option" where
  "cobs_refill len s =
     (if cs_offset s < len
      then do {
        byte \<leftarrow> rd (cs_data s) (cs_offset s);
        (ok, fifo) \<leftarrow> fd_fifo_put (cs_fifo s) byte;
        Some (s\<lparr>cs_fifo := fifo, cs_offset := cs_offset s + 1,
                cs_log := fd_assert ok ''ok'' (cs_log s)\<rparr>) }
      else Some s)"

definition cobs_emit :: "nat \<Rightarrow> u8 \<Rightarrow> cobs_state \<Rightarrow> cobs_state option" where
  "cobs_emit len byte s = do {
     s \<leftarrow> (if byte \<noteq> 0
           then do {
             data \<leftarrow> wr (cs_data s) (cs_dst s) byte;
             Some (s\<lparr>cs_data := data, cs_dst := cs_dst s + 1, cs_code := cs_code s + 1\<rparr>) }
           else Some s);
     if byte = 0 \<or> cs_code s = 0xff
     then do {
       data \<leftarrow> wr (cs_data s) (cs_code_pointer s) (cs_code s);
       Some (s\<lparr>cs_data := data, cs_code := 1, cs_code_pointer := cs_dst s,
               cs_dst := (if byte = 0 \<or> len \<noteq> 0 then cs_dst s + 1 else cs_dst s)\<rparr>) }
     else Some s }"

definition cobs_step :: "nat \<Rightarrow> cobs_state \<Rightarrow> cobs_state option" where
  "cobs_step len s = do {
     (r, fifo) \<leftarrow> fd_fifo_get (cs_fifo s);
     let s = s\<lparr>cs_fifo := fifo, cs_log := fd_assert (r \<noteq> None) ''ok'' (cs_log s)\<rparr>;
     byte \<leftarrow> r;
     s \<leftarrow> cobs_refill len s;
     cobs_emit len byte s }"

fun cobs_loop :: "nat \<Rightarrow> nat \<Rightarrow> cobs_state \<Rightarrow> cobs_state option" where
  "cobs_loop len 0 s = Some s"
| "cobs_loop len (Suc remaining) s = do { s \<leftarrow> cobs_step len s; cobs_loop len remaining s }"

text \<open>Result: the encoded length, the array, and the assertions that failed. The parameter \<open>size\<close>
  of the C function is not used by its body.\<close>

definition fd_cobs_encode ::
  "u8 list \<Rightarrow> nat \<Rightarrow> nat \<Rightarrow> u8 list \<Rightarrow> nat \<Rightarrow> (nat \<times> u8 list \<times> assert_log) option" where
  "fd_cobs_encode data len size' buffer buffer_size = do {
     let fifo = fd_fifo_initialize buffer buffer_size;
     let n = (if len > size_sub buffer_size 1 then size_sub buffer_size 1 else len);
     (fifo, log) \<leftarrow> cobs_preload data 0 n fifo [];
     s \<leftarrow> cobs_loop len len
       \<lparr>cs_data = data, cs_fifo = fifo, cs_offset = n, cs_dst = 1, cs_code_pointer = 0,
        cs_code = 1, cs_log = log\<rparr>;
     data \<leftarrow> wr (cs_data s) (cs_code_pointer s) (cs_code s);
     Some (cs_dst s, data, cs_log s) }"

section \<open>The decoder\<close>

text \<open>The \<open>for\<close> loop, with \<open>code\<close> and \<open>block_length\<close> as bytes; the decrement \<open>--block_length\<close>
  at the end of an iteration is on 8 bits.\<close>

function cobs_decode_loop ::
  "nat \<Rightarrow> u8 list \<Rightarrow> nat \<Rightarrow> nat \<Rightarrow> u8 \<Rightarrow> u8 \<Rightarrow> (nat \<times> u8 list) option" where
  "cobs_decode_loop len data src dst code block_length =
     (if src < len
      then if block_length \<noteq> 0
           then do {
             byte \<leftarrow> rd data src;
             data \<leftarrow> wr data dst byte;
             cobs_decode_loop len data (src + 1) (dst + 1) code (block_length - 1) }
           else do {
             (data, dst) \<leftarrow>
               (if code \<noteq> 0xff then do { data \<leftarrow> wr data dst 0; Some (data, dst + 1) }
                else Some (data, dst));
             code \<leftarrow> rd data src;
             if code = 0 then Some (dst, data)
             else cobs_decode_loop len data (src + 1) dst code (code - 1) }
      else Some (dst, data))"
  by pat_completeness auto
termination
  by (relation "measure (\<lambda>(len, data, src, dst, code, bl). len - src)") auto

declare cobs_decode_loop.simps [simp del]

definition fd_cobs_decode :: "u8 list \<Rightarrow> nat \<Rightarrow> (nat \<times> u8 list) option" where
  "fd_cobs_decode data len = cobs_decode_loop len data 0 0 0xff 0"

section \<open>Reference encoder and decoder\<close>

fun cobs_stuff :: "u8 list \<Rightarrow> u8 list \<Rightarrow> u8 list" where
  "cobs_stuff blk [] = of_nat (length blk + 1) # blk"
| "cobs_stuff blk (b # bs) =
     (if b = 0 then of_nat (length blk + 1) # blk @ cobs_stuff [] bs
      else if length blk = 253 then 255 # blk @ b # cobs_stuff [] bs
      else cobs_stuff (blk @ [b]) bs)"

fun cobs_unstuff :: "u8 \<Rightarrow> u8 \<Rightarrow> u8 list \<Rightarrow> u8 list" where
  "cobs_unstuff code bl [] = []"
| "cobs_unstuff code bl (x # xs) =
     (if bl \<noteq> 0 then x # cobs_unstuff code (bl - 1) xs
      else (if code \<noteq> 255 then [0] else []) @
           (if x = 0 then [] else cobs_unstuff x (x - 1) xs))"

lemma of_nat_u8_neq_0: "0 < n \<Longrightarrow> n < 256 \<Longrightarrow> of_nat n \<noteq> (0 :: u8)"
  by (simp add: word_of_nat_eq_0_iff nat_dvd_not_less)

lemma of_nat_u8_255: "n < 255 \<Longrightarrow> of_nat n \<noteq> (255 :: u8)"
  using of_nat_inverse[where 'a = 8, of n "255"] by auto

lemma cobs_unstuff_block:
  "n < 256 \<Longrightarrow> length xs = n \<Longrightarrow> cobs_unstuff code (of_nat n) (xs @ ys) = xs @ cobs_unstuff code 0 ys"
proof (induction xs arbitrary: n)
  case (Cons x xs)
  then obtain m where m: "n = Suc m" by (cases n) auto
  then have "of_nat n \<noteq> (0 :: u8)" using Cons.prems(1) of_nat_u8_neq_0[of n] by simp
  moreover have "of_nat n - 1 = (of_nat m :: u8)" using m by simp
  ultimately show ?case using Cons m by simp
qed simp

lemma cobs_unstuff_code:
  assumes "length blk < 255"
  shows "cobs_unstuff code 0 (of_nat (length blk + 1) # blk @ ys) =
    (if code \<noteq> 255 then [0] else []) @ blk @ cobs_unstuff (of_nat (length blk + 1)) 0 ys"
proof -
  have "of_nat (length blk + 1) \<noteq> (0 :: u8)" using assms by (intro of_nat_u8_neq_0) auto
  moreover have "of_nat (length blk + 1) - 1 = (of_nat (length blk) :: u8)" by simp
  ultimately show ?thesis
    using cobs_unstuff_block[of "length blk" blk] assms by (simp del: of_nat_add of_nat_Suc)
qed

lemma cobs_unstuff_stuff:
  "length blk < 254 \<Longrightarrow>
   cobs_unstuff code 0 (cobs_stuff blk bs) = (if code \<noteq> 255 then [0] else []) @ blk @ bs"
proof (induction blk bs arbitrary: code rule: cobs_stuff.induct)
  case (1 blk)
  then show ?case using cobs_unstuff_code[of blk code "[]"] by simp
next
  case (2 blk b bs)
  consider "b = 0" | "b \<noteq> 0" "length blk = 253" | "b \<noteq> 0" "length blk < 253"
    using 2(4) by linarith
  then show ?case
  proof cases
    case 1
    have "of_nat (length blk + 1) \<noteq> (255 :: u8)" using 2(4) by (intro of_nat_u8_255) simp
    then show ?thesis
      using 1 2(1)[OF 1] 2(4) cobs_unstuff_code[of blk code "cobs_stuff [] bs"]
      by (simp del: of_nat_add of_nat_Suc)
  next
    case 2
    have "(255 :: u8) = of_nat (length (blk @ [b]) + 1)" using 2(2) by simp
    then show ?thesis
      using 2 "2.IH"(2)[OF 2] cobs_unstuff_code[of "blk @ [b]" code "cobs_stuff [] bs"] by simp
  next
    case 3
    then show ?thesis using 2(3)[OF 3(1)] by simp
  qed
qed

lemma cobs_stuff_nonzero: "length blk < 254 \<Longrightarrow> 0 \<notin> set blk \<Longrightarrow> 0 \<notin> set (cobs_stuff blk bs)"
proof (induction blk bs rule: cobs_stuff.induct)
  case (1 blk)
  then show ?case using of_nat_u8_neq_0[of "length blk + 1"] by (auto simp del: of_nat_Suc)
next
  case (2 blk b bs)
  then show ?case using of_nat_u8_neq_0[of "length blk + 1"] by (auto simp del: of_nat_Suc)
qed

lemma cobs_stuff_length:
  "length blk < 254 \<Longrightarrow>
   1 + length blk + length bs \<le> length (cobs_stuff blk bs) \<and>
   length (cobs_stuff blk bs) \<le> 1 + length blk + length bs + (length blk + length bs) div 254"
proof (induction blk bs rule: cobs_stuff.induct)
  case (2 blk b bs)
  consider "b = 0" | "b \<noteq> 0" "length blk = 253" | "b \<noteq> 0" "length blk < 253"
    using 2(4) by linarith
  then show ?case
  proof cases
    case 1
    then show ?thesis using 2(1)[OF 1] div_le_mono[of "length bs" "length blk + length (b # bs)" 254]
      by auto
  next
    case 2
    then show ?thesis using "2.IH"(2)[OF 2] by auto
  next
    case 3
    then show ?thesis using "2.IH"(3)[OF 3(1)] by auto
  qed
qed simp

section \<open>Decoding in place\<close>

lemma drop_take_nth_tl:
  "src < len \<Longrightarrow> len \<le> length data \<Longrightarrow>
   drop src (take len data) = data ! src # drop (src + 1) (take len data)"
  by (simp add: Cons_nth_drop_Suc[symmetric])

lemma drop_take_update:
  "i < n \<Longrightarrow> drop n (take m (xs[i := x])) = drop n (take m xs)"
  by (simp add: take_update_swap drop_update_cancel)

definition cobs_decodes :: "nat \<Rightarrow> u8 list \<Rightarrow> nat \<Rightarrow> u8 list \<Rightarrow> (nat \<times> u8 list) option \<Rightarrow> bool" where
  "cobs_decodes len data dst r result \<longleftrightarrow>
     (\<exists>data'. result = Some (dst + length r, data') \<and> length data' = length data \<and>
        take (dst + length r) data' = take dst data @ r \<and> drop len data' = drop len data)"

lemma cobs_decodes_write:
  assumes "cobs_decodes len (data[dst := x]) (dst + 1) r result" "dst < len" "len \<le> length data"
  shows "cobs_decodes len data dst (x # r) result"
  using assms by (auto simp: cobs_decodes_def drop_update_cancel take_Suc_update)

lemma cobs_decode_loop_in_place:
  assumes "len \<le> length data" "dst < src \<or> dst = src \<and> bl = 0 \<and> code = 255"
  shows "cobs_decodes len data dst (cobs_unstuff code bl (drop src (take len data)))
     (cobs_decode_loop len data src dst code bl)"
  using assms
proof (induction len data src dst code bl rule: cobs_decode_loop.induct)
  case (1 len data src dst code bl)
  show ?case
  proof (cases "src < len")
    case False
    then show ?thesis by (simp add: cobs_decode_loop.simps cobs_decodes_def)
  next
    case src: True
    let ?rest = "drop (src + 1) (take len data)"
    have list: "drop src (take len data) = data ! src # ?rest"
      using src 1(3) by (rule drop_take_nth_tl)
    show ?thesis
    proof (cases "bl = 0")
      case False
      then have "dst < src" using 1(4) by simp
      then have upd: "drop (src + 1) (take len (data[dst := data ! src])) = ?rest"
        by (simp add: drop_take_update)
      have "cobs_decodes len (data[dst := data ! src]) (dst + 1) (cobs_unstuff code (bl - 1) ?rest)
          (cobs_decode_loop len (data[dst := data ! src]) (src + 1) (dst + 1) code (bl - 1))"
        using 1(1)[OF src False, of "data ! src" "data[dst := data ! src]"] src 1(3) \<open>dst < src\<close> upd
        by (simp add: mem_simps)
      then show ?thesis
        using cobs_decodes_write[of len data dst "data ! src"] src 1(3) \<open>dst < src\<close> False
        by (subst cobs_decode_loop.simps) (simp add: list mem_simps)
    next
      case bl: True
      show ?thesis
      proof (cases "code = 255")
        case True
        have "cobs_decodes len data dst (cobs_unstuff (data ! src) (data ! src - 1) ?rest)
            (cobs_decode_loop len data (src + 1) dst (data ! src) (data ! src - 1))"
          if "data ! src \<noteq> 0"
          using 1(2)[of "(data, dst)" data dst "data ! src"] src bl True that 1(3,4)
          by (auto simp: mem_simps)
        then show ?thesis
          using src bl True 1(3)
          by (subst cobs_decode_loop.simps) (simp add: list mem_simps cobs_decodes_def)
      next
        case False
        then have lt: "dst < src" using 1(4) by simp
        let ?d = "data[dst := 0]"
        have same: "?d ! src = data ! src" using lt by simp
        have upd: "drop (src + 1) (take len ?d) = ?rest" using lt by (simp add: drop_take_update)
        have "cobs_decodes len ?d (dst + 1) (cobs_unstuff (data ! src) (data ! src - 1) ?rest)
            (cobs_decode_loop len ?d (src + 1) (dst + 1) (data ! src) (data ! src - 1))"
          if "data ! src \<noteq> 0"
          using 1(2)[of "(?d, dst + 1)" ?d "dst + 1" "data ! src"] src bl False that 1(3) lt upd same
          by (auto simp: mem_simps)
        then have "cobs_decodes len ?d (dst + 1)
            (if data ! src = 0 then [] else cobs_unstuff (data ! src) (data ! src - 1) ?rest)
            (if data ! src = 0 then Some (dst + 1, ?d)
             else cobs_decode_loop len ?d (src + 1) (dst + 1) (data ! src) (data ! src - 1))"
          by (simp add: cobs_decodes_def)
        from cobs_decodes_write[OF this] show ?thesis
          using src bl False 1(3) lt same
          by (subst cobs_decode_loop.simps, cases "data ! src = 0") (simp_all add: list mem_simps)
      qed
    qed
  qed
qed

lemma fd_cobs_decode_spec:
  "len \<le> length data \<Longrightarrow>
   cobs_decodes len data 0 (cobs_unstuff 255 0 (take len data)) (fd_cobs_decode data len)"
  using cobs_decode_loop_in_place[of len data 0 0 0 255] by (simp add: fd_cobs_decode_def)

section \<open>Encoding in place\<close>

text \<open>The layout of the array before \<open>dst\<close>: the closed blocks, a place for the code byte of the
  open block, and the open block.\<close>

definition cobs_layout :: "u8 list \<Rightarrow> u8 list \<Rightarrow> cobs_state \<Rightarrow> bool" where
  "cobs_layout out blk s \<longleftrightarrow>
     cs_code_pointer s = length out \<and> cs_dst s = length out + 1 + length blk \<and>
     (\<exists>junk. take (cs_dst s) (cs_data s) = out @ junk # blk) \<and>
     cs_code s = of_nat (length blk + 1) \<and> length blk < 254"

lemma cobs_layout_cong:
  "cs_code_pointer s' = cs_code_pointer s \<Longrightarrow> cs_dst s' = cs_dst s \<Longrightarrow> cs_data s' = cs_data s \<Longrightarrow>
   cs_code s' = cs_code s \<Longrightarrow> cobs_layout out blk s' = cobs_layout out blk s"
  by (simp only: cobs_layout_def)

lemma cobs_layout_dst: "cobs_layout out blk s \<Longrightarrow> cs_dst s \<le> length (cs_data s)"
  by (auto simp: cobs_layout_def dest: arg_cong[where f = length])

lemma cobs_layout_write:
  assumes "cobs_layout out blk s" "cs_dst s < length (cs_data s)" "length blk < 253"
  shows "cobs_layout out (blk @ [b])
    (s\<lparr>cs_data := (cs_data s)[cs_dst s := b], cs_dst := cs_dst s + 1, cs_code := cs_code s + 1\<rparr>)"
  using assms by (auto simp: cobs_layout_def take_Suc_update)

lemma cobs_layout_code:
  assumes "cobs_layout out blk s"
  shows "cs_code_pointer s < length (cs_data s)"
    and "take (cs_dst s) ((cs_data s)[cs_code_pointer s := c]) = out @ c # blk"
proof -
  obtain junk where l: "take (cs_dst s) (cs_data s) = out @ junk # blk" "cs_code_pointer s = length out"
    using assms by (auto simp: cobs_layout_def)
  show "cs_code_pointer s < length (cs_data s)"
    using arg_cong[OF l(1), of length] l(2) by simp
  have "take (cs_dst s) ((cs_data s)[cs_code_pointer s := c]) =
      (take (cs_dst s) (cs_data s))[cs_code_pointer s := c]"
    by (rule take_update_swap)
  then show "take (cs_dst s) ((cs_data s)[cs_code_pointer s := c]) = out @ c # blk"
    using l by simp
qed

lemma cobs_layout_close:
  assumes "cs_code_pointer s = length out" "cs_dst s = length out + 1 + length blk"
    and "take (cs_dst s) (cs_data s) = out @ junk # blk" "cs_dst s < length (cs_data s)"
  shows "cobs_layout (out @ cs_code s # blk) []
    (s\<lparr>cs_data := (cs_data s)[cs_code_pointer s := cs_code s], cs_code := 1,
       cs_code_pointer := cs_dst s, cs_dst := cs_dst s + 1\<rparr>)"
proof -
  have "take (cs_dst s) ((cs_data s)[cs_code_pointer s := cs_code s]) = out @ cs_code s # blk"
    using assms by (simp add: take_update_swap)
  then show ?thesis
    using assms by (simp add: cobs_layout_def take_Suc_conv_app_nth)
qed

definition cobs_frame :: "nat \<Rightarrow> cobs_state \<Rightarrow> cobs_state \<Rightarrow> bool" where
  "cobs_frame d s s' \<longleftrightarrow> cs_fifo s' = cs_fifo s \<and> cs_offset s' = cs_offset s \<and>
     cs_log s' = cs_log s \<and> length (cs_data s') = length (cs_data s) \<and>
     drop d (cs_data s') = drop d (cs_data s)"

lemma cobs_emit_step:
  assumes l: "cobs_layout out blk s" and len: "len \<noteq> 0"
    and room: "cs_dst s + (if byte \<noteq> 0 \<and> length blk = 253 then 2 else 1) \<le> length (cs_data s)"
  shows "\<exists>s' out' blk'. cobs_emit len byte s = Some s' \<and> cobs_layout out' blk' s' \<and>
    out' @ cobs_stuff blk' rest = out @ cobs_stuff blk (byte # rest) \<and>
    cobs_frame (cs_dst s + 1) s s' \<and>
    (byte = 0 \<and> blk' = [] \<and> cs_dst s' = cs_dst s + 1 \<or>
     byte \<noteq> 0 \<and> blk' = blk @ [byte] \<and> cs_dst s' = cs_dst s + 1 \<or>
     length blk = 253 \<and> blk' = [] \<and> cs_dst s' = cs_dst s + 2)"
proof -
  let ?s1 = "s\<lparr>cs_data := (cs_data s)[cs_dst s := byte], cs_dst := cs_dst s + 1, cs_code := cs_code s + 1\<rparr>"
  obtain junk where lay: "cs_code_pointer s = length out" "cs_dst s = length out + 1 + length blk"
      "take (cs_dst s) (cs_data s) = out @ junk # blk" "cs_code s = of_nat (length blk + 1)"
    using l by (auto simp: cobs_layout_def)
  have dst: "cs_dst s < length (cs_data s)" using room by (simp split: if_splits)
  consider "byte = 0" | "byte \<noteq> 0" "length blk < 253" | "byte \<noteq> 0" "length blk = 253"
    using l unfolding cobs_layout_def by linarith
  then show ?thesis
  proof cases
    case 1
    then show ?thesis
      using cobs_layout_close[OF lay(1,2,3) dst] lay dst
      by (auto simp: cobs_emit_def mem_simps cobs_frame_def)
  next
    case 2
    have "cs_code s + 1 = of_nat (length blk + 2)" using lay(4) by simp
    then have "cs_code s + 1 \<noteq> 255" using 2(2) of_nat_u8_255[of "length blk + 2"] by (simp del: of_nat_add)
    then show ?thesis
      using 2 cobs_layout_write[OF l dst 2(2)] dst
      by (auto simp: cobs_emit_def mem_simps cobs_frame_def)
  next
    case 3
    have code: "cs_code s + 1 = 255" using lay(4) 3(2) by simp
    have "take (cs_dst ?s1) (cs_data ?s1) = out @ junk # blk @ [byte]"
      using lay dst by (simp add: take_Suc_update)
    then have "cobs_layout (out @ cs_code ?s1 # blk @ [byte]) []
      (?s1\<lparr>cs_data := (cs_data ?s1)[cs_code_pointer ?s1 := cs_code ?s1], cs_code := 1,
         cs_code_pointer := cs_dst ?s1, cs_dst := cs_dst ?s1 + 1\<rparr>)"
      using 3 room lay by (intro cobs_layout_close[of ?s1 out "blk @ [byte]" junk]) auto
    then show ?thesis
      using 3 code dst lay len
      by (auto simp: cobs_emit_def mem_simps cobs_frame_def drop_update_cancel)
  qed
qed

text \<open>The loop invariant after \<open>k\<close> bytes: the FIFO holds the unread input up to \<open>offset\<close>, the input
  from \<open>offset\<close> on is still in the array, and the output is at most one byte per 254 ahead.\<close>

definition cobs_bound :: "nat \<Rightarrow> nat" where
  "cobs_bound len = len + 1 + len div 254"

definition cobs_inv :: "u8 list \<Rightarrow> nat \<Rightarrow> nat \<Rightarrow> nat \<Rightarrow> cobs_state \<Rightarrow> bool" where
  "cobs_inv orig len cap k s \<longleftrightarrow>
     (\<exists>out blk e. cobs_layout out blk s \<and>
        out @ cobs_stuff blk (drop k (take len orig)) = cobs_stuff [] (take len orig) \<and>
        cs_dst s = 1 + k + e \<and> 254 * e + length blk \<le> k) \<and>
     fifo_inv (cs_fifo s) \<and> fifo_capacity (cs_fifo s) = cap \<and>
     cs_offset s = min len (cap + k) \<and> fifo_list (cs_fifo s) = drop k (take (cs_offset s) orig) \<and>
     cs_log s = [] \<and> length (cs_data s) = length orig \<and>
     drop (cs_offset s) (take len (cs_data s)) = drop (cs_offset s) (take len orig) \<and>
     drop (cobs_bound len) (cs_data s) = drop (cobs_bound len) orig"

lemma cobs_bound_dst:
  assumes "k < len" "254 * e + l \<le> k"
  shows "1 + k + e + 1 \<le> cobs_bound len" "l = 253 \<Longrightarrow> 1 + k + e + 2 \<le> cobs_bound len"
proof -
  have "e \<le> k div 254" using assms(2) by (simp add: less_eq_div_iff_mult_less_eq)
  moreover have "k div 254 \<le> len div 254" using assms(1) by (simp add: div_le_mono)
  ultimately show "1 + k + e + 1 \<le> cobs_bound len" using assms(1) by (simp add: cobs_bound_def)
  assume "l = 253"
  then have "e + 1 \<le> (k + 1) div 254" using assms(2) by (simp add: less_eq_div_iff_mult_less_eq)
  moreover have "(k + 1) div 254 \<le> len div 254" using assms(1) by (simp add: div_le_mono)
  ultimately show "1 + k + e + 2 \<le> cobs_bound len" using assms(1) by (simp add: cobs_bound_def)
qed

lemma cobs_refill_step:
  assumes "fifo_inv (cs_fifo s)" "fifo_capacity (cs_fifo s) = cap" "0 < cap"
    and "cs_offset s = min len (cap + k)" "k < len"
    and "fifo_list (cs_fifo s) = drop (k + 1) (take (cs_offset s) orig)"
    and "cs_log s = []" "length (cs_data s) = length orig" "len \<le> length orig"
    and "drop (cs_offset s) (take len (cs_data s)) = drop (cs_offset s) (take len orig)"
  shows "\<exists>f. cobs_refill len s = Some (s\<lparr>cs_fifo := f, cs_offset := min len (cap + (k + 1))\<rparr>) \<and>
    fifo_inv f \<and> fifo_capacity f = cap \<and>
    fifo_list f = drop (k + 1) (take (min len (cap + (k + 1))) orig)"
proof (cases "cs_offset s < len")
  case False
  then have "cs_offset s = len" "min len (cap + (k + 1)) = len" using assms(4) by auto
  then have "cobs_refill len s = Some (s\<lparr>cs_fifo := cs_fifo s, cs_offset := min len (cap + (k + 1))\<rparr>)"
    by (simp add: cobs_refill_def)
  then show ?thesis
    using assms(1,2,6) \<open>cs_offset s = len\<close> \<open>min len (cap + (k + 1)) = len\<close> by fastforce
next
  case True
  then have off: "cs_offset s = cap + k" "min len (cap + (k + 1)) = cap + (k + 1)"
    using assms(4) by auto
  have "cs_data s ! cs_offset s = drop (cs_offset s) (take len (cs_data s)) ! 0"
    using True assms(8,9) by simp
  also have "\<dots> = orig ! cs_offset s"
    using True assms(8,9) by (simp add: assms(10))
  finally have byte: "cs_data s ! cs_offset s = orig ! cs_offset s" .
  have "length (fifo_list (cs_fifo s)) < fifo_capacity (cs_fifo s)"
    using assms off True by simp
  then obtain f where f: "fd_fifo_put (cs_fifo s) (orig ! cs_offset s) = Some (True, f)" "fifo_inv f"
      "fifo_list f = fifo_list (cs_fifo s) @ [orig ! cs_offset s]" "fifo_capacity f = cap"
    using fifo_queue.put_room[OF assms(1)] assms(2) by auto
  have "fifo_list f = drop (k + 1) (take (Suc (cap + k)) orig)"
    using f(3) assms(3,6,9) off True by (simp add: take_Suc_conv_app_nth)
  moreover have "cobs_refill len s = Some (s\<lparr>cs_fifo := f, cs_offset := cap + (k + 1)\<rparr>)"
    using f(1) byte True assms(7,8,9) off by (cases s) (auto simp: cobs_refill_def mem_simps)
  ultimately show ?thesis
    using f(2,4) off by auto
qed

lemma cobs_step_inv:
  assumes inv: "cobs_inv orig len cap k s" and k: "k < len" and cap: "len \<le> 254 * cap"
    and room: "cobs_bound len \<le> length orig"
  shows "\<exists>s'. cobs_step len s = Some s' \<and> cobs_inv orig len cap (k + 1) s'"
proof -
  have len: "len \<le> length orig" using room by (simp add: cobs_bound_def)
  obtain out blk e where l: "cobs_layout out blk s" "cs_dst s = 1 + k + e" "254 * e + length blk \<le> k"
      "out @ cobs_stuff blk (drop k (take len orig)) = cobs_stuff [] (take len orig)"
    using inv by (auto simp: cobs_inv_def)
  have c0: "0 < cap" using k cap by linarith
  have ff: "fifo_inv (cs_fifo s)" "fifo_capacity (cs_fifo s) = cap" "cs_offset s = min len (cap + k)"
      "cs_log s = []" "length (cs_data s) = length orig"
      "drop (cs_offset s) (take len (cs_data s)) = drop (cs_offset s) (take len orig)"
      "drop (cobs_bound len) (cs_data s) = drop (cobs_bound len) orig"
    using inv unfolding cobs_inv_def by blast+
  have "fifo_list (cs_fifo s) = orig ! k # drop (k + 1) (take (cs_offset s) orig)"
    using inv k len c0 drop_take_nth_tl[of k "cs_offset s" orig] ff(3) by (simp add: cobs_inv_def)
  then obtain f where f: "fd_fifo_get (cs_fifo s) = Some (Some (orig ! k), f)" "fifo_inv f"
      "fifo_list f = drop (k + 1) (take (cs_offset s) orig)" "fifo_capacity f = cap"
    using fifo_queue.get_some[OF ff(1)] ff(2) by fastforce
  let ?off = "min len (cap + (k + 1))"
  obtain f2 where f2: "cobs_refill len (s\<lparr>cs_fifo := f\<rparr>) = Some (s\<lparr>cs_fifo := f2, cs_offset := ?off\<rparr>)"
      "fifo_inv f2" "fifo_capacity f2 = cap" "fifo_list f2 = drop (k + 1) (take ?off orig)"
    using cobs_refill_step[of "s\<lparr>cs_fifo := f\<rparr>" cap len k orig] f ff c0 k len by auto
  let ?s = "s\<lparr>cs_fifo := f2, cs_offset := ?off\<rparr>"
  have "cobs_layout out blk ?s"
    using l(1) by (subst cobs_layout_cong[where s = s]) simp_all
  moreover have "cs_dst ?s + (if orig ! k \<noteq> 0 \<and> length blk = 253 then 2 else 1) \<le> length (cs_data ?s)"
    using cobs_bound_dst[OF k l(3)] l(2) ff(5) room by auto
  ultimately obtain s' out' blk' where s': "cobs_emit len (orig ! k) ?s = Some s'"
      "cobs_layout out' blk' s'"
      "out' @ cobs_stuff blk' (drop (k + 1) (take len orig)) =
         out @ cobs_stuff blk (orig ! k # drop (k + 1) (take len orig))"
      "cobs_frame (cs_dst s + 1) ?s s'"
      "orig ! k = 0 \<and> blk' = [] \<and> cs_dst s' = cs_dst s + 1 \<or>
       orig ! k \<noteq> 0 \<and> blk' = blk @ [orig ! k] \<and> cs_dst s' = cs_dst s + 1 \<or>
       length blk = 253 \<and> blk' = [] \<and> cs_dst s' = cs_dst s + 2"
    using cobs_emit_step[of out blk ?s len "orig ! k" "drop (k + 1) (take len orig)"] k by force
  have log: "s\<lparr>cs_fifo := f, cs_log := cs_log s\<rparr> = s\<lparr>cs_fifo := f\<rparr>" by (cases s) simp
  have step: "cobs_step len s = Some s'"
    using f(1) f2(1) s'(1) log by (simp add: cobs_step_def Let_def)
  have "out' @ cobs_stuff blk' (drop (k + 1) (take len orig)) = cobs_stuff [] (take len orig)"
    using s'(3) l(4) drop_take_nth_tl[OF k len] by simp
  moreover have "\<exists>e'. cs_dst s' = 1 + (k + 1) + e' \<and> 254 * e' + length blk' \<le> k + 1"
    using s'(5) l(2,3) by auto
  moreover have "e < cap" using l(3) k cap by linarith
  moreover have fr: "drop n (cs_data s') = drop n (cs_data s)" if "cs_dst s + 1 \<le> n" for n
    using s'(4) that by (auto simp: cobs_frame_def dest: arg_cong[where f = "drop (n - (cs_dst s + 1))"])
  then have "drop (cobs_bound len) (cs_data s') = drop (cobs_bound len) orig"
    using cobs_bound_dst(1)[OF k l(3)] l(2) ff(7) by simp
  moreover have "drop ?off (take len (cs_data s')) = drop ?off (take len orig)"
  proof (cases "cap + (k + 1) < len")
    case True
    then have "drop ?off (take len (cs_data s')) = drop ?off (take len (cs_data s))"
      using fr[of ?off] \<open>e < cap\<close> l(2) by (simp add: drop_take)
    also have "\<dots> = drop 1 (drop (cs_offset s) (take len (cs_data s)))"
      using True ff(3) by (simp add: add.commute add.left_commute)
    also have "\<dots> = drop 1 (drop (cs_offset s) (take len orig))"
      by (simp only: ff(6))
    also have "\<dots> = drop ?off (take len orig)"
      using True ff(3) by (simp add: add.commute add.left_commute)
    finally show ?thesis .
  qed simp
  ultimately have "cobs_inv orig len cap (k + 1) s'"
    using s'(2,4) f2(2-4) ff(4,5) unfolding cobs_inv_def cobs_frame_def by auto
  with step show ?thesis by blast
qed

lemma cobs_loop_inv:
  assumes "len \<le> 254 * cap" "cobs_bound len \<le> length orig"
  shows "cobs_inv orig len cap k s \<Longrightarrow> k + r = len \<Longrightarrow>
    \<exists>s'. cobs_loop len r s = Some s' \<and> cobs_inv orig len cap len s'"
proof (induction r arbitrary: k s)
  case (Suc r)
  then obtain s1 where "cobs_step len s = Some s1" "cobs_inv orig len cap (k + 1) s1"
    using cobs_step_inv[OF Suc.prems(1) _ assms] by auto
  then show ?case using Suc.IH[of "k + 1" s1] Suc.prems(2) by auto
qed simp

lemma cobs_preload_fifo:
  "fifo_inv f \<Longrightarrow> offset + k \<le> length data \<Longrightarrow> length (fifo_list f) + k \<le> fifo_capacity f \<Longrightarrow>
   \<exists>f'. cobs_preload data offset k f log = Some (f', log) \<and> fifo_inv f' \<and>
     fifo_capacity f' = fifo_capacity f \<and> fifo_list f' = fifo_list f @ take k (drop offset data)"
proof (induction k arbitrary: offset f)
  case (Suc k)
  obtain f1 where f1: "fd_fifo_put f (data ! offset) = Some (True, f1)" "fifo_inv f1"
      "fifo_list f1 = fifo_list f @ [data ! offset]" "fifo_capacity f1 = fifo_capacity f"
    using fifo_queue.put_room[OF Suc.prems(1), of "data ! offset"] Suc.prems(3) by auto
  obtain f' where "cobs_preload data (offset + 1) k f1 log = Some (f', log)" "fifo_inv f'"
      "fifo_capacity f' = fifo_capacity f1"
      "fifo_list f' = fifo_list f1 @ take k (drop (offset + 1) data)"
    using Suc.IH[OF f1(2), of "offset + 1"] Suc.prems(2,3) f1(3,4) by auto
  then show ?case
    using f1 Suc.prems(2) by (auto simp: mem_simps take_Suc_conv_app_nth Cons_nth_drop_Suc[symmetric])
qed simp

section \<open>Properties\<close>

lemma cobs_encode_spec:
  assumes "0 < buffer_size" "buffer_size \<le> length buffer"
    and "len \<le> 254 * (buffer_size - 1)" "cobs_bound len \<le> length data"
  shows "\<exists>data'. fd_cobs_encode data len size' buffer buffer_size =
      Some (length (cobs_stuff [] (take len data)), data', []) \<and>
    take (length (cobs_stuff [] (take len data))) data' = cobs_stuff [] (take len data) \<and>
    length data' = length data \<and> drop (cobs_bound len) data' = drop (cobs_bound len) data"
proof -
  let ?cap = "buffer_size - 1" and ?n = "min len (buffer_size - 1)"
  let ?f = "fd_fifo_initialize buffer buffer_size" and ?enc = "cobs_stuff [] (take len data)"
  have len: "len < length data" using assms(4) by (simp add: cobs_bound_def)
  have "0 + ?n \<le> length data" "length (fifo_list ?f) + ?n \<le> fifo_capacity ?f" using len by simp_all
  from cobs_preload_fifo[OF fifo_inv_initialize[OF assms(1,2)] this, of "[]"]
  obtain f' where f: "cobs_preload data 0 ?n ?f [] = Some (f', [])" "fifo_inv f'"
      "fifo_capacity f' = ?cap" "fifo_list f' = take ?n data"
    by auto
  let ?s = "\<lparr>cs_data = data, cs_fifo = f', cs_offset = ?n, cs_dst = 1, cs_code_pointer = 0,
    cs_code = 1, cs_log = []\<rparr>"
  have n: "(if len > ?cap then ?cap else len) = ?n" by simp
  have "cobs_layout [] [] ?s"
    using len by (cases data) (auto simp: cobs_layout_def)
  then have lay: "\<exists>out blk e. cobs_layout out blk ?s \<and>
      out @ cobs_stuff blk (drop 0 (take len data)) = ?enc \<and>
      cs_dst ?s = 1 + 0 + e \<and> 254 * e + length blk \<le> 0"
    by (intro exI[of _ "[]"] exI[of _ 0] conjI) simp_all
  have "cobs_inv data len ?cap 0 ?s"
    unfolding cobs_inv_def using lay f(2-4) by simp
  then obtain s' where s': "cobs_loop len len ?s = Some s'" "cobs_inv data len ?cap len s'"
    using cobs_loop_inv[OF assms(3,4), of 0 ?s len] by auto
  obtain out blk e where l: "cobs_layout out blk s'" "out @ cobs_stuff blk [] = ?enc"
      "cs_dst s' = 1 + len + e" "254 * e + length blk \<le> len"
    using s'(2) len by (auto simp: cobs_inv_def)
  let ?d = "(cs_data s')[cs_code_pointer s' := cs_code s']"
  have layout: "cs_dst s' = length out + 1 + length blk" "cs_code s' = of_nat (length blk + 1)"
      "cs_code_pointer s' < cs_dst s'"
    using l(1) by (auto simp: cobs_layout_def)
  then have enc: "?enc = out @ cs_code s' # blk" using l(2) by simp
  have "e \<le> len div 254" using l(4) by (simp add: less_eq_div_iff_mult_less_eq)
  then have "cs_dst s' \<le> cobs_bound len" using l(3) by (simp add: cobs_bound_def)
  then have "drop (cobs_bound len) ?d = drop (cobs_bound len) data"
    using layout(3) s'(2) by (simp add: cobs_inv_def drop_update_cancel)
  moreover have "length ?d = length data" "cs_log s' = []" using s'(2) by (simp_all add: cobs_inv_def)
  moreover have "take (length ?enc) ?d = ?enc"
    using cobs_layout_code(2)[OF l(1), of "cs_code s'"] enc layout(1) by simp
  moreover have "cs_dst s' = length ?enc" using enc layout(1) by simp
  ultimately show ?thesis
    using f(1) s'(1) cobs_layout_code(1)[OF l(1)] assms(1)
    by (auto simp: fd_cobs_encode_def Let_def mem_simps n)
qed

text \<open>in-place encoding is memory safe and correct. With an array of at least
  \<open>length + 1 + length div 254\<close> bytes and a FIFO buffer of \<open>buffer_size\<close> bytes such that
  \<open>length \<le> 254 * (buffer_size - 1)\<close>, \<open>fd_cobs_encode\<close> never leaves the array, never
  overtakes its own unread input, fails no assertion, returns the length of the COBS encoding of
  the input, leaves that encoding at the front of the array, and touches nothing behind the
  worst-case length.\<close>

theorem fd_cobs_encode_correct:
  assumes "0 < buffer_size" "buffer_size \<le> length buffer"
    and "len \<le> 254 * (buffer_size - 1)" "cobs_bound len \<le> length data"
  shows "\<exists>data'. fd_cobs_encode data len size' buffer buffer_size =
      Some (length (cobs_stuff [] (take len data)), data', []) \<and>
    take (length (cobs_stuff [] (take len data))) data' = cobs_stuff [] (take len data) \<and>
    length data' = length data \<and> drop (cobs_bound len) data' = drop (cobs_bound len) data"
  using cobs_encode_spec[OF assms] .

theorem fd_cobs_encode_correct_witness:
  "\<exists>data'. fd_cobs_encode [17, 0, 34, 51, 0, 0] 4 6 [0, 0, 0] 3 = Some (5, data', []) \<and>
    take 5 data' = [2, 17, 3, 34, 51]"
proof -
  have enc: "cobs_stuff [] (take 4 [17, 0, 34, 51, 0, 0]) = [2, 17, 3, 34, 51]" by simp
  have len: "length [2, 17, 3, 34, 51 :: u8] = 5" by simp
  show ?thesis
    using fd_cobs_encode_correct[of 3 "[0, 0, 0]" 4 "[17, 0, 34, 51, 0, 0]" 6, unfolded enc len]
    by (auto simp: cobs_bound_def)
qed

text \<open>C2: decoding what was encoded gives back the message, with both functions working in place on the same array.
  Conditions: the look-ahead buffer has its \<open>buffer_size > 0\<close> bytes, the message has at most
  \<open>254 * (buffer_size - 1)\<close> bytes (a longer one can make the encoder overwrite bytes that it has not read), and the array
  has room for the longest encoding of a message of that length (\<open>cobs_bound\<close>), whatever \<open>size\<close> says. Then the encoder
  returns without an access outside of the arrays and without an error of its FIFO, no byte of the encoding is zero, so
  that the zero byte delimits packets, and the decoder returns the message.\<close>

theorem fd_cobs_roundtrip:
  assumes "0 < buffer_size" "buffer_size \<le> length buffer"
    and "len \<le> 254 * (buffer_size - 1)" "cobs_bound len \<le> length data"
  shows "\<exists>n data1 data2. fd_cobs_encode data len size' buffer buffer_size = Some (n, data1, []) \<and>
    0 \<notin> set (take n data1) \<and> len < n \<and> n \<le> cobs_bound len \<and>
    fd_cobs_decode data1 n = Some (len, data2) \<and> take len data2 = take len data"
proof -
  have len: "len < length data" using assms(4) by (simp add: cobs_bound_def)
  define n where "n = length (cobs_stuff [] (take len data))"
  obtain data1 where e: "fd_cobs_encode data len size' buffer buffer_size = Some (n, data1, [])"
      "take n data1 = cobs_stuff [] (take len data)" "length data1 = length data"
    using cobs_encode_spec[OF assms] unfolding n_def by blast
  have bounds: "len < n" "n \<le> cobs_bound len"
    using cobs_stuff_length[of "[]" "take len data"] n_def len by (auto simp: cobs_bound_def)
  then have "n \<le> length data1" using e(3) assms(4) by simp
  from fd_cobs_decode_spec[OF this] have "cobs_decodes n data1 0 (take len data) (fd_cobs_decode data1 n)"
    using e(2) cobs_unstuff_stuff[of "[]" 255 "take len data"] by simp
  moreover have "0 \<notin> set (take n data1)" using e(2) cobs_stuff_nonzero[of "[]"] by simp
  ultimately show ?thesis using e(1) bounds len by (auto simp: cobs_decodes_def)
qed

theorem fd_cobs_roundtrip_witness:
  "\<exists>n data1 data2. fd_cobs_encode [17, 0, 34, 51, 0, 0] 4 6 [0, 0, 0] 3 = Some (n, data1, []) \<and>
    fd_cobs_decode data1 n = Some (4, data2) \<and> take 4 data2 = [17, 0, 34, 51]"
  using fd_cobs_roundtrip[of 3 "[0, 0, 0]" 4 "[17, 0, 34, 51, 0, 0]" 6] by (auto simp: cobs_bound_def)

lemma cobs_decode_safe:
  assumes "len \<le> length data"
  shows "\<exists>n data'. fd_cobs_decode data len = Some (n, data') \<and> n \<le> len \<and>
    length data' = length data \<and> take n data' = cobs_unstuff 255 0 (take len data) \<and>
    drop len data' = drop len data"
proof -
  have le: "length (cobs_unstuff c bl xs) + (if c = 255 \<and> bl = 0 \<and> xs \<noteq> [] then 1 else 0) \<le> length xs" for c bl xs
    by (induction c bl xs rule: cobs_unstuff.induct) (auto split: if_splits)
  show ?thesis
    using fd_cobs_decode_spec[OF assms] le[of 255 0 "take len data"] assms
    by (auto simp: cobs_decodes_def)
qed

text \<open>decoding any received bytes, well formed or not, stays inside the array, terminates, and
  the decoded length never exceeds the received length.\<close>

theorem fd_cobs_decode_safe:
  assumes "len \<le> length data"
  shows "\<exists>n data'. fd_cobs_decode data len = Some (n, data') \<and> n \<le> len \<and>
    length data' = length data \<and> take n data' = cobs_unstuff 255 0 (take len data) \<and>
    drop len data' = drop len data"
  using cobs_decode_safe[OF assms] .

theorem fd_cobs_decode_safe_witness:
  "\<exists>n data'. fd_cobs_decode [9, 1, 0, 4] 4 = Some (n, data') \<and> n \<le> 4"
  using fd_cobs_decode_safe[of 4 "[9, 1, 0, 4]"] by auto

text \<open>the encoder ignores the \<open>size\<close> it is given: whatever \<open>size\<close> says, an array that has
  room for the message but not for the code byte is overrun.\<close>

theorem fd_cobs_encode_overruns:
  "fd_cobs_encode [17, 34] 2 size' [0, 0, 0] 3 = None"
  by (simp add: fd_cobs_encode_def fd_fifo_initialize_def fd_fifo_put_def fd_fifo_get_def
      numeral_2_eq_2 cobs_step_def cobs_refill_def cobs_emit_def rd_def wr_def Let_def)

end
