(* ===== verification/FD_Crc.thy ===== *)
theory FD_Crc imports FD_Prelude begin

text \<open>
  The two checksums of the base library. \<open>fd_crc16_update\<close> (subsys/base/src/fd_crc16.c) computes a
  16-bit CRC bit by bit in a 32-bit variable that it never masks; \<open>fd_crc32_*\<close>
  (subsys/base/src/fd_crc32.c) is driven by a table of 256 words. Both are shown equal to the
  shift register \<open>crc_step\<close> of their width, which is linear and injective: the error detection
  properties follow from that.
\<close>

section \<open>The code\<close>

fun crc16_bits :: "nat \<Rightarrow> u32 \<Rightarrow> u32" where
  "crc16_bits 0 crc = crc"
| "crc16_bits (Suc j) crc =
     (let temp = push_bit 1 crc;
          temp = (if crc AND 0x8000 \<noteq> 0 then temp XOR 0x1021 else temp)
      in crc16_bits j temp)"

definition crc16_byte :: "u32 \<Rightarrow> u8 \<Rightarrow> u32" where
  "crc16_byte crc byte = crc16_bits 8 (crc XOR push_bit 8 (ucast byte))"

definition fd_crc16_update :: "u8 list \<Rightarrow> u16" where
  "fd_crc16_update data = ucast (foldl crc16_byte 0 data)"

definition fd_crc32_table :: "u32 list" where
  "fd_crc32_table =
    [0x00000000, 0x04c11db7, 0x09823b6e, 0x0d4326d9, 0x130476dc, 0x17c56b6b, 0x1a864db2, 0x1e475005,
     0x2608edb8, 0x22c9f00f, 0x2f8ad6d6, 0x2b4bcb61, 0x350c9b64, 0x31cd86d3, 0x3c8ea00a, 0x384fbdbd,
     0x4c11db70, 0x48d0c6c7, 0x4593e01e, 0x4152fda9, 0x5f15adac, 0x5bd4b01b, 0x569796c2, 0x52568b75,
     0x6a1936c8, 0x6ed82b7f, 0x639b0da6, 0x675a1011, 0x791d4014, 0x7ddc5da3, 0x709f7b7a, 0x745e66cd,
     0x9823b6e0, 0x9ce2ab57, 0x91a18d8e, 0x95609039, 0x8b27c03c, 0x8fe6dd8b, 0x82a5fb52, 0x8664e6e5,
     0xbe2b5b58, 0xbaea46ef, 0xb7a96036, 0xb3687d81, 0xad2f2d84, 0xa9ee3033, 0xa4ad16ea, 0xa06c0b5d,
     0xd4326d90, 0xd0f37027, 0xddb056fe, 0xd9714b49, 0xc7361b4c, 0xc3f706fb, 0xceb42022, 0xca753d95,
     0xf23a8028, 0xf6fb9d9f, 0xfbb8bb46, 0xff79a6f1, 0xe13ef6f4, 0xe5ffeb43, 0xe8bccd9a, 0xec7dd02d,
     0x34867077, 0x30476dc0, 0x3d044b19, 0x39c556ae, 0x278206ab, 0x23431b1c, 0x2e003dc5, 0x2ac12072,
     0x128e9dcf, 0x164f8078, 0x1b0ca6a1, 0x1fcdbb16, 0x018aeb13, 0x054bf6a4, 0x0808d07d, 0x0cc9cdca,
     0x7897ab07, 0x7c56b6b0, 0x71159069, 0x75d48dde, 0x6b93dddb, 0x6f52c06c, 0x6211e6b5, 0x66d0fb02,
     0x5e9f46bf, 0x5a5e5b08, 0x571d7dd1, 0x53dc6066, 0x4d9b3063, 0x495a2dd4, 0x44190b0d, 0x40d816ba,
     0xaca5c697, 0xa864db20, 0xa527fdf9, 0xa1e6e04e, 0xbfa1b04b, 0xbb60adfc, 0xb6238b25, 0xb2e29692,
     0x8aad2b2f, 0x8e6c3698, 0x832f1041, 0x87ee0df6, 0x99a95df3, 0x9d684044, 0x902b669d, 0x94ea7b2a,
     0xe0b41de7, 0xe4750050, 0xe9362689, 0xedf73b3e, 0xf3b06b3b, 0xf771768c, 0xfa325055, 0xfef34de2,
     0xc6bcf05f, 0xc27dede8, 0xcf3ecb31, 0xcbffd686, 0xd5b88683, 0xd1799b34, 0xdc3abded, 0xd8fba05a,
     0x690ce0ee, 0x6dcdfd59, 0x608edb80, 0x644fc637, 0x7a089632, 0x7ec98b85, 0x738aad5c, 0x774bb0eb,
     0x4f040d56, 0x4bc510e1, 0x46863638, 0x42472b8f, 0x5c007b8a, 0x58c1663d, 0x558240e4, 0x51435d53,
     0x251d3b9e, 0x21dc2629, 0x2c9f00f0, 0x285e1d47, 0x36194d42, 0x32d850f5, 0x3f9b762c, 0x3b5a6b9b,
     0x0315d626, 0x07d4cb91, 0x0a97ed48, 0x0e56f0ff, 0x1011a0fa, 0x14d0bd4d, 0x19939b94, 0x1d528623,
     0xf12f560e, 0xf5ee4bb9, 0xf8ad6d60, 0xfc6c70d7, 0xe22b20d2, 0xe6ea3d65, 0xeba91bbc, 0xef68060b,
     0xd727bbb6, 0xd3e6a601, 0xdea580d8, 0xda649d6f, 0xc423cd6a, 0xc0e2d0dd, 0xcda1f604, 0xc960ebb3,
     0xbd3e8d7e, 0xb9ff90c9, 0xb4bcb610, 0xb07daba7, 0xae3afba2, 0xaafbe615, 0xa7b8c0cc, 0xa379dd7b,
     0x9b3660c6, 0x9ff77d71, 0x92b45ba8, 0x9675461f, 0x8832161a, 0x8cf30bad, 0x81b02d74, 0x857130c3,
     0x5d8a9099, 0x594b8d2e, 0x5408abf7, 0x50c9b640, 0x4e8ee645, 0x4a4ffbf2, 0x470cdd2b, 0x43cdc09c,
     0x7b827d21, 0x7f436096, 0x7200464f, 0x76c15bf8, 0x68860bfd, 0x6c47164a, 0x61043093, 0x65c52d24,
     0x119b4be9, 0x155a565e, 0x18197087, 0x1cd86d30, 0x029f3d35, 0x065e2082, 0x0b1d065b, 0x0fdc1bec,
     0x3793a651, 0x3352bbe6, 0x3e119d3f, 0x3ad08088, 0x2497d08d, 0x2056cd3a, 0x2d15ebe3, 0x29d4f654,
     0xc5a92679, 0xc1683bce, 0xcc2b1d17, 0xc8ea00a0, 0xd6ad50a5, 0xd26c4d12, 0xdf2f6bcb, 0xdbee767c,
     0xe3a1cbc1, 0xe760d676, 0xea23f0af, 0xeee2ed18, 0xf0a5bd1d, 0xf464a0aa, 0xf9278673, 0xfde69bc4,
     0x89b8fd09, 0x8d79e0be, 0x803ac667, 0x84fbdbd0, 0x9abc8bd5, 0x9e7d9662, 0x933eb0bb, 0x97ffad0c,
     0xafb010b1, 0xab710d06, 0xa6322bdf, 0xa2f33668, 0xbcb4666d, 0xb8757bda, 0xb5365d03, 0xb1f740b4]"

record fd_crc32_t =
  crc32_crc :: u32
  crc32_count :: u32

definition fd_crc32_initialize :: fd_crc32_t where
  "fd_crc32_initialize = \<lparr>crc32_crc = 0xFFFFFFFF, crc32_count = 0\<rparr>"

definition crc32_byte :: "u32 \<Rightarrow> u8 \<Rightarrow> u32" where
  "crc32_byte crc c = push_bit 8 crc XOR fd_crc32_table ! unat (drop_bit 24 crc XOR ucast c)"

definition fd_crc32_update :: "fd_crc32_t \<Rightarrow> u8 list \<Rightarrow> fd_crc32_t" where
  "fd_crc32_update s data =
     s\<lparr>crc32_count := crc32_count s + of_nat (length data),
       crc32_crc := foldl crc32_byte (crc32_crc s) data\<rparr>"

fun crc32_pad :: "nat \<Rightarrow> u32 \<Rightarrow> u32" where
  "crc32_pad 0 crc = crc"
| "crc32_pad (Suc i) crc = crc32_pad i (crc32_byte crc 0)"

definition fd_crc32_finalize :: "fd_crc32_t \<Rightarrow> fd_crc32_t" where
  "fd_crc32_finalize s =
     (if crc32_count s mod 4 = 0 then s
      else s\<lparr>crc32_crc := crc32_pad (4 - unat (crc32_count s mod 4)) (crc32_crc s)\<rparr>)"

section \<open>The shift register\<close>

definition crc_step :: "'a::len word \<Rightarrow> 'a word \<Rightarrow> 'a word" where
  "crc_step p c = push_bit 1 c XOR (if bit c (LENGTH('a) - 1) then p else 0)"

definition crc_run :: "'a::len word \<Rightarrow> nat \<Rightarrow> 'a word \<Rightarrow> 'a word" where
  "crc_run p n c = (crc_step p ^^ n) c"

definition crc_ref_byte :: "'a::len word \<Rightarrow> 'a word \<Rightarrow> u8 \<Rightarrow> 'a word" where
  "crc_ref_byte p c b = crc_run p 8 (c XOR push_bit (LENGTH('a) - 8) (ucast b))"

lemma push_bit_xor: "push_bit n (a XOR b) = push_bit n a XOR (push_bit n b :: 'a::len word)"
  by (rule bit_word_eqI) (auto simp: bit_simps)

lemma crc_step_xor: "crc_step p (a XOR b) = crc_step p a XOR crc_step p b"
  by (rule bit_word_eqI) (auto simp: crc_step_def bit_simps)

lemma crc_run_xor: "crc_run p n (a XOR b) = crc_run p n a XOR crc_run p n b"
  by (induction n) (simp_all add: crc_run_def crc_step_xor)

lemma crc_run_add: "crc_run p (m + n) c = crc_run p m (crc_run p n c)"
  by (simp add: crc_run_def funpow_add)

lemma crc_run_0 [simp]: "crc_run p n 0 = 0"
  by (induction n) (simp_all add: crc_run_def crc_step_def)

lemma crc_step_bit_0: "bit p 0 \<Longrightarrow> bit (crc_step p c) 0 = bit (c :: 'a::len word) (LENGTH('a) - 1)"
  by (simp only: crc_step_def bit_xor_iff bit_push_bit_iff) auto

lemma crc_step_bit_Suc:
  "\<not> bit c (LENGTH('a) - 1) \<Longrightarrow> Suc i < LENGTH('a) \<Longrightarrow> bit (crc_step p c) (Suc i) = bit (c :: 'a::len word) i"
  by (simp only: crc_step_def bit_xor_iff bit_push_bit_iff) (auto simp: possible_bit_word)

lemma crc_step_eq_0:
  assumes "bit p 0" "crc_step p c = 0" shows "c = (0 :: 'a::len word)"
proof (rule bit_word_eqI)
  have top: "\<not> bit c (LENGTH('a) - 1)"
    using assms(2) crc_step_bit_0[OF assms(1), of c] by simp
  have "Suc i < LENGTH('a) \<Longrightarrow> \<not> bit c i" for i
    using crc_step_bit_Suc[OF top, of i p] assms(2) by simp
  then show "bit c i = bit 0 i" if "i < LENGTH('a)" for i
    using top that by (cases "Suc i < LENGTH('a)") (auto simp: not_less le_Suc_eq)
qed

lemma crc_run_eq_0: "bit p 0 \<Longrightarrow> crc_run p n c = 0 \<longleftrightarrow> c = 0"
  by (induction n) (auto simp: crc_run_def crc_step_def dest: crc_step_eq_0[unfolded crc_step_def])

text \<open>As long as the bits shifted out are zero, the register only shifts.\<close>

lemma crc_run_shift:
  "drop_bit (LENGTH('a) - n) c = 0 \<Longrightarrow> n \<le> LENGTH('a) \<Longrightarrow> crc_run p n c = push_bit n (c :: 'a::len word)"
proof (induction n)
  case (Suc n)
  have z: "\<not> bit c i" if "LENGTH('a) - Suc n \<le> i" for i
  proof -
    have "bit (drop_bit (LENGTH('a) - Suc n) c) (i - (LENGTH('a) - Suc n)) = False"
      using Suc.prems(1) by simp
    then show ?thesis using that by (simp add: bit_simps)
  qed
  have "drop_bit (LENGTH('a) - n) c = 0"
    by (rule bit_word_eqI) (use z in \<open>simp add: bit_simps\<close>)
  then have "crc_run p n c = push_bit n c" using Suc by simp
  moreover have "\<not> bit (push_bit n c) (LENGTH('a) - 1)"
    using z[of "LENGTH('a) - 1 - n"] Suc.prems(2) by (simp add: bit_simps)
  ultimately show ?case
    by (simp add: crc_run_def crc_step_def)
qed (simp add: crc_run_def)

section \<open>Messages\<close>

definition crc_ref :: "'a::len word \<Rightarrow> 'a word \<Rightarrow> u8 list \<Rightarrow> 'a word" where
  "crc_ref p c bs = foldl (crc_ref_byte p) c bs"

lemma crc_ref_Nil [simp]: "crc_ref p c [] = c"
  by (simp add: crc_ref_def)

lemma crc_ref_Cons: "crc_ref p c (b # bs) = crc_ref p (crc_ref_byte p c b) bs"
  by (simp add: crc_ref_def)

lemma crc_ref_append: "crc_ref p c (xs @ ys) = crc_ref p (crc_ref p c xs) ys"
  by (simp add: crc_ref_def)

lemma ucast_xor: "ucast (a XOR b) = (ucast a XOR ucast b :: 'a::len word)" for a b :: u8
  by (rule bit_word_eqI) (auto simp: bit_simps)

lemma crc_ref_byte_xor:
  "crc_ref_byte p (c XOR d) (a XOR b) = crc_ref_byte p c a XOR crc_ref_byte p d b"
  by (simp add: crc_ref_byte_def crc_run_xor ucast_xor push_bit_xor ac_simps)

lemma crc_ref_xor:
  "length xs = length ys \<Longrightarrow>
     crc_ref p (c XOR d) (map2 (XOR) xs ys) = crc_ref p c xs XOR crc_ref p d ys"
  by (induction xs ys arbitrary: c d rule: list_induct2) (simp_all add: crc_ref_Cons crc_ref_byte_xor)

lemma crc_ref_zeros: "crc_ref p c (replicate n 0) = crc_run p (8 * n) c"
proof (induction n arbitrary: c)
  case (Suc n)
  have "crc_run p (8 * Suc n) c = crc_run p (8 * n) (crc_run p 8 c)"
    by (subst crc_run_add[symmetric]) (simp add: algebra_simps)
  then show ?case by (simp add: crc_ref_Cons crc_ref_byte_def Suc)
qed (simp add: crc_run_def)

lemma crc_ref_split: "crc_ref p c bs = crc_run p (8 * length bs) c XOR crc_ref p 0 bs"
proof -
  have "map2 (XOR) (replicate (length bs) 0) bs = bs"
    by (induction bs) simp_all
  then show ?thesis
    using crc_ref_xor[of "replicate (length bs) 0" bs p c 0] by (simp add: crc_ref_zeros)
qed

text \<open>The first bytes of a message, as one word in the order the register takes them.\<close>

fun crc_pack :: "u8 list \<Rightarrow> 'a::len word" where
  "crc_pack [] = 0"
| "crc_pack (b # bs) = push_bit (LENGTH('a) - 8) (ucast b) XOR drop_bit 8 (crc_pack bs)"

lemma crc_pack_low: "bit (crc_pack bs :: 'a::len word) i \<Longrightarrow> LENGTH('a) < 8 * length bs + Suc i"
proof (induction bs arbitrary: i)
  case (Cons b bs)
  then show ?case
    by (fastforce simp: bit_simps)
qed simp

lemma crc_ref_pack:
  "8 * length bs \<le> LENGTH('a) \<Longrightarrow> crc_ref p 0 bs = crc_run p (8 * length bs) (crc_pack bs :: 'a::len word)"
proof (induction bs)
  case (Cons b bs)
  have len: "8 \<le> LENGTH('a)" using Cons.prems by simp
  have "drop_bit (LENGTH('a) - 8) (drop_bit 8 (crc_pack bs :: 'a word)) = 0"
    by (rule bit_word_eqI) (use len in \<open>auto simp: bit_simps dest: bit_imp_le_length\<close>)
  then have "crc_run p 8 (drop_bit 8 (crc_pack bs)) = push_bit 8 (drop_bit 8 (crc_pack bs :: 'a word))"
    using len by (rule crc_run_shift)
  also have "\<dots> = crc_pack bs"
    by (rule bit_word_eqI) (use crc_pack_low[of bs] Cons.prems in \<open>fastforce simp: bit_simps\<close>)
  finally have shift: "crc_run p 8 (drop_bit 8 (crc_pack bs)) = (crc_pack bs :: 'a word)" .
  have "crc_ref p 0 (b # bs) =
      crc_run p (8 * length bs) (crc_run p 8 (push_bit (LENGTH('a) - 8) (ucast b)) XOR crc_pack bs)"
    using Cons crc_ref_split[of p "crc_run p 8 (push_bit (LENGTH('a) - 8) (ucast b))" bs]
    by (simp add: crc_ref_Cons crc_ref_byte_def crc_run_xor)
  also have "\<dots> = crc_run p (8 * length bs) (crc_run p 8 (crc_pack (b # bs)))"
    by (simp add: crc_run_xor shift)
  also have "\<dots> = crc_run p (8 * length (b # bs)) (crc_pack (b # bs))"
    by (simp add: crc_run_add[symmetric] add.commute)
  finally show ?case .
qed simp

lemma crc_pack_eq_0:
  "8 * length bs \<le> LENGTH('a) \<Longrightarrow> crc_pack bs = (0 :: 'a::len word) \<Longrightarrow> set bs \<subseteq> {0}"
proof (induction bs)
  case (Cons b bs)
  have len: "8 \<le> LENGTH('a)" using Cons.prems by simp
  have z: "\<not> bit (crc_pack (b # bs) :: 'a word) i" for i
    using Cons.prems by (simp del: crc_pack.simps)
  have hi: "\<not> bit (drop_bit 8 (crc_pack bs :: 'a word)) i" if "LENGTH('a) - 8 \<le> i" for i
    using that len by (auto simp: bit_simps dest: bit_imp_le_length)
  have "\<not> bit b j" if "j < 8" for j
    using z[of "LENGTH('a) - 8 + j"] hi[of "LENGTH('a) - 8 + j"] that len by (simp add: bit_simps)
  then have b: "b = 0" by (intro bit_word_eqI) simp
  have "\<not> bit (crc_pack bs :: 'a word) i" for i
  proof (cases "i < 8")
    case True then show ?thesis using crc_pack_low[of bs i] Cons.prems(1) by fastforce
  next
    case False
    then have "bit (drop_bit 8 (crc_pack bs :: 'a word)) (i - 8) = bit (crc_pack bs :: 'a word) i"
      by (simp add: bit_simps)
    then show ?thesis using z[of "i - 8"] b by (simp add: bit_simps)
  qed
  then have "crc_pack bs = (0 :: 'a word)" by (intro bit_word_eqI) simp
  then show ?case using Cons b by simp
qed simp

lemma xor_eq_0_iff_eq: "a XOR b = 0 \<longleftrightarrow> a = (b :: 'a::len word)"
  by (metis xor.assoc xor.left_neutral xor_self_eq)

lemma crc_ref_burst:
  assumes "bit p 0" "length a = length b" "8 * length a \<le> LENGTH('a)" "a \<noteq> b"
  shows "crc_ref p c (pre @ a @ post) \<noteq> crc_ref p (c :: 'a::len word) (pre @ b @ post)"
proof
  assume eq: "crc_ref p c (pre @ a @ post) = crc_ref p c (pre @ b @ post)"
  let ?d = "map2 (XOR) a b"
  have "crc_ref p 0 (?d @ replicate (length post) 0) = 0"
    using eq crc_ref_xor[of "a @ post" "b @ post" p "crc_ref p c pre" "crc_ref p c pre"] assms(2)
    by (simp add: crc_ref_append map_replicate_const[symmetric] zip_same_conv_map o_def)
  then have "crc_ref p 0 ?d = 0"
    using assms(1) by (simp add: crc_ref_append crc_ref_zeros crc_run_eq_0)
  then have "crc_pack ?d = (0 :: 'a word)"
    using crc_ref_pack[of ?d p] assms by (simp add: crc_run_eq_0)
  then have "set ?d \<subseteq> {0}"
    by (rule crc_pack_eq_0[rotated]) (use assms in simp)
  then have "\<forall>i < length a. a ! i XOR b ! i = 0"
    using assms(2) by (auto simp: set_zip)
  then have "a = b" using assms(2) by (auto intro!: nth_equalityI simp: xor_eq_0_iff_eq)
  then show False using assms(4) by simp
qed

section \<open>The code computes the reference checksums\<close>

lemma ucast_push_bit: "(ucast (push_bit n c) :: u16) = push_bit n (ucast c)" for c :: u32
  by (rule bit_word_eqI) (auto simp: bit_simps)

lemma crc16_bits_run:
  "(ucast (crc16_bits n crc) :: u16) = crc_run 0x1021 n (ucast crc)"
proof (induction n arbitrary: crc)
  case (Suc n)
  have "crc AND 0x8000 \<noteq> 0 \<longleftrightarrow> bit crc 15"
    using and_exp_eq_0_iff_not_bit[of crc 15] by simp
  moreover note ucast_push_bit[of 1 crc]
  moreover have "(ucast (push_bit 1 crc XOR 0x1021) :: u16) = ucast (push_bit 1 crc) XOR 0x1021"
    by (simp add: unsigned_xor_eq)
  ultimately have "(ucast (if crc AND 0x8000 \<noteq> 0 then push_bit 1 crc XOR 0x1021 else push_bit 1 crc) :: u16)
      = crc_step 0x1021 (ucast crc)" (is "ucast ?t = _")
    by (simp add: crc_step_def bit_simps del: push_bit_of_1)
  moreover have "crc16_bits (Suc n) crc = crc16_bits n ?t"
    by (simp only: crc16_bits.simps Let_def)
  ultimately show ?case
    by (simp only: Suc.IH crc_run_def funpow_Suc_right o_apply)
qed (simp add: crc_run_def)

lemma crc16_byte_ref: "(ucast (crc16_byte crc b) :: u16) = crc_ref_byte 0x1021 (ucast crc) b"
proof -
  have "(ucast (push_bit 8 (ucast b :: u32)) :: u16) = push_bit 8 (ucast b)"
    by (rule bit_word_eqI) (auto simp: bit_simps)
  then show ?thesis
    by (simp add: crc16_byte_def crc16_bits_run crc_ref_byte_def unsigned_xor_eq)
qed

lemma crc16_foldl_ref:
  "(ucast (foldl crc16_byte crc data) :: u16) = crc_ref 0x1021 (ucast crc) data"
  by (induction data arbitrary: crc) (simp_all add: crc_ref_Cons crc16_byte_ref)

text \<open>\<open>fd_crc16_update\<close>, which lets its 32-bit accumulator grow past 16 bits, computes the
  16-bit shift register with polynomial 0x1021 and initial value 0 over every byte sequence.\<close>

theorem fd_crc16_update_ref: "fd_crc16_update data = crc_ref 0x1021 0 data"
  using crc16_foldl_ref[of 0 data] by (simp add: fd_crc16_update_def)

lemma fd_crc16_ref: "fd_crc16_update data = crc_ref 0x1021 0 data"
  using crc16_foldl_ref[of 0 data] by (simp add: fd_crc16_update_def)

text \<open>two messages of the same length that differ only within two adjacent bytes have
  different 16-bit checksums.\<close>

theorem fd_crc16_detects_burst:
  assumes "length a = length b" "length a \<le> 2" "a \<noteq> b"
  shows "fd_crc16_update (pre @ a @ post) \<noteq> fd_crc16_update (pre @ b @ post)"
  unfolding fd_crc16_ref by (rule crc_ref_burst) (use assms in simp_all)

theorem fd_crc16_detects_burst_witness:
  "fd_crc16_update [1, 2, 3, 4] \<noteq> fd_crc16_update [1, 2, 7, 4]"
  using fd_crc16_detects_burst[of "[2, 3]" "[2, 7]" "[1]" "[4]"] by simp

text \<open>
  The table against the polynomial: every entry is twice the entry of half its index (the register
  shifted once), with the polynomial added for odd indices.
\<close>

fun crc_double :: "u32 list \<Rightarrow> u32 list" where
  "crc_double [] = []"
| "crc_double (c # cs) =
     (let d = (if 0x80000000 \<le> c then push_bit 1 c XOR 0x04c11db7 else push_bit 1 c)
      in d # (d XOR 0x04c11db7) # crc_double cs)"

lemma fd_crc32_table_double: "crc_double (take 128 fd_crc32_table) = fd_crc32_table"
  by code_simp

lemma length_fd_crc32_table: "length fd_crc32_table = 256"
  by code_simp

lemma u32_top_bit: "0x80000000 \<le> (c :: u32) \<longleftrightarrow> bit c 31"
proof -
  have "bit c 31 \<longleftrightarrow> 2 ^ 31 \<le> unat c"
  proof -
    have "bit c 31 \<longleftrightarrow> bit (unat c) 31" by (simp add: bit_unsigned_iff)
    also have "\<dots> \<longleftrightarrow> odd (unat c div 2 ^ 31)" by (rule bit_iff_odd)
    finally have "bit c 31 \<longleftrightarrow> odd (unat c div 2 ^ 31)" .
    moreover have "unat c div 2 ^ 31 < 2" using unsigned_less[of c, where ?'a = nat] by (simp add: less_mult_imp_div_less)
    ultimately show ?thesis by (auto simp: odd_iff_mod_2_eq_one div_eq_0_iff dest: less_2_cases)
  qed
  then show ?thesis by (simp add: word_le_nat_alt)
qed

lemma crc_double_nth:
  "i < length cs \<Longrightarrow>
     crc_double cs ! (2 * i) = crc_step 0x04c11db7 (cs ! i) \<and>
     crc_double cs ! Suc (2 * i) = crc_step 0x04c11db7 (cs ! i) XOR 0x04c11db7"
proof (induction cs arbitrary: i rule: crc_double.induct)
  case (2 c cs)
  then show ?case
    by (cases i) (simp_all add: Let_def crc_step_def u32_top_bit)
qed simp

lemma crc32_step_index:
  assumes "i < 128"
  shows "crc_run 0x04c11db7 8 (push_bit 24 (of_nat (2 * i))) =
           crc_step 0x04c11db7 (crc_run 0x04c11db7 8 (push_bit 24 (of_nat i :: u32)))"
proof -
  have "bit (push_bit 24 (of_nat i :: u32)) 31 = bit i 7"
    by (simp only: bit_push_bit_iff bit_of_nat_iff) simp
  moreover have "\<not> bit i 7" using assms by (simp add: bit_iff_odd)
  ultimately have "crc_step 0x04c11db7 (push_bit 24 (of_nat i :: u32)) = push_bit 24 (of_nat (2 * i))"
    by (simp add: crc_step_def push_bit_eq_mult)
  moreover have "crc_run 0x04c11db7 8 (crc_step 0x04c11db7 c) = crc_step 0x04c11db7 (crc_run 0x04c11db7 8 c)"
    for c :: u32
    by (simp only: crc_run_def funpow_swap1)
  ultimately show ?thesis by metis
qed

lemma crc32_odd_index:
  "crc_run 0x04c11db7 8 (push_bit 24 (of_nat (Suc (2 * i)))) =
     crc_run 0x04c11db7 8 (push_bit 24 (of_nat (2 * i) :: u32)) XOR 0x04c11db7"
proof -
  have "(of_nat (Suc (2 * i)) :: u32) = of_nat (2 * i) XOR 1"
    by (simp add: xor_one_eq)
  moreover have "crc_run 0x04c11db7 8 (push_bit 24 1) = (0x04c11db7 :: u32)"
    by code_simp
  ultimately show ?thesis by (simp add: push_bit_xor crc_run_xor del: of_nat_Suc)
qed

lemma fd_crc32_table_ref:
  "i < 256 \<Longrightarrow> fd_crc32_table ! i = crc_run 0x04c11db7 8 (push_bit 24 (of_nat i))"
proof (induction i rule: less_induct)
  case (less i)
  define h where "h = i div 2"
  have h: "h < 128" "h < 256" using less.prems by (simp_all add: h_def)
  have half: "fd_crc32_table ! (2 * h) = crc_step 0x04c11db7 (fd_crc32_table ! h)"
    "fd_crc32_table ! Suc (2 * h) = crc_step 0x04c11db7 (fd_crc32_table ! h) XOR 0x04c11db7"
    using crc_double_nth[of h "take 128 fd_crc32_table"] h
    by (simp_all add: fd_crc32_table_double length_fd_crc32_table)
  have zero: "fd_crc32_table ! 0 = 0" by code_simp
  have tab: "fd_crc32_table ! h = crc_run 0x04c11db7 8 (push_bit 24 (of_nat h))"
  proof (cases "i = 0")
    case True then show ?thesis by (simp add: h_def zero)
  next
    case False then have "h < i" by (simp add: h_def)
    then show ?thesis using less.IH h(2) by blast
  qed
  have even: "fd_crc32_table ! (2 * h) = crc_run 0x04c11db7 8 (push_bit 24 (of_nat (2 * h)))"
    using half(1) tab crc32_step_index[OF h(1)] by simp
  have odd: "fd_crc32_table ! Suc (2 * h) = crc_run 0x04c11db7 8 (push_bit 24 (of_nat (Suc (2 * h))))"
    using half(2) tab crc32_step_index[OF h(1)] crc32_odd_index[of h] by simp
  have "i = 2 * h \<or> i = Suc (2 * h)" unfolding h_def by arith
  then show ?case using even odd by blast
qed

lemma crc32_byte_ref: "crc32_byte crc c = crc_ref_byte 0x04c11db7 crc c"
proof -
  let ?p = "0x04c11db7 :: u32" let ?i = "drop_bit 24 crc XOR ucast c" let ?low = "take_bit 24 crc"
  have "unat ?i < 256"
  proof -
    have "\<not> bit (drop_bit 24 crc) n" if "8 \<le> n" for n
      using that by (auto simp: bit_drop_bit_eq dest: bit_imp_le_length)
    then have "take_bit 8 ?i = ?i"
      by (intro bit_word_eqI)
         (auto simp: bit_take_bit_iff bit_xor_iff bit_unsigned_iff not_less[symmetric] dest: bit_imp_le_length)
    then have "unat ?i = take_bit 8 (unat ?i)"
      by (metis unsigned_take_bit_eq)
    then show ?thesis using take_bit_nat_less_exp[of 8 "unat ?i"] by simp
  qed
  then have table: "fd_crc32_table ! unat ?i = crc_run ?p 8 (push_bit 24 ?i)"
    by (simp add: fd_crc32_table_ref)
  have "drop_bit 24 ?low = 0" by (rule bit_word_eqI) (auto simp: bit_simps)
  then have low: "crc_run ?p 8 ?low = push_bit 8 ?low"
    using crc_run_shift[of 8 ?low ?p] by simp
  have "push_bit 8 ?low = push_bit 8 crc"
    by (rule bit_word_eqI) (auto simp: bit_simps)
  moreover have "crc XOR push_bit 24 (ucast c) = push_bit 24 ?i XOR ?low"
    by (rule bit_word_eqI) (auto simp: bit_simps)
  then have "crc_ref_byte ?p crc c = crc_run ?p 8 (push_bit 24 ?i) XOR crc_run ?p 8 ?low"
    by (simp add: crc_ref_byte_def flip: crc_run_xor)
  ultimately show ?thesis
    unfolding crc32_byte_def table low by (simp add: xor.commute)
qed

lemma crc32_pad_ref: "crc32_pad n crc = crc_ref 0x04c11db7 crc (replicate n 0)"
  by (induction n arbitrary: crc) (simp_all add: crc_ref_Cons crc32_byte_ref)

lemma crc32_update_ref:
  "crc32_crc (fd_crc32_update s data) = crc_ref 0x04c11db7 (crc32_crc s) data"
  by (simp add: fd_crc32_update_def crc_ref_def crc32_byte_ref[abs_def])

text \<open>Feeding a message in pieces is feeding it at once.\<close>

lemma fd_crc32_update_append:
  "fd_crc32_update (fd_crc32_update s a) b = fd_crc32_update s (a @ b)"
  by (simp add: fd_crc32_update_def add.assoc)

definition crc32_padding :: "nat \<Rightarrow> nat" where
  "crc32_padding n = (if n mod 4 = 0 then 0 else 4 - n mod 4)"

lemma crc32_of_ref:
  "crc32_crc (fd_crc32_finalize (fd_crc32_update fd_crc32_initialize data)) =
     crc_ref 0x04c11db7 0xFFFFFFFF (data @ replicate (crc32_padding (length data)) 0)"
proof -
  let ?s = "fd_crc32_update fd_crc32_initialize data"
  have count: "crc32_count ?s = of_nat (length data)"
    by (simp add: fd_crc32_update_def fd_crc32_initialize_def)
  have mod: "unat (crc32_count ?s mod 4) = length data mod 4"
  proof -
    have "(4::nat) dvd 2 ^ 32" by simp
    then show ?thesis by (simp add: count unat_mod unat_of_nat mod_mod_cancel)
  qed
  then have "crc32_count ?s mod 4 = 0 \<longleftrightarrow> length data mod 4 = 0"
    by (metis unat_eq_zero)
  then show ?thesis
    using mod crc32_update_ref[of fd_crc32_initialize data]
    by (simp add: fd_crc32_finalize_def crc32_padding_def crc32_pad_ref crc_ref_append)
       (simp add: fd_crc32_initialize_def)
qed

text \<open>initialise, update and finalise compute, from the table, the 32-bit shift register with
  polynomial 0x04c11db7 and initial value 0xFFFFFFFF over the data, padded with zero bytes to a
  multiple of four.\<close>

theorem fd_crc32_ref:
  "crc32_crc (fd_crc32_finalize (fd_crc32_update fd_crc32_initialize data)) =
     crc_ref 0x04c11db7 0xFFFFFFFF (data @ replicate (crc32_padding (length data)) 0)"
  by (rule crc32_of_ref)

text \<open>two messages of the same length that differ only within four adjacent bytes have
  different 32-bit checksums.\<close>

theorem fd_crc32_detects_burst:
  assumes "length a = length b" "length a \<le> 4" "a \<noteq> b"
  shows "crc32_crc (fd_crc32_finalize (fd_crc32_update fd_crc32_initialize (pre @ a @ post))) \<noteq>
         crc32_crc (fd_crc32_finalize (fd_crc32_update fd_crc32_initialize (pre @ b @ post)))"
proof -
  have "crc_ref 0x04c11db7 0xFFFFFFFF (pre @ a @ post @ z) \<noteq> crc_ref (0x04c11db7 :: u32) 0xFFFFFFFF (pre @ b @ post @ z)" for z
    by (rule crc_ref_burst) (use assms in simp_all)
  then show ?thesis
    using assms(1) unfolding crc32_of_ref by simp
qed

theorem fd_crc32_detects_burst_witness:
  "crc32_crc (fd_crc32_finalize (fd_crc32_update fd_crc32_initialize [9, 1, 2, 3, 4])) \<noteq>
   crc32_crc (fd_crc32_finalize (fd_crc32_update fd_crc32_initialize [9, 1, 0, 3, 5]))"
  using fd_crc32_detects_burst[of "[1, 2, 3, 4]" "[1, 0, 3, 5]" "[9]" "[]"] by simp

end
