(* ===== verification/FD_Ieee754.thy ===== *)
theory FD_Ieee754 imports FD_Prelude begin

text \<open>
  Conversion between single and half precision floating point numbers
  (subsys/base/src/fd_ieee754.c). A \<open>float\<close> is its 32-bit pattern: the conversions are written on
  the pattern, and \<open>fd_ieee754_uint32_to_float\<close> and its inverse reinterpret it. The targets are
  little endian IEEE machines, on which the run-time check of both routines passes, so that they
  return 0 and the wrappers never take the branch that returns infinity. The double precision
  variants of the file are excluded from compilation (\<open>#if 0\<close>).

  \<open>int\<close> variables of the code hold exponents between -127 and 255 here and are integers; shifts
  by them are by \<open>nat\<close> of a non-negative amount below 32.
\<close>

section \<open>The code\<close>

definition single2halfp :: "u32 \<Rightarrow> u16" where
  "single2halfp x =
     (if x AND 0x7FFFFFFF = 0 then ucast (drop_bit 16 x)
      else
        let xs = x AND 0x80000000;
            xe = x AND 0x7F800000;
            xm = x AND 0x007FFFFF
        in if xe = 0 then ucast (drop_bit 16 xs)
           else if xe = 0x7F800000 then
             (if xm = 0 then ucast (drop_bit 16 xs OR 0x7C00) else 0xFE00)
           else
             let hs = (ucast (drop_bit 16 xs) :: u16);
                 hes = int (unat (drop_bit 23 xe)) - 127 + 15
             in if hes \<ge> 0x1F then ucast (drop_bit 16 xs OR 0x7C00)
                else if hes \<le> 0 then
                  (let hm =
                     (if 14 - hes > 24 then 0
                      else
                        let xm = xm OR 0x00800000;
                            hm = (ucast (drop_bit (nat (14 - hes)) xm) :: u16)
                        in if drop_bit (nat (13 - hes)) xm AND 1 \<noteq> 0 then hm + 1 else hm)
                   in hs OR hm)
                else
                  (let he = push_bit 10 (of_int hes :: u16);
                       hm = ucast (drop_bit 13 xm)
                   in if xm AND 0x1000 \<noteq> 0 then (hs OR he OR hm) + 1 else hs OR he OR hm))"

definition singles2halfp :: "u32 list \<Rightarrow> int \<times> u16 list" where
  "singles2halfp source = (0, map single2halfp source)"

text \<open>The loop that finds the leading bit of a denormal mantissa; it never leaves when the mantissa
  is zero, hence the option.\<close>

partial_function (option) halfp_normalize :: "int \<Rightarrow> u16 \<Rightarrow> (int \<times> u16) option" where
  [code]: "halfp_normalize e hm =
     (let e = e + 1; hm = push_bit 1 hm
      in if hm AND 0x0400 = 0 then halfp_normalize e hm else Some (e, hm))"

definition halfp2single :: "u16 \<Rightarrow> u32 option" where
  "halfp2single h =
     (if h AND 0x7FFF = 0 then Some (push_bit 16 (ucast h))
      else
        let hs = h AND 0x8000;
            he = h AND 0x7C00;
            hm = h AND 0x03FF
        in if he = 0 then
             do { (e, hm) \<leftarrow> halfp_normalize (- 1) hm;
                  let xs = push_bit 16 (ucast hs :: u32);
                  let xes = int (unat (drop_bit 10 he)) - 15 + 127 - e;
                  let xe = push_bit 23 (of_int xes :: u32);
                  let xm = push_bit 13 (ucast (hm AND 0x03FF));
                  Some (xs OR xe OR xm) }
           else if he = 0x7C00 then
             (if hm = 0 then Some (push_bit 16 (ucast hs) OR 0x7F800000) else Some 0xFFC00000)
           else
             (let xs = push_bit 16 (ucast hs :: u32);
                  xes = int (unat (drop_bit 10 he)) - 15 + 127;
                  xe = push_bit 23 (of_int xes :: u32);
                  xm = push_bit 13 (ucast hm)
              in Some (xs OR xe OR xm)))"

fun halfp2singles :: "u16 list \<Rightarrow> (int \<times> u32 list) option" where
  "halfp2singles [] = Some (0, [])"
| "halfp2singles (h # hs) =
     do { x \<leftarrow> halfp2single h; (r, xs) \<leftarrow> halfp2singles hs; Some (r, x # xs) }"

definition fd_ieee754_float_to_uint16 :: "u32 \<Rightarrow> u16" where
  "fd_ieee754_float_to_uint16 value =
     (case singles2halfp [value] of (r, iv) \<Rightarrow> if r \<noteq> 0 then 0x7c00 else hd iv)"

definition fd_ieee754_uint16_to_float :: "u16 \<Rightarrow> u32 option" where
  "fd_ieee754_uint16_to_float value =
     do { (r, fv) \<leftarrow> halfp2singles [value]; Some (if r \<noteq> 0 then 0x7F800000 else hd fv) }"

definition fd_ieee754_uint32_to_float :: "u32 \<Rightarrow> u32" where
  "fd_ieee754_uint32_to_float bfp = bfp"

definition fd_ieee754_float_to_uint32 :: "u32 \<Rightarrow> u32" where
  "fd_ieee754_float_to_uint32 sfp = sfp"

section \<open>The fields of the two formats\<close>

declare bit_numeral_word_iff [simp del]

named_theorems literal_bits \<open>the bits of the masks of the code\<close>

lemma u32_sign_bits [literal_bits]: "bit (0x80000000 :: u32) n \<longleftrightarrow> n = 31"
  using bit_exp_iff[where ?'a = u32, of 31 n] by (auto simp: possible_bit_word)

lemma u32_exponent_bits [literal_bits]: "bit (0x7F800000 :: u32) n \<longleftrightarrow> 23 \<le> n \<and> n < 31"
proof -
  have "(0x7F800000 :: u32) = push_bit 23 (mask 8)" by code_simp
  then show ?thesis by (simp only: bit_push_bit_iff bit_mask_iff possible_bit_word) auto
qed

lemma u32_mantissa_bits [literal_bits]: "bit (0x007FFFFF :: u32) n \<longleftrightarrow> n < 23"
proof -
  have "(0x007FFFFF :: u32) = mask 23" by code_simp
  then show ?thesis by (simp only: bit_mask_iff possible_bit_word) auto
qed

lemma u32_magnitude_bits [literal_bits]: "bit (0x7FFFFFFF :: u32) n \<longleftrightarrow> n < 31"
proof -
  have "(0x7FFFFFFF :: u32) = mask 31" by code_simp
  then show ?thesis by (simp only: bit_mask_iff possible_bit_word) auto
qed

lemma u16_sign_bits [literal_bits]: "bit (0x8000 :: u16) n \<longleftrightarrow> n = 15"
  using bit_exp_iff[where ?'a = u16, of 15 n] by (auto simp: possible_bit_word)

lemma u16_exponent_bits [literal_bits]: "bit (0x7C00 :: u16) n \<longleftrightarrow> 10 \<le> n \<and> n < 15"
proof -
  have "(0x7C00 :: u16) = push_bit 10 (mask 5)" by code_simp
  then show ?thesis by (simp only: bit_push_bit_iff bit_mask_iff possible_bit_word) auto
qed

lemma u16_mantissa_bits [literal_bits]: "bit (0x03FF :: u16) n \<longleftrightarrow> n < 10"
proof -
  have "(0x03FF :: u16) = mask 10" by code_simp
  then show ?thesis by (simp only: bit_mask_iff possible_bit_word) auto
qed

lemma u32_half_exponent_bits [literal_bits]: "bit (0x7C00 :: u32) n \<longleftrightarrow> 10 \<le> n \<and> n < 15"
proof -
  have "(0x7C00 :: u32) = push_bit 10 (mask 5)" by code_simp
  then show ?thesis by (simp only: bit_push_bit_iff bit_mask_iff possible_bit_word) auto
qed

lemma u16_magnitude_bits [literal_bits]: "bit (0x7FFF :: u16) n \<longleftrightarrow> n < 15"
proof -
  have "(0x7FFF :: u16) = mask 15" by code_simp
  then show ?thesis by (simp only: bit_mask_iff possible_bit_word) auto
qed

lemma word_less_bits: "take_bit n a = a \<Longrightarrow> bit a i \<Longrightarrow> i < n" for a :: "'a::len word"
  by (metis bit_take_bit_iff)

definition single_of :: "u16 \<Rightarrow> u32 \<Rightarrow> u32 \<Rightarrow> u32" where
  "single_of s a b = push_bit 16 (ucast s) OR push_bit 23 a OR b"

definition half_of :: "u16 \<Rightarrow> u16 \<Rightarrow> u16 \<Rightarrow> u16" where
  "half_of s a b = s OR push_bit 10 a OR b"

lemma sign_word_bits: "s AND 0x8000 = s \<Longrightarrow> bit (s :: u16) i \<Longrightarrow> i = 15"
  by (metis bit_and_iff u16_sign_bits)

lemma single_of_fields:
  assumes "s AND 0x8000 = s" "take_bit 8 a = a" "take_bit 23 b = b"
  shows "single_of s a b AND 0x80000000 = push_bit 16 (ucast s)"
    and "single_of s a b AND 0x7F800000 = push_bit 23 a"
    and "single_of s a b AND 0x007FFFFF = b"
    and "single_of s a b AND 0x7FFFFFFF = push_bit 23 a OR b"
  by (rule bit_word_eqI;
      force simp: single_of_def bit_simps literal_bits
        dest: sign_word_bits[OF assms(1)] word_less_bits[OF assms(2)] word_less_bits[OF assms(3)])+

lemma half_of_fields:
  assumes "s AND 0x8000 = s" "take_bit 5 a = a" "take_bit 10 b = b"
  shows "half_of s a b AND 0x8000 = s"
    and "half_of s a b AND 0x7C00 = push_bit 10 a"
    and "half_of s a b AND 0x03FF = b"
    and "half_of s a b AND 0x7FFF = push_bit 10 a OR b"
  by (rule bit_word_eqI;
      force simp: half_of_def bit_simps literal_bits
        dest: sign_word_bits[OF assms(1)] word_less_bits[OF assms(2)] word_less_bits[OF assms(3)])+

lemma half_of_exhaust:
  obtains s a b where "h = half_of s a b" "s AND 0x8000 = s" "take_bit 5 a = a" "take_bit 10 b = b"
proof
  show "h = half_of (h AND 0x8000) (take_bit 5 (drop_bit 10 h)) (take_bit 10 h)"
    by (rule bit_word_eqI) (auto simp: half_of_def bit_simps literal_bits)
qed (rule bit_word_eqI; auto simp: bit_simps literal_bits)+

lemma push_or_eq_0:
  fixes a b :: "'a::len word"
  assumes "take_bit m a = a" "take_bit n b = b" "m + n \<le> LENGTH('a)"
  shows "push_bit n a OR b = 0 \<longleftrightarrow> a = 0 \<and> b = 0"
proof
  assume z: "push_bit n a OR b = 0"
  have b: "\<not> bit b i" for i using z by (metis bit_0_eq bit_or_iff bot_apply bot_bool_def)
  have "\<not> bit a i" for i
  proof
    assume i: "bit a i"
    then have "i < m" using word_less_bits[OF assms(1)] by simp
    then have "bit (push_bit n a) (i + n)" using i assms(3) by (simp add: bit_push_bit_iff)
    then show False using z by (metis bit_0_eq bit_or_iff bot_apply bot_bool_def)
  qed
  then show "a = 0 \<and> b = 0" using b by (auto intro!: bit_word_eqI)
qed simp

section \<open>From half to single\<close>

lemma halfp_normalize_top:
  assumes "bit hm k" "\<And>i. k < i \<Longrightarrow> \<not> bit hm i" "k < 10"
  shows "halfp_normalize e hm = Some (e + int (10 - k), push_bit (10 - k) hm)"
  using assms
proof (induction "9 - k" arbitrary: e hm k)
  case 0
  then have k: "k = 9" by simp
  then have "bit (push_bit 1 hm) 10" using 0 by (simp only: bit_push_bit_iff) simp
  then have "push_bit 1 hm AND 0x0400 \<noteq> 0" using and_exp_eq_0_iff_not_bit[of "push_bit 1 hm" 10] by simp
  then show ?case by (subst halfp_normalize.simps) (simp add: k Let_def)
next
  case (Suc n)
  let ?h = "push_bit 1 hm"
  have "\<not> bit hm 9" using Suc by simp
  then have "\<not> bit ?h 10" by (simp only: bit_push_bit_iff) simp
  then have z: "?h AND 0x0400 = 0" using and_exp_eq_0_iff_not_bit[of ?h 10] by simp
  have b: "bit ?h (Suc k)" "Suc k < i \<Longrightarrow> \<not> bit ?h i" for i
    using Suc by (simp_all only: bit_push_bit_iff possible_bit_word) auto
  have "halfp_normalize (e + 1) ?h = Some (e + 1 + int (10 - Suc k), push_bit (10 - Suc k) ?h)"
    by (rule Suc(1)[OF _ b]) (use Suc in auto)
  moreover have "push_bit (10 - Suc k) ?h = push_bit (10 - k) hm"
    by (subst push_bit_push_bit) (rule arg_cong[where f = "\<lambda>n. push_bit n hm"], use Suc(5) in linarith)
  moreover have "halfp_normalize e hm = halfp_normalize (e + 1) ?h"
    by (subst halfp_normalize.simps) (simp only: Let_def z if_True simp_thms)
  moreover have "e + 1 + int (10 - Suc k) = e + int (10 - k)" using Suc(5) by simp
  ultimately show ?case by (simp only:)
qed

lemma top_bit_exists:
  assumes "b \<noteq> (0 :: 'a::len word)" "take_bit n b = b"
  obtains k where "bit b k" "\<And>i. k < i \<Longrightarrow> \<not> bit b i" "k < n"
proof -
  have fin: "finite {i. bit b i}"
    by (rule finite_subset[of _ "{..<n}"]) (use word_less_bits[OF assms(2)] in auto)
  have ne: "{i. bit b i} \<noteq> {}" using assms(1) by (auto intro: bit_word_eqI)
  let ?k = "Max {i. bit b i}"
  have "bit b ?k" using Max_in[OF fin ne] by simp
  moreover have "\<not> bit b i" if "?k < i" for i
  proof
    assume "bit b i"
    then have "i \<le> ?k" by (intro Max_ge[OF fin]) simp
    then show False using that by simp
  qed
  ultimately show thesis using that word_less_bits[OF assms(2)] by blast
qed

lemma halfp2single_fields:
  assumes f: "s AND 0x8000 = s" "take_bit 5 a = a" "take_bit 10 b = b"
  shows "a = 0 \<Longrightarrow> b = 0 \<Longrightarrow> halfp2single (half_of s a b) = Some (single_of s 0 0)"
    and "a \<noteq> 0 \<Longrightarrow> a \<noteq> 31 \<Longrightarrow> halfp2single (half_of s a b) =
           Some (single_of s (of_nat (unat a + 112)) (push_bit 13 (ucast b)))"
    and "a = 31 \<Longrightarrow> halfp2single (half_of s a b) =
           Some (if b = 0 then single_of s 255 0 else 0xFFC00000)"
    and "a = 0 \<Longrightarrow> bit b k \<Longrightarrow> (\<And>i. k < i \<Longrightarrow> \<not> bit b i) \<Longrightarrow> k < 10 \<Longrightarrow>
           halfp2single (half_of s a b) =
           Some (single_of s (of_nat (103 + k)) (push_bit 13 (ucast (push_bit (10 - k) b AND 0x03FF))))"
proof -
  note F = half_of_fields[OF f]
  have mag: "half_of s a b AND 0x7FFF = 0 \<longleftrightarrow> a = 0 \<and> b = 0"
    using push_or_eq_0[OF f(2,3)] by (simp add: F(4))
  have exp: "drop_bit 10 (push_bit 10 a) = a"
    by (rule bit_word_eqI) (auto simp: bit_simps dest: word_less_bits[OF f(2)])
  have exp0: "push_bit 10 a = 0 \<longleftrightarrow> a = 0" using exp by fastforce
  have expf: "push_bit 10 a = 0x7C00 \<longleftrightarrow> a = 31"
  proof
    assume "push_bit 10 a = 0x7C00"
    then have "a = drop_bit 10 0x7C00" using exp by simp
    then show "a = 31" by simp
  qed simp
  have whole: "halfp2single (half_of s a b) =
      (if a = 0 \<and> b = 0 then Some (push_bit 16 (ucast (half_of s a b)))
       else if a = 0 then
         do { (e, hm) \<leftarrow> halfp_normalize (- 1) b;
              Some (push_bit 16 (ucast s) OR push_bit 23 (of_int (112 - e)) OR
                    push_bit 13 (ucast (hm AND 0x03FF))) }
       else if a = 31 then Some (if b = 0 then push_bit 16 (ucast s) OR 0x7F800000 else 0xFFC00000)
       else Some (push_bit 16 (ucast s) OR push_bit 23 (of_int (int (unat a) + 112)) OR push_bit 13 (ucast b)))"
    unfolding halfp2single_def mag Let_def F(1-3) exp0 expf exp by (auto simp: add.commute)
  show "a = 0 \<Longrightarrow> b = 0 \<Longrightarrow> halfp2single (half_of s a b) = Some (single_of s 0 0)"
    unfolding whole by (simp add: half_of_def single_of_def)
  show "a \<noteq> 0 \<Longrightarrow> a \<noteq> 31 \<Longrightarrow> halfp2single (half_of s a b) =
           Some (single_of s (of_nat (unat a + 112)) (push_bit 13 (ucast b)))"
    unfolding whole by (simp add: single_of_def add.commute)
  show "a = 31 \<Longrightarrow> halfp2single (half_of s a b) =
           Some (if b = 0 then single_of s 255 0 else 0xFFC00000)"
    unfolding whole by (simp add: single_of_def)
  show "halfp2single (half_of s a b) =
           Some (single_of s (of_nat (103 + k)) (push_bit 13 (ucast (push_bit (10 - k) b AND 0x03FF))))"
    if "a = 0" "bit b k" "\<And>i. k < i \<Longrightarrow> \<not> bit b i" "k < 10"
  proof -
    have "b \<noteq> 0" using that(2) by auto
    then show ?thesis
      using that halfp_normalize_top[OF that(2-4), of "-1"]
      unfolding whole by (simp add: single_of_def of_nat_diff)
  qed
qed

section \<open>From single to half\<close>

lemma single2halfp_zero: "s AND 0x8000 = s \<Longrightarrow> single2halfp (single_of s 0 0) = s"
  unfolding single2halfp_def
  by (simp add: single_of_fields(4)) (rule bit_word_eqI, auto simp: single_of_def bit_simps)

lemma single2halfp_infinity: "s AND 0x8000 = s \<Longrightarrow> single2halfp (single_of s 255 0) = s OR 0x7C00"
proof -
  assume s: "s AND 0x8000 = s"
  have "(ucast (drop_bit 16 (push_bit 16 (ucast s :: u32)) OR 0x7C00) :: u16) = s OR 0x7C00"
    by (rule bit_word_eqI) (auto simp: bit_simps literal_bits)
  then show ?thesis
    unfolding single2halfp_def using s by (simp add: single_of_fields Let_def)
qed

text \<open>The branch structure of \<open>single2halfp\<close> on a pattern given by its fields.\<close>

lemma single2halfp_finite:
  assumes s: "s AND 0x8000 = s" and a: "take_bit 8 a = a" "a \<noteq> 0" "a \<noteq> 255"
    and b: "take_bit 23 b = b" and e: "e = int (unat a) - 112" "e < 31"
  shows "single2halfp (single_of s a b) =
     (if e \<le> 0 then
        (if 10 < - e then s
         else let m = b OR 0x00800000; hm = ucast (drop_bit (nat (14 - e)) m)
              in s OR (if bit m (nat (13 - e)) then hm + 1 else hm))
      else let hm = s OR push_bit 10 (of_int e) OR ucast (drop_bit 13 b)
           in if bit b 12 then hm + 1 else hm)"
proof -
  note F = single_of_fields[OF s a(1) b]
  have mag: "single_of s a b AND 0x7FFFFFFF \<noteq> 0"
    using push_or_eq_0[OF a(1) b] a(2) by (simp add: F(4))
  have exp: "drop_bit 23 (push_bit 23 a) = a"
    by (rule bit_word_eqI) (auto simp: bit_simps dest: word_less_bits[OF a(1)])
  have exp0: "push_bit 23 a \<noteq> 0" using exp a(2) by fastforce
  have expf: "push_bit 23 a \<noteq> 0x7F800000"
  proof
    assume "push_bit 23 a = 0x7F800000"
    then have "a = drop_bit 23 0x7F800000" using exp by simp
    then show False using a(3) by simp
  qed
  have sgn: "(ucast (drop_bit 16 (push_bit 16 (ucast s) :: u32)) :: u16) = s"
    by (rule bit_word_eqI) (auto simp: bit_simps)
  have odd: "(drop_bit n m AND 1 \<noteq> 0) = bit m n" for n and m :: u32
    by (simp add: and_one_eq bit_iff_odd_drop_bit odd_iff_mod_2_eq_one)
  have guard: "b AND 0x1000 \<noteq> 0 \<longleftrightarrow> bit b 12"
    using and_exp_eq_0_iff_not_bit[of b 12] by simp
  have hes: "int (unat a) - 127 + 15 = e" using e(1) by simp
  have "\<not> e \<ge> 0x1F" using e(2) by simp
  then show ?thesis
    unfolding single2halfp_def Let_def F(1-3) exp sgn hes guard odd
    using mag exp0 expf by (auto simp: F(4))
qed

lemma exponent_word:
  assumes "n < 256" shows "unat (of_nat n :: u32) = n" "take_bit 8 (of_nat n :: u32) = of_nat n"
proof -
  show u: "unat (of_nat n :: u32) = n" using assms by (simp add: unat_of_nat)
  show "take_bit 8 (of_nat n :: u32) = of_nat n"
  proof (rule unsigned_word_eqI)
    show "unat (take_bit 8 (of_nat n :: u32)) = unat (of_nat n :: u32)"
      unfolding unsigned_take_bit_eq u using assms by (simp add: take_bit_nat_eq_self)
  qed
qed

lemma half_normal_roundtrip:
  assumes "s AND 0x8000 = s" "take_bit 10 b = b" "0 < n" "n < 31"
  shows "single2halfp (single_of s (of_nat (n + 112)) (push_bit 13 (ucast b))) = half_of s (of_nat n) b"
proof -
  let ?b = "push_bit 13 (ucast b) :: u32"
  have bl: "i < 23" if "bit b (i - 13)" "13 \<le> i" for i
    using word_less_bits[OF assms(2) that(1)] that(2) by simp
  have b: "take_bit 23 ?b = ?b" "\<not> bit ?b 12" "(ucast (drop_bit 13 ?b) :: u16) = b"
    by (auto intro!: bit_word_eqI simp: bit_simps bl)
  have n: "n + 112 < 256" using assms by simp
  have ne: "of_nat (n + 112) \<noteq> (0 :: u32)" "of_nat (n + 112) \<noteq> (255 :: u32)"
    using exponent_word(1)[OF n] assms(3,4) by (metis unat_0 add_is_0 zero_neq_numeral, auto)
  have e: "int n = int (unat (of_nat (n + 112) :: u32)) - 112"
    unfolding exponent_word(1)[OF n] by simp
  show ?thesis
    using assms single2halfp_finite[OF assms(1) exponent_word(2)[OF n] ne b(1) e] b(2,3)
    by (simp add: half_of_def Let_def)
qed

lemma half_denormal_roundtrip:
  assumes "s AND 0x8000 = s" "take_bit 10 b = b" "bit b k" "\<And>i. k < i \<Longrightarrow> \<not> bit b i" "k < 10"
  shows "single2halfp (single_of s (of_nat (103 + k)) (push_bit 13 (ucast (push_bit (10 - k) b AND 0x03FF))))
           = half_of s 0 b"
proof -
  let ?b = "push_bit 13 (ucast (push_bit (10 - k) b AND 0x03FF)) :: u32"
  have m: "?b OR 0x00800000 = push_bit (23 - k) (ucast b)"
  proof (rule bit_word_eqI)
    fix i assume "i < LENGTH(32)"
    have lit: "bit (0x00800000 :: u32) i \<longleftrightarrow> i = 23"
      using bit_exp_iff[where ?'a = u32, of 23 i] by (auto simp: possible_bit_word)
    show "bit (?b OR 0x00800000) i = bit (push_bit (23 - k) (ucast b) :: u32) i"
    proof (cases "i < 23")
      case True
      then have "i - 13 - (10 - k) = i - (23 - k)" using assms(5) by simp
      then show ?thesis
        using True assms(5) lit by (auto simp: bit_simps literal_bits)
    next
      case False
      have "bit (push_bit (23 - k) (ucast b) :: u32) i \<longleftrightarrow> i = 23"
      proof (cases "i = 23")
        case True
        then show ?thesis using assms(3,5) by (auto simp: bit_simps)
      next
        case ne: False
        then have "k < i - (23 - k)" using False assms(5) by simp
        then show ?thesis using ne assms(4) by (auto simp: bit_simps)
      qed
      then show ?thesis using False lit by (auto simp: bit_simps literal_bits)
    qed
  qed
  have b: "take_bit 23 ?b = ?b"
    by (rule bit_word_eqI) (auto simp: bit_simps literal_bits)
  have hm: "(ucast (drop_bit (23 - k) (push_bit (23 - k) (ucast b :: u32))) :: u16) = b"
  proof (rule bit_word_eqI)
    fix i assume "i < LENGTH(16)"
    show "bit (ucast (drop_bit (23 - k) (push_bit (23 - k) (ucast b :: u32))) :: u16) i = bit b i"
    proof (cases "bit b i")
      case True
      then have "\<not> k < i" using assms(4) by blast
      then show ?thesis using True assms(5) \<open>i < LENGTH(16)\<close>
        by (simp add: bit_simps) linarith
    qed (simp add: bit_simps)
  qed
  have n: "103 + k < 256" using assms by simp
  have ne: "of_nat (103 + k) \<noteq> (0 :: u32)" "of_nat (103 + k) \<noteq> (255 :: u32)"
    using exponent_word(1)[OF n] assms(5) by (metis unat_0 add_is_0 zero_neq_numeral, auto)
  have e: "int k - 9 = int (unat (of_nat (103 + k) :: u32)) - 112"
    unfolding exponent_word(1)[OF n] by simp
  have sh: "nat (23 - int k) = 23 - k" "nat (22 - int k) = 22 - k" using assms(5) by simp_all
  have "\<not> bit (push_bit (23 - k) (ucast b :: u32)) (22 - k)"
    using assms(5) by (simp only: bit_push_bit_iff) linarith
  then show ?thesis
    using single2halfp_finite[OF assms(1) exponent_word(2)[OF n] ne b e] assms(5)
    by (simp add: m sh hm half_of_def Let_def)
qed

lemma half_roundtrip:
  assumes "\<not> (h AND 0x7C00 = 0x7C00 \<and> h AND 0x03FF \<noteq> 0)"
  shows "\<exists>f. halfp2single h = Some f \<and> single2halfp f = h"
proof -
  obtain s a b where h: "h = half_of s a b" and f: "s AND 0x8000 = s" "take_bit 5 a = a" "take_bit 10 b = b"
    by (rule half_of_exhaust)
  note F = halfp2single_fields[OF f]
  show ?thesis
  proof (cases "a = 0")
    case z: True
    show ?thesis
    proof (cases "b = 0")
      case True
      then show ?thesis using z F(1) single2halfp_zero[OF f(1)] h by (simp add: half_of_def)
    next
      case False
      then obtain k where "bit b k" "\<And>i. k < i \<Longrightarrow> \<not> bit b i" "k < 10"
        using top_bit_exists f(3) by blast
      then show ?thesis using z F(4)[OF z] half_denormal_roundtrip[OF f(1,3)] h by simp
    qed
  next
    case nz: False
    show ?thesis
    proof (cases "a = 31")
      case True
      then have "b = 0" using assms half_of_fields[OF f] h by auto
      then show ?thesis using True F(3) single2halfp_infinity[OF f(1)] h by (simp add: half_of_def)
    next
      case False
      have "unat a < 32"
      proof -
        have "unat a = take_bit 5 (unat a)" using f(2) by (metis unsigned_take_bit_eq)
        then show ?thesis using take_bit_nat_less_exp[of 5 "unat a"] by simp
      qed
      moreover have "unat a \<noteq> 31"
      proof
        assume "unat a = 31"
        then have "unat a = unat (31 :: u16)" by simp
        then have "a = 31" by (rule unsigned_word_eqI)
        then show False using False by simp
      qed
      moreover have "0 < unat a" using nz by (simp add: unat_gt_0)
      ultimately show ?thesis
        using F(2)[OF nz False] half_normal_roundtrip[OF f(1,3), of "unat a"] h by simp
    qed
  qed
qed

text \<open>C3: every half precision pattern that is not a NaN (zeros, denormals, normal numbers and
  infinities of both signs) converts to single precision, and converting the result back gives
  the same pattern.\<close>

theorem fd_ieee754_half_roundtrip:
  assumes "\<not> (h AND 0x7C00 = 0x7C00 \<and> h AND 0x03FF \<noteq> 0)"
  shows "\<exists>f. fd_ieee754_uint16_to_float h = Some f \<and> fd_ieee754_float_to_uint16 f = h"
  using half_roundtrip[OF assms]
  by (auto simp: fd_ieee754_uint16_to_float_def fd_ieee754_float_to_uint16_def singles2halfp_def)

theorem fd_ieee754_half_roundtrip_witness:
  "\<exists>f. fd_ieee754_uint16_to_float 0x8001 = Some f \<and> fd_ieee754_float_to_uint16 f = 0x8001"
  by (rule fd_ieee754_half_roundtrip) simp

text \<open>The loop over a denormal mantissa always ends: the conversion is total.\<close>

lemma halfp2single_total: "\<exists>f. halfp2single h = Some f"
proof -
  obtain s a b where h: "h = half_of s a b" and f: "s AND 0x8000 = s" "take_bit 5 a = a" "take_bit 10 b = b"
    by (rule half_of_exhaust)
  note F = halfp2single_fields[OF f]
  show ?thesis
  proof (cases "a = 0 \<and> b \<noteq> 0")
    case True
    then obtain k where "bit b k" "\<And>i. k < i \<Longrightarrow> \<not> bit b i" "k < 10"
      using top_bit_exists f(3) by blast
    then show ?thesis using True F(4) h by blast
  next
    case False
    then show ?thesis using F(1-3) h by metis
  qed
qed

lemma fd_ieee754_total: "\<exists>f. fd_ieee754_uint16_to_float h = Some f"
  using halfp2single_total[of h] by (auto simp: fd_ieee754_uint16_to_float_def)

text \<open>\<open>fd_ieee754_uint16_to_float\<close> returns for every 16-bit pattern, although its search for
  the leading bit of a denormal has no bound of its own; every NaN becomes the NaN 0xFFC00000, and
  converts back to the NaN 0xFE00.\<close>

theorem fd_ieee754_half_total:
  "\<exists>f. fd_ieee754_uint16_to_float h = Some f \<and>
       (if h AND 0x7C00 = 0x7C00 \<and> h AND 0x03FF \<noteq> 0
        then f = 0xFFC00000 \<and> fd_ieee754_float_to_uint16 f = 0xFE00 else f \<noteq> 0xFFC00000)"
proof -
  obtain f where f: "halfp2single h = Some f" using halfp2single_total by blast
  have nan: "single2halfp 0xFFC00000 = 0xFE00" by code_simp
  show ?thesis
  proof (cases "h AND 0x7C00 = 0x7C00 \<and> h AND 0x03FF \<noteq> 0")
    case True
    moreover have "h AND 0x7FFF \<noteq> 0"
    proof
      assume "h AND 0x7FFF = 0"
      then have "(h AND 0x7FFF) AND 0x03FF = 0" by simp
      then show False using True by (simp add: and.assoc)
    qed
    ultimately have "f = 0xFFC00000" using f by (simp add: halfp2single_def Let_def)
    then show ?thesis
      using True f nan by (auto simp: fd_ieee754_uint16_to_float_def fd_ieee754_float_to_uint16_def singles2halfp_def)
  next
    case False
    have "f \<noteq> 0xFFC00000"
    proof
      assume "f = 0xFFC00000"
      with f nan have "single2halfp f = 0xFE00" by simp
      moreover have "single2halfp f = h" using half_roundtrip[OF False] f by auto
      ultimately have "h = 0xFE00" by simp
      then show False using False by simp
    qed
    then show ?thesis using f False by (auto simp: fd_ieee754_uint16_to_float_def)
  qed
qed

end
