(* ===== verification/FD_Binary.thy ===== *)
theory FD_Binary imports FD_Ieee754 begin

text \<open>
  The binary reader and writer of the base library (subsys/base/src/fd_binary.c): little endian
  integers packed into and unpacked from a byte buffer, variable length integers, strings, and the
  error flags that overflow and underflow set.

  \<open>buffer\<close> of an \<open>fd_binary_t\<close> is the list of the bytes that may be accessed from the pointer
  on; \<open>size\<close> is what the code believes its length to be. Packing and unpacking at a pointer
  \<open>&buffer[p]\<close> take the buffer and the index \<open>p\<close>. A \<open>float\<close> or \<open>double\<close> is its bit pattern.
  \<open>buffer[3] << 24\<close> is a left shift of an \<open>int\<close>, which the compilers of the targets define as
  the shift of its bits.
\<close>

section \<open>Packing and unpacking\<close>

definition fd_binary_unpack_uint8 :: "u8 list \<Rightarrow> nat \<Rightarrow> u8 option" where
  "fd_binary_unpack_uint8 b p = rd b p"

definition fd_binary_unpack_uint16 :: "u8 list \<Rightarrow> nat \<Rightarrow> u16 option" where
  "fd_binary_unpack_uint16 b p =
     do { b1 \<leftarrow> rd b (p + 1); b0 \<leftarrow> rd b p;
          Some (ucast (push_bit 8 (ucast b1 :: u32) OR ucast b0)) }"

definition fd_binary_unpack_uint24 :: "u8 list \<Rightarrow> nat \<Rightarrow> u32 option" where
  "fd_binary_unpack_uint24 b p =
     do { b2 \<leftarrow> rd b (p + 2); b1 \<leftarrow> rd b (p + 1); b0 \<leftarrow> rd b p;
          Some (push_bit 16 (ucast b2) OR push_bit 8 (ucast b1) OR ucast b0) }"

definition fd_binary_unpack_uint32 :: "u8 list \<Rightarrow> nat \<Rightarrow> u32 option" where
  "fd_binary_unpack_uint32 b p =
     do { b3 \<leftarrow> rd b (p + 3); b2 \<leftarrow> rd b (p + 2); b1 \<leftarrow> rd b (p + 1); b0 \<leftarrow> rd b p;
          Some (push_bit 24 (ucast b3) OR push_bit 16 (ucast b2) OR push_bit 8 (ucast b1) OR ucast b0) }"

definition fd_binary_unpack_uint48 :: "u8 list \<Rightarrow> nat \<Rightarrow> u64 option" where
  "fd_binary_unpack_uint48 b p =
     do { lo \<leftarrow> fd_binary_unpack_uint32 b p; hi \<leftarrow> fd_binary_unpack_uint16 b (p + 4);
          Some (push_bit 32 (ucast hi) OR ucast lo) }"

definition fd_binary_unpack_uint64 :: "u8 list \<Rightarrow> nat \<Rightarrow> u64 option" where
  "fd_binary_unpack_uint64 b p =
     do { lo \<leftarrow> fd_binary_unpack_uint32 b p; hi \<leftarrow> fd_binary_unpack_uint32 b (p + 4);
          Some (push_bit 32 (ucast hi) OR ucast lo) }"

definition fd_binary_unpack_float16 :: "u8 list \<Rightarrow> nat \<Rightarrow> u32 option" where
  "fd_binary_unpack_float16 b p =
     do { value \<leftarrow> fd_binary_unpack_uint16 b p; fd_ieee754_uint16_to_float value }"

definition fd_binary_unpack_float32 :: "u8 list \<Rightarrow> nat \<Rightarrow> u32 option" where
  "fd_binary_unpack_float32 b p = fd_binary_unpack_uint32 b p"

definition fd_binary_unpack_double64 :: "u8 list \<Rightarrow> nat \<Rightarrow> u64 option" where
  "fd_binary_unpack_double64 b p = fd_binary_unpack_uint64 b p"

definition fd_binary_pack_uint8 :: "u8 list \<Rightarrow> nat \<Rightarrow> u8 \<Rightarrow> u8 list option" where
  "fd_binary_pack_uint8 b p value = wr b p value"

definition fd_binary_pack_uint16 :: "u8 list \<Rightarrow> nat \<Rightarrow> u16 \<Rightarrow> u8 list option" where
  "fd_binary_pack_uint16 b p value =
     do { b \<leftarrow> wr b p (ucast value); wr b (p + 1) (ucast (drop_bit 8 value)) }"

definition fd_binary_pack_uint24 :: "u8 list \<Rightarrow> nat \<Rightarrow> u32 \<Rightarrow> u8 list option" where
  "fd_binary_pack_uint24 b p value =
     do { b \<leftarrow> wr b p (ucast value); b \<leftarrow> wr b (p + 1) (ucast (drop_bit 8 value));
          wr b (p + 2) (ucast (drop_bit 16 value)) }"

definition fd_binary_pack_uint32 :: "u8 list \<Rightarrow> nat \<Rightarrow> u32 \<Rightarrow> u8 list option" where
  "fd_binary_pack_uint32 b p value =
     do { b \<leftarrow> wr b p (ucast value); b \<leftarrow> wr b (p + 1) (ucast (drop_bit 8 value));
          b \<leftarrow> wr b (p + 2) (ucast (drop_bit 16 value)); wr b (p + 3) (ucast (drop_bit 24 value)) }"

definition fd_binary_pack_uint48 :: "u8 list \<Rightarrow> nat \<Rightarrow> u64 \<Rightarrow> u8 list option" where
  "fd_binary_pack_uint48 b p value =
     do { b \<leftarrow> wr b p (ucast value); b \<leftarrow> wr b (p + 1) (ucast (drop_bit 8 value));
          b \<leftarrow> wr b (p + 2) (ucast (drop_bit 16 value)); b \<leftarrow> wr b (p + 3) (ucast (drop_bit 24 value));
          b \<leftarrow> wr b (p + 4) (ucast (drop_bit 32 value)); wr b (p + 5) (ucast (drop_bit 40 value)) }"

definition fd_binary_pack_uint64 :: "u8 list \<Rightarrow> nat \<Rightarrow> u64 \<Rightarrow> u8 list option" where
  "fd_binary_pack_uint64 b p value =
     do { b \<leftarrow> wr b p (ucast value); b \<leftarrow> wr b (p + 1) (ucast (drop_bit 8 value));
          b \<leftarrow> wr b (p + 2) (ucast (drop_bit 16 value)); b \<leftarrow> wr b (p + 3) (ucast (drop_bit 24 value));
          b \<leftarrow> wr b (p + 4) (ucast (drop_bit 32 value)); b \<leftarrow> wr b (p + 5) (ucast (drop_bit 40 value));
          b \<leftarrow> wr b (p + 6) (ucast (drop_bit 48 value)); wr b (p + 7) (ucast (drop_bit 56 value)) }"

definition fd_binary_pack_float16 :: "u8 list \<Rightarrow> nat \<Rightarrow> u32 \<Rightarrow> u8 list option" where
  "fd_binary_pack_float16 b p value = fd_binary_pack_uint16 b p (fd_ieee754_float_to_uint16 value)"

definition fd_binary_pack_float32 :: "u8 list \<Rightarrow> nat \<Rightarrow> u32 \<Rightarrow> u8 list option" where
  "fd_binary_pack_float32 b p value = fd_binary_pack_uint32 b p value"

definition fd_binary_pack_double64 :: "u8 list \<Rightarrow> nat \<Rightarrow> u64 \<Rightarrow> u8 list option" where
  "fd_binary_pack_double64 b p value = fd_binary_pack_uint64 b p value"

section \<open>The reader and writer\<close>

record fd_binary_t =
  bin_buffer :: "u8 list"
  bin_size :: u32
  bin_put_index :: u32
  bin_get_index :: u32
  bin_errors :: u32

definition fd_binary_error_underflow :: u32 where
  "fd_binary_error_underflow = 1"
definition fd_binary_error_invalid_representation :: u32 where
  "fd_binary_error_invalid_representation = 2"
definition fd_binary_error_out_of_bounds :: u32 where
  "fd_binary_error_out_of_bounds = 4"
definition fd_binary_error_overflow :: u32 where
  "fd_binary_error_overflow = 8"

definition fd_binary_initialize :: "u8 list \<Rightarrow> u32 \<Rightarrow> fd_binary_t" where
  "fd_binary_initialize buffer size' =
     \<lparr>bin_buffer = buffer, bin_size = size', bin_put_index = 0, bin_get_index = 0, bin_errors = 0\<rparr>"

definition fd_binary_reset :: "fd_binary_t \<Rightarrow> fd_binary_t" where
  "fd_binary_reset s = s\<lparr>bin_put_index := 0, bin_get_index := 0, bin_errors := 0\<rparr>"

definition bin_error :: "u32 \<Rightarrow> fd_binary_t \<Rightarrow> fd_binary_t" where
  "bin_error e s = s\<lparr>bin_errors := bin_errors s OR e\<rparr>"

definition fd_binary_remove :: "fd_binary_t \<Rightarrow> u32 \<Rightarrow> u32 \<Rightarrow> fd_binary_t option" where
  "fd_binary_remove s index length' =
     do { let amount = bin_put_index s - length';
          bytes \<leftarrow> rd_block (bin_buffer s) (unat (index + length')) (unat amount);
          buffer \<leftarrow> wr_block (bin_buffer s) (unat index) bytes;
          Some (s\<lparr>bin_buffer := buffer,
                  bin_get_index :=
                    (if bin_get_index s > index + length' then bin_get_index s - length'
                     else if bin_get_index s > index then index
                     else bin_get_index s),
                  bin_put_index := bin_put_index s - length'\<rparr>) }"

definition fd_binary_remaining_length :: "fd_binary_t \<Rightarrow> u32" where
  "fd_binary_remaining_length s = bin_size s - bin_put_index s"

definition fd_binary_get_check :: "fd_binary_t \<Rightarrow> u32 \<Rightarrow> bool \<times> fd_binary_t" where
  "fd_binary_get_check s length' =
     (if bin_get_index s + length' \<le> bin_size s then (True, s)
      else (False, bin_error fd_binary_error_underflow s))"

definition fd_binary_get_bytes :: "fd_binary_t \<Rightarrow> u32 \<Rightarrow> (u8 list \<times> fd_binary_t) option" where
  "fd_binary_get_bytes s length' =
     (case fd_binary_get_check s length' of (ok, s) \<Rightarrow>
        if \<not> ok then Some (replicate (unat length') 0, s)
        else do { data \<leftarrow> rd_block (bin_buffer s) (unat (bin_get_index s)) (unat length');
                  Some (data, s\<lparr>bin_get_index := bin_get_index s + length'\<rparr>) })"

text \<open>The shape the typed readers share: check, advance, unpack at the old index.\<close>

definition bin_get :: "u32 \<Rightarrow> (u8 list \<Rightarrow> nat \<Rightarrow> 'a::zero option) \<Rightarrow> fd_binary_t \<Rightarrow> ('a \<times> fd_binary_t) option" where
  "bin_get n unpack s =
     (case fd_binary_get_check s n of (ok, s) \<Rightarrow>
        if \<not> ok then Some (0, s)
        else do { value \<leftarrow> unpack (bin_buffer s) (unat (bin_get_index s));
                  Some (value, s\<lparr>bin_get_index := bin_get_index s + n\<rparr>) })"

definition fd_binary_get_uint8 :: "fd_binary_t \<Rightarrow> (u8 \<times> fd_binary_t) option" where
  "fd_binary_get_uint8 s = bin_get 1 fd_binary_unpack_uint8 s"
definition fd_binary_get_uint16 :: "fd_binary_t \<Rightarrow> (u16 \<times> fd_binary_t) option" where
  "fd_binary_get_uint16 s = bin_get 2 fd_binary_unpack_uint16 s"
definition fd_binary_get_uint24 :: "fd_binary_t \<Rightarrow> (u32 \<times> fd_binary_t) option" where
  "fd_binary_get_uint24 s = bin_get 3 fd_binary_unpack_uint24 s"
definition fd_binary_get_uint32 :: "fd_binary_t \<Rightarrow> (u32 \<times> fd_binary_t) option" where
  "fd_binary_get_uint32 s = bin_get 4 fd_binary_unpack_uint32 s"
definition fd_binary_get_uint48 :: "fd_binary_t \<Rightarrow> (u64 \<times> fd_binary_t) option" where
  "fd_binary_get_uint48 s = bin_get 6 fd_binary_unpack_uint48 s"
definition fd_binary_get_uint64 :: "fd_binary_t \<Rightarrow> (u64 \<times> fd_binary_t) option" where
  "fd_binary_get_uint64 s = bin_get 8 fd_binary_unpack_uint64 s"
definition fd_binary_get_float16 :: "fd_binary_t \<Rightarrow> (u32 \<times> fd_binary_t) option" where
  "fd_binary_get_float16 s = bin_get 2 fd_binary_unpack_float16 s"
definition fd_binary_get_float32 :: "fd_binary_t \<Rightarrow> (u32 \<times> fd_binary_t) option" where
  "fd_binary_get_float32 s = bin_get 4 fd_binary_unpack_float32 s"
definition fd_binary_get_float64 :: "fd_binary_t \<Rightarrow> (u64 \<times> fd_binary_t) option" where
  "fd_binary_get_float64 s = bin_get 8 fd_binary_unpack_double64 s"

text \<open>Shifting a 64-bit value by 64 or more is undefined: \<open>index * 7\<close> reaches 70 at the eleventh
  byte.\<close>

function get_varuint_loop :: "nat \<Rightarrow> nat \<Rightarrow> u64 \<Rightarrow> fd_binary_t \<Rightarrow> (u64 \<times> fd_binary_t) option" where
  "get_varuint_loop remaining index value s =
     (if index < remaining then
        do { byte \<leftarrow> rd (bin_buffer s) (unat (bin_get_index s));
             let s = s\<lparr>bin_get_index := bin_get_index s + 1\<rparr>;
             if index * 7 \<ge> 64 then None
             else
               let value = value OR push_bit (index * 7) (ucast byte AND 0x7f)
               in if byte AND 0x80 = 0 then Some (value, s)
                  else if value AND 0xe000000000000000 \<noteq> 0
                  then Some (0, bin_error fd_binary_error_invalid_representation s)
                  else get_varuint_loop remaining (index + 1) value s }
      else Some (0, bin_error fd_binary_error_out_of_bounds s))"
  by pat_completeness auto
termination by (relation "measure (\<lambda>(remaining, index, _). remaining - index)") auto

definition fd_binary_get_varuint :: "fd_binary_t \<Rightarrow> (u64 \<times> fd_binary_t) option" where
  "fd_binary_get_varuint s = get_varuint_loop (unat (bin_size s - bin_get_index s)) 0 0 s"

text \<open>The value of an \<open>int64_t\<close> is its two's complement pattern.\<close>

definition fd_binary_get_varint :: "fd_binary_t \<Rightarrow> (u64 \<times> fd_binary_t) option" where
  "fd_binary_get_varint s =
     do { (zig_zag, s) \<leftarrow> fd_binary_get_varuint s;
          Some (if zig_zag AND 1 \<noteq> 0 then drop_bit 1 zig_zag XOR 0xffffffffffffffff
                else drop_bit 1 zig_zag, s) }"

record fd_binary_string_t =
  str_length :: u64
  str_data :: nat

definition fd_binary_get_string :: "fd_binary_t \<Rightarrow> (fd_binary_string_t \<times> fd_binary_t) option" where
  "fd_binary_get_string s =
     do { (len, s) \<leftarrow> fd_binary_get_varuint s;
          let remaining = fd_binary_remaining_length s;
          let (len, s) = (if ucast remaining < len
                          then (0, bin_error fd_binary_error_invalid_representation s) else (len, s));
          Some (\<lparr>str_length = len, str_data = unat (bin_get_index s)\<rparr>,
                s\<lparr>bin_get_index := bin_get_index s + ucast len\<rparr>) }"

definition fd_binary_put_check :: "fd_binary_t \<Rightarrow> u32 \<Rightarrow> bool \<times> fd_binary_t" where
  "fd_binary_put_check s length' =
     (if bin_put_index s + length' \<le> bin_size s then (True, s)
      else (False, bin_error fd_binary_error_overflow s))"

definition fd_binary_put_bytes :: "fd_binary_t \<Rightarrow> u8 list \<Rightarrow> fd_binary_t option" where
  "fd_binary_put_bytes s data =
     (case fd_binary_put_check s (of_nat (length data)) of (ok, s) \<Rightarrow>
        if ok then
          do { buffer \<leftarrow> wr_block (bin_buffer s) (unat (bin_put_index s)) data;
               Some (s\<lparr>bin_buffer := buffer, bin_put_index := bin_put_index s + of_nat (length data)\<rparr>) }
        else Some s)"

text \<open>The shape the typed writers share: check for \<open>c\<close> bytes, advance by \<open>n\<close>, pack at the old
  index.\<close>

definition bin_put ::
  "u32 \<Rightarrow> u32 \<Rightarrow> (u8 list \<Rightarrow> nat \<Rightarrow> 'a \<Rightarrow> u8 list option) \<Rightarrow> fd_binary_t \<Rightarrow> 'a \<Rightarrow> fd_binary_t option" where
  "bin_put c n pack s value =
     (case fd_binary_put_check s c of (ok, s) \<Rightarrow>
        if ok then
          do { buffer \<leftarrow> pack (bin_buffer s) (unat (bin_put_index s)) value;
               Some (s\<lparr>bin_buffer := buffer, bin_put_index := bin_put_index s + n\<rparr>) }
        else Some s)"

definition fd_binary_put_uint8 :: "fd_binary_t \<Rightarrow> u8 \<Rightarrow> fd_binary_t option" where
  "fd_binary_put_uint8 s value = bin_put 1 1 fd_binary_pack_uint8 s value"
definition fd_binary_put_uint16 :: "fd_binary_t \<Rightarrow> u16 \<Rightarrow> fd_binary_t option" where
  "fd_binary_put_uint16 s value = bin_put 2 2 fd_binary_pack_uint16 s value"
definition fd_binary_put_uint24 :: "fd_binary_t \<Rightarrow> u32 \<Rightarrow> fd_binary_t option" where
  "fd_binary_put_uint24 s value = bin_put 3 3 fd_binary_pack_uint24 s value"
definition fd_binary_put_uint32 :: "fd_binary_t \<Rightarrow> u32 \<Rightarrow> fd_binary_t option" where
  "fd_binary_put_uint32 s value = bin_put 4 4 fd_binary_pack_uint32 s value"
definition fd_binary_put_uint48 :: "fd_binary_t \<Rightarrow> u64 \<Rightarrow> fd_binary_t option" where
  "fd_binary_put_uint48 s value = bin_put 8 6 fd_binary_pack_uint48 s value"
definition fd_binary_put_uint64 :: "fd_binary_t \<Rightarrow> u64 \<Rightarrow> fd_binary_t option" where
  "fd_binary_put_uint64 s value = bin_put 8 8 fd_binary_pack_uint64 s value"
definition fd_binary_put_float16 :: "fd_binary_t \<Rightarrow> u32 \<Rightarrow> fd_binary_t option" where
  "fd_binary_put_float16 s value = bin_put 2 2 fd_binary_pack_float16 s value"
definition fd_binary_put_float32 :: "fd_binary_t \<Rightarrow> u32 \<Rightarrow> fd_binary_t option" where
  "fd_binary_put_float32 s value = bin_put 4 4 fd_binary_pack_float32 s value"
definition fd_binary_put_double64 :: "fd_binary_t \<Rightarrow> u64 \<Rightarrow> fd_binary_t option" where
  "fd_binary_put_double64 s value = bin_put 8 8 fd_binary_pack_double64 s value"

function put_varuint_loop :: "u64 \<Rightarrow> fd_binary_t \<Rightarrow> fd_binary_t option" where
  "put_varuint_loop remainder s =
     (if remainder \<noteq> 0 \<and> \<not> remainder \<le> 0x7f then
        do { s \<leftarrow> fd_binary_put_uint8 s (ucast (remainder OR 0x80));
             put_varuint_loop (drop_bit 7 remainder) s }
      else fd_binary_put_uint8 s (ucast remainder))"
  by pat_completeness auto
termination
proof (relation "measure (\<lambda>(remainder, _). unat remainder)")
  fix remainder :: u64 and s s' :: fd_binary_t
  assume "remainder \<noteq> 0 \<and> \<not> remainder \<le> 0x7f"
  then have "0 < unat remainder" by (simp add: unat_gt_0)
  then have "unat remainder div 2 ^ 7 < unat remainder" by (simp add: div_less_dividend)
  moreover have "unat (drop_bit 7 remainder) = unat remainder div 2 ^ 7" by (rule unat_drop_bit)
  ultimately show "((drop_bit 7 remainder, s'), (remainder, s)) \<in> measure (\<lambda>(remainder, _). unat remainder)"
    by (simp only: in_measure split)
qed simp

definition fd_binary_put_varuint :: "fd_binary_t \<Rightarrow> u64 \<Rightarrow> fd_binary_t option" where
  "fd_binary_put_varuint s value = put_varuint_loop value s"

definition fd_binary_put_varint :: "fd_binary_t \<Rightarrow> u64 \<Rightarrow> fd_binary_t option" where
  "fd_binary_put_varint s value =
     (let zig_zag = (if value <s 0 then push_bit 1 value XOR 0xffffffffffffffff else push_bit 1 value)
      in fd_binary_put_varuint s zig_zag)"

definition fd_binary_put_string :: "fd_binary_t \<Rightarrow> u8 list \<Rightarrow> fd_binary_t option" where
  "fd_binary_put_string s string =
     do { let len = (of_nat (length string) :: u32);
          s \<leftarrow> fd_binary_put_varuint s (ucast len);
          fd_binary_put_bytes s string }"

section \<open>Little endian bytes\<close>

fun le_bytes :: "nat \<Rightarrow> 'a::len word \<Rightarrow> u8 list" where
  "le_bytes 0 v = []"
| "le_bytes (Suc n) v = ucast v # le_bytes n (drop_bit 8 v)"

fun le_value :: "u8 list \<Rightarrow> 'a::len word" where
  "le_value [] = 0"
| "le_value (b # bs) = ucast b OR push_bit 8 (le_value bs)"

lemma length_le_bytes [simp]: "length (le_bytes n v) = n"
  by (induction n arbitrary: v) simp_all

lemma le_value_bytes: "le_value (le_bytes n v) = take_bit (8 * n) v"
proof (induction n arbitrary: v)
  case (Suc n)
  show ?case
    by (rule bit_word_eqI) (auto simp: Suc bit_simps)
qed simp

lemma wr_all_block:
  "p + length bs \<le> length b \<Longrightarrow>
     fold (\<lambda>(i, x) b. b[p + i := x]) (enumerate 0 bs) b = take p b @ bs @ drop (p + length bs) b"
proof (induction bs rule: rev_induct)
  case (snoc x bs)
  then show ?case
    by (simp add: enumerate_append_eq list_update_append)
       (metis (no_types, lifting) add_Suc_right append_Cons append_Nil append_assoc Cons_nth_drop_Suc less_eq_Suc_le list_update_code(2))
qed simp

lemma pack_blocks:
  "p + 2 \<le> length b \<Longrightarrow> fd_binary_pack_uint16 b p v16 = wr_block b p (le_bytes 2 v16)"
  "p + 3 \<le> length b \<Longrightarrow> fd_binary_pack_uint24 b p v32 = wr_block b p (le_bytes 3 v32)"
  "p + 4 \<le> length b \<Longrightarrow> fd_binary_pack_uint32 b p v32 = wr_block b p (le_bytes 4 v32)"
  "p + 6 \<le> length b \<Longrightarrow> fd_binary_pack_uint48 b p v64 = wr_block b p (le_bytes 6 v64)"
  "p + 8 \<le> length b \<Longrightarrow> fd_binary_pack_uint64 b p v64 = wr_block b p (le_bytes 8 v64)"
  using wr_all_block[of p "le_bytes 2 v16" b] wr_all_block[of p "le_bytes 3 v32" b]
    wr_all_block[of p "le_bytes 4 v32" b] wr_all_block[of p "le_bytes 6 v64" b]
    wr_all_block[of p "le_bytes 8 v64" b]
  by (simp_all add: fd_binary_pack_uint16_def fd_binary_pack_uint24_def fd_binary_pack_uint32_def
      fd_binary_pack_uint48_def fd_binary_pack_uint64_def mem_simps eval_nat_numeral)

lemma take_drop_nth: "p + n \<le> length b \<Longrightarrow> take n (drop p b) = map (\<lambda>i. b ! (p + i)) [0..<n]"
  by (rule nth_equalityI) simp_all

lemma ucast_or: "ucast (a OR b) = (ucast a OR ucast b :: 'b::len word)" for a b :: "'a::len word"
  by (rule bit_word_eqI) (auto simp: bit_simps)

lemma unpack_uint16_value:
  "p + 2 \<le> length b \<Longrightarrow> fd_binary_unpack_uint16 b p = Some (le_value (take 2 (drop p b)))"
proof -
  assume "p + 2 \<le> length b"
  moreover have "(ucast (push_bit 8 (ucast y :: u32) OR ucast x) :: u16) = le_value [x, y]" for x y :: u8
    by (rule bit_word_eqI) (auto simp: bit_simps)
  ultimately show ?thesis
    by (simp add: fd_binary_unpack_uint16_def mem_simps take_drop_nth upt_rec)
qed

lemma unpack_uint24_value:
  "p + 3 \<le> length b \<Longrightarrow> fd_binary_unpack_uint24 b p = Some (le_value (take 3 (drop p b)))"
proof -
  assume "p + 3 \<le> length b"
  moreover have "push_bit 16 (ucast z) OR push_bit 8 (ucast y) OR ucast x = (le_value [x, y, z] :: u32)" for x y z :: u8
    by (rule bit_word_eqI) (auto simp: bit_simps)
  ultimately show ?thesis
    by (simp add: fd_binary_unpack_uint24_def mem_simps take_drop_nth upt_rec)
qed

lemma unpack_uint32_value:
  "p + 4 \<le> length b \<Longrightarrow> fd_binary_unpack_uint32 b p = Some (le_value (take 4 (drop p b)))"
proof -
  assume "p + 4 \<le> length b"
  moreover have "push_bit 24 (ucast w) OR push_bit 16 (ucast z) OR push_bit 8 (ucast y) OR ucast x =
      (le_value [x, y, z, w] :: u32)" for x y z w :: u8
    by (rule bit_word_eqI) (auto simp: bit_simps)
  ultimately show ?thesis
    by (simp add: fd_binary_unpack_uint32_def mem_simps take_drop_nth upt_rec eval_nat_numeral)
qed

lemma bit_le_value:
  "bit (le_value bs :: 'a::len word) i \<longleftrightarrow>
     i < LENGTH('a) \<and> i < 8 * length bs \<and> bit (bs ! (i div 8)) (i mod 8)"
proof (induction bs arbitrary: i)
  case (Cons b bs)
  show ?case
  proof (cases "i < 8")
    case True
    then show ?thesis by (auto simp: bit_simps)
  next
    case False
    then have "\<not> bit b i" by (auto dest: bit_imp_le_length)
    then show ?thesis
      using False by (auto simp: bit_simps Cons nth_Cons' le_div_geq le_mod_geq)
  qed
qed simp

lemma ucast_le_value:
  "8 * length bs \<le> LENGTH('a) \<Longrightarrow> (ucast (le_value bs :: 'a::len word) :: 'b::len word) = le_value bs"
  by (rule bit_word_eqI) (auto simp: bit_unsigned_iff bit_le_value)

lemma le_value_append:
  "(le_value (xs @ ys) :: 'a::len word) = le_value xs OR push_bit (8 * length xs) (le_value ys)"
proof (induction xs)
  case (Cons x xs)
  show ?case
    by (rule bit_word_eqI) (auto simp: Cons bit_simps)
qed simp

lemma unpack_uint48_value:
  "p + 6 \<le> length b \<Longrightarrow> fd_binary_unpack_uint48 b p = Some (le_value (take 6 (drop p b)))"
proof -
  assume p: "p + 6 \<le> length b"
  have "take 6 (drop p b) = take 4 (drop p b) @ take 2 (drop (p + 4) b)"
    using take_add[of 4 2 "drop p b"] by (simp add: add.commute)
  then show ?thesis
    using p by (simp add: fd_binary_unpack_uint48_def unpack_uint32_value unpack_uint16_value
        le_value_append ucast_le_value or.commute)
qed

lemma unpack_uint64_value:
  "p + 8 \<le> length b \<Longrightarrow> fd_binary_unpack_uint64 b p = Some (le_value (take 8 (drop p b)))"
proof -
  assume p: "p + 8 \<le> length b"
  have "take 8 (drop p b) = take 4 (drop p b) @ take 4 (drop (p + 4) b)"
    using take_add[of 4 4 "drop p b"] by (simp add: add.commute)
  then show ?thesis
    using p by (simp add: fd_binary_unpack_uint64_def unpack_uint32_value
        le_value_append ucast_le_value or.commute)
qed

lemmas unpack_values = unpack_uint16_value unpack_uint24_value unpack_uint32_value
  unpack_uint48_value unpack_uint64_value

section \<open>The invariant\<close>

text \<open>The buffer holds the bytes the reader and writer account for. Eight bytes, the longest
  field, can be added to the size without wrapping: on a 32-bit machine the buffer does not reach
  the last bytes of the address space.\<close>

definition bin_ok :: "fd_binary_t \<Rightarrow> bool" where
  "bin_ok s \<longleftrightarrow>
     unat (bin_size s) \<le> length (bin_buffer s) \<and> unat (bin_size s) + 8 < 2 ^ 32 \<and>
     unat (bin_put_index s) \<le> unat (bin_size s) \<and> unat (bin_get_index s) \<le> unat (bin_size s)"

definition bin_written :: "fd_binary_t \<Rightarrow> u8 list" where
  "bin_written s = take (unat (bin_put_index s)) (bin_buffer s)"

definition bin_append :: "u8 list \<Rightarrow> fd_binary_t \<Rightarrow> fd_binary_t" where
  "bin_append bs s =
     s\<lparr>bin_buffer := take (unat (bin_put_index s)) (bin_buffer s) @ bs @
                     drop (unat (bin_put_index s) + length bs) (bin_buffer s),
       bin_put_index := bin_put_index s + of_nat (length bs)\<rparr>"

lemma u32_add_no_wrap: "unat a + unat b < 2 ^ 32 \<Longrightarrow> unat (a + b) = unat a + unat b" for a b :: u32
  by (simp add: unat_word_ariths)

lemma bin_put_check_iff:
  assumes "bin_ok s" "unat n + unat (bin_size s) < 2 ^ 32"
  shows "fd_binary_put_check s n =
     (if unat (bin_put_index s) + unat n \<le> unat (bin_size s) then (True, s)
      else (False, bin_error fd_binary_error_overflow s))"
proof -
  have "unat (bin_put_index s + n) = unat (bin_put_index s) + unat n"
    by (rule u32_add_no_wrap) (use assms in \<open>simp add: bin_ok_def\<close>)
  then show ?thesis by (simp add: fd_binary_put_check_def word_le_nat_alt)
qed

lemma bin_get_check_iff:
  assumes "bin_ok s" "unat n + unat (bin_size s) < 2 ^ 32"
  shows "fd_binary_get_check s n =
     (if unat (bin_get_index s) + unat n \<le> unat (bin_size s) then (True, s)
      else (False, bin_error fd_binary_error_underflow s))"
proof -
  have "unat (bin_get_index s + n) = unat (bin_get_index s) + unat n"
    by (rule u32_add_no_wrap) (use assms in \<open>simp add: bin_ok_def\<close>)
  then show ?thesis by (simp add: fd_binary_get_check_def word_le_nat_alt)
qed

lemma bin_append_ok:
  assumes "bin_ok s" "unat (bin_put_index s) + length bs \<le> unat (bin_size s)"
  shows "bin_ok (bin_append bs s)" "bin_written (bin_append bs s) = bin_written s @ bs"
    "bin_size (bin_append bs s) = bin_size s" "bin_errors (bin_append bs s) = bin_errors s"
    "bin_get_index (bin_append bs s) = bin_get_index s"
    "length (bin_buffer (bin_append bs s)) = length (bin_buffer s)"
    "unat (bin_put_index (bin_append bs s)) = unat (bin_put_index s) + length bs"
proof -
  have n: "unat (of_nat (length bs) :: u32) = length bs"
    using assms by (simp add: bin_ok_def unat_of_nat)
  show put: "unat (bin_put_index (bin_append bs s)) = unat (bin_put_index s) + length bs"
    using assms u32_add_no_wrap[of "bin_put_index s" "of_nat (length bs)"]
    by (simp add: bin_append_def bin_ok_def n)
  show len: "length (bin_buffer (bin_append bs s)) = length (bin_buffer s)"
    using assms by (simp add: bin_append_def bin_ok_def)
  show "bin_size (bin_append bs s) = bin_size s" "bin_errors (bin_append bs s) = bin_errors s"
    "bin_get_index (bin_append bs s) = bin_get_index s"
    by (simp_all add: bin_append_def)
  show "bin_ok (bin_append bs s)"
    using assms put len by (simp add: bin_ok_def) (simp add: bin_append_def)
  show "bin_written (bin_append bs s) = bin_written s @ bs"
    unfolding bin_written_def put using assms by (simp add: bin_append_def bin_ok_def)
qed

section \<open>What the writers append\<close>

definition bin_room :: "fd_binary_t \<Rightarrow> nat" where
  "bin_room s = unat (bin_size s) - unat (bin_put_index s)"

text \<open>A field is written whole, or not at all and flagged.\<close>

definition bin_put_whole :: "nat \<Rightarrow> u8 list \<Rightarrow> fd_binary_t \<Rightarrow> fd_binary_t" where
  "bin_put_whole need bs s =
     (if need \<le> bin_room s then bin_append bs s else bin_error fd_binary_error_overflow s)"

lemma bin_room_iff: "bin_ok s \<Longrightarrow> n \<le> bin_room s \<longleftrightarrow> unat (bin_put_index s) + n \<le> unat (bin_size s)"
  by (auto simp: bin_ok_def bin_room_def)

lemma bin_room_le: "bin_ok s \<Longrightarrow> n \<le> bin_room s \<Longrightarrow> unat (bin_put_index s) + n \<le> length (bin_buffer s)"
  by (auto simp: bin_ok_def bin_room_def)

lemma bin_put_spec:
  assumes ok: "bin_ok s" and n: "unat n \<le> unat c" "unat c \<le> 8" "length bs = unat n"
    and pack: "\<And>b p. p + unat n \<le> length b \<Longrightarrow> pack b p v = wr_block b p bs"
  shows "bin_put c n pack s v = Some (bin_put_whole (unat c) bs s)"
proof (cases "unat c \<le> bin_room s")
  case True
  have "unat (bin_put_index s) + unat n \<le> length (bin_buffer s)"
    using True n(1) bin_room_le[OF ok, of "unat n"] by simp
  moreover have "of_nat (length bs) = n" using n(3) by simp
  ultimately show ?thesis
    using True ok n bin_put_check_iff[of s c] pack[of "unat (bin_put_index s)" "bin_buffer s"]
    by (simp add: bin_put_def bin_put_whole_def bin_append_def bin_room_iff mem_simps bin_ok_def)
next
  case False
  then show ?thesis
    using ok n bin_put_check_iff[of s c]
    by (simp add: bin_put_def bin_put_whole_def bin_room_iff bin_ok_def)
qed

lemma put_specs:
  assumes "bin_ok s"
  shows "fd_binary_put_uint8 s v8 = Some (bin_put_whole 1 [v8] s)"
    "fd_binary_put_uint16 s v16 = Some (bin_put_whole 2 (le_bytes 2 v16) s)"
    "fd_binary_put_uint24 s v32 = Some (bin_put_whole 3 (le_bytes 3 v32) s)"
    "fd_binary_put_uint32 s v32 = Some (bin_put_whole 4 (le_bytes 4 v32) s)"
    "fd_binary_put_uint48 s v64 = Some (bin_put_whole 8 (le_bytes 6 v64) s)"
    "fd_binary_put_uint64 s v64 = Some (bin_put_whole 8 (le_bytes 8 v64) s)"
    "fd_binary_put_float16 s v32 = Some (bin_put_whole 2 (le_bytes 2 (fd_ieee754_float_to_uint16 v32)) s)"
    "fd_binary_put_float32 s v32 = Some (bin_put_whole 4 (le_bytes 4 v32) s)"
    "fd_binary_put_double64 s v64 = Some (bin_put_whole 8 (le_bytes 8 v64) s)"
  unfolding fd_binary_put_uint8_def fd_binary_put_uint16_def fd_binary_put_uint24_def
    fd_binary_put_uint32_def fd_binary_put_uint48_def fd_binary_put_uint64_def
    fd_binary_put_float16_def fd_binary_put_float32_def fd_binary_put_double64_def
  by (subst bin_put_spec[OF assms];
      simp add: fd_binary_pack_uint8_def fd_binary_pack_float16_def fd_binary_pack_float32_def
        fd_binary_pack_double64_def pack_blocks wr_def wr_block_def upd_conv_take_nth_drop)+

lemma put_bytes_spec:
  assumes "bin_ok s" "length bs + unat (bin_size s) < 2 ^ 32"
  shows "fd_binary_put_bytes s bs = Some (bin_put_whole (length bs) bs s)"
proof -
  have n: "unat (of_nat (length bs) :: u32) = length bs" using assms by (simp add: unat_of_nat)
  show ?thesis
    using assms bin_put_check_iff[of s "of_nat (length bs)"] bin_room_le[OF assms(1), of "length bs"]
    by (simp add: fd_binary_put_bytes_def bin_put_whole_def bin_append_def n bin_room_iff mem_simps)
qed

lemma bin_error_ok [simp]:
  "bin_ok (bin_error e s) = bin_ok s" "bin_written (bin_error e s) = bin_written s"
  "bin_size (bin_error e s) = bin_size s" "bin_room (bin_error e s) = bin_room s"
  "bin_buffer (bin_error e s) = bin_buffer s" "bin_put_index (bin_error e s) = bin_put_index s"
  "bin_get_index (bin_error e s) = bin_get_index s" "bin_errors (bin_error e s) = bin_errors s OR e"
  by (simp_all add: bin_error_def bin_ok_def bin_written_def bin_room_def)

lemma bin_append_room:
  "bin_ok s \<Longrightarrow> length bs \<le> bin_room s \<Longrightarrow> bin_room (bin_append bs s) = bin_room s - length bs"
  using bin_append_ok[of s bs] by (simp add: bin_room_iff) (simp add: bin_room_def)

lemma bin_append_append:
  assumes "bin_ok s" "length (xs @ ys) \<le> bin_room s"
  shows "bin_append ys (bin_append xs s) = bin_append (xs @ ys) s"
proof -
  have put: "unat (bin_put_index s + of_nat (length xs)) = unat (bin_put_index s) + length xs"
    using bin_append_ok(7)[of s xs] assms by (simp add: bin_room_iff bin_append_def)
  have "unat (bin_put_index s) + length xs \<le> length (bin_buffer s)"
    using bin_room_le[OF assms(1), of "length xs"] assms(2) by simp
  then show ?thesis
    by (simp add: bin_append_def put ac_simps)
qed

subsection \<open>Variable length integers\<close>

function varuint_bytes :: "u64 \<Rightarrow> u8 list" where
  "varuint_bytes v =
     (if v \<le> 0x7f then [ucast v] else ucast (v OR 0x80) # varuint_bytes (drop_bit 7 v))"
  by pat_completeness auto
termination
proof (relation "measure unat")
  fix v :: u64 assume "\<not> v \<le> 0x7f"
  then have "v \<noteq> 0" by auto
  then have "unat v div 2 ^ 7 < unat v" by (simp add: unat_gt_0 div_less_dividend)
  moreover have "unat (drop_bit 7 v) = unat v div 2 ^ 7" by (rule unat_drop_bit)
  ultimately show "(drop_bit 7 v, v) \<in> measure unat" by (simp only: in_measure)
qed simp

declare varuint_bytes.simps [simp del] put_varuint_loop.simps [simp del] get_varuint_loop.simps [simp del]

text \<open>A variable length integer is written byte by byte, so that it may be cut.\<close>

definition bin_put_cut :: "u8 list \<Rightarrow> fd_binary_t \<Rightarrow> fd_binary_t" where
  "bin_put_cut bs s =
     (if length bs \<le> bin_room s then bin_append bs s
      else bin_error fd_binary_error_overflow (bin_append (take (bin_room s) bs) s))"

lemma bin_append_Nil: "bin_append [] s = s"
  by (simp add: bin_append_def)

lemma bin_error_idem: "bin_error e (bin_error e s) = bin_error e s"
  by (simp add: bin_error_def or.assoc)

lemma bin_append_error: "bin_append bs (bin_error e s) = bin_error e (bin_append bs s)"
  by (simp add: bin_append_def bin_error_def)

lemma bin_put_cut_Cons:
  assumes "bin_ok s"
  shows "bin_put_cut bs (bin_put_whole 1 [b] s) = bin_put_cut (b # bs) s"
proof (cases "bin_room s = 0")
  case True
  then show ?thesis
    by (simp add: bin_put_cut_def bin_put_whole_def bin_append_Nil bin_error_idem)
next
  case False
  then have room: "bin_room (bin_append [b] s) = bin_room s - 1"
    using bin_append_room[OF assms, of "[b]"] by simp
  show ?thesis
  proof (cases "length (b # bs) \<le> bin_room s")
    case True
    then show ?thesis
      using False bin_append_append[OF assms, of "[b]" bs]
      by (simp add: bin_put_cut_def bin_put_whole_def room)
  next
    case cut: False
    have "length ([b] @ take (bin_room s - 1) bs) \<le> bin_room s" using False by simp
    from bin_append_append[OF assms this]
    show ?thesis
      using False cut by (simp add: bin_put_cut_def bin_put_whole_def room take_Cons')
  qed
qed

lemma bin_put_whole_ok:
  "bin_ok s \<Longrightarrow> length bs \<le> need \<Longrightarrow> bin_ok (bin_put_whole need bs s)"
  by (simp add: bin_put_whole_def bin_append_ok bin_room_iff)

lemma put_varuint_spec: "bin_ok s \<Longrightarrow> fd_binary_put_varuint s v = Some (bin_put_cut (varuint_bytes v) s)"
  unfolding fd_binary_put_varuint_def
proof (induction v s rule: put_varuint_loop.induct)
  case (1 v s)
  have single: "bin_put_cut [b] s = bin_put_whole 1 [b] s" for b
    using bin_put_cut_Cons[OF 1(2), of "[]" b]
    by (auto simp: bin_put_cut_def bin_put_whole_def bin_append_Nil bin_append_append)
  show ?case
  proof (cases "v \<le> 0x7f")
    case True
    then show ?thesis
      using 1(2) by (simp add: put_varuint_loop.simps[of v] varuint_bytes.simps[of v] put_specs single)
  next
    case False
    then have "v \<noteq> 0" by auto
    then show ?thesis
      using 1 False bin_put_whole_ok[OF 1(2), of "[ucast (v OR 0x80)]" 1]
      by (simp add: put_varuint_loop.simps[of v] varuint_bytes.simps[of v] put_specs
          bin_put_cut_Cons[unfolded One_nat_def])
  qed
qed

section \<open>What the readers return\<close>

definition bin_next :: "u8 list \<Rightarrow> fd_binary_t \<Rightarrow> bool" where
  "bin_next bs s \<longleftrightarrow>
     unat (bin_get_index s) + length bs \<le> unat (bin_size s) \<and>
     take (length bs) (drop (unat (bin_get_index s)) (bin_buffer s)) = bs"

definition bin_advance :: "nat \<Rightarrow> fd_binary_t \<Rightarrow> fd_binary_t" where
  "bin_advance n s = s\<lparr>bin_get_index := bin_get_index s + of_nat n\<rparr>"

lemma bin_advance_ok:
  assumes "bin_ok s" "unat (bin_get_index s) + n \<le> unat (bin_size s)"
  shows "bin_ok (bin_advance n s)" "unat (bin_get_index (bin_advance n s)) = unat (bin_get_index s) + n"
    "bin_size (bin_advance n s) = bin_size s" "bin_errors (bin_advance n s) = bin_errors s"
    "bin_buffer (bin_advance n s) = bin_buffer s" "bin_put_index (bin_advance n s) = bin_put_index s"
proof -
  have "unat (of_nat n :: u32) = n" using assms by (simp add: bin_ok_def unat_of_nat)
  then show g: "unat (bin_get_index (bin_advance n s)) = unat (bin_get_index s) + n"
    using assms u32_add_no_wrap[of "bin_get_index s" "of_nat n"] by (simp add: bin_advance_def bin_ok_def)
  show "bin_ok (bin_advance n s)"
    using assms g by (simp add: bin_ok_def) (simp add: bin_advance_def)
qed (simp_all add: bin_advance_def)

lemma bin_advance_0 [simp]: "bin_advance 0 s = s"
  by (simp add: bin_advance_def)

lemma bin_advance_advance: "bin_advance n (bin_advance m s) = bin_advance (m + n) s"
  by (simp add: bin_advance_def add.assoc)

lemma bin_next_append:
  assumes "bin_ok s" "bin_next (xs @ ys) s"
  shows "bin_next xs s" "bin_next ys (bin_advance (length xs) s)"
proof -
  have d: "take (length xs + length ys) (drop (unat (bin_get_index s)) (bin_buffer s)) = xs @ ys"
    "unat (bin_get_index s) + length xs + length ys \<le> unat (bin_size s)"
    using assms(2) by (auto simp: bin_next_def)
  then show "bin_next xs s" unfolding bin_next_def
    by (metis (no_types, lifting) add_leD1 append_eq_conv_conj take_take min.absorb1 le_add1)
  have "drop (length xs) (take (length xs + length ys) (drop (unat (bin_get_index s)) (bin_buffer s))) = ys"
    using d by simp
  then show "bin_next ys (bin_advance (length xs) s)"
    unfolding bin_next_def using bin_advance_ok[OF assms(1), of "length xs"] d(2)
    by (simp add: drop_take add.commute)
qed

lemma bin_get_spec:
  assumes ok: "bin_ok s" and nx: "bin_next bs s" and n: "length bs = unat n" "unat n \<le> 8"
    and unpack: "\<And>b p. p + unat n \<le> length b \<Longrightarrow> take (unat n) (drop p b) = bs \<Longrightarrow> unpack b p = Some v"
  shows "bin_get n unpack s = Some (v, bin_advance (length bs) s)"
proof -
  have "of_nat (length bs) = n" using n(1) by simp
  then show ?thesis
    using ok nx n bin_get_check_iff[of s n]
      unpack[of "unat (bin_get_index s)" "bin_buffer s"]
    by (simp add: bin_get_def bin_next_def bin_ok_def bin_advance_def)
qed

lemma bin_get_specI:
  assumes "bin_ok s" "bin_next bs s" "length bs = m" "m = unat n" "m \<le> 8"
    and "\<And>b p. p + m \<le> length b \<Longrightarrow> take m (drop p b) = bs \<Longrightarrow> unpack b p = Some v"
  shows "bin_get n unpack s = Some (v, bin_advance m s)"
  using bin_get_spec[of s bs n unpack v] assms by simp

lemma get_specs:
  assumes "bin_ok s"
  shows "bin_next [v8] s \<Longrightarrow> fd_binary_get_uint8 s = Some (v8, bin_advance 1 s)"
    "bin_next bs s \<Longrightarrow> length bs = 2 \<Longrightarrow> fd_binary_get_uint16 s = Some (le_value bs, bin_advance 2 s)"
    "bin_next bs s \<Longrightarrow> length bs = 3 \<Longrightarrow> fd_binary_get_uint24 s = Some (le_value bs, bin_advance 3 s)"
    "bin_next bs s \<Longrightarrow> length bs = 4 \<Longrightarrow> fd_binary_get_uint32 s = Some (le_value bs, bin_advance 4 s)"
    "bin_next bs s \<Longrightarrow> length bs = 6 \<Longrightarrow> fd_binary_get_uint48 s = Some (le_value bs, bin_advance 6 s)"
    "bin_next bs s \<Longrightarrow> length bs = 8 \<Longrightarrow> fd_binary_get_uint64 s = Some (le_value bs, bin_advance 8 s)"
    "bin_next bs s \<Longrightarrow> length bs = 2 \<Longrightarrow> fd_ieee754_uint16_to_float (le_value bs) = Some f \<Longrightarrow>
       fd_binary_get_float16 s = Some (f, bin_advance 2 s)"
    "bin_next bs s \<Longrightarrow> length bs = 4 \<Longrightarrow> fd_binary_get_float32 s = Some (le_value bs, bin_advance 4 s)"
    "bin_next bs s \<Longrightarrow> length bs = 8 \<Longrightarrow> fd_binary_get_float64 s = Some (le_value bs, bin_advance 8 s)"
proof -
  show "bin_next [v8] s \<Longrightarrow> fd_binary_get_uint8 s = Some (v8, bin_advance 1 s)"
    unfolding fd_binary_get_uint8_def
    by (rule bin_get_specI[OF assms, of "[v8]"])
       (auto simp: fd_binary_unpack_uint8_def rd_def take_Suc hd_drop_conv_nth)
qed (unfold fd_binary_get_uint16_def fd_binary_get_uint24_def fd_binary_get_uint32_def
    fd_binary_get_uint48_def fd_binary_get_uint64_def fd_binary_get_float16_def
    fd_binary_get_float32_def fd_binary_get_float64_def,
    (rule bin_get_specI[OF assms], assumption, assumption;
     simp add: unpack_values fd_binary_unpack_float16_def
       fd_binary_unpack_float32_def fd_binary_unpack_double64_def)+)

text \<open>Values the reader of variable length integers accepts: it rejects a value of ten bytes whose
  bits 61 or 62 are set.\<close>

definition varuint_ok :: "u64 \<Rightarrow> bool" where
  "varuint_ok v \<longleftrightarrow> \<not> bit v 63 \<or> (\<not> bit v 61 \<and> \<not> bit v 62)"

lemma varuint_last_iff: "v \<le> 0x7f \<longleftrightarrow> drop_bit 7 v = 0" for v :: u64
proof -
  have "drop_bit 7 v = 0 \<longleftrightarrow> unat v div 2 ^ 7 = 0"
    by (simp only: unat_drop_bit[symmetric]) (simp only: unat_eq_zero)
  then show ?thesis by (auto simp: word_le_nat_alt div_eq_0_iff)
qed

lemma word_nonzero_iff: "w \<noteq> 0 \<longleftrightarrow> (\<exists>i. bit w i)" for w :: "'a::len word"
  by (auto intro: bit_word_eqI)

lemma varuint_more: "\<not> drop_bit (7 * k) v \<le> 0x7f \<longleftrightarrow> (\<exists>j. 7 * (k + 1) \<le> j \<and> bit v j)" for v :: u64
proof -
  have "\<not> drop_bit (7 * k) v \<le> 0x7f \<longleftrightarrow> drop_bit (7 * (k + 1)) v \<noteq> 0"
    unfolding varuint_last_iff by (simp only: drop_bit_drop_bit) (simp add: add.commute)
  also have "\<dots> \<longleftrightarrow> (\<exists>i. bit v (7 * (k + 1) + i))"
    by (simp only: word_nonzero_iff bit_drop_bit_eq o_apply)
  also have "\<dots> \<longleftrightarrow> (\<exists>j. 7 * (k + 1) \<le> j \<and> bit v j)"
    by (auto simp: nat_le_iff_add)
  finally show ?thesis .
qed

lemma u64_top3: "v AND 0xe000000000000000 \<noteq> 0 \<longleftrightarrow> bit v 61 \<or> bit v 62 \<or> bit v 63" for v :: u64
proof -
  have "(0xe000000000000000 :: u64) = push_bit 61 (mask 3)" by code_simp
  then have m: "bit (0xe000000000000000 :: u64) i \<longleftrightarrow> 61 \<le> i \<and> i < 64" for i
    by (simp only: bit_push_bit_iff bit_mask_iff possible_bit_word) auto
  have "v AND 0xe000000000000000 \<noteq> 0 \<longleftrightarrow> (\<exists>i. bit v i \<and> 61 \<le> i \<and> i < 64)"
    by (auto simp: bit_eq_iff bit_and_iff m)
  also have "\<dots> \<longleftrightarrow> bit v 61 \<or> bit v 62 \<or> bit v 63"
  proof
    assume "\<exists>i. bit v i \<and> 61 \<le> i \<and> i < 64"
    then obtain i where "bit v i" "i = 61 \<or> i = 62 \<or> i = 63" by force
    then show "bit v 61 \<or> bit v 62 \<or> bit v 63" by auto
  qed auto
  finally show ?thesis .
qed

lemma u64_below: "v < 2 ^ 63 \<longleftrightarrow> \<not> bit v 63" for v :: u64
proof -
  have "bit v 63 \<longleftrightarrow> bit (unat v) 63" by (simp add: bit_unsigned_iff)
  also have "\<dots> \<longleftrightarrow> odd (unat v div 2 ^ 63)" by (rule bit_iff_odd)
  finally have "bit v 63 \<longleftrightarrow> odd (unat v div 2 ^ 63)" .
  moreover have "unat v div 2 ^ 63 < 2"
    using unsigned_less[of v, where ?'a = nat] by (simp add: less_mult_imp_div_less)
  ultimately show ?thesis
    by (auto simp: odd_iff_mod_2_eq_one div_eq_0_iff word_less_nat_alt dest: less_2_cases)
qed

lemma u64_bits_61_62: "v AND 0x6000000000000000 = 0 \<longleftrightarrow> \<not> bit v 61 \<and> \<not> bit v 62" for v :: u64
proof -
  have "(0x6000000000000000 :: u64) = push_bit 61 (mask 2)" by code_simp
  then have m: "bit (0x6000000000000000 :: u64) i \<longleftrightarrow> 61 \<le> i \<and> i < 63" for i
    by (simp only: bit_push_bit_iff bit_mask_iff possible_bit_word) auto
  have "v AND 0x6000000000000000 \<noteq> 0 \<longleftrightarrow> (\<exists>i. bit v i \<and> 61 \<le> i \<and> i < 63)"
    by (simp only: word_nonzero_iff bit_and_iff m)
  also have "\<dots> \<longleftrightarrow> bit v 61 \<or> bit v 62"
  proof
    assume "\<exists>i. bit v i \<and> 61 \<le> i \<and> i < 63"
    then obtain i where "bit v i" "i = 61 \<or> i = 62" by force
    then show "bit v 61 \<or> bit v 62" by auto
  qed auto
  finally show ?thesis by blast
qed

lemma varuint_byte:
  "(ucast (ucast (w OR 0x80) :: u8) AND 0x7f :: u64) = take_bit 7 w"
  "w \<le> 0x7f \<Longrightarrow> (ucast (ucast w :: u8) AND 0x7f :: u64) = w"
  "(ucast (w OR 0x80) :: u8) AND 0x80 \<noteq> 0"
  "w \<le> 0x7f \<Longrightarrow> (ucast w :: u8) AND 0x80 = 0" for w :: u64
proof -
  have l64: "bit (0x7f :: u64) i \<longleftrightarrow> i < 7" for i
  proof -
    have "(0x7f :: u64) = mask 7" by code_simp
    then show ?thesis by (simp only: bit_mask_iff possible_bit_word) auto
  qed
  have l80: "bit (0x80 :: u64) i \<longleftrightarrow> i = 7" for i
    using bit_exp_iff[where ?'a = u64, of 7 i] by (auto simp: possible_bit_word)
  have small: "bit w i \<Longrightarrow> i < 7" if "w \<le> 0x7f" for i
    using that varuint_more[of 0 w] by (metis not_less add_0 drop_bit_0 mult.right_neutral mult_0_right id_apply)
  show "(ucast (ucast (w OR 0x80) :: u8) AND 0x7f :: u64) = take_bit 7 w"
    by (rule bit_word_eqI) (auto simp: bit_simps l64 l80)
  show "w \<le> 0x7f \<Longrightarrow> (ucast (ucast w :: u8) AND 0x7f :: u64) = w"
    by (rule bit_word_eqI) (auto simp: bit_simps l64 dest: small)
  have t: "c AND 0x80 \<noteq> 0 \<longleftrightarrow> bit c 7" for c :: u8
    using and_exp_eq_0_iff_not_bit[of c 7] by simp
  show "(ucast (w OR 0x80) :: u8) AND 0x80 \<noteq> 0"
    unfolding t by (simp add: bit_simps l80)
  show "w \<le> 0x7f \<Longrightarrow> (ucast w :: u8) AND 0x80 = 0"
    using t[of "ucast w"] small[of 7] by (auto simp: bit_simps)
qed

lemma take_bit_Suc_chunk:
  "take_bit (7 * k) v OR push_bit (7 * k) (take_bit 7 (drop_bit (7 * k) v)) = take_bit (7 * (k + 1)) v"
  for v :: u64
  by (rule bit_word_eqI) (auto simp: bit_simps)

lemma take_bit_last_chunk: "take_bit n v OR push_bit n (drop_bit n v) = v" for v :: u64
proof (rule bit_word_eqI)
  fix i assume "i < LENGTH(64)"
  then show "bit (take_bit n v OR push_bit n (drop_bit n v)) i = bit v i"
    by (cases "i < n") (auto simp: bit_simps)
qed

lemma varuint_bytes_nonempty: "varuint_bytes v \<noteq> []"
  by (subst varuint_bytes.simps) simp

lemma varuint_loop_spec:
  assumes "bin_ok s" "bin_next (varuint_bytes (drop_bit (7 * k) v)) s"
    "k + length (varuint_bytes (drop_bit (7 * k) v)) \<le> remaining"
    "k = 0 \<or> drop_bit (7 * k) v \<noteq> 0" "varuint_ok v \<or> k \<le> 8"
  shows "get_varuint_loop remaining k (take_bit (7 * k) v) s =
     (if varuint_ok v then Some (v, bin_advance (length (varuint_bytes (drop_bit (7 * k) v))) s)
      else Some (0, bin_error fd_binary_error_invalid_representation (bin_advance (9 - k) s)))"
  using assms
proof (induction "remaining - k" arbitrary: k s)
  case 0
  then show ?case by (subst (asm) varuint_bytes.simps) (auto split: if_splits)
next
  case (Suc n)
  let ?w = "drop_bit (7 * k) v"
  obtain b bs where bytes: "varuint_bytes ?w = b # bs"
    using varuint_bytes_nonempty by (meson neq_Nil_conv)
  have k: "k < remaining" using Suc(2) by simp
  have k64: "7 * k < 64"
  proof (cases "k = 0")
    case False
    then obtain i where "bit ?w i" using Suc(6) by (auto simp: word_nonzero_iff)
    then show ?thesis using bit_imp_le_length[of v "7 * k + i"] by (simp add: bit_drop_bit_eq)
  qed simp
  have get: "rd (bin_buffer s) (unat (bin_get_index s)) = Some b"
    using Suc(3,4) unfolding bytes bin_next_def bin_ok_def
    by (auto simp: rd_def take_Suc hd_drop_conv_nth split: if_splits)
  have nx: "bin_next bs (bin_advance 1 s)" "bin_ok (bin_advance 1 s)"
    using bin_next_append(2)[OF Suc(3), of "[b]" bs] Suc(4) bin_advance_ok(1)[OF Suc(3), of 1]
    unfolding bytes by (simp_all add: bin_next_def)
  show ?case
  proof (cases "?w \<le> 0x7f")
    case True
    then have b: "b = ucast ?w" "bs = []" using bytes by (auto simp: varuint_bytes.simps[of ?w])
    have "varuint_ok v"
    proof (rule ccontr)
      assume "\<not> varuint_ok v"
      then have "bit v 63" "k \<le> 8" using Suc(7) by (auto simp: varuint_ok_def)
      then show False using True varuint_more[of k v] by (auto intro: exI[of _ 63])
    qed
    then show ?thesis
      using k k64 get True
      by (subst get_varuint_loop.simps)
         (simp add: b varuint_byte take_bit_last_chunk mult.commute[of k] bytes bin_advance_def del: push_bit_and)
  next
    case False
    then have b: "b = ucast (?w OR 0x80)" "bs = varuint_bytes (drop_bit (7 * (k + 1)) v)"
      using bytes by (auto simp: varuint_bytes.simps[of ?w] drop_bit_drop_bit add.commute)
    obtain j where j: "7 * (k + 1) \<le> j" "bit v j" using False varuint_more by blast
    then have k8: "k \<le> 8" using bit_imp_le_length[OF j(2)] by simp
    let ?v = "take_bit (7 * (k + 1)) v"
    have reject: "?v AND 0xe000000000000000 \<noteq> 0 \<longleftrightarrow> \<not> varuint_ok v \<and> k = 8"
    proof (cases "k = 8")
      case True
      then have "j = 63" using j bit_imp_le_length[OF j(2)] by simp
      then show ?thesis using True j by (auto simp: u64_top3 varuint_ok_def bit_take_bit_iff)
    next
      case False
      then show ?thesis using k8 by (simp add: u64_top3 bit_take_bit_iff)
    qed
    have step: "get_varuint_loop remaining k (take_bit (7 * k) v) s =
        (if \<not> varuint_ok v \<and> k = 8
         then Some (0, bin_error fd_binary_error_invalid_representation (bin_advance 1 s))
         else get_varuint_loop remaining (k + 1) ?v (bin_advance 1 s))"
      using k k64 get reject
      by (subst get_varuint_loop.simps)
         (simp only: b varuint_byte take_bit_Suc_chunk mult.commute[of k] if_True if_False simp_thms
           bind.bind_lunit Let_def not_le option.case bin_advance_def of_nat_1 cong: if_cong, simp)
    show ?thesis
    proof (cases "\<not> varuint_ok v \<and> k = 8")
      case True
      then show ?thesis using step by simp
    next
      case go: False
      have "get_varuint_loop remaining (k + 1) ?v (bin_advance 1 s) =
         (if varuint_ok v then Some (v, bin_advance (length bs) (bin_advance 1 s))
          else Some (0, bin_error fd_binary_error_invalid_representation (bin_advance (9 - (k + 1)) (bin_advance 1 s))))"
        unfolding b(2)
      proof (rule Suc(1))
        show "n = remaining - (k + 1)" using Suc(2) by simp
        show "bin_next (varuint_bytes (drop_bit (7 * (k + 1)) v)) (bin_advance 1 s)"
          using nx(1) b(2) by simp
        show "k + 1 + length (varuint_bytes (drop_bit (7 * (k + 1)) v)) \<le> remaining"
          using Suc(5) bytes b(2) by simp
        show "k + 1 = 0 \<or> drop_bit (7 * (k + 1)) v \<noteq> 0"
          using False by (simp add: varuint_last_iff drop_bit_drop_bit add.commute)
        show "varuint_ok v \<or> k + 1 \<le> 8" using go Suc(7) k8 by auto
      qed (rule nx(2))
      then show ?thesis
        using step go k8 Suc(7)
        by (auto simp: bytes bin_advance_advance Suc_diff_le[symmetric])
    qed
  qed
qed

lemma length_varuint_bytes: "length (varuint_bytes (drop_bit (7 * k) v)) \<le> 10 - k" if "k \<le> 9"
  using that
proof (induction "9 - k" arbitrary: k)
  case 0
  then have "drop_bit 63 v \<le> 0x7f"
    using varuint_more[of 9 v] by (auto dest: bit_imp_le_length)
  then show ?case using 0 by (subst varuint_bytes.simps) (simp add: drop_bit_drop_bit)
next
  case (Suc n)
  then have "length (varuint_bytes (drop_bit (7 * (k + 1)) v)) \<le> 10 - (k + 1)" by (intro Suc(1)) auto
  then show ?case
    using Suc(2) by (subst varuint_bytes.simps) (auto simp: drop_bit_drop_bit add.commute)
qed

lemma varuint_at_most_10: "length (varuint_bytes v) \<le> 10"
  using length_varuint_bytes[of 0 v] by simp

text \<open>Ten bytes at most, nine for the values below \<open>2 ^ 63\<close>.\<close>

lemma get_varuint_spec:
  assumes "bin_ok s" "bin_next (varuint_bytes v) s"
  shows "fd_binary_get_varuint s =
     (if varuint_ok v then Some (v, bin_advance (length (varuint_bytes v)) s)
      else Some (0, bin_error fd_binary_error_invalid_representation (bin_advance 9 s)))"
proof -
  have "unat (bin_size s - bin_get_index s) = unat (bin_size s) - unat (bin_get_index s)"
    using assms(1) by (simp add: bin_ok_def unat_sub word_le_nat_alt)
  moreover have "length (varuint_bytes v) \<le> unat (bin_size s) - unat (bin_get_index s)"
    using assms(2) unfolding bin_next_def by linarith
  ultimately show ?thesis
    unfolding fd_binary_get_varuint_def
    using varuint_loop_spec[OF assms(1), of 0 v] assms(2) by simp
qed

definition zigzag :: "u64 \<Rightarrow> u64" where
  "zigzag v = (if bit v 63 then push_bit 1 v XOR - 1 else push_bit 1 v)"

lemma put_varint_zigzag: "fd_binary_put_varint s v = fd_binary_put_varuint s (zigzag v)"
proof -
  have "v <s 0 \<longleftrightarrow> bit v 63"
    by (simp add: word_sless_alt word_sle_eq sint_uint bit_unsigned_iff flip: bit_last_iff)
  moreover have "(0xffffffffffffffff :: u64) = - 1" by simp
  ultimately show ?thesis by (simp only: fd_binary_put_varint_def zigzag_def Let_def)
qed

lemma unzigzag:
  "(if zigzag v AND 1 \<noteq> 0 then drop_bit 1 (zigzag v) XOR 0xffffffffffffffff else drop_bit 1 (zigzag v)) = v"
proof -
  have m: "(0xffffffffffffffff :: u64) = - 1" by simp
  have z: "bit (zigzag v) i \<longleftrightarrow> i < 64 \<and> ((1 \<le> i \<and> bit v (i - 1)) \<noteq> bit v 63)" for i
  proof -
    have p: "bit (push_bit 1 v) i \<longleftrightarrow> 1 \<le> i \<and> i < 64 \<and> bit v (i - 1)"
      by (simp only: bit_push_bit_iff possible_bit_word) (auto dest: bit_imp_le_length)
    show ?thesis
      by (cases "bit v 63")
         (simp_all only: zigzag_def if_True if_False bit_xor_iff p bit_minus_1_iff possible_bit_word,
          auto dest: bit_imp_le_length)
  qed
  have "zigzag v AND 1 \<noteq> 0 \<longleftrightarrow> bit (zigzag v) 0"
    using and_exp_eq_0_iff_not_bit[of "zigzag v" 0] by simp
  also have "\<dots> \<longleftrightarrow> bit v 63" by (simp add: z)
  finally have odd: "zigzag v AND 1 \<noteq> 0 \<longleftrightarrow> bit v 63" .
  show ?thesis
    unfolding odd m
  proof (rule bit_word_eqI)
    fix n assume n: "n < LENGTH(64)"
    have "bit (drop_bit 1 (zigzag v)) n \<longleftrightarrow> n \<noteq> 63 \<and> bit v n \<noteq> bit v 63"
      using n by (simp add: bit_drop_bit_eq z) linarith
    then show "bit (if bit v 63 then drop_bit 1 (zigzag v) XOR - 1 else drop_bit 1 (zigzag v)) n = bit v n"
      using n by (auto simp: bit_xor_iff bit_not_iff bit_minus_1_iff possible_bit_word)
  qed
qed

section \<open>Messages of fields\<close>

datatype field =
    F_uint8 u8 | F_uint16 u16 | F_uint24 u32 | F_uint32 u32 | F_uint48 u64 | F_uint64 u64
  | F_float16 u32 | F_float32 u32 | F_double64 u64
  | F_varuint u64 | F_varint u64 | F_string "u8 list"

fun put_field :: "fd_binary_t \<Rightarrow> field \<Rightarrow> fd_binary_t option" where
  "put_field s (F_uint8 v) = fd_binary_put_uint8 s v"
| "put_field s (F_uint16 v) = fd_binary_put_uint16 s v"
| "put_field s (F_uint24 v) = fd_binary_put_uint24 s v"
| "put_field s (F_uint32 v) = fd_binary_put_uint32 s v"
| "put_field s (F_uint48 v) = fd_binary_put_uint48 s v"
| "put_field s (F_uint64 v) = fd_binary_put_uint64 s v"
| "put_field s (F_float16 v) = fd_binary_put_float16 s v"
| "put_field s (F_float32 v) = fd_binary_put_float32 s v"
| "put_field s (F_double64 v) = fd_binary_put_double64 s v"
| "put_field s (F_varuint v) = fd_binary_put_varuint s v"
| "put_field s (F_varint v) = fd_binary_put_varint s v"
| "put_field s (F_string v) = fd_binary_put_string s v"

text \<open>Read a field of the type of a given one; the bytes of a string are those its descriptor
  points to.\<close>

fun get_field :: "fd_binary_t \<Rightarrow> field \<Rightarrow> (field \<times> fd_binary_t) option" where
  "get_field s (F_uint8 _) = map_option (map_prod F_uint8 id) (fd_binary_get_uint8 s)"
| "get_field s (F_uint16 _) = map_option (map_prod F_uint16 id) (fd_binary_get_uint16 s)"
| "get_field s (F_uint24 _) = map_option (map_prod F_uint24 id) (fd_binary_get_uint24 s)"
| "get_field s (F_uint32 _) = map_option (map_prod F_uint32 id) (fd_binary_get_uint32 s)"
| "get_field s (F_uint48 _) = map_option (map_prod F_uint48 id) (fd_binary_get_uint48 s)"
| "get_field s (F_uint64 _) = map_option (map_prod F_uint64 id) (fd_binary_get_uint64 s)"
| "get_field s (F_float16 _) = map_option (map_prod F_float16 id) (fd_binary_get_float16 s)"
| "get_field s (F_float32 _) = map_option (map_prod F_float32 id) (fd_binary_get_float32 s)"
| "get_field s (F_double64 _) = map_option (map_prod F_double64 id) (fd_binary_get_float64 s)"
| "get_field s (F_varuint _) = map_option (map_prod F_varuint id) (fd_binary_get_varuint s)"
| "get_field s (F_varint _) = map_option (map_prod F_varint id) (fd_binary_get_varint s)"
| "get_field s (F_string _) =
     do { (str, s) \<leftarrow> fd_binary_get_string s;
          bytes \<leftarrow> rd_block (bin_buffer s) (str_data str) (unat (str_length str));
          Some (F_string bytes, s) }"

fun put_fields :: "fd_binary_t \<Rightarrow> field list \<Rightarrow> fd_binary_t option" where
  "put_fields s [] = Some s"
| "put_fields s (f # fs) = do { s \<leftarrow> put_field s f; put_fields s fs }"

fun get_fields :: "fd_binary_t \<Rightarrow> field list \<Rightarrow> (field list \<times> fd_binary_t) option" where
  "get_fields s [] = Some ([], s)"
| "get_fields s (f # fs) =
     do { (g, s) \<leftarrow> get_field s f; (gs, s) \<leftarrow> get_fields s fs; Some (g # gs, s) }"

text \<open>The bytes of a field, and the values that its encoding can carry.\<close>

fun field_bytes :: "field \<Rightarrow> u8 list" where
  "field_bytes (F_uint8 v) = [v]"
| "field_bytes (F_uint16 v) = le_bytes 2 v"
| "field_bytes (F_uint24 v) = le_bytes 3 v"
| "field_bytes (F_uint32 v) = le_bytes 4 v"
| "field_bytes (F_uint48 v) = le_bytes 6 v"
| "field_bytes (F_uint64 v) = le_bytes 8 v"
| "field_bytes (F_float16 v) = le_bytes 2 (fd_ieee754_float_to_uint16 v)"
| "field_bytes (F_float32 v) = le_bytes 4 v"
| "field_bytes (F_double64 v) = le_bytes 8 v"
| "field_bytes (F_varuint v) = varuint_bytes v"
| "field_bytes (F_varint v) = varuint_bytes (zigzag v)"
| "field_bytes (F_string v) = varuint_bytes (of_nat (length v)) @ v"

fun field_ok :: "field \<Rightarrow> bool" where
  "field_ok (F_uint24 v) = (take_bit 24 v = v)"
| "field_ok (F_uint48 v) = (take_bit 48 v = v)"
| "field_ok (F_float16 v) = (fd_ieee754_uint16_to_float (fd_ieee754_float_to_uint16 v) = Some v)"
| "field_ok (F_varuint v) = varuint_ok v"
| "field_ok (F_varint v) = varuint_ok (zigzag v)"
| "field_ok _ = True"

text \<open>A string fits in memory beside the buffer.\<close>

fun field_fits :: "u32 \<Rightarrow> field \<Rightarrow> bool" where
  "field_fits s (F_string v) = (length v + unat s < 2 ^ 32)"
| "field_fits s _ = True"

text \<open>What every writer guarantees: it does not leave the buffer, keeps the invariant and what was
  written before, and either appends all its bytes or records an overflow.\<close>

definition bin_put_result :: "u8 list \<Rightarrow> fd_binary_t \<Rightarrow> fd_binary_t \<Rightarrow> bool" where
  "bin_put_result bs s t \<longleftrightarrow>
     bin_ok t \<and> bin_size t = bin_size s \<and> bin_get_index t = bin_get_index s \<and>
     length (bin_buffer t) = length (bin_buffer s) \<and>
     (bin_errors t = bin_errors s \<and> bin_written t = bin_written s @ bs \<or>
      bin_errors t = bin_errors s OR fd_binary_error_overflow \<and>
      (\<exists>n. bin_written t = bin_written s @ take n bs))"

lemma bin_put_whole_result:
  "bin_ok s \<Longrightarrow> length bs \<le> need \<Longrightarrow> bin_put_result bs s (bin_put_whole need bs s)"
  using bin_append_ok[of s bs]
  by (auto simp: bin_put_whole_def bin_room_iff bin_put_result_def intro: exI[of _ 0])

lemma bin_put_cut_result: "bin_ok s \<Longrightarrow> bin_put_result bs s (bin_put_cut bs s)"
  using bin_append_ok[of s bs] bin_append_ok[of s "take (bin_room s) bs"]
    bin_room_iff[of s "length bs"] bin_room_iff[of s "length (take (bin_room s) bs)"]
  by (auto simp: bin_put_cut_def bin_put_result_def)

lemma ucast_of_nat_u32: "n < 2 ^ 32 \<Longrightarrow> (ucast (of_nat n :: u32) :: u64) = of_nat n"
proof -
  assume "n < 2 ^ 32"
  then have "unat (of_nat n :: u32) = n" by (simp add: unat_of_nat)
  then show ?thesis using of_nat_unat[of "of_nat n :: u32", where ?'a = u64] by simp
qed

lemma put_string_result:
  assumes "bin_ok s" "length v + unat (bin_size s) < 2 ^ 32"
  shows "\<exists>t. fd_binary_put_string s v = Some t \<and> bin_put_result (field_bytes (F_string v)) s t"
proof -
  let ?n = "varuint_bytes (of_nat (length v))"
  have len: "(ucast (of_nat (length v) :: u32) :: u64) = of_nat (length v)"
    using assms(2) ucast_of_nat_u32[of "length v"] by simp
  define t where "t = bin_put_cut ?n s"
  have t: "bin_ok t" "bin_size t = bin_size s"
    using bin_put_cut_result[OF assms(1), of ?n] by (simp_all add: bin_put_result_def t_def)
  have put: "fd_binary_put_string s v = Some (bin_put_whole (length v) v t)"
    using put_bytes_spec[OF t(1), of v] assms t(2)
    by (simp add: fd_binary_put_string_def put_varuint_spec len t_def)
  have "bin_put_result (?n @ v) s (bin_put_whole (length v) v t)"
  proof (cases "length ?n \<le> bin_room s")
    case True
    then have ta: "t = bin_append ?n s" by (simp add: t_def bin_put_cut_def)
    note a = bin_append_ok[OF assms(1), of ?n, unfolded bin_room_iff[OF assms(1), symmetric], OF True]
    have "bin_put_result v t (bin_put_whole (length v) v t)"
      using bin_put_whole_result[OF t(1)] by simp
    then show ?thesis
      using a unfolding bin_put_result_def ta
      by (auto intro: exI[of _ "length ?n + n" for n] simp: exI[of _ "length ?n"])
  next
    case False
    let ?c = "take (bin_room s) ?n"
    have tc: "t = bin_error fd_binary_error_overflow (bin_append ?c s)"
      using False by (simp add: t_def bin_put_cut_def)
    have c: "length ?c \<le> bin_room s" by simp
    note a = bin_append_ok[OF assms(1), of ?c, unfolded bin_room_iff[OF assms(1), symmetric], OF c]
    have "bin_room t = 0"
      using bin_append_room[OF assms(1) c] False by (simp add: tc)
    then have "bin_put_whole (length v) v t = (if v = [] then t else bin_error fd_binary_error_overflow t)"
      by (simp add: bin_put_whole_def bin_append_Nil)
    then show ?thesis
      using a False unfolding bin_put_result_def tc
      by (auto simp: or.assoc intro: exI[of _ "bin_room s"])
  qed
  then show ?thesis using put by simp
qed

lemma put_field_result:
  assumes "bin_ok s" "field_fits (bin_size s) f"
  shows "\<exists>t. put_field s f = Some t \<and> bin_put_result (field_bytes f) s t"
  using assms put_string_result
  by (cases f)
     (simp_all add: put_specs put_varint_zigzag put_varuint_spec bin_put_whole_result bin_put_cut_result)

definition fields_bytes :: "field list \<Rightarrow> u8 list" where
  "fields_bytes fs = concat (map field_bytes fs)"

lemma put_fields_result:
  assumes "bin_ok s" "\<And>f. f \<in> set fs \<Longrightarrow> field_fits (bin_size s) f"
  shows "\<exists>t. put_fields s fs = Some t \<and> bin_ok t \<and> bin_size t = bin_size s \<and>
           bin_get_index t = bin_get_index s \<and> length (bin_buffer t) = length (bin_buffer s) \<and>
           (\<exists>bs. bin_written t = bin_written s @ bs) \<and>
           (bin_errors t = bin_errors s \<and> bin_written t = bin_written s @ fields_bytes fs \<or>
            bin_errors t = bin_errors s OR fd_binary_error_overflow)"
  using assms
proof (induction fs arbitrary: s)
  case Nil
  then show ?case by (simp add: fields_bytes_def)
next
  case (Cons f fs)
  obtain t where t: "put_field s f = Some t" "bin_put_result (field_bytes f) s t"
    using put_field_result[OF Cons.prems(1)] Cons.prems(2) by (metis list.set_intros(1))
  then have ok: "bin_ok t" "bin_size t = bin_size s" by (simp_all add: bin_put_result_def)
  then obtain u where u: "put_fields t fs = Some u" "bin_ok u" "bin_size u = bin_size t"
      "bin_get_index u = bin_get_index t" "length (bin_buffer u) = length (bin_buffer t)"
      "\<exists>bs. bin_written u = bin_written t @ bs"
      "bin_errors u = bin_errors t \<and> bin_written u = bin_written t @ fields_bytes fs \<or>
       bin_errors u = bin_errors t OR fd_binary_error_overflow"
    using Cons.IH[of t] Cons.prems(2) by auto
  show ?case
    using t u by (auto simp: bin_put_result_def fields_bytes_def or.assoc)
qed

lemma get_varint_spec:
  assumes "bin_ok s" "bin_next (varuint_bytes (zigzag v)) s" "varuint_ok (zigzag v)"
  shows "fd_binary_get_varint s = Some (v, bin_advance (length (varuint_bytes (zigzag v))) s)"
  unfolding fd_binary_get_varint_def get_varuint_spec[OF assms(1,2)]
  using assms(3) by (simp only: if_True bind.bind_lunit split unzigzag)

lemma varuint_ok_u32: "n < 2 ^ 32 \<Longrightarrow> varuint_ok (of_nat n)"
proof -
  assume "n < 2 ^ 32"
  then have "\<not> bit n 63" by (simp add: bit_iff_odd div_eq_0_iff)
  then show ?thesis by (simp add: varuint_ok_def bit_of_nat_iff)
qed

lemma unat_ucast_u64: "unat (ucast w :: u64) = unat w" for w :: u32
proof -
  have "unat w < 2 ^ 64" using unsigned_less[of w, where ?'a = nat] by simp
  then show ?thesis by (simp add: unsigned_ucast_eq take_bit_nat_eq_self)
qed

lemma get_string_spec:
  assumes ok: "bin_ok s" and nx: "bin_next (varuint_bytes (of_nat (length v)) @ v) s"
    and put: "bin_put_index s = 0"
  shows "get_field s (F_string v) =
     Some (F_string v, bin_advance (length (varuint_bytes (of_nat (length v))) + length v) s)"
proof -
  let ?n = "varuint_bytes (of_nat (length v))" and ?l = "of_nat (length v) :: u64"
  let ?t = "bin_advance (length ?n) s"
  have small: "length v < 2 ^ 32" "length v \<le> unat (bin_size s)"
    using ok nx unfolding bin_ok_def bin_next_def length_append by linarith+
  have n: "bin_next ?n s" "bin_next v ?t" using bin_next_append[OF ok nx] by simp_all
  have get: "fd_binary_get_varuint s = Some (?l, ?t)"
    unfolding get_varuint_spec[OF ok n(1)] using varuint_ok_u32[OF small(1)] by simp
  have adv: "unat (bin_get_index s) + length ?n \<le> unat (bin_size s)" using n(1) by (simp add: bin_next_def)
  note t = bin_advance_ok[OF ok adv]
  have u: "unat ?l = length v" using small(1) by (simp add: unat_of_nat)
  have "unat (ucast (fd_binary_remaining_length ?t) :: u64) = unat (bin_size s)"
    using put t by (simp add: fd_binary_remaining_length_def unat_ucast_u64)
  then have fits: "\<not> ucast (fd_binary_remaining_length ?t) < ?l"
    using small(2) by (simp add: word_less_nat_alt u)
  have "rd_block (bin_buffer s) (unat (bin_get_index ?t)) (length v) = Some v"
    using n(2) t ok by (simp add: rd_block_def bin_next_def bin_ok_def)
  moreover have "(ucast ?l :: u32) = of_nat (length v)"
    by (metis small(1) of_nat_unat u)
  ultimately show ?thesis
    using get fits u t(5)
    by (simp add: fd_binary_get_string_def Let_def bin_advance_def add.assoc)
qed

lemma get_field_spec:
  assumes "bin_ok s" "bin_next (field_bytes f) s" "field_ok f" "bin_put_index s = 0"
  shows "get_field s f = Some (f, bin_advance (length (field_bytes f)) s)"
proof (cases f)
  case (F_string v)
  then show ?thesis using get_string_spec[OF assms(1), of v] assms by simp
next
  case (F_float16 v)
  then show ?thesis
    using assms get_specs(7)[OF assms(1), of "le_bytes 2 (fd_ieee754_float_to_uint16 v)" v]
    by (simp add: le_value_bytes take_bit_word_eq_self)
qed (use assms in \<open>simp_all add: get_specs le_value_bytes get_varuint_spec get_varint_spec take_bit_word_eq_self\<close>)

lemma get_fields_spec:
  assumes "bin_ok s" "bin_next (fields_bytes fs) s" "\<forall>f \<in> set fs. field_ok f" "bin_put_index s = 0"
  shows "get_fields s fs = Some (fs, bin_advance (length (fields_bytes fs)) s)"
  using assms
proof (induction fs arbitrary: s)
  case (Cons f fs)
  let ?t = "bin_advance (length (field_bytes f)) s"
  have nx: "bin_next (field_bytes f) s" "bin_next (fields_bytes fs) ?t"
    using bin_next_append[OF Cons.prems(1), of "field_bytes f" "fields_bytes fs"] Cons.prems(2)
    by (simp_all add: fields_bytes_def)
  then have "bin_ok ?t" "bin_put_index ?t = 0"
    using bin_advance_ok[OF Cons.prems(1)] Cons.prems(4) by (simp_all add: bin_next_def)
  then show ?case
    using Cons nx by (simp add: get_field_spec bin_advance_advance) (simp add: fields_bytes_def)
qed (simp add: fields_bytes_def)

section \<open>Properties\<close>

lemma bin_initialize_ok:
  "unat n \<le> length b \<Longrightarrow> unat n + 8 < 2 ^ 32 \<Longrightarrow> bin_ok (fd_binary_initialize b n)"
  by (simp add: bin_ok_def fd_binary_initialize_def)

text \<open>C4: a message written field by field into an empty buffer and read back field by field by a
  reader over the written bytes yields the fields that were written, when no overflow was recorded;
  the reader records no error either. Every field type of the module takes part; the fields must
  be in the range of their encoding (\<open>field_ok\<close>: 24 and 48 bit integers, half precision floats,
  variable length integers the reader accepts).\<close>

theorem fd_binary_fields_roundtrip:
  assumes "unat n \<le> length b" "unat n + 8 < 2 ^ 32"
    and "\<forall>f \<in> set fs. field_ok f \<and> field_fits n f"
    and "put_fields (fd_binary_initialize b n) fs = Some w" "bin_errors w = 0"
  shows "\<exists>r. get_fields (fd_binary_initialize (bin_buffer w) (bin_put_index w)) fs = Some (fs, r) \<and>
             bin_errors r = 0 \<and> bin_get_index r = bin_put_index w"
proof -
  let ?i = "fd_binary_initialize b n"
  have ok: "bin_ok ?i" "bin_size ?i = n" "bin_errors ?i = 0" "bin_written ?i = []"
    using bin_initialize_ok assms(1,2) by (simp_all add: fd_binary_initialize_def bin_written_def)
  have "(8 :: u32) \<noteq> 0" by simp
  then obtain wr: "bin_ok w" "bin_written w = fields_bytes fs"
    using put_fields_result[OF ok(1), of fs] assms(3-5) ok(2-4)
    by (auto simp: fd_binary_error_overflow_def)
  let ?r = "fd_binary_initialize (bin_buffer w) (bin_put_index w)"
  have r: "bin_ok ?r" "bin_put_index ?r = 0"
    using wr(1) by (auto simp: bin_ok_def fd_binary_initialize_def)
  have len: "length (fields_bytes fs) = unat (bin_put_index w)"
    unfolding wr(2)[symmetric] using wr(1) by (auto simp: bin_written_def bin_ok_def)
  then have "bin_next (fields_bytes fs) ?r"
    using wr(2) by (simp add: bin_next_def fd_binary_initialize_def bin_written_def)
  then have "get_fields ?r fs = Some (fs, bin_advance (length (fields_bytes fs)) ?r)"
    using get_fields_spec[OF r(1)] assms(3) r(2) by blast
  moreover have "of_nat (length (fields_bytes fs)) = bin_put_index w" using len by simp
  ultimately show ?thesis
    by (simp add: bin_advance_def fd_binary_initialize_def)
qed

theorem fd_binary_fields_roundtrip_witness:
  "\<exists>r. get_fields (fd_binary_initialize [3, 2, 1, 3, 1, 7] 6) [F_uint24 0x010203, F_varint (- 2), F_string [7]]
        = Some ([F_uint24 0x010203, F_varint (- 2), F_string [7]], r) \<and> bin_errors r = 0"
proof -
  let ?fs = "[F_uint24 0x010203, F_varint (- 2), F_string [7]]"
  let ?w = "\<lparr>bin_buffer = [3, 2, 1, 3, 1, 7], bin_size = 6, bin_put_index = 6, bin_get_index = 0, bin_errors = 0\<rparr>"
  have w: "put_fields (fd_binary_initialize [0, 0, 0, 0, 0, 0] 6) ?fs = Some ?w"
    by code_simp
  have ok: "\<forall>f \<in> set ?fs. field_ok f \<and> field_fits 6 f"
    by (simp add: varuint_ok_def zigzag_def bit_numeral_word_iff)
  show ?thesis
    using fd_binary_fields_roundtrip[OF _ _ ok w] by auto
qed

text \<open>C5: no writer ever writes outside the buffer. From a state that satisfies the invariant, any
  sequence of writes returns, keeps the invariant, the buffer's length and every byte written
  before, and either appends exactly the encodings of all its fields, without touching the error
  flags, or leaves the overflow flag set.\<close>

theorem fd_binary_put_safe:
  assumes "bin_ok s" "\<forall>f \<in> set fs. field_fits (bin_size s) f"
  shows "\<exists>t. put_fields s fs = Some t \<and> bin_ok t \<and> length (bin_buffer t) = length (bin_buffer s) \<and>
           (\<exists>bs. bin_written t = bin_written s @ bs) \<and>
           (bin_errors t = bin_errors s \<and> bin_written t = bin_written s @ fields_bytes fs \<or>
            bin_errors t = bin_errors s OR fd_binary_error_overflow)"
  using put_fields_result[OF assms(1), of fs] assms(2) by blast

theorem fd_binary_put_safe_witness:
  "\<exists>t. put_fields (fd_binary_initialize [0, 0, 0] 3) [F_varuint 300, F_uint16 5] = Some t \<and> bin_ok t"
  using fd_binary_put_safe[of "fd_binary_initialize [0, 0, 0] 3" "[F_varuint 300, F_uint16 5]"]
    bin_initialize_ok[of 3 "[0, 0, 0]"]
  by auto

text \<open>reading back a variable length integer. The reader returns the value exactly when it is
  below \<open>2 ^ 63\<close> or has bits 61 and 62 clear; any other value, for instance the encoding of the
  most negative \<open>int64_t\<close>, is answered with 0 and the invalid representation flag, although the
  writer produced it.\<close>

theorem fd_binary_varuint_exact:
  assumes "bin_ok s" "bin_next (varuint_bytes v) s"
  shows "fd_binary_get_varuint s =
     (if v < 2 ^ 63 \<or> v AND 0x6000000000000000 = 0
      then Some (v, bin_advance (length (varuint_bytes v)) s)
      else Some (0, bin_error fd_binary_error_invalid_representation (bin_advance 9 s)))"
proof -
  have "v < 2 ^ 63 \<longleftrightarrow> \<not> bit v 63"
    using u64_below[of v] .
  moreover have "v AND 0x6000000000000000 = 0 \<longleftrightarrow> \<not> bit v 61 \<and> \<not> bit v 62"
    using u64_bits_61_62[of v] .
  ultimately have "varuint_ok v \<longleftrightarrow> v < 2 ^ 63 \<or> v AND 0x6000000000000000 = 0"
    by (auto simp: varuint_ok_def)
  then show ?thesis using get_varuint_spec[OF assms] by simp
qed

theorem fd_binary_varuint_exact_witness:
  "fd_binary_get_varuint (fd_binary_initialize [0xff, 0xff, 0xff, 0xff, 0xff, 0xff, 0xff, 0xff, 0xff, 1] 10) =
     Some (0, bin_error fd_binary_error_invalid_representation
       (bin_advance 9 (fd_binary_initialize [0xff, 0xff, 0xff, 0xff, 0xff, 0xff, 0xff, 0xff, 0xff, 1] 10)))"
proof -
  let ?b = "[0xff, 0xff, 0xff, 0xff, 0xff, 0xff, 0xff, 0xff, 0xff, 1] :: u8 list"
  have "varuint_bytes (- 1) = ?b" by code_simp
  then have "bin_next (varuint_bytes (- 1)) (fd_binary_initialize ?b 10)"
    by (simp add: bin_next_def fd_binary_initialize_def)
  moreover have "\<not> (- 1 :: u64) < 2 ^ 63" unfolding u64_below by simp
  moreover have "bin_ok (fd_binary_initialize ?b 10)" by (rule bin_initialize_ok) simp_all
  ultimately show ?thesis
    using fd_binary_varuint_exact[of "fd_binary_initialize ?b 10" "- 1"] by simp
qed

text \<open>The readers of fixed size fields never leave the buffer either, and keep the invariant.\<close>

definition get_fixed :: "field \<Rightarrow> bool" where
  "get_fixed f = (case f of F_varuint _ \<Rightarrow> False | F_varint _ \<Rightarrow> False | F_string _ \<Rightarrow> False | _ \<Rightarrow> True)"

lemma bin_get_total:
  assumes ok: "bin_ok s" and n: "unat n \<le> 8"
    and unpack: "\<And>b p. p + unat n \<le> length b \<Longrightarrow> \<exists>v. unpack b p = Some v"
  shows "\<exists>v t. bin_get n unpack s = Some (v, t) \<and> bin_ok t \<and> bin_buffer t = bin_buffer s \<and>
           (bin_errors t = bin_errors s \<and> t = bin_advance (unat n) s \<or>
            v = 0 \<and> t = bin_error fd_binary_error_underflow s)"
proof (cases "unat (bin_get_index s) + unat n \<le> unat (bin_size s)")
  case True
  then have "unat (bin_get_index s) + unat n \<le> length (bin_buffer s)" using ok by (simp add: bin_ok_def)
  from unpack[OF this] obtain v where v: "unpack (bin_buffer s) (unat (bin_get_index s)) = Some v" by blast
  have "bin_get n unpack s = Some (v, bin_advance (unat n) s)"
    using True v ok n bin_get_check_iff[of s n] by (simp add: bin_get_def bin_advance_def bin_ok_def)
  then show ?thesis using bin_advance_ok[OF ok True] by simp
next
  case False
  then have "bin_get n unpack s = Some (0, bin_error fd_binary_error_underflow s)"
    using ok n bin_get_check_iff[of s n] by (simp add: bin_get_def bin_ok_def)
  then show ?thesis using ok by simp
qed

lemma bin_get_total_map:
  assumes "bin_ok s" "unat n \<le> 8" "\<And>b p. p + unat n \<le> length b \<Longrightarrow> \<exists>v. unpack b p = Some v"
  shows "\<exists>g t. map_option (map_prod F id) (bin_get n unpack s) = Some (g, t) \<and> bin_ok t \<and> bin_buffer t = bin_buffer s \<and>
           (bin_errors t = bin_errors s \<or> bin_errors t = bin_errors s OR fd_binary_error_underflow)"
proof -
  obtain v t where "bin_get n unpack s = Some (v, t)" "bin_ok t" "bin_buffer t = bin_buffer s"
    "bin_errors t = bin_errors s \<or> bin_errors t = bin_errors s OR fd_binary_error_underflow"
    using bin_get_total[where unpack = unpack, OF assms] by fastforce
  then show ?thesis by simp
qed

lemma get_field_total:
  assumes "bin_ok s" "get_fixed f"
  shows "\<exists>g t. get_field s f = Some (g, t) \<and> bin_ok t \<and> bin_buffer t = bin_buffer s \<and>
           (bin_errors t = bin_errors s \<or> bin_errors t = bin_errors s OR fd_binary_error_underflow)"
proof (cases f)
  case (F_float16 v)
  have f16: "\<exists>v. fd_binary_unpack_float16 b p = Some v" if "p + 2 \<le> length b" for b p
    using that fd_ieee754_total by (simp add: fd_binary_unpack_float16_def unpack_values)
  show ?thesis
    unfolding F_float16 get_field.simps fd_binary_get_float16_def
    by (rule bin_get_total_map[OF assms(1)]) (use f16 in simp_all)
qed (use assms(2) in \<open>simp_all only: get_fixed_def field.case get_field.simps
      fd_binary_get_uint8_def fd_binary_get_uint16_def
      fd_binary_get_uint24_def fd_binary_get_uint32_def fd_binary_get_uint48_def
      fd_binary_get_uint64_def fd_binary_get_float32_def fd_binary_get_float64_def\<close>,
    (rule bin_get_total_map[OF assms(1)];
     simp add: fd_binary_unpack_uint8_def fd_binary_unpack_float32_def
       fd_binary_unpack_double64_def unpack_values rd_def)+)

text \<open>reading any sequence of fixed size fields, from any position of any buffer with any
  contents, returns, never reads outside the buffer, leaves the buffer alone and keeps the invariant;
  a read past the end yields zeros and the underflow flag.\<close>

theorem fd_binary_get_safe:
  assumes "bin_ok s" "\<forall>f \<in> set fs. get_fixed f"
  shows "\<exists>gs t. get_fields s fs = Some (gs, t) \<and> bin_ok t \<and> bin_buffer t = bin_buffer s \<and>
           (bin_errors t = bin_errors s \<or> bin_errors t = bin_errors s OR fd_binary_error_underflow)"
  using assms
proof (induction fs arbitrary: s)
  case (Cons f fs)
  obtain g t where t: "get_field s f = Some (g, t)" "bin_ok t" "bin_buffer t = bin_buffer s"
    "bin_errors t = bin_errors s \<or> bin_errors t = bin_errors s OR fd_binary_error_underflow"
    using get_field_total[OF Cons.prems(1)] Cons.prems(2) by (meson list.set_intros(1))
  obtain gs u where u: "get_fields t fs = Some (gs, u)" "bin_ok u" "bin_buffer u = bin_buffer t"
    "bin_errors u = bin_errors t \<or> bin_errors u = bin_errors t OR fd_binary_error_underflow"
    using Cons.IH[OF t(2)] Cons.prems(2) by auto
  show ?case using t u by (auto simp: or.assoc)
qed simp

theorem fd_binary_get_safe_witness:
  "\<exists>gs t. get_fields (fd_binary_initialize [1, 2, 3] 3) [F_uint16 0, F_float16 0] = Some (gs, t) \<and> bin_ok t"
proof -
  have "bin_ok (fd_binary_initialize [1, 2, 3] 3)" by (rule bin_initialize_ok) simp_all
  then show ?thesis
    using fd_binary_get_safe[of "fd_binary_initialize [1, 2, 3] 3" "[F_uint16 0, F_float16 0]"]
    by (auto simp: get_fixed_def)
qed

text \<open>eleven continuation bytes make the reader of variable length integers shift a 64-bit
  value by 70, which C leaves undefined: bytes 0x80 carry no bits, so that the check for a value
  that is too long never triggers.\<close>

theorem fd_binary_varuint_undefined_shift:
  "fd_binary_get_varuint (fd_binary_initialize (replicate 11 0x80) 11) = None"
  by code_simp

text \<open>\<open>fd_binary_remove\<close> removes \<open>length\<close> bytes at \<open>index\<close> from the written bytes, when the
  buffer extends \<open>index\<close> bytes beyond them.\<close>

theorem fd_binary_remove_correct:
  assumes "bin_ok s" "unat i + unat n \<le> unat (bin_put_index s)"
    and "unat i + unat (bin_put_index s) \<le> length (bin_buffer s)"
  shows "\<exists>t. fd_binary_remove s i n = Some t \<and>
           bin_written t = take (unat i) (bin_written s) @ drop (unat i + unat n) (bin_written s) \<and>
           bin_ok t"
proof -
  let ?i = "unat i" and ?n = "unat n" and ?p = "unat (bin_put_index s)" and ?b = "bin_buffer s"
  have put: "unat (bin_put_index s - n) = ?p - ?n"
    using assms(2) by (simp add: unat_sub word_le_nat_alt)
  have inn: "unat (i + n) = ?i + ?n"
    by (rule u32_add_no_wrap) (use assms in \<open>simp add: bin_ok_def\<close>)
  have rd: "rd_block ?b (?i + ?n) (?p - ?n) = Some (take (?p - ?n) (drop (?i + ?n) ?b))"
    using assms(2,3) by (simp add: mem_simps)
  let ?bs = "take (?p - ?n) (drop (?i + ?n) ?b)"
  have len: "length ?bs = ?p - ?n" using assms(2,3) by simp
  have wr: "wr_block ?b ?i ?bs = Some (take ?i ?b @ ?bs @ drop (?i + (?p - ?n)) ?b)"
    using assms(2,3) len by (simp add: wr_block_def)
  let ?t = "s\<lparr>bin_buffer := take ?i ?b @ ?bs @ drop (?i + (?p - ?n)) ?b,
       bin_get_index := (if bin_get_index s > i + n then bin_get_index s - n
                         else if bin_get_index s > i then i else bin_get_index s),
       bin_put_index := bin_put_index s - n\<rparr>"
  have "fd_binary_remove s i n = Some ?t"
    by (simp add: fd_binary_remove_def put inn rd wr Let_def)
  moreover have "bin_written ?t = take ?i (bin_written s) @ drop (?i + ?n) (bin_written s)"
  proof -
    have whole: "take ?i ?b = take ?i (take ?p ?b)" "length (take ?i ?b) = ?i"
      using assms(2,3) by (simp_all add: min_def)
    have "take (?p - ?n) (take ?i ?b @ ?bs @ r) = take ?i ?b @ take (?p - (?i + ?n)) ?bs" for r
      using assms(2) whole(2) len by (simp add: take_append add.commute)
    moreover have "take (?p - (?i + ?n)) ?bs = drop (?i + ?n) (take ?p ?b)"
      by (simp add: drop_take min_def)
    ultimately show ?thesis using whole(1) by (simp add: bin_written_def put)
  qed
  moreover have "bin_ok ?t"
  proof -
    have "length (bin_buffer ?t) = length ?b" using assms(2,3) len by simp
    moreover have "unat (bin_get_index ?t) \<le> unat (bin_size s)"
      using assms(1,2) inn by (auto simp: bin_ok_def word_less_nat_alt unat_sub word_le_nat_alt)
    moreover have "unat (bin_put_index ?t) \<le> unat (bin_size s)"
      using assms(1) put unfolding bin_ok_def by (simp, linarith)
    ultimately show ?thesis using assms(1) unfolding bin_ok_def by simp
  qed
  ultimately show ?thesis by blast
qed

theorem fd_binary_remove_correct_witness:
  "\<exists>t. fd_binary_remove \<lparr>bin_buffer = [1, 2, 3, 4], bin_size = 4, bin_put_index = 3, bin_get_index = 0, bin_errors = 0\<rparr> 1 1 = Some t
      \<and> bin_written t = [1, 3]"
  using fd_binary_remove_correct[of "\<lparr>bin_buffer = [1, 2, 3, 4], bin_size = 4, bin_put_index = 3, bin_get_index = 0, bin_errors = 0\<rparr>" 1 1]
  by (auto simp: bin_ok_def bin_written_def)

text \<open>\<open>fd_binary_remove\<close> moves \<open>put_index - length\<close> bytes instead of the bytes after the gap:
  on a full buffer, removing one byte at index 1 reads beyond the end.\<close>

theorem fd_binary_remove_overrun:
  "fd_binary_remove \<lparr>bin_buffer = [1, 2, 3, 4], bin_size = 4, bin_put_index = 4, bin_get_index = 0, bin_errors = 0\<rparr> 1 1 = None"
  by code_simp

end
