(* ===== verification/FD_Envelope.thy ===== *)
theory FD_Envelope imports FD_Binary FD_Cobs FD_Crc begin

text \<open>
  Message envelopes (subsys/base/src/fd_envelope.c): a message gets a ten byte trailer (addresses,
  type, length, checksum) and is COBS encoded in place, so that a zero byte can delimit it on the
  wire.

  The 32 byte array on the stack that \<open>fd_envelope_encode\<close> lends to the COBS encoder is a queue
  whose slots are written before they are read; its initial contents are zeros here.
\<close>

section \<open>The code\<close>

record fd_envelope_t =
  env_crc16 :: u16
  env_length :: u16
  env_target :: u8
  env_source :: u8
  env_system :: u8
  env_subsystem :: u8
  env_type :: u8
  env_reserved0 :: u8

definition fd_envelope_size :: u32 where
  "fd_envelope_size = 10"

definition fd_envelope_decode ::
  "fd_binary_t \<Rightarrow> fd_envelope_t \<Rightarrow> (bool \<times> fd_binary_t \<times> fd_envelope_t) option" where
  "fd_envelope_decode message envelope =
     do { (n, data) \<leftarrow> fd_cobs_decode (bin_buffer message) (unat (bin_put_index message));
          let message = message\<lparr>bin_buffer := data, bin_put_index := of_nat n\<rparr>;
          if bin_put_index message < fd_envelope_size then Some (False, message, envelope)
          else
            do { let binary = fd_binary_initialize
                   (drop (unat (bin_put_index message - fd_envelope_size)) (bin_buffer message)) fd_envelope_size;
                 (reserved0, binary) \<leftarrow> fd_binary_get_uint8 binary;
                 (type', binary) \<leftarrow> fd_binary_get_uint8 binary;
                 (subsystem, binary) \<leftarrow> fd_binary_get_uint8 binary;
                 (system, binary) \<leftarrow> fd_binary_get_uint8 binary;
                 (source, binary) \<leftarrow> fd_binary_get_uint8 binary;
                 (target, binary) \<leftarrow> fd_binary_get_uint8 binary;
                 (len, binary) \<leftarrow> fd_binary_get_uint16 binary;
                 (crc, binary) \<leftarrow> fd_binary_get_uint16 binary;
                 let envelope = \<lparr>env_crc16 = crc, env_length = len, env_target = target,
                   env_source = source, env_system = system, env_subsystem = subsystem,
                   env_type = type', env_reserved0 = reserved0\<rparr>;
                 data \<leftarrow> rd_block (bin_buffer message) 0 (unat (bin_put_index message - 2));
                 let crc16 = fd_crc16_update data;
                 if crc16 \<noteq> env_crc16 envelope then Some (False, message, envelope)
                 else
                   let len = ucast (bin_put_index message - fd_envelope_size)
                   in if len \<noteq> env_length envelope then Some (False, message, envelope)
                      else Some (True, message\<lparr>bin_put_index := bin_put_index message - fd_envelope_size\<rparr>,
                                 envelope) } }"

definition fd_envelope_encode ::
  "fd_binary_t \<Rightarrow> fd_envelope_t \<Rightarrow> (bool \<times> fd_binary_t \<times> fd_envelope_t \<times> assert_log) option" where
  "fd_envelope_encode message envelope =
     do { let envelope = envelope\<lparr>env_length := ucast (bin_put_index message)\<rparr>;
          message \<leftarrow> fd_binary_put_uint8 message (env_reserved0 envelope);
          message \<leftarrow> fd_binary_put_uint8 message (env_type envelope);
          message \<leftarrow> fd_binary_put_uint8 message (env_subsystem envelope);
          message \<leftarrow> fd_binary_put_uint8 message (env_system envelope);
          message \<leftarrow> fd_binary_put_uint8 message (env_source envelope);
          message \<leftarrow> fd_binary_put_uint8 message (env_target envelope);
          message \<leftarrow> fd_binary_put_uint16 message (env_length envelope);
          data \<leftarrow> rd_block (bin_buffer message) 0 (unat (bin_put_index message));
          let envelope = envelope\<lparr>env_crc16 := fd_crc16_update data\<rparr>;
          message \<leftarrow> fd_binary_put_uint16 message (env_crc16 envelope);
          (len, data, log) \<leftarrow> fd_cobs_encode (bin_buffer message) (unat (bin_put_index message))
                                (unat (bin_size message)) (replicate 32 0) 32;
          let message = message\<lparr>bin_buffer := data\<rparr>;
          let message = (if len = 0 then bin_error fd_binary_error_overflow message else message);
          let message = message\<lparr>bin_put_index := of_nat len\<rparr>;
          Some (bin_errors message = 0, message, envelope, log) }"

section \<open>Frames\<close>

text \<open>The trailer without its checksum, and the bytes of a message with its trailer.\<close>

definition envelope_header :: "fd_envelope_t \<Rightarrow> u16 \<Rightarrow> u8 list" where
  "envelope_header e len =
     [env_reserved0 e, env_type e, env_subsystem e, env_system e, env_source e, env_target e] @ le_bytes 2 len"

definition envelope_frame :: "u8 list \<Rightarrow> fd_envelope_t \<Rightarrow> u8 list" where
  "envelope_frame body e =
     (let m = body @ envelope_header e (of_nat (length body)) in m @ le_bytes 2 (fd_crc16_update m))"

definition envelope_of :: "u8 list \<Rightarrow> fd_envelope_t" where
  "envelope_of t =
     \<lparr>env_crc16 = le_value [t ! 8, t ! 9], env_length = le_value [t ! 6, t ! 7], env_target = t ! 5,
      env_source = t ! 4, env_system = t ! 3, env_subsystem = t ! 2, env_type = t ! 1, env_reserved0 = t ! 0\<rparr>"

text \<open>What the receiver accepts.\<close>

definition frame_ok :: "u8 list \<Rightarrow> bool" where
  "frame_ok m \<longleftrightarrow>
     10 \<le> length m \<and>
     env_crc16 (envelope_of (drop (length m - 10) m)) = fd_crc16_update (take (length m - 2) m) \<and>
     env_length (envelope_of (drop (length m - 10) m)) = of_nat (length m - 10)"

lemma length_envelope_header [simp]: "length (envelope_header e len) = 8"
  by (simp add: envelope_header_def)

lemma length_envelope_frame: "length (envelope_frame body e) = length body + 10"
  by (simp add: envelope_frame_def Let_def)

lemma le_value_le_bytes_2: "le_value (le_bytes 2 v) = (v :: u16)"
  by (simp add: le_value_bytes take_bit_word_eq_self)

lemma envelope_frame_trailer:
  "drop (length body) (envelope_frame body e) =
     envelope_header e (of_nat (length body)) @
     le_bytes 2 (fd_crc16_update (body @ envelope_header e (of_nat (length body))))"
  by (simp add: envelope_frame_def Let_def)

lemma envelope_of_trailer:
  "envelope_of (envelope_header e len @ le_bytes 2 crc) = e\<lparr>env_length := len, env_crc16 := crc\<rparr>"
proof -
  have two: "le_bytes 2 v = [ucast v, ucast (drop_bit 8 v)]" for v :: u16
    by (simp add: numeral_2_eq_2)
  have "le_value [ucast v, ucast (drop_bit 8 v)] = v" for v :: u16
    using le_value_le_bytes_2[of v] unfolding two .
  then show ?thesis
    by (cases e) (simp add: envelope_of_def envelope_header_def two del: le_value.simps)
qed

lemma frame_ok_frame: "length body < 2 ^ 16 \<Longrightarrow> frame_ok (envelope_frame body e)"
  using envelope_frame_trailer[of body e] length_envelope_frame[of body e]
  by (simp add: frame_ok_def envelope_of_trailer) (simp add: envelope_frame_def Let_def)

section \<open>Decoding\<close>

lemma ucast_of_nat_u16: "(ucast (of_nat n :: u32) :: u16) = of_nat n"
  by (rule bit_word_eqI) (auto simp: bit_unsigned_iff bit_of_nat_iff)

lemma list10:
  assumes "length t = 10"
  obtains a b c d e f g h i j where "t = [a, b, c, d, e, f, g, h, i, j]"
  using assms by (auto simp: length_Suc_conv numeral_eq_Suc)

lemma unpack_pair: "(ucast (push_bit 8 (ucast y :: u32) OR ucast x) :: u16) = le_value [x, y]"
  by (rule bit_word_eqI) (auto simp: bit_simps)

text \<open>Reading the ten bytes of a trailer.\<close>

lemma trailer_reads:
  assumes "length t = 10"
  shows "\<exists>b1 b2 b3 b4 b5 b6 b7 b8.
    fd_binary_get_uint8 (fd_binary_initialize (t @ r) 10) = Some (env_reserved0 (envelope_of t), b1) \<and>
    fd_binary_get_uint8 b1 = Some (env_type (envelope_of t), b2) \<and>
    fd_binary_get_uint8 b2 = Some (env_subsystem (envelope_of t), b3) \<and>
    fd_binary_get_uint8 b3 = Some (env_system (envelope_of t), b4) \<and>
    fd_binary_get_uint8 b4 = Some (env_source (envelope_of t), b5) \<and>
    fd_binary_get_uint8 b5 = Some (env_target (envelope_of t), b6) \<and>
    fd_binary_get_uint16 b6 = Some (env_length (envelope_of t), b7) \<and>
    fd_binary_get_uint16 b7 = Some (env_crc16 (envelope_of t), b8)"
proof -
  obtain b0 b1 b2 b3 b4 b5 b6 b7 b8 b9 where t: "t = [b0, b1, b2, b3, b4, b5, b6, b7, b8, b9]"
    using assms by (rule list10)
  show ?thesis
    by (simp add: t envelope_of_def fd_binary_get_uint8_def fd_binary_get_uint16_def bin_get_def
        fd_binary_get_check_def fd_binary_initialize_def fd_binary_unpack_uint8_def
        fd_binary_unpack_uint16_def rd_def unpack_pair del: le_value.simps)
qed

text \<open>Decoding any received bytes returns, and accepts them exactly when the decoded bytes are a
  frame.\<close>

lemma fd_envelope_decode_spec:
  assumes "unat (bin_put_index m) \<le> length (bin_buffer m)"
  defines "dec \<equiv> cobs_unstuff 255 0 (take (unat (bin_put_index m)) (bin_buffer m))"
  shows "\<exists>data. fd_envelope_decode m e =
      Some (frame_ok dec,
            m\<lparr>bin_buffer := data, bin_put_index := of_nat (if frame_ok dec then length dec - 10 else length dec)\<rparr>,
            if 10 \<le> length dec then envelope_of (drop (length dec - 10) dec) else e) \<and>
    length data = length (bin_buffer m) \<and> take (length dec) data = dec \<and>
    length dec \<le> unat (bin_put_index m)"
proof -
  let ?n = "length dec"
  obtain data where data: "fd_cobs_decode (bin_buffer m) (unat (bin_put_index m)) = Some (?n, data)"
      "?n \<le> unat (bin_put_index m)" "length data = length (bin_buffer m)" "take ?n data = dec"
  proof -
    obtain n data where d: "fd_cobs_decode (bin_buffer m) (unat (bin_put_index m)) = Some (n, data)"
      "n \<le> unat (bin_put_index m)" "length data = length (bin_buffer m)" "take n data = dec"
      using cobs_decode_safe[OF assms(1)] unfolding dec_def by blast
    have n: "n = ?n" using assms(1) d(2-4) by (metis length_take min.absorb2 order_trans)
    show thesis by (rule that[of data]) (use d[unfolded n] in simp_all)
  qed
  have n: "unat (of_nat ?n :: u32) = ?n"
    using data(2) unsigned_less[of "bin_put_index m", where ?'a = nat] by (simp add: unat_of_nat)
  have len: "of_nat ?n < fd_envelope_size \<longleftrightarrow> ?n < 10"
    by (simp add: word_less_nat_alt n fd_envelope_size_def)
  show ?thesis
  proof (cases "?n < 10")
    case True
    then show ?thesis
      using data len by (intro exI[of _ data]) (simp add: fd_envelope_decode_def Let_def frame_ok_def)
  next
    case False
    let ?t = "drop (?n - 10) dec"
    have sub: "unat (of_nat ?n - fd_envelope_size) = ?n - 10" "unat (of_nat ?n - 2 :: u32) = ?n - 2"
      using False n by (simp_all add: unat_sub word_le_nat_alt fd_envelope_size_def)
    have "drop (?n - 10) data = drop (?n - 10) (take ?n data @ drop ?n data)" by simp
    also have "\<dots> = ?t @ drop ?n data" unfolding data(4) by simp
    finally have t: "drop (?n - 10) data = ?t @ drop ?n data" .
    have "length ?t = 10" using False by simp
    from trailer_reads[OF this, of "drop ?n data"]
    obtain b1 b2 b3 b4 b5 b6 b7 b8 where reads:
      "fd_binary_get_uint8 (fd_binary_initialize (?t @ drop ?n data) fd_envelope_size) = Some (env_reserved0 (envelope_of ?t), b1)"
      "fd_binary_get_uint8 b1 = Some (env_type (envelope_of ?t), b2)"
      "fd_binary_get_uint8 b2 = Some (env_subsystem (envelope_of ?t), b3)"
      "fd_binary_get_uint8 b3 = Some (env_system (envelope_of ?t), b4)"
      "fd_binary_get_uint8 b4 = Some (env_source (envelope_of ?t), b5)"
      "fd_binary_get_uint8 b5 = Some (env_target (envelope_of ?t), b6)"
      "fd_binary_get_uint16 b6 = Some (env_length (envelope_of ?t), b7)"
      "fd_binary_get_uint16 b7 = Some (env_crc16 (envelope_of ?t), b8)"
      unfolding fd_envelope_size_def by blast
    have "take (?n - 2) dec = take (?n - 2) (take ?n data)" unfolding data(4) ..
    also have "\<dots> = take (?n - 2) data" by (simp add: min_def)
    finally have body: "rd_block data 0 (?n - 2) = Some (take (?n - 2) dec)"
      using data(2,3) assms(1) by (simp add: rd_block_def)
    have env: "\<lparr>env_crc16 = env_crc16 x, env_length = env_length x, env_target = env_target x,
        env_source = env_source x, env_system = env_system x, env_subsystem = env_subsystem x,
        env_type = env_type x, env_reserved0 = env_reserved0 x\<rparr> = x" for x
      by (cases x) simp
    have "of_nat ?n - fd_envelope_size = (of_nat (?n - 10) :: u32)"
      using False by (simp add: of_nat_diff fd_envelope_size_def)
    moreover have "(ucast (of_nat (?n - 10) :: u32) :: u16) = of_nat (?n - 10)"
      by (simp add: ucast_of_nat_u16)
    ultimately have "fd_envelope_decode m e =
      Some (frame_ok dec,
            m\<lparr>bin_buffer := data, bin_put_index := of_nat (if frame_ok dec then ?n - 10 else ?n)\<rparr>,
            envelope_of ?t)"
      using data(1) False len
      by (simp add: fd_envelope_decode_def Let_def sub t body env reads frame_ok_def fd_envelope_size_def[symmetric])
    then show ?thesis using data False by auto
  qed
qed

section \<open>Encoding\<close>

lemma put_chain:
  assumes "bin_ok m" "length xs + need \<le> bin_room m" "length bs \<le> need"
  shows "bin_put_whole need bs (bin_append xs m) = bin_append (xs @ bs) m"
    and "bin_ok (bin_append xs m)"
proof -
  have xs: "length xs \<le> bin_room m" using assms(2) by simp
  show "bin_ok (bin_append xs m)"
    using bin_append_ok(1)[OF assms(1)] xs by (simp add: bin_room_iff[OF assms(1)])
  show "bin_put_whole need bs (bin_append xs m) = bin_append (xs @ bs) m"
    using bin_append_room[OF assms(1) xs] bin_append_append[OF assms(1), of xs bs] assms(2,3)
    by (simp add: bin_put_whole_def)
qed

lemma put_chain_ints:
  assumes "bin_ok m"
  shows "length xs + 1 \<le> bin_room m \<Longrightarrow> fd_binary_put_uint8 (bin_append xs m) v8 = Some (bin_append (xs @ [v8]) m)"
    and "length xs + 2 \<le> bin_room m \<Longrightarrow>
      fd_binary_put_uint16 (bin_append xs m) v16 = Some (bin_append (xs @ le_bytes 2 v16) m)"
  using put_chain[OF assms, of xs 1 "[v8]"] put_chain[OF assms, of xs 2 "le_bytes 2 v16"]
  by (simp_all add: put_specs)

text \<open>The envelope the encoder leaves behind: length and checksum filled in.\<close>

definition envelope_filled :: "u8 list \<Rightarrow> fd_envelope_t \<Rightarrow> fd_envelope_t" where
  "envelope_filled body e =
     e\<lparr>env_length := of_nat (length body),
       env_crc16 := fd_crc16_update (body @ envelope_header e (of_nat (length body)))\<rparr>"

lemma fd_envelope_encode_spec:
  assumes ok: "bin_ok m" and body: "bin_written m = body" and room: "10 \<le> bin_room m"
    and errors: "bin_errors m = 0" and short: "length body + 10 \<le> 7874"
    and space: "cobs_bound (length body + 10) \<le> length (bin_buffer m)"
  shows "\<exists>m'. fd_envelope_encode m e = Some (True, m', envelope_filled body e, []) \<and>
     bin_written m' = cobs_stuff [] (envelope_frame body e) \<and> bin_errors m' = 0 \<and>
     bin_size m' = bin_size m \<and> length (bin_buffer m') = length (bin_buffer m) \<and>
     bin_get_index m' = bin_get_index m \<and>
     unat (bin_put_index m') = length (cobs_stuff [] (envelope_frame body e))"
proof -
  let ?L = "of_nat (length body) :: u16"
  let ?h = "envelope_header e ?L" and ?f = "envelope_frame body e"
  let ?crc = "fd_crc16_update (body @ ?h)"
  let ?e = "e\<lparr>env_length := ?L\<rparr>"
  have put: "unat (bin_put_index m) = length body"
    using ok body by (auto simp: bin_written_def bin_ok_def)
  have room': "unat (bin_put_index m) + 10 \<le> unat (bin_size m)"
    using room by (simp only: bin_room_iff[OF ok])
  have "(ucast (bin_put_index m) :: u16) = ?L"
    using put
    by (metis of_nat_unat)
  then have L: "e\<lparr>env_length := ucast (bin_put_index m)\<rparr> = ?e" by simp
  note chain = put_chain[OF ok]
  let ?m = "bin_append ?h m"
  have m: "bin_ok ?m" "bin_written ?m = body @ ?h" "unat (bin_put_index ?m) = length body + 8"
    using bin_append_ok[OF ok, of ?h] room' body put by simp_all
  have rd: "rd_block (bin_buffer ?m) 0 (unat (bin_put_index ?m)) = Some (body @ ?h)"
    using m unfolding bin_written_def bin_ok_def by (simp add: rd_block_def)
  let ?n = "bin_append (?h @ le_bytes 2 ?crc) m"
  have n: "bin_ok ?n" "bin_written ?n = ?f" "unat (bin_put_index ?n) = length ?f"
    "bin_size ?n = bin_size m" "bin_errors ?n = 0" "length (bin_buffer ?n) = length (bin_buffer m)"
    "bin_get_index ?n = bin_get_index m"
    using bin_append_ok[OF ok, of "?h @ le_bytes 2 ?crc"] room' body put errors
    by (simp_all add: envelope_frame_def Let_def)
  have len: "length ?f = length body + 10" by (rule length_envelope_frame)
  have "length ?f \<le> 254 * (32 - 1)" "cobs_bound (length ?f) \<le> length (bin_buffer ?n)"
    using short space n(6) by (simp_all add: len)
  from cobs_encode_spec[OF _ _ this, of "replicate 32 0" "unat (bin_size ?n)"]
  obtain data where c: "fd_cobs_encode (bin_buffer ?n) (length ?f) (unat (bin_size ?n)) (replicate 32 0) 32 =
      Some (length (cobs_stuff [] ?f), data, [])"
    "take (length (cobs_stuff [] ?f)) data = cobs_stuff [] ?f" "length data = length (bin_buffer ?n)"
    using n(2) n(3) by (auto simp: bin_written_def)
  have bound: "0 < length (cobs_stuff [] ?f)" "length (cobs_stuff [] ?f) < 2 ^ 32"
    using cobs_stuff_length[of "[]" ?f] short len by auto
  then have un: "unat (of_nat (length (cobs_stuff [] ?f)) :: u32) = length (cobs_stuff [] ?f)"
    by (simp add: unat_of_nat)
  have enc: "fd_envelope_encode m e =
      Some (True, ?n\<lparr>bin_buffer := data, bin_put_index := of_nat (length (cobs_stuff [] ?f))\<rparr>,
            envelope_filled body e, [])"
  proof -
    note ints = put_chain_ints[OF ok]
    have first: "fd_binary_put_uint8 m v = Some (bin_append [v] m)" for v
      using ints(1)[of "[]" v] room by (simp add: bin_append_Nil)
    have hdr: "[env_reserved0 e] @ [env_type e] @ [env_subsystem e] @ [env_system e] @ [env_source e] @
      [env_target e] @ le_bytes 2 ?L = ?h"
      "[env_reserved0 e] @ [env_type e] @ [env_subsystem e] @ [env_system e] @ [env_source e] @
      [env_target e] @ le_bytes 2 ?L @ z = ?h @ z" for z
      by (simp_all add: envelope_header_def)
    show ?thesis
      unfolding fd_envelope_encode_def Let_def L
      using room n(3,4,5) c(1) bound rd
      by (simp add: first ints hdr envelope_filled_def del: append_Cons)
  qed
  show ?thesis
    unfolding enc using c(2,3) n un by (simp add: bin_written_def)
qed

section \<open>Properties\<close>

lemma cobs_unstuff_frame: "cobs_unstuff 255 0 (cobs_stuff [] bs) = bs"
  using cobs_unstuff_stuff[of "[]" 255 bs] by simp

lemma fd_envelope_decode_frame:
  assumes "bin_written m = cobs_stuff [] (envelope_frame body e)" "length body < 2 ^ 16"
    and "unat (bin_put_index m) \<le> length (bin_buffer m)"
  shows "\<exists>m'. fd_envelope_decode m e0 = Some (True, m', envelope_filled body e) \<and>
     bin_written m' = body \<and> bin_errors m' = bin_errors m \<and> bin_size m' = bin_size m \<and>
     bin_get_index m' = bin_get_index m \<and> length (bin_buffer m') = length (bin_buffer m) \<and>
     bin_put_index m' = of_nat (length body)"
proof -
  let ?f = "envelope_frame body e"
  have dec: "cobs_unstuff 255 0 (take (unat (bin_put_index m)) (bin_buffer m)) = ?f"
    using assms(1) cobs_unstuff_frame[of ?f] by (simp add: bin_written_def)
  have len: "length ?f = length body + 10" by (rule length_envelope_frame)
  obtain data where d: "fd_envelope_decode m e0 = Some (True,
      m\<lparr>bin_buffer := data, bin_put_index := of_nat (length body)\<rparr>, envelope_of (drop (length body) ?f))"
      "take (length ?f) data = ?f" "length data = length (bin_buffer m)"
    using fd_envelope_decode_spec[OF assms(3), of e0] frame_ok_frame[OF assms(2), of e]
    unfolding dec by (auto simp: len)
  have env: "envelope_of (drop (length body) ?f) = envelope_filled body e"
    by (simp add: envelope_frame_trailer envelope_of_trailer envelope_filled_def)
  have "unat (of_nat (length body) :: u32) = length body" using assms(2) by (simp add: unat_of_nat)
  moreover have "take (length body) data = body"
  proof -
    have "take (length body) data = take (length body) (take (length ?f) data)" by (simp add: len)
    also have "\<dots> = body" unfolding d(2) by (simp add: envelope_frame_def Let_def)
    finally show ?thesis .
  qed
  ultimately show ?thesis using d env by (simp add: bin_written_def)
qed

text \<open>C6: an encoded message decodes to itself. Encoding in place a message of up to 7864 bytes in a
  buffer with room for the trailer and the COBS overhead succeeds, fails no assertion, and leaves
  no zero byte in the frame; decoding the frame, also in place, succeeds and yields the message and
  its envelope, with the length and the checksum filled in.\<close>

theorem fd_envelope_roundtrip:
  assumes "bin_ok m" "10 \<le> bin_room m" "bin_errors m = 0" "length (bin_written m) \<le> 7864"
    and "cobs_bound (length (bin_written m) + 10) \<le> length (bin_buffer m)"
  shows "\<exists>m1 m2. fd_envelope_encode m e = Some (True, m1, envelope_filled (bin_written m) e, []) \<and>
     0 \<notin> set (bin_written m1) \<and>
     fd_envelope_decode m1 e0 = Some (True, m2, envelope_filled (bin_written m) e) \<and>
     bin_written m2 = bin_written m"
proof -
  let ?body = "bin_written m"
  obtain m1 where m1: "fd_envelope_encode m e = Some (True, m1, envelope_filled ?body e, [])"
    "bin_written m1 = cobs_stuff [] (envelope_frame ?body e)"
    "length (bin_buffer m1) = length (bin_buffer m)"
    "unat (bin_put_index m1) = length (cobs_stuff [] (envelope_frame ?body e))"
    using fd_envelope_encode_spec[OF assms(1) refl assms(2,3) _ assms(5), of e] assms(4) by auto
  have "length ?body + 10 < 2 ^ 16" using assms(4) by simp
  have "unat (bin_put_index m1) \<le> cobs_bound (length ?body + 10)"
    using cobs_stuff_length[of "[]" "envelope_frame ?body e"] m1(4)
    by (simp add: length_envelope_frame cobs_bound_def)
  then have "unat (bin_put_index m1) \<le> length (bin_buffer m1)" using assms(5) m1(3) by simp
  from fd_envelope_decode_frame[OF m1(2) _ this, of e0] show ?thesis
    using m1 assms(4) cobs_stuff_nonzero[of "[]" "envelope_frame ?body e"] by auto
qed

theorem fd_envelope_roundtrip_witness:
  "\<exists>m1 m2. fd_envelope_encode (bin_append [0, 1] (fd_binary_initialize (replicate 16 0) 15)) (envelope_of [0, 1, 2, 3, 4, 5, 0, 0, 0, 0])
        = Some (True, m1, envelope_filled [0, 1] (envelope_of [0, 1, 2, 3, 4, 5, 0, 0, 0, 0]), []) \<and>
     fd_envelope_decode m1 (envelope_of (replicate 10 0)) =
        Some (True, m2, envelope_filled [0, 1] (envelope_of [0, 1, 2, 3, 4, 5, 0, 0, 0, 0])) \<and>
     bin_written m2 = [0, 1]"
proof -
  let ?i = "fd_binary_initialize (replicate 16 0) 15" and ?e = "envelope_of [0, 1, 2, 3, 4, 5, 0, 0, 0, 0]"
  have i: "bin_ok ?i" "unat (bin_put_index ?i) = 0" "unat (bin_size ?i) = 15" "bin_errors ?i = 0"
      "bin_written ?i = []" "length (bin_buffer ?i) = 16"
    by (simp_all add: bin_ok_def bin_written_def fd_binary_initialize_def)
  let ?m = "bin_append [0, 1] ?i"
  have m: "bin_ok ?m" "bin_written ?m = [0, 1]" "bin_errors ?m = 0" "length (bin_buffer ?m) = 16" "bin_room ?m = 13"
    using bin_append_ok[OF i(1), of "[0, 1]"] bin_append_room[OF i(1), of "[0, 1]"] i
    by (simp_all add: bin_room_def)
  show ?thesis
    using fd_envelope_roundtrip[of ?m ?e "envelope_of (replicate 10 0)"] m
    by (auto simp: cobs_bound_def)
qed

text \<open>decoding any received bytes returns (the COBS decoder never leaves the buffer and the
  trailer is read within the decoded bytes); it accepts exactly when the decoded bytes end in a
  trailer whose length field is the length of the body and whose checksum is that of everything
  before it, and then the body stays in the buffer.\<close>

theorem fd_envelope_decode_exact:
  assumes "unat (bin_put_index m) \<le> length (bin_buffer m)"
  shows "\<exists>m' e'. fd_envelope_decode m e =
      Some (frame_ok (cobs_unstuff 255 0 (take (unat (bin_put_index m)) (bin_buffer m))), m', e') \<and>
    length (bin_buffer m') = length (bin_buffer m) \<and>
    (frame_ok (cobs_unstuff 255 0 (take (unat (bin_put_index m)) (bin_buffer m))) \<longrightarrow>
       bin_written m' =
         (let d = cobs_unstuff 255 0 (take (unat (bin_put_index m)) (bin_buffer m)) in take (length d - 10) d))"
proof -
  define dec where "dec = cobs_unstuff 255 0 (take (unat (bin_put_index m)) (bin_buffer m))"
  obtain data where d: "fd_envelope_decode m e =
      Some (frame_ok dec,
            m\<lparr>bin_buffer := data, bin_put_index := of_nat (if frame_ok dec then length dec - 10 else length dec)\<rparr>,
            if 10 \<le> length dec then envelope_of (drop (length dec - 10) dec) else e)"
    "length data = length (bin_buffer m)" "take (length dec) data = dec" "length dec \<le> unat (bin_put_index m)"
    using fd_envelope_decode_spec[OF assms, of e] unfolding dec_def by blast
  have "unat (of_nat (length dec - 10) :: u32) = length dec - 10"
    using d(4) unsigned_less[of "bin_put_index m", where ?'a = nat] by (simp add: unat_of_nat)
  moreover have "take (length dec - 10) dec = take (length dec - 10) data"
    by (subst d(3)[symmetric]) (simp add: min_def)
  ultimately show ?thesis
    unfolding dec_def[symmetric] Let_def using d(1,2) by (simp add: bin_written_def)
qed

theorem fd_envelope_decode_exact_witness:
  "\<exists>m' e'. fd_envelope_decode (bin_append [3, 1, 2] (fd_binary_initialize (replicate 4 0) 4)) (envelope_of (replicate 10 0)) =
      Some (False, m', e')"
proof -
  let ?i = "fd_binary_initialize (replicate 4 0) 4"
  let ?m = "bin_append [3, 1, 2] ?i"
  have m: "unat (bin_put_index ?m) = 3" "take 3 (bin_buffer ?m) = [3, 1, 2]" "length (bin_buffer ?m) = 4"
    by (simp_all add: bin_append_def fd_binary_initialize_def)
  have "\<not> frame_ok (cobs_unstuff 255 0 [3, 1, 2])" by (simp add: frame_ok_def)
  then show ?thesis
    using fd_envelope_decode_exact[of ?m "envelope_of (replicate 10 0)"] m by auto
qed

text \<open>C7: corruption is detected. When two received buffers decode to byte sequences that differ
  only within two adjacent bytes outside the checksum field, at most one of them is accepted.\<close>

theorem fd_envelope_detects_burst:
  assumes "unat (bin_put_index m1) \<le> length (bin_buffer m1)" "unat (bin_put_index m2) \<le> length (bin_buffer m2)"
    and "cobs_unstuff 255 0 (take (unat (bin_put_index m1)) (bin_buffer m1)) = pre @ a @ post"
    and "cobs_unstuff 255 0 (take (unat (bin_put_index m2)) (bin_buffer m2)) = pre @ b @ post"
    and "length a = length b" "length a \<le> 2" "a \<noteq> b" "2 \<le> length post"
    and "fd_envelope_decode m1 e = Some (True, m1', e1)"
  shows "\<exists>m2' e2. fd_envelope_decode m2 e = Some (False, m2', e2)"
proof -
  let ?x = "pre @ a @ post" and ?y = "pre @ b @ post" and ?p = "take (length post - 2) post"
  have ok: "frame_ok ?x"
    using fd_envelope_decode_spec[OF assms(1), of e] assms(3,9) by auto
  have cut: "take (length ?x - 2) ?x = pre @ a @ ?p" "take (length ?y - 2) ?y = pre @ b @ ?p"
    using assms(5,8) by (simp_all add: take_append)
  have "fd_crc16_update (pre @ a @ ?p) \<noteq> fd_crc16_update (pre @ b @ ?p)"
    unfolding fd_crc16_ref by (rule crc_ref_burst) (use assms in simp_all)
  moreover have "env_crc16 (envelope_of (drop (length ?x - 10) ?x)) = env_crc16 (envelope_of (drop (length ?y - 10) ?y))"
    if "10 \<le> length ?y"
  proof -
    have last2: "drop (length z - 10) z ! 8 = z ! (length z - 2)" "drop (length z - 10) z ! 9 = z ! (length z - 1)"
      if "10 \<le> length z" for z :: "u8 list"
      using that by (simp_all add: nth_drop)
    have nth: "?x ! (length ?x - k) = ?y ! (length ?y - k)" if "k = 1 \<or> k = 2" for k
      using assms(5,8) that by (auto simp: nth_append)
    show ?thesis
      using that assms(5) last2[of ?x] last2[of ?y] nth[of 1] nth[of 2] by (simp add: envelope_of_def del: drop_append)
  qed
  ultimately have "\<not> frame_ok ?y"
    using ok cut by (auto simp: frame_ok_def simp del: drop_append take_append)
  then show ?thesis
    using fd_envelope_decode_spec[OF assms(2), of e] assms(4) by auto
qed

definition received :: "u8 list \<Rightarrow> fd_binary_t" where
  "received bs = \<lparr>bin_buffer = bs, bin_size = of_nat (length bs), bin_put_index = of_nat (length bs),
                  bin_get_index = 0, bin_errors = 0\<rparr>"

theorem fd_envelope_detects_burst_witness:
  "\<exists>m e. fd_envelope_decode (received (cobs_stuff [] ([8] @ drop 1 (envelope_frame [7] (envelope_of (replicate 10 1)))))) (envelope_of (replicate 10 0))
     = Some (False, m, e)"
proof -
  let ?e = "envelope_of (replicate 10 1)" and ?z = "envelope_of (replicate 10 0)"
  let ?post = "drop 1 (envelope_frame [7] ?e)"
  have f: "envelope_frame [7] ?e = [7] @ ?post"
    by (simp add: envelope_frame_def Let_def)
  have len: "length ?post = 10" by (simp add: length_envelope_frame)
  have rx: "unat (bin_put_index (received (cobs_stuff [] bs))) = length (cobs_stuff [] bs)"
    "take (length (cobs_stuff [] bs)) (bin_buffer (received (cobs_stuff [] bs))) = cobs_stuff [] bs"
    "length (bin_buffer (received (cobs_stuff [] bs))) = length (cobs_stuff [] bs)"
    if "length bs = 11" for bs
  proof -
    have "length (cobs_stuff [] bs) < 2 ^ 32" using cobs_stuff_length[of "[]" bs] that by simp
    then show "unat (bin_put_index (received (cobs_stuff [] bs))) = length (cobs_stuff [] bs)"
      by (simp add: received_def unat_of_nat)
  qed (simp_all add: received_def)
  let ?m1 = "received (cobs_stuff [] ([7] @ ?post))" and ?m2 = "received (cobs_stuff [] ([8] @ ?post))"
  have 1: "length ([7] @ ?post) = 11" and 2: "length ([8] @ ?post) = 11" using len by simp_all
  note r1 = rx[OF 1] and r2 = rx[OF 2]
  have "bin_written ?m1 = cobs_stuff [] ([7] @ ?post)"
    unfolding bin_written_def r1(1) by (rule r1(2))
  then have "bin_written ?m1 = cobs_stuff [] (envelope_frame [7] ?e)"
    by (simp only: f[symmetric])
  from fd_envelope_decode_frame[OF this, of ?z] obtain m' where
    "fd_envelope_decode ?m1 ?z = Some (True, m', envelope_filled [7] ?e)"
    using r1(1,3) by auto
  note accepted = this
  show ?thesis
  proof (rule fd_envelope_detects_burst[OF _ _ _ _ _ _ _ _ accepted])
    show "cobs_unstuff 255 0 (take (unat (bin_put_index ?m1)) (bin_buffer ?m1)) = [] @ [7] @ ?post"
      unfolding r1(1) r1(2) by (simp only: cobs_unstuff_frame append_Nil)
    show "cobs_unstuff 255 0 (take (unat (bin_put_index ?m2)) (bin_buffer ?m2)) = [] @ [8] @ ?post"
      unfolding r2(1) r2(2) by (simp only: cobs_unstuff_frame append_Nil)
    show "unat (bin_put_index ?m1) \<le> length (bin_buffer ?m1)" unfolding r1 ..
    show "unat (bin_put_index ?m2) \<le> length (bin_buffer ?m2)" unfolding r2 ..
  qed (use len in simp_all)
qed

end
