(* ===== verification/FD_Gateway.thy ===== *)
theory FD_Gateway imports FD_Envelope begin

text \<open>
  Routing of messages (subsys/base/src/fd_dispatch.c, subsys/base/src/fd_gateway.c): a gateway
  cuts the received bytes at zero bytes, decodes each frame and either hands the message to the
  dispatcher of its own target or forwards it to the endpoint of another; the dispatcher runs the
  most recently added handler whose filter accepts the envelope.

  Callbacks (filters, handlers, transmit functions) are functions over a world \<open>'w\<close> of the
  application's choice: a handler gets the message, the envelope and the respond function and
  returns its result, the message with whatever it wrote into it, and the new world. The arrays
  of items are the lists of their used entries; their limits are the defaults, 10 handlers and
  5 endpoints. The globals \<open>fd_dispatch\<close> and \<open>fd_gateway\<close> are arguments.
\<close>

section \<open>Dispatch\<close>

type_synonym 'w fd_dispatch_respond_t = "fd_binary_t \<Rightarrow> fd_envelope_t \<Rightarrow> 'w \<Rightarrow> (bool \<times> fd_binary_t \<times> 'w) option"
type_synonym 'w fd_dispatch_process_t =
  "fd_binary_t \<Rightarrow> fd_envelope_t \<Rightarrow> 'w fd_dispatch_respond_t \<Rightarrow> 'w \<Rightarrow> (bool \<times> fd_binary_t \<times> 'w) option"

record 'w fd_dispatch_item_t =
  item_filter :: "fd_envelope_t \<Rightarrow> bool"
  item_process :: "'w fd_dispatch_process_t"

record 'w fd_dispatch_t =
  dispatch_respond :: "'w fd_dispatch_respond_t"
  dispatch_items :: "'w fd_dispatch_item_t list"

definition fd_dispatch_item_limit :: nat where
  "fd_dispatch_item_limit = 10"

fun dispatch_scan :: "'w fd_dispatch_item_t list \<Rightarrow> nat \<Rightarrow> fd_envelope_t \<Rightarrow> 'w fd_dispatch_item_t option" where
  "dispatch_scan items 0 envelope = None"
| "dispatch_scan items (Suc i) envelope =
     (if item_filter (items ! i) envelope then Some (items ! i) else dispatch_scan items i envelope)"

definition fd_dispatch_get_item :: "'w fd_dispatch_t \<Rightarrow> fd_envelope_t \<Rightarrow> 'w fd_dispatch_item_t option" where
  "fd_dispatch_get_item d envelope = dispatch_scan (dispatch_items d) (length (dispatch_items d)) envelope"

definition fd_dispatch_process ::
  "'w fd_dispatch_t \<Rightarrow> fd_binary_t \<Rightarrow> fd_envelope_t \<Rightarrow> 'w \<Rightarrow> (bool \<times> fd_binary_t \<times> 'w) option" where
  "fd_dispatch_process d message envelope w =
     (case fd_dispatch_get_item d envelope of
        None \<Rightarrow> Some (False, message, w)
      | Some item \<Rightarrow> item_process item message envelope (dispatch_respond d) w)"

definition fd_dispatch_add_process ::
  "'w fd_dispatch_t \<Rightarrow> 'w fd_dispatch_process_t \<Rightarrow> (fd_envelope_t \<Rightarrow> bool) \<Rightarrow> assert_log \<Rightarrow>
   'w fd_dispatch_t \<times> assert_log" where
  "fd_dispatch_add_process d process' filter' log =
     (let log = fd_assert (length (dispatch_items d) < fd_dispatch_item_limit)
                  ''fd_dispatch.item_count < fd_dispatch_item_limit'' log
      in if length (dispatch_items d) \<ge> fd_dispatch_item_limit then (d, log)
         else (d\<lparr>dispatch_items := dispatch_items d @ [\<lparr>item_filter = filter', item_process = process'\<rparr>]\<rparr>, log))"

definition fd_dispatch_initialize :: "'w fd_dispatch_respond_t \<Rightarrow> 'w fd_dispatch_t" where
  "fd_dispatch_initialize respond = \<lparr>dispatch_respond = respond, dispatch_items = []\<rparr>"

section \<open>Gateway\<close>

type_synonym 'w fd_gateway_endpoint_t = "u8 list \<Rightarrow> 'w \<Rightarrow> bool \<times> 'w"

record 'w fd_gateway_t =
  gateway_target :: u32
  gateway_items :: "(u8 \<times> 'w fd_gateway_endpoint_t) list"

definition fd_gateway_item_limit :: nat where
  "fd_gateway_item_limit = 5"

definition fd_gateway_get_item :: "'w fd_gateway_t \<Rightarrow> u8 \<Rightarrow> 'w fd_gateway_endpoint_t option" where
  "fd_gateway_get_item g target = map_option snd (find (\<lambda>i. target = fst i) (gateway_items g))"

text \<open>There is no check of the limit: the sixth endpoint is written past the array.\<close>

definition fd_gateway_add_endpoint ::
  "'w fd_gateway_t \<Rightarrow> u8 \<Rightarrow> 'w fd_gateway_endpoint_t \<Rightarrow> assert_log \<Rightarrow> ('w fd_gateway_t \<times> assert_log) option" where
  "fd_gateway_add_endpoint g target endpoint log =
     (let log = fd_assert (fd_gateway_get_item g target = None) ''fd_gateway_get_item(target) == 0'' log
      in if length (gateway_items g) < fd_gateway_item_limit
         then Some (g\<lparr>gateway_items := gateway_items g @ [(target, endpoint)]\<rparr>, log)
         else None)"

definition fd_gateway_transmit ::
  "'w fd_gateway_t \<Rightarrow> fd_binary_t \<Rightarrow> fd_envelope_t \<Rightarrow> assert_log \<Rightarrow> 'w \<Rightarrow>
   (bool \<times> fd_binary_t \<times> assert_log \<times> 'w) option" where
  "fd_gateway_transmit g message envelope log w =
     do { (ok, message, envelope, failed) \<leftarrow> fd_envelope_encode message envelope;
          let log = log @ failed;
          if \<not> ok then Some (False, message, fd_assert False ''encode error'' log, w)
          else
            do { message \<leftarrow> fd_binary_put_uint8 message 0;
                 if bin_errors message \<noteq> 0
                 then Some (False, message, fd_assert False ''not enough space'' log, w)
                 else
                   case fd_gateway_get_item g (env_target envelope) of
                     None \<Rightarrow> Some (False, message, log, w)
                   | Some transmit \<Rightarrow>
                       do { bytes \<leftarrow> rd_block (bin_buffer message) 0 (unat (bin_put_index message));
                            let (result, w) = transmit bytes w;
                            Some (result, message, log, w) } } }"

definition no_envelope :: fd_envelope_t where
  "no_envelope = \<lparr>env_crc16 = 0, env_length = 0, env_target = 0, env_source = 0, env_system = 0,
                  env_subsystem = 0, env_type = 0, env_reserved0 = 0\<rparr>"

definition fd_gateway_process ::
  "'w fd_gateway_t \<Rightarrow> 'w fd_dispatch_t \<Rightarrow> fd_binary_t \<Rightarrow> assert_log \<Rightarrow> 'w \<Rightarrow>
   (bool \<times> fd_binary_t \<times> assert_log \<times> 'w) option" where
  "fd_gateway_process g d message log w =
     do { (ok, message, envelope) \<leftarrow> fd_envelope_decode message no_envelope;
          if \<not> ok then Some (False, message, log, w)
          else if ucast (env_target envelope) = gateway_target g then
            do { let binary = fd_binary_initialize (bin_buffer message) (bin_put_index message);
                 (result, binary, w) \<leftarrow> fd_dispatch_process d binary envelope w;
                 Some (result, message\<lparr>bin_buffer := bin_buffer binary\<rparr>, log, w) }
          else fd_gateway_transmit g message envelope log w }"

fun fd_gateway_message_rx ::
  "'w fd_gateway_t \<Rightarrow> 'w fd_dispatch_t \<Rightarrow> fd_binary_t \<Rightarrow> u8 list \<Rightarrow> assert_log \<Rightarrow> 'w \<Rightarrow>
   (fd_binary_t \<times> assert_log \<times> 'w) option" where
  "fd_gateway_message_rx g d message [] log w = Some (message, log, w)"
| "fd_gateway_message_rx g d message (byte # data) log w =
     (if byte = 0 then
        if bin_put_index message > 0 then
          do { let log = fd_assert (bin_errors message = 0) ''message->errors == 0'' log;
               (result, message, log, w) \<leftarrow> fd_gateway_process g d message log w;
               let log = fd_assert result ''result'' log;
               fd_gateway_message_rx g d (fd_binary_reset message) data log w }
        else fd_gateway_message_rx g d message data log w
      else do { message \<leftarrow> fd_binary_put_uint8 message byte; fd_gateway_message_rx g d message data log w })"

definition fd_gateway_initialize :: "u8 \<Rightarrow> 'w fd_gateway_t" where
  "fd_gateway_initialize target = \<lparr>gateway_target = ucast target, gateway_items = []\<rparr>"

section \<open>The last matching handler\<close>

lemma dispatch_scan_find:
  "n \<le> length items \<Longrightarrow>
     dispatch_scan items n envelope = find (\<lambda>i. item_filter i envelope) (rev (take n items))"
  by (induction n) (simp_all add: take_Suc_conv_app_nth)

lemma fd_dispatch_get_item_find:
  "fd_dispatch_get_item d envelope = find (\<lambda>i. item_filter i envelope) (rev (dispatch_items d))"
  by (simp add: fd_dispatch_get_item_def dispatch_scan_find)

definition dispatch_add_all ::
  "('w fd_dispatch_process_t \<times> (fd_envelope_t \<Rightarrow> bool)) list \<Rightarrow> 'w fd_dispatch_t \<times> assert_log \<Rightarrow> 'w fd_dispatch_t \<times> assert_log" where
  "dispatch_add_all ps s = fold (\<lambda>(p, f) (d, log). fd_dispatch_add_process d p f log) ps s"

lemma dispatch_add_all_items:
  "length (dispatch_items d) + length ps \<le> fd_dispatch_item_limit \<Longrightarrow>
     dispatch_add_all ps (d, log) =
       (d\<lparr>dispatch_items := dispatch_items d @ map (\<lambda>(p, f). \<lparr>item_filter = f, item_process = p\<rparr>) ps\<rparr>, log)"
proof (induction ps arbitrary: d)
  case (Cons pf ps)
  then show ?case
    by (cases pf) (simp add: dispatch_add_all_def fd_dispatch_add_process_def Let_def)
qed (simp add: dispatch_add_all_def)

lemma dispatch_add_all_limit: "length (dispatch_items (fst (dispatch_add_all ps s))) \<le> max fd_dispatch_item_limit (length (dispatch_items (fst s)))"
proof (induction ps arbitrary: s)
  case (Cons pf ps)
  have step: "length (dispatch_items (fst (case s of (d, log) \<Rightarrow> fd_dispatch_add_process d p f log))) \<le>
      max fd_dispatch_item_limit (length (dispatch_items (fst s)))" for p f
    by (cases s) (auto simp: fd_dispatch_add_process_def Let_def)
  show ?case
    using Cons[of "case s of (d, log) \<Rightarrow> fd_dispatch_add_process d (fst pf) (snd pf) log"] step[of "fst pf" "snd pf"]
    by (cases pf) (auto simp: dispatch_add_all_def)
qed (simp add: dispatch_add_all_def)

text \<open>of the handlers added to a fresh dispatcher, up to its limit of ten, the last added one
  whose filter accepts the envelope processes a message, and it alone; without one the message is
  refused and nothing runs.\<close>

theorem fd_dispatch_last_match:
  assumes "length ps \<le> 10"
  shows "dispatch_add_all ps (fd_dispatch_initialize respond, log) = (d, log') \<Longrightarrow>
     log' = log \<and>
     fd_dispatch_process d message envelope w =
       (case find (\<lambda>(p, f). f envelope) (rev ps) of
          None \<Rightarrow> Some (False, message, w)
        | Some (p, f) \<Rightarrow> p message envelope respond w)"
proof -
  let ?item = "\<lambda>(p, f). \<lparr>item_filter = f, item_process = p\<rparr>"
  assume "dispatch_add_all ps (fd_dispatch_initialize respond, log) = (d, log')"
  then have d: "d = \<lparr>dispatch_respond = respond, dispatch_items = map ?item ps\<rparr>" and log: "log' = log"
    using dispatch_add_all_items[of "fd_dispatch_initialize respond" ps log] assms
    by (simp_all add: fd_dispatch_initialize_def fd_dispatch_item_limit_def)
  have "find (\<lambda>i. item_filter i envelope) (map ?item qs) = map_option ?item (find (\<lambda>(p, f). f envelope) qs)" for qs
    by (induction qs) auto
  from this[of "rev ps"] have "fd_dispatch_get_item d envelope = map_option ?item (find (\<lambda>(p, f). f envelope) (rev ps))"
    by (simp add: fd_dispatch_get_item_find d rev_map)
  then show ?thesis
    using log by (auto simp: fd_dispatch_process_def d split: option.split)
qed

theorem fd_dispatch_last_match_witness:
  "\<exists>d. dispatch_add_all [(\<lambda>m e r w. Some (True, m, w + 1), \<lambda>e. True), (\<lambda>m e r w. Some (True, m, w + 2), \<lambda>e. env_type e = 1),
      (\<lambda>m e r w. Some (True, m, w + 4), \<lambda>e. env_type e = 2)] (fd_dispatch_initialize (\<lambda>m e w. None), []) = (d, []) \<and>
    fd_dispatch_process d (fd_binary_initialize [] 0) (no_envelope\<lparr>env_type := 1\<rparr>) (0 :: nat) =
      Some (True, fd_binary_initialize [] 0, 2)"
proof -
  let ?ps = "[(\<lambda>m e r w. Some (True, m, w + 1), \<lambda>e. True), (\<lambda>m e r w. Some (True, m, w + 2), \<lambda>e. env_type e = 1),
      (\<lambda>m e r w. Some (True, m, w + 4), \<lambda>e. env_type e = 2)] :: (nat fd_dispatch_process_t \<times> (fd_envelope_t \<Rightarrow> bool)) list"
  obtain d log' where d: "dispatch_add_all ?ps (fd_dispatch_initialize (\<lambda>m e w. None), []) = (d, log')"
    by (meson surj_pair)
  have "length ?ps \<le> 10" by simp
  from fd_dispatch_last_match[OF this d, of "fd_binary_initialize [] 0" "no_envelope\<lparr>env_type := 1\<rparr>" 0] d
  show ?thesis by (auto simp: no_envelope_def)
qed

section \<open>Frames on the wire\<close>

lemma message_rx_bytes:
  assumes "0 \<notin> set bs" "bin_ok m" "length bs \<le> bin_room m"
  shows "fd_gateway_message_rx g d m (bs @ rest) log w = fd_gateway_message_rx g d (bin_append bs m) rest log w"
  using assms
proof (induction bs arbitrary: m)
  case (Cons b bs)
  have one: "length [b] \<le> bin_room m" using Cons.prems by simp
  have ok: "bin_ok (bin_append [b] m)"
    using bin_append_ok(1)[OF Cons.prems(2), of "[b]"] one by (simp add: bin_room_iff[OF Cons.prems(2)])
  have room: "length bs \<le> bin_room (bin_append [b] m)"
    using bin_append_room[OF Cons.prems(2) one] Cons.prems(3) by simp
  have "bin_append bs (bin_append [b] m) = bin_append (b # bs) m"
    using bin_append_append[OF Cons.prems(2), of "[b]" bs] Cons.prems(3) by simp
  then show ?case
    using Cons.prems Cons.IH[OF _ ok room] put_specs(1)[OF Cons.prems(2), of b] one
    by (simp add: bin_put_whole_def)
qed (simp add: bin_append_Nil)

definition bin_idle :: "fd_binary_t \<Rightarrow> bool" where
  "bin_idle m \<longleftrightarrow> bin_ok m \<and> bin_put_index m = 0 \<and> bin_errors m = 0"

lemma message_rx_frame:
  assumes idle: "bin_idle m" and body: "length body \<le> 7864"
    and room: "length (cobs_stuff [] (envelope_frame body e)) \<le> unat (bin_size m)"
    and target: "ucast (env_target e) = gateway_target g"
  shows "\<exists>b m'. bin_size b = of_nat (length body) \<and> take (length body) (bin_buffer b) = body \<and>
      bin_put_index b = 0 \<and> bin_get_index b = 0 \<and> bin_errors b = 0 \<and> bin_ok b \<and>
      bin_size m' = bin_size m \<and> length (bin_buffer m') = length (bin_buffer m) \<and>
      bin_buffer m' = bin_buffer b \<and>
      fd_gateway_message_rx g d m (cobs_stuff [] (envelope_frame body e) @ [0] @ rest) log w =
        do { (result, b, w) \<leftarrow> fd_dispatch_process d b (envelope_filled body e) w;
             fd_gateway_message_rx g d (fd_binary_reset (m'\<lparr>bin_buffer := bin_buffer b\<rparr>)) rest
               (fd_assert result ''result'' log) w }"
proof -
  let ?f = "cobs_stuff [] (envelope_frame body e)"
  have m: "bin_ok m" "bin_room m = unat (bin_size m)" "bin_written m = []" "bin_errors m = 0"
    using idle by (simp_all add: bin_idle_def bin_room_def bin_written_def)
  have nz: "0 \<notin> set ?f" by (rule cobs_stuff_nonzero) simp_all
  have fits: "length ?f \<le> bin_room m" using room m(2) by simp
  let ?m = "bin_append ?f m"
  have a: "bin_ok ?m" "bin_written ?m = ?f" "bin_size ?m = bin_size m" "bin_errors ?m = 0"
    "length (bin_buffer ?m) = length (bin_buffer m)" "unat (bin_put_index ?m) = length ?f"
    using bin_append_ok[OF m(1), of ?f] fits m idle by (simp_all add: bin_room_iff[OF m(1)] bin_idle_def)
  have pos: "0 < bin_put_index ?m"
    using a(6) cobs_stuff_length[of "[]" "envelope_frame body e"] by (auto simp: word_less_nat_alt)
  have "unat (bin_put_index ?m) \<le> length (bin_buffer ?m)" using a(1) by (simp add: bin_ok_def)
  from fd_envelope_decode_frame[OF a(2) _ this, of no_envelope]
  obtain m' where m': "fd_envelope_decode ?m no_envelope = Some (True, m', envelope_filled body e)"
    "bin_written m' = body" "bin_errors m' = 0" "bin_size m' = bin_size m"
    "length (bin_buffer m') = length (bin_buffer m)" "bin_put_index m' = of_nat (length body)"
    using body a by auto
  let ?b = "fd_binary_initialize (bin_buffer m') (bin_put_index m')"
  have put: "bin_put_index m' = of_nat (length body)" using m'(6) .
  have small: "unat (of_nat (length body) :: u32) = length body" using body by (simp add: unat_of_nat)
  have take: "take (length body) (bin_buffer m') = body"
    using m'(2) by (simp add: bin_written_def put small)
  then have "length body \<le> length (bin_buffer m')" by (metis length_take min.cobounded1)
  then have ok: "bin_ok ?b"
    using body by (intro bin_initialize_ok) (simp_all add: put small)
  have "fd_gateway_message_rx g d m (?f @ [0] @ rest) log w = fd_gateway_message_rx g d ?m (0 # rest) log w"
    using message_rx_bytes[OF nz m(1) fits, of g d "0 # rest" log w] by (simp only: append_Cons append_Nil)
  also have "\<dots> = do { (result, message, log, w) \<leftarrow> fd_gateway_process g d ?m log w;
      fd_gateway_message_rx g d (fd_binary_reset message) rest (fd_assert result ''result'' log) w }"
    using pos a(4) by (simp add: Let_def)
  also have "\<dots> = do { (result, b, w) \<leftarrow> fd_dispatch_process d ?b (envelope_filled body e) w;
      fd_gateway_message_rx g d (fd_binary_reset (m'\<lparr>bin_buffer := bin_buffer b\<rparr>)) rest
        (fd_assert result ''result'' log) w }"
    using m'(1) target
    by (simp add: fd_gateway_process_def envelope_filled_def Let_def split: bind_split)
  finally show ?thesis
    using ok m'(4,5) take put
    by (intro exI[of _ ?b] exI[of _ m']) (simp add: fd_binary_initialize_def)
qed

text \<open>C8: two gateways end to end. What one gateway transmits for a message of up to 7864 bytes is a
  run of non-zero bytes followed by a zero byte, handed to the endpoint of the target; a gateway of
  that target which receives these bytes, in an idle receive buffer large enough, runs its
  dispatcher exactly once, on the original message and its envelope with length and checksum filled
  in, and is idle again for whatever follows.\<close>

theorem fd_gateway_end_to_end:
  assumes m: "bin_ok m" "bin_errors m = 0" "length (bin_written m) \<le> 7864"
      "length (bin_written m) + length (bin_written m) div 254 + 13 \<le> unat (bin_size m)"
    and endpoint: "fd_gateway_get_item g (env_target e) = Some transmit"
    and receiver: "bin_idle r" "ucast (env_target e) = gateway_target g'"
      "length (bin_written m) + length (bin_written m) div 254 + 12 \<le> unat (bin_size r)"
  shows "\<exists>frame m'. 0 \<notin> set frame \<and>
     fd_gateway_transmit g m e log w =
       Some (fst (transmit (frame @ [0]) w), m', log, snd (transmit (frame @ [0]) w)) \<and>
     (\<forall>rest log2 w2. \<exists>b r'. bin_size b = of_nat (length (bin_written m)) \<and>
        take (length (bin_written m)) (bin_buffer b) = bin_written m \<and> bin_ok b \<and>
        bin_put_index b = 0 \<and> bin_get_index b = 0 \<and> bin_errors b = 0 \<and>
        bin_size r' = bin_size r \<and> bin_buffer r' = bin_buffer b \<and>
        fd_gateway_message_rx g' d r (frame @ [0] @ rest) log2 w2 =
          do { (result, b, w) \<leftarrow> fd_dispatch_process d b (envelope_filled (bin_written m) e) w2;
               fd_gateway_message_rx g' d (fd_binary_reset (r'\<lparr>bin_buffer := bin_buffer b\<rparr>)) rest
                 (fd_assert result ''result'' log2) w })"
proof -
  let ?body = "bin_written m"
  let ?f = "cobs_stuff [] (envelope_frame ?body e)"
  have put: "unat (bin_put_index m) = length ?body"
    using m(1) by (auto simp: bin_written_def bin_ok_def)
  have room: "10 \<le> bin_room m" using m(4) put by (simp add: bin_room_def)
  have bound: "cobs_bound (length ?body + 10) \<le> length ?body + length ?body div 254 + 12"
    unfolding cobs_bound_def by linarith
  have "cobs_bound (length ?body + 10) \<le> length (bin_buffer m)"
    using bound m(1,4) by (simp add: bin_ok_def)
  from fd_envelope_encode_spec[OF m(1) refl room m(2) _ this, of e] m(3)
  obtain m1 where m1: "fd_envelope_encode m e = Some (True, m1, envelope_filled ?body e, [])"
    "bin_written m1 = ?f" "bin_errors m1 = 0" "bin_size m1 = bin_size m"
    "length (bin_buffer m1) = length (bin_buffer m)" "bin_get_index m1 = bin_get_index m"
    "unat (bin_put_index m1) = length ?f"
    by auto
  have lf: "length ?f \<le> length ?body + length ?body div 254 + 12"
    using cobs_stuff_length[of "[]" "envelope_frame ?body e"] bound
    by (simp add: length_envelope_frame cobs_bound_def)
  have ok1: "bin_ok m1" using m(1,4) lf m1(4-7) by (simp add: bin_ok_def)
  let ?m2 = "bin_append [0] m1"
  have fit: "unat (bin_put_index m1) + length [0 :: u8] \<le> unat (bin_size m1)"
    using lf m(4) m1(4,7) by simp
  note a = bin_append_ok[OF ok1 fit]
  have one: "fd_binary_put_uint8 m1 0 = Some ?m2"
    using put_specs(1)[OF ok1, of 0] fit by (simp add: bin_put_whole_def bin_room_iff[OF ok1])
  have "rd_block (bin_buffer ?m2) 0 (unat (bin_put_index ?m2)) = Some (?f @ [0])"
    using a(1,2) m1(2) unfolding bin_written_def bin_ok_def by (simp add: rd_block_def)
  then have tx: "fd_gateway_transmit g m e log w =
      Some (fst (transmit (?f @ [0]) w), ?m2, log, snd (transmit (?f @ [0]) w))"
    using m1(1,3) one a(4) endpoint
    by (simp add: fd_gateway_transmit_def envelope_filled_def case_prod_beta)
  have "0 \<notin> set ?f" by (rule cobs_stuff_nonzero) simp_all
  moreover have "length ?f \<le> unat (bin_size r)" using lf receiver(3) by simp
  note rx = message_rx_frame[OF receiver(1) m(3) this receiver(2)]
  ultimately show ?thesis
    using tx rx by (intro exI[of _ ?f] exI[of _ ?m2] conjI) (fast | blast)+
qed

lemma bin_idle_initialize:
  "unat n \<le> length b \<Longrightarrow> unat n + 8 < 2 ^ 32 \<Longrightarrow> bin_idle (fd_binary_initialize b n)"
  using bin_initialize_ok[of n b] by (simp add: bin_idle_def) (simp add: fd_binary_initialize_def)

theorem fd_gateway_end_to_end_witness:
  "\<exists>frame m'. 0 \<notin> set frame \<and>
     fd_gateway_transmit \<lparr>gateway_target = 1, gateway_items = [(7, \<lambda>bytes w. (True, w @ bytes))]\<rparr>
       (bin_append [0, 5] (fd_binary_initialize (replicate 16 0) 16)) (no_envelope\<lparr>env_target := 7\<rparr>) [] [] =
       Some (True, m', [], frame @ [0])"
proof -
  let ?i = "fd_binary_initialize (replicate 16 0) 16"
  let ?m = "bin_append [0, 5] ?i" and ?e = "no_envelope\<lparr>env_target := 7\<rparr>"
  let ?g = "\<lparr>gateway_target = 1, gateway_items = [(7, \<lambda>bytes w. (True, w @ bytes))]\<rparr>"
  have i: "bin_ok ?i" "unat (bin_put_index ?i) = 0" "unat (bin_size ?i) = 16" "bin_errors ?i = 0" "bin_written ?i = []"
    by (simp_all add: bin_ok_def bin_written_def fd_binary_initialize_def)
  have m: "bin_ok ?m" "bin_written ?m = [0, 5]" "bin_errors ?m = 0" "unat (bin_size ?m) = 16"
    using bin_append_ok[OF i(1), of "[0, 5]"] i by simp_all
  have e: "fd_gateway_get_item ?g (env_target ?e) = Some (\<lambda>bytes w. (True, w @ bytes))"
    by (simp add: fd_gateway_get_item_def)
  have idle: "bin_idle ?i" by (rule bin_idle_initialize) simp_all
  show ?thesis
    using fd_gateway_end_to_end[OF m(1,3) _ _ e idle, of "fd_gateway_initialize 7" "[]" "[]"
        "fd_dispatch_initialize (\<lambda>m e w. None) :: u8 list fd_dispatch_t"] m i(3)
    by (auto simp: fd_gateway_initialize_def)
qed

text \<open>a gateway takes five endpoints; adding a sixth writes past the end of the array, because
  the count is never compared with the limit.\<close>

theorem fd_gateway_endpoint_limit:
  "fd_gateway_add_endpoint g target endpoint log = None \<longleftrightarrow> length (gateway_items g) \<ge> 5"
  by (simp add: fd_gateway_add_endpoint_def fd_gateway_item_limit_def Let_def not_less)

end
