(* ===== verification/FD_Sha1.thy ===== *)
theory FD_Sha1 imports FD_Prelude begin

text \<open>
  SHA-1 (subsys/crypto/src/sha1.c) and its wrapper (subsys/crypto/src/fd_crypto_sha.c), the hash of
  the boot loader: a block transform unrolled into 80 macro calls that expands the message schedule
  in place, in a ring of 16 words, and a streaming interface over a 64 byte buffer. Both are shown
  equal to the textbook definition: a schedule of 80 words, and the hash of the padded message cut
  into blocks.

  A call with \<open>len\<close> bytes passes an object of that size; the tests on \<open>j + len\<close> and \<open>i + 63\<close> are those of
  \<open>unsigned int\<close>, which wrap for pieces of more than \<open>2 ^ 32 - 64\<close> bytes.
\<close>

section \<open>The block transform\<close>

definition rol :: "u32 \<Rightarrow> nat \<Rightarrow> u32" where
  "rol value bits = push_bit bits value OR drop_bit (32 - bits) value"

text \<open>The union of 64 bytes and 16 words, on a little endian machine.\<close>

definition le_word :: "u8 \<Rightarrow> u8 \<Rightarrow> u8 \<Rightarrow> u8 \<Rightarrow> u32" where
  "le_word b0 b1 b2 b3 = ucast b0 OR push_bit 8 (ucast b1) OR push_bit 16 (ucast b2) OR push_bit 24 (ucast b3)"

fun words_of :: "u8 list \<Rightarrow> u32 list" where
  "words_of (b0 # b1 # b2 # b3 # bs) = le_word b0 b1 b2 b3 # words_of bs"
| "words_of _ = []"

definition bytes_of :: "u32 list \<Rightarrow> u8 list" where
  "bytes_of l = concat (map (\<lambda>w. [ucast w, ucast (drop_bit 8 w), ucast (drop_bit 16 w), ucast (drop_bit 24 w)]) l)"

text \<open>\<open>blk0\<close> and \<open>blk\<close> are assignments to a word of the block and return its new value.\<close>

definition blk0 :: "u32 list \<Rightarrow> nat \<Rightarrow> u32 list" where
  "blk0 l i = l[i := (rol (l ! i) 24 AND 0xFF00FF00) OR (rol (l ! i) 8 AND 0x00FF00FF)]"

definition blk :: "u32 list \<Rightarrow> nat \<Rightarrow> u32 list" where
  "blk l i = l[i mod 16 := rol (l ! ((i + 13) mod 16) XOR l ! ((i + 8) mod 16) XOR
                               l ! ((i + 2) mod 16) XOR l ! (i mod 16)) 1]"

type_synonym sha1_vars = "u32 \<times> u32 \<times> u32 \<times> u32 \<times> u32"

text \<open>A call \<open>R(v,w,x,y,z,i)\<close> updates \<open>z\<close> and \<open>w\<close>; the next call of the unrolled loop names its
  arguments \<open>z,v,w,x,y\<close>.\<close>

definition sha1_R ::
  "(u32 \<Rightarrow> u32 \<Rightarrow> u32 \<Rightarrow> u32) \<Rightarrow> u32 \<Rightarrow> (u32 list \<Rightarrow> nat \<Rightarrow> u32 list) \<Rightarrow> nat \<Rightarrow> nat \<Rightarrow>
   sha1_vars \<times> u32 list \<Rightarrow> sha1_vars \<times> u32 list" where
  "sha1_R f k expand slot i s =
     (case s of ((v, w, x, y, z), l) \<Rightarrow>
        let l = expand l i;
            z = z + (f w x y + l ! slot + k + rol v 5);
            w = rol w 30
        in ((z, v, w, x, y), l))"

definition sha1_R0 :: "nat \<Rightarrow> sha1_vars \<times> u32 list \<Rightarrow> sha1_vars \<times> u32 list" where
  "sha1_R0 i = sha1_R (\<lambda>w x y. (w AND (x XOR y)) XOR y) 0x5A827999 blk0 i i"
definition sha1_R1 :: "nat \<Rightarrow> sha1_vars \<times> u32 list \<Rightarrow> sha1_vars \<times> u32 list" where
  "sha1_R1 i = sha1_R (\<lambda>w x y. (w AND (x XOR y)) XOR y) 0x5A827999 blk (i mod 16) i"
definition sha1_R2 :: "nat \<Rightarrow> sha1_vars \<times> u32 list \<Rightarrow> sha1_vars \<times> u32 list" where
  "sha1_R2 i = sha1_R (\<lambda>w x y. w XOR x XOR y) 0x6ED9EBA1 blk (i mod 16) i"
definition sha1_R3 :: "nat \<Rightarrow> sha1_vars \<times> u32 list \<Rightarrow> sha1_vars \<times> u32 list" where
  "sha1_R3 i = sha1_R (\<lambda>w x y. ((w OR x) AND y) OR (w AND x)) 0x8F1BBCDC blk (i mod 16) i"
definition sha1_R4 :: "nat \<Rightarrow> sha1_vars \<times> u32 list \<Rightarrow> sha1_vars \<times> u32 list" where
  "sha1_R4 i = sha1_R (\<lambda>w x y. w XOR x XOR y) 0xCA62C1D6 blk (i mod 16) i"

definition sha1_call :: "nat \<Rightarrow> sha1_vars \<times> u32 list \<Rightarrow> sha1_vars \<times> u32 list" where
  "sha1_call i = (if i < 16 then sha1_R0 i else if i < 20 then sha1_R1 i else if i < 40 then sha1_R2 i
                  else if i < 60 then sha1_R3 i else sha1_R4 i)"

text \<open>The transform reads and overwrites the buffer; it returns the new state and the buffer.\<close>

definition SHA1_Transform :: "sha1_vars \<Rightarrow> u8 list \<Rightarrow> sha1_vars \<times> u8 list" where
  "SHA1_Transform state buffer =
     (case fold sha1_call [0..<80] (state, words_of buffer) of ((a, b, c, d, e), l) \<Rightarrow>
      case state of (s0, s1, s2, s3, s4) \<Rightarrow>
        ((s0 + a, s1 + b, s2 + c, s3 + d, s4 + e), bytes_of l))"

section \<open>The streaming interface\<close>

record SHA_CTX =
  sha_state :: sha1_vars
  sha_count0 :: u32
  sha_count1 :: u32
  sha_buffer :: "u8 list"

definition SHA1_Init :: "SHA_CTX \<Rightarrow> SHA_CTX" where
  "SHA1_Init context =
     context\<lparr>sha_state := (0x67452301, 0xEFCDAB89, 0x98BADCFE, 0x10325476, 0xC3D2E1F0),
             sha_count0 := 0, sha_count1 := 0\<rparr>"

function sha1_update_loop :: "u8 list \<Rightarrow> nat \<Rightarrow> sha1_vars \<Rightarrow> (nat \<times> sha1_vars) option" where
  "sha1_update_loop data i state =
     (if (of_nat i + 63 :: u32) < of_nat (length data)
      then case rd_block data i 64 of
             None \<Rightarrow> None
           | Some buffer \<Rightarrow> sha1_update_loop data (i + 64) (fst (SHA1_Transform state buffer))
      else Some (i, state))"
  by pat_completeness auto
termination by (relation "measure (\<lambda>(data, i, _). length data - i)") (auto dest: rd_block_SomeD)

definition SHA1_Update :: "SHA_CTX \<Rightarrow> u8 list \<Rightarrow> SHA_CTX option" where
  "SHA1_Update context data =
     do { let len = length data;
          let j = unat (drop_bit 3 (sha_count0 context) AND 63);
          let count0 = sha_count0 context + push_bit 3 (of_nat len);
          let count1 = (if count0 < push_bit 3 (of_nat len) then sha_count1 context + 1
                        else sha_count1 context);
          let count1 = count1 + drop_bit 29 (of_nat len);
          let context = context\<lparr>sha_count0 := count0, sha_count1 := count1\<rparr>;
          (i, j, context) \<leftarrow>
            (if (of_nat j + of_nat len :: u32) > 63 then
               do { let i = 64 - j;
                    buffer \<leftarrow> wr_block (sha_buffer context) j (take i data);
                    let (state, buffer) = SHA1_Transform (sha_state context) buffer;
                    (i, state) \<leftarrow> sha1_update_loop data i state;
                    Some (i, 0, context\<lparr>sha_state := state, sha_buffer := buffer\<rparr>) }
             else Some (0, j, context));
          buffer \<leftarrow> wr_block (sha_buffer context) j (drop i data);
          Some (context\<lparr>sha_buffer := buffer\<rparr>) }"

definition sha1_finalcount :: "SHA_CTX \<Rightarrow> u8 list" where
  "sha1_finalcount context =
     map (\<lambda>i. ucast (drop_bit ((3 - i mod 4) * 8) (if i \<ge> 4 then sha_count0 context else sha_count1 context) AND 255))
       [0..<8]"

partial_function (option) sha1_final_pad :: "SHA_CTX \<Rightarrow> SHA_CTX option" where
  [code]: "sha1_final_pad context =
     (if sha_count0 context AND 504 \<noteq> 448
      then do { context \<leftarrow> SHA1_Update context [0]; sha1_final_pad context }
      else Some context)"

definition sha1_digest :: "sha1_vars \<Rightarrow> u8 list" where
  "sha1_digest state =
     (case state of (s0, s1, s2, s3, s4) \<Rightarrow>
        map (\<lambda>i. ucast (drop_bit ((3 - i mod 4) * 8) ([s0, s1, s2, s3, s4] ! (i div 4)) AND 255)) [0..<20])"

definition SHA1_Final :: "SHA_CTX \<Rightarrow> (u8 list \<times> SHA_CTX) option" where
  "SHA1_Final context =
     do { let finalcount = sha1_finalcount context;
          context \<leftarrow> SHA1_Update context [0x80];
          context \<leftarrow> sha1_final_pad context;
          context \<leftarrow> SHA1_Update context finalcount;
          Some (sha1_digest (sha_state context),
                context\<lparr>sha_buffer := replicate 64 0, sha_state := (0, 0, 0, 0, 0),
                        sha_count0 := 0, sha_count1 := 0\<rparr>) }"

definition fd_crypto_sha_initialize :: "SHA_CTX \<Rightarrow> bool \<times> SHA_CTX" where
  "fd_crypto_sha_initialize context = (True, SHA1_Init context)"

definition fd_crypto_sha_update :: "SHA_CTX \<Rightarrow> u8 list \<Rightarrow> (bool \<times> SHA_CTX) option" where
  "fd_crypto_sha_update context data = map_option (Pair True) (SHA1_Update context data)"

definition fd_crypto_sha_finalize :: "SHA_CTX \<Rightarrow> (bool \<times> u8 list \<times> SHA_CTX) option" where
  "fd_crypto_sha_finalize context = map_option (Pair True) (SHA1_Final context)"

section \<open>The textbook hash\<close>

definition be_word :: "u8 list \<Rightarrow> u32" where
  "be_word b = push_bit 24 (ucast (b ! 0)) OR push_bit 16 (ucast (b ! 1)) OR push_bit 8 (ucast (b ! 2)) OR ucast (b ! 3)"

fun sha1_schedule :: "nat \<Rightarrow> u32 list \<Rightarrow> u32 list" where
  "sha1_schedule 0 w = w"
| "sha1_schedule (Suc n) w =
     (let t = length w
      in sha1_schedule n (w @ [rol (w ! (t - 3) XOR w ! (t - 8) XOR w ! (t - 14) XOR w ! (t - 16)) 1]))"

definition sha1_f :: "nat \<Rightarrow> u32 \<Rightarrow> u32 \<Rightarrow> u32 \<Rightarrow> u32" where
  "sha1_f t b c d =
     (if t < 20 then (b AND c) OR (NOT b AND d) else if t < 40 then b XOR c XOR d
      else if t < 60 then (b AND c) OR (b AND d) OR (c AND d) else b XOR c XOR d)"

definition sha1_K :: "nat \<Rightarrow> u32" where
  "sha1_K t = (if t < 20 then 0x5A827999 else if t < 40 then 0x6ED9EBA1
               else if t < 60 then 0x8F1BBCDC else 0xCA62C1D6)"

definition sha1_round :: "u32 list \<Rightarrow> nat \<Rightarrow> sha1_vars \<Rightarrow> sha1_vars" where
  "sha1_round w t s =
     (case s of (a, b, c, d, e) \<Rightarrow>
        (rol a 5 + sha1_f t b c d + e + w ! t + sha1_K t, a, rol b 30, c, d))"

definition sha1_compress :: "sha1_vars \<Rightarrow> u8 list \<Rightarrow> sha1_vars" where
  "sha1_compress state block =
     (let w = sha1_schedule 64 (map (\<lambda>i. be_word (drop (4 * i) block)) [0..<16])
      in case fold (sha1_round w) [0..<80] state of (a, b, c, d, e) \<Rightarrow>
         case state of (s0, s1, s2, s3, s4) \<Rightarrow> (s0 + a, s1 + b, s2 + c, s3 + d, s4 + e))"

section \<open>The unrolled transform is the textbook compression\<close>

lemma length_sha1_schedule: "length (sha1_schedule n w) = length w + n"
  by (induction n w rule: sha1_schedule.induct) (simp_all add: Let_def)

lemma sha1_schedule_prefix: "t < length w \<Longrightarrow> sha1_schedule n w ! t = w ! t"
  by (induction n w rule: sha1_schedule.induct) (simp_all add: Let_def nth_append)

lemma sha1_schedule_step:
  assumes "16 \<le> length w" "length w \<le> t" "t < length w + n"
  shows "sha1_schedule n w ! t =
     rol (sha1_schedule n w ! (t - 3) XOR sha1_schedule n w ! (t - 8) XOR
          sha1_schedule n w ! (t - 14) XOR sha1_schedule n w ! (t - 16)) 1"
  using assms
proof (induction n w rule: sha1_schedule.induct)
  case (2 n w)
  let ?w = "w @ [rol (w ! (length w - 3) XOR w ! (length w - 8) XOR w ! (length w - 14) XOR w ! (length w - 16)) 1]"
  show ?case
  proof (cases "t = length w")
    case True
    have "sha1_schedule n ?w ! u = ?w ! u" if "u \<le> length w" for u
      using that by (intro sha1_schedule_prefix) simp
    then show ?thesis using True 2(2) by (simp add: Let_def nth_append)
  next
    case False
    then show ?thesis using 2 by (simp add: Let_def)
  qed
qed simp

lemma length_words_of: "length bs = 4 * n \<Longrightarrow> length (words_of bs) = n"
proof (induction n arbitrary: bs)
  case (Suc n)
  then obtain b0 b1 b2 b3 cs where "bs = b0 # b1 # b2 # b3 # cs"
    by (auto simp: length_Suc_conv numeral_eq_Suc)
  then show ?case using Suc by simp
qed simp

lemma words_of_nth:
  "length bs = 4 * n \<Longrightarrow> i < n \<Longrightarrow>
     words_of bs ! i = le_word (bs ! (4 * i)) (bs ! (4 * i + 1)) (bs ! (4 * i + 2)) (bs ! (4 * i + 3))"
proof (induction n arbitrary: bs i)
  case (Suc n)
  then obtain b0 b1 b2 b3 cs where bs: "bs = b0 # b1 # b2 # b3 # cs"
    by (auto simp: length_Suc_conv numeral_eq_Suc)
  show ?case
  proof (cases i)
    case (Suc k)
    then show ?thesis using Suc.prems Suc.IH[of cs k] bs by (simp add: numeral_eq_Suc)
  qed (simp add: bs numeral_eq_Suc)
qed simp

lemma byte_swap:
  "(rol (le_word b0 b1 b2 b3) 24 AND 0xFF00FF00) OR (rol (le_word b0 b1 b2 b3) 8 AND 0x00FF00FF) =
     push_bit 24 (ucast b0) OR push_bit 16 (ucast b1) OR push_bit 8 (ucast b2) OR ucast b3"
proof (rule bit_word_eqI)
  have hi: "bit (0xFF00FF00 :: u32) i \<longleftrightarrow> (8 \<le> i \<and> i < 16) \<or> (24 \<le> i \<and> i < 32)" for i
  proof -
    have "(0xFF00FF00 :: u32) = push_bit 8 (mask 8) OR push_bit 24 (mask 8)" by code_simp
    then show ?thesis by (simp only: bit_or_iff bit_push_bit_iff bit_mask_iff possible_bit_word) auto
  qed
  have lo: "bit (0x00FF00FF :: u32) i \<longleftrightarrow> i < 8 \<or> (16 \<le> i \<and> i < 24)" for i
  proof -
    have "(0x00FF00FF :: u32) = mask 8 OR push_bit 16 (mask 8)" by code_simp
    then show ?thesis by (simp only: bit_or_iff bit_push_bit_iff bit_mask_iff possible_bit_word) auto
  qed
  fix i assume "i < LENGTH(32)"
  have range: "\<not> bit b j" if "8 \<le> j" for b :: u8 and j
    using that by (auto dest: bit_imp_le_length)
  consider "i < 8" | "8 \<le> i" "i < 16" | "16 \<le> i" "i < 24" | "24 \<le> i" "i < 32"
    using \<open>i < LENGTH(32)\<close> by fastforce
  then show "bit ((rol (le_word b0 b1 b2 b3) 24 AND 0xFF00FF00) OR (rol (le_word b0 b1 b2 b3) 8 AND 0x00FF00FF)) i =
      bit (push_bit 24 (ucast b0) OR push_bit 16 (ucast b1) OR push_bit 8 (ucast b2) OR ucast b3 :: u32) i"
    by cases (auto simp: bit_or_iff bit_and_iff hi lo rol_def le_word_def bit_push_bit_iff bit_drop_bit_eq
        bit_unsigned_iff range simp del: bit_numeral_word_iff)
qed

lemma blk0_be_word:
  assumes "length b = 64" "i < 16" "l ! i = words_of b ! i" "length l = 16"
  shows "blk0 l i = l[i := be_word (drop (4 * i) b)]"
  using assms byte_swap words_of_nth[of b 16 i]
  by (simp add: blk0_def be_word_def add.commute)

lemma sha1_choose: "(w AND (x XOR y)) XOR y = (w AND x) OR (NOT w AND y)" for w x y :: u32
  by (rule bit_word_eqI) (auto simp: bit_simps)

lemma sha1_majority: "((w OR x) AND y) OR (w AND x) = (w AND x) OR (w AND y) OR (x AND y)" for w x y :: u32
  by (rule bit_word_eqI) (auto simp: bit_simps)

lemma sha1_call_round:
  assumes "l' = (if i < 16 then blk0 l i else blk l i)" "l' ! (i mod 16) = w ! i"
  shows "sha1_call i (s, l) = (sha1_round w i s, l')"
proof (cases s)
  case (fields a b c d e)
  then show ?thesis
    using assms
    by (auto simp: sha1_call_def sha1_R0_def sha1_R1_def sha1_R2_def sha1_R3_def sha1_R4_def sha1_R_def
        sha1_round_def sha1_f_def sha1_K_def sha1_choose sha1_majority add_ac Let_def)
qed

text \<open>The ring of 16 words holds the last 16 words of the schedule.\<close>

lemma sha1_ring:
  assumes b: "length b = 64" and i: "i \<le> 80"
  defines "w \<equiv> sha1_schedule 64 (map (\<lambda>i. be_word (drop (4 * i) b)) [0..<16])"
  shows "\<exists>l. fold sha1_call [0..<i] (s, words_of b) = (fold (sha1_round w) [0..<i] s, l) \<and> length l = 16 \<and>
     (\<forall>t. t < i \<and> i \<le> t + 16 \<longrightarrow> l ! (t mod 16) = w ! t) \<and> (\<forall>k. i \<le> k \<and> k < 16 \<longrightarrow> l ! k = words_of b ! k)"
  using i
proof (induction i)
  case 0
  then show ?case using length_words_of[of b 16] b by simp
next
  case (Suc i)
  then obtain l where l: "fold sha1_call [0..<i] (s, words_of b) = (fold (sha1_round w) [0..<i] s, l)"
    "length l = 16" "\<And>t. t < i \<Longrightarrow> i \<le> t + 16 \<Longrightarrow> l ! (t mod 16) = w ! t"
    "\<And>k. i \<le> k \<Longrightarrow> k < 16 \<Longrightarrow> l ! k = words_of b ! k"
    by auto
  let ?m = "map (\<lambda>i. be_word (drop (4 * i) b)) [0..<16]"
  have wi: "(if i < 16 then blk0 l i else blk l i) = l[i mod 16 := w ! i]"
  proof (cases "i < 16")
    case True
    then have "w ! i = be_word (drop (4 * i) b)"
      unfolding w_def by (subst sha1_schedule_prefix) simp_all
    then show ?thesis using True blk0_be_word[OF b True _ l(2)] l(4) by simp
  next
    case False
    have ring: "l ! ((i + d) mod 16) = w ! (i - (16 - d))" if "d < 16" for d
    proof -
      have "(i - (16 - d)) mod 16 = (i - (16 - d) + 16) mod 16" by (rule mod_add_self2[symmetric])
      also have "i - (16 - d) + 16 = i + d" using False that by linarith
      finally have "(i - (16 - d)) mod 16 = (i + d) mod 16" .
      moreover have "l ! ((i - (16 - d)) mod 16) = w ! (i - (16 - d))"
        by (rule l(3)) (use False that in linarith)+
      ultimately show ?thesis by (simp only:)
    qed
    have "w ! i = rol (w ! (i - 3) XOR w ! (i - 8) XOR w ! (i - 14) XOR w ! (i - 16)) 1"
      unfolding w_def by (rule sha1_schedule_step) (use False Suc.prems in simp_all)
    then show ?thesis
      using False ring[of 13] ring[of 8] ring[of 2] ring[of 0] by (simp add: blk_def)
  qed
  have "sha1_call i (fold (sha1_round w) [0..<i] s, l) = (sha1_round w i (fold (sha1_round w) [0..<i] s), l[i mod 16 := w ! i])"
    by (rule sha1_call_round) (use wi l(2) in simp_all)
  moreover have "l[i mod 16 := w ! i] ! (t mod 16) = w ! t" if "t < Suc i" "Suc i \<le> t + 16" for t
  proof (cases "t = i")
    case True
    then show ?thesis using l(2) by simp
  next
    case False
    then have "t mod 16 \<noteq> i mod 16"
    proof -
      have "\<not> 16 dvd i - t" using False that by (auto dest: dvd_imp_le)
      then show ?thesis using that mod_eq_dvd_iff_nat[of t i 16] by auto
    qed
    then show ?thesis using False that l(3)[of t] by simp
  qed
  ultimately show ?case
    using l(1,2,4) by (intro exI[of _ "l[i mod 16 := w ! i]"]) auto
qed

lemma SHA1_Transform_compress:
  assumes "length b = 64"
  shows "fst (SHA1_Transform s b) = sha1_compress s b" "length (snd (SHA1_Transform s b)) = 64"
proof -
  let ?w = "sha1_schedule 64 (map (\<lambda>i. be_word (drop (4 * i) b)) [0..<16])"
  obtain l where l: "fold sha1_call [0..<80] (s, words_of b) = (fold (sha1_round ?w) [0..<80] s, l)" "length l = 16"
    using sha1_ring[OF assms, of 80 s] by auto
  obtain a b' c d e where f: "fold (sha1_round ?w) [0..<80] s = (a, b', c, d, e)" by (metis prod_cases5)
  have bytes: "length (bytes_of l) = 4 * length l" for l
    by (induction l) (simp_all add: bytes_of_def)
  obtain s0 s1 s2 s3 s4 where s: "s = (s0, s1, s2, s3, s4)" by (metis prod_cases5)
  show "fst (SHA1_Transform s b) = sha1_compress s b"
    using l(1) f unfolding SHA1_Transform_def sha1_compress_def Let_def s by simp
  show "length (snd (SHA1_Transform s b)) = 64"
    using l f bytes[of l] unfolding SHA1_Transform_def s by simp
qed

section \<open>Streaming\<close>

fun sha1_absorb :: "sha1_vars \<Rightarrow> u8 list \<Rightarrow> sha1_vars" where
  "sha1_absorb s m = (if length m < 64 then s else sha1_absorb (sha1_compress s (take 64 m)) (drop 64 m))"

declare sha1_absorb.simps [simp del] sha1_update_loop.simps [simp del]

definition sha1_rest :: "u8 list \<Rightarrow> u8 list" where
  "sha1_rest m = drop (64 * (length m div 64)) m"

definition sha1_iv :: sha1_vars where
  "sha1_iv = (0x67452301, 0xEFCDAB89, 0x98BADCFE, 0x10325476, 0xC3D2E1F0)"

lemma length_sha1_rest: "length (sha1_rest m) = length m mod 64"
  by (simp add: sha1_rest_def minus_mult_div_eq_mod)

lemma sha1_rest_short: "length m < 64 \<Longrightarrow> sha1_rest m = m"
  by (simp add: sha1_rest_def)

lemma sha1_rest_drop: "64 \<le> length m \<Longrightarrow> sha1_rest (drop 64 m) = sha1_rest m"
  by (simp add: sha1_rest_def le_div_geq add.commute)

lemma sha1_absorb_append:
  "sha1_absorb s (m @ d) = sha1_absorb (sha1_absorb s m) (sha1_rest m @ d) \<and>
   sha1_rest (m @ d) = sha1_rest (sha1_rest m @ d)"
proof (induction s m rule: sha1_absorb.induct)
  case (1 s m)
  show ?case
  proof (cases "length m < 64")
    case True
    then show ?thesis by (simp add: sha1_rest_short sha1_absorb.simps[of s m])
  next
    case False
    then have "sha1_absorb s (m @ d) = sha1_absorb (sha1_compress s (take 64 m)) (drop 64 m @ d)"
      "sha1_rest (m @ d) = sha1_rest (drop 64 m @ d)"
      using sha1_rest_drop[of "m @ d"] by (simp_all add: sha1_absorb.simps[of s "m @ d"])
    then show ?thesis
      using 1[OF False] False sha1_rest_drop[of m] by (simp add: sha1_absorb.simps[of s m])
  qed
qed

lemma sha1_index:
  "j + n < 2 ^ 32 \<Longrightarrow> (63 < (of_nat j + of_nat n :: u32)) = (63 < j + n)"
  "i + 63 < 2 ^ 32 \<Longrightarrow> n < 2 ^ 32 \<Longrightarrow> ((of_nat i + 63 :: u32) < of_nat n) = (i + 63 < n)"
proof -
  assume "j + n < 2 ^ 32"
  then have "unat (of_nat (j + n) :: u32) = j + n"
    by (simp add: unat_of_nat take_bit_nat_eq_self del: of_nat_add)
  then show "(63 < (of_nat j + of_nat n :: u32)) = (63 < j + n)"
    by (simp add: word_less_nat_alt)
next
  assume "i + 63 < 2 ^ 32" "n < 2 ^ 32"
  then have "unat (of_nat (i + 63) :: u32) = i + 63" "unat (of_nat n :: u32) = n"
    by (simp_all add: unat_of_nat take_bit_nat_eq_self del: of_nat_add)
  then show "((of_nat i + 63 :: u32) < of_nat n) = (i + 63 < n)"
    by (simp add: word_less_nat_alt)
qed

lemma sha1_update_loop_absorb:
  "length data + 64 \<le> 2 ^ 32 \<Longrightarrow> i \<le> length data \<Longrightarrow>
     \<exists>i'. sha1_update_loop data i s = Some (i', sha1_absorb s (drop i data)) \<and>
       drop i' data = sha1_rest (drop i data) \<and> i' \<le> length data"
proof (induction data i s rule: sha1_update_loop.induct)
  case (1 data i s)
  have test: "((of_nat i + 63 :: u32) < of_nat (length data)) = (i + 63 < length data)"
    using 1(2,3) by (intro sha1_index(2)) simp_all
  show ?case
  proof (cases "i + 63 < length data")
    case True
    let ?b = "take 64 (drop i data)"
    let ?s = "fst (SHA1_Transform s ?b)"
    have rd: "rd_block data i 64 = Some ?b" using True by (simp add: rd_block_in)
    have "?s = sha1_compress s ?b"
      using True by (intro SHA1_Transform_compress(1)) simp
    moreover have "\<not> length (drop i data) < 64" using True by simp
    ultimately have "sha1_absorb s (drop i data) = sha1_absorb ?s (drop (i + 64) data)"
      using sha1_absorb.simps[of s "drop i data"] by (simp only: if_False drop_drop add.commute)
    moreover have "sha1_rest (drop (i + 64) data) = sha1_rest (drop i data)"
      using True sha1_rest_drop[of "drop i data"] by (simp add: add.commute)
    ultimately show ?thesis
      using 1(1)[OF _ rd 1(2)] True by (simp add: sha1_update_loop.simps[of data i s] test rd)
  next
    case False
    then have "length (drop i data) < 64" by simp
    then show ?thesis
      using False 1(3) sha1_absorb.simps[of s "drop i data"]
      by (simp add: sha1_update_loop.simps[of data i s] sha1_rest_short test)
  qed
qed

text \<open>The context after a message.\<close>

definition sha1_inv :: "u8 list \<Rightarrow> SHA_CTX \<Rightarrow> bool" where
  "sha1_inv m c \<longleftrightarrow>
     sha_state c = sha1_absorb sha1_iv m \<and> length (sha_buffer c) = 64 \<and>
     take (length m mod 64) (sha_buffer c) = sha1_rest m \<and>
     (unat (sha_count0 c) + 2 ^ 32 * unat (sha_count1 c)) mod 2 ^ 64 = (8 * length m) mod 2 ^ 64"

lemma sha1_inv_count0:
  assumes "sha1_inv m c"
  shows "unat (sha_count0 c) = (8 * length m) mod 2 ^ 32"
proof -
  have "unat (sha_count0 c) mod 2 ^ 32 = (unat (sha_count0 c) + 2 ^ 32 * unat (sha_count1 c)) mod 2 ^ 64 mod 2 ^ 32"
    by (simp add: mod_mod_cancel)
  also have "\<dots> = (8 * length m) mod 2 ^ 32"
    using assms by (simp add: sha1_inv_def mod_mod_cancel)
  finally show ?thesis
    using unsigned_less[of "sha_count0 c", where ?'a = nat] by simp
qed

lemma sha1_fill:
  assumes "sha1_inv m c"
  shows "unat (drop_bit 3 (sha_count0 c) AND 63) = length m mod 64"
proof -
  have "unat (drop_bit 3 (sha_count0 c) AND 63) = (unat (sha_count0 c) div 8) mod 64"
  proof -
    have "(63 :: u32) = mask 6" by code_simp
    then have "drop_bit 3 (sha_count0 c) AND 63 = take_bit 6 (drop_bit 3 (sha_count0 c))"
      by (simp only: take_bit_eq_mask)
    then show ?thesis
      by (simp only: unsigned_take_bit_eq unat_drop_bit) (simp add: take_bit_eq_mod)
  qed
  also have "\<dots> = length m mod 64"
  proof -
    have "8 * length m mod 2 ^ 32 = 8 * (length m mod 2 ^ 29)" by (simp add: mult_mod_right)
    then have "unat (sha_count0 c) div 8 = length m mod 2 ^ 29" by (simp add: sha1_inv_count0[OF assms])
    then show ?thesis by (simp add: mod_mod_cancel)
  qed
  finally show ?thesis .
qed

lemma sha1_count_add:
  assumes "sha1_inv m c" "len < 2 ^ 32"
  defines "count0 \<equiv> sha_count0 c + push_bit 3 (of_nat len)"
  shows "(unat count0 + 2 ^ 32 * unat ((if count0 < push_bit 3 (of_nat len) then sha_count1 c + 1
       else sha_count1 c) + drop_bit 29 (of_nat len))) mod 2 ^ 64 = (8 * (length m + len)) mod 2 ^ 64"
proof -
  let ?a = "unat (sha_count0 c)" and ?b = "unat (sha_count1 c)"
  let ?low = "(8 * len) mod 2 ^ 32" and ?high = "len div 2 ^ 29"
  have len: "unat (of_nat len :: u32) = len" using assms(2) by (simp add: unat_of_nat)
  have low: "unat (push_bit 3 (of_nat len) :: u32) = ?low"
    by (simp add: push_bit_eq_mult unat_word_ariths len mult.commute mod_mult_right_eq)
  have high: "unat (drop_bit 29 (of_nat len) :: u32) = ?high" by (simp only: unat_drop_bit len)
  have split: "8 * len = ?low + 2 ^ 32 * ?high"
    using mod_mult_div_eq[of "8 * len" "2 ^ 32"] by (simp add: div_mult2_eq)
  have a: "?a < 2 ^ 32" using unsigned_less[of "sha_count0 c", where ?'a = nat] by simp
  have c0: "unat count0 = (?a + ?low) mod 2 ^ 32"
    by (simp add: count0_def unat_word_ariths low)
  have carry: "count0 < push_bit 3 (of_nat len) \<longleftrightarrow> 2 ^ 32 \<le> ?a + ?low"
    unfolding word_less_nat_alt c0 low using a mod_less_divisor[of "2 ^ 32" "8 * len"]
    by (cases "2 ^ 32 \<le> ?a + ?low") (simp_all add: le_mod_geq)
  have sum: "unat count0 + 2 ^ 32 * (if 2 ^ 32 \<le> ?a + ?low then 1 else 0) = ?a + ?low"
    unfolding c0 using a mod_less_divisor[of "2 ^ 32" "8 * len"] by (auto simp: le_mod_geq)
  have "2 ^ 32 * unat ((if count0 < push_bit 3 (of_nat len) then sha_count1 c + 1 else sha_count1 c) + drop_bit 29 (of_nat len))
      mod 2 ^ 64 = 2 ^ 32 * (?b + (if 2 ^ 32 \<le> ?a + ?low then 1 else 0) + ?high) mod 2 ^ 64"
  proof -
    have "unat ((if count0 < push_bit 3 (of_nat len) then sha_count1 c + 1 else sha_count1 c) + drop_bit 29 (of_nat len))
       = (?b + (if 2 ^ 32 \<le> ?a + ?low then 1 else 0) + ?high) mod 2 ^ 32"
      unfolding carry by (simp add: unat_word_ariths high mod_add_left_eq)
    then show ?thesis
      using mult_mod_right[of "2 ^ 32" "?b + (if 2 ^ 32 \<le> ?a + ?low then 1 else 0) + ?high" "2 ^ 32 :: nat"]
      by simp
  qed
  then have "(unat count0 + 2 ^ 32 * unat ((if count0 < push_bit 3 (of_nat len) then sha_count1 c + 1
       else sha_count1 c) + drop_bit 29 (of_nat len))) mod 2 ^ 64 =
      (unat count0 + 2 ^ 32 * (?b + (if 2 ^ 32 \<le> ?a + ?low then 1 else 0) + ?high)) mod 2 ^ 64"
    by (rule mod_add_cong[OF refl])
  also have "unat count0 + 2 ^ 32 * (?b + (if 2 ^ 32 \<le> ?a + ?low then 1 else 0) + ?high) =
      (?a + 2 ^ 32 * ?b) + 8 * len"
    using sum split by (simp add: algebra_simps)
  also have "((?a + 2 ^ 32 * ?b) + 8 * len) mod 2 ^ 64 = (8 * length m + 8 * len) mod 2 ^ 64"
    using assms(1) unfolding sha1_inv_def by (intro mod_add_cong) simp_all
  finally show ?thesis by (simp add: algebra_simps)
qed

lemma SHA1_Update_inv:
  assumes inv: "sha1_inv m c" and len: "length data + 64 \<le> 2 ^ 32"
  shows "\<exists>c'. SHA1_Update c data = Some c' \<and> sha1_inv (m @ data) c'"
proof -
  let ?len = "length data" and ?j = "length m mod 64"
  define count0 where "count0 = sha_count0 c + push_bit 3 (of_nat ?len)"
  define count1 where "count1 = (if count0 < push_bit 3 (of_nat ?len) then sha_count1 c + 1 else sha_count1 c)
     + drop_bit 29 (of_nat ?len)"
  have count: "(unat count0 + 2 ^ 32 * unat count1) mod 2 ^ 64 = (8 * length (m @ data)) mod 2 ^ 64"
    using sha1_count_add[OF inv, of ?len] len by (simp add: count0_def count1_def)
  note j = sha1_fill[OF inv]
  have buf: "length (sha_buffer c) = 64" "take ?j (sha_buffer c) = sha1_rest m"
    "sha_state c = sha1_absorb sha1_iv m"
    using inv by (simp_all add: sha1_inv_def)
  note app = sha1_absorb_append[of sha1_iv m data]
  have restlen: "length (sha1_rest m) = ?j" by (rule length_sha1_rest)
  have test: "(63 < (of_nat ?j + of_nat ?len :: u32)) = (63 < ?j + ?len)"
  proof (rule sha1_index(1))
    have "?j < 64" by simp
    then show "?j + ?len < 2 ^ 32" using len by linarith
  qed
  show ?thesis
  proof (cases "?j + ?len > 63")
    case False
    let ?b = "sha1_rest m @ data @ drop (?j + ?len) (sha_buffer c)"
    have "wr_block (sha_buffer c) ?j data = Some ?b"
      using False buf by (simp add: wr_block_def)
    then have "SHA1_Update c data = Some (c\<lparr>sha_count0 := count0, sha_count1 := count1, sha_buffer := ?b\<rparr>)"
      using False by (simp add: SHA1_Update_def Let_def j test count0_def count1_def)
    moreover have "sha1_absorb sha1_iv (m @ data) = sha_state c" "sha1_rest (m @ data) = sha1_rest m @ data"
      using app False restlen buf(3) by (simp_all add: sha1_absorb.simps[of _ "sha1_rest m @ data"] sha1_rest_short)
    moreover have "length (m @ data) mod 64 = ?j + ?len"
      using False by (simp add: mod_add_left_eq[symmetric, of "length m"])
    ultimately show ?thesis
      using count buf restlen False by (simp add: sha1_inv_def)
  next
    case True
    let ?i = "64 - ?j"
    let ?block = "sha1_rest m @ take ?i data"
    have jlt: "?j < 64" by simp
    have il: "?i \<le> ?len" using True by linarith
    have li: "length (take ?i data) = ?i" using True by simp
    have blen: "length ?block = 64" using li restlen jlt by simp
    have wr1: "wr_block (sha_buffer c) ?j (take ?i data) = Some ?block"
      using buf li jlt by (simp add: wr_block_def)
    obtain st bb where tr: "SHA1_Transform (sha_state c) ?block = (st, bb)" by (meson surj_pair)
    then have st: "st = sha1_compress (sha_state c) ?block" "length bb = 64"
      using SHA1_Transform_compress[OF blen, of "sha_state c"] by simp_all
    obtain i' where i': "sha1_update_loop data ?i st = Some (i', sha1_absorb st (drop ?i data))"
      "drop i' data = sha1_rest (drop ?i data)" "i' \<le> ?len"
      using sha1_update_loop_absorb[OF len il, of st] by blast
    have rl: "length (drop i' data) < 64" unfolding i'(2) length_sha1_rest by simp
    let ?b = "drop i' data @ drop (length (drop i' data)) bb"
    have wr2: "wr_block bb 0 (drop i' data) = Some ?b"
      using rl st(2) by (simp add: wr_block_def)
    have "SHA1_Update c data = Some (c\<lparr>sha_count0 := count0, sha_count1 := count1,
        sha_state := sha1_absorb st (drop ?i data), sha_buffer := ?b\<rparr>)"
      using True by (simp add: SHA1_Update_def Let_def j test wr1 tr i'(1) wr2 count0_def count1_def del: drop_drop)
    moreover have "sha1_absorb sha1_iv (m @ data) = sha1_absorb st (drop ?i data)"
      using app True restlen buf(3) st(1) by (simp add: sha1_absorb.simps[of _ "sha1_rest m @ data"])
    moreover have rest: "sha1_rest (m @ data) = drop i' data"
      using app True restlen sha1_rest_drop[of "sha1_rest m @ data"] i'(2) by simp
    moreover have "length (m @ data) mod 64 = length (drop i' data)"
      by (metis length_sha1_rest rest)
    ultimately show ?thesis
      using count rl st(2) by (simp add: sha1_inv_def)
  qed
qed

section \<open>The digest\<close>

definition be_bytes64 :: "nat \<Rightarrow> u8 list" where
  "be_bytes64 n = map (\<lambda>i. of_nat (n div 2 ^ (8 * (7 - i)))) [0..<8]"

definition sha1_pad :: "u8 list \<Rightarrow> u8 list" where
  "sha1_pad m = m @ [0x80] @ replicate ((119 - length m mod 64) mod 64) 0 @ be_bytes64 (8 * length m mod 2 ^ 64)"

definition sha1 :: "u8 list \<Rightarrow> u8 list" where
  "sha1 m = sha1_digest (sha1_absorb sha1_iv (sha1_pad m))"

lemma sha1_pad_blocks: "length (sha1_pad m) mod 64 = 0"
proof -
  define q r where "q = length m div 64" and "r = length m mod 64"
  have m: "length m = 64 * q + r" "r < 64" by (simp_all add: q_def r_def)
  have "length (sha1_pad m) = 64 * q + r + 1 + (119 - r) mod 64 + 8"
    using m by (simp add: sha1_pad_def be_bytes64_def)
  also have "\<dots> = 64 * (q + (if r \<le> 55 then 1 else 2))"
  proof (cases "r \<le> 55")
    case True
    then have "(119 - r) mod 64 = 55 - r" by (simp add: le_mod_geq)
    then show ?thesis using True by simp
  next
    case False
    then show ?thesis using m(2) by simp
  qed
  finally show ?thesis by (simp del: mult_Suc_right)
qed

lemma sha1_finalcount_bytes:
  assumes "sha1_inv m c" shows "sha1_finalcount c = be_bytes64 (8 * length m mod 2 ^ 64)"
proof -
  let ?n = "8 * length m mod 2 ^ 64" and ?a = "unat (sha_count0 c)" and ?b = "unat (sha_count1 c)"
  have a: "?a < 2 ^ 32" "?b < 2 ^ 32"
    using unsigned_less[of "sha_count0 c", where ?'a = nat] unsigned_less[of "sha_count1 c", where ?'a = nat] by simp_all
  then have n: "?n = ?a + 2 ^ 32 * ?b" using assms by (simp add: sha1_inv_def)
  have byte: "(ucast (drop_bit k w AND 255) :: u8) = of_nat (unat w div 2 ^ k)" for k and w :: u32
  proof -
    have "(ucast (drop_bit k w AND 255) :: u8) = ucast (drop_bit k w)"
    proof -
      have "(255 :: u32) = mask 8" by code_simp
      then have "bit (255 :: u32) i \<longleftrightarrow> i < 8" for i by (simp only: bit_mask_iff possible_bit_word) auto
      then show ?thesis by (intro bit_word_eqI) (auto simp: bit_simps simp del: bit_numeral_word_iff)
    qed
    also have "\<dots> = of_nat (unat (drop_bit k w))" by (simp only: of_nat_unat)
    finally show ?thesis by (simp only: unat_drop_bit)
  qed
  have hi: "of_nat (?n div 2 ^ (32 + k)) = (of_nat (?b div 2 ^ k) :: u8)" for k
  proof -
    have "?n div 2 ^ (32 + k) = ?n div 2 ^ 32 div 2 ^ k" by (simp add: power_add div_mult2_eq)
    also have "?n div 2 ^ 32 = ?b" using a unfolding n by simp
    finally show ?thesis by simp
  qed
  have lo: "of_nat (?n div 2 ^ k) = (of_nat (?a div 2 ^ k) :: u8)" if "k \<le> 24" for k
  proof -
    have "?n = ?a + 2 ^ k * (2 ^ (32 - k) * ?b)" unfolding n using that by (simp add: power_add[symmetric])
    then have q: "?n div 2 ^ k = ?a div 2 ^ k + 2 ^ (32 - k) * ?b" by simp
    have "32 - k = 8 + (24 - k)" using that by simp
    then have "(2 ^ (32 - k) :: u8) = 2 ^ 8 * 2 ^ (24 - k)" by (simp only: power_add)
    moreover have "(2 ^ 8 :: u8) = 0" by code_simp
    ultimately have z: "(2 ^ (32 - k) :: u8) = 0" by (simp only: mult_zero_left)
    have "of_nat (?n div 2 ^ k) = (of_nat (?a div 2 ^ k) + 2 ^ (32 - k) * of_nat ?b :: u8)"
      unfolding q by simp
    then show ?thesis unfolding z by simp
  qed
  show ?thesis
    using hi[of 24] hi[of 16] hi[of 8] hi[of 0] lo[of 24] lo[of 16] lo[of 8] lo[of 0]
    by (simp add: sha1_finalcount_def be_bytes64_def byte upt_rec)
qed

lemma unat_448: "unat (448 :: u32) = 448"
  by simp

lemma sha1_final_cond:
  assumes "sha1_inv m c" shows "sha_count0 c AND 504 = 448 \<longleftrightarrow> length m mod 64 = 56"
proof -
  have m: "bit (504 :: u32) i \<longleftrightarrow> 3 \<le> i \<and> i < 9" "bit (63 :: u32) i \<longleftrightarrow> i < 6" for i
  proof -
    have "(504 :: u32) = push_bit 3 (mask 6)" "(63 :: u32) = mask 6" by code_simp+
    then show "bit (504 :: u32) i \<longleftrightarrow> 3 \<le> i \<and> i < 9" "bit (63 :: u32) i \<longleftrightarrow> i < 6"
      by (simp_all only: bit_push_bit_iff bit_mask_iff possible_bit_word) auto
  qed
  have "sha_count0 c AND 504 = push_bit 3 (drop_bit 3 (sha_count0 c) AND 63)"
    by (rule bit_word_eqI) (auto simp: bit_simps m simp del: bit_numeral_word_iff)
  moreover have "drop_bit 3 (sha_count0 c) AND 63 = of_nat (length m mod 64)"
    using sha1_fill[OF assms] by (metis of_nat_unat ucast_id)
  ultimately have "sha_count0 c AND 504 = of_nat (8 * (length m mod 64))"
    by (simp add: push_bit_eq_mult mult.commute)
  moreover have "of_nat (8 * (length m mod 64)) = (448 :: u32) \<longleftrightarrow> 8 * (length m mod 64) = 448"
  proof -
    have "8 * (length m mod 64) < 2 ^ 32" using mod_less_divisor[of 64 "length m"] by simp
    then have "unat (of_nat (8 * (length m mod 64)) :: u32) = 8 * (length m mod 64)"
      by (simp only: unat_of_nat) simp
    note u = this
    show ?thesis
    proof
      assume e: "of_nat (8 * (length m mod 64)) = (448 :: u32)"
      have "8 * (length m mod 64) = unat (of_nat (8 * (length m mod 64)) :: u32)" by (simp only: u)
      also have "\<dots> = 448" unfolding e by (rule unat_448)
      finally show "8 * (length m mod 64) = 448" .
    next
      assume e: "8 * (length m mod 64) = 448"
      show "of_nat (8 * (length m mod 64)) = (448 :: u32)" unfolding e by simp
    qed
  qed
  ultimately show ?thesis by simp
qed

lemma sha1_final_pad_inv:
  "sha1_inv m c \<Longrightarrow>
     \<exists>c'. sha1_final_pad c = Some c' \<and> sha1_inv (m @ replicate ((120 - length m mod 64) mod 64) 0) c'"
proof (induction "(120 - length m mod 64) mod 64" arbitrary: m c)
  case 0
  define r where "r = length m mod 64"
  have "r < 64" "(120 - r) mod 64 = 0" using 0 by (simp_all add: r_def)
  then have "r = 56" by presburger
  then have "sha_count0 c AND 504 = 448" using sha1_final_cond[OF 0(2)] by (simp add: r_def)
  then have "sha1_final_pad c = Some c" by (subst sha1_final_pad.simps) simp
  then show ?case using 0 by simp
next
  case (Suc n)
  define r where "r = length m mod 64"
  have r: "r < 64" "Suc n = (120 - r) mod 64" using Suc(2) by (simp_all add: r_def)
  then have ne: "r \<noteq> 56" by auto
  then have cond: "sha_count0 c AND 504 \<noteq> 448" using sha1_final_cond[OF Suc(3)] by (simp add: r_def)
  obtain c1 where c1: "SHA1_Update c [0] = Some c1" "sha1_inv (m @ [0]) c1"
    using SHA1_Update_inv[OF Suc(3), of "[0]"] by auto
  have "length (m @ [0]) mod 64 = (if r = 63 then 0 else r + 1)"
    using r(1) by (simp add: r_def mod_Suc)
  then have n: "n = (120 - length (m @ [0]) mod 64) mod 64"
  proof (cases "r = 63")
    case True
    then show ?thesis using r(2) \<open>length (m @ [0]) mod 64 = _\<close> by simp
  next
    case False
    have "n = (119 - r) mod 64"
    proof (cases "r < 56")
      case True
      then have "(120 - r) mod 64 = 56 - r" "(119 - r) mod 64 = 55 - r" by (simp_all add: le_mod_geq)
      then show ?thesis using r(2) True by simp
    next
      case False
      then have "(120 - r) mod 64 = 120 - r" "(119 - r) mod 64 = 119 - r" using r(1) ne by simp_all
      then show ?thesis using r by simp
    qed
    then show ?thesis using False \<open>length (m @ [0]) mod 64 = _\<close> by simp
  qed
  from Suc(1)[OF n c1(2)] obtain c2 where c2: "sha1_final_pad c1 = Some c2"
    "sha1_inv ((m @ [0]) @ replicate n 0) c2" unfolding n[symmetric] by auto
  have "sha1_final_pad c = Some c2"
    using c1(1) c2(1) cond by (subst sha1_final_pad.simps) simp
  moreover have "(m @ [0]) @ replicate n 0 = m @ replicate ((120 - length m mod 64) mod 64) 0"
    unfolding Suc(2)[symmetric] by simp
  ultimately show ?case using c2(2) by (simp only:) auto
qed

lemma SHA1_Final_inv:
  assumes "sha1_inv m c" shows "\<exists>c'. SHA1_Final c = Some (sha1 m, c')"
proof -
  obtain c1 where c1: "SHA1_Update c [0x80] = Some c1" "sha1_inv (m @ [0x80]) c1"
    using SHA1_Update_inv[OF assms, of "[0x80]"] by auto
  let ?z = "(120 - length (m @ [0x80]) mod 64) mod 64"
  obtain c2 where c2: "sha1_final_pad c1 = Some c2" "sha1_inv ((m @ [0x80]) @ replicate ?z 0) c2"
    using sha1_final_pad_inv[OF c1(2)] by blast
  have z: "?z = (119 - length m mod 64) mod 64"
  proof -
    define r where "r = length m mod 64"
    have l: "length (m @ [0x80]) mod 64 = (if r = 63 then 0 else r + 1)" "r < 64"
      by (simp_all add: r_def mod_Suc)
    show ?thesis unfolding l(1) r_def[symmetric] by simp
  qed
  obtain c3 where c3: "SHA1_Update c2 (sha1_finalcount c) = Some c3"
    "sha1_inv (((m @ [0x80]) @ replicate ?z 0) @ sha1_finalcount c) c3"
    using SHA1_Update_inv[OF c2(2), of "sha1_finalcount c"] by (auto simp: sha1_finalcount_def)
  have "((m @ [0x80]) @ replicate ?z 0) @ sha1_finalcount c = sha1_pad m"
    by (simp only: sha1_pad_def z sha1_finalcount_bytes[OF assms] append_assoc)
  then have "sha_state c3 = sha1_absorb sha1_iv (sha1_pad m)" using c3(2) by (simp add: sha1_inv_def)
  then show ?thesis using c1(1) c2(1) c3(1) by (simp add: SHA1_Final_def sha1_def Let_def)
qed

lemma SHA1_Init_inv: "length (sha_buffer c) = 64 \<Longrightarrow> sha1_inv [] (SHA1_Init c)"
  by (simp add: sha1_inv_def SHA1_Init_def sha1_iv_def sha1_absorb.simps[of _ "[]"] sha1_rest_def)

section \<open>The hash interface\<close>

text \<open>What a client of a hash relies on: started, fed with a message in any pieces and finished, it
  returns the hash of the message.\<close>

locale incremental_hash =
  fixes init :: "'c \<Rightarrow> 'c" and update :: "'c \<Rightarrow> u8 list \<Rightarrow> 'c option"
    and final :: "'c \<Rightarrow> (u8 list \<times> 'c) option"
    and hash :: "u8 list \<Rightarrow> u8 list" and valid :: "'c \<Rightarrow> bool" and absorbed :: "u8 list \<Rightarrow> 'c \<Rightarrow> bool"
  assumes init: "valid c \<Longrightarrow> absorbed [] (init c)"
    and update: "absorbed m c \<Longrightarrow> length d + 64 \<le> 2 ^ 32 \<Longrightarrow> \<exists>c'. update c d = Some c' \<and> absorbed (m @ d) c'"
    and final: "absorbed m c \<Longrightarrow> \<exists>c'. final c = Some (hash m, c')"
begin

fun feed :: "'c \<Rightarrow> u8 list list \<Rightarrow> 'c option" where
  "feed c [] = Some c"
| "feed c (d # ds) = do { c \<leftarrow> update c d; feed c ds }"

lemma feed_absorbed:
  "absorbed m c \<Longrightarrow> \<forall>d \<in> set ds. length d + 64 \<le> 2 ^ 32 \<Longrightarrow>
     \<exists>c'. feed c ds = Some c' \<and> absorbed (m @ concat ds) c'"
proof (induction ds arbitrary: m c)
  case (Cons d ds)
  obtain c1 where "update c d = Some c1" "absorbed (m @ d) c1"
    using update[OF Cons.prems(1)] Cons.prems(2) by auto
  then show ?case using Cons.IH[of "m @ d" c1] Cons.prems(2) by simp
qed simp

lemma hash_of_pieces:
  assumes "valid c" "\<forall>d \<in> set ds. length d + 64 \<le> 2 ^ 32"
  shows "\<exists>c1 c2. feed (init c) ds = Some c1 \<and> final c1 = Some (hash (concat ds), c2)"
  using feed_absorbed[OF init[OF assms(1)] assms(2)] final by fastforce

end

interpretation sha1_hash: incremental_hash SHA1_Init SHA1_Update SHA1_Final sha1 "\<lambda>c. length (sha_buffer c) = 64" sha1_inv
  by unfold_locales (use SHA1_Init_inv SHA1_Update_inv SHA1_Final_inv in blast)+

section \<open>Properties\<close>

fun sha1_feed :: "SHA_CTX \<Rightarrow> u8 list list \<Rightarrow> SHA_CTX option" where
  "sha1_feed c [] = Some c"
| "sha1_feed c (d # ds) = do { c \<leftarrow> SHA1_Update c d; sha1_feed c ds }"

lemma sha1_feed_eq: "sha1_feed = sha1_hash.feed"
proof -
  have "sha1_feed c ds = sha1_hash.feed c ds" for c ds
    by (induction ds arbitrary: c) simp_all
  then show ?thesis by blast
qed

text \<open>C9: the block transform, which keeps only 16 words of the schedule and rotates variable names
  instead of values, computes the compression function of SHA-1 with the full schedule of 80 words.\<close>

theorem SHA1_Transform_correct:
  assumes "length b = 64"
  shows "fst (SHA1_Transform s b) = sha1_compress s b"
  by (rule SHA1_Transform_compress(1)[OF assms])

theorem SHA1_Transform_correct_witness:
  "fst (SHA1_Transform sha1_iv (replicate 64 7)) = sha1_compress sha1_iv (replicate 64 7)"
  by (rule SHA1_Transform_correct) simp

text \<open>C10: hashing a message in arbitrary pieces gives the hash of the message: initialise, any number
  of updates of any lengths (up to \<open>2 ^ 32 - 64\<close> bytes each, beyond which the index arithmetic of the
  code wraps), and finalise return, never write outside the context's buffer, end
  their padding loop, and yield SHA-1 of the concatenation, padded with 0x80, zeros and the bit
  length modulo \<open>2 ^ 64\<close> in big endian order.\<close>

theorem SHA1_of_pieces:
  assumes "length (sha_buffer c) = 64" "\<forall>d \<in> set ds. length d + 64 \<le> 2 ^ 32"
  shows "\<exists>c1 c2. sha1_feed (SHA1_Init c) ds = Some c1 \<and> SHA1_Final c1 = Some (sha1 (concat ds), c2)"
  unfolding sha1_feed_eq by (rule sha1_hash.hash_of_pieces[OF assms])

theorem SHA1_of_pieces_witness:
  "\<exists>c1 c2. sha1_feed (SHA1_Init \<lparr>sha_state = (0, 0, 0, 0, 0), sha_count0 = 1, sha_count1 = 2, sha_buffer = replicate 64 3\<rparr>)
      [replicate 100 1, [], [2, 3]] = Some c1 \<and> SHA1_Final c1 = Some (sha1 (replicate 100 1 @ [2, 3]), c2)"
  using SHA1_of_pieces[of "\<lparr>sha_state = (0, 0, 0, 0, 0), sha_count0 = 1, sha_count1 = 2, sha_buffer = replicate 64 3\<rparr>"
      "[replicate 100 1, [], [2, 3]]"]
  by simp

end
