(* ===== verification/FD_Aes.thy ===== *)
theory FD_Aes imports FD_Prelude begin

text \<open>
  \<open>subsys/crypto/src/fd_crypto_aes.c\<close>: AES-128 in CBC mode, as the boot loader uses it to decrypt
  an update.

  The file's global variables \<open>Key\<close>, \<open>RoundKey\<close> and \<open>Iv\<close> are the record \<open>aes_t\<close>. The state matrix
  \<open>(*state)[i][j]\<close> is the byte \<open>4 * i + j\<close> of a block of 16 bytes (column \<open>i\<close>, row \<open>j\<close>). A key or
  an initialisation vector passed as a null pointer is \<open>None\<close>. \<open>Multiply\<close> is the macro variant
  (\<open>MULTIPLY_AS_A_FUNCTION\<close> is 0), and the mode is CBC (\<open>ECB\<close> is not defined). Input and output
  buffers are distinct objects, as in the boot loader.
\<close>

section \<open>The tables\<close>

definition sbox :: "u8 list" where
  "sbox = [
    0x63, 0x7c, 0x77, 0x7b, 0xf2, 0x6b, 0x6f, 0xc5, 0x30, 0x01, 0x67, 0x2b, 0xfe, 0xd7, 0xab, 0x76,
    0xca, 0x82, 0xc9, 0x7d, 0xfa, 0x59, 0x47, 0xf0, 0xad, 0xd4, 0xa2, 0xaf, 0x9c, 0xa4, 0x72, 0xc0,
    0xb7, 0xfd, 0x93, 0x26, 0x36, 0x3f, 0xf7, 0xcc, 0x34, 0xa5, 0xe5, 0xf1, 0x71, 0xd8, 0x31, 0x15,
    0x04, 0xc7, 0x23, 0xc3, 0x18, 0x96, 0x05, 0x9a, 0x07, 0x12, 0x80, 0xe2, 0xeb, 0x27, 0xb2, 0x75,
    0x09, 0x83, 0x2c, 0x1a, 0x1b, 0x6e, 0x5a, 0xa0, 0x52, 0x3b, 0xd6, 0xb3, 0x29, 0xe3, 0x2f, 0x84,
    0x53, 0xd1, 0x00, 0xed, 0x20, 0xfc, 0xb1, 0x5b, 0x6a, 0xcb, 0xbe, 0x39, 0x4a, 0x4c, 0x58, 0xcf,
    0xd0, 0xef, 0xaa, 0xfb, 0x43, 0x4d, 0x33, 0x85, 0x45, 0xf9, 0x02, 0x7f, 0x50, 0x3c, 0x9f, 0xa8,
    0x51, 0xa3, 0x40, 0x8f, 0x92, 0x9d, 0x38, 0xf5, 0xbc, 0xb6, 0xda, 0x21, 0x10, 0xff, 0xf3, 0xd2,
    0xcd, 0x0c, 0x13, 0xec, 0x5f, 0x97, 0x44, 0x17, 0xc4, 0xa7, 0x7e, 0x3d, 0x64, 0x5d, 0x19, 0x73,
    0x60, 0x81, 0x4f, 0xdc, 0x22, 0x2a, 0x90, 0x88, 0x46, 0xee, 0xb8, 0x14, 0xde, 0x5e, 0x0b, 0xdb,
    0xe0, 0x32, 0x3a, 0x0a, 0x49, 0x06, 0x24, 0x5c, 0xc2, 0xd3, 0xac, 0x62, 0x91, 0x95, 0xe4, 0x79,
    0xe7, 0xc8, 0x37, 0x6d, 0x8d, 0xd5, 0x4e, 0xa9, 0x6c, 0x56, 0xf4, 0xea, 0x65, 0x7a, 0xae, 0x08,
    0xba, 0x78, 0x25, 0x2e, 0x1c, 0xa6, 0xb4, 0xc6, 0xe8, 0xdd, 0x74, 0x1f, 0x4b, 0xbd, 0x8b, 0x8a,
    0x70, 0x3e, 0xb5, 0x66, 0x48, 0x03, 0xf6, 0x0e, 0x61, 0x35, 0x57, 0xb9, 0x86, 0xc1, 0x1d, 0x9e,
    0xe1, 0xf8, 0x98, 0x11, 0x69, 0xd9, 0x8e, 0x94, 0x9b, 0x1e, 0x87, 0xe9, 0xce, 0x55, 0x28, 0xdf,
    0x8c, 0xa1, 0x89, 0x0d, 0xbf, 0xe6, 0x42, 0x68, 0x41, 0x99, 0x2d, 0x0f, 0xb0, 0x54, 0xbb, 0x16]"

definition rsbox :: "u8 list" where
  "rsbox = [
    0x52, 0x09, 0x6a, 0xd5, 0x30, 0x36, 0xa5, 0x38, 0xbf, 0x40, 0xa3, 0x9e, 0x81, 0xf3, 0xd7, 0xfb,
    0x7c, 0xe3, 0x39, 0x82, 0x9b, 0x2f, 0xff, 0x87, 0x34, 0x8e, 0x43, 0x44, 0xc4, 0xde, 0xe9, 0xcb,
    0x54, 0x7b, 0x94, 0x32, 0xa6, 0xc2, 0x23, 0x3d, 0xee, 0x4c, 0x95, 0x0b, 0x42, 0xfa, 0xc3, 0x4e,
    0x08, 0x2e, 0xa1, 0x66, 0x28, 0xd9, 0x24, 0xb2, 0x76, 0x5b, 0xa2, 0x49, 0x6d, 0x8b, 0xd1, 0x25,
    0x72, 0xf8, 0xf6, 0x64, 0x86, 0x68, 0x98, 0x16, 0xd4, 0xa4, 0x5c, 0xcc, 0x5d, 0x65, 0xb6, 0x92,
    0x6c, 0x70, 0x48, 0x50, 0xfd, 0xed, 0xb9, 0xda, 0x5e, 0x15, 0x46, 0x57, 0xa7, 0x8d, 0x9d, 0x84,
    0x90, 0xd8, 0xab, 0x00, 0x8c, 0xbc, 0xd3, 0x0a, 0xf7, 0xe4, 0x58, 0x05, 0xb8, 0xb3, 0x45, 0x06,
    0xd0, 0x2c, 0x1e, 0x8f, 0xca, 0x3f, 0x0f, 0x02, 0xc1, 0xaf, 0xbd, 0x03, 0x01, 0x13, 0x8a, 0x6b,
    0x3a, 0x91, 0x11, 0x41, 0x4f, 0x67, 0xdc, 0xea, 0x97, 0xf2, 0xcf, 0xce, 0xf0, 0xb4, 0xe6, 0x73,
    0x96, 0xac, 0x74, 0x22, 0xe7, 0xad, 0x35, 0x85, 0xe2, 0xf9, 0x37, 0xe8, 0x1c, 0x75, 0xdf, 0x6e,
    0x47, 0xf1, 0x1a, 0x71, 0x1d, 0x29, 0xc5, 0x89, 0x6f, 0xb7, 0x62, 0x0e, 0xaa, 0x18, 0xbe, 0x1b,
    0xfc, 0x56, 0x3e, 0x4b, 0xc6, 0xd2, 0x79, 0x20, 0x9a, 0xdb, 0xc0, 0xfe, 0x78, 0xcd, 0x5a, 0xf4,
    0x1f, 0xdd, 0xa8, 0x33, 0x88, 0x07, 0xc7, 0x31, 0xb1, 0x12, 0x10, 0x59, 0x27, 0x80, 0xec, 0x5f,
    0x60, 0x51, 0x7f, 0xa9, 0x19, 0xb5, 0x4a, 0x0d, 0x2d, 0xe5, 0x7a, 0x9f, 0x93, 0xc9, 0x9c, 0xef,
    0xa0, 0xe0, 0x3b, 0x4d, 0xae, 0x2a, 0xf5, 0xb0, 0xc8, 0xeb, 0xbb, 0x3c, 0x83, 0x53, 0x99, 0x61,
    0x17, 0x2b, 0x04, 0x7e, 0xba, 0x77, 0xd6, 0x26, 0xe1, 0x69, 0x14, 0x63, 0x55, 0x21, 0x0c, 0x7d]"

definition Rcon :: "u8 list" where
  "Rcon = [
    0x8d, 0x01, 0x02, 0x04, 0x08, 0x10, 0x20, 0x40, 0x80, 0x1b, 0x36, 0x6c, 0xd8, 0xab, 0x4d, 0x9a,
    0x2f, 0x5e, 0xbc, 0x63, 0xc6, 0x97, 0x35, 0x6a, 0xd4, 0xb3, 0x7d, 0xfa, 0xef, 0xc5, 0x91, 0x39,
    0x72, 0xe4, 0xd3, 0xbd, 0x61, 0xc2, 0x9f, 0x25, 0x4a, 0x94, 0x33, 0x66, 0xcc, 0x83, 0x1d, 0x3a,
    0x74, 0xe8, 0xcb, 0x8d, 0x01, 0x02, 0x04, 0x08, 0x10, 0x20, 0x40, 0x80, 0x1b, 0x36, 0x6c, 0xd8,
    0xab, 0x4d, 0x9a, 0x2f, 0x5e, 0xbc, 0x63, 0xc6, 0x97, 0x35, 0x6a, 0xd4, 0xb3, 0x7d, 0xfa, 0xef,
    0xc5, 0x91, 0x39, 0x72, 0xe4, 0xd3, 0xbd, 0x61, 0xc2, 0x9f, 0x25, 0x4a, 0x94, 0x33, 0x66, 0xcc,
    0x83, 0x1d, 0x3a, 0x74, 0xe8, 0xcb, 0x8d, 0x01, 0x02, 0x04, 0x08, 0x10, 0x20, 0x40, 0x80, 0x1b,
    0x36, 0x6c, 0xd8, 0xab, 0x4d, 0x9a, 0x2f, 0x5e, 0xbc, 0x63, 0xc6, 0x97, 0x35, 0x6a, 0xd4, 0xb3,
    0x7d, 0xfa, 0xef, 0xc5, 0x91, 0x39, 0x72, 0xe4, 0xd3, 0xbd, 0x61, 0xc2, 0x9f, 0x25, 0x4a, 0x94,
    0x33, 0x66, 0xcc, 0x83, 0x1d, 0x3a, 0x74, 0xe8, 0xcb, 0x8d, 0x01, 0x02, 0x04, 0x08, 0x10, 0x20,
    0x40, 0x80, 0x1b, 0x36, 0x6c, 0xd8, 0xab, 0x4d, 0x9a, 0x2f, 0x5e, 0xbc, 0x63, 0xc6, 0x97, 0x35,
    0x6a, 0xd4, 0xb3, 0x7d, 0xfa, 0xef, 0xc5, 0x91, 0x39, 0x72, 0xe4, 0xd3, 0xbd, 0x61, 0xc2, 0x9f,
    0x25, 0x4a, 0x94, 0x33, 0x66, 0xcc, 0x83, 0x1d, 0x3a, 0x74, 0xe8, 0xcb, 0x8d, 0x01, 0x02, 0x04,
    0x08, 0x10, 0x20, 0x40, 0x80, 0x1b, 0x36, 0x6c, 0xd8, 0xab, 0x4d, 0x9a, 0x2f, 0x5e, 0xbc, 0x63,
    0xc6, 0x97, 0x35, 0x6a, 0xd4, 0xb3, 0x7d, 0xfa, 0xef, 0xc5, 0x91, 0x39, 0x72, 0xe4, 0xd3, 0xbd,
    0x61, 0xc2, 0x9f, 0x25, 0x4a, 0x94, 0x33, 0x66, 0xcc, 0x83, 0x1d, 0x3a, 0x74, 0xe8, 0xcb]"

definition getSBoxValue :: "u8 \<Rightarrow> u8" where
  "getSBoxValue num = sbox ! unat num"

definition getSBoxInvert :: "u8 \<Rightarrow> u8" where
  "getSBoxInvert num = rsbox ! unat num"

section \<open>Key schedule\<close>

record aes_t =
  Key :: "u8 list"
  RoundKey :: "u8 list"
  Iv :: "u8 list"

definition aes_word :: "u8 list \<Rightarrow> nat \<Rightarrow> u8 list" where
  "aes_word bs i = map (\<lambda>j. bs ! (i * 4 + j)) [0, 1, 2, 3]"

definition aes_set_word :: "u8 list \<Rightarrow> nat \<Rightarrow> u8 list \<Rightarrow> u8 list" where
  "aes_set_word bs i w =
     bs[i * 4 + 0 := w ! 0, i * 4 + 1 := w ! 1, i * 4 + 2 := w ! 2, i * 4 + 3 := w ! 3]"

definition key_temp :: "nat \<Rightarrow> u8 list \<Rightarrow> u8 list" where
  "key_temp i tempa =
     (if i mod 4 = 0 then
        (let tempa = [tempa ! 1, tempa ! 2, tempa ! 3, tempa ! 0];
             tempa = map getSBoxValue tempa
         in tempa[0 := tempa ! 0 XOR Rcon ! (i div 4)])
      else tempa)"

definition key_step :: "u8 list \<Rightarrow> nat \<Rightarrow> u8 list" where
  "key_step rk i =
     (let tempa = key_temp i (aes_word rk (i - 1))
      in aes_set_word rk i (map2 (XOR) (aes_word rk (i - 4)) tempa))"

definition KeyExpansion :: "aes_t \<Rightarrow> aes_t" where
  "KeyExpansion g =
     (let rk = foldl (\<lambda>rk i. aes_set_word rk i (aes_word (Key g) i)) (RoundKey g) [0..<4];
          rk = foldl key_step rk [4..<4 * (10 + 1)]
      in g\<lparr>RoundKey := rk\<rparr>)"

section \<open>The cipher\<close>

definition AddRoundKey :: "u8 list \<Rightarrow> nat \<Rightarrow> u8 list \<Rightarrow> u8 list" where
  "AddRoundKey rk round s = map (\<lambda>p. s ! p XOR rk ! (round * 4 * 4 + p)) [0..<16]"

definition SubBytes :: "u8 list \<Rightarrow> u8 list" where
  "SubBytes s = map getSBoxValue s"

definition ShiftRows :: "u8 list \<Rightarrow> u8 list" where
  "ShiftRows s =
     (let temp = s ! 1; s = s[1 := s ! 5]; s = s[5 := s ! 9]; s = s[9 := s ! 13]; s = s[13 := temp];
          temp = s ! 2; s = s[2 := s ! 10]; s = s[10 := temp];
          temp = s ! 6; s = s[6 := s ! 14]; s = s[14 := temp];
          temp = s ! 3; s = s[3 := s ! 15]; s = s[15 := s ! 11]; s = s[11 := s ! 7]
      in s[7 := temp])"

definition xtime :: "u8 \<Rightarrow> u8" where
  "xtime x = push_bit 1 x XOR ((drop_bit 7 x AND 1) * 0x1b)"

definition mix_column :: "u8 list \<Rightarrow> nat \<Rightarrow> u8 list" where
  "mix_column s i =
     (let t = s ! (4 * i + 0);
          Tmp = s ! (4 * i + 0) XOR s ! (4 * i + 1) XOR s ! (4 * i + 2) XOR s ! (4 * i + 3);
          Tm = s ! (4 * i + 0) XOR s ! (4 * i + 1); Tm = xtime Tm;
          s = s[4 * i + 0 := s ! (4 * i + 0) XOR (Tm XOR Tmp)];
          Tm = s ! (4 * i + 1) XOR s ! (4 * i + 2); Tm = xtime Tm;
          s = s[4 * i + 1 := s ! (4 * i + 1) XOR (Tm XOR Tmp)];
          Tm = s ! (4 * i + 2) XOR s ! (4 * i + 3); Tm = xtime Tm;
          s = s[4 * i + 2 := s ! (4 * i + 2) XOR (Tm XOR Tmp)];
          Tm = s ! (4 * i + 3) XOR t; Tm = xtime Tm
      in s[4 * i + 3 := s ! (4 * i + 3) XOR (Tm XOR Tmp)])"

definition MixColumns :: "u8 list \<Rightarrow> u8 list" where
  "MixColumns s = foldl mix_column s [0..<4]"

definition Multiply :: "u8 \<Rightarrow> u8 \<Rightarrow> u8" where
  "Multiply x y =
     ((y AND 1) * x) XOR
     ((drop_bit 1 y AND 1) * xtime x) XOR
     ((drop_bit 2 y AND 1) * xtime (xtime x)) XOR
     ((drop_bit 3 y AND 1) * xtime (xtime (xtime x))) XOR
     ((drop_bit 4 y AND 1) * xtime (xtime (xtime (xtime x))))"

definition inv_mix_column :: "u8 list \<Rightarrow> nat \<Rightarrow> u8 list" where
  "inv_mix_column s i =
     (let a = s ! (4 * i + 0); b = s ! (4 * i + 1); c = s ! (4 * i + 2); d = s ! (4 * i + 3)
      in s[4 * i + 0 := Multiply a 0x0e XOR Multiply b 0x0b XOR Multiply c 0x0d XOR Multiply d 0x09,
           4 * i + 1 := Multiply a 0x09 XOR Multiply b 0x0e XOR Multiply c 0x0b XOR Multiply d 0x0d,
           4 * i + 2 := Multiply a 0x0d XOR Multiply b 0x09 XOR Multiply c 0x0e XOR Multiply d 0x0b,
           4 * i + 3 := Multiply a 0x0b XOR Multiply b 0x0d XOR Multiply c 0x09 XOR Multiply d 0x0e])"

definition InvMixColumns :: "u8 list \<Rightarrow> u8 list" where
  "InvMixColumns s = foldl inv_mix_column s [0..<4]"

definition InvSubBytes :: "u8 list \<Rightarrow> u8 list" where
  "InvSubBytes s = map getSBoxInvert s"

definition InvShiftRows :: "u8 list \<Rightarrow> u8 list" where
  "InvShiftRows s =
     (let temp = s ! 13; s = s[13 := s ! 9]; s = s[9 := s ! 5]; s = s[5 := s ! 1]; s = s[1 := temp];
          temp = s ! 2; s = s[2 := s ! 10]; s = s[10 := temp];
          temp = s ! 6; s = s[6 := s ! 14]; s = s[14 := temp];
          temp = s ! 3; s = s[3 := s ! 7]; s = s[7 := s ! 11]; s = s[11 := s ! 15]
      in s[15 := temp])"

definition Cipher :: "u8 list \<Rightarrow> u8 list \<Rightarrow> u8 list" where
  "Cipher rk s =
     (let s = AddRoundKey rk 0 s;
          s = foldl (\<lambda>s round. AddRoundKey rk round (MixColumns (ShiftRows (SubBytes s)))) s [1..<10]
      in AddRoundKey rk 10 (ShiftRows (SubBytes s)))"

definition InvCipher :: "u8 list \<Rightarrow> u8 list \<Rightarrow> u8 list" where
  "InvCipher rk s =
     (let s = AddRoundKey rk 10 s;
          s = foldl (\<lambda>s round. InvMixColumns (AddRoundKey rk round (InvSubBytes (InvShiftRows s)))) s
                (rev [1..<10])
      in AddRoundKey rk 0 (InvSubBytes (InvShiftRows s)))"

section \<open>CBC mode\<close>

definition BlockCopy :: "u8 list \<Rightarrow> u8 list \<Rightarrow> nat \<Rightarrow> u8 list option" where
  "BlockCopy output input p = do { b \<leftarrow> rd_block input p 16; wr_block output p b }"

definition XorWithIv :: "aes_t \<Rightarrow> u8 list \<Rightarrow> nat \<Rightarrow> u8 list option" where
  "XorWithIv g buf p = do { b \<leftarrow> rd_block buf p 16; wr_block buf p (map2 (XOR) b (Iv g)) }"

definition aes_on_state :: "(u8 list \<Rightarrow> u8 list) \<Rightarrow> u8 list \<Rightarrow> nat \<Rightarrow> u8 list option" where
  "aes_on_state f output p = do { s \<leftarrow> rd_block output p 16; wr_block output p (f s) }"

lemma BlockCopy_length:
  "BlockCopy output input p = Some output' \<Longrightarrow>
     p + 16 \<le> length input \<and> p + 16 \<le> length output \<and> length output' = length output"
  by (auto simp: BlockCopy_def bind_eq_Some_conv simp del: length_append
      dest!: rd_block_SomeD wr_block_SomeD)

lemma XorWithIv_length: "XorWithIv g buf p = Some buf' \<Longrightarrow> length buf' = length buf"
  by (auto simp: XorWithIv_def bind_eq_Some_conv simp del: length_append dest!: wr_block_SomeD)

lemma aes_on_state_length: "aes_on_state f output p = Some output' \<Longrightarrow> length output' = length output"
  by (auto simp: aes_on_state_def bind_eq_Some_conv simp del: length_append dest!: wr_block_SomeD)

definition aes_setup :: "u8 list option \<Rightarrow> u8 list option \<Rightarrow> aes_t \<Rightarrow> aes_t option" where
  "aes_setup key iv g = do {
     g \<leftarrow> (case key of None \<Rightarrow> Some g
          | Some k \<Rightarrow> (if 16 \<le> length k then Some (KeyExpansion (g\<lparr>Key := k\<rparr>)) else None));
     case iv of None \<Rightarrow> Some g
     | Some v \<Rightarrow> do { v \<leftarrow> rd_block v 0 16; Some (g\<lparr>Iv := v\<rparr>) } }"

function cbc_encrypt_loop ::
  "u32 \<Rightarrow> u32 \<Rightarrow> nat \<Rightarrow> aes_t \<Rightarrow> u8 list \<Rightarrow> u8 list \<Rightarrow> (nat \<times> aes_t \<times> u8 list \<times> u8 list) option"
where
  "cbc_encrypt_loop i n p g output input =
     (if i < n then do {
        input \<leftarrow> XorWithIv g input p;
        output \<leftarrow> BlockCopy output input p;
        output \<leftarrow> aes_on_state (Cipher (RoundKey g)) output p;
        v \<leftarrow> rd_block output p 16;
        cbc_encrypt_loop (i + 16) n (p + 16) (g\<lparr>Iv := v\<rparr>) output input
      } else Some (p, g, output, input))"
  by pat_completeness auto
termination
  by (relation "measure (\<lambda>(i, n, p, g, output, input). length output - p)")
    (auto simp: bind_eq_Some_conv dest!: XorWithIv_length BlockCopy_length aes_on_state_length)

definition AES128_CBC_encrypt_buffer ::
  "aes_t \<Rightarrow> u8 list \<Rightarrow> u8 list \<Rightarrow> u32 \<Rightarrow> u8 list option \<Rightarrow> u8 list option \<Rightarrow> (aes_t \<times> u8 list \<times> u8 list) option"
where
  "AES128_CBC_encrypt_buffer g output input n key iv = do {
     let remainders = unat (n mod 16);
     output \<leftarrow> BlockCopy output input 0;
     g \<leftarrow> aes_setup key iv g;
     (p, g, output, input) \<leftarrow> cbc_encrypt_loop 0 n 0 g output input;
     if remainders \<noteq> 0 then do {
       output \<leftarrow> BlockCopy output input p;
       output \<leftarrow> wr_block output (p + remainders) (replicate (16 - remainders) 0);
       output \<leftarrow> aes_on_state (Cipher (RoundKey g)) output p;
       Some (g, output, input)
     } else Some (g, output, input) }"

function cbc_decrypt_loop ::
  "u32 \<Rightarrow> u32 \<Rightarrow> nat \<Rightarrow> aes_t \<Rightarrow> u8 list \<Rightarrow> u8 list \<Rightarrow> (nat \<times> aes_t \<times> u8 list) option"
where
  "cbc_decrypt_loop i n p g output input =
     (if i < n then do {
        output \<leftarrow> BlockCopy output input p;
        output \<leftarrow> aes_on_state (InvCipher (RoundKey g)) output p;
        output \<leftarrow> XorWithIv g output p;
        v \<leftarrow> rd_block input p 16;
        cbc_decrypt_loop (i + 16) n (p + 16) (g\<lparr>Iv := v\<rparr>) output input
      } else Some (p, g, output))"
  by pat_completeness auto
termination
  by (relation "measure (\<lambda>(i, n, p, g, output, input). length input - p)")
    (auto simp: bind_eq_Some_conv dest!: BlockCopy_length)

definition AES128_CBC_decrypt_buffer ::
  "aes_t \<Rightarrow> u8 list \<Rightarrow> u8 list \<Rightarrow> u32 \<Rightarrow> u8 list option \<Rightarrow> u8 list option \<Rightarrow> (aes_t \<times> u8 list) option"
where
  "AES128_CBC_decrypt_buffer g output input n key iv = do {
     let remainders = unat (n mod 16);
     output \<leftarrow> BlockCopy output input 0;
     g \<leftarrow> aes_setup key iv g;
     (p, g, output) \<leftarrow> cbc_decrypt_loop 0 n 0 g output input;
     if remainders \<noteq> 0 then do {
       output \<leftarrow> BlockCopy output input p;
       output \<leftarrow> wr_block output (p + remainders) (replicate (16 - remainders) 0);
       output \<leftarrow> aes_on_state (InvCipher (RoundKey g)) output p;
       Some (g, output)
     } else Some (g, output) }"

definition fd_crypto_aes_decrypt_initialize ::
  "u8 list \<Rightarrow> aes_t \<Rightarrow> u8 list option \<Rightarrow> u8 list option \<Rightarrow> (bool \<times> aes_t) option" where
  "fd_crypto_aes_decrypt_initialize stack g key iv = do {
     (g, output) \<leftarrow> AES128_CBC_decrypt_buffer g stack (replicate 16 0) 0 key iv;
     Some (True, g) }"

definition fd_crypto_aes_decrypt_update ::
  "aes_t \<Rightarrow> u8 list \<Rightarrow> u8 list \<Rightarrow> u32 \<Rightarrow> (bool \<times> aes_t \<times> u8 list) option" where
  "fd_crypto_aes_decrypt_update g i out n = do {
     (g, out) \<leftarrow> AES128_CBC_decrypt_buffer g out i n None None;
     Some (True, g, out) }"

definition fd_crypto_aes_decrypt_finalize :: "aes_t \<Rightarrow> bool \<times> aes_t" where
  "fd_crypto_aes_decrypt_finalize g = (True, g)"

section \<open>The field\<close>

text \<open>Multiplication in \<open>GF(2^8)\<close> modulo \<open>x^8 + x^4 + x^3 + x + 1\<close>, written down independently of the
  code: the reference for \<open>xtime\<close>, \<open>Multiply\<close>, the S-box and the round constants.\<close>

definition gf_double :: "u8 \<Rightarrow> u8" where
  "gf_double x = (if bit x 7 then push_bit 1 x XOR 0x1b else push_bit 1 x)"

fun gf_mul_upto :: "nat \<Rightarrow> u8 \<Rightarrow> u8 \<Rightarrow> u8" where
  "gf_mul_upto 0 x y = 0"
| "gf_mul_upto (Suc k) x y = (if bit y 0 then x else 0) XOR gf_mul_upto k (gf_double x) (drop_bit 1 y)"

definition gf_mul :: "u8 \<Rightarrow> u8 \<Rightarrow> u8" where
  "gf_mul = gf_mul_upto 8"

lemma top_bit: "drop_bit n x AND 1 = of_bool (bit x n)" for x :: u8
  by (simp add: and_one_eq odd_iff_mod_2_eq_one[symmetric] bit_iff_odd_drop_bit mod2_eq_if)

lemma xtime_gf: "xtime x = gf_double x"
  unfolding xtime_def gf_double_def top_bit by simp

lemma gf_double_xor: "gf_double (a XOR b) = gf_double a XOR gf_double b"
  unfolding gf_double_def by (simp add: bit_xor_iff push_bit_xor ac_simps del: push_bit_Suc push_bit_of_1)

lemma gf_double_0 [simp]: "gf_double 0 = 0"
  by (simp add: gf_double_def)

lemma gf_mul_upto_0: "gf_mul_upto k x 0 = 0"
  by (induction k arbitrary: x) simp_all

lemma drop_bit_1_1: "drop_bit 1 (drop_bit n y) = drop_bit (Suc n) y" "bit (drop_bit n y) 0 = bit y n" for y :: u8
  by (simp_all add: bit_drop_bit_eq)

lemma Multiply_gf:
  assumes "drop_bit 5 y = 0" shows "Multiply x y = gf_mul x y"
proof -
  have "gf_mul x y = (if bit y 0 then x else 0) XOR ((if bit y 1 then gf_double x else 0) XOR
      ((if bit y 2 then gf_double (gf_double x) else 0) XOR ((if bit y 3 then gf_double (gf_double (gf_double x)) else 0) XOR
      ((if bit y 4 then gf_double (gf_double (gf_double (gf_double x))) else 0)))))"
    using assms
    by (simp add: gf_mul_def numeral_eq_Suc gf_mul_upto_0 drop_bit_1_1 del: drop_bit_Suc drop_bit_of_1 One_nat_def)
  moreover have "y AND 1 = of_bool (bit y 0)"
    using top_bit[of 0 y] by simp
  ultimately show ?thesis
    unfolding Multiply_def xtime_gf top_bit by (simp add: xor.assoc)
qed

lemma Multiply_consts:
  "Multiply x 0x0e = xtime x XOR xtime (xtime x) XOR xtime (xtime (xtime x))"
  "Multiply x 0x0b = x XOR xtime x XOR xtime (xtime (xtime x))"
  "Multiply x 0x0d = x XOR xtime (xtime x) XOR xtime (xtime (xtime x))"
  "Multiply x 0x09 = x XOR xtime (xtime (xtime x))"
proof -
  have "((0x0e::u8) AND 1) = 0" "(0x0b::u8) AND 1 = 1" "(0x0d::u8) AND 1 = 1" "(0x09::u8) AND 1 = 1"
    "(drop_bit 1 (0x0e::u8) AND 1) = 1" "drop_bit 1 (0x0b::u8) AND 1 = 1" "drop_bit 1 (0x0d::u8) AND 1 = 0" "drop_bit 1 (0x09::u8) AND 1 = 0"
    "(drop_bit 2 (0x0e::u8) AND 1) = 1" "drop_bit 2 (0x0b::u8) AND 1 = 0" "drop_bit 2 (0x0d::u8) AND 1 = 1" "drop_bit 2 (0x09::u8) AND 1 = 0"
    "(drop_bit 3 (0x0e::u8) AND 1) = 1" "drop_bit 3 (0x0b::u8) AND 1 = 1" "drop_bit 3 (0x0d::u8) AND 1 = 1" "drop_bit 3 (0x09::u8) AND 1 = 1"
    "(drop_bit 4 (0x0e::u8) AND 1) = 0" "drop_bit 4 (0x0b::u8) AND 1 = 0" "drop_bit 4 (0x0d::u8) AND 1 = 0" "drop_bit 4 (0x09::u8) AND 1 = 0"
    by code_simp+
  note * = this
  show "Multiply x 0x0e = xtime x XOR xtime (xtime x) XOR xtime (xtime (xtime x))"
  "Multiply x 0x0b = x XOR xtime x XOR xtime (xtime (xtime x))"
  "Multiply x 0x0d = x XOR xtime (xtime x) XOR xtime (xtime (xtime x))"
  "Multiply x 0x09 = x XOR xtime (xtime (xtime x))"
  unfolding Multiply_def * by simp_all
qed

section \<open>The S-box\<close>

definition rot8 :: "nat \<Rightarrow> u8 \<Rightarrow> u8" where
  "rot8 n b = push_bit n b OR drop_bit (8 - n) b"

definition affine :: "u8 \<Rightarrow> u8" where
  "affine b = b XOR rot8 1 b XOR rot8 2 b XOR rot8 3 b XOR rot8 4 b XOR 0x63"

definition gf_numbers :: "u8 list" where
  "gf_numbers = [
    0x00, 0x01, 0x02, 0x03, 0x04, 0x05, 0x06, 0x07, 0x08, 0x09, 0x0a, 0x0b, 0x0c, 0x0d, 0x0e, 0x0f,
    0x10, 0x11, 0x12, 0x13, 0x14, 0x15, 0x16, 0x17, 0x18, 0x19, 0x1a, 0x1b, 0x1c, 0x1d, 0x1e, 0x1f,
    0x20, 0x21, 0x22, 0x23, 0x24, 0x25, 0x26, 0x27, 0x28, 0x29, 0x2a, 0x2b, 0x2c, 0x2d, 0x2e, 0x2f,
    0x30, 0x31, 0x32, 0x33, 0x34, 0x35, 0x36, 0x37, 0x38, 0x39, 0x3a, 0x3b, 0x3c, 0x3d, 0x3e, 0x3f,
    0x40, 0x41, 0x42, 0x43, 0x44, 0x45, 0x46, 0x47, 0x48, 0x49, 0x4a, 0x4b, 0x4c, 0x4d, 0x4e, 0x4f,
    0x50, 0x51, 0x52, 0x53, 0x54, 0x55, 0x56, 0x57, 0x58, 0x59, 0x5a, 0x5b, 0x5c, 0x5d, 0x5e, 0x5f,
    0x60, 0x61, 0x62, 0x63, 0x64, 0x65, 0x66, 0x67, 0x68, 0x69, 0x6a, 0x6b, 0x6c, 0x6d, 0x6e, 0x6f,
    0x70, 0x71, 0x72, 0x73, 0x74, 0x75, 0x76, 0x77, 0x78, 0x79, 0x7a, 0x7b, 0x7c, 0x7d, 0x7e, 0x7f,
    0x80, 0x81, 0x82, 0x83, 0x84, 0x85, 0x86, 0x87, 0x88, 0x89, 0x8a, 0x8b, 0x8c, 0x8d, 0x8e, 0x8f,
    0x90, 0x91, 0x92, 0x93, 0x94, 0x95, 0x96, 0x97, 0x98, 0x99, 0x9a, 0x9b, 0x9c, 0x9d, 0x9e, 0x9f,
    0xa0, 0xa1, 0xa2, 0xa3, 0xa4, 0xa5, 0xa6, 0xa7, 0xa8, 0xa9, 0xaa, 0xab, 0xac, 0xad, 0xae, 0xaf,
    0xb0, 0xb1, 0xb2, 0xb3, 0xb4, 0xb5, 0xb6, 0xb7, 0xb8, 0xb9, 0xba, 0xbb, 0xbc, 0xbd, 0xbe, 0xbf,
    0xc0, 0xc1, 0xc2, 0xc3, 0xc4, 0xc5, 0xc6, 0xc7, 0xc8, 0xc9, 0xca, 0xcb, 0xcc, 0xcd, 0xce, 0xcf,
    0xd0, 0xd1, 0xd2, 0xd3, 0xd4, 0xd5, 0xd6, 0xd7, 0xd8, 0xd9, 0xda, 0xdb, 0xdc, 0xdd, 0xde, 0xdf,
    0xe0, 0xe1, 0xe2, 0xe3, 0xe4, 0xe5, 0xe6, 0xe7, 0xe8, 0xe9, 0xea, 0xeb, 0xec, 0xed, 0xee, 0xef,
    0xf0, 0xf1, 0xf2, 0xf3, 0xf4, 0xf5, 0xf6, 0xf7, 0xf8, 0xf9, 0xfa, 0xfb, 0xfc, 0xfd, 0xfe, 0xff]"

definition gf_inverses :: "u8 list" where
  "gf_inverses = [
    0x00, 0x01, 0x8d, 0xf6, 0xcb, 0x52, 0x7b, 0xd1, 0xe8, 0x4f, 0x29, 0xc0, 0xb0, 0xe1, 0xe5, 0xc7,
    0x74, 0xb4, 0xaa, 0x4b, 0x99, 0x2b, 0x60, 0x5f, 0x58, 0x3f, 0xfd, 0xcc, 0xff, 0x40, 0xee, 0xb2,
    0x3a, 0x6e, 0x5a, 0xf1, 0x55, 0x4d, 0xa8, 0xc9, 0xc1, 0x0a, 0x98, 0x15, 0x30, 0x44, 0xa2, 0xc2,
    0x2c, 0x45, 0x92, 0x6c, 0xf3, 0x39, 0x66, 0x42, 0xf2, 0x35, 0x20, 0x6f, 0x77, 0xbb, 0x59, 0x19,
    0x1d, 0xfe, 0x37, 0x67, 0x2d, 0x31, 0xf5, 0x69, 0xa7, 0x64, 0xab, 0x13, 0x54, 0x25, 0xe9, 0x09,
    0xed, 0x5c, 0x05, 0xca, 0x4c, 0x24, 0x87, 0xbf, 0x18, 0x3e, 0x22, 0xf0, 0x51, 0xec, 0x61, 0x17,
    0x16, 0x5e, 0xaf, 0xd3, 0x49, 0xa6, 0x36, 0x43, 0xf4, 0x47, 0x91, 0xdf, 0x33, 0x93, 0x21, 0x3b,
    0x79, 0xb7, 0x97, 0x85, 0x10, 0xb5, 0xba, 0x3c, 0xb6, 0x70, 0xd0, 0x06, 0xa1, 0xfa, 0x81, 0x82,
    0x83, 0x7e, 0x7f, 0x80, 0x96, 0x73, 0xbe, 0x56, 0x9b, 0x9e, 0x95, 0xd9, 0xf7, 0x02, 0xb9, 0xa4,
    0xde, 0x6a, 0x32, 0x6d, 0xd8, 0x8a, 0x84, 0x72, 0x2a, 0x14, 0x9f, 0x88, 0xf9, 0xdc, 0x89, 0x9a,
    0xfb, 0x7c, 0x2e, 0xc3, 0x8f, 0xb8, 0x65, 0x48, 0x26, 0xc8, 0x12, 0x4a, 0xce, 0xe7, 0xd2, 0x62,
    0x0c, 0xe0, 0x1f, 0xef, 0x11, 0x75, 0x78, 0x71, 0xa5, 0x8e, 0x76, 0x3d, 0xbd, 0xbc, 0x86, 0x57,
    0x0b, 0x28, 0x2f, 0xa3, 0xda, 0xd4, 0xe4, 0x0f, 0xa9, 0x27, 0x53, 0x04, 0x1b, 0xfc, 0xac, 0xe6,
    0x7a, 0x07, 0xae, 0x63, 0xc5, 0xdb, 0xe2, 0xea, 0x94, 0x8b, 0xc4, 0xd5, 0x9d, 0xf8, 0x90, 0x6b,
    0xb1, 0x0d, 0xd6, 0xeb, 0xc6, 0x0e, 0xcf, 0xad, 0x08, 0x4e, 0xd7, 0xe3, 0x5d, 0x50, 0x1e, 0xb3,
    0x5b, 0x23, 0x38, 0x34, 0x68, 0x46, 0x03, 0x8c, 0xdd, 0x9c, 0x7d, 0xa0, 0xcd, 0x1a, 0x41, 0x1c]"

lemma gf_mul_eval:
  "gf_mul x y = (if bit y 0 then x else 0) XOR ((if bit y 1 then gf_double x else 0) XOR
      ((if bit y 2 then gf_double (gf_double x) else 0) XOR ((if bit y 3 then gf_double (gf_double (gf_double x)) else 0) XOR
      ((if bit y 4 then gf_double (gf_double (gf_double (gf_double x))) else 0) XOR
      ((if bit y 5 then gf_double (gf_double (gf_double (gf_double (gf_double x)))) else 0) XOR
      ((if bit y 6 then gf_double (gf_double (gf_double (gf_double (gf_double (gf_double x))))) else 0) XOR
      ((if bit y 7 then gf_double (gf_double (gf_double (gf_double (gf_double (gf_double (gf_double x)))))) else 0))))))))"
  by (simp add: gf_mul_def numeral_eq_Suc gf_mul_upto_0 drop_bit_1_1 del: drop_bit_Suc drop_bit_of_1 One_nat_def)

lemma gf_numbers_nth: "gf_numbers = map of_nat [0..<256]"
  by code_simp

lemma gf_inverses_mul: "list_all2 (\<lambda>x y. gf_mul x y = 1) (tl gf_numbers) (tl gf_inverses)"
  unfolding gf_numbers_def gf_inverses_def list.sel by (simp add: gf_mul_eval gf_double_def)

lemma sbox_affine: "map affine gf_inverses = sbox"
  by code_simp

lemma rsbox_sbox_table: "map (\<lambda>x. rsbox ! unat x) sbox = gf_numbers"
  by code_simp

lemma sbox_lengths: "length sbox = 256" "length gf_inverses = 256" "length gf_numbers = 256"
  by (simp_all add: sbox_def gf_inverses_def gf_numbers_def)

lemma gf_numbers_unat: "gf_numbers ! unat x = x" for x :: u8
  using unsigned_less[of x, where ?'a = nat] by (simp add: gf_numbers_nth)

lemma getSBoxInvert_getSBoxValue: "getSBoxInvert (getSBoxValue x) = x"
proof -
  have x: "unat x < length sbox"
    using unsigned_less[of x, where ?'a = nat] by (simp add: sbox_lengths)
  have "getSBoxInvert (getSBoxValue x) = map (\<lambda>x. rsbox ! unat x) sbox ! unat x"
    unfolding getSBoxInvert_def getSBoxValue_def by (rule nth_map[OF x, symmetric])
  then show ?thesis unfolding rsbox_sbox_table gf_numbers_unat .
qed

text \<open>What makes a substitution the one of AES: the affine map of the inverse in the field, with zero
  in place of the inverse of zero.\<close>

definition is_aes_sbox :: "(u8 \<Rightarrow> u8) \<Rightarrow> bool" where
  "is_aes_sbox S \<longleftrightarrow> S 0 = affine 0 \<and> (\<forall>x. x \<noteq> 0 \<longrightarrow> (\<exists>y. gf_mul x y = 1 \<and> S x = affine y))"

lemma getSBoxValue_affine: "getSBoxValue x = affine (gf_inverses ! unat x)"
  using unsigned_less[of x, where ?'a = nat] unfolding getSBoxValue_def sbox_affine[symmetric]
  by (simp add: sbox_lengths)

lemma is_aes_sbox_getSBoxValue: "is_aes_sbox getSBoxValue"
  unfolding is_aes_sbox_def
proof (intro conjI allI impI)
  show "getSBoxValue 0 = affine 0"
    unfolding getSBoxValue_affine by (simp add: gf_inverses_def)
next
  fix x :: u8 assume "x \<noteq> 0"
  then obtain n where n: "unat x = Suc n"
    by (metis not0_implies_Suc unat_eq_0)
  have "n < length (tl gf_numbers)"
    using n unsigned_less[of x, where ?'a = nat] by (simp add: sbox_lengths)
  from list_all2_nthD[OF gf_inverses_mul this] have "gf_mul (gf_numbers ! unat x) (gf_inverses ! unat x) = 1"
    using n unsigned_less[of x, where ?'a = nat] by (simp add: nth_tl sbox_lengths)
  then show "\<exists>y. gf_mul x y = 1 \<and> getSBoxValue x = affine y"
    unfolding gf_numbers_unat getSBoxValue_affine by blast
qed

section \<open>Inverse rounds\<close>

lemma list16:
  assumes "length s = 16"
  obtains a0 a1 a2 a3 a4 a5 a6 a7 a8 a9 a10 a11 a12 a13 a14 a15
  where "s = [a0, a1, a2, a3, a4, a5, a6, a7, a8, a9, a10, a11, a12, a13, a14, a15]"
  using assms by (auto simp: length_Suc_conv numeral_eq_Suc)

lemma Inv_ShiftRows: "length s = 16 \<Longrightarrow> InvShiftRows (ShiftRows s) = s"
  by (erule list16) (simp add: InvShiftRows_def ShiftRows_def)

lemma Inv_SubBytes: "InvSubBytes (SubBytes s) = s"
  by (simp add: InvSubBytes_def SubBytes_def getSBoxInvert_getSBoxValue comp_def)

lemma AddRoundKey_twice: "length s = 16 \<Longrightarrow> AddRoundKey rk r (AddRoundKey rk r s) = s"
  by (intro nth_equalityI) (simp_all add: AddRoundKey_def xor.assoc)

lemma xor_cancel: "a XOR (a XOR b) = b" for a b :: u8
  by (simp flip: xor.assoc)

definition mix4 :: "u8 \<times> u8 \<times> u8 \<times> u8 \<Rightarrow> u8 \<times> u8 \<times> u8 \<times> u8" where
  "mix4 = (\<lambda>(a, b, c, d).
     (a XOR (xtime (a XOR b) XOR (a XOR b XOR c XOR d)),
      b XOR (xtime (b XOR c) XOR (a XOR b XOR c XOR d)),
      c XOR (xtime (c XOR d) XOR (a XOR b XOR c XOR d)),
      d XOR (xtime (d XOR a) XOR (a XOR b XOR c XOR d))))"

definition inv_mix4 :: "u8 \<times> u8 \<times> u8 \<times> u8 \<Rightarrow> u8 \<times> u8 \<times> u8 \<times> u8" where
  "inv_mix4 = (\<lambda>(a, b, c, d).
     (Multiply a 0x0e XOR Multiply b 0x0b XOR Multiply c 0x0d XOR Multiply d 0x09,
      Multiply a 0x09 XOR Multiply b 0x0e XOR Multiply c 0x0b XOR Multiply d 0x0d,
      Multiply a 0x0d XOR Multiply b 0x09 XOR Multiply c 0x0e XOR Multiply d 0x0b,
      Multiply a 0x0b XOR Multiply b 0x0d XOR Multiply c 0x09 XOR Multiply d 0x0e))"

lemma xtime_xor: "xtime (a XOR b) = xtime a XOR xtime b"
  unfolding xtime_gf by (rule gf_double_xor)

lemma inv_mix4: "inv_mix4 (mix4 col) = col"
  by (cases col) (simp add: inv_mix4_def mix4_def Multiply_consts xtime_xor xor_cancel ac_simps)

lemma inv_mix4_D: "mix4 x = y \<Longrightarrow> inv_mix4 y = x"
  using inv_mix4[of x] by simp

lemma MixColumns_explicit:
  "MixColumns [a0, a1, a2, a3, b0, b1, b2, b3, c0, c1, c2, c3, d0, d1, d2, d3] =
     (case (mix4 (a0, a1, a2, a3), mix4 (b0, b1, b2, b3), mix4 (c0, c1, c2, c3), mix4 (d0, d1, d2, d3)) of
      ((p0, p1, p2, p3), (q0, q1, q2, q3), (r0, r1, r2, r3), (s0, s1, s2, s3)) \<Rightarrow>
      [p0, p1, p2, p3, q0, q1, q2, q3, r0, r1, r2, r3, s0, s1, s2, s3])"
  by (simp add: MixColumns_def mix_column_def mix4_def upt_rec numeral_eq_Suc Let_def)

lemma InvMixColumns_explicit:
  "InvMixColumns [a0, a1, a2, a3, b0, b1, b2, b3, c0, c1, c2, c3, d0, d1, d2, d3] =
     (case (inv_mix4 (a0, a1, a2, a3), inv_mix4 (b0, b1, b2, b3), inv_mix4 (c0, c1, c2, c3), inv_mix4 (d0, d1, d2, d3)) of
      ((p0, p1, p2, p3), (q0, q1, q2, q3), (r0, r1, r2, r3), (s0, s1, s2, s3)) \<Rightarrow>
      [p0, p1, p2, p3, q0, q1, q2, q3, r0, r1, r2, r3, s0, s1, s2, s3])"
  by (simp add: InvMixColumns_def inv_mix_column_def inv_mix4_def upt_rec numeral_eq_Suc Let_def)

lemma Inv_MixColumns:
  assumes "length s = 16" shows "InvMixColumns (MixColumns s) = s"
  using assms
  by (rule list16)
    (auto simp: MixColumns_explicit InvMixColumns_explicit split: prod.splits dest!: inv_mix4_D)

lemma aes_lengths [simp]:
  "length (AddRoundKey rk r s) = 16"
  "length (SubBytes s) = length s"
  "length (InvSubBytes s) = length s"
  "length (ShiftRows s) = length s"
  "length (InvShiftRows s) = length s"
  "length (MixColumns s) = length s"
  "length (InvMixColumns s) = length s"
  by (simp_all add: AddRoundKey_def SubBytes_def InvSubBytes_def ShiftRows_def InvShiftRows_def
      MixColumns_def InvMixColumns_def mix_column_def inv_mix_column_def upt_rec Let_def)

lemma Cipher_length [simp]: "length (Cipher rk s) = 16" "length (InvCipher rk s) = 16"
  by (simp_all add: Cipher_def InvCipher_def Let_def)

lemma InvCipher_Cipher: "length s = 16 \<Longrightarrow> InvCipher rk (Cipher rk s) = s"
  by (simp add: Cipher_def InvCipher_def Let_def upt_rec AddRoundKey_twice Inv_SubBytes Inv_ShiftRows
      Inv_MixColumns)

section \<open>AES-128 as in FIPS 197\<close>

text \<open>The standard's cipher over an arbitrary substitution \<open>S\<close>: the key schedule as a recursion on
  words, the row shift and the column mix as index formulas over the field.\<close>

definition aes_rcon :: "nat \<Rightarrow> u8" where
  "aes_rcon n = (gf_double ^^ (n - 1)) 1"

function aes_key_word :: "(u8 \<Rightarrow> u8) \<Rightarrow> u8 list \<Rightarrow> nat \<Rightarrow> u8 list" where
  "aes_key_word S key i =
     (if i < 4 then take 4 (drop (i * 4) key)
      else map2 (XOR) (aes_key_word S key (i - 4))
        (let t = aes_key_word S key (i - 1)
         in if i mod 4 = 0 then map2 (XOR) (map S (rotate1 t)) [aes_rcon (i div 4), 0, 0, 0] else t))"
  by pat_completeness auto
termination by (relation "measure (\<lambda>(S, key, i). i)") auto

declare aes_key_word.simps [simp del]

definition aes_round_key :: "(u8 \<Rightarrow> u8) \<Rightarrow> u8 list \<Rightarrow> nat \<Rightarrow> u8 list" where
  "aes_round_key S key r = concat (map (aes_key_word S key) [r * 4..<r * 4 + 4])"

definition aes_shift_rows :: "u8 list \<Rightarrow> u8 list" where
  "aes_shift_rows s = map (\<lambda>p. s ! (4 * ((p div 4 + p mod 4) mod 4) + p mod 4)) [0..<16]"

definition aes_mix_columns :: "u8 list \<Rightarrow> u8 list" where
  "aes_mix_columns s = map (\<lambda>p. let c = p div 4 * 4; r = p mod 4
     in gf_mul (s ! (c + r)) 2 XOR gf_mul (s ! (c + (r + 1) mod 4)) 3 XOR
        s ! (c + (r + 2) mod 4) XOR s ! (c + (r + 3) mod 4)) [0..<16]"

definition aes_encrypt :: "(u8 \<Rightarrow> u8) \<Rightarrow> u8 list \<Rightarrow> u8 list \<Rightarrow> u8 list" where
  "aes_encrypt S key s =
     (let s = map2 (XOR) s (aes_round_key S key 0);
          s = foldl (\<lambda>s r. map2 (XOR) (aes_mix_columns (aes_shift_rows (map S s))) (aes_round_key S key r)) s [1..<10]
      in map2 (XOR) (aes_shift_rows (map S s)) (aes_round_key S key 10))"

lemma length_4_list: "length w = 4 \<Longrightarrow> w = [w ! 0, w ! 1, w ! 2, w ! 3]"
  by (auto simp: length_Suc_conv numeral_eq_Suc)

lemma aes_word_set_word:
  assumes "length w = 4" "4 * i + 4 \<le> length rk"
  shows "aes_word (aes_set_word rk i w) j = (if j = i then w else aes_word rk j)"
proof (cases "j = i")
  case True
  then show ?thesis using assms by (subst (5) length_4_list) (simp_all add: aes_word_def aes_set_word_def)
next
  case False
  have "i * 4 + k \<noteq> j * 4 + l" if "k < 4" "l < 4" for k l
    using that False by presburger
  from this[of 0] this[of 1] this[of 2] this[of 3] show ?thesis
    using False by (simp add: aes_word_def aes_set_word_def)
qed

lemma aes_set_word_length [simp]: "length (aes_set_word rk i w) = length rk"
  by (simp add: aes_set_word_def)

lemma aes_word_length [simp]: "length (aes_word rk i) = 4"
  by (simp add: aes_word_def)

lemma key_temp_length: "length t = 4 \<Longrightarrow> length (key_temp i t) = 4"
  by (simp add: key_temp_def)

lemma Rcon_table: "\<forall>n \<in> {1..10}. Rcon ! n = aes_rcon n"
proof -
  have "map (\<lambda>n. Rcon ! n) [1..<11] = map aes_rcon [1..<11]"
    unfolding aes_rcon_def Rcon_def by (simp add: upt_rec gf_double_def numeral_eq_Suc[symmetric])
  then show ?thesis by (simp add: map_eq_conv) 
qed

lemma key_temp_ref:
  assumes "length t = 4" "4 \<le> i" "i < 44"
  shows "key_temp i t = (if i mod 4 = 0
    then map2 (XOR) (map getSBoxValue (rotate1 t)) [aes_rcon (i div 4), 0, 0, 0] else t)"
proof -
  have "Rcon ! (i div 4) = aes_rcon (i div 4)"
    by (rule bspec[OF Rcon_table]) (use assms(2,3) in auto)
  then show ?thesis
    using assms(1) by (subst (1 2 3) length_4_list[of t]) (simp_all add: key_temp_def)
qed

lemma aes_key_word_length: "length key = 16 \<Longrightarrow> i < 44 \<Longrightarrow> length (aes_key_word S key i) = 4"
proof (induction i rule: less_induct)
  case (less i)
  show ?case
    by (subst aes_key_word.simps) (use less in \<open>auto simp: Let_def\<close>)
qed

lemma key_step_ref:
  assumes "length rk = 176" "\<forall>j < i. aes_word rk j = aes_key_word getSBoxValue key j" "4 \<le> i" "i < 44"
    "length key = 16"
  shows "length (key_step rk i) = 176 \<and>
    (\<forall>j < Suc i. aes_word (key_step rk i) j = aes_key_word getSBoxValue key j)"
proof -
  have "map2 (XOR) (aes_word rk (i - 4)) (key_temp i (aes_word rk (i - 1))) = aes_key_word getSBoxValue key i"
    using assms aes_key_word_length[of key "i - 1" getSBoxValue]
    by (subst aes_key_word.simps) (simp add: key_temp_ref Let_def)
  then show ?thesis
    using assms aes_key_word_length[of key i getSBoxValue]
    by (auto simp: key_step_def aes_word_set_word less_Suc_eq)
qed

lemma key_steps_ref:
  assumes "length rk = 176" "\<forall>j < 4. aes_word rk j = aes_key_word getSBoxValue key j" "length key = 16" "n \<le> 40"
  shows "length (foldl key_step rk [4..<4 + n]) = 176 \<and>
    (\<forall>j < 4 + n. aes_word (foldl key_step rk [4..<4 + n]) j = aes_key_word getSBoxValue key j)"
  using assms(4)
proof (induction n)
  case (Suc n)
  then show ?case
    using key_step_ref[of "foldl key_step rk [4..<4 + n]" "4 + n" key] assms(3)
    by (simp add: upt_Suc_append[of 4 "4 + n", simplified] del: upt_Suc)
qed (use assms in simp)

lemma KeyExpansion_words:
  assumes "length (RoundKey g) = 176" "length (Key g) = 16" "j < 44"
  shows "aes_word (RoundKey (KeyExpansion g)) j = aes_key_word getSBoxValue (Key g) j"
    and "length (RoundKey (KeyExpansion g)) = 176"
proof -
  let ?rk = "foldl (\<lambda>rk i. aes_set_word rk i (aes_word (Key g) i)) (RoundKey g) [0..<4]"
  have first: "aes_word (Key g) j = aes_key_word getSBoxValue (Key g) j" if "j < 4" for j
    using that assms(2) by (subst aes_key_word.simps)
      (auto simp: aes_word_def take_Suc_conv_app_nth numeral_eq_Suc intro!: nth_equalityI)
  have "aes_word ?rk j = aes_key_word getSBoxValue (Key g) j" if "j \<in> {0, 1, 2, 3}" for j
    using assms(1) that by (auto simp: upt_rec aes_word_set_word first aes_key_word_length assms(2))
  then have "\<forall>j < 4. aes_word ?rk j = aes_key_word getSBoxValue (Key g) j"
    by (simp add: less_Suc_eq numeral_eq_Suc)
  moreover have "length ?rk = 176"
    using assms(1) by (simp add: upt_rec)
  ultimately show "aes_word (RoundKey (KeyExpansion g)) j = aes_key_word getSBoxValue (Key g) j"
    and "length (RoundKey (KeyExpansion g)) = 176"
    using key_steps_ref[of ?rk "Key g" 40] assms by (simp_all add: KeyExpansion_def Let_def)
qed

lemma aes_round_key_nth:
  assumes "length (RoundKey g) = 176" "length (Key g) = 16" "r \<le> 10"
  shows "aes_round_key getSBoxValue (Key g) r = map (\<lambda>p. RoundKey (KeyExpansion g) ! (r * 4 * 4 + p)) [0..<16]"
proof -
  have "aes_round_key getSBoxValue (Key g) r = concat (map (aes_word (RoundKey (KeyExpansion g))) [r * 4..<r * 4 + 4])"
    using KeyExpansion_words(1)[OF assms(1,2)] assms(3)
    by (auto simp: aes_round_key_def intro!: arg_cong[where f = concat])
  then show ?thesis
    by (simp add: aes_word_def upt_rec add.commute numeral_eq_Suc)
qed

lemma AddRoundKey_ref:
  assumes "length (RoundKey g) = 176" "length (Key g) = 16" "r \<le> 10" "length s = 16"
  shows "AddRoundKey (RoundKey (KeyExpansion g)) r s = map2 (XOR) s (aes_round_key getSBoxValue (Key g) r)"
  unfolding aes_round_key_nth[OF assms(1-3)]
  by (rule nth_equalityI) (use assms(4) in \<open>simp_all add: AddRoundKey_def\<close>)

lemma ShiftRows_ref: "length s = 16 \<Longrightarrow> ShiftRows s = aes_shift_rows s"
  by (erule list16) (simp add: ShiftRows_def aes_shift_rows_def upt_rec)

lemma gf_mul_2_3: "gf_mul x 2 = xtime x" "gf_mul x 3 = x XOR xtime x"
  unfolding gf_mul_eval xtime_gf by simp_all

lemma MixColumns_ref: "length s = 16 \<Longrightarrow> MixColumns s = aes_mix_columns s"
  by (erule list16)
    (simp add: MixColumns_explicit mix4_def aes_mix_columns_def upt_rec gf_mul_2_3 xtime_xor xor_cancel Let_def ac_simps)

lemma aes_ref_lengths [simp]:
  "length (aes_shift_rows s) = 16" "length (aes_mix_columns s) = 16"
  by (simp_all add: aes_shift_rows_def aes_mix_columns_def)

lemma Cipher_ref:
  assumes "length (RoundKey g) = 176" "length (Key g) = 16" "length s = 16"
  shows "Cipher (RoundKey (KeyExpansion g)) s = aes_encrypt getSBoxValue (Key g) s"
  using assms
  by (simp add: Cipher_def aes_encrypt_def Let_def upt_rec AddRoundKey_ref[symmetric] ShiftRows_ref[symmetric]
      MixColumns_ref[symmetric] flip: SubBytes_def)

section \<open>CBC mode\<close>

function cbc_dec :: "(u8 list \<Rightarrow> u8 list) \<Rightarrow> u8 list \<Rightarrow> u8 list \<Rightarrow> u8 list" where
  "cbc_dec D v c =
     (if length c < 16 then []
      else map2 (XOR) (D (take 16 c)) v @ cbc_dec D (take 16 c) (drop 16 c))"
  by pat_completeness auto
termination by (relation "measure (\<lambda>(D, v, c). length c)") auto

function cbc_enc :: "(u8 list \<Rightarrow> u8 list) \<Rightarrow> u8 list \<Rightarrow> u8 list \<Rightarrow> u8 list" where
  "cbc_enc E v p =
     (if length p < 16 then []
      else let c = E (map2 (XOR) (take 16 p) v) in c @ cbc_enc E c (drop 16 p))"
  by pat_completeness auto
termination by (relation "measure (\<lambda>(E, v, p). length p)") auto

declare cbc_dec.simps [simp del] cbc_enc.simps [simp del]
  cbc_encrypt_loop.simps [simp del] cbc_decrypt_loop.simps [simp del]

definition cbc_iv :: "u8 list \<Rightarrow> u8 list \<Rightarrow> u8 list" where
  "cbc_iv v c = (if c = [] then v else drop (length c - 16) c)"

lemma cbc_dec_short [simp]: "length c < 16 \<Longrightarrow> cbc_dec D v c = []"
  by (simp add: cbc_dec.simps)

lemma cbc_enc_short [simp]: "length c < 16 \<Longrightarrow> cbc_enc E v c = []"
  by (simp add: cbc_enc.simps)

lemma cbc_dec_block:
  "length b = 16 \<Longrightarrow> cbc_dec D v (b @ c) = map2 (XOR) (D b) v @ cbc_dec D b c"
  by (subst cbc_dec.simps) simp

lemma cbc_enc_block:
  "length b = 16 \<Longrightarrow> cbc_enc E v (b @ p) = E (map2 (XOR) b v) @ cbc_enc E (E (map2 (XOR) b v)) p"
  by (subst cbc_enc.simps) (simp add: Let_def)

lemma blocks_induct [consumes 1, case_names nil block]:
  assumes "length c mod 16 = 0" "P []"
    "\<And>b c. length b = 16 \<Longrightarrow> length c mod 16 = 0 \<Longrightarrow> P c \<Longrightarrow> P (b @ c)"
  shows "P c"
  using assms(1)
proof (induction c rule: length_induct)
  case (1 c)
  show ?case
  proof (cases "c = []")
    case False
    then have "16 \<le> length c" using 1(2) by (metis length_greater_0_conv mod_less not_le not_less_zero)
    then show ?thesis
      using assms(3)[of "take 16 c" "drop 16 c"] 1 False by (simp add: le_mod_geq)
  qed (use assms(2) in simp)
qed

lemma cbc_dec_length:
  "length c mod 16 = 0 \<Longrightarrow> (\<And>b. length (D b) = 16) \<Longrightarrow> length v = 16 \<Longrightarrow> length (cbc_dec D v c) = length c"
  by (induction c arbitrary: v rule: blocks_induct) (simp_all add: cbc_dec_block)

lemma cbc_enc_length:
  "length c mod 16 = 0 \<Longrightarrow> (\<And>b. length (E b) = 16) \<Longrightarrow> length (cbc_enc E v c) = length c"
  by (induction c arbitrary: v rule: blocks_induct) (simp_all add: cbc_enc_block)

lemma blocks_pos: "length c mod 16 = 0 \<Longrightarrow> c \<noteq> [] \<Longrightarrow> 16 \<le> length c"
  by (metis length_greater_0_conv mod_less not_le not_less_zero)

lemma cbc_iv_block: "length b = 16 \<Longrightarrow> length c mod 16 = 0 \<Longrightarrow> cbc_iv v (b @ c) = cbc_iv b c"
  using blocks_pos[of c] by (auto simp: cbc_iv_def)

lemma cbc_dec_append:
  assumes "length c mod 16 = 0"
  shows "cbc_dec D v (c @ d) = cbc_dec D v c @ cbc_dec D (cbc_iv v c) d"
  using assms
proof (induction c arbitrary: v rule: blocks_induct)
  case (block b c)
  then show ?case by (simp add: cbc_dec_block cbc_iv_block)
qed (simp add: cbc_iv_def)

lemma cbc_iv_append:
  "length c mod 16 = 0 \<Longrightarrow> length d mod 16 = 0 \<Longrightarrow> cbc_iv v (c @ d) = cbc_iv (cbc_iv v c) d"
  using blocks_pos[of c] blocks_pos[of d] by (auto simp: cbc_iv_def)

lemma cbc_iv_length: "length v = 16 \<Longrightarrow> length c mod 16 = 0 \<Longrightarrow> length (cbc_iv v c) = 16"
  using blocks_pos[of c] by (auto simp: cbc_iv_def)

lemma map2_xor_cancel: "length a = length b \<Longrightarrow> map2 (XOR) (map2 (XOR) a b) b = a" for a b :: "u8 list"
  by (intro nth_equalityI) (simp_all add: xor.assoc)

lemma cbc_dec_enc:
  assumes "length p mod 16 = 0" "length v = 16" "\<And>b. length b = 16 \<Longrightarrow> D (E b) = b" "\<And>b. length (E b) = 16"
  shows "cbc_dec D v (cbc_enc E v p) = p"
  using assms(1,2)
proof (induction p arbitrary: v rule: blocks_induct)
  case (block b p)
  then show ?case by (simp add: cbc_enc_block cbc_dec_block assms(3,4) map2_xor_cancel)
qed simp

subsection \<open>The loops\<close>

lemma unat_add_16: "unat i + 16 < 2 ^ 32 \<Longrightarrow> unat (i + 16) = unat i + 16" for i :: u32
  by (simp add: unat_word_ariths)

lemma split_block:
  "k * 16 + 16 \<le> n \<Longrightarrow> p + n \<le> length xs \<Longrightarrow>
   take (16 + k * 16) (drop p xs) = take 16 (drop p xs) @ take (k * 16) (drop (p + 16) xs)"
  by (simp add: take_add add.commute)

lemma cbc_decrypt_loop_blocks:
  assumes "unat n \<le> unat i + 16 * k" "0 < k \<Longrightarrow> unat i + 16 * k < unat n + 16" "unat n + 16 \<le> 2 ^ 32"
    "p + 16 * k \<le> length inp" "length outp = length inp" "length (Iv g) = 16"
  shows "cbc_decrypt_loop i n p g outp inp =
    Some (p + 16 * k, g\<lparr>Iv := cbc_iv (Iv g) (take (16 * k) (drop p inp))\<rparr>,
      take p outp @ cbc_dec (InvCipher (RoundKey g)) (Iv g) (take (16 * k) (drop p inp)) @ drop (p + 16 * k) outp)"
  using assms
proof (induction k arbitrary: i p g outp)
  case 0
  then have "\<not> i < n" by (simp add: word_less_nat_alt)
  then show ?case by (simp add: cbc_decrypt_loop.simps cbc_iv_def)
next
  case (Suc k)
  let ?D = "InvCipher (RoundKey g)" and ?b = "take 16 (drop p inp)"
  let ?out = "take p outp @ map2 (XOR) (?D ?b) (Iv g) @ drop (p + 16) outp"
  have less: "i < n" and i16: "unat (i + 16) = unat i + 16"
    using Suc.prems by (auto simp: word_less_nat_alt unat_add_16)
  have b: "length ?b = 16" using Suc.prems by simp
  have tail: "take (16 + 16 * k) (drop p inp) = ?b @ take (16 * k) (drop (p + 16) inp)"
    by (simp add: take_add add.commute)
  have lenout: "length ?out = length inp" using Suc.prems b by simp
  have step: "cbc_decrypt_loop i n p g outp inp =
    cbc_decrypt_loop (i + 16) n (p + 16) (g\<lparr>Iv := ?b\<rparr>) ?out inp"
    using Suc.prems less b
    by (subst cbc_decrypt_loop.simps)
      (simp add: BlockCopy_def aes_on_state_def XorWithIv_def rd_block_def wr_block_def)
  have perm: "16 * k + (p + 16) = p + (16 + 16 * k)" by simp
  have iv: "cbc_iv (Iv g) (?b @ take (16 * k) (drop (p + 16) inp)) = cbc_iv ?b (take (16 * k) (drop (p + 16) inp))"
    by (rule cbc_iv_block[OF b]) (use Suc.prems in simp)
  show ?case
    unfolding step
    by (subst Suc.IH)
      (use Suc.prems i16 b lenout in \<open>simp_all add: tail cbc_dec_block iv min_def perm\<close>)
qed

lemma cbc_encrypt_loop_blocks:
  assumes "unat n \<le> unat i + 16 * k" "0 < k \<Longrightarrow> unat i + 16 * k < unat n + 16" "unat n + 16 \<le> 2 ^ 32"
    "p + 16 * k \<le> length inp" "length outp = length inp" "length (Iv g) = 16"
  shows "\<exists>inp' v. length inp' = length inp \<and> cbc_encrypt_loop i n p g outp inp =
    Some (p + 16 * k, g\<lparr>Iv := v\<rparr>,
      take p outp @ cbc_enc (Cipher (RoundKey g)) (Iv g) (take (16 * k) (drop p inp)) @ drop (p + 16 * k) outp,
      inp')"
  using assms
proof (induction k arbitrary: i p g outp inp)
  case 0
  then have "\<not> i < n" by (simp add: word_less_nat_alt)
  then show ?case
    by (intro exI[of _ inp] exI[of _ "Iv g"]) (simp add: cbc_encrypt_loop.simps)
next
  case (Suc k)
  let ?E = "Cipher (RoundKey g)" and ?b = "take 16 (drop p inp)"
  let ?x = "map2 (XOR) ?b (Iv g)"
  let ?in = "take p inp @ ?x @ drop (p + 16) inp"
  let ?out = "take p outp @ ?E ?x @ drop (p + 16) outp"
  have less: "i < n" and i16: "unat (i + 16) = unat i + 16"
    using Suc.prems by (auto simp: word_less_nat_alt unat_add_16)
  have b: "length ?b = 16" using Suc.prems by simp
  have tail: "take (16 + 16 * k) (drop p inp) = ?b @ take (16 * k) (drop (p + 16) inp)"
    by (simp add: take_add add.commute)
  have len: "length ?in = length inp" "length ?out = length inp" using Suc.prems b by simp_all
  have step: "cbc_encrypt_loop i n p g outp inp =
    cbc_encrypt_loop (i + 16) n (p + 16) (g\<lparr>Iv := ?E ?x\<rparr>) ?out ?in"
    using Suc.prems less b
    by (subst cbc_encrypt_loop.simps)
      (simp add: BlockCopy_def aes_on_state_def XorWithIv_def rd_block_def wr_block_def)
  have rest: "drop (p + 16) ?in = drop (p + 16) inp"
    using Suc.prems b by simp
  obtain inp' v where "length inp' = length ?in"
    "cbc_encrypt_loop (i + 16) n (p + 16) (g\<lparr>Iv := ?E ?x\<rparr>) ?out ?in =
      Some (p + 16 + 16 * k, g\<lparr>Iv := ?E ?x, Iv := v\<rparr>,
       take (p + 16) ?out @ cbc_enc ?E (?E ?x) (take (16 * k) (drop (p + 16) ?in)) @ drop (p + 16 + 16 * k) ?out, inp')"
    using Suc.IH[of "i + 16" "p + 16" ?in ?out "g\<lparr>Iv := ?E ?x\<rparr>"] Suc.prems i16 len by fastforce
  then show ?case
    unfolding step rest using Suc.prems b len
    by (auto simp: tail cbc_enc_block add.assoc min_def add.commute[of "16 * k" 16])
qed

subsection \<open>The buffer functions\<close>

definition aes_schedule :: "u8 list \<Rightarrow> u8 list" where
  "aes_schedule key = concat (map (aes_key_word getSBoxValue key) [0..<44])"

lemma concat_words: "length rk = 4 * n \<Longrightarrow> concat (map (aes_word rk) [0..<n]) = rk"
proof (induction n arbitrary: rk)
  case (Suc n)
  have last4: "drop (4 * n) rk = aes_word rk n"
    using Suc.prems by (intro nth_equalityI) (auto simp: aes_word_def nth_append less_Suc_eq numeral_eq_Suc mult.commute)
  have "aes_word (take (4 * n) rk) i = aes_word rk i" if "i < n" for i
    using that by (simp add: aes_word_def)
  then have "map (aes_word (take (4 * n) rk)) [0..<n] = map (aes_word rk) [0..<n]"
    by simp
  then have "concat (map (aes_word rk) [0..<n]) = take (4 * n) rk"
    using Suc.IH[of "take (4 * n) rk"] Suc.prems by (metis diff_add_inverse2 length_take le_add2 min.absorb2 mult_Suc_right)
  then show ?case
    using last4 by (simp) (metis append_take_drop_id)
qed simp

lemma RoundKey_KeyExpansion:
  assumes "length (RoundKey g) = 176" "length (Key g) = 16"
  shows "RoundKey (KeyExpansion g) = aes_schedule (Key g)"
proof -
  have "map (aes_word (RoundKey (KeyExpansion g))) [0..<44] = map (aes_key_word getSBoxValue (Key g)) [0..<44]"
    using KeyExpansion_words(1)[OF assms] by simp
  then show ?thesis
    unfolding aes_schedule_def using concat_words[of "RoundKey (KeyExpansion g)" 44] KeyExpansion_words(2)[OF assms, of 0]
    by (simp del: map_eq_conv)
qed

lemma KeyExpansion_frame: "Iv (KeyExpansion g) = Iv g"
  by (simp add: KeyExpansion_def Let_def)

definition aes_ready :: "aes_t \<Rightarrow> bool" where
  "aes_ready g \<longleftrightarrow> length (RoundKey g) = 176 \<and> length (Iv g) = 16"

lemma aes_setup_none: "aes_setup None None g = Some g"
  by (simp add: aes_setup_def)

lemma aes_setup_some:
  assumes "aes_ready g" "length key = 16" "length iv = 16"
  shows "\<exists>g'. aes_setup (Some key) (Some iv) g = Some g' \<and> RoundKey g' = aes_schedule key \<and> Iv g' = iv \<and> aes_ready g'"
  using assms KeyExpansion_words(2)[of "g\<lparr>Key := key\<rparr>" 0] RoundKey_KeyExpansion[of "g\<lparr>Key := key\<rparr>"]
  by (simp add: aes_setup_def rd_block_def aes_ready_def)

definition aes_cbc_plain :: "u8 list \<Rightarrow> u8 list \<Rightarrow> u8 list \<Rightarrow> u8 list" where
  "aes_cbc_plain key iv c = cbc_dec (InvCipher (aes_schedule key)) iv c"

definition aes_cbc_cipher :: "u8 list \<Rightarrow> u8 list \<Rightarrow> u8 list \<Rightarrow> u8 list" where
  "aes_cbc_cipher key iv p = cbc_enc (Cipher (aes_schedule key)) iv p"

lemma BlockCopy_first: "16 \<le> length inp \<Longrightarrow> 16 \<le> length outp \<Longrightarrow>
    BlockCopy outp inp 0 = Some (take 16 inp @ drop 16 outp)"
  by (simp add: BlockCopy_def rd_block_def wr_block_def)

lemma unat_length: "length d < 2 ^ 32 \<Longrightarrow> unat (of_nat (length d) :: u32) = length d"
  by (simp add: unat_of_nat)

lemma length_block_bound: "length d mod 16 = 0 \<Longrightarrow> length d < 2 ^ 32 \<Longrightarrow> length d + 16 \<le> 2 ^ 32"
  by (auto simp: mod_eq_0_iff_dvd elim!: dvdE)

lemma remainders_0: "length d mod 16 = 0 \<Longrightarrow> length d < 2 ^ 32 \<Longrightarrow> unat ((of_nat (length d) :: u32) mod 16) = 0"
  by (simp add: unat_mod unat_of_nat)

lemma CBC_decrypt_buffer:
  assumes init: "aes_setup key iv g = Some g1" "aes_ready g1"
    and len: "length d mod 16 = 0" "d \<noteq> []" "length d < 2 ^ 32" "length outp = length d"
  shows "AES128_CBC_decrypt_buffer g outp d (of_nat (length d)) key iv =
    Some (g1\<lparr>Iv := cbc_iv (Iv g1) d\<rparr>, cbc_dec (InvCipher (RoundKey g1)) (Iv g1) d)"
proof -
  obtain k where k: "length d = 16 * k" using len(1) by (auto simp: mod_eq_0_iff_dvd elim!: dvdE)
  define N :: u32 where "N = of_nat (length d)"
  have N: "unat N = 16 * k" "unat (N mod 16) = 0"
    unfolding N_def unat_length[OF len(3)] remainders_0[OF len(1,3)] by (simp_all add: k)
  let ?o = "take 16 d @ drop 16 outp"
  have "cbc_decrypt_loop 0 N 0 g1 ?o d =
    Some (0 + 16 * k, g1\<lparr>Iv := cbc_iv (Iv g1) (take (16 * k) (drop 0 d))\<rparr>,
      take 0 ?o @ cbc_dec (InvCipher (RoundKey g1)) (Iv g1) (take (16 * k) (drop 0 d)) @ drop (0 + 16 * k) ?o)"
    by (rule cbc_decrypt_loop_blocks)
      (use len k init(2) blocks_pos[OF len(1,2)] length_block_bound[OF len(1,3)] in \<open>simp_all add: N aes_ready_def\<close>)
  then show ?thesis
    unfolding N_def[symmetric] using len blocks_pos[OF len(1,2)] k
    by (simp add: AES128_CBC_decrypt_buffer_def BlockCopy_first init N Let_def)
qed

lemma CBC_encrypt_buffer:
  assumes init: "aes_setup key iv g = Some g1" "aes_ready g1"
    and len: "length d mod 16 = 0" "d \<noteq> []" "length d < 2 ^ 32" "length outp = length d"
  shows "\<exists>g' d'. AES128_CBC_encrypt_buffer g outp d (of_nat (length d)) key iv =
    Some (g', cbc_enc (Cipher (RoundKey g1)) (Iv g1) d, d')"
proof -
  obtain k where k: "length d = 16 * k" using len(1) by (auto simp: mod_eq_0_iff_dvd elim!: dvdE)
  define N :: u32 where "N = of_nat (length d)"
  have N: "unat N = 16 * k" "unat (N mod 16) = 0"
    unfolding N_def unat_length[OF len(3)] remainders_0[OF len(1,3)] by (simp_all add: k)
  let ?o = "take 16 d @ drop 16 outp"
  have "\<exists>d' v. length d' = length d \<and> cbc_encrypt_loop 0 N 0 g1 ?o d =
    Some (0 + 16 * k, g1\<lparr>Iv := v\<rparr>,
      take 0 ?o @ cbc_enc (Cipher (RoundKey g1)) (Iv g1) (take (16 * k) (drop 0 d)) @ drop (0 + 16 * k) ?o, d')"
    by (rule cbc_encrypt_loop_blocks)
      (use len k init(2) blocks_pos[OF len(1,2)] length_block_bound[OF len(1,3)] in \<open>simp_all add: N aes_ready_def\<close>)
  then show ?thesis
    unfolding N_def[symmetric] using len blocks_pos[OF len(1,2)] k
    by (auto simp: AES128_CBC_encrypt_buffer_def BlockCopy_first init N Let_def)
qed

lemma CBC_decrypt_partial:
  assumes init: "aes_ready g"
    and n: "unat n mod 16 \<noteq> 0" "unat n + 16 \<le> 2 ^ 32"
    and len: "length d = (unat n + 15) div 16 * 16" "length outp = length d"
  shows "AES128_CBC_decrypt_buffer g outp d n None None = None"
proof -
  define k where "k = (unat n + 15) div 16"
  have pos: "0 < unat n" using n(1) by (cases "unat n = 0") auto
  have k: "unat n \<le> 16 * k" "16 * k < unat n + 16" "0 < k"
    using pos unfolding k_def by auto
  have d: "length d = 16 * k" using len(1) unfolding k_def by simp
  have r: "unat (n mod 16) \<noteq> 0" using n(1) by (simp add: unat_mod)
  let ?o = "take 16 d @ drop 16 outp"
  have "cbc_decrypt_loop 0 n 0 g ?o d =
    Some (0 + 16 * k, g\<lparr>Iv := cbc_iv (Iv g) (take (16 * k) (drop 0 d))\<rparr>,
      take 0 ?o @ cbc_dec (InvCipher (RoundKey g)) (Iv g) (take (16 * k) (drop 0 d)) @ drop (0 + 16 * k) ?o)"
    by (rule cbc_decrypt_loop_blocks) (use init n k d len(2) in \<open>simp_all add: aes_ready_def\<close>)
  then show ?thesis
    using r d k len(2)
    by (simp add: AES128_CBC_decrypt_buffer_def BlockCopy_first aes_setup_none Let_def)
      (simp add: BlockCopy_def rd_block_def)
qed

section \<open>The decrypter interface\<close>

text \<open>What a client of a decrypter relies on: started with a key and an initialisation vector and fed
  with an encrypted message in pieces of whole blocks, it returns the pieces of the plain message.
  The relation \<open>at\<close> says which key and vector a context was started with and what it consumed.\<close>

locale block_decrypter =
  fixes start :: "'c \<Rightarrow> u8 list option \<Rightarrow> u8 list option \<Rightarrow> (bool \<times> 'c) option"
    and update :: "'c \<Rightarrow> u8 list \<Rightarrow> u8 list \<Rightarrow> u32 \<Rightarrow> (bool \<times> 'c \<times> u8 list) option"
    and plain :: "u8 list \<Rightarrow> u8 list \<Rightarrow> u8 list \<Rightarrow> u8 list"
    and ready :: "'c \<Rightarrow> bool"
    and at :: "u8 list \<Rightarrow> u8 list \<Rightarrow> u8 list \<Rightarrow> 'c \<Rightarrow> bool"
  assumes start: "ready c \<Longrightarrow> length key = 16 \<Longrightarrow> length iv = 16 \<Longrightarrow>
      \<exists>c'. start c (Some key) (Some iv) = Some (True, c') \<and> at key iv [] c'"
    and update: "at key iv m c \<Longrightarrow> length d mod 16 = 0 \<Longrightarrow> d \<noteq> [] \<Longrightarrow> length d < 2 ^ 32 \<Longrightarrow>
      length buf = length d \<Longrightarrow>
      \<exists>c' p. update c d buf (of_nat (length d)) = Some (True, c', p) \<and>
        plain key iv (m @ d) = plain key iv m @ p \<and> at key iv (m @ d) c'"
    and plain_nil: "plain key iv [] = []"
begin

fun pieces :: "'c \<Rightarrow> u8 list list \<Rightarrow> u8 list list option" where
  "pieces c [] = Some []"
| "pieces c (d # ds) = do {
     (ok, c, p) \<leftarrow> update c d (replicate (length d) 0) (of_nat (length d));
     ps \<leftarrow> pieces c ds;
     Some (p # ps) }"

lemma pieces_at:
  "at key iv m c \<Longrightarrow> \<forall>d \<in> set ds. length d mod 16 = 0 \<and> d \<noteq> [] \<and> length d < 2 ^ 32 \<Longrightarrow>
     \<exists>ps. pieces c ds = Some ps \<and> plain key iv (m @ concat ds) = plain key iv m @ concat ps"
proof (induction ds arbitrary: m c)
  case (Cons d ds)
  obtain c1 p where 1: "update c d (replicate (length d) 0) (of_nat (length d)) = Some (True, c1, p)"
    "plain key iv (m @ d) = plain key iv m @ p" "at key iv (m @ d) c1"
    using update[OF Cons.prems(1), of d "replicate (length d) 0"] Cons.prems(2) by auto
  obtain ps where "pieces c1 ds = Some ps"
    "plain key iv ((m @ d) @ concat ds) = plain key iv (m @ d) @ concat ps"
    using Cons.IH[OF 1(3)] Cons.prems(2) by auto
  then show ?case using 1 by simp
qed simp

theorem message_of_pieces:
  assumes "ready c" "length key = 16" "length iv = 16"
    "\<forall>d \<in> set ds. length d mod 16 = 0 \<and> d \<noteq> [] \<and> length d < 2 ^ 32"
  shows "\<exists>c1 ps. start c (Some key) (Some iv) = Some (True, c1) \<and> pieces c1 ds = Some ps \<and>
    concat ps = plain key iv (concat ds)"
  using start[OF assms(1-3)] pieces_at[OF _ assms(4), of key iv "[]"] plain_nil by fastforce

end

definition aes_at :: "u8 list \<Rightarrow> u8 list \<Rightarrow> u8 list \<Rightarrow> aes_t \<Rightarrow> bool" where
  "aes_at key iv m g \<longleftrightarrow> aes_ready g \<and> RoundKey g = aes_schedule key \<and> Iv g = cbc_iv iv m \<and>
     length m mod 16 = 0 \<and> length iv = 16"

text \<open>The array that \<open>fd_crypto_aes_decrypt_initialize\<close> leaves uninitialised on its stack holds zeros
  here; its contents are overwritten before they are read.\<close>

definition aes_start :: "aes_t \<Rightarrow> u8 list option \<Rightarrow> u8 list option \<Rightarrow> (bool \<times> aes_t) option" where
  "aes_start = fd_crypto_aes_decrypt_initialize (replicate 16 0)"

lemma aes_initialize:
  assumes "aes_ready g" "length key = 16" "length iv = 16" "length stack = 16"
  shows "\<exists>g'. fd_crypto_aes_decrypt_initialize stack g (Some key) (Some iv) = Some (True, g') \<and> aes_at key iv [] g'"
  using aes_setup_some[OF assms(1-3)] assms(4)
  by (auto simp: fd_crypto_aes_decrypt_initialize_def AES128_CBC_decrypt_buffer_def BlockCopy_first
      cbc_decrypt_loop.simps aes_at_def cbc_iv_def aes_ready_def)

lemma aes_update:
  assumes "aes_at key iv m g" "length d mod 16 = 0" "d \<noteq> []" "length d < 2 ^ 32" "length buf = length d"
  shows "\<exists>g' p. fd_crypto_aes_decrypt_update g d buf (of_nat (length d)) = Some (True, g', p) \<and>
    aes_cbc_plain key iv (m @ d) = aes_cbc_plain key iv m @ p \<and> aes_at key iv (m @ d) g'"
proof -
  have g: "aes_ready g" "RoundKey g = aes_schedule key" "Iv g = cbc_iv iv m" "length m mod 16 = 0" "length iv = 16"
    using assms(1) by (simp_all add: aes_at_def)
  have "length (cbc_iv (Iv g) d) = 16"
    using g assms(2) by (simp add: cbc_iv_length)
  then have "aes_at key iv (m @ d) (g\<lparr>Iv := cbc_iv (Iv g) d\<rparr>)"
    using g assms(2) by (simp add: aes_at_def aes_ready_def cbc_iv_append mod_add_eq[symmetric, of "length m"])
  then show ?thesis
    using CBC_decrypt_buffer[OF aes_setup_none g(1) assms(2-5)] g
    by (auto simp: fd_crypto_aes_decrypt_update_def aes_cbc_plain_def cbc_dec_append)
qed

interpretation aes_decrypter: block_decrypter aes_start fd_crypto_aes_decrypt_update aes_cbc_plain aes_ready aes_at
  by unfold_locales
    (use aes_initialize aes_update in \<open>auto simp: aes_start_def aes_cbc_plain_def\<close>)

section \<open>Properties\<close>

fun aes_decrypt_pieces :: "aes_t \<Rightarrow> u8 list list \<Rightarrow> u8 list list option" where
  "aes_decrypt_pieces c [] = Some []"
| "aes_decrypt_pieces c (d # ds) = do {
     (ok, c, p) \<leftarrow> fd_crypto_aes_decrypt_update c d (replicate (length d) 0) (of_nat (length d));
     ps \<leftarrow> aes_decrypt_pieces c ds;
     Some (p # ps) }"

lemma aes_decrypt_pieces_eq: "aes_decrypt_pieces c ds = aes_decrypter.pieces c ds"
  by (induction ds arbitrary: c) (simp_all add: fun_eq_iff)

fun cut_at :: "nat list \<Rightarrow> 'a list \<Rightarrow> 'a list list" where
  "cut_at [] xs = []"
| "cut_at (n # ns) xs = take n xs # cut_at ns (drop n xs)"

lemma concat_cut: "sum_list ns = length xs \<Longrightarrow> concat (cut_at ns xs) = xs"
  by (induction ns arbitrary: xs) auto

lemma cut_pieces:
  "sum_list ns = length xs \<Longrightarrow> d \<in> set (cut_at ns xs) \<Longrightarrow> length d \<in> set ns \<and> length d \<le> length xs"
proof (induction ns arbitrary: xs)
  case (Cons n ns)
  have "sum_list ns = length (drop n xs)" using Cons.prems(1) by simp
  then show ?case using Cons.IH[of "drop n xs"] Cons.prems by auto
qed simp

lemma aes_plain_cipher:
  "length p mod 16 = 0 \<Longrightarrow> length iv = 16 \<Longrightarrow> aes_cbc_plain key iv (aes_cbc_cipher key iv p) = p"
  unfolding aes_cbc_plain_def aes_cbc_cipher_def by (rule cbc_dec_enc) (simp_all add: InvCipher_Cipher)

text \<open>C11: the cipher is AES-128 as FIPS 197 defines it: the S-box table holds the affine images of the
  inverses in the field, and key schedule, row shifts and column mixing, which the code does in place
  with byte moves, are the standard's formulas.\<close>

theorem Cipher_is_AES:
  assumes "length (RoundKey g) = 176" "length (Key g) = 16" "length s = 16"
  shows "\<exists>S. is_aes_sbox S \<and> Cipher (RoundKey (KeyExpansion g)) s = aes_encrypt S (Key g) s"
  using Cipher_ref[OF assms] is_aes_sbox_getSBoxValue by blast

theorem Cipher_is_AES_witness:
  "\<exists>S. is_aes_sbox S \<and>
     Cipher (RoundKey (KeyExpansion \<lparr>Key = replicate 16 1, RoundKey = replicate 176 0, Iv = replicate 16 0\<rparr>)) (replicate 16 2) =
     aes_encrypt S (replicate 16 1) (replicate 16 2)"
  using Cipher_is_AES[of "\<lparr>Key = replicate 16 1, RoundKey = replicate 176 0, Iv = replicate 16 0\<rparr>" "replicate 16 2"]
  by simp

text \<open>C12: the boot loader's decrypter undoes the encryption. Encrypting a message of whole blocks in CBC
  mode returns; the decrypter, started with the same key and vector in any state of its global
  variables and fed with the encrypted message cut into any pieces of whole blocks, returns the pieces
  of the message.\<close>

theorem aes_cbc_roundtrip:
  assumes "aes_ready g" "aes_ready h" "length key = 16" "length iv = 16" "length stack = 16"
    and "length p mod 16 = 0" "p \<noteq> []" "length p < 2 ^ 32" "length buf = length p"
    and "sum_list ns = length p" "\<forall>n \<in> set ns. n mod 16 = 0 \<and> 0 < n"
  shows "\<exists>g' c p' h' ps. AES128_CBC_encrypt_buffer g buf p (of_nat (length p)) (Some key) (Some iv) = Some (g', c, p') \<and>
    fd_crypto_aes_decrypt_initialize stack h (Some key) (Some iv) = Some (True, h') \<and>
    aes_decrypt_pieces h' (cut_at ns c) = Some ps \<and> concat ps = p"
proof -
  let ?c = "aes_cbc_cipher key iv p"
  obtain g1 where "aes_setup (Some key) (Some iv) g = Some g1" "RoundKey g1 = aes_schedule key" "Iv g1 = iv" "aes_ready g1"
    using aes_setup_some[OF assms(1,3,4)] by blast
  then obtain g' p' where 1: "AES128_CBC_encrypt_buffer g buf p (of_nat (length p)) (Some key) (Some iv) = Some (g', ?c, p')"
    using CBC_encrypt_buffer[of "Some key" "Some iv" g g1 p buf] assms(6-9) by (auto simp: aes_cbc_cipher_def)
  obtain h' where h': "fd_crypto_aes_decrypt_initialize stack h (Some key) (Some iv) = Some (True, h')"
    "aes_at key iv [] h'"
    using aes_initialize[OF assms(2-5)] by blast
  have c: "length ?c = length p"
    unfolding aes_cbc_cipher_def by (rule cbc_enc_length[OF assms(6)]) simp
  have "\<forall>d \<in> set (cut_at ns ?c). length d mod 16 = 0 \<and> d \<noteq> [] \<and> length d < 2 ^ 32"
    using cut_pieces[of ns ?c] assms(8,10,11) c by fastforce
  then obtain ps where ps: "aes_decrypt_pieces h' (cut_at ns ?c) = Some ps" "concat ps = aes_cbc_plain key iv ?c"
    using aes_decrypter.pieces_at[OF h'(2), of "cut_at ns ?c"] assms(10) c unfolding aes_decrypt_pieces_eq
    by (auto simp: aes_decrypter.plain_nil concat_cut)
  then show ?thesis
    using 1 h'(1) aes_plain_cipher[OF assms(6,4)] by auto
qed

theorem aes_cbc_roundtrip_witness:
  "\<exists>g' c p' h' ps. AES128_CBC_encrypt_buffer \<lparr>Key = [], RoundKey = replicate 176 0, Iv = replicate 16 0\<rparr>
      (replicate 48 0) (replicate 48 5) 48 (Some (replicate 16 1)) (Some (replicate 16 2)) = Some (g', c, p') \<and>
    fd_crypto_aes_decrypt_initialize (replicate 16 9) \<lparr>Key = [], RoundKey = replicate 176 3, Iv = replicate 16 4\<rparr>
         (Some (replicate 16 1)) (Some (replicate 16 2)) = Some (True, h') \<and>
    aes_decrypt_pieces h' (cut_at [16, 32] c) = Some ps \<and> concat ps = replicate 48 5"
  using aes_cbc_roundtrip[of "\<lparr>Key = [], RoundKey = replicate 176 0, Iv = replicate 16 0\<rparr>"
    "\<lparr>Key = [], RoundKey = replicate 176 3, Iv = replicate 16 4\<rparr>" "replicate 16 1" "replicate 16 2" "replicate 16 9"
    "replicate 48 5" "replicate 48 0" "[16, 32]"]
  by (simp add: aes_ready_def)

text \<open>a length that is not a multiple of 16 makes the decrypter run past both buffers, although they
  have room for the padded blocks: the loop has already processed the last, partial block when the
  code for the remainder starts a further one.\<close>

theorem aes_decrypt_partial_overruns:
  assumes "aes_ready g" "unat n mod 16 \<noteq> 0" "unat n + 16 \<le> 2 ^ 32"
    "length d = (unat n + 15) div 16 * 16" "length buf = length d"
  shows "fd_crypto_aes_decrypt_update g d buf n = None"
  using CBC_decrypt_partial[OF assms] by (simp add: fd_crypto_aes_decrypt_update_def)

theorem aes_decrypt_partial_overruns_witness:
  "fd_crypto_aes_decrypt_update \<lparr>Key = [], RoundKey = replicate 176 0, Iv = replicate 16 0\<rparr>
     (replicate 32 1) (replicate 32 2) 20 = None"
  by (rule aes_decrypt_partial_overruns) (simp_all add: aes_ready_def)

end
