(* ===== verification/FD_Boot.thy ===== *)
theory FD_Boot imports FD_Prelude begin

text \<open>
  \<open>subsys/boot/src/fd_boot.c\<close>: the boot loader core. It checks the executable in flash and the update
  in the update storage, decides what to do, installs the update, and starts the executable.

  Everything outside the file is reached through \<open>fd_boot_update_interface_t\<close>, a record of functions;
  so it is here. A function that can fail has the type \<open>('a, 'w) boot\<close>: from a state (the caller's
  error code, the contents an uninitialised local variable is found with, and the rest of the world
  \<open>'w\<close>) to the result. The outer \<open>None\<close> is undefined behaviour (an access outside an array), the
  inner \<open>None\<close> is \<open>return false\<close>. \<open>bnd\<close> is \<open>if (!f(...)) return false;\<close> followed by the rest.

  A hash or decrypt context is the byte array the caller passes; a reader has its own context, which
  the decrypting reader of the update check changes. The progress callback gets the two integers
  whose floating point quotient the code passes. A packed struct read from storage is parsed by
  little endian field; \<open>memcmp\<close> on such structs, which have no padding, is equality of the records.
\<close>

section \<open>Results and effects\<close>

record 'w boot_state =
  boot_code :: u32
  boot_stack :: "u8 list"
  boot_world :: 'w

type_synonym ('a, 'w) boot = "'w boot_state \<Rightarrow> ('a option \<times> 'w boot_state) option"

definition bnd :: "('a, 'w) boot \<Rightarrow> ('a \<Rightarrow> ('b, 'w) boot) \<Rightarrow> ('b, 'w) boot" where
  "bnd m k s = (case m s of
     None \<Rightarrow> None
   | Some (None, s) \<Rightarrow> Some (None, s)
   | Some (Some a, s) \<Rightarrow> k a s)"

definition ret :: "'a \<Rightarrow> ('a, 'w) boot" where
  "ret a s = Some (Some a, s)"

definition fail :: "('a, 'w) boot" where
  "fail s = Some (None, s)"

definition undef :: "('a, 'w) boot" where
  "undef s = None"

text \<open>A memory access that may leave its array.\<close>

definition checked :: "'a option \<Rightarrow> ('a, 'w) boot" where
  "checked x = (case x of None \<Rightarrow> undef | Some a \<Rightarrow> ret a)"

text \<open>A callback without result.\<close>

definition effect :: "('w \<Rightarrow> 'w) \<Rightarrow> (unit, 'w) boot" where
  "effect f s = Some (Some (), s\<lparr>boot_world := f (boot_world s)\<rparr>)"

text \<open>The contents of an uninitialised local array of \<open>n\<close> bytes.\<close>

definition uninitialized :: "nat \<Rightarrow> (u8 list, 'w) boot" where
  "uninitialized n s = Some (Some (take n (boot_stack s @ replicate n 0)), s)"

text \<open>A function with an output parameter, which the caller sees also when the function returns
  \<open>false\<close>: \<open>r\<close> is its value when nothing but the initial \<open>memset\<close> wrote it.\<close>

definition with_result :: "'r \<Rightarrow> (bool \<times> 'r, 'w) boot \<Rightarrow> (bool \<times> 'r, 'w) boot" where
  "with_result r m s = (case m s of
     None \<Rightarrow> None
   | Some (None, s) \<Rightarrow> Some (Some (False, r), s)
   | Some (Some x, s) \<Rightarrow> Some (Some x, s))"

section \<open>Data\<close>

record fd_boot_range_t =
  range_location :: u32
  range_length :: u32

record fd_boot_version_t =
  version_major :: u32
  version_minor :: u32
  version_patch :: u32

record fd_boot_executable_metadata_t =
  em_version :: fd_boot_version_t
  em_length :: u32
  em_hash :: "u8 list"

record fd_boot_update_metadata_t =
  um_executable_metadata :: fd_boot_executable_metadata_t
  um_hash :: "u8 list"
  um_flags :: u32
  um_initialization_vector :: "u8 list"

definition boot_u32 :: "u8 list \<Rightarrow> nat \<Rightarrow> u32" where
  "boot_u32 bs i = ucast (bs ! i) OR push_bit 8 (ucast (bs ! (i + 1))) OR
     push_bit 16 (ucast (bs ! (i + 2))) OR push_bit 24 (ucast (bs ! (i + 3)))"

definition parse_executable_metadata :: "u8 list \<Rightarrow> fd_boot_executable_metadata_t" where
  "parse_executable_metadata bs =
     \<lparr>em_version = \<lparr>version_major = boot_u32 bs 0, version_minor = boot_u32 bs 4, version_patch = boot_u32 bs 8\<rparr>,
      em_length = boot_u32 bs 12, em_hash = take 20 (drop 16 bs)\<rparr>"

definition parse_update_metadata :: "u8 list \<Rightarrow> fd_boot_update_metadata_t" where
  "parse_update_metadata bs =
     \<lparr>um_executable_metadata = parse_executable_metadata bs, um_hash = take 20 (drop 36 bs),
      um_flags = boot_u32 bs 56, um_initialization_vector = take 16 (drop 60 bs)\<rparr>"

definition fd_boot_executable_metadata_header_magic :: u32 where
  "fd_boot_executable_metadata_header_magic = 0xb001da1a"
definition fd_boot_executable_metadata_header_version :: u32 where
  "fd_boot_executable_metadata_header_version = 1"
definition fd_boot_executable_trailer_magic :: u32 where
  "fd_boot_executable_trailer_magic = 0xb001e00d"
definition fd_boot_update_metadata_header_magic :: u32 where
  "fd_boot_update_metadata_header_magic = 0xab09da1e"
definition fd_boot_update_metadata_header_version :: u32 where
  "fd_boot_update_metadata_header_version = 1"
definition fd_boot_update_trailer_magic :: u32 where
  "fd_boot_update_trailer_magic = 0xda1ee00d"
definition fd_boot_update_metadata_flag_encrypted :: u32 where
  "fd_boot_update_metadata_flag_encrypted = 1"

datatype fd_boot_get_executable_metadata_issue_t =
    executable_issue_trailer_magic
  | executable_issue_header_magic
  | executable_issue_header_version
  | executable_issue_length
  | executable_issue_hash

record fd_boot_get_executable_metadata_result_t =
  ex_is_valid :: bool
  ex_issue :: fd_boot_get_executable_metadata_issue_t
  ex_metadata :: fd_boot_executable_metadata_t

datatype fd_boot_get_update_metadata_issue_t =
    update_issue_trailer_magic
  | update_issue_header_magic
  | update_issue_header_version
  | update_issue_length
  | update_issue_hash
  | update_issue_metadata

record fd_boot_get_update_metadata_result_t =
  up_is_valid :: bool
  up_issue :: fd_boot_get_update_metadata_issue_t
  up_metadata :: fd_boot_update_metadata_t

datatype fd_boot_update_action_t = action_none | action_run | action_install

datatype fd_boot_update_issue_t = update_issue_firmware | update_issue_update

record fd_boot_update_result_t =
  ur_is_valid :: bool
  ur_issue :: fd_boot_update_issue_t

text \<open>The results after \<open>memset(result, 0, sizeof(*result))\<close>.\<close>

definition zero_executable_result :: fd_boot_get_executable_metadata_result_t where
  "zero_executable_result = \<lparr>ex_is_valid = False, ex_issue = executable_issue_trailer_magic,
     ex_metadata = parse_executable_metadata (replicate 36 0)\<rparr>"

definition zero_update_result :: fd_boot_get_update_metadata_result_t where
  "zero_update_result = \<lparr>up_is_valid = False, up_issue = update_issue_trailer_magic,
     up_metadata = parse_update_metadata (replicate 76 0)\<rparr>"

definition zero_result :: fd_boot_update_result_t where
  "zero_result = \<lparr>ur_is_valid = False, ur_issue = update_issue_firmware\<rparr>"

section \<open>Interfaces\<close>

record fd_boot_info_executable_t =
  ie_location :: u32
  ie_metadata_offset :: u32

record 'w fd_boot_info_interface_t =
  get_executable_storage :: "(fd_boot_range_t, 'w) boot"
  get_executable :: "(fd_boot_info_executable_t, 'w) boot"
  get_update_storage :: "(fd_boot_range_t, 'w) boot"
  get_decryption :: "(u8 list, 'w) boot"

record 'w fd_boot_hash_interface_t =
  hash_initialize :: "u8 list \<Rightarrow> (u8 list, 'w) boot"
  hash_update :: "u8 list \<Rightarrow> u8 list \<Rightarrow> (u8 list, 'w) boot"
  hash_finalize :: "u8 list \<Rightarrow> (u8 list \<times> u8 list, 'w) boot"

record 'w fd_boot_decrypt_interface_t =
  decrypt_initialize :: "u8 list \<Rightarrow> u8 list \<Rightarrow> u8 list \<Rightarrow> (u8 list, 'w) boot"
  decrypt_update :: "u8 list \<Rightarrow> u8 list \<Rightarrow> (u8 list \<times> u8 list, 'w) boot"
  decrypt_finalize :: "u8 list \<Rightarrow> (u8 list, 'w) boot"

type_synonym ('c, 'w) fd_boot_read = "'c \<Rightarrow> u32 \<Rightarrow> u32 \<Rightarrow> ('c \<times> u8 list, 'w) boot"

record ('c, 'w) fd_boot_reader_interface_t =
  reader_context :: 'c
  reader_read :: "('c, 'w) fd_boot_read"

record 'w fd_boot_flasher_interface_t =
  flasher_erase :: "u32 \<Rightarrow> u32 \<Rightarrow> u32 \<Rightarrow> (u32, 'w) boot"
  flasher_write :: "u32 \<Rightarrow> u8 list \<Rightarrow> (unit, 'w) boot"
  flasher_finalize :: "(unit, 'w) boot"

record fd_boot_action_interface_t =
  can_upgrade :: "fd_boot_version_t \<Rightarrow> fd_boot_version_t \<Rightarrow> bool"
  can_downgrade :: "fd_boot_version_t \<Rightarrow> fd_boot_version_t \<Rightarrow> bool"
  can_install :: "fd_boot_version_t \<Rightarrow> bool"

record 'w fd_boot_executor_interface_t =
  executor_cleanup :: "(unit, 'w) boot"
  executor_start :: "u32 \<Rightarrow> (unit, 'w) boot"

record 'w fd_boot_update_interface_t =
  bi_info :: "'w fd_boot_info_interface_t"
  bi_progress :: "u32 \<Rightarrow> u32 \<Rightarrow> 'w \<Rightarrow> 'w"
  bi_feed :: "'w \<Rightarrow> 'w"
  bi_hash :: "'w fd_boot_hash_interface_t"
  bi_decrypt :: "'w fd_boot_decrypt_interface_t"
  bi_executable_reader :: "(unit, 'w) fd_boot_reader_interface_t"
  bi_executable_flasher :: "'w fd_boot_flasher_interface_t"
  bi_update_reader :: "(unit, 'w) fd_boot_reader_interface_t"
  bi_action :: fd_boot_action_interface_t
  bi_executor :: "'w fd_boot_executor_interface_t"

section \<open>Checking a hash\<close>

definition fd_boot_set_error :: "u32 \<Rightarrow> (unit, 'w) boot" where
  "fd_boot_set_error code s = Some (Some (), s\<lparr>boot_code := code\<rparr>)"

text \<open>\<open>fd_boot_set_error(error, 1); return false;\<close>\<close>

definition boot_error :: "('a, 'w) boot" where
  "boot_error = bnd (fd_boot_set_error 1) (\<lambda>_. fail)"

definition fd_boot_is_valid_subrange :: "fd_boot_range_t \<Rightarrow> fd_boot_range_t \<Rightarrow> bool" where
  "fd_boot_is_valid_subrange r subrange \<longleftrightarrow>
     range_location r \<le> range_location subrange \<and>
     range_location subrange + range_length subrange \<le> range_location r + range_length r"

text \<open>The bytes of a read land at the start of a local array; \<open>memset\<close> clears the zero range in it.\<close>

definition check_hash_zero :: "fd_boot_range_t \<Rightarrow> u32 \<Rightarrow> u32 \<Rightarrow> u8 list \<Rightarrow> u8 list option" where
  "check_hash_zero zero location n data =
     (if location \<le> range_location zero \<and> range_location zero + range_length zero \<le> location + n
      then wr_block data (unat (range_location zero - location)) (replicate (unat (range_length zero)) 0)
      else Some data)"

lemma block_step_less:
  fixes location end' m :: u32
  assumes "location < end'" "0 < m" "m \<le> end' - location"
  shows "unat (end' - (location + m)) < unat (end' - location)"
proof -
  have "unat (end' - location - m) = unat (end' - location) - unat m"
    using assms(3) by (rule unat_sub)
  moreover have "0 < unat m" "unat m \<le> unat (end' - location)"
    using assms(2,3) by (simp_all add: word_less_nat_alt word_le_nat_alt)
  ultimately show ?thesis
    by (simp add: diff_diff_eq)
qed

lemma block_left: "location < end' \<Longrightarrow> 0 < unat (end' - location)" for location :: u32
  by (simp add: unat_sub word_less_nat_alt word_le_nat_alt)

function check_hash_loop ::
  "'w fd_boot_update_interface_t \<Rightarrow> ('c, 'w) fd_boot_read \<Rightarrow> fd_boot_range_t \<Rightarrow> u32 \<Rightarrow> u32 \<Rightarrow>
   u8 list \<Rightarrow> 'c \<Rightarrow> (u8 list \<times> 'c, 'w) boot" where
  "check_hash_loop i read zero location end' hash_context context =
     (if location < end' then
        bnd (effect (bi_feed i)) (\<lambda>_.
        let n = end' - location; n = (if n > 64 then 64 else n) in
        bnd (uninitialized 64) (\<lambda>data.
        bnd (read context location n) (\<lambda>(context, bytes).
        bnd (checked (wr_block data 0 bytes)) (\<lambda>data.
        bnd (checked (check_hash_zero zero location n data)) (\<lambda>data.
        bnd (checked (rd_block data 0 (unat n))) (\<lambda>bytes.
        bnd (hash_update (bi_hash i) hash_context bytes) (\<lambda>hash_context.
        check_hash_loop i read zero (location + n) end' hash_context context)))))))
      else ret (hash_context, context))"
  by pat_completeness auto
termination
  by (relation "measure (\<lambda>(i, read, zero, location, end', hash_context, context). unat (end' - location))")
    (auto simp: block_step_less block_left simp del: unat_sub)

declare check_hash_loop.simps [simp del]

text \<open>The only issue of \<open>fd_boot_check_hash_issue_t\<close> is a mismatch, so that the result is the flag
  \<open>is_valid\<close>. The second component is the reader's context afterwards.\<close>

definition fd_boot_check_hash ::
  "'w fd_boot_update_interface_t \<Rightarrow> ('c, 'w) fd_boot_reader_interface_t \<Rightarrow> fd_boot_range_t \<Rightarrow> fd_boot_range_t \<Rightarrow>
   fd_boot_range_t \<Rightarrow> u8 list \<Rightarrow> (bool \<times> 'c, 'w) boot" where
  "fd_boot_check_hash i reader storage_range r zero hash =
     (if \<not> fd_boot_is_valid_subrange storage_range r then boot_error
      else
        bnd (uninitialized 128) (\<lambda>hash_context.
        bnd (hash_initialize (bi_hash i) hash_context) (\<lambda>hash_context.
        bnd (check_hash_loop i (reader_read reader) zero (range_location r) (range_location r + range_length r)
               hash_context (reader_context reader)) (\<lambda>(hash_context, context).
        bnd (hash_finalize (bi_hash i) hash_context) (\<lambda>(actual_hash, hash_context).
        ret (actual_hash = hash, context))))))"

section \<open>The executable\<close>

definition fd_boot_get_executable_metadata ::
  "'w fd_boot_update_interface_t \<Rightarrow> (bool \<times> fd_boot_get_executable_metadata_result_t, 'w) boot" where
  "fd_boot_get_executable_metadata i =
     with_result zero_executable_result (
     let result = zero_executable_result; reader = bi_executable_reader i in
     bnd (get_executable_storage (bi_info i)) (\<lambda>storage.
     bnd (get_executable (bi_info i)) (\<lambda>info.
     let metadata_header_range = \<lparr>range_location = ie_location info + ie_metadata_offset info, range_length = 8\<rparr> in
     if \<not> fd_boot_is_valid_subrange storage metadata_header_range then boot_error
     else
     bnd (reader_read reader (reader_context reader) (range_location metadata_header_range)
            (range_length metadata_header_range)) (\<lambda>(_, header).
     if boot_u32 header 0 \<noteq> fd_boot_executable_metadata_header_magic
     then ret (True, result\<lparr>ex_issue := executable_issue_header_magic\<rparr>)
     else if boot_u32 header 4 \<noteq> fd_boot_executable_metadata_header_version
     then ret (True, result\<lparr>ex_issue := executable_issue_header_version\<rparr>)
     else
     let metadata_range = \<lparr>range_location = ie_location info + ie_metadata_offset info + 8, range_length = 36\<rparr> in
     if \<not> fd_boot_is_valid_subrange storage metadata_range then boot_error
     else
     bnd (reader_read reader (reader_context reader) (range_location metadata_range)
            (range_length metadata_range)) (\<lambda>(_, bytes).
     let metadata = parse_executable_metadata bytes in
     if em_length metadata mod 64 \<noteq> 0
     then ret (False, result\<lparr>ex_issue := executable_issue_length\<rparr>)
     else
     let trailer_range = \<lparr>range_location = ie_location info + em_length metadata - 4, range_length = 4\<rparr> in
     if \<not> fd_boot_is_valid_subrange storage trailer_range
     then ret (True, result\<lparr>ex_issue := executable_issue_length\<rparr>)
     else
     bnd (reader_read reader (reader_context reader) (range_location trailer_range)
            (range_length trailer_range)) (\<lambda>(_, trailer).
     if boot_u32 trailer 0 \<noteq> fd_boot_executable_trailer_magic
     then ret (True, result\<lparr>ex_issue := executable_issue_trailer_magic\<rparr>)
     else
     let executable_range = \<lparr>range_location = ie_location info, range_length = em_length metadata\<rparr>;
         hash_range = \<lparr>range_location = range_location executable_range + ie_metadata_offset info + 24,
                       range_length = 20\<rparr> in
     bnd (fd_boot_check_hash i reader storage executable_range hash_range (em_hash metadata)) (\<lambda>(is_valid, _).
     if \<not> is_valid then ret (True, result\<lparr>ex_issue := executable_issue_hash\<rparr>)
     else ret (True, result\<lparr>ex_is_valid := True, ex_metadata := metadata\<rparr>))))))))"

section \<open>The update\<close>

text \<open>The context of the decrypting reader: the wrapped reader's context and the decrypt context.\<close>

definition fd_boot_read_and_decrypt ::
  "(unit, 'w) fd_boot_reader_interface_t \<Rightarrow> 'w fd_boot_decrypt_interface_t \<Rightarrow> (u8 list, 'w) fd_boot_read" where
  "fd_boot_read_and_decrypt reader decrypt_interface decrypt_context location n =
     bnd (reader_read reader (reader_context reader) location n) (\<lambda>(_, data).
     if n \<noteq> 64 then boot_error
     else
       bnd (decrypt_update decrypt_interface decrypt_context data) (\<lambda>(decrypt_context, out).
       ret (decrypt_context, out)))"

function decrypt_range_loop ::
  "'w fd_boot_update_interface_t \<Rightarrow> u32 \<Rightarrow> u32 \<Rightarrow> nat \<Rightarrow> u8 list \<Rightarrow> u8 list \<Rightarrow> (u8 list \<times> u8 list, 'w) boot" where
  "decrypt_range_loop i location end' data_offset decrypt_context data =
     (if location < end' then
        bnd (effect (bi_feed i)) (\<lambda>_.
        let n = end' - location; n = (if n > 16 then 16 else n) in
        bnd (reader_read (bi_update_reader i) (reader_context (bi_update_reader i)) location n) (\<lambda>(_, bytes).
        bnd (decrypt_update (bi_decrypt i) decrypt_context bytes) (\<lambda>(decrypt_context, out).
        bnd (checked (wr_block data data_offset out)) (\<lambda>data.
        decrypt_range_loop i (location + n) end' (data_offset + unat n) decrypt_context data))))
      else ret (decrypt_context, data))"
  by pat_completeness auto
termination
  by (relation "measure (\<lambda>(i, location, end', data_offset, decrypt_context, data). unat (end' - location))")
    (auto simp: block_step_less block_left simp del: unat_sub)

declare decrypt_range_loop.simps [simp del]

definition fd_boot_decrypt_range ::
  "'w fd_boot_update_interface_t \<Rightarrow> fd_boot_update_metadata_t \<Rightarrow> fd_boot_range_t \<Rightarrow> u8 list \<Rightarrow> (u8 list, 'w) boot" where
  "fd_boot_decrypt_range i metadata r data =
     bnd (get_decryption (bi_info i)) (\<lambda>key.
     bnd (uninitialized 16) (\<lambda>decrypt_context.
     bnd (decrypt_initialize (bi_decrypt i) decrypt_context key (um_initialization_vector metadata)) (\<lambda>decrypt_context.
     bnd (decrypt_range_loop i (range_location r) (range_location r + range_length r) 0 decrypt_context data)
       (\<lambda>(decrypt_context, data).
     bnd (decrypt_finalize (bi_decrypt i) decrypt_context) (\<lambda>_.
     ret data)))))"

definition encrypted :: "fd_boot_update_metadata_t \<Rightarrow> bool" where
  "encrypted metadata \<longleftrightarrow> um_flags metadata AND fd_boot_update_metadata_flag_encrypted \<noteq> 0"

text \<open>The check of an update that is not encrypted, and of one that is, after the whole update has
  been checked.\<close>

definition check_plain_update ::
  "'w fd_boot_update_interface_t \<Rightarrow> fd_boot_range_t \<Rightarrow> fd_boot_update_metadata_t \<Rightarrow>
   (bool \<times> fd_boot_get_update_metadata_result_t, 'w) boot" where
  "check_plain_update i storage metadata =
     (let result = zero_update_result;
          header_length = 8 + 76 + 0;
          executable_range = \<lparr>range_location = range_location storage + header_length,
                              range_length = em_length (um_executable_metadata metadata)\<rparr>;
          hash_range = \<lparr>range_location = 0, range_length = 20\<rparr> in
      bnd (fd_boot_check_hash i (bi_update_reader i) storage executable_range hash_range
             (em_hash (um_executable_metadata metadata))) (\<lambda>(is_valid, _).
      if \<not> is_valid then ret (True, result\<lparr>up_issue := update_issue_hash\<rparr>)
      else ret (True, result\<lparr>up_is_valid := True, up_metadata := metadata\<rparr>)))"

definition check_encrypted_update ::
  "'w fd_boot_update_interface_t \<Rightarrow> fd_boot_range_t \<Rightarrow> fd_boot_update_metadata_t \<Rightarrow>
   (bool \<times> fd_boot_get_update_metadata_result_t, 'w) boot" where
  "check_encrypted_update i storage metadata =
     (let result = zero_update_result in
      bnd (uninitialized 128) (\<lambda>decrypted.
      bnd (fd_boot_decrypt_range i metadata \<lparr>range_location = 128, range_length = 128\<rparr> decrypted) (\<lambda>decrypted.
      bnd (checked (rd_block decrypted 8 76)) (\<lambda>bytes.
      let decrypted_metadata = parse_update_metadata bytes;
          expected_metadata = metadata\<lparr>um_hash := replicate 20 0\<rparr> in
      if expected_metadata \<noteq> decrypted_metadata then ret (True, result\<lparr>up_issue := update_issue_metadata\<rparr>)
      else
      bnd (get_decryption (bi_info i)) (\<lambda>key.
      bnd (uninitialized 16) (\<lambda>decrypt_context.
      bnd (decrypt_initialize (bi_decrypt i) decrypt_context key (um_initialization_vector metadata)) (\<lambda>_.
      let reader = \<lparr>reader_context = replicate 16 0,
                    reader_read = fd_boot_read_and_decrypt (bi_update_reader i) (bi_decrypt i)\<rparr>;
          executable_length = em_length (um_executable_metadata metadata);
          executable_range = \<lparr>range_location = range_location storage + range_length storage - 64 - executable_length,
                              range_length = executable_length\<rparr> in
      bnd (get_executable (bi_info i)) (\<lambda>info.
      let executable_hash_range = \<lparr>range_location = range_location executable_range + ie_metadata_offset info + 24,
                                   range_length = 20\<rparr> in
      bnd (fd_boot_check_hash i reader storage executable_range executable_hash_range
             (em_hash (um_executable_metadata metadata))) (\<lambda>(is_valid, context).
      bnd (decrypt_finalize (bi_decrypt i) context) (\<lambda>_.
      if \<not> is_valid then ret (True, result\<lparr>up_issue := update_issue_hash\<rparr>)
      else ret (True, result\<lparr>up_is_valid := True, up_metadata := metadata\<rparr>)))))))))))"

text \<open>A read of the header that fails sets the error code once more.\<close>

definition or_error :: "('a, 'w) boot \<Rightarrow> ('a, 'w) boot" where
  "or_error m s = (case m s of Some (None, s) \<Rightarrow> boot_error s | x \<Rightarrow> x)"

definition fd_boot_get_update_metadata ::
  "'w fd_boot_update_interface_t \<Rightarrow> (bool \<times> fd_boot_get_update_metadata_result_t, 'w) boot" where
  "fd_boot_get_update_metadata i =
     with_result zero_update_result (
     let result = zero_update_result; reader = bi_update_reader i in
     bnd (get_update_storage (bi_info i)) (\<lambda>storage.
     let metadata_header_range = \<lparr>range_location = range_location storage, range_length = 8\<rparr> in
     if \<not> fd_boot_is_valid_subrange storage metadata_header_range then boot_error
     else
     bnd (or_error (reader_read reader (reader_context reader) (range_location metadata_header_range)
            (range_length metadata_header_range))) (\<lambda>(_, header).
     if boot_u32 header 0 \<noteq> fd_boot_update_metadata_header_magic
     then ret (True, result\<lparr>up_issue := update_issue_header_magic\<rparr>)
     else if boot_u32 header 4 \<noteq> fd_boot_update_metadata_header_version
     then ret (True, result\<lparr>up_issue := update_issue_header_version\<rparr>)
     else
     let metadata_range = \<lparr>range_location = range_location storage + 8, range_length = 76\<rparr> in
     if \<not> fd_boot_is_valid_subrange storage metadata_range then boot_error
     else
     bnd (reader_read reader (reader_context reader) (range_location metadata_range)
            (range_length metadata_range)) (\<lambda>(_, bytes).
     let metadata = parse_update_metadata bytes in
     if em_length (um_executable_metadata metadata) mod 64 \<noteq> 0
     then ret (True, result\<lparr>up_issue := update_issue_length\<rparr>)
     else
     let executable_length = range_length storage - 64 - 128;
         executable_length = (if encrypted metadata then executable_length - 128 else executable_length) in
     if em_length (um_executable_metadata metadata) \<noteq> executable_length
     then ret (True, result\<lparr>up_issue := update_issue_length\<rparr>)
     else
     let trailer_range = \<lparr>range_location = range_location storage + range_length storage - 4, range_length = 4\<rparr> in
     if \<not> fd_boot_is_valid_subrange storage trailer_range
     then ret (True, result\<lparr>up_issue := update_issue_length\<rparr>)
     else
     bnd (reader_read reader (reader_context reader) (range_location trailer_range)
            (range_length trailer_range)) (\<lambda>(_, trailer).
     if boot_u32 trailer 0 \<noteq> fd_boot_update_trailer_magic
     then ret (True, result\<lparr>up_issue := update_issue_trailer_magic\<rparr>)
     else
     let hash_range = \<lparr>range_location = range_location storage + 44, range_length = 20\<rparr> in
     bnd (fd_boot_check_hash i reader storage storage hash_range (um_hash metadata)) (\<lambda>(is_valid, _).
     if \<not> is_valid then ret (True, result\<lparr>up_issue := update_issue_hash\<rparr>)
     else if \<not> encrypted metadata then check_plain_update i storage metadata
     else check_encrypted_update i storage metadata))))))"

section \<open>What to do\<close>

definition fd_boot_version_is_eq :: "fd_boot_version_t \<Rightarrow> fd_boot_version_t \<Rightarrow> bool" where
  "fd_boot_version_is_eq a b \<longleftrightarrow> version_major a = version_major b \<and> version_minor a = version_minor b \<and>
     version_patch a = version_patch b"

definition fd_boot_version_is_lt :: "fd_boot_version_t \<Rightarrow> fd_boot_version_t \<Rightarrow> bool" where
  "fd_boot_version_is_lt a b =
     (if version_major a < version_major b then True
      else if version_major a > version_major b then False
      else if version_minor a < version_minor b then True
      else if version_minor a > version_minor b then False
      else version_patch a < version_patch b)"

definition fd_boot_get_action ::
  "fd_boot_action_interface_t \<Rightarrow> fd_boot_get_executable_metadata_result_t \<Rightarrow>
   fd_boot_get_update_metadata_result_t \<Rightarrow> fd_boot_update_action_t" where
  "fd_boot_get_action interface executable update =
     (if ex_is_valid executable \<and> up_is_valid update then
        let executable_version = em_version (ex_metadata executable);
            update_version = em_version (um_executable_metadata (up_metadata update)) in
        if fd_boot_version_is_eq update_version executable_version then action_run
        else if fd_boot_version_is_lt executable_version update_version then
          (if can_upgrade interface executable_version update_version then action_install else action_run)
        else
          (if can_downgrade interface executable_version update_version then action_install else action_run)
      else if ex_is_valid executable \<and> \<not> up_is_valid update then action_run
      else if \<not> ex_is_valid executable \<and> up_is_valid update then
        (if can_install interface (em_version (um_executable_metadata (up_metadata update)))
         then action_install else action_none)
      else action_none)"

section \<open>Installing\<close>

function install_loop ::
  "'w fd_boot_update_interface_t \<Rightarrow> fd_boot_update_metadata_t \<Rightarrow> u32 \<Rightarrow> u32 \<Rightarrow> u32 \<Rightarrow> u32 \<Rightarrow> u32 \<Rightarrow> u32 \<Rightarrow>
   u8 list \<Rightarrow> (u8 list, 'w) boot" where
  "install_loop i metadata block_count block_index flash_location next_erase_location update_location update_end
       decrypt_context =
     (if update_location < update_end then
        bnd (effect (bi_feed i)) (\<lambda>_.
        let n = update_end - update_location; n = (if n > 16 then 16 else n) in
        bnd (reader_read (bi_update_reader i) (reader_context (bi_update_reader i)) update_location n) (\<lambda>(_, data).
        bnd (decrypt_update (bi_decrypt i) decrypt_context data) (\<lambda>(decrypt_context, out).
        bnd (if next_erase_location = flash_location
             then flasher_erase (bi_executable_flasher i) flash_location (em_length (um_executable_metadata metadata))
                    next_erase_location
             else ret next_erase_location) (\<lambda>next_erase_location.
        bnd (flasher_write (bi_executable_flasher i) flash_location out) (\<lambda>_.
        bnd (effect (bi_progress i (block_index + 1) block_count)) (\<lambda>_.
        install_loop i metadata block_count (block_index + 1) (flash_location + n) next_erase_location
          (update_location + n) update_end decrypt_context))))))
      else ret decrypt_context)"
  by pat_completeness auto
termination
  by (relation "measure (\<lambda>(i, metadata, block_count, block_index, flash_location, next_erase_location,
      update_location, update_end, decrypt_context). unat (update_end - update_location))")
    (auto simp: block_step_less block_left simp del: unat_sub)

declare install_loop.simps [simp del]

definition fd_boot_install ::
  "'w fd_boot_update_interface_t \<Rightarrow> fd_boot_update_metadata_t \<Rightarrow> (unit, 'w) boot" where
  "fd_boot_install i metadata =
     bnd (get_decryption (bi_info i)) (\<lambda>key.
     bnd (uninitialized 16) (\<lambda>decrypt_context.
     bnd (decrypt_initialize (bi_decrypt i) decrypt_context key (um_initialization_vector metadata)) (\<lambda>decrypt_context.
     bnd (get_executable (bi_info i)) (\<lambda>info.
     let executable_length = em_length (um_executable_metadata metadata);
         block_count = executable_length div 16;
         block_count = (if block_count < 1 then 1 else block_count) in
     bnd (effect (bi_progress i 0 block_count)) (\<lambda>_.
     let flash_location = ie_location info;
         next_erase_location = flash_location in
     bnd (get_update_storage (bi_info i)) (\<lambda>storage.
     let update_location = range_location storage + range_length storage - 64 - executable_length;
         update_end = update_location + executable_length in
     bnd (install_loop i metadata block_count 0 flash_location next_erase_location update_location update_end
            decrypt_context) (\<lambda>decrypt_context.
     bnd (flasher_finalize (bi_executable_flasher i)) (\<lambda>_.
     bnd (decrypt_finalize (bi_decrypt i) decrypt_context) (\<lambda>_.
     ret ())))))))))"

section \<open>Update and start\<close>

definition fd_boot_update :: "'w fd_boot_update_interface_t \<Rightarrow> (bool \<times> fd_boot_update_result_t, 'w) boot" where
  "fd_boot_update i =
     with_result zero_result (
     let result = zero_result in
     bnd (fd_boot_get_executable_metadata i) (\<lambda>(ok, executable).
     if \<not> ok then fail
     else
     bnd (fd_boot_get_update_metadata i) (\<lambda>(ok, update).
     if \<not> ok then fail
     else
     case fd_boot_get_action (bi_action i) executable update of
       action_none \<Rightarrow> ret (True, result\<lparr>ur_issue := update_issue_firmware\<rparr>)
     | action_run \<Rightarrow> ret (True, result\<lparr>ur_is_valid := True\<rparr>)
     | action_install \<Rightarrow>
         bnd (fd_boot_install i (up_metadata update)) (\<lambda>_.
         bnd (fd_boot_get_executable_metadata i) (\<lambda>(ok, executable).
         if \<not> ok then fail
         else if \<not> ex_is_valid executable then ret (True, result\<lparr>ur_issue := update_issue_update\<rparr>)
         else ret (True, result\<lparr>ur_is_valid := True\<rparr>))))))"

definition fd_boot_execute :: "'w fd_boot_update_interface_t \<Rightarrow> (unit, 'w) boot" where
  "fd_boot_execute i =
     bnd (executor_cleanup (bi_executor i)) (\<lambda>_.
     bnd (get_executable (bi_info i)) (\<lambda>info.
     bnd (executor_start (bi_executor i) (ie_location info)) (\<lambda>_.
     ret ())))"

end
