(* ===== verification/FD_BootSpec.thy ===== *)
theory FD_BootSpec imports FD_Boot begin

text \<open>
  What the boot loader core guarantees on any platform that keeps its side of the contract.

  \<open>wp m Q F s\<close> is the weakest precondition of a boot function: from \<open>s\<close> it does not run into
  undefined behaviour, ends in \<open>Q\<close> when it returns a value, and may return \<open>false\<close> only if \<open>F\<close>. The
  contract of the platform is the locale \<open>boot_platform\<close>: what it observes of a state is its \<open>view\<close>
  (the flash, the update storage, the progress of the hash and of the decrypter), and each interface
  function changes the view only as announced. The flash is a NOR flash: erasing a page sets its
  bytes to 0xFF, writing can only clear bits. It ends at \<open>limit\<close>: the contract promises nothing for an access
  beyond, so that every access of the loader has to be shown to be inside.
\<close>

section \<open>Weakest preconditions\<close>

definition wp :: "('a, 'w) boot \<Rightarrow> ('a \<Rightarrow> 'w boot_state \<Rightarrow> bool) \<Rightarrow> bool \<Rightarrow> 'w boot_state \<Rightarrow> bool" where
  "wp m Q F s = (case m s of
     None \<Rightarrow> False
   | Some (None, s') \<Rightarrow> F
   | Some (Some a, s') \<Rightarrow> Q a s')"

lemma wp_mono: "wp m P F s \<Longrightarrow> (\<And>a s'. P a s' \<Longrightarrow> Q a s') \<Longrightarrow> (F \<Longrightarrow> G) \<Longrightarrow> wp m Q G s"
  by (auto simp: wp_def split: option.splits)

lemma wp_bnd: "wp (bnd m k) Q F s = wp m (\<lambda>a. wp (k a) Q F) F s"
  by (simp add: wp_def bnd_def split: option.split)

lemma wp_bndI: "wp m P F s \<Longrightarrow> (\<And>a s'. P a s' \<Longrightarrow> wp (k a) Q G s') \<Longrightarrow> (F \<Longrightarrow> G) \<Longrightarrow> wp (bnd m k) Q G s"
  by (auto simp: wp_bnd intro: wp_mono)

lemma wp_ret [simp]: "wp (ret a) Q F s = Q a s"
  by (simp add: wp_def ret_def)

lemma wp_fail [simp]: "wp fail Q F s = F"
  by (simp add: wp_def fail_def)

lemma wp_boot_error [simp]: "wp boot_error Q F s = F"
  by (simp add: wp_def fail_def boot_error_def bnd_def fd_boot_set_error_def)

lemma wp_uninitialized [simp]:
  "wp (uninitialized n) Q F s = Q (take n (boot_stack s @ replicate n 0)) s"
  by (simp add: wp_def uninitialized_def)

lemma wp_checked [simp]: "wp (checked x) Q F s = (\<exists>a. x = Some a \<and> Q a s)"
  by (simp add: wp_def checked_def undef_def ret_def split: option.split)

lemma wp_if: "(c \<Longrightarrow> wp m Q F s) \<Longrightarrow> (\<not> c \<Longrightarrow> wp m' Q F s) \<Longrightarrow> wp (if c then m else m') Q F s"
  by simp

lemma wp_or_error: "wp m Q F s \<Longrightarrow> wp (or_error m) Q F s"
  by (auto simp: wp_def or_error_def boot_error_def bnd_def fd_boot_set_error_def fail_def split: option.splits)

lemma wp_with_result:
  "wp m Q F s \<Longrightarrow> (\<And>s'. F \<Longrightarrow> Q (False, r) s') \<Longrightarrow> wp (with_result r m) Q G s"
  by (auto simp: wp_def with_result_def split: option.splits)

section \<open>Memory\<close>

definition mem_bytes :: "(u32 \<Rightarrow> u8) \<Rightarrow> u32 \<Rightarrow> nat \<Rightarrow> u8 list" where
  "mem_bytes m l n = map (\<lambda>k. m (l + of_nat k)) [0..<n]"

lemma mem_bytes_length [simp]: "length (mem_bytes m l n) = n"
  by (simp add: mem_bytes_def)

lemma mem_bytes_0 [simp]: "mem_bytes m l 0 = []"
  by (simp add: mem_bytes_def)

lemma mem_bytes_Nil [simp]: "mem_bytes m l n = [] \<longleftrightarrow> n = 0"
  by (simp add: mem_bytes_def)

lemma mem_bytes_add: "mem_bytes m l (a + b) = mem_bytes m l a @ mem_bytes m (l + of_nat a) b"
  by (rule nth_equalityI) (auto simp: mem_bytes_def nth_append ac_simps of_nat_diff)

record boot_view =
  v_flash :: "u32 \<Rightarrow> u8"
  v_update :: "u32 \<Rightarrow> u8"
  v_hashing :: "u8 list \<Rightarrow> u8 list \<Rightarrow> bool"
  v_decrypting :: "u8 list \<Rightarrow> u8 list \<Rightarrow> u8 list \<Rightarrow> bool"

lemma view_frame_decrypting:
  "v' = v\<lparr>v_decrypting := x\<rparr> \<Longrightarrow> v_flash v' = v_flash v \<and> v_update v' = v_update v \<and> v_hashing v' = v_hashing v"
  by simp

definition flash_page :: "nat \<Rightarrow> u32 \<Rightarrow> nat" where
  "flash_page page a = unat a div page"

definition flash_erase_page :: "nat \<Rightarrow> u32 \<Rightarrow> (u32 \<Rightarrow> u8) \<Rightarrow> u32 \<Rightarrow> u8" where
  "flash_erase_page page l m a = (if flash_page page a = flash_page page l then 0xff else m a)"

definition flash_program :: "u32 \<Rightarrow> u8 list \<Rightarrow> (u32 \<Rightarrow> u8) \<Rightarrow> u32 \<Rightarrow> u8" where
  "flash_program l bs m a =
     (if unat (a - l) < length bs then m a AND bs ! unat (a - l) else m a)"

section \<open>What is hashed\<close>

text \<open>The message that \<open>fd_boot_check_hash\<close> hashes, block by block: \<open>blk l n\<close> are the \<open>n\<close> bytes read at
  \<open>l\<close>, and the zero range is cleared in a block that contains all of it.\<close>

definition zero_in_block :: "fd_boot_range_t \<Rightarrow> u32 \<Rightarrow> u8 list \<Rightarrow> u8 list" where
  "zero_in_block z l bs =
     (let a = unat (range_location z); n = unat (range_length z); b = unat l in
      if b \<le> a \<and> a + n \<le> b + length bs
      then take (a - b) bs @ replicate n 0 @ drop (a - b + n) bs else bs)"

function hashed :: "(u32 \<Rightarrow> nat \<Rightarrow> u8 list) \<Rightarrow> fd_boot_range_t \<Rightarrow> u32 \<Rightarrow> u32 \<Rightarrow> u8 list" where
  "hashed blk z location end' =
     (if location < end' then
        let n = end' - location; n = (if n > 64 then 64 else n)
        in zero_in_block z location (blk location (unat n)) @ hashed blk z (location + n) end'
      else [])"
  by pat_completeness auto
termination
  by (relation "measure (\<lambda>(blk, z, location, end'). unat (end' - location))")
    (auto simp: block_step_less block_left simp del: unat_sub)

declare hashed.simps [simp del]

definition no_wrap :: "fd_boot_range_t \<Rightarrow> bool" where
  "no_wrap r \<longleftrightarrow> unat (range_location r) + unat (range_length r) < 2 ^ 32"

lemma unat_block_end:
  fixes l e n :: u32
  assumes "l < e" "n \<le> e - l"
  shows "unat (l + n) = unat l + unat n" "unat l + unat n \<le> unat e"
proof -
  have "unat n \<le> unat e - unat l"
    using assms by (simp add: word_le_nat_alt unat_sub word_less_nat_alt)
  moreover have "unat l < unat e" "unat e < 2 ^ 32"
    using assms(1) unsigned_less[of e, where ?'a = nat] by (simp_all add: word_less_nat_alt)
  ultimately show "unat (l + n) = unat l + unat n" "unat l + unat n \<le> unat e"
    by (simp_all add: unat_word_ariths)
qed

lemma clear_in_prefix:
  assumes "a + k \<le> length bs"
  shows "\<exists>d. wr_block (bs @ rest) a (replicate k 0) = Some d \<and>
    rd_block d 0 (length bs) = Some (take a bs @ replicate k 0 @ drop (a + k) bs)"
  using assms by (simp add: wr_block_def rd_block_def)

lemma check_hash_zero_block:
  assumes "l < e" "n \<le> e - l" "n \<le> 64" "length bs = unat n" "length data = 64" "no_wrap z"
    "data = bs @ rest"
  shows "\<exists>data'. check_hash_zero z l n data = Some data' \<and> rd_block data' 0 (unat n) = Some (zero_in_block z l bs)"
proof -
  have le: "unat n \<le> 64" using assms(3) by (simp add: word_le_nat_alt)
  have cond: "l \<le> range_location z \<and> range_location z + range_length z \<le> l + n \<longleftrightarrow>
      unat l \<le> unat (range_location z) \<and> unat (range_location z) + unat (range_length z) \<le> unat l + length bs"
    using assms(4,6) unat_block_end[OF assms(1,2)]
    by (simp add: word_le_nat_alt unat_word_ariths no_wrap_def)
  show ?thesis
  proof (cases "l \<le> range_location z \<and> range_location z + range_length z \<le> l + n")
    case True
    then have u: "unat (range_location z - l) = unat (range_location z) - unat l"
      by (simp add: unat_sub)
    have c: "unat l \<le> unat (range_location z) \<and> unat (range_location z) + unat (range_length z) \<le> unat l + length bs"
      using True cond by blast
    then have "unat (range_location z) - unat l + unat (range_length z) \<le> length bs" by arith
    from clear_in_prefix[OF this, of rest] show ?thesis
      using True c assms(4) unfolding assms(7) by (simp add: check_hash_zero_def zero_in_block_def Let_def u)
  next
    case False
    have "\<not> (unat l \<le> unat (range_location z) \<and> unat (range_location z) + unat (range_length z) \<le> unat l + length bs)"
      using False cond by blast
    then have z: "zero_in_block z l bs = bs"
      unfolding zero_in_block_def Let_def by (rule if_not_P)
    have c: "check_hash_zero z l n data = Some data"
      unfolding check_hash_zero_def using False by (rule if_not_P)
    show ?thesis
      unfolding z c using assms(4,7) by (simp add: rd_block_def)
  qed
qed

section \<open>The hashed message as an image\<close>

text \<open>The memory with the range \<open>z\<close> cleared.\<close>

definition cleared :: "fd_boot_range_t \<Rightarrow> (u32 \<Rightarrow> u8) \<Rightarrow> u32 \<Rightarrow> u8" where
  "cleared z m a =
     (if unat (range_location z) \<le> unat a \<and> unat a < unat (range_location z) + unat (range_length z) then 0 else m a)"

text \<open>\<open>z\<close> lies in one of the blocks of 64 bytes that start at \<open>l\<close>.\<close>

definition in_one_block :: "fd_boot_range_t \<Rightarrow> u32 \<Rightarrow> bool" where
  "in_one_block z l \<longleftrightarrow>
     (let a = unat (range_location z); n = unat (range_length z) in
      0 < n \<and> (a + 64 - unat l mod 64) div 64 = (a + n - 1 + 64 - unat l mod 64) div 64)"

lemma mem_bytes_eqI:
  "(\<And>k. k < n \<Longrightarrow> m (l + of_nat k) = m' (l' + of_nat k)) \<Longrightarrow> mem_bytes m l n = mem_bytes m' l' n"
  by (simp add: mem_bytes_def)

lemma block_index:
  fixes a b c n :: nat
  assumes "b mod 64 = c" "0 < n" "(a + 64 - c) div 64 = (a + n - 1 + 64 - c) div 64"
  shows "b \<le> a \<and> a + n \<le> b + 64 \<or> a + n \<le> b \<or> b + 64 \<le> a"
proof -
  have D: "64 * (x div 64) \<le> x \<and> x < 64 * (x div 64) + 64" for x :: nat
    using mult_div_mod_eq[of 64 x] mod_less_divisor[of 64 x] by linarith
  define q where "q = b div 64"
  have b: "b = 64 * q + c" "c < 64" using assms(1) mult_div_mod_eq[of 64 b] mod_less_divisor[of 64 b] unfolding q_def by linarith+
  define A where "A = a + 64 - c"
  define E where "E = a + n - 1 + 64 - c"
  define p where "p = A div 64"
  have "E div 64 = p" using assms(3) by (simp only: A_def E_def p_def)
  then have p: "64 * p \<le> A" "A < 64 * p + 64" "64 * p \<le> E" "E < 64 * p + 64"
    using D[of A] D[of E] by (simp_all only: p_def)
  have AE: "A + c = a + 64" "E + c + 1 = a + n + 64" using b(2) assms(2) by (simp_all add: A_def E_def)
  consider "p \<le> q" | "p = q + 1" | "q + 2 \<le> p" by linarith
  then show ?thesis
  proof cases
    case 1 then have "a + n \<le> b" using p AE b by linarith then show ?thesis by simp
  next
    case 2 then have "b \<le> a" "a + n \<le> b + 64" using p AE b by linarith+ then show ?thesis by simp
  next
    case 3 then have "b + 64 \<le> a" using p AE b by linarith then show ?thesis by simp
  qed
qed

lemma unat_address: "unat l + n \<le> 2 ^ 32 \<Longrightarrow> k < n \<Longrightarrow> unat (l + of_nat k :: u32) = unat l + k"
  by (simp add: unat_word_ariths unat_of_nat)

lemma zero_in_block_inside:
  assumes "unat l + N \<le> 2 ^ 32" "unat l \<le> unat (range_location z)"
    "unat (range_location z) + unat (range_length z) \<le> unat l + N"
  shows "zero_in_block z l (mem_bytes m l N) = mem_bytes (cleared z m) l N"
  using assms
  by (intro nth_equalityI) (auto simp: zero_in_block_def Let_def mem_bytes_def cleared_def unat_address nth_append)

lemma zero_in_block_outside:
  assumes "unat l + N \<le> 2 ^ 32" "0 < unat (range_length z)"
    "unat (range_location z) + unat (range_length z) \<le> unat l \<or> unat l + N \<le> unat (range_location z)"
  shows "zero_in_block z l (mem_bytes m l N) = mem_bytes (cleared z m) l N"
proof -
  have "zero_in_block z l (mem_bytes m l N) = mem_bytes m l N"
    unfolding zero_in_block_def Let_def mem_bytes_length using assms(2,3) by (intro if_not_P) linarith
  also have "\<dots> = mem_bytes (cleared z m) l N"
    using assms by (intro mem_bytes_eqI) (auto simp: cleared_def unat_address)
  finally show ?thesis .
qed

lemma zero_in_block_cleared:
  assumes "in_one_block z l" "unat l + 64 \<le> 2 ^ 32"
  shows "zero_in_block z l (mem_bytes m l 64) = mem_bytes (cleared z m) l 64"
proof -
  have n: "0 < unat (range_length z)" using assms(1) by (simp add: in_one_block_def Let_def)
  have "(unat (range_location z) + 64 - unat l mod 64) div 64 =
      (unat (range_location z) + unat (range_length z) - 1 + 64 - unat l mod 64) div 64"
    using assms(1) unfolding in_one_block_def Let_def by (rule conjunct2)
  from block_index[OF refl n this]
  show ?thesis
    using zero_in_block_inside[OF assms(2)] zero_in_block_outside[OF assms(2) n] by blast
qed

lemma in_one_block_step: "unat (l + 64) = unat l + 64 \<Longrightarrow> in_one_block z (l + 64) = in_one_block z l"
  by (simp add: in_one_block_def)

lemma hashed_cleared:
  "in_one_block z l \<Longrightarrow> l \<le> e \<Longrightarrow> 64 dvd unat (e - l) \<Longrightarrow>
   hashed (mem_bytes m) z l e = mem_bytes (cleared z m) l (unat (e - l))"
proof (induction "unat (e - l)" arbitrary: l rule: less_induct)
  case less
  show ?case
  proof (cases "l < e")
    case False
    then have "e = l" using less.prems(2) by simp
    then show ?thesis by (simp add: hashed.simps)
  next
    case True
    have "64 \<le> unat (e - l)" using less.prems(3) block_left[OF True] by (simp add: dvd_imp_le)
    then have ge: "64 \<le> e - l" "64 \<le> unat (e - l)" by (simp_all add: word_le_nat_alt)
    have n: "(if e - l > 64 then 64 else e - l) = 64" using ge(1) by (auto simp: not_less intro: antisym)
    have le: "unat (l + 64) = unat l + 64" "unat l + 64 \<le> unat e" using unat_block_end[OF True ge(1)] by simp_all
    have left: "unat (e - (l + 64)) = unat (e - l) - 64" "l + 64 \<le> e"
      using le True by (simp_all add: unat_sub word_less_nat_alt word_le_nat_alt)
    have "hashed (mem_bytes m) z l e = zero_in_block z l (mem_bytes m l 64) @ hashed (mem_bytes m) z (l + 64) e"
      using True by (subst hashed.simps) (simp add: n Let_def)
    also have "zero_in_block z l (mem_bytes m l 64) = mem_bytes (cleared z m) l 64"
      using zero_in_block_cleared[OF less.prems(1)] le(1) unsigned_less[of "l + 64", where ?'a = nat] by simp
    also have "hashed (mem_bytes m) z (l + 64) e = mem_bytes (cleared z m) (l + 64) (unat (e - (l + 64)))"
      by (rule less.hyps)
        (use less.prems left ge in_one_block_step[OF le(1)] in \<open>simp_all add: dvd_diff_nat\<close>)
    also have "mem_bytes (cleared z m) l 64 @ mem_bytes (cleared z m) (l + 64) (unat (e - (l + 64))) =
        mem_bytes (cleared z m) l (unat (e - l))"
      using mem_bytes_add[of "cleared z m" l 64 "unat (e - (l + 64))"] left ge by simp
    finally show ?thesis .
  qed
qed

section \<open>Valid executables\<close>

definition executable_metadata_at :: "(u32 \<Rightarrow> u8) \<Rightarrow> fd_boot_info_executable_t \<Rightarrow> fd_boot_executable_metadata_t" where
  "executable_metadata_at m info =
     parse_executable_metadata (mem_bytes m (ie_location info + ie_metadata_offset info + 8) 36)"

definition executable_hash_range :: "fd_boot_info_executable_t \<Rightarrow> u32 \<Rightarrow> fd_boot_range_t" where
  "executable_hash_range info l = \<lparr>range_location = l + ie_metadata_offset info + 24, range_length = 20\<rparr>"

definition executable_ok ::
  "(u8 list \<Rightarrow> u8 list) \<Rightarrow> (u32 \<Rightarrow> u8) \<Rightarrow> fd_boot_range_t \<Rightarrow> fd_boot_info_executable_t \<Rightarrow> bool" where
  "executable_ok H m storage info \<longleftrightarrow>
     (let l = ie_location info; h = l + ie_metadata_offset info;
          metadata = executable_metadata_at m info; n = em_length metadata in
      fd_boot_is_valid_subrange storage \<lparr>range_location = h, range_length = 8\<rparr> \<and>
      boot_u32 (mem_bytes m h 8) 0 = fd_boot_executable_metadata_header_magic \<and>
      boot_u32 (mem_bytes m h 8) 4 = fd_boot_executable_metadata_header_version \<and>
      fd_boot_is_valid_subrange storage \<lparr>range_location = h + 8, range_length = 36\<rparr> \<and>
      n mod 64 = 0 \<and>
      fd_boot_is_valid_subrange storage \<lparr>range_location = l + n - 4, range_length = 4\<rparr> \<and>
      boot_u32 (mem_bytes m (l + n - 4) 4) 0 = fd_boot_executable_trailer_magic \<and>
      fd_boot_is_valid_subrange storage \<lparr>range_location = l, range_length = n\<rparr> \<and>
      H (hashed (mem_bytes m) (executable_hash_range info l) l (l + n)) = em_hash metadata)"

text \<open>The header says that there is an executable; its length then decides how the check goes on. With a length that
  is not a multiple of 64 it returns \<open>false\<close>. With one that makes the sum of location and length wrap around, the
  trailer that it reads is not in the storage.\<close>

definition executable_header :: "(u32 \<Rightarrow> u8) \<Rightarrow> fd_boot_info_executable_t \<Rightarrow> bool" where
  "executable_header m info \<longleftrightarrow>
     (let h = ie_location info + ie_metadata_offset info in
      boot_u32 (mem_bytes m h 8) 0 = fd_boot_executable_metadata_header_magic \<and>
      boot_u32 (mem_bytes m h 8) 4 = fd_boot_executable_metadata_header_version)"

definition executable_aligned :: "(u32 \<Rightarrow> u8) \<Rightarrow> fd_boot_info_executable_t \<Rightarrow> bool" where
  "executable_aligned m info \<longleftrightarrow> (executable_header m info \<longrightarrow> em_length (executable_metadata_at m info) mod 64 = 0)"

definition executable_wraps :: "(u32 \<Rightarrow> u8) \<Rightarrow> fd_boot_info_executable_t \<Rightarrow> bool" where
  "executable_wraps m info \<longleftrightarrow>
     (let n = em_length (executable_metadata_at m info) in
      executable_header m info \<and> n mod 64 = 0 \<and>
      \<not> no_wrap \<lparr>range_location = ie_location info + n - 4, range_length = 4\<rparr>)"

lemma executable_ok_header: "executable_ok H m storage info \<Longrightarrow> executable_header m info \<and> executable_aligned m info"
  by (simp add: executable_ok_def executable_header_def executable_aligned_def Let_def)

lemma subrange_inside:
  assumes "fd_boot_is_valid_subrange st r" "no_wrap st" "no_wrap r"
  shows "unat (range_location r) + unat (range_length r) \<le> unat (range_location st) + unat (range_length st)"
  using assms by (simp add: fd_boot_is_valid_subrange_def no_wrap_def word_le_nat_alt unat_word_ariths)

section \<open>Valid updates\<close>

text \<open>A memory that holds \<open>bs\<close> at \<open>start\<close>.\<close>

definition overlay :: "u32 \<Rightarrow> u8 list \<Rightarrow> u32 \<Rightarrow> u8" where
  "overlay start bs a = (if unat (a - start) < length bs then bs ! unat (a - start) else 0)"

lemma overlay_bytes:
  assumes "bs = xs @ p @ r" "unat (l - start) = length xs" "length xs + length p < 2 ^ 32"
  shows "mem_bytes (overlay start bs) l (length p) = p"
proof (rule nth_equalityI)
  fix k assume k: "k < length (mem_bytes (overlay start bs) l (length p))"
  have "unat ((l - start) + of_nat k) = length xs + k"
    unfolding unat_word_ariths(1) assms(2) using k assms(3) by (simp add: unat_of_nat)
  then have "unat (l + of_nat k - start) = length xs + k" by (simp add: algebra_simps)
  then show "mem_bytes (overlay start bs) l (length p) ! k = p ! k"
    using k by (simp add: mem_bytes_def overlay_def assms(1) nth_append)
qed simp

definition update_metadata_at :: "(u32 \<Rightarrow> u8) \<Rightarrow> fd_boot_range_t \<Rightarrow> fd_boot_update_metadata_t" where
  "update_metadata_at m st = parse_update_metadata (mem_bytes m (range_location st + 8) 76)"

definition update_start :: "fd_boot_range_t \<Rightarrow> u32 \<Rightarrow> u32" where
  "update_start st n = range_location st + range_length st - 64 - n"

definition plain_update_ok :: "(u8 list \<Rightarrow> u8 list) \<Rightarrow> (u32 \<Rightarrow> u8) \<Rightarrow> fd_boot_range_t \<Rightarrow> fd_boot_update_metadata_t \<Rightarrow> bool" where
  "plain_update_ok H m st metadata \<longleftrightarrow>
     (let l = range_location st + 84; n = em_length (um_executable_metadata metadata) in
      fd_boot_is_valid_subrange st \<lparr>range_location = l, range_length = n\<rparr> \<and>
      H (hashed (mem_bytes m) \<lparr>range_location = 0, range_length = 20\<rparr> l (l + n)) = em_hash (um_executable_metadata metadata))"

definition encrypted_update_ok ::
  "(u8 list \<Rightarrow> u8 list) \<Rightarrow> (u8 list \<Rightarrow> u8 list \<Rightarrow> u8 list \<Rightarrow> u8 list) \<Rightarrow> u8 list \<Rightarrow> (u32 \<Rightarrow> u8) \<Rightarrow> fd_boot_range_t \<Rightarrow>
   fd_boot_info_executable_t \<Rightarrow> fd_boot_update_metadata_t \<Rightarrow> bool" where
  "encrypted_update_ok H D key m st info metadata \<longleftrightarrow>
     (let iv = um_initialization_vector metadata; n = em_length (um_executable_metadata metadata);
          l = update_start st n in
      parse_update_metadata (take 76 (drop 8 (D key iv (mem_bytes m 128 128)))) = metadata\<lparr>um_hash := replicate 20 0\<rparr> \<and>
      fd_boot_is_valid_subrange st \<lparr>range_location = l, range_length = n\<rparr> \<and>
      H (hashed (mem_bytes (overlay l (D key iv (mem_bytes m l (unat n))))) (executable_hash_range info l) l (l + n)) =
        em_hash (um_executable_metadata metadata))"

definition update_ok ::
  "(u8 list \<Rightarrow> u8 list) \<Rightarrow> (u8 list \<Rightarrow> u8 list \<Rightarrow> u8 list \<Rightarrow> u8 list) \<Rightarrow> u8 list \<Rightarrow> (u32 \<Rightarrow> u8) \<Rightarrow> fd_boot_range_t \<Rightarrow>
   fd_boot_info_executable_t \<Rightarrow> bool" where
  "update_ok H D key m st info \<longleftrightarrow>
     (let l = range_location st; e = l + range_length st; metadata = update_metadata_at m st;
          n = em_length (um_executable_metadata metadata) in
      fd_boot_is_valid_subrange st \<lparr>range_location = l, range_length = 8\<rparr> \<and>
      boot_u32 (mem_bytes m l 8) 0 = fd_boot_update_metadata_header_magic \<and>
      boot_u32 (mem_bytes m l 8) 4 = fd_boot_update_metadata_header_version \<and>
      fd_boot_is_valid_subrange st \<lparr>range_location = l + 8, range_length = 76\<rparr> \<and>
      n mod 64 = 0 \<and>
      n = (if encrypted metadata then range_length st - 64 - 128 - 128 else range_length st - 64 - 128) \<and>
      fd_boot_is_valid_subrange st \<lparr>range_location = e - 4, range_length = 4\<rparr> \<and>
      boot_u32 (mem_bytes m (e - 4) 4) 0 = fd_boot_update_trailer_magic \<and>
      H (hashed (mem_bytes m) \<lparr>range_location = l + 44, range_length = 20\<rparr> l e) = um_hash metadata \<and>
      (if encrypted metadata then encrypted_update_ok H D key m st info metadata else plain_update_ok H m st metadata))"

section \<open>Choosing\<close>

text \<open>What the boot loader is to do with the version in flash and the version on offer, if they are valid.\<close>

definition version_key :: "fd_boot_version_t \<Rightarrow> nat list" where
  "version_key v = [unat (version_major v), unat (version_minor v), unat (version_patch v)]"

definition version_less :: "fd_boot_version_t \<Rightarrow> fd_boot_version_t \<Rightarrow> bool" where
  "version_less v w \<longleftrightarrow> (version_key v, version_key w) \<in> lex less_than"

definition boot_choice ::
  "fd_boot_action_interface_t \<Rightarrow> fd_boot_version_t option \<Rightarrow> fd_boot_version_t option \<Rightarrow> fd_boot_update_action_t" where
  "boot_choice a current offered = (case (current, offered) of
     (None, None) \<Rightarrow> action_none
   | (Some v, None) \<Rightarrow> action_run
   | (None, Some w) \<Rightarrow> if can_install a w then action_install else action_none
   | (Some v, Some w) \<Rightarrow>
       if version_less v w \<and> can_upgrade a v w \<or> version_less w v \<and> can_downgrade a v w
       then action_install else action_run)"

lemma version_lt_iff: "fd_boot_version_is_lt v w \<longleftrightarrow> version_less v w"
  by (auto simp: fd_boot_version_is_lt_def version_less_def version_key_def word_less_nat_alt)

lemma version_eq_iff: "fd_boot_version_is_eq v w \<longleftrightarrow> v = w"
  by (auto simp: fd_boot_version_is_eq_def)

lemma version_not_less:
  "version_less v w \<Longrightarrow> v \<noteq> w \<and> \<not> version_less w v"
  "\<not> version_less v w \<Longrightarrow> v \<noteq> w \<Longrightarrow> version_less w v"
  unfolding version_lt_iff[symmetric] fd_boot_version_is_lt_def
  by (auto split: if_splits intro!: fd_boot_version_t.equality)

lemma get_action_choice:
  "fd_boot_get_action a e u = boot_choice a
     (if ex_is_valid e then Some (em_version (ex_metadata e)) else None)
     (if up_is_valid u then Some (em_version (um_executable_metadata (up_metadata u))) else None)"
  using version_not_less[of "em_version (ex_metadata e)" "em_version (um_executable_metadata (up_metadata u))"]
  by (auto simp: fd_boot_get_action_def boot_choice_def Let_def version_lt_iff version_eq_iff version_less_def)

section \<open>Programming the flash\<close>

text \<open>\<open>next_erase page l\<close> is the first page boundary at or after \<open>l\<close>, and the rest of the page of \<open>l\<close> is
  erased when \<open>l\<close> is inside it.\<close>

definition next_erase :: "nat \<Rightarrow> u32 \<Rightarrow> u32" where
  "next_erase page l = l + of_nat ((page - unat l mod page) mod page)"

definition page_rest_erased :: "nat \<Rightarrow> u32 \<Rightarrow> (u32 \<Rightarrow> u8) \<Rightarrow> bool" where
  "page_rest_erased page l f \<longleftrightarrow>
     (unat l mod page \<noteq> 0 \<longrightarrow> (\<forall>a. flash_page page a = flash_page page l \<and> l \<le> a \<longrightarrow> f a = 0xff))"

text \<open>What installing \<open>n\<close> bytes at \<open>l\<close> may not touch.\<close>

definition flash_frame :: "nat \<Rightarrow> u32 \<Rightarrow> nat \<Rightarrow> (u32 \<Rightarrow> u8) \<Rightarrow> (u32 \<Rightarrow> u8) \<Rightarrow> bool" where
  "flash_frame page l n f f' \<longleftrightarrow>
     (\<forall>a. a < l \<or> (unat l + n - 1) div page < flash_page page a \<longrightarrow> f' a = f a)"

text \<open>The flash after installing an update: the decrypted image is in its place, the rest of its last page is
  erased, and nothing else has changed.\<close>

definition installed ::
  "(u8 list \<Rightarrow> u8 list \<Rightarrow> u8 list \<Rightarrow> u8 list) \<Rightarrow> u8 list \<Rightarrow> (u32 \<Rightarrow> u8) \<Rightarrow> fd_boot_range_t \<Rightarrow> fd_boot_info_executable_t \<Rightarrow>
   nat \<Rightarrow> fd_boot_update_metadata_t \<Rightarrow> (u32 \<Rightarrow> u8) \<Rightarrow> (u32 \<Rightarrow> u8) \<Rightarrow> bool" where
  "installed D key u st info page md f f' \<longleftrightarrow>
     (let n = em_length (um_executable_metadata md) in
      mem_bytes f' (ie_location info) (unat n) =
        D key (um_initialization_vector md) (mem_bytes u (update_start st n) (unat n)) \<and>
      page_rest_erased page (ie_location info + n) f' \<and>
      flash_frame page (ie_location info) (unat n) f f')"

lemma next_erase_eq: "page < 2 ^ 32 \<Longrightarrow> 0 < page \<Longrightarrow> next_erase page l = l \<longleftrightarrow> unat l mod page = 0"
proof -
  assume p: "page < 2 ^ 32" "0 < page"
  have "(page - unat l mod page) mod page < page" using p(2) by simp
  then have "next_erase page l = l \<longleftrightarrow> (page - unat l mod page) mod page = 0"
    using p(1) by (auto simp: next_erase_def word_of_nat_eq_0_iff dvd_imp_le)
  also have "\<dots> \<longleftrightarrow> unat l mod page = 0"
    using p(2) mod_less_divisor[OF p(2), of "unat l"] by (cases "unat l mod page = 0") (simp_all add: not_le)
  finally show ?thesis .
qed

lemma mod_add_16:
  fixes a page :: nat
  assumes "16 dvd page" "16 dvd a" "0 < page"
  shows "(a + 16) mod page = (if a mod page + 16 = page then 0 else a mod page + 16)" "a mod page + 16 \<le> page"
proof -
  obtain q where q: "page = 16 * q" using assms(1) ..
  obtain r where r: "a = 16 * r" using assms(2) ..
  have m: "a mod page = 16 * (r mod q)" by (simp add: q r)
  have "r mod q < q" using assms(3) q by simp
  then have "r mod q + 1 \<le> q" by simp
  then have "16 * (r mod q) + 16 \<le> page" by (simp add: q)
  then show le: "a mod page + 16 \<le> page" by (simp add: m)
  have "(a + 16) mod page = (a mod page + 16) mod page" by (simp add: mod_simps)
  then show "(a + 16) mod page = (if a mod page + 16 = page then 0 else a mod page + 16)"
    using le by auto
qed

lemma next_erase_step:
  assumes p: "16 dvd page" "0 < page" "page < 2 ^ 32" and l: "16 dvd unat l" "unat (l + 16) = unat l + 16"
  shows "next_erase page (l + 16) = (if unat l mod page = 0 then l + of_nat page else next_erase page l)"
proof -
  have m: "(unat l + 16) mod page = (if unat l mod page + 16 = page then 0 else unat l mod page + 16)"
    "unat l mod page + 16 \<le> page" using mod_add_16[OF p(1) l(1) p(2)] by simp_all
  have w: "l + 16 + of_nat (page - (unat l mod page + 16)) = l + of_nat (page - unat l mod page)"
    using m(2) by (simp add: of_nat_diff)
  consider "unat l mod page = 0" "page = 16" | "unat l mod page = 0" "16 < page"
    | "unat l mod page \<noteq> 0" "unat l mod page + 16 = page" | "unat l mod page \<noteq> 0" "unat l mod page + 16 < page"
    using m(2) p(2) by linarith
  then show ?thesis
    unfolding next_erase_def l(2) m(1) using w by cases (simp_all add: of_nat_diff)
qed

lemma page_rest_step:
  assumes p: "16 dvd page" "0 < page" and l: "16 dvd unat l" "unat (l + 16) = unat l + 16" "length bs = 16"
    and f: "unat l mod page = 0 \<or> page_rest_erased page l f"
  shows "page_rest_erased page (l + 16)
    (flash_program l bs (if unat l mod page = 0 then flash_erase_page page l f else f))"
proof -
  have m: "(unat l + 16) mod page = (if unat l mod page + 16 = page then 0 else unat l mod page + 16)"
    "unat l mod page + 16 \<le> page" using mod_add_16[OF p(1) l(1) p(2)] by simp_all
  have "flash_page page (l + 16) = flash_page page l" if "(unat l + 16) mod page \<noteq> 0"
  proof -
    have "unat l mod page + 16 < page" using that m by (auto split: if_splits)
    then have "(unat l + 16) div page = unat l div page"
      by (simp add: div_add1_eq[of "unat l" 16] add.commute)
    then show ?thesis by (simp add: flash_page_def l(2))
  qed
  moreover have "l \<le> a \<and> \<not> unat (a - l) < 16" if "l + 16 \<le> a" for a
  proof -
    have a: "unat l + 16 \<le> unat a" using that l(2) by (simp add: word_le_nat_alt)
    then have "l \<le> a" by (simp add: word_le_nat_alt)
    then show ?thesis using a by (simp add: unat_sub)
  qed
  ultimately show ?thesis
    using f l by (auto simp: page_rest_erased_def flash_program_def flash_erase_page_def)
qed

lemma flash_program_block:
  assumes l: "unat l + length bs \<le> 2 ^ 32" "length bs \<le> 16"
    and f: "\<And>a. l \<le> a \<Longrightarrow> unat a < unat l + length bs \<Longrightarrow> f a = 0xff"
  shows "mem_bytes (flash_program l bs f) l (length bs) = bs"
proof (rule nth_equalityI)
  fix k assume k: "k < length (mem_bytes (flash_program l bs f) l (length bs))"
  then have k': "k < length bs" by simp
  then have u: "unat (of_nat k :: u32) = k" using l(2) by (simp add: unat_of_nat)
  have a: "unat (l + of_nat k) = unat l + k"
    unfolding unat_word_ariths(1) u using k' l(1) by simp
  have "f (l + of_nat k) = 0xff" by (rule f) (use k' a in \<open>simp_all add: word_le_nat_alt\<close>)
  moreover have "(0xff :: u8) AND b = b" for b
  proof -
    have "(0xff :: u8) = - 1" by simp
    then show ?thesis by (simp only: and.left_neutral)
  qed
  ultimately show "mem_bytes (flash_program l bs f) l (length bs) ! k = bs ! k"
    using k' u by (simp add: mem_bytes_def flash_program_def)
qed simp

lemma unat_wrap_sub:
  fixes a l :: u32
  assumes "a < l" shows "unat (a - l) = 2 ^ 32 - (unat l - unat a)"
proof -
  have "(unat (a - l) + unat (l - a)) mod 2 ^ 32 = 0"
    using unat_word_ariths(1)[of "a - l" "l - a"] by simp
  moreover have "unat (l - a) = unat l - unat a" "0 < unat l - unat a"
    using assms by (simp_all add: unat_sub word_less_nat_alt word_le_nat_alt)
  moreover have "unat (a - l) < 2 ^ 32" "unat l < 2 ^ 32"
    using unsigned_less[of "a - l", where ?'a = nat] unsigned_less[of l, where ?'a = nat] by simp_all
  ultimately show ?thesis
    by (cases "unat (a - l) + unat (l - a) < 2 ^ 32") (simp_all add: le_mod_geq not_less)
qed

lemma erased_block:
  assumes p: "16 dvd page" "0 < page" and l: "16 dvd unat l" and f: "page_rest_erased page l f"
    and a: "l \<le> a" "unat a < unat l + 16"
  shows "(if unat l mod page = 0 then flash_erase_page page l f else f) a = 0xff"
proof -
  have "flash_page page a = flash_page page l"
  proof -
    have "unat l mod page + 16 \<le> page" using mod_add_16[OF p(1) l p(2)] by simp
    then have "unat l mod page + (unat a - unat l) < page" using a by (simp add: word_le_nat_alt)
    then have "(unat l + (unat a - unat l)) div page = unat l div page"
      by (simp add: div_add1_eq[of "unat l" "unat a - unat l"])
    then show ?thesis using a(1) by (simp add: flash_page_def word_le_nat_alt)
  qed
  then show ?thesis using f a by (auto simp: page_rest_erased_def flash_erase_page_def)
qed

lemma flash_frame_step:
  assumes p: "16 dvd page" "0 < page" and l: "16 dvd unat l" "unat (l + 16) = unat l + 16" "length bs = 16"
    and m: "mem_bytes (flash_program l bs (if unat l mod page = 0 then flash_erase_page page l f else f)) l 16 = bs"
    and f': "flash_frame page (l + 16) r (flash_program l bs (if unat l mod page = 0 then flash_erase_page page l f else f)) f'"
  shows "flash_frame page l (16 + r) f f' \<and> mem_bytes f' l 16 = bs"
proof
  let ?g = "if unat l mod page = 0 then flash_erase_page page l f else f"
  have bound: "unat l div page \<le> (unat l + 16 + r - 1) div page" by (simp add: div_le_mono)
  show "flash_frame page l (16 + r) f f'"
    unfolding flash_frame_def
  proof (intro allI impI)
    fix a assume a: "a < l \<or> (unat l + (16 + r) - 1) div page < flash_page page a"
    have "flash_program l bs ?g a = f a"
    proof (cases "a < l")
      case True
      have "unat l < 2 ^ 32 - 16" using l(2) unsigned_less[of "l + 16", where ?'a = nat] by simp
      moreover have "unat (a - l) = 2 ^ 32 - (unat l - unat a)"
        using unat_wrap_sub[OF True] by simp
      ultimately have "\<not> unat (a - l) < 16" by simp
      moreover have "flash_page page a \<noteq> flash_page page l" if "unat l mod page = 0"
      proof -
        have "unat a < unat l div page * page" using that True by (simp add: word_less_nat_alt dvd_eq_mod_eq_0)
        then show ?thesis by (simp add: flash_page_def less_mult_imp_div_less nat_neq_iff)
      qed
      ultimately show ?thesis using l(3) by (simp add: flash_program_def flash_erase_page_def)
    next
      case False
      then have far: "(unat l + (16 + r) - 1) div page < unat a div page" "l \<le> a"
        using a by (simp_all add: flash_page_def)
      have "(unat l + 15) div page \<le> (unat l + (16 + r) - 1) div page" by (simp add: div_le_mono)
      then have "\<not> unat a \<le> unat l + 15" using far(1) by (meson div_le_mono leD order.trans)
      then have "\<not> unat (a - l) < 16" using far(2) by (simp add: unat_sub)
      then show ?thesis using far bound l(3) by (auto simp: flash_program_def flash_erase_page_def flash_page_def add.assoc)
    qed
    moreover have "a < l + 16 \<or> (unat (l + 16) + r - 1) div page < flash_page page a"
      using a l(2) by (auto simp: word_less_nat_alt add.assoc)
    ultimately show "f' a = f a" using f' by (auto simp: flash_frame_def)
  qed
  have "f' a = flash_program l bs ?g a" if "a < l + 16" for a
    using f' that by (simp add: flash_frame_def)
  then have "mem_bytes f' l 16 = mem_bytes (flash_program l bs ?g) l 16"
    unfolding mem_bytes_def using l(2)
    by (intro map_cong refl) (simp add: word_less_nat_alt unat_word_ariths unat_of_nat)
  then show "mem_bytes f' l 16 = bs" using m by simp
qed

section \<open>The outcome of an update\<close>

definition boot_decision ::
  "fd_boot_action_interface_t \<Rightarrow> (u8 list \<Rightarrow> u8 list) \<Rightarrow> (u8 list \<Rightarrow> u8 list \<Rightarrow> u8 list \<Rightarrow> u8 list) \<Rightarrow> u8 list \<Rightarrow>
   fd_boot_range_t \<Rightarrow> fd_boot_range_t \<Rightarrow> fd_boot_info_executable_t \<Rightarrow> (u32 \<Rightarrow> u8) \<Rightarrow> (u32 \<Rightarrow> u8) \<Rightarrow> fd_boot_update_action_t" where
  "boot_decision a H D key st ust info u f = boot_choice a
     (if executable_ok H f st info then Some (em_version (executable_metadata_at f info)) else None)
     (if update_ok H D key u ust info then Some (em_version (um_executable_metadata (update_metadata_at u ust))) else None)"

text \<open>The flash afterwards and the verdict \<open>v\<close>, given the update storage and the flash before.\<close>

definition update_outcome ::
  "fd_boot_action_interface_t \<Rightarrow> (u8 list \<Rightarrow> u8 list) \<Rightarrow> (u8 list \<Rightarrow> u8 list \<Rightarrow> u8 list \<Rightarrow> u8 list) \<Rightarrow> u8 list \<Rightarrow>
   fd_boot_range_t \<Rightarrow> fd_boot_range_t \<Rightarrow> fd_boot_info_executable_t \<Rightarrow> nat \<Rightarrow> (u32 \<Rightarrow> u8) \<Rightarrow> (u32 \<Rightarrow> u8) \<Rightarrow> (u32 \<Rightarrow> u8) \<Rightarrow> bool \<Rightarrow> bool" where
  "update_outcome a H D key st ust info page u f f' v =
     (case boot_decision a H D key st ust info u f of
        action_none \<Rightarrow> f' = f \<and> \<not> v
      | action_run \<Rightarrow> f' = f \<and> v
      | action_install \<Rightarrow> installed D key u ust info page (update_metadata_at u ust) f f' \<and>
          (v \<longleftrightarrow> executable_ok H f' st info))"

section \<open>The platform's contract\<close>

locale boot_platform =
  fixes i :: "'w fd_boot_update_interface_t"
    and H :: "u8 list \<Rightarrow> u8 list"
    and D :: "u8 list \<Rightarrow> u8 list \<Rightarrow> u8 list \<Rightarrow> u8 list"
    and view :: "'w boot_state \<Rightarrow> boot_view"
    and inv :: "'w boot_state \<Rightarrow> bool"
    and storage ustorage :: fd_boot_range_t
    and info :: fd_boot_info_executable_t
    and key :: "u8 list"
    and page limit :: nat
    and reliable :: bool
  assumes get_storage: "inv s \<Longrightarrow>
      wp (get_executable_storage (bi_info i)) (\<lambda>x s'. x = storage \<and> inv s' \<and> view s' = view s) (\<not> reliable) s"
    and get_info: "inv s \<Longrightarrow>
      wp (get_executable (bi_info i)) (\<lambda>x s'. x = info \<and> inv s' \<and> view s' = view s) (\<not> reliable) s"
    and get_ustorage: "inv s \<Longrightarrow>
      wp (get_update_storage (bi_info i)) (\<lambda>x s'. x = ustorage \<and> inv s' \<and> view s' = view s) (\<not> reliable) s"
    and get_key: "inv s \<Longrightarrow>
      wp (get_decryption (bi_info i)) (\<lambda>x s'. x = key \<and> inv s' \<and> view s' = view s) (\<not> reliable) s"
    and key_length: "length key = 16"
    and feed_watchdog: "inv s \<Longrightarrow> wp (effect (bi_feed i)) (\<lambda>_ s'. inv s' \<and> view s' = view s) False s"
    and show_progress: "inv s \<Longrightarrow> wp (effect (bi_progress i a b)) (\<lambda>_ s'. inv s' \<and> view s' = view s) False s"
    and read_executable: "inv s \<Longrightarrow> unat l + unat n \<le> limit \<Longrightarrow>
      wp (reader_read (bi_executable_reader i) (reader_context (bi_executable_reader i)) l n)
        (\<lambda>(_, bs) s'. bs = mem_bytes (v_flash (view s)) l (unat n) \<and> inv s' \<and> view s' = view s) (\<not> reliable) s"
    and read_update: "inv s \<Longrightarrow>
      wp (reader_read (bi_update_reader i) (reader_context (bi_update_reader i)) l n)
        (\<lambda>(_, bs) s'. bs = mem_bytes (v_update (view s)) l (unat n) \<and> inv s' \<and> view s' = view s) (\<not> reliable) s"
    and hash_init: "inv s \<Longrightarrow> length c = 128 \<Longrightarrow>
      wp (hash_initialize (bi_hash i) c)
        (\<lambda>c s'. v_hashing (view s') [] c \<and> inv s' \<and> view s' = (view s)\<lparr>v_hashing := v_hashing (view s')\<rparr>) (\<not> reliable) s"
    and hash_step: "inv s \<Longrightarrow> v_hashing (view s) m c \<Longrightarrow> length d + 64 \<le> 2 ^ 32 \<Longrightarrow>
      wp (hash_update (bi_hash i) c d)
        (\<lambda>c s'. v_hashing (view s') (m @ d) c \<and> inv s' \<and> view s' = (view s)\<lparr>v_hashing := v_hashing (view s')\<rparr>) (\<not> reliable) s"
    and hash_final: "inv s \<Longrightarrow> v_hashing (view s) m c \<Longrightarrow>
      wp (hash_finalize (bi_hash i) c)
        (\<lambda>(h, c) s'. h = H m \<and> inv s' \<and> view s' = (view s)\<lparr>v_hashing := v_hashing (view s')\<rparr>) (\<not> reliable) s"
    and decrypt_init: "inv s \<Longrightarrow> length k = 16 \<Longrightarrow> length v = 16 \<Longrightarrow>
      wp (decrypt_initialize (bi_decrypt i) c k v)
        (\<lambda>c s'. v_decrypting (view s') k v [] \<and> inv s' \<and> view s' = (view s)\<lparr>v_decrypting := v_decrypting (view s')\<rparr>) (\<not> reliable) s"
    and decrypt_step: "inv s \<Longrightarrow> v_decrypting (view s) k v m \<Longrightarrow> length d mod 16 = 0 \<Longrightarrow> d \<noteq> [] \<Longrightarrow> length d < 2 ^ 32 \<Longrightarrow>
      wp (decrypt_update (bi_decrypt i) c d)
        (\<lambda>(c, p) s'. D k v (m @ d) = D k v m @ p \<and> length p = length d \<and> v_decrypting (view s') k v (m @ d) \<and>
          inv s' \<and> view s' = (view s)\<lparr>v_decrypting := v_decrypting (view s')\<rparr>) (\<not> reliable) s"
    and decrypt_final: "inv s \<Longrightarrow>
      wp (decrypt_finalize (bi_decrypt i) c)
        (\<lambda>_ s'. inv s' \<and> view s' = (view s)\<lparr>v_decrypting := v_decrypting (view s')\<rparr>) (\<not> reliable) s"
    and D_nil: "D k v [] = []"
    and D_prefix: "length m mod 16 = 0 \<Longrightarrow> \<exists>p. D k v (m @ d) = D k v m @ p"
    and D_length: "length m mod 16 = 0 \<Longrightarrow> length v = 16 \<Longrightarrow> length (D k v m) = length m"
    and erase_page: "inv s \<Longrightarrow> page dvd unat l \<Longrightarrow> unat l + page \<le> limit \<Longrightarrow>
      wp (flasher_erase (bi_executable_flasher i) l n l')
        (\<lambda>x s'. x = l + of_nat page \<and> inv s' \<and> view s' = (view s)\<lparr>v_flash := flash_erase_page page l (v_flash (view s))\<rparr>)
        (\<not> reliable) s"
    and write_block: "inv s \<Longrightarrow> length bs = 16 \<Longrightarrow> 16 dvd unat l \<Longrightarrow> unat l + 16 \<le> limit \<Longrightarrow>
      wp (flasher_write (bi_executable_flasher i) l bs)
        (\<lambda>_ s'. inv s' \<and> view s' = (view s)\<lparr>v_flash := flash_program l bs (v_flash (view s))\<rparr>) (\<not> reliable) s"
    and flash_final: "inv s \<Longrightarrow>
      wp (flasher_finalize (bi_executable_flasher i)) (\<lambda>_ s'. inv s' \<and> view s' = view s) (\<not> reliable) s"
    and page_16: "0 < page" "16 dvd page" "page dvd 2 ^ 32" "page < 2 ^ 32"
    and flash_end: "page dvd limit" "limit < 2 ^ 32" "no_wrap storage"
      "unat (range_location storage) + unat (range_length storage) \<le> limit"
      "unat (ie_location info) + unat (range_length ustorage) \<le> limit"
    and geometry: "page dvd unat (ie_location info)"
      "no_wrap (executable_hash_range info (ie_location info))"
      "unat (range_location ustorage) + 64 < 2 ^ 32"
      "no_wrap (executable_hash_range info (range_location ustorage + 256))"
      "320 \<le> unat (range_length ustorage)" "no_wrap ustorage"
      "unat (ie_location info) + unat (ie_metadata_offset info) + 44 < 2 ^ 32"
      "range_location storage \<le> ie_location info"
      "unat (ie_location info) + unat (ie_metadata_offset info) + 44 \<le> unat (range_location storage) + unat (range_length storage)"
begin

subsection \<open>Hashing\<close>

lemma check_hash_loop_wp:
  assumes read: "\<And>l c s n. inv s \<Longrightarrow> R l c (view s) \<Longrightarrow> l < e \<Longrightarrow> n = (if e - l > 64 then 64 else e - l) \<Longrightarrow>
      wp (rdr c l n) (\<lambda>(c, bs) s'. bs = blk l (unat n) \<and> R (l + n) c (view s') \<and> inv s' \<and>
        v_hashing (view s') = v_hashing (view s) \<and>
        v_flash (view s') = v_flash (view s) \<and> v_update (view s') = v_update (view s)) (\<not> reliable) s"
    and R: "\<And>l c v h. R l c (v\<lparr>v_hashing := h\<rparr>) = R l c v"
    and blk: "\<And>l n. length (blk l n) = n" and z: "no_wrap z"
  shows "inv s \<Longrightarrow> R l c (view s) \<Longrightarrow> v_hashing (view s) m h \<Longrightarrow>
    wp (check_hash_loop i rdr z l e h c)
      (\<lambda>(h, c) s'. v_hashing (view s') (m @ hashed blk z l e) h \<and> inv s' \<and>
        v_flash (view s') = v_flash (view s) \<and> v_update (view s') = v_update (view s)) (\<not> reliable) s"
proof (induction "unat (e - l)" arbitrary: s l m h c rule: less_induct)
  case less
  show ?case
  proof (cases "l < e")
    case False
    then show ?thesis
      using less.prems by (simp add: check_hash_loop.simps hashed.simps)
  next
    case True
    define n where "n = (if e - l > 64 then 64 else e - l)"
    have n: "0 < n" "n \<le> e - l" "n \<le> 64"
      using block_left[OF True] by (auto simp: n_def not_less less_imp_le word_less_nat_alt[of 0])
    have n': "unat n \<le> 64" "unat n < 2 ^ 32"
      using n(3) unsigned_less[of n, where ?'a = nat] by (simp_all add: word_le_nat_alt)
    have step: "check_hash_loop i rdr z l e h c =
        bnd (effect (bi_feed i)) (\<lambda>_. bnd (uninitialized 64) (\<lambda>data.
        bnd (rdr c l n) (\<lambda>(context, bytes).
        bnd (checked (wr_block data 0 bytes)) (\<lambda>data.
        bnd (checked (check_hash_zero z l n data)) (\<lambda>data.
        bnd (checked (rd_block data 0 (unat n))) (\<lambda>bytes.
        bnd (hash_update (bi_hash i) h bytes) (\<lambda>hash_context.
        check_hash_loop i rdr z (l + n) e hash_context context)))))))"
      using True by (subst check_hash_loop.simps) (simp add: n_def Let_def)
    have hashed_step: "hashed blk z l e = zero_in_block z l (blk l (unat n)) @ hashed blk z (l + n) e"
      using True by (subst hashed.simps) (simp add: n_def Let_def)
    show ?thesis
      unfolding step hashed_step
    proof (rule wp_bndI[OF feed_watchdog[OF less.prems(1)]], goal_cases)
      case (1 a s1)
      then have s1: "inv s1" "view s1 = view s" by auto
      let ?data = "take 64 (boot_stack s1 @ replicate 64 0)"
      show ?case
        unfolding wp_bnd[of "uninitialized 64"] wp_uninitialized
      proof (rule wp_bndI[OF read[OF s1(1) _ True n_def]], goal_cases)
        case 1 then show ?case using less.prems(2) s1(2) by simp
      next
        case (2 x s2)
        obtain c2 bs where x: "x = (c2, bs)" by (cases x)
        have s2: "bs = blk l (unat n)" "R (l + n) c2 (view s2)" "inv s2" "v_hashing (view s2) = v_hashing (view s)"
          "v_flash (view s2) = v_flash (view s)" "v_update (view s2) = v_update (view s)"
          using 2 s1(2) by (simp_all add: x)
        have bs: "length bs = unat n" by (simp add: s2(1) blk)
        let ?d = "bs @ drop (unat n) ?data"
        have "length ?data = 64" by simp
        then have len: "length ?d = 64" using bs n'(1) by (simp only: length_append length_drop)
        obtain d' where d': "check_hash_zero z l n ?d = Some d'"
          "rd_block d' 0 (unat n) = Some (zero_in_block z l bs)"
          using check_hash_zero_block[OF True n(2,3) bs len z refl] by blast
        have w: "wr_block ?data 0 bs = Some ?d" using bs n'(1) by (simp add: wr_block_def)
        have zb: "length (zero_in_block z l bs) + 64 \<le> 2 ^ 32"
          using rd_block_SomeD[OF d'(2)] n'(1) by simp
        show ?case
          unfolding x case_prod_conv wp_bnd[of "checked _"] wp_checked
          apply (intro exI conjI, rule w, rule d'(1), rule d'(2))
        proof (rule wp_bndI[OF hash_step[where m = m, OF s2(3) _ zb]], goal_cases)
          case 1 then show ?case using less.prems(3) s2(4) by simp
        next
          case (2 h3 s3)
          then have s3: "v_hashing (view s3) (m @ zero_in_block z l bs) h3" "inv s3"
            "view s3 = (view s2)\<lparr>v_hashing := v_hashing (view s3)\<rparr>" by auto
          have "R (l + n) c2 (view s3)" using s2(2) R s3(3) by metis
          moreover have "v_flash (view s3) = v_flash (view s)" "v_update (view s3) = v_update (view s)"
            using s2(5,6) s3(3) by (metis boot_view.ext_inject boot_view.surjective boot_view.update_convs(3))+
          ultimately show ?case
            using less.hyps[OF block_step_less[OF True n(1,2)] s3(2) _ s3(1)] s2(1) by (simp add: append_assoc)
        qed simp
      qed simp
    qed simp
  qed
qed

text \<open>Reading storage as it is, and reading it through the decrypter.\<close>

lemma check_hash_wp:
  fixes reader :: "('c, 'w) fd_boot_reader_interface_t"
  assumes rdr: "\<And>l c s n. fd_boot_is_valid_subrange st r \<Longrightarrow> inv s \<Longrightarrow> R l c (view s) \<Longrightarrow> l < range_location r + range_length r \<Longrightarrow>
      n = (if range_location r + range_length r - l > 64 then 64 else range_location r + range_length r - l) \<Longrightarrow>
      wp (reader_read reader c l n) (\<lambda>(c, bs) s'. bs = blk l (unat n) \<and> R (l + n) c (view s') \<and> inv s' \<and>
        v_hashing (view s') = v_hashing (view s) \<and>
        v_flash (view s') = v_flash (view s) \<and> v_update (view s') = v_update (view s)) (\<not> reliable) s"
    and R: "\<And>l c v h. R l c (v\<lparr>v_hashing := h\<rparr>) = R l c v"
    and blk: "\<And>l n. length (blk l n) = n" and z: "no_wrap z"
    and s: "inv s" "R (range_location r) (reader_context reader) (view s)"
    and F: "\<not> fd_boot_is_valid_subrange st r \<Longrightarrow> F" "\<not> reliable \<Longrightarrow> F"
  shows "wp (fd_boot_check_hash i reader st r z h)
      (\<lambda>(ok, c) s'. (ok \<longleftrightarrow> H (hashed blk z (range_location r) (range_location r + range_length r)) = h) \<and>
        fd_boot_is_valid_subrange st r \<and> inv s' \<and>
        v_flash (view s') = v_flash (view s) \<and> v_update (view s') = v_update (view s)) F s"
proof (cases "fd_boot_is_valid_subrange st r")
  case False
  then show ?thesis using F(1) by (simp add: fd_boot_check_hash_def)
next
  case True
  let ?c = "take 128 (boot_stack s @ replicate 128 0)"
  have eq: "fd_boot_check_hash i reader st r z h =
    bnd (uninitialized 128) (\<lambda>hash_context.
        bnd (hash_initialize (bi_hash i) hash_context) (\<lambda>hash_context.
        bnd (check_hash_loop i (reader_read reader) z (range_location r) (range_location r + range_length r)
               hash_context (reader_context reader)) (\<lambda>(hash_context, context).
        bnd (hash_finalize (bi_hash i) hash_context) (\<lambda>(actual_hash, hash_context).
        ret (actual_hash = h, context)))))"
    using True by (simp add: fd_boot_check_hash_def)
  show ?thesis
    unfolding eq wp_bnd[of "uninitialized 128"] wp_uninitialized
  proof (rule wp_bndI[OF hash_init[OF s(1)]], goal_cases)
    case (2 h1 s1)
    then have s1: "v_hashing (view s1) [] h1" "inv s1" "view s1 = (view s)\<lparr>v_hashing := v_hashing (view s1)\<rparr>"
      by auto
    have keep: "R (range_location r) (reader_context reader) (view s1)"
      "v_flash (view s1) = v_flash (view s)" "v_update (view s1) = v_update (view s)"
      by (subst s1(3), simp add: R s(2))+
    show ?case
    proof (rule wp_bndI[OF check_hash_loop_wp[OF rdr[OF True] R blk z s1(2) keep(1) s1(1)]], goal_cases)
      case (5 x s2)
      obtain h2 c2 where x: "x = (h2, c2)" by (cases x)
      have s2: "v_hashing (view s2) (hashed blk z (range_location r) (range_location r + range_length r)) h2" "inv s2"
        "v_flash (view s2) = v_flash (view s)" "v_update (view s2) = v_update (view s)"
        using 5 keep by (simp_all add: x)
      show ?case
        unfolding x case_prod_conv
      proof (rule wp_bndI[OF hash_final[OF s2(2,1)]], goal_cases)
        case (1 y s3)
        then have s3: "view s3 = (view s2)\<lparr>v_hashing := v_hashing (view s3)\<rparr>" by (auto split: prod.splits)
        have "v_flash (view s3) = v_flash (view s)" "v_update (view s3) = v_update (view s)"
          by (subst s3, simp add: s2)+
        then show ?case using 1 True by (cases y) auto
      qed (use F in auto)
    qed (use F in auto)
  qed (use F in auto)
qed

subsection \<open>The executable\<close>

lemma read_executable_unit: "inv s \<Longrightarrow> unat l + unat n \<le> limit \<Longrightarrow> wp (reader_read (bi_executable_reader i) () l n)
    (\<lambda>(_, bs) s'. bs = mem_bytes (v_flash (view s)) l (unat n) \<and> inv s' \<and> view s' = view s) (\<not> reliable) s"
  using read_executable[of s l n] by simp

lemma read_update_unit: "inv s \<Longrightarrow> wp (reader_read (bi_update_reader i) () l n)
    (\<lambda>(_, bs) s'. bs = mem_bytes (v_update (view s)) l (unat n) \<and> inv s' \<and> view s' = view s) (\<not> reliable) s"
  using read_update[of s l n] by simp

lemma block_inside:
  assumes "fd_boot_is_valid_subrange storage r" "l < range_location r + range_length r"
    "n = (if range_location r + range_length r - l > 64 then 64 else range_location r + range_length r - l)"
  shows "unat l + unat n \<le> limit"
proof -
  have "n \<le> range_location r + range_length r - l" using assms(3) by (auto simp: not_less)
  from unat_block_end(2)[OF assms(2) this]
  have "unat l + unat n \<le> unat (range_location r + range_length r)" .
  also have "\<dots> \<le> unat (range_location storage) + unat (range_length storage)"
    using assms(1) flash_end(3) by (simp add: fd_boot_is_valid_subrange_def no_wrap_def word_le_nat_alt unat_word_ariths)
  finally show ?thesis using flash_end(4) by simp
qed

lemma range_inside: "fd_boot_is_valid_subrange storage r \<Longrightarrow> no_wrap r \<Longrightarrow> unat (range_location r) + unat (range_length r) \<le> limit"
  using subrange_inside[OF _ flash_end(3)] flash_end(4) by fastforce

lemma check_executable_hash_wp:
  assumes "inv s" "no_wrap z" "\<not> fd_boot_is_valid_subrange storage r \<Longrightarrow> F" "\<not> reliable \<Longrightarrow> F"
  shows "wp (fd_boot_check_hash i (bi_executable_reader i) storage r z h)
      (\<lambda>(ok, c) s'. (ok \<longleftrightarrow> H (hashed (mem_bytes (v_flash (view s))) z (range_location r) (range_location r + range_length r)) = h) \<and>
        fd_boot_is_valid_subrange storage r \<and> inv s' \<and>
        v_flash (view s') = v_flash (view s) \<and> v_update (view s') = v_update (view s)) F s"
  by (rule check_hash_wp[where R = "\<lambda>_ c v. c = () \<and> v_flash v = v_flash (view s)"])
    (use assms in \<open>auto intro!: wp_mono[OF read_executable_unit] block_inside\<close>)

lemma check_update_hash_wp:
  assumes "inv s" "no_wrap z" "\<not> fd_boot_is_valid_subrange st r \<Longrightarrow> F" "\<not> reliable \<Longrightarrow> F"
  shows "wp (fd_boot_check_hash i (bi_update_reader i) st r z h)
      (\<lambda>(ok, c) s'. (ok \<longleftrightarrow> H (hashed (mem_bytes (v_update (view s))) z (range_location r) (range_location r + range_length r)) = h) \<and>
        fd_boot_is_valid_subrange st r \<and> inv s' \<and>
        v_flash (view s') = v_flash (view s) \<and> v_update (view s') = v_update (view s)) F s"
  by (rule check_hash_wp[where R = "\<lambda>_ c v. c = () \<and> v_update v = v_update (view s)"])
    (use assms in \<open>auto intro!: wp_mono[OF read_update_unit]\<close>)

lemma header_inside:
  "fd_boot_is_valid_subrange storage \<lparr>range_location = ie_location info + ie_metadata_offset info, range_length = 8\<rparr>"
  "fd_boot_is_valid_subrange storage \<lparr>range_location = ie_location info + ie_metadata_offset info + 8, range_length = 36\<rparr>"
  "unat (ie_location info + ie_metadata_offset info) + unat (8 :: u32) \<le> limit"
  "unat (ie_location info + ie_metadata_offset info + 8) + unat (36 :: u32) \<le> limit"
  using geometry(7-9) flash_end(3,4)
  by (simp_all add: fd_boot_is_valid_subrange_def no_wrap_def word_le_nat_alt unat_word_ariths)

lemma trailer_inside:
  assumes "fd_boot_is_valid_subrange storage \<lparr>range_location = ie_location info + n - 4, range_length = 4\<rparr>"
  shows "fd_boot_is_valid_subrange storage \<lparr>range_location = ie_location info, range_length = n\<rparr>"
    "no_wrap \<lparr>range_location = ie_location info + n - 4, range_length = 4\<rparr> \<Longrightarrow>
      unat (ie_location info + n - 4) + unat (4 :: u32) \<le> limit"
  using assms geometry(8) range_inside[OF assms] by (simp_all add: fd_boot_is_valid_subrange_def)

lemma get_executable_metadata_wp:
  assumes "inv s" "\<not> executable_wraps (v_flash (view s)) info"
  shows "wp (fd_boot_get_executable_metadata i) (\<lambda>(ok, r) s'.
     (ok \<longrightarrow> inv s' \<and> v_flash (view s') = v_flash (view s) \<and> v_update (view s') = v_update (view s) \<and>
        (ex_is_valid r \<longleftrightarrow> executable_ok H (v_flash (view s)) storage info) \<and>
        (ex_is_valid r \<longrightarrow> ex_metadata r = executable_metadata_at (v_flash (view s)) info)) \<and>
     (reliable \<and> executable_aligned (v_flash (view s)) info \<longrightarrow> ok)) False s"
    (is "wp _ ?Q False s")
proof -
  let ?f = "v_flash (view s)"
  let ?F = "\<not> (reliable \<and> executable_aligned ?f info)"
  let ?n = "em_length (executable_metadata_at ?f info)"
  note spec = executable_ok_def executable_aligned_def executable_header_def executable_metadata_at_def Let_def
    zero_executable_result_def
  have trailer: "unat (ie_location info + ?n - 4) + unat (4 :: u32) \<le> limit"
    if "executable_header ?f info" "?n mod 64 = 0"
      "fd_boot_is_valid_subrange storage \<lparr>range_location = ie_location info + ?n - 4, range_length = 4\<rparr>"
    using trailer_inside(2)[OF that(3)] assms(2) that(1,2) by (simp add: executable_wraps_def Let_def)
  show ?thesis
    unfolding fd_boot_get_executable_metadata_def Let_def fd_boot_range_t.simps
    apply (rule wp_with_result[where F = ?F])
     apply (rule wp_bndI[OF get_storage[OF assms(1)]])
      apply ((simp only: split_paired_all case_prod_conv)?, elim conjE, hypsubst)
      apply (rule wp_bndI[OF get_info], assumption)
       apply ((simp only: split_paired_all case_prod_conv)?, elim conjE, hypsubst)
       apply (rule wp_if)
        apply (simp add: header_inside)
       apply (rule wp_bndI[OF read_executable], assumption, rule header_inside(3))
        apply ((simp only: split_paired_all case_prod_conv)?, elim conjE, hypsubst)
        apply (rule wp_if)
         apply (simp add: spec)
        apply (rule wp_if)
         apply (simp add: spec)
        apply (rule wp_if)
         apply (simp add: header_inside)
        apply (rule wp_bndI[OF read_executable], assumption, rule header_inside(4))
         apply ((simp only: split_paired_all case_prod_conv)?, elim conjE, hypsubst)
         apply (rule wp_if)
          apply (simp add: spec)
         apply (rule wp_if)
          apply (simp add: spec)
         apply (rule wp_bndI[OF read_executable], assumption)
           apply (use trailer in \<open>simp add: executable_header_def executable_metadata_at_def Let_def\<close>)
          apply ((simp only: split_paired_all case_prod_conv)?, elim conjE, hypsubst)
          apply (rule wp_if)
           apply (simp add: spec)
          apply (rule wp_bndI[OF check_executable_hash_wp[where F = ?F]], assumption)
              apply (use geometry(2) in \<open>simp add: executable_hash_range_def\<close>)
             apply (use trailer_inside(1) in \<open>simp add: executable_hash_range_def\<close>)
            apply simp
           apply (auto simp: spec executable_hash_range_def header_inside)
    done
qed

subsection \<open>Decrypting\<close>

lemma decrypt_range_loop_wp:
  "inv s \<Longrightarrow> v_decrypting (view s) k v m \<Longrightarrow> l \<le> e \<Longrightarrow> unat (e - l) mod 16 = 0 \<Longrightarrow> length m mod 16 = 0 \<Longrightarrow>
   off + unat (e - l) \<le> length data \<Longrightarrow>
   wp (decrypt_range_loop i l e off c data)
     (\<lambda>(c, data') s'. (\<exists>p. D k v (m @ mem_bytes (v_update (view s)) l (unat (e - l))) = D k v m @ p \<and>
         length p = unat (e - l) \<and> data' = take off data @ p @ drop (off + unat (e - l)) data) \<and>
       inv s' \<and> v_flash (view s') = v_flash (view s) \<and> v_update (view s') = v_update (view s)) (\<not> reliable) s"
proof (induction "unat (e - l)" arbitrary: s l m c off data rule: less_induct)
  case less
  show ?case
  proof (cases "l < e")
    case False
    then have "e = l" using less.prems(3) by simp
    then show ?thesis using less.prems by (simp add: decrypt_range_loop.simps)
  next
    case True
    define n where "n = (if e - l > 16 then 16 else e - l)"
    have u: "unat (e - l) = unat e - unat l" using True by (simp add: unat_sub word_less_nat_alt word_le_nat_alt)
    have "16 \<le> unat (e - l)" using less.prems(4) block_left[OF True] by auto
    then have ge: "16 \<le> e - l" "16 \<le> unat (e - l)"
      by (simp_all add: word_le_nat_alt)
    then have n: "n = 16" "16 \<le> e - l" "16 \<le> unat (e - l)"
      by (auto simp: n_def not_less intro: antisym)
    have e: "unat (l + 16) = unat l + 16" "unat l + 16 \<le> unat e"
      using unat_block_end[OF True n(2)] by simp_all
    have left: "unat (e - (l + 16)) = unat (e - l) - 16" "l + 16 \<le> e"
      using e True by (simp_all add: unat_sub word_less_nat_alt word_le_nat_alt u)
    have split: "mem_bytes f l (unat (e - l)) = mem_bytes f l 16 @ mem_bytes f (l + 16) (unat (e - (l + 16)))" for f
      using mem_bytes_add[of f l 16 "unat (e - l) - 16"] n(3) by (simp add: left)
    have step: "decrypt_range_loop i l e off c data =
        bnd (effect (bi_feed i)) (\<lambda>_.
        bnd (reader_read (bi_update_reader i) (reader_context (bi_update_reader i)) l 16) (\<lambda>(_, bytes).
        bnd (decrypt_update (bi_decrypt i) c bytes) (\<lambda>(decrypt_context, out).
        bnd (checked (wr_block data off out)) (\<lambda>data.
        decrypt_range_loop i (l + 16) e (off + unat (16 :: u32)) decrypt_context data))))"
      using True n(1) by (subst decrypt_range_loop.simps) (simp add: n_def[symmetric] Let_def)
    show ?thesis
      unfolding step split
    proof (rule wp_bndI[OF feed_watchdog[OF less.prems(1)]], goal_cases)
      case (1 a s1)
      show ?case
      proof (rule wp_bndI[OF read_update], goal_cases)
        case (2 x s2)
        obtain u where x: "x = (u, mem_bytes (v_update (view s)) l 16)" "inv s2" "view s2 = view s"
          using 1 2 by (cases x) auto
        have d: "v_decrypting (view s2) k v m" using x(3) less.prems(2) by simp
        show ?case
          unfolding x(1) case_prod_conv
        proof (rule wp_bndI[OF decrypt_step[OF x(2) d]], goal_cases)
          case (4 y s3)
          obtain c3 p where y: "y = (c3, p)" by (cases y)
          have 3: "D k v (m @ mem_bytes (v_update (view s)) l 16) = D k v m @ p" "length p = 16"
            "v_decrypting (view s3) k v (m @ mem_bytes (v_update (view s)) l 16)" "inv s3"
            "view s3 = (view s)\<lparr>v_decrypting := v_decrypting (view s3)\<rparr>"
            using 4 x(3) by (simp_all add: y)
          have keep: "v_flash (view s3) = v_flash (view s)" "v_update (view s3) = v_update (view s)"
            by (subst 3(5), simp)+
          have room: "off + 16 + unat (e - (l + 16)) \<le> length data"
            using less.prems(6) n(3) left by simp
          have w: "wr_block data off p = Some (take off data @ p @ drop (off + 16) data)"
            using 3(2) room by (simp add: wr_block_def)
          let ?d = "take off data @ p @ drop (off + 16) data" and ?m = "m @ mem_bytes (v_update (view s)) l 16"
          have IH: "wp (decrypt_range_loop i (l + 16) e (off + unat (16 :: u32)) c3 ?d)
            (\<lambda>(c, data') s'. (\<exists>q. D k v (?m @ mem_bytes (v_update (view s3)) (l + 16) (unat (e - (l + 16)))) = D k v ?m @ q \<and>
               length q = unat (e - (l + 16)) \<and>
               data' = take (off + unat (16 :: u32)) ?d @ q @ drop (off + unat (16 :: u32) + unat (e - (l + 16))) ?d) \<and>
             inv s' \<and> v_flash (view s') = v_flash (view s3) \<and> v_update (view s') = v_update (view s3)) (\<not> reliable) s3"
            by (rule less.hyps)
              (use less.prems n(3) left 3 room mod_add_eq[of "length m" 16 16] in \<open>simp_all add: le_mod_geq\<close>)
          show ?case
            unfolding y case_prod_conv wp_bnd[of "checked _"] wp_checked w
            by (intro exI conjI, rule refl, rule wp_mono[OF IH])
              (use room n(3) left in \<open>auto simp: keep 3(1,2) add.assoc add.commute[of "unat (e - l)" off]\<close>)
        qed simp_all
      qed (use 1 in auto)
    qed simp
  qed
qed

lemma decrypt_range_wp:
  assumes "inv s" "length (um_initialization_vector md) = 16" "length data = 128"
  shows "wp (fd_boot_decrypt_range i md \<lparr>range_location = 128, range_length = 128\<rparr> data)
     (\<lambda>data' s'. data' = D key (um_initialization_vector md) (mem_bytes (v_update (view s)) 128 128) \<and>
       inv s' \<and> v_flash (view s') = v_flash (view s) \<and> v_update (view s') = v_update (view s)) (\<not> reliable) s"
  unfolding fd_boot_decrypt_range_def
proof (rule wp_bndI[OF get_key[OF assms(1)]], goal_cases)
  case (1 k s1)
  show ?case
    unfolding wp_bnd[of "uninitialized _"] wp_uninitialized
  proof (rule wp_bndI[OF decrypt_init[of s1 k]], goal_cases)
    case (4 c s2)
    let ?iv = "um_initialization_vector md"
    have s2: "v_decrypting (view s2) key ?iv []" "inv s2" "view s2 = (view s)\<lparr>v_decrypting := v_decrypting (view s2)\<rparr>"
      using 1 4 by auto
    have keep: "v_flash (view s2) = v_flash (view s)" "v_update (view s2) = v_update (view s)"
      by (subst s2(3), simp)+
    show ?case
    proof (rule wp_bndI[OF decrypt_range_loop_wp[OF s2(2,1)]], goal_cases)
      case (5 x s3)
      obtain c' d where x: "x = (c', d)" by (cases x)
      have d: "d = D key ?iv (mem_bytes (v_update (view s)) 128 128)" "inv s3"
        "v_flash (view s3) = v_flash (view s)" "v_update (view s3) = v_update (view s)"
        using 5 assms(3) by (auto simp: x keep D_nil)
      show ?case
        unfolding x case_prod_conv
      proof (rule wp_bndI[OF decrypt_final[OF d(2)]], goal_cases)
        case (1 a s4)
        then have v: "view s4 = (view s3)\<lparr>v_decrypting := v_decrypting (view s4)\<rparr>" "inv s4" by auto
        have "v_flash (view s4) = v_flash (view s)" "v_update (view s4) = v_update (view s)"
          by (subst v(1), simp add: d)+
        then show ?case using d(1) v(2) by simp
      qed simp
    qed (use assms in simp_all)
  qed (use 1 assms key_length in auto)
qed simp

lemma wp_decrypting_reader:
  assumes s: "inv s" "v_decrypting (view s) key iv (mem_bytes (v_update (view s)) start (unat l - unat start))"
    and l: "start \<le> l" "l < e" "n = (if e - l > 64 then 64 else e - l)" "64 dvd unat l - unat start" "64 dvd unat e - unat start"
    and iv: "length iv = 16"
  shows "wp (fd_boot_read_and_decrypt (bi_update_reader i) (bi_decrypt i) c l n)
    (\<lambda>(c, bs) s'. bs = mem_bytes (overlay start (D key iv (mem_bytes (v_update (view s)) start (unat e - unat start)))) l (unat n) \<and>
       start \<le> l + n \<and> 64 dvd unat (l + n) - unat start \<and> inv s' \<and>
       v_decrypting (view s') key iv (mem_bytes (v_update (view s)) start (unat (l + n) - unat start)) \<and>
       view s' = (view s)\<lparr>v_decrypting := v_decrypting (view s')\<rparr>) (\<not> reliable) s"
proof -
  let ?u = "v_update (view s)" and ?a = "unat l - unat start"
  have le: "unat start \<le> unat l" "unat l < unat e" using l(1,2) by (simp_all add: word_le_nat_alt word_less_nat_alt)
  have u: "unat (e - l) = unat e - unat l" using l(2) by (simp add: unat_sub word_less_nat_alt word_le_nat_alt)
  have "unat (e - l) = (unat e - unat start) - ?a" using u le by simp
  then have dvd: "64 dvd unat (e - l)" using l(4,5) by (simp only: dvd_diff_nat)
  then have "64 \<le> unat (e - l)" using u le by (simp add: dvd_imp_le)
  then have ge: "64 \<le> e - l" by (simp add: word_le_nat_alt)
  then have n: "n = 64" using l(3) by (auto simp: not_less intro: antisym)
  have e: "unat (l + 64) = unat l + 64" "unat l + 64 \<le> unat e"
    using unat_block_end[OF l(2) ge] by simp_all
  have off: "unat (l - start) = ?a" using l(1) by (rule unat_sub)
  have sl: "start + of_nat ?a = l" using le(1) by (simp add: of_nat_diff)
  have m2: "mem_bytes ?u start (?a + 64) = mem_bytes ?u start ?a @ mem_bytes ?u l 64"
    using mem_bytes_add[of ?u start ?a 64] sl by simp
  have "?a + 64 \<le> unat e - unat start" using e(2) le by linarith
  then obtain rest where rest: "unat e - unat start = (?a + 64) + rest"
    by (metis le_Suc_ex)
  have a16: "?a mod 16 = 0" using l(4) by (auto elim!: dvdE)
  let ?whole = "D key iv (mem_bytes ?u start (unat e - unat start))"
  have pre: "\<exists>r. ?whole = D key iv (mem_bytes ?u start (?a + 64)) @ r"
    unfolding rest mem_bytes_add[of _ _ "?a + 64"] using D_prefix[of "mem_bytes ?u start (?a + 64)"] a16
    by (simp add: mod_add_eq[of ?a 16 64, symmetric])
  show ?thesis
    unfolding fd_boot_read_and_decrypt_def n
  proof (rule wp_bndI[OF read_update[OF s(1)]], goal_cases)
    case (1 x s1)
    then obtain w where x: "x = (w, mem_bytes ?u l 64)" "inv s1" "view s1 = view s" by (cases x) auto
    have d: "v_decrypting (view s1) key iv (mem_bytes ?u start ?a)" using s(2) x(3) by simp
    show ?case
      unfolding x(1) case_prod_conv
    proof (simp only: not_True_eq_False simp_thms if_False, rule wp_bndI[OF decrypt_step[OF x(2) d]], goal_cases)
      case (4 y s2)
      obtain c' p where y: "y = (c', p)" by (cases y)
      have 2: "D key iv (mem_bytes ?u start (?a + 64)) = D key iv (mem_bytes ?u start ?a) @ p" "length p = 64"
        "v_decrypting (view s2) key iv (mem_bytes ?u start (?a + 64))" "inv s2"
        "view s2 = (view s)\<lparr>v_decrypting := v_decrypting (view s2)\<rparr>"
        using 4 x(3) by (simp_all add: y m2)
      obtain r where r: "?whole = D key iv (mem_bytes ?u start ?a) @ p @ r"
        using pre 2(1) by auto
      have "length (D key iv (mem_bytes ?u start ?a)) = ?a"
        using D_length[of "mem_bytes ?u start ?a"] a16 iv by simp
      then have bs: "mem_bytes (overlay start ?whole) l 64 = p"
        using overlay_bytes[OF r, of l] off 2(2) e(2) unsigned_less[of e, where ?'a = nat] by simp
      have "unat (l + 64) - unat start = ?a + 64" using e le by simp
      moreover have "start \<le> l + 64" using e le by (simp add: word_le_nat_alt)
      ultimately show ?case
        using 2(3-5) bs l(4) by (simp add: y)
    qed simp_all
  qed simp
qed

lemma dvd_unat_mod: "n mod 64 = 0 \<longleftrightarrow> 64 dvd unat n" for n :: u32
  by (simp add: word_eq_iff_unsigned unat_mod dvd_eq_mod_eq_0 unat_eq_0[symmetric] del: unat_eq_0)

subsection \<open>The update\<close>

lemma check_encrypted_update_wp:
  assumes s: "inv s" and n: "em_length (um_executable_metadata md) mod 64 = 0"
    and iv: "length (um_initialization_vector md) = 16"
    and z: "no_wrap (executable_hash_range info (update_start st (em_length (um_executable_metadata md))))"
    and sub: "fd_boot_is_valid_subrange st \<lparr>range_location = update_start st (em_length (um_executable_metadata md)),
        range_length = em_length (um_executable_metadata md)\<rparr>"
    and F: "F \<longleftrightarrow> \<not> reliable"
  shows "wp (check_encrypted_update i st md) (\<lambda>(ok, r) s'. ok \<and> inv s' \<and>
      v_flash (view s') = v_flash (view s) \<and> v_update (view s') = v_update (view s) \<and>
      (up_is_valid r \<longleftrightarrow> encrypted_update_ok H D key (v_update (view s)) st info md) \<and>
      (up_is_valid r \<longrightarrow> up_metadata r = md)) F s"
proof -
  let ?iv = "um_initialization_vector md" and ?u = "v_update (view s)" and ?fl = "v_flash (view s)"
  let ?n = "em_length (um_executable_metadata md)"
  let ?start = "update_start st ?n" and ?d = "D key (um_initialization_vector md) (mem_bytes (v_update (view s)) 128 128)"
  have start: "?start = range_location st + range_length st - 64 - ?n" by (simp add: update_start_def)
  have d: "rd_block ?d 8 76 = Some (take 76 (drop 8 ?d))"
    using D_length[of "mem_bytes ?u 128 128" ?iv key] iv by (simp add: rd_block_def)
  define R where "R = (\<lambda>l (c :: u8 list) (v :: boot_view). ?start \<le> l \<and> 64 dvd unat l - unat ?start \<and>
    v_decrypting v key ?iv (mem_bytes ?u ?start (unat l - unat ?start)) \<and> v_update v = ?u \<and> v_flash v = ?fl)"
  have reader: "wp (fd_boot_read_and_decrypt (bi_update_reader i) (bi_decrypt i) c l m)
      (\<lambda>(c, bs) s'. bs = mem_bytes (overlay ?start (D key ?iv (mem_bytes ?u ?start (unat ?n)))) l (unat m) \<and>
        R (l + m) c (view s') \<and> inv s' \<and> v_hashing (view s') = v_hashing (view s1) \<and>
        v_flash (view s') = v_flash (view s1) \<and> v_update (view s') = v_update (view s1)) (\<not> reliable) s1"
    if "inv s1" "R l c (view s1)" "l < ?start + ?n" "m = (if ?start + ?n - l > 64 then 64 else ?start + ?n - l)" for l c s1 m
  proof -
    have "?start \<le> l" using that(2) by (simp add: R_def)
    then have le: "?start \<le> ?start + ?n" using that(3) by (rule order.strict_implies_order[OF order.strict_trans1])
    then have "unat (?start + ?n - ?start) = unat (?start + ?n) - unat ?start" by (rule unat_sub)
    then have e: "unat (?start + ?n) - unat ?start = unat ?n" by simp
    have r: "v_update (view s1) = ?u" "v_flash (view s1) = ?fl" using that(2) by (simp_all add: R_def)
    show ?thesis
      by (rule wp_mono[OF wp_decrypting_reader[where start = ?start and e = "?start + ?n" and iv = ?iv]])
        (use that n e iv r in \<open>auto simp: R_def dvd_unat_mod dest!: view_frame_decrypting\<close>)
  qed
  let ?Q = "\<lambda>(ok, r) s'. ok \<and> inv s' \<and> v_flash (view s') = ?fl \<and> v_update (view s') = ?u \<and>
      (up_is_valid r \<longleftrightarrow> encrypted_update_ok H D key ?u st info md) \<and> (up_is_valid r \<longrightarrow> up_metadata r = md)"
  let ?range = "\<lparr>range_location = ?start, range_length = ?n\<rparr>"
  let ?reader = "\<lparr>reader_context = replicate 16 0, reader_read = fd_boot_read_and_decrypt (bi_update_reader i) (bi_decrypt i)\<rparr>"
  have hash: "wp (fd_boot_check_hash i ?reader st ?range (executable_hash_range info ?start) (em_hash (um_executable_metadata md)))
      (\<lambda>(ok, c) s'. (ok \<longleftrightarrow> H (hashed (mem_bytes (overlay ?start (D key ?iv (mem_bytes ?u ?start (unat ?n)))))
            (executable_hash_range info ?start) ?start (?start + ?n)) = em_hash (um_executable_metadata md)) \<and>
        fd_boot_is_valid_subrange st ?range \<and> inv s' \<and> v_flash (view s') = ?fl \<and> v_update (view s') = ?u) F s4"
    if "inv s4" "v_decrypting (view s4) key ?iv []" "v_flash (view s4) = ?fl" "v_update (view s4) = ?u" for s4
  proof (rule wp_mono[OF check_hash_wp[where R = R and F = F and r = ?range and reader = ?reader
        and blk = "mem_bytes (overlay ?start (D key ?iv (mem_bytes ?u ?start (unat ?n))))"]], goal_cases)
    case (1 l c s n)
    from 1(2-) show ?case
      unfolding fd_boot_range_t.select_convs fd_boot_reader_interface_t.select_convs by (rule reader)
  qed (use that z F sub in \<open>auto simp: R_def encrypted_update_ok_def Let_def\<close>)
  have tail: "wp (bnd (get_executable (bi_info i)) (\<lambda>info.
      bnd (fd_boot_check_hash i ?reader st ?range
             \<lparr>range_location = ?start + ie_metadata_offset info + 24, range_length = 20\<rparr>
             (em_hash (um_executable_metadata md))) (\<lambda>(is_valid, context).
      bnd (decrypt_finalize (bi_decrypt i) context) (\<lambda>_.
      if \<not> is_valid then ret (True, zero_update_result\<lparr>up_issue := update_issue_hash\<rparr>)
      else ret (True, zero_update_result\<lparr>up_is_valid := True, up_metadata := md\<rparr>))))) ?Q F s3"
    if s3: "inv s3" "v_decrypting (view s3) key ?iv []" "v_flash (view s3) = ?fl" "v_update (view s3) = ?u"
      and md: "parse_update_metadata (take 76 (drop 8 ?d)) = md\<lparr>um_hash := replicate 20 0\<rparr>" for s3
    apply (rule wp_bndI[OF get_info[OF s3(1)]])
     apply (elim conjE, hypsubst)
     apply (fold executable_hash_range_def)
     apply (rule wp_bndI[OF hash])
         apply assumption
        apply (simp_all only: s3)
     apply (simp only: split_paired_all case_prod_conv, elim conjE)
     apply (rule wp_bndI[OF decrypt_final], assumption)
      apply (elim conjE)
      subgoal premises prems for _ s4 ok c s5 _ s6
      proof -
        have "v_flash (view s6) = ?fl" "v_update (view s6) = ?u"
          using prems by (auto dest!: view_frame_decrypting)
        then show ?thesis
          using prems md by (auto simp: encrypted_update_ok_def Let_def zero_update_result_def)
      qed
     apply (use F in auto)
    done
  show ?thesis
    unfolding check_encrypted_update_def Let_def start[symmetric] wp_bnd[of "uninitialized _"] wp_uninitialized
    apply (rule wp_bndI[OF decrypt_range_wp[OF s iv]])
      apply simp
     apply (elim conjE, hypsubst)
     apply (unfold wp_bnd[of "checked _"] wp_checked, rule exI, rule conjI, rule d)
     apply (rule wp_if)
      apply (simp add: encrypted_update_ok_def Let_def zero_update_result_def)
     apply (rule wp_bndI[OF get_key], assumption)
      apply (elim conjE, hypsubst, unfold wp_bnd[of "uninitialized _"] wp_uninitialized)
      apply (rule wp_bndI[OF decrypt_init[OF _ key_length iv]], assumption)
       apply (elim conjE)
       subgoal premises prems for d' s1 _ s2 c s3
       proof -
         have "v_flash (view s3) = ?fl" "v_update (view s3) = ?u"
           using prems by (auto dest!: view_frame_decrypting)
         then show ?thesis
           using tail[of s3] prems by simp
       qed
      apply (use F in auto)
    done
qed

lemma check_plain_update_wp:
  assumes "inv s" and F: "F \<longleftrightarrow> \<not> reliable"
    and sub: "fd_boot_is_valid_subrange st \<lparr>range_location = range_location st + 84,
        range_length = em_length (um_executable_metadata md)\<rparr>"
  shows "wp (check_plain_update i st md) (\<lambda>(ok, r) s'. ok \<and> inv s' \<and>
      v_flash (view s') = v_flash (view s) \<and> v_update (view s') = v_update (view s) \<and>
      (up_is_valid r \<longleftrightarrow> plain_update_ok H (v_update (view s)) st md) \<and>
      (up_is_valid r \<longrightarrow> up_metadata r = md)) F s"
  unfolding check_plain_update_def Let_def
  by (rule wp_bndI[OF check_update_hash_wp[OF assms(1), where F = F]])
    (use F sub in \<open>auto simp: plain_update_ok_def no_wrap_def zero_update_result_def Let_def intro!: wp_if\<close>)

lemma iv_length [simp]: "length (um_initialization_vector (update_metadata_at m st)) = 16"
  by (simp add: update_metadata_at_def parse_update_metadata_def)

lemma update_start_encrypted:
  "n = range_length st - 64 - 128 - 128 \<Longrightarrow> update_start st n = range_location st + 256"
  by (simp add: update_start_def)

lemma get_update_metadata_wp:
  assumes "inv s"
  shows "wp (fd_boot_get_update_metadata i) (\<lambda>(ok, r) s'.
     (ok \<longrightarrow> inv s' \<and> v_flash (view s') = v_flash (view s) \<and> v_update (view s') = v_update (view s) \<and>
        (up_is_valid r \<longleftrightarrow> update_ok H D key (v_update (view s)) ustorage info) \<and>
        (up_is_valid r \<longrightarrow> up_metadata r = update_metadata_at (v_update (view s)) ustorage)) \<and>
     (reliable \<longrightarrow> ok)) False s"
proof -
  let ?m = "v_update (view s)"
  let ?F = "\<not> reliable"
  have z: "no_wrap \<lparr>range_location = range_location ustorage + 44, range_length = 20\<rparr>"
    using geometry(3) by (simp add: no_wrap_def unat_word_ariths)
  have size: "unat (range_location ustorage) + unat (range_length ustorage) < 2 ^ 32" "320 \<le> unat (range_length ustorage)"
    using geometry(5,6) by (simp_all add: no_wrap_def)
  have inside: "fd_boot_is_valid_subrange ustorage \<lparr>range_location = range_location ustorage + a, range_length = n\<rparr>"
    if "unat a + unat n \<le> unat (range_length ustorage)" for a n
    using that size by (simp add: fd_boot_is_valid_subrange_def word_le_nat_alt unat_word_ariths)
  have header: "fd_boot_is_valid_subrange ustorage \<lparr>range_location = range_location ustorage, range_length = 8\<rparr>"
    "fd_boot_is_valid_subrange ustorage \<lparr>range_location = range_location ustorage + 8, range_length = 76\<rparr>"
    using inside[of 0 8] inside[of 8 76] size(2) by simp_all
  have plain: "fd_boot_is_valid_subrange ustorage \<lparr>range_location = range_location ustorage + 84, range_length = range_length ustorage - 192\<rparr>"
    using inside[of 84 "range_length ustorage - 192"] size(2) by (simp add: unat_sub word_le_nat_alt)
  have cipher: "fd_boot_is_valid_subrange ustorage \<lparr>range_location = range_location ustorage + 256, range_length = range_length ustorage - 320\<rparr>"
    using inside[of 256 "range_length ustorage - 320"] size(2) by (simp add: unat_sub word_le_nat_alt)
  note spec = update_ok_def update_metadata_at_def Let_def zero_update_result_def
  show ?thesis
    unfolding fd_boot_get_update_metadata_def Let_def
    apply (rule wp_with_result[where F = ?F])
     apply (rule wp_bndI[OF get_ustorage[OF assms]])
      apply (elim conjE, hypsubst)
      apply (rule wp_if)
       apply (simp add: header)
      apply (rule wp_bndI[OF wp_or_error[OF read_update]], assumption)
       apply (simp only: split_paired_all case_prod_conv, elim conjE, hypsubst)
       apply (rule wp_if)
        apply (simp add: spec)
       apply (rule wp_if)
        apply (simp add: spec)
       apply (rule wp_if)
        apply (simp add: header)
       apply (rule wp_bndI[OF read_update], assumption)
        apply (simp only: split_paired_all case_prod_conv, elim conjE, hypsubst)
        apply (rule wp_if)
         apply (simp add: spec)
        apply (rule wp_if)
         apply (simp add: spec)
        apply (rule wp_if)
         apply (simp add: spec)
        apply (rule wp_bndI[OF read_update], assumption)
         apply (simp only: split_paired_all case_prod_conv, elim conjE, hypsubst)
         apply (rule wp_if)
          apply (simp add: spec)
         apply (rule wp_bndI[OF check_update_hash_wp[where F = ?F]], assumption)
             apply (simp only: z)
            apply (simp add: fd_boot_is_valid_subrange_def)
           apply simp
          apply (simp only: split_paired_all case_prod_conv, elim conjE)
          apply (rule wp_if)
           apply (simp add: spec)
          apply (rule wp_if)
           apply (rule wp_mono[OF check_plain_update_wp[OF _ refl]], assumption)
             apply (simp add: plain)
            apply (simp only: split_paired_all case_prod_conv)
            apply (simp add: spec)
           apply simp
          apply (rule wp_mono[OF check_encrypted_update_wp[OF _ _ _ _ _ refl]], assumption)
                apply simp
               apply (simp add: parse_update_metadata_def)
              apply (simp add: update_start_encrypted geometry(4))
             apply (simp add: update_start_encrypted cipher)
            apply (simp only: split_paired_all case_prod_conv)
            apply (simp add: spec)
           apply simp
          apply (simp_all add: spec)
    done
qed


subsection \<open>Installing\<close>

lemma install_loop_wp:
  "inv s \<Longrightarrow> v_decrypting (view s) k v m \<Longrightarrow> u \<le> e \<Longrightarrow> 16 dvd unat (e - u) \<Longrightarrow> length m mod 16 = 0 \<Longrightarrow>
   16 dvd unat l \<Longrightarrow> unat l + unat (e - u) \<le> limit \<Longrightarrow> page_rest_erased page l (v_flash (view s)) \<Longrightarrow>
   wp (install_loop i md bc b l (next_erase page l) u e c)
     (\<lambda>c s'. D k v (m @ mem_bytes (v_update (view s)) u (unat (e - u))) =
            D k v m @ mem_bytes (v_flash (view s')) l (unat (e - u)) \<and>
          page_rest_erased page (l + (e - u)) (v_flash (view s')) \<and>
          flash_frame page l (unat (e - u)) (v_flash (view s)) (v_flash (view s')) \<and>
          inv s' \<and> v_update (view s') = v_update (view s)) (\<not> reliable) s"
proof (induction "unat (e - u)" arbitrary: s u l m c b rule: less_induct)
  case less
  show ?case
  proof (cases "u < e")
    case False
    then have "e = u" using less.prems(3) by simp
    then show ?thesis using less.prems by (simp add: install_loop.simps flash_frame_def)
  next
    case True
    define n where "n = (if e - u > 16 then 16 else e - u)"
    have "16 \<le> unat (e - u)" using less.prems(4) block_left[OF True] by (simp add: dvd_imp_le)
    then have ge: "16 \<le> e - u" "16 \<le> unat (e - u)" by (simp_all add: word_le_nat_alt)
    then have n: "n = 16" by (auto simp: n_def not_less intro: antisym)
    have eu: "unat (u + 16) = unat u + 16" "unat u + 16 \<le> unat e"
      using unat_block_end[OF True ge(1)] by simp_all
    have left: "unat (e - (u + 16)) = unat (e - u) - 16" "u + 16 \<le> e"
      using eu True by (simp_all add: unat_sub word_less_nat_alt word_le_nat_alt)
    have room: "unat l + 16 \<le> limit" "unat l + unat (e - u) < 2 ^ 32" using less.prems(7) ge(2) flash_end(2) by simp_all
    have l16: "unat (l + 16) = unat l + 16" using room(2) ge(2) by (simp add: unat_word_ariths)
    have page_room: "unat l + page \<le> limit" if aligned: "page dvd unat l"
    proof -
      obtain a where a: "unat l = page * a" using aligned by (elim dvdE)
      obtain b where b: "limit = page * b" using flash_end(1) by (elim dvdE)
      have "page * a < page * b" using room(1) unfolding a b by linarith
      then have "a < b" by simp
      then have "page * (a + 1) \<le> page * b" by (intro mult_le_mono2) simp
      then show ?thesis by (simp add: a b)
    qed
    let ?r = "unat (e - (u + 16))"
    have len: "unat (e - u) = 16 + ?r" using ge(2) left(1) by simp
    have split: "mem_bytes f a (unat (e - u)) = mem_bytes f a 16 @ mem_bytes f (a + 16) ?r" for f a
      using mem_bytes_add[of f a 16 ?r] by (simp add: len)
    let ?erased = "\<lambda>f. if unat l mod page = 0 then flash_erase_page page l f else f"
    have step: "install_loop i md bc b l (next_erase page l) u e c =
        bnd (effect (bi_feed i)) (\<lambda>_.
        bnd (reader_read (bi_update_reader i) (reader_context (bi_update_reader i)) u 16) (\<lambda>(_, data).
        bnd (decrypt_update (bi_decrypt i) c data) (\<lambda>(decrypt_context, out).
        bnd (if next_erase page l = l
             then flasher_erase (bi_executable_flasher i) l (em_length (um_executable_metadata md)) (next_erase page l)
             else ret (next_erase page l)) (\<lambda>next_erase_location.
        bnd (flasher_write (bi_executable_flasher i) l out) (\<lambda>_.
        bnd (effect (bi_progress i (b + 1) bc)) (\<lambda>_.
        install_loop i md bc (b + 1) (l + 16) next_erase_location (u + 16) e decrypt_context))))))"
      using True n by (subst install_loop.simps) (simp add: n_def[symmetric] Let_def)
    have shift: "l + 16 + (e - (u + 16)) = l + (e - u)" by (simp add: algebra_simps)
    have erase: "wp (if next_erase page l = l
             then flasher_erase (bi_executable_flasher i) l (em_length (um_executable_metadata md)) (next_erase page l)
             else ret (next_erase page l))
        (\<lambda>x s'. x = next_erase page (l + 16) \<and> inv s' \<and>
          view s' = (view s2)\<lparr>v_flash := ?erased (v_flash (view s2))\<rparr>) (\<not> reliable) s2" if "inv s2" for s2
    proof (cases "unat l mod page = 0")
      case True
      then have "page dvd unat l" by (simp add: dvd_eq_mod_eq_0)
      from wp_mono[OF erase_page[OF that this page_room[OF this]]] show ?thesis
        using page_16 less.prems(6) l16 True by (simp add: next_erase_eq next_erase_step)
    next
      case False
      then show ?thesis using that page_16 less.prems(6) l16 by (simp add: next_erase_eq next_erase_step)
    qed
    show ?thesis
      unfolding step
    proof (rule wp_bndI[OF feed_watchdog[OF less.prems(1)]], goal_cases)
      case (1 a s1)
      show ?case
      proof (rule wp_bndI[OF read_update], goal_cases)
        case (2 x s2)
        obtain w where x: "x = (w, mem_bytes (v_update (view s)) u 16)" "inv s2" "view s2 = view s"
          using 1 2 by (cases x) auto
        have d: "v_decrypting (view s2) k v m" using x(3) less.prems(2) by simp
        show ?case
          unfolding x(1) case_prod_conv
        proof (rule wp_bndI[OF decrypt_step[OF x(2) d]], goal_cases)
          case (4 y s3)
          obtain c3 p where y: "y = (c3, p)" by (cases y)
          let ?m = "m @ mem_bytes (v_update (view s)) u 16"
          have s3: "D k v ?m = D k v m @ p" "length p = 16" "v_decrypting (view s3) k v ?m" "inv s3"
            "view s3 = (view s)\<lparr>v_decrypting := v_decrypting (view s3)\<rparr>"
            using 4 x(3) by (simp_all add: y)
          have keep: "v_flash (view s3) = v_flash (view s)" "v_update (view s3) = v_update (view s)"
            by (subst s3(5), simp)+
          show ?case
            unfolding y case_prod_conv
          proof (rule wp_bndI[OF erase[OF s3(4)]], goal_cases)
            case (1 x4 s4)
            then have s4: "x4 = next_erase page (l + 16)" "inv s4"
              "view s4 = (view s3)\<lparr>v_flash := ?erased (v_flash (view s3))\<rparr>" by auto
            show ?case
            proof (rule wp_bndI[OF write_block[OF s4(2) s3(2) less.prems(6) room(1)]], goal_cases)
              case (1 a5 s5)
              let ?f = "flash_program l p (?erased (v_flash (view s)))"
              have s5: "inv s5" "v_flash (view s5) = ?f" "v_update (view s5) = v_update (view s)"
                "v_decrypting (view s5) k v ?m"
                using 1 s3(3) keep by (simp_all add: s4(3))
              show ?case
              proof (rule wp_bndI[OF show_progress[OF s5(1)]], goal_cases)
                case (1 a6 s6)
                then have s6: "inv s6" "view s6 = view s5" by auto
                have rest: "page_rest_erased page (l + 16) ?f"
                  using page_rest_step[OF page_16(2,1) less.prems(6) l16 s3(2)] less.prems(8) by blast
                have IH: "wp (install_loop i md bc (b + 1) (l + 16) (next_erase page (l + 16)) (u + 16) e c3)
                  (\<lambda>c s'. D k v (?m @ mem_bytes (v_update (view s6)) (u + 16) ?r) =
                      D k v ?m @ mem_bytes (v_flash (view s')) (l + 16) ?r \<and>
                    page_rest_erased page (l + 16 + (e - (u + 16))) (v_flash (view s')) \<and>
                    flash_frame page (l + 16) ?r (v_flash (view s6)) (v_flash (view s')) \<and>
                    inv s' \<and> v_update (view s') = v_update (view s6)) (\<not> reliable) s6"
                proof (rule less.hyps)
                  show "16 dvd ?r" unfolding left(1) using less.prems(4) by (simp add: dvd_diff_nat)
                  show "length ?m mod 16 = 0" using less.prems(5) by (simp add: mod_add_eq[of _ 16 16, symmetric])
                  show "16 dvd unat (l + 16)" using less.prems(6) by (simp add: l16)
                  show "unat (l + 16) + ?r \<le> limit" using less.prems(7) by (simp add: l16 len)
                  show "page_rest_erased page (l + 16) (v_flash (view s6))" using rest s5 s6 by simp
                qed (use s5 s6 left ge in simp_all)
                have block: "mem_bytes ?f l 16 = p"
                  using flash_program_block[of l p "?erased (v_flash (view s))"] s3(2) room(2) ge(2)
                    erased_block[OF page_16(2,1) less.prems(6,8)] by simp
                have frame: "flash_frame page l (unat (e - u)) (v_flash (view s)) f' \<and> mem_bytes f' l 16 = p"
                  if "flash_frame page (l + 16) ?r ?f f'" for f'
                  using flash_frame_step[OF page_16(2,1) less.prems(6) l16 s3(2) _ that] block by (simp add: len)
                show ?case
                  unfolding s4(1)
                  by (rule wp_mono[OF IH[unfolded shift]]) (use s3(1) s5 s6 frame in \<open>auto simp: split\<close>)
              qed simp
            qed simp
          qed simp
        qed simp_all
      qed (use 1 in auto)
    qed simp
  qed
qed

lemma install_wp:
  assumes s: "inv s" and n: "em_length (um_executable_metadata md) mod 64 = 0"
      "unat (em_length (um_executable_metadata md)) + 64 \<le> unat (range_length ustorage)"
    and iv: "length (um_initialization_vector md) = 16"
  shows "wp (fd_boot_install i md) (\<lambda>_ s'. inv s' \<and> v_update (view s') = v_update (view s) \<and>
     installed D key (v_update (view s)) ustorage info page md (v_flash (view s)) (v_flash (view s'))) (\<not> reliable) s"
proof -
  let ?n = "em_length (um_executable_metadata md)" and ?iv = "um_initialization_vector md"
  let ?u = "update_start ustorage ?n"
  have fold: "range_location ustorage + range_length ustorage - 64 - ?n = ?u" by (simp add: update_start_def)
  have u: "?u \<le> ?u + ?n"
  proof -
    have "unat (range_location ustorage) + unat (range_length ustorage) < 2 ^ 32"
      using geometry(6) by (simp add: no_wrap_def)
    then have "unat ?u = unat (range_location ustorage) + unat (range_length ustorage) - 64 - unat ?n"
      using n(2) by (simp add: update_start_def unat_sub word_le_nat_alt unat_word_ariths)
    then have "unat (?u + ?n) = unat ?u + unat ?n"
      using \<open>unat (range_location ustorage) + _ < _\<close> n(2) by (simp add: unat_word_ariths)
    then show ?thesis by (simp add: word_le_nat_alt)
  qed
  have 64: "64 dvd unat ?n" using n(1) by (simp only: dvd_unat_mod)
  then have dvd: "16 dvd unat ?n" by (rule dvd_trans[rotated]) simp
  have l16: "16 dvd unat (ie_location info)" using page_16(2) geometry(1) by (rule dvd_trans)
  have ne: "next_erase page (ie_location info) = ie_location info"
    using geometry(1) page_16 by (simp add: next_erase_eq dvd_eq_mod_eq_0)
  have rest: "page_rest_erased page (ie_location info) f" for f
    using geometry(1) by (simp add: page_rest_erased_def dvd_eq_mod_eq_0)
  have tail: "wp (bnd (install_loop i md bc 0 (ie_location info) (ie_location info) ?u (?u + ?n) c) (\<lambda>c.
      bnd (flasher_finalize (bi_executable_flasher i)) (\<lambda>_.
      bnd (decrypt_finalize (bi_decrypt i) c) (\<lambda>_. ret ()))))
      (\<lambda>_ s'. inv s' \<and> v_update (view s') = v_update (view s) \<and>
        installed D key (v_update (view s)) ustorage info page md (v_flash (view s)) (v_flash (view s'))) (\<not> reliable) s1"
    if s1: "inv s1" "v_decrypting (view s1) key ?iv []" "v_flash (view s1) = v_flash (view s)"
      "v_update (view s1) = v_update (view s)" for s1 c bc
  proof (rule wp_bndI[OF install_loop_wp[OF s1(1,2) u, where l = "ie_location info", unfolded ne]], goal_cases)
    case (6 c2 s2)
    then have s2: "inv s2" "v_update (view s2) = v_update (view s)"
      "installed D key (v_update (view s)) ustorage info page md (v_flash (view s)) (v_flash (view s2))"
      using s1 D_nil by (simp_all add: installed_def Let_def add.commute)
    show ?case
    proof (rule wp_bndI[OF flash_final[OF s2(1)]], goal_cases)
      case (1 a s3)
      then have s3: "inv s3" "view s3 = view s2" by auto
      show ?case
      proof (rule wp_bndI[OF decrypt_final[OF s3(1)]], goal_cases)
        case (1 b s4)
        then have s4: "inv s4" "view s4 = (view s3)\<lparr>v_decrypting := v_decrypting (view s4)\<rparr>" by auto
        show ?case using s2 s3(2) s4(1) view_frame_decrypting[OF s4(2)] by simp
      qed simp
    qed simp
  qed (use dvd l16 rest flash_end(5) n(2) in simp_all)
  show ?thesis
    unfolding fd_boot_install_def Let_def
    apply (rule wp_bndI[OF get_key[OF s]])
     apply (elim conjE, hypsubst, unfold wp_bnd[of "uninitialized _"] wp_uninitialized)
     apply (rule wp_bndI[OF decrypt_init[OF _ key_length iv]], assumption)
      apply (elim conjE)
      apply (rule wp_bndI[OF get_info], assumption)
       apply (elim conjE, hypsubst)
       apply (rule wp_bndI[OF show_progress], assumption)
        apply (elim conjE)
        apply (rule wp_bndI[OF get_ustorage], assumption)
         apply (elim conjE, hypsubst, unfold fold)
         apply (rule tail)
            apply assumption
          apply (auto dest!: view_frame_decrypting)
    done
qed

subsection \<open>Update\<close>

lemma update_ok_length:
  assumes "update_ok H D key m ustorage info"
  shows "em_length (um_executable_metadata (update_metadata_at m ustorage)) mod 64 = 0"
    "unat (em_length (um_executable_metadata (update_metadata_at m ustorage))) + 64 \<le> unat (range_length ustorage)"
proof -
  let ?n = "em_length (um_executable_metadata (update_metadata_at m ustorage))"
  show "?n mod 64 = 0" using assms unfolding update_ok_def Let_def by (elim conjE)
  have "?n = range_length ustorage - 320 \<or> ?n = range_length ustorage - 192"
    using assms by (auto simp: update_ok_def Let_def split: if_splits)
  then show "unat ?n + 64 \<le> unat (range_length ustorage)"
    using geometry(5) by (auto simp: unat_sub word_le_nat_alt)
qed

lemma update_wp:
  assumes s: "inv s" and wrap: "\<not> executable_wraps (v_flash (view s)) info"
      "\<And>f'. boot_decision (bi_action i) H D key storage ustorage info (v_update (view s)) (v_flash (view s)) = action_install \<Longrightarrow>
        installed D key (v_update (view s)) ustorage info page (update_metadata_at (v_update (view s)) ustorage) (v_flash (view s)) f' \<Longrightarrow>
        \<not> executable_wraps f' info"
  shows "wp (fd_boot_update i) (\<lambda>(ok, r) s'.
     (ok \<longrightarrow> inv s' \<and> v_update (view s') = v_update (view s) \<and>
        update_outcome (bi_action i) H D key storage ustorage info page (v_update (view s)) (v_flash (view s))
          (v_flash (view s')) (ur_is_valid r)) \<and>
     (reliable \<and> executable_aligned (v_flash (view s)) info \<and>
        (\<forall>f'. boot_decision (bi_action i) H D key storage ustorage info (v_update (view s)) (v_flash (view s)) = action_install \<longrightarrow>
           installed D key (v_update (view s)) ustorage info page (update_metadata_at (v_update (view s)) ustorage) (v_flash (view s)) f' \<longrightarrow>
           executable_aligned f' info)
      \<longrightarrow> ok)) False s"
proof -
  let ?f = "v_flash (view s)" and ?u = "v_update (view s)"
  let ?d = "boot_decision (bi_action i) H D key storage ustorage info ?u ?f" and ?md = "update_metadata_at ?u ustorage"
  let ?F = "\<not> (reliable \<and> executable_aligned ?f info \<and>
    (\<forall>f'. ?d = action_install \<longrightarrow> installed D key ?u ustorage info page ?md ?f f' \<longrightarrow> executable_aligned f' info))"
  let ?Q = "\<lambda>(ok, r) s'. (ok \<longrightarrow> inv s' \<and> v_update (view s') = ?u \<and>
      update_outcome (bi_action i) H D key storage ustorage info page ?u ?f (v_flash (view s')) (ur_is_valid r)) \<and>
      (reliable \<and> executable_aligned ?f info \<and>
        (\<forall>f'. ?d = action_install \<longrightarrow> installed D key ?u ustorage info page ?md ?f f' \<longrightarrow> executable_aligned f' info) \<longrightarrow> ok)"
  have install: "wp (bnd (fd_boot_install i (up_metadata update)) (\<lambda>_.
         bnd (fd_boot_get_executable_metadata i) (\<lambda>(ok, executable).
         if \<not> ok then fail
         else if \<not> ex_is_valid executable then ret (True, zero_result\<lparr>ur_issue := update_issue_update\<rparr>)
         else ret (True, zero_result\<lparr>ur_is_valid := True\<rparr>)))) ?Q ?F s2"
    if s2: "inv s2" "v_flash (view s2) = ?f" "v_update (view s2) = ?u" and up: "up_metadata update = ?md"
      and ok: "update_ok H D key ?u ustorage info" and d: "?d = action_install" for s2 update
  proof (rule wp_bndI[OF install_wp[OF s2(1)]], goal_cases)
    case (4 a s3)
    then have s3: "inv s3" "v_update (view s3) = ?u" "installed D key ?u ustorage info page ?md ?f (v_flash (view s3))"
      using s2 up by simp_all
    show ?case
    proof (rule wp_bndI[OF get_executable_metadata_wp[OF s3(1) wrap(2)[OF d s3(3)]]], goal_cases)
      case (1 x s4)
      then show ?case
        using s3 d by (cases x) (auto simp: update_outcome_def zero_result_def)
    qed simp
  qed (use update_ok_length[OF ok] up in simp_all)
  show ?thesis
    unfolding fd_boot_update_def Let_def
  proof (rule wp_with_result[where F = ?F], rule wp_bndI[OF get_executable_metadata_wp[OF s wrap(1)]], goal_cases)
    case (1 x s1)
    note first = 1
    obtain ok1 e where x: "x = (ok1, e)" by (cases x)
    show ?case
      unfolding x case_prod_conv
    proof (rule wp_if, goal_cases)
      case 1 then show ?case using first by (auto simp: x)
    next
      case 2
      then have s1: "inv s1" "v_flash (view s1) = ?f" "v_update (view s1) = ?u"
        "ex_is_valid e \<longleftrightarrow> executable_ok H ?f storage info" "ex_is_valid e \<longrightarrow> ex_metadata e = executable_metadata_at ?f info"
        using first by (auto simp: x)
      show ?case
      proof (rule wp_bndI[OF get_update_metadata_wp[OF s1(1)]], goal_cases)
        case (1 y s2)
        note second = 1
        obtain ok2 up where y: "y = (ok2, up)" by (cases y)
        show ?case
          unfolding y case_prod_conv
        proof (rule wp_if, goal_cases)
          case 1 then show ?case using second s1 by (auto simp: y)
        next
          case 2
          then have s2: "inv s2" "v_flash (view s2) = ?f" "v_update (view s2) = ?u"
            "up_is_valid up \<longleftrightarrow> update_ok H D key ?u ustorage info" "up_is_valid up \<longrightarrow> up_metadata up = ?md"
            using second s1 by (auto simp: y)
          have d: "fd_boot_get_action (bi_action i) e up = ?d"
            using s1(4,5) s2(4,5) by (simp add: get_action_choice boot_decision_def)
          show ?case
          proof (cases ?d)
            case action_install
            then have valid: "up_is_valid up" using d by (auto simp: fd_boot_get_action_def split: if_splits)
            then have "up_metadata up = ?md" "update_ok H D key ?u ustorage info" using s2(4,5) by simp_all
            then show ?thesis
              using install[OF s2(1-3) _ _ action_install, of up] d action_install
              by (simp only: fd_boot_update_action_t.case)
          qed (use d s2 in \<open>auto simp: update_outcome_def zero_result_def boot_decision_def boot_choice_def
            split: option.splits if_splits\<close>)
        qed
      qed simp
    qed
  qed simp_all
qed

end

section \<open>Frames\<close>

text \<open>\<open>keeps I m\<close>: \<open>m\<close> preserves \<open>I\<close> whether it returns a value or \<open>false\<close>.\<close>

definition keeps :: "('w boot_state \<Rightarrow> bool) \<Rightarrow> ('a, 'w) boot \<Rightarrow> bool" where
  "keeps I m \<longleftrightarrow> (\<forall>s r s'. I s \<longrightarrow> m s = Some (r, s') \<longrightarrow> I s')"

named_theorems keeps_intro \<open>rules for frames\<close>

lemma keepsD: "keeps I m \<Longrightarrow> m s = Some (r, s') \<Longrightarrow> I s \<Longrightarrow> I s'"
  by (auto simp: keeps_def)

lemma keeps_bnd [keeps_intro]:
  assumes m: "keeps I m" and k: "\<And>a. keeps I (k a)"
  shows "keeps I (bnd m k)"
  unfolding keeps_def
proof (intro allI impI)
  fix s r s' assume I: "I s" and run: "bnd m k s = Some (r, s')"
  then obtain x s1 where 1: "m s = Some (x, s1)" by (auto simp: bnd_def split: option.splits)
  then have "I s1" using keepsD[OF m] I by blast
  then show "I s'" using run 1 keepsD[OF k] by (cases x) (auto simp: bnd_def)
qed

lemma keeps_simple [keeps_intro]:
  "keeps I (ret a)" "keeps I fail" "keeps I (uninitialized n)" "keeps I undef" "keeps I (checked x)"
  by (auto simp: keeps_def ret_def fail_def uninitialized_def undef_def checked_def split: option.splits)

lemma keeps_if [keeps_intro]: "(c \<Longrightarrow> keeps I m) \<Longrightarrow> (\<not> c \<Longrightarrow> keeps I m') \<Longrightarrow> keeps I (if c then m else m')"
  by simp

lemma keeps_prod [keeps_intro]: "(\<And>a b. keeps I (f a b)) \<Longrightarrow> keeps I (case x of (a, b) \<Rightarrow> f a b)"
  by (cases x) simp

lemma keeps_let [keeps_intro]: "keeps I (f a) \<Longrightarrow> keeps I (Let a f)"
  by simp

lemma keeps_with_result [keeps_intro]: "keeps I m \<Longrightarrow> keeps I (with_result r m)"
  unfolding keeps_def with_result_def by (auto split: option.splits prod.splits)

text \<open>A property of states that nothing but the flasher and the executor can change, and one that only the
  executor can change.\<close>

locale boot_frame =
  fixes i :: "'w fd_boot_update_interface_t" and I :: "'w boot_state \<Rightarrow> bool"
  assumes code: "I s \<Longrightarrow> I (s\<lparr>boot_code := code'\<rparr>)"
    and info: "keeps I (get_executable_storage (bi_info i))" "keeps I (get_executable (bi_info i))"
      "keeps I (get_update_storage (bi_info i))" "keeps I (get_decryption (bi_info i))"
    and feed: "keeps I (effect (bi_feed i))"
    and hash: "keeps I (hash_initialize (bi_hash i) c)" "keeps I (hash_update (bi_hash i) c d)"
      "keeps I (hash_finalize (bi_hash i) c)"
    and decrypt: "keeps I (decrypt_initialize (bi_decrypt i) c k v)" "keeps I (decrypt_update (bi_decrypt i) c d)"
      "keeps I (decrypt_finalize (bi_decrypt i) c)"
    and reader: "keeps I (reader_read (bi_executable_reader i) u l n)" "keeps I (reader_read (bi_update_reader i) u l n)"
begin

lemma keeps_error: "keeps I boot_error"
  using code by (auto simp: keeps_def boot_error_def bnd_def fd_boot_set_error_def fail_def)

lemma keeps_or_error: "keeps I m \<Longrightarrow> keeps I (or_error m)"
  by (auto simp: keeps_def or_error_def split: option.splits prod.splits dest: keepsD[OF keeps_error])

lemmas frame_intro = keeps_intro keeps_error keeps_or_error info feed hash decrypt reader

lemma keeps_hash_loop:
  assumes "\<And>c l n. keeps I (rdr c l n)"
  shows "keeps I (check_hash_loop i rdr z l e h c)"
proof (induction "unat (e - l)" arbitrary: l h c rule: less_induct)
  case less
  show ?case
    by (subst check_hash_loop.simps) (auto intro!: frame_intro assms less block_step_less block_left simp: Let_def)
qed

lemma keeps_check_hash:
  assumes "\<And>c l n. keeps I (reader_read rdr c l n)"
  shows "keeps I (fd_boot_check_hash i rdr st r z h)"
  unfolding fd_boot_check_hash_def by (intro frame_intro keeps_hash_loop assms)

lemma keeps_get_executable_metadata: "keeps I (fd_boot_get_executable_metadata i)"
  unfolding fd_boot_get_executable_metadata_def by (intro frame_intro keeps_check_hash)

lemma keeps_decrypt_range_loop: "keeps I (decrypt_range_loop i l e off c data)"
proof (induction "unat (e - l)" arbitrary: l off c data rule: less_induct)
  case less
  show ?case
    by (subst decrypt_range_loop.simps) (auto intro!: frame_intro less block_step_less block_left simp: Let_def)
qed

lemma keeps_decrypt_range: "keeps I (fd_boot_decrypt_range i md r data)"
  unfolding fd_boot_decrypt_range_def by (intro frame_intro keeps_decrypt_range_loop)

lemma keeps_read_and_decrypt:
  "keeps I (fd_boot_read_and_decrypt (bi_update_reader i) (bi_decrypt i) c l n)"
  unfolding fd_boot_read_and_decrypt_def by (auto intro!: frame_intro)

lemma keeps_get_update_metadata: "keeps I (fd_boot_get_update_metadata i)"
  unfolding fd_boot_get_update_metadata_def check_plain_update_def check_encrypted_update_def
  by (auto intro!: frame_intro keeps_check_hash keeps_decrypt_range simp: keeps_read_and_decrypt Let_def)

end

locale boot_flash_frame = boot_frame +
  assumes flasher: "keeps I (flasher_erase (bi_executable_flasher i) l n l')"
      "keeps I (flasher_write (bi_executable_flasher i) l bs)" "keeps I (flasher_finalize (bi_executable_flasher i))"
    and progress: "keeps I (effect (bi_progress i a b))"
begin

lemma keeps_install_loop: "keeps I (install_loop i md bc b l l' u e c)"
proof (induction "unat (e - u)" arbitrary: u b l l' c rule: less_induct)
  case less
  show ?case
    by (subst install_loop.simps)
      (auto intro!: frame_intro flasher progress less block_step_less block_left simp: Let_def)
qed

lemma keeps_install: "keeps I (fd_boot_install i md)"
  unfolding fd_boot_install_def by (auto intro!: frame_intro flasher progress keeps_install_loop simp: Let_def)

lemma keeps_update: "keeps I (fd_boot_update i)"
  unfolding fd_boot_update_def
  by (auto intro!: frame_intro keeps_get_executable_metadata keeps_get_update_metadata keeps_install
      simp: Let_def split: fd_boot_update_action_t.splits)

end

end
