(* ===== verification/FD_BootNrf53.thy ===== *)
theory FD_BootNrf53 imports FD_BootSpec FD_Sha1 FD_Aes begin

text \<open>
  The boot loader on the nRF53: the default hash, decrypter and readers of \<open>subsys/boot/src/fd_boot.c\<close>
  (on the global SHA-1 and AES contexts and on memory), the flasher and the executor of
  \<open>fd_boot_nrf53.c\<close>, and the start-up code of the two boot applications. With them the contract
  \<open>boot_platform\<close> is proved for the interface that \<open>applications/boot/split/peripheral\<close> builds, so that what
  \<open>FD_BootSpec\<close> shows holds for it with SHA-1 as the hash and AES-128 CBC as the cipher.

  \<open>hw_memory\<close> is the flash of the application core: 1 MiB from address 0. A load or a store outside of it,
  by the readers, the flasher or the executor, is undefined (\<open>None\<close>).

  Two things are parameters: \<open>store config a v\<close>, the effect on the flash of storing the word \<open>v\<close> at \<open>a\<close>
  when the flash controller's CONFIG register holds \<open>config\<close> (hardware; \<open>nvmc\<close> says what its manual
  promises; the code waits for the controller before and after every store), and the update storage,
  which is on the other side of a serial link: \<open>us\<close> is its range, or \<open>None\<close> when the link fails, and \<open>read'
  l n\<close> the bytes read from it, \<open>None\<close> when the link fails. Starting the executable is recorded in
  \<open>hw_started\<close>; the jump itself does not return.
\<close>

section \<open>The machine\<close>

record boot_hw =
  hw_sha :: SHA_CTX
  hw_aes :: aes_t
  hw_memory :: "u32 \<Rightarrow> u8"
  hw_config :: u32
  hw_irq_disabled :: bool
  hw_icer :: "u32 list"
  hw_icpr :: "u32 list"
  hw_started :: "(u32 \<times> u32 \<times> u32) option"

type_synonym nvmc_store = "u32 \<Rightarrow> u32 \<Rightarrow> u32 \<Rightarrow> (u32 \<Rightarrow> u8) \<Rightarrow> u32 \<Rightarrow> u8"

definition load32 :: "(u32 \<Rightarrow> u8) \<Rightarrow> u32 \<Rightarrow> u32" where
  "load32 m a = boot_u32 (mem_bytes m a 4) 0"

text \<open>An access of \<open>n\<close> bytes at \<open>a\<close> is inside of the flash.\<close>

definition flash_size :: nat where
  "flash_size = 0x100000"

definition in_flash :: "u32 \<Rightarrow> nat \<Rightarrow> bool" where
  "in_flash a n \<longleftrightarrow> unat a + n \<le> flash_size"

definition flash_bytes :: "(u32 \<Rightarrow> u8) \<Rightarrow> u32 \<Rightarrow> nat \<Rightarrow> u8 list option" where
  "flash_bytes m a n = (if in_flash a n then Some (mem_bytes m a n) else None)"

definition flash_word :: "(u32 \<Rightarrow> u8) \<Rightarrow> u32 \<Rightarrow> u32 option" where
  "flash_word m a = (if in_flash a 4 then Some (load32 m a) else None)"

section \<open>The defaults\<close>

definition fd_boot_hash_initialize :: "u8 list \<Rightarrow> (u8 list, boot_hw) boot" where
  "fd_boot_hash_initialize context s =
     (let (ok, sha) = fd_crypto_sha_initialize (hw_sha (boot_world s)) in
      bnd (effect (\<lambda>w. w\<lparr>hw_sha := sha\<rparr>)) (\<lambda>_. if \<not> ok then boot_error else ret context) s)"

definition fd_boot_hash_update :: "u8 list \<Rightarrow> u8 list \<Rightarrow> (u8 list, boot_hw) boot" where
  "fd_boot_hash_update context data s =
     bnd (checked (fd_crypto_sha_update (hw_sha (boot_world s)) data)) (\<lambda>(ok, sha).
     bnd (effect (\<lambda>w. w\<lparr>hw_sha := sha\<rparr>)) (\<lambda>_. if \<not> ok then boot_error else ret context)) s"

definition fd_boot_hash_finalize :: "u8 list \<Rightarrow> (u8 list \<times> u8 list, boot_hw) boot" where
  "fd_boot_hash_finalize context s =
     bnd (checked (fd_crypto_sha_finalize (hw_sha (boot_world s)))) (\<lambda>(ok, hash, sha).
     bnd (effect (\<lambda>w. w\<lparr>hw_sha := sha\<rparr>)) (\<lambda>_. if \<not> ok then boot_error else ret (hash, context))) s"

definition fd_boot_decrypt_initialize :: "u8 list \<Rightarrow> u8 list \<Rightarrow> u8 list \<Rightarrow> (u8 list, boot_hw) boot" where
  "fd_boot_decrypt_initialize decrypt key iv s =
     bnd (uninitialized 16) (\<lambda>stack.
     bnd (checked (fd_crypto_aes_decrypt_initialize stack (hw_aes (boot_world s)) (Some key) (Some iv))) (\<lambda>(ok, aes).
     bnd (effect (\<lambda>w. w\<lparr>hw_aes := aes\<rparr>)) (\<lambda>_. if \<not> ok then boot_error else ret decrypt))) s"

definition fd_boot_decrypt_update :: "u8 list \<Rightarrow> u8 list \<Rightarrow> (u8 list \<times> u8 list, boot_hw) boot" where
  "fd_boot_decrypt_update decrypt data s =
     bnd (uninitialized (length data)) (\<lambda>out.
     bnd (checked (fd_crypto_aes_decrypt_update (hw_aes (boot_world s)) data out (of_nat (length data)))) (\<lambda>(ok, aes, out).
     bnd (effect (\<lambda>w. w\<lparr>hw_aes := aes\<rparr>)) (\<lambda>_. if \<not> ok then boot_error else ret (decrypt, out)))) s"

definition fd_boot_decrypt_finalize :: "u8 list \<Rightarrow> (u8 list, boot_hw) boot" where
  "fd_boot_decrypt_finalize decrypt s =
     (let (ok, aes) = fd_crypto_aes_decrypt_finalize (hw_aes (boot_world s)) in
      bnd (effect (\<lambda>w. w\<lparr>hw_aes := aes\<rparr>)) (\<lambda>_. if \<not> ok then boot_error else ret decrypt) s)"

definition fd_boot_executable_reader_read :: "(unit, boot_hw) fd_boot_read" where
  "fd_boot_executable_reader_read context location n s =
     bnd (checked (flash_bytes (hw_memory (boot_world s)) location (unat n))) (\<lambda>bytes. ret ((), bytes)) s"

definition fd_boot_update_reader_read :: "(unit, boot_hw) fd_boot_read" where
  "fd_boot_update_reader_read context location n s =
     bnd (checked (flash_bytes (hw_memory (boot_world s)) location (unat n))) (\<lambda>bytes. ret ((), bytes)) s"

definition fd_boot_status_progress :: "u32 \<Rightarrow> u32 \<Rightarrow> 'w \<Rightarrow> 'w" where
  "fd_boot_status_progress a b w = w"

definition fd_boot_watchdog_feed :: "'w \<Rightarrow> 'w" where
  "fd_boot_watchdog_feed w = w"

definition fd_boot_action_can_upgrade :: "fd_boot_version_t \<Rightarrow> fd_boot_version_t \<Rightarrow> bool" where
  "fd_boot_action_can_upgrade executable_version update_version = True"

definition fd_boot_action_can_downgrade :: "fd_boot_version_t \<Rightarrow> fd_boot_version_t \<Rightarrow> bool" where
  "fd_boot_action_can_downgrade executable_version update_version = False"

definition fd_boot_action_can_install :: "fd_boot_version_t \<Rightarrow> bool" where
  "fd_boot_action_can_install version = True"

text \<open>An interface as an application fills it in, with \<open>None\<close> for a null pointer. The three functions of the
  hash, and those of the decrypter, are replaced together when \<open>update\<close> is null.\<close>

record boot_configuration =
  bc_info :: "boot_hw fd_boot_info_interface_t"
  bc_progress :: "(u32 \<Rightarrow> u32 \<Rightarrow> boot_hw \<Rightarrow> boot_hw) option"
  bc_feed :: "(boot_hw \<Rightarrow> boot_hw) option"
  bc_hash :: "boot_hw fd_boot_hash_interface_t option"
  bc_decrypt :: "boot_hw fd_boot_decrypt_interface_t option"
  bc_executable_reader :: "(unit, boot_hw) fd_boot_read option"
  bc_executable_flasher :: "boot_hw fd_boot_flasher_interface_t"
  bc_update_reader :: "(unit, boot_hw) fd_boot_read option"
  bc_can_upgrade :: "(fd_boot_version_t \<Rightarrow> fd_boot_version_t \<Rightarrow> bool) option"
  bc_can_downgrade :: "(fd_boot_version_t \<Rightarrow> fd_boot_version_t \<Rightarrow> bool) option"
  bc_can_install :: "(fd_boot_version_t \<Rightarrow> bool) option"
  bc_executor :: "boot_hw fd_boot_executor_interface_t"

definition or_default :: "'a option \<Rightarrow> 'a \<Rightarrow> 'a" where
  "or_default x d = (case x of None \<Rightarrow> d | Some y \<Rightarrow> y)"

definition fd_boot_set_update_interface_defaults :: "boot_configuration \<Rightarrow> boot_hw fd_boot_update_interface_t" where
  "fd_boot_set_update_interface_defaults c =
     \<lparr>bi_info = bc_info c,
      bi_progress = or_default (bc_progress c) fd_boot_status_progress,
      bi_feed = or_default (bc_feed c) fd_boot_watchdog_feed,
      bi_hash = or_default (bc_hash c)
        \<lparr>hash_initialize = fd_boot_hash_initialize, hash_update = fd_boot_hash_update,
         hash_finalize = fd_boot_hash_finalize\<rparr>,
      bi_decrypt = or_default (bc_decrypt c)
        \<lparr>decrypt_initialize = fd_boot_decrypt_initialize, decrypt_update = fd_boot_decrypt_update,
         decrypt_finalize = fd_boot_decrypt_finalize\<rparr>,
      bi_executable_reader =
        \<lparr>reader_context = (), reader_read = or_default (bc_executable_reader c) fd_boot_executable_reader_read\<rparr>,
      bi_executable_flasher = bc_executable_flasher c,
      bi_update_reader =
        \<lparr>reader_context = (), reader_read = or_default (bc_update_reader c) fd_boot_update_reader_read\<rparr>,
      bi_action =
        \<lparr>can_upgrade = or_default (bc_can_upgrade c) fd_boot_action_can_upgrade,
         can_downgrade = or_default (bc_can_downgrade c) fd_boot_action_can_downgrade,
         can_install = or_default (bc_can_install c) fd_boot_action_can_install\<rparr>,
      bi_executor = bc_executor c\<rparr>"

section \<open>The flasher\<close>

definition nrf53_page_size :: u32 where
  "nrf53_page_size = 0x1000"

definition flash_store :: "nvmc_store \<Rightarrow> u32 \<Rightarrow> u32 \<Rightarrow> boot_hw \<Rightarrow> boot_hw option" where
  "flash_store store a v w =
     (if in_flash a 4 then Some (w\<lparr>hw_memory := store (hw_config w) a v (hw_memory w)\<rparr>) else None)"

definition fd_boot_nrf53_flash_erase :: "nvmc_store \<Rightarrow> u32 \<Rightarrow> u32 \<Rightarrow> boot_hw \<Rightarrow> (bool \<times> boot_hw) option" where
  "fd_boot_nrf53_flash_erase store address size' w =
     (if address AND (nrf53_page_size - 1) \<noteq> 0 then Some (False, w)
      else map_option (\<lambda>w. (True, w\<lparr>hw_config := 0\<rparr>)) (flash_store store address 0xffffffff (w\<lparr>hw_config := 2\<rparr>)))"

text \<open>The loop over the words of the data, which are loaded at \<open>offset\<close>.\<close>

function nrf53_write_loop :: "nvmc_store \<Rightarrow> u32 \<Rightarrow> u8 list \<Rightarrow> nat \<Rightarrow> u32 \<Rightarrow> boot_hw \<Rightarrow> boot_hw option" where
  "nrf53_write_loop store write_address data offset write_size w =
     (if write_size \<noteq> 0 then
        case rd_block data offset 4 of
          None \<Rightarrow> None
        | Some word \<Rightarrow>
            (case flash_store store write_address (boot_u32 word 0) w of
               None \<Rightarrow> None
             | Some w \<Rightarrow> nrf53_write_loop store (write_address + 4) data (offset + 4) (write_size - 4) w)
      else Some w)"
  by pat_completeness auto
termination
  by (relation "measure (\<lambda>(store, l, data, offset, n, w). length data - offset)") (auto dest: rd_block_SomeD)

declare nrf53_write_loop.simps [simp del]

definition fd_boot_nrf53_flash_write :: "nvmc_store \<Rightarrow> u32 \<Rightarrow> u8 list \<Rightarrow> u32 \<Rightarrow> boot_hw \<Rightarrow> (bool \<times> boot_hw) option" where
  "fd_boot_nrf53_flash_write store address data size' w =
     (if address AND 3 \<noteq> 0 then Some (False, w)
      else if size' AND 3 \<noteq> 0 then Some (False, w)
      else
        map_option (\<lambda>w. (True, w\<lparr>hw_config := 0\<rparr>))
          (nrf53_write_loop store address data 0 size' (w\<lparr>hw_config := 1\<rparr>)))"

definition fd_boot_nrf53_flasher_erase :: "nvmc_store \<Rightarrow> u32 \<Rightarrow> u32 \<Rightarrow> u32 \<Rightarrow> (u32, boot_hw) boot" where
  "fd_boot_nrf53_flasher_erase store location n next_location s =
     bnd (checked (fd_boot_nrf53_flash_erase store location n (boot_world s))) (\<lambda>(ok, w).
     bnd (effect (\<lambda>_. w)) (\<lambda>_. if \<not> ok then boot_error else ret (location + nrf53_page_size))) s"

definition fd_boot_nrf53_flasher_write :: "nvmc_store \<Rightarrow> u32 \<Rightarrow> u8 list \<Rightarrow> (unit, boot_hw) boot" where
  "fd_boot_nrf53_flasher_write store location data s =
     bnd (checked (fd_boot_nrf53_flash_write store location data (of_nat (length data)) (boot_world s))) (\<lambda>(ok, w).
     bnd (effect (\<lambda>_. w)) (\<lambda>_. if \<not> ok then boot_error else ret ())) s"

definition fd_boot_nrf53_flasher_finalize :: "(unit, boot_hw) boot" where
  "fd_boot_nrf53_flasher_finalize = ret ()"

section \<open>The executor\<close>

definition fd_boot_nrf53_executor_cleanup :: "(unit, boot_hw) boot" where
  "fd_boot_nrf53_executor_cleanup =
     bnd (effect (\<lambda>w. w\<lparr>hw_irq_disabled := True, hw_icer := map (\<lambda>_. 0xFFFFFFFF) (hw_icer w),
                        hw_icpr := map (\<lambda>_. 0xFFFFFFFF) (hw_icpr w)\<rparr>)) (\<lambda>_. ret ())"

definition fd_boot_nrf53_executor_start :: "u32 \<Rightarrow> (unit, boot_hw) boot" where
  "fd_boot_nrf53_executor_start address s =
     bnd (checked (flash_word (hw_memory (boot_world s)) address)) (\<lambda>sp.
     bnd (checked (flash_word (hw_memory (boot_world s)) (address + 4))) (\<lambda>pc.
     bnd (effect (\<lambda>w. w\<lparr>hw_started := Some (address, sp, pc)\<rparr>)) (\<lambda>_. boot_error))) s"

section \<open>The applications\<close>

subsection \<open>The boot loader of the split pair\<close>

definition FD_BOOT_SERIAL_PERIPHERAL_EXECUTABLE_STORAGE_LOCATION :: u32 where
  "FD_BOOT_SERIAL_PERIPHERAL_EXECUTABLE_STORAGE_LOCATION = 0x80000"
definition FD_BOOT_SERIAL_PERIPHERAL_EXECUTABLE_STORAGE_LENGTH :: u32 where
  "FD_BOOT_SERIAL_PERIPHERAL_EXECUTABLE_STORAGE_LENGTH = 32 * 1024"
definition FD_BOOT_SERIAL_PERIPHERAL_EXECUTABLE_LOCATION :: u32 where
  "FD_BOOT_SERIAL_PERIPHERAL_EXECUTABLE_LOCATION = 0x80000"
definition FD_BOOT_SERIAL_PERIPHERAL_EXECUTABLE_METADATA_OFFSET :: u32 where
  "FD_BOOT_SERIAL_PERIPHERAL_EXECUTABLE_METADATA_OFFSET = 0x180"
definition FD_BOOT_SERIAL_PERIPHERAL_DECRYPTION_KEY :: "u8 list" where
  "FD_BOOT_SERIAL_PERIPHERAL_DECRYPTION_KEY =
     [0x00, 0x01, 0x02, 0x03, 0x04, 0x05, 0x06, 0x07, 0x08, 0x09, 0x0a, 0x0b, 0x0c, 0x0d, 0x0e, 0x0f]"

definition fd_boot_serial_peripheral_get_executable_storage :: "(fd_boot_range_t, boot_hw) boot" where
  "fd_boot_serial_peripheral_get_executable_storage =
     ret \<lparr>range_location = FD_BOOT_SERIAL_PERIPHERAL_EXECUTABLE_STORAGE_LOCATION,
          range_length = FD_BOOT_SERIAL_PERIPHERAL_EXECUTABLE_STORAGE_LENGTH\<rparr>"

definition fd_boot_serial_peripheral_get_executable :: "(fd_boot_info_executable_t, boot_hw) boot" where
  "fd_boot_serial_peripheral_get_executable =
     ret \<lparr>ie_location = FD_BOOT_SERIAL_PERIPHERAL_EXECUTABLE_LOCATION,
          ie_metadata_offset = FD_BOOT_SERIAL_PERIPHERAL_EXECUTABLE_METADATA_OFFSET\<rparr>"

definition fd_boot_serial_peripheral_get_decryption :: "(u8 list, boot_hw) boot" where
  "fd_boot_serial_peripheral_get_decryption = ret FD_BOOT_SERIAL_PERIPHERAL_DECRYPTION_KEY"

text \<open>The link to the update storage.\<close>

type_synonym update_link = "fd_boot_range_t option \<times> (u32 \<Rightarrow> u32 \<Rightarrow> u8 list option)"

definition link_storage :: "update_link \<Rightarrow> (fd_boot_range_t, boot_hw) boot" where
  "link_storage link = (case fst link of None \<Rightarrow> boot_error | Some r \<Rightarrow> ret r)"

definition link_read :: "update_link \<Rightarrow> (unit, boot_hw) fd_boot_read" where
  "link_read link context location n =
     (case snd link location n of None \<Rightarrow> boot_error | Some bytes \<Rightarrow> ret ((), bytes))"

text \<open>\<open>fd_boot_split_peripheral_set_configuration_defaults\<close> sets the functions that go over the link.\<close>

definition fd_boot_split_peripheral_status_progress :: "u32 \<Rightarrow> u32 \<Rightarrow> boot_hw \<Rightarrow> boot_hw" where
  "fd_boot_split_peripheral_status_progress a b w = w"

definition serial_peripheral_interface :: "nvmc_store \<Rightarrow> update_link \<Rightarrow> boot_hw fd_boot_update_interface_t" where
  "serial_peripheral_interface store link = fd_boot_set_update_interface_defaults
     \<lparr>bc_info = \<lparr>get_executable_storage = fd_boot_serial_peripheral_get_executable_storage,
                 get_executable = fd_boot_serial_peripheral_get_executable,
                 get_update_storage = link_storage link,
                 get_decryption = fd_boot_serial_peripheral_get_decryption\<rparr>,
      bc_progress = Some fd_boot_split_peripheral_status_progress, bc_feed = None, bc_hash = None, bc_decrypt = None, bc_executable_reader = None,
      bc_executable_flasher = \<lparr>flasher_erase = fd_boot_nrf53_flasher_erase store,
                               flasher_write = fd_boot_nrf53_flasher_write store,
                               flasher_finalize = fd_boot_nrf53_flasher_finalize\<rparr>,
      bc_update_reader = Some (link_read link),
      bc_can_upgrade = None, bc_can_downgrade = None, bc_can_install = None,
      bc_executor = \<lparr>executor_cleanup = fd_boot_nrf53_executor_cleanup,
                     executor_start = fd_boot_nrf53_executor_start\<rparr>\<rparr>"

text \<open>The start-up code, up to the point where the loader begins to serve the serial link (\<open>None\<close>), or
  with the exit code.\<close>

definition serial_peripheral_main :: "boot_hw fd_boot_update_interface_t \<Rightarrow> (nat option, boot_hw) boot" where
  "serial_peripheral_main i =
     bnd (fd_boot_get_executable_metadata i) (\<lambda>(ok, executable).
     if \<not> ok then ret (Some 2)
     else if ex_is_valid executable then
       (\<lambda>s. case fd_boot_execute i s of
          None \<Rightarrow> None
        | Some (None, s) \<Rightarrow> Some (Some (Some 3), s)
        | Some (Some _, s) \<Rightarrow> Some (Some None, s))
     else ret None)"

subsection \<open>The boot loader with the USB drive\<close>

definition fd_boot_try_execute :: "boot_hw fd_boot_update_interface_t \<Rightarrow> (unit, boot_hw) boot" where
  "fd_boot_try_execute i =
     bnd (fd_boot_get_executable_metadata i) (\<lambda>(ok, executable).
     if \<not> ok then ret ()
     else (\<lambda>s. case fd_boot_execute i s of None \<Rightarrow> None | Some (_, s) \<Rightarrow> Some (Some (), s)))"

text \<open>\<open>opened\<close> says whether the update file could be opened.\<close>

definition fd_boot_try_update :: "boot_hw fd_boot_update_interface_t \<Rightarrow> bool \<Rightarrow> (unit, boot_hw) boot" where
  "fd_boot_try_update i opened =
     (if \<not> opened then fd_boot_try_execute i
      else bnd (fd_boot_update i) (\<lambda>(ok, result).
        if \<not> ok then ret ()
        else if ur_is_valid result
        then (\<lambda>s. case fd_boot_execute i s of None \<Rightarrow> None | Some (_, s) \<Rightarrow> Some (Some (), s))
        else ret ()))"

section \<open>What the hardware and the link promise\<close>

definition word_bytes :: "u32 \<Rightarrow> u8 list" where
  "word_bytes v = [ucast v, ucast (drop_bit 8 v), ucast (drop_bit 16 v), ucast (drop_bit 24 v)]"

text \<open>For the addresses of the flash. Erase enabled: storing all ones at the start of a page erases it. Write
  enabled: storing a word clears bits.\<close>

definition nvmc :: "nvmc_store \<Rightarrow> bool" where
  "nvmc store \<longleftrightarrow>
     (\<forall>l m. 4096 dvd unat l \<longrightarrow> in_flash l 4096 \<longrightarrow> store 2 l 0xffffffff m = flash_erase_page 4096 l m) \<and>
     (\<forall>l v m. 4 dvd unat l \<longrightarrow> in_flash l 4 \<longrightarrow> store 1 l v m = flash_program l (word_bytes v) m)"

text \<open>What is read from \<open>us\<close> are the bytes of \<open>file\<close>.\<close>

definition link_to :: "fd_boot_range_t \<Rightarrow> (u32 \<Rightarrow> u8) \<Rightarrow> update_link \<Rightarrow> bool" where
  "link_to us file link \<longleftrightarrow>
     (\<forall>r. fst link = Some r \<longrightarrow> r = us) \<and> (\<forall>l n bs. snd link l n = Some bs \<longrightarrow> bs = mem_bytes file l (unat n))"

definition link_reliable :: "update_link \<Rightarrow> bool" where
  "link_reliable link \<longleftrightarrow> fst link \<noteq> None \<and> (\<forall>l n. snd link l n \<noteq> None)"

text \<open>The update storage is long enough for an update and short enough for its addresses; and no longer than the
  flash from the executable on, 512 KiB, for the loader installs an update of any length without a look at the
  executable storage.\<close>

definition storage_fits :: "fd_boot_range_t \<Rightarrow> bool" where
  "storage_fits us \<longleftrightarrow> 320 \<le> unat (range_length us) \<and> unat (range_length us) \<le> 0x80000 \<and>
     unat (range_location us) + unat (range_length us) + 0x80000 < 2 ^ 32"

definition serial_storage :: fd_boot_range_t where
  "serial_storage = \<lparr>range_location = 0x80000, range_length = 0x8000\<rparr>"

definition serial_info :: fd_boot_info_executable_t where
  "serial_info = \<lparr>ie_location = 0x80000, ie_metadata_offset = 0x180\<rparr>"

definition boot_hw_ok :: "boot_hw \<Rightarrow> bool" where
  "boot_hw_ok w \<longleftrightarrow> length (sha_buffer (hw_sha w)) = 64 \<and> aes_ready (hw_aes w)"

definition hw_view :: "(u32 \<Rightarrow> u8) \<Rightarrow> boot_hw boot_state \<Rightarrow> boot_view" where
  "hw_view file s =
     \<lparr>v_flash = hw_memory (boot_world s), v_update = file,
      v_hashing = (\<lambda>m c. sha1_inv m (hw_sha (boot_world s))),
      v_decrypting = (\<lambda>k v m. aes_at k v m (hw_aes (boot_world s)))\<rparr>"

section \<open>The flasher\<close>

lemma word_bytes_boot_u32: "length bs = 4 \<Longrightarrow> word_bytes (boot_u32 bs 0) = bs"
proof -
  assume "length bs = 4"
  then obtain a b c d where bs: "bs = [a, b, c, d]" by (auto simp: length_Suc_conv numeral_eq_Suc)
  have high: "\<not> bit x (8 + n)" "\<not> bit x (16 + n)" "\<not> bit x (24 + n)" for x :: u8 and n
    using bit_imp_le_length[of x] by force+
  show ?thesis
    unfolding bs word_bytes_def boot_u32_def
    by (simp, intro conjI; rule bit_word_eqI; auto simp: bit_simps high)
qed

lemma flash_program_append:
  assumes "length a + length b \<le> 2 ^ 32"
  shows "flash_program (l + of_nat (length a)) b (flash_program l a m) = flash_program l (a @ b) m"
proof (rule ext)
  fix x :: u32
  show "flash_program (l + of_nat (length a)) b (flash_program l a m) x = flash_program l (a @ b) m x"
  proof (cases "b = []")
    case False
    then have la: "length a < 2 ^ 32" using assms by (cases b) simp_all
    define y where "y = x - l"
    have x: "x - (l + of_nat (length a)) = y - of_nat (length a)" by (simp add: y_def algebra_simps)
    have u: "unat (of_nat (length a) :: u32) = length a" using la by (simp add: unat_of_nat)
    have lt: "unat y < length a \<longleftrightarrow> y < of_nat (length a)" by (simp add: word_less_nat_alt u)
    show ?thesis
    proof (cases "unat y < length a")
      case True
      then have "unat (y - of_nat (length a)) = 2 ^ 32 - (length a - unat y)"
        using unat_wrap_sub[of y "of_nat (length a)"] lt u by simp
      then have "\<not> unat (y - of_nat (length a)) < length b" using assms True by simp
      then show ?thesis using True unfolding flash_program_def x y_def[symmetric] by (simp add: nth_append)
    next
      case False
      then have "unat (y - of_nat (length a)) = unat y - length a"
        using lt u by (subst unat_sub) (simp_all add: not_less)
      then show ?thesis
        using False unfolding flash_program_def x y_def[symmetric] by (simp add: nth_append less_diff_conv2)
    qed
  qed (simp add: flash_program_def)
qed

lemma nrf53_write_loop_program:
  assumes "nvmc store"
  shows "unat n = 4 * k \<Longrightarrow> 4 dvd unat l \<Longrightarrow> in_flash l (4 * k) \<Longrightarrow> offset + 4 * k = length data \<Longrightarrow> hw_config w = 1 \<Longrightarrow>
    nrf53_write_loop store l data offset n w =
      Some (w\<lparr>hw_memory := flash_program l (drop offset data) (hw_memory w)\<rparr>)"
proof (induction k arbitrary: n l offset w)
  case 0
  then have "n = 0" by (simp add: unat_eq_zero)
  then show ?case using 0 by (simp add: nrf53_write_loop.simps flash_program_def)
next
  case (Suc k)
  have n: "n \<noteq> 0" using Suc.prems(1) by auto
  have n4: "unat (n - 4) = 4 * k" using Suc.prems(1) by (subst unat_sub) (simp_all add: word_le_nat_alt)
  let ?word = "take 4 (drop offset data)"
  have word: "rd_block data offset 4 = Some ?word" "length ?word = 4" using Suc.prems(4) by (simp_all add: rd_block_def)
  have flash: "in_flash l 4" using Suc.prems(3) by (simp add: in_flash_def)
  have l_4: "unat (l + 4) = unat l + 4" using Suc.prems(3) by (simp add: in_flash_def flash_size_def unat_word_ariths)
  then have next_flash: "in_flash (l + 4) (4 * k)" using Suc.prems(3) by (simp add: in_flash_def)
  have l4: "4 dvd unat (l + 4)"
    using Suc.prems(2) by (simp add: unat_word_ariths dvd_mod_iff)
  have "4 * Suc k < 2 ^ 32" unfolding Suc.prems(1)[symmetric] using unsigned_less[of n, where ?'a = nat] by simp
  moreover have "length ?word + length (drop (offset + 4) data) = 4 * Suc k"
    using word(2) Suc.prems(4) by (simp only: length_drop) simp
  ultimately have len: "length ?word + length (drop (offset + 4) data) \<le> 2 ^ 32" by (simp only: less_imp_le)
  have split: "drop offset data = ?word @ drop (offset + 4) data" by (metis append_take_drop_id drop_drop add.commute)
  have two: "flash_program (l + 4) (drop (offset + 4) data) (flash_program l ?word (hw_memory w)) =
      flash_program l (?word @ drop (offset + 4) data) (hw_memory w)"
    using flash_program_append[OF len, of l "hw_memory w"] unfolding word(2) by simp
  have store: "store (hw_config w) l (boot_u32 ?word 0) (hw_memory w) = flash_program l ?word (hw_memory w)"
    using assms flash Suc.prems(2,5) word_bytes_boot_u32[OF word(2)] by (simp add: nvmc_def)
  define w' where "w' = w\<lparr>hw_memory := flash_program l ?word (hw_memory w)\<rparr>"
  have w': "hw_config w' = 1" "hw_memory w' = flash_program l ?word (hw_memory w)"
    "w'\<lparr>hw_memory := x\<rparr> = w\<lparr>hw_memory := x\<rparr>" for x
    using Suc.prems(5) by (simp_all add: w'_def)
  have off: "offset + 4 + 4 * k = length data" using Suc.prems(4) by simp
  have "nrf53_write_loop store l data offset n w = nrf53_write_loop store (l + 4) data (offset + 4) (n - 4) w'"
    using n flash by (subst nrf53_write_loop.simps) (simp only: word(1) store flash_store_def option.case if_True not_False_eq_True w'_def)
  also have "\<dots> = Some (w\<lparr>hw_memory := flash_program l (drop offset data) (hw_memory w)\<rparr>)"
    unfolding Suc.IH[OF n4 l4 next_flash off w'(1)] w'(2,3) two split[symmetric] by (rule refl)
  finally show ?case .
qed

lemma and_mask_dvd: "x AND (2 ^ k - 1) = 0 \<longleftrightarrow> 2 ^ k dvd unat x" if "k < 32" for x :: u32
proof -
  have "x AND (2 ^ k - 1) = take_bit k x" by (simp add: take_bit_eq_mask mask_eq_exp_minus_1)
  moreover have "unat (take_bit k x) = unat x mod 2 ^ k" by (simp only: unsigned_take_bit_eq) (simp add: take_bit_eq_mod)
  ultimately show ?thesis by (simp add: dvd_eq_mod_eq_0 unat_eq_zero[symmetric])
qed

lemma and_mask_4096: "l AND 4095 = 0 \<longleftrightarrow> 4096 dvd unat l" for l :: u32
  using and_mask_dvd[of 12 l] by simp

lemma and_mask_4: "l AND 3 = 0 \<longleftrightarrow> 4 dvd unat l" for l :: u32
  using and_mask_dvd[of 2 l] by simp

lemma flasher_erase_wp:
  assumes "nvmc store" "4096 dvd unat l" "unat l + 4096 \<le> flash_size" "ok s"
    and keep: "\<And>m c. ok (s\<lparr>boot_world := boot_world s\<lparr>hw_memory := m, hw_config := c\<rparr>\<rparr>)"
  shows "wp (fd_boot_nrf53_flasher_erase store l n l')
    (\<lambda>x s'. x = l + of_nat 4096 \<and> ok s' \<and>
       hw_view file s' = (hw_view file s)\<lparr>v_flash := flash_erase_page 4096 l (v_flash (hw_view file s))\<rparr>) F s"
proof -
  have "store 2 l 0xffffffff m = flash_erase_page 4096 l m" for m
    using assms(1-3) by (simp add: nvmc_def in_flash_def)
  moreover have "in_flash l 4" using assms(3) by (simp add: in_flash_def)
  ultimately show ?thesis
    using assms(2) keep
    by (simp add: fd_boot_nrf53_flasher_erase_def fd_boot_nrf53_flash_erase_def flash_store_def and_mask_4096 hw_view_def
        wp_def bnd_def checked_def effect_def ret_def nrf53_page_size_def)
qed

lemma flasher_write_wp:
  assumes "nvmc store" "4 dvd unat l" "4 dvd length bs" "length bs < 2 ^ 32" "unat l + length bs \<le> flash_size"
    and keep: "\<And>m c. ok (s\<lparr>boot_world := boot_world s\<lparr>hw_memory := m, hw_config := c\<rparr>\<rparr>)"
  shows "wp (fd_boot_nrf53_flasher_write store l bs)
    (\<lambda>_ s'. ok s' \<and> hw_view file s' = (hw_view file s)\<lparr>v_flash := flash_program l bs (v_flash (hw_view file s))\<rparr>) F s"
proof -
  have n: "unat (of_nat (length bs) :: u32) = length bs" using assms(4) by (simp add: unat_of_nat)
  obtain k where k: "length bs = 4 * k" using assms(3) ..
  have flash: "in_flash l (4 * k)" using assms(5) by (simp add: in_flash_def k)
  have "nrf53_write_loop store l bs 0 (of_nat (length bs)) w =
      Some (w\<lparr>hw_memory := flash_program l (drop 0 bs) (hw_memory w)\<rparr>)" if "hw_config w = 1" for w
    by (rule nrf53_write_loop_program[OF assms(1) trans[OF n k] assms(2) flash _ that]) (simp add: k)
  then have "fd_boot_nrf53_flash_write store l bs (of_nat (length bs)) w =
      Some (True, w\<lparr>hw_memory := flash_program l bs (hw_memory w), hw_config := 0\<rparr>)" for w
    using assms(2) and_mask_4[of "of_nat (length bs)"] n assms(3)
    by (simp add: fd_boot_nrf53_flash_write_def and_mask_4 del: of_nat_mult)
  then show ?thesis
    using keep
    by (simp add: fd_boot_nrf53_flasher_write_def hw_view_def wp_def bnd_def checked_def effect_def ret_def)
qed

section \<open>The contract holds\<close>

lemma sha_final: "sha1_inv m c \<Longrightarrow> \<exists>c'. SHA1_Final c = Some (sha1 m, c') \<and> length (sha_buffer c') = 64"
  using SHA1_Final_inv[of m c] by (auto simp: SHA1_Final_def Let_def bind_eq_Some_conv)

lemma sha1_inv_buffer: "sha1_inv m c \<Longrightarrow> length (sha_buffer c) = 64"
  by (simp add: sha1_inv_def)

lemma aes_at_ready: "aes_at k v m g \<Longrightarrow> aes_ready g"
  by (simp add: aes_at_def)

named_theorems boot_run \<open>running the boot monad on the model\<close>

lemmas [boot_run] = wp_def bnd_def checked_def effect_def ret_def uninitialized_def hw_view_def Let_def
  boot_error_def fail_def fd_boot_set_error_def

lemma serial_parts [simp]:
  "get_executable_storage (bi_info (serial_peripheral_interface store link)) = ret serial_storage"
  "get_executable (bi_info (serial_peripheral_interface store link)) = ret serial_info"
  "get_update_storage (bi_info (serial_peripheral_interface store link)) = link_storage link"
  "get_decryption (bi_info (serial_peripheral_interface store link)) = ret FD_BOOT_SERIAL_PERIPHERAL_DECRYPTION_KEY"
  "bi_feed (serial_peripheral_interface store link) = fd_boot_watchdog_feed"
  "bi_progress (serial_peripheral_interface store link) = fd_boot_split_peripheral_status_progress"
  "bi_hash (serial_peripheral_interface store link) =
     \<lparr>hash_initialize = fd_boot_hash_initialize, hash_update = fd_boot_hash_update, hash_finalize = fd_boot_hash_finalize\<rparr>"
  "bi_decrypt (serial_peripheral_interface store link) =
     \<lparr>decrypt_initialize = fd_boot_decrypt_initialize, decrypt_update = fd_boot_decrypt_update,
      decrypt_finalize = fd_boot_decrypt_finalize\<rparr>"
  "bi_executable_reader (serial_peripheral_interface store link) =
     \<lparr>reader_context = (), reader_read = fd_boot_executable_reader_read\<rparr>"
  "bi_update_reader (serial_peripheral_interface store link) = \<lparr>reader_context = (), reader_read = link_read link\<rparr>"
  "bi_executable_flasher (serial_peripheral_interface store link) =
     \<lparr>flasher_erase = fd_boot_nrf53_flasher_erase store, flasher_write = fd_boot_nrf53_flasher_write store,
      flasher_finalize = fd_boot_nrf53_flasher_finalize\<rparr>"
  "bi_action (serial_peripheral_interface store link) =
     \<lparr>can_upgrade = fd_boot_action_can_upgrade, can_downgrade = fd_boot_action_can_downgrade,
      can_install = fd_boot_action_can_install\<rparr>"
  "bi_executor (serial_peripheral_interface store link) =
     \<lparr>executor_cleanup = fd_boot_nrf53_executor_cleanup, executor_start = fd_boot_nrf53_executor_start\<rparr>"
  by (simp_all add: serial_peripheral_interface_def fd_boot_set_update_interface_defaults_def or_default_def
    fd_boot_serial_peripheral_get_executable_storage_def fd_boot_serial_peripheral_get_executable_def
    fd_boot_serial_peripheral_get_decryption_def serial_storage_def serial_info_def
    FD_BOOT_SERIAL_PERIPHERAL_EXECUTABLE_STORAGE_LOCATION_def FD_BOOT_SERIAL_PERIPHERAL_EXECUTABLE_STORAGE_LENGTH_def
    FD_BOOT_SERIAL_PERIPHERAL_EXECUTABLE_LOCATION_def FD_BOOT_SERIAL_PERIPHERAL_EXECUTABLE_METADATA_OFFSET_def)

text \<open>\<open>st\<close> records that nothing has been started since.\<close>

abbreviation boot_inv :: "(u32 \<times> u32 \<times> u32) option \<Rightarrow> boot_hw boot_state \<Rightarrow> bool" where
  "boot_inv st s \<equiv> boot_hw_ok (boot_world s) \<and> hw_started (boot_world s) = st"

lemma hash_laws:
  "boot_inv st s \<Longrightarrow> wp (fd_boot_hash_initialize c) (\<lambda>c s'. v_hashing (hw_view file s') [] c \<and> boot_inv st s' \<and>
     hw_view file s' = (hw_view file s)\<lparr>v_hashing := v_hashing (hw_view file s')\<rparr>) F s"
  "boot_inv st s \<Longrightarrow> v_hashing (hw_view file s) m c \<Longrightarrow> length d + 64 \<le> 2 ^ 32 \<Longrightarrow>
     wp (fd_boot_hash_update c d) (\<lambda>c s'. v_hashing (hw_view file s') (m @ d) c \<and> boot_inv st s' \<and>
       hw_view file s' = (hw_view file s)\<lparr>v_hashing := v_hashing (hw_view file s')\<rparr>) F s"
  "boot_inv st s \<Longrightarrow> v_hashing (hw_view file s) m c \<Longrightarrow>
     wp (fd_boot_hash_finalize c) (\<lambda>(h, c) s'. h = sha1 m \<and> boot_inv st s' \<and>
       hw_view file s' = (hw_view file s)\<lparr>v_hashing := v_hashing (hw_view file s')\<rparr>) F s"
proof -
  show "boot_inv st s \<Longrightarrow> wp (fd_boot_hash_initialize c) (\<lambda>c s'. v_hashing (hw_view file s') [] c \<and> boot_inv st s' \<and>
     hw_view file s' = (hw_view file s)\<lparr>v_hashing := v_hashing (hw_view file s')\<rparr>) F s"
    using SHA1_Init_inv[of "hw_sha (boot_world s)"]
    by (auto simp: boot_run boot_hw_ok_def fd_boot_hash_initialize_def fd_crypto_sha_initialize_def dest: sha1_inv_buffer)
next
  assume "boot_inv st s" "v_hashing (hw_view file s) m c" "length d + 64 \<le> 2 ^ 32"
  then have s: "sha1_inv m (hw_sha (boot_world s))" "aes_ready (hw_aes (boot_world s)) \<and> hw_started (boot_world s) = st"
    by (simp_all add: hw_view_def boot_hw_ok_def)
  obtain c' where "SHA1_Update (hw_sha (boot_world s)) d = Some c'" "sha1_inv (m @ d) c'"
    using sha1_hash.update[OF s(1) \<open>length d + 64 \<le> _\<close>] by blast
  then show "wp (fd_boot_hash_update c d) (\<lambda>c s'. v_hashing (hw_view file s') (m @ d) c \<and> boot_inv st s' \<and>
       hw_view file s' = (hw_view file s)\<lparr>v_hashing := v_hashing (hw_view file s')\<rparr>) F s"
    using s(2) by (auto simp: boot_run boot_hw_ok_def fd_boot_hash_update_def fd_crypto_sha_update_def dest: sha1_inv_buffer)
next
  assume "boot_inv st s" "v_hashing (hw_view file s) m c"
  then have s: "sha1_inv m (hw_sha (boot_world s))" "aes_ready (hw_aes (boot_world s)) \<and> hw_started (boot_world s) = st"
    by (simp_all add: hw_view_def boot_hw_ok_def)
  obtain c' where "SHA1_Final (hw_sha (boot_world s)) = Some (sha1 m, c')" "length (sha_buffer c') = 64"
    using sha_final[OF s(1)] by blast
  then show "wp (fd_boot_hash_finalize c) (\<lambda>(h, c) s'. h = sha1 m \<and> boot_inv st s' \<and>
       hw_view file s' = (hw_view file s)\<lparr>v_hashing := v_hashing (hw_view file s')\<rparr>) F s"
    using s(2) by (simp add: boot_run boot_hw_ok_def fd_boot_hash_finalize_def fd_crypto_sha_finalize_def)
qed

lemma decrypt_laws:
  "boot_inv st s \<Longrightarrow> length k = 16 \<Longrightarrow> length v = 16 \<Longrightarrow>
     wp (fd_boot_decrypt_initialize c k v) (\<lambda>c s'. v_decrypting (hw_view file s') k v [] \<and> boot_inv st s' \<and>
       hw_view file s' = (hw_view file s)\<lparr>v_decrypting := v_decrypting (hw_view file s')\<rparr>) F s"
  "boot_inv st s \<Longrightarrow> v_decrypting (hw_view file s) k v m \<Longrightarrow> length d mod 16 = 0 \<Longrightarrow> d \<noteq> [] \<Longrightarrow> length d < 2 ^ 32 \<Longrightarrow>
     wp (fd_boot_decrypt_update c d) (\<lambda>(c, p) s'. aes_cbc_plain k v (m @ d) = aes_cbc_plain k v m @ p \<and>
       length p = length d \<and> v_decrypting (hw_view file s') k v (m @ d) \<and> boot_inv st s' \<and>
       hw_view file s' = (hw_view file s)\<lparr>v_decrypting := v_decrypting (hw_view file s')\<rparr>) F s"
  "boot_inv st s \<Longrightarrow> wp (fd_boot_decrypt_finalize c) (\<lambda>_ s'. boot_inv st s' \<and>
       hw_view file s' = (hw_view file s)\<lparr>v_decrypting := v_decrypting (hw_view file s')\<rparr>) F s"
proof -
  let ?stack = "take 16 (boot_stack s @ replicate 16 0)"
  assume s: "boot_inv st s" and len: "length k = 16" "length v = 16"
  have stack: "length ?stack = 16" by simp
  obtain g where "fd_crypto_aes_decrypt_initialize ?stack (hw_aes (boot_world s)) (Some k) (Some v) = Some (True, g)"
    "aes_at k v [] g"
    using aes_initialize[OF _ len, of "hw_aes (boot_world s)" ?stack] s stack by (simp only: boot_hw_ok_def) blast
  then show "wp (fd_boot_decrypt_initialize c k v) (\<lambda>c s'. v_decrypting (hw_view file s') k v [] \<and> boot_inv st s' \<and>
       hw_view file s' = (hw_view file s)\<lparr>v_decrypting := v_decrypting (hw_view file s')\<rparr>) F s"
    using s by (auto simp: boot_run boot_hw_ok_def fd_boot_decrypt_initialize_def dest: aes_at_ready)
next
  let ?out = "take (length d) (boot_stack s @ replicate (length d) 0)"
  assume s: "boot_inv st s" "v_decrypting (hw_view file s) k v m" and d: "length d mod 16 = 0" "d \<noteq> []" "length d < 2 ^ 32"
  have out: "length ?out = length d" by simp
  have at: "aes_at k v m (hw_aes (boot_world s))" using s(2) by (simp add: hw_view_def)
  then have len: "length m mod 16 = 0" "length v = 16" by (simp_all add: aes_at_def)
  obtain g p where g: "fd_crypto_aes_decrypt_update (hw_aes (boot_world s)) d ?out (of_nat (length d)) = Some (True, g, p)"
    "aes_cbc_plain k v (m @ d) = aes_cbc_plain k v m @ p" "aes_at k v (m @ d) g"
    using aes_update[OF at d out] by blast
  have "length (aes_cbc_plain k v (m @ d)) = length (m @ d)" "length (aes_cbc_plain k v m) = length m"
    using len d(1) by (simp_all add: aes_cbc_plain_def cbc_dec_length mod_add_eq[symmetric, of "length m"])
  then have "length p = length d" using g(2) by simp
  then show "wp (fd_boot_decrypt_update c d) (\<lambda>(c, p) s'. aes_cbc_plain k v (m @ d) = aes_cbc_plain k v m @ p \<and>
       length p = length d \<and> v_decrypting (hw_view file s') k v (m @ d) \<and> boot_inv st s' \<and>
       hw_view file s' = (hw_view file s)\<lparr>v_decrypting := v_decrypting (hw_view file s')\<rparr>) F s"
    using g s(1) by (auto simp: boot_run boot_hw_ok_def fd_boot_decrypt_update_def dest: aes_at_ready)
next
  assume "boot_inv st s"
  then show "wp (fd_boot_decrypt_finalize c) (\<lambda>_ s'. boot_inv st s' \<and>
       hw_view file s' = (hw_view file s)\<lparr>v_decrypting := v_decrypting (hw_view file s')\<rparr>) F s"
    by (simp add: boot_run fd_boot_decrypt_finalize_def fd_crypto_aes_decrypt_finalize_def)
qed

lemma mod_16_append: "length m mod 16 = 0 \<Longrightarrow> length d mod 16 = 0 \<Longrightarrow> length (m @ d) mod 16 = 0"
  by (simp add: mod_add_eq[symmetric, of "length m"])

lemma reader_laws:
  "boot_inv st s \<Longrightarrow> unat l + unat n \<le> flash_size \<Longrightarrow> wp (fd_boot_executable_reader_read () l n) (\<lambda>(_, bs) s'.
     bs = mem_bytes (v_flash (hw_view file s)) l (unat n) \<and> boot_inv st s' \<and> hw_view file s' = hw_view file s) F s"
  "boot_inv st s \<Longrightarrow> link_to us file link \<Longrightarrow> wp (link_read link () l n) (\<lambda>(_, bs) s'.
     bs = mem_bytes (v_update (hw_view file s)) l (unat n) \<and> boot_inv st s' \<and> hw_view file s' = hw_view file s)
     (\<not> link_reliable link) s"
  "boot_inv st s \<Longrightarrow> link_to us file link \<Longrightarrow> wp (link_storage link) (\<lambda>x s'. x = us \<and> boot_inv st s' \<and>
     hw_view file s' = hw_view file s) (\<not> link_reliable link) s"
  by (auto simp: boot_run fd_boot_executable_reader_read_def flash_bytes_def in_flash_def link_read_def link_storage_def link_to_def link_reliable_def
      split: option.splits)

lemma aes_cbc_plain_length:
  "length m mod 16 = 0 \<Longrightarrow> length v = 16 \<Longrightarrow> length (aes_cbc_plain k v m) = length m"
  by (simp add: aes_cbc_plain_def cbc_dec_length)

lemma aes_cbc_plain_prefix: "length m mod 16 = 0 \<Longrightarrow> \<exists>p. aes_cbc_plain k v (m @ d) = aes_cbc_plain k v m @ p"
  by (simp add: aes_cbc_plain_def cbc_dec_append)

lemma serial_boot_platform:
  assumes "nvmc store" "link_to us file link" "storage_fits us"
  shows "boot_platform (serial_peripheral_interface store link) sha1 aes_cbc_plain (hw_view file) (boot_inv st)
    serial_storage us serial_info FD_BOOT_SERIAL_PERIPHERAL_DECRYPTION_KEY 4096 flash_size (link_reliable link)"
proof (unfold_locales, simp_all only: serial_parts fd_boot_reader_interface_t.simps fd_boot_flasher_interface_t.simps
    fd_boot_hash_interface_t.simps fd_boot_decrypt_interface_t.simps hash_laws decrypt_laws(1,3) aes_cbc_plain_length
    aes_cbc_plain_prefix aes_decrypter.plain_nil reader_laws(1) reader_laws(2,3)[OF _ assms(2)], goal_cases)
  case (7 s k v m d c)
  then show ?case by (rule decrypt_laws(2))
next
  case (8 s l n l')
  then show ?case by (intro flasher_erase_wp[OF assms(1)]) (simp_all add: boot_hw_ok_def)
next
  case (9 s bs l)
  then have "4 dvd unat l" "4 dvd length bs" using dvd_trans[of 4 16 "unat l"] by simp_all
  then show ?case by (rule flasher_write_wp[OF assms(1)]) (use 9 in \<open>simp_all add: boot_hw_ok_def\<close>)
qed (use assms(3) in \<open>simp_all add: boot_run fd_boot_watchdog_feed_def fd_boot_split_peripheral_status_progress_def
    fd_boot_nrf53_flasher_finalize_def FD_BOOT_SERIAL_PERIPHERAL_DECRYPTION_KEY_def
    no_wrap_def storage_fits_def executable_hash_range_def serial_info_def serial_storage_def flash_size_def unat_word_ariths
    word_le_nat_alt\<close>)

section \<open>The applications\<close>

definition nvmc_model :: nvmc_store where
  "nvmc_model config a v m =
     (if config = 1 then flash_program a (word_bytes v) m else if config = 2 then flash_erase_page 4096 a m else m)"

lemma nvmc_model: "nvmc nvmc_model"
  by (simp add: nvmc_def nvmc_model_def)

text \<open>The update storage of \<open>applications/boot/split/controller\<close>, on a link that works.\<close>

definition controller_storage :: fd_boot_range_t where
  "controller_storage = \<lparr>range_location = 0, range_length = 4352\<rparr>"

definition controller_link :: "(u32 \<Rightarrow> u8) \<Rightarrow> update_link" where
  "controller_link file = (Some controller_storage, \<lambda>l n. Some (mem_bytes file l (unat n)))"

lemma controller_link: "link_to controller_storage file (controller_link file)" "link_reliable (controller_link file)"
  "storage_fits controller_storage"
  by (simp_all add: link_to_def link_reliable_def controller_link_def storage_fits_def controller_storage_def)

interpretation serial_boot: boot_platform "serial_peripheral_interface nvmc_model (controller_link update)" sha1 aes_cbc_plain
    "hw_view update" "boot_inv st" serial_storage controller_storage serial_info FD_BOOT_SERIAL_PERIPHERAL_DECRYPTION_KEY 4096 flash_size
    "link_reliable (controller_link update)" for update st
  by (rule serial_boot_platform[OF nvmc_model controller_link(1,3)])

lemma wp_returns: "wp m Q False s \<Longrightarrow> \<exists>a s'. m s = Some (Some a, s') \<and> Q a s'"
  by (auto simp: wp_def split: option.splits)

lemma serial_execute:
  "\<exists>s'. fd_boot_execute (serial_peripheral_interface store link) s = Some (None, s') \<and>
     hw_memory (boot_world s') = hw_memory (boot_world s) \<and>
     hw_started (boot_world s') = Some (0x80000, load32 (hw_memory (boot_world s)) 0x80000, load32 (hw_memory (boot_world s)) 0x80004)"
  by (simp add: fd_boot_execute_def serial_info_def boot_run fd_boot_nrf53_executor_cleanup_def fd_boot_nrf53_executor_start_def
      flash_word_def in_flash_def flash_size_def)


section \<open>Frames of the platform\<close>

lemmas keeps_run = keeps_def bnd_def checked_def effect_def ret_def undef_def fail_def Let_def uninitialized_def
  boot_error_def fd_boot_set_error_def

lemma keeps_defaults:
  fixes I :: "boot_hw boot_state \<Rightarrow> bool"
  assumes code: "\<And>s c. I s \<Longrightarrow> I (s\<lparr>boot_code := c\<rparr>)"
    and sha: "\<And>s c. I s \<Longrightarrow> I (s\<lparr>boot_world := boot_world s\<lparr>hw_sha := c\<rparr>\<rparr>)"
    and aes: "\<And>s c. I s \<Longrightarrow> I (s\<lparr>boot_world := boot_world s\<lparr>hw_aes := c\<rparr>\<rparr>)"
  shows "boot_frame (serial_peripheral_interface store link) I"
proof unfold_locales
  note [simp] = keeps_run code sha aes
  show "keeps I (hash_initialize (bi_hash (serial_peripheral_interface store link)) c)" for c
    by (auto simp: fd_boot_hash_initialize_def split: prod.splits if_splits)
  show "keeps I (hash_update (bi_hash (serial_peripheral_interface store link)) c d)" for c d
    by (auto simp: fd_boot_hash_update_def split: prod.splits if_splits option.splits)
  show "keeps I (hash_finalize (bi_hash (serial_peripheral_interface store link)) c)" for c
    by (auto simp: fd_boot_hash_finalize_def split: prod.splits if_splits option.splits)
  show "keeps I (decrypt_initialize (bi_decrypt (serial_peripheral_interface store link)) c k v)" for c k v
    by (auto simp: fd_boot_decrypt_initialize_def split: prod.splits if_splits option.splits)
  show "keeps I (decrypt_update (bi_decrypt (serial_peripheral_interface store link)) c d)" for c d
    by (auto simp: fd_boot_decrypt_update_def split: prod.splits if_splits option.splits)
  show "keeps I (decrypt_finalize (bi_decrypt (serial_peripheral_interface store link)) c)" for c
    by (auto simp: fd_boot_decrypt_finalize_def split: prod.splits if_splits option.splits)
qed (auto simp: keeps_run code fd_boot_watchdog_feed_def fd_boot_executable_reader_read_def link_read_def link_storage_def
    split: option.splits)

interpretation serial_frame: boot_frame "serial_peripheral_interface store link"
    "\<lambda>s. hw_started (boot_world s) = st \<and> hw_memory (boot_world s) = m" for store link st m
  by (rule keeps_defaults) simp_all

lemma write_loop_started:
  "nrf53_write_loop store l data off n w = Some w' \<Longrightarrow> hw_started w' = hw_started w"
proof (induction store l data off n w rule: nrf53_write_loop.induct)
  case (1 store l data off n w)
  show ?case
    using 1(2) 1(1) by (subst (asm) nrf53_write_loop.simps) (fastforce simp: flash_store_def split: if_splits option.splits)
qed

lemma keeps_flasher_write:
  "keeps (\<lambda>s. hw_started (boot_world s) = st) (fd_boot_nrf53_flasher_write store l bs)"
  by (auto simp: keeps_run fd_boot_nrf53_flasher_write_def fd_boot_nrf53_flash_write_def
      split: if_splits option.splits prod.splits dest: write_loop_started)

interpretation serial_flash_frame: boot_flash_frame "serial_peripheral_interface store link"
    "\<lambda>s. hw_started (boot_world s) = st" for store link st
  by (intro boot_flash_frame.intro keeps_defaults boot_flash_frame_axioms.intro)
    (auto simp: keeps_flasher_write, auto simp: keeps_run fd_boot_nrf53_flasher_erase_def fd_boot_nrf53_flash_erase_def flash_store_def
      fd_boot_nrf53_flasher_finalize_def fd_boot_split_peripheral_status_progress_def split: if_splits)

section \<open>Images\<close>

lemma dvd_64_unat: "n mod 64 = 0 \<longleftrightarrow> 64 dvd unat n" for n :: u32
  using unat_eq_zero[of "n mod 64"] by (simp add: unat_mod dvd_eq_mod_eq_0)

lemma executable_hash_in_block:
  assumes "unat l + 684 < 2 ^ 32"
  shows "in_one_block (executable_hash_range serial_info l) l"
proof -
  define q r where "q = unat l div 64" and "r = unat l mod 64"
  have l: "unat l = 64 * q + r" "r < 64" by (simp_all add: q_def r_def)
  have "unat l + 408 + 64 - r = 24 + 64 * (q + 7)" "unat l + 408 + 20 - 1 + 64 - r = 43 + 64 * (q + 7)"
    unfolding l(1) by simp_all
  then have "(unat l + 408 + 64 - r) div 64 = (unat l + 408 + 20 - 1 + 64 - r) div 64"
    by (simp only: div_mult_self2)
  then show ?thesis
    using assms by (simp add: in_one_block_def executable_hash_range_def serial_info_def Let_def unat_word_ariths r_def)
qed

text \<open>The message of a block-aligned executable is its image with the hash field cleared.\<close>

lemma serial_executable_hashed:
  assumes "n mod 64 = 0" "unat n \<le> 0x8000"
  shows "hashed (mem_bytes m) (executable_hash_range serial_info 0x80000) 0x80000 (0x80000 + n) =
    mem_bytes (cleared (executable_hash_range serial_info 0x80000) m) 0x80000 (unat n)"
proof -
  have "unat (0x80000 + n) = 0x80000 + unat n" using assms(2) by (simp add: unat_word_ariths)
  then have "(0x80000 :: u32) \<le> 0x80000 + n" by (simp add: word_le_nat_alt)
  then show ?thesis
    using hashed_cleared[OF executable_hash_in_block, of "0x80000" "0x80000 + n" m] assms(1) dvd_64_unat[of n] by simp
qed

definition image_cleared :: "u8 list \<Rightarrow> u8 list" where
  "image_cleared bs = map (\<lambda>k. if 408 \<le> k \<and> k < 428 then 0 else bs ! k) [0..<length bs]"

lemma cleared_image:
  assumes "unat l + 684 < 2 ^ 32" "unat l + n \<le> 2 ^ 32"
  shows "mem_bytes (cleared (executable_hash_range serial_info l) m) l n = image_cleared (mem_bytes m l n)"
proof (rule nth_equalityI)
  fix k assume "k < length (mem_bytes (cleared (executable_hash_range serial_info l) m) l n)"
  then have k: "k < n" by simp
  have "unat (l + of_nat k) = unat l + k" using unat_address[OF assms(2) k] .
  then show "mem_bytes (cleared (executable_hash_range serial_info l) m) l n ! k = image_cleared (mem_bytes m l n) ! k"
    using k assms(1)
    by (simp add: image_cleared_def mem_bytes_def cleared_def executable_hash_range_def serial_info_def unat_word_ariths)
qed (simp add: image_cleared_def)

lemma serial_range:
  assumes "n mod 64 = 0"
  shows "fd_boot_is_valid_subrange serial_storage \<lparr>range_location = 0x80000 + n - 4, range_length = 4\<rparr> \<and>
    fd_boot_is_valid_subrange serial_storage \<lparr>range_location = 0x80000, range_length = n\<rparr> \<longleftrightarrow>
    0 < unat n \<and> unat n \<le> 0x8000 \<or> n = 0xFFF80000"
proof -
  define e where "e = 0x80000 + n"
  have n: "n = e - 0x80000" by (simp add: e_def)
  have cond: "fd_boot_is_valid_subrange serial_storage \<lparr>range_location = 0x80000 + n - 4, range_length = 4\<rparr> \<and>
    fd_boot_is_valid_subrange serial_storage \<lparr>range_location = 0x80000, range_length = n\<rparr> \<longleftrightarrow>
    0x80000 \<le> e - 4 \<and> e \<le> 0x88000"
    unfolding e_def[symmetric] by (simp add: fd_boot_is_valid_subrange_def serial_storage_def e_def[symmetric])
  have dvd: "64 dvd unat n" using assms by (simp only: dvd_64_unat)
  show ?thesis
  proof (cases "unat n < 2 ^ 32 - 0x80000")
    case True
    then have E: "unat e = 0x80000 + unat n" by (simp add: e_def unat_word_ariths)
    then have "unat (e - 4) = unat e - 4" by (subst unat_sub) (simp_all add: word_le_nat_alt)
    moreover have "n \<noteq> 0xFFF80000" using True by auto
    ultimately show ?thesis
      unfolding cond word_le_nat_alt using E dvd by (auto elim!: dvdE)
  next
    case False
    have lt: "unat n < 2 ^ 32" using unsigned_less[of n, where ?'a = nat] by simp
    have "unat e = (0x80000 + unat n) mod 2 ^ 32" by (simp add: e_def unat_word_ariths)
    also have "\<dots> = 0x80000 + unat n - 2 ^ 32" using False lt by (simp add: le_mod_geq not_less)
    finally have E: "unat e = 0x80000 + unat n - 2 ^ 32" .
    have big: "\<not> unat n \<le> 0x8000" using False by simp
    show ?thesis
    proof (cases "unat e = 0")
      case True
      then have e: "e = 0" by (simp add: unat_eq_zero)
      then have "n = 0xFFF80000" using n by simp
      then show ?thesis unfolding cond e by (simp add: word_le_nat_alt)
    next
      case e: False
      obtain k where k: "unat n = 64 * k" using dvd ..
      have "67100672 \<le> k" "k \<noteq> 67100672" using E e False unfolding k by auto
      then have "67100673 \<le> k" by simp
      then have "4 \<le> unat e" using E unfolding k by simp
      then have "unat (e - 4) = unat e - 4" by (subst unat_sub) (simp_all add: word_le_nat_alt)
      moreover have "unat e < 0x80000" using E lt False by simp
      moreover have "n \<noteq> 0xFFF80000" using e by (auto simp: e_def)
      ultimately show ?thesis unfolding cond word_le_nat_alt using big by simp
    qed
  qed
qed

definition serial_executable_valid :: "(u32 \<Rightarrow> u8) \<Rightarrow> bool" where
  "serial_executable_valid m \<longleftrightarrow>
     (let metadata = executable_metadata_at m serial_info; n = em_length metadata in
      load32 m 0x80180 = fd_boot_executable_metadata_header_magic \<and>
      load32 m 0x80184 = fd_boot_executable_metadata_header_version \<and>
      n mod 64 = 0 \<and> 0 < n \<and> n \<le> 0x8000 \<and>
      load32 m (0x80000 + n - 4) = fd_boot_executable_trailer_magic \<and>
      sha1 (image_cleared (mem_bytes m 0x80000 (unat n))) = em_hash metadata)"

text \<open>The header gives a length for which the sum with the location wraps around to 0.\<close>

definition serial_executable_wrapped :: "(u32 \<Rightarrow> u8) \<Rightarrow> bool" where
  "serial_executable_wrapped m \<longleftrightarrow>
     load32 m 0x80180 = fd_boot_executable_metadata_header_magic \<and>
     load32 m 0x80184 = fd_boot_executable_metadata_header_version \<and>
     em_length (executable_metadata_at m serial_info) = 0xFFF80000"

lemma header_words: "boot_u32 (mem_bytes m a 8) 0 = load32 m a" "boot_u32 (mem_bytes m a 8) 4 = load32 m (a + 4)"
  by (simp_all add: load32_def boot_u32_def mem_bytes_def upt_rec add.assoc)

lemma serial_header:
  "executable_header m serial_info \<longleftrightarrow>
     load32 m 0x80180 = fd_boot_executable_metadata_header_magic \<and> load32 m 0x80184 = fd_boot_executable_metadata_header_version"
  by (simp add: executable_header_def Let_def header_words) (simp add: serial_info_def)

lemma serial_wraps: "executable_wraps m serial_info \<longleftrightarrow> serial_executable_wrapped m"
proof -
  define n where "n = em_length (executable_metadata_at m serial_info)"
  have "n mod 64 = 0 \<and> \<not> no_wrap \<lparr>range_location = ie_location serial_info + n - 4, range_length = 4\<rparr> \<longleftrightarrow> n = 0xFFF80000"
  proof
    assume n: "n mod 64 = 0 \<and> \<not> no_wrap \<lparr>range_location = ie_location serial_info + n - 4, range_length = 4\<rparr>"
    obtain k where k: "unat n = 64 * k" using n dvd_64_unat[of n] by (auto elim: dvdE)
    define e where "e = 0x80000 + n"
    have big: "2 ^ 32 \<le> unat (e - 4) + 4" using n by (simp add: no_wrap_def serial_info_def e_def)
    have "unat e < 4"
    proof (rule ccontr)
      assume "\<not> unat e < 4"
      then have "unat (e - 4) = unat e - 4" by (subst unat_sub) (simp_all add: word_le_nat_alt)
      then show False using big \<open>\<not> unat e < 4\<close> unsigned_less[of e, where ?'a = nat] by simp
    qed
    moreover have "64 dvd unat e"
      unfolding e_def unat_word_ariths k by (rule dvd_mod) (simp_all add: dvd_add)
    ultimately have "unat e = 0" by (auto elim!: dvdE)
    then have "e = 0" by (simp add: unat_eq_zero)
    moreover have "n = e - 0x80000" by (simp add: e_def)
    ultimately show "n = 0xFFF80000" by simp
  qed (simp add: no_wrap_def serial_info_def)
  then show ?thesis
    unfolding executable_wraps_def serial_executable_wrapped_def serial_header Let_def n_def[symmetric] by argo
qed

lemma serial_executable_ok:
  assumes "\<not> serial_executable_wrapped m"
  shows "executable_ok sha1 m serial_storage serial_info \<longleftrightarrow> serial_executable_valid m"
proof -
  let ?md = "executable_metadata_at m serial_info"
  let ?n = "em_length ?md"
  have sub: "fd_boot_is_valid_subrange serial_storage \<lparr>range_location = 0x80180, range_length = 8\<rparr>"
    "fd_boot_is_valid_subrange serial_storage \<lparr>range_location = 0x80188, range_length = 36\<rparr>"
    by (simp_all add: fd_boot_is_valid_subrange_def serial_storage_def)
  have ok: "executable_ok sha1 m serial_storage serial_info \<longleftrightarrow>
      load32 m 0x80180 = fd_boot_executable_metadata_header_magic \<and>
      load32 m 0x80184 = fd_boot_executable_metadata_header_version \<and> ?n mod 64 = 0 \<and>
      (0 < unat ?n \<and> unat ?n \<le> 0x8000 \<or> ?n = 0xFFF80000) \<and>
      load32 m (0x80000 + ?n - 4) = fd_boot_executable_trailer_magic \<and>
      sha1 (hashed (mem_bytes m) (executable_hash_range serial_info 0x80000) 0x80000 (0x80000 + ?n)) = em_hash ?md"
  proof -
    have l: "ie_location serial_info = 0x80000" "0x80000 + ie_metadata_offset serial_info = 0x80180"
      "(0x80180 :: u32) + 8 = 0x80188" "(0x80180 :: u32) + 4 = 0x80184"
      by (simp_all add: serial_info_def)
    show ?thesis
      unfolding executable_ok_def Let_def l header_words load32_def[symmetric]
      using serial_range[of ?n] sub by argo
  qed
  have msg: "hashed (mem_bytes m) (executable_hash_range serial_info 0x80000) 0x80000 (0x80000 + ?n) =
      image_cleared (mem_bytes m 0x80000 (unat ?n))" if "?n mod 64 = 0" "unat ?n \<le> 0x8000"
  proof -
    have "mem_bytes (cleared (executable_hash_range serial_info 0x80000) m) 0x80000 (unat ?n) =
        image_cleared (mem_bytes m 0x80000 (unat ?n))"
      by (rule cleared_image) (use that in simp_all)
    then show ?thesis using serial_executable_hashed[OF that, of m] by (simp only:)
  qed
  have u: "0 < ?n \<longleftrightarrow> 0 < unat ?n" "?n \<le> 0x8000 \<longleftrightarrow> unat ?n \<le> 0x8000"
    by (simp_all add: word_less_nat_alt word_le_nat_alt)
  have wrapped: "\<not> (load32 m 0x80180 = fd_boot_executable_metadata_header_magic \<and>
      load32 m 0x80184 = fd_boot_executable_metadata_header_version \<and> ?n = 0xFFF80000)"
    using assms by (simp add: serial_executable_wrapped_def)
  show ?thesis
  proof (cases "?n mod 64 = 0 \<and> unat ?n \<le> 0x8000")
    case True
    show ?thesis
      unfolding ok serial_executable_valid_def Let_def u msg[OF conjunct1[OF True] conjunct2[OF True]]
      using wrapped True by argo
  next
    case False
    then show ?thesis unfolding ok serial_executable_valid_def Let_def u using wrapped by argo
  qed
qed

lemma overlay_all: "length p < 2 ^ 32 \<Longrightarrow> mem_bytes (overlay l p) l (length p) = p"
  using overlay_bytes[of p "[]" p "[]" l l] by simp

lemma installed_announced:
  assumes "update_ok sha1 aes_cbc_plain key file us serial_info" "encrypted (update_metadata_at file us)"
    "storage_fits us" "installed aes_cbc_plain key file us serial_info page (update_metadata_at file us) f f'"
  shows "sha1 (image_cleared (mem_bytes f' 0x80000 (unat (em_length (um_executable_metadata (update_metadata_at file us)))))) =
    em_hash (um_executable_metadata (update_metadata_at file us))"
proof -
  let ?md = "update_metadata_at file us"
  let ?n = "em_length (um_executable_metadata ?md)" and ?iv = "um_initialization_vector ?md"
  define l where "l = update_start us ?n"
  define p where "p = aes_cbc_plain key ?iv (mem_bytes file l (unat ?n))"
  have n: "?n mod 64 = 0" "?n = range_length us - 64 - 128 - 128"
    using assms(1) unfolding update_ok_def Let_def if_P[OF assms(2)] by blast+
  have fit: "320 \<le> unat (range_length us)" "unat (range_location us) + unat (range_length us) + 0x80000 < 2 ^ 32"
    using assms(3) by (simp_all add: storage_fits_def)
  have "l = range_location us + 256" by (simp add: l_def update_start_def n(2))
  then have l: "unat l = unat (range_location us) + 256" using fit by (simp add: unat_word_ariths)
  have un: "unat ?n = unat (range_length us) - 320"
    unfolding n(2) using fit(1) by (simp add: unat_sub word_le_nat_alt)
  have small: "unat l + unat ?n + 0x80000 < 2 ^ 32" using l un fit by simp
  then have le: "l \<le> l + ?n" "unat (l + ?n - l) = unat ?n" by (simp_all add: word_le_nat_alt unat_word_ariths)
  have "length p = unat ?n"
    using n(1) dvd_64_unat[of ?n] unfolding p_def by (subst aes_cbc_plain_length) (auto elim!: dvdE)
  then have over: "mem_bytes (overlay l p) l (unat ?n) = p" using overlay_all[of p l] small by simp
  have l684: "unat l + 684 < 2 ^ 32" using small by simp
  have "encrypted_update_ok sha1 aes_cbc_plain key file us serial_info ?md"
    using assms(1) unfolding update_ok_def Let_def if_P[OF assms(2)] by blast
  then have "sha1 (hashed (mem_bytes (overlay l p)) (executable_hash_range serial_info l) l (l + ?n)) =
      em_hash (um_executable_metadata ?md)"
    unfolding encrypted_update_ok_def Let_def l_def p_def by blast
  also have "hashed (mem_bytes (overlay l p)) (executable_hash_range serial_info l) l (l + ?n) =
      mem_bytes (cleared (executable_hash_range serial_info l) (overlay l p)) l (unat ?n)"
    using hashed_cleared[OF executable_hash_in_block[OF l684] le(1)] n(1) dvd_64_unat[of ?n] le(2) by (simp only:)
  also have "\<dots> = image_cleared p"
    using cleared_image[OF l684, of "unat ?n"] small over by simp
  also have "p = mem_bytes f' 0x80000 (unat ?n)"
    using assms(4) by (simp add: installed_def Let_def p_def l_def serial_info_def)
  finally show ?thesis .
qed

section \<open>The flash after an update\<close>

text \<open>The image that \<open>fd_boot_install\<close> writes, and the flash once an image is in place of the executable: the rest
  of the image's last page is erased and nothing else has changed.\<close>

definition serial_image :: "(u32 \<Rightarrow> u8) \<Rightarrow> fd_boot_range_t \<Rightarrow> u8 list" where
  "serial_image file us =
     (let md = update_metadata_at file us; n = em_length (um_executable_metadata md) in
      aes_cbc_plain FD_BOOT_SERIAL_PERIPHERAL_DECRYPTION_KEY (um_initialization_vector md)
        (mem_bytes file (update_start us n) (unat n)))"

definition flash_with :: "u8 list \<Rightarrow> (u32 \<Rightarrow> u8) \<Rightarrow> u32 \<Rightarrow> u8" where
  "flash_with bs m a =
     (if a < 0x80000 then m a
      else if unat a - 0x80000 < length bs then bs ! (unat a - 0x80000)
      else if unat a - 0x80000 < 4096 * ((length bs + 4095) div 4096) then 0xFF
      else m a)"

definition serial_decision :: "(u32 \<Rightarrow> u8) \<Rightarrow> fd_boot_range_t \<Rightarrow> (u32 \<Rightarrow> u8) \<Rightarrow> fd_boot_update_action_t" where
  "serial_decision file us m = boot_decision
     \<lparr>can_upgrade = fd_boot_action_can_upgrade, can_downgrade = fd_boot_action_can_downgrade,
      can_install = fd_boot_action_can_install\<rparr>
     sha1 aes_cbc_plain FD_BOOT_SERIAL_PERIPHERAL_DECRYPTION_KEY serial_storage us serial_info file m"

text \<open>No executable that is checked gives the length 0xFFF80000: not the one in flash, and not the one that an
  update puts there. With that length the boot loader reads outside of the flash.\<close>

definition no_wrapped_length :: "(u32 \<Rightarrow> u8) \<Rightarrow> fd_boot_range_t \<Rightarrow> (u32 \<Rightarrow> u8) \<Rightarrow> bool" where
  "no_wrapped_length file us m \<longleftrightarrow>
     \<not> serial_executable_wrapped m \<and>
     (serial_decision file us m = action_install \<longrightarrow> \<not> serial_executable_wrapped (flash_with (serial_image file us) m))"

text \<open>Nor a length that is not a multiple of 64, for which the check gives up.\<close>

definition lengths_aligned :: "(u32 \<Rightarrow> u8) \<Rightarrow> fd_boot_range_t \<Rightarrow> (u32 \<Rightarrow> u8) \<Rightarrow> bool" where
  "lengths_aligned file us m \<longleftrightarrow>
     executable_aligned m serial_info \<and>
     (serial_decision file us m = action_install \<longrightarrow> executable_aligned (flash_with (serial_image file us) m) serial_info)"

lemma flash_with_bytes:
  assumes "length bs \<le> 0x80000"
  shows "mem_bytes (flash_with bs m) 0x80000 (length bs) = bs"
proof (rule nth_equalityI)
  fix k assume "k < length (mem_bytes (flash_with bs m) 0x80000 (length bs))"
  then have k: "k < length bs" by simp
  have "unat (0x80000 + of_nat k :: u32) = 0x80000 + k"
    using unat_address[of "0x80000" "length bs" k] assms k by simp
  then show "mem_bytes (flash_with bs m) 0x80000 (length bs) ! k = bs ! k"
    using k by (simp add: mem_bytes_def flash_with_def word_less_nat_alt)
qed simp

lemma page_index:
  fixes n k :: nat
  shows "n \<le> k \<Longrightarrow> k < 4096 * ((n + 4095) div 4096) \<Longrightarrow> n mod 4096 \<noteq> 0 \<and> k div 4096 = n div 4096"
    and "4096 * ((n + 4095) div 4096) \<le> k \<Longrightarrow> n \<le> k \<and> (0x80000 + n - 1) div 4096 < (0x80000 + k) div 4096"
proof -
  define q r where "q = n div 4096" and "r = n mod 4096"
  have n: "n = 4096 * q + r" "r < 4096" by (simp_all add: q_def r_def)
  have up: "(n + 4095) div 4096 = q + (if r = 0 then 0 else 1)"
  proof (cases "r = 0")
    case False
    then have "n + 4095 = (r - 1) + 4096 * (q + 1)" "r - 1 < 4096" using n by simp_all
    then show ?thesis using False by (simp only: div_mult_self2) simp
  qed (simp add: n)
  show "n \<le> k \<Longrightarrow> k < 4096 * ((n + 4095) div 4096) \<Longrightarrow> n mod 4096 \<noteq> 0 \<and> k div 4096 = n div 4096"
    unfolding up using n by (cases "r = 0") (auto simp: div_nat_eqI q_def[symmetric] r_def[symmetric] intro!: div_nat_eqI)
  assume k: "4096 * ((n + 4095) div 4096) \<le> k"
  then have "n \<le> k" unfolding up using n by (cases "r = 0") auto
  moreover have "(0x80000 + n - 1) div 4096 < 128 + (q + (if r = 0 then 0 else 1))"
    by (subst div_less_iff_less_mult) (use n in auto)
  moreover have "128 + (q + (if r = 0 then 0 else 1)) \<le> (0x80000 + k) div 4096"
    by (subst less_eq_div_iff_mult_less_eq) (use k up in auto)
  ultimately show "n \<le> k \<and> (0x80000 + n - 1) div 4096 < (0x80000 + k) div 4096" by linarith
qed

lemma flash_with_installed:
  fixes n :: nat
  assumes n: "n \<le> 0x80000" and bytes: "mem_bytes f' 0x80000 n = bs"
    and rest: "page_rest_erased 4096 (0x80000 + of_nat n) f'" and frame: "flash_frame 4096 0x80000 n f f'"
  shows "f' = flash_with bs f"
proof
  fix a :: u32
  have len: "length bs = n" using bytes by (metis mem_bytes_length)
  have un: "unat (0x80000 + of_nat n :: u32) = 0x80000 + n" using n by (simp add: unat_word_ariths unat_of_nat)
  define k where "k = unat a - 0x80000"
  consider "a < 0x80000" | "\<not> a < 0x80000" "k < n" | "\<not> a < 0x80000" "n \<le> k" "k < 4096 * ((n + 4095) div 4096)"
    | "\<not> a < 0x80000" "4096 * ((n + 4095) div 4096) \<le> k" by linarith
  then show "f' a = flash_with bs f a"
  proof cases
    case 1 then show ?thesis using frame by (simp add: flash_with_def flash_frame_def)
  next
    case 2
    then have "unat a = 0x80000 + k" by (simp add: k_def word_less_nat_alt)
    then have "of_nat (unat a) = (0x80000 + of_nat k :: u32)" by simp
    then have a: "a = 0x80000 + of_nat k" by simp
    have "f' a = mem_bytes f' 0x80000 n ! k" using 2(2) by (simp add: mem_bytes_def a)
    then show ?thesis using 2 by (simp add: bytes flash_with_def len k_def[symmetric])
  next
    case 3
    then have ua: "unat a = 0x80000 + k" by (simp add: k_def word_less_nat_alt)
    note page_index(1)[OF 3(2,3)]
    moreover have "(0x80000 + x) mod 4096 = x mod 4096" "(0x80000 + x) div 4096 = 128 + x div 4096" for x :: nat
      using mod_mult_self2[of x 4096 128] div_mult_self2[of 4096 x 128] by (simp_all add: add.commute)
    ultimately have "f' a = 0xFF"
      using rest 3(2) unfolding page_rest_erased_def flash_page_def un ua by (simp add: word_le_nat_alt un ua)
    then show ?thesis using 3 by (simp add: flash_with_def len k_def[symmetric])
  next
    case 4
    then have ua: "unat a = 0x80000 + k" by (simp add: k_def word_less_nat_alt)
    note page = page_index(2)[OF 4(2)]
    then have "f' a = f a" using frame by (simp add: flash_frame_def flash_page_def ua)
    then show ?thesis using 4 page by (simp add: flash_with_def len k_def[symmetric])
  qed
qed

lemma serial_image_length:
  assumes "em_length (um_executable_metadata (update_metadata_at file us)) mod 64 = 0"
  shows "length (serial_image file us) = unat (em_length (um_executable_metadata (update_metadata_at file us)))"
  unfolding serial_image_def Let_def
  using assms dvd_64_unat by (subst aes_cbc_plain_length) (auto elim!: dvdE)

lemma serial_update_length:
  assumes "update_ok sha1 aes_cbc_plain key file us serial_info" "storage_fits us"
  shows "em_length (um_executable_metadata (update_metadata_at file us)) mod 64 = 0"
    "unat (em_length (um_executable_metadata (update_metadata_at file us))) \<le> 0x80000"
proof -
  let ?n = "em_length (um_executable_metadata (update_metadata_at file us))"
  show "?n mod 64 = 0" using assms(1) unfolding update_ok_def Let_def by (elim conjE)
  have "?n = range_length us - 320 \<or> ?n = range_length us - 192"
    using assms(1) by (auto simp: update_ok_def Let_def split: if_splits)
  then show "unat ?n \<le> 0x80000"
    using assms(2) by (auto simp: storage_fits_def unat_sub word_le_nat_alt)
qed

lemma serial_installed:
  assumes "update_ok sha1 aes_cbc_plain FD_BOOT_SERIAL_PERIPHERAL_DECRYPTION_KEY file us serial_info" "storage_fits us"
    "installed aes_cbc_plain FD_BOOT_SERIAL_PERIPHERAL_DECRYPTION_KEY file us serial_info 4096 (update_metadata_at file us) f f'"
  shows "f' = flash_with (serial_image file us) f"
proof (rule flash_with_installed[OF serial_update_length(2)[OF assms(1,2)]])
  show "mem_bytes f' 0x80000 (unat (em_length (um_executable_metadata (update_metadata_at file us)))) = serial_image file us"
    "page_rest_erased 4096 (0x80000 + of_nat (unat (em_length (um_executable_metadata (update_metadata_at file us))))) f'"
    "flash_frame 4096 0x80000 (unat (em_length (um_executable_metadata (update_metadata_at file us)))) f f'"
    using assms(3) by (simp_all add: installed_def Let_def serial_image_def serial_info_def)
qed

lemma serial_view [simp]: "v_flash (hw_view file s) = hw_memory (boot_world s)" "v_update (hw_view file s) = file"
  by (simp_all add: hw_view_def)

lemma serial_action [simp]:
  "bi_action (serial_peripheral_interface store link) =
     \<lparr>can_upgrade = fd_boot_action_can_upgrade, can_downgrade = fd_boot_action_can_downgrade,
      can_install = fd_boot_action_can_install\<rparr>"
  by (rule serial_parts)

lemma decision_install:
  "serial_decision file us m = action_install \<Longrightarrow>
     update_ok sha1 aes_cbc_plain FD_BOOT_SERIAL_PERIPHERAL_DECRYPTION_KEY file us serial_info"
  by (auto simp: serial_decision_def boot_decision_def boot_choice_def split: if_splits option.splits)

text \<open>What is known after a call of \<open>fd_boot_get_executable_metadata\<close>, and of \<open>fd_boot_update\<close>.\<close>

lemma serial_executable_outcome:
  assumes "nvmc store" "link_to us file link" "storage_fits us" "boot_hw_ok (boot_world s)"
    and "\<not> serial_executable_wrapped (hw_memory (boot_world s))"
  defines "m \<equiv> hw_memory (boot_world s)"
  obtains ok r s' where "fd_boot_get_executable_metadata (serial_peripheral_interface store link) s = Some (Some (ok, r), s')"
    "hw_memory (boot_world s') = m" "hw_started (boot_world s') = hw_started (boot_world s)"
    "ok \<Longrightarrow> ex_is_valid r \<longleftrightarrow> serial_executable_valid m"
    "ok \<Longrightarrow> ex_is_valid r \<Longrightarrow> ex_metadata r = executable_metadata_at m serial_info"
    "link_reliable link \<Longrightarrow> executable_aligned m serial_info \<Longrightarrow> ok"
  using wp_returns[OF boot_platform.get_executable_metadata_wp[OF serial_boot_platform[OF assms(1-3), of "hw_started (boot_world s)"], of s]]
    assms(4,5) serial_executable_ok[of m]
    keepsD[OF serial_frame.keeps_get_executable_metadata[of "hw_started (boot_world s)" m store link], of s]
  unfolding m_def serial_wraps serial_view by fastforce

lemma serial_update_outcome:
  assumes "nvmc store" "link_to us file link" "storage_fits us" "boot_hw_ok (boot_world s)"
    and "no_wrapped_length file us (hw_memory (boot_world s))"
  defines "m \<equiv> hw_memory (boot_world s)"
  obtains ok r s' where "fd_boot_update (serial_peripheral_interface store link) s = Some (Some (ok, r), s')"
    "hw_started (boot_world s') = hw_started (boot_world s)"
    "ok \<Longrightarrow> update_outcome (bi_action (serial_peripheral_interface store link)) sha1 aes_cbc_plain
       FD_BOOT_SERIAL_PERIPHERAL_DECRYPTION_KEY serial_storage us serial_info 4096 file m
       (hw_memory (boot_world s')) (ur_is_valid r)"
    "link_reliable link \<Longrightarrow> lengths_aligned file us m \<Longrightarrow> ok"
proof -
  have wraps: "\<not> executable_wraps (v_flash (hw_view file s)) serial_info"
    "\<And>f'. serial_decision file us m = action_install \<Longrightarrow>
        installed aes_cbc_plain FD_BOOT_SERIAL_PERIPHERAL_DECRYPTION_KEY file us serial_info 4096
          (update_metadata_at file us) m f' \<Longrightarrow> \<not> executable_wraps f' serial_info"
    "lengths_aligned file us m \<Longrightarrow> executable_aligned m serial_info"
    "\<And>f'. lengths_aligned file us m \<Longrightarrow> serial_decision file us m = action_install \<Longrightarrow>
        installed aes_cbc_plain FD_BOOT_SERIAL_PERIPHERAL_DECRYPTION_KEY file us serial_info 4096
          (update_metadata_at file us) m f' \<Longrightarrow> executable_aligned f' serial_info"
    using assms(5) serial_installed[OF decision_install assms(3)]
    by (auto simp: serial_wraps no_wrapped_length_def lengths_aligned_def m_def)
  show ?thesis
    using that wp_returns[OF boot_platform.update_wp[OF serial_boot_platform[OF assms(1-3), of "hw_started (boot_world s)"], of s]]
      assms(4) keepsD[OF serial_flash_frame.keeps_update[of "hw_started (boot_world s)" store link], of s] wraps
    unfolding m_def serial_view serial_action serial_decision_def by fastforce
qed

text \<open>The length 0xFFF80000 in the header of the executable: its sum with the location wraps around to 0, the range
  checks of \<open>fd_boot_get_executable_metadata\<close> pass, and the trailer is read at 0xFFFFFFFC, outside of the
  flash.\<close>

lemma serial_wrapped_faults:
  assumes "serial_executable_wrapped (hw_memory (boot_world s))"
  shows "fd_boot_get_executable_metadata (serial_peripheral_interface store link) s = None"
proof -
  have "em_length (parse_executable_metadata (mem_bytes (hw_memory (boot_world s)) 0x80188 36)) = 0xFFF80000"
    using assms by (simp add: serial_executable_wrapped_def executable_metadata_at_def serial_info_def)
  then show ?thesis
    using assms
    by (simp add: fd_boot_get_executable_metadata_def with_result_def bnd_def ret_def Let_def serial_executable_wrapped_def
        fd_boot_executable_reader_read_def flash_bytes_def in_flash_def flash_size_def checked_def undef_def header_words
        serial_storage_def serial_info_def fd_boot_is_valid_subrange_def)
qed

subsection \<open>An update\<close>

text \<open>An executable of 448 bytes with the given version, in which there is nothing but header, metadata and
  trailer, and an encrypted update to it.\<close>

definition sample_executable_metadata :: "u32 \<Rightarrow> u8 list \<Rightarrow> u8 list" where
  "sample_executable_metadata v h = word_bytes v @ word_bytes 0 @ word_bytes 0 @ word_bytes 448 @ h"

definition sample_layout :: "u32 \<Rightarrow> u8 list \<Rightarrow> u8 list" where
  "sample_layout v h = (replicate 0x180 0 @ word_bytes fd_boot_executable_metadata_header_magic @
     word_bytes fd_boot_executable_metadata_header_version @ word_bytes v @ word_bytes 0 @ word_bytes 0 @ word_bytes 448) @ h @
     replicate 16 0 @ word_bytes fd_boot_executable_trailer_magic"

definition sample_hash :: "u32 \<Rightarrow> u8 list" where
  "sample_hash v = sha1 (sample_layout v (replicate 20 0))"

definition sample_executable :: "u32 \<Rightarrow> u8 list" where
  "sample_executable v = sample_layout v (sample_hash v)"

definition sample_update_metadata :: "u32 \<Rightarrow> u8 list \<Rightarrow> u8 list" where
  "sample_update_metadata v h = sample_executable_metadata v (sample_hash v) @ h @ word_bytes 1 @ replicate 16 0"

definition sample_update_layout :: "u32 \<Rightarrow> u8 list \<Rightarrow> u8 list" where
  "sample_update_layout v h =
     word_bytes fd_boot_update_metadata_header_magic @ word_bytes fd_boot_update_metadata_header_version @
     sample_update_metadata v h @ replicate 44 0 @
     aes_cbc_cipher FD_BOOT_SERIAL_PERIPHERAL_DECRYPTION_KEY (replicate 16 0)
       (replicate 8 0 @ sample_update_metadata v (replicate 20 0) @ replicate 44 0) @
     aes_cbc_cipher FD_BOOT_SERIAL_PERIPHERAL_DECRYPTION_KEY (replicate 16 0) (sample_executable v) @
     replicate 60 0 @ word_bytes fd_boot_update_trailer_magic"

definition sample_update :: "u32 \<Rightarrow> u32 \<Rightarrow> u8" where
  "sample_update v = overlay 0 (sample_update_layout v (sha1 (sample_update_layout v (replicate 20 0))))"

definition sample_storage :: fd_boot_range_t where
  "sample_storage = \<lparr>range_location = 0, range_length = 768\<rparr>"

lemma word_bytes [simp]: "length (word_bytes v) = 4" "boot_u32 (word_bytes v) 0 = v"
proof -
  show "boot_u32 (word_bytes v) 0 = v"
    unfolding boot_u32_def word_bytes_def
  proof (simp, rule bit_word_eqI)
    fix n :: nat assume "n < LENGTH(32)"
    then consider "n < 8" | "8 \<le> n \<and> n < 16" | "16 \<le> n \<and> n < 24" | "24 \<le> n \<and> n < 32" by fastforce
    then show "bit ((ucast (ucast v :: u8) :: u32) OR push_bit 8 (ucast (ucast (drop_bit 8 v) :: u8)) OR
        push_bit 16 (ucast (ucast (drop_bit 16 v) :: u8)) OR push_bit 24 (ucast (ucast (drop_bit 24 v) :: u8))) n = bit v n"
      by cases (auto simp: bit_simps)
  qed
qed (simp add: word_bytes_def)

lemma sha1_length [simp]: "length (sha1 m) = 20"
  by (simp add: sha1_def sha1_digest_def split: prod.split)

lemma mem_bytes_slice: "k + j \<le> n \<Longrightarrow> mem_bytes m (l + of_nat k) j = take j (drop k (mem_bytes m l n))"
  by (rule nth_equalityI) (simp_all add: mem_bytes_def add.assoc)

lemma boot_u32_take: "i + 4 \<le> length bs \<Longrightarrow> boot_u32 bs i = boot_u32 (take 4 (drop i bs)) 0"
  by (simp add: boot_u32_def)

lemma image_cleared_slice:
  "length xs = 408 \<Longrightarrow> length h = 20 \<Longrightarrow> image_cleared (xs @ h @ ys) = xs @ replicate 20 0 @ ys"
  by (rule nth_equalityI) (auto simp: image_cleared_def nth_append)

lemma sample_lengths [simp]:
  "length (sample_hash v) = 20" "length h = 20 \<Longrightarrow> length (sample_layout v h) = 448" "length (sample_executable v) = 448"
  "length h = 20 \<Longrightarrow> length (sample_executable_metadata v h) = 36"
  "length h = 20 \<Longrightarrow> length (sample_update_metadata v h) = 76"
  by (simp_all add: sample_hash_def sample_layout_def sample_executable_def sample_executable_metadata_def sample_update_metadata_def)

lemma sample_cleared: "sha1 (image_cleared (sample_executable v)) = sample_hash v"
  unfolding sample_executable_def sample_layout_def[of v "sample_hash v"]
  by (subst image_cleared_slice) (simp_all add: sample_hash_def sample_layout_def)

text \<open>A flash in which the executable is installed holds a valid one.\<close>

lemma sample_word:
  assumes "length xs = k" "mem_bytes m l n = xs @ word_bytes v @ ys"
  shows "load32 m (l + of_nat k) = v"
proof -
  have "length (mem_bytes m l n) = k + 4 + length ys" using assms by simp
  then have "k + 4 \<le> n" by simp
  then have "mem_bytes m (l + of_nat k) 4 = word_bytes v"
    using mem_bytes_slice[of k 4 n m l] assms by simp
  then show ?thesis by (simp add: load32_def)
qed

lemma sample_in_flash:
  fixes m v
  defines "f \<equiv> flash_with (sample_executable v) m"
  shows "executable_metadata_at f serial_info =
      \<lparr>em_version = \<lparr>version_major = v, version_minor = 0, version_patch = 0\<rparr>, em_length = 448, em_hash = sample_hash v\<rparr>"
    and "serial_executable_valid f"
proof -
  have f: "mem_bytes f 0x80000 448 = sample_executable v"
    using flash_with_bytes[of "sample_executable v" m] by (simp add: f_def)
  have "mem_bytes f (0x80000 + of_nat 392) 36 = take 36 (drop 392 (sample_executable v))"
    using mem_bytes_slice[of 392 36 448 f "0x80000"] f by simp
  also have "\<dots> = sample_executable_metadata v (sample_hash v)"
    by (simp add: sample_executable_def sample_layout_def sample_executable_metadata_def)
  finally show md: "executable_metadata_at f serial_info =
      \<lparr>em_version = \<lparr>version_major = v, version_minor = 0, version_patch = 0\<rparr>, em_length = 448, em_hash = sample_hash v\<rparr>"
    by (simp add: executable_metadata_at_def serial_info_def parse_executable_metadata_def sample_executable_metadata_def
        boot_u32_take[of 4] boot_u32_take[of 8] boot_u32_take[of 12] boot_u32_take[of 0])
  let ?h = "sample_hash v"
  have "load32 f (0x80000 + of_nat 0x180) = fd_boot_executable_metadata_header_magic"
    "load32 f (0x80000 + of_nat 0x184) = fd_boot_executable_metadata_header_version"
    "load32 f (0x80000 + of_nat 444) = fd_boot_executable_trailer_magic"
    by (rule sample_word[where n = 448 and xs = "replicate 0x180 0"], simp,
        simp add: f sample_executable_def sample_layout_def,
        rule sample_word[where n = 448 and xs = "replicate 0x180 0 @ word_bytes fd_boot_executable_metadata_header_magic"], simp,
        simp add: f sample_executable_def sample_layout_def,
        rule sample_word[where n = 448 and ys = "[]"
          and xs = "(replicate 0x180 0 @ word_bytes fd_boot_executable_metadata_header_magic @
     word_bytes fd_boot_executable_metadata_header_version @ word_bytes v @ word_bytes 0 @ word_bytes 0 @ word_bytes 448) @ ?h @
     replicate 16 0"], simp, simp add: f sample_executable_def sample_layout_def)
  then show "serial_executable_valid f"
    using sample_cleared[of v] by (simp add: serial_executable_valid_def Let_def md f)
qed

lemma cleared_slice:
  assumes "mem_bytes m l n = xs @ h @ ys" "unat l + n \<le> 2 ^ 32" "length h = unat k" "length xs = unat j" "unat l + unat j < 2 ^ 32"
  shows "mem_bytes (cleared \<lparr>range_location = l + j, range_length = k\<rparr> m) l n = xs @ replicate (length h) 0 @ ys"
proof (rule nth_equalityI)
  have n: "n = length xs + length h + length ys" using arg_cong[OF assms(1), of length] by simp
  fix i assume "i < length (mem_bytes (cleared \<lparr>range_location = l + j, range_length = k\<rparr> m) l n)"
  then have i: "i < n" by simp
  have nth: "m (l + of_nat i) = (xs @ h @ ys) ! i" using i by (simp add: assms(1)[symmetric] mem_bytes_def)
  have "unat (l + of_nat i) = unat l + i" "unat (l + j) = unat l + unat j"
    using unat_address[OF assms(2) i] assms(5) by (simp_all add: unat_word_ariths)
  then show "mem_bytes (cleared \<lparr>range_location = l + j, range_length = k\<rparr> m) l n ! i = (xs @ replicate (length h) 0 @ ys) ! i"
    using i n nth assms(3,4) by (auto simp: mem_bytes_def cleared_def nth_append)
qed (use arg_cong[OF assms(1), of length] in simp)

lemma sample_cipher:
  assumes "length p mod 16 = 0"
  shows "length (aes_cbc_cipher key iv p) = length p"
  unfolding aes_cbc_cipher_def by (rule cbc_enc_length[OF assms]) simp

lemma sample_update_length: "length h = 20 \<Longrightarrow> length (sample_update_layout v h) = 768"
  by (simp add: sample_update_layout_def sample_cipher)

lemma sample_parse:
  assumes "length h = 20"
  shows "parse_update_metadata (sample_update_metadata v h) =
    \<lparr>um_executable_metadata =
       \<lparr>em_version = \<lparr>version_major = v, version_minor = 0, version_patch = 0\<rparr>, em_length = 448, em_hash = sample_hash v\<rparr>,
     um_hash = h, um_flags = 1, um_initialization_vector = replicate 16 0\<rparr>"
  using assms
  by (simp add: parse_update_metadata_def parse_executable_metadata_def sample_update_metadata_def sample_executable_metadata_def
      boot_u32_take[of 4] boot_u32_take[of 8] boot_u32_take[of 12] boot_u32_take[of 56] boot_u32_take[of 0])

text \<open>The bytes of the update, piece by piece.\<close>

lemma sample_pieces:
  fixes v
  defines "u \<equiv> sample_update v" and "h \<equiv> sha1 (sample_update_layout v (replicate 20 0))"
  shows "mem_bytes u 0 8 = word_bytes fd_boot_update_metadata_header_magic @ word_bytes fd_boot_update_metadata_header_version"
    and "mem_bytes u 8 76 = sample_update_metadata v h"
    and "aes_cbc_plain FD_BOOT_SERIAL_PERIPHERAL_DECRYPTION_KEY (replicate 16 0) (mem_bytes u 128 128) =
      replicate 8 0 @ sample_update_metadata v (replicate 20 0) @ replicate 44 0"
    and "aes_cbc_plain FD_BOOT_SERIAL_PERIPHERAL_DECRYPTION_KEY (replicate 16 0) (mem_bytes u 256 448) = sample_executable v"
    and "mem_bytes u 764 4 = word_bytes fd_boot_update_trailer_magic"
    and "mem_bytes (cleared \<lparr>range_location = 44, range_length = 20\<rparr> u) 0 768 = sample_update_layout v (replicate 20 0)"
proof -
  have len: "length h = 20" by (simp add: h_def)
  have all: "mem_bytes u 0 768 = sample_update_layout v h"
    using overlay_all[of "sample_update_layout v h" 0] sample_update_length[OF len, of v]
    by (simp add: u_def sample_update_def h_def)
  have slice: "mem_bytes u (of_nat k) j = take j (drop k (sample_update_layout v h))" if "k + j \<le> 768" for k j
    using mem_bytes_slice[OF that, of u 0] all by simp
  note pieces = sample_update_layout_def sample_cipher len
  show "mem_bytes u 0 8 = word_bytes fd_boot_update_metadata_header_magic @ word_bytes fd_boot_update_metadata_header_version"
    using slice[of 0 8] by (simp add: pieces)
  show "mem_bytes u 8 76 = sample_update_metadata v h"
    using slice[of 8 76] by (simp add: pieces)
  have "mem_bytes u 128 128 = aes_cbc_cipher FD_BOOT_SERIAL_PERIPHERAL_DECRYPTION_KEY (replicate 16 0)
       (replicate 8 0 @ sample_update_metadata v (replicate 20 0) @ replicate 44 0)"
    using slice[of 128 128] by (simp add: pieces)
  then show "aes_cbc_plain FD_BOOT_SERIAL_PERIPHERAL_DECRYPTION_KEY (replicate 16 0) (mem_bytes u 128 128) =
      replicate 8 0 @ sample_update_metadata v (replicate 20 0) @ replicate 44 0"
    by (simp add: aes_plain_cipher)
  have "mem_bytes u 256 448 = aes_cbc_cipher FD_BOOT_SERIAL_PERIPHERAL_DECRYPTION_KEY (replicate 16 0) (sample_executable v)"
    using slice[of 256 448] by (simp add: pieces)
  then show "aes_cbc_plain FD_BOOT_SERIAL_PERIPHERAL_DECRYPTION_KEY (replicate 16 0) (mem_bytes u 256 448) = sample_executable v"
    by (simp add: aes_plain_cipher)
  show "mem_bytes u 764 4 = word_bytes fd_boot_update_trailer_magic"
    using slice[of 764 4] by (simp add: pieces)
  let ?xs = "word_bytes fd_boot_update_metadata_header_magic @ word_bytes fd_boot_update_metadata_header_version @
    sample_executable_metadata v (sample_hash v)"
  obtain ys where ys: "sample_update_layout v k = ?xs @ k @ ys" for k
    by (simp add: sample_update_layout_def sample_update_metadata_def)
  show "mem_bytes (cleared \<lparr>range_location = 44, range_length = 20\<rparr> u) 0 768 = sample_update_layout v (replicate 20 0)"
    using cleared_slice[of u 0 768 ?xs h ys 20 44] all by (simp add: ys len)
qed

lemma sample_update_metadata_at:
  "update_metadata_at (sample_update v) sample_storage =
    \<lparr>um_executable_metadata =
       \<lparr>em_version = \<lparr>version_major = v, version_minor = 0, version_patch = 0\<rparr>, em_length = 448, em_hash = sample_hash v\<rparr>,
     um_hash = sha1 (sample_update_layout v (replicate 20 0)), um_flags = 1, um_initialization_vector = replicate 16 0\<rparr>"
  by (simp add: update_metadata_at_def sample_storage_def sample_pieces sample_parse)

lemma sample_image: "serial_image (sample_update v) sample_storage = sample_executable v"
  unfolding serial_image_def sample_update_metadata_at Let_def
  by (simp add: update_start_def sample_storage_def sample_pieces)

lemma sample_update_ok:
  "update_ok sha1 aes_cbc_plain FD_BOOT_SERIAL_PERIPHERAL_DECRYPTION_KEY (sample_update v) sample_storage serial_info"
proof -
  have whole: "sha1 (hashed (mem_bytes (sample_update v)) \<lparr>range_location = 44, range_length = 20\<rparr> 0 768) =
      sha1 (sample_update_layout v (replicate 20 0))"
    using hashed_cleared[of "\<lparr>range_location = 44, range_length = 20\<rparr>" 0 768 "sample_update v"]
    by (simp add: in_one_block_def sample_pieces)
  have inner: "sha1 (hashed (mem_bytes (overlay 256 (sample_executable v))) (executable_hash_range serial_info 256) 256 704) =
      sample_hash v"
    using hashed_cleared[OF executable_hash_in_block[of 256], of 704 "overlay 256 (sample_executable v)"]
      cleared_image[of 256 448 "overlay 256 (sample_executable v)"] overlay_all[of "sample_executable v" 256] sample_cleared[of v]
    by simp
  show ?thesis
    unfolding update_ok_def Let_def sample_update_metadata_at encrypted_update_ok_def
    by (simp add: sample_storage_def update_start_def sample_pieces sample_parse whole inner fd_boot_is_valid_subrange_def
        encrypted_def fd_boot_update_metadata_flag_encrypted_def boot_u32_take[of 4] boot_u32_take[of 0])
qed

text \<open>The update is an upgrade of an executable with a smaller version.\<close>

definition sample_flash :: "u32 \<Rightarrow> u32 \<Rightarrow> u8" where
  "sample_flash v = flash_with (sample_executable v) (\<lambda>_. 0xFF)"

lemma sample_not_wrapped:
  "\<not> serial_executable_wrapped (flash_with (sample_executable v) m)"
  "executable_aligned (flash_with (sample_executable v) m) serial_info"
  by (simp_all add: serial_executable_wrapped_def executable_aligned_def sample_in_flash)

lemma sample_decision: "serial_decision (sample_update 2) sample_storage (sample_flash 1) = action_install"
  using sample_update_ok[of 2] serial_executable_ok[OF sample_not_wrapped(1)]
  by (simp add: serial_decision_def boot_decision_def boot_choice_def sample_flash_def sample_in_flash
      sample_update_metadata_at version_less_def version_key_def fd_boot_action_can_upgrade_def)

lemma sample_lengths_ok:
  "no_wrapped_length (sample_update 2) sample_storage (sample_flash 1)"
  "lengths_aligned (sample_update 2) sample_storage (sample_flash 1)"
  by (simp_all add: no_wrapped_length_def lengths_aligned_def sample_image sample_flash_def sample_not_wrapped)

text \<open>A link that works, with this update on offer.\<close>

definition sample_link :: "u32 \<Rightarrow> update_link" where
  "sample_link v = (Some sample_storage, \<lambda>l n. Some (mem_bytes (sample_update v) l (unat n)))"

lemma sample_link: "link_to sample_storage (sample_update v) (sample_link v)" "link_reliable (sample_link v)"
  "storage_fits sample_storage"
  by (simp_all add: link_to_def link_reliable_def sample_link_def storage_fits_def sample_storage_def)

text \<open>A machine after reset with the given memory.\<close>

definition boot_reset :: "(u32 \<Rightarrow> u8) \<Rightarrow> boot_hw boot_state" where
  "boot_reset m = \<lparr>boot_code = 0, boot_stack = [],
     boot_world = \<lparr>hw_sha = \<lparr>sha_state = (0, 0, 0, 0, 0), sha_count0 = 0, sha_count1 = 0, sha_buffer = replicate 64 0\<rparr>,
       hw_aes = \<lparr>Key = replicate 16 0, RoundKey = replicate 176 0, Iv = replicate 16 0\<rparr>,
       hw_memory = m, hw_config = 0, hw_irq_disabled = False, hw_icer = replicate 16 0, hw_icpr = replicate 16 0,
       hw_started = None\<rparr>\<rparr>"

lemma boot_reset_ok: "boot_hw_ok (boot_world (boot_reset m))" "hw_memory (boot_world (boot_reset m)) = m"
  "hw_started (boot_world (boot_reset m)) = None"
  by (simp_all add: boot_reset_def boot_hw_ok_def aes_ready_def)

text \<open>\<open>fd_boot_update\<close> with that update and an older executable in flash: it returns true and the flash has changed.\<close>

lemma sample_outcome:
  obtains r s' where "fd_boot_update (serial_peripheral_interface nvmc_model (sample_link 2)) (boot_reset (sample_flash 1)) =
      Some (Some (True, r), s')"
    "hw_memory (boot_world s') = flash_with (sample_executable 2) (sample_flash 1)" "ur_is_valid r"
    "hw_memory (boot_world s') \<noteq> sample_flash 1"
proof (rule serial_update_outcome[OF nvmc_model sample_link(1,3) boot_reset_ok(1), of 2 "sample_flash 1", unfolded boot_reset_ok,
      OF sample_lengths_ok(1)])
  let ?i = "serial_peripheral_interface nvmc_model (sample_link 2)"
  let ?f = "flash_with (sample_executable 2) (sample_flash 1)"
  fix ok r s'
  assume run: "fd_boot_update ?i (boot_reset (sample_flash 1)) = Some (Some (ok, r), s')"
    and out: "ok \<Longrightarrow> update_outcome (bi_action ?i) sha1 aes_cbc_plain FD_BOOT_SERIAL_PERIPHERAL_DECRYPTION_KEY serial_storage
        sample_storage serial_info 4096 (sample_update 2) (sample_flash 1) (hw_memory (boot_world s')) (ur_is_valid r)"
    and ok: "link_reliable (sample_link 2) \<Longrightarrow> lengths_aligned (sample_update 2) sample_storage (sample_flash 1) \<Longrightarrow> ok"
  have "ok" by (rule ok[OF sample_link(2) sample_lengths_ok(2)])
  then have inst: "installed aes_cbc_plain FD_BOOT_SERIAL_PERIPHERAL_DECRYPTION_KEY (sample_update 2) sample_storage serial_info 4096
        (update_metadata_at (sample_update 2) sample_storage) (sample_flash 1) (hw_memory (boot_world s'))"
      "ur_is_valid r \<longleftrightarrow> executable_ok sha1 (hw_memory (boot_world s')) serial_storage serial_info"
    using out sample_decision by (simp_all add: update_outcome_def serial_decision_def)
  have m: "hw_memory (boot_world s') = ?f"
    using serial_installed[OF sample_update_ok sample_link(3) inst(1)] by (simp only: sample_image)
  then have "ur_is_valid r"
    using inst(2) serial_executable_ok[OF sample_not_wrapped(1)] sample_in_flash(2) by simp
  moreover have "?f \<noteq> sample_flash 1"
  proof
    assume "?f = sample_flash 1"
    then have "executable_metadata_at ?f serial_info = executable_metadata_at (sample_flash 1) serial_info" by simp
    then show False by (simp add: sample_flash_def sample_in_flash)
  qed
  ultimately show thesis using that run m \<open>ok\<close> by simp
qed

section \<open>Properties\<close>

text \<open>the verdict on the executable in flash is exact. From any contexts of the hash and the decrypter
  and with any stack contents, \<open>fd_boot_get_executable_metadata\<close> returns, starts nothing and does not
  change memory; if it returns true, the executable is reported valid exactly when its header, version
  and trailer are there, its length is a positive multiple of 64 that fits the storage, and SHA-1 of
  the image with the hash field cleared is the stored hash. The length 0xFFF80000 is excluded: with it the
  check reads outside of the flash.\<close>

theorem serial_boot_executable_verdict:
  assumes "nvmc store" "link_to us file link" "storage_fits us" "boot_hw_ok (boot_world s)"
    and "\<not> serial_executable_wrapped (hw_memory (boot_world s))"
  defines "m \<equiv> hw_memory (boot_world s)"
  shows "\<exists>ok r s'. fd_boot_get_executable_metadata (serial_peripheral_interface store link) s = Some (Some (ok, r), s') \<and>
    hw_memory (boot_world s') = m \<and> hw_started (boot_world s') = hw_started (boot_world s) \<and>
    (ok \<longrightarrow>
       (ex_is_valid r \<longleftrightarrow> serial_executable_valid m) \<and>
       (ex_is_valid r \<longrightarrow> ex_metadata r = executable_metadata_at m serial_info)) \<and>
    (link_reliable link \<and> executable_aligned m serial_info \<longrightarrow> ok)"
  unfolding m_def by (rule serial_executable_outcome[OF assms(1-5)]) blast

theorem serial_boot_executable_verdict_witness:
  "\<exists>r s'. fd_boot_get_executable_metadata (serial_peripheral_interface nvmc_model (sample_link 2)) (boot_reset (sample_flash 1)) =
      Some (Some (True, r), s') \<and> ex_is_valid r"
  using serial_boot_executable_verdict[OF nvmc_model sample_link(1,3) boot_reset_ok(1), of "sample_flash 1" 2] sample_link(2)
  by (auto simp: boot_reset_ok sample_flash_def sample_not_wrapped sample_in_flash(2))

text \<open>the verdict on the update on offer is exact, without changing memory: a reported valid update has
  header, version, trailer and lengths as the format wants them, SHA-1 of the whole update storage
  with the hash field cleared is the stored hash, and the executable in it, decrypted if it is
  encrypted, has the announced hash; an encrypted update repeats its metadata in encrypted form. On a
  link that works the check returns true.\<close>

theorem serial_boot_update_verdict:
  assumes "nvmc store" "link_to us file link" "storage_fits us" "boot_hw_ok (boot_world s)"
  shows "\<exists>ok r s'. fd_boot_get_update_metadata (serial_peripheral_interface store link) s = Some (Some (ok, r), s') \<and>
    hw_memory (boot_world s') = hw_memory (boot_world s) \<and> hw_started (boot_world s') = hw_started (boot_world s) \<and>
    (ok \<longrightarrow>
       (up_is_valid r \<longleftrightarrow>
          update_ok sha1 aes_cbc_plain FD_BOOT_SERIAL_PERIPHERAL_DECRYPTION_KEY file us serial_info) \<and>
       (up_is_valid r \<longrightarrow> up_metadata r = update_metadata_at file us)) \<and>
    (link_reliable link \<longrightarrow> ok)"
  using wp_returns[OF boot_platform.get_update_metadata_wp[OF serial_boot_platform[OF assms(1-3), of "hw_started (boot_world s)"], of s]]
    assms(4)
    keepsD[OF serial_frame.keeps_get_update_metadata[of "hw_started (boot_world s)" "hw_memory (boot_world s)" store link], of s]
  by fastforce

theorem serial_boot_update_verdict_witness:
  "\<exists>r s'. fd_boot_get_update_metadata (serial_peripheral_interface nvmc_model (sample_link 2)) (boot_reset (sample_flash 1)) =
      Some (Some (True, r), s') \<and> up_is_valid r"
  using serial_boot_update_verdict[OF nvmc_model sample_link(1,3) boot_reset_ok(1), of 2 "sample_flash 1"] sample_link(2)
    sample_update_ok[of 2]
  by auto

text \<open>C13: \<open>fd_boot_update\<close> does what the versions call for. Conditions: the flash controller works as \<open>nvmc\<close> says, in the
  1 MiB of flash; the update storage has 320 bytes to 512 KiB and ends 512 KiB before \<open>2 ^ 32\<close>; a read of it over the link fails
  or returns the bytes of one file, constant during the call; the contexts have their C sizes; no executable checked has
  length 0xFFF80000 (\<open>no_wrapped_length\<close>). Then the call returns, without an
  access outside of the flash or an array, and starts nothing. If it returns true, the flash is untouched when there is nothing to run
  or the present executable is to run, which it reports, and when the update is to be installed, the decrypted image
  replaces the executable, the rest of its last page is erased, no other byte changes, and success is reported exactly
  when the new executable passes the check (an image beyond the 32 KiB of executable storage is not refused). If the link
  works and the checked lengths are multiples of 64, it returns true.\<close>

theorem serial_boot_update_outcome:
  assumes "nvmc store" "link_to us file link" "storage_fits us" "boot_hw_ok (boot_world s)"
    and "no_wrapped_length file us (hw_memory (boot_world s))"
  shows "\<exists>ok r s'. fd_boot_update (serial_peripheral_interface store link) s = Some (Some (ok, r), s') \<and>
    hw_started (boot_world s') = hw_started (boot_world s) \<and>
    (ok \<longrightarrow>
       update_outcome (bi_action (serial_peripheral_interface store link)) sha1 aes_cbc_plain
         FD_BOOT_SERIAL_PERIPHERAL_DECRYPTION_KEY serial_storage us serial_info 4096 file
         (hw_memory (boot_world s)) (hw_memory (boot_world s')) (ur_is_valid r) \<and>
       hw_memory (boot_world s') =
         (if serial_decision file us (hw_memory (boot_world s)) = action_install
          then flash_with (serial_image file us) (hw_memory (boot_world s)) else hw_memory (boot_world s))) \<and>
    (link_reliable link \<and> lengths_aligned file us (hw_memory (boot_world s)) \<longrightarrow> ok)"
proof (rule serial_update_outcome[OF assms], goal_cases)
  case (1 ok r s')
  have "hw_memory (boot_world s') =
      (if serial_decision file us (hw_memory (boot_world s)) = action_install
       then flash_with (serial_image file us) (hw_memory (boot_world s)) else hw_memory (boot_world s))" if "ok"
    using 1(3)[OF that] serial_installed[OF decision_install assms(3)]
    by (auto simp: update_outcome_def serial_decision_def split: fd_boot_update_action_t.splits)
  then show ?case using 1 by blast
qed

theorem serial_boot_update_outcome_witness:
  "\<exists>r s'. fd_boot_update (serial_peripheral_interface nvmc_model (sample_link 2)) (boot_reset (sample_flash 1)) =
      Some (Some (True, r), s') \<and> hw_started (boot_world s') = None \<and>
    hw_memory (boot_world s') = flash_with (sample_executable 2) (sample_flash 1) \<and> ur_is_valid r"
proof (rule sample_outcome)
  fix r s'
  assume "fd_boot_update (serial_peripheral_interface nvmc_model (sample_link 2)) (boot_reset (sample_flash 1)) =
      Some (Some (True, r), s')" "hw_memory (boot_world s') = flash_with (sample_executable 2) (sample_flash 1)" "ur_is_valid r"
  then show ?thesis
    using serial_boot_update_outcome[OF nvmc_model sample_link(1,3) boot_reset_ok(1), of 2 "sample_flash 1"]
      sample_lengths_ok sample_link(2) sample_decision sample_image[of 2]
    by (auto simp: boot_reset_ok)
qed

text \<open>C14: no downgrade and nothing unverified, under the conditions of the previous property: if \<open>fd_boot_update\<close>
  returns true and the flash has changed, then the update is valid in the sense of \<open>update_ok\<close> (format, hash of
  the whole update, and hash of the decrypted executable), and if the executable it replaced was valid, the
  update's version is greater in lexicographic order.\<close>

theorem serial_boot_no_downgrade:
  assumes "nvmc store" "link_to us file link" "storage_fits us" "boot_hw_ok (boot_world s)"
    and "no_wrapped_length file us (hw_memory (boot_world s))"
  shows "\<exists>ok r s'. fd_boot_update (serial_peripheral_interface store link) s = Some (Some (ok, r), s') \<and>
    (ok \<and> hw_memory (boot_world s') \<noteq> hw_memory (boot_world s) \<longrightarrow>
       update_ok sha1 aes_cbc_plain FD_BOOT_SERIAL_PERIPHERAL_DECRYPTION_KEY file us serial_info \<and>
       (serial_executable_valid (hw_memory (boot_world s)) \<longrightarrow>
          version_less (em_version (executable_metadata_at (hw_memory (boot_world s)) serial_info))
            (em_version (um_executable_metadata (update_metadata_at file us)))))"
proof (rule serial_update_outcome[OF assms], goal_cases)
  case (1 ok r s')
  have "\<not> serial_executable_wrapped (hw_memory (boot_world s))" using assms(5) by (simp add: no_wrapped_length_def)
  note valid = serial_executable_ok[OF this]
  show ?case
    using 1
    by (auto simp: update_outcome_def boot_decision_def boot_choice_def valid fd_boot_action_can_downgrade_def
        split: if_splits option.splits fd_boot_update_action_t.splits)
qed

theorem serial_boot_no_downgrade_witness:
  "\<exists>r s'. fd_boot_update (serial_peripheral_interface nvmc_model (sample_link 2)) (boot_reset (sample_flash 1)) =
      Some (Some (True, r), s') \<and> hw_memory (boot_world s') \<noteq> sample_flash 1 \<and>
    update_ok sha1 aes_cbc_plain FD_BOOT_SERIAL_PERIPHERAL_DECRYPTION_KEY (sample_update 2) sample_storage serial_info \<and>
    version_less (em_version (executable_metadata_at (sample_flash 1) serial_info))
      (em_version (um_executable_metadata (update_metadata_at (sample_update 2) sample_storage)))"
proof (rule sample_outcome)
  fix r s'
  assume "fd_boot_update (serial_peripheral_interface nvmc_model (sample_link 2)) (boot_reset (sample_flash 1)) =
      Some (Some (True, r), s')" "hw_memory (boot_world s') \<noteq> sample_flash 1"
  then show ?thesis
    using serial_boot_no_downgrade[OF nvmc_model sample_link(1,3) boot_reset_ok(1), of 2 "sample_flash 1"]
      sample_lengths_ok(1) sample_in_flash(2)[of 1 "\<lambda>_. 0xFF"]
    by (auto simp: boot_reset_ok sample_flash_def)
qed

text \<open>C15: what an encrypted update announces is what ends up in flash, under the conditions of the last two
  properties, the file behind the link being the same when the image is checked and when it is installed: if
  \<open>fd_boot_update\<close> returns true after installing an encrypted update, SHA-1 of the new image in flash, with its
  hash field cleared, is the executable hash of the update's metadata, although the image was decrypted twice,
  once to check it through the wrapping reader in blocks of 64 bytes and once to install it in blocks of 16.\<close>

theorem serial_boot_installs_announced_image:
  assumes "nvmc store" "link_to us file link" "storage_fits us" "boot_hw_ok (boot_world s)"
    and "no_wrapped_length file us (hw_memory (boot_world s))"
  defines "md \<equiv> update_metadata_at file us"
  shows "\<exists>ok r s'. fd_boot_update (serial_peripheral_interface store link) s = Some (Some (ok, r), s') \<and>
    (ok \<and> hw_memory (boot_world s') \<noteq> hw_memory (boot_world s) \<and> encrypted md \<longrightarrow>
       sha1 (image_cleared (mem_bytes (hw_memory (boot_world s')) 0x80000 (unat (em_length (um_executable_metadata md))))) =
         em_hash (um_executable_metadata md))"
  unfolding md_def
  by (rule serial_update_outcome[OF assms(1-5)])
    (auto simp: update_outcome_def boot_decision_def boot_choice_def intro!: installed_announced[OF _ _ assms(3)]
      split: if_splits option.splits fd_boot_update_action_t.splits)

theorem serial_boot_installs_announced_image_witness:
  "\<exists>r s'. fd_boot_update (serial_peripheral_interface nvmc_model (sample_link 2)) (boot_reset (sample_flash 1)) =
      Some (Some (True, r), s') \<and> hw_memory (boot_world s') \<noteq> sample_flash 1 \<and>
    encrypted (update_metadata_at (sample_update 2) sample_storage) \<and>
    sha1 (image_cleared (mem_bytes (hw_memory (boot_world s')) 0x80000 448)) = sample_hash 2"
proof (rule sample_outcome)
  fix r s'
  assume "fd_boot_update (serial_peripheral_interface nvmc_model (sample_link 2)) (boot_reset (sample_flash 1)) =
      Some (Some (True, r), s')" "hw_memory (boot_world s') \<noteq> sample_flash 1"
  then show ?thesis
    using serial_boot_installs_announced_image[OF nvmc_model sample_link(1,3) boot_reset_ok(1), of 2 "sample_flash 1"]
      sample_lengths_ok(1)
    by (auto simp: boot_reset_ok sample_update_metadata_at encrypted_def fd_boot_update_metadata_flag_encrypted_def)
qed

text \<open>C16: after reset the boot loader of the split pair starts the executable in flash exactly when it is valid. With a
  flash controller and a link as in the previous properties, and nothing started yet: if the header of the
  executable gives the length 0xFFF80000, the check reads outside of the flash; otherwise the start-up code ends, if
  anything was started the executable passes the check and was started at its location with the stack
  pointer and program counter of its vector table, and a valid executable is started if the link works.\<close>

theorem serial_peripheral_main_starts_valid:
  assumes "nvmc store" "link_to us file link" "storage_fits us" "boot_hw_ok (boot_world s)"
    and "hw_started (boot_world s) = None"
  defines "m \<equiv> hw_memory (boot_world s)"
  shows "if serial_executable_wrapped m
    then serial_peripheral_main (serial_peripheral_interface store link) s = None
    else \<exists>x s'. serial_peripheral_main (serial_peripheral_interface store link) s = Some (Some x, s') \<and>
      (hw_started (boot_world s') = None \<or>
       hw_started (boot_world s') = Some (0x80000, load32 m 0x80000, load32 m 0x80004) \<and> serial_executable_valid m) \<and>
      (link_reliable link \<and> serial_executable_valid m \<longrightarrow> hw_started (boot_world s') \<noteq> None)"
proof (cases "serial_executable_wrapped m")
  case True
  then show ?thesis
    using serial_wrapped_faults[of s store link] by (simp add: m_def serial_peripheral_main_def bnd_def)
next
  case unwrapped: False
  let ?i = "serial_peripheral_interface store link"
  obtain ok r s1 where 1: "fd_boot_get_executable_metadata ?i s = Some (Some (ok, r), s1)"
    "hw_memory (boot_world s1) = m \<and> hw_started (boot_world s1) = None" "ok \<longrightarrow> (ex_is_valid r \<longleftrightarrow> serial_executable_valid m)"
    "link_reliable link \<and> executable_aligned m serial_info \<longrightarrow> ok"
    unfolding m_def
    by (rule serial_executable_outcome[OF assms(1-4) unwrapped[unfolded m_def]]) (use assms(5) in auto)
  have aligned: "serial_executable_valid m \<Longrightarrow> executable_aligned m serial_info"
    by (simp add: serial_executable_valid_def executable_aligned_def Let_def)
  show ?thesis
  proof (cases "ok \<and> ex_is_valid r")
    case True
    obtain s2 where 2: "fd_boot_execute ?i s1 = Some (None, s2)"
      "hw_started (boot_world s2) = Some (0x80000, load32 m 0x80000, load32 m 0x80004)"
      using serial_execute[of store link s1] 1(2) by auto
    have "serial_peripheral_main ?i s = Some (Some (Some 3), s2)"
      using 1(1) 2(1) True by (simp add: serial_peripheral_main_def bnd_def)
    then show ?thesis using 1(3) 2(2) True unwrapped by simp
  next
    case False
    then have "\<exists>x. serial_peripheral_main ?i s = Some (Some x, s1)"
      using 1(1) by (auto simp: serial_peripheral_main_def bnd_def ret_def)
    then show ?thesis using 1(2-4) False unwrapped aligned by auto
  qed
qed

theorem serial_peripheral_main_starts_valid_witness:
  "\<exists>x s'. serial_peripheral_main (serial_peripheral_interface nvmc_model (sample_link 2)) (boot_reset (sample_flash 1)) =
      Some (Some x, s') \<and>
    hw_started (boot_world s') = Some (0x80000, load32 (sample_flash 1) 0x80000, load32 (sample_flash 1) 0x80004)"
  using serial_peripheral_main_starts_valid[OF nvmc_model sample_link(1,3) boot_reset_ok(1,3), of "sample_flash 1" 2]
    sample_link(2) sample_in_flash(2)[of 1 "\<lambda>_. 0xFF"] sample_not_wrapped(1)[of 1 "\<lambda>_. 0xFF"]
  by (auto simp: boot_reset_ok sample_flash_def)

text \<open>the start-up code of the boot loader with the USB drive starts an executable that is not valid:
  \<open>fd_boot_try_execute\<close> tests what \<open>fd_boot_get_executable_metadata\<close> returns and not the verdict in its
  result. With flash that does not even hold the magic number, the executable is started.\<close>

theorem fd_boot_try_execute_starts_invalid:
  assumes "load32 (hw_memory (boot_world s)) 0x80180 \<noteq> fd_boot_executable_metadata_header_magic"
  shows "\<not> serial_executable_valid (hw_memory (boot_world s)) \<and>
    (\<exists>s'. fd_boot_try_update (serial_peripheral_interface store link) False s = Some (Some (), s') \<and>
      hw_started (boot_world s') =
        Some (0x80000, load32 (hw_memory (boot_world s)) 0x80000, load32 (hw_memory (boot_world s)) 0x80004))"
proof -
  have invalid: "\<not> serial_executable_valid (hw_memory (boot_world s))"
    using assms by (simp add: serial_executable_valid_def Let_def)
  let ?i = "serial_peripheral_interface store link"
  have "fd_boot_get_executable_metadata ?i s =
      Some (Some (True, zero_executable_result\<lparr>ex_issue := executable_issue_header_magic\<rparr>), s)"
    using assms
    by (simp add: fd_boot_get_executable_metadata_def with_result_def bnd_def ret_def Let_def checked_def
        fd_boot_executable_reader_read_def flash_bytes_def in_flash_def flash_size_def header_words serial_storage_def
        serial_info_def fd_boot_is_valid_subrange_def)
  then show ?thesis
    using invalid serial_execute[of store link s] by (auto simp: fd_boot_try_update_def fd_boot_try_execute_def bnd_def)
qed

theorem fd_boot_try_execute_starts_invalid_witness:
  "\<exists>s'. fd_boot_try_update (serial_peripheral_interface nvmc_model (controller_link (\<lambda>_. 0))) False (boot_reset (\<lambda>_. 0xFF)) =
      Some (Some (), s') \<and> hw_started (boot_world s') = Some (0x80000, load32 (\<lambda>_. 0xFF) 0x80000, load32 (\<lambda>_. 0xFF) 0x80004)"
  using fd_boot_try_execute_starts_invalid[of "boot_reset (\<lambda>_. 0xFF)"]
  by (simp add: boot_reset_ok load32_def boot_u32_def mem_bytes_def fd_boot_executable_metadata_header_magic_def upt_rec)

end
