(* ===== verification/FD_Calendar.thy ===== *)
theory FD_Calendar imports FD_Prelude begin

text \<open>
  \<open>subsys/base/src/fd_calendar.c\<close>: calendar dates from seconds since 1970 and back, and the twelve hour
  clock.

  \<open>int\<close> and \<open>int32_t\<close> values are integers; the conversions of 64 bit values to \<open>int32_t\<close> are explicit
  (\<open>int32\<close>). For times from 1970 to \<open>86400 * (2 ^ 31 - 4)\<close> seconds after it (and the dates in that range) no
  intermediate value leaves 32 bits. C's division and remainder round towards zero (\<open>c_div\<close>, \<open>c_mod\<close>), which
  matters for dates before 1970.

  The reference is the Gregorian calendar as a successor function on dates (\<open>next_date\<close>); the code's closed
  formulas and loops are related to it through day numbers.
\<close>

section \<open>The code\<close>

definition c_div :: "int \<Rightarrow> int \<Rightarrow> int" where
  "c_div a b = sgn a * sgn b * (\<bar>a\<bar> div \<bar>b\<bar>)"

definition c_mod :: "int \<Rightarrow> int \<Rightarrow> int" where
  "c_mod a b = a - b * c_div a b"

definition leap :: "int \<Rightarrow> bool" where
  "leap y \<longleftrightarrow> (c_mod y 4 = 0 \<and> c_mod y 100 \<noteq> 0) \<or> c_mod y 400 = 0"

definition nleap :: "int \<Rightarrow> int" where
  "nleap y = c_div (y - 1969) 4 - c_div (y - 1901) 100 + c_div (y - 1601) 400"

definition ydays :: "int \<Rightarrow> int" where
  "ydays m =
     (if m = 0 then 0 else if m = 1 then 31 else if m = 2 then 59 else if m = 3 then 90
      else if m = 4 then 120 else if m = 5 then 151 else if m = 6 then 181 else if m = 7 then 212
      else if m = 8 then 243 else if m = 9 then 273 else if m = 10 then 304 else if m = 11 then 334
      else if m = 12 then 365 else 0)"

record fd_calendar_t =
  cal_year :: int
  cal_wday :: int
  cal_month :: int
  cal_mday :: int
  cal_hour :: int
  cal_min :: int
  cal_sec :: int

definition fd_calendar_to_time :: "fd_calendar_t \<Rightarrow> int" where
  "fd_calendar_to_time calendar =
     (let years = cal_year calendar + 1900;
          days = cal_mday calendar - 1;
          days = days + ydays (cal_month calendar);
          days = (if cal_month calendar > 1 \<and> leap years then days + 1 else days);
          days = days + 365 * (years - 1970) + nleap years;
          time = 86400 * days;
          time = time + 3600 * cal_hour calendar;
          time = time + 60 * cal_min calendar
      in time + cal_sec calendar)"

definition yearsize :: "int \<Rightarrow> int" where
  "yearsize year = (if leap year then 366 else 365)"

definition ymdays_table :: "int list" where
  "ymdays_table = [31, 28, 31, 30, 31, 30, 31, 31, 30, 31, 30, 31,
                   31, 29, 31, 30, 31, 30, 31, 31, 30, 31, 30, 31]"

definition ymdays :: "int \<Rightarrow> int" where
  "ymdays ym = (if 0 \<le> ym \<and> ym < 24 then ymdays_table ! nat ym else 31)"

lemma yearsize_pos: "0 < yearsize year" "365 \<le> yearsize year"
  by (simp_all add: yearsize_def)

lemma ymdays_pos: "28 \<le> ymdays ym"
proof (cases "0 \<le> ym \<and> ym < 24")
  case True
  then have "nat ym < length ymdays_table" by (simp add: ymdays_table_def nat_less_iff)
  then have "ymdays_table ! nat ym \<in> set ymdays_table" by (rule nth_mem)
  moreover have "\<forall>k \<in> set ymdays_table. 28 \<le> k" by (simp add: ymdays_table_def)
  ultimately show ?thesis using True by (simp add: ymdays_def)
qed (auto simp: ymdays_def)

function year_loop :: "int \<Rightarrow> int \<Rightarrow> int \<times> int" where
  "year_loop dayno year =
     (let ys = yearsize year in if dayno \<ge> ys then year_loop (dayno - ys) (year + 1) else (dayno, year))"
  by pat_completeness auto
termination
proof (relation "measure (\<lambda>(dayno, year). nat dayno)", goal_cases)
  case (2 dayno year)
  then show ?case using yearsize_pos[of year] by simp
qed simp

function month_loop :: "int \<Rightarrow> int \<Rightarrow> int \<Rightarrow> int \<times> int" where
  "month_loop offset dayno month =
     (if dayno \<ge> ymdays (offset + month)
      then month_loop offset (dayno - ymdays (offset + month)) (month + 1) else (dayno, month))"
  by pat_completeness auto
termination
proof (relation "measure (\<lambda>(offset, dayno, month). nat dayno)", goal_cases)
  case (2 offset dayno month)
  then show ?case using ymdays_pos[of "offset + month"] by simp
qed simp

declare year_loop.simps [simp del] month_loop.simps [simp del]

definition fd_calendar_from_time :: "int \<Rightarrow> fd_calendar_t" where
  "fd_calendar_from_time time =
     (let dayclock = int32 (c_mod time 86400);
          sec = c_mod dayclock 60;
          min = c_div (c_mod dayclock 3600) 60;
          hour = c_div dayclock 3600;
          dayno = int32 (c_div time 86400);
          wday = c_mod (dayno + 4) 7;
          (dayno, year) = year_loop dayno 1970;
          offset = (if leap year then 12 else 0);
          (dayno, month) = month_loop offset dayno 0
      in \<lparr>cal_year = year - 1900, cal_wday = wday, cal_month = month, cal_mday = dayno + 1,
          cal_hour = hour, cal_min = min, cal_sec = sec\<rparr>)"

record fd_calendar_12_hour_t =
  meridiem :: char
  hour_12 :: int

definition fd_calendar_get_12_hour :: "fd_calendar_t \<Rightarrow> fd_calendar_12_hour_t" where
  "fd_calendar_get_12_hour date_time =
     (if cal_hour date_time = 0 then \<lparr>meridiem = CHR ''a'', hour_12 = 12\<rparr>
      else if cal_hour date_time < 12 then \<lparr>meridiem = CHR ''a'', hour_12 = cal_hour date_time\<rparr>
      else if cal_hour date_time = 12 then \<lparr>meridiem = CHR ''p'', hour_12 = 12\<rparr>
      else if cal_hour date_time < 24 then \<lparr>meridiem = CHR ''p'', hour_12 = cal_hour date_time - 12\<rparr>
      else \<lparr>meridiem = CHR ''a'', hour_12 = 0\<rparr>)"

section \<open>The Gregorian calendar\<close>

text \<open>The reference: a date is valid in the Gregorian calendar, and the day after it is the next date.\<close>

definition gregorian_leap :: "int \<Rightarrow> bool" where
  "gregorian_leap y \<longleftrightarrow> 4 dvd y \<and> (\<not> 100 dvd y \<or> 400 dvd y)"

definition month_days :: "int \<Rightarrow> int \<Rightarrow> int" where
  "month_days y m = (if m \<in> {3, 5, 8, 10} then 30 else if m = 1 then (if gregorian_leap y then 29 else 28) else 31)"

fun next_date :: "int \<times> int \<times> int \<Rightarrow> int \<times> int \<times> int" where
  "next_date (y, m, d) =
     (if d < month_days y m then (y, m, d + 1) else if m < 11 then (y, m + 1, 1) else (y + 1, 0, 1))"

text \<open>The date \<open>n\<close> days after 1 January 1970.\<close>

definition date_after :: "nat \<Rightarrow> int \<times> int \<times> int" where
  "date_after n = (next_date ^^ n) (1970, 0, 1)"

lemma c_div_nonneg: "0 \<le> a \<Longrightarrow> 0 < b \<Longrightarrow> c_div a b = a div b"
  by (cases "a = 0") (simp_all add: c_div_def)

lemma c_mod_nonneg: "0 \<le> a \<Longrightarrow> 0 < b \<Longrightarrow> c_mod a b = a mod b"
  by (simp add: c_mod_def c_div_nonneg minus_mult_div_eq_mod)

lemma leap_gregorian: "0 \<le> y \<Longrightarrow> leap y \<longleftrightarrow> gregorian_leap y"
proof -
  assume "0 \<le> y"
  then have "leap y \<longleftrightarrow> 4 dvd y \<and> \<not> 100 dvd y \<or> 400 dvd y"
    by (simp add: leap_def c_mod_nonneg dvd_eq_mod_eq_0)
  moreover have "4 dvd y" if "400 dvd y" using that by (rule dvd_trans[rotated]) simp
  ultimately show ?thesis by (auto simp: gregorian_leap_def)
qed

lemma month_cases:
  assumes "0 \<le> (m :: int)" "m < 12"
  obtains "m = 0" | "m = 1" | "m = 2" | "m = 3" | "m = 4" | "m = 5" | "m = 6" | "m = 7" | "m = 8" | "m = 9"
    | "m = 10" | "m = 11"
proof -
  have "m \<in> set [0..11]" using assms by simp
  then show ?thesis using that by (auto simp: upto.simps)
qed

lemma ymdays_month:
  assumes "0 \<le> y" "0 \<le> m" "m < 12"
  shows "ymdays ((if leap y then 12 else 0) + m) = month_days y m"
  using assms(2,3)
  by (cases rule: month_cases) (simp_all add: ymdays_def ymdays_table_def month_days_def leap_gregorian[OF assms(1)])

section \<open>Day numbers\<close>

definition year_start :: "int \<Rightarrow> int" where
  "year_start y = 365 * (y - 1970) + nleap y"

definition month_start :: "int \<Rightarrow> int \<Rightarrow> int" where
  "month_start y m = ydays m + (if m > 1 \<and> leap y then 1 else 0)"

definition valid_date :: "int \<times> int \<times> int \<Rightarrow> bool" where
  "valid_date = (\<lambda>(y, m, d). 1970 \<le> y \<and> 0 \<le> m \<and> m < 12 \<and> 1 \<le> d \<and> d \<le> month_days y m)"

definition day_number :: "int \<times> int \<times> int \<Rightarrow> int" where
  "day_number = (\<lambda>(y, m, d). year_start y + month_start y m + d - 1)"

lemma div_step:
  fixes y k :: int
  assumes "0 < k"
  shows "(y + 1) div k = y div k + (if k dvd y + 1 then 1 else 0)"
proof -
  have e: "y + 1 = k * ((y + 1) div k) + (y + 1) mod k" "0 \<le> (y + 1) mod k" "(y + 1) mod k < k"
    using assms by simp_all
  show ?thesis
  proof (cases "k dvd y + 1")
    case True
    then have "y = k * ((y + 1) div k - 1) + (k - 1)" using e(1) by (simp add: algebra_simps dvd_eq_mod_eq_0)
    then have "y div k = (y + 1) div k - 1" by (rule int_div_pos_eq) (use assms in simp_all)
    then show ?thesis using True by simp
  next
    case False
    then have "(y + 1) mod k \<noteq> 0" by (simp add: dvd_eq_mod_eq_0)
    then have "y div k = (y + 1) div k" by (intro int_div_pos_eq[of y k _ "(y + 1) mod k - 1"]) (use e in linarith)+
    then show ?thesis using False by simp
  qed
qed

lemma nleap_step:
  assumes "1970 \<le> y"
  shows "nleap (y + 1) =
    nleap y + (if 4 dvd y then 1 else 0) - (if 100 dvd y then 1 else 0) + (if 400 dvd y then 1 else 0)"
proof -
  have d: "k dvd y - k * c \<longleftrightarrow> k dvd y" for k c :: int by (simp add: dvd_diff_left_iff)
  have d': "4 dvd y - 1968 \<longleftrightarrow> 4 dvd y" "100 dvd y - 1900 \<longleftrightarrow> 100 dvd y" "400 dvd y - 1600 \<longleftrightarrow> 400 dvd y"
    using d[of 4 492] d[of 100 19] d[of 400 4] by simp_all
  have e: "y - 1969 + 1 = y - 1968" "y - 1901 + 1 = y - 1900" "y - 1601 + 1 = y - 1600"
    "y + 1 - 1969 = y - 1968" "y + 1 - 1901 = y - 1900" "y + 1 - 1601 = y - 1600" by linarith+
  have n: "nleap y = (y - 1969) div 4 - (y - 1901) div 100 + (y - 1601) div 400"
    using assms by (simp add: nleap_def c_div_nonneg)
  have n': "nleap (y + 1) = (y - 1968) div 4 - (y - 1900) div 100 + (y - 1600) div 400"
    unfolding nleap_def e using assms by (simp only: c_div_nonneg)
  show ?thesis
    using div_step[of 4 "y - 1969"] div_step[of 100 "y - 1901"] div_step[of 400 "y - 1601"]
    unfolding n n' e d' by (simp only: zero_less_numeral)
qed

lemma year_start_step: "1970 \<le> y \<Longrightarrow> year_start (y + 1) = year_start y + yearsize y"
proof -
  assume y: "1970 \<le> y"
  have a: "100 dvd y" if "400 dvd y" by (rule dvd_trans[OF _ that]) simp
  have b: "4 dvd y" if "100 dvd y" by (rule dvd_trans[OF _ that]) simp
  have l: "leap y \<longleftrightarrow> 4 dvd y \<and> (\<not> 100 dvd y \<or> 400 dvd y)"
    using leap_gregorian[of y] y by (simp add: gregorian_leap_def)
  have "yearsize y = 365 + (if 4 dvd y then 1 else 0) - (if 100 dvd y then 1 else 0) + (if 400 dvd y then 1 else 0)"
    unfolding yearsize_def l using a b by (cases "4 dvd y"; cases "100 dvd y"; cases "400 dvd y") simp_all
  then show ?thesis
    unfolding year_start_def using nleap_step[OF y] by (simp add: algebra_simps)
qed

lemma year_start_1970: "year_start 1970 = 0"
  by (simp add: year_start_def nleap_def c_div_def)

lemma month_start_step: "0 \<le> y \<Longrightarrow> 0 \<le> m \<Longrightarrow> m < 12 \<Longrightarrow> month_start y (m + 1) = month_start y m + month_days y m"
proof -
  assume "0 \<le> y" and m: "0 \<le> m" "m < 12"
  from m show ?thesis
    by (cases rule: month_cases)
      (simp_all add: month_start_def ydays_def month_days_def leap_gregorian[OF \<open>0 \<le> y\<close>])
qed

lemma month_start_ends: "month_start y 0 = 0" "0 \<le> y \<Longrightarrow> month_start y 12 = yearsize y"
  by (simp_all add: month_start_def ydays_def yearsize_def)

lemma next_date_number: "valid_date x \<Longrightarrow> valid_date (next_date x) \<and> day_number (next_date x) = day_number x + 1"
proof (cases x)
  case (fields y m d)
  assume "valid_date x"
  then have v: "1970 \<le> y" "0 \<le> m" "m < 12" "1 \<le> d" "d \<le> month_days y m" by (simp_all add: valid_date_def fields)
  have pos: "28 \<le> month_days y m" for y m by (simp add: month_days_def)
  show ?thesis
  proof (cases "d < month_days y m")
    case True
    then show ?thesis using v by (simp add: fields valid_date_def day_number_def)
  next
    case d: False
    show ?thesis
    proof (cases "m < 11")
      case True
      then show ?thesis
        using v d pos[of y "m + 1"] month_start_step[of y m] by (simp add: fields valid_date_def day_number_def)
    next
      case False
      then have "m = 11" using v by simp
      then show ?thesis
        using v d pos[of "y + 1" 0] month_start_step[of y 11] month_start_ends year_start_step[of y]
        by (simp add: fields valid_date_def day_number_def)
    qed
  qed
qed

lemma date_after_number: "valid_date (date_after n) \<and> day_number (date_after n) = int n"
proof (induction n)
  case 0
  show ?case by (simp add: date_after_def valid_date_def day_number_def year_start_1970 month_start_ends month_days_def)
next
  case (Suc n)
  then show ?case using next_date_number[of "date_after n"] by (simp add: date_after_def)
qed

lemma starts_mono:
  fixes f :: "int \<Rightarrow> int"
  assumes step: "\<And>x. a \<le> x \<Longrightarrow> x < b \<Longrightarrow> f x < f (x + 1)" and le: "a \<le> x" "x < y" "y \<le> b"
  shows "f (x + 1) \<le> f y"
  using le(2,3)
proof (induction y rule: int_gr_induct)
  case (step y)
  then show ?case using assms(1)[of y] le(1) by fastforce
qed simp

lemma interval_unique:
  fixes f :: "int \<Rightarrow> int"
  assumes step: "\<And>x. a \<le> x \<Longrightarrow> x < b \<Longrightarrow> f x < f (x + 1)"
    and x: "a \<le> x" "x < b" "f x \<le> n" "n < f (x + 1)" and y: "a \<le> y" "y < b" "f y \<le> n" "n < f (y + 1)"
  shows "x = y"
  using starts_mono[of a b f x y, OF step] starts_mono[of a b f y x, OF step] x y
  by (cases x y rule: linorder_cases) auto

lemma month_start_bounds:
  assumes "valid_date (y, m, d)"
  shows "0 \<le> month_start y m" "month_start y m + d \<le> yearsize y"
proof -
  have v: "1970 \<le> y" "0 \<le> m" "m < 12" "d \<le> month_days y m" using assms by (simp_all add: valid_date_def)
  have step: "month_start y x < month_start y (x + 1)" if "0 \<le> x" "x < 12" for x
    using month_start_step[of y x] that v(1) by (simp add: month_days_def)
  show "0 \<le> month_start y m"
    using starts_mono[of 0 12 "month_start y" 0 m, OF step] step[of 0] v month_start_ends(1)[of y] by (cases "m = 0") auto
  have "month_start y (m + 1) \<le> month_start y 12"
    using starts_mono[of 0 12 "month_start y" m 12, OF step] v by simp
  then show "month_start y m + d \<le> yearsize y"
    using month_start_step[of y m] month_start_ends(2)[of y] v by simp
qed

lemma day_number_inj:
  assumes "valid_date x" "valid_date x'" "day_number x = day_number x'"
  shows "x = x'"
proof -
  obtain y m d where x: "x = (y, m, d)" by (cases x)
  obtain y' m' d' where x': "x' = (y', m', d')" by (cases x')
  have v: "1970 \<le> y" "0 \<le> m" "m < 12" "1 \<le> d" "d \<le> month_days y m"
    "1970 \<le> y'" "0 \<le> m'" "m' < 12" "1 \<le> d'" "d' \<le> month_days y' m'"
    using assms(1,2) by (simp_all add: x x' valid_date_def)
  have b: "0 \<le> month_start y m" "month_start y m + d \<le> yearsize y" "0 \<le> month_start y' m'" "month_start y' m' + d' \<le> yearsize y'"
    using month_start_bounds assms(1,2) by (simp_all add: x x')
  have "y = y'"
  proof (rule interval_unique[of 1970 "max y y' + 1" year_start y "day_number x" y'])
    show "year_start z < year_start (z + 1)" if "1970 \<le> z" for z
      using year_start_step[OF that] yearsize_pos(1)[of z] by simp
  qed (use v b assms(3) year_start_step[of y] year_start_step[of y'] in \<open>simp_all add: x x' day_number_def\<close>)
  then have "m = m'"
  proof (intro interval_unique[of 0 12 "month_start y" m "day_number x - year_start y" m'])
    show "month_start y z < month_start y (z + 1)" if "0 \<le> z" "z < 12" for z
      using month_start_step[of y z] that v(1) by (simp add: month_days_def)
  qed (use v b assms(3) month_start_step[of y m] month_start_step[of y' m'] in \<open>simp_all add: x x' day_number_def\<close>)
  then show ?thesis using \<open>y = y'\<close> assms(3) by (simp add: x x' day_number_def)
qed

section \<open>The loops\<close>

lemma year_loop_number:
  "0 \<le> n \<Longrightarrow> 1970 \<le> y \<Longrightarrow> year_loop n y = (n', y') \<Longrightarrow>
     1970 \<le> y' \<and> 0 \<le> n' \<and> n' < yearsize y' \<and> year_start y' + n' = year_start y + n"
proof (induction n y rule: year_loop.induct)
  case (1 n y)
  show ?case
  proof (cases "n \<ge> yearsize y")
    case True
    then show ?thesis
      using 1(1)[OF refl True] 1(2-) year_start_step[of y] by (subst (asm) year_loop.simps) (simp add: Let_def)
  next
    case False
    then show ?thesis using 1(2-) by (subst (asm) year_loop.simps) (simp add: Let_def)
  qed
qed

lemma month_loop_number:
  "0 \<le> n \<Longrightarrow> 1970 \<le> y \<Longrightarrow> 0 \<le> m \<Longrightarrow> m < 12 \<Longrightarrow> n < yearsize y - month_start y m \<Longrightarrow>
   month_loop (if leap y then 12 else 0) n m = (n', m') \<Longrightarrow>
     valid_date (y, m', n' + 1) \<and> month_start y m' + n' = month_start y m + n"
proof (induction "if leap y then 12 else 0 :: int" n m rule: month_loop.induct)
  case (1 n m)
  have days: "ymdays ((if leap y then 12 else 0) + m) = month_days y m" using ymdays_month[of y m] 1(3-5) by simp
  have step: "month_start y (m + 1) = month_start y m + month_days y m" using month_start_step[of y m] 1(3-5) by simp
  show ?case
  proof (cases "n \<ge> month_days y m")
    case True
    have "m \<noteq> 11"
      using True 1(3,6) step month_start_ends(2)[of y] by auto
    then show ?thesis
      using 1(1) 1(2-) True days step by (subst (asm) (2) month_loop.simps) simp
  next
    case False
    then show ?thesis
      using 1(2-) days by (subst (asm) month_loop.simps) (simp add: valid_date_def)
  qed
qed
section \<open>Properties\<close>

lemma div_bound: "0 \<le> a \<Longrightarrow> a < n * k \<Longrightarrow> 0 < k \<Longrightarrow> 0 \<le> a div k \<and> a div k < n" for a k n :: int
proof -
  assume a: "0 \<le> a" "a < n * k" "0 < k"
  have "\<not> n \<le> a div k"
  proof
    assume "n \<le> a div k"
    then have "n * k \<le> (a div k) * k" using a(3) by (intro mult_right_mono) simp_all
    then show False using a div_mod_decomp_int[of a k] pos_mod_sign[of k a] by linarith
  qed
  then show ?thesis using a by (simp add: pos_imp_zdiv_nonneg_iff)
qed


lemma from_time_date:
  assumes t: "0 \<le> t" "t < 86400 * (2 ^ 31 - 4)"
  defines "c \<equiv> fd_calendar_from_time t"
  shows "valid_date (cal_year c + 1900, cal_month c, cal_mday c)"
    and "day_number (cal_year c + 1900, cal_month c, cal_mday c) = t div 86400"
    and "cal_wday c = (t div 86400 + 4) mod 7" "cal_hour c = t mod 86400 div 3600"
    and "cal_min c = t mod 3600 div 60" "cal_sec c = t mod 60"
proof -
  have days: "0 \<le> t div 86400" "t div 86400 < 2 ^ 31 - 4" using t by (simp_all add: div_less_iff_less_mult)
  have clock: "0 \<le> t mod 86400" "t mod 86400 < 86400" by simp_all
  have i: "int32 (c_mod t 86400) = t mod 86400" "int32 (c_div t 86400) = t div 86400"
    using t days clock by (simp_all add: c_mod_nonneg c_div_nonneg int32_in)
  obtain n y where y: "year_loop (t div 86400) 1970 = (n, y)" by fastforce
  have yl: "1970 \<le> y" "0 \<le> n" "n < yearsize y" "year_start y + n = t div 86400"
    using year_loop_number[OF days(1) _ y] year_start_1970 by simp_all
  obtain n' m where m: "month_loop (if leap y then 12 else 0) n 0 = (n', m)" by fastforce
  have ml: "valid_date (y, m, n' + 1)" "month_start y m + n' = n"
    using month_loop_number[of n y 0 n' m] yl m month_start_ends(1)[of y] by simp_all
  define D K where "D = t div 86400" and "K = t mod 86400"
  have K: "K mod 3600 = t mod 3600" "K mod 60 = t mod 60" by (simp_all add: mod_mod_cancel K_def)
  have "c = \<lparr>cal_year = y - 1900, cal_wday = (D + 4) mod 7, cal_month = m, cal_mday = n' + 1,
      cal_hour = K div 3600, cal_min = K mod 3600 div 60, cal_sec = K mod 60\<rparr>"
    using days(1) clock(1) y m unfolding D_def[symmetric] K_def[symmetric]
    by (simp add: c_def fd_calendar_from_time_def i[folded D_def K_def] Let_def c_mod_nonneg c_div_nonneg)
  then have c: "c = \<lparr>cal_year = y - 1900, cal_wday = (t div 86400 + 4) mod 7, cal_month = m, cal_mday = n' + 1,
      cal_hour = t mod 86400 div 3600, cal_min = t mod 3600 div 60, cal_sec = t mod 60\<rparr>"
    unfolding D_def K unfolding K_def .
  show "valid_date (cal_year c + 1900, cal_month c, cal_mday c)" using ml(1) by (simp add: c)
  show "day_number (cal_year c + 1900, cal_month c, cal_mday c) = t div 86400"
    using ml(2) yl(4) by (simp add: c day_number_def)
  show "cal_wday c = (t div 86400 + 4) mod 7" "cal_hour c = t mod 86400 div 3600"
    "cal_min c = t mod 3600 div 60" "cal_sec c = t mod 60" by (simp_all add: c)
qed

lemma to_time_day_number:
  "fd_calendar_to_time c = 86400 * day_number (cal_year c + 1900, cal_month c, cal_mday c) +
     3600 * cal_hour c + 60 * cal_min c + cal_sec c"
  by (simp add: fd_calendar_to_time_def Let_def day_number_def year_start_def month_start_def algebra_simps)

text \<open>C17: From any time since 1970, \<open>fd_calendar_from_time\<close> computes the Gregorian date that many whole days
  after Thursday 1 January 1970 (counted with the day-after function of the calendar), its day of the week, and
  the hour, minute and second of the day.\<close>
theorem fd_calendar_from_time_gregorian:
  assumes "0 \<le> t" "t < 86400 * (2 ^ 31 - 4)"
  shows "let c = fd_calendar_from_time t in
    (cal_year c + 1900, cal_month c, cal_mday c) = date_after (nat (t div 86400)) \<and>
    cal_wday c = (t div 86400 + 4) mod 7 \<and>
    cal_hour c = t mod 86400 div 3600 \<and> cal_min c = t mod 3600 div 60 \<and> cal_sec c = t mod 60"
proof -
  have "0 \<le> t div 86400" using assms(1) by (simp add: pos_imp_zdiv_nonneg_iff)
  then have n: "int (nat (t div 86400)) = t div 86400" by (rule nat_0_le)
  show ?thesis
    unfolding Let_def
  proof (intro conjI)
    show "(cal_year (fd_calendar_from_time t) + 1900, cal_month (fd_calendar_from_time t),
        cal_mday (fd_calendar_from_time t)) = date_after (nat (t div 86400))"
      using from_time_date(1,2)[OF assms] date_after_number[of "nat (t div 86400)", unfolded n]
      by (intro day_number_inj) simp_all
  qed (rule from_time_date(3-6)[OF assms])+
qed

theorem fd_calendar_from_time_gregorian_witness:
  "let c = fd_calendar_from_time 5101261 in
    (cal_year c + 1900, cal_month c, cal_mday c) = (1970, 2, 1) \<and> cal_wday c = 0 \<and>
    cal_hour c = 1 \<and> cal_min c = 1 \<and> cal_sec c = 1"
proof -
  have "date_after 59 = (1970, 2, 1)" by code_simp
  then show ?thesis using fd_calendar_from_time_gregorian[of 5101261] by (simp add: Let_def)
qed

lemma calendar_eqI:
  "cal_year a = cal_year b \<Longrightarrow> cal_wday a = cal_wday b \<Longrightarrow> cal_month a = cal_month b \<Longrightarrow> cal_mday a = cal_mday b \<Longrightarrow>
   cal_hour a = cal_hour b \<Longrightarrow> cal_min a = cal_min b \<Longrightarrow> cal_sec a = cal_sec b \<Longrightarrow> a = (b :: fd_calendar_t)"
  by simp

lemma roundtrip_laws:
  assumes "0 \<le> t" "t < 86400 * (2 ^ 31 - 4)"
  shows "fd_calendar_to_time (fd_calendar_from_time t) = t"
    and "fd_calendar_to_time c = t \<Longrightarrow> valid_date (cal_year c + 1900, cal_month c, cal_mday c) \<Longrightarrow>
      cal_hour c \<in> {0..<24} \<Longrightarrow> cal_min c \<in> {0..<60} \<Longrightarrow> cal_sec c \<in> {0..<60} \<Longrightarrow>
      cal_wday c = (t div 86400 + 4) mod 7 \<Longrightarrow> fd_calendar_from_time t = c"
proof -
  note d = from_time_date[OF assms]
  have split: "t = 86400 * (t div 86400) + 3600 * (t mod 86400 div 3600) + 60 * (t mod 3600 div 60) + t mod 60"
  proof -
    have "t mod 86400 mod 3600 = t mod 3600" "t mod 3600 mod 60 = t mod 60" by (simp_all add: mod_mod_cancel)
    then show ?thesis
      using mult_div_mod_eq[of 86400 t] mult_div_mod_eq[of 3600 "t mod 86400"] mult_div_mod_eq[of 60 "t mod 3600"]
      by linarith
  qed
  show "fd_calendar_to_time (fd_calendar_from_time t) = t"
    unfolding to_time_day_number d using split by linarith
  assume c: "fd_calendar_to_time c = t" "valid_date (cal_year c + 1900, cal_month c, cal_mday c)"
    "cal_hour c \<in> {0..<24}" "cal_min c \<in> {0..<60}" "cal_sec c \<in> {0..<60}" "cal_wday c = (t div 86400 + 4) mod 7"
  define n where "n = day_number (cal_year c + 1900, cal_month c, cal_mday c)"
  have t: "t = 86400 * n + (3600 * cal_hour c + (60 * cal_min c + cal_sec c))"
    using c(1) by (simp add: to_time_day_number n_def)
  have "t div 86400 = n" "t mod 86400 = 3600 * cal_hour c + (60 * cal_min c + cal_sec c)"
    using int_div_pos_eq[OF t] int_mod_pos_eq[OF t] c(3-5) by simp_all
  moreover have "(3600 * cal_hour c + (60 * cal_min c + cal_sec c)) div 3600 = cal_hour c"
    by (rule int_div_pos_eq[of _ 3600 _ "60 * cal_min c + cal_sec c"]) (use c(3-5) in auto)
  moreover have "t mod 3600 = 60 * cal_min c + cal_sec c"
    by (rule int_mod_pos_eq[of t 3600 "24 * n + cal_hour c"]) (use t c(3-5) in auto)
  moreover have "(60 * cal_min c + cal_sec c) div 60 = cal_min c"
    by (rule int_div_pos_eq[of _ 60 _ "cal_sec c"]) (use c(3-5) in auto)
  moreover have "t mod 60 = cal_sec c"
    by (rule int_mod_pos_eq[of t 60 "1440 * n + 60 * cal_hour c + cal_min c"]) (use t c(3-5) in auto)
  moreover have "(cal_year (fd_calendar_from_time t) + 1900, cal_month (fd_calendar_from_time t),
      cal_mday (fd_calendar_from_time t)) = (cal_year c + 1900, cal_month c, cal_mday c)"
    by (rule day_number_inj) (use d(1,2) c(2) \<open>t div 86400 = n\<close> n_def in simp_all)
  ultimately show "fd_calendar_from_time t = c"
    by (intro calendar_eqI) (simp_all only: d(3-6) c(6) prod.inject add_right_cancel)
qed

text \<open>Calendar and time are inverse to each other from 1970 on: \<open>fd_calendar_to_time\<close> undoes
  \<open>fd_calendar_from_time\<close>, and a calendar with a valid date, time of day and day of the week is what
  \<open>fd_calendar_from_time\<close> makes of its time.\<close>
theorem fd_calendar_roundtrip:
  assumes "0 \<le> t" "t < 86400 * (2 ^ 31 - 4)"
  shows "fd_calendar_to_time (fd_calendar_from_time t) = t \<and>
    (\<forall>c. fd_calendar_to_time c = t \<longrightarrow> valid_date (cal_year c + 1900, cal_month c, cal_mday c) \<longrightarrow>
      cal_hour c \<in> {0..<24} \<longrightarrow> cal_min c \<in> {0..<60} \<longrightarrow> cal_sec c \<in> {0..<60} \<longrightarrow>
      cal_wday c = (t div 86400 + 4) mod 7 \<longrightarrow> fd_calendar_from_time t = c)"
  using roundtrip_laws[OF assms] by blast

theorem fd_calendar_roundtrip_witness:
  "fd_calendar_to_time (fd_calendar_from_time 1000000000) = 1000000000 \<and>
   fd_calendar_from_time 1 = \<lparr>cal_year = 70, cal_wday = 4, cal_month = 0, cal_mday = 1, cal_hour = 0, cal_min = 0, cal_sec = 1\<rparr>"
proof
  show "fd_calendar_to_time (fd_calendar_from_time 1000000000) = 1000000000"
    using fd_calendar_roundtrip[of 1000000000] by simp
  show "fd_calendar_from_time 1 = \<lparr>cal_year = 70, cal_wday = 4, cal_month = 0, cal_mday = 1, cal_hour = 0, cal_min = 0, cal_sec = 1\<rparr>"
    by (rule fd_calendar_roundtrip[of 1, THEN conjunct2, rule_format])
      (simp_all add: fd_calendar_to_time_def ydays_def nleap_def c_div_def valid_date_def month_days_def)
qed

text \<open>C18: The fields of the calendar of a time since 1970 are in the ranges the header documents, with a day
  that its month has; the twelve hour clock of such a calendar shows 1 to 12, and its letter and hour give the
  hour back.\<close>
theorem fd_calendar_fields_bounds:
  assumes "0 \<le> t" "t < 86400 * (2 ^ 31 - 4)"
  shows "let c = fd_calendar_from_time t; h = fd_calendar_get_12_hour c in
    70 \<le> cal_year c \<and> cal_wday c \<in> {0..6} \<and> cal_month c \<in> {0..11} \<and>
    cal_mday c \<in> {1..month_days (cal_year c + 1900) (cal_month c)} \<and>
    cal_hour c \<in> {0..23} \<and> cal_min c \<in> {0..59} \<and> cal_sec c \<in> {0..59} \<and>
    hour_12 h \<in> {1..12} \<and> meridiem h \<in> {CHR ''a'', CHR ''p''} \<and>
    cal_hour c = hour_12 h mod 12 + (if meridiem h = CHR ''p'' then 12 else 0)"
proof -
  define c where "c = fd_calendar_from_time t"
  note d = from_time_date[OF assms, folded c_def]
  have h: "0 \<le> cal_hour c" "cal_hour c < 24"
    unfolding d(4) using div_bound[of "t mod 86400" 24 3600] by simp_all
  have m: "0 \<le> cal_min c" "cal_min c < 60" unfolding d(5) using div_bound[of "t mod 3600" 60 60] by simp_all
  have w: "0 \<le> cal_wday c" "cal_wday c < 7" "0 \<le> cal_sec c" "cal_sec c < 60" unfolding d(3,6) by simp_all
  have v: "1970 \<le> cal_year c + 1900" "0 \<le> cal_month c" "cal_month c < 12" "1 \<le> cal_mday c"
    "cal_mday c \<le> month_days (cal_year c + 1900) (cal_month c)" using d(1) by (simp_all add: valid_date_def)
  define k where "k = fd_calendar_get_12_hour c"
  have k: "hour_12 k \<in> {1..12}" "meridiem k \<in> {CHR ''a'', CHR ''p''}"
    "cal_hour c = hour_12 k mod 12 + (if meridiem k = CHR ''p'' then 12 else 0)"
    using h mod_pos_pos_trivial[of "cal_hour c - 12" 12]
    by (cases "cal_hour c = 0"; cases "cal_hour c < 12"; cases "cal_hour c = 12";
        simp add: fd_calendar_get_12_hour_def k_def)+
  show ?thesis
    unfolding Let_def c_def[symmetric] k_def[symmetric] atLeastAtMost_iff
    using h m w v k by (intro conjI) (assumption | simp only: atLeastAtMost_iff | linarith)+
qed

theorem fd_calendar_fields_bounds_witness:
  "hour_12 (fd_calendar_get_12_hour (fd_calendar_from_time 1000000000)) \<in> {1..12}"
  using fd_calendar_fields_bounds[of 1000000000] by (simp add: Let_def)

text \<open>Before 1969 the day count is wrong: \<open>nleap\<close> divides with C's rounding towards zero, so the leap day of
  1968 is not subtracted, and the last day of 1968 and the first of 1969 get the same time. And the calendar
  of a time before 1970 has fields outside their documented ranges.\<close>
theorem fd_calendar_before_1970:
  "fd_calendar_to_time \<lparr>cal_year = 68, cal_wday = 2, cal_month = 11, cal_mday = 31, cal_hour = 0, cal_min = 0, cal_sec = 0\<rparr> =
   fd_calendar_to_time \<lparr>cal_year = 69, cal_wday = 3, cal_month = 0, cal_mday = 1, cal_hour = 0, cal_min = 0, cal_sec = 0\<rparr>"
  "cal_sec (fd_calendar_from_time (- 1)) = - 1"
  "cal_mday (fd_calendar_from_time (- 86400)) = 0"
  by (simp_all add: fd_calendar_to_time_def fd_calendar_from_time_def ydays_def nleap_def c_div_def c_mod_def leap_def
      int32_in year_loop.simps yearsize_def month_loop.simps ymdays_def ymdays_table_def Let_def split: prod.splits)

end
