(* ===== verification/FD_Bit.thy ===== *)
theory FD_Bit imports FD_Prelude begin

text \<open>
  \<open>subsys/base/src/fd_bit.c\<close>: fields of a few bits packed into bytes, least significant bit first, and read
  back.

  The counters are naturals: a buffer has less than \<open>2 ^ 29\<close> bytes, so its bits are counted without wrapping.
  \<open>byte\<close> of the encoder, the mask and the values keep their 32 bits, and a shift by 32 or more (undefined in C)
  is \<open>None\<close>, as is an access outside the buffer.
\<close>

section \<open>The code\<close>

record fd_bit_decoder_t =
  dec_data :: "u8 list"
  dec_size :: nat
  dec_bit_count :: nat
  dec_bit_index :: nat

definition fd_bit_decoder_initialize :: "u8 list \<Rightarrow> nat \<Rightarrow> nat \<Rightarrow> fd_bit_decoder_t" where
  "fd_bit_decoder_initialize data size' bit_count =
     \<lparr>dec_data = data, dec_size = size', dec_bit_count = bit_count, dec_bit_index = 0\<rparr>"

function decoder_loop ::
  "fd_bit_decoder_t \<Rightarrow> nat \<Rightarrow> nat \<Rightarrow> u32 \<Rightarrow> u32 \<Rightarrow> assert_log \<Rightarrow> (u32 \<times> fd_bit_decoder_t \<times> assert_log) option"
where
  "decoder_loop d bit_count extracted_bit_count bit_mask value log =
     (if extracted_bit_count < bit_count then
        do { let index = dec_bit_index d div 8;
             let log = fd_assert (index < dec_size d) ''index < input->size'' log;
             byte \<leftarrow> rd (dec_data d) index;
             let byte_bit_index = dec_bit_index d mod 8;
             let byte_bit_count = 8 - byte_bit_index;
             let remaining_bit_count = bit_count - extracted_bit_count;
             let byte_bit_count = (if byte_bit_count > remaining_bit_count then remaining_bit_count else byte_bit_count);
             let value = value OR push_bit extracted_bit_count (bit_mask AND drop_bit byte_bit_index (ucast byte));
             decoder_loop (d\<lparr>dec_bit_index := dec_bit_index d + byte_bit_count\<rparr>) bit_count
               (extracted_bit_count + byte_bit_count) (drop_bit byte_bit_count bit_mask) value log }
      else Some (value, d, log))"
  by pat_completeness auto
termination
proof (relation "measure (\<lambda>(d, n, k, _). n - k)", goal_cases)
  case (2 d n k m v log i log' byte bi bc rest bc')
  then have "0 < bc'" by auto
  then show ?case using 2(1) by simp
qed simp

declare decoder_loop.simps [simp del]

definition fd_bit_decoder_read ::
  "fd_bit_decoder_t \<Rightarrow> nat \<Rightarrow> assert_log \<Rightarrow> (u32 \<times> fd_bit_decoder_t \<times> assert_log) option" where
  "fd_bit_decoder_read d bit_count log =
     do { let log = fd_assert (dec_bit_index d + bit_count \<le> dec_bit_count d)
                      ''(input->bit_index + bit_count) <= input->bit_count'' log;
          bit_mask \<leftarrow> (if 0 < bit_count \<and> bit_count \<le> 32 then Some (drop_bit (32 - bit_count) 0xffffffff) else None);
          decoder_loop d bit_count 0 bit_mask 0 log }"

record fd_bit_encoder_t =
  enc_data :: "u8 list"
  enc_size :: nat
  enc_bit_count :: nat
  enc_index :: nat
  enc_byte :: u32
  enc_overflow :: bool

definition fd_bit_encoder_initialize :: "u8 list \<Rightarrow> nat \<Rightarrow> fd_bit_encoder_t" where
  "fd_bit_encoder_initialize data size' =
     \<lparr>enc_data = data, enc_size = size', enc_bit_count = 0, enc_index = 0, enc_byte = 0, enc_overflow = False\<rparr>"

fun encoder_loop :: "fd_bit_encoder_t \<Rightarrow> nat \<Rightarrow> fd_bit_encoder_t option" where
  "encoder_loop e bit_index =
     (if bit_index \<ge> 8 then
        do { data \<leftarrow> wr (enc_data e) (enc_index e) (ucast (enc_byte e));
             encoder_loop (e\<lparr>enc_data := data, enc_index := enc_index e + 1, enc_byte := drop_bit 8 (enc_byte e)\<rparr>)
               (bit_index - 8) }
      else Some e)"

declare encoder_loop.simps [simp del]

definition fd_bit_encoder_write ::
  "fd_bit_encoder_t \<Rightarrow> u32 \<Rightarrow> nat \<Rightarrow> assert_log \<Rightarrow> (fd_bit_encoder_t \<times> assert_log) option" where
  "fd_bit_encoder_write e value bit_count log =
     do { high \<leftarrow> (if bit_count < 32 then Some (drop_bit bit_count value) else None);
          let log = fd_assert (high = 0) ''(value >> bit_count) == 0'' log;
          if enc_bit_count e + bit_count > enc_size e * 8 then Some (e\<lparr>enc_overflow := True\<rparr>, log)
          else do {
            let bit_index = enc_bit_count e mod 8;
            e \<leftarrow> encoder_loop (e\<lparr>enc_byte := enc_byte e OR push_bit bit_index value\<rparr>) (bit_index + bit_count);
            let log = fd_assert (enc_byte e < 256) ''output->byte < 256'' log;
            Some (e\<lparr>enc_bit_count := enc_bit_count e + bit_count\<rparr>, log) } }"

definition fd_bit_encoder_finalize ::
  "fd_bit_encoder_t \<Rightarrow> assert_log \<Rightarrow> (fd_bit_encoder_t \<times> assert_log) option" where
  "fd_bit_encoder_finalize e log =
     do { let log = fd_assert (\<not> enc_overflow e) ''!output->overflow'' log;
          let bit_index = enc_bit_count e mod 8;
          e \<leftarrow> (if bit_index > 0
                 then do { data \<leftarrow> wr (enc_data e) (enc_index e) (ucast (enc_byte e));
                           Some (e\<lparr>enc_data := data, enc_index := enc_index e + 1\<rparr>) }
                 else Some e);
          let log = fd_assert (enc_index e = (enc_bit_count e + 7) div 8) ''output->index == (output->bit_count + 7) / 8'' log;
          Some (e, log) }"

section \<open>Bits\<close>

text \<open>The bits of a byte buffer in stream order, and the bits of a field.\<close>

definition data_bit :: "u8 list \<Rightarrow> nat \<Rightarrow> bool" where
  "data_bit data i = bit (data ! (i div 8)) (i mod 8)"

definition field_bits :: "nat \<Rightarrow> u32 \<Rightarrow> bool list" where
  "field_bits n v = map (bit v) [0..<n]"

lemma length_field_bits [simp]: "length (field_bits n v) = n"
  by (simp add: field_bits_def)

lemma nth_field_bits [simp]: "i < n \<Longrightarrow> field_bits n v ! i = bit v i"
  by (simp add: field_bits_def)

text \<open>The encoder holds the stream \<open>L\<close>: whole bytes in the buffer, the rest in \<open>byte\<close>.\<close>

definition enc_holds :: "fd_bit_encoder_t \<Rightarrow> bool list \<Rightarrow> bool" where
  "enc_holds e L \<longleftrightarrow> 8 * enc_index e \<le> length L \<and> length L \<le> 8 * enc_index e + 32 \<and>
     enc_index e \<le> length (enc_data e) \<and>
     (\<forall>i < 8 * enc_index e. data_bit (enc_data e) i = L ! i) \<and>
     (\<forall>j. bit (enc_byte e) j \<longleftrightarrow> 8 * enc_index e + j < length L \<and> L ! (8 * enc_index e + j))"

definition enc_ok :: "fd_bit_encoder_t \<Rightarrow> bool list \<Rightarrow> bool" where
  "enc_ok e L \<longleftrightarrow> enc_holds e L \<and> enc_bit_count e = length L \<and> enc_index e = length L div 8 \<and>
     enc_size e \<le> length (enc_data e) \<and> length L \<le> 8 * enc_size e"

lemma high_bits_zero: "drop_bit n v = 0 \<Longrightarrow> bit v j \<Longrightarrow> j < n" for v :: "'a::len word"
proof (rule ccontr)
  assume a: "drop_bit n v = 0" "bit v j" "\<not> j < n"
  have "bit (drop_bit n v) (j - n) = bit v (n + (j - n))" by (simp only: bit_drop_bit_eq comp_apply)
  then show False using a by simp
qed

lemma enc_holds_append:
  assumes "enc_holds e L" "length L = 8 * enc_index e + r" "r < 8" "r + n \<le> 32" "drop_bit n v = 0"
  shows "enc_holds (e\<lparr>enc_byte := enc_byte e OR push_bit r v\<rparr>) (L @ field_bits n v)"
  using assms high_bits_zero[OF assms(5)]
  by (fastforce simp: enc_holds_def nth_append bit_simps)

lemma bit_ucast_iff_u8: "k < 8 \<Longrightarrow> bit (ucast w :: u8) k = bit w k" for w :: u32
  by (simp add: bit_simps)

lemma word_bits_less: "(\<And>j. bit w j \<Longrightarrow> j < n) \<Longrightarrow> n < LENGTH('a) \<Longrightarrow> w < 2 ^ n" for w :: "'a::len word"
proof -
  assume b: "\<And>j. bit w j \<Longrightarrow> j < n" and n: "n < LENGTH('a)"
  have "take_bit n w = w" by (rule bit_word_eqI) (use b in \<open>auto simp: bit_take_bit_iff\<close>)
  then show ?thesis using n by (metis and_mask_less_size take_bit_eq_mask word_size)
qed

lemma encoder_loop_holds:
  "enc_holds e L \<Longrightarrow> length L = 8 * enc_index e + b \<Longrightarrow> enc_index e + b div 8 \<le> length (enc_data e) \<Longrightarrow>
   \<exists>data byte. encoder_loop e b = Some (e\<lparr>enc_data := data, enc_index := enc_index e + b div 8, enc_byte := byte\<rparr>) \<and>
     enc_holds (e\<lparr>enc_data := data, enc_index := enc_index e + b div 8, enc_byte := byte\<rparr>) L \<and>
     length data = length (enc_data e)"
proof (induction e b rule: encoder_loop.induct)
  case (1 e b)
  show ?case
  proof (cases "8 \<le> b")
    case True
    define d' where "d' = (enc_data e)[enc_index e := ucast (enc_byte e)]"
    define e' where "e' = e\<lparr>enc_data := d', enc_index := enc_index e + 1, enc_byte := drop_bit 8 (enc_byte e)\<rparr>"
    have div: "b div 8 = Suc ((b - 8) div 8)" using True by (simp add: le_div_geq)
    have "enc_index e < length (enc_data e)" using 1(4) div by simp
    then have w: "wr (enc_data e) (enc_index e) (ucast (enc_byte e)) = Some d'" by (simp add: wr_in d'_def)
    have holds: "enc_holds e' L"
    proof -
      have idx: "enc_index e < length (enc_data e)" "8 * enc_index e + 8 \<le> length L" using 1(3,4) div True by simp_all
      have H: "\<forall>i < 8 * enc_index e. data_bit (enc_data e) i = L ! i" "length L \<le> 8 * enc_index e + 32"
        "\<forall>j. bit (enc_byte e) j \<longleftrightarrow> 8 * enc_index e + j < length L \<and> L ! (8 * enc_index e + j)"
        using 1(2) by (simp_all add: enc_holds_def)
      have "data_bit d' i = L ! i" if "i < 8 * Suc (enc_index e)" for i
      proof (cases "i div 8 = enc_index e")
        case True
        then have i: "8 * enc_index e + i mod 8 = i" by (metis mult_div_mod_eq)
        have m: "i mod 8 < 8" by simp
        have "i < length L" using i m idx(2) by linarith
        have "data_bit d' i = bit (enc_byte e) (i mod 8)"
          using idx(1) m by (simp only: data_bit_def d'_def True nth_list_update_eq bit_ucast_iff_u8)
        also have "\<dots> = L ! i"
          using H(3)[rule_format, of "i mod 8"] idx(2) m \<open>i < length L\<close> unfolding i by simp
        finally show ?thesis .
      next
        case False
        then have "i < 8 * enc_index e"
          using that mult_div_mod_eq[of 8 i] mod_less_divisor[of 8 i] by (simp add: less_eq_Suc_le)
        then show ?thesis using H(1) False by (simp add: d'_def data_bit_def)
      qed
      moreover have "bit (drop_bit 8 (enc_byte e)) j \<longleftrightarrow> 8 + 8 * enc_index e + j < length L \<and> L ! (8 + 8 * enc_index e + j)" for j
        using H(3)[rule_format, of "8 + j"] by (simp add: bit_drop_bit_eq ac_simps)
      ultimately show ?thesis
        using idx H(2) by (simp add: enc_holds_def e'_def d'_def)
    qed
    obtain data byte where "encoder_loop e' (b - 8) = Some (e'\<lparr>enc_data := data, enc_index := enc_index e' + (b - 8) div 8, enc_byte := byte\<rparr>)"
      "enc_holds (e'\<lparr>enc_data := data, enc_index := enc_index e' + (b - 8) div 8, enc_byte := byte\<rparr>) L" "length data = length d'"
      using 1(1)[OF True w, folded e'_def, OF holds] 1(3,4) True div by (auto simp: e'_def d'_def)
    then show ?thesis
      using True w div by (subst encoder_loop.simps) (auto simp: e'_def d'_def)
  next
    case False
    then show ?thesis
      using 1(2) by (subst encoder_loop.simps) (rule exI[of _ "enc_data e"], rule exI[of _ "enc_byte e"], simp)
  qed
qed


lemma encoder_write_ok:
  assumes "enc_ok e L" "n < 32" "length L mod 8 + n \<le> 32" "drop_bit n v = 0" "length L + n \<le> 8 * enc_size e"
  shows "\<exists>e'. fd_bit_encoder_write e v n log = Some (e', log) \<and> enc_ok e' (L @ field_bits n v) \<and>
    enc_size e' = enc_size e \<and> enc_overflow e' = enc_overflow e \<and> length (enc_data e') = length (enc_data e)"
proof -
  define r where "r = length L mod 8"
  have ok: "enc_holds e L" "enc_bit_count e = length L" "enc_index e = length L div 8" "enc_size e \<le> length (enc_data e)"
    using assms(1) by (simp_all add: enc_ok_def)
  have r: "length L = 8 * enc_index e + r" "r < 8" unfolding r_def ok(3) by simp_all
  define e1 where "e1 = e\<lparr>enc_byte := enc_byte e OR push_bit r v\<rparr>"
  have holds: "enc_holds e1 (L @ field_bits n v)"
    unfolding e1_def by (rule enc_holds_append[OF ok(1) r assms(3)[folded r_def] assms(4)])
  have room: "enc_index e1 + (r + n) div 8 \<le> length (enc_data e1)"
  proof -
    have "8 * enc_index e + (r + n) \<le> 8 * length (enc_data e)" using assms(5) r(1) ok(4) by linarith
    then have "enc_index e + (r + n) div 8 \<le> length (enc_data e)" using mult_div_mod_eq[of 8 "r + n"] by linarith
    then show ?thesis by (simp add: e1_def)
  qed
  obtain data byte where l: "encoder_loop e1 (r + n) = Some (e1\<lparr>enc_data := data, enc_index := enc_index e1 + (r + n) div 8, enc_byte := byte\<rparr>)"
    "enc_holds (e1\<lparr>enc_data := data, enc_index := enc_index e1 + (r + n) div 8, enc_byte := byte\<rparr>) (L @ field_bits n v)"
    "length data = length (enc_data e1)"
    using encoder_loop_holds[OF holds, of "r + n"] room r(1) by (auto simp: e1_def)
  have len: "length L + n = 8 * (enc_index e + (r + n) div 8) + (r + n) mod 8"
    using r(1) by (simp add: add.assoc)
  have "byte < 2 ^ 8"
  proof (rule word_bits_less)
    show "bit byte j \<Longrightarrow> j < 8" for j
    proof -
      assume "bit byte j"
      then have "8 * (enc_index e + (r + n) div 8) + j < length L + n"
        using l(2) by (simp add: enc_holds_def e1_def)
      then show "j < 8" using len mod_less_divisor[of 8 "r + n"] by linarith
    qed
  qed simp
  then have b: "byte < 256" by simp
  have idx: "enc_index e + (r + n) div 8 = (length L + n) div 8" using len by (metis div_mult_self4 zero_neq_numeral mod_div_trivial add.right_neutral add_0)
  have e1_count: "enc_bit_count e1 = length L" by (simp add: e1_def ok(2))
  define e2 where "e2 = e1\<lparr>enc_data := data, enc_index := enc_index e1 + (r + n) div 8, enc_byte := byte, enc_bit_count := length L + n\<rparr>"
  have "fd_bit_encoder_write e v n log = Some (e2, log)"
    using assms(2,4,5) l(1) b ok(2) e1_count by (simp add: fd_bit_encoder_write_def Let_def e1_def[symmetric] r_def[symmetric] e2_def)
  moreover have "enc_ok e2 (L @ field_bits n v)"
    using l(2,3) ok(4) assms(5) idx by (simp add: enc_ok_def e2_def enc_holds_def e1_def)
  ultimately show ?thesis using l(3) by (intro exI[of _ e2]) (simp add: e2_def e1_def)
qed

lemma encoder_finalize_ok:
  assumes "enc_ok e L" "\<not> enc_overflow e"
  shows "\<exists>e'. fd_bit_encoder_finalize e log = Some (e', log) \<and> enc_bit_count e' = length L \<and>
    enc_index e' = (length L + 7) div 8 \<and> enc_index e' \<le> length (enc_data e') \<and>
    (\<forall>i < length L. data_bit (enc_data e') i = L ! i)"
proof -
  define r k where "r = length L mod 8" and "k = length L div 8"
  have L: "length L = 8 * k + r" "r < 8" by (simp_all add: r_def k_def)
  have "enc_holds e L" "enc_bit_count e = length L" "enc_index e = k" "length L \<le> 8 * length (enc_data e)"
    using assms(1) unfolding enc_ok_def k_def by linarith+
  note ok = this[unfolded L(1)]
  have H: "\<And>i. i < 8 * k \<Longrightarrow> data_bit (enc_data e) i = L ! i" "\<And>j. bit (enc_byte e) j \<longleftrightarrow> j < r \<and> L ! (8 * k + j)"
    using ok(1) unfolding enc_holds_def ok(3) L(1) by simp_all
  show ?thesis
  proof (cases "r = 0")
    case True
    then show ?thesis using ok L H assms(2) by (simp add: fd_bit_encoder_finalize_def Let_def fd_assert_def)
  next
    case False
    have div: "(8 * k + r + 7) div 8 = Suc k" using L(2) False by (intro div_nat_eqI) simp_all
    have k: "k < length (enc_data e)" using ok(4) False by linarith
    define e' where "e' = e\<lparr>enc_data := (enc_data e)[k := ucast (enc_byte e)], enc_index := k + 1\<rparr>"
    have "data_bit (enc_data e') i = L ! i" if "i < length L" for i
    proof (cases "i < 8 * k")
      case True
      then have "i div 8 \<noteq> k" by linarith
      then show ?thesis using H(1)[OF True] by (simp add: e'_def data_bit_def)
    next
      case False
      define j where "j = i - 8 * k"
      have j: "i = 8 * k + j" "j < r" using that L(1) False by (simp_all add: j_def)
      have "j < 8" using j(2) L(2) by simp
      then show ?thesis unfolding j(1) using k j(2) H(2)[of j] by (simp add: e'_def data_bit_def bit_ucast_iff_u8)
    qed
    moreover have "fd_bit_encoder_finalize e log = Some (e', log)"
      using False L(2) ok k assms(2) div by (simp add: fd_bit_encoder_finalize_def Let_def fd_assert_def wr_in e'_def)
    ultimately show ?thesis using ok k div L by (intro exI[of _ e']) (simp add: e'_def)
  qed
qed

lemma decoder_loop_ok:
  assumes data: "\<And>i. i < length L \<Longrightarrow> data_bit (dec_data d) i = L ! i"
    and room: "length L \<le> 8 * length (dec_data d)" "length L \<le> 8 * dec_size d"
    and "b + n \<le> length L" "n \<le> 32" "k \<le> n" "dec_bit_index d = b + k"
    and "\<And>j. bit m j \<longleftrightarrow> j < n - k" "\<And>j. bit v j \<longleftrightarrow> j < k \<and> L ! (b + j)"
  shows "\<exists>v'. decoder_loop d n k m v log = Some (v', d\<lparr>dec_bit_index := b + n\<rparr>, log) \<and>
    (\<forall>j. bit v' j \<longleftrightarrow> j < n \<and> L ! (b + j))"
  using assms
proof (induction "n - k" arbitrary: d k m v rule: less_induct)
  case less
  show ?case
  proof (cases "k < n")
    case True
    define q c where "q = (b + k) mod 8" and "c = (if 8 - q > n - k then n - k else 8 - q)"
    have q: "q < 8" by (simp add: q_def)
    have c: "0 < c" "k + c \<le> n" "q + c \<le> 8" "n - k \<le> c \<or> c = 8 - q" using q True by (auto simp: c_def)
    define i where "i = (b + k) div 8"
    have bk: "b + k = 8 * i + q" by (simp add: i_def q_def)
    have i: "i < length (dec_data d)" "i < dec_size d" using less(3-5) True bk by linarith+
    define byte where "byte = dec_data d ! i"
    define v' where "v' = v OR push_bit k (m AND drop_bit q (ucast byte))"
    have v': "bit v' j \<longleftrightarrow> j < k + c \<and> L ! (b + j)" for j
    proof (cases "k \<le> j \<and> j < k + c")
      case False
      then have "\<not> bit (push_bit k (m AND drop_bit q (ucast byte))) j"
        using bit_imp_le_length[of byte "q + (j - k)"] less(9)[of "j - k"] c(3,4) q
        by (cases "k \<le> j") (auto simp: bit_simps)
      moreover have "bit v j \<longleftrightarrow> j < k + c \<and> L ! (b + j)" using less(10)[of j] False by auto
      ultimately show ?thesis by (simp add: v'_def bit_or_iff)
    next
      case True
      then have j: "b + j = 8 * i + (q + (j - k))" "q + (j - k) < 8" "j < n" "j < 32" using bk c less(6) by linarith+
      have "(b + j) div 8 = i" "(b + j) mod 8 = q + (j - k)" unfolding j(1) using j(2) by simp_all
      then have "bit byte (q + (j - k)) = L ! (b + j)"
        using less(2)[of "b + j"] less(5) j(3) by (simp add: data_bit_def byte_def)
      then show ?thesis
        using True j(3,4) less_trans[OF j(2), of 32] less(9)[of "j - k"] less(10)[of j] diff_less_mono[OF j(3), of k]
        by (simp add: v'_def bit_simps)
    qed
    have "\<exists>v''. decoder_loop (d\<lparr>dec_bit_index := b + k + c\<rparr>) n (k + c) (drop_bit c m) v' log =
        Some (v'', d\<lparr>dec_bit_index := b + k + c, dec_bit_index := b + n\<rparr>, log) \<and> (\<forall>j. bit v'' j \<longleftrightarrow> j < n \<and> L ! (b + j))"
    proof (rule less(1))
      show "n - (k + c) < n - k" using c(1) True by (simp add: diff_less_mono2)
      show "bit (drop_bit c m) j \<longleftrightarrow> j < n - (k + c)" for j
        using less(9)[of "c + j"] by (simp add: bit_drop_bit_eq less_diff_conv add.commute add.left_commute)
      show "bit v' j \<longleftrightarrow> j < k + c \<and> L ! (b + j)" for j by (rule v')
    qed (use less(2-6) c(2) in simp_all)
    moreover have "decoder_loop d n k m v log = decoder_loop (d\<lparr>dec_bit_index := b + k + c\<rparr>) n (k + c) (drop_bit c m) v' log"
      using True i by (subst decoder_loop.simps) (simp add: less(8) Let_def i_def[symmetric] q_def[symmetric]
          c_def[symmetric] rd_in byte_def[symmetric] v'_def fd_assert_def)
    ultimately show ?thesis by simp
  next
    case False
    then show ?thesis using less(7,8,10) by (subst decoder_loop.simps) auto
  qed
qed

lemma decoder_read_ok:
  assumes "\<And>i. i < length L \<Longrightarrow> data_bit (dec_data d) i = L ! i"
    "length L \<le> 8 * length (dec_data d)" "length L \<le> 8 * dec_size d" "length L \<le> dec_bit_count d"
    "dec_bit_index d + n \<le> length L" "0 < n" "n \<le> 32" "drop_bit n v = 0" "n < 32"
    "\<And>j. j < n \<Longrightarrow> L ! (dec_bit_index d + j) = bit v j"
  shows "fd_bit_decoder_read d n log = Some (v, d\<lparr>dec_bit_index := dec_bit_index d + n\<rparr>, log)"
proof -
  have m: "bit (drop_bit (32 - n) (0xffffffff :: u32)) j \<longleftrightarrow> j < n - 0" for j
  proof -
    have "(0xffffffff :: u32) = - 1" by simp
    then show ?thesis using assms(7) by (simp only: bit_drop_bit_eq comp_apply bit_minus_1_iff) (auto simp: possible_bit_def)
  qed
  obtain v' where v': "decoder_loop d n 0 (drop_bit (32 - n) 0xffffffff) 0 log = Some (v', d\<lparr>dec_bit_index := dec_bit_index d + n\<rparr>, log)"
    "\<forall>j. bit v' j \<longleftrightarrow> j < n \<and> L ! (dec_bit_index d + j)"
    using decoder_loop_ok[of L d "dec_bit_index d" n 0 _ 0 log, OF assms(1) assms(2,3,5,7) _ _ m] by auto
  have "v' = v"
    using v'(2) assms(10) high_bits_zero[OF assms(8)] by (intro bit_word_eqI) blast
  then show ?thesis
    using assms(4-7) v'(1) by (simp add: fd_bit_decoder_read_def Let_def fd_assert_def)
qed

section \<open>Properties\<close>

text \<open>The client's view: a sequence of fields (value and width) written, and read back by their widths.\<close>

fun encode_fields :: "(u32 \<times> nat) list \<Rightarrow> fd_bit_encoder_t \<Rightarrow> assert_log \<Rightarrow> (fd_bit_encoder_t \<times> assert_log) option" where
  "encode_fields [] e log = Some (e, log)"
| "encode_fields ((v, n) # fs) e log = do { (e, log) \<leftarrow> fd_bit_encoder_write e v n log; encode_fields fs e log }"

fun decode_fields :: "nat list \<Rightarrow> fd_bit_decoder_t \<Rightarrow> assert_log \<Rightarrow> (u32 list \<times> fd_bit_decoder_t \<times> assert_log) option" where
  "decode_fields [] d log = Some ([], d, log)"
| "decode_fields (n # ns) d log =
     do { (v, d, log) \<leftarrow> fd_bit_decoder_read d n log; (vs, d, log) \<leftarrow> decode_fields ns d log; Some (v # vs, d, log) }"

definition stream :: "(u32 \<times> nat) list \<Rightarrow> bool list" where
  "stream fs = concat (map (\<lambda>(v, n). field_bits n v) fs)"

lemma stream_Cons: "stream ((v, n) # fs) = field_bits n v @ stream fs"
  by (simp add: stream_def)

text \<open>A field that always fits in what is left of the 32 bits of \<open>byte\<close>.\<close>

definition bit_field_ok :: "u32 \<times> nat \<Rightarrow> bool" where
  "bit_field_ok = (\<lambda>(v, n). 0 < n \<and> n \<le> 25 \<and> drop_bit n v = 0)"

lemma encode_fields_ok:
  "enc_ok e L \<Longrightarrow> \<not> enc_overflow e \<Longrightarrow> \<forall>f \<in> set fs. bit_field_ok f \<Longrightarrow> length L + length (stream fs) \<le> 8 * enc_size e \<Longrightarrow>
   \<exists>e'. encode_fields fs e log = Some (e', log) \<and> enc_ok e' (L @ stream fs) \<and> \<not> enc_overflow e'"
proof (induction fs arbitrary: e L)
  case (Cons f fs)
  obtain v n where f: "f = (v, n)" by (cases f)
  have ok: "0 < n" "n \<le> 25" "drop_bit n v = 0" using Cons(4) by (simp_all add: f bit_field_ok_def)
  have "length L mod 8 + n \<le> 32" using ok(2) mod_less_divisor[of 8 "length L"] by linarith
  moreover have len: "length L + n + length (stream fs) \<le> 8 * enc_size e" using Cons(5) by (simp add: f stream_def)
  ultimately obtain e' where e': "fd_bit_encoder_write e v n log = Some (e', log)" "enc_ok e' (L @ field_bits n v)"
      "enc_size e' = enc_size e" "enc_overflow e' = enc_overflow e"
    using encoder_write_ok[OF Cons(2), of n v log] ok by auto
  obtain e'' where "encode_fields fs e' log = Some (e'', log)" "enc_ok e'' ((L @ field_bits n v) @ stream fs)" "\<not> enc_overflow e''"
    using Cons(1)[OF e'(2)] e'(3,4) Cons(3,4) len by auto
  then show ?case using e'(1) by (auto simp: f stream_def)
qed (simp add: stream_def)

lemma decode_fields_ok:
  assumes "\<And>i. i < length L \<Longrightarrow> data_bit (dec_data d) i = L ! i"
    "length L \<le> 8 * length (dec_data d)" "length L \<le> 8 * dec_size d" "length L \<le> dec_bit_count d"
    "dec_bit_index d = length M" "L = M @ stream fs" "\<forall>f \<in> set fs. bit_field_ok f"
  shows "decode_fields (map snd fs) d log = Some (map fst fs, d\<lparr>dec_bit_index := length L\<rparr>, log)"
  using assms
proof (induction fs arbitrary: d M)
  case (Cons f fs)
  obtain v n where f: "f = (v, n)" by (cases f)
  have ok: "0 < n" "n \<le> 25" "drop_bit n v = 0" using Cons(8) by (simp_all add: f bit_field_ok_def)
  have L: "L = (M @ field_bits n v) @ stream fs" using Cons(7) by (simp add: f stream_Cons)
  have "fd_bit_decoder_read d n log = Some (v, d\<lparr>dec_bit_index := dec_bit_index d + n\<rparr>, log)"
    by (rule decoder_read_ok[OF Cons(2-5)]) (use ok Cons(6) in \<open>simp_all add: L nth_append\<close>)
  moreover have "decode_fields (map snd fs) (d\<lparr>dec_bit_index := dec_bit_index d + n\<rparr>) log =
      Some (map fst fs, d\<lparr>dec_bit_index := length L\<rparr>, log)"
    using Cons(1)[of "d\<lparr>dec_bit_index := dec_bit_index d + n\<rparr>" "M @ field_bits n v"] Cons(2-)
    by (simp add: stream_Cons f)
  ultimately show ?case by (simp add: f)
qed (simp add: stream_def)

lemma fields_roundtrip:
  assumes "\<forall>f \<in> set fs. bit_field_ok f" "sum_list (map snd fs) \<le> 8 * length buffer"
  shows "\<exists>e e'. encode_fields fs (fd_bit_encoder_initialize buffer (length buffer)) [] = Some (e, []) \<and> \<not> enc_overflow e \<and>
    fd_bit_encoder_finalize e [] = Some (e', []) \<and> enc_bit_count e' = sum_list (map snd fs) \<and>
    enc_index e' = (sum_list (map snd fs) + 7) div 8 \<and>
    decode_fields (map snd fs) (fd_bit_decoder_initialize (enc_data e') (enc_index e') (enc_bit_count e')) [] =
      Some (map fst fs, \<lparr>dec_data = enc_data e', dec_size = enc_index e', dec_bit_count = enc_bit_count e',
        dec_bit_index = enc_bit_count e'\<rparr>, [])"
proof -
  have len: "length (stream fs) = sum_list (map snd fs)"
    by (induction fs) (auto simp: stream_def split: prod.splits)
  have "enc_ok (fd_bit_encoder_initialize buffer (length buffer)) []"
    by (simp add: enc_ok_def enc_holds_def fd_bit_encoder_initialize_def)
  moreover have "\<not> enc_overflow (fd_bit_encoder_initialize buffer (length buffer))"
    by (simp add: fd_bit_encoder_initialize_def)
  moreover have "enc_size (fd_bit_encoder_initialize buffer (length buffer)) = length buffer"
    by (simp add: fd_bit_encoder_initialize_def)
  ultimately obtain e where e: "encode_fields fs (fd_bit_encoder_initialize buffer (length buffer)) [] = Some (e, [])"
      "enc_ok e (stream fs)" "\<not> enc_overflow e"
    using encode_fields_ok[of "fd_bit_encoder_initialize buffer (length buffer)" "[]" fs "[]"] assms len by auto
  obtain e' where e': "fd_bit_encoder_finalize e [] = Some (e', [])" "enc_bit_count e' = length (stream fs)"
      "enc_index e' = (length (stream fs) + 7) div 8" "enc_index e' \<le> length (enc_data e')"
      "\<forall>i < length (stream fs). data_bit (enc_data e') i = stream fs ! i"
    using encoder_finalize_ok[OF e(2,3)] by blast
  have size: "length (stream fs) \<le> 8 * enc_index e'"
    using mult_div_mod_eq[of 8 "length (stream fs) + 7"] mod_less_divisor[of 8 "length (stream fs) + 7"] e'(3) by linarith
  have "decode_fields (map snd fs) (fd_bit_decoder_initialize (enc_data e') (enc_index e') (enc_bit_count e')) [] =
      Some (map fst fs, (fd_bit_decoder_initialize (enc_data e') (enc_index e') (enc_bit_count e'))\<lparr>dec_bit_index := length (stream fs)\<rparr>, [])"
    by (rule decode_fields_ok[of "stream fs" _ "[]"])
      (use e' size assms(1) in \<open>simp_all add: fd_bit_decoder_initialize_def\<close>)
  then show ?thesis using e(1,3) e'(1-3) len by (auto simp: fd_bit_decoder_initialize_def)
qed

text \<open>C19: Fields of 1 to 25 bits that fit in the buffer come back from the decoder in order, whatever their
  alignment: neither the encoder nor the decoder leaves the buffer, no assertion fails, and the encoder uses the
  least number of bytes that holds the bits.\<close>
theorem fd_bit_roundtrip:
  assumes "\<forall>f \<in> set fs. bit_field_ok f" "sum_list (map snd fs) \<le> 8 * length buffer"
  shows "\<exists>e e'. encode_fields fs (fd_bit_encoder_initialize buffer (length buffer)) [] = Some (e, []) \<and>
    fd_bit_encoder_finalize e [] = Some (e', []) \<and> enc_bit_count e' = sum_list (map snd fs) \<and>
    enc_index e' = (sum_list (map snd fs) + 7) div 8 \<and>
    decode_fields (map snd fs) (fd_bit_decoder_initialize (enc_data e') (enc_index e') (enc_bit_count e')) [] =
      Some (map fst fs, \<lparr>dec_data = enc_data e', dec_size = enc_index e', dec_bit_count = enc_bit_count e',
        dec_bit_index = enc_bit_count e'\<rparr>, [])"
  using fields_roundtrip[OF assms] by blast

theorem fd_bit_roundtrip_witness:
  "\<exists>e e'. encode_fields [(5, 3), (0x1234567, 25), (1, 1)] (fd_bit_encoder_initialize [0, 0, 0, 0] (length [0 :: u8, 0, 0, 0])) [] = Some (e, []) \<and>
    fd_bit_encoder_finalize e [] = Some (e', []) \<and> enc_bit_count e' = sum_list (map snd [(5 :: u32, 3), (0x1234567, 25), (1, 1)]) \<and>
    enc_index e' = (sum_list (map snd [(5 :: u32, 3), (0x1234567, 25), (1, 1)]) + 7) div 8 \<and>
    decode_fields (map snd [(5 :: u32, 3), (0x1234567, 25), (1, 1)])
      (fd_bit_decoder_initialize (enc_data e') (enc_index e') (enc_bit_count e')) [] =
      Some (map fst [(5 :: u32, 3 :: nat), (0x1234567, 25), (1, 1)], \<lparr>dec_data = enc_data e', dec_size = enc_index e',
        dec_bit_count = enc_bit_count e', dec_bit_index = enc_bit_count e'\<rparr>, [])"
  by (rule fd_bit_roundtrip) (simp_all add: bit_field_ok_def)

text \<open>A field of more than 25 bits can lose bits in the encoder: written after a field of seven bits, the top
  bit of a 26 bit value is shifted out of the 32 bits of \<open>byte\<close>, and the decoder reads 0; no assertion fails.\<close>
theorem fd_bit_encoder_loses_high_bit:
  "(do { (e, log) \<leftarrow> encode_fields [(0, 7), (0x2000000, 26)] (fd_bit_encoder_initialize [0, 0, 0, 0, 0] 5) [];
         (e, log) \<leftarrow> fd_bit_encoder_finalize e log;
         (vs, d, log) \<leftarrow> decode_fields [7, 26] (fd_bit_decoder_initialize (enc_data e) 5 (enc_bit_count e)) log;
         Some (vs, log) }) = Some ([0, 0], [])"
  by code_simp

end
