(* ===== verification/FD_Delta.thy ===== *)
theory FD_Delta imports FD_Bit FD_Binary begin

text \<open>
  \<open>subsys/base/src/fd_delta.c\<close>: an integer field of an array of objects compressed as its first value and the
  differences of neighbours, zz_word encoded, in bit fields of two widths.

  The objects are the bytes behind \<open>objects\<close>, little endian as on the target; an \<open>int32_t\<close> is a 32 bit word
  read with \<open>sint\<close>, and a signed overflow is \<open>None\<close>.
\<close>

section \<open>The code\<close>







record fd_delta_array_t =
  arr_objects :: "u8 list"
  arr_count :: nat
  arr_object_size :: nat
  arr_field_offset :: nat
  arr_field_size :: nat

definition field_address :: "fd_delta_array_t \<Rightarrow> nat \<Rightarrow> nat" where
  "field_address a index = arr_object_size a * index + arr_field_offset a"


definition fd_delta_set_value ::
  "fd_delta_array_t \<Rightarrow> nat \<Rightarrow> u32 \<Rightarrow> assert_log \<Rightarrow> (fd_delta_array_t \<times> assert_log) option" where
  "fd_delta_set_value a index v log =
     (let field = field_address a index in
      if arr_field_size a = 4 then
        do { bs \<leftarrow> wr_block (arr_objects a) field (le_bytes 4 v); Some (a\<lparr>arr_objects := bs\<rparr>, log) }
      else if arr_field_size a = 2 then
        do { bs \<leftarrow> wr_block (arr_objects a) field (le_bytes 2 v); Some (a\<lparr>arr_objects := bs\<rparr>, log) }
      else
        do { a \<leftarrow> (if arr_field_size a = 1
                    then do { bs \<leftarrow> wr (arr_objects a) field (ucast v); Some (a\<lparr>arr_objects := bs\<rparr>) }
                    else Some a);
             Some (a, fd_assert False ''unsupported field size'' log) })"









section \<open>Zigzag and resolution\<close>








section \<open>Differences\<close>


fun delta_list :: "u32 \<Rightarrow> u32 list \<Rightarrow> u32 list" where
  "delta_list p [] = []"
| "delta_list p (v # vs) = (v - p) # delta_list v vs"


lemma length_delta_list [simp]: "length (delta_list p vs) = length vs"
  by (induction vs arbitrary: p) simp_all


lemma word_of_int_sint_add: "word_of_int (sint v + sint p) = v + p" for v p :: "'a::len word"
  by simp


section \<open>Arrays\<close>












section \<open>The loops\<close>





section \<open>Properties\<close>










text \<open>For fields of one byte \<open>fd_delta_set_value\<close> stores the byte and then falls through to the assertion for
  field sizes that are not supported: every decoding of such an array reports a failure.\<close>
theorem fd_delta_set_value_byte_asserts:
  assumes "arr_field_size a = 1" "field_address a i < length (arr_objects a)"
  shows "fd_delta_set_value a i v log =
    Some (a\<lparr>arr_objects := (arr_objects a)[field_address a i := ucast v]\<rparr>, log @ [''unsupported field size''])"
  using assms by (simp add: fd_delta_set_value_def Let_def wr_in fd_assert_def)

theorem fd_delta_set_value_byte_asserts_witness:
  "fd_delta_set_value \<lparr>arr_objects = [0], arr_count = 1, arr_object_size = 1, arr_field_offset = 0, arr_field_size = 1\<rparr> 0 7 [] =
   Some (\<lparr>arr_objects = [7], arr_count = 1, arr_object_size = 1, arr_field_offset = 0, arr_field_size = 1\<rparr>,
     [''unsupported field size''])"
  using fd_delta_set_value_byte_asserts[of "\<lparr>arr_objects = [0], arr_count = 1, arr_object_size = 1, arr_field_offset = 0, arr_field_size = 1\<rparr>" 0 7 "[]"]
  by (simp add: field_address_def)

end
