(* ===== verification/FD_KeyValueStore.thy ===== *)
theory FD_KeyValueStore imports FD_Binary begin

text \<open>
  \<open>subsys/storage/src/fd_key_value_store.c\<close>: keys and protobuf messages in flash pages. Each page is a log:
  12 byte metadata records from its end downwards, the bytes of key and value from its start upwards; the newest
  record of a key counts. When the current page is full the next one is taken, and the oldest page is collected
  when only one is left.

  The partition is the list of its bytes, as the code sees it through the memory map; addresses are relative to
  \<open>base_address\<close>, and a read outside the partition is \<open>None\<close>. The flash map driver of Zephyr is a parameter
  (\<open>flash_area\<close>), with \<open>flash_area_ok\<close> stating what it documents. A message and its descriptor stand for the
  chunks of bytes that \<open>pb_encode\<close> hands to the stream, \<open>None\<close> for the null descriptor. Listeners are the entries
  of an event log. Loops that need not end are partial functions: \<open>None\<close> when they do not.
\<close>

section \<open>The state\<close>

record fd_key_value_store_blob_t =
  blob_offset :: u16
  blob_size :: u16

definition fd_key_value_store_metadata_flags_removed :: u32 where
  "fd_key_value_store_metadata_flags_removed = 0x000001"

record fd_key_value_store_metadata_t =
  md_flags :: u32
  md_key :: fd_key_value_store_blob_t
  md_value :: fd_key_value_store_blob_t

record fd_key_value_store_ostream_state_t =
  os_buffer :: "u8 list"
  os_count :: nat

record fd_key_value_store_equal_stream_state_t =
  eq_value :: "u8 list"
  eq_size :: nat
  eq_count :: nat
  eq_is_equal :: bool

record fd_key_value_store_currrent_t =
  cur_page :: nat
  cur_data_byte_count :: nat
  cur_metadata_count :: nat

text \<open>A listener is its context and which of its functions are not null; calls are recorded.\<close>

record fd_key_value_store_listener_t =
  li_context :: nat
  li_was_erased :: bool
  li_was_set :: bool
  li_was_removed :: bool

datatype kvs_event = was_erased nat | was_set nat "u8 list" | was_removed nat "u8 list"

record fd_key_value_store_t =
  kvs_page_count :: nat
  kvs_page_size :: nat
  kvs_minumum_write_size :: nat
  kvs_is_full :: bool
  kvs_current :: fd_key_value_store_currrent_t
  kvs_data_write_offset :: nat
  kvs_ostream_state :: fd_key_value_store_ostream_state_t
  kvs_garbage_collection_count :: u32
  kvs_equal_stream_state :: fd_key_value_store_equal_stream_state_t
  kvs_listeners :: "fd_key_value_store_listener_t list"
  kvs_flash :: "u8 list"
  kvs_events :: "kvs_event list"
  kvs_log :: assert_log

definition kvs_assert :: "bool \<Rightarrow> string \<Rightarrow> fd_key_value_store_t \<Rightarrow> fd_key_value_store_t" where
  "kvs_assert c msg s = s\<lparr>kvs_log := fd_assert c msg (kvs_log s)\<rparr>"

text \<open>The flash map: opening the area, erasing and writing it, with the result code and the bytes afterwards.\<close>

record flash_area =
  flash_area_open :: int
  flash_area_erase :: "nat \<Rightarrow> nat \<Rightarrow> u8 list \<Rightarrow> int \<times> u8 list"
  flash_area_write :: "nat \<Rightarrow> u8 list \<Rightarrow> u8 list \<Rightarrow> int \<times> u8 list"

definition listener_limit :: nat where
  "listener_limit = 10"

definition fd_key_value_store_add_listener ::
  "fd_key_value_store_listener_t \<Rightarrow> fd_key_value_store_t \<Rightarrow> fd_key_value_store_t" where
  "fd_key_value_store_add_listener listener s =
     (let s = kvs_assert (length (kvs_listeners s) < listener_limit)
                ''fd_key_value_store.listener_count < ARRAY_SIZE(fd_key_value_store.listeners)'' s in
      if length (kvs_listeners s) \<ge> listener_limit then s
      else s\<lparr>kvs_listeners := kvs_listeners s @ [listener]\<rparr>)"

section \<open>Pages and metadata\<close>

definition fd_key_value_store_get_page_address :: "fd_key_value_store_t \<Rightarrow> nat \<Rightarrow> nat" where
  "fd_key_value_store_get_page_address s page = page * kvs_page_size s"

definition fd_key_value_store_get_write_size :: "fd_key_value_store_t \<Rightarrow> nat \<Rightarrow> nat" where
  "fd_key_value_store_get_write_size s n =
     (let m = of_nat (kvs_minumum_write_size s) - 1 in unat ((of_nat n + m :: u32) AND NOT m))"

definition metadata_size :: nat where
  "metadata_size = 12"

definition metadata_bytes :: "fd_key_value_store_metadata_t \<Rightarrow> u8 list" where
  "metadata_bytes m = le_bytes 4 (md_flags m) @ le_bytes 2 (blob_offset (md_key m)) @ le_bytes 2 (blob_size (md_key m)) @
     le_bytes 2 (blob_offset (md_value m)) @ le_bytes 2 (blob_size (md_value m))"

definition metadata_of :: "u8 list \<Rightarrow> fd_key_value_store_metadata_t" where
  "metadata_of bs = \<lparr>md_flags = le_value (take 4 bs),
     md_key = \<lparr>blob_offset = le_value (take 2 (drop 4 bs)), blob_size = le_value (take 2 (drop 6 bs))\<rparr>,
     md_value = \<lparr>blob_offset = le_value (take 2 (drop 8 bs)), blob_size = le_value (take 2 (drop 10 bs))\<rparr>\<rparr>"

definition fd_key_value_store_get_metadata :: "fd_key_value_store_t \<Rightarrow> nat \<Rightarrow> nat \<Rightarrow> fd_key_value_store_metadata_t option" where
  "fd_key_value_store_get_metadata s page index =
     (let page_address = fd_key_value_store_get_page_address s page;
          offset = size_sub (kvs_page_size s) ((index + 1) * metadata_size)
      in do { bs \<leftarrow> rd_block (kvs_flash s) (page_address + offset) metadata_size; Some (metadata_of bs) })"

function metadata_count_loop :: "fd_key_value_store_t \<Rightarrow> nat \<Rightarrow> nat \<Rightarrow> nat \<Rightarrow> nat option" where
  "metadata_count_loop s page max_count i =
     (if i < max_count then
        do { metadata \<leftarrow> fd_key_value_store_get_metadata s page i;
             if md_flags metadata = 0xffffffff then Some i else metadata_count_loop s page max_count (i + 1) }
      else Some 0)"
  by pat_completeness auto
termination by (relation "measure (\<lambda>(s, page, max_count, i). max_count - i)") auto

definition fd_key_value_store_get_metadata_count :: "fd_key_value_store_t \<Rightarrow> nat \<Rightarrow> nat option" where
  "fd_key_value_store_get_metadata_count s page =
     metadata_count_loop s page (kvs_page_size s div metadata_size) 0"

definition fd_key_value_store_is_page_empty :: "fd_key_value_store_t \<Rightarrow> nat \<Rightarrow> (bool \<times> fd_key_value_store_t) option" where
  "fd_key_value_store_is_page_empty s page =
     do { metadata \<leftarrow> fd_key_value_store_get_metadata s page 0;
          if md_flags metadata \<noteq> 0xffffffff then Some (False, s)
          else do {
            bytes \<leftarrow> rd_block (kvs_flash s) (fd_key_value_store_get_page_address s page) (kvs_page_size s);
            Some (True, kvs_assert (\<forall>b \<in> set bytes. b = 0xff) ''empty'' s) } }"

function occupied_loop :: "nat \<Rightarrow> fd_key_value_store_t \<Rightarrow> (nat option \<times> fd_key_value_store_t) option" where
  "occupied_loop i s =
     (if i < kvs_page_count s then
        do { (is_empty, s') \<leftarrow> fd_key_value_store_is_page_empty s i;
             if \<not> is_empty then Some (Some i, s')
             else occupied_loop (i + 1) s' }
      else Some (None, s))"
  by pat_completeness auto
termination
  by (relation "measure (\<lambda>(i, s). kvs_page_count s - i)")
    (auto simp: fd_key_value_store_is_page_empty_def kvs_assert_def split: Option.bind_splits if_splits)

function empty_loop :: "nat \<Rightarrow> nat \<Rightarrow> fd_key_value_store_t \<Rightarrow> (nat option \<times> fd_key_value_store_t) option" where
  "empty_loop first_occupied_page i s =
     (if i < kvs_page_count s then
        do { let page = (first_occupied_page + i) mod kvs_page_count s;
             (is_empty, s') \<leftarrow> fd_key_value_store_is_page_empty s page;
             if is_empty then Some (Some page, s')
             else empty_loop first_occupied_page (i + 1) s' }
      else Some (None, s))"
  by pat_completeness auto
termination
  by (relation "measure (\<lambda>(first_occupied_page, i, s). kvs_page_count s - i)")
    (auto simp: fd_key_value_store_is_page_empty_def kvs_assert_def split: Option.bind_splits if_splits)

definition fd_key_value_store_get_current_page :: "fd_key_value_store_t \<Rightarrow> (bool \<times> nat \<times> fd_key_value_store_t) option" where
  "fd_key_value_store_get_current_page s =
     do { let s = s\<lparr>kvs_is_full := False\<rparr>;
          (occupied, s) \<leftarrow> occupied_loop 0 s;
          case occupied of
            None \<Rightarrow> Some (True, 0, s)
          | Some first_occupied_page \<Rightarrow>
              do { (found, s) \<leftarrow> empty_loop first_occupied_page 1 s;
                   case found of
                     None \<Rightarrow> Some (False, 0, s)
                   | Some first_empty_page \<Rightarrow>
                       Some (True, (first_empty_page + kvs_page_count s - 1) mod kvs_page_count s, s) } }"

definition fd_key_value_store_update_current :: "fd_key_value_store_t \<Rightarrow> fd_key_value_store_t option" where
  "fd_key_value_store_update_current s =
     do { let s = s\<lparr>kvs_current := (kvs_current s)\<lparr>cur_data_byte_count := 0, cur_metadata_count := 0\<rparr>\<rparr>;
          (result, page, s) \<leftarrow> fd_key_value_store_get_current_page s;
          let s = s\<lparr>kvs_current := (kvs_current s)\<lparr>cur_page := page\<rparr>, kvs_is_full := \<not> result\<rparr>;
          if kvs_is_full s then Some s
          else do {
            count \<leftarrow> fd_key_value_store_get_metadata_count s page;
            let s = s\<lparr>kvs_current := (kvs_current s)\<lparr>cur_metadata_count := count\<rparr>\<rparr>;
            if count = 0 then Some s
            else do {
              metadata \<leftarrow> fd_key_value_store_get_metadata s page (count - 1);
              let data_size = fd_key_value_store_get_write_size s
                    (unat (blob_size (md_key metadata)) + unat (blob_size (md_value metadata)));
              Some (s\<lparr>kvs_current := (kvs_current s)\<lparr>cur_data_byte_count :=
                unat (blob_offset (md_key metadata)) + data_size\<rparr>\<rparr>) } } }"

section \<open>Lookup\<close>

text \<open>\<open>strncmp\<close> of two blocks of the same size is 0: it stops at a null byte.\<close>

fun strncmp_0 :: "u8 list \<Rightarrow> u8 list \<Rightarrow> bool" where
  "strncmp_0 (x # xs) (y # ys) = (x = y \<and> (x = 0 \<or> strncmp_0 xs ys))"
| "strncmp_0 _ _ = True"

text \<open>The address and size of the value; \<open>None\<close> inside is the null pointer.\<close>

function lookup_on_page_loop :: "fd_key_value_store_t \<Rightarrow> nat \<Rightarrow> nat \<Rightarrow> u8 list \<Rightarrow> nat \<Rightarrow> (nat \<times> nat) option option" where
  "lookup_on_page_loop s page metadata_count key i =
     (if i < metadata_count then
        do { metadata \<leftarrow> fd_key_value_store_get_metadata s page (metadata_count - 1 - i);
             let page_address = fd_key_value_store_get_page_address s page;
             equal \<leftarrow> (if unat (blob_size (md_key metadata)) = length key
                       then do { bytes \<leftarrow> rd_block (kvs_flash s) (page_address + unat (blob_offset (md_key metadata))) (length key);
                                 Some (strncmp_0 key bytes) }
                       else Some False);
             if equal then
               if md_flags metadata AND fd_key_value_store_metadata_flags_removed \<noteq> 0 then Some None
               else Some (Some (page_address + unat (blob_offset (md_value metadata)), unat (blob_size (md_value metadata))))
             else lookup_on_page_loop s page metadata_count key (i + 1) }
      else Some None)"
  by pat_completeness auto
termination by (relation "measure (\<lambda>(s, page, metadata_count, key, i). metadata_count - i)") auto

definition fd_key_value_store_lookup_on_page :: "fd_key_value_store_t \<Rightarrow> nat \<Rightarrow> u8 list \<Rightarrow> (nat \<times> nat) option option" where
  "fd_key_value_store_lookup_on_page s page key =
     do { metadata_count \<leftarrow> fd_key_value_store_get_metadata_count s page;
          lookup_on_page_loop s page metadata_count key 0 }"

partial_function (option) lookup_loop :: "fd_key_value_store_t \<Rightarrow> u8 list \<Rightarrow> nat \<Rightarrow> (nat \<times> nat) option option" where
  "lookup_loop s key page =
     do { data \<leftarrow> fd_key_value_store_lookup_on_page s page key;
          if data \<noteq> None then Some data
          else do {
            let page = (if page > 0 then page - 1 else size_sub (kvs_page_count s) 1);
            if page \<noteq> cur_page (kvs_current s) then lookup_loop s key page else Some None } }"

definition fd_key_value_store_lookup :: "fd_key_value_store_t \<Rightarrow> u8 list \<Rightarrow> (nat \<times> nat) option option" where
  "fd_key_value_store_lookup s key = lookup_loop s key (cur_page (kvs_current s))"

definition fd_key_value_store_has :: "fd_key_value_store_t \<Rightarrow> u8 list \<Rightarrow> bool option" where
  "fd_key_value_store_has s key = do { data \<leftarrow> fd_key_value_store_lookup s key; Some (data \<noteq> None) }"

text \<open>\<open>pb_decode\<close> gets the bytes of the value and gives the object, or fails with an error message.\<close>

definition fd_key_value_store_get ::
  "(u8 list \<Rightarrow> 'a option) \<Rightarrow> u8 list \<Rightarrow> fd_key_value_store_t \<Rightarrow> ((bool \<times> 'a option) \<times> fd_key_value_store_t) option" where
  "fd_key_value_store_get pb_decode key s =
     do { found \<leftarrow> fd_key_value_store_lookup s key;
          case found of
            None \<Rightarrow> Some ((False, None), s)
          | Some (data, n) \<Rightarrow>
              do { bytes \<leftarrow> rd_block (kvs_flash s) data n;
                   let result = pb_decode bytes;
                   let s = kvs_assert (result \<noteq> None) ''result'' s;
                   let s = kvs_assert (result \<noteq> None) ''stream.errmsg == NULL'' s;
                   Some ((result \<noteq> None, result), s) } }"

section \<open>Writing\<close>

text \<open>When the area cannot be opened the code asserts and goes on with a pointer it never set.\<close>

definition fd_key_value_store_nvm_erase :: "flash_area \<Rightarrow> nat \<Rightarrow> fd_key_value_store_t \<Rightarrow> fd_key_value_store_t option" where
  "fd_key_value_store_nvm_erase fa page s =
     (if flash_area_open fa \<noteq> 0 then None
      else let (result, flash) = flash_area_erase fa (page * kvs_page_size s) (kvs_page_size s) (kvs_flash s)
           in Some (kvs_assert (result = 0) ''result == 0'' (s\<lparr>kvs_flash := flash\<rparr>)))"

definition fd_key_value_store_nvm_write :: "flash_area \<Rightarrow> nat \<Rightarrow> u8 list \<Rightarrow> fd_key_value_store_t \<Rightarrow> fd_key_value_store_t option" where
  "fd_key_value_store_nvm_write fa offset data s =
     (if flash_area_open fa \<noteq> 0 then None
      else let (result, flash) = flash_area_write fa offset data (kvs_flash s)
           in Some (kvs_assert (result = 0) ''result == 0'' (s\<lparr>kvs_flash := flash\<rparr>)))"

definition fd_key_value_store_ostream_write :: "flash_area \<Rightarrow> fd_key_value_store_t \<Rightarrow> fd_key_value_store_t option" where
  "fd_key_value_store_ostream_write fa s =
     do { let count = os_count (kvs_ostream_state s);
          let s = kvs_assert (count \<le> 16) ''state->count <= sizeof(state->buffer)'' s;
          let offset = cur_page (kvs_current s) * kvs_page_size s + kvs_data_write_offset s;
          data \<leftarrow> rd_block (os_buffer (kvs_ostream_state s)) 0 count;
          s \<leftarrow> fd_key_value_store_nvm_write fa offset data s;
          Some (s\<lparr>kvs_data_write_offset := kvs_data_write_offset s + count,
            kvs_ostream_state := (kvs_ostream_state s)\<lparr>os_count := 0\<rparr>\<rparr>) }"

definition fd_key_value_store_ostream_flush :: "flash_area \<Rightarrow> fd_key_value_store_t \<Rightarrow> fd_key_value_store_t option" where
  "fd_key_value_store_ostream_flush fa s =
     (let count = os_count (kvs_ostream_state s) in
      if count = 0 then Some s
      else fd_key_value_store_ostream_write fa
             (s\<lparr>kvs_ostream_state := (kvs_ostream_state s)\<lparr>os_count := fd_key_value_store_get_write_size s count\<rparr>\<rparr>))"

fun fd_key_value_store_ostream_callback :: "flash_area \<Rightarrow> u8 list \<Rightarrow> fd_key_value_store_t \<Rightarrow> fd_key_value_store_t option" where
  "fd_key_value_store_ostream_callback fa [] s = Some s"
| "fd_key_value_store_ostream_callback fa (b # data) s =
     do { s \<leftarrow> (if os_count (kvs_ostream_state s) \<ge> 16 then fd_key_value_store_ostream_write fa s else Some s);
          buffer \<leftarrow> wr (os_buffer (kvs_ostream_state s)) (os_count (kvs_ostream_state s)) b;
          fd_key_value_store_ostream_callback fa data
            (s\<lparr>kvs_ostream_state := \<lparr>os_buffer = buffer, os_count = os_count (kvs_ostream_state s) + 1\<rparr>\<rparr>) }"

definition fd_key_value_store_ostream :: "fd_key_value_store_t \<Rightarrow> fd_key_value_store_t" where
  "fd_key_value_store_ostream s = s\<lparr>kvs_ostream_state := (kvs_ostream_state s)\<lparr>os_count := 0\<rparr>\<rparr>"

text \<open>\<open>pb_encode\<close> calls the callback of the stream with each chunk and counts the bytes.\<close>

fun pb_encode_chunks :: "flash_area \<Rightarrow> u8 list list \<Rightarrow> fd_key_value_store_t \<Rightarrow> fd_key_value_store_t option" where
  "pb_encode_chunks fa [] s = Some s"
| "pb_encode_chunks fa (chunk # chunks) s =
     do { s \<leftarrow> fd_key_value_store_ostream_callback fa chunk s; pb_encode_chunks fa chunks s }"

definition fd_key_value_store_current_free_bytes :: "fd_key_value_store_t \<Rightarrow> nat \<times> fd_key_value_store_t" where
  "fd_key_value_store_current_free_bytes s =
     (let used = cur_data_byte_count (kvs_current s) + cur_metadata_count (kvs_current s) * metadata_size in
      (size_sub (kvs_page_size s) used,
       kvs_assert (used \<le> kvs_page_size s) ''used <= fd_key_value_store.page_size'' s))"

definition fd_key_value_store_set_commit ::
  "flash_area \<Rightarrow> nat \<Rightarrow> nat \<Rightarrow> nat \<Rightarrow> u32 \<Rightarrow> fd_key_value_store_t \<Rightarrow> fd_key_value_store_t option" where
  "fd_key_value_store_set_commit fa key_size value_size data_size flags s =
     (let current = kvs_current s;
          metadata = \<lparr>md_flags = flags,
            md_key = \<lparr>blob_offset = of_nat (cur_data_byte_count current), blob_size = of_nat key_size\<rparr>,
            md_value = \<lparr>blob_offset = of_nat (cur_data_byte_count current + key_size), blob_size = of_nat value_size\<rparr>\<rparr>;
          current = current\<lparr>cur_data_byte_count := cur_data_byte_count current + data_size,
            cur_metadata_count := cur_metadata_count current + 1\<rparr>;
          s = s\<lparr>kvs_current := current\<rparr>;
          offset = size_sub (cur_page current * kvs_page_size s + kvs_page_size s) (cur_metadata_count current * metadata_size)
      in fd_key_value_store_nvm_write fa offset (metadata_bytes metadata) s)"

definition fd_key_value_store_write ::
  "flash_area \<Rightarrow> u8 list \<Rightarrow> u8 list \<Rightarrow> u32 \<Rightarrow> fd_key_value_store_t \<Rightarrow> fd_key_value_store_t option" where
  "fd_key_value_store_write fa key v flags s =
     do { let s = s\<lparr>kvs_data_write_offset := cur_data_byte_count (kvs_current s)\<rparr>;
          let s = fd_key_value_store_ostream s;
          s \<leftarrow> fd_key_value_store_ostream_callback fa key s;
          s \<leftarrow> fd_key_value_store_ostream_callback fa v s;
          s \<leftarrow> fd_key_value_store_ostream_flush fa s;
          let data_size = fd_key_value_store_get_write_size s (length key + length v);
          fd_key_value_store_set_commit fa (length key) (length v) data_size flags s }"

section \<open>Garbage collection and allocation\<close>

text \<open>One record of the page being collected.\<close>

definition collect_record :: "flash_area \<Rightarrow> nat \<Rightarrow> nat \<Rightarrow> fd_key_value_store_t \<Rightarrow> fd_key_value_store_t option" where
  "collect_record fa page i s =
     do { let page_address = fd_key_value_store_get_page_address s page;
          metadata \<leftarrow> fd_key_value_store_get_metadata s page i;
          if md_flags metadata AND fd_key_value_store_metadata_flags_removed \<noteq> 0 then Some s
          else do {
            key \<leftarrow> rd_block (kvs_flash s) (page_address + unat (blob_offset (md_key metadata))) (unat (blob_size (md_key metadata)));
            data \<leftarrow> fd_key_value_store_lookup_on_page s (cur_page (kvs_current s)) key;
            if data \<noteq> None then Some s
            else do {
              data \<leftarrow> fd_key_value_store_lookup s key;
              if data = None then Some s
              else do {
                v \<leftarrow> rd_block (kvs_flash s) (page_address + unat (blob_offset (md_value metadata))) (unat (blob_size (md_value metadata)));
                fd_key_value_store_write fa key v 0 s } } } }"

fun collect_loop :: "flash_area \<Rightarrow> nat \<Rightarrow> nat list \<Rightarrow> fd_key_value_store_t \<Rightarrow> fd_key_value_store_t option" where
  "collect_loop fa page [] s = Some s"
| "collect_loop fa page (i # is) s = do { s \<leftarrow> collect_record fa page i s; collect_loop fa page is s }"

definition fd_key_value_store_garbage_collect :: "flash_area \<Rightarrow> fd_key_value_store_t \<Rightarrow> fd_key_value_store_t option" where
  "fd_key_value_store_garbage_collect fa s =
     do { let page = (cur_page (kvs_current s) + 1) mod kvs_page_count s;
          (is_empty, s) \<leftarrow> fd_key_value_store_is_page_empty s page;
          let s = kvs_assert (\<not> is_empty) ''!fd_key_value_store_is_page_empty(page)'' s;
          metadata_count \<leftarrow> fd_key_value_store_get_metadata_count s page;
          s \<leftarrow> collect_loop fa page [0..<metadata_count] s;
          s \<leftarrow> fd_key_value_store_nvm_erase fa page s;
          Some (s\<lparr>kvs_garbage_collection_count := kvs_garbage_collection_count s + 1\<rparr>) }"

definition fd_key_value_store_advance_current_page :: "fd_key_value_store_t \<Rightarrow> fd_key_value_store_t option" where
  "fd_key_value_store_advance_current_page s =
     do { let page = (cur_page (kvs_current s) + 1) mod kvs_page_count s;
          (is_empty, s) \<leftarrow> fd_key_value_store_is_page_empty s page;
          let s = kvs_assert is_empty ''fd_key_value_store_is_page_empty(page)'' s;
          Some (s\<lparr>kvs_current := \<lparr>cur_page = page, cur_data_byte_count = 0, cur_metadata_count = 0\<rparr>\<rparr>) }"

partial_function (option) allocate_loop ::
  "flash_area \<Rightarrow> nat \<Rightarrow> nat \<Rightarrow> fd_key_value_store_t \<Rightarrow> (bool \<times> fd_key_value_store_t) option" where
  "allocate_loop fa n collection_count s =
     do { let (free, s) = fd_key_value_store_current_free_bytes s;
          if n \<le> free then
            Some (True, s\<lparr>kvs_data_write_offset := cur_data_byte_count (kvs_current s)\<rparr>)
          else do {
            s \<leftarrow> fd_key_value_store_advance_current_page s;
            let skip_page = (cur_page (kvs_current s) + 1) mod kvs_page_count s;
            (is_empty, s) \<leftarrow> fd_key_value_store_is_page_empty s skip_page;
            if is_empty then allocate_loop fa n collection_count s
            else do {
              s \<leftarrow> fd_key_value_store_garbage_collect fa s;
              let collection_count = collection_count + 1;
              if collection_count > kvs_page_count s then Some (False, s\<lparr>kvs_is_full := True\<rparr>)
              else allocate_loop fa n collection_count s } } }"

definition fd_key_value_store_allocate :: "flash_area \<Rightarrow> nat \<Rightarrow> fd_key_value_store_t \<Rightarrow> (bool \<times> fd_key_value_store_t) option" where
  "fd_key_value_store_allocate fa n s =
     (if kvs_is_full s then Some (False, s) else allocate_loop fa n 0 s)"

definition fd_key_value_store_allocate_key_value ::
  "flash_area \<Rightarrow> nat \<Rightarrow> nat \<Rightarrow> fd_key_value_store_t \<Rightarrow> (bool \<times> nat \<times> fd_key_value_store_t) option" where
  "fd_key_value_store_allocate_key_value fa key_size value_size s =
     do { let data_size = fd_key_value_store_get_write_size s (key_size + value_size);
          let required = data_size + metadata_size + metadata_size;
          (result, s) \<leftarrow> fd_key_value_store_allocate fa required s;
          Some (result, data_size, kvs_assert result ''result'' s) }"

section \<open>The interface\<close>

definition notify_set :: "u8 list \<Rightarrow> fd_key_value_store_t \<Rightarrow> fd_key_value_store_t" where
  "notify_set key s = s\<lparr>kvs_events := kvs_events s @
     map (\<lambda>listener. was_set (li_context listener) key) (filter li_was_set (kvs_listeners s))\<rparr>"

definition notify_removed :: "u8 list \<Rightarrow> fd_key_value_store_t \<Rightarrow> fd_key_value_store_t" where
  "notify_removed key s = s\<lparr>kvs_events := kvs_events s @
     map (\<lambda>listener. was_removed (li_context listener) key) (filter li_was_removed (kvs_listeners s))\<rparr>"

definition notify_erased :: "fd_key_value_store_t \<Rightarrow> fd_key_value_store_t" where
  "notify_erased s = s\<lparr>kvs_events := kvs_events s @
     map (\<lambda>listener. was_erased (li_context listener)) (filter li_was_erased (kvs_listeners s))\<rparr>"

definition fd_key_value_store_add ::
  "flash_area \<Rightarrow> u8 list \<Rightarrow> u8 list list option \<Rightarrow> fd_key_value_store_t \<Rightarrow> (bool \<times> fd_key_value_store_t) option" where
  "fd_key_value_store_add fa key obj s =
     do { let key_size = length key;
          let value_size = (case obj of None \<Rightarrow> 0 | Some chunks \<Rightarrow> length (concat chunks));
          (result, data_size, s) \<leftarrow> fd_key_value_store_allocate_key_value fa key_size value_size s;
          if \<not> result then Some (False, s)
          else do {
            let s = fd_key_value_store_ostream s;
            s \<leftarrow> fd_key_value_store_ostream_callback fa key s;
            s \<leftarrow> (case obj of None \<Rightarrow> Some s
                   | Some chunks \<Rightarrow> do {
                       s \<leftarrow> pb_encode_chunks fa chunks s;
                       Some (kvs_assert (length (concat chunks) = value_size) ''stream.bytes_written == value_size'' s) });
            s \<leftarrow> fd_key_value_store_ostream_flush fa s;
            s \<leftarrow> fd_key_value_store_set_commit fa key_size value_size data_size
                   (if obj = None then fd_key_value_store_metadata_flags_removed else 0) s;
            Some (True, if obj \<noteq> None then notify_set key s else notify_removed key s) } }"

definition fd_key_value_store_is_set :: "fd_key_value_store_t \<Rightarrow> u8 list \<Rightarrow> bool option" where
  "fd_key_value_store_is_set s key = do { data \<leftarrow> fd_key_value_store_lookup s key; Some (data \<noteq> None) }"

fun fd_key_value_store_equal_stream_callback ::
  "u8 list \<Rightarrow> fd_key_value_store_equal_stream_state_t \<Rightarrow> fd_key_value_store_equal_stream_state_t option" where
  "fd_key_value_store_equal_stream_callback [] state = Some state"
| "fd_key_value_store_equal_stream_callback (b # data) state =
     do { state \<leftarrow> (if eq_count state < eq_size state
                     then do { v \<leftarrow> rd (eq_value state) (eq_count state);
                               let state = (if b \<noteq> v then state\<lparr>eq_is_equal := False\<rparr> else state);
                               Some (state\<lparr>eq_count := eq_count state + 1\<rparr>) }
                     else Some state);
          fd_key_value_store_equal_stream_callback data state }"

definition fd_key_value_store_equal_stream :: "u8 list \<Rightarrow> nat \<Rightarrow> fd_key_value_store_equal_stream_state_t" where
  "fd_key_value_store_equal_stream v n = \<lparr>eq_value = v, eq_size = n, eq_count = 0, eq_is_equal = True\<rparr>"

definition fd_key_value_store_is_set_to ::
  "u8 list \<Rightarrow> u8 list list \<Rightarrow> fd_key_value_store_t \<Rightarrow> (bool \<times> fd_key_value_store_t) option" where
  "fd_key_value_store_is_set_to key chunks s =
     do { found \<leftarrow> fd_key_value_store_lookup s key;
          (v, n) \<leftarrow> (case found of None \<Rightarrow> Some ([], 0)
                      | Some (data, n) \<Rightarrow> do { v \<leftarrow> rd_block (kvs_flash s) data n; Some (v, n) });
          state \<leftarrow> fd_key_value_store_equal_stream_callback (concat chunks) (fd_key_value_store_equal_stream v n);
          Some (eq_is_equal state \<and> length (concat chunks) = n, s\<lparr>kvs_equal_stream_state := state\<rparr>) }"

definition fd_key_value_store_set ::
  "flash_area \<Rightarrow> u8 list \<Rightarrow> u8 list list \<Rightarrow> fd_key_value_store_t \<Rightarrow> (bool \<times> fd_key_value_store_t) option" where
  "fd_key_value_store_set fa key chunks s =
     do { (is_set_to, s) \<leftarrow> fd_key_value_store_is_set_to key chunks s;
          if is_set_to then Some (True, s)
          else do {
            (result, s) \<leftarrow> fd_key_value_store_add fa key (Some chunks) s;
            if \<not> result then Some (False, s) else Some (True, notify_set key s) } }"

definition fd_key_value_store_remove ::
  "flash_area \<Rightarrow> u8 list \<Rightarrow> fd_key_value_store_t \<Rightarrow> (bool \<times> fd_key_value_store_t) option" where
  "fd_key_value_store_remove fa key s =
     do { is_set \<leftarrow> fd_key_value_store_is_set s key;
          if \<not> is_set then Some (True, s)
          else do {
            (result, s) \<leftarrow> fd_key_value_store_add fa key None s;
            if \<not> result then Some (False, s) else Some (True, notify_removed key s) } }"

fun erase_loop :: "flash_area \<Rightarrow> nat list \<Rightarrow> fd_key_value_store_t \<Rightarrow> fd_key_value_store_t option" where
  "erase_loop fa [] s = Some s"
| "erase_loop fa (i # is) s = do { s \<leftarrow> fd_key_value_store_nvm_erase fa i s; erase_loop fa is s }"

definition fd_key_value_store_erase :: "flash_area \<Rightarrow> fd_key_value_store_t \<Rightarrow> fd_key_value_store_t option" where
  "fd_key_value_store_erase fa s =
     do { s \<leftarrow> erase_loop fa [0..<kvs_page_count s] s;
          s \<leftarrow> fd_key_value_store_update_current s;
          Some (notify_erased s) }"

text \<open>\<open>flash_area_get_sectors\<close> reports the number of sectors; its result code is a parameter too.\<close>

definition fd_key_value_store_initialize :: "int \<Rightarrow> nat \<Rightarrow> fd_key_value_store_t \<Rightarrow> fd_key_value_store_t option" where
  "fd_key_value_store_initialize result count s =
     do { let s = s\<lparr>kvs_minumum_write_size := 4, kvs_page_size := 4096\<rparr>;
          let s = kvs_assert (result = 0) ''result == 0'' s;
          let s = s\<lparr>kvs_page_count := count\<rparr>;
          let s = kvs_assert (kvs_page_count s \<ge> 2) ''fd_key_value_store.page_count >= 2'' s;
          fd_key_value_store_update_current s }"

end
