(* ===== verification/FD_KeyValueLog.thy ===== *)
theory FD_KeyValueLog imports FD_KeyValueStore begin

text \<open>
  The log behind \<open>fd_key_value_store.c\<close>, and the proof that the code keeps it. The flash is read as one list of
  records per page (\<open>page_holds\<close>, \<open>kvs_holds\<close>); lookup, writing a record, collecting a page, advancing, erasing,
  allocating, \<open>fd_key_value_store_add\<close> and \<open>fd_key_value_store_set\<close> are each shown to do on the bytes what a function
  on these lists does (\<open>store_lookup\<close>, \<open>gc_logs\<close>, \<open>alloc_logs\<close>, \<open>add_logs\<close>), under the documented behaviour of the flash driver
  (\<open>flash_area_ok\<close>). The last two sections are about the lists alone: what collecting a page does to a key,
  and the order of the pages in use (\<open>fifo\<close>), which is what finding the current page after a reset relies on.
\<close>

section \<open>Logs and pages\<close>

text \<open>A record as a key and a value, or as the removal of a key.\<close>

record kv_entry =
  kv_removed :: bool
  kv_key :: "u8 list"
  kv_value :: "u8 list"

definition round4 :: "nat \<Rightarrow> nat" where
  "round4 n = 4 * ((n + 3) div 4)"

definition kv_size :: "kv_entry \<Rightarrow> nat" where
  "kv_size e = round4 (length (kv_key e) + length (kv_value e))"

definition data_size :: "kv_entry list \<Rightarrow> nat" where
  "data_size es = sum_list (map kv_size es)"

definition entry_metadata :: "nat \<Rightarrow> kv_entry \<Rightarrow> fd_key_value_store_metadata_t" where
  "entry_metadata off e = \<lparr>md_flags = (if kv_removed e then 1 else 0),
     md_key = \<lparr>blob_offset = of_nat off, blob_size = of_nat (length (kv_key e))\<rparr>,
     md_value = \<lparr>blob_offset = of_nat (off + length (kv_key e)), blob_size = of_nat (length (kv_value e))\<rparr>\<rparr>"

text \<open>The bytes of a page hold a log.\<close>

definition page_holds :: "u8 list \<Rightarrow> kv_entry list \<Rightarrow> bool" where
  "page_holds bs es \<longleftrightarrow>
     data_size es + 12 * (length es + 1) \<le> length bs \<and>
     (\<forall>i < length es. rd_block bs (length bs - 12 * (i + 1)) 12 =
        Some (metadata_bytes (entry_metadata (data_size (take i es)) (es ! i)))) \<and>
     (\<forall>i < length es. rd_block bs (data_size (take i es)) (length (kv_key (es ! i)) + length (kv_value (es ! i))) =
        Some (kv_key (es ! i) @ kv_value (es ! i))) \<and>
     (\<forall>j. data_size es \<le> j \<longrightarrow> j < length bs - 12 * length es \<longrightarrow> bs ! j = 0xff)"

text \<open>Page \<open>p\<close> of the partition.\<close>

definition page_bytes :: "fd_key_value_store_t \<Rightarrow> nat \<Rightarrow> u8 list" where
  "page_bytes s p = take (kvs_page_size s) (drop (p * kvs_page_size s) (kvs_flash s))"

definition kvs_shape :: "fd_key_value_store_t \<Rightarrow> bool" where
  "kvs_shape s \<longleftrightarrow> 2 \<le> kvs_page_count s \<and> kvs_minumum_write_size s = 4 \<and> 4 dvd kvs_page_size s \<and>
     24 \<le> kvs_page_size s \<and> kvs_page_size s < 2 ^ 16 \<and> length (kvs_flash s) = kvs_page_count s * kvs_page_size s \<and>
     length (os_buffer (kvs_ostream_state s)) = 16"

text \<open>The store holds one log per page, and the current page and its counts are those of its log. Keys are
  strings, without null bytes.\<close>

definition keys_ok :: "kv_entry list list \<Rightarrow> bool" where
  "keys_ok ls \<longleftrightarrow> (\<forall>es \<in> set ls. \<forall>e \<in> set es. 0 \<notin> set (kv_key e))"

definition kvs_holds :: "fd_key_value_store_t \<Rightarrow> kv_entry list list \<Rightarrow> bool" where
  "kvs_holds s ls \<longleftrightarrow> kvs_shape s \<and> length ls = kvs_page_count s \<and> keys_ok ls \<and>
     (\<forall>p < kvs_page_count s. page_holds (page_bytes s p) (ls ! p)) \<and>
     cur_page (kvs_current s) < kvs_page_count s \<and>
     cur_data_byte_count (kvs_current s) = data_size (ls ! cur_page (kvs_current s)) \<and>
     cur_metadata_count (kvs_current s) = length (ls ! cur_page (kvs_current s))"

text \<open>What the flash map driver promises: erasing a page fills it with ones, and writing whole write blocks
  into erased bytes stores them.\<close>

definition erased :: "u8 list \<Rightarrow> nat \<Rightarrow> nat \<Rightarrow> bool" where
  "erased bs off n \<longleftrightarrow> off + n \<le> length bs \<and> (\<forall>j. off \<le> j \<longrightarrow> j < off + n \<longrightarrow> bs ! j = 0xff)"

definition flash_area_ok :: "nat \<Rightarrow> flash_area \<Rightarrow> bool" where
  "flash_area_ok page_size fa \<longleftrightarrow> flash_area_open fa = 0 \<and>
     (\<forall>flash p. (p + 1) * page_size \<le> length flash \<longrightarrow>
        flash_area_erase fa (p * page_size) page_size flash =
          (0, take (p * page_size) flash @ replicate page_size 0xff @ drop ((p + 1) * page_size) flash)) \<and>
     (\<forall>flash off data. 4 dvd off \<longrightarrow> 4 dvd length data \<longrightarrow> erased flash off (length data) \<longrightarrow>
        flash_area_write fa off data flash = (0, take off flash @ data @ drop (off + length data) flash))"

section \<open>Sizes\<close>

lemma round4_dvd [simp]: "4 dvd round4 n" "n \<le> round4 n"
  by (simp_all add: round4_def)

lemma data_size_simps [simp]: "data_size [] = 0" "data_size (e # es) = kv_size e + data_size es"
  "data_size (es @ fs) = data_size es + data_size fs"
  by (simp_all add: data_size_def)

lemma data_size_dvd [simp]: "4 dvd data_size es"
  by (induction es) (simp_all add: kv_size_def)

lemma and_not_3: "w AND NOT 3 = push_bit 2 (drop_bit 2 w)" for w :: u32
proof (rule bit_word_eqI)
  fix j
  have "(3 :: u32) = mask 2" by (simp add: mask_eq_exp_minus_1)
  then have "bit (3 :: u32) j \<longleftrightarrow> j < 2" by (simp only: bit_mask_iff) auto
  then show "bit (w AND NOT 3) j = bit (push_bit 2 (drop_bit 2 w)) j" if "j < LENGTH(32)"
    using that le_add_diff_inverse[of 2 j]
    unfolding bit_and_iff bit_not_iff bit_push_bit_iff bit_drop_bit_eq comp_apply possible_bit_word
    by (metis not_less)
qed

lemma write_size_4:
  assumes "kvs_minumum_write_size s = 4" "n + 3 < 2 ^ 32"
  shows "fd_key_value_store_get_write_size s n = round4 n"
proof -
  define w where "w = (of_nat (n + 3) :: u32)"
  have w: "unat w = n + 3" using assms(2) unfolding w_def unsigned_of_nat by (simp add: take_bit_nat_eq_self)
  have "4 * ((n + 3) div 4) < 2 ^ 32" using assms(2) by linarith
  then have "unat (push_bit 2 (drop_bit 2 w)) = 4 * ((n + 3) div 4)"
    unfolding unsigned_push_bit_eq unat_drop_bit w by (simp add: push_bit_eq_mult take_bit_nat_eq_self mult.commute)
  moreover have "of_nat n + (of_nat 4 - 1) = w" "of_nat 4 - 1 = (3 :: u32)" by (simp_all add: w_def)
  ultimately show ?thesis
    unfolding fd_key_value_store_get_write_size_def Let_def assms(1) round4_def by (simp only: and_not_3)
qed

lemma length_metadata_bytes [simp]: "length (metadata_bytes m) = 12"
  by (simp add: metadata_bytes_def)

lemma metadata_of_bytes: "metadata_of (metadata_bytes m) = m"
proof -
  have "(le_value (le_bytes 4 w) :: u32) = w" "(le_value (le_bytes 2 v) :: u16) = v" for w v
    by (simp_all add: le_value_bytes take_bit_word_eq_self)
  then show ?thesis by (simp add: metadata_of_def metadata_bytes_def del: le_bytes.simps le_value.simps)
qed

section \<open>Pages of the partition\<close>

lemma page_range:
  assumes "kvs_shape s" "p < kvs_page_count s"
  shows "p * kvs_page_size s + kvs_page_size s \<le> length (kvs_flash s)"
proof -
  have "Suc p * kvs_page_size s \<le> kvs_page_count s * kvs_page_size s" using assms(2) by (intro mult_le_mono1) simp
  then show ?thesis using assms(1) by (simp add: kvs_shape_def)
qed

lemma length_page_bytes: "kvs_shape s \<Longrightarrow> p < kvs_page_count s \<Longrightarrow> length (page_bytes s p) = kvs_page_size s"
  using page_range[of s p] by (simp add: page_bytes_def)

lemma rd_page:
  assumes "kvs_shape s" "p < kvs_page_count s" "off + n \<le> kvs_page_size s"
  shows "rd_block (kvs_flash s) (p * kvs_page_size s + off) n = rd_block (page_bytes s p) off n"
proof -
  have "p * kvs_page_size s + off + n \<le> length (kvs_flash s)" "off + n \<le> length (page_bytes s p)"
    using page_range[OF assms(1,2)] length_page_bytes[OF assms(1,2)] assms(3) by simp_all
  moreover have "min n (kvs_page_size s - off) = n" using assms(3) by simp
  ultimately show ?thesis by (simp add: rd_block_def page_bytes_def drop_take add.commute)
qed

definition put :: "u8 list \<Rightarrow> nat \<Rightarrow> u8 list \<Rightarrow> u8 list" where
  "put xs off ys = take off xs @ ys @ drop (off + length ys) xs"

lemma length_put [simp]: "off + length ys \<le> length xs \<Longrightarrow> length (put xs off ys) = length xs"
  by (simp add: put_def)

lemma nth_put: "off + length ys \<le> length xs \<Longrightarrow> j < length xs \<Longrightarrow>
    put xs off ys ! j = (if off \<le> j \<and> j < off + length ys then ys ! (j - off) else xs ! j)"
  by (auto simp: put_def nth_append min_def)

lemma put_put: "off + length ys + length zs \<le> length xs \<Longrightarrow> put (put xs off ys) (off + length ys) zs = put xs off (ys @ zs)"
  by (intro nth_equalityI) (auto simp: nth_put nth_append)

lemma rd_block_nth: "rd_block xs off n = Some ys \<longleftrightarrow> off + n \<le> length xs \<and> length ys = n \<and> (\<forall>j < n. xs ! (off + j) = ys ! j)"
  by (auto simp: rd_block_def list_eq_iff_nth_eq)

lemma rd_block_put:
  assumes "off + length ys \<le> length xs"
  shows "rd_block (put xs off ys) off (length ys) = Some ys"
    and "q + n \<le> off \<or> off + length ys \<le> q \<Longrightarrow> rd_block (put xs off ys) q n = rd_block xs q n"
proof -
  show "rd_block (put xs off ys) off (length ys) = Some ys"
    using assms by (auto simp: rd_block_nth nth_put)
  assume q: "q + n \<le> off \<or> off + length ys \<le> q"
  show "rd_block (put xs off ys) q n = rd_block xs q n"
  proof (cases "q + n \<le> length xs")
    case True
    then show ?thesis using assms q by (auto simp: rd_block_def nth_put intro!: nth_equalityI)
  qed (use assms in \<open>simp add: rd_block_def\<close>)
qed

lemma page_bytes_put:
  assumes "kvs_shape s" "p < kvs_page_count s" "q < kvs_page_count s" "off + length ys \<le> kvs_page_size s"
  shows "page_bytes (s\<lparr>kvs_flash := put (kvs_flash s) (p * kvs_page_size s + off) ys\<rparr>) q =
    (if q = p then put (page_bytes s p) off ys else page_bytes s q)"
proof (rule nth_equalityI)
  define ps where "ps = kvs_page_size s"
  define f where "f = put (kvs_flash s) (p * ps + off) ys"
  have rp: "p * ps + ps \<le> length (kvs_flash s)" "q * ps + ps \<le> length (kvs_flash s)"
    using page_range[OF assms(1,2)] page_range[OF assms(1,3)] by (simp_all add: ps_def)
  have lf: "length f = length (kvs_flash s)" using rp assms(4) by (simp add: f_def ps_def)
  let ?s = "s\<lparr>kvs_flash := f\<rparr>"
  have len: "length (page_bytes ?s q) = ps" "length (page_bytes s p) = ps" "length (page_bytes s q) = ps"
    using rp lf by (simp_all add: page_bytes_def ps_def)
  show l: "length (page_bytes ?s q) = length (if q = p then put (page_bytes s p) off ys else page_bytes s q)"
    using len assms(4) by (simp add: ps_def)
  fix j assume "j < length (page_bytes ?s q)"
  then have j: "j < ps" using len by simp
  have nth: "page_bytes ?s q ! j = f ! (q * ps + j)" "page_bytes s q ! j = kvs_flash s ! (q * ps + j)"
    using j rp lf by (simp_all add: page_bytes_def ps_def)
  have sep: "q * ps + j < p * ps \<or> p * ps + ps \<le> q * ps + j" if "q \<noteq> p"
  proof (cases "q < p")
    case True
    then have "Suc q * ps \<le> p * ps" by (intro mult_le_mono1) simp
    then show ?thesis using j by simp
  next
    case False
    then have "Suc p * ps \<le> q * ps" using that by (intro mult_le_mono1) simp
    then show ?thesis by simp
  qed
  show "page_bytes ?s q ! j = (if q = p then put (page_bytes s p) off ys else page_bytes s q) ! j"
  proof (cases "q = p")
    case True
    then show ?thesis
      using j rp len assms(4) nth by (simp add: f_def nth_put ps_def)
  next
    case False
    then show ?thesis
      using sep[OF False] j rp assms(4) nth by (auto simp: f_def nth_put ps_def)
  qed
qed

section \<open>Reading a page\<close>

definition page_ok :: "fd_key_value_store_t \<Rightarrow> nat \<Rightarrow> kv_entry list \<Rightarrow> bool" where
  "page_ok s p es \<longleftrightarrow> kvs_shape s \<and> p < kvs_page_count s \<and> page_holds (page_bytes s p) es"

lemma page_okD: "page_ok s p es \<Longrightarrow> kvs_shape s" "page_ok s p es \<Longrightarrow> p < kvs_page_count s"
  "page_ok s p es \<Longrightarrow> page_holds (page_bytes s p) es"
  by (simp_all add: page_ok_def)

lemma page_room:
  assumes ok: "page_ok s p es" shows "data_size es + 12 * (length es + 1) \<le> kvs_page_size s"
  using page_okD(3)[OF ok] length_page_bytes[OF page_okD(1,2)[OF ok]] by (simp add: page_holds_def)

lemma get_metadata_bytes:
  assumes ok: "page_ok s p es"
  shows "i \<le> length es \<Longrightarrow> fd_key_value_store_get_metadata s p i =
     do { bs \<leftarrow> rd_block (page_bytes s p) (kvs_page_size s - 12 * (i + 1)) 12; Some (metadata_of bs) }"
proof -
  assume i: "i \<le> length es"
  then have "12 * (i + 1) \<le> 12 * (length es + 1)" by simp
  then have "12 * (i + 1) \<le> kvs_page_size s" using page_room[OF ok] by linarith
  then show ?thesis
    using rd_page[OF page_okD(1,2)[OF ok], of "kvs_page_size s - 12 * (i + 1)" 12]
    by (simp add: fd_key_value_store_get_metadata_def fd_key_value_store_get_page_address_def metadata_size_def Let_def
        mult.commute)
qed

lemma get_metadata_entry:
  assumes ok: "page_ok s p es"
  shows "i < length es \<Longrightarrow> fd_key_value_store_get_metadata s p i = Some (entry_metadata (data_size (take i es)) (es ! i))"
  using page_okD(3)[OF ok] length_page_bytes[OF page_okD(1,2)[OF ok]]
  by (simp add: get_metadata_bytes[OF ok] page_holds_def metadata_of_bytes)

lemma get_metadata_end:
  assumes ok: "page_ok s p es"
  shows "\<exists>m. fd_key_value_store_get_metadata s p (length es) = Some m \<and> md_flags m = 0xffffffff"
proof -
  have room: "12 * (length es + 1) \<le> kvs_page_size s" using page_room[OF ok] by linarith
  obtain bs where bs: "rd_block (page_bytes s p) (kvs_page_size s - 12 * (length es + 1)) 12 = Some bs"
    using room length_page_bytes[OF page_okD(1,2)[OF ok]] by (simp add: rd_block_def)
  have "bs ! j = 0xff" if "j < 12" for j
  proof -
    have "bs ! j = page_bytes s p ! (kvs_page_size s - 12 * (length es + 1) + j)" using bs that by (simp add: rd_block_nth)
    also have "\<dots> = 0xff"
    proof -
      have "data_size es \<le> kvs_page_size s - 12 * (length es + 1) + j"
        "kvs_page_size s - 12 * (length es + 1) + j < kvs_page_size s - 12 * length es"
      proof -
        obtain r where "kvs_page_size s = data_size es + 12 * (length es + 1) + r" using page_room[OF ok] le_Suc_ex by blast
        then show "data_size es \<le> kvs_page_size s - 12 * (length es + 1) + j"
          "kvs_page_size s - 12 * (length es + 1) + j < kvs_page_size s - 12 * length es" using that by simp_all
      qed
      then show ?thesis using page_okD(3)[OF ok] length_page_bytes[OF page_okD(1,2)[OF ok]] by (simp only: page_holds_def)
    qed
    finally show ?thesis .
  qed
  moreover have "length bs = 12" using bs by (simp add: rd_block_nth)
  ultimately have "bs = replicate 12 0xff" by (intro nth_equalityI) simp_all
  then have "md_flags (metadata_of bs) = 0xffffffff" by (simp add: metadata_of_def) code_simp
  then show ?thesis using bs by (simp add: get_metadata_bytes[OF ok])
qed

lemma entry_flags: "md_flags (entry_metadata off e) \<noteq> 0xffffffff"
  by (simp add: entry_metadata_def)

lemma metadata_count:
  assumes ok: "page_ok s p es"
  shows "fd_key_value_store_get_metadata_count s p = Some (length es)"
proof -
  have "length es + 1 \<le> kvs_page_size s div 12" using page_room[OF ok] by (simp add: less_eq_div_iff_mult_less_eq)
  then have "metadata_count_loop s p (kvs_page_size s div 12) (length es - k) = Some (length es)" if "k \<le> length es" for k
    using that
  proof (induction k)
    case 0
    then show ?case using get_metadata_end[OF ok] by (subst metadata_count_loop.simps) auto
  next
    case (Suc k)
    have "Suc (length es - Suc k) = length es - k" "length es - Suc k < kvs_page_size s div 12"
      using Suc(2,3) by simp_all
    then show ?case
      using Suc get_metadata_entry[OF ok, of "length es - Suc k"] by (subst metadata_count_loop.simps) (simp add: entry_flags)
  qed
  from this[of "length es"] show ?thesis by (simp add: fd_key_value_store_get_metadata_count_def metadata_size_def)
qed

lemma is_page_empty:
  assumes ok: "page_ok s p es"
  shows "fd_key_value_store_is_page_empty s p = Some (es = [], s)"
proof (cases "es = []")
  case True
  obtain m where "fd_key_value_store_get_metadata s p 0 = Some m" "md_flags m = 0xffffffff" using get_metadata_end[OF ok] True by auto
  moreover have "rd_block (kvs_flash s) (p * kvs_page_size s) (kvs_page_size s) = Some (page_bytes s p)"
    using rd_page[OF page_okD(1,2)[OF ok], of 0 "kvs_page_size s"] length_page_bytes[OF page_okD(1,2)[OF ok]] by (simp add: rd_block_def)
  moreover have "\<forall>b \<in> set (page_bytes s p). b = 0xff"
    using page_okD(3)[OF ok] True by (auto simp: page_holds_def in_set_conv_nth)
  ultimately show ?thesis
    using True by (simp add: fd_key_value_store_is_page_empty_def fd_key_value_store_get_page_address_def kvs_assert_def fd_assert_def)
next
  case False
  then show ?thesis
    using get_metadata_entry[OF ok, of 0] by (simp add: fd_key_value_store_is_page_empty_def entry_flags)
qed

text \<open>Where the bytes of a value are.\<close>

definition points_to :: "fd_key_value_store_t \<Rightarrow> (nat \<times> nat) option \<Rightarrow> u8 list option \<Rightarrow> bool" where
  "points_to s r v \<longleftrightarrow> (case v of None \<Rightarrow> r = None
     | Some v \<Rightarrow> \<exists>addr. r = Some (addr, length v) \<and> rd_block (kvs_flash s) addr (length v) = Some v)"

text \<open>The newest record of a key decides, unless it removes it.\<close>

definition page_lookup :: "kv_entry list \<Rightarrow> u8 list \<Rightarrow> u8 list option" where
  "page_lookup es key = (case find (\<lambda>e. kv_key e = key) (rev es) of
     None \<Rightarrow> None | Some e \<Rightarrow> if kv_removed e then None else Some (kv_value e))"

lemma strncmp_0_eq: "0 \<notin> set key \<Longrightarrow> length bs = length key \<Longrightarrow> strncmp_0 key bs \<longleftrightarrow> key = bs"
proof (induction key arbitrary: bs)
  case (Cons x key)
  then show ?case by (cases bs) auto
qed simp

lemma entry_bounds:
  assumes ok: "page_ok s p es" and i: "i < length es"
  shows "data_size (take i es) + kv_size (es ! i) \<le> data_size es"
    and "data_size (take i es) + (length (kv_key (es ! i)) + length (kv_value (es ! i))) < 2 ^ 16"
proof -
  have "es = take i es @ es ! i # drop (Suc i) es" using i by (rule id_take_nth_drop)
  then have "data_size es = data_size (take i es) + (kv_size (es ! i) + data_size (drop (Suc i) es))"
    by (metis data_size_simps(2,3))
  then show a: "data_size (take i es) + kv_size (es ! i) \<le> data_size es" by simp
  have "length (kv_key (es ! i)) + length (kv_value (es ! i)) \<le> kv_size (es ! i)" by (simp add: kv_size_def)
  moreover have "kvs_page_size s < 2 ^ 16" using page_okD(1)[OF ok] by (simp add: kvs_shape_def)
  ultimately show "data_size (take i es) + (length (kv_key (es ! i)) + length (kv_value (es ! i))) < 2 ^ 16"
    using a page_room[OF ok] by linarith
qed

lemma unat_u16: "n < 2 ^ 16 \<Longrightarrow> unat (of_nat n :: u16) = n"
  by (simp add: unsigned_of_nat take_bit_nat_eq_self)

lemma rd_entry:
  assumes ok: "page_ok s p es" and i: "i < length es"
  shows "rd_block (kvs_flash s) (p * kvs_page_size s + data_size (take i es)) (length (kv_key (es ! i))) = Some (kv_key (es ! i))"
    and "rd_block (kvs_flash s) (p * kvs_page_size s + (data_size (take i es) + length (kv_key (es ! i)))) (length (kv_value (es ! i))) =
      Some (kv_value (es ! i))"
proof -
  have "rd_block (page_bytes s p) (data_size (take i es)) (length (kv_key (es ! i)) + length (kv_value (es ! i))) =
      Some (kv_key (es ! i) @ kv_value (es ! i))"
    using page_okD(3)[OF ok] i by (simp add: page_holds_def)
  then have n: "data_size (take i es) + (length (kv_key (es ! i)) + length (kv_value (es ! i))) \<le> length (page_bytes s p)"
    "\<And>j. j < length (kv_key (es ! i)) + length (kv_value (es ! i)) \<Longrightarrow>
      page_bytes s p ! (data_size (take i es) + j) = (kv_key (es ! i) @ kv_value (es ! i)) ! j"
    by (simp_all only: rd_block_nth)
  have "rd_block (page_bytes s p) (data_size (take i es)) (length (kv_key (es ! i))) = Some (kv_key (es ! i))"
    unfolding rd_block_nth using n(1) n(2) by (simp add: nth_append)
  moreover have "rd_block (page_bytes s p) (data_size (take i es) + length (kv_key (es ! i))) (length (kv_value (es ! i))) = Some (kv_value (es ! i))"
    unfolding rd_block_nth using n(1) n(2)[of "length (kv_key (es ! i)) + _"] by (simp add: add.assoc)
  ultimately show "rd_block (kvs_flash s) (p * kvs_page_size s + data_size (take i es)) (length (kv_key (es ! i))) = Some (kv_key (es ! i))"
    "rd_block (kvs_flash s) (p * kvs_page_size s + (data_size (take i es) + length (kv_key (es ! i)))) (length (kv_value (es ! i))) =
      Some (kv_value (es ! i))"
    using n(1) length_page_bytes[OF page_okD(1,2)[OF ok]] by (simp_all add: rd_page[OF page_okD(1,2)[OF ok]])
qed

lemma lookup_on_page_loop:
  assumes ok: "page_ok s p es"
  shows "0 \<notin> set key \<Longrightarrow> k \<le> length es \<Longrightarrow>
     \<exists>r. lookup_on_page_loop s p (length es) key (length es - k) = Some r \<and> points_to s r (page_lookup (take k es) key)"
proof (induction k)
  case 0
  then show ?case by (subst lookup_on_page_loop.simps) (simp add: page_lookup_def points_to_def)
next
  case (Suc k)
  define e where "e = es ! k"
  have k: "k < length es" using Suc(3) by simp
  have t: "take (Suc k) es = take k es @ [e]" using k by (simp add: take_Suc_conv_app_nth e_def)
  have i: "length es - Suc k < length es" "length es - 1 - (length es - Suc k) = k" "Suc (length es - Suc k) = length es - k"
    using k by simp_all
  have sizes: "length (kv_key e) < 2 ^ 16" "length (kv_value e) < 2 ^ 16" "data_size (take k es) < 2 ^ 16"
    "data_size (take k es) + length (kv_key e) < 2 ^ 16"
    using entry_bounds(2)[OF ok k] by (simp_all add: e_def)
  note md = get_metadata_entry[OF ok k, folded e_def]
  note rd = rd_entry[OF ok k, folded e_def]
  have nat: "unat (blob_size (md_key (entry_metadata (data_size (take k es)) e))) = length (kv_key e)"
    "unat (blob_offset (md_key (entry_metadata (data_size (take k es)) e))) = data_size (take k es)"
    "unat (blob_size (md_value (entry_metadata (data_size (take k es)) e))) = length (kv_value e)"
    "unat (blob_offset (md_value (entry_metadata (data_size (take k es)) e))) = data_size (take k es) + length (kv_key e)"
    unfolding entry_metadata_def using sizes by (simp_all only: fd_key_value_store_metadata_t.select_convs fd_key_value_store_blob_t.select_convs unat_u16)
  have flag: "md_flags (entry_metadata (data_size (take k es)) e) AND fd_key_value_store_metadata_flags_removed \<noteq> 0 \<longleftrightarrow> kv_removed e"
    by (simp add: entry_metadata_def fd_key_value_store_metadata_flags_removed_def)
  show ?case
  proof (cases "kv_key e = key")
    case True
    then have "lookup_on_page_loop s p (length es) key (length es - Suc k) =
      Some (if kv_removed e then None else Some (p * kvs_page_size s + (data_size (take k es) + length (kv_key e)), length (kv_value e)))"
      using i md rd(1) nat flag strncmp_0_eq[OF Suc(2), of "kv_key e"]
      by (subst lookup_on_page_loop.simps) (simp add: Let_def fd_key_value_store_get_page_address_def)
    then show ?thesis using rd(2) True by (auto simp: t page_lookup_def points_to_def)
  next
    case False
    have "strncmp_0 key (kv_key e) \<longleftrightarrow> False" if "length (kv_key e) = length key"
      using strncmp_0_eq[OF Suc(2) that] False by simp
    then have "lookup_on_page_loop s p (length es) key (length es - Suc k) = lookup_on_page_loop s p (length es) key (length es - k)"
      using i md rd(1) nat False
      by (subst lookup_on_page_loop.simps) (auto simp add: Let_def fd_key_value_store_get_page_address_def)
    then show ?thesis using Suc False by (simp add: t page_lookup_def)
  qed
qed

lemma lookup_on_page:
  assumes ok: "page_ok s p es" and key: "0 \<notin> set key"
  shows "\<exists>r. fd_key_value_store_lookup_on_page s p key = Some r \<and> points_to s r (page_lookup es key)"
  using lookup_on_page_loop[OF ok key, of "length es"] by (simp add: fd_key_value_store_lookup_on_page_def metadata_count[OF ok])

section \<open>Lookup\<close>

lemma kvs_holds_page: "kvs_holds s ls \<Longrightarrow> p < kvs_page_count s \<Longrightarrow> page_ok s p (ls ! p)"
  by (simp add: kvs_holds_def page_ok_def)

text \<open>The pages from the current one backwards, and the first one that has a value.\<close>

fun lookup_pages :: "kv_entry list list \<Rightarrow> u8 list \<Rightarrow> u8 list option" where
  "lookup_pages [] key = None"
| "lookup_pages (es # ess) key = (case page_lookup es key of Some v \<Rightarrow> Some v | None \<Rightarrow> lookup_pages ess key)"

definition newest_first :: "kv_entry list list \<Rightarrow> nat \<Rightarrow> kv_entry list list" where
  "newest_first ls cur = rev (take (Suc cur) ls) @ rev (drop (Suc cur) ls)"

definition store_lookup :: "kv_entry list list \<Rightarrow> nat \<Rightarrow> u8 list \<Rightarrow> u8 list option" where
  "store_lookup ls cur key = lookup_pages (newest_first ls cur) key"

lemma lookup_step:
  assumes "kvs_holds s ls" "p < kvs_page_count s" "0 \<notin> set key"
    and "p' = (if p > 0 then p - 1 else kvs_page_count s - 1)"
    and "if p' = cur_page (kvs_current s) then rest = []
      else \<exists>r. lookup_loop s key p' = Some r \<and> points_to s r (lookup_pages rest key)"
  shows "\<exists>r. lookup_loop s key p = Some r \<and> points_to s r (lookup_pages (ls ! p # rest) key)"
proof -
  have "2 \<le> kvs_page_count s" using assms(1) by (simp add: kvs_holds_def kvs_shape_def)
  then have p': "(if p > 0 then p - 1 else size_sub (kvs_page_count s) 1) = p'" using assms(4) by simp
  obtain r where r: "fd_key_value_store_lookup_on_page s p key = Some r" "points_to s r (page_lookup (ls ! p) key)"
    using lookup_on_page[OF kvs_holds_page[OF assms(1,2)] assms(3)] by blast
  show ?thesis
  proof (cases "page_lookup (ls ! p) key")
    case None
    then have "r = None" using r(2) by (simp add: points_to_def)
    then show ?thesis
      using r(1) p' None assms(5) by (subst lookup_loop.simps) (auto simp: Let_def points_to_def split: if_splits)
  next
    case (Some v)
    then have "r \<noteq> None" using r(2) by (auto simp: points_to_def)
    then show ?thesis using r Some by (subst lookup_loop.simps) auto
  qed
qed

lemma lookup_above:
  assumes "kvs_holds s ls" "0 \<notin> set key" "cur_page (kvs_current s) + Suc k < kvs_page_count s"
  defines "cur \<equiv> cur_page (kvs_current s)"
  shows "\<exists>r. lookup_loop s key (cur + Suc k) = Some r \<and>
    points_to s r (lookup_pages (rev (take (Suc k) (drop (Suc cur) ls))) key)"
  using assms(3)
proof (induction k)
  case 0
  then show ?case
    using lookup_step[OF assms(1) _ assms(2), of "cur + Suc 0" cur "[]"] assms(1)
    by (simp add: cur_def take_Suc_conv_app_nth kvs_holds_def)
next
  case (Suc k)
  have "rev (take (Suc (Suc k)) (drop (Suc cur) ls)) = ls ! (cur + Suc (Suc k)) # rev (take (Suc k) (drop (Suc cur) ls))"
    using Suc(2) assms(1) by (subst take_Suc_conv_app_nth) (simp_all add: cur_def kvs_holds_def)
  then show ?case
    using lookup_step[OF assms(1) _ assms(2), of "cur + Suc (Suc k)" "cur + Suc k" "rev (take (Suc k) (drop (Suc cur) ls))"] Suc
    by (simp add: cur_def)
qed

lemma lookup_below:
  assumes "kvs_holds s ls" "0 \<notin> set key" "k \<le> cur_page (kvs_current s)"
  defines "cur \<equiv> cur_page (kvs_current s)"
  shows "\<exists>r. lookup_loop s key k = Some r \<and>
    points_to s r (lookup_pages (rev (take (Suc k) ls) @ rev (drop (Suc cur) ls)) key)"
  using assms(3)
proof (induction k)
  case 0
  define n where "n = kvs_page_count s"
  have n: "length ls = n" "cur < n" "2 \<le> n" using assms(1) by (simp_all add: n_def cur_def kvs_holds_def kvs_shape_def)
  have t: "rev (take (Suc 0) ls) @ rev (drop (Suc cur) ls) = ls ! 0 # rev (drop (Suc cur) ls)"
    using n by (cases ls) simp_all
  show ?case
  proof (cases "n - 1 = cur")
    case True
    then show ?thesis
      unfolding t using lookup_step[OF assms(1) _ assms(2), of 0 cur "rev (drop (Suc cur) ls)"] n by (simp add: cur_def n_def)
  next
    case False
    then have "\<exists>r. lookup_loop s key (n - 1) = Some r \<and> points_to s r (lookup_pages (rev (drop (Suc cur) ls)) key)"
    proof -
      have "cur + Suc (n - 2 - cur) = n - 1" "Suc (n - 2 - cur) = length (drop (Suc cur) ls)" using False n by auto
      then show ?thesis using lookup_above[OF assms(1,2), of "n - 2 - cur"] n by (simp add: cur_def n_def)
    qed
    then show ?thesis
      unfolding t using lookup_step[OF assms(1) _ assms(2), of 0 "n - 1" "rev (drop (Suc cur) ls)"] n False
      by (simp add: cur_def n_def)
  qed
next
  case (Suc k)
  have "rev (take (Suc (Suc k)) ls) = ls ! Suc k # rev (take (Suc k) ls)"
    using Suc(2) assms(1) by (subst take_Suc_conv_app_nth) (simp_all add: cur_def kvs_holds_def)
  then show ?case
    using lookup_step[OF assms(1) _ assms(2), of "Suc k" k "rev (take (Suc k) ls) @ rev (drop (Suc cur) ls)"] Suc assms(1)
    by (simp add: cur_def kvs_holds_def)
qed

lemma lookup_store:
  assumes "kvs_holds s ls" "0 \<notin> set key"
  shows "\<exists>r. fd_key_value_store_lookup s key = Some r \<and> points_to s r (store_lookup ls (cur_page (kvs_current s)) key)"
  using lookup_below[OF assms, of "cur_page (kvs_current s)"]
  by (simp add: fd_key_value_store_lookup_def store_lookup_def newest_first_def)

section \<open>Writing a record\<close>

lemma nvm_write_ok:
  "flash_area_ok n fa \<Longrightarrow> 4 dvd off \<Longrightarrow> 4 dvd length data \<Longrightarrow> erased (kvs_flash s) off (length data) \<Longrightarrow>
   fd_key_value_store_nvm_write fa off data s = Some (s\<lparr>kvs_flash := put (kvs_flash s) off data\<rparr>)"
  by (simp add: flash_area_ok_def fd_key_value_store_nvm_write_def put_def kvs_assert_def)

lemma erased_put: "erased xs off n \<Longrightarrow> off + length ys \<le> length xs \<Longrightarrow> off + length ys \<le> q \<Longrightarrow> q + m \<le> off + n \<Longrightarrow> erased (put xs off ys) q m"
  by (auto simp: erased_def nth_put)

lemma erased_sub: "erased xs off n \<Longrightarrow> off \<le> q \<Longrightarrow> q + m \<le> off + n \<Longrightarrow> erased xs q m"
  by (auto simp: erased_def)

lemma put_Nil [simp]: "put xs off [] = xs"
  by (simp add: put_def)

text \<open>The bytes \<open>bs\<close> have been given to the stream: whole blocks are in flash, the rest in its buffer.\<close>

definition out_state :: "fd_key_value_store_t \<Rightarrow> nat \<Rightarrow> u8 list \<Rightarrow> fd_key_value_store_t \<Rightarrow> bool" where
  "out_state s0 base bs s \<longleftrightarrow> (\<exists>k os. k + os_count os = length bs \<and> os_count os \<le> 16 \<and> 4 dvd k \<and>
     take (os_count os) (os_buffer os) = drop k bs \<and> length (os_buffer os) = 16 \<and>
     s = s0\<lparr>kvs_flash := put (kvs_flash s0) base (take k bs), kvs_data_write_offset := kvs_data_write_offset s0 + k,
       kvs_ostream_state := os\<rparr>)"

lemma ostream_write_ok:
  assumes "flash_area_ok n fa" "s = s0\<lparr>kvs_flash := put (kvs_flash s0) base (take k bs),
      kvs_data_write_offset := kvs_data_write_offset s0 + k, kvs_ostream_state := os\<rparr>"
    and "base = cur_page (kvs_current s0) * kvs_page_size s0 + kvs_data_write_offset s0"
    and "4 dvd base" "4 dvd k" "4 dvd os_count os" "os_count os \<le> 16" "length (os_buffer os) = 16"
    and "erased (kvs_flash s0) base (k + os_count os)" "k \<le> length bs"
  shows "fd_key_value_store_ostream_write fa s =
    Some (s0\<lparr>kvs_flash := put (kvs_flash s0) base (take k bs @ take (os_count os) (os_buffer os)),
      kvs_data_write_offset := kvs_data_write_offset s0 + (k + os_count os), kvs_ostream_state := os\<lparr>os_count := 0\<rparr>\<rparr>)"
proof -
  define data where "data = take (os_count os) (os_buffer os)"
  have len: "length data = os_count os" "length (take k bs) = k" using assms(7,8,10) by (simp_all add: data_def)
  have room: "base + k + os_count os \<le> length (kvs_flash s0)" using assms(9) by (simp add: erased_def)
  have rd: "rd_block (os_buffer os) 0 (os_count os) = Some data" using assms(7,8) by (simp add: rd_block_def data_def)
  have er: "erased (put (kvs_flash s0) base (take k bs)) (base + k) (length data)"
    using erased_put[OF assms(9), of "take k bs" "base + k" "length data"] room len by simp
  have "fd_key_value_store_nvm_write fa (base + k) data s = Some (s\<lparr>kvs_flash := put (kvs_flash s) (base + k) data\<rparr>)"
    by (rule nvm_write_ok[OF assms(1)]) (use assms(2,4-6) len er in simp_all)
  moreover have "put (put (kvs_flash s0) base (take k bs)) (base + k) data = put (kvs_flash s0) base (take k bs @ data)"
    using put_put[of base "take k bs" data "kvs_flash s0"] room len by simp
  ultimately show ?thesis
    using assms(2,3,7) rd
    by (simp add: fd_key_value_store_ostream_write_def Let_def kvs_assert_def data_def[symmetric] add.assoc)
qed

lemma callback_ok:
  assumes "flash_area_ok n fa" "base = cur_page (kvs_current s0) * kvs_page_size s0 + kvs_data_write_offset s0" "4 dvd base"
  shows "out_state s0 base bs s \<Longrightarrow> erased (kvs_flash s0) base (length bs + length data) \<Longrightarrow>
    \<exists>s'. fd_key_value_store_ostream_callback fa data s = Some s' \<and> out_state s0 base (bs @ data) s'"
proof (induction data arbitrary: bs s)
  case (Cons b data)
  obtain k os where o: "k + os_count os = length bs" "os_count os \<le> 16" "4 dvd k"
      "take (os_count os) (os_buffer os) = drop k bs" "length (os_buffer os) = 16"
      "s = s0\<lparr>kvs_flash := put (kvs_flash s0) base (take k bs), kvs_data_write_offset := kvs_data_write_offset s0 + k, kvs_ostream_state := os\<rparr>"
    using Cons(2) unfolding out_state_def by blast
  define wstep where "wstep = (if os_count (kvs_ostream_state s) \<ge> 16 then fd_key_value_store_ostream_write fa s else Some s)"
  have "\<exists>k' os' s'. wstep = Some s' \<and> k' + os_count os' = length bs \<and> os_count os' < 16 \<and> 4 dvd k' \<and>
      take (os_count os') (os_buffer os') = drop k' bs \<and> length (os_buffer os') = 16 \<and>
      s' = s0\<lparr>kvs_flash := put (kvs_flash s0) base (take k' bs), kvs_data_write_offset := kvs_data_write_offset s0 + k', kvs_ostream_state := os'\<rparr>"
  proof (cases "os_count os = 16")
    case True
    have "erased (kvs_flash s0) base (k + os_count os)" by (rule erased_sub[OF Cons(3)]) (use o(1) in simp_all)
    then have "wstep = Some (s0\<lparr>kvs_flash := put (kvs_flash s0) base (take k bs @ take (os_count os) (os_buffer os)),
      kvs_data_write_offset := kvs_data_write_offset s0 + (k + os_count os), kvs_ostream_state := os\<lparr>os_count := 0\<rparr>\<rparr>)"
      using ostream_write_ok[OF assms(1) o(6) assms(2,3) o(3) _ o(2,5)] o(1,6) True by (simp add: wstep_def)
    moreover have "take k bs @ take (os_count os) (os_buffer os) = take (k + os_count os) bs" using o(1,4) by simp
    moreover have "4 dvd length bs" using dvd_add[OF o(3), of 16] o(1) True by simp
    ultimately show ?thesis
      using o True by (intro exI[of _ "k + os_count os"] exI[of _ "os\<lparr>os_count := 0\<rparr>"]) simp
  next
    case False
    then show ?thesis using o by (intro exI[of _ k] exI[of _ os] exI[of _ s]) (simp add: wstep_def)
  qed
  then obtain k' os' s' where w: "wstep = Some s'" "k' + os_count os' = length bs" "os_count os' < 16" "4 dvd k'"
      "take (os_count os') (os_buffer os') = drop k' bs" "length (os_buffer os') = 16"
      "s' = s0\<lparr>kvs_flash := put (kvs_flash s0) base (take k' bs), kvs_data_write_offset := kvs_data_write_offset s0 + k', kvs_ostream_state := os'\<rparr>"
    by blast
  define os2 where "os2 = \<lparr>os_buffer = (os_buffer os')[os_count os' := b], os_count = os_count os' + 1\<rparr>"
  have "out_state s0 base (bs @ [b]) (s'\<lparr>kvs_ostream_state := os2\<rparr>)"
    unfolding out_state_def
    using w(2-7) take_Suc_update[of "os_count os'" "os_buffer os'" b]
    by (intro exI[of _ k'] exI[of _ os2]) (simp add: os2_def)
  moreover have "erased (kvs_flash s0) base (length (bs @ [b]) + length data)" using Cons(3) by simp
  ultimately obtain s2 where s2: "fd_key_value_store_ostream_callback fa data (s'\<lparr>kvs_ostream_state := os2\<rparr>) = Some s2"
      "out_state s0 base ((bs @ [b]) @ data) s2"
    using Cons(1) by blast
  have "fd_key_value_store_ostream_callback fa (b # data) s =
      fd_key_value_store_ostream_callback fa data (s'\<lparr>kvs_ostream_state := os2\<rparr>)"
    using w(1,3,6,7) by (simp add: wstep_def[symmetric] wr_in os2_def)
  then show ?case using s2 by simp
qed simp

lemma round4_add: "4 dvd k \<Longrightarrow> round4 (k + n) = k + round4 n"
  by (auto simp: round4_def dvd_def add.assoc)

lemma round4_id: "4 dvd n \<Longrightarrow> round4 n = n"
  by (auto simp: round4_def dvd_def)

lemma round4_le: "n \<le> 4 * m \<Longrightarrow> round4 n \<le> 4 * m"
  by (simp add: round4_def)

lemma flush_ok:
  assumes "flash_area_ok n fa" "base = cur_page (kvs_current s0) * kvs_page_size s0 + kvs_data_write_offset s0" "4 dvd base"
    and "out_state s0 base bs s" "erased (kvs_flash s0) base (round4 (length bs))" "kvs_minumum_write_size s0 = 4"
  shows "\<exists>junk os. fd_key_value_store_ostream_flush fa s = Some (s0\<lparr>kvs_flash := put (kvs_flash s0) base (bs @ junk),
      kvs_data_write_offset := kvs_data_write_offset s0 + round4 (length bs), kvs_ostream_state := os\<rparr>) \<and>
    length (bs @ junk) = round4 (length bs) \<and> length (os_buffer os) = 16"
proof -
  obtain k os where o: "k + os_count os = length bs" "os_count os \<le> 16" "4 dvd k"
      "take (os_count os) (os_buffer os) = drop k bs" "length (os_buffer os) = 16"
      "s = s0\<lparr>kvs_flash := put (kvs_flash s0) base (take k bs), kvs_data_write_offset := kvs_data_write_offset s0 + k, kvs_ostream_state := os\<rparr>"
    using assms(4) unfolding out_state_def by blast
  have r: "round4 (length bs) = k + round4 (os_count os)" using o(1,3) by (metis round4_add)
  show ?thesis
  proof (cases "os_count os = 0")
    case True
    then have "length bs = k" using o(1) by simp
    then show ?thesis
      using o True r by (intro exI[of _ "[]"] exI[of _ os]) (simp add: fd_key_value_store_ostream_flush_def round4_def)
  next
    case False
    define c where "c = round4 (os_count os)"
    have c: "os_count os \<le> c" "c \<le> 16" "4 dvd c" using round4_le[of "os_count os" 4] o(2) by (simp_all add: c_def)
    define junk where "junk = drop (os_count os) (take c (os_buffer os))"
    have junk: "take c (os_buffer os) = drop k bs @ junk"
      using append_take_drop_id[of "os_count os" "take c (os_buffer os)"] o(4) c(1) by (simp add: junk_def min_def)
    have "fd_key_value_store_get_write_size s (os_count os) = c"
      using o(2,6) assms(6) by (simp add: write_size_4 c_def)
    then have "fd_key_value_store_ostream_flush fa s = fd_key_value_store_ostream_write fa (s\<lparr>kvs_ostream_state := os\<lparr>os_count := c\<rparr>\<rparr>)"
      using False o(6) by (simp add: fd_key_value_store_ostream_flush_def)
    also have "\<dots> = Some (s0\<lparr>kvs_flash := put (kvs_flash s0) base (take k bs @ take c (os_buffer os)),
      kvs_data_write_offset := kvs_data_write_offset s0 + (k + c), kvs_ostream_state := os\<lparr>os_count := 0\<rparr>\<rparr>)"
      using ostream_write_ok[OF assms(1) _ assms(2,3) o(3), where s = "s\<lparr>kvs_ostream_state := os\<lparr>os_count := c\<rparr>\<rparr>"
          and bs = bs and os = "os\<lparr>os_count := c\<rparr>"]
        o c assms(5) r by (simp add: c_def)
    also have "take k bs @ take c (os_buffer os) = bs @ junk" by (simp add: junk flip: append_assoc)
    finally have flush: "fd_key_value_store_ostream_flush fa s = Some (s0\<lparr>kvs_flash := put (kvs_flash s0) base (bs @ junk),
      kvs_data_write_offset := kvs_data_write_offset s0 + (k + c), kvs_ostream_state := os\<lparr>os_count := 0\<rparr>\<rparr>)" .
    have "length (bs @ junk) = k + c" using arg_cong[OF junk, of length] o(1,5) c by simp
    then show ?thesis
      using flush r o(5) by (intro exI[of _ junk] exI[of _ "os\<lparr>os_count := 0\<rparr>"]) (simp add: c_def)
  qed
qed

lemma page_holds_append:
  assumes h: "page_holds bs es" and room: "data_size es + kv_size e + 12 * (length es + 2) \<le> length bs"
    and data: "length (kv_key e @ kv_value e @ junk) = kv_size e"
  shows "page_holds (put (put bs (data_size es) (kv_key e @ kv_value e @ junk)) (length bs - 12 * (length es + 1))
    (metadata_bytes (entry_metadata (data_size es) e))) (es @ [e])"
proof -
  define n where "n = length es"
  define D where "D = data_size es"
  define ys where "ys = kv_key e @ kv_value e @ junk"
  define m where "m = metadata_bytes (entry_metadata D e)"
  define b1 where "b1 = put bs D ys"
  define b2 where "b2 = put b1 (length bs - 12 * (n + 1)) m"
  obtain r where r: "length bs = D + kv_size e + 12 * (n + 2) + r" using room le_Suc_ex unfolding n_def D_def by blast
  have ys: "length ys = kv_size e" "D + length ys \<le> length bs" using data r by (simp_all add: ys_def)
  have l1: "length b1 = length bs" using ys by (simp add: b1_def)
  have m: "length m = 12" "length bs - 12 * (n + 1) + length m \<le> length b1" using r l1 by (simp_all add: m_def)
  have l2: "length b2 = length bs" using m l1 by (simp add: b2_def)
  have below: "rd_block b2 q k = rd_block bs q k" if "q + k \<le> D" for q k
    using rd_block_put(2)[OF m(2), of q k] rd_block_put(2)[OF ys(2), of q k] that r by (simp add: b1_def b2_def)
  have above: "rd_block b2 q k = rd_block bs q k" if "length bs - 12 * n \<le> q" for q k
    using rd_block_put(2)[OF m(2), of q k] rd_block_put(2)[OF ys(2), of q k] that r m(1) by (simp add: b1_def b2_def ys(1))
  have H: "\<And>i. i < n \<Longrightarrow> rd_block bs (length bs - 12 * (i + 1)) 12 = Some (metadata_bytes (entry_metadata (data_size (take i es)) (es ! i)))"
    "\<And>i. i < n \<Longrightarrow> rd_block bs (data_size (take i es)) (length (kv_key (es ! i)) + length (kv_value (es ! i))) = Some (kv_key (es ! i) @ kv_value (es ! i))"
    "\<And>j. D \<le> j \<Longrightarrow> j < length bs - 12 * n \<Longrightarrow> bs ! j = 0xff"
    using h by (simp_all add: page_holds_def n_def D_def)
  have mem: "data_size (take i es) + (length (kv_key (es ! i)) + length (kv_value (es ! i))) \<le> D" if "i < n" for i
  proof -
    have "es = take i es @ es ! i # drop (Suc i) es" using that by (intro id_take_nth_drop) (simp add: n_def)
    then have "D = data_size (take i es) + (kv_size (es ! i) + data_size (drop (Suc i) es))" unfolding D_def by (metis data_size_simps(2,3))
    moreover have "length (kv_key (es ! i)) + length (kv_value (es ! i)) \<le> kv_size (es ! i)" by (simp add: kv_size_def)
    ultimately show ?thesis by linarith
  qed
  have new1: "rd_block b2 (length bs - 12 * (n + 1)) 12 = Some m" using rd_block_put(1)[OF m(2)] m(1) by (simp add: b2_def)
  have new2: "rd_block b2 D (length (kv_key e) + length (kv_value e)) = Some (kv_key e @ kv_value e)"
  proof -
    have k: "length (kv_key e) + length (kv_value e) \<le> kv_size e" by (simp add: kv_size_def)
    have "rd_block b1 D (length ys) = Some ys" unfolding b1_def by (rule rd_block_put(1)[OF ys(2)])
    then have "rd_block b1 D (length (kv_key e) + length (kv_value e)) = Some (kv_key e @ kv_value e)"
      using k ys(1) by (auto simp: rd_block_nth ys_def nth_append)
    moreover have "rd_block b2 D (length (kv_key e) + length (kv_value e)) = rd_block b1 D (length (kv_key e) + length (kv_value e))"
      using rd_block_put(2)[OF m(2), of D "length (kv_key e) + length (kv_value e)"] k r by (simp add: b2_def)
    ultimately show ?thesis by simp
  qed
  have "page_holds b2 (es @ [e])"
    unfolding page_holds_def
  proof (intro conjI allI impI)
    show "data_size (es @ [e]) + 12 * (length (es @ [e]) + 1) \<le> length b2" using r by (simp add: l2 D_def n_def)
  next
    fix i assume i: "i < length (es @ [e])"
    show "rd_block b2 (length b2 - 12 * (i + 1)) 12 =
        Some (metadata_bytes (entry_metadata (data_size (take i (es @ [e]))) ((es @ [e]) ! i)))"
    proof (cases "i = n")
      case True
      then show ?thesis using new1 by (simp add: l2 m_def D_def n_def)
    next
      case False
      then have "i < n" using i by (simp add: n_def)
      moreover have "length bs - 12 * n \<le> length bs - 12 * (i + 1)" using \<open>i < n\<close> by simp
      ultimately show ?thesis using H(1)[of i] above[of "length bs - 12 * (i + 1)" 12] by (simp add: l2 n_def nth_append)
    qed
    show "rd_block b2 (data_size (take i (es @ [e]))) (length (kv_key ((es @ [e]) ! i)) + length (kv_value ((es @ [e]) ! i))) =
        Some (kv_key ((es @ [e]) ! i) @ kv_value ((es @ [e]) ! i))"
    proof (cases "i = n")
      case True
      then show ?thesis using new2 by (simp add: D_def n_def)
    next
      case False
      then have "i < n" using i by (simp add: n_def)
      then show ?thesis using H(2)[of i] below[OF mem[of i]] by (simp add: n_def nth_append)
    qed
  next
    fix j assume j: "data_size (es @ [e]) \<le> j" "j < length b2 - 12 * length (es @ [e])"
    then have j': "D + length ys \<le> j" "j < length bs - 12 * (n + 1)" "D \<le> j" "j < length bs - 12 * n" "j < length bs"
      using ys(1) l2 by (simp_all add: D_def n_def)
    then have "b2 ! j = b1 ! j" using nth_put[OF m(2), of j] l1 by (simp add: b2_def)
    also have "\<dots> = bs ! j" using nth_put[OF ys(2), of j] j' by (simp add: b1_def)
    finally show "b2 ! j = 0xff" using H(3)[of j] j' by simp
  qed
  then show ?thesis by (simp add: b2_def b1_def ys_def m_def D_def n_def)
qed

text \<open>What writing a record leaves alone.\<close>

definition same_env :: "fd_key_value_store_t \<Rightarrow> fd_key_value_store_t \<Rightarrow> bool" where
  "same_env s' s \<longleftrightarrow> kvs_page_count s' = kvs_page_count s \<and> kvs_page_size s' = kvs_page_size s \<and>
     kvs_listeners s' = kvs_listeners s \<and> kvs_events s' = kvs_events s \<and> kvs_log s' = kvs_log s"

lemma same_env_refl [simp]: "same_env s s"
  by (simp add: same_env_def)

lemma same_env_trans: "same_env s1 s2 \<Longrightarrow> same_env s2 s3 \<Longrightarrow> same_env s1 s3"
  by (simp add: same_env_def)

text \<open>The steps from the stream to the metadata that \<open>write\<close> and \<open>add\<close> share.\<close>

definition stream_record :: "flash_area \<Rightarrow> u8 list \<Rightarrow> u8 list \<Rightarrow> u32 \<Rightarrow> fd_key_value_store_t \<Rightarrow> fd_key_value_store_t option" where
  "stream_record fa key v flags s =
     do { s \<leftarrow> fd_key_value_store_ostream_callback fa key s;
          s \<leftarrow> fd_key_value_store_ostream_callback fa v s;
          s \<leftarrow> fd_key_value_store_ostream_flush fa s;
          fd_key_value_store_set_commit fa (length key) (length v) (round4 (length key + length v)) flags s }"

definition ready_to_write :: "fd_key_value_store_t \<Rightarrow> fd_key_value_store_t" where
  "ready_to_write s = s\<lparr>kvs_data_write_offset := cur_data_byte_count (kvs_current s),
     kvs_ostream_state := (kvs_ostream_state s)\<lparr>os_count := 0\<rparr>\<rparr>"

lemma kvs_holdsD:
  assumes "kvs_holds s ls"
  shows "kvs_shape s" "length ls = kvs_page_count s" "keys_ok ls" "cur_page (kvs_current s) < kvs_page_count s"
    "cur_data_byte_count (kvs_current s) = data_size (ls ! cur_page (kvs_current s))"
    "cur_metadata_count (kvs_current s) = length (ls ! cur_page (kvs_current s))"
    "page_holds (page_bytes s (cur_page (kvs_current s))) (ls ! cur_page (kvs_current s))"
    "2 \<le> kvs_page_count s" "kvs_minumum_write_size s = 4" "4 dvd kvs_page_size s" "kvs_page_size s < 2 ^ 16"
    "length (os_buffer (kvs_ostream_state s)) = 16"
  using assms by (simp_all add: kvs_holds_def kvs_shape_def)

lemma page_free_erased:
  assumes "kvs_holds s ls" "p = cur_page (kvs_current s)" "data_size (ls ! p) \<le> off" "off + n + 12 * length (ls ! p) \<le> kvs_page_size s"
  shows "erased (kvs_flash s) (p * kvs_page_size s + off) n"
proof -
  note h = kvs_holdsD[OF assms(1), folded assms(2)]
  have range: "p * kvs_page_size s + kvs_page_size s \<le> length (kvs_flash s)" by (rule page_range[OF h(1,4)])
  have nth: "kvs_flash s ! (p * kvs_page_size s + j) = 0xff" if "off \<le> j" "j < off + n" for j
  proof -
    have "page_bytes s p ! j = 0xff"
      using h(7) that assms(3,4) length_page_bytes[OF h(1,4)] by (simp add: page_holds_def)
    then show ?thesis using range that assms(4) by (simp add: page_bytes_def)
  qed
  have "kvs_flash s ! i = 0xff" if i: "p * kvs_page_size s + off \<le> i" "i < p * kvs_page_size s + off + n" for i
  proof -
    obtain j where "i = p * kvs_page_size s + j" using le_Suc_ex[OF add_leD1[OF i(1)]] by blast
    then show ?thesis using i nth[of j] by (simp only: add.assoc add_le_cancel_left nat_add_left_cancel_less)
  qed
  then show ?thesis using range assms(4) by (simp add: erased_def)
qed

lemma keys_ok_update: "keys_ok ls \<Longrightarrow> \<forall>e \<in> set es. 0 \<notin> set (kv_key e) \<Longrightarrow> keys_ok (ls[p := es])"
  unfolding keys_ok_def by (auto dest!: set_update_subset_insert[THEN subsetD])

lemma stream_record_ok:
  assumes fa: "flash_area_ok (kvs_page_size s) fa" and h: "kvs_holds s ls" and p: "p = cur_page (kvs_current s)"
    and room: "data_size (ls ! p) + kv_size e + 12 * (length (ls ! p) + 2) \<le> kvs_page_size s"
    and key: "0 \<notin> set (kv_key e)" and flags: "flags = (if kv_removed e then 1 else 0)"
  shows "\<exists>s'. stream_record fa (kv_key e) (kv_value e) flags (ready_to_write s) = Some s' \<and>
    kvs_holds s' (ls[p := ls ! p @ [e]]) \<and> same_env s' s \<and> cur_page (kvs_current s') = p \<and> kvs_is_full s' = kvs_is_full s"
proof -
  note h' = kvs_holdsD[OF h, folded p]
  define D n ps where "D = data_size (ls ! p)" and "n = length (ls ! p)" and "ps = kvs_page_size s"
  define s0 where "s0 = ready_to_write s"
  define base where "base = p * ps + D"
  have s0: "kvs_flash s0 = kvs_flash s" "kvs_current s0 = kvs_current s" "kvs_page_size s0 = ps" "kvs_data_write_offset s0 = D"
    "kvs_minumum_write_size s0 = 4"
    using h'(5,9) by (simp_all add: s0_def ready_to_write_def D_def ps_def)
  have base: "base = cur_page (kvs_current s0) * kvs_page_size s0 + kvs_data_write_offset s0" "4 dvd base"
    using h'(10) by (simp_all add: s0 base_def p[symmetric]) (simp add: D_def ps_def)
  have kv: "round4 (length (kv_key e) + length (kv_value e)) = kv_size e" by (simp add: kv_size_def)
  have er: "erased (kvs_flash s0) base (kv_size e)"
    unfolding s0 base_def ps_def using page_free_erased[OF h p, of D "kv_size e"] room by (simp add: D_def)
  have le: "length (kv_key e) + length (kv_value e) \<le> kv_size e" by (simp add: kv_size_def)
  have "out_state s0 base [] s0"
    unfolding out_state_def using h'(12) by (intro exI[of _ 0] exI[of _ "kvs_ostream_state s0"]) (simp add: s0_def ready_to_write_def)
  then obtain s1 where s1: "fd_key_value_store_ostream_callback fa (kv_key e) s0 = Some s1" "out_state s0 base (kv_key e) s1"
    using callback_ok[OF fa base, of "[]" s0 "kv_key e"] erased_sub[OF er, of base] le by auto
  obtain s2 where s2: "fd_key_value_store_ostream_callback fa (kv_value e) s1 = Some s2" "out_state s0 base (kv_key e @ kv_value e) s2"
    using callback_ok[OF fa base s1(2), of "kv_value e"] erased_sub[OF er, of base] le by auto
  obtain junk os where fl: "fd_key_value_store_ostream_flush fa s2 = Some (s0\<lparr>kvs_flash := put (kvs_flash s0) base ((kv_key e @ kv_value e) @ junk),
      kvs_data_write_offset := kvs_data_write_offset s0 + round4 (length (kv_key e @ kv_value e)), kvs_ostream_state := os\<rparr>)"
      "length ((kv_key e @ kv_value e) @ junk) = round4 (length (kv_key e @ kv_value e))" "length (os_buffer os) = 16"
    using flush_ok[OF fa base s2(2)] er s0(5) kv by auto
  define ys where "ys = kv_key e @ kv_value e @ junk"
  have ys: "length ys = kv_size e" using fl(2) kv by (simp add: ys_def)
  define s3 where "s3 = s0\<lparr>kvs_flash := put (kvs_flash s) base ys, kvs_data_write_offset := D + kv_size e, kvs_ostream_state := os\<rparr>"
  have flush: "fd_key_value_store_ostream_flush fa s2 = Some s3" using fl(1) kv by (simp add: s3_def ys_def s0)
  define md where "md = metadata_bytes (entry_metadata D e)"
  define off where "off = ps - 12 * (n + 1)"
  define cur where "cur = \<lparr>cur_page = p, cur_data_byte_count = D + kv_size e, cur_metadata_count = n + 1\<rparr>"
  define s4 where "s4 = s3\<lparr>kvs_current := cur, kvs_flash := put (kvs_flash s3) (p * ps + off) md\<rparr>"
  obtain r where r: "ps = D + kv_size e + 12 * (n + 2) + r" using room le_Suc_ex unfolding D_def n_def ps_def by blast
  have commit: "fd_key_value_store_set_commit fa (length (kv_key e)) (length (kv_value e)) (kv_size e) flags s3 = Some s4"
  proof -
    have cur3: "kvs_current s3 = \<lparr>cur_page = p, cur_data_byte_count = D, cur_metadata_count = n\<rparr>"
      using h'(5,6) by (simp add: s3_def s0 p D_def n_def)
    have o: "size_sub (p * ps + ps) ((n + 1) * metadata_size) = p * ps + off"
      using r by (simp add: metadata_size_def off_def)
    have "erased (kvs_flash s) (p * ps + D) (ps - D - 12 * n)"
      unfolding ps_def using page_free_erased[OF h p, of D "kvs_page_size s - D - 12 * n"] r by (simp add: D_def n_def ps_def)
    then have "erased (put (kvs_flash s) base ys) (p * ps + off) 12"
      unfolding base_def by (rule erased_put)
        (use page_range[OF h'(1,4)] r ys in \<open>simp_all add: off_def ps_def[symmetric]\<close>)
    moreover have "4 dvd p * ps + off"
    proof -
      have ps: "4 dvd ps" using h'(10) by (simp add: ps_def)
      have "4 dvd 12 * (n + 1)" by (rule dvd_mult2) simp
      then have "4 dvd off" unfolding off_def using ps by (rule dvd_diff_nat[rotated])
      then show ?thesis using ps by (intro dvd_add dvd_mult)
    qed
    ultimately have w: "fd_key_value_store_nvm_write fa (p * ps + off) md (s3\<lparr>kvs_current := cur\<rparr>) = Some s4"
      using nvm_write_ok[OF fa, of "p * ps + off" md "s3\<lparr>kvs_current := cur\<rparr>"] by (simp add: md_def s4_def s3_def)
    have "kvs_page_size s3 = ps" by (simp add: s3_def s0)
    then show ?thesis
      using w o cur3 flags
      by (simp add: fd_key_value_store_set_commit_def Let_def cur_def md_def entry_metadata_def)
  qed
  have run: "stream_record fa (kv_key e) (kv_value e) flags (ready_to_write s) = Some s4"
    using s1(1) s2(1) flush commit kv by (simp add: stream_record_def s0_def[symmetric])
  have pages: "page_bytes s4 q = (if q = p then put (put (page_bytes s p) D ys) off md else page_bytes s q)" if "q < kvs_page_count s" for q
  proof -
    define sa where "sa = s\<lparr>kvs_flash := put (kvs_flash s) base ys\<rparr>"
    have "length (put (kvs_flash s) base ys) = length (kvs_flash s)"
      using page_range[OF h'(1,4)] r ys by (intro length_put) (simp add: base_def ps_def[symmetric])
    then have sha: "kvs_shape sa" using h'(1) by (simp add: sa_def kvs_shape_def)
    have step: "page_bytes s4 q = page_bytes (sa\<lparr>kvs_flash := put (kvs_flash sa) (p * kvs_page_size sa + off) md\<rparr>) q"
      by (simp add: page_bytes_def s4_def s3_def sa_def s0 ps_def)
    have two: "page_bytes (sa\<lparr>kvs_flash := put (kvs_flash sa) (p * kvs_page_size sa + off) md\<rparr>) q =
        (if q = p then put (page_bytes sa p) off md else page_bytes sa q)"
      by (rule page_bytes_put[OF sha]) (use h'(4) that r in \<open>simp_all add: sa_def off_def md_def ps_def[symmetric]\<close>)
    have "page_bytes sa p = put (page_bytes s p) D ys"
      using page_bytes_put[OF h'(1,4,4), of D ys] r ys by (simp add: sa_def base_def ps_def[symmetric])
    moreover have "q \<noteq> p \<Longrightarrow> page_bytes sa q = page_bytes s q"
      using page_bytes_put[OF h'(1,4) that, of D ys] r ys by (simp add: sa_def base_def ps_def[symmetric])
    ultimately show ?thesis unfolding step two by simp
  qed
  have pl: "length (page_bytes s p) = ps" using length_page_bytes[OF h'(1,4)] by (simp add: ps_def)
  have "page_holds (put (put (page_bytes s p) D ys) off md) (ls ! p @ [e])"
    using page_holds_append[OF h'(7), of e junk] room[folded ps_def] ys pl by (simp add: D_def n_def off_def md_def ys_def)
  then have holds: "\<forall>q < kvs_page_count s. page_holds (page_bytes s4 q) (ls[p := ls ! p @ [e]] ! q)"
    using pages h h'(2) by (simp add: kvs_holds_def nth_list_update)
  have "length (kvs_flash s4) = length (kvs_flash s)"
    using page_range[OF h'(1,4)] r ys by (simp add: s4_def s3_def base_def ps_def[symmetric] off_def md_def)
  then have sh: "kvs_shape s4" using h'(1) fl(3) by (simp add: s4_def s3_def s0_def ready_to_write_def kvs_shape_def)
  have keys: "keys_ok (ls[p := ls ! p @ [e]])"
    using h'(3) key h'(2,4) nth_mem[of p ls] by (intro keys_ok_update) (auto simp: keys_ok_def)
  have cnt: "kvs_page_count s4 = kvs_page_count s" "kvs_current s4 = cur" by (simp_all add: s4_def s3_def s0_def ready_to_write_def)
  have "kvs_holds s4 (ls[p := ls ! p @ [e]])"
    unfolding kvs_holds_def using sh keys holds h'(2,4) by (simp add: cnt cur_def D_def n_def)
  moreover have "same_env s4 s" "kvs_is_full s4 = kvs_is_full s"
    by (simp_all add: same_env_def s4_def s3_def s0_def ready_to_write_def)
  ultimately show ?thesis using run cnt(2) by (intro exI[of _ s4]) (simp add: cur_def)
qed

lemma nvm_write_frame: "fd_key_value_store_nvm_write fa off data s = Some s' \<Longrightarrow> kvs_minumum_write_size s' = kvs_minumum_write_size s"
  by (auto simp: fd_key_value_store_nvm_write_def kvs_assert_def split: if_splits prod.splits)

lemma ostream_write_frame: "fd_key_value_store_ostream_write fa s = Some s' \<Longrightarrow> kvs_minumum_write_size s' = kvs_minumum_write_size s"
  by (auto simp: fd_key_value_store_ostream_write_def Let_def kvs_assert_def dest!: nvm_write_frame split: Option.bind_splits)

lemma callback_frame:
  "fd_key_value_store_ostream_callback fa data s = Some s' \<Longrightarrow> kvs_minumum_write_size s' = kvs_minumum_write_size s"
proof (induction data arbitrary: s)
  case (Cons b data)
  then show ?case by (fastforce dest: ostream_write_frame split: Option.bind_splits if_splits)
qed simp

lemma flush_frame: "fd_key_value_store_ostream_flush fa s = Some s' \<Longrightarrow> kvs_minumum_write_size s' = kvs_minumum_write_size s"
  by (auto simp: fd_key_value_store_ostream_flush_def Let_def dest!: ostream_write_frame split: if_splits)

lemma write_stream_record:
  assumes "kvs_minumum_write_size s = 4" "length key + length v + 3 < 2 ^ 32"
  shows "fd_key_value_store_write fa key v flags s = stream_record fa key v flags (ready_to_write s)"
proof -
  have min: "kvs_minumum_write_size (ready_to_write s) = 4" using assms(1) by (simp add: ready_to_write_def)
  have "fd_key_value_store_ostream (s\<lparr>kvs_data_write_offset := cur_data_byte_count (kvs_current s)\<rparr>) = ready_to_write s"
    by (simp add: fd_key_value_store_ostream_def ready_to_write_def)
  then show ?thesis
    unfolding fd_key_value_store_write_def stream_record_def
    by (auto simp: Let_def write_size_4[OF _ assms(2)] min dest!: callback_frame flush_frame intro!: Option.bind_cong)
qed

section \<open>Garbage collection\<close>

text \<open>A record of the collected page is copied unless it is a removal, the current page has a value for its key,
  or no page has one.\<close>

definition gc_step :: "nat \<Rightarrow> kv_entry list list \<Rightarrow> kv_entry \<Rightarrow> kv_entry list list" where
  "gc_step cur ls e = (if kv_removed e \<or> page_lookup (ls ! cur) (kv_key e) \<noteq> None \<or> store_lookup ls cur (kv_key e) = None
     then ls else ls[cur := ls ! cur @ [e]])"

definition next_page :: "kv_entry list list \<Rightarrow> nat \<Rightarrow> nat" where
  "next_page ls cur = (cur + 1) mod length ls"

definition gc_logs :: "kv_entry list list \<Rightarrow> nat \<Rightarrow> kv_entry list list" where
  "gc_logs ls cur = (foldl (gc_step cur) ls (ls ! next_page ls cur))[next_page ls cur := []]"

lemma next_page_other: "2 \<le> length ls \<Longrightarrow> cur < length ls \<Longrightarrow> next_page ls cur < length ls \<and> next_page ls cur \<noteq> cur"
proof -
  assume a: "2 \<le> length ls" "cur < length ls"
  show ?thesis
  proof (cases "cur + 1 = length ls")
    case True
    then show ?thesis using a by (auto simp: next_page_def)
  next
    case False
    then have "cur + 1 < length ls" using a by simp
    then show ?thesis by (simp add: next_page_def)
  qed
qed

lemma gc_step_simps [simp]:
  "length (gc_step cur ls e) = length ls" "p \<noteq> cur \<Longrightarrow> gc_step cur ls e ! p = ls ! p"
  by (simp_all add: gc_step_def)

lemma collect_record_ok:
  assumes fa: "flash_area_ok (kvs_page_size s) fa" and h: "kvs_holds s ls" and cur: "cur = cur_page (kvs_current s)"
    and p: "p < kvs_page_count s" "p \<noteq> cur" and i: "i < length (ls ! p)"
    and room: "data_size (ls ! cur) + kv_size (ls ! p ! i) + 12 * (length (ls ! cur) + 2) \<le> kvs_page_size s"
  shows "\<exists>s'. collect_record fa p i s = Some s' \<and> kvs_holds s' (gc_step cur ls (ls ! p ! i)) \<and> same_env s' s \<and>
    cur_page (kvs_current s') = cur \<and> kvs_is_full s' = kvs_is_full s"
proof -
  note h' = kvs_holdsD[OF h, folded cur]
  define e where "e = ls ! p ! i"
  define off where "off = data_size (take i (ls ! p))"
  note ok = kvs_holds_page[OF h p(1)]
  have md: "fd_key_value_store_get_metadata s p i = Some (entry_metadata off e)"
    using get_metadata_entry[OF ok i] by (simp add: off_def e_def)
  note rd = rd_entry[OF ok i, folded e_def off_def]
  have bound: "off + (length (kv_key e) + length (kv_value e)) < 2 ^ 16" using entry_bounds(2)[OF ok i] by (simp add: off_def e_def)
  have nat: "unat (blob_size (md_key (entry_metadata off e))) = length (kv_key e)"
    "unat (blob_offset (md_key (entry_metadata off e))) = off"
    "unat (blob_size (md_value (entry_metadata off e))) = length (kv_value e)"
    "unat (blob_offset (md_value (entry_metadata off e))) = off + length (kv_key e)"
    unfolding entry_metadata_def using bound by (simp_all only: fd_key_value_store_metadata_t.select_convs fd_key_value_store_blob_t.select_convs unat_u16)
  have flag: "md_flags (entry_metadata off e) AND fd_key_value_store_metadata_flags_removed \<noteq> 0 \<longleftrightarrow> kv_removed e"
    by (simp add: entry_metadata_def fd_key_value_store_metadata_flags_removed_def)
  have key: "0 \<notin> set (kv_key e)"
  proof -
    have "ls ! p \<in> set ls" using h'(2) p(1) by simp
    moreover have "e \<in> set (ls ! p)" unfolding e_def using i by (rule nth_mem)
    ultimately show ?thesis using h'(3) unfolding keys_ok_def by blast
  qed
  obtain r1 where r1: "fd_key_value_store_lookup_on_page s cur (kv_key e) = Some r1" "points_to s r1 (page_lookup (ls ! cur) (kv_key e))"
    using lookup_on_page[OF kvs_holds_page[OF h h'(4)] key] by blast
  obtain r2 where r2: "fd_key_value_store_lookup s (kv_key e) = Some r2" "points_to s r2 (store_lookup ls cur (kv_key e))"
    using lookup_store[OF h key] by (auto simp: cur)
  have null: "r1 = None \<longleftrightarrow> page_lookup (ls ! cur) (kv_key e) = None" "r2 = None \<longleftrightarrow> store_lookup ls cur (kv_key e) = None"
    using r1(2) r2(2) by (auto simp: points_to_def split: option.splits)
  define skip where "skip \<longleftrightarrow> kv_removed e \<or> r1 \<noteq> None \<or> r2 = None"
  have run: "collect_record fa p i s = (if skip then Some s else fd_key_value_store_write fa (kv_key e) (kv_value e) 0 s)"
    unfolding collect_record_def
    using md rd nat flag r1(1) r2(1) by (simp add: Let_def fd_key_value_store_get_page_address_def cur skip_def)
  show ?thesis
  proof (cases skip)
    case True
    then have "gc_step cur ls e = ls" using null by (simp add: gc_step_def skip_def)
    then show ?thesis using run True h cur by (intro exI[of _ s]) (simp add: e_def[symmetric])
  next
    case False
    then have "gc_step cur ls e = ls[cur := ls ! cur @ [e]]" using null by (auto simp: gc_step_def skip_def)
    moreover have "fd_key_value_store_write fa (kv_key e) (kv_value e) 0 s = stream_record fa (kv_key e) (kv_value e) 0 (ready_to_write s)"
      by (rule write_stream_record) (use h'(9) bound in simp_all)
    moreover have "collect_record fa p i s = fd_key_value_store_write fa (kv_key e) (kv_value e) 0 s" using run False by simp
    moreover have "\<not> kv_removed e" using False by (simp add: skip_def)
    ultimately show ?thesis
      using stream_record_ok[OF fa h cur room[folded e_def] key, of 0] by (simp add: e_def[symmetric])
  qed
qed

lemma gc_step_size:
  "cur < length ls \<Longrightarrow> data_size (gc_step cur ls e ! cur) \<le> data_size (ls ! cur) + kv_size e \<and> length (gc_step cur ls e ! cur) \<le> Suc (length (ls ! cur))"
  by (simp add: gc_step_def)

lemma collect_loop_ok:
  assumes fa: "flash_area_ok (kvs_page_size s) fa" and p: "p < kvs_page_count s" "p \<noteq> cur"
    and src: "data_size src + 12 * (length src + 1) \<le> kvs_page_size s"
  shows "kvs_holds s' ls \<Longrightarrow> cur = cur_page (kvs_current s') \<Longrightarrow> same_env s' s \<Longrightarrow> ls ! p = src \<Longrightarrow> i \<le> length src \<Longrightarrow>
    data_size (ls ! cur) \<le> data_size (take i src) \<Longrightarrow> length (ls ! cur) \<le> i \<Longrightarrow>
    \<exists>s''. collect_loop fa p [i..<length src] s' = Some s'' \<and> kvs_holds s'' (foldl (gc_step cur) ls (drop i src)) \<and>
      same_env s'' s \<and> cur_page (kvs_current s'') = cur \<and> kvs_is_full s'' = kvs_is_full s'"
proof (induction "length src - i" arbitrary: i s' ls)
  case 0
  then show ?case by auto
next
  case (Suc k)
  have i: "i < length src" using Suc(2) by simp
  define e where "e = src ! i"
  have env: "kvs_page_size s' = kvs_page_size s" "kvs_page_count s' = kvs_page_count s" using Suc(5) by (simp_all add: same_env_def)
  note h' = kvs_holdsD[OF Suc(3), folded Suc(4)]
  have t: "take (Suc i) src = take i src @ [e]" using i by (simp add: take_Suc_conv_app_nth e_def)
  have "src = take i src @ e # drop (Suc i) src" using i unfolding e_def by (rule id_take_nth_drop)
  then have tot: "data_size src = data_size (take i src) + (kv_size e + data_size (drop (Suc i) src))" by (metis data_size_simps(2,3))
  have "12 * (length (ls ! cur) + 2) \<le> 12 * (length src + 1)" using Suc(9) i by simp
  then have room: "data_size (ls ! cur) + kv_size (ls ! p ! i) + 12 * (length (ls ! cur) + 2) \<le> kvs_page_size s'"
    using Suc(6,8) tot src by (simp add: env e_def)
  obtain s1 where s1: "collect_record fa p i s' = Some s1" "kvs_holds s1 (gc_step cur ls e)" "same_env s1 s'"
      "cur_page (kvs_current s1) = cur" "kvs_is_full s1 = kvs_is_full s'"
    using collect_record_ok[OF _ Suc(3,4) _ p(2) _ room] fa p(1) i Suc(6) by (auto simp: env e_def)
  have sz: "data_size (gc_step cur ls e ! cur) \<le> data_size (take (Suc i) src)" "length (gc_step cur ls e ! cur) \<le> Suc i"
    using gc_step_size[of cur ls e] h'(2,4) Suc(8,9) by (simp_all add: t)
  have "\<exists>s2. collect_loop fa p [Suc i..<length src] s1 = Some s2 \<and>
      kvs_holds s2 (foldl (gc_step cur) (gc_step cur ls e) (drop (Suc i) src)) \<and> same_env s2 s \<and>
      cur_page (kvs_current s2) = cur \<and> kvs_is_full s2 = kvs_is_full s1"
  proof (rule Suc(1))
    show "k = length src - Suc i" "Suc i \<le> length src" using Suc(2) i by simp_all
    show "gc_step cur ls e ! p = src" using p(2) Suc(6) by simp
  qed (use s1(2,4) sz same_env_trans[OF s1(3) Suc(5)] in simp_all)
  then obtain s2 where s2: "collect_loop fa p [Suc i..<length src] s1 = Some s2"
      "kvs_holds s2 (foldl (gc_step cur) (gc_step cur ls e) (drop (Suc i) src))" "same_env s2 s"
      "cur_page (kvs_current s2) = cur" "kvs_is_full s2 = kvs_is_full s1"
    by blast
  have "[i..<length src] = i # [Suc i..<length src]" "drop i src = e # drop (Suc i) src"
    using i by (simp_all add: upt_conv_Cons Cons_nth_drop_Suc e_def)
  then show ?case using s1 s2 by simp
qed

lemma nvm_erase_ok:
  assumes fa: "flash_area_ok (kvs_page_size s) fa" and h: "kvs_holds s ls" and p: "p < kvs_page_count s" "p \<noteq> cur_page (kvs_current s)"
  shows "\<exists>s'. fd_key_value_store_nvm_erase fa p s = Some s' \<and> kvs_holds s' (ls[p := []]) \<and> same_env s' s \<and>
    kvs_current s' = kvs_current s \<and> kvs_is_full s' = kvs_is_full s"
proof -
  note h' = kvs_holdsD[OF h]
  define ps where "ps = kvs_page_size s"
  define s' where "s' = s\<lparr>kvs_flash := put (kvs_flash s) (p * ps + 0) (replicate ps 0xff)\<rparr>"
  have range: "p * ps + ps \<le> length (kvs_flash s)" using page_range[OF h'(1) p(1)] by (simp add: ps_def)
  have run: "fd_key_value_store_nvm_erase fa p s = Some s'"
    using fa range by (simp add: fd_key_value_store_nvm_erase_def flash_area_ok_def ps_def s'_def put_def kvs_assert_def add.commute)
  have len: "length (kvs_flash s') = length (kvs_flash s)" using range by (simp add: s'_def)
  have pages: "page_bytes s' q = (if q = p then replicate ps 0xff else page_bytes s q)" if "q < kvs_page_count s" for q
    using page_bytes_put[OF h'(1) p(1) that, of 0 "replicate ps 0xff"] length_page_bytes[OF h'(1) p(1)]
    by (simp add: s'_def ps_def put_def)
  have "24 \<le> ps" using h'(1) by (simp add: kvs_shape_def ps_def)
  then have "page_holds (replicate ps 0xff) []" by (simp add: page_holds_def)
  then have "\<forall>q < kvs_page_count s. page_holds (page_bytes s' q) (ls[p := []] ! q)"
    using pages h h'(2) by (simp add: kvs_holds_def nth_list_update)
  moreover have "keys_ok (ls[p := []])" by (rule keys_ok_update[OF h'(3)]) simp
  moreover have "kvs_shape s'" using h'(1) len by (simp add: kvs_shape_def s'_def)
  ultimately have "kvs_holds s' (ls[p := []])"
    using h'(2,4-6) p(2) by (simp add: kvs_holds_def s'_def)
  then show ?thesis using run by (intro exI[of _ s']) (simp add: s'_def same_env_def)
qed

lemma foldl_gc_other: "p \<noteq> cur \<Longrightarrow> foldl (gc_step cur) ls es ! p = ls ! p"
  by (induction es arbitrary: ls) simp_all

lemma foldl_gc_length [simp]: "length (foldl (gc_step cur) ls es) = length ls"
  by (induction es arbitrary: ls) simp_all

lemma length_gc_logs [simp]: "length (gc_logs ls cur) = length ls"
  by (simp add: gc_logs_def)

lemma garbage_collect_ok:
  assumes fa: "flash_area_ok (kvs_page_size s) fa" and h: "kvs_holds s ls" and cur: "cur = cur_page (kvs_current s)"
    and empty: "ls ! cur = []" and src: "ls ! next_page ls cur \<noteq> []"
  shows "\<exists>s'. fd_key_value_store_garbage_collect fa s = Some s' \<and> kvs_holds s' (gc_logs ls cur) \<and> same_env s' s \<and>
    cur_page (kvs_current s') = cur \<and> kvs_is_full s' = kvs_is_full s"
proof -
  note h' = kvs_holdsD[OF h, folded cur]
  define p where "p = next_page ls cur"
  have p: "p < kvs_page_count s" "p \<noteq> cur" using next_page_other[of ls cur] h'(2,4,8) by (simp_all add: p_def)
  have pp: "(cur_page (kvs_current s) + 1) mod kvs_page_count s = p" using h'(2) by (simp add: p_def next_page_def cur)
  note ok = kvs_holds_page[OF h p(1)]
  obtain s1 where s1: "collect_loop fa p [0..<length (ls ! p)] s = Some s1"
      "kvs_holds s1 (foldl (gc_step cur) ls (ls ! p))" "same_env s1 s" "cur_page (kvs_current s1) = cur" "kvs_is_full s1 = kvs_is_full s"
    using collect_loop_ok[OF fa p page_room[OF ok] h cur same_env_refl refl, of 0] empty by auto
  have env: "kvs_page_size s1 = kvs_page_size s" "kvs_page_count s1 = kvs_page_count s" using s1(3) by (simp_all add: same_env_def)
  obtain s2 where s2: "fd_key_value_store_nvm_erase fa p s1 = Some s2" "kvs_holds s2 (gc_logs ls cur)" "same_env s2 s1"
      "kvs_current s2 = kvs_current s1" "kvs_is_full s2 = kvs_is_full s1"
    using nvm_erase_ok[OF _ s1(2), of fa p] fa p s1(4) by (auto simp: env gc_logs_def p_def)
  define s3 where "s3 = s2\<lparr>kvs_garbage_collection_count := kvs_garbage_collection_count s2 + 1\<rparr>"
  have "fd_key_value_store_garbage_collect fa s = Some s3"
    using is_page_empty[OF ok] metadata_count[OF ok] s1(1) s2(1) src pp
    by (simp add: fd_key_value_store_garbage_collect_def Let_def p_def[symmetric] kvs_assert_def s3_def)
  moreover have "kvs_holds s3 (gc_logs ls cur)"
    using s2(2) by (simp add: kvs_holds_def kvs_shape_def page_bytes_def s3_def)
  ultimately show ?thesis
    using s1(3-5) s2(3-5) by (intro exI[of _ s3]) (simp add: s3_def same_env_def)
qed

lemma advance_ok:
  assumes h: "kvs_holds s ls" and cur: "cur = cur_page (kvs_current s)" and empty: "ls ! next_page ls cur = []"
  shows "\<exists>s'. fd_key_value_store_advance_current_page s = Some s' \<and> kvs_holds s' ls \<and> same_env s' s \<and>
    cur_page (kvs_current s') = next_page ls cur \<and> kvs_is_full s' = kvs_is_full s"
proof -
  note h' = kvs_holdsD[OF h, folded cur]
  define p where "p = next_page ls cur"
  have p: "p < kvs_page_count s" using next_page_other[of ls cur] h'(2,4,8) by (simp add: p_def)
  have pp: "(cur_page (kvs_current s) + 1) mod kvs_page_count s = p" using h'(2) by (simp add: p_def next_page_def cur)
  define s' where "s' = s\<lparr>kvs_current := \<lparr>cur_page = p, cur_data_byte_count = 0, cur_metadata_count = 0\<rparr>\<rparr>"
  have "fd_key_value_store_advance_current_page s = Some s'"
    using is_page_empty[OF kvs_holds_page[OF h p]] empty pp
    by (simp add: fd_key_value_store_advance_current_page_def Let_def p_def[symmetric] kvs_assert_def s'_def)
  moreover have "kvs_holds s' ls"
    using h p empty by (simp add: kvs_holds_def kvs_shape_def page_bytes_def s'_def p_def)
  ultimately show ?thesis by (intro exI[of _ s']) (simp add: s'_def same_env_def p_def)
qed

section \<open>Allocation\<close>

text \<open>The allocation on logs, with a bound on the number of turns.\<close>

definition log_free :: "nat \<Rightarrow> kv_entry list \<Rightarrow> nat" where
  "log_free page_size es = page_size - (data_size es + 12 * length es)"

fun alloc_logs ::
  "nat \<Rightarrow> nat \<Rightarrow> nat \<Rightarrow> nat \<Rightarrow> kv_entry list list \<Rightarrow> nat \<Rightarrow> (bool \<times> kv_entry list list \<times> nat) option" where
  "alloc_logs 0 page_size n collections ls cur = None"
| "alloc_logs (Suc turns) page_size n collections ls cur =
     (if n \<le> log_free page_size (ls ! cur) then Some (True, ls, cur)
      else let cur = next_page ls cur in
        if ls ! next_page ls cur = [] then alloc_logs turns page_size n collections ls cur
        else let ls = gc_logs ls cur; collections = collections + 1 in
          if collections > length ls then Some (False, ls, cur)
          else alloc_logs turns page_size n collections ls cur)"

text \<open>The page after the current one is kept free.\<close>

definition spare :: "kv_entry list list \<Rightarrow> nat \<Rightarrow> bool" where
  "spare ls cur \<longleftrightarrow> 2 \<le> length ls \<and> cur < length ls \<and> ls ! next_page ls cur = []"

lemma gc_logs_nth:
  assumes "2 \<le> length ls" "cur < length ls"
  shows "gc_logs ls cur ! next_page ls cur = []" "next_page (gc_logs ls cur) q = next_page ls q"
  using next_page_other[OF assms] foldl_gc_length[of cur ls] by (simp_all add: gc_logs_def next_page_def)

lemma current_free_bytes_ok:
  assumes "kvs_holds s ls" "cur = cur_page (kvs_current s)"
  shows "fd_key_value_store_current_free_bytes s = (log_free (kvs_page_size s) (ls ! cur), s)"
proof -
  have "data_size (ls ! cur) + 12 * (length (ls ! cur) + 1) \<le> kvs_page_size s"
    using page_room[OF kvs_holds_page[OF assms(1) kvs_holdsD(4)[OF assms(1)]]] by (simp add: assms(2))
  then show ?thesis
    using kvs_holdsD(5,6)[OF assms(1)]
    by (simp add: fd_key_value_store_current_free_bytes_def assms(2) metadata_size_def Let_def log_free_def kvs_assert_def mult.commute)
qed

lemma allocate_loop_ok:
  "flash_area_ok (kvs_page_size s) fa \<Longrightarrow> kvs_holds s ls \<Longrightarrow> cur = cur_page (kvs_current s) \<Longrightarrow> spare ls cur \<Longrightarrow>
   alloc_logs turns (kvs_page_size s) n collections ls cur = Some (res, ls', cur') \<Longrightarrow>
   \<exists>s'. allocate_loop fa n collections s = Some (res, s') \<and> kvs_holds s' ls' \<and> same_env s' s \<and>
     cur_page (kvs_current s') = cur' \<and> spare ls' cur' \<and> kvs_is_full s' = (kvs_is_full s \<or> \<not> res) \<and>
     (res \<longrightarrow> n \<le> log_free (kvs_page_size s) (ls' ! cur') \<and> kvs_data_write_offset s' = cur_data_byte_count (kvs_current s'))"
proof (induction turns arbitrary: s collections ls cur)
  case (Suc turns)
  note fa = Suc(2) and h = Suc(3) and cur = Suc(4) and spare = Suc(5) and run = Suc(6)
  note free = current_free_bytes_ok[OF h cur]
  show ?case
  proof (cases "n \<le> log_free (kvs_page_size s) (ls ! cur)")
    case True
    define s' where "s' = s\<lparr>kvs_data_write_offset := cur_data_byte_count (kvs_current s)\<rparr>"
    have "allocate_loop fa n collections s = Some (True, s')"
      using True free by (subst allocate_loop.simps) (simp add: s'_def)
    moreover have "kvs_holds s' ls" using h by (simp add: kvs_holds_def kvs_shape_def page_bytes_def s'_def)
    moreover have "res" "ls' = ls" "cur' = cur" using run True by simp_all
    ultimately show ?thesis
      using spare True cur by (intro exI[of _ s']) (simp add: s'_def same_env_def)
  next
    case False
    define c where "c = next_page ls cur"
    have len: "length ls = kvs_page_count s" "2 \<le> length ls" "cur < length ls"
      using kvs_holdsD(2,4,8)[OF h] by (simp_all add: cur)
    have c: "c < length ls" using next_page_other[OF len(2,3)] by (simp add: c_def)
    obtain s1 where s1: "fd_key_value_store_advance_current_page s = Some s1" "kvs_holds s1 ls" "same_env s1 s"
        "cur_page (kvs_current s1) = c" "kvs_is_full s1 = kvs_is_full s"
      using advance_ok[OF h cur] spare by (auto simp: spare_def c_def)
    have env: "kvs_page_size s1 = kvs_page_size s" "kvs_page_count s1 = kvs_page_count s" using s1(3) by (simp_all add: same_env_def)
    define k where "k = next_page ls c"
    have k: "k < length ls" "k \<noteq> c" using next_page_other[OF len(2) c] by (simp_all add: k_def)
    have kk: "(cur_page (kvs_current s1) + 1) mod kvs_page_count s1 = k" using s1(4) len(1) by (simp add: env k_def next_page_def)
    have pe: "fd_key_value_store_is_page_empty s1 k = Some (ls ! k = [], s1)"
      by (rule is_page_empty[OF kvs_holds_page[OF s1(2)]]) (use k len env in simp)
    show ?thesis
    proof (cases "ls ! k = []")
      case True
      have "alloc_logs turns (kvs_page_size s1) n collections ls c = Some (res, ls', cur')"
        using run False True by (simp add: c_def k_def env Let_def)
      moreover have "spare ls c" using len c True by (simp add: spare_def k_def)
      ultimately obtain s' where s': "allocate_loop fa n collections s1 = Some (res, s')" "kvs_holds s' ls'" "same_env s' s1"
          "cur_page (kvs_current s') = cur'" "spare ls' cur'" "kvs_is_full s' = (kvs_is_full s1 \<or> \<not> res)"
          "res \<longrightarrow> n \<le> log_free (kvs_page_size s1) (ls' ! cur') \<and> kvs_data_write_offset s' = cur_data_byte_count (kvs_current s')"
        using Suc(1)[OF _ s1(2) s1(4)[symmetric], of collections] fa by (auto simp: env)
      have "allocate_loop fa n collections s = Some (res, s')"
        using False free s1(1) kk pe True s'(1) by (subst allocate_loop.simps) (simp add: Let_def)
      then show ?thesis using s' s1(5) same_env_trans[OF s'(3) s1(3)] by (auto simp: env)
    next
      case nonempty: False
      have "ls ! c = []" using spare by (simp add: spare_def c_def)
      then obtain s2 where s2: "fd_key_value_store_garbage_collect fa s1 = Some s2" "kvs_holds s2 (gc_logs ls c)" "same_env s2 s1"
          "cur_page (kvs_current s2) = c" "kvs_is_full s2 = kvs_is_full s1"
        using garbage_collect_ok[OF _ s1(2) s1(4)[symmetric]] fa nonempty by (auto simp: env k_def)
      have env2: "kvs_page_size s2 = kvs_page_size s" "kvs_page_count s2 = kvs_page_count s" using s2(3) env by (simp_all add: same_env_def)
      have spare2: "spare (gc_logs ls c) c" using len c gc_logs_nth[OF len(2) c] by (simp add: spare_def)
      have run2: "(if collections + 1 > length ls then Some (False, gc_logs ls c, c)
          else alloc_logs turns (kvs_page_size s) n (collections + 1) (gc_logs ls c) c) = Some (res, ls', cur')"
        using run False nonempty by (auto simp: c_def k_def Let_def)
      show ?thesis
      proof (cases "collections + 1 > length ls")
        case True
        define s3 where "s3 = s2\<lparr>kvs_is_full := True\<rparr>"
        have "allocate_loop fa n collections s = Some (False, s3)"
          using False free s1(1) kk pe nonempty s2(1) True len(1) env2
          by (subst allocate_loop.simps) (simp add: Let_def s3_def)
        moreover have "kvs_holds s3 (gc_logs ls c)" using s2(2) by (simp add: kvs_holds_def kvs_shape_def page_bytes_def s3_def)
        moreover have "\<not> res" "ls' = gc_logs ls c" "cur' = c" using run2 True by auto
        ultimately show ?thesis
          using spare2 s2(3,4) same_env_trans[OF s2(3) s1(3)] by (intro exI[of _ s3]) (simp add: s3_def same_env_def)
      next
        case False': False
        obtain s' where s': "allocate_loop fa n (collections + 1) s2 = Some (res, s')" "kvs_holds s' ls'" "same_env s' s2"
            "cur_page (kvs_current s') = cur'" "spare ls' cur'" "kvs_is_full s' = (kvs_is_full s2 \<or> \<not> res)"
            "res \<longrightarrow> n \<le> log_free (kvs_page_size s2) (ls' ! cur') \<and> kvs_data_write_offset s' = cur_data_byte_count (kvs_current s')"
          using Suc(1)[OF _ s2(2) s2(4)[symmetric] spare2, of "collections + 1"] fa run2 False' by (auto simp: env2)
        have "allocate_loop fa n collections s = Some (res, s')"
          using False free s1(1) kk pe nonempty s2(1) False' len(1) env2 s'(1)
          by (subst allocate_loop.simps) (simp add: Let_def)
        then show ?thesis
          using s' s1(5) s2(5) same_env_trans[OF s'(3) same_env_trans[OF s2(3) s1(3)]] by (auto simp: env2)
      qed
    qed
  qed
qed simp

text \<open>A record that fits an empty page is allocated, or refused, within a bounded number of turns.\<close>

lemma alloc_logs_terminates:
  assumes "n \<le> page_size"
  shows "2 \<le> length ls \<Longrightarrow> cur < length ls \<Longrightarrow> collections \<le> length ls \<Longrightarrow> spare ls cur \<Longrightarrow>
    \<exists>res ls' cur'. alloc_logs (length ls - collections + 2) page_size n collections ls cur = Some (res, ls', cur')"
proof (induction "length ls - collections" arbitrary: ls cur collections)
  case 0
  have c: "next_page ls cur < length ls" using next_page_other[OF 0(2,3)] by simp
  have e: "ls ! next_page ls cur = []" using 0(5) by (simp add: spare_def)
  have "collections = length ls" using 0(1,4) by simp
  then show ?case using e assms by (auto simp: Let_def log_free_def numeral_2_eq_2)
next
  case (Suc k)
  define c where "c = next_page ls cur"
  have c: "c < length ls" using next_page_other[OF Suc(3,4)] by (simp add: c_def)
  have e: "ls ! c = []" using Suc(6) by (simp add: spare_def c_def)
  define m where "m = length ls - (collections + 1) + 2"
  have t: "length ls - collections + 2 = Suc m" using Suc(2) by (simp add: m_def)
  have sp: "spare (gc_logs ls c) c" using Suc(3) c gc_logs_nth[OF Suc(3) c] by (simp add: spare_def)
  have "\<exists>res ls' cur'. alloc_logs (length (gc_logs ls c) - (collections + 1) + 2) page_size n (collections + 1) (gc_logs ls c) c =
      Some (res, ls', cur')"
    by (rule Suc(1)) (use Suc(2,3) c sp in simp_all)
  then have gc: "\<exists>res ls' cur'. alloc_logs m page_size n (collections + 1) (gc_logs ls c) c = Some (res, ls', cur')"
    by (simp add: m_def)
  have adv: "alloc_logs m page_size n collections ls c = Some (True, ls, c)"
    using e assms by (simp add: log_free_def numeral_2_eq_2 m_def)
  show ?case
    unfolding t alloc_logs.simps using gc adv by (auto simp: c_def[symmetric] Let_def)
qed

section \<open>Adding, setting and removing\<close>

definition record_of :: "u8 list \<Rightarrow> u8 list list option \<Rightarrow> kv_entry" where
  "record_of key obj = \<lparr>kv_removed = (obj = None), kv_key = key,
     kv_value = (case obj of None \<Rightarrow> [] | Some chunks \<Rightarrow> concat chunks)\<rparr>"

text \<open>What an addition needs: room for the record, and the end marker after it.\<close>

definition record_room :: "kv_entry \<Rightarrow> nat" where
  "record_room e = kv_size e + 12 + 12"

definition add_events :: "u8 list \<Rightarrow> u8 list list option \<Rightarrow> fd_key_value_store_t \<Rightarrow> kvs_event list" where
  "add_events key obj s = (if obj \<noteq> None then map (\<lambda>listener. was_set (li_context listener) key) (filter li_was_set (kvs_listeners s))
     else map (\<lambda>listener. was_removed (li_context listener) key) (filter li_was_removed (kvs_listeners s)))"

lemma callback_append:
  "fd_key_value_store_ostream_callback fa (a @ b) s =
   do { s \<leftarrow> fd_key_value_store_ostream_callback fa a s; fd_key_value_store_ostream_callback fa b s }"
proof (induction a arbitrary: s)
  case (Cons x a)
  show ?case by (simp add: Cons)
qed simp

lemma encode_chunks: "pb_encode_chunks fa chunks = fd_key_value_store_ostream_callback fa (concat chunks)"
  by (induction chunks) (auto simp: callback_append)

lemma kvs_assert_True [simp]: "kvs_assert True msg s = s"
  by (simp add: kvs_assert_def)

lemma add_after_alloc:
  assumes "fd_key_value_store_allocate fa (record_room (record_of key obj)) s = Some (res, s1)"
    and "kvs_minumum_write_size s = 4" "length key + length (kv_value (record_of key obj)) + 3 < 2 ^ 32"
    and "kvs_data_write_offset s1 = cur_data_byte_count (kvs_current s1)"
  shows "fd_key_value_store_add fa key obj s =
    (if \<not> res then Some (False, kvs_assert False ''result'' s1)
     else do { s \<leftarrow> stream_record fa key (kv_value (record_of key obj)) (if obj = None then 1 else 0) (ready_to_write s1);
               Some (True, s\<lparr>kvs_events := kvs_events s @ add_events key obj s\<rparr>) })"
proof -
  have size: "(case obj of None \<Rightarrow> 0 | Some chunks \<Rightarrow> length (concat chunks)) = length (kv_value (record_of key obj))"
    by (simp add: record_of_def split: option.splits)
  have ws: "fd_key_value_store_get_write_size s (length key + length (kv_value (record_of key obj))) = round4 (length key + length (kv_value (record_of key obj)))"
    by (rule write_size_4[OF assms(2,3)])
  have room: "round4 (length key + length (kv_value (record_of key obj))) + metadata_size + metadata_size = record_room (record_of key obj)"
    by (simp add: record_room_def kv_size_def metadata_size_def) (simp add: record_of_def)
  have alloc: "fd_key_value_store_allocate_key_value fa (length key) (length (kv_value (record_of key obj))) s =
      Some (res, round4 (length key + length (kv_value (record_of key obj))), kvs_assert res ''result'' s1)"
    using assms(1) by (simp add: fd_key_value_store_allocate_key_value_def Let_def ws room)
  have ready: "fd_key_value_store_ostream s1 = ready_to_write s1"
    using assms(4) by (simp add: fd_key_value_store_ostream_def ready_to_write_def)
  show ?thesis
  proof (cases obj)
    case None
    then show ?thesis
      using alloc unfolding fd_key_value_store_add_def stream_record_def
      by (simp add: ready Let_def record_of_def add_events_def notify_removed_def fd_key_value_store_metadata_flags_removed_def)
  next
    case (Some chunks)
    have v: "kv_value (record_of key obj) = concat chunks" by (simp add: record_of_def Some)
    show ?thesis
      using alloc unfolding fd_key_value_store_add_def stream_record_def
      by (simp add: ready Let_def Some v[unfolded Some] encode_chunks add_events_def notify_set_def del: length_concat)
  qed
qed

text \<open>The bytes the store has for a key.\<close>

definition kvs_value :: "fd_key_value_store_t \<Rightarrow> u8 list \<Rightarrow> u8 list option option" where
  "kvs_value s key = do { r \<leftarrow> fd_key_value_store_lookup s key;
     case r of None \<Rightarrow> Some None | Some (addr, n) \<Rightarrow> do { bs \<leftarrow> rd_block (kvs_flash s) addr n; Some (Some bs) } }"

lemma kvs_value_lookup:
  assumes "kvs_holds s ls" "0 \<notin> set key"
  shows "kvs_value s key = Some (store_lookup ls (cur_page (kvs_current s)) key)"
  using lookup_store[OF assms] by (auto simp: kvs_value_def points_to_def split: option.splits)

definition older_pages :: "kv_entry list list \<Rightarrow> nat \<Rightarrow> kv_entry list list" where
  "older_pages ls cur = rev (take cur ls) @ rev (drop (Suc cur) ls)"

lemma newest_first_current: "cur < length ls \<Longrightarrow> newest_first ls cur = ls ! cur # older_pages ls cur"
  by (simp add: newest_first_def older_pages_def take_Suc_conv_app_nth)

lemma older_pages_update [simp]: "older_pages (ls[cur := es]) cur = older_pages ls cur"
  by (simp add: older_pages_def)

lemma store_lookup_current:
  "cur < length ls \<Longrightarrow> store_lookup ls cur key =
     (case page_lookup (ls ! cur) key of Some v \<Rightarrow> Some v | None \<Rightarrow> lookup_pages (older_pages ls cur) key)"
  by (simp add: store_lookup_def newest_first_current)

lemma page_lookup_snoc:
  "page_lookup (es @ [e]) key = (if kv_key e = key then (if kv_removed e then None else Some (kv_value e)) else page_lookup es key)"
  by (simp add: page_lookup_def)

lemma spare_append: "spare ls cur \<Longrightarrow> spare (ls[cur := es]) cur"
  using next_page_other[of ls cur] by (auto simp: spare_def next_page_def)

definition add_logs :: "nat \<Rightarrow> kv_entry \<Rightarrow> kv_entry list list \<Rightarrow> nat \<Rightarrow> (bool \<times> kv_entry list list \<times> nat) option" where
  "add_logs page_size e ls cur =
     do { (res, ls, cur) \<leftarrow> alloc_logs (length ls + 2) page_size (record_room e) 0 ls cur;
          Some (res, if res then ls[cur := ls ! cur @ [e]] else ls, cur) }"

lemma log_freeD: "n \<le> log_free page_size es \<Longrightarrow> 0 < n \<Longrightarrow> data_size es + 12 * length es + n \<le> page_size"
  by (simp add: log_free_def)

lemma add_refines:
  assumes fa: "flash_area_ok (kvs_page_size s) fa" and h: "kvs_holds s ls" and cur: "cur = cur_page (kvs_current s)"
    and spare: "spare ls cur" and full: "\<not> kvs_is_full s" and key: "0 \<notin> set key"
    and fits: "record_room (record_of key obj) \<le> kvs_page_size s"
  shows "\<exists>res ls' cur' s'. add_logs (kvs_page_size s) (record_of key obj) ls cur = Some (res, ls', cur') \<and>
    fd_key_value_store_add fa key obj s = Some (res, s') \<and> kvs_holds s' ls' \<and> cur_page (kvs_current s') = cur' \<and>
    spare ls' cur' \<and> kvs_is_full s' = (\<not> res) \<and>
    kvs_page_size s' = kvs_page_size s \<and> kvs_listeners s' = kvs_listeners s \<and>
    kvs_events s' = kvs_events s @ (if res then add_events key obj s else []) \<and>
    kvs_log s' = kvs_log s @ (if res then [] else [''result''])"
proof -
  define e where "e = record_of key obj"
  note h' = kvs_holdsD[OF h, folded cur]
  have e: "kv_key e = key" "kv_removed e \<longleftrightarrow> obj = None" by (simp_all add: e_def record_of_def)
  have "length key + length (kv_value e) \<le> kv_size e" by (simp add: kv_size_def e)
  then have small: "length key + length (kv_value e) + 3 < 2 ^ 32"
    using fits h'(11) by (simp add: record_room_def e_def[symmetric])
  have "\<exists>res ls1 cur'. alloc_logs (length ls - 0 + 2) (kvs_page_size s) (record_room e) 0 ls cur = Some (res, ls1, cur')"
    by (rule alloc_logs_terminates) (use fits spare in \<open>simp_all add: e_def spare_def\<close>)
  then obtain res ls1 cur' where alloc: "alloc_logs (length ls + 2) (kvs_page_size s) (record_room e) 0 ls cur = Some (res, ls1, cur')"
    by auto
  obtain s1 where s1: "allocate_loop fa (record_room e) 0 s = Some (res, s1)" "kvs_holds s1 ls1" "same_env s1 s"
      "cur_page (kvs_current s1) = cur'" "spare ls1 cur'" "kvs_is_full s1 = (\<not> res)"
      "res \<longrightarrow> record_room e \<le> log_free (kvs_page_size s) (ls1 ! cur') \<and> kvs_data_write_offset s1 = cur_data_byte_count (kvs_current s1)"
    using allocate_loop_ok[OF fa h cur spare alloc] full by auto
  have env: "kvs_page_size s1 = kvs_page_size s" "kvs_listeners s1 = kvs_listeners s" "kvs_events s1 = kvs_events s" "kvs_log s1 = kvs_log s"
    using s1(3) by (simp_all add: same_env_def)
  have allocate: "fd_key_value_store_allocate fa (record_room e) s = Some (res, s1)"
    using full s1(1) by (simp add: fd_key_value_store_allocate_def)
  show ?thesis
  proof (cases res)
    case True
    note add = add_after_alloc[OF allocate[unfolded e_def] h'(9) small[unfolded e_def], folded e_def]
    have "data_size (ls1 ! cur') + 12 * length (ls1 ! cur') + record_room e \<le> kvs_page_size s"
      by (rule log_freeD) (use s1(7) True in \<open>simp_all add: record_room_def\<close>)
    then have room: "data_size (ls1 ! cur') + kv_size e + 12 * (length (ls1 ! cur') + 2) \<le> kvs_page_size s1"
      by (simp add: record_room_def env)
    obtain s2 where s2: "stream_record fa (kv_key e) (kv_value e) (if kv_removed e then 1 else 0) (ready_to_write s1) = Some s2"
        "kvs_holds s2 (ls1[cur' := ls1 ! cur' @ [e]])" "same_env s2 s1" "cur_page (kvs_current s2) = cur'" "kvs_is_full s2 = kvs_is_full s1"
      using stream_record_ok[OF _ s1(2) s1(4)[symmetric] room _ refl] fa key by (auto simp: env e)
    define s3 where "s3 = s2\<lparr>kvs_events := kvs_events s2 @ add_events key obj s2\<rparr>"
    have env2: "kvs_page_size s2 = kvs_page_size s" "kvs_listeners s2 = kvs_listeners s" "kvs_events s2 = kvs_events s" "kvs_log s2 = kvs_log s"
      using s2(3) env by (simp_all add: same_env_def)
    have "fd_key_value_store_add fa key obj s = Some (True, s3)"
      using add True s1(7) s2(1) by (simp add: e s3_def)
    moreover have "kvs_holds s3 (ls1[cur' := ls1 ! cur' @ [e]])"
      using s2(2) by (simp add: s3_def kvs_holds_def kvs_shape_def page_bytes_def)
    moreover have "add_events key obj s2 = add_events key obj s" by (simp add: add_events_def env2)
    moreover have "add_logs (kvs_page_size s) e ls cur = Some (True, ls1[cur' := ls1 ! cur' @ [e]], cur')"
      using alloc True by (simp add: add_logs_def)
    ultimately show ?thesis
      using s2(4,5) s1(6) True spare_append[OF s1(5)] env2
      by (intro exI[of _ True] exI[of _ "ls1[cur' := ls1 ! cur' @ [e]]"] exI[of _ cur'] exI[of _ s3]) (simp add: e_def[symmetric] s3_def)
  next
    case False
    define s2 where "s2 = kvs_assert False ''result'' s1"
    have "fd_key_value_store_allocate_key_value fa (length key) (length (kv_value e)) s = Some (False, round4 (length key + length (kv_value e)), s2)"
      using allocate False write_size_4[OF h'(9) small]
      by (simp add: fd_key_value_store_allocate_key_value_def record_room_def kv_size_def e metadata_size_def s2_def)
    moreover have "(case obj of None \<Rightarrow> 0 | Some chunks \<Rightarrow> length (concat chunks)) = length (kv_value e)"
      by (simp add: e_def record_of_def split: option.splits)
    ultimately have "fd_key_value_store_add fa key obj s = Some (False, s2)"
      by (simp add: fd_key_value_store_add_def)
    moreover have "kvs_holds s2 ls1" using s1(2) by (simp add: s2_def kvs_assert_def kvs_holds_def kvs_shape_def page_bytes_def)
    moreover have "add_logs (kvs_page_size s) e ls cur = Some (False, ls1, cur')" using alloc False by (simp add: add_logs_def)
    ultimately show ?thesis
      using s1(4-6) False env
      by (intro exI[of _ False] exI[of _ ls1] exI[of _ cur'] exI[of _ s2])
        (simp add: e_def[symmetric] s2_def kvs_assert_def fd_assert_def)
  qed
qed

lemma equal_stream_callback_ok:
  "eq_size st = length (eq_value st) \<Longrightarrow> eq_count st \<le> eq_size st \<Longrightarrow>
   \<exists>st'. fd_key_value_store_equal_stream_callback data st = Some st' \<and>
     (eq_is_equal st' \<longleftrightarrow> eq_is_equal st \<and>
       (\<forall>i < length data. eq_count st + i < eq_size st \<longrightarrow> data ! i = eq_value st ! (eq_count st + i)))"
proof (induction data arbitrary: st)
  case (Cons b data)
  show ?case
  proof (cases "eq_count st < eq_size st")
    case True
    define st1 where "st1 = (if b \<noteq> eq_value st ! eq_count st then st\<lparr>eq_is_equal := False\<rparr> else st)\<lparr>eq_count := eq_count st + 1\<rparr>"
    have f: "eq_value st1 = eq_value st" "eq_size st1 = eq_size st" "eq_count st1 = eq_count st + 1"
      "eq_is_equal st1 \<longleftrightarrow> eq_is_equal st \<and> b = eq_value st ! eq_count st" by (simp_all add: st1_def)
    obtain st' where st': "fd_key_value_store_equal_stream_callback data st1 = Some st'"
      "eq_is_equal st' \<longleftrightarrow> eq_is_equal st1 \<and> (\<forall>i < length data. eq_count st1 + i < eq_size st1 \<longrightarrow> data ! i = eq_value st1 ! (eq_count st1 + i))"
      using Cons(1)[of st1] Cons(2) True by (auto simp: f)
    have "fd_key_value_store_equal_stream_callback (b # data) st = Some st'"
      using True Cons(2) st'(1) by (auto simp: rd_in st1_def)
    then show ?thesis using st'(2) True by (auto simp: f All_less_Suc2)
  next
    case False
    then have "fd_key_value_store_equal_stream_callback (b # data) st = fd_key_value_store_equal_stream_callback data st" by simp
    then show ?thesis using Cons(1)[OF Cons(2,3)] False by auto
  qed
qed simp

lemma is_set_to_ok:
  assumes h: "kvs_holds s ls" and key: "0 \<notin> set key"
  shows "\<exists>st. fd_key_value_store_is_set_to key chunks s =
    Some (store_lookup ls (cur_page (kvs_current s)) key = Some (concat chunks) \<or>
        store_lookup ls (cur_page (kvs_current s)) key = None \<and> concat chunks = [], s\<lparr>kvs_equal_stream_state := st\<rparr>)"
proof -
  obtain r where r: "fd_key_value_store_lookup s key = Some r" "points_to s r (store_lookup ls (cur_page (kvs_current s)) key)"
    using lookup_store[OF h key] by blast
  have stream: "\<exists>st. fd_key_value_store_equal_stream_callback data (fd_key_value_store_equal_stream v (length v)) = Some st \<and>
      (eq_is_equal st \<and> length data = length v \<longleftrightarrow> v = data)" for v data
    using equal_stream_callback_ok[of "fd_key_value_store_equal_stream v (length v)" data]
    by (auto simp: fd_key_value_store_equal_stream_def list_eq_iff_nth_eq)
  show ?thesis
  proof (cases "store_lookup ls (cur_page (kvs_current s)) key")
    case None
    obtain st where "fd_key_value_store_equal_stream_callback (concat chunks) (fd_key_value_store_equal_stream [] 0) = Some st"
        "eq_is_equal st \<and> length (concat chunks) = 0 \<longleftrightarrow> [] = concat chunks"
      using stream[of "concat chunks" "[]"] by auto
    then show ?thesis
      using r None by (intro exI[of _ st]) (auto simp: fd_key_value_store_is_set_to_def points_to_def simp del: length_concat)
  next
    case (Some v)
    then obtain addr where a: "r = Some (addr, length v)" "rd_block (kvs_flash s) addr (length v) = Some v"
      using r(2) by (auto simp: points_to_def)
    obtain st where "fd_key_value_store_equal_stream_callback (concat chunks) (fd_key_value_store_equal_stream v (length v)) = Some st"
        "eq_is_equal st \<and> length (concat chunks) = length v \<longleftrightarrow> v = concat chunks"
      using stream by blast
    then show ?thesis
      using r(1) a Some by (intro exI[of _ st]) (simp add: fd_key_value_store_is_set_to_def del: length_concat)
  qed
qed

lemma add_logs_fits:
  "record_room e \<le> log_free page_size (ls ! cur) \<Longrightarrow> add_logs page_size e ls cur = Some (True, ls[cur := ls ! cur @ [e]], cur)"
  by (simp add: add_logs_def numeral_2_eq_2)

lemma add_logs_spare:
  "add_logs page_size e ls cur = Some (True, ls', cur') \<Longrightarrow> spare ls' cur' \<Longrightarrow>
     \<exists>ls1. ls' = ls1[cur' := ls1 ! cur' @ [e]] \<and> cur' < length ls1"
  by (auto simp: add_logs_def spare_def split: Option.bind_splits if_splits)

lemma set_ok:
  assumes fa: "flash_area_ok (kvs_page_size s) fa" and h: "kvs_holds s ls" and cur: "cur = cur_page (kvs_current s)"
    and spare: "spare ls cur" and full: "\<not> kvs_is_full s" and key: "0 \<notin> set key"
    and fits: "record_room (record_of key (Some chunks)) \<le> kvs_page_size s"
    and new: "store_lookup ls cur key \<noteq> Some (concat chunks)" "concat chunks \<noteq> []"
  shows "\<exists>res ls' cur' s'. add_logs (kvs_page_size s) (record_of key (Some chunks)) ls cur = Some (res, ls', cur') \<and>
    fd_key_value_store_set fa key chunks s = Some (res, s') \<and> kvs_holds s' ls' \<and> cur_page (kvs_current s') = cur' \<and>
    spare ls' cur' \<and> kvs_is_full s' = (\<not> res) \<and>
    kvs_events s' = kvs_events s @ (if res then add_events key (Some chunks) s @ add_events key (Some chunks) s else [])"
proof -
  define B where "B \<longleftrightarrow> store_lookup ls (cur_page (kvs_current s)) key = Some (concat chunks) \<or>
      store_lookup ls (cur_page (kvs_current s)) key = None \<and> concat chunks = []"
  have B: "B = False" using new unfolding B_def cur by blast
  obtain st where "fd_key_value_store_is_set_to key chunks s = Some (B, s\<lparr>kvs_equal_stream_state := st\<rparr>)"
    using is_set_to_ok[OF h key, of chunks, folded B_def] by blast
  then have st: "fd_key_value_store_is_set_to key chunks s = Some (False, s\<lparr>kvs_equal_stream_state := st\<rparr>)" unfolding B .
  define s1 where "s1 = s\<lparr>kvs_equal_stream_state := st\<rparr>"
  have h1: "kvs_holds s1 ls" using h by (simp add: s1_def kvs_holds_def kvs_shape_def page_bytes_def)
  have f1: "kvs_page_size s1 = kvs_page_size s" "kvs_current s1 = kvs_current s" "kvs_is_full s1 = kvs_is_full s"
    "kvs_listeners s1 = kvs_listeners s" "kvs_events s1 = kvs_events s" by (simp_all add: s1_def)
  obtain res ls' cur' s2 where s2: "add_logs (kvs_page_size s) (record_of key (Some chunks)) ls cur = Some (res, ls', cur')"
      "fd_key_value_store_add fa key (Some chunks) s1 = Some (res, s2)" "kvs_holds s2 ls'" "cur_page (kvs_current s2) = cur'"
      "spare ls' cur'" "kvs_is_full s2 = (\<not> res)" "kvs_listeners s2 = kvs_listeners s1"
      "kvs_events s2 = kvs_events s1 @ (if res then add_events key (Some chunks) s1 else [])"
    using add_refines[of s1 fa ls cur key "Some chunks"] fa h1 cur spare full key fits by (auto simp: f1)
  define s3 where "s3 = (if res then notify_set key s2 else s2)"
  have "fd_key_value_store_set fa key chunks s = Some (res, s3)"
    using st s2(2) by (simp add: fd_key_value_store_set_def s1_def s3_def)
  moreover have "kvs_holds s3 ls'" using s2(3) by (simp add: s3_def notify_set_def kvs_holds_def kvs_shape_def page_bytes_def)
  ultimately show ?thesis
    using s2(1,4-8)
    by (intro exI[of _ res] exI[of _ ls'] exI[of _ cur'] exI[of _ s3])
      (simp add: s3_def notify_set_def f1 add_events_def)
qed

section \<open>What collection does to a key\<close>

definition kept_values :: "kv_entry list \<Rightarrow> u8 list \<Rightarrow> u8 list list" where
  "kept_values es key = map kv_value (filter (\<lambda>e. kv_key e = key \<and> \<not> kv_removed e) es)"

lemma gc_step_older [simp]: "older_pages (gc_step cur ls e) cur = older_pages ls cur"
  by (simp add: gc_step_def)

lemma foldl_gc_older [simp]: "older_pages (foldl (gc_step cur) ls es) cur = older_pages ls cur"
  by (induction es arbitrary: ls) simp_all

lemma collected_lookup:
  "cur < length ls \<Longrightarrow> page_lookup (foldl (gc_step cur) ls es ! cur) key =
    (case page_lookup (ls ! cur) key of Some v \<Rightarrow> Some v
     | None \<Rightarrow> if lookup_pages (older_pages ls cur) key = None \<or> kept_values es key = [] then None
                else Some (hd (kept_values es key)))"
proof (induction es arbitrary: ls)
  case (Cons e es)
  have "page_lookup (gc_step cur ls e ! cur) key =
    (case page_lookup (ls ! cur) key of Some v \<Rightarrow> Some v
     | None \<Rightarrow> if kv_key e = key \<and> \<not> kv_removed e \<and> lookup_pages (older_pages ls cur) key \<noteq> None then Some (kv_value e) else None)"
    using Cons(2) by (auto simp: gc_step_def page_lookup_snoc store_lookup_current split: option.splits)
  then show ?case
    using Cons(1)[of "gc_step cur ls e"] Cons(2) by (auto simp: kept_values_def split: option.splits)
qed (simp add: kept_values_def split: option.splits)

lemma lookup_pages_append:
  "lookup_pages (a @ b) key = (case lookup_pages a key of Some v \<Rightarrow> Some v | None \<Rightarrow> lookup_pages b key)"
  by (induction a) (simp_all split: option.splits)

lemma lookup_pages_None: "lookup_pages ess key = None \<longleftrightarrow> (\<forall>es \<in> set ess. page_lookup es key = None)"
  by (induction ess) (simp_all split: option.splits)

lemma page_lookup_kept: "kept_values es key = [] \<Longrightarrow> page_lookup es key = None"
  by (auto simp: page_lookup_def kept_values_def filter_empty_conv find_Some_iff split: option.splits)
    (metis in_set_conv_nth length_rev nth_mem set_rev)

text \<open>The oldest page is the last in the order of lookup.\<close>

lemma older_pages_oldest:
  assumes "2 \<le> length ls" "cur < length ls"
  obtains mid where "older_pages ls cur = mid @ [ls ! next_page ls cur]"
    and "\<And>es. older_pages (ls[next_page ls cur := es]) cur = mid @ [es]"
proof (cases "Suc cur = length ls")
  case True
  obtain x rest where ls: "ls = x # rest" using assms by (cases ls) auto
  have n: "next_page ls cur = 0" using True by (simp add: next_page_def)
  obtain m where m: "cur = Suc m" using True assms(1) by (cases cur) simp_all
  have r: "length rest = Suc m" using True by (simp add: ls m)
  have "older_pages ls cur = rev (take m rest) @ [ls ! 0]" by (simp add: older_pages_def ls m r)
  moreover have "older_pages (ls[0 := es]) cur = rev (take m rest) @ [es]" for es by (simp add: older_pages_def ls m r)
  ultimately show ?thesis using that by (simp add: n)
next
  case False
  then have n: "next_page ls cur = Suc cur" "Suc cur < length ls" using assms(2) by (simp_all add: next_page_def)
  have d: "drop (Suc cur) ls = ls ! Suc cur # drop (Suc (Suc cur)) ls" using n(2) by (simp add: Cons_nth_drop_Suc)
  then have "older_pages ls cur = (rev (take cur ls) @ rev (drop (Suc (Suc cur)) ls)) @ [ls ! Suc cur]"
    by (simp add: older_pages_def)
  moreover have "older_pages (ls[Suc cur := es]) cur = (rev (take cur ls) @ rev (drop (Suc (Suc cur)) ls)) @ [es]" for es
    using n(2) by (simp add: older_pages_def drop_update_swap d)
  ultimately show ?thesis using that by (simp add: n(1))
qed

lemma gc_lookup:
  assumes "2 \<le> length ls" "cur < length ls" "ls ! cur = []"
  shows "store_lookup (gc_logs ls cur) cur key =
    (if store_lookup ls cur key = None \<or> kept_values (ls ! next_page ls cur) key = [] then store_lookup ls cur key
     else Some (hd (kept_values (ls ! next_page ls cur) key)))"
proof -
  define p where "p = next_page ls cur"
  define gs where "gs = foldl (gc_step cur) ls (ls ! p)"
  have p: "p < length ls" "p \<noteq> cur" using next_page_other[OF assms(1,2)] by (simp_all add: p_def)
  have older: "older_pages gs cur = older_pages ls cur" by (simp add: gs_def)
  have gp: "gs ! p = ls ! p" "length gs = length ls" using p(2) by (simp_all add: gs_def foldl_gc_other)
  obtain mid where mid: "older_pages gs cur = mid @ [gs ! next_page gs cur]"
      "\<And>es. older_pages (gs[next_page gs cur := es]) cur = mid @ [es]"
    using older_pages_oldest[of gs cur] assms by (auto simp: gp)
  have np: "next_page gs cur = p" using gp(2) by (simp add: next_page_def p_def)
  have old: "older_pages ls cur = mid @ [ls ! p]" using mid(1) older gp by (simp add: np)
  have new: "older_pages (gc_logs ls cur) cur = mid @ [[]]"
    using mid(2)[of "[]"] by (simp add: np gc_logs_def p_def[symmetric] gs_def[symmetric])
  have cur: "gc_logs ls cur ! cur = gs ! cur" using p(2) by (simp add: gc_logs_def p_def[symmetric] gs_def[symmetric])
  have empty: "page_lookup [] key = None" by (simp add: page_lookup_def)
  have l: "store_lookup ls cur key = lookup_pages (mid @ [ls ! p]) key"
    using assms(2,3) empty by (simp add: store_lookup_current old)
  have g: "store_lookup (gc_logs ls cur) cur key = (case page_lookup (gs ! cur) key of Some v \<Rightarrow> Some v | None \<Rightarrow> lookup_pages (mid @ [[]]) key)"
  proof -
    have "cur < length (gc_logs ls cur)" using assms(2) by simp
    then show ?thesis unfolding store_lookup_current[OF \<open>cur < length (gc_logs ls cur)\<close>] new cur by (simp only:)
  qed
  have c: "page_lookup (gs ! cur) key = (if lookup_pages (mid @ [ls ! p]) key = None \<or> kept_values (ls ! p) key = [] then None
      else Some (hd (kept_values (ls ! p) key)))"
    using collected_lookup[OF assms(2), of "ls ! p" key] assms(3) empty by (simp add: gs_def old)
  show ?thesis
    using page_lookup_kept[of "ls ! p" key] unfolding l g c p_def[symmetric]
    by (auto simp: lookup_pages_append empty split: option.splits)
qed

section \<open>The order of the pages\<close>

text \<open>The pages in use follow each other: going back in time from the page before the current one, after a page
  that is empty all are.\<close>

definition page_of_age :: "kv_entry list list \<Rightarrow> nat \<Rightarrow> nat \<Rightarrow> nat" where
  "page_of_age ls cur i = (cur + length ls - i) mod length ls"

definition fifo :: "kv_entry list list \<Rightarrow> nat \<Rightarrow> bool" where
  "fifo ls cur \<longleftrightarrow> (\<forall>i j. 1 \<le> i \<longrightarrow> i < j \<longrightarrow> j < length ls \<longrightarrow> ls ! page_of_age ls cur i = [] \<longrightarrow> ls ! page_of_age ls cur j = [])"

lemma page_of_age_0 [simp]: "cur < length ls \<Longrightarrow> page_of_age ls cur 0 = cur"
  by (simp add: page_of_age_def)

lemma page_of_age_if:
  assumes "cur < length ls" "k < length ls"
  shows "page_of_age ls cur k = (if k \<le> cur then cur - k else cur + length ls - k)"
proof (cases "k \<le> cur")
  case True
  then have "cur + length ls - k = (cur - k) + length ls" by simp
  then show ?thesis unfolding page_of_age_def using True assms(1) by (simp only: mod_add_self2) simp
next
  case False
  then have "cur + length ls - k < length ls" using assms(2) by simp
  then show ?thesis using False by (simp add: page_of_age_def)
qed

lemma page_of_age_inj:
  assumes "cur < length ls" "i < length ls" "j < length ls" "page_of_age ls cur i = page_of_age ls cur j"
  shows "i = j"
  using assms(4) unfolding page_of_age_if[OF assms(1,2)] page_of_age_if[OF assms(1,3)]
  using assms(1-3) by (auto split: if_splits)

lemma page_of_age_other: "cur < length ls \<Longrightarrow> 1 \<le> i \<Longrightarrow> i < length ls \<Longrightarrow> page_of_age ls cur i \<noteq> cur"
  by (auto simp: page_of_age_if)

lemma page_of_age_oldest: "2 \<le> length ls \<Longrightarrow> cur < length ls \<Longrightarrow> page_of_age ls cur (length ls - 1) = next_page ls cur"
  by (simp add: page_of_age_def next_page_def)

lemma page_of_age_next:
  assumes "2 \<le> length ls" "cur < length ls" "Suc i < length ls"
  shows "page_of_age ls (next_page ls cur) (Suc i) = page_of_age ls cur i"
proof (cases "Suc cur = length ls")
  case True
  then have n: "next_page ls cur = 0" using assms by (simp add: next_page_def)
  have pos: "0 < length ls" using assms(2) by linarith
  have i: "i < length ls" using assms(3) by simp
  show ?thesis unfolding n page_of_age_if[OF pos assms(3)] page_of_age_if[OF assms(2) i] using True assms(3) by auto
next
  case False
  then have "next_page ls cur = Suc cur" using assms by (simp add: next_page_def)
  then show ?thesis using assms False by (simp add: page_of_age_if)
qed

lemma fifo_update: "fifo ls cur \<Longrightarrow> cur < length ls \<Longrightarrow> fifo (ls[cur := es]) cur"
proof -
  assume f: "fifo ls cur" and c: "cur < length ls"
  have same: "page_of_age (ls[cur := es]) cur = page_of_age ls cur" by (rule ext) (simp add: page_of_age_def)
  have upd: "ls[cur := es] ! page_of_age ls cur i = ls ! page_of_age ls cur i" if "1 \<le> i" "i < length ls" for i
    using page_of_age_other[OF c that] by simp
  show ?thesis
    unfolding fifo_def same
  proof (intro allI impI)
    fix i j
    assume ij: "1 \<le> i" "i < j" "j < length (ls[cur := es])" and e: "ls[cur := es] ! page_of_age ls cur i = []"
    then have "ls ! page_of_age ls cur j = []" using f[unfolded fifo_def, rule_format, of i j] upd[of i] by simp
    then show "ls[cur := es] ! page_of_age ls cur j = []" using upd[of j] ij by simp
  qed
qed

lemma fifo_next:
  assumes "fifo ls cur" "spare ls cur" "ls ! cur \<noteq> []"
  shows "fifo ls (next_page ls cur)"
  unfolding fifo_def
proof (intro allI impI)
  have len: "2 \<le> length ls" "cur < length ls" using assms(2) by (simp_all add: spare_def)
  fix i j assume ij: "1 \<le> i" "i < j" "j < length ls" and e: "ls ! page_of_age ls (next_page ls cur) i = []"
  obtain i' j' where k: "i = Suc i'" "j = Suc j'" using ij by (cases i; cases j) auto
  have "i' \<noteq> 0"
  proof
    assume "i' = 0"
    then show False using e assms(3) page_of_age_next[OF len, of 0] len k ij by simp
  qed
  moreover have "i' < j'" "j' < length ls" using ij k by simp_all
  ultimately show "ls ! page_of_age ls (next_page ls cur) j = []"
    using e assms(1)[unfolded fifo_def, rule_format, of i' j'] page_of_age_next[OF len, of i'] page_of_age_next[OF len, of j'] ij k
    by simp
qed

lemma fifo_gc:
  assumes "fifo ls cur" "2 \<le> length ls" "cur < length ls"
  shows "fifo (gc_logs ls cur) cur"
  unfolding fifo_def
proof (intro allI impI)
  have age: "page_of_age (gc_logs ls cur) cur = page_of_age ls cur" by (rule ext) (simp add: page_of_age_def)
  fix i j assume ij: "1 \<le> i" "i < j" "j < length (gc_logs ls cur)" and e: "gc_logs ls cur ! page_of_age (gc_logs ls cur) cur i = []"
  have old: "page_of_age ls cur (length ls - 1) = next_page ls cur" by (rule page_of_age_oldest[OF assms(2,3)])
  have same: "gc_logs ls cur ! page_of_age ls cur k = ls ! page_of_age ls cur k" if "1 \<le> k" "k < length ls - 1" for k
  proof -
    have "page_of_age ls cur k \<noteq> cur" using page_of_age_other[OF assms(3), of k] that by auto
    moreover have "page_of_age ls cur k \<noteq> next_page ls cur"
    proof
      assume "page_of_age ls cur k = next_page ls cur"
      then have "page_of_age ls cur k = page_of_age ls cur (length ls - 1)" unfolding old .
      moreover have "k < length ls" "length ls - 1 < length ls" using that(2) assms(2) by linarith+
      ultimately have "k = length ls - 1" using page_of_age_inj[OF assms(3)] by blast
      then show False using that(2) by simp
    qed
    ultimately show ?thesis by (simp add: gc_logs_def foldl_gc_other)
  qed
  show "gc_logs ls cur ! page_of_age (gc_logs ls cur) cur j = []"
  proof (cases "j = length ls - 1")
    case True
    then show ?thesis using gc_logs_nth(1)[OF assms(2,3)] unfolding age True old by simp
  next
    case False
    then have jl: "j < length ls - 1" "1 \<le> j" using ij by simp_all
    then have "ls ! page_of_age ls cur i = []" using e ij(1,2) same[of i] by (simp add: age)
    then have "ls ! page_of_age ls cur j = []" using assms(1)[unfolded fifo_def, rule_format, of i j] ij by simp
    then show ?thesis using same[of j] jl by (simp add: age)
  qed
qed

lemma alloc_logs_fifo:
  "n \<le> page_size \<Longrightarrow> fifo ls cur \<Longrightarrow> spare ls cur \<Longrightarrow>
   alloc_logs turns page_size n collections ls cur = Some (res, ls', cur') \<Longrightarrow> fifo ls' cur'"
proof (induction turns arbitrary: collections ls cur)
  case (Suc turns)
  have len: "2 \<le> length ls" "cur < length ls" using Suc(4) by (simp_all add: spare_def)
  define c where "c = next_page ls cur"
  have c: "c < length ls" using next_page_other[OF len] by (simp add: c_def)
  show ?case
  proof (cases "n \<le> log_free page_size (ls ! cur)")
    case True
    then show ?thesis using Suc(3,5) by simp
  next
    case False
    then have "ls ! cur \<noteq> []" using Suc(2) by (auto simp: log_free_def)
    then have f: "fifo ls c" using fifo_next[OF Suc(3,4)] by (simp add: c_def)
    show ?thesis
    proof (cases "ls ! next_page ls c = []")
      case True
      then have "spare ls c" using len c by (simp add: spare_def)
      then show ?thesis using Suc(1)[OF Suc(2) f] Suc(5) False True by (simp add: c_def Let_def)
    next
      case nonempty: False
      have g: "fifo (gc_logs ls c) c" by (rule fifo_gc[OF f len(1) c])
      have sp: "spare (gc_logs ls c) c" using len c gc_logs_nth[OF len(1) c] by (simp add: spare_def)
      show ?thesis
        using Suc(1)[OF Suc(2) g sp] g Suc(5) False nonempty by (auto simp: c_def Let_def split: if_splits)
    qed
  qed
qed simp

lemma add_logs_fifo:
  assumes "record_room e \<le> page_size" "fifo ls cur" "spare ls cur" "add_logs page_size e ls cur = Some (res, ls', cur')"
    and "spare ls' cur'"
  shows "fifo ls' cur'"
proof -
  obtain ls1 where l: "alloc_logs (length ls + 2) page_size (record_room e) 0 ls cur = Some (res, ls1, cur')"
      "ls' = (if res then ls1[cur' := ls1 ! cur' @ [e]] else ls1)"
    using assms(4) unfolding add_logs_def by (auto split: Option.bind_splits simp del: alloc_logs.simps)
  have "fifo ls1 cur'" by (rule alloc_logs_fifo[OF assms(1-3) l(1)])
  moreover have "cur' < length ls1" using assms(5) l(2) by (auto simp: spare_def split: if_splits)
  ultimately show ?thesis using fifo_update l(2) by auto
qed

end
