(* ===== verification/FD_KeyValueSpec.thy ===== *)
theory FD_KeyValueSpec imports FD_KeyValueLog begin

text \<open>
  What the key value store promises: looking up, setting, removing, collecting, erasing and starting after a reset, on
  the bytes its keys have (\<open>kvs_value\<close>), and the runs of a store (\<open>kvs_step\<close>, \<open>kvs_reachable\<close>) with their invariant. \<open>store_of\<close>
  builds a store from the logs of its pages and \<open>nor_flash\<close> is a driver, for the concrete instances.
\<close>

section \<open>A flash driver, and stores with given logs\<close>

definition nor_flash :: flash_area where
  "nor_flash = \<lparr>flash_area_open = 0,
     flash_area_erase = (\<lambda>off n flash. (0, put flash off (replicate n 0xff))),
     flash_area_write = (\<lambda>off data flash. (0, put flash off data))\<rparr>"

lemma nor_flash_ok: "flash_area_ok page_size nor_flash"
  by (simp add: flash_area_ok_def nor_flash_def put_def add.commute)

text \<open>The bytes of a page after its records were appended.\<close>

fun page_image :: "u8 list \<Rightarrow> kv_entry list \<Rightarrow> kv_entry list \<Rightarrow> u8 list" where
  "page_image bs es [] = bs"
| "page_image bs es (e # fs) = page_image
     (put (put bs (data_size es) (kv_key e @ kv_value e @ replicate (kv_size e - length (kv_key e @ kv_value e)) 0xff))
       (length bs - 12 * (length es + 1)) (metadata_bytes (entry_metadata (data_size es) e))) (es @ [e]) fs"

lemma page_image_holds:
  "page_holds bs es \<Longrightarrow> data_size (es @ fs) + 12 * (length (es @ fs) + 1) \<le> length bs \<Longrightarrow>
   page_holds (page_image bs es fs) (es @ fs) \<and> length (page_image bs es fs) = length bs"
proof (induction fs arbitrary: bs es)
  case (Cons e fs)
  define ys where "ys = kv_key e @ kv_value e @ replicate (kv_size e - length (kv_key e @ kv_value e)) 0xff"
  have ys: "length ys = kv_size e"
    using round4_dvd(2)[of "length (kv_key e) + length (kv_value e)"] by (simp add: ys_def kv_size_def del: round4_dvd)
  obtain r where r: "length bs = data_size es + kv_size e + 12 * (length es + 2) + r"
    using Cons(3) le_Suc_ex[of "data_size es + kv_size e + 12 * (length es + 2)" "length bs"] by auto
  define b1 where "b1 = put bs (data_size es) ys"
  have l1: "length b1 = length bs" using ys r by (simp add: b1_def)
  define b2 where "b2 = put b1 (length bs - 12 * (length es + 1)) (metadata_bytes (entry_metadata (data_size es) e))"
  have l2: "length b2 = length bs" using l1 r by (simp add: b2_def)
  have h: "page_holds b2 (es @ [e])"
    unfolding b2_def b1_def ys_def
    by (rule page_holds_append[OF Cons(2)]) (use r ys in \<open>simp_all add: ys_def\<close>)
  have "page_image bs es (e # fs) = page_image b2 (es @ [e]) fs" by (simp add: b2_def b1_def ys_def)
  moreover have "data_size ((es @ [e]) @ fs) + 12 * (length ((es @ [e]) @ fs) + 1) \<le> length b2" using Cons(3) l2 by simp
  ultimately show ?case using Cons(1)[OF h] l2 by simp
qed simp

definition store_of :: "kv_entry list list \<Rightarrow> nat \<Rightarrow> fd_key_value_store_t" where
  "store_of ls cur = \<lparr>kvs_page_count = length ls, kvs_page_size = 4096, kvs_minumum_write_size = 4, kvs_is_full = False,
     kvs_current = \<lparr>cur_page = cur, cur_data_byte_count = data_size (ls ! cur), cur_metadata_count = length (ls ! cur)\<rparr>,
     kvs_data_write_offset = 0, kvs_ostream_state = \<lparr>os_buffer = replicate 16 0, os_count = 0\<rparr>,
     kvs_garbage_collection_count = 0,
     kvs_equal_stream_state = \<lparr>eq_value = [], eq_size = 0, eq_count = 0, eq_is_equal = False\<rparr>,
     kvs_listeners = [], kvs_flash = concat (map (page_image (replicate 4096 0xff) []) ls), kvs_events = [], kvs_log = []\<rparr>"

lemma store_of_simps [simp]:
  "kvs_page_count (store_of ls cur) = length ls" "kvs_page_size (store_of ls cur) = 4096"
  "kvs_is_full (store_of ls cur) = False" "cur_page (kvs_current (store_of ls cur)) = cur"
  "kvs_listeners (store_of ls cur) = []" "kvs_events (store_of ls cur) = []" "kvs_log (store_of ls cur) = []"
  by (simp_all add: store_of_def)

definition logs_fit :: "kv_entry list list \<Rightarrow> bool" where
  "logs_fit ls \<longleftrightarrow> 2 \<le> length ls \<and> keys_ok ls \<and> (\<forall>es \<in> set ls. data_size es + 12 * (length es + 1) \<le> 4096)"

lemma concat_page: "(\<And>x. x \<in> set xs \<Longrightarrow> length x = n) \<Longrightarrow> p < length xs \<Longrightarrow> take n (drop (p * n) (concat xs)) = xs ! p"
proof (induction xs arbitrary: p)
  case (Cons x xs)
  then have "length x = n" by simp
  then show ?case using Cons by (cases p) (simp_all add: add.commute)
qed simp

lemma length_concat_pages: "(\<And>x. x \<in> set xs \<Longrightarrow> length x = n) \<Longrightarrow> length (concat xs) = length xs * n"
  by (induction xs) simp_all

lemma store_of_holds:
  assumes "logs_fit ls" "cur < length ls"
  shows "kvs_holds (store_of ls cur) ls"
proof -
  define image where "image = page_image (replicate 4096 0xff) []"
  have image: "page_holds (image es) es" "length (image es) = 4096" if "es \<in> set ls" for es
  proof -
    have "page_holds (replicate 4096 0xff) []" by (simp add: page_holds_def)
    moreover have "data_size ([] @ es) + 12 * (length ([] @ es) + 1) \<le> length (replicate 4096 (0xff :: u8))"
      using assms(1) that unfolding logs_fit_def by simp
    ultimately show "page_holds (image es) es" "length (image es) = 4096"
      using page_image_holds[of "replicate 4096 0xff" "[]" es] by (simp_all add: image_def)
  qed
  define s where "s = store_of ls cur"
  have flash: "kvs_flash s = concat (map image ls)" by (simp add: s_def store_of_def image_def)
  have len: "length x = 4096" if "x \<in> set (map image ls)" for x using that image(2) by auto
  have "page_bytes s p = image (ls ! p)" if "p < length ls" for p
    using concat_page[of "map image ls" 4096 p] len that flash by (simp add: page_bytes_def s_def)
  then have "\<forall>p < length ls. page_holds (page_bytes s p) (ls ! p)" using image(1) by simp
  moreover have "kvs_shape s"
    using assms(1) length_concat_pages[of "map image ls" 4096] len unfolding kvs_shape_def flash
    by (simp add: s_def store_of_def logs_fit_def del: length_concat)
  ultimately show ?thesis
    using assms by (simp add: kvs_holds_def s_def[symmetric] logs_fit_def) (simp add: s_def store_of_def)
qed

section \<open>Looking up and setting\<close>

text \<open>C23: \<open>fd_key_value_store_get\<close> decodes the value of the newest record of the key: pages are searched from the
  current one back to the oldest, in a page the last record of the key decides, and an absent key gives false.\<close>

theorem fd_key_value_store_get_newest:
  assumes "kvs_holds s ls" "0 \<notin> set key"
  shows "fd_key_value_store_get pb_decode key s =
    Some (case store_lookup ls (cur_page (kvs_current s)) key of
        None \<Rightarrow> ((False, None), s)
      | Some v \<Rightarrow> ((pb_decode v \<noteq> None, pb_decode v),
          kvs_assert (pb_decode v \<noteq> None) ''stream.errmsg == NULL'' (kvs_assert (pb_decode v \<noteq> None) ''result'' s)))"
  using lookup_store[OF assms]
  by (auto simp: fd_key_value_store_get_def points_to_def Let_def split: option.splits)

definition kv_put :: "string \<Rightarrow> u8 list \<Rightarrow> kv_entry" where
  "kv_put key v = \<lparr>kv_removed = False, kv_key = map (of_nat \<circ> of_char) key, kv_value = v\<rparr>"

theorem fd_key_value_store_get_newest_witness:
  "fst (the (fd_key_value_store_get Some (map (of_nat \<circ> of_char) ''k'')
      (store_of [[kv_put ''k'' [1], kv_put ''k'' [2]], [kv_put ''j'' [3]], []] 1))) = (True, Some [2])"
proof -
  have fit: "logs_fit [[kv_put ''k'' [1], kv_put ''k'' [2]], [kv_put ''j'' [3]], []]"
    by (simp add: logs_fit_def keys_ok_def kv_put_def data_size_def kv_size_def round4_def)
  show ?thesis
    using fd_key_value_store_get_newest[OF store_of_holds[OF fit, of 1], of "map (of_nat \<circ> of_char) ''k''" Some]
    by (simp add: store_lookup_def newest_first_def page_lookup_def kv_put_def)
qed

lemma kvs_value_holds: "kvs_holds s ls \<Longrightarrow> cur = cur_page (kvs_current s) \<Longrightarrow> 0 \<notin> set key \<Longrightarrow> kvs_value s key = Some (store_lookup ls cur key)"
  using kvs_value_lookup by simp

lemma store_lookup_snoc:
  assumes "cur < length ls"
  shows "store_lookup (ls[cur := ls ! cur @ [e]]) cur k =
    (if kv_key e = k then (if kv_removed e then lookup_pages (older_pages ls cur) k else Some (kv_value e)) else store_lookup ls cur k)"
  using assms by (simp add: store_lookup_current page_lookup_snoc split: option.splits)

text \<open>When the record fits the current page, \<open>fd_key_value_store_set\<close> makes the key have the new value and leaves
  every other key as it was; the message to the listeners goes out twice, once from \<open>fd_key_value_store_add\<close>.\<close>

theorem fd_key_value_store_set_in_page:
  assumes "flash_area_ok (kvs_page_size s) fa" "kvs_holds s ls" "spare ls (cur_page (kvs_current s))" "\<not> kvs_is_full s"
    and "0 \<notin> set key" "kvs_value s key \<noteq> Some (Some (concat chunks))" "concat chunks \<noteq> []"
    and room: "record_room (record_of key (Some chunks)) \<le> log_free (kvs_page_size s) (ls ! cur_page (kvs_current s))"
  shows "\<exists>s'. fd_key_value_store_set fa key chunks s = Some (True, s') \<and>
    kvs_value s' key = Some (Some (concat chunks)) \<and>
    (\<forall>other. 0 \<notin> set other \<longrightarrow> other \<noteq> key \<longrightarrow> kvs_value s' other = kvs_value s other) \<and>
    kvs_events s' = kvs_events s @ (let told = map (\<lambda>listener. was_set (li_context listener) key) (filter li_was_set (kvs_listeners s)) in told @ told)"
proof -
  define cur where "cur = cur_page (kvs_current s)"
  define e where "e = record_of key (Some chunks)"
  have e: "kv_key e = key" "kv_value e = concat chunks" "\<not> kv_removed e" by (simp_all add: e_def record_of_def)
  have cur: "cur < length ls" using kvs_holdsD(2,4)[OF assms(2)] by (simp add: cur_def)
  have logs: "add_logs (kvs_page_size s) e ls cur = Some (True, ls[cur := ls ! cur @ [e]], cur)"
    by (rule add_logs_fits) (use room in \<open>simp add: e_def cur_def\<close>)
  have small: "record_room e \<le> kvs_page_size s" using room by (simp add: e_def log_free_def)
  have new: "store_lookup ls cur key \<noteq> Some (concat chunks)"
    using assms(6) kvs_value_holds[OF assms(2) cur_def assms(5)] by simp
  obtain s' where s': "fd_key_value_store_set fa key chunks s = Some (True, s')" "kvs_holds s' (ls[cur := ls ! cur @ [e]])"
      "cur = cur_page (kvs_current s')"
      "kvs_events s' = kvs_events s @ add_events key (Some chunks) s @ add_events key (Some chunks) s"
    using set_ok[OF assms(1,2) cur_def assms(3)[folded cur_def] assms(4,5) small[unfolded e_def] new assms(7), folded e_def]
    unfolding logs by auto
  have l: "store_lookup (ls[cur := ls ! cur @ [e]]) cur k = (if k = key then Some (concat chunks) else store_lookup ls cur k)" for k
    using store_lookup_snoc[OF cur] e by auto
  show ?thesis
  proof (intro exI conjI allI impI)
    show "fd_key_value_store_set fa key chunks s = Some (True, s')" by (rule s'(1))
    show "kvs_value s' key = Some (Some (concat chunks))" using kvs_value_holds[OF s'(2,3) assms(5)] l by simp
    show "kvs_value s' other = kvs_value s other" if "0 \<notin> set other" "other \<noteq> key" for other
      using kvs_value_holds[OF s'(2,3) that(1)] kvs_value_holds[OF assms(2) cur_def that(1)] l that(2) by simp
  qed (simp add: s'(4) add_events_def Let_def)
qed

theorem fd_key_value_store_set_in_page_witness:
  "\<exists>s'. fd_key_value_store_set nor_flash [107] [[1, 2], [3]] (store_of [[kv_put ''k'' [9]], []] 0) = Some (True, s') \<and>
     kvs_value s' [107] = Some (Some [1, 2, 3])"
proof -
  have fit: "logs_fit [[kv_put ''k'' [9]], []]"
    by (simp add: logs_fit_def keys_ok_def kv_put_def data_size_def kv_size_def round4_def)
  have h: "kvs_holds (store_of [[kv_put ''k'' [9]], []] 0) [[kv_put ''k'' [9]], []]" by (rule store_of_holds[OF fit]) simp
  have v: "kvs_value (store_of [[kv_put ''k'' [9]], []] 0) [107] = Some (Some [9])"
    using kvs_value_holds[OF h] by (simp add: store_lookup_def newest_first_def page_lookup_def kv_put_def)
  show ?thesis
    using fd_key_value_store_set_in_page[OF _ h, of nor_flash "[107]" "[[1, 2], [3]]"] nor_flash_ok v
    by (auto simp: spare_def next_page_def record_room_def record_of_def log_free_def data_size_def kv_size_def round4_def kv_put_def)
qed

text \<open>C24: Wherever the record goes, also after pages were collected for it: \<open>fd_key_value_store_set\<close> returns; when it
  returns true the key has the new value, and when it returns false the store is marked full. Conditions: the flash
  holds a log of records per page, as it does in every state that \<open>kvs_reachable\<close> gives, with the page after the current
  one free; the store is not marked full yet; the key has no null byte; the message is not empty (an empty one would be
  a removal) and is not the value the key has already (then nothing is written); and the record fits an empty page
  (with a larger one the call may never return).\<close>

theorem fd_key_value_store_set_stored:
  assumes "flash_area_ok (kvs_page_size s) fa" "kvs_holds s ls" "spare ls (cur_page (kvs_current s))" "\<not> kvs_is_full s"
    and "0 \<notin> set key" "kvs_value s key \<noteq> Some (Some (concat chunks))" "concat chunks \<noteq> []"
    and "record_room (record_of key (Some chunks)) \<le> kvs_page_size s"
  shows "\<exists>res s'. fd_key_value_store_set fa key chunks s = Some (res, s') \<and>
    (if res then kvs_value s' key = Some (Some (concat chunks)) \<and> \<not> kvs_is_full s' else kvs_is_full s')"
proof -
  define cur where "cur = cur_page (kvs_current s)"
  have "store_lookup ls cur key \<noteq> Some (concat chunks)"
    using assms(6) kvs_value_holds[OF assms(2) cur_def assms(5)] by simp
  then obtain res ls' cur' s' where s': "add_logs (kvs_page_size s) (record_of key (Some chunks)) ls cur = Some (res, ls', cur')"
      "fd_key_value_store_set fa key chunks s = Some (res, s')" "kvs_holds s' ls'" "cur' = cur_page (kvs_current s')"
      "spare ls' cur'" "kvs_is_full s' = (\<not> res)"
    using set_ok[OF assms(1,2) cur_def assms(3)[folded cur_def] assms(4,5,8) _ assms(7)] by blast
  have "kvs_value s' key = Some (Some (concat chunks))" if res
  proof -
    have "add_logs (kvs_page_size s) (record_of key (Some chunks)) ls cur = Some (True, ls', cur')" using s'(1) that by simp
    then obtain ls1 where "ls' = ls1[cur' := ls1 ! cur' @ [record_of key (Some chunks)]]" "cur' < length ls1"
      using add_logs_spare[OF _ s'(5)] by blast
    then have "store_lookup ls' cur' key = Some (concat chunks)"
      using store_lookup_snoc[of cur' ls1 "record_of key (Some chunks)" key] by (simp add: record_of_def del: length_concat)
    then show ?thesis using kvs_value_holds[OF s'(3,4) assms(5)] by simp
  qed
  then show ?thesis using s'(2,6) by auto
qed

theorem fd_key_value_store_set_stored_witness:
  "\<exists>res s'. fd_key_value_store_set nor_flash [107] [replicate 4000 7] (store_of [[kv_put ''k'' (replicate 100 9)], []] 0) = Some (res, s') \<and>
     (if res then kvs_value s' [107] = Some (Some (concat [replicate 4000 7])) \<and> \<not> kvs_is_full s' else kvs_is_full s')"
proof -
  have fit: "logs_fit [[kv_put ''k'' (replicate 100 9)], []]"
    by (simp add: logs_fit_def keys_ok_def kv_put_def data_size_def kv_size_def round4_def)
  define s where "s = store_of [[kv_put ''k'' (replicate 100 9)], []] 0"
  have h: "kvs_holds s [[kv_put ''k'' (replicate 100 9)], []]" unfolding s_def by (rule store_of_holds[OF fit]) simp
  have v: "kvs_value s [107] = Some (Some (replicate 100 9))"
    using kvs_value_holds[OF h refl, of "[107]"] by (simp add: s_def store_lookup_def newest_first_def page_lookup_def kv_put_def)
  show ?thesis
    unfolding s_def[symmetric]
  proof (rule fd_key_value_store_set_stored[OF nor_flash_ok h])
    show "kvs_value s [107] \<noteq> Some (Some (concat [replicate 4000 7]))" using v replicate_eq_replicate[of 100 "9 :: u8" 4000 7] by simp
    show "record_room (record_of [107] (Some [replicate 4000 7])) \<le> kvs_page_size s"
      by (simp add: s_def record_room_def record_of_def kv_size_def round4_def)
  qed (simp_all add: s_def spare_def next_page_def)
qed

lemma is_set_ok:
  assumes "kvs_holds s ls" "0 \<notin> set key"
  shows "fd_key_value_store_is_set s key = Some (store_lookup ls (cur_page (kvs_current s)) key \<noteq> None)"
  using lookup_store[OF assms] by (auto simp: fd_key_value_store_is_set_def points_to_def split: option.splits)

text \<open>C26: \<open>fd_key_value_store_remove\<close> writes a tombstone, but the search goes on to older pages after it: the key then
  has the value of the newest older page that has one, and is only gone when there is none.\<close>

theorem fd_key_value_store_remove_older_value:
  assumes "flash_area_ok (kvs_page_size s) fa" "kvs_holds s ls" "spare ls (cur_page (kvs_current s))" "\<not> kvs_is_full s"
    and "0 \<notin> set key" "kvs_value s key \<noteq> Some None"
    and room: "record_room (record_of key None) \<le> log_free (kvs_page_size s) (ls ! cur_page (kvs_current s))"
  shows "\<exists>s'. fd_key_value_store_remove fa key s = Some (True, s') \<and>
    kvs_value s' key = Some (lookup_pages (older_pages ls (cur_page (kvs_current s))) key) \<and>
    (\<forall>other. 0 \<notin> set other \<longrightarrow> other \<noteq> key \<longrightarrow> kvs_value s' other = kvs_value s other)"
proof -
  define cur where "cur = cur_page (kvs_current s)"
  define e where "e = record_of key None"
  have e: "kv_key e = key" "kv_removed e" by (simp_all add: e_def record_of_def)
  have cur: "cur < length ls" using kvs_holdsD(2,4)[OF assms(2)] by (simp add: cur_def)
  have logs: "add_logs (kvs_page_size s) e ls cur = Some (True, ls[cur := ls ! cur @ [e]], cur)"
    by (rule add_logs_fits) (use room in \<open>simp add: e_def cur_def\<close>)
  have small: "record_room e \<le> kvs_page_size s" using room by (simp add: e_def log_free_def)
  have is_set: "fd_key_value_store_is_set s key = Some True"
    using is_set_ok[OF assms(2,5)] assms(6) kvs_value_holds[OF assms(2) cur_def assms(5)] by (auto simp: cur_def)
  obtain s1 where s1: "fd_key_value_store_add fa key None s = Some (True, s1)" "kvs_holds s1 (ls[cur := ls ! cur @ [e]])"
      "cur = cur_page (kvs_current s1)"
    using add_refines[OF assms(1,2) cur_def assms(3)[folded cur_def] assms(4,5) small[unfolded e_def], folded e_def]
    unfolding logs by auto
  define s' where "s' = notify_removed key s1"
  have run: "fd_key_value_store_remove fa key s = Some (True, s')"
    using is_set s1(1) by (simp add: fd_key_value_store_remove_def s'_def)
  have h': "kvs_holds s' (ls[cur := ls ! cur @ [e]])" "cur = cur_page (kvs_current s')"
    using s1(2,3) by (simp_all add: s'_def notify_removed_def kvs_holds_def kvs_shape_def page_bytes_def)
  show ?thesis
  proof (intro exI conjI allI impI)
    show "fd_key_value_store_remove fa key s = Some (True, s')" by (rule run)
    show "kvs_value s' key = Some (lookup_pages (older_pages ls (cur_page (kvs_current s))) key)"
      using kvs_value_holds[OF h' assms(5)] store_lookup_snoc[OF cur, of e key] e by (simp add: cur_def)
    show "kvs_value s' other = kvs_value s other" if "0 \<notin> set other" "other \<noteq> key" for other
      using kvs_value_holds[OF h' that(1)] kvs_value_holds[OF assms(2) cur_def that(1)] store_lookup_snoc[OF cur, of e other] e that(2) by simp
  qed
qed

theorem fd_key_value_store_remove_older_value_witness:
  "\<exists>s'. fd_key_value_store_remove nor_flash [107] (store_of [[kv_put ''k'' [1]], [kv_put ''k'' [2]], []] 1) = Some (True, s') \<and>
     kvs_value s' [107] = Some (Some [1])"
proof -
  have fit: "logs_fit [[kv_put ''k'' [1]], [kv_put ''k'' [2]], []]"
    by (simp add: logs_fit_def keys_ok_def kv_put_def data_size_def kv_size_def round4_def)
  define s where "s = store_of [[kv_put ''k'' [1]], [kv_put ''k'' [2]], []] 1"
  have h: "kvs_holds s [[kv_put ''k'' [1]], [kv_put ''k'' [2]], []]" unfolding s_def by (rule store_of_holds[OF fit]) simp
  have v: "kvs_value s [107] = Some (Some [2])"
    using kvs_value_holds[OF h refl, of "[107]"] by (simp add: s_def store_lookup_def newest_first_def page_lookup_def kv_put_def)
  show ?thesis
    using fd_key_value_store_remove_older_value[OF nor_flash_ok h, of "[107]"] v
    by (auto simp: s_def spare_def next_page_def record_room_def record_of_def log_free_def data_size_def kv_size_def
        round4_def kv_put_def older_pages_def page_lookup_def)
qed

section \<open>Collecting pages\<close>

text \<open>The exact effect of \<open>fd_key_value_store_garbage_collect\<close> on every key: with a value in the collected page the
  key gets the oldest value that page has for it, in the newest page, over whatever newer value it had; the others
  keep theirs.\<close>

theorem fd_key_value_store_garbage_collect_oldest:
  assumes "flash_area_ok (kvs_page_size s) fa" "kvs_holds s ls" "cur = cur_page (kvs_current s)"
    and "ls ! cur = []" "ls ! next_page ls cur \<noteq> []"
  shows "\<exists>s'. fd_key_value_store_garbage_collect fa s = Some s' \<and>
    (\<forall>key. 0 \<notin> set key \<longrightarrow> kvs_value s' key =
       (if kvs_value s key = Some None \<or> kept_values (ls ! next_page ls cur) key = [] then kvs_value s key
        else Some (Some (hd (kept_values (ls ! next_page ls cur) key)))))"
proof -
  obtain s' where s': "fd_key_value_store_garbage_collect fa s = Some s'" "kvs_holds s' (gc_logs ls cur)" "cur = cur_page (kvs_current s')"
    using garbage_collect_ok[OF assms] by blast
  have cur: "2 \<le> length ls" "cur < length ls" using kvs_holdsD(2,4,8)[OF assms(2)] assms(3) by simp_all
  show ?thesis
  proof (intro exI conjI allI impI)
    show "fd_key_value_store_garbage_collect fa s = Some s'" by (rule s'(1))
    fix key :: "u8 list" assume key: "0 \<notin> set key"
    show "kvs_value s' key = (if kvs_value s key = Some None \<or> kept_values (ls ! next_page ls cur) key = [] then kvs_value s key
        else Some (Some (hd (kept_values (ls ! next_page ls cur) key))))"
      unfolding kvs_value_holds[OF s'(2,3) key] kvs_value_holds[OF assms(2,3) key] gc_lookup[OF cur assms(4)] by simp
  qed
qed

theorem fd_key_value_store_garbage_collect_oldest_witness:
  "kvs_value (store_of [[kv_put ''k'' [1], kv_put ''k'' [2]], []] 1) [107] = Some (Some [2]) \<and>
   (\<exists>s'. fd_key_value_store_garbage_collect nor_flash (store_of [[kv_put ''k'' [1], kv_put ''k'' [2]], []] 1) = Some s' \<and>
     kvs_value s' [107] = Some (Some [1]))"
proof -
  have fit: "logs_fit [[kv_put ''k'' [1], kv_put ''k'' [2]], []]"
    by (simp add: logs_fit_def keys_ok_def kv_put_def data_size_def kv_size_def round4_def)
  define s where "s = store_of [[kv_put ''k'' [1], kv_put ''k'' [2]], []] 1"
  have h: "kvs_holds s [[kv_put ''k'' [1], kv_put ''k'' [2]], []]" unfolding s_def by (rule store_of_holds[OF fit]) simp
  have v: "kvs_value s [107] = Some (Some [2])"
    using kvs_value_holds[OF h refl, of "[107]"] by (simp add: s_def store_lookup_def newest_first_def page_lookup_def kv_put_def)
  have "\<exists>s'. fd_key_value_store_garbage_collect nor_flash s = Some s' \<and>
     (\<forall>key. 0 \<notin> set key \<longrightarrow> kvs_value s' key = (if kvs_value s key = Some None \<or>
         kept_values ([[kv_put ''k'' [1], kv_put ''k'' [2]], []] ! next_page [[kv_put ''k'' [1], kv_put ''k'' [2]], []] 1) key = []
       then kvs_value s key
       else Some (Some (hd (kept_values ([[kv_put ''k'' [1], kv_put ''k'' [2]], []] ! next_page [[kv_put ''k'' [1], kv_put ''k'' [2]], []] 1) key)))))"
    by (rule fd_key_value_store_garbage_collect_oldest[OF nor_flash_ok h]) (simp_all add: s_def next_page_def)
  then obtain s' where s': "fd_key_value_store_garbage_collect nor_flash s = Some s'"
     "kvs_value s' [107] = Some (Some [1])"
    using v by (auto simp: next_page_def kept_values_def kv_put_def)
  then show ?thesis using v unfolding s_def by blast
qed

lemma allocate_loop_oversize:
  "allocate_loop fa n collections s = Some r \<Longrightarrow> kvs_page_size s = page_size \<Longrightarrow> kvs_holds s (replicate (kvs_page_count s) []) \<Longrightarrow>
   page_size < n \<Longrightarrow> False"
proof (induction fa n collections s r rule: allocate_loop.raw_induct[rotated, consumes 1, case_names step])
  case (step loop fa n collections s r)
  define ls :: "kv_entry list list" where "ls = replicate (kvs_page_count s) []"
  define cur where "cur = cur_page (kvs_current s)"
  have h: "kvs_holds s ls" using step(4) by (simp add: ls_def)
  have len: "length ls = kvs_page_count s" "2 \<le> length ls" "cur < length ls"
    using kvs_holdsD(2,4,8)[OF h] by (simp_all add: cur_def)
  have nil: "ls ! p = []" if "p < length ls" for p using that by (simp add: ls_def)
  have free: "fd_key_value_store_current_free_bytes s = (page_size, s)"
    using current_free_bytes_ok[OF h cur_def] nil[OF len(3)] step(3) by (simp add: log_free_def)
  obtain s1 where s1: "fd_key_value_store_advance_current_page s = Some s1" "kvs_holds s1 ls" "same_env s1 s"
      "cur_page (kvs_current s1) = next_page ls cur"
    using advance_ok[OF h cur_def] nil next_page_other[OF len(2,3)] by blast
  have env: "kvs_page_size s1 = page_size" "kvs_page_count s1 = kvs_page_count s" using s1(3) step(3) by (simp_all add: same_env_def)
  define k where "k = (cur_page (kvs_current s1) + 1) mod kvs_page_count s1"
  have k: "k < kvs_page_count s1" using len by (simp add: k_def env)
  have "fd_key_value_store_is_page_empty s1 k = Some (ls ! k = [], s1)" by (rule is_page_empty[OF kvs_holds_page[OF s1(2) k]])
  then have empty: "fd_key_value_store_is_page_empty s1 k = Some (True, s1)" using nil k len(1) by (simp add: env)
  have "loop fa n collections s1 = Some r"
    using step(2,5) free s1(1) empty[unfolded k_def] by (simp add: Let_def)
  then show False by (rule step(1)) (use env s1(2) step(5) in \<open>simp_all add: ls_def\<close>)
qed

text \<open>A record that does not fit an empty page is not refused by an empty store: the allocation takes page after
  page and does not end.\<close>

theorem fd_key_value_store_add_oversize_diverges:
  assumes "kvs_holds s (replicate (kvs_page_count s) [])" "\<not> kvs_is_full s"
    and "kvs_page_size s < record_room (record_of key obj)" "length key + length (kv_value (record_of key obj)) + 3 < 2 ^ 32"
  shows "fd_key_value_store_add fa key obj s = None"
proof -
  have "fd_key_value_store_allocate fa (record_room (record_of key obj)) s = None"
    using allocate_loop_oversize[OF _ refl assms(1,3), of fa 0] assms(2)
    by (cases "allocate_loop fa (record_room (record_of key obj)) 0 s") (auto simp: fd_key_value_store_allocate_def)
  moreover have "fd_key_value_store_get_write_size s (length key + length (kv_value (record_of key obj))) =
      kv_size (record_of key obj)"
    using write_size_4[OF kvs_holdsD(9)[OF assms(1)] assms(4)] by (simp add: kv_size_def) (simp add: record_of_def)
  moreover have "(case obj of None \<Rightarrow> 0 | Some chunks \<Rightarrow> length (concat chunks)) = length (kv_value (record_of key obj))"
    by (simp add: record_of_def split: option.splits)
  ultimately show ?thesis
    by (simp add: fd_key_value_store_add_def fd_key_value_store_allocate_key_value_def record_room_def metadata_size_def Let_def)
qed

theorem fd_key_value_store_add_oversize_diverges_witness:
  "fd_key_value_store_add nor_flash [107] (Some [replicate 4072 7]) (store_of [[], []] 0) = None"
proof (rule fd_key_value_store_add_oversize_diverges)
  have "logs_fit [[], []]" by (simp add: logs_fit_def keys_ok_def)
  then have "kvs_holds (store_of [[], []] 0) [[], []]" by (rule store_of_holds) simp
  then show "kvs_holds (store_of [[], []] 0) (replicate (kvs_page_count (store_of [[], []] 0)) [])" by (simp add: numeral_2_eq_2)
qed (simp_all add: record_room_def record_of_def kv_size_def round4_def)

section \<open>Starting up\<close>

definition pages_hold :: "fd_key_value_store_t \<Rightarrow> kv_entry list list \<Rightarrow> bool" where
  "pages_hold s ls \<longleftrightarrow> kvs_shape s \<and> length ls = kvs_page_count s \<and> keys_ok ls \<and>
     (\<forall>p < kvs_page_count s. page_holds (page_bytes s p) (ls ! p))"

lemma pages_hold_page: "pages_hold s ls \<Longrightarrow> p < length ls \<Longrightarrow> page_ok s p (ls ! p)"
  by (simp add: pages_hold_def page_ok_def)

text \<open>The current page as \<open>fd_key_value_store_get_current_page\<close> finds it.\<close>

definition current_of_logs :: "kv_entry list list \<Rightarrow> nat option" where
  "current_of_logs ls = (case find (\<lambda>p. ls ! p \<noteq> []) [0..<length ls] of
       None \<Rightarrow> Some 0
     | Some f \<Rightarrow> map_option (\<lambda>p. (p + length ls - 1) mod length ls)
         (find (\<lambda>p. ls ! p = []) (map (\<lambda>i. (f + i) mod length ls) [1..<length ls])))"

lemma occupied_loop_ok:
  assumes "pages_hold s ls"
  shows "occupied_loop i s = Some (find (\<lambda>p. ls ! p \<noteq> []) [i..<length ls], s)"
proof (induction "length ls - i" arbitrary: i)
  case 0
  then show ?case using assms by (subst occupied_loop.simps) (simp add: pages_hold_def)
next
  case (Suc k)
  then have i: "i < length ls" by simp
  have "kvs_page_count s = length ls" using assms by (simp add: pages_hold_def)
  moreover have "[i..<length ls] = i # [Suc i..<length ls]" using i by (rule upt_conv_Cons)
  ultimately show ?case
    using is_page_empty[OF pages_hold_page[OF assms i]] Suc(1)[of "Suc i"] Suc(2) i by (subst occupied_loop.simps) simp
qed

lemma empty_loop_ok:
  assumes "pages_hold s ls"
  shows "empty_loop f i s = Some (find (\<lambda>p. ls ! p = []) (map (\<lambda>i. (f + i) mod length ls) [i..<length ls]), s)"
proof (induction "length ls - i" arbitrary: i)
  case 0
  then show ?case using assms by (subst empty_loop.simps) (simp add: pages_hold_def)
next
  case (Suc k)
  then have i: "i < length ls" by simp
  then have m: "(f + i) mod length ls < length ls" by (intro mod_less_divisor) linarith
  have "kvs_page_count s = length ls" using assms by (simp add: pages_hold_def)
  moreover have "[i..<length ls] = i # [Suc i..<length ls]" using i by (rule upt_conv_Cons)
  ultimately show ?case
    using is_page_empty[OF pages_hold_page[OF assms m]] Suc(1)[of "Suc i"] Suc(2) i by (subst empty_loop.simps) simp
qed

lemma get_current_page_ok:
  assumes "pages_hold s ls"
  shows "fd_key_value_store_get_current_page s = Some (case current_of_logs ls of None \<Rightarrow> False | Some p \<Rightarrow> True,
    case current_of_logs ls of None \<Rightarrow> 0 | Some p \<Rightarrow> p, s\<lparr>kvs_is_full := False\<rparr>)"
proof -
  define s0 where "s0 = s\<lparr>kvs_is_full := False\<rparr>"
  have h: "pages_hold s0 ls" using assms by (simp add: pages_hold_def s0_def kvs_shape_def page_bytes_def)
  have n: "kvs_page_count s0 = length ls" using h by (simp add: pages_hold_def)
  show ?thesis
    unfolding fd_key_value_store_get_current_page_def s0_def[symmetric] Let_def occupied_loop_ok[OF h] current_of_logs_def
    by (auto simp: empty_loop_ok[OF h] n simp del: One_nat_def empty_loop.simps split: option.splits)
qed

lemma current_of_logs_less: "current_of_logs ls = Some p \<Longrightarrow> ls \<noteq> [] \<Longrightarrow> p < length ls"
  by (auto simp: current_of_logs_def split: option.splits)

lemma update_current_ok:
  assumes "pages_hold s ls"
  shows "\<exists>s'. fd_key_value_store_update_current s = Some s' \<and> same_env s' s \<and>
    (case current_of_logs ls of None \<Rightarrow> kvs_is_full s'
     | Some p \<Rightarrow> kvs_holds s' ls \<and> cur_page (kvs_current s') = p \<and> \<not> kvs_is_full s')"
proof -
  define s0 where "s0 = s\<lparr>kvs_current := (kvs_current s)\<lparr>cur_data_byte_count := 0, cur_metadata_count := 0\<rparr>\<rparr>"
  have h0: "pages_hold s0 ls" using assms by (simp add: pages_hold_def s0_def kvs_shape_def page_bytes_def)
  show ?thesis
  proof (cases "current_of_logs ls")
    case None
    define s' where "s' = s0\<lparr>kvs_is_full := True, kvs_current := (kvs_current s0)\<lparr>cur_page := 0\<rparr>\<rparr>"
    have "fd_key_value_store_update_current s = Some s'"
      using get_current_page_ok[OF h0] None
      by (simp add: fd_key_value_store_update_current_def s0_def[symmetric] s'_def)
    then show ?thesis using None by (intro exI[of _ s']) (simp add: s'_def s0_def same_env_def)
  next
    case (Some p)
    have "ls \<noteq> []" using assms by (auto simp: pages_hold_def kvs_shape_def)
    then have p: "p < length ls" by (rule current_of_logs_less[OF Some])
    define n where "n = length (ls ! p)"
    define same :: "fd_key_value_store_t \<Rightarrow> bool" where "same t \<longleftrightarrow> kvs_flash t = kvs_flash s \<and> kvs_page_size t = kvs_page_size s \<and> kvs_page_count t = kvs_page_count s \<and>
      kvs_minumum_write_size t = kvs_minumum_write_size s \<and> kvs_ostream_state t = kvs_ostream_state s" for t
    have same: "pages_hold t ls" if "same t" for t
      using assms that by (simp add: pages_hold_def kvs_shape_def page_bytes_def same_def)
    note ok = pages_hold_page[OF same p]
    have mc: "fd_key_value_store_get_metadata_count t p = Some n" if "same t" for t
      using metadata_count[OF ok[OF that]] by (simp add: n_def)
    define s' where "s' = s0\<lparr>kvs_is_full := False, kvs_current := \<lparr>cur_page = p, cur_data_byte_count = data_size (ls ! p), cur_metadata_count = n\<rparr>\<rparr>"
    have "fd_key_value_store_update_current s = Some s'"
    proof (cases "n = 0")
      case True
      then show ?thesis
        using get_current_page_ok[OF h0] Some mc
        by (simp add: fd_key_value_store_update_current_def s0_def same_def s'_def n_def)
    next
      case False
      define es where "es = butlast (ls ! p)"
      define e where "e = last (ls ! p)"
      have ls: "ls ! p = es @ [e]" using False by (simp add: es_def e_def n_def)
      have i: "n - 1 < length (ls ! p)" using False by (simp add: n_def)
      have at: "take (n - 1) (ls ! p) = es" "ls ! p ! (n - 1) = e" by (simp_all add: n_def ls)
      have md: "fd_key_value_store_get_metadata t p (n - Suc 0) = Some (entry_metadata (data_size es) e)" if "same t" for t
        using get_metadata_entry[OF ok[OF that] i] at by simp
      have "same s" by (simp add: same_def)
      from entry_bounds(2)[OF ok[OF this] i]
      have small: "data_size es + (length (kv_key e) + length (kv_value e)) < 2 ^ 16" by (simp only: at)
      have nat: "unat (blob_size (md_key (entry_metadata (data_size es) e))) = length (kv_key e)"
        "unat (blob_offset (md_key (entry_metadata (data_size es) e))) = data_size es"
        "unat (blob_size (md_value (entry_metadata (data_size es) e))) = length (kv_value e)"
        unfolding entry_metadata_def using small
        by (simp_all only: fd_key_value_store_metadata_t.select_convs fd_key_value_store_blob_t.select_convs unat_u16)
      have ws: "fd_key_value_store_get_write_size t (length (kv_key e) + length (kv_value e)) = kv_size e" if "same t" for t
        unfolding kv_size_def by (rule write_size_4) (use same[OF that] small in \<open>simp_all add: pages_hold_def kvs_shape_def\<close>)
      have total: "data_size (ls ! p) = data_size es + kv_size e" by (simp add: ls)
      show ?thesis
        using get_current_page_ok[OF h0] Some mc md ws nat False total
        by (simp add: fd_key_value_store_update_current_def s0_def same_def s'_def Let_def)
    qed
    moreover have "kvs_holds s' ls"
      using assms p by (simp add: pages_hold_def kvs_holds_def s'_def kvs_shape_def page_bytes_def s0_def n_def)
    ultimately show ?thesis using Some by (intro exI[of _ s']) (simp add: s'_def s0_def same_env_def)
  qed
qed

section \<open>The current page after a reset\<close>

lemma page_of_age_surj:
  assumes "cur < length ls" "p < length ls"
  obtains k where "k < length ls" "page_of_age ls cur k = p"
proof (cases "p \<le> cur")
  case True
  have "cur - p < length ls" using assms(1) by simp
  then show ?thesis using that[of "cur - p"] page_of_age_if[OF assms(1), of "cur - p"] True by simp
next
  case False
  then have k: "cur + length ls - p < length ls" using assms(2) by simp
  then show ?thesis using that[of "cur + length ls - p"] page_of_age_if[OF assms(1) k] False assms by simp
qed

lemma page_before_next: "2 \<le> length ls \<Longrightarrow> cur < length ls \<Longrightarrow> (next_page ls cur + length ls - 1) mod length ls = cur"
proof (cases "Suc cur = length ls")
  case True
  moreover assume "2 \<le> length ls" "cur < length ls"
  ultimately show ?thesis by (simp add: next_page_def)
next
  case False
  moreover assume "2 \<le> length ls" "cur < length ls"
  ultimately show ?thesis by (simp add: next_page_def)
qed

lemma age_from_oldest:
  assumes "k < length ls"
  shows "i \<le> k \<Longrightarrow> (page_of_age ls cur k + i) mod length ls = page_of_age ls cur (k - i)"
    and "(page_of_age ls cur k + Suc k) mod length ls = next_page ls cur"
proof -
  have eq: "(page_of_age ls cur k + i) mod length ls = (cur + length ls - k + i) mod length ls" for i
    by (simp add: page_of_age_def mod_add_left_eq)
  show "(page_of_age ls cur k + i) mod length ls = page_of_age ls cur (k - i)" if "i \<le> k"
  proof -
    have "cur + length ls - k + i = cur + length ls - (k - i)" using that assms by simp
    then show ?thesis unfolding eq unfolding page_of_age_def by (simp only:)
  qed
  have "cur + length ls - k + Suc k = cur + 1 + length ls" using assms by simp
  then show "(page_of_age ls cur k + Suc k) mod length ls = next_page ls cur"
    unfolding eq next_page_def by (metis mod_add_self2)
qed

lemma current_of_used:
  assumes "fifo ls cur" "spare ls cur" "ls ! cur \<noteq> []"
  shows "current_of_logs ls = Some cur"
proof -
  have len: "2 \<le> length ls" "cur < length ls" and spare: "ls ! next_page ls cur = []" using assms(2) by (simp_all add: spare_def)
  obtain f where f: "find (\<lambda>p. ls ! p \<noteq> []) [0..<length ls] = Some f"
    using find_None_iff[of "\<lambda>p. ls ! p \<noteq> []" "[0..<length ls]"] len(2) assms(3) by (cases "find (\<lambda>p. ls ! p \<noteq> []) [0..<length ls]") auto
  then have f': "f < length ls" "ls ! f \<noteq> []" by (auto simp: find_Some_iff)
  obtain k where k: "k < length ls" "page_of_age ls cur k = f" by (rule page_of_age_surj[OF len(2) f'(1)])
  have "k \<noteq> length ls - 1" using k(2) f'(2) spare page_of_age_oldest[OF len] by auto
  then have k1: "Suc k < length ls" using k(1) by simp
  have used: "ls ! page_of_age ls cur a \<noteq> []" if "a < k" for a
  proof (cases "a = 0")
    case True
    then show ?thesis using len(2) assms(3) by simp
  next
    case False
    then show ?thesis using assms(1)[unfolded fifo_def, rule_format, of a k] that k f'(2) by auto
  qed
  define xs where "xs = map (\<lambda>i. (f + i) mod length ls) [1..<length ls]"
  have nth: "xs ! j = (f + Suc j) mod length ls" "j < length xs" if "Suc j < length ls" for j
    using that nth_upt[of 1 j "length ls"] by (simp_all add: xs_def)
  have "xs ! k = next_page ls cur" using nth(1)[OF k1] age_from_oldest(2)[OF k(1), of cur] by (simp only: k(2))
  moreover have "ls ! (xs ! j) \<noteq> []" if "j < k" for j
  proof -
    have "xs ! j = page_of_age ls cur (k - Suc j)"
      using nth(1)[of j] age_from_oldest(1)[OF k(1), of "Suc j" cur] that k1 by (simp only: k(2))
    then show ?thesis using used[of "k - Suc j"] that by simp
  qed
  ultimately have "find (\<lambda>p. ls ! p = []) xs = Some (next_page ls cur)"
    unfolding find_Some_iff using nth(2)[OF k1] spare by auto
  then show ?thesis using page_before_next[OF len] by (simp add: current_of_logs_def f xs_def)
qed

lemma current_of_unused:
  assumes "fifo ls cur" "spare ls cur" "ls ! cur = []" "ls ! page_of_age ls cur 1 \<noteq> []"
  defines "prev \<equiv> page_of_age ls cur 1"
  shows "fifo ls prev" "spare ls prev" "store_lookup ls prev key = store_lookup ls cur key"
proof -
  have len: "2 \<le> length ls" "cur < length ls" using assms(2) by (simp_all add: spare_def)
  have prev: "prev = (if cur = 0 then length ls - 1 else cur - 1)" using page_of_age_if[OF len(2), of 1] len by (simp add: prev_def)
  then have p: "prev < length ls" "next_page ls prev = cur" using len by (auto simp: next_page_def)
  show "spare ls prev" using p len assms(3) by (simp add: spare_def)
  show "fifo ls prev"
    unfolding fifo_def
  proof (intro allI impI)
    fix i j assume ij: "1 \<le> i" "i < j" "j < length ls" and e: "ls ! page_of_age ls prev i = []"
    show "ls ! page_of_age ls prev j = []"
    proof (cases "Suc j = length ls")
      case True
      then have "page_of_age ls prev j = cur" using page_of_age_oldest[OF len(1) p(1)] p(2) by (metis diff_Suc_1)
      then show ?thesis using assms(3) by simp
    next
      case False
      then have j: "Suc j < length ls" "Suc i < length ls" using ij by simp_all
      then show ?thesis
        using assms(1)[unfolded fifo_def, rule_format, of "Suc i" "Suc j"] ij e
          page_of_age_next[OF len(1) p(1) j(1)] page_of_age_next[OF len(1) p(1) j(2)] by (simp add: p(2))
    qed
  qed
  have empty: "page_lookup [] key = None" by (simp add: page_lookup_def)
  have "newest_first ls prev = older_pages ls cur @ [ls ! cur]"
  proof (cases cur)
    case 0
    then obtain x rest where "ls = x # rest" using len by (cases ls) auto
    then show ?thesis using 0 by (simp add: prev newest_first_def older_pages_def)
  next
    case (Suc m)
    have "drop (Suc m) ls = ls ! Suc m # drop (Suc (Suc m)) ls" using Suc len by (simp add: Cons_nth_drop_Suc)
    then show ?thesis using Suc by (simp add: prev newest_first_def older_pages_def)
  qed
  then show "store_lookup ls prev key = store_lookup ls cur key"
    using len(2) assms(3) empty
    by (simp add: store_lookup_def newest_first_current lookup_pages_append split: option.splits)
qed

text \<open>Where the records are in order, the page found has the same lookups.\<close>

lemma current_of_fifo:
  assumes "fifo ls cur" "spare ls cur"
  obtains c where "current_of_logs ls = Some c" "fifo ls c" "spare ls c" "\<And>key. store_lookup ls c key = store_lookup ls cur key"
proof (cases "ls ! cur = []")
  case used: False
  then show ?thesis using that[OF current_of_used[OF assms] assms] by blast
next
  case cur: True
  have len: "2 \<le> length ls" "cur < length ls" using assms(2) by (simp_all add: spare_def)
  show ?thesis
  proof (cases "ls ! page_of_age ls cur 1 = []")
    case False
    note prev = current_of_unused[OF assms cur False]
    have "current_of_logs ls = Some (page_of_age ls cur 1)" by (rule current_of_used[OF prev(1,2) False])
    then show ?thesis using that prev by blast
  next
    case True
    have all: "ls ! p = []" if p: "p < length ls" for p
    proof -
      obtain k where k: "k < length ls" "page_of_age ls cur k = p" by (rule page_of_age_surj[OF len(2) p])
      consider "k = 0" | "k = 1" | "1 < k" by linarith
      then show ?thesis
        using k cur True assms(1)[unfolded fifo_def, rule_format, of 1 k] len(2) by cases auto
    qed
    have "find (\<lambda>p. ls ! p \<noteq> []) [0..<length ls] = None" using all by (auto simp: find_None_iff)
    then have c: "current_of_logs ls = Some 0" by (simp add: current_of_logs_def)
    have l: "store_lookup ls c key = None" for c key
    proof -
      have "\<forall>es \<in> set (newest_first ls c). es = []"
        using all set_take_subset[of _ ls] set_drop_subset[of _ ls] by (auto simp: newest_first_def in_set_conv_nth)
      then show ?thesis unfolding store_lookup_def lookup_pages_None by (auto simp: page_lookup_def)
    qed
    have pos: "0 < length ls" using len by linarith
    have "fifo ls 0" using all pos by (simp add: fifo_def page_of_age_def)
    moreover have "spare ls 0" using len pos all next_page_other[of ls 0] by (simp add: spare_def)
    ultimately show ?thesis using that[OF c] l by simp
  qed
qed

section \<open>Erasing, and starting on what is in the flash\<close>

lemma kvs_holds_pages: "kvs_holds s ls \<Longrightarrow> pages_hold s ls"
  by (simp add: kvs_holds_def pages_hold_def)

lemma nvm_erase_pages:
  assumes fa: "flash_area_ok (kvs_page_size s) fa" and h: "pages_hold s ls" and p: "p < kvs_page_count s"
  shows "\<exists>s'. fd_key_value_store_nvm_erase fa p s = Some s' \<and> pages_hold s' (ls[p := []]) \<and> same_env s' s"
proof -
  have h': "kvs_shape s" "length ls = kvs_page_count s" "keys_ok ls" using h by (simp_all add: pages_hold_def)
  define ps where "ps = kvs_page_size s"
  define s' where "s' = s\<lparr>kvs_flash := put (kvs_flash s) (p * ps + 0) (replicate ps 0xff)\<rparr>"
  have range: "p * ps + ps \<le> length (kvs_flash s)" using page_range[OF h'(1) p] by (simp add: ps_def)
  have run: "fd_key_value_store_nvm_erase fa p s = Some s'"
    using fa range by (simp add: fd_key_value_store_nvm_erase_def flash_area_ok_def ps_def s'_def put_def kvs_assert_def add.commute)
  have len: "length (kvs_flash s') = length (kvs_flash s)" using range by (simp add: s'_def)
  have pages: "page_bytes s' q = (if q = p then replicate ps 0xff else page_bytes s q)" if "q < kvs_page_count s" for q
    using page_bytes_put[OF h'(1) p that, of 0 "replicate ps 0xff"] length_page_bytes[OF h'(1) p]
    by (simp add: s'_def ps_def put_def)
  have "24 \<le> ps" using h'(1) by (simp add: kvs_shape_def ps_def)
  then have "page_holds (replicate ps 0xff) []" by (simp add: page_holds_def)
  then have "\<forall>q < kvs_page_count s. page_holds (page_bytes s' q) (ls[p := []] ! q)"
    using pages h h'(2) by (simp add: pages_hold_def nth_list_update)
  moreover have "keys_ok (ls[p := []])" by (rule keys_ok_update[OF h'(3)]) simp
  moreover have "kvs_shape s'" using h'(1) len by (simp add: kvs_shape_def s'_def)
  ultimately have "pages_hold s' (ls[p := []])" using h'(2) by (simp add: pages_hold_def s'_def)
  then show ?thesis using run by (intro exI[of _ s']) (simp add: s'_def same_env_def)
qed

lemma erase_loop_ok:
  "flash_area_ok (kvs_page_size s) fa \<Longrightarrow> pages_hold s ls \<Longrightarrow> set ps \<subseteq> {..<kvs_page_count s} \<Longrightarrow>
   \<exists>s'. erase_loop fa ps s = Some s' \<and> pages_hold s' (foldl (\<lambda>ls p. ls[p := []]) ls ps) \<and> same_env s' s"
proof (induction ps arbitrary: s ls)
  case (Cons p ps)
  obtain s1 where s1: "fd_key_value_store_nvm_erase fa p s = Some s1" "pages_hold s1 (ls[p := []])" "same_env s1 s"
    using nvm_erase_pages[OF Cons(2,3)] Cons(4) by auto
  have env: "kvs_page_size s1 = kvs_page_size s" "kvs_page_count s1 = kvs_page_count s" using s1(3) by (simp_all add: same_env_def)
  obtain s2 where "erase_loop fa ps s1 = Some s2" "pages_hold s2 (foldl (\<lambda>ls p. ls[p := []]) (ls[p := []]) ps)" "same_env s2 s1"
    using Cons(1)[OF _ s1(2)] Cons(2,4) env by auto
  then show ?case using s1 same_env_trans by auto
qed auto

lemma erase_all: "foldl (\<lambda>ls p. ls[p := []]) ls [0..<n] = map (\<lambda>i. if i < n then [] else ls ! i) [0..<length ls]"
proof (induction n)
  case 0
  then show ?case by (simp add: map_nth)
next
  case (Suc n)
  have "foldl (\<lambda>ls p. ls[p := []]) ls [0..<Suc n] = (map (\<lambda>i. if i < n then [] else ls ! i) [0..<length ls])[n := []]"
    by (simp add: Suc)
  also have "\<dots> = map (\<lambda>i. if i < Suc n then [] else ls ! i) [0..<length ls]"
    by (rule nth_equalityI) (simp_all add: nth_list_update less_Suc_eq)
  finally show ?case .
qed

lemma store_lookup_empty: "store_lookup (replicate n []) cur key = None"
proof -
  have "\<forall>es \<in> set (newest_first (replicate n []) cur). es = []" by (auto simp: newest_first_def)
  then show ?thesis unfolding store_lookup_def lookup_pages_None by (auto simp: page_lookup_def)
qed

lemma current_of_empty: "current_of_logs (replicate n []) = Some 0"
proof -
  have "find (\<lambda>p. (replicate n [] :: kv_entry list list) ! p \<noteq> []) [0..<n] = None" by (auto simp: find_None_iff)
  then show ?thesis by (simp add: current_of_logs_def)
qed

lemma spare_empty: "2 \<le> n \<Longrightarrow> spare (replicate n []) 0"
  using next_page_other[of "replicate n []" 0] by (simp add: spare_def)

lemma fifo_empty: "2 \<le> n \<Longrightarrow> fifo (replicate n []) 0"
  by (simp add: fifo_def page_of_age_def)

lemma erase_ok:
  assumes "flash_area_ok (kvs_page_size s) fa" "pages_hold s ls"
  shows "\<exists>s'. fd_key_value_store_erase fa s = Some s' \<and> kvs_holds s' (replicate (kvs_page_count s) []) \<and>
    cur_page (kvs_current s') = 0 \<and> \<not> kvs_is_full s' \<and> kvs_page_size s' = kvs_page_size s \<and> kvs_page_count s' = kvs_page_count s \<and>
    kvs_events s' = kvs_events s @ map (\<lambda>listener. was_erased (li_context listener)) (filter li_was_erased (kvs_listeners s))"
proof -
  obtain s1 where s1: "erase_loop fa [0..<kvs_page_count s] s = Some s1"
      "pages_hold s1 (foldl (\<lambda>ls p. ls[p := []]) ls [0..<kvs_page_count s])" "same_env s1 s"
    using erase_loop_ok[OF assms, of "[0..<kvs_page_count s]"] by (auto simp: subset_iff)
  have all: "foldl (\<lambda>ls p. ls[p := []]) ls [0..<kvs_page_count s] = replicate (kvs_page_count s) []"
    unfolding erase_all using assms(2) by (intro nth_equalityI) (simp_all add: pages_hold_def)
  obtain s2 where s2: "fd_key_value_store_update_current s1 = Some s2" "same_env s2 s1"
      "kvs_holds s2 (replicate (kvs_page_count s) [])" "cur_page (kvs_current s2) = 0" "\<not> kvs_is_full s2"
    using update_current_ok[OF s1(2)] by (auto simp: all current_of_empty)
  have "same_env s2 s" by (rule same_env_trans[OF s2(2) s1(3)])
  then show ?thesis
    using s1(1) s2 by (intro exI[of _ "notify_erased s2"])
      (simp add: fd_key_value_store_erase_def notify_erased_def kvs_holds_def kvs_shape_def page_bytes_def same_env_def)
qed

text \<open>\<open>fd_key_value_store_erase\<close> works in every state of the flash, also when the store is full: afterwards no key
  has a value, and each listener is told once.\<close>

theorem fd_key_value_store_erase_forgets:
  assumes "flash_area_ok (kvs_page_size s) fa" "pages_hold s ls"
  shows "\<exists>s'. fd_key_value_store_erase fa s = Some s' \<and> \<not> kvs_is_full s' \<and> (\<forall>key. 0 \<notin> set key \<longrightarrow> kvs_value s' key = Some None) \<and>
    kvs_events s' = kvs_events s @ map (\<lambda>listener. was_erased (li_context listener)) (filter li_was_erased (kvs_listeners s))"
proof -
  obtain s' where s': "fd_key_value_store_erase fa s = Some s'" "kvs_holds s' (replicate (kvs_page_count s) [])" "\<not> kvs_is_full s'"
      "kvs_events s' = kvs_events s @ map (\<lambda>listener. was_erased (li_context listener)) (filter li_was_erased (kvs_listeners s))"
    using erase_ok[OF assms] by blast
  have "kvs_value s' key = Some None" if "0 \<notin> set key" for key
    using kvs_value_lookup[OF s'(2) that] by (simp add: store_lookup_empty)
  then show ?thesis using s' by blast
qed

theorem fd_key_value_store_erase_forgets_witness:
  "\<exists>s'. fd_key_value_store_erase nor_flash (store_of [[kv_put ''k'' [1]], [kv_put ''k'' [2]]] 1) = Some s' \<and> kvs_value s' [107] = Some None"
proof -
  have fit: "logs_fit [[kv_put ''k'' [1]], [kv_put ''k'' [2]]]"
    by (simp add: logs_fit_def keys_ok_def kv_put_def data_size_def kv_size_def round4_def)
  have "kvs_holds (store_of [[kv_put ''k'' [1]], [kv_put ''k'' [2]]] 1) [[kv_put ''k'' [1]], [kv_put ''k'' [2]]]"
    by (rule store_of_holds[OF fit]) simp
  from fd_key_value_store_erase_forgets[OF nor_flash_ok kvs_holds_pages[OF this]] show ?thesis by auto
qed

lemma initialize_ok:
  assumes "pages_hold s ls" "kvs_page_size s = 4096" "kvs_flash s0 = kvs_flash s" "length (os_buffer (kvs_ostream_state s0)) = 16"
    and "current_of_logs ls = Some c"
  shows "\<exists>s'. fd_key_value_store_initialize 0 (kvs_page_count s) s0 = Some s' \<and> kvs_holds s' ls \<and> cur_page (kvs_current s') = c \<and>
    \<not> kvs_is_full s' \<and> kvs_page_size s' = 4096 \<and> kvs_log s' = kvs_log s0"
proof -
  define s1 where "s1 = s0\<lparr>kvs_minumum_write_size := 4, kvs_page_size := 4096, kvs_page_count := kvs_page_count s\<rparr>"
  have "pages_hold s1 ls"
    using assms(1-4) by (simp add: pages_hold_def kvs_shape_def page_bytes_def s1_def)
  then obtain s' where s': "fd_key_value_store_update_current s1 = Some s'" "same_env s' s1" "kvs_holds s' ls"
      "cur_page (kvs_current s') = c" "\<not> kvs_is_full s'"
    using update_current_ok[of s1 ls] assms(5) by auto
  have "2 \<le> kvs_page_count s" using assms(1) by (simp add: pages_hold_def kvs_shape_def)
  then have "fd_key_value_store_initialize 0 (kvs_page_count s) s0 = Some s'"
    using s'(1) by (simp add: fd_key_value_store_initialize_def s1_def)
  then show ?thesis using s' by (intro exI[of _ s']) (simp add: same_env_def s1_def)
qed



section \<open>Every run\<close>

text \<open>The store between two calls, and what may happen to it: a call of the interface with a key and a record of a
  size a page has room for, a new listener, or a reset, after which the memory holds anything but the flash is as it was.
  The reset is between two calls; one in the middle of a call, which leaves part of its writes in flash, is not a step.\<close>

inductive kvs_step :: "flash_area \<Rightarrow> fd_key_value_store_t \<Rightarrow> fd_key_value_store_t \<Rightarrow> bool" for fa where
  set: "0 \<notin> set key \<Longrightarrow> record_room (record_of key (Some chunks)) \<le> kvs_page_size s \<Longrightarrow>
     fd_key_value_store_set fa key chunks s = Some (result, s') \<Longrightarrow> kvs_step fa s s'"
| remove: "0 \<notin> set key \<Longrightarrow> record_room (record_of key None) \<le> kvs_page_size s \<Longrightarrow>
     fd_key_value_store_remove fa key s = Some (result, s') \<Longrightarrow> kvs_step fa s s'"
| get: "0 \<notin> set key \<Longrightarrow> fd_key_value_store_get (pb_decode :: u8 list \<Rightarrow> u8 list option) key s = Some (result, s') \<Longrightarrow> kvs_step fa s s'"
| erase: "fd_key_value_store_erase fa s = Some s' \<Longrightarrow> kvs_step fa s s'"
| add_listener: "kvs_step fa s (fd_key_value_store_add_listener listener s)"
| reset: "kvs_flash s0 = kvs_flash s \<Longrightarrow> length (os_buffer (kvs_ostream_state s0)) = 16 \<Longrightarrow>
     fd_key_value_store_initialize 0 (kvs_page_count s) s0 = Some s' \<Longrightarrow> kvs_step fa s s'"

inductive kvs_reachable :: "flash_area \<Rightarrow> fd_key_value_store_t \<Rightarrow> bool" for fa where
  start: "2 \<le> n \<Longrightarrow> kvs_flash s = replicate (n * 4096) 0xff \<Longrightarrow> length (os_buffer (kvs_ostream_state s)) = 16 \<Longrightarrow>
     fd_key_value_store_initialize 0 n s = Some s' \<Longrightarrow> kvs_reachable fa s'"
| step: "kvs_reachable fa s \<Longrightarrow> kvs_step fa s s' \<Longrightarrow> kvs_reachable fa s'"

definition kvs_inv :: "fd_key_value_store_t \<Rightarrow> bool" where
  "kvs_inv s \<longleftrightarrow> kvs_page_size s = 4096 \<and>
     (\<exists>ls. kvs_holds s ls \<and> spare ls (cur_page (kvs_current s)) \<and> fifo ls (cur_page (kvs_current s)))"

lemma kvs_inv_upd:
  assumes "kvs_inv s" "kvs_flash s' = kvs_flash s" "kvs_page_size s' = kvs_page_size s" "kvs_page_count s' = kvs_page_count s"
    "kvs_minumum_write_size s' = kvs_minumum_write_size s" "kvs_current s' = kvs_current s" "kvs_ostream_state s' = kvs_ostream_state s"
  shows "kvs_inv s'"
proof -
  have "kvs_holds s' ls = kvs_holds s ls" for ls using assms(2-) by (simp add: kvs_holds_def kvs_shape_def page_bytes_def)
  then show ?thesis using assms by (simp add: kvs_inv_def)
qed

lemma add_full:
  assumes "kvs_is_full s" shows "fd_key_value_store_add fa key obj s = Some (False, kvs_assert False ''result'' s)"
  using assms by (simp add: fd_key_value_store_add_def fd_key_value_store_allocate_key_value_def fd_key_value_store_allocate_def Let_def)

lemma add_inv:
  assumes fa: "flash_area_ok 4096 fa" and inv: "kvs_inv s" and key: "0 \<notin> set key"
    and fits: "record_room (record_of key obj) \<le> kvs_page_size s"
  shows "\<exists>res s'. fd_key_value_store_add fa key obj s = Some (res, s') \<and> kvs_inv s'"
proof (cases "kvs_is_full s")
  case True
  moreover have "kvs_inv (kvs_assert False ''result'' s)" by (rule kvs_inv_upd[OF inv]) (simp_all add: kvs_assert_def)
  ultimately show ?thesis by (auto simp: add_full)
next
  case False
  obtain ls where ls: "kvs_page_size s = 4096" "kvs_holds s ls" "spare ls (cur_page (kvs_current s))" "fifo ls (cur_page (kvs_current s))"
    using inv by (auto simp: kvs_inv_def)
  obtain res ls' cur' s' where s': "add_logs (kvs_page_size s) (record_of key obj) ls (cur_page (kvs_current s)) = Some (res, ls', cur')"
      "fd_key_value_store_add fa key obj s = Some (res, s')" "kvs_holds s' ls'" "cur_page (kvs_current s') = cur'"
      "spare ls' cur'" "kvs_page_size s' = kvs_page_size s"
    using add_refines[OF fa[folded ls(1)] ls(2) refl ls(3) False key fits] by blast
  have "fifo ls' cur'" by (rule add_logs_fifo[OF fits ls(4,3) s'(1,5)])
  then show ?thesis using s' ls(1) by (auto simp: kvs_inv_def)
qed

lemma set_inv:
  assumes "flash_area_ok 4096 fa" "kvs_inv s" "0 \<notin> set key" "record_room (record_of key (Some chunks)) \<le> kvs_page_size s"
  shows "\<exists>res s'. fd_key_value_store_set fa key chunks s = Some (res, s') \<and> kvs_inv s'"
proof -
  obtain ls where ls: "kvs_holds s ls" using assms(2) by (auto simp: kvs_inv_def)
  obtain B st where st: "fd_key_value_store_is_set_to key chunks s = Some (B, s\<lparr>kvs_equal_stream_state := st\<rparr>)"
    using is_set_to_ok[OF ls assms(3), of chunks] by blast
  define s1 where "s1 = s\<lparr>kvs_equal_stream_state := st\<rparr>"
  have inv: "kvs_inv s1" by (rule kvs_inv_upd[OF assms(2)]) (simp_all add: s1_def)
  obtain res s2 where s2: "fd_key_value_store_add fa key (Some chunks) s1 = Some (res, s2)" "kvs_inv s2"
    using add_inv[OF assms(1) inv assms(3), of "Some chunks"] assms(4) by (auto simp: s1_def)
  have "kvs_inv (notify_set key s2)" by (rule kvs_inv_upd[OF s2(2)]) (simp_all add: notify_set_def)
  then show ?thesis using st s2 inv by (auto simp: fd_key_value_store_set_def s1_def[symmetric])
qed

lemma remove_inv:
  assumes "flash_area_ok 4096 fa" "kvs_inv s" "0 \<notin> set key" "record_room (record_of key None) \<le> kvs_page_size s"
  shows "\<exists>res s'. fd_key_value_store_remove fa key s = Some (res, s') \<and> kvs_inv s'"
proof -
  obtain ls where ls: "kvs_holds s ls" using assms(2) by (auto simp: kvs_inv_def)
  obtain res s2 where s2: "fd_key_value_store_add fa key None s = Some (res, s2)" "kvs_inv s2"
    using add_inv[OF assms] by auto
  have "kvs_inv (notify_removed key s2)" by (rule kvs_inv_upd[OF s2(2)]) (simp_all add: notify_removed_def)
  then show ?thesis using is_set_ok[OF ls assms(3)] s2 assms(2) by (auto simp: fd_key_value_store_remove_def)
qed

lemma get_inv:
  assumes "kvs_inv s" "0 \<notin> set key"
  shows "\<exists>r s'. fd_key_value_store_get pb_decode key s = Some (r, s') \<and> kvs_inv s'"
proof -
  obtain ls where ls: "kvs_holds s ls" using assms(1) by (auto simp: kvs_inv_def)
  obtain r where r: "fd_key_value_store_lookup s key = Some r" "points_to s r (store_lookup ls (cur_page (kvs_current s)) key)"
    using lookup_store[OF ls assms(2)] by blast
  have asserts: "kvs_inv (kvs_assert b m (kvs_assert b' m' s))" for b m b' m'
    by (rule kvs_inv_upd[OF assms(1)]) (simp_all add: kvs_assert_def)
  show ?thesis
    using r asserts assms(1) by (auto simp: fd_key_value_store_get_def points_to_def Let_def split: option.splits)
qed

lemma erase_inv:
  assumes "flash_area_ok 4096 fa" "kvs_inv s"
  shows "\<exists>s'. fd_key_value_store_erase fa s = Some s' \<and> kvs_inv s'"
proof -
  obtain ls where ls: "kvs_page_size s = 4096" "kvs_holds s ls" using assms(2) by (auto simp: kvs_inv_def)
  have n: "2 \<le> kvs_page_count s" using ls(2) by (simp add: kvs_holds_def kvs_shape_def)
  obtain s' where "fd_key_value_store_erase fa s = Some s'" "kvs_holds s' (replicate (kvs_page_count s) [])"
    "cur_page (kvs_current s') = 0" "kvs_page_size s' = kvs_page_size s"
    using erase_ok[OF _ kvs_holds_pages[OF ls(2)]] assms(1) ls(1) by auto
  then show ?thesis using ls(1) n spare_empty fifo_empty by (auto simp: kvs_inv_def)
qed

lemma reset_inv:
  assumes "kvs_inv s" "kvs_flash s0 = kvs_flash s" "length (os_buffer (kvs_ostream_state s0)) = 16"
  shows "\<exists>s'. fd_key_value_store_initialize 0 (kvs_page_count s) s0 = Some s' \<and> kvs_inv s'"
proof -
  obtain ls where ls: "kvs_page_size s = 4096" "kvs_holds s ls" "spare ls (cur_page (kvs_current s))" "fifo ls (cur_page (kvs_current s))"
    using assms(1) by (auto simp: kvs_inv_def)
  obtain c where c: "current_of_logs ls = Some c" "fifo ls c" "spare ls c" by (rule current_of_fifo[OF ls(4,3)])
  then show ?thesis using initialize_ok[OF kvs_holds_pages[OF ls(2)] ls(1) assms(2,3) c(1)] by (auto simp: kvs_inv_def)
qed

lemma start_inv:
  assumes "2 \<le> n" "kvs_flash s = replicate (n * 4096) 0xff" "length (os_buffer (kvs_ostream_state s)) = 16"
  shows "\<exists>s'. fd_key_value_store_initialize 0 n s = Some s' \<and> kvs_inv s'"
proof -
  define t where "t = s\<lparr>kvs_page_count := n, kvs_page_size := 4096, kvs_minumum_write_size := 4\<rparr>"
  have "page_bytes t p = replicate 4096 0xff" if p: "p < n" for p
  proof -
    obtain k where "n = Suc (p + k)" using less_imp_Suc_add[OF p] by blast
    then have "n * 4096 - p * 4096 = 4096 + k * 4096" by simp
    then show ?thesis by (simp add: page_bytes_def t_def assms(2))
  qed
  then have h: "pages_hold t (replicate n [])"
    using assms by (simp add: pages_hold_def kvs_shape_def t_def page_holds_def keys_ok_def)
  have "\<exists>s'. fd_key_value_store_initialize 0 (kvs_page_count t) s = Some s' \<and> kvs_holds s' (replicate n []) \<and> cur_page (kvs_current s') = 0 \<and>
      \<not> kvs_is_full s' \<and> kvs_page_size s' = 4096 \<and> kvs_log s' = kvs_log s"
    by (rule initialize_ok[OF h]) (use assms(3) in \<open>simp_all add: t_def current_of_empty\<close>)
  then show ?thesis using spare_empty[OF assms(1)] fifo_empty[OF assms(1)] by (auto simp: t_def kvs_inv_def)
qed

lemma step_inv: "kvs_step fa s s' \<Longrightarrow> flash_area_ok 4096 fa \<Longrightarrow> kvs_inv s \<Longrightarrow> kvs_inv s'"
proof (induction rule: kvs_step.induct)
  case (set key chunks s result s')
  then show ?case using set_inv[of fa s key chunks] by auto
next
  case (remove key s result s')
  then show ?case using remove_inv[of fa s key] by auto
next
  case (get key pb_decode s result s')
  then show ?case using get_inv[of s key pb_decode] by auto
next
  case (erase s s')
  then show ?case using erase_inv[of fa s] by auto
next
  case (add_listener s listener)
  show ?case by (rule kvs_inv_upd[OF add_listener(2)]) (simp_all add: fd_key_value_store_add_listener_def kvs_assert_def Let_def)
next
  case (reset s0 s s')
  then show ?case using reset_inv[of s s0] by auto
qed

lemma reachable_inv: "kvs_reachable fa s \<Longrightarrow> flash_area_ok 4096 fa \<Longrightarrow> kvs_inv s"
proof (induction rule: kvs_reachable.induct)
  case (start n s s')
  then show ?case using start_inv[of n s] by auto
next
  case (step s s')
  then show ?case using step_inv by blast
qed

text \<open>C21: Whatever sequence of completed calls of the interface (sets and removals of keys without a null byte whose
  record fits an empty page, lookups, erasures, listeners) and of resets between calls a store has been through since it
  was started on erased flash of two pages or more, the bytes of the flash are one log of records per page with the current page's counts those of its log, the page after the
  current one is free, and the pages in use follow each other. A reset in the middle of a call is not covered: the code
  does not keep the invariant then (a reset while a page is collected leaves no page free).\<close>

theorem kvs_reachable_invariant:
  assumes "flash_area_ok 4096 fa" "kvs_reachable fa s"
  shows "\<exists>ls. kvs_holds s ls \<and> spare ls (cur_page (kvs_current s)) \<and> fifo ls (cur_page (kvs_current s))"
  using reachable_inv[OF assms(2,1)] by (auto simp: kvs_inv_def)

lemma reachable_start: "\<exists>s'. kvs_reachable nor_flash s' \<and> fd_key_value_store_initialize 0 2 (store_of [[], []] 0) = Some s'"
proof -
  have f: "kvs_flash (store_of [[], []] 0) = replicate (2 * 4096) 0xff" by (simp add: store_of_def flip: replicate_add)
  obtain s' where "fd_key_value_store_initialize 0 2 (store_of [[], []] 0) = Some s'"
    using start_inv[of 2 "store_of [[], []] 0"] f by (auto simp: store_of_def)
  then show ?thesis using kvs_reachable.start[of 2 "store_of [[], []] 0" s'] f by (auto simp: store_of_def)
qed

theorem kvs_reachable_invariant_witness:
  "\<exists>s ls. kvs_reachable nor_flash s \<and> kvs_holds s ls \<and> spare ls (cur_page (kvs_current s)) \<and> fifo ls (cur_page (kvs_current s))"
  using reachable_start kvs_reachable_invariant[OF nor_flash_ok] by blast

text \<open>C22: In every state a store can reach by completed calls and resets between calls, each call of the interface with a
  key without a null byte returns, and so does the start after a reset, as long as records fit an empty page.\<close>

theorem kvs_reachable_returns:
  assumes "flash_area_ok 4096 fa" "kvs_reachable fa s" "0 \<notin> set key"
  shows "(\<forall>chunks. record_room (record_of key (Some chunks)) \<le> 4096 \<longrightarrow> fd_key_value_store_set fa key chunks s \<noteq> None) \<and>
    (record_room (record_of key None) \<le> 4096 \<longrightarrow> fd_key_value_store_remove fa key s \<noteq> None) \<and>
    fd_key_value_store_get pb_decode key s \<noteq> None \<and> fd_key_value_store_erase fa s \<noteq> None \<and>
    (\<forall>s0. kvs_flash s0 = kvs_flash s \<longrightarrow> length (os_buffer (kvs_ostream_state s0)) = 16 \<longrightarrow>
      fd_key_value_store_initialize 0 (kvs_page_count s) s0 \<noteq> None)"
proof (intro conjI allI impI)
  have inv: "kvs_inv s" "kvs_page_size s = 4096" using reachable_inv[OF assms(2,1)] by (auto simp: kvs_inv_def)
  show "fd_key_value_store_set fa key chunks s \<noteq> None" if "record_room (record_of key (Some chunks)) \<le> 4096" for chunks
    using set_inv[OF assms(1) inv(1) assms(3), of chunks] inv(2) that by auto
  show "fd_key_value_store_remove fa key s \<noteq> None" if "record_room (record_of key None) \<le> 4096"
    using remove_inv[OF assms(1) inv(1) assms(3)] inv(2) that by auto
  show "fd_key_value_store_get pb_decode key s \<noteq> None" using get_inv[OF inv(1) assms(3), of pb_decode] by auto
  show "fd_key_value_store_erase fa s \<noteq> None" using erase_inv[OF assms(1) inv(1)] by auto
  show "fd_key_value_store_initialize 0 (kvs_page_count s) s0 \<noteq> None"
    if "kvs_flash s0 = kvs_flash s" "length (os_buffer (kvs_ostream_state s0)) = 16" for s0
    using reset_inv[OF inv(1) that] by auto
qed

theorem kvs_reachable_returns_witness:
  "\<exists>s. kvs_reachable nor_flash s \<and> fd_key_value_store_set nor_flash [107] [[1, 2]] s \<noteq> None"
proof -
  obtain s where "kvs_reachable nor_flash s" using reachable_start by blast
  moreover from this have "fd_key_value_store_set nor_flash [107] [[1, 2]] s \<noteq> None"
    using kvs_reachable_returns[OF nor_flash_ok, of s "[107]" Some]
    by (simp add: record_room_def record_of_def kv_size_def round4_def)
  ultimately show ?thesis by blast
qed

end
