(* ===== verification/FD_Double.thy ===== *)
theory FD_Double imports FD_Prelude "HOL-Library.Log_Nat" begin

text \<open>
  The \<open>double\<close> of C: 64 bit words in the binary64 format, rounded to nearest, ties to even. A finite double is a
  whole number of units of 2^-1074, so that sums, products, quotients and decimal fractions are exact ratios of such
  numbers that \<open>double_round\<close> rounds once. Where C leaves the bits of a result open (a NaN) they are one fixed pattern.
\<close>

definition double_sign :: "u64 \<Rightarrow> bool" where
  "double_sign w \<longleftrightarrow> 2 ^ 63 \<le> uint w"

definition double_exponent :: "u64 \<Rightarrow> int" where
  "double_exponent w = uint w div 2 ^ 52 mod 2 ^ 11"

definition double_fraction :: "u64 \<Rightarrow> int" where
  "double_fraction w = uint w mod 2 ^ 52"

definition double_is_nan :: "u64 \<Rightarrow> bool" where
  "double_is_nan w \<longleftrightarrow> double_exponent w = 2047 \<and> double_fraction w \<noteq> 0"

definition double_is_infinite :: "u64 \<Rightarrow> bool" where
  "double_is_infinite w \<longleftrightarrow> double_exponent w = 2047 \<and> double_fraction w = 0"

definition double_units :: "u64 \<Rightarrow> int" where
  "double_units w = (if double_exponent w = 0 then double_fraction w else (2 ^ 52 + double_fraction w) * 2 ^ nat (double_exponent w - 1))"

definition double_signed :: "u64 \<Rightarrow> int" where
  "double_signed w = (if double_sign w then - double_units w else double_units w)"

definition double_of :: "bool \<Rightarrow> int \<Rightarrow> u64" where
  "double_of s magnitude = word_of_int ((if s then 2 ^ 63 else 0) + magnitude)"

definition double_infinity :: "bool \<Rightarrow> u64" where
  "double_infinity s = double_of s (2047 * 2 ^ 52)"

definition double_nan :: u64 where
  "double_nan = 0x7ff8000000000000"

text \<open>The double nearest to a number of units given as a ratio; from the largest finite one on, infinity.\<close>

definition double_round :: "bool \<Rightarrow> int \<Rightarrow> int \<Rightarrow> u64" where
  "double_round s num den =
     (let k = nat (bitlen (num div den) - 53); d = den * 2 ^ k; q = num div d; r = num mod d;
          m = (if 2 * r > d \<or> 2 * r = d \<and> odd q then q + 1 else q)
      in double_of s (min (int k * 2 ^ 52 + m) (2047 * 2 ^ 52)))"

definition double_of_int :: "int \<Rightarrow> u64" where
  "double_of_int i = double_round (i < 0) (\<bar>i\<bar> * 2 ^ 1074) 1"

definition double_neg :: "u64 \<Rightarrow> u64" where
  "double_neg a = a XOR 0x8000000000000000"

definition double_add :: "u64 \<Rightarrow> u64 \<Rightarrow> u64" where
  "double_add a b =
     (if double_is_nan a \<or> double_is_nan b then double_nan
      else if double_is_infinite a then (if double_is_infinite b \<and> double_sign a \<noteq> double_sign b then double_nan else a)
      else if double_is_infinite b then b
      else let x = double_signed a + double_signed b in
        double_round (if x = 0 then double_sign a \<and> double_sign b else x < 0) \<bar>x\<bar> 1)"

definition double_sub :: "u64 \<Rightarrow> u64 \<Rightarrow> u64" where
  "double_sub a b = (if double_is_nan b then double_nan else double_add a (double_neg b))"

definition double_mul :: "u64 \<Rightarrow> u64 \<Rightarrow> u64" where
  "double_mul a b =
     (let s = (double_sign a \<noteq> double_sign b) in
      if double_is_nan a \<or> double_is_nan b then double_nan
      else if double_is_infinite a then (if \<not> double_is_infinite b \<and> double_units b = 0 then double_nan else double_infinity s)
      else if double_is_infinite b then (if double_units a = 0 then double_nan else double_infinity s)
      else double_round s (double_units a * double_units b) (2 ^ 1074))"

definition double_div :: "u64 \<Rightarrow> u64 \<Rightarrow> u64" where
  "double_div a b =
     (let s = (double_sign a \<noteq> double_sign b) in
      if double_is_nan a \<or> double_is_nan b then double_nan
      else if double_is_infinite a then (if double_is_infinite b then double_nan else double_infinity s)
      else if double_is_infinite b then double_of s 0
      else if double_units b = 0 then (if double_units a = 0 then double_nan else double_infinity s)
      else double_round s (double_units a * 2 ^ 1074) (double_units b))"

text \<open>The C function \<open>round\<close>: to the nearest integer, halves away from zero.\<close>

definition double_round_integer :: "u64 \<Rightarrow> u64" where
  "double_round_integer a =
     (if double_is_nan a then double_nan else if double_is_infinite a then a
      else double_round (double_sign a) ((2 * double_units a + 2 ^ 1074) div 2 ^ 1075 * 2 ^ 1074) 1)"

text \<open>Comparisons: false with a NaN, and the two zeros are equal.\<close>

definition double_order :: "u64 \<Rightarrow> int" where
  "double_order a = (if double_is_infinite a then (if double_sign a then - (2 ^ 2100) else 2 ^ 2100) else double_signed a)"

definition double_eq :: "u64 \<Rightarrow> u64 \<Rightarrow> bool" where
  "double_eq a b \<longleftrightarrow> \<not> double_is_nan a \<and> \<not> double_is_nan b \<and> double_order a = double_order b"

definition double_lt :: "u64 \<Rightarrow> u64 \<Rightarrow> bool" where
  "double_lt a b \<longleftrightarrow> \<not> double_is_nan a \<and> \<not> double_is_nan b \<and> double_order a < double_order b"

definition double_le :: "u64 \<Rightarrow> u64 \<Rightarrow> bool" where
  "double_le a b \<longleftrightarrow> \<not> double_is_nan a \<and> \<not> double_is_nan b \<and> double_order a \<le> double_order b"

text \<open>A decimal number, digits * 10^exponent.\<close>

definition double_of_decimal :: "int \<Rightarrow> int \<Rightarrow> u64" where
  "double_of_decimal digits e = double_round False (digits * 10 ^ nat e * 2 ^ 1074) (10 ^ nat (- e))"

lemma double_round_0 [simp]: "0 < den \<Longrightarrow> double_round s 0 den = double_of s 0"
  by (simp add: double_round_def Let_def)


text \<open>Rounding keeps every finite double.\<close>

lemma double_fields: "uint w = (if double_sign w then 2 ^ 63 else 0) + double_exponent w * 2 ^ 52 + double_fraction w"
proof -
  define n where "n = uint w"
  define h where "h = n div 2 ^ 52"
  have lt: "0 \<le> n" "n < 2 ^ 64" using uint_lt2p[of w] by (simp_all add: n_def)
  have n: "n = h * 2 ^ 52 + n mod 2 ^ 52" unfolding h_def by (rule div_mult_mod_eq[symmetric])
  have f: "0 \<le> n mod 2 ^ 52" "n mod 2 ^ 52 < 2 ^ 52" by simp_all
  have h: "0 \<le> h" "h < 2 ^ 12" using lt n f by (simp_all add: h_def)
  have s: "2 ^ 63 \<le> n \<longleftrightarrow> 2 ^ 11 \<le> h"
  proof
    assume "2 ^ 11 \<le> h"
    then show "2 ^ 63 \<le> n" using n f by simp
  next
    assume "2 ^ 63 \<le> n"
    then show "2 ^ 11 \<le> h" using n f by simp
  qed
  have "h mod 2 ^ 11 = (if 2 ^ 11 \<le> h then h - 2 ^ 11 else h)"
  proof (cases "2 ^ 11 \<le> h")
    case True
    then have "(h - 2 ^ 11) mod 2 ^ 11 = h - 2 ^ 11" using h by (intro mod_pos_pos_trivial) simp_all
    moreover have "(h - 2 ^ 11) mod 2 ^ 11 = h mod 2 ^ 11" by (rule minus_mod_self2)
    ultimately show ?thesis using True by simp
  next
    case False
    then show ?thesis using h by (simp add: mod_pos_pos_trivial)
  qed
  then show ?thesis
    unfolding double_exponent_def double_fraction_def double_sign_def n_def[symmetric] h_def[symmetric] s
    using n by (auto simp: left_diff_distrib)
qed

lemma double_of_fields:
  "double_of (double_sign w) (double_exponent w * 2 ^ 52 + double_fraction w) = w"
proof -
  have "double_of (double_sign w) (double_exponent w * 2 ^ 52 + double_fraction w) = word_of_int (uint w)"
    unfolding double_of_def double_fields[of w] by (simp only: add.assoc)
  then show ?thesis by simp
qed

lemma bitlen_between: "2 ^ a \<le> m \<Longrightarrow> m < 2 ^ Suc a \<Longrightarrow> bitlen m = int a + 1"
proof (rule antisym)
  assume m: "2 ^ a \<le> m" "m < 2 ^ Suc a"
  have "\<not> bitlen m \<le> int a" using m(1) by (simp add: bitlen_le_iff_power)
  then show "int a + 1 \<le> bitlen m" by simp
  have "bitlen m \<le> int (Suc a)" unfolding bitlen_le_iff_power nat_int using m(2) by simp
  then show "bitlen m \<le> int a + 1" by simp
qed

lemma double_round_units:
  assumes "double_exponent w \<noteq> 2047"
  shows "double_round (double_sign w) (double_units w) 1 = w"
proof -
  define e where "e = double_exponent w"
  define f where "f = double_fraction w"
  define B :: int where "B = 2 ^ 52"
  have f: "0 \<le> f" "f < B" by (simp_all add: f_def B_def double_fraction_def)
  have "0 \<le> e" "e < 2048" by (simp_all add: e_def double_exponent_def)
  then have e: "0 \<le> e" "e \<le> 2046" using assms by (simp_all add: e_def)
  have w: "double_of (double_sign w) (e * B + f) = w" using double_of_fields[of w] by (simp add: e_def f_def B_def)
  have small: "e * B + f \<le> 2047 * B"
  proof -
    have "e * B \<le> 2046 * B" using e by (intro mult_right_mono) (simp_all add: B_def)
    then show ?thesis using f by linarith
  qed
  have units: "double_units w = (if e = 0 then f else (B + f) * 2 ^ nat (e - 1))"
    by (simp add: double_units_def e_def f_def B_def)
  show ?thesis
  proof (cases "e = 0")
    case True
    have "bitlen f \<le> 53" using f bitlen_le_iff_power[of f 53] by (simp add: B_def)
    then show ?thesis
      unfolding double_round_def[folded B_def] using w True small by (simp add: units min_absorb1)
  next
    case False
    define k where "k = nat (e - 1)"
    have "bitlen ((B + f) * 2 ^ k) = int (52 + k) + 1"
    proof (rule bitlen_between)
      have "B * 2 ^ k \<le> (B + f) * 2 ^ k" using f by (intro mult_right_mono) simp_all
      then show "2 ^ (52 + k) \<le> (B + f) * 2 ^ k" by (simp add: B_def power_add)
      have "(B + f) * 2 ^ k < (B * 2) * 2 ^ k" using f by (intro mult_strict_right_mono) simp_all
      then show "(B + f) * 2 ^ k < 2 ^ Suc (52 + k)" by (simp add: B_def power_add mult.commute)
    qed
    then have l: "nat (bitlen ((B + f) * 2 ^ k) - 53) = k" by simp
    have ek: "int k * B + (B + f) = e * B + f" using False e by (simp add: k_def left_diff_distrib)
    have u: "double_units w = (B + f) * 2 ^ k" using units False by (simp add: k_def)
    show ?thesis
      unfolding double_round_def[folded B_def] Let_def u div_by_1 l mult_1
      using w small by (simp add: min_absorb1 ek)
  qed
qed

end
