(* ===== verification/FD_Eval.thy ===== *)
theory FD_Eval imports FD_Double "HOL-Library.Signed_Division" "HOL-Library.Monad_Syntax" begin

text \<open>
  \<open>subsys/base/src/fd_eval.c\<close>: expressions over booleans, integers and reals. A tokenizer over the text, a precedence
  climbing parser that allocates the nodes of a tree in a heap of the caller, and the evaluation of the tree.

  The text is the characters up to the null byte, of which the expression is a first part; a token is its place in the
  text, \<open>None\<close> for the null pointer, and its characters. Nodes are found by reference, to the heap or to the node for
  errors. The union of a value is its 64 bits, read and written as each member does. The parser recurses as deep as the
  text asks for, with a bound on the depth as fuel; the evaluation follows references, which can form a circle: there it
  is a partial function, and \<open>None\<close> when it does not end. Arithmetic on integers that overflows is undefined: no value.
\<close>

section \<open>Values\<close>

datatype fd_eval_value_type_t = fd_eval_value_type_boolean | fd_eval_value_type_integer | fd_eval_value_type_real

record fd_eval_value_t =
  ev_type :: fd_eval_value_type_t
  ev_bits :: u64

definition ev_boolean :: "fd_eval_value_t \<Rightarrow> bool" where
  "ev_boolean v \<longleftrightarrow> ev_bits v AND 0xff \<noteq> 0"

definition ev_integer :: "fd_eval_value_t \<Rightarrow> int" where
  "ev_integer v = sint (ev_bits v)"

definition ev_real :: "fd_eval_value_t \<Rightarrow> u64" where
  "ev_real v = ev_bits v"

definition with_boolean :: "fd_eval_value_type_t \<Rightarrow> bool \<Rightarrow> fd_eval_value_t" where
  "with_boolean t b = \<lparr>ev_type = t, ev_bits = (if b then 1 else 0)\<rparr>"

definition with_integer :: "fd_eval_value_type_t \<Rightarrow> int \<Rightarrow> fd_eval_value_t" where
  "with_integer t i = \<lparr>ev_type = t, ev_bits = word_of_int i\<rparr>"

definition with_real :: "fd_eval_value_type_t \<Rightarrow> u64 \<Rightarrow> fd_eval_value_t" where
  "with_real t r = \<lparr>ev_type = t, ev_bits = r\<rparr>"

definition fd_eval_value_initialize_boolean :: "bool \<Rightarrow> fd_eval_value_t" where
  "fd_eval_value_initialize_boolean boolean = with_boolean fd_eval_value_type_boolean boolean"

definition fd_eval_value_initialize_integer :: "int \<Rightarrow> fd_eval_value_t" where
  "fd_eval_value_initialize_integer integer = with_integer fd_eval_value_type_integer integer"

definition fd_eval_value_initialize_real :: "u64 \<Rightarrow> fd_eval_value_t" where
  "fd_eval_value_initialize_real r = with_real fd_eval_value_type_real r"

definition double_1 :: u64 where "double_1 = 0x3ff0000000000000"

definition int64_result :: "int \<Rightarrow> int option" where
  "int64_result i = (if - (2 ^ 63) \<le> i \<and> i < 2 ^ 63 then Some i else None)"

definition fd_eval_unary_plus_evaluate :: "fd_eval_value_t \<Rightarrow> fd_eval_value_t option" where
  "fd_eval_unary_plus_evaluate v = Some v"

definition fd_eval_unary_minus_evaluate :: "fd_eval_value_t \<Rightarrow> fd_eval_value_t option" where
  "fd_eval_unary_minus_evaluate v = (case ev_type v of
       fd_eval_value_type_boolean \<Rightarrow> Some (with_boolean fd_eval_value_type_boolean (\<not> ev_boolean v))
     | fd_eval_value_type_integer \<Rightarrow>
         do { integer \<leftarrow> int64_result (- ev_integer v); Some (with_integer fd_eval_value_type_integer integer) }
     | fd_eval_value_type_real \<Rightarrow> Some (with_real fd_eval_value_type_real (double_neg (ev_real v))))"

definition fd_eval_unary_not_evaluate :: "fd_eval_value_t \<Rightarrow> fd_eval_value_t option" where
  "fd_eval_unary_not_evaluate v = Some (case ev_type v of
       fd_eval_value_type_boolean \<Rightarrow> with_boolean fd_eval_value_type_boolean (\<not> ev_boolean v)
     | fd_eval_value_type_integer \<Rightarrow> with_integer fd_eval_value_type_boolean (if ev_integer v = 0 then 1 else 0)
     | fd_eval_value_type_real \<Rightarrow> with_real fd_eval_value_type_boolean (double_of_int (if double_eq (ev_real v) 0 then 1 else 0)))"

definition fd_eval_as_real :: "fd_eval_value_t \<Rightarrow> fd_eval_value_t" where
  "fd_eval_as_real v = (case ev_type v of
       fd_eval_value_type_boolean \<Rightarrow> with_real fd_eval_value_type_real (if ev_boolean v then double_1 else 0)
     | fd_eval_value_type_integer \<Rightarrow> with_real fd_eval_value_type_real (double_of_int (ev_integer v))
     | fd_eval_value_type_real \<Rightarrow> v)"

definition fd_eval_as_integer :: "fd_eval_value_t \<Rightarrow> fd_eval_value_t" where
  "fd_eval_as_integer v = (case ev_type v of
       fd_eval_value_type_boolean \<Rightarrow> with_integer fd_eval_value_type_integer (if ev_boolean v then 1 else 0)
     | fd_eval_value_type_integer \<Rightarrow> v
     | fd_eval_value_type_real \<Rightarrow> with_real fd_eval_value_type_integer (double_round_integer (ev_real v)))"

definition fd_eval_as_boolean :: "fd_eval_value_t \<Rightarrow> fd_eval_value_t" where
  "fd_eval_as_boolean v = (case ev_type v of
       fd_eval_value_type_boolean \<Rightarrow> v
     | fd_eval_value_type_integer \<Rightarrow> with_boolean fd_eval_value_type_boolean (ev_integer v \<noteq> 0)
     | fd_eval_value_type_real \<Rightarrow> with_boolean fd_eval_value_type_boolean (\<not> double_eq (double_of_int (ev_integer v)) 0))"

section \<open>Binary operations\<close>

record fd_eval_binary_operation_t =
  bo_real :: "u64 \<Rightarrow> u64 \<Rightarrow> u64"
  bo_integer :: "int \<Rightarrow> int \<Rightarrow> int option"
  bo_boolean :: "bool \<Rightarrow> bool \<Rightarrow> bool"

definition fd_eval_binary_evaluate ::
  "fd_eval_value_t \<Rightarrow> fd_eval_value_t \<Rightarrow> fd_eval_binary_operation_t \<Rightarrow> fd_eval_value_t option" where
  "fd_eval_binary_evaluate a b operation =
     (if ev_type a = fd_eval_value_type_real \<or> ev_type b = fd_eval_value_type_real then
        Some (with_real fd_eval_value_type_real
          (bo_real operation (ev_real (fd_eval_as_real a)) (ev_real (fd_eval_as_real b))))
      else if ev_type a = fd_eval_value_type_integer \<or> ev_type b = fd_eval_value_type_integer then
        do { integer \<leftarrow> bo_integer operation (ev_integer (fd_eval_as_integer a)) (ev_integer (fd_eval_as_integer b));
             Some (with_integer fd_eval_value_type_integer integer) }
      else Some (with_boolean fd_eval_value_type_boolean (bo_boolean operation (ev_boolean a) (ev_boolean b))))"

definition fd_eval_binary_multiply_evaluate :: "fd_eval_value_t \<Rightarrow> fd_eval_value_t \<Rightarrow> fd_eval_value_t option" where
  "fd_eval_binary_multiply_evaluate a b = fd_eval_binary_evaluate a b \<lparr>bo_real = double_mul,
     bo_integer = (\<lambda>a b. int64_result (a * b)), bo_boolean = (\<and>)\<rparr>"

definition fd_eval_binary_divide_evaluate :: "fd_eval_value_t \<Rightarrow> fd_eval_value_t \<Rightarrow> fd_eval_value_t option" where
  "fd_eval_binary_divide_evaluate a b = fd_eval_binary_evaluate a b \<lparr>
     bo_real = (\<lambda>a b. if \<not> double_eq b 0 then double_div a b else 0),
     bo_integer = (\<lambda>a b. if b \<noteq> 0 then int64_result (a sdiv b) else Some 0), bo_boolean = (\<or>)\<rparr>"

definition fd_eval_binary_add_evaluate :: "fd_eval_value_t \<Rightarrow> fd_eval_value_t \<Rightarrow> fd_eval_value_t option" where
  "fd_eval_binary_add_evaluate a b = fd_eval_binary_evaluate a b \<lparr>bo_real = double_add,
     bo_integer = (\<lambda>a b. int64_result (a + b)), bo_boolean = (\<or>)\<rparr>"

definition fd_eval_binary_subtract_evaluate :: "fd_eval_value_t \<Rightarrow> fd_eval_value_t \<Rightarrow> fd_eval_value_t option" where
  "fd_eval_binary_subtract_evaluate a b = fd_eval_binary_evaluate a b \<lparr>bo_real = double_sub,
     bo_integer = (\<lambda>a b. int64_result (a - b)), bo_boolean = (\<and>)\<rparr>"

record fd_eval_binary_boolean_operation_t =
  bb_real :: "u64 \<Rightarrow> u64 \<Rightarrow> bool"
  bb_integer :: "int \<Rightarrow> int \<Rightarrow> bool"
  bb_boolean :: "bool \<Rightarrow> bool \<Rightarrow> bool"

definition fd_eval_binary_boolean_evaluate ::
  "fd_eval_value_t \<Rightarrow> fd_eval_value_t \<Rightarrow> fd_eval_binary_boolean_operation_t \<Rightarrow> fd_eval_value_t option" where
  "fd_eval_binary_boolean_evaluate a b operation = Some (with_boolean fd_eval_value_type_boolean
     (if ev_type a = fd_eval_value_type_real \<or> ev_type b = fd_eval_value_type_real then
        bb_real operation (ev_real (fd_eval_as_real a)) (ev_real (fd_eval_as_real b))
      else if ev_type a = fd_eval_value_type_integer \<or> ev_type b = fd_eval_value_type_integer then
        bb_integer operation (ev_integer (fd_eval_as_integer a)) (ev_integer (fd_eval_as_integer b))
      else bb_boolean operation (ev_boolean a) (ev_boolean b)))"

definition fd_eval_binary_less_than_or_equal_to_evaluate :: "fd_eval_value_t \<Rightarrow> fd_eval_value_t \<Rightarrow> fd_eval_value_t option" where
  "fd_eval_binary_less_than_or_equal_to_evaluate a b = fd_eval_binary_boolean_evaluate a b
     \<lparr>bb_real = double_le, bb_integer = (\<le>), bb_boolean = (\<lambda>a b. \<not> a \<or> b)\<rparr>"

definition fd_eval_binary_less_than_evaluate :: "fd_eval_value_t \<Rightarrow> fd_eval_value_t \<Rightarrow> fd_eval_value_t option" where
  "fd_eval_binary_less_than_evaluate a b = fd_eval_binary_boolean_evaluate a b
     \<lparr>bb_real = double_lt, bb_integer = (<), bb_boolean = (\<lambda>a b. \<not> a \<and> b)\<rparr>"

definition fd_eval_binary_greater_than_or_equal_to_evaluate :: "fd_eval_value_t \<Rightarrow> fd_eval_value_t \<Rightarrow> fd_eval_value_t option" where
  "fd_eval_binary_greater_than_or_equal_to_evaluate a b = fd_eval_binary_boolean_evaluate a b
     \<lparr>bb_real = (\<lambda>a b. double_le b a), bb_integer = (\<lambda>a b. a \<ge> b), bb_boolean = (\<lambda>a b. a \<or> \<not> b)\<rparr>"

definition fd_eval_binary_greater_than_evaluate :: "fd_eval_value_t \<Rightarrow> fd_eval_value_t \<Rightarrow> fd_eval_value_t option" where
  "fd_eval_binary_greater_than_evaluate a b = fd_eval_binary_boolean_evaluate a b
     \<lparr>bb_real = (\<lambda>a b. double_lt b a), bb_integer = (\<lambda>a b. a > b), bb_boolean = (\<lambda>a b. a \<and> \<not> b)\<rparr>"

definition fd_eval_binary_equal_to_evaluate :: "fd_eval_value_t \<Rightarrow> fd_eval_value_t \<Rightarrow> fd_eval_value_t option" where
  "fd_eval_binary_equal_to_evaluate a b = fd_eval_binary_boolean_evaluate a b
     \<lparr>bb_real = double_eq, bb_integer = (=), bb_boolean = (=)\<rparr>"

definition fd_eval_binary_not_equal_to_evaluate :: "fd_eval_value_t \<Rightarrow> fd_eval_value_t \<Rightarrow> fd_eval_value_t option" where
  "fd_eval_binary_not_equal_to_evaluate a b = fd_eval_binary_boolean_evaluate a b
     \<lparr>bb_real = (\<lambda>a b. \<not> double_eq a b), bb_integer = (\<noteq>), bb_boolean = (\<noteq>)\<rparr>"

definition fd_eval_binary_boolean_demote_evaluate ::
  "fd_eval_value_t \<Rightarrow> fd_eval_value_t \<Rightarrow> (bool \<Rightarrow> bool \<Rightarrow> bool) \<Rightarrow> fd_eval_value_t option" where
  "fd_eval_binary_boolean_demote_evaluate a b boolean =
     (let a = (if ev_type a \<noteq> fd_eval_value_type_boolean then fd_eval_as_boolean a else a);
          b = (if ev_type b \<noteq> fd_eval_value_type_boolean then fd_eval_as_boolean b else b)
      in Some (with_boolean fd_eval_value_type_boolean (boolean (ev_boolean a) (ev_boolean b))))"

definition fd_eval_binary_and_evaluate :: "fd_eval_value_t \<Rightarrow> fd_eval_value_t \<Rightarrow> fd_eval_value_t option" where
  "fd_eval_binary_and_evaluate a b = fd_eval_binary_boolean_demote_evaluate a b (\<and>)"

definition fd_eval_binary_or_evaluate :: "fd_eval_value_t \<Rightarrow> fd_eval_value_t \<Rightarrow> fd_eval_value_t option" where
  "fd_eval_binary_or_evaluate a b = fd_eval_binary_boolean_demote_evaluate a b (\<or>)"

section \<open>Operators\<close>

text \<open>The operators name their functions; \<open>unary_evaluate\<close> and \<open>binary_evaluate\<close> call them.\<close>

datatype unary_function = unary_plus | unary_minus | unary_not

datatype binary_function = binary_multiply | binary_divide | binary_add | binary_subtract
  | binary_less_than_or_equal_to | binary_less_than | binary_greater_than_or_equal_to | binary_greater_than
  | binary_equal_to | binary_not_equal_to | binary_and | binary_or

fun unary_evaluate :: "unary_function \<Rightarrow> fd_eval_value_t \<Rightarrow> fd_eval_value_t option" where
  "unary_evaluate unary_plus = fd_eval_unary_plus_evaluate"
| "unary_evaluate unary_minus = fd_eval_unary_minus_evaluate"
| "unary_evaluate unary_not = fd_eval_unary_not_evaluate"

fun binary_evaluate :: "binary_function \<Rightarrow> fd_eval_value_t \<Rightarrow> fd_eval_value_t \<Rightarrow> fd_eval_value_t option" where
  "binary_evaluate binary_multiply = fd_eval_binary_multiply_evaluate"
| "binary_evaluate binary_divide = fd_eval_binary_divide_evaluate"
| "binary_evaluate binary_add = fd_eval_binary_add_evaluate"
| "binary_evaluate binary_subtract = fd_eval_binary_subtract_evaluate"
| "binary_evaluate binary_less_than_or_equal_to = fd_eval_binary_less_than_or_equal_to_evaluate"
| "binary_evaluate binary_less_than = fd_eval_binary_less_than_evaluate"
| "binary_evaluate binary_greater_than_or_equal_to = fd_eval_binary_greater_than_or_equal_to_evaluate"
| "binary_evaluate binary_greater_than = fd_eval_binary_greater_than_evaluate"
| "binary_evaluate binary_equal_to = fd_eval_binary_equal_to_evaluate"
| "binary_evaluate binary_not_equal_to = fd_eval_binary_not_equal_to_evaluate"
| "binary_evaluate binary_and = fd_eval_binary_and_evaluate"
| "binary_evaluate binary_or = fd_eval_binary_or_evaluate"

record fd_eval_unary_operator_t =
  uo_string :: string
  uo_precedence :: nat
  uo_evaluate :: unary_function

definition fd_eval_unary_operators :: "fd_eval_unary_operator_t list" where
  "fd_eval_unary_operators =
    [\<lparr>uo_string = ''+'', uo_precedence = 7, uo_evaluate = unary_plus\<rparr>,
     \<lparr>uo_string = ''-'', uo_precedence = 7, uo_evaluate = unary_minus\<rparr>,
     \<lparr>uo_string = ''!'', uo_precedence = 7, uo_evaluate = unary_not\<rparr>]"

datatype fd_eval_associativity_t = fd_eval_associativity_left | fd_eval_associativity_right

record fd_eval_binary_operator_t =
  bi_string :: string
  bi_precedence :: nat
  bi_associativity :: fd_eval_associativity_t
  bi_evaluate :: binary_function

definition fd_eval_binary_operators :: "fd_eval_binary_operator_t list" where
  "fd_eval_binary_operators =
    [\<lparr>bi_string = ''*'', bi_precedence = 6, bi_associativity = fd_eval_associativity_left, bi_evaluate = binary_multiply\<rparr>,
     \<lparr>bi_string = ''/'', bi_precedence = 6, bi_associativity = fd_eval_associativity_left, bi_evaluate = binary_divide\<rparr>,
     \<lparr>bi_string = ''+'', bi_precedence = 5, bi_associativity = fd_eval_associativity_left, bi_evaluate = binary_add\<rparr>,
     \<lparr>bi_string = ''-'', bi_precedence = 5, bi_associativity = fd_eval_associativity_left, bi_evaluate = binary_subtract\<rparr>,
     \<lparr>bi_string = ''<='', bi_precedence = 4, bi_associativity = fd_eval_associativity_left, bi_evaluate = binary_less_than_or_equal_to\<rparr>,
     \<lparr>bi_string = ''<'', bi_precedence = 4, bi_associativity = fd_eval_associativity_left, bi_evaluate = binary_less_than\<rparr>,
     \<lparr>bi_string = ''>='', bi_precedence = 4, bi_associativity = fd_eval_associativity_left, bi_evaluate = binary_greater_than_or_equal_to\<rparr>,
     \<lparr>bi_string = ''>'', bi_precedence = 4, bi_associativity = fd_eval_associativity_left, bi_evaluate = binary_greater_than\<rparr>,
     \<lparr>bi_string = ''=='', bi_precedence = 3, bi_associativity = fd_eval_associativity_left, bi_evaluate = binary_equal_to\<rparr>,
     \<lparr>bi_string = ''!='', bi_precedence = 3, bi_associativity = fd_eval_associativity_left, bi_evaluate = binary_not_equal_to\<rparr>,
     \<lparr>bi_string = ''&&'', bi_precedence = 2, bi_associativity = fd_eval_associativity_left, bi_evaluate = binary_and\<rparr>,
     \<lparr>bi_string = ''||'', bi_precedence = 1, bi_associativity = fd_eval_associativity_left, bi_evaluate = binary_or\<rparr>]"

section \<open>The parser's state\<close>

record fd_eval_string_t =
  es_string :: "nat option"
  es_chars :: string

datatype node_reference = error_node | heap_node nat

datatype fd_eval_node_t =
  fd_eval_node_type_leaf fd_eval_string_t
| fd_eval_node_type_unary fd_eval_unary_operator_t node_reference
| fd_eval_node_type_binary fd_eval_binary_operator_t node_reference node_reference

record fd_eval_node_heap_t =
  heap_nodes :: "fd_eval_node_t list"
  heap_index :: nat

record fd_eval_t =
  eval_get_symbol_value :: "fd_eval_string_t \<Rightarrow> fd_eval_value_t option"
  eval_text :: string
  eval_length :: nat
  eval_input_index :: nat
  eval_heap :: fd_eval_node_heap_t
  eval_error_node :: fd_eval_node_t
  eval_error_value :: fd_eval_value_t
  eval_error :: bool
  eval_tree :: node_reference
  eval_log :: assert_log

definition node_at :: "fd_eval_t \<Rightarrow> node_reference \<Rightarrow> fd_eval_node_t option" where
  "node_at eval r = (case r of error_node \<Rightarrow> Some (eval_error_node eval)
     | heap_node i \<Rightarrow> rd (heap_nodes (eval_heap eval)) i)"

definition set_node :: "node_reference \<Rightarrow> fd_eval_node_t \<Rightarrow> fd_eval_t \<Rightarrow> fd_eval_t" where
  "set_node r node eval = (case r of error_node \<Rightarrow> eval\<lparr>eval_error_node := node\<rparr>
     | heap_node i \<Rightarrow> eval\<lparr>eval_heap := (eval_heap eval)\<lparr>heap_nodes := (heap_nodes (eval_heap eval))[i := node]\<rparr>\<rparr>)"

definition fd_eval_allocate_node :: "fd_eval_t \<Rightarrow> node_reference \<times> fd_eval_t" where
  "fd_eval_allocate_node eval =
     (let heap = eval_heap eval in
      if heap_index heap \<ge> length (heap_nodes heap) then
        (error_node, if length (heap_nodes heap) > 0 then eval\<lparr>eval_error := True\<rparr> else eval)
      else (heap_node (heap_index heap), eval\<lparr>eval_heap := heap\<lparr>heap_index := heap_index heap + 1\<rparr>\<rparr>))"

definition fd_eval_allocate_leaf :: "fd_eval_string_t \<Rightarrow> fd_eval_t \<Rightarrow> node_reference \<times> fd_eval_t" where
  "fd_eval_allocate_leaf token eval =
     (let (leaf, eval) = fd_eval_allocate_node eval in (leaf, set_node leaf (fd_eval_node_type_leaf token) eval))"

definition fd_eval_allocate_unary ::
  "fd_eval_unary_operator_t \<Rightarrow> node_reference \<Rightarrow> fd_eval_t \<Rightarrow> node_reference \<times> fd_eval_t" where
  "fd_eval_allocate_unary operator node eval =
     (let (unary, eval) = fd_eval_allocate_node eval in (unary, set_node unary (fd_eval_node_type_unary operator node) eval))"

definition fd_eval_allocate_binary ::
  "fd_eval_binary_operator_t \<Rightarrow> node_reference \<Rightarrow> node_reference \<Rightarrow> fd_eval_t \<Rightarrow> node_reference \<times> fd_eval_t" where
  "fd_eval_allocate_binary operator left right eval =
     (let (binary, eval) = fd_eval_allocate_node eval
      in (binary, set_node binary (fd_eval_node_type_binary operator left right) eval))"

section \<open>Tokens\<close>

definition fd_eval_is_white_space :: "char \<Rightarrow> bool" where
  "fd_eval_is_white_space c \<longleftrightarrow> c = CHR '' ''"

definition fd_eval_is_alphabetic :: "char \<Rightarrow> bool" where
  "fd_eval_is_alphabetic c \<longleftrightarrow> (of_char CHR ''a'' :: nat) \<le> of_char c \<and> (of_char c :: nat) \<le> of_char CHR ''z''"

definition fd_eval_is_digit :: "char \<Rightarrow> bool" where
  "fd_eval_is_digit c \<longleftrightarrow> (of_char CHR ''0'' :: nat) \<le> of_char c \<and> (of_char c :: nat) \<le> of_char CHR ''9''"

definition fd_eval_is_identifier :: "char \<Rightarrow> bool" where
  "fd_eval_is_identifier c \<longleftrightarrow> fd_eval_is_alphabetic c \<or> fd_eval_is_digit c \<or> c = CHR ''_''"

definition fd_eval_is_value :: "fd_eval_string_t \<Rightarrow> bool" where
  "fd_eval_is_value token = (case es_chars token of [] \<Rightarrow> False
     | c # _ \<Rightarrow> fd_eval_is_alphabetic c \<or> fd_eval_is_digit c)"

text \<open>The loops of the tokenizer: on from an index while the characters of the input satisfy a test.\<close>

function skip_while :: "(char \<Rightarrow> bool) \<Rightarrow> fd_eval_t \<Rightarrow> nat \<Rightarrow> nat" where
  "skip_while test eval index =
     (if index < eval_length eval \<and> test (eval_text eval ! index) then skip_while test eval (index + 1) else index)"
  by pat_completeness auto
termination by (relation "measure (\<lambda>(test, eval, index). eval_length eval - index)") auto

definition token_at :: "fd_eval_t \<Rightarrow> nat \<Rightarrow> nat \<Rightarrow> fd_eval_string_t" where
  "token_at eval start n = \<lparr>es_string = Some start, es_chars = take n (drop start (eval_text eval))\<rparr>"

definition starts_with :: "fd_eval_t \<Rightarrow> nat \<Rightarrow> string \<Rightarrow> bool" where
  "starts_with eval start string \<longleftrightarrow> start + length string \<le> eval_length eval \<and>
     take (length string) (drop start (eval_text eval)) = string"

definition fd_eval_next :: "fd_eval_t \<Rightarrow> fd_eval_string_t" where
  "fd_eval_next eval =
     (let start = skip_while fd_eval_is_white_space eval (eval_input_index eval) in
      if start \<ge> eval_length eval then \<lparr>es_string = None, es_chars = []\<rparr>
      else (case find (\<lambda>operator. starts_with eval start (bi_string operator)) fd_eval_binary_operators of
        Some operator \<Rightarrow> token_at eval start (length (bi_string operator))
      | None \<Rightarrow>
      (case find (\<lambda>operator. starts_with eval start (uo_string operator)) fd_eval_unary_operators of
        Some operator \<Rightarrow> token_at eval start (length (uo_string operator))
      | None \<Rightarrow>
      let c = eval_text eval ! start in
      if fd_eval_is_digit c then
        let index = skip_while fd_eval_is_digit eval (start + 1);
            index = (if index < eval_length eval \<and> eval_text eval ! index = CHR ''.''
                     then skip_while fd_eval_is_digit eval (index + 1) else index)
        in token_at eval start (index - start)
      else if fd_eval_is_alphabetic c then
        let index = skip_while fd_eval_is_identifier eval (start + 1) in token_at eval start (index - start)
      else if c = CHR ''('' \<or> c = CHR '')'' then token_at eval start 1
      else token_at eval start 0)))"

text \<open>At the end of the input the difference to the null pointer is of no use; the parser stops there.\<close>

definition fd_eval_consume :: "fd_eval_t \<Rightarrow> fd_eval_t" where
  "fd_eval_consume eval =
     (let token = fd_eval_next eval in
      case es_string token of None \<Rightarrow> eval
      | Some start \<Rightarrow> eval\<lparr>eval_input_index := start + length (es_chars token)\<rparr>)"

definition fd_eval_string_equals_string :: "fd_eval_string_t \<Rightarrow> fd_eval_string_t \<Rightarrow> bool" where
  "fd_eval_string_equals_string a b \<longleftrightarrow>
     length (es_chars a) = length (es_chars b) \<and> es_chars a = es_chars b"

definition fd_eval_string_initialize :: "string \<Rightarrow> fd_eval_string_t" where
  "fd_eval_string_initialize string = \<lparr>es_string = Some 0, es_chars = string\<rparr>"

definition fd_eval_string_equals :: "fd_eval_string_t \<Rightarrow> string \<Rightarrow> bool" where
  "fd_eval_string_equals a b = fd_eval_string_equals_string a \<lparr>es_string = None, es_chars = b\<rparr>"

definition fd_eval_expect :: "fd_eval_string_t \<Rightarrow> fd_eval_t \<Rightarrow> fd_eval_t" where
  "fd_eval_expect string eval =
     (let token = fd_eval_next eval in
      if fd_eval_string_equals_string token string then fd_eval_consume eval
      else eval\<lparr>eval_error := True\<rparr>)"

definition fd_eval_is_unary :: "fd_eval_string_t \<Rightarrow> fd_eval_unary_operator_t option" where
  "fd_eval_is_unary string = find (\<lambda>operator. uo_string operator = es_chars string) fd_eval_unary_operators"

definition fd_eval_is_binary :: "fd_eval_string_t \<Rightarrow> fd_eval_binary_operator_t option" where
  "fd_eval_is_binary string = find (\<lambda>operator. bi_string operator = es_chars string) fd_eval_binary_operators"

section \<open>The parser\<close>

fun fd_eval_highest_priority :: "nat \<Rightarrow> fd_eval_t \<Rightarrow> (node_reference \<times> fd_eval_t) option"
  and fd_eval_expression :: "nat \<Rightarrow> nat \<Rightarrow> fd_eval_t \<Rightarrow> (node_reference \<times> fd_eval_t) option"
  and expression_loop :: "nat \<Rightarrow> nat \<Rightarrow> node_reference \<Rightarrow> fd_eval_t \<Rightarrow> (node_reference \<times> fd_eval_t) option" where
  "fd_eval_highest_priority 0 eval = None"
| "fd_eval_highest_priority (Suc fuel) eval =
     (let next = fd_eval_next eval in
      case fd_eval_is_unary next of
        Some unary \<Rightarrow>
          do { let eval = fd_eval_consume eval;
               (node, eval) \<leftarrow> fd_eval_expression fuel (uo_precedence unary) eval;
               Some (fd_eval_allocate_unary unary node eval) }
      | None \<Rightarrow>
      if fd_eval_string_equals_string next \<lparr>es_string = None, es_chars = ''(''\<rparr> then
        do { let eval = fd_eval_consume eval;
             (node, eval) \<leftarrow> fd_eval_expression fuel 0 eval;
             Some (node, fd_eval_expect \<lparr>es_string = None, es_chars = '')''\<rparr> eval) }
      else if fd_eval_is_value next then Some (fd_eval_allocate_leaf next (fd_eval_consume eval))
      else Some (error_node, eval\<lparr>eval_error := True\<rparr>))"
| "fd_eval_expression 0 precedence eval = None"
| "fd_eval_expression (Suc fuel) precedence eval =
     do { (node, eval) \<leftarrow> fd_eval_highest_priority fuel eval;
          expression_loop fuel precedence node eval }"
| "expression_loop 0 precedence node eval = None"
| "expression_loop (Suc fuel) precedence node eval =
     (let next = fd_eval_next eval in
      case fd_eval_is_binary next of
        None \<Rightarrow> Some (node, eval)
      | Some binary \<Rightarrow>
          if bi_precedence binary < precedence then Some (node, eval)
          else do {
            let eval = fd_eval_consume eval;
            let next_precedence = (if bi_associativity binary = fd_eval_associativity_right
                                   then bi_precedence binary else 1 + bi_precedence binary);
            (right, eval) \<leftarrow> fd_eval_expression fuel next_precedence eval;
            let (node, eval) = fd_eval_allocate_binary binary node right eval;
            expression_loop fuel precedence node eval })"

definition parser_fuel :: "fd_eval_t \<Rightarrow> nat" where
  "parser_fuel eval = 2 * eval_length eval + 2"

definition fd_eval_get_symbol_value_default :: "fd_eval_string_t \<Rightarrow> fd_eval_value_t option" where
  "fd_eval_get_symbol_value_default token = None"

text \<open>A null pointer for the function is \<open>None\<close>; the expression is the first \<open>n\<close> characters of the text.\<close>

definition fd_eval_parse ::
  "string \<Rightarrow> nat \<Rightarrow> fd_eval_node_t list \<Rightarrow> (fd_eval_string_t \<Rightarrow> fd_eval_value_t option) option \<Rightarrow> fd_eval_t \<Rightarrow> fd_eval_t option" where
  "fd_eval_parse text n heap get_symbol_value eval =
     do { let eval = eval\<lparr>eval_text := text, eval_length := n,
            eval_heap := (eval_heap eval)\<lparr>heap_nodes := heap\<rparr>,
            eval_get_symbol_value := (case get_symbol_value of Some f \<Rightarrow> f | None \<Rightarrow> fd_eval_get_symbol_value_default)\<rparr>;
          (tree, eval) \<leftarrow> fd_eval_expression (parser_fuel eval) 0 eval;
          Some (fd_eval_expect \<lparr>es_string = None, es_chars = []\<rparr> (eval\<lparr>eval_tree := tree\<rparr>)) }"

definition eval_zero :: fd_eval_t where
  "eval_zero = \<lparr>eval_get_symbol_value = (\<lambda>_. None), eval_text = [], eval_length = 0, eval_input_index = 0,
     eval_heap = \<lparr>heap_nodes = [], heap_index = 0\<rparr>, eval_error_node = fd_eval_node_type_leaf \<lparr>es_string = None, es_chars = []\<rparr>,
     eval_error_value = with_boolean fd_eval_value_type_boolean False, eval_error = False, eval_tree = error_node, eval_log = []\<rparr>"

definition fd_eval_check :: "string \<Rightarrow> nat \<Rightarrow> bool option" where
  "fd_eval_check text n = do { eval \<leftarrow> fd_eval_parse text n [] None eval_zero; Some (\<not> eval_error eval) }"

section \<open>Evaluation\<close>

definition digit_value :: "char \<Rightarrow> nat" where
  "digit_value c = of_char c - of_char CHR ''0''"

definition digits_value :: "string \<Rightarrow> nat" where
  "digits_value ds = foldl (\<lambda>n c. 10 * n + digit_value c) 0 ds"

text \<open>\<open>strtoll\<close> in base 10 from a digit: the value, at most the largest, and the number of characters read.\<close>

definition strtoll_10 :: "string \<Rightarrow> int \<times> nat" where
  "strtoll_10 text = (let ds = takeWhile fd_eval_is_digit text in (min (int (digits_value ds)) (2 ^ 63 - 1), length ds))"

text \<open>\<open>strtod\<close> from a digit: digits, a fraction, and an exponent when digits follow its letter and sign.\<close>

definition strtod_exponent :: "string \<Rightarrow> int \<times> nat" where
  "strtod_exponent text = (case text of
       [] \<Rightarrow> (0, 0)
     | c # following \<Rightarrow>
         if c = CHR ''e'' \<or> c = CHR ''E'' then
           let signed = (following \<noteq> [] \<and> (hd following = CHR ''+'' \<or> hd following = CHR ''-''));
               ds = takeWhile fd_eval_is_digit (if signed then tl following else following)
           in if ds = [] then (0, 0)
              else ((if signed \<and> hd following = CHR ''-'' then - int (digits_value ds) else int (digits_value ds)),
                    1 + (if signed then 1 else 0) + length ds)
         else (0, 0))"

definition strtod_decimal :: "string \<Rightarrow> u64 \<times> nat" where
  "strtod_decimal text =
     (let whole = takeWhile fd_eval_is_digit text;
          rest = drop (length whole) text;
          point = (rest \<noteq> [] \<and> hd rest = CHR ''.'');
          fraction = (if point then takeWhile fd_eval_is_digit (tl rest) else []);
          mantissa_length = length whole + (if point then 1 + length fraction else 0);
          (e, n) = strtod_exponent (drop mantissa_length text)
      in (double_of_decimal (int (digits_value (whole @ fraction))) (e - int (length fraction)), mantissa_length + n))"

definition eval_assert :: "bool \<Rightarrow> string \<Rightarrow> fd_eval_t \<Rightarrow> fd_eval_t" where
  "eval_assert c message eval = eval\<lparr>eval_log := fd_assert c message (eval_log eval)\<rparr>"

definition token_text :: "fd_eval_string_t \<Rightarrow> fd_eval_t \<Rightarrow> string" where
  "token_text token eval = (case es_string token of None \<Rightarrow> [] | Some start \<Rightarrow> drop start (eval_text eval))"

definition fd_eval_parse_integer :: "fd_eval_string_t \<Rightarrow> fd_eval_t \<Rightarrow> fd_eval_value_t \<times> fd_eval_t" where
  "fd_eval_parse_integer token eval =
     (let (integer, n) = strtoll_10 (token_text token eval) in
      (with_integer fd_eval_value_type_integer integer,
       eval_assert (n = length (es_chars token)) ''end == (token.string + token.length)'' eval))"

definition fd_eval_parse_real :: "fd_eval_string_t \<Rightarrow> fd_eval_t \<Rightarrow> fd_eval_value_t \<times> fd_eval_t" where
  "fd_eval_parse_real token eval =
     (let (r, n) = strtod_decimal (token_text token eval) in
      (with_real fd_eval_value_type_real r,
       eval_assert (n = length (es_chars token)) ''end == (token.string + token.length)'' eval))"

definition fd_eval_get_symbol_value :: "fd_eval_string_t \<Rightarrow> fd_eval_t \<Rightarrow> fd_eval_value_t \<times> fd_eval_t" where
  "fd_eval_get_symbol_value token eval =
     (case eval_get_symbol_value eval token of
        Some v \<Rightarrow> (v, eval)
      | None \<Rightarrow> (eval_error_value eval, eval\<lparr>eval_error := True\<rparr>))"

definition fd_eval_evaluate_leaf :: "fd_eval_string_t \<Rightarrow> fd_eval_t \<Rightarrow> fd_eval_value_t \<times> fd_eval_t" where
  "fd_eval_evaluate_leaf token eval =
     (if es_chars token = [] then (eval_error_value eval, eval)
      else if fd_eval_string_equals_string token \<lparr>es_string = None, es_chars = ''true''\<rparr> then
        (with_boolean fd_eval_value_type_boolean True, eval)
      else if fd_eval_string_equals_string token \<lparr>es_string = None, es_chars = ''false''\<rparr> then
        (with_boolean fd_eval_value_type_boolean True, eval)
      else if fd_eval_is_digit (hd (es_chars token)) then
        if CHR ''.'' \<notin> set (es_chars token) then fd_eval_parse_integer token eval
        else fd_eval_parse_real token eval
      else fd_eval_get_symbol_value token eval)"

text \<open>The value is \<open>None\<close> inside when an operation on the way was undefined.\<close>

partial_function (option) fd_eval_evaluate :: "node_reference \<Rightarrow> fd_eval_t \<Rightarrow> (fd_eval_value_t option \<times> fd_eval_t) option" where
  "fd_eval_evaluate r eval =
     do { node \<leftarrow> node_at eval r;
          case node of
            fd_eval_node_type_leaf token \<Rightarrow>
              (let (v, eval) = fd_eval_evaluate_leaf token eval in Some (Some v, eval))
          | fd_eval_node_type_unary operator node \<Rightarrow>
              do { (v, eval) \<leftarrow> fd_eval_evaluate node eval;
                   Some (do { v \<leftarrow> v; unary_evaluate (uo_evaluate operator) v }, eval) }
          | fd_eval_node_type_binary operator left right \<Rightarrow>
              do { (a, eval) \<leftarrow> fd_eval_evaluate left eval;
                   (b, eval) \<leftarrow> fd_eval_evaluate right eval;
                   Some (do { a \<leftarrow> a; b \<leftarrow> b; binary_evaluate (bi_evaluate operator) a b }, eval) } }"

record fd_eval_result_t =
  result_success :: bool
  result_value :: "fd_eval_value_t option"

definition fd_eval_calculate ::
  "string \<Rightarrow> nat \<Rightarrow> fd_eval_node_t list \<Rightarrow> (fd_eval_string_t \<Rightarrow> fd_eval_value_t option) option \<Rightarrow> (fd_eval_result_t \<times> assert_log) option" where
  "fd_eval_calculate text n heap get_symbol_value =
     do { eval \<leftarrow> fd_eval_parse text n heap get_symbol_value eval_zero;
          (v, eval) \<leftarrow> fd_eval_evaluate (eval_tree eval) eval;
          Some (\<lparr>result_success = (\<not> eval_error eval), result_value = v\<rparr>, eval_log eval) }"

end
