(* ===== verification/FD_EvalParse.thy ===== *)
theory FD_EvalParse imports FD_Eval begin

text \<open>
  The parser of \<open>fd_eval.c\<close>: it ends on every text; printed expressions, a space after each token, are cut into
  the tokens they were printed from; and how the nodes of an expression come to lie in the heap, or, when that is too
  small, in the one node for errors.
\<close>

section \<open>The tokenizer\<close>

declare skip_while.simps [simp del]

text \<open>What is the input to the parser; the rest of its state the tokenizer does not look at.\<close>

definition same_text :: "fd_eval_t \<Rightarrow> fd_eval_t \<Rightarrow> bool" where
  "same_text s' s \<longleftrightarrow> eval_text s' = eval_text s \<and> eval_length s' = eval_length s"

lemma same_text_refl [simp]: "same_text s s"
  by (simp add: same_text_def)

lemma same_text_trans: "same_text a b \<Longrightarrow> same_text b c \<Longrightarrow> same_text a c"
  by (simp add: same_text_def)

lemma skip_while_ge: "index \<le> skip_while test s index"
proof (induction test s index rule: skip_while.induct)
  case (1 test s index)
  then show ?case by (subst skip_while.simps) (auto)
qed

lemma next_start:
  "fd_eval_next s = \<lparr>es_string = None, es_chars = []\<rparr> \<or>
   (\<exists>start n. fd_eval_next s = token_at s start n \<and> eval_input_index s \<le> start \<and> start < eval_length s)"
  using skip_while_ge[of "eval_input_index s" fd_eval_is_white_space s]
  by (auto simp: fd_eval_next_def Let_def not_le split: option.splits)

definition text_left :: "fd_eval_t \<Rightarrow> nat" where
  "text_left s = eval_length s - eval_input_index s"

lemma consume_text: "same_text (fd_eval_consume s) s"
  by (auto simp: fd_eval_consume_def same_text_def Let_def split: option.splits)

lemma consume_progress:
  assumes "es_chars (fd_eval_next s) \<noteq> []"
  shows "text_left (fd_eval_consume s) < text_left s"
proof -
  obtain start n where t: "fd_eval_next s = token_at s start n" "eval_input_index s \<le> start" "start < eval_length s"
    using next_start[of s] assms by auto
  define m where "m = length (es_chars (token_at s start n))"
  have "0 < m" using assms t(1) by (simp add: m_def)
  moreover have "fd_eval_consume s = s\<lparr>eval_input_index := start + m\<rparr>"
    using t(1) by (simp add: fd_eval_consume_def m_def) (simp add: token_at_def)
  ultimately show ?thesis using t(2,3) by (simp add: text_left_def)
qed

lemma consume_left: "text_left (fd_eval_consume s) \<le> text_left s"
proof (cases "fd_eval_next s = \<lparr>es_string = None, es_chars = []\<rparr>")
  case True
  then show ?thesis by (simp add: fd_eval_consume_def)
next
  case False
  then obtain start n where "fd_eval_next s = token_at s start n" "eval_input_index s \<le> start" "start < eval_length s"
    using next_start[of s] by auto
  then show ?thesis by (simp add: fd_eval_consume_def text_left_def token_at_def)
qed

lemma is_unary_nonempty: "fd_eval_is_unary t = Some u \<Longrightarrow> es_chars t \<noteq> []"
  by (auto simp: fd_eval_is_unary_def fd_eval_unary_operators_def find_Some_iff split: if_splits)

lemma is_binary_nonempty: "fd_eval_is_binary t = Some u \<Longrightarrow> es_chars t \<noteq> []"
  by (auto simp: fd_eval_is_binary_def fd_eval_binary_operators_def split: if_splits)

lemma is_value_nonempty: "fd_eval_is_value t \<Longrightarrow> es_chars t \<noteq> []"
  by (auto simp: fd_eval_is_value_def)

text \<open>Nodes are written without touching the input.\<close>

lemma allocate_text:
  "same_text (snd (fd_eval_allocate_leaf token s)) s" "same_text (snd (fd_eval_allocate_unary u n s)) s"
  "same_text (snd (fd_eval_allocate_binary b l r s)) s"
  "text_left (snd (fd_eval_allocate_leaf token s)) = text_left s" "text_left (snd (fd_eval_allocate_unary u n s)) = text_left s"
  "text_left (snd (fd_eval_allocate_binary b l r s)) = text_left s"
  by (auto simp: fd_eval_allocate_leaf_def fd_eval_allocate_unary_def fd_eval_allocate_binary_def fd_eval_allocate_node_def
      set_node_def same_text_def text_left_def Let_def split: node_reference.splits)

lemma expect_text: "same_text (fd_eval_expect t s) s" "text_left (fd_eval_expect t s) \<le> text_left s"
  using consume_text[of s] consume_left[of s] by (auto simp: fd_eval_expect_def Let_def same_text_def text_left_def)

section \<open>The parser ends\<close>

lemma parser_total:
  shows "2 * text_left s + 1 \<le> fuel \<Longrightarrow>
      \<exists>n s'. fd_eval_highest_priority fuel s = Some (n, s') \<and> same_text s' s \<and> text_left s' \<le> text_left s"
    and "2 * text_left s + 2 \<le> fuel \<Longrightarrow>
      \<exists>n s'. fd_eval_expression fuel p s = Some (n, s') \<and> same_text s' s \<and> text_left s' \<le> text_left s"
    and "2 * text_left s + 1 \<le> fuel \<Longrightarrow>
      \<exists>n s'. expression_loop fuel p m s = Some (n, s') \<and> same_text s' s \<and> text_left s' \<le> text_left s"
proof (induction fuel arbitrary: s p m)
  case (Suc fuel)
  note IH = Suc
  { case 1
    show ?case
    proof (cases "fd_eval_is_unary (fd_eval_next s)")
      case (Some u)
      define s1 where "s1 = fd_eval_consume s"
      have less: "text_left s1 < text_left s" unfolding s1_def by (rule consume_progress[OF is_unary_nonempty[OF Some]])
      then obtain n s2 where s2: "fd_eval_expression fuel (uo_precedence u) s1 = Some (n, s2)" "same_text s2 s1" "text_left s2 \<le> text_left s1"
        using IH(2)[of s1 "uo_precedence u"] 1 by auto
      have r: "fd_eval_highest_priority (Suc fuel) s = Some (fd_eval_allocate_unary u n s2)"
        using Some s2(1) by (simp add: s1_def)
      show ?thesis
      proof (intro exI conjI)
        show "fd_eval_highest_priority (Suc fuel) s = Some (fst (fd_eval_allocate_unary u n s2), snd (fd_eval_allocate_unary u n s2))"
          using r by simp
        show "same_text (snd (fd_eval_allocate_unary u n s2)) s"
          using same_text_trans[OF allocate_text(2) same_text_trans[OF s2(2)]] consume_text[of s] by (simp add: s1_def)
        show "text_left (snd (fd_eval_allocate_unary u n s2)) \<le> text_left s" using less s2(3) by (simp add: allocate_text)
      qed
    next
      case unary: None
      show ?thesis
      proof (cases "fd_eval_string_equals_string (fd_eval_next s) \<lparr>es_string = None, es_chars = ''(''\<rparr>")
        case True
        define s1 where "s1 = fd_eval_consume s"
        have "es_chars (fd_eval_next s) \<noteq> []" using True by (auto simp: fd_eval_string_equals_string_def)
        then have less: "text_left s1 < text_left s" unfolding s1_def by (rule consume_progress)
        then obtain n s2 where s2: "fd_eval_expression fuel 0 s1 = Some (n, s2)" "same_text s2 s1" "text_left s2 \<le> text_left s1"
          using IH(2)[of s1 0] 1 by auto
        show ?thesis
          using unary True s2 less expect_text[of "\<lparr>es_string = None, es_chars = '')''\<rparr>" s2] consume_text[of s]
          by (auto simp: s1_def Let_def intro: same_text_trans)
      next
        case paren: False
        show ?thesis
        proof (cases "fd_eval_is_value (fd_eval_next s)")
          case True
          have "text_left (fd_eval_consume s) < text_left s" by (rule consume_progress[OF is_value_nonempty[OF True]])
          moreover have "same_text (snd (fd_eval_allocate_leaf (fd_eval_next s) (fd_eval_consume s))) s"
            by (rule same_text_trans[OF allocate_text(1) consume_text])
          moreover have "fd_eval_highest_priority (Suc fuel) s = Some (fd_eval_allocate_leaf (fd_eval_next s) (fd_eval_consume s))"
            using unary paren True by (simp add: Let_def)
          ultimately show ?thesis
            using allocate_text(4)[of "fd_eval_next s" "fd_eval_consume s"]
            by (intro exI[of _ "fst (fd_eval_allocate_leaf (fd_eval_next s) (fd_eval_consume s))"]
                exI[of _ "snd (fd_eval_allocate_leaf (fd_eval_next s) (fd_eval_consume s))"]) simp
        next
          case False
          then show ?thesis using unary paren by (simp add: Let_def same_text_def text_left_def)
        qed
      qed
    qed
  next
    case 2
    obtain n s1 where s1: "fd_eval_highest_priority fuel s = Some (n, s1)" "same_text s1 s" "text_left s1 \<le> text_left s"
      using IH(1)[of s] 2 by auto
    then obtain n' s2 where "expression_loop fuel p n s1 = Some (n', s2)" "same_text s2 s1" "text_left s2 \<le> text_left s1"
      using IH(3)[of s1 p n] 2 by auto
    then show ?case using s1 by (auto intro: same_text_trans)
  next
    case 3
    show ?case
    proof (cases "fd_eval_is_binary (fd_eval_next s)")
      case None
      then show ?thesis by simp
    next
      case (Some b)
      define s1 where "s1 = fd_eval_consume s"
      have less: "text_left s1 < text_left s" unfolding s1_def by (rule consume_progress[OF is_binary_nonempty[OF Some]])
      define q where "q = (if bi_associativity b = fd_eval_associativity_right then bi_precedence b else 1 + bi_precedence b)"
      obtain r s2 where s2: "fd_eval_expression fuel q s1 = Some (r, s2)" "same_text s2 s1" "text_left s2 \<le> text_left s1"
        using IH(2)[of s1 q] 3 less by auto
      define n where "n = fst (fd_eval_allocate_binary b m r s2)"
      define s3 where "s3 = snd (fd_eval_allocate_binary b m r s2)"
      have s3: "same_text s3 s2" "text_left s3 = text_left s2" "fd_eval_allocate_binary b m r s2 = (n, s3)"
        by (simp_all add: s3_def n_def allocate_text)
      obtain n' s4 where s4: "expression_loop fuel p n s3 = Some (n', s4)" "same_text s4 s3" "text_left s4 \<le> text_left s3"
        using IH(3)[of s3 p n] 3 less s2(3) s3(2) by auto
      have "expression_loop (Suc fuel) p m s = (if bi_precedence b < p then Some (m, s) else Some (n', s4))"
        using Some s2(1) s3(3) s4(1) by (simp add: s1_def q_def[symmetric] Let_def)
      moreover have "same_text s4 s" using s4(2) s3(1) s2(2) consume_text[of s] by (simp add: s1_def same_text_def)
      ultimately show ?thesis using less s4(3) s3(2) s2(3) by auto
    qed
  }
qed simp_all

text \<open>More fuel does not change a result.\<close>

lemma parser_mono:
  shows "fd_eval_highest_priority fuel s = Some r \<Longrightarrow> fuel \<le> fuel' \<Longrightarrow> fd_eval_highest_priority fuel' s = Some r"
    and "fd_eval_expression fuel p s = Some r \<Longrightarrow> fuel \<le> fuel' \<Longrightarrow> fd_eval_expression fuel' p s = Some r"
    and "expression_loop fuel p m s = Some r \<Longrightarrow> fuel \<le> fuel' \<Longrightarrow> expression_loop fuel' p m s = Some r"
proof (induction fuel arbitrary: s p m r fuel')
  case (Suc fuel)
  { case 1
    obtain k where k: "fuel' = Suc k" "fuel \<le> k" using 1(2) by (cases fuel') auto
    have E: "fd_eval_expression fuel q t = Some x \<Longrightarrow> fd_eval_expression k q t = Some x" for q t x by (rule Suc(2)[OF _ k(2)])
    show ?case using 1(1) unfolding k(1)
      by (auto simp: Let_def split: option.splits if_splits Option.bind_splits dest!: E)
  next
    case 2
    obtain k where k: "fuel' = Suc k" "fuel \<le> k" using 2(2) by (cases fuel') auto
    have E: "fd_eval_highest_priority fuel t = Some x \<Longrightarrow> fd_eval_highest_priority k t = Some x"
      "expression_loop fuel q n t = Some x \<Longrightarrow> expression_loop k q n t = Some x" for q n t x
      using Suc(1,3) k(2) by blast+
    show ?case using 2(1) unfolding k(1) by (auto split: Option.bind_splits dest!: E)
  next
    case 3
    obtain k where k: "fuel' = Suc k" "fuel \<le> k" using 3(2) by (cases fuel') auto
    have E: "fd_eval_expression fuel q t = Some x \<Longrightarrow> fd_eval_expression k q t = Some x"
      "expression_loop fuel q n t = Some x \<Longrightarrow> expression_loop k q n t = Some x" for q n t x
      using Suc(2,3) k(2) by blast+
    show ?case using 3(1) unfolding k(1)
      by (auto simp: Let_def split: option.splits if_splits Option.bind_splits prod.splits dest!: E)
  }
qed simp_all


section \<open>The tokens of a text\<close>

text \<open>The length of the first token of what is left after the white space.\<close>

definition lex_length :: "string \<Rightarrow> nat" where
  "lex_length u = (case find (\<lambda>b. take (length (bi_string b)) u = bi_string b) fd_eval_binary_operators of
       Some b \<Rightarrow> length (bi_string b)
     | None \<Rightarrow> (case find (\<lambda>b. take (length (uo_string b)) u = uo_string b) fd_eval_unary_operators of
       Some b \<Rightarrow> length (uo_string b)
     | None \<Rightarrow>
       if fd_eval_is_digit (hd u) then
         let n = Suc (length (takeWhile fd_eval_is_digit (tl u))); v = drop n u
         in if v \<noteq> [] \<and> hd v = CHR ''.'' then n + 1 + length (takeWhile fd_eval_is_digit (tl v)) else n
       else if fd_eval_is_alphabetic (hd u) then Suc (length (takeWhile fd_eval_is_identifier (tl u)))
       else if hd u = CHR ''('' \<or> hd u = CHR '')'' then 1 else 0))"

lemma skip_while_takeWhile:
  "eval_length s = length (eval_text s) \<Longrightarrow> i \<le> length (eval_text s) \<Longrightarrow>
   skip_while test s i = i + length (takeWhile test (drop i (eval_text s)))"
proof (induction test s i rule: skip_while.induct)
  case (1 test s i)
  show ?case
  proof (cases "i < eval_length s \<and> test (eval_text s ! i)")
    case True
    then have "drop i (eval_text s) = eval_text s ! i # drop (Suc i) (eval_text s)" using 1(2) by (simp add: Cons_nth_drop_Suc)
    then show ?thesis using 1 True by (subst skip_while.simps) simp
  next
    case False
    then have "takeWhile test (drop i (eval_text s)) = []"
      using 1(2,3) by (cases "drop i (eval_text s)") (auto simp: drop_eq_Nil2 nth_via_drop)
    then show ?thesis using False by (subst skip_while.simps) auto
  qed
qed

lemma next_lex:
  assumes len: "eval_length s = length (eval_text s)" and i: "eval_input_index s \<le> length (eval_text s)"
    and u: "u = dropWhile fd_eval_is_white_space (drop (eval_input_index s) (eval_text s))"
  shows "fd_eval_next s = (if u = [] then \<lparr>es_string = None, es_chars = []\<rparr>
    else \<lparr>es_string = Some (length (eval_text s) - length u), es_chars = take (lex_length u) u\<rparr>)"
proof -
  define T where "T = eval_text s"
  define start where "start = skip_while fd_eval_is_white_space s (eval_input_index s)"
  have st: "start = eval_input_index s + length (takeWhile fd_eval_is_white_space (drop (eval_input_index s) T))"
    using skip_while_takeWhile[OF len i] by (simp add: start_def T_def)
  then have u': "u = drop start T" unfolding u T_def[symmetric] by (simp add: dropWhile_eq_drop add.commute)
  have "length (takeWhile fd_eval_is_white_space (drop (eval_input_index s) T)) \<le> length (drop (eval_input_index s) T)"
    by (rule length_takeWhile_le)
  then have le: "start \<le> length T" using i by (simp add: st T_def)
  have pos: "start = length T - length u" using le by (simp add: u')
  have nil: "u = [] \<longleftrightarrow> eval_length s \<le> start" using le by (auto simp: u' len T_def)
  have sw: "starts_with s start str \<longleftrightarrow> take (length str) u = str" if "str \<noteq> []" for str
  proof
    assume a: "take (length str) u = str"
    then have "length (take (length str) u) = length str" by simp
    then have "length str \<le> length u" by simp
    then show "starts_with s start str" using a le by (simp add: starts_with_def len u' T_def)
  qed (simp add: starts_with_def u' T_def)
  have fb: "find (\<lambda>b. starts_with s start (bi_string b)) fd_eval_binary_operators =
      find (\<lambda>b. take (length (bi_string b)) u = bi_string b) fd_eval_binary_operators"
    by (rule find_cong) (auto simp: sw fd_eval_binary_operators_def)
  have fu: "find (\<lambda>b. starts_with s start (uo_string b)) fd_eval_unary_operators =
      find (\<lambda>b. take (length (uo_string b)) u = uo_string b) fd_eval_unary_operators"
    by (rule find_cong) (auto simp: sw fd_eval_unary_operators_def)
  show ?thesis
  proof (cases "u = []")
    case True
    then show ?thesis using nil by (simp add: fd_eval_next_def start_def[symmetric] Let_def)
  next
    case False
    then have lt: "start < length T" using nil le by (simp add: len T_def)
    have hd: "T ! start = hd u" using lt by (simp add: u' hd_drop_conv_nth)
    have tl: "drop (Suc start) T = tl u" by (simp add: u' drop_Suc tl_drop)
    have skip: "skip_while test s (start + 1) = start + Suc (length (takeWhile test (tl u)))" for test
      using skip_while_takeWhile[OF len, of "start + 1" test] lt by (simp add: T_def[symmetric] tl)
    have tok: "token_at s start n = \<lparr>es_string = Some (length T - length u), es_chars = take n u\<rparr>" for n
      using pos by (simp add: token_at_def T_def[symmetric] u')
    define n where "n = Suc (length (takeWhile fd_eval_is_digit (tl u)))"
    have "length (takeWhile fd_eval_is_digit (tl u)) \<le> length (tl u)" by (rule length_takeWhile_le)
    then have n: "start + n \<le> length T" using lt False by (simp add: n_def u')
    have dn: "drop n u = drop (start + n) T" by (simp add: u' add.commute)
    have num: "(if start + n < eval_length s \<and> T ! (start + n) = CHR ''.'' then skip_while fd_eval_is_digit s (start + n + 1) else start + n) - start =
        (if drop n u \<noteq> [] \<and> hd (drop n u) = CHR ''.'' then n + 1 + length (takeWhile fd_eval_is_digit (tl (drop n u))) else n)"
    proof (cases "start + n < length T")
      case True
      have "skip_while fd_eval_is_digit s (start + n + 1) = start + n + 1 + length (takeWhile fd_eval_is_digit (drop (start + n + 1) T))"
        using skip_while_takeWhile[OF len, of "start + n + 1"] True by (simp add: T_def)
      moreover have "drop (start + n + 1) T = tl (drop n u)" by (simp add: dn drop_Suc tl_drop)
      ultimately show ?thesis using True by (simp add: dn len T_def[symmetric] hd_drop_conv_nth)
    qed (simp add: dn len T_def[symmetric])
    show ?thesis
      unfolding fd_eval_next_def start_def[symmetric] Let_def fb fu lex_length_def T_def[symmetric] hd tok skip n_def[symmetric] num
      using False nil by (auto simp: tok[unfolded T_def] T_def split: option.splits)
  qed
qed

definition spaced :: "string list \<Rightarrow> string" where
  "spaced ts = concat (map (\<lambda>t. t @ '' '') ts)"

lemma spaced_simps [simp]: "spaced [] = []" "spaced (t # ts) = t @ CHR '' '' # spaced ts" "spaced (ts @ us) = spaced ts @ spaced us"
  by (simp_all add: spaced_def)

definition valid_token :: "string \<Rightarrow> bool" where
  "valid_token t \<longleftrightarrow> t \<noteq> [] \<and> hd t \<noteq> CHR '' '' \<and> (\<forall>u. lex_length (t @ CHR '' '' # u) = length t)"

text \<open>The parser is in front of these tokens, with a space after each, and of a tail.\<close>

definition tokens_left :: "fd_eval_t \<Rightarrow> string list \<Rightarrow> string \<Rightarrow> bool" where
  "tokens_left s ts tail \<longleftrightarrow> eval_length s = length (eval_text s) \<and> eval_input_index s \<le> length (eval_text s) \<and>
     (\<exists>k. drop (eval_input_index s) (eval_text s) = replicate k CHR '' '' @ spaced ts @ tail)"

lemma dropWhile_spaces: "dropWhile fd_eval_is_white_space (replicate k CHR '' '' @ u) = dropWhile fd_eval_is_white_space u"
  by (induction k) (simp_all add: fd_eval_is_white_space_def)

lemma next_token:
  assumes "tokens_left s (t # ts) tail" "valid_token t"
  shows "es_chars (fd_eval_next s) = t" "tokens_left (fd_eval_consume s) ts tail"
    and "token_text (fd_eval_next s) s = t @ CHR '' '' # spaced ts @ tail"
proof -
  define T where "T = eval_text s"
  obtain k where k: "drop (eval_input_index s) T = replicate k CHR '' '' @ spaced (t # ts) @ tail"
    using assms(1) unfolding tokens_left_def T_def by blast
  have l: "eval_length s = length (eval_text s)" "eval_input_index s \<le> length (eval_text s)" using assms(1) by (simp_all add: tokens_left_def)
  define u where "u = t @ CHR '' '' # spaced ts @ tail"
  have v: "t \<noteq> []" "hd t \<noteq> CHR '' ''" "lex_length u = length t" using assms(2) by (simp_all add: valid_token_def u_def)
  have u: "u = dropWhile fd_eval_is_white_space (drop (eval_input_index s) T)"
    unfolding k dropWhile_spaces using v(1,2) by (cases t) (simp_all add: u_def fd_eval_is_white_space_def)
  have nn: "u \<noteq> []" using v(1) by (simp add: u_def)
  have n: "fd_eval_next s = \<lparr>es_string = Some (length T - length u), es_chars = t\<rparr>"
    using next_lex[OF l u[unfolded T_def]] v(3) nn by (simp add: T_def) (simp add: u_def)
  have ku: "drop (eval_input_index s) T = replicate k CHR '' '' @ u" unfolding k u_def by simp
  have len: "length T = eval_input_index s + k + length u" using arg_cong[OF ku, of length] l(2) by (simp add: T_def)
  have at: "drop (length T - length u) T = u"
  proof -
    have "drop (length T - length u) T = drop k (drop (eval_input_index s) T)" using len by (simp add: add.commute)
    then show ?thesis unfolding ku by simp
  qed
  show "es_chars (fd_eval_next s) = t" by (simp add: n)
  show "token_text (fd_eval_next s) s = t @ CHR '' '' # spaced ts @ tail"
    using at by (simp add: token_text_def n T_def[symmetric]) (simp add: u_def)
  define i where "i = length T - length u + length t"
  have c: "fd_eval_consume s = s\<lparr>eval_input_index := i\<rparr>" by (simp add: fd_eval_consume_def n i_def)
  have "drop i T = drop (length t) (drop (length T - length u) T)" by (simp add: i_def add.commute)
  also have "\<dots> = replicate 1 CHR '' '' @ spaced ts @ tail" unfolding at by (simp add: u_def)
  finally have d: "drop i T = replicate 1 CHR '' '' @ spaced ts @ tail" .
  have "i \<le> length T" using len by (simp add: i_def u_def)
  moreover have "\<exists>k. drop i T = replicate k CHR '' '' @ spaced ts @ tail" using d by blast
  ultimately show "tokens_left (fd_eval_consume s) ts tail"
    using l unfolding tokens_left_def c T_def by simp
qed

text \<open>At the end, and in front of a character that begins no token, the next token is empty.\<close>

definition no_token :: "string \<Rightarrow> bool" where
  "no_token tail \<longleftrightarrow> tail = [] \<or> hd tail \<noteq> CHR '' '' \<and> lex_length tail = 0"

lemma next_none:
  assumes "tokens_left s [] tail" "no_token tail"
  shows "es_chars (fd_eval_next s) = []"
proof -
  obtain k where k: "drop (eval_input_index s) (eval_text s) = replicate k CHR '' '' @ tail"
    using assms(1) unfolding tokens_left_def by auto
  have l: "eval_length s = length (eval_text s)" "eval_input_index s \<le> length (eval_text s)" using assms(1) by (simp_all add: tokens_left_def)
  have "dropWhile fd_eval_is_white_space (drop (eval_input_index s) (eval_text s)) = tail"
    unfolding k dropWhile_spaces using assms(2) by (cases tail) (auto simp: no_token_def fd_eval_is_white_space_def)
  then show ?thesis using next_lex[OF l refl] assms(2) by (auto simp: no_token_def)
qed


section \<open>Expressions and their text\<close>

datatype expression = Value string
  | Unary fd_eval_unary_operator_t expression
  | Binary fd_eval_binary_operator_t expression expression

definition number_token :: "string \<Rightarrow> bool" where
  "number_token t \<longleftrightarrow> (\<exists>ds. ds \<noteq> [] \<and> (\<forall>c \<in> set ds. fd_eval_is_digit c) \<and>
     (t = ds \<or> (\<exists>fs. t = ds @ CHR ''.'' # fs \<and> (\<forall>c \<in> set fs. fd_eval_is_digit c))))"

definition name_token :: "string \<Rightarrow> bool" where
  "name_token t \<longleftrightarrow> t \<noteq> [] \<and> fd_eval_is_alphabetic (hd t) \<and> (\<forall>c \<in> set t. fd_eval_is_identifier c)"

fun expression_ok :: "expression \<Rightarrow> bool" where
  "expression_ok (Value t) \<longleftrightarrow> number_token t \<or> name_token t"
| "expression_ok (Unary u e) \<longleftrightarrow> u \<in> set fd_eval_unary_operators \<and> expression_ok e"
| "expression_ok (Binary b l r) \<longleftrightarrow> b \<in> set fd_eval_binary_operators \<and> expression_ok l \<and> expression_ok r"

fun node_count :: "expression \<Rightarrow> nat" where
  "node_count (Value t) = 1"
| "node_count (Unary u e) = node_count e + 1"
| "node_count (Binary b l r) = node_count l + node_count r + 1"

text \<open>Printing with the parentheses that the precedences call for; operators of one precedence associate to the left.\<close>

fun print_at :: "nat \<Rightarrow> expression \<Rightarrow> string list" where
  "print_at q (Value t) = [t]"
| "print_at q (Unary u e) = uo_string u # print_at 7 e"
| "print_at q (Binary b l r) =
     (let inner = print_at (bi_precedence b) l @ bi_string b # print_at (bi_precedence b + 1) r
      in if bi_precedence b < q then ''('' # inner @ ['')''] else inner)"

definition print_expression :: "expression \<Rightarrow> string" where
  "print_expression e = spaced (print_at 0 e)"

lemma char_kinds:
  "fd_eval_is_digit c \<Longrightarrow> c \<notin> {CHR ''*'', CHR ''/'', CHR ''+'', CHR ''-'', CHR ''<'', CHR ''>'', CHR ''='', CHR ''!'', CHR ''&'', CHR ''|'', CHR '' '', CHR ''('', CHR '')'', CHR ''.''}"
  "fd_eval_is_alphabetic c \<Longrightarrow> c \<notin> {CHR ''*'', CHR ''/'', CHR ''+'', CHR ''-'', CHR ''<'', CHR ''>'', CHR ''='', CHR ''!'', CHR ''&'', CHR ''|'', CHR '' '', CHR ''('', CHR '')'', CHR ''.''}"
  by (auto simp: fd_eval_is_digit_def fd_eval_is_alphabetic_def)

lemma digit_not_alphabetic: "fd_eval_is_digit c \<Longrightarrow> \<not> fd_eval_is_alphabetic c"
  by (simp add: fd_eval_is_digit_def fd_eval_is_alphabetic_def)

lemma no_operator:
  assumes "c \<notin> {CHR ''*'', CHR ''/'', CHR ''+'', CHR ''-'', CHR ''<'', CHR ''>'', CHR ''='', CHR ''!'', CHR ''&'', CHR ''|''}"
  shows "find (\<lambda>b. take (length (bi_string b)) (c # u) = bi_string b) fd_eval_binary_operators = None"
    "find (\<lambda>b. take (length (uo_string b)) (c # u) = uo_string b) fd_eval_unary_operators = None"
  using assms by (simp_all add: fd_eval_binary_operators_def fd_eval_unary_operators_def)

lemma not_space: "\<not> fd_eval_is_digit CHR '' ''" "\<not> fd_eval_is_identifier CHR '' ''" "\<not> fd_eval_is_digit CHR ''.''"
  by (simp_all add: fd_eval_is_digit_def fd_eval_is_identifier_def fd_eval_is_alphabetic_def)

lemma takeWhile_then: "\<forall>c \<in> set xs. P c \<Longrightarrow> \<not> P y \<Longrightarrow> takeWhile P (xs @ y # ys) = xs"
  by (simp add: takeWhile_tail)

lemma valid_number: "number_token t \<Longrightarrow> valid_token t"
proof -
  assume "number_token t"
  then obtain ds where ds: "ds \<noteq> []" "\<forall>c \<in> set ds. fd_eval_is_digit c"
      "t = ds \<or> (\<exists>fs. t = ds @ CHR ''.'' # fs \<and> (\<forall>c \<in> set fs. fd_eval_is_digit c))" by (auto simp: number_token_def)
  obtain c cs where c: "ds = c # cs" using ds(1) by (cases ds) auto
  have d: "fd_eval_is_digit c" "\<forall>x \<in> set cs. fd_eval_is_digit x" using ds(2) c by auto
  have op: "c \<notin> {CHR ''*'', CHR ''/'', CHR ''+'', CHR ''-'', CHR ''<'', CHR ''>'', CHR ''='', CHR ''!'', CHR ''&'', CHR ''|''}"
    using char_kinds(1)[OF d(1)] by simp
  consider "t = c # cs" | fs where "t = c # cs @ CHR ''.'' # fs" "\<forall>x \<in> set fs. fd_eval_is_digit x" using ds(3) c by auto
  then have "lex_length (t @ CHR '' '' # u) = length t" for u
  proof cases
    case 1
    have "takeWhile fd_eval_is_digit (cs @ CHR '' '' # u) = cs" by (rule takeWhile_then[OF d(2) not_space(1)])
    then show ?thesis using d(1) no_operator[OF op] by (simp add: lex_length_def 1 Let_def)
  next
    case 2
    have "takeWhile fd_eval_is_digit (cs @ CHR ''.'' # fs @ CHR '' '' # u) = cs" by (rule takeWhile_then[OF d(2) not_space(3)])
    moreover have "takeWhile fd_eval_is_digit (fs @ CHR '' '' # u) = fs" by (rule takeWhile_then[OF 2(2) not_space(1)])
    ultimately show ?thesis using d(1) no_operator[OF op] by (simp add: lex_length_def 2 Let_def)
  qed
  moreover have "t \<noteq> []" "hd t \<noteq> CHR '' ''" using ds(3) c char_kinds(1)[OF d(1)] by auto
  ultimately show "valid_token t" by (simp add: valid_token_def)
qed

lemma valid_name: "name_token t \<Longrightarrow> valid_token t"
proof -
  assume "name_token t"
  then obtain c cs where t: "t = c # cs" "fd_eval_is_alphabetic c" "\<forall>x \<in> set cs. fd_eval_is_identifier x"
    by (cases t) (auto simp: name_token_def)
  have op: "c \<notin> {CHR ''*'', CHR ''/'', CHR ''+'', CHR ''-'', CHR ''<'', CHR ''>'', CHR ''='', CHR ''!'', CHR ''&'', CHR ''|''}"
    using char_kinds(2)[OF t(2)] by simp
  have "takeWhile fd_eval_is_identifier (cs @ CHR '' '' # u) = cs" for u by (rule takeWhile_then[OF t(3) not_space(2)])
  then have "lex_length (t @ CHR '' '' # u) = length t" for u
    using t(2) no_operator[OF op] digit_not_alphabetic[of c] by (auto simp: lex_length_def t(1))
  then show "valid_token t" using t(1) char_kinds(2)[OF t(2)] by (simp add: valid_token_def)
qed

lemma valid_binary: "\<forall>b \<in> set fd_eval_binary_operators. valid_token (bi_string b)"
  by (simp add: valid_token_def lex_length_def fd_eval_binary_operators_def)

lemma valid_unary: "\<forall>u \<in> set fd_eval_unary_operators. valid_token (uo_string u)"
  by (simp add: valid_token_def lex_length_def fd_eval_unary_operators_def fd_eval_binary_operators_def)

lemma valid_parentheses: "valid_token ''(''" "valid_token '')''"
  by (simp_all add: valid_token_def lex_length_def fd_eval_unary_operators_def fd_eval_binary_operators_def fd_eval_is_digit_def
      fd_eval_is_alphabetic_def)

lemma binary_of_string: "\<forall>b \<in> set fd_eval_binary_operators. find (\<lambda>a. bi_string a = bi_string b) fd_eval_binary_operators = Some b"
  by (simp add: fd_eval_binary_operators_def)

lemma unary_of_string: "\<forall>u \<in> set fd_eval_unary_operators. find (\<lambda>a. uo_string a = uo_string u) fd_eval_unary_operators = Some u"
  by (simp add: fd_eval_unary_operators_def)

lemma operator_of_string:
  "u \<in> set fd_eval_unary_operators \<Longrightarrow> es_chars t = uo_string u \<Longrightarrow> fd_eval_is_unary t = Some u"
  "b \<in> set fd_eval_binary_operators \<Longrightarrow> es_chars t = bi_string b \<Longrightarrow> fd_eval_is_binary t = Some b"
  using unary_of_string binary_of_string by (simp_all add: fd_eval_is_unary_def fd_eval_is_binary_def)

lemma not_operator:
  "es_chars t \<in> {[], ''('', '')''} \<Longrightarrow> fd_eval_is_unary t = None" "es_chars t \<in> {[], ''('', '')''} \<Longrightarrow> fd_eval_is_binary t = None"
  by (auto simp: fd_eval_is_unary_def fd_eval_is_binary_def fd_eval_unary_operators_def fd_eval_binary_operators_def)

lemma binary_operator_facts: "\<forall>b \<in> set fd_eval_binary_operators. bi_associativity b = fd_eval_associativity_left \<and> bi_precedence b \<le> 6"
  by (simp add: fd_eval_binary_operators_def)

lemma unary_operator_facts: "\<forall>u \<in> set fd_eval_unary_operators. uo_precedence u = 7"
  by (simp add: fd_eval_unary_operators_def)

lemma value_head:
  assumes "number_token t \<or> name_token t"
  obtains c cs where "t = c # cs" "fd_eval_is_digit c \<or> fd_eval_is_alphabetic c"
  using assms by (cases t) (auto simp: number_token_def name_token_def Cons_eq_append_conv)

lemma value_token_facts:
  assumes "number_token (es_chars t) \<or> name_token (es_chars t)"
  shows "fd_eval_is_unary t = None" "fd_eval_is_value t" "es_chars t \<noteq> ''(''"
proof -
  obtain c cs where c: "es_chars t = c # cs" "fd_eval_is_digit c \<or> fd_eval_is_alphabetic c" by (rule value_head[OF assms])
  then show "fd_eval_is_value t" by (auto simp: fd_eval_is_value_def)
  show "fd_eval_is_unary t = None" "es_chars t \<noteq> ''(''"
    using c char_kinds[of c] by (auto simp: fd_eval_is_unary_def fd_eval_unary_operators_def)
qed


section \<open>Results of the parser\<close>

definition parses_highest :: "fd_eval_t \<Rightarrow> node_reference \<times> fd_eval_t \<Rightarrow> bool" where
  "parses_highest s r \<longleftrightarrow> (\<exists>fuel. fd_eval_highest_priority fuel s = Some r)"

definition parses :: "nat \<Rightarrow> fd_eval_t \<Rightarrow> node_reference \<times> fd_eval_t \<Rightarrow> bool" where
  "parses p s r \<longleftrightarrow> (\<exists>fuel. fd_eval_expression fuel p s = Some r)"

definition parses_loop :: "nat \<Rightarrow> node_reference \<Rightarrow> fd_eval_t \<Rightarrow> node_reference \<times> fd_eval_t \<Rightarrow> bool" where
  "parses_loop p n s r \<longleftrightarrow> (\<exists>fuel. expression_loop fuel p n s = Some r)"

lemma parser_fuel_enough:
  assumes "parses p s r" shows "fd_eval_expression (2 * text_left s + 2) p s = Some r"
proof -
  obtain fuel where f: "fd_eval_expression fuel p s = Some r" using assms by (auto simp: parses_def)
  obtain r' where r': "fd_eval_expression (2 * text_left s + 2) p s = Some r'" using parser_total(2)[of s "2 * text_left s + 2" p] by auto
  have "fd_eval_expression (max fuel (2 * text_left s + 2)) p s = Some r" by (rule parser_mono(2)[OF f]) simp
  moreover have "fd_eval_expression (max fuel (2 * text_left s + 2)) p s = Some r'" by (rule parser_mono(2)[OF r']) simp
  ultimately show ?thesis using r' by simp
qed

lemma parses_unary:
  "fd_eval_is_unary (fd_eval_next s) = Some u \<Longrightarrow> parses (uo_precedence u) (fd_eval_consume s) (n, s1) \<Longrightarrow>
   parses_highest s (fd_eval_allocate_unary u n s1)"
proof -
  assume u: "fd_eval_is_unary (fd_eval_next s) = Some u" "parses (uo_precedence u) (fd_eval_consume s) (n, s1)"
  then obtain fuel where "fd_eval_expression fuel (uo_precedence u) (fd_eval_consume s) = Some (n, s1)" by (auto simp: parses_def)
  then have "fd_eval_highest_priority (Suc fuel) s = Some (fd_eval_allocate_unary u n s1)" using u(1) by simp
  then show ?thesis unfolding parses_highest_def by blast
qed

lemma parses_parenthesis:
  "es_chars (fd_eval_next s) = ''('' \<Longrightarrow> parses 0 (fd_eval_consume s) (n, s1) \<Longrightarrow>
   parses_highest s (n, fd_eval_expect \<lparr>es_string = None, es_chars = '')''\<rparr> s1)"
proof -
  assume c: "es_chars (fd_eval_next s) = ''(''" "parses 0 (fd_eval_consume s) (n, s1)"
  then obtain fuel where "fd_eval_expression fuel 0 (fd_eval_consume s) = Some (n, s1)" by (auto simp: parses_def)
  then have "fd_eval_highest_priority (Suc fuel) s = Some (n, fd_eval_expect \<lparr>es_string = None, es_chars = '')''\<rparr> s1)"
    using not_operator(1)[of "fd_eval_next s"] c(1) by (simp add: Let_def fd_eval_string_equals_string_def)
  then show ?thesis unfolding parses_highest_def by blast
qed

lemma parses_value:
  assumes "number_token (es_chars (fd_eval_next s)) \<or> name_token (es_chars (fd_eval_next s))"
  shows "parses_highest s (fd_eval_allocate_leaf (fd_eval_next s) (fd_eval_consume s))"
proof -
  have "fd_eval_highest_priority (Suc 0) s = Some (fd_eval_allocate_leaf (fd_eval_next s) (fd_eval_consume s))"
    using value_token_facts[OF assms] by (simp add: Let_def fd_eval_string_equals_string_def)
  then show ?thesis unfolding parses_highest_def by blast
qed

lemma parses_expression: "parses_highest s (n, s1) \<Longrightarrow> parses_loop p n s1 r \<Longrightarrow> parses p s r"
proof -
  assume "parses_highest s (n, s1)" "parses_loop p n s1 r"
  then obtain f g where f: "fd_eval_highest_priority f s = Some (n, s1)" and g: "expression_loop g p n s1 = Some r"
    by (auto simp: parses_highest_def parses_loop_def)
  have "fd_eval_expression (Suc (max f g)) p s = Some r"
    using parser_mono(1)[OF f, of "max f g"] parser_mono(3)[OF g, of "max f g"] by simp
  then show ?thesis unfolding parses_def by blast
qed

definition stops :: "nat \<Rightarrow> fd_eval_t \<Rightarrow> bool" where
  "stops p s \<longleftrightarrow> (case fd_eval_is_binary (fd_eval_next s) of None \<Rightarrow> True | Some b \<Rightarrow> bi_precedence b < p)"

lemma parses_stop: "stops p s \<Longrightarrow> parses_loop p n s (n, s)"
proof -
  assume "stops p s"
  then have "expression_loop (Suc 0) p n s = Some (n, s)" by (auto simp: stops_def split: option.splits)
  then show ?thesis unfolding parses_loop_def by blast
qed

lemma parses_step:
  assumes "fd_eval_is_binary (fd_eval_next s) = Some b" "p \<le> bi_precedence b" "bi_associativity b = fd_eval_associativity_left"
    and "parses (bi_precedence b + 1) (fd_eval_consume s) (right, s1)" "fd_eval_allocate_binary b n right s1 = (m, s2)" "parses_loop p m s2 r"
  shows "parses_loop p n s r"
proof -
  obtain f g where f: "fd_eval_expression f (bi_precedence b + 1) (fd_eval_consume s) = Some (right, s1)"
      and g: "expression_loop g p m s2 = Some r"
    using assms(4,6) by (auto simp: parses_def parses_loop_def)
  have "expression_loop (Suc (max f g)) p n s = Some r"
    using assms(1-3,5) parser_mono(2)[OF f, of "max f g"] parser_mono(3)[OF g, of "max f g"] by (simp add: Let_def)
  then show ?thesis unfolding parses_loop_def by blast
qed

section \<open>Nodes\<close>

definition allocate :: "fd_eval_node_t \<Rightarrow> fd_eval_t \<Rightarrow> node_reference \<times> fd_eval_t" where
  "allocate node s = (let (n, s) = fd_eval_allocate_node s in (n, set_node n node s))"

lemma allocate_eq:
  "fd_eval_allocate_leaf token = allocate (fd_eval_node_type_leaf token)"
  "fd_eval_allocate_unary u n = allocate (fd_eval_node_type_unary u n)"
  "fd_eval_allocate_binary b l r = allocate (fd_eval_node_type_binary b l r)"
  by (simp_all add: fun_eq_iff fd_eval_allocate_leaf_def fd_eval_allocate_unary_def fd_eval_allocate_binary_def allocate_def)

abbreviation heap_size :: "fd_eval_t \<Rightarrow> nat" where
  "heap_size s \<equiv> length (heap_nodes (eval_heap s))"

abbreviation next_node :: "fd_eval_t \<Rightarrow> nat" where
  "next_node s \<equiv> heap_index (eval_heap s)"

text \<open>What the parser leaves alone.\<close>

definition frame :: "fd_eval_t \<Rightarrow> fd_eval_t \<Rightarrow> bool" where
  "frame s' s \<longleftrightarrow> same_text s' s \<and> eval_get_symbol_value s' = eval_get_symbol_value s \<and> eval_error_value s' = eval_error_value s \<and>
     eval_log s' = eval_log s \<and> heap_size s' = heap_size s \<and> next_node s \<le> next_node s' \<and>
     (\<forall>i < next_node s. heap_nodes (eval_heap s') ! i = heap_nodes (eval_heap s) ! i)"

lemma frame_refl [simp]: "frame s s"
  by (simp add: frame_def)

lemma frame_trans: "frame a b \<Longrightarrow> frame b c \<Longrightarrow> frame a c"
  by (auto simp: frame_def same_text_def)

lemma allocate_facts:
  assumes "next_node s \<le> heap_size s" "allocate node s = (n, s')"
  shows "frame s' s" "tokens_left s' ts tail = tokens_left s ts tail"
    and "next_node s < heap_size s \<Longrightarrow> n = heap_node (next_node s) \<and> next_node s' = Suc (next_node s) \<and>
      heap_nodes (eval_heap s') ! next_node s = node \<and> eval_error s' = eval_error s"
    and "next_node s = heap_size s \<Longrightarrow> n = error_node \<and> next_node s' = next_node s \<and> eval_error_node s' = node \<and>
      eval_error s' = (eval_error s \<or> 0 < heap_size s)"
  using assms
  by (auto simp: allocate_def fd_eval_allocate_node_def set_node_def frame_def same_text_def tokens_left_def Let_def
      split: if_splits)

lemma consume_facts: "frame (fd_eval_consume s) s" "eval_error (fd_eval_consume s) = eval_error s" "eval_heap (fd_eval_consume s) = eval_heap s"
  "eval_error_node (fd_eval_consume s) = eval_error_node s"
  by (auto simp: fd_eval_consume_def frame_def same_text_def Let_def split: option.splits)

text \<open>A node is the root of the tree of an expression.\<close>

fun represents :: "fd_eval_t \<Rightarrow> node_reference \<Rightarrow> expression \<Rightarrow> bool" where
  "represents s r (Value t) \<longleftrightarrow> (\<exists>i token. r = heap_node i \<and> i < next_node s \<and> heap_nodes (eval_heap s) ! i = fd_eval_node_type_leaf token \<and>
     es_chars token = t \<and> (\<exists>u. token_text token s = t @ CHR '' '' # u))"
| "represents s r (Unary u e) \<longleftrightarrow> (\<exists>i n. r = heap_node i \<and> i < next_node s \<and> heap_nodes (eval_heap s) ! i = fd_eval_node_type_unary u n \<and>
     represents s n e)"
| "represents s r (Binary b e f) \<longleftrightarrow> (\<exists>i n m. r = heap_node i \<and> i < next_node s \<and> heap_nodes (eval_heap s) ! i = fd_eval_node_type_binary b n m \<and>
     represents s n e \<and> represents s m f)"

lemma token_text_frame: "frame s' s \<Longrightarrow> token_text token s' = token_text token s"
  by (cases "es_string token") (simp_all add: frame_def same_text_def token_text_def)

lemma represents_frame: "represents s r e \<Longrightarrow> frame s' s \<Longrightarrow> represents s' r e"
proof (induction e arbitrary: r)
  case (Value t)
  then obtain i token where i: "r = heap_node i" "i < next_node s" "heap_nodes (eval_heap s) ! i = fd_eval_node_type_leaf token"
    "es_chars token = t" "\<exists>u. token_text token s = t @ CHR '' '' # u" by auto
  moreover have "token_text token s' = token_text token s" by (rule token_text_frame[OF Value(2)])
  ultimately show ?case using Value(2) by (simp add: frame_def)
next
  case (Unary u e)
  then obtain i n where "r = heap_node i" "i < next_node s" "heap_nodes (eval_heap s) ! i = fd_eval_node_type_unary u n" "represents s n e" by auto
  moreover have "represents s' n e" by (rule Unary(1)[OF calculation(4) Unary(3)])
  ultimately show ?case using Unary(3) by (auto simp: frame_def)
next
  case (Binary b e f)
  then obtain i n m where "r = heap_node i" "i < next_node s" "heap_nodes (eval_heap s) ! i = fd_eval_node_type_binary b n m"
    "represents s n e" "represents s m f" by auto
  moreover have "represents s' n e" "represents s' m f"
    by (rule Binary(1)[OF calculation(4) Binary(4)], rule Binary(2)[OF calculation(5) Binary(4)])
  ultimately show ?case using Binary(4) by (auto simp: frame_def)
qed

text \<open>The node for errors is below itself.\<close>

definition loops :: "fd_eval_t \<Rightarrow> bool" where
  "loops s \<longleftrightarrow> (case eval_error_node s of fd_eval_node_type_leaf _ \<Rightarrow> False
     | fd_eval_node_type_unary _ n \<Rightarrow> n = error_node
     | fd_eval_node_type_binary _ _ n \<Rightarrow> n = error_node)"

text \<open>What parsing an expression does to the heap: its nodes are the next ones, as far as the heap goes.\<close>

definition built :: "fd_eval_t \<Rightarrow> expression \<Rightarrow> node_reference \<Rightarrow> fd_eval_t \<Rightarrow> bool" where
  "built s e n s' \<longleftrightarrow> frame s' s \<and> next_node s' = min (next_node s + node_count e) (heap_size s) \<and>
     n = (if next_node s + node_count e \<le> heap_size s then heap_node (next_node s + node_count e - 1) else error_node) \<and>
     eval_error s' = (eval_error s \<or> 0 < heap_size s \<and> heap_size s < next_node s + node_count e) \<and>
     (next_node s + node_count e \<le> heap_size s \<longrightarrow> represents s' n e) \<and>
     (heap_size s + 1 < next_node s + node_count e \<longrightarrow> loops s')"

lemma built_le: "built s e n s' \<Longrightarrow> next_node s' \<le> heap_size s'"
  unfolding built_def frame_def by (metis min.cobounded2)

lemma built_facts:
  assumes "built s e n s'"
  shows "frame s' s" "heap_size s' = heap_size s" "next_node s' = min (next_node s + node_count e) (heap_size s)"
  using assms unfolding built_def frame_def by blast+

lemma built_represents: "built s e n s' \<Longrightarrow> next_node s + node_count e \<le> heap_size s \<Longrightarrow> represents s' n e"
  unfolding built_def by blast

lemma built_value:
  assumes "next_node s \<le> heap_size s" "allocate (fd_eval_node_type_leaf token) s = (n, s')"
    and "es_chars token = t" "token_text token s = t @ CHR '' '' # u"
  shows "built s (Value t) n s'"
proof -
  note a = allocate_facts[OF assms(1,2)]
  have tt: "token_text token s' = token_text token s" by (rule token_text_frame[OF a(1)])
  show ?thesis
  proof (cases "next_node s < heap_size s")
    case True
    then show ?thesis using a(1) a(3)[OF True] tt assms(3,4) by (auto simp: built_def)
  next
    case False
    then have full: "next_node s = heap_size s" using assms(1) by simp
    then show ?thesis using a(1) a(4)[OF full] by (auto simp: built_def)
  qed
qed

lemma built_unary:
  assumes "next_node s \<le> heap_size s" "built s e n s1" "allocate (fd_eval_node_type_unary u n) s1 = (m, s')"
  shows "built s (Unary u e) m s'"
proof -
  note a = allocate_facts[OF built_le[OF assms(2)] assms(3)]
  note f = built_facts[OF assms(2)]
  have fr: "frame s' s" by (rule frame_trans[OF a(1) f(1)])
  show ?thesis
  proof (cases "next_node s + node_count e < heap_size s")
    case True
    then have lt: "next_node s1 < heap_size s1" "next_node s1 = next_node s + node_count e" using f by simp_all
    have "represents s1 n e" using built_represents[OF assms(2)] True by simp
    then have "represents s' n e" by (rule represents_frame[OF _ a(1)])
    then show ?thesis using a(3)[OF lt(1)] lt True assms(2) fr by (auto simp: built_def)
  next
    case False
    then have full: "next_node s1 = heap_size s1" "next_node s1 = heap_size s" using f by simp_all
    have "heap_size s + 1 < next_node s + node_count (Unary u e) \<Longrightarrow> n = error_node" using assms(2) by (simp add: built_def)
    then have "heap_size s + 1 < next_node s + node_count (Unary u e) \<Longrightarrow> loops s'" using a(4)[OF full(1)] by (simp add: loops_def)
    then show ?thesis using a(4)[OF full(1)] full False assms(1,2) fr by (auto simp: built_def)
  qed
qed

lemma built_binary:
  assumes "next_node s \<le> heap_size s" "built s e n s1" "built s1 f m s2" "allocate (fd_eval_node_type_binary b n m) s2 = (k, s')"
  shows "built s (Binary b e f) k s'"
proof -
  note a = allocate_facts[OF built_le[OF assms(3)] assms(4)]
  have g: "frame s1 s" "heap_size s1 = heap_size s" "next_node s1 = min (next_node s + node_count e) (heap_size s)"
    "frame s2 s1" "heap_size s2 = heap_size s" "next_node s2 = min (next_node s1 + node_count f) (heap_size s)"
    using built_facts[OF assms(2)] built_facts[OF assms(3)] by simp_all
  have fr: "frame s' s" by (rule frame_trans[OF a(1) frame_trans[OF g(4,1)]])
  have pos: "0 < node_count e" "0 < node_count f" by (cases e; simp) (cases f; simp)
  show ?thesis
  proof (cases "next_node s + node_count e + node_count f < heap_size s")
    case True
    then have lt: "next_node s2 < heap_size s2" "next_node s2 = next_node s + node_count e + node_count f" using g by simp_all
    have "represents s1 n e" "represents s2 m f" using built_represents[OF assms(2)] built_represents[OF assms(3)] True g by simp_all
    then have "represents s' n e" "represents s' m f"
      using represents_frame[OF _ frame_trans[OF a(1) g(4)]] represents_frame[OF _ a(1)] by blast+
    then show ?thesis using a(3)[OF lt(1)] lt True assms(2,3) fr g by (auto simp: built_def)
  next
    case False
    then have full: "next_node s2 = heap_size s2" "next_node s2 = heap_size s" using g pos by auto
    have "heap_size s + 1 < next_node s + node_count (Binary b e f) \<Longrightarrow> m = error_node"
      using assms(3) g pos by (auto simp: built_def)
    then have "heap_size s + 1 < next_node s + node_count (Binary b e f) \<Longrightarrow> loops s'" using a(4)[OF full(1)] by (simp add: loops_def)
    moreover have "eval_error s' = (eval_error s \<or> 0 < heap_size s \<and> heap_size s < next_node s + node_count (Binary b e f))"
      using a(4)[OF full(1)] full False assms(2,3) g by (auto simp: built_def)
    ultimately show ?thesis using a(4)[OF full(1)] full False fr by (auto simp: built_def)
  qed
qed

end
