(* ===== verification/FD_EvalSpec.thy ===== *)
theory FD_EvalSpec imports FD_EvalParse begin

text \<open>
  What \<open>fd_eval_calculate\<close> and \<open>fd_eval_check\<close> of \<open>fd_eval.c\<close> return. The parser builds the expression that was printed,
  its evaluation is the expression's meaning, of the expression's type; integer arithmetic is that of the integers; the
  parser returns on every text; and what a heap that is too small and an illegal character lead to.
\<close>

section \<open>Parsing what was printed\<close>

text \<open>An expression printed at a precedence is not followed by an operator that binds stronger.\<close>

definition follows :: "nat \<Rightarrow> string list \<Rightarrow> string \<Rightarrow> bool" where
  "follows q ts tail \<longleftrightarrow> (case ts of [] \<Rightarrow> no_token tail
     | t # _ \<Rightarrow> valid_token t \<and> (\<forall>b \<in> set fd_eval_binary_operators. bi_string b = t \<longrightarrow> bi_precedence b \<le> q))"

lemma is_binary_operator: "fd_eval_is_binary t = Some b \<Longrightarrow> b \<in> set fd_eval_binary_operators \<and> bi_string b = es_chars t"
  unfolding fd_eval_is_binary_def find_Some_iff by auto

lemma follows_stops:
  assumes "tokens_left s ts tail" "follows q ts tail" "q < p"
  shows "stops p s"
proof (cases ts)
  case Nil
  then have "es_chars (fd_eval_next s) = []" using next_none assms(1,2) by (simp add: follows_def)
  then show ?thesis using not_operator(2)[of "fd_eval_next s"] by (simp add: stops_def)
next
  case (Cons t us)
  then have "es_chars (fd_eval_next s) = t" using next_token(1) assms(1,2) by (simp add: follows_def)
  then show ?thesis using assms(2,3) is_binary_operator[of "fd_eval_next s"] Cons
    by (auto simp: stops_def follows_def split: option.splits)
qed

lemma stops_7: "stops 7 s"
  using is_binary_operator[of "fd_eval_next s"] binary_operator_facts by (force simp: stops_def split: option.splits)

lemma follows_parenthesis: "follows q ('')'' # ts) tail"
  by (simp add: follows_def valid_parentheses fd_eval_binary_operators_def)

lemma binary_strings: "\<forall>b \<in> set fd_eval_binary_operators. \<forall>c \<in> set fd_eval_binary_operators. bi_string c = bi_string b \<longrightarrow> c = b"
  by (simp add: fd_eval_binary_operators_def)

lemma follows_operator: "b \<in> set fd_eval_binary_operators \<Longrightarrow> follows (bi_precedence b) (bi_string b # ts) tail"
  using valid_binary binary_strings by (force simp: follows_def)

lemma follows_mono: "follows q ts tail \<Longrightarrow> q \<le> q' \<Longrightarrow> follows q' ts tail"
  by (fastforce simp: follows_def split: list.splits)

lemma built_after_consume: "built (fd_eval_consume s) e n s' \<Longrightarrow> built s e n s'"
  using consume_facts[of s] by (auto simp: built_def intro: frame_trans)

lemma built_then_consume:
  assumes "built s e n s'" shows "built s e n (fd_eval_consume s')"
proof -
  have c: "represents s' n e \<Longrightarrow> represents (fd_eval_consume s') n e" using represents_frame consume_facts(1) by blast
  have l: "loops (fd_eval_consume s') = loops s'" by (simp add: loops_def consume_facts)
  show ?thesis using assms c frame_trans[OF consume_facts(1), of s' s] unfolding built_def consume_facts l by blast
qed

definition parsed :: "nat \<Rightarrow> expression \<Rightarrow> fd_eval_t \<Rightarrow> string list \<Rightarrow> string \<Rightarrow> bool" where
  "parsed p e s ts tail \<longleftrightarrow> (\<exists>n s1. (\<forall>r. parses_loop p n s1 r \<longrightarrow> parses p s r) \<and> built s e n s1 \<and> tokens_left s1 ts tail)"

lemma parsed_binary:
  assumes l: "\<And>s ts tail. next_node s \<le> heap_size s \<Longrightarrow> tokens_left s (print_at (bi_precedence b) l @ ts) tail \<Longrightarrow>
      follows (bi_precedence b) ts tail \<Longrightarrow> parsed p l s ts tail"
    and r: "\<And>s ts tail. next_node s \<le> heap_size s \<Longrightarrow> tokens_left s (print_at (bi_precedence b + 1) r @ ts) tail \<Longrightarrow>
      follows (bi_precedence b + 1) ts tail \<Longrightarrow> parsed (bi_precedence b + 1) r s ts tail"
    and b: "b \<in> set fd_eval_binary_operators" "p \<le> bi_precedence b"
    and s: "next_node s \<le> heap_size s" "tokens_left s (print_at (bi_precedence b) l @ bi_string b # print_at (bi_precedence b + 1) r @ ts) tail"
    and f: "follows (bi_precedence b) ts tail"
  shows "parsed p (Binary b l r) s ts tail"
proof -
  obtain n s1 where n: "\<forall>x. parses_loop p n s1 x \<longrightarrow> parses p s x" "built s l n s1"
      "tokens_left s1 (bi_string b # print_at (bi_precedence b + 1) r @ ts) tail"
    using l[OF s follows_operator[OF b(1)]] unfolding parsed_def by blast
  have v: "valid_token (bi_string b)" using valid_binary b(1) by blast
  note nt = next_token[OF n(3) v]
  have le: "next_node (fd_eval_consume s1) \<le> heap_size (fd_eval_consume s1)" using built_le[OF n(2)] by (simp add: consume_facts)
  obtain m s2 where m: "\<forall>x. parses_loop (bi_precedence b + 1) m s2 x \<longrightarrow> parses (bi_precedence b + 1) (fd_eval_consume s1) x"
      "built (fd_eval_consume s1) r m s2" "tokens_left s2 ts tail"
    using r[OF le nt(2) follows_mono[OF f]] unfolding parsed_def by auto
  have "parses (bi_precedence b + 1) (fd_eval_consume s1) (m, s2)"
    using m(1) parses_stop[OF follows_stops[OF m(3) f]] by simp
  moreover obtain k s3 where k: "allocate (fd_eval_node_type_binary b n m) s2 = (k, s3)" by fastforce
  moreover have "bi_associativity b = fd_eval_associativity_left" using binary_operator_facts b(1) by blast
  ultimately have "\<forall>x. parses_loop p k s3 x \<longrightarrow> parses_loop p n s1 x"
    using parses_step[OF operator_of_string(2)[OF b(1) nt(1)] b(2)] by (simp add: allocate_eq)
  then have "\<forall>x. parses_loop p k s3 x \<longrightarrow> parses p s x" using n(1) by blast
  moreover have "built s (Binary b l r) k s3" by (rule built_binary[OF s(1) n(2) built_after_consume[OF m(2)] k])
  moreover have "tokens_left s3 ts tail" using allocate_facts(2)[OF built_le[OF m(2)] k] m(3) by simp
  ultimately show ?thesis unfolding parsed_def by blast
qed

lemma parsed_parenthesis:
  assumes "tokens_left s (''('' # ts) tail" and p: "parsed 0 e (fd_eval_consume s) ('')'' # us) tail"
  shows "parsed p e s us tail"
proof -
  obtain n s1 where n: "\<forall>x. parses_loop 0 n s1 x \<longrightarrow> parses 0 (fd_eval_consume s) x" "built (fd_eval_consume s) e n s1"
      "tokens_left s1 ('')'' # us) tail"
    using p unfolding parsed_def by blast
  note nt = next_token[OF n(3) valid_parentheses(2)]
  have "stops 0 s1" using not_operator(2)[of "fd_eval_next s1"] nt(1) by (simp add: stops_def)
  then have "parses 0 (fd_eval_consume s) (n, s1)" using n(1) parses_stop by blast
  then have "parses_highest s (n, fd_eval_expect \<lparr>es_string = None, es_chars = '')''\<rparr> s1)"
    by (rule parses_parenthesis[OF next_token(1)[OF assms(1) valid_parentheses(1)]])
  moreover have "fd_eval_expect \<lparr>es_string = None, es_chars = '')''\<rparr> s1 = fd_eval_consume s1"
    using nt(1) by (simp add: fd_eval_expect_def Let_def fd_eval_string_equals_string_def)
  ultimately have "\<forall>x. parses_loop p n (fd_eval_consume s1) x \<longrightarrow> parses p s x" using parses_expression by simp
  moreover have "built s e n (fd_eval_consume s1)" by (rule built_then_consume[OF built_after_consume[OF n(2)]])
  ultimately show ?thesis using nt(2) unfolding parsed_def by blast
qed

lemma parsed_print:
  "next_node s \<le> heap_size s \<Longrightarrow> tokens_left s (print_at q e @ ts) tail \<Longrightarrow> expression_ok e \<Longrightarrow> p \<le> q \<Longrightarrow> q \<le> 7 \<Longrightarrow>
   follows q ts tail \<Longrightarrow> parsed p e s ts tail"
proof (induction e arbitrary: s p q ts tail)
  case (Value t)
  have tk: "tokens_left s (t # ts) tail" "number_token t \<or> name_token t" using Value(2,3) by simp_all
  then have v: "valid_token t" using valid_number valid_name by blast
  note nt = next_token[OF tk(1) v]
  obtain n s1 where n: "allocate (fd_eval_node_type_leaf (fd_eval_next s)) (fd_eval_consume s) = (n, s1)" by fastforce
  have "parses_highest s (n, s1)" using parses_value[of s] nt(1) tk(2) n by (simp add: allocate_eq)
  moreover have le: "next_node (fd_eval_consume s) \<le> heap_size (fd_eval_consume s)" using Value(1) by (simp add: consume_facts)
  have "built s (Value t) n s1"
    using built_after_consume[OF built_value[OF le n nt(1)]] nt(3) token_text_frame[OF consume_facts(1)] by metis
  moreover have "tokens_left s1 ts tail" using allocate_facts(2)[OF le n] nt(2) by simp
  ultimately show ?case using parses_expression unfolding parsed_def by blast
next
  case (Unary u e)
  have u: "u \<in> set fd_eval_unary_operators" "expression_ok e" using Unary(4) by simp_all
  have tk: "tokens_left s (uo_string u # print_at 7 e @ ts) tail" using Unary(3) by simp
  have v: "valid_token (uo_string u)" using valid_unary u(1) by blast
  note nt = next_token[OF tk v]
  have le: "next_node (fd_eval_consume s) \<le> heap_size (fd_eval_consume s)" using Unary(2) by (simp add: consume_facts)
  obtain n s1 where n: "\<forall>r. parses_loop 7 n s1 r \<longrightarrow> parses 7 (fd_eval_consume s) r" "built (fd_eval_consume s) e n s1" "tokens_left s1 ts tail"
    using Unary(1)[OF le nt(2) u(2) _ _ follows_mono[OF Unary(7,6)], of 7] unfolding parsed_def by auto
  have "uo_precedence u = 7" using unary_operator_facts u(1) by blast
  then have "parses (uo_precedence u) (fd_eval_consume s) (n, s1)" using n(1) parses_stop[OF stops_7] by simp
  moreover obtain k s2 where k: "allocate (fd_eval_node_type_unary u n) s1 = (k, s2)" by fastforce
  ultimately have "parses_highest s (k, s2)"
    using parses_unary[OF operator_of_string(1)[OF u(1) nt(1)], of n s1] by (simp add: allocate_eq)
  moreover have "built s (Unary u e) k s2" by (rule built_unary[OF Unary(2) built_after_consume[OF n(2)] k])
  moreover have "tokens_left s2 ts tail" using allocate_facts(2)[OF built_le[OF n(2)] k] n(3) by simp
  ultimately show ?case using parses_expression unfolding parsed_def by blast
next
  case (Binary b l r)
  have b: "b \<in> set fd_eval_binary_operators" "expression_ok l" "expression_ok r" "bi_precedence b + 1 \<le> 7"
    using Binary(5) binary_operator_facts by auto
  have core: "parsed p' (Binary b l r) s ts tail"
    if "p' \<le> bi_precedence b" "next_node s \<le> heap_size s" "follows (bi_precedence b) ts tail"
      "tokens_left s (print_at (bi_precedence b) l @ bi_string b # print_at (bi_precedence b + 1) r @ ts) tail" for p' s ts tail
  proof (rule parsed_binary[OF _ _ b(1) that(1,2,4,3)])
    show "parsed p' l s ts tail" if "next_node s \<le> heap_size s" "tokens_left s (print_at (bi_precedence b) l @ ts) tail"
      "follows (bi_precedence b) ts tail" for s ts tail
      using Binary(1)[OF that(1,2) b(2) _ _ that(3)] \<open>p' \<le> bi_precedence b\<close> b(4) by simp
    show "parsed (bi_precedence b + 1) r s ts tail" if "next_node s \<le> heap_size s" "tokens_left s (print_at (bi_precedence b + 1) r @ ts) tail"
      "follows (bi_precedence b + 1) ts tail" for s ts tail
      using Binary(2)[OF that(1,2) b(3) _ b(4) that(3)] by simp
  qed
  show ?case
  proof (cases "bi_precedence b < q")
    case True
    have tk: "tokens_left s (''('' # print_at (bi_precedence b) l @ bi_string b # print_at (bi_precedence b + 1) r @ '')'' # ts) tail"
      using Binary(4) True by (simp add: Let_def)
    have "parsed 0 (Binary b l r) (fd_eval_consume s) ('')'' # ts) tail"
      using core[OF _ _ follows_parenthesis next_token(2)[OF tk valid_parentheses(1)]] Binary(3) by (simp add: consume_facts)
    then show ?thesis by (rule parsed_parenthesis[OF tk])
  next
    case False
    then show ?thesis using core[of p s ts tail] Binary(3,4,6) follows_mono[OF Binary(8)] by (simp add: Let_def)
  qed
qed

section \<open>The meaning of an expression\<close>

definition decimal_value :: "string \<Rightarrow> fd_eval_value_t" where
  "decimal_value t = (if CHR ''.'' \<in> set t
     then fd_eval_value_initialize_real (double_of_decimal (int (digits_value (filter fd_eval_is_digit t)))
       (- int (length (tl (dropWhile fd_eval_is_digit t)))))
     else fd_eval_value_initialize_integer (min (int (digits_value t)) (2 ^ 63 - 1)))"

definition token_value :: "(string \<Rightarrow> fd_eval_value_t option) \<Rightarrow> string \<Rightarrow> fd_eval_value_t option" where
  "token_value look t = (if t = ''true'' \<or> t = ''false'' then Some (fd_eval_value_initialize_boolean True)
     else if fd_eval_is_digit (hd t) then Some (decimal_value t) else look t)"

fun meaning :: "(string \<Rightarrow> fd_eval_value_t option) \<Rightarrow> expression \<Rightarrow> fd_eval_value_t option" where
  "meaning look (Value t) = (case token_value look t of Some v \<Rightarrow> Some v | None \<Rightarrow> Some (fd_eval_value_initialize_boolean False))"
| "meaning look (Unary u e) = do { v \<leftarrow> meaning look e; unary_evaluate (uo_evaluate u) v }"
| "meaning look (Binary b l r) = do { v \<leftarrow> meaning look l; w \<leftarrow> meaning look r; binary_evaluate (bi_evaluate b) v w }"

fun all_defined :: "(string \<Rightarrow> fd_eval_value_t option) \<Rightarrow> expression \<Rightarrow> bool" where
  "all_defined look (Value t) \<longleftrightarrow> token_value look t \<noteq> None"
| "all_defined look (Unary u e) \<longleftrightarrow> all_defined look e"
| "all_defined look (Binary b l r) \<longleftrightarrow> all_defined look l \<and> all_defined look r"

lemma number_parts:
  assumes "number_token t"
  obtains ds where "t = ds" "ds \<noteq> []" "\<forall>c \<in> set ds. fd_eval_is_digit c"
  | ds fs where "t = ds @ CHR ''.'' # fs" "ds \<noteq> []" "\<forall>c \<in> set ds. fd_eval_is_digit c" "\<forall>c \<in> set fs. fd_eval_is_digit c"
  using assms unfolding number_token_def by blast

lemma no_point: "\<forall>c \<in> set ds. fd_eval_is_digit c \<Longrightarrow> CHR ''.'' \<notin> set ds"
  using not_space(3) by blast

lemma strtoll_token:
  "\<forall>c \<in> set t. fd_eval_is_digit c \<Longrightarrow> strtoll_10 (t @ CHR '' '' # u) = (min (int (digits_value t)) (2 ^ 63 - 1), length t)"
  by (simp add: strtoll_10_def takeWhile_then not_space)

lemma strtod_token:
  assumes "\<forall>c \<in> set ds. fd_eval_is_digit c" "\<forall>c \<in> set fs. fd_eval_is_digit c"
  shows "strtod_decimal ((ds @ CHR ''.'' # fs) @ CHR '' '' # u) =
    (double_of_decimal (int (digits_value (ds @ fs))) (- int (length fs)), length (ds @ CHR ''.'' # fs))"
  using assms by (simp add: strtod_decimal_def takeWhile_then not_space Let_def strtod_exponent_def)

lemma decimal_token:
  assumes "number_token (es_chars token)" "token_text token s = es_chars token @ CHR '' '' # u"
  shows "(if CHR ''.'' \<notin> set (es_chars token) then fd_eval_parse_integer token s else fd_eval_parse_real token s) =
    (decimal_value (es_chars token), s)"
  using assms(1)
proof (cases rule: number_parts)
  case (1 ds)
  then show ?thesis
    using assms(2) no_point[of ds] strtoll_token[of ds u]
    by (simp add: fd_eval_parse_integer_def decimal_value_def fd_eval_value_initialize_integer_def eval_assert_def fd_assert_def)
next
  case (2 ds fs)
  have "filter fd_eval_is_digit (ds @ CHR ''.'' # fs) = ds @ fs" using 2 not_space(3) by simp
  moreover have "dropWhile fd_eval_is_digit (ds @ CHR ''.'' # fs) = CHR ''.'' # fs" using 2 not_space(3) by (simp add: dropWhile_append)
  ultimately show ?thesis
    using assms(2) 2 strtod_token[of ds fs u]
    by (simp add: fd_eval_parse_real_def decimal_value_def fd_eval_value_initialize_real_def eval_assert_def fd_assert_def)
qed

section \<open>Evaluation\<close>

lemma token_text_error [simp]: "token_text token (s\<lparr>eval_error := x\<rparr>) = token_text token s"
  by (cases "es_string token") (simp_all add: token_text_def)

lemma represents_error [simp]: "represents (s\<lparr>eval_error := x\<rparr>) r e = represents s r e"
  by (induction e arbitrary: r) simp_all

definition symbols_by_name :: "(string \<Rightarrow> fd_eval_value_t option) \<Rightarrow> fd_eval_t \<Rightarrow> bool" where
  "symbols_by_name look s \<longleftrightarrow> eval_get_symbol_value s = (\<lambda>token. look (es_chars token)) \<and>
     eval_error_value s = fd_eval_value_initialize_boolean False"

lemma evaluate_token:
  assumes "number_token (es_chars token) \<or> name_token (es_chars token)" "symbols_by_name look s"
    and "token_text token s = es_chars token @ CHR '' '' # u"
  shows "\<exists>v. meaning look (Value (es_chars token)) = Some v \<and>
    fd_eval_evaluate_leaf token s = (v, s\<lparr>eval_error := (eval_error s \<or> \<not> all_defined look (Value (es_chars token)))\<rparr>)"
proof -
  obtain c cs where c: "es_chars token = c # cs" "fd_eval_is_digit c \<or> fd_eval_is_alphabetic c" by (rule value_head[OF assms(1)])
  show ?thesis
  proof (cases "fd_eval_is_digit c")
    case True
    then have "number_token (es_chars token)"
      using assms(1) c(1) digit_not_alphabetic[of c] by (auto simp: name_token_def)
    then have d: "(if CHR ''.'' \<notin> set (es_chars token) then fd_eval_parse_integer token s else fd_eval_parse_real token s) =
        (decimal_value (es_chars token), s)" using decimal_token assms(3) by blast
    have "c \<noteq> CHR ''t''" "c \<noteq> CHR ''f''" using True by (auto simp: fd_eval_is_digit_def)
    then show ?thesis using True c(1) d
      by (simp add: fd_eval_evaluate_leaf_def token_value_def fd_eval_string_equals_string_def)
  next
    case False
    show ?thesis
      using False c(1) assms(2)
      by (auto simp: fd_eval_evaluate_leaf_def token_value_def fd_eval_string_equals_string_def fd_eval_get_symbol_value_def
          symbols_by_name_def fd_eval_value_initialize_boolean_def split: option.splits)
  qed
qed

declare fd_eval_evaluate.simps [simp del]

lemma evaluate_represented:
  "represents s r e \<Longrightarrow> expression_ok e \<Longrightarrow> symbols_by_name look s \<Longrightarrow> next_node s \<le> heap_size s \<Longrightarrow>
   fd_eval_evaluate r s = Some (meaning look e, s\<lparr>eval_error := (eval_error s \<or> \<not> all_defined look e)\<rparr>)"
proof (induction e arbitrary: r s)
  case (Value t)
  obtain i token u where i: "r = heap_node i" "i < next_node s" "heap_nodes (eval_heap s) ! i = fd_eval_node_type_leaf token"
    "es_chars token = t" "token_text token s = t @ CHR '' '' # u" using Value(1) by auto
  then obtain v where "meaning look (Value t) = Some v"
      "fd_eval_evaluate_leaf token s = (v, s\<lparr>eval_error := (eval_error s \<or> \<not> all_defined look (Value t))\<rparr>)"
    using evaluate_token[of token look s u] Value(2,3) by auto
  then show ?case using i Value(4) by (subst fd_eval_evaluate.simps) (simp add: node_at_def rd_def)
next
  case (Unary u e)
  obtain i n where i: "r = heap_node i" "i < next_node s" "heap_nodes (eval_heap s) ! i = fd_eval_node_type_unary u n" "represents s n e"
    using Unary(2) by auto
  have "fd_eval_evaluate n s = Some (meaning look e, s\<lparr>eval_error := (eval_error s \<or> \<not> all_defined look e)\<rparr>)"
    using Unary(1)[OF i(4)] Unary(3-5) by simp
  then show ?case using i(1-3) Unary(5) by (subst fd_eval_evaluate.simps) (simp add: node_at_def rd_def)
next
  case (Binary b l r')
  obtain i n m where i: "r = heap_node i" "i < next_node s" "heap_nodes (eval_heap s) ! i = fd_eval_node_type_binary b n m"
    "represents s n l" "represents s m r'" using Binary(3) by auto
  define s1 where "s1 = s\<lparr>eval_error := (eval_error s \<or> \<not> all_defined look l)\<rparr>"
  have "fd_eval_evaluate n s = Some (meaning look l, s1)"
    using Binary(1)[OF i(4)] Binary(4-6) by (simp add: s1_def)
  moreover have "fd_eval_evaluate m s1 = Some (meaning look r', s1\<lparr>eval_error := (eval_error s1 \<or> \<not> all_defined look r')\<rparr>)"
    using Binary(2)[of s1 m] i(5) Binary(4-6) by (simp add: s1_def symbols_by_name_def)
  ultimately show ?case using i(1-3) Binary(6) by (subst fd_eval_evaluate.simps) (simp add: node_at_def rd_def s1_def disj_assoc)
qed

text \<open>A node for errors that is below itself is never evaluated to the end.\<close>

lemma evaluate_loops: "fd_eval_evaluate r s = Some y \<Longrightarrow> eval_error_node (snd y) = eval_error_node s \<and> \<not> (r = error_node \<and> loops s)"
proof (induction r s y rule: fd_eval_evaluate.raw_induct[rotated, consumes 1, case_names step])
  case (step evaluate r s y)
  have leaf: "eval_error_node (snd (fd_eval_evaluate_leaf token s)) = eval_error_node s" for token
    by (auto simp: fd_eval_evaluate_leaf_def fd_eval_parse_integer_def fd_eval_parse_real_def fd_eval_get_symbol_value_def
        eval_assert_def split: option.splits prod.splits)
  obtain node where node: "node_at s r = Some node" using step(2) by (auto split: Option.bind_splits)
  show ?case
  proof (cases node)
    case (fd_eval_node_type_leaf token)
    then show ?thesis using step(2) node leaf[of token] by (auto simp: node_at_def loops_def split: prod.splits)
  next
    case (fd_eval_node_type_unary operator n)
    then obtain v s1 where e: "evaluate n s = Some (v, s1)" "snd y = s1" using step(2) node by (auto split: Option.bind_splits)
    then show ?thesis using step(1)[OF e(1)] node fd_eval_node_type_unary by (auto simp: node_at_def loops_def)
  next
    case (fd_eval_node_type_binary operator n m)
    then obtain v s1 w s2 where e: "evaluate n s = Some (v, s1)" "evaluate m s1 = Some (w, s2)" "snd y = s2"
      using step(2) node by (auto split: Option.bind_splits)
    then show ?thesis using step(1)[OF e(1)] step(1)[OF e(2)] node fd_eval_node_type_binary by (auto simp: node_at_def loops_def)
  qed
qed

section \<open>From the text to the result\<close>

declare fd_eval_highest_priority.simps [simp del] fd_eval_expression.simps [simp del] expression_loop.simps [simp del]

lemma stops_1: "stops 1 s \<Longrightarrow> stops 0 s"
proof -
  have "\<forall>b \<in> set fd_eval_binary_operators. 1 \<le> bi_precedence b" by (simp add: fd_eval_binary_operators_def)
  then show "stops 1 s \<Longrightarrow> stops 0 s" using is_binary_operator[of "fd_eval_next s"] by (force simp: stops_def split: option.splits)
qed

definition eval_start :: "string \<Rightarrow> nat \<Rightarrow> fd_eval_node_t list \<Rightarrow> (fd_eval_string_t \<Rightarrow> fd_eval_value_t option) option \<Rightarrow> fd_eval_t" where
  "eval_start text n heap get = eval_zero\<lparr>eval_text := text, eval_length := n, eval_heap := \<lparr>heap_nodes = heap, heap_index = 0\<rparr>,
     eval_get_symbol_value := (case get of Some f \<Rightarrow> f | None \<Rightarrow> fd_eval_get_symbol_value_default)\<rparr>"

lemma eval_start_facts [simp]:
  "eval_text (eval_start text n heap get) = text" "eval_length (eval_start text n heap get) = n" "eval_input_index (eval_start text n heap get) = 0"
  "eval_heap (eval_start text n heap get) = \<lparr>heap_nodes = heap, heap_index = 0\<rparr>" "eval_error (eval_start text n heap get) = False"
  "eval_log (eval_start text n heap get) = []" "eval_error_value (eval_start text n heap get) = fd_eval_value_initialize_boolean False"
  "eval_get_symbol_value (eval_start text n heap (Some f)) = f"
  by (simp_all add: eval_start_def eval_zero_def fd_eval_value_initialize_boolean_def)

lemma parse_eq: "fd_eval_parse text n heap get eval_zero =
   do { (tree, s) \<leftarrow> fd_eval_expression (2 * n + 2) 0 (eval_start text n heap get);
        Some (fd_eval_expect \<lparr>es_string = None, es_chars = []\<rparr> (s\<lparr>eval_tree := tree\<rparr>)) }"
  by (simp add: fd_eval_parse_def parser_fuel_def eval_start_def eval_zero_def Let_def)

lemma built_tree:
  assumes "built s e n s'" shows "built s e n (s'\<lparr>eval_tree := t\<rparr>)"
proof -
  have f: "frame (s'\<lparr>eval_tree := t\<rparr>) s'" by (simp add: frame_def same_text_def)
  have l: "loops (s'\<lparr>eval_tree := t\<rparr>) = loops s'" by (simp add: loops_def)
  have h: "eval_heap (s'\<lparr>eval_tree := t\<rparr>) = eval_heap s'" "eval_error (s'\<lparr>eval_tree := t\<rparr>) = eval_error s'" by simp_all
  show ?thesis using assms represents_frame[OF _ f, of n e] frame_trans[OF f, of s] unfolding built_def l h by blast
qed

lemma parse_printed:
  assumes "expression_ok e" "follows 0 ts tail" "text = spaced (print_at 0 e @ ts) @ tail"
  shows "\<exists>n s. fd_eval_parse text (length text) heap get eval_zero = Some (fd_eval_expect \<lparr>es_string = None, es_chars = []\<rparr> s) \<and>
    built (eval_start text (length text) heap get) e n s \<and> tokens_left s ts tail \<and> eval_tree s = n"
proof -
  define s0 where "s0 = eval_start text (length text) heap get"
  have "drop (eval_input_index s0) (eval_text s0) = replicate 0 CHR '' '' @ spaced (print_at 0 e @ ts) @ tail"
    using assms(3) by (simp add: s0_def)
  then have "tokens_left s0 (print_at 0 e @ ts) tail" unfolding tokens_left_def by (metis eval_start_facts(1-3) le0 s0_def)
  then have "parsed 0 e s0 ts tail" using parsed_print[of s0 0 e ts tail 0] assms(1,2) by (simp add: s0_def)
  then obtain n s1 where n: "\<forall>r. parses_loop 0 n s1 r \<longrightarrow> parses 0 s0 r" "built s0 e n s1" "tokens_left s1 ts tail"
    unfolding parsed_def by blast
  have "parses 0 s0 (n, s1)" using n(1) parses_stop[OF stops_1[OF follows_stops[OF n(3) assms(2)]]] by simp
  then have "fd_eval_expression (2 * length text + 2) 0 s0 = Some (n, s1)"
    using parser_fuel_enough by (fastforce simp: s0_def text_left_def)
  then have "fd_eval_parse text (length text) heap get eval_zero = Some (fd_eval_expect \<lparr>es_string = None, es_chars = []\<rparr> (s1\<lparr>eval_tree := n\<rparr>))"
    by (simp add: parse_eq s0_def)
  moreover have "built s0 e n (s1\<lparr>eval_tree := n\<rparr>)" by (rule built_tree[OF n(2)])
  moreover have "tokens_left (s1\<lparr>eval_tree := n\<rparr>) ts tail" using n(3) by (simp add: tokens_left_def)
  ultimately show ?thesis unfolding s0_def by fastforce
qed

lemma expect_end:
  "es_chars (fd_eval_next s) = [] \<Longrightarrow> fd_eval_expect \<lparr>es_string = None, es_chars = []\<rparr> s = fd_eval_consume s"
  "es_chars (fd_eval_next s) \<noteq> [] \<Longrightarrow> eval_error (fd_eval_expect \<lparr>es_string = None, es_chars = []\<rparr> s)"
  by (simp_all add: fd_eval_expect_def fd_eval_string_equals_string_def Let_def)

lemma parse_printed_end:
  assumes "expression_ok e" "no_token tail" "text = print_expression e @ tail"
  shows "\<exists>n s. fd_eval_parse text (length text) heap get eval_zero = Some s \<and>
    built (eval_start text (length text) heap get) e n s \<and> eval_tree s = n"
proof -
  obtain n s where n: "fd_eval_parse text (length text) heap get eval_zero = Some (fd_eval_expect \<lparr>es_string = None, es_chars = []\<rparr> s)"
      "built (eval_start text (length text) heap get) e n s" "tokens_left s [] tail" "eval_tree s = n"
    using parse_printed[of e "[]" tail "text" heap get] assms by (auto simp: follows_def print_expression_def)
  have "fd_eval_expect \<lparr>es_string = None, es_chars = []\<rparr> s = fd_eval_consume s" by (rule expect_end(1)[OF next_none[OF n(3) assms(2)]])
  moreover have "eval_tree (fd_eval_consume s) = n" using n(4) by (simp add: fd_eval_consume_def Let_def split: option.splits)
  ultimately show ?thesis using n(1) built_then_consume[OF n(2)] by auto
qed

lemma calculate_represented:
  assumes "fd_eval_parse text (length text) heap (Some (\<lambda>token. look (es_chars token))) eval_zero = Some s"
    and "built (eval_start text (length text) heap (Some (\<lambda>token. look (es_chars token)))) e (eval_tree s) s"
    and "expression_ok e" "node_count e \<le> length heap"
  shows "fd_eval_calculate text (length text) heap (Some (\<lambda>token. look (es_chars token))) =
    Some (\<lparr>result_success = all_defined look e, result_value = meaning look e\<rparr>, [])"
proof -
  define s0 where "s0 = eval_start text (length text) heap (Some (\<lambda>token. look (es_chars token)))"
  have b: "built s0 e (eval_tree s) s" using assms(2) by (simp add: s0_def)
  have r: "represents s (eval_tree s) e" using built_represents[OF b] assms(4) by (simp add: s0_def)
  have f: "eval_get_symbol_value s = (\<lambda>token. look (es_chars token))" "eval_error_value s = fd_eval_value_initialize_boolean False"
    "eval_log s = []" using built_facts(1)[OF b] by (simp_all add: frame_def s0_def)
  have "eval_error s \<longleftrightarrow> eval_error s0 \<or> 0 < heap_size s0 \<and> heap_size s0 < next_node s0 + node_count e" using b unfolding built_def by blast
  then have e: "\<not> eval_error s" using assms(4) by (simp add: s0_def)
  have "symbols_by_name look s" using f by (simp add: symbols_by_name_def)
  from evaluate_represented[OF r assms(3) this built_le[OF b]] show ?thesis
    using assms(1) f(3) e by (simp add: fd_eval_calculate_def)
qed

lemma calculate_printed:
  assumes "expression_ok e" "node_count e \<le> length heap"
  shows "fd_eval_calculate (print_expression e) (length (print_expression e)) heap (Some (\<lambda>token. look (es_chars token))) =
    Some (\<lparr>result_success = all_defined look e, result_value = meaning look e\<rparr>, [])"
  using parse_printed_end[of e "[]" "print_expression e" heap] calculate_represented[OF _ _ assms] assms(1)
  by (fastforce simp: no_token_def)

text \<open>C27: \<open>fd_eval_calculate\<close> on the text of an expression, printed with the parentheses that the precedences and the
  association to the left call for: with a heap for the nodes, and symbols looked up by name, it returns the meaning of the
  expression, a success exactly when all its symbols are defined, and no assertion fails.\<close>
theorem fd_eval_calculate_expression:
  assumes "expression_ok e" "node_count e \<le> length heap"
  shows "fd_eval_calculate (print_expression e) (length (print_expression e)) heap (Some (\<lambda>token. look (es_chars token))) =
    Some (\<lparr>result_success = all_defined look e, result_value = meaning look e\<rparr>, [])"
  by (rule calculate_printed[OF assms])

text \<open>C30: With a heap that is two nodes short of the expression, or more, the node for errors is below itself, and
  \<open>fd_eval_calculate\<close> does not return.\<close>
theorem fd_eval_calculate_heap_exhausted:
  assumes "expression_ok e" "length heap + 2 \<le> node_count e"
  shows "fd_eval_calculate (print_expression e) (length (print_expression e)) heap get = None"
proof -
  define s0 where "s0 = eval_start (print_expression e) (length (print_expression e)) heap get"
  obtain n s where n: "fd_eval_parse (print_expression e) (length (print_expression e)) heap get eval_zero = Some s"
      "built s0 e n s" "eval_tree s = n"
    using parse_printed_end[of e "[]" "print_expression e" heap get] assms(1) by (auto simp: no_token_def s0_def)
  have "heap_size s0 + 1 < next_node s0 + node_count e" using assms(2) by (simp add: s0_def)
  then have "loops s" "n = error_node" using n(2) unfolding built_def by auto
  then have "fd_eval_evaluate n s = None" using evaluate_loops[of n s] by (cases "fd_eval_evaluate n s") auto
  then show ?thesis using n by (simp add: fd_eval_calculate_def)
qed

text \<open>\<open>fd_eval_check\<close> accepts the text of every expression, also with something after it that begins no token: the
  token of length 0 for an illegal character is taken for the end of the input.\<close>
theorem fd_eval_check_illegal_tail:
  assumes "expression_ok e" "no_token tail"
  shows "fd_eval_check (print_expression e @ tail) (length (print_expression e @ tail)) = Some True"
proof -
  obtain n s where n: "fd_eval_parse (print_expression e @ tail) (length (print_expression e @ tail)) [] None eval_zero = Some s"
      "built (eval_start (print_expression e @ tail) (length (print_expression e @ tail)) [] None) e n s"
    using parse_printed_end[OF assms refl, of "[]" None] by blast
  then have "\<not> eval_error s" by (simp add: built_def)
  then show ?thesis using n(1) by (simp add: fd_eval_check_def)
qed

text \<open>\<open>fd_eval_check\<close> rejects an expression that a token follows that is no operator between expressions.\<close>
theorem fd_eval_check_rejects:
  assumes "expression_ok e" "valid_token t" "\<forall>b \<in> set fd_eval_binary_operators. bi_string b \<noteq> t"
  shows "fd_eval_check (print_expression e @ t @ '' '' @ tail) (length (print_expression e @ t @ '' '' @ tail)) = Some False"
proof -
  let ?text = "print_expression e @ t @ '' '' @ tail"
  have "follows 0 [t] tail" using assms(2,3) by (simp add: follows_def)
  then obtain n s where n: "fd_eval_parse ?text (length ?text) [] None eval_zero = Some (fd_eval_expect \<lparr>es_string = None, es_chars = []\<rparr> s)"
      "tokens_left s [t] tail"
    using parse_printed[OF assms(1), of "[t]" tail ?text "[]" None] by (auto simp: print_expression_def)
  have "es_chars (fd_eval_next s) \<noteq> []" using next_token(1)[OF n(2) assms(2)] assms(2) by (simp add: valid_token_def)
  from expect_end(2)[OF this] show ?thesis using n(1) by (simp add: fd_eval_check_def)
qed

text \<open>C31: The parser returns on every text and with every heap, no deeper in its recursion than two calls for each character
  and two more.\<close>
theorem fd_eval_parse_total: "\<exists>s'. fd_eval_parse text n heap get s = Some s'"
proof -
  define s0 where "s0 = s\<lparr>eval_text := text, eval_length := n, eval_heap := (eval_heap s)\<lparr>heap_nodes := heap\<rparr>,
    eval_get_symbol_value := (case get of Some f \<Rightarrow> f | None \<Rightarrow> fd_eval_get_symbol_value_default)\<rparr>"
  have "2 * text_left s0 + 2 \<le> parser_fuel s0" by (simp add: s0_def text_left_def parser_fuel_def)
  then obtain m s' where "fd_eval_expression (parser_fuel s0) 0 s0 = Some (m, s')" using parser_total(2)[of s0 "parser_fuel s0" 0] by auto
  then show ?thesis by (simp add: fd_eval_parse_def s0_def Let_def)
qed

section \<open>Integer arithmetic\<close>

fun arithmetic :: "expression \<Rightarrow> bool" where
  "arithmetic (Value t) \<longleftrightarrow> t \<noteq> [] \<and> (\<forall>c \<in> set t. fd_eval_is_digit c)"
| "arithmetic (Unary u e) \<longleftrightarrow> u \<in> set fd_eval_unary_operators \<and> uo_string u \<noteq> ''!'' \<and> arithmetic e"
| "arithmetic (Binary b l r) \<longleftrightarrow> b \<in> set fd_eval_binary_operators \<and> bi_string b \<in> {''*'', ''/'', ''+'', ''-''} \<and> arithmetic l \<and> arithmetic r"

text \<open>The value in the integers; none when a literal or a result on the way does not fit 64 bits. Division truncates, and
  division by zero gives zero.\<close>

fun integer_value :: "expression \<Rightarrow> int option" where
  "integer_value (Value t) = int64_result (int (digits_value t))"
| "integer_value (Unary u e) = do { i \<leftarrow> integer_value e; int64_result (if uo_string u = ''-'' then - i else i) }"
| "integer_value (Binary b l r) = do { i \<leftarrow> integer_value l; j \<leftarrow> integer_value r;
     int64_result (if bi_string b = ''*'' then i * j else if bi_string b = ''/'' then if j = 0 then 0 else i sdiv j
       else if bi_string b = ''+'' then i + j else i - j) }"

lemma number_token_digits: "t \<noteq> [] \<Longrightarrow> \<forall>c \<in> set t. fd_eval_is_digit c \<Longrightarrow> number_token t"
  unfolding number_token_def by blast

lemma arithmetic_ok: "arithmetic e \<Longrightarrow> expression_ok e"
proof (induction e)
  case (Value t)
  then show ?case using number_token_digits by simp
qed simp_all

lemma ev_integer_initialize: "int64_result i = Some j \<Longrightarrow> ev_integer (fd_eval_value_initialize_integer i) = i \<and> j = i"
  using signed_take_bit_int_eq_self_iff[of 63 i]
  by (auto simp: int64_result_def ev_integer_def fd_eval_value_initialize_integer_def with_integer_def signed_of_int split: if_splits)

lemma ev_type_initialize [simp]: "ev_type (fd_eval_value_initialize_integer i) = fd_eval_value_type_integer"
  by (simp add: fd_eval_value_initialize_integer_def with_integer_def)

lemma integer_value_fits: "integer_value e = Some i \<Longrightarrow> int64_result i = Some i"
  by (cases e) (auto simp: int64_result_def split: if_splits Option.bind_splits)

lemma unary_integer:
  assumes "u \<in> set fd_eval_unary_operators" "uo_string u \<noteq> ''!''" "int64_result i = Some i"
    and "int64_result (if uo_string u = ''-'' then - i else i) = Some j"
  shows "unary_evaluate (uo_evaluate u) (fd_eval_value_initialize_integer i) = Some (fd_eval_value_initialize_integer j)"
proof -
  have v: "ev_integer (fd_eval_value_initialize_integer i) = i" using ev_integer_initialize[OF assms(3)] by simp
  have j: "j = (if uo_string u = ''-'' then - i else i)" using assms(4) by (simp add: int64_result_def split: if_splits)
  from assms(1) consider "u = \<lparr>uo_string = ''+'', uo_precedence = 7, uo_evaluate = unary_plus\<rparr>"
    | "u = \<lparr>uo_string = ''-'', uo_precedence = 7, uo_evaluate = unary_minus\<rparr>" using assms(2) by (auto simp: fd_eval_unary_operators_def)
  then show ?thesis
  proof cases
    case 1
    then show ?thesis using j by (simp add: fd_eval_unary_plus_evaluate_def)
  next
    case 2
    then show ?thesis using j assms(4) v
      by (simp add: fd_eval_unary_minus_evaluate_def) (simp add: fd_eval_value_initialize_integer_def)
  qed
qed

lemma binary_integer:
  assumes "b \<in> set fd_eval_binary_operators" "bi_string b \<in> {''*'', ''/'', ''+'', ''-''}" "int64_result i = Some i" "int64_result j = Some j"
    and "int64_result (if bi_string b = ''*'' then i * j else if bi_string b = ''/'' then if j = 0 then 0 else i sdiv j
       else if bi_string b = ''+'' then i + j else i - j) = Some k"
  shows "binary_evaluate (bi_evaluate b) (fd_eval_value_initialize_integer i) (fd_eval_value_initialize_integer j) =
    Some (fd_eval_value_initialize_integer k)"
proof -
  have v: "ev_integer (fd_eval_value_initialize_integer i) = i" "ev_integer (fd_eval_value_initialize_integer j) = j"
    using ev_integer_initialize[OF assms(3)] ev_integer_initialize[OF assms(4)] by simp_all
  have ev: "fd_eval_binary_evaluate (fd_eval_value_initialize_integer i) (fd_eval_value_initialize_integer j) operation =
      map_option fd_eval_value_initialize_integer (bo_integer operation i j)" for operation
    using v by (cases "bo_integer operation i j") (simp_all add: fd_eval_binary_evaluate_def fd_eval_as_integer_def fd_eval_value_initialize_integer_def with_integer_def)
  from assms(1) consider "bi_string b = ''*''" "bi_evaluate b = binary_multiply" | "bi_string b = ''/''" "bi_evaluate b = binary_divide"
    | "bi_string b = ''+''" "bi_evaluate b = binary_add" | "bi_string b = ''-''" "bi_evaluate b = binary_subtract"
    using assms(2) by (auto simp: fd_eval_binary_operators_def)
  then show ?thesis
    using assms(5) by cases (auto simp: ev fd_eval_binary_multiply_evaluate_def fd_eval_binary_divide_evaluate_def
        fd_eval_binary_add_evaluate_def fd_eval_binary_subtract_evaluate_def int64_result_def split: if_splits)
qed

lemma meaning_arithmetic:
  "arithmetic e \<Longrightarrow> integer_value e = Some i \<Longrightarrow> meaning look e = Some (fd_eval_value_initialize_integer i) \<and> all_defined look e"
proof (induction e arbitrary: i)
  case (Value t)
  then obtain c cs where c: "t = c # cs" "fd_eval_is_digit c" by (cases t) auto
  have "CHR ''.'' \<notin> set t" using no_point Value(1) by simp
  moreover have "c \<noteq> CHR ''t''" "c \<noteq> CHR ''f''" using c(2) by (auto simp: fd_eval_is_digit_def)
  ultimately have "token_value look t = Some (fd_eval_value_initialize_integer (min (int (digits_value t)) (2 ^ 63 - 1)))"
    using c by (simp add: token_value_def decimal_value_def)
  moreover have "int (digits_value t) < 2 ^ 63" "i = int (digits_value t)" using Value(2) by (simp_all add: int64_result_def split: if_splits)
  ultimately show ?case by (simp add: min_def)
next
  case (Unary u e)
  obtain j where j: "integer_value e = Some j" "int64_result (if uo_string u = ''-'' then - j else j) = Some i"
    using Unary(3) by (auto split: Option.bind_splits)
  have "meaning look e = Some (fd_eval_value_initialize_integer j) \<and> all_defined look e" using Unary(1)[OF _ j(1)] Unary(2) by simp
  then show ?case using unary_integer[OF _ _ integer_value_fits[OF j(1)] j(2)] Unary(2) by simp
next
  case (Binary b l r)
  obtain j k where j: "integer_value l = Some j" "integer_value r = Some k"
    and i: "int64_result (if bi_string b = ''*'' then j * k else if bi_string b = ''/'' then if k = 0 then 0 else j sdiv k
       else if bi_string b = ''+'' then j + k else j - k) = Some i"
    using Binary(4) by (auto split: Option.bind_splits simp del: if_split)
  have "meaning look l = Some (fd_eval_value_initialize_integer j) \<and> all_defined look l"
    "meaning look r = Some (fd_eval_value_initialize_integer k) \<and> all_defined look r"
    using Binary(1)[OF _ j(1)] Binary(2)[OF _ j(2)] Binary(3) by simp_all
  then show ?case using binary_integer[OF _ _ integer_value_fits[OF j(1)] integer_value_fits[OF j(2)] i] Binary(3) by simp
qed

text \<open>C28: Integer arithmetic: with a heap for its nodes, the text of an expression of integers, signs and the four operations
  evaluates to its value in the integers, as long as it fits 64 bits all the way.\<close>
theorem fd_eval_calculate_integer:
  assumes "arithmetic e" "integer_value e = Some i" "node_count e \<le> length heap"
  shows "fd_eval_calculate (print_expression e) (length (print_expression e)) heap (Some (\<lambda>token. look (es_chars token))) =
    Some (\<lparr>result_success = True, result_value = Some (fd_eval_value_initialize_integer i)\<rparr>, [])"
  using calculate_printed[OF arithmetic_ok[OF assms(1)] assms(3)] meaning_arithmetic[OF assms(1,2), of look] by simp

lemma false_is_true: "fd_eval_calculate ''false'' 5 [node] None =
  Some (\<lparr>result_success = True, result_value = Some (fd_eval_value_initialize_boolean True)\<rparr>, [])"
  apply code_simp
  apply (subst fd_eval_evaluate.simps)
  apply code_simp
  done

section \<open>The type of an expression\<close>

text \<open>The types in the order of the promotions.\<close>

fun type_rank :: "fd_eval_value_type_t \<Rightarrow> nat" where
  "type_rank fd_eval_value_type_boolean = 0"
| "type_rank fd_eval_value_type_integer = 1"
| "type_rank fd_eval_value_type_real = 2"

instantiation fd_eval_value_type_t :: linorder
begin

definition less_eq_fd_eval_value_type_t :: "fd_eval_value_type_t \<Rightarrow> fd_eval_value_type_t \<Rightarrow> bool" where
  "less_eq_fd_eval_value_type_t a b \<longleftrightarrow> type_rank a \<le> type_rank b"

definition less_fd_eval_value_type_t :: "fd_eval_value_type_t \<Rightarrow> fd_eval_value_type_t \<Rightarrow> bool" where
  "less_fd_eval_value_type_t a b \<longleftrightarrow> type_rank a < type_rank b"

instance
proof
  show "x = y" if "x \<le> y" "y \<le> x" for x y :: fd_eval_value_type_t
    using that by (cases x; cases y) (simp_all add: less_eq_fd_eval_value_type_t_def)
qed (auto simp: less_eq_fd_eval_value_type_t_def less_fd_eval_value_type_t_def)

end

fun expression_type :: "(string \<Rightarrow> fd_eval_value_t option) \<Rightarrow> expression \<Rightarrow> fd_eval_value_type_t" where
  "expression_type look (Value t) = (case token_value look t of Some v \<Rightarrow> ev_type v | None \<Rightarrow> fd_eval_value_type_boolean)"
| "expression_type look (Unary u e) = (if uo_string u = ''!'' then fd_eval_value_type_boolean else expression_type look e)"
| "expression_type look (Binary b l r) = (if bi_string b \<in> {''*'', ''/'', ''+'', ''-''}
     then max (expression_type look l) (expression_type look r) else fd_eval_value_type_boolean)"

lemma unary_type:
  assumes "u \<in> set fd_eval_unary_operators" "unary_evaluate (uo_evaluate u) v = Some w"
  shows "ev_type w = (if uo_string u = ''!'' then fd_eval_value_type_boolean else ev_type v)"
  using assms by (auto simp: fd_eval_unary_operators_def fd_eval_unary_plus_evaluate_def fd_eval_unary_minus_evaluate_def
      fd_eval_unary_not_evaluate_def with_boolean_def with_integer_def with_real_def
      split: fd_eval_value_type_t.splits Option.bind_splits)

lemma binary_evaluate_type: "fd_eval_binary_evaluate v w operation = Some x \<Longrightarrow> ev_type x = max (ev_type v) (ev_type w)"
  by (cases "ev_type v"; cases "ev_type w")
    (auto simp: fd_eval_binary_evaluate_def with_boolean_def with_integer_def with_real_def max_def less_eq_fd_eval_value_type_t_def
      split: Option.bind_splits)

lemmas arithmetic_evaluate_defs = fd_eval_binary_multiply_evaluate_def fd_eval_binary_divide_evaluate_def
  fd_eval_binary_add_evaluate_def fd_eval_binary_subtract_evaluate_def

lemmas boolean_evaluate_defs = fd_eval_binary_less_than_or_equal_to_evaluate_def fd_eval_binary_less_than_evaluate_def
  fd_eval_binary_greater_than_or_equal_to_evaluate_def fd_eval_binary_greater_than_evaluate_def fd_eval_binary_equal_to_evaluate_def
  fd_eval_binary_not_equal_to_evaluate_def fd_eval_binary_and_evaluate_def fd_eval_binary_or_evaluate_def
  fd_eval_binary_boolean_evaluate_def fd_eval_binary_boolean_demote_evaluate_def

lemma binary_type:
  assumes "b \<in> set fd_eval_binary_operators" "binary_evaluate (bi_evaluate b) v w = Some x"
  shows "ev_type x = (if bi_string b \<in> {''*'', ''/'', ''+'', ''-''} then max (ev_type v) (ev_type w) else fd_eval_value_type_boolean)"
proof -
  have "bi_string b \<in> {''*'', ''/'', ''+'', ''-''} \<and> (\<exists>operation. binary_evaluate (bi_evaluate b) v w = fd_eval_binary_evaluate v w operation) \<or>
      bi_string b \<notin> {''*'', ''/'', ''+'', ''-''} \<and> (\<exists>c. binary_evaluate (bi_evaluate b) v w = Some (with_boolean fd_eval_value_type_boolean c))"
    using assms(1) unfolding fd_eval_binary_operators_def
    by (auto simp: arithmetic_evaluate_defs boolean_evaluate_defs Let_def)
  then show ?thesis using assms(2) binary_evaluate_type by (auto simp: with_boolean_def)
qed

lemma meaning_type: "expression_ok e \<Longrightarrow> meaning look e = Some v \<Longrightarrow> ev_type v = expression_type look e"
proof (induction e arbitrary: v)
  case (Value t)
  then show ?case by (auto simp: fd_eval_value_initialize_boolean_def with_boolean_def split: option.splits)
next
  case (Unary u e)
  obtain w where w: "meaning look e = Some w" "unary_evaluate (uo_evaluate u) w = Some v"
    using Unary(3) by (auto split: Option.bind_splits)
  show ?case using unary_type[OF _ w(2)] Unary(1)[OF _ w(1)] Unary(2) by simp
next
  case (Binary b l r)
  obtain w x where w: "meaning look l = Some w" "meaning look r = Some x" "binary_evaluate (bi_evaluate b) w x = Some v"
    using Binary(4) by (auto split: Option.bind_splits)
  have "ev_type w = expression_type look l" "ev_type x = expression_type look r"
    using Binary(1)[OF _ w(1)] Binary(2)[OF _ w(2)] Binary(3) by simp_all
  then show ?case unfolding expression_type.simps using binary_type[OF _ w(3)] Binary(3) by simp
qed

text \<open>C29: A value that \<open>fd_eval_calculate\<close> returns has the type of the expression: of the operands the one promoted to for
  arithmetic, boolean for comparisons and logic.\<close>
theorem fd_eval_calculate_type:
  assumes "expression_ok e" "node_count e \<le> length heap"
    and "fd_eval_calculate (print_expression e) (length (print_expression e)) heap (Some (\<lambda>token. look (es_chars token))) = Some (result, asserts)"
    and "result_value result = Some v"
  shows "ev_type v = expression_type look e"
proof -
  have "meaning look e = Some v" using calculate_printed[OF assms(1,2), of look] assms(3,4) by auto
  then show ?thesis by (rule meaning_type[OF assms(1)])
qed

section \<open>Concrete instances\<close>

text \<open>The product of a symbol and a sum, in parentheses.\<close>

definition instance_expression :: expression where
  "instance_expression = Binary (fd_eval_binary_operators ! 0) (Value ''a'')
     (Binary (fd_eval_binary_operators ! 2) (Value ''1'') (Unary (fd_eval_unary_operators ! 1) (Value ''5'')))"

definition instance_heap :: "fd_eval_node_t list" where
  "instance_heap = replicate 6 (fd_eval_node_type_leaf \<lparr>es_string = None, es_chars = []\<rparr>)"

definition instance_look :: "string \<Rightarrow> fd_eval_value_t option" where
  "instance_look name = (if name = ''a'' then Some (fd_eval_value_initialize_integer 7) else None)"

lemma instance_ok: "expression_ok instance_expression"
  by (simp add: instance_expression_def fd_eval_binary_operators_def fd_eval_unary_operators_def number_token_digits
      name_token_def fd_eval_is_digit_def fd_eval_is_identifier_def fd_eval_is_alphabetic_def)

lemma instance_text: "print_expression instance_expression = ''a * ( 1 + - 5 ) ''"
  by code_simp

lemma instance_meaning: "meaning instance_look instance_expression = Some (fd_eval_value_initialize_integer (- 28))"
  "all_defined instance_look instance_expression" "node_count instance_expression = 6" "length instance_heap = 6"
  by code_simp+

lemma fd_eval_calculate_expression_witness:
  "fd_eval_calculate ''a * ( 1 + - 5 ) '' 16 instance_heap (Some (\<lambda>token. instance_look (es_chars token))) =
   Some (\<lparr>result_success = True, result_value = Some (fd_eval_value_initialize_integer (- 28))\<rparr>, [])"
  using fd_eval_calculate_expression[OF instance_ok, of instance_heap instance_look]
  by (simp add: instance_meaning instance_text eval_nat_numeral)

lemma fd_eval_calculate_heap_exhausted_witness:
  "fd_eval_calculate ''a * ( 1 + - 5 ) '' 16 (take 4 instance_heap) None = None"
  using fd_eval_calculate_heap_exhausted[OF instance_ok, of "take 4 instance_heap" None]
  by (simp add: instance_meaning instance_text eval_nat_numeral)

lemma fd_eval_check_illegal_tail_witness: "fd_eval_check ''a * ( 1 + - 5 ) #?'' 18 = Some True"
proof -
  have "no_token ''#?''" by code_simp
  from fd_eval_check_illegal_tail[OF instance_ok this] show ?thesis by (simp add: instance_text eval_nat_numeral)
qed

lemma fd_eval_check_rejects_witness: "fd_eval_check ''a * ( 1 + - 5 ) ) '' 18 = Some False"
proof -
  have "\<forall>b \<in> set fd_eval_binary_operators. bi_string b \<noteq> '')''" by code_simp
  from fd_eval_check_rejects[OF instance_ok valid_parentheses(2) this, of "[]"] show ?thesis by (simp add: instance_text eval_nat_numeral)
qed

lemma fd_eval_calculate_integer_witness:
  "fd_eval_calculate ''7 - 2 '' 6 instance_heap (Some (\<lambda>token. instance_look (es_chars token))) =
   Some (\<lparr>result_success = True, result_value = Some (fd_eval_value_initialize_integer 5)\<rparr>, [])"
proof -
  let ?e = "Binary (fd_eval_binary_operators ! 3) (Value ''7'') (Value ''2'')"
  have "arithmetic ?e" "integer_value ?e = Some 5" "node_count ?e \<le> length instance_heap" "print_expression ?e = ''7 - 2 ''"
    by code_simp+
  with fd_eval_calculate_integer[of ?e 5 instance_heap instance_look] show ?thesis by (simp add: eval_nat_numeral)
qed

lemma fd_eval_calculate_type_witness:
  "\<exists>v. fd_eval_calculate ''a * ( 1 + - 5 ) '' 16 instance_heap (Some (\<lambda>token. instance_look (es_chars token))) =
      Some (\<lparr>result_success = True, result_value = Some v\<rparr>, []) \<and> ev_type v = fd_eval_value_type_integer"
proof -
  let ?text = "print_expression instance_expression" and ?get = "Some (\<lambda>token. instance_look (es_chars token))"
  have c: "fd_eval_calculate ?text (length ?text) instance_heap ?get =
      Some (\<lparr>result_success = True, result_value = Some (fd_eval_value_initialize_integer (- 28))\<rparr>, [])"
    using calculate_printed[OF instance_ok, of instance_heap instance_look] by (simp add: instance_meaning)
  have "expression_type instance_look instance_expression = fd_eval_value_type_integer" by code_simp
  then have "ev_type (fd_eval_value_initialize_integer (- 28)) = fd_eval_value_type_integer"
    using fd_eval_calculate_type[OF instance_ok _ c] by (simp add: instance_meaning)
  with c show ?thesis by (simp add: instance_text eval_nat_numeral)
qed

end
