(* ===== verification/FD_Float.thy ===== *)
theory FD_Float imports FD_Prelude "HOL-Library.Log_Nat" begin

text \<open>
  The \<open>float\<close> of C: binary32 numbers, rounded to nearest, ties to even. A finite float is a whole number of units of 2^-149,
  so that sums, products and quotients are exact ratios of such numbers that \<open>float_round\<close> rounds once.

  \<open>float_units\<close> reads the bits. Where the bits of a float do not matter its value, the number of units, stands for it
  (the type \<open>real32\<close>); the values computed this way stay far below the 2^277 units from which on a float is infinite.
\<close>

text \<open>The float nearest to a ratio that is not negative.\<close>

definition float_round :: "int \<Rightarrow> int \<Rightarrow> int" where
  "float_round num den =
     (let k = nat (bitlen (num div den) - 24); d = den * 2 ^ k; q = num div d; r = num mod d
      in (if 2 * r > d \<or> 2 * r = d \<and> odd q then q + 1 else q) * 2 ^ k)"

section \<open>Bits\<close>

text \<open>The magnitude of a finite float.\<close>

definition float_units :: "u32 \<Rightarrow> int" where
  "float_units w = (let e = uint w div 2 ^ 23 mod 2 ^ 8; f = uint w mod 2 ^ 23
     in if e = 0 then f else (2 ^ 23 + f) * 2 ^ nat (e - 1))"

definition float_is_finite :: "u32 \<Rightarrow> bool" where
  "float_is_finite w \<longleftrightarrow> uint w div 2 ^ 23 mod 2 ^ 8 \<noteq> 255"

definition float_is_negative :: "u32 \<Rightarrow> bool" where
  "float_is_negative w \<longleftrightarrow> 2 ^ 31 \<le> uint w"

definition float_value :: "u32 \<Rightarrow> int option" where
  "float_value w = (if \<not> float_is_finite w then None else Some (if float_is_negative w then - float_units w else float_units w))"

section \<open>Values\<close>

type_synonym real32 = int

definition float_near :: "int \<Rightarrow> int \<Rightarrow> real32" where
  "float_near num den = (if num < 0 then - float_round (- num) den else float_round num den)"

definition float_add :: "real32 \<Rightarrow> real32 \<Rightarrow> real32" where
  "float_add a b = float_near (a + b) 1"

definition float_sub :: "real32 \<Rightarrow> real32 \<Rightarrow> real32" where
  "float_sub a b = float_near (a - b) 1"

definition float_mul :: "real32 \<Rightarrow> real32 \<Rightarrow> real32" where
  "float_mul a b = float_near (a * b) (2 ^ 149)"

text \<open>The divisor is positive.\<close>

definition float_div :: "real32 \<Rightarrow> real32 \<Rightarrow> real32" where
  "float_div a b = float_near (a * 2 ^ 149) b"

text \<open>A constant of the source, given as a ratio of whole numbers.\<close>

definition float_ratio :: "int \<Rightarrow> int \<Rightarrow> real32" where
  "float_ratio num den = float_near (num * 2 ^ 149) den"

section \<open>Rounding\<close>

lemma float_round_small: "0 \<le> n \<Longrightarrow> n < 2 ^ 24 \<Longrightarrow> float_round n 1 = n"
proof -
  assume a: "0 \<le> n" "n < 2 ^ 24"
  have "bitlen n \<le> 24" by (rule bitlen_le_iff_power[THEN iffD2]) (use a in simp_all)
  then show ?thesis by (simp add: float_round_def Let_def)
qed

lemma float_round_exact:
  assumes "0 \<le> m" "m < 2 ^ 24" shows "float_round (m * 2 ^ u) 1 = m * 2 ^ u"
proof -
  define k where "k = nat (bitlen (m * 2 ^ u) - 24)"
  have "k \<le> u"
  proof -
    have "m * 2 ^ u < 2 ^ 24 * (2 ^ u :: int)" by (rule mult_strict_right_mono) (use assms in simp_all)
    then have "bitlen (m * 2 ^ u) \<le> int (24 + u)" unfolding bitlen_le_iff_power nat_int using assms by (simp add: power_add)
    then show ?thesis by (simp add: k_def)
  qed
  then have "2 ^ k dvd m * 2 ^ u" by (intro dvd_mult le_imp_power_dvd)
  then have "m * 2 ^ u mod 2 ^ k = 0" "m * 2 ^ u div 2 ^ k * 2 ^ k = m * 2 ^ u" by simp_all
  then show ?thesis by (simp add: float_round_def Let_def k_def)
qed

text \<open>Rounding does not cross a power of two, and what is rounded has at most 24 significant bits.\<close>

lemma float_round_le_power:
  assumes "0 \<le> n" "n \<le> 2 ^ k" shows "float_round n 1 \<le> 2 ^ k"
proof (cases "n = 2 ^ k")
  case True
  then show ?thesis using float_round_exact[of 1 k] by simp
next
  case False
  then have n: "n < 2 ^ k" using assms by simp
  define e where "e = nat (bitlen n - 24)"
  have "bitlen n \<le> int k" unfolding bitlen_le_iff_power using n by simp
  then have ek: "e \<le> k" by (simp add: e_def)
  then have p: "2 ^ k = (2 ^ (k - e) * 2 ^ e :: int)" by (simp add: power_add[symmetric])
  have "n div 2 ^ e * 2 ^ e \<le> n" by (simp add: minus_mod_eq_div_mult[symmetric])
  then have "n div 2 ^ e < 2 ^ (k - e)" using n unfolding p by (metis le_less_trans mult_less_cancel_right_pos zero_less_power zero_less_numeral)
  then have "(n div 2 ^ e + 1) * 2 ^ e \<le> 2 ^ k" unfolding p by (intro mult_right_mono) simp_all
  moreover from this have "n div 2 ^ e * 2 ^ e \<le> 2 ^ k" by (rule order_trans[rotated]) (intro mult_right_mono, simp_all)
  ultimately show ?thesis by (simp add: float_round_def Let_def e_def)
qed

lemma float_round_dvd:
  assumes "2 ^ (k + 23) \<le> n" shows "2 ^ k dvd float_round n 1"
proof -
  have "\<not> bitlen n \<le> int (k + 23)" unfolding bitlen_le_iff_power nat_int using assms by simp
  then have "k \<le> nat (bitlen n - 24)" by simp
  then show ?thesis unfolding float_round_def Let_def by (intro dvd_mult le_imp_power_dvd) simp
qed

lemma float_round_nonneg: "0 \<le> n \<Longrightarrow> 0 \<le> float_round n 1"
  by (simp add: float_round_def Let_def pos_imp_zdiv_nonneg_iff)

end
