(* ===== verification/FD_RpcStream.thy ===== *)
theory FD_RpcStream imports FD_Binary FD_Float begin

text \<open>
  \<open>subsys/rpc/src/fd_rpc_stream.c\<close>: a reliable, ordered stream of data over datagrams, one in flight at a time, with
  acknowledgements, retransmission and keep alives in both directions.

  The kernel's clock and semaphore and the encoder of the protobuf messages are a parameter, \<open>zephyr\<close>. The clock can move
  on between two readings of one call: the readings are numbered. Calls to the client are recorded in order, with the
  bytes they pass; no callback of the client calls back into the stream. \<open>None\<close> is undefined behaviour.
\<close>

section \<open>Floats that become milliseconds\<close>

text \<open>\<open>(uint32_t)(x * 1000.0f)\<close>: undefined when what is before the point does not fit.\<close>

definition float_to_milliseconds :: "u32 \<Rightarrow> u32 option" where
  "float_to_milliseconds w =
     (let i = float_round (1000 * float_units w) 1 div 2 ^ 149 in
      if float_is_finite w \<and> (if float_is_negative w then i = 0 else i < 2 ^ 32) then Some (word_of_int i) else None)"

text \<open>\<open>t *= 2.0f\<close> on a \<open>uint32_t\<close>.\<close>

definition double_timeout :: "u32 \<Rightarrow> u32 option" where
  "double_timeout t = (let i = 2 * float_round (uint t) 1 in if i < 2 ^ 32 then Some (word_of_int i) else None)"

section \<open>State\<close>

record fd_rpc_stream_tracker_t =
  timeout :: u32
  last_active_time :: int

datatype fd_rpc_stream_tracker_status_t = fd_rpc_stream_tracker_status_ok | fd_rpc_stream_tracker_status_timeout

record fd_rpc_stream_receive_t =
  receive_sequence_number :: u32
  receive_keep_alive :: fd_rpc_stream_tracker_t

record fd_rpc_stream_send_t =
  send_sequence_number :: u32
  send_keep_alive :: fd_rpc_stream_tracker_t

record fd_rpc_stream_last_send_data_t =
  last_time :: int
  last_command :: "u8 list"
  last_length :: nat
  last_timeout :: u32

datatype fd_rpc_stream_state_t = fd_rpc_stream_state_disconnected | fd_rpc_stream_state_connected

datatype stream_call =
  send_command "u8 list" | received_connect | received_disconnect | received_keep_alive
| received_data "u8 list" | received_ack | sent_disconnect

record 'k fd_rpc_stream_t =
  stream_state :: fd_rpc_stream_state_t
  stream_receive :: fd_rpc_stream_receive_t
  stream_send :: fd_rpc_stream_send_t
  send_semaphore :: 'k
  last_send_data :: fd_rpc_stream_last_send_data_t
  last_send_data_timeout :: u32
  send_retry_count :: u32
  send_keep_alive_count :: u32
  receive_keep_alive_disconnect_count :: u32
  stream_calls :: "stream_call list"
  stream_readings :: nat
  stream_log :: assert_log

text \<open>The messages of \<open>stream.pb.h\<close>: a value is the number of its kind and the four bytes of its union.\<close>

record stream_value =
  which_kind :: nat
  kind_bits :: u32

record connection_configuration =
  has_maximum_flow_window :: bool
  maximum_flow_window :: stream_value
  has_maximum_transmission_unit :: bool
  maximum_transmission_unit :: stream_value
  has_receive_keep_alive :: bool
  configured_receive_keep_alive :: stream_value
  has_send_keep_alive :: bool
  configured_send_keep_alive :: stream_value
  has_send_retry_timeout :: bool
  configured_send_retry_timeout :: stream_value

definition no_value :: stream_value where
  "no_value = \<lparr>which_kind = 0, kind_bits = 0\<rparr>"

definition no_configuration :: connection_configuration where
  "no_configuration = \<lparr>has_maximum_flow_window = False, maximum_flow_window = no_value,
     has_maximum_transmission_unit = False, maximum_transmission_unit = no_value,
     has_receive_keep_alive = False, configured_receive_keep_alive = no_value,
     has_send_keep_alive = False, configured_send_keep_alive = no_value,
     has_send_retry_timeout = False, configured_send_retry_timeout = no_value\<rparr>"

text \<open>What is outside: the reading of the clock at each call of \<open>k_uptime_get\<close>, the semaphore, and the encoder and decoder
  of the configuration (with the result, and the bytes written or the number of bytes left).\<close>

record 'k zephyr =
  uptime :: "nat \<Rightarrow> int"
  k_sem_init :: "nat \<Rightarrow> nat \<Rightarrow> 'k"
  k_sem_count_get :: "'k \<Rightarrow> nat"
  k_sem_reset :: "'k \<Rightarrow> 'k"
  k_sem_give :: "'k \<Rightarrow> 'k"
  k_sem_take :: "'k \<Rightarrow> int \<Rightarrow> bool \<times> 'k"
  encode_configuration :: "connection_configuration \<Rightarrow> nat \<Rightarrow> bool \<times> u8 list"
  decode_configuration :: "u8 list \<Rightarrow> connection_configuration \<Rightarrow> bool \<times> connection_configuration \<times> nat"

definition stream_assert :: "bool \<Rightarrow> string \<Rightarrow> 'k fd_rpc_stream_t \<Rightarrow> 'k fd_rpc_stream_t" where
  "stream_assert c message s = s\<lparr>stream_log := fd_assert c message (stream_log s)\<rparr>"

definition client_call :: "stream_call \<Rightarrow> 'k fd_rpc_stream_t \<Rightarrow> 'k fd_rpc_stream_t" where
  "client_call c s = s\<lparr>stream_calls := stream_calls s @ [c]\<rparr>"

definition k_uptime_get :: "'k zephyr \<Rightarrow> 'k fd_rpc_stream_t \<Rightarrow> int \<times> 'k fd_rpc_stream_t" where
  "k_uptime_get z s = (uptime z (stream_readings s), s\<lparr>stream_readings := stream_readings s + 1\<rparr>)"

section \<open>Keep alive\<close>

definition fd_rpc_stream_tracker_initialize :: "u32 \<Rightarrow> fd_rpc_stream_tracker_t" where
  "fd_rpc_stream_tracker_initialize t = \<lparr>timeout = t, last_active_time = 0\<rparr>"

definition fd_rpc_stream_tracker_reset :: "fd_rpc_stream_tracker_t \<Rightarrow> fd_rpc_stream_tracker_t" where
  "fd_rpc_stream_tracker_reset tracker = tracker\<lparr>last_active_time := 0\<rparr>"

definition fd_rpc_stream_tracker_update :: "int \<Rightarrow> fd_rpc_stream_tracker_t \<Rightarrow> fd_rpc_stream_tracker_t" where
  "fd_rpc_stream_tracker_update time tracker = tracker\<lparr>last_active_time := time\<rparr>"

definition fd_rpc_stream_tracker_check ::
  "fd_rpc_stream_tracker_t \<Rightarrow> int \<Rightarrow> 'k fd_rpc_stream_t \<Rightarrow> fd_rpc_stream_tracker_status_t \<times> 'k fd_rpc_stream_t" where
  "fd_rpc_stream_tracker_check tracker time s =
     (let s = stream_assert (time \<ge> last_active_time tracker) ''time >= tracker->last_active_time'' s;
          delta = time - last_active_time tracker
      in (if delta > uint (timeout tracker) then fd_rpc_stream_tracker_status_timeout else fd_rpc_stream_tracker_status_ok, s))"

definition update_send_keep_alive :: "(fd_rpc_stream_tracker_t \<Rightarrow> fd_rpc_stream_tracker_t) \<Rightarrow> 'k fd_rpc_stream_t \<Rightarrow> 'k fd_rpc_stream_t" where
  "update_send_keep_alive f s = s\<lparr>stream_send := (stream_send s)\<lparr>send_keep_alive := f (send_keep_alive (stream_send s))\<rparr>\<rparr>"

definition update_receive_keep_alive :: "(fd_rpc_stream_tracker_t \<Rightarrow> fd_rpc_stream_tracker_t) \<Rightarrow> 'k fd_rpc_stream_t \<Rightarrow> 'k fd_rpc_stream_t" where
  "update_receive_keep_alive f s = s\<lparr>stream_receive := (stream_receive s)\<lparr>receive_keep_alive := f (receive_keep_alive (stream_receive s))\<rparr>\<rparr>"

section \<open>Connection configuration\<close>

definition fd_rpc_stream_put_connection_configuration ::
  "'k zephyr \<Rightarrow> fd_binary_t \<Rightarrow> u8 \<Rightarrow> connection_configuration \<Rightarrow> 'k fd_rpc_stream_t \<Rightarrow> (fd_binary_t \<times> 'k fd_rpc_stream_t) option" where
  "fd_rpc_stream_put_connection_configuration z binary version configuration s =
     (if version \<le> 1 then
        do { binary \<leftarrow> fd_binary_put_uint8 binary 1;
             binary \<leftarrow> fd_binary_put_uint16 binary 1024;
             Some (binary, s) }
      else
        do { let (result, data) = encode_configuration z configuration 64;
             let s = stream_assert result ''result'' s;
             binary \<leftarrow> fd_binary_put_bytes binary data;
             let s = stream_assert (bin_errors binary = 0) ''binary->errors == 0'' s;
             Some (binary, s) })"

definition uint32_value :: "u32 \<Rightarrow> stream_value" where
  "uint32_value v = \<lparr>which_kind = 2, kind_bits = v\<rparr>"

definition float_value :: "u32 \<Rightarrow> stream_value" where
  "float_value v = \<lparr>which_kind = 4, kind_bits = v\<rparr>"

text \<open>The floats are 5.0, 2.0 and 0.5.\<close>

definition fd_rpc_stream_get_connection_configuration ::
  "'k zephyr \<Rightarrow> fd_binary_t \<Rightarrow> u8 \<Rightarrow> connection_configuration \<Rightarrow> 'k fd_rpc_stream_t \<Rightarrow>
   (connection_configuration \<times> fd_binary_t \<times> 'k fd_rpc_stream_t) option" where
  "fd_rpc_stream_get_connection_configuration z binary version configuration s =
     (if version \<le> 1 then
        do { (window, binary) \<leftarrow> fd_binary_get_uint8 binary;
             (unit', binary) \<leftarrow> fd_binary_get_uint16 binary;
             Some (configuration\<lparr>
               maximum_flow_window := uint32_value (ucast window), has_maximum_flow_window := True,
               maximum_transmission_unit := uint32_value (ucast unit'), has_maximum_transmission_unit := True,
               configured_receive_keep_alive := float_value 0x40a00000, has_receive_keep_alive := True,
               configured_send_keep_alive := float_value 0x40000000, has_send_keep_alive := True,
               configured_send_retry_timeout := float_value 0x3f000000, has_send_retry_timeout := True\<rparr>, binary, s) }
      else
        do { data \<leftarrow> rd_block (bin_buffer binary) (unat (bin_get_index binary)) (unat (bin_size binary - bin_get_index binary));
             let (result, configuration, left) = decode_configuration z data configuration;
             let s = stream_assert result ''result'' s;
             Some (configuration, binary\<lparr>bin_size := bin_size binary - of_nat left\<rparr>, s) })"

section \<open>Sending\<close>

definition last_send_data_none :: fd_rpc_stream_last_send_data_t where
  "last_send_data_none = \<lparr>last_time = 0, last_command = replicate (4 + 1024) 0, last_length = 0, last_timeout = 0\<rparr>"

definition fd_rpc_stream_initialize :: "'k zephyr \<Rightarrow> 'k fd_rpc_stream_t" where
  "fd_rpc_stream_initialize z =
     (let semaphore = k_sem_init z 1 1;
          s = \<lparr>stream_state = fd_rpc_stream_state_disconnected,
            stream_receive = \<lparr>receive_sequence_number = 0, receive_keep_alive = fd_rpc_stream_tracker_initialize 5000\<rparr>,
            stream_send = \<lparr>send_sequence_number = 0, send_keep_alive = fd_rpc_stream_tracker_initialize 2000\<rparr>,
            send_semaphore = semaphore, last_send_data = last_send_data_none, last_send_data_timeout = 500,
            send_retry_count = 0, send_keep_alive_count = 0, receive_keep_alive_disconnect_count = 0,
            stream_calls = [], stream_readings = 0, stream_log = []\<rparr>
      in stream_assert (k_sem_count_get z semaphore = 1) ''count == 1'' s)"

definition fd_rpc_stream_disconnect :: "'k zephyr \<Rightarrow> 'k fd_rpc_stream_t \<Rightarrow> 'k fd_rpc_stream_t" where
  "fd_rpc_stream_disconnect z s =
     (let s = s\<lparr>send_semaphore := k_sem_give z (k_sem_reset z (send_semaphore s))\<rparr>;
          s = stream_assert (k_sem_count_get z (send_semaphore s) = 1) ''count == 1'' s;
          s = s\<lparr>stream_receive := (stream_receive s)\<lparr>receive_sequence_number := 0\<rparr>\<rparr>;
          s = update_receive_keep_alive fd_rpc_stream_tracker_reset s;
          s = s\<lparr>stream_send := (stream_send s)\<lparr>send_sequence_number := 0\<rparr>\<rparr>;
          s = update_send_keep_alive fd_rpc_stream_tracker_reset s
      in s\<lparr>last_send_data := last_send_data_none, stream_state := fd_rpc_stream_state_disconnected\<rparr>)"

definition fd_rpc_stream_send_command ::
  "'k zephyr \<Rightarrow> u8 list \<Rightarrow> nat \<Rightarrow> 'k fd_rpc_stream_t \<Rightarrow> 'k fd_rpc_stream_t option" where
  "fd_rpc_stream_send_command z data n s =
     do { let s = stream_assert (n \<ge> 4) ''size >= 4'' s;
          let (now, s) = k_uptime_get z s;
          let s = update_send_keep_alive (fd_rpc_stream_tracker_update now) s;
          bytes \<leftarrow> rd_block data 0 n;
          Some (client_call (send_command bytes) s) }"

definition fd_rpc_stream_header_type_command :: u32 where "fd_rpc_stream_header_type_command = 0x80000000"

datatype fd_rpc_stream_command_t =
  fd_rpc_stream_command_connect_request | fd_rpc_stream_command_connect_response | fd_rpc_stream_command_disconnect
| fd_rpc_stream_command_keep_alive | fd_rpc_stream_command_ack | fd_rpc_stream_command_nack | fd_rpc_stream_command_ackack

fun command_code :: "fd_rpc_stream_command_t \<Rightarrow> u32" where
  "command_code fd_rpc_stream_command_connect_request = 0x00000000"
| "command_code fd_rpc_stream_command_connect_response = 0x00000001"
| "command_code fd_rpc_stream_command_disconnect = 0x00000002"
| "command_code fd_rpc_stream_command_keep_alive = 0x00000004"
| "command_code fd_rpc_stream_command_ack = 0x00000006"
| "command_code fd_rpc_stream_command_nack = 0x00000008"
| "command_code fd_rpc_stream_command_ackack = 0x0000000a"

definition put_command :: "nat \<Rightarrow> fd_rpc_stream_command_t \<Rightarrow> fd_binary_t option" where
  "put_command n command =
     fd_binary_put_uint32 (fd_binary_initialize (replicate n 0) (of_nat n)) (command_code command OR fd_rpc_stream_header_type_command)"

text \<open>The end the commands share: no error, and off it goes.\<close>

definition send_binary :: "'k zephyr \<Rightarrow> fd_binary_t \<Rightarrow> 'k fd_rpc_stream_t \<Rightarrow> 'k fd_rpc_stream_t option" where
  "send_binary z binary s =
     do { let s = stream_assert (bin_errors binary = 0) ''binary.errors == 0'' s;
          fd_rpc_stream_send_command z (bin_buffer binary) (unat (bin_put_index binary)) s }"

definition fd_rpc_stream_send_connect_response ::
  "'k zephyr \<Rightarrow> u8 \<Rightarrow> u8 \<Rightarrow> connection_configuration \<Rightarrow> 'k fd_rpc_stream_t \<Rightarrow> 'k fd_rpc_stream_t option" where
  "fd_rpc_stream_send_connect_response z result version configuration s =
     do { binary \<leftarrow> put_command 64 fd_rpc_stream_command_connect_response;
          binary \<leftarrow> fd_binary_put_uint8 binary result;
          binary \<leftarrow> fd_binary_put_uint8 binary version;
          (binary, s) \<leftarrow> fd_rpc_stream_put_connection_configuration z binary version configuration s;
          send_binary z binary s }"

definition fd_rpc_stream_send_disconnect :: "'k zephyr \<Rightarrow> 'k fd_rpc_stream_t \<Rightarrow> 'k fd_rpc_stream_t option" where
  "fd_rpc_stream_send_disconnect z s =
     do { binary \<leftarrow> put_command 16 fd_rpc_stream_command_disconnect;
          s \<leftarrow> send_binary z binary s;
          Some (client_call sent_disconnect (fd_rpc_stream_disconnect z s)) }"

definition fd_rpc_stream_send_keep_alive :: "'k zephyr \<Rightarrow> 'k fd_rpc_stream_t \<Rightarrow> 'k fd_rpc_stream_t option" where
  "fd_rpc_stream_send_keep_alive z s =
     do { binary \<leftarrow> put_command 16 fd_rpc_stream_command_keep_alive;
          send_binary z binary s }"

definition fd_rpc_stream_send_ack :: "'k zephyr \<Rightarrow> u32 \<Rightarrow> 'k fd_rpc_stream_t \<Rightarrow> 'k fd_rpc_stream_t option" where
  "fd_rpc_stream_send_ack z sequence_number s =
     do { binary \<leftarrow> put_command 16 fd_rpc_stream_command_ack;
          binary \<leftarrow> fd_binary_put_uint32 binary sequence_number;
          send_binary z binary s }"

definition fd_rpc_stream_send_nack :: "'k zephyr \<Rightarrow> 'k fd_rpc_stream_t \<Rightarrow> 'k fd_rpc_stream_t option" where
  "fd_rpc_stream_send_nack z s =
     do { binary \<leftarrow> put_command 16 fd_rpc_stream_command_nack;
          binary \<leftarrow> fd_binary_put_uint32 binary (send_sequence_number (stream_send s));
          send_binary z binary s }"

definition fd_rpc_stream_wait_for_send_ack :: "'k zephyr \<Rightarrow> 'k fd_rpc_stream_t \<Rightarrow> bool \<times> 'k fd_rpc_stream_t" where
  "fd_rpc_stream_wait_for_send_ack z s =
     (let (result, semaphore) = k_sem_take z (send_semaphore s) 5000 in (result, s\<lparr>send_semaphore := semaphore\<rparr>))"

text \<open>The last assertion assigns the length that it means to compare, and holds when that is not 0.\<close>

definition fd_rpc_stream_send_data :: "'k zephyr \<Rightarrow> u8 list \<Rightarrow> 'k fd_rpc_stream_t \<Rightarrow> (bool \<times> 'k fd_rpc_stream_t) option" where
  "fd_rpc_stream_send_data z data s =
     do { let s = stream_assert (length data > 0) ''length > 0'' s;
          let s = stream_assert (last_time (last_send_data s) = 0) ''stream->last_send_data.time == 0'' s;
          let (now, s) = k_uptime_get z s;
          let s = update_send_keep_alive (fd_rpc_stream_tracker_update now) s;
          let s = s\<lparr>last_send_data := (last_send_data s)\<lparr>last_time := now\<rparr>\<rparr>;
          let binary = fd_binary_initialize (last_command (last_send_data s)) (of_nat (length (last_command (last_send_data s))));
          binary \<leftarrow> fd_binary_put_uint32 binary (send_sequence_number (stream_send s));
          binary \<leftarrow> fd_binary_put_bytes binary data;
          let s = stream_assert (bin_errors binary = 0) ''binary.errors == 0'' s;
          let s = s\<lparr>last_send_data := (last_send_data s)\<lparr>last_command := bin_buffer binary, last_length := 4 + length data\<rparr>\<rparr>;
          let s = stream_assert (4 + length data \<noteq> 0) ''stream->last_send_data.length = 4 + length'' s;
          let s = s\<lparr>last_send_data := (last_send_data s)\<lparr>last_timeout := last_send_data_timeout s\<rparr>\<rparr>;
          s \<leftarrow> fd_rpc_stream_send_command z (last_command (last_send_data s)) (last_length (last_send_data s)) s;
          Some (True, s) }"

section \<open>Receiving\<close>

definition fd_rpc_stream_receive_ack :: "'k zephyr \<Rightarrow> fd_binary_t \<Rightarrow> 'k fd_rpc_stream_t \<Rightarrow> 'k fd_rpc_stream_t option" where
  "fd_rpc_stream_receive_ack z binary s =
     do { (n, binary) \<leftarrow> fd_binary_get_uint32 binary;
          let serial_number = n AND NOT 0x80000000;
          if serial_number < send_sequence_number (stream_send s) then Some s
          else if serial_number = send_sequence_number (stream_send s) then
            do { let s = s\<lparr>stream_send := (stream_send s)\<lparr>send_sequence_number := send_sequence_number (stream_send s) + 1\<rparr>\<rparr>;
                 let s = stream_assert (k_sem_count_get z (send_semaphore s) = 0) ''count == 0'' s;
                 let s = s\<lparr>send_semaphore := k_sem_give z (send_semaphore s), last_send_data := last_send_data_none\<rparr>;
                 Some (client_call received_ack s) }
          else fd_rpc_stream_send_disconnect z (fd_rpc_stream_disconnect z s) }"

definition fd_rpc_stream_receive_nack :: "'k zephyr \<Rightarrow> fd_binary_t \<Rightarrow> 'k fd_rpc_stream_t \<Rightarrow> 'k fd_rpc_stream_t option" where
  "fd_rpc_stream_receive_nack z binary s = fd_rpc_stream_send_disconnect z (fd_rpc_stream_disconnect z s)"

definition set_timeout :: "u32 \<Rightarrow> fd_rpc_stream_tracker_t \<Rightarrow> fd_rpc_stream_tracker_t" where
  "set_timeout t tracker = tracker\<lparr>timeout := t\<rparr>"

definition fd_rpc_stream_receive_connect_request :: "'k zephyr \<Rightarrow> fd_binary_t \<Rightarrow> 'k fd_rpc_stream_t \<Rightarrow> 'k fd_rpc_stream_t option" where
  "fd_rpc_stream_receive_connect_request z binary s =
     do { (version, binary) \<leftarrow> fd_binary_get_uint8 binary;
          (configuration, binary, s) \<leftarrow> fd_rpc_stream_get_connection_configuration z binary version no_configuration s;
          let s = fd_rpc_stream_disconnect z s;
          let (now, s) = k_uptime_get z s;
          let s = update_receive_keep_alive (fd_rpc_stream_tracker_update now) s;
          t \<leftarrow> float_to_milliseconds (kind_bits (configured_receive_keep_alive configuration));
          let s = update_receive_keep_alive (set_timeout t) s;
          let s = update_send_keep_alive (fd_rpc_stream_tracker_update now) s;
          t \<leftarrow> float_to_milliseconds (kind_bits (configured_send_keep_alive configuration));
          let s = update_send_keep_alive (set_timeout t) s;
          let s = s\<lparr>last_send_data := last_send_data_none\<rparr>;
          t \<leftarrow> float_to_milliseconds (kind_bits (configured_send_retry_timeout configuration));
          let s = s\<lparr>last_send_data_timeout := t, stream_state := fd_rpc_stream_state_connected\<rparr>;
          s \<leftarrow> fd_rpc_stream_send_connect_response z 0 version configuration s;
          Some (client_call received_connect s) }"

definition fd_rpc_stream_receive_disconnect_request :: "'k zephyr \<Rightarrow> 'k fd_rpc_stream_t \<Rightarrow> 'k fd_rpc_stream_t" where
  "fd_rpc_stream_receive_disconnect_request z s = client_call received_disconnect (fd_rpc_stream_disconnect z s)"

text \<open>\<open>data\<close> is the datagram, of which \<open>n\<close> bytes from \<open>start\<close> on go to the client.\<close>

definition fd_rpc_stream_receive_data ::
  "'k zephyr \<Rightarrow> u32 \<Rightarrow> u8 list \<Rightarrow> nat \<Rightarrow> nat \<Rightarrow> 'k fd_rpc_stream_t \<Rightarrow> 'k fd_rpc_stream_t option" where
  "fd_rpc_stream_receive_data z sequence_number data start n s =
     (if sequence_number < receive_sequence_number (stream_receive s) then fd_rpc_stream_send_ack z sequence_number s
      else if sequence_number = receive_sequence_number (stream_receive s) then
        do { s \<leftarrow> fd_rpc_stream_send_ack z (receive_sequence_number (stream_receive s)) s;
             bytes \<leftarrow> rd_block data start n;
             let s = client_call (received_data bytes) s;
             Some (s\<lparr>stream_receive := (stream_receive s)\<lparr>receive_sequence_number := receive_sequence_number (stream_receive s) + 1\<rparr>\<rparr>) }
      else fd_rpc_stream_send_nack z s)"

definition fd_rpc_stream_receive :: "'k zephyr \<Rightarrow> u8 list \<Rightarrow> 'k fd_rpc_stream_t \<Rightarrow> 'k fd_rpc_stream_t option" where
  "fd_rpc_stream_receive z data s =
     do { let (now, s) = k_uptime_get z s;
          let s = update_receive_keep_alive (fd_rpc_stream_tracker_update now) s;
          let s = stream_assert (length data \<ge> 4) ''length >= 4'' s;
          (header, binary) \<leftarrow> fd_binary_get_uint32 (fd_binary_initialize data (of_nat (length data)));
          if header AND fd_rpc_stream_header_type_command \<noteq> 0 then
            do { let command = header AND NOT fd_rpc_stream_header_type_command;
                 if command = command_code fd_rpc_stream_command_connect_request then fd_rpc_stream_receive_connect_request z binary s
                 else if command = command_code fd_rpc_stream_command_connect_response then
                   Some (stream_assert False ''unexpected command'' s)
                 else if command = command_code fd_rpc_stream_command_disconnect then Some (fd_rpc_stream_receive_disconnect_request z s)
                 else if command = command_code fd_rpc_stream_command_keep_alive then Some (client_call received_keep_alive s)
                 else if command = command_code fd_rpc_stream_command_ack then fd_rpc_stream_receive_ack z binary s
                 else if command = command_code fd_rpc_stream_command_nack then fd_rpc_stream_receive_nack z binary s
                 else if command = command_code fd_rpc_stream_command_ackack then
                   Some (stream_assert False ''unimplemented command'' s)
                 else Some (stream_assert False ''unknown command'' s) }
          else if stream_state s = fd_rpc_stream_state_connected then
            fd_rpc_stream_receive_data z header data 4 (size_sub (length data) 4) s
          else Some s }"

section \<open>The periodic check\<close>

definition check_retry :: "'k zephyr \<Rightarrow> int \<Rightarrow> 'k fd_rpc_stream_t \<Rightarrow> 'k fd_rpc_stream_t option" where
  "check_retry z time s =
     (if last_time (last_send_data s) > 0 \<and> time > last_time (last_send_data s) + uint (last_timeout (last_send_data s)) then
        do { let s = s\<lparr>send_retry_count := send_retry_count s + 1\<rparr>;
             t \<leftarrow> double_timeout (last_timeout (last_send_data s));
             let s = s\<lparr>last_send_data := (last_send_data s)\<lparr>last_timeout := t\<rparr>\<rparr>;
             fd_rpc_stream_send_command z (last_command (last_send_data s)) (last_length (last_send_data s)) s }
      else Some s)"

definition check_send_keep_alive :: "'k zephyr \<Rightarrow> int \<Rightarrow> 'k fd_rpc_stream_t \<Rightarrow> 'k fd_rpc_stream_t option" where
  "check_send_keep_alive z time s =
     do { let (status, s) = fd_rpc_stream_tracker_check (send_keep_alive (stream_send s)) time s;
          if status = fd_rpc_stream_tracker_status_timeout then
            fd_rpc_stream_send_keep_alive z (s\<lparr>send_keep_alive_count := send_keep_alive_count s + 1\<rparr>)
          else Some s }"

definition check_receive_keep_alive :: "'k zephyr \<Rightarrow> int \<Rightarrow> 'k fd_rpc_stream_t \<Rightarrow> 'k fd_rpc_stream_t option" where
  "check_receive_keep_alive z time s =
     do { let (status, s) = fd_rpc_stream_tracker_check (receive_keep_alive (stream_receive s)) time s;
          if status = fd_rpc_stream_tracker_status_timeout then
            fd_rpc_stream_send_disconnect z (s\<lparr>receive_keep_alive_disconnect_count := receive_keep_alive_disconnect_count s + 1\<rparr>)
          else Some s }"

definition fd_rpc_stream_check :: "'k zephyr \<Rightarrow> 'k fd_rpc_stream_t \<Rightarrow> 'k fd_rpc_stream_t option" where
  "fd_rpc_stream_check z s =
     (if stream_state s = fd_rpc_stream_state_disconnected then Some s
      else do { let (time, s) = k_uptime_get z s;
                s \<leftarrow> check_retry z time s;
                s \<leftarrow> check_send_keep_alive z time s;
                check_receive_keep_alive z time s })"

end
