(* ===== verification/FD_RpcStreamSpec.thy ===== *)
theory FD_RpcStreamSpec imports FD_RpcStream begin

text \<open>
  Two ends of \<open>fd_rpc_stream.c\<close> over a link that loses, repeats and reorders datagrams. What every command puts on the wire
  and what every datagram does on arrival; the connection as a step relation, its invariant, and from it: data arrives
  once and in order, one delivery each way is enough, the check retransmits. Then the start of a connection, and two
  datagrams the receiver does not stand.
\<close>

section \<open>Commands\<close>

lemma le_value_u32 [simp]: "le_value (le_bytes 4 v) = v" for v :: u32
  by (simp add: le_value_bytes take_bit_word_eq_self)

lemma initialize_facts:
  assumes "length b + 8 < 2 ^ 32"
  shows "bin_ok (fd_binary_initialize b (of_nat (length b)))" "bin_written (fd_binary_initialize b (of_nat (length b))) = []"
    "bin_room (fd_binary_initialize b (of_nat (length b))) = length b" "bin_errors (fd_binary_initialize b (of_nat (length b))) = 0"
  using assms by (simp_all add: bin_ok_def fd_binary_initialize_def bin_written_def bin_room_def unat_of_nat)

lemma put_whole_facts:
  assumes "bin_ok b" "length bs \<le> bin_room b"
  shows "bin_ok (bin_put_whole (length bs) bs b)" "bin_written (bin_put_whole (length bs) bs b) = bin_written b @ bs"
    "bin_room (bin_put_whole (length bs) bs b) = bin_room b - length bs" "bin_errors (bin_put_whole (length bs) bs b) = bin_errors b"
    "length (bin_buffer (bin_put_whole (length bs) bs b)) = length (bin_buffer b)"
  using assms bin_append_ok[of b bs] bin_append_room[of b bs] by (simp_all add: bin_put_whole_def bin_room_iff)

lemma put_u32:
  assumes "bin_ok b" "4 \<le> bin_room b"
  obtains c where "fd_binary_put_uint32 b v = Some c" "bin_ok c" "bin_written c = bin_written b @ le_bytes 4 v" "bin_room c = bin_room b - 4"
    "bin_errors c = bin_errors b" "length (bin_buffer c) = length (bin_buffer b)"
  using put_specs(4)[OF assms(1), of v] put_whole_facts[of b "le_bytes 4 v"] assms by simp

text \<open>The effect of sending some bytes.\<close>

definition transmit :: "'k zephyr \<Rightarrow> u8 list \<Rightarrow> 'k fd_rpc_stream_t \<Rightarrow> 'k fd_rpc_stream_t" where
  "transmit z bytes s = client_call (send_command bytes) (update_send_keep_alive (fd_rpc_stream_tracker_update (uptime z (stream_readings s)))
     (s\<lparr>stream_readings := stream_readings s + 1\<rparr>))"

lemma transmit_facts [simp]:
  "stream_state (transmit z b s) = stream_state s" "stream_receive (transmit z b s) = stream_receive s"
  "send_sequence_number (stream_send (transmit z b s)) = send_sequence_number (stream_send s)"
  "send_semaphore (transmit z b s) = send_semaphore s" "last_send_data (transmit z b s) = last_send_data s"
  "stream_calls (transmit z b s) = stream_calls s @ [send_command b]" "stream_log (transmit z b s) = stream_log s"
  "last_send_data_timeout (transmit z b s) = last_send_data_timeout s"
  "stream_readings (transmit z b s) = stream_readings s + 1"
  by (simp_all add: transmit_def client_call_def update_send_keep_alive_def)

lemma stream_assert_True [simp]: "stream_assert True m s = s"
  by (simp add: stream_assert_def)

lemma send_command_transmit:
  "4 \<le> n \<Longrightarrow> n \<le> length data \<Longrightarrow> fd_rpc_stream_send_command z data n s = Some (transmit z (take n data) s)"
  by (simp add: fd_rpc_stream_send_command_def k_uptime_get_def transmit_def rd_block_def Let_def)

lemma send_binary_transmit:
  assumes "bin_ok b" "bin_errors b = 0" "4 \<le> length (bin_written b)"
  shows "send_binary z b s = Some (transmit z (bin_written b) s)"
proof -
  have "4 \<le> unat (bin_put_index b)" "unat (bin_put_index b) \<le> length (bin_buffer b)" using assms by (simp_all add: bin_ok_def bin_written_def)
  then show ?thesis using assms(2) send_command_transmit by (simp add: send_binary_def bin_written_def)
qed

lemma put_command_facts:
  assumes "4 \<le> n" "n + 8 < 2 ^ 32"
  obtains b where "put_command n c = Some b" "bin_ok b" "bin_written b = le_bytes 4 (command_code c OR 0x80000000)" "bin_room b = n - 4" "bin_errors b = 0"
proof -
  note i = initialize_facts[of "replicate n 0"]
  obtain b where "fd_binary_put_uint32 (fd_binary_initialize (replicate n 0) (of_nat n)) (command_code c OR fd_rpc_stream_header_type_command) = Some b"
      "bin_ok b" "bin_written b = le_bytes 4 (command_code c OR 0x80000000)" "bin_room b = n - 4" "bin_errors b = 0"
    using put_u32[of "fd_binary_initialize (replicate n 0) (of_nat n)" "command_code c OR fd_rpc_stream_header_type_command"] i assms
    by (auto simp: fd_rpc_stream_header_type_command_def)
  then show ?thesis using that by (simp add: put_command_def)
qed

definition keep_alive_bytes :: "u8 list" where
  "keep_alive_bytes = le_bytes 4 (0x80000004 :: u32)"

definition ack_bytes :: "u32 \<Rightarrow> u8 list" where
  "ack_bytes n = le_bytes 4 (0x80000006 :: u32) @ le_bytes 4 n"

definition data_bytes :: "u32 \<Rightarrow> u8 list \<Rightarrow> u8 list" where
  "data_bytes n d = le_bytes 4 n @ d"

lemma send_keep_alive_transmit: "fd_rpc_stream_send_keep_alive z s = Some (transmit z keep_alive_bytes s)"
proof -
  obtain b where b: "put_command 16 fd_rpc_stream_command_keep_alive = Some b" "bin_ok b" "bin_written b = keep_alive_bytes" "bin_errors b = 0"
    using put_command_facts[of 16 fd_rpc_stream_command_keep_alive] by (auto simp: keep_alive_bytes_def)
  then show ?thesis using send_binary_transmit[OF b(2,4)] by (simp add: fd_rpc_stream_send_keep_alive_def keep_alive_bytes_def)
qed

lemma send_ack_transmit: "fd_rpc_stream_send_ack z n s = Some (transmit z (ack_bytes n) s)"
proof -
  obtain b where b: "put_command 16 fd_rpc_stream_command_ack = Some b" "bin_ok b"
      "bin_written b = le_bytes 4 (command_code fd_rpc_stream_command_ack OR 0x80000000)" "bin_room b = 16 - 4" "bin_errors b = 0"
    by (rule put_command_facts[of 16 fd_rpc_stream_command_ack]) simp_all
  have "4 \<le> bin_room b" using b(4) by simp
  from put_u32[OF b(2) this, of n] obtain c where c: "fd_binary_put_uint32 b n = Some c" "bin_ok c"
      "bin_written c = bin_written b @ le_bytes 4 n" "bin_errors c = bin_errors b" by blast
  have "bin_errors c = 0" "4 \<le> length (bin_written c)" using b(5) by (simp_all add: c(3,4))
  from send_binary_transmit[OF c(2) this] show ?thesis
    by (simp add: fd_rpc_stream_send_ack_def b(1) c(1)) (simp add: c(3) b(3) ack_bytes_def)
qed

text \<open>Sending data puts the sequence number in front and keeps a copy.\<close>

lemma send_data_transmit:
  assumes "0 < length d" "length d \<le> 1024" "length (last_command (last_send_data s)) = 1028" "last_time (last_send_data s) = 0"
  shows "\<exists>s'. fd_rpc_stream_send_data z d s = Some (True, s') \<and> stream_state s' = stream_state s \<and> stream_receive s' = stream_receive s \<and>
    send_sequence_number (stream_send s') = send_sequence_number (stream_send s) \<and> send_semaphore s' = send_semaphore s \<and>
    stream_calls s' = stream_calls s @ [send_command (data_bytes (send_sequence_number (stream_send s)) d)] \<and>
    last_time (last_send_data s') = uptime z (stream_readings s) \<and> last_length (last_send_data s') = 4 + length d \<and>
    length (last_command (last_send_data s')) = 1028 \<and>
    take (4 + length d) (last_command (last_send_data s')) = data_bytes (send_sequence_number (stream_send s)) d \<and>
    last_timeout (last_send_data s') = last_send_data_timeout s \<and> stream_readings s' = stream_readings s + 2"
proof -
  define n where "n = send_sequence_number (stream_send s)"
  define l where "l = last_command (last_send_data s)"
  have len: "length l = 1028" using assms(3) by (simp add: l_def)
  note i = initialize_facts[of l, unfolded len]
  obtain b where b: "fd_binary_put_uint32 (fd_binary_initialize l 1028) n = Some b" "bin_ok b" "bin_written b = le_bytes 4 n"
      "bin_room b = 1024" "bin_errors b = 0" "length (bin_buffer b) = 1028"
    using put_u32[of "fd_binary_initialize l 1028" n] i len by (auto simp: fd_binary_initialize_def)
  have sz: "length d + unat (bin_size b) < 2 ^ 32" using b(2,6) assms(2) by (simp add: bin_ok_def)
  define c where "c = bin_put_whole (length d) d b"
  have c: "fd_binary_put_bytes b d = Some c" "bin_ok c" "bin_written c = le_bytes 4 n @ d" "bin_errors c = 0" "length (bin_buffer c) = 1028"
    using put_bytes_spec[OF b(2) sz] put_whole_facts[OF b(2), of d] assms(2) b by (simp_all add: c_def)
  have w: "take (unat (bin_put_index c)) (bin_buffer c) = le_bytes 4 n @ d" using c(3) by (simp add: bin_written_def)
  have "unat (bin_put_index c) \<le> length (bin_buffer c)" using c(2) by (simp add: bin_ok_def)
  then have "unat (bin_put_index c) = 4 + length d" using arg_cong[OF w, of length] by simp
  with w have t: "take (4 + length d) (bin_buffer c) = data_bytes n d" by (simp add: data_bytes_def)
  show ?thesis
    using assms(1,2,4) b(1) c(1,4,5) t
    by (simp add: fd_rpc_stream_send_data_def k_uptime_get_def Let_def update_send_keep_alive_def len l_def[symmetric] n_def[symmetric]
        send_command_transmit)
qed

section \<open>Receiving\<close>

lemma header_read:
  assumes "data = le_bytes 4 h @ rest" "length data + 8 < 2 ^ 32"
  shows "\<exists>b. fd_binary_get_uint32 (fd_binary_initialize data (of_nat (length data))) = Some (h, b) \<and> bin_ok b \<and> bin_next rest b"
proof -
  define b where "b = fd_binary_initialize data (of_nat (length data))"
  have ok: "bin_ok b" using initialize_facts(1)[OF assms(2)] by (simp add: b_def)
  have "unat (of_nat (length data) :: u32) = length data" using assms(2) by (simp add: unat_of_nat)
  then have nx: "bin_next (le_bytes 4 h @ rest) b"
    unfolding assms(1)[symmetric] by (simp add: bin_next_def b_def fd_binary_initialize_def)
  note n = bin_next_append[OF ok nx]
  have "fd_binary_get_uint32 b = Some (h, bin_advance 4 b)" using get_specs(4)[OF ok n(1)] by simp
  moreover have "bin_ok (bin_advance 4 b)" using bin_advance_ok(1)[OF ok, of 4] nx by (simp add: bin_next_def)
  ultimately show ?thesis using n(2) unfolding b_def by auto
qed

definition noted :: "'k zephyr \<Rightarrow> 'k fd_rpc_stream_t \<Rightarrow> 'k fd_rpc_stream_t" where
  "noted z s = update_receive_keep_alive (fd_rpc_stream_tracker_update (uptime z (stream_readings s))) (s\<lparr>stream_readings := stream_readings s + 1\<rparr>)"

lemma noted_facts [simp]:
  "stream_state (noted z s) = stream_state s" "stream_send (noted z s) = stream_send s"
  "receive_sequence_number (stream_receive (noted z s)) = receive_sequence_number (stream_receive s)"
  "send_semaphore (noted z s) = send_semaphore s" "last_send_data (noted z s) = last_send_data s"
  "stream_calls (noted z s) = stream_calls s" "stream_log (noted z s) = stream_log s"
  by (simp_all add: noted_def update_receive_keep_alive_def)

lemma receive_noted:
  assumes "4 \<le> length data" "fd_binary_get_uint32 (fd_binary_initialize data (of_nat (length data))) = Some (h, b)"
  shows "h AND 0x80000000 = 0 \<Longrightarrow> stream_state s = fd_rpc_stream_state_connected \<Longrightarrow>
      fd_rpc_stream_receive z data s = fd_rpc_stream_receive_data z h data 4 (length data - 4) (noted z s)"
    and "h = 0x80000004 \<Longrightarrow> fd_rpc_stream_receive z data s = Some (client_call received_keep_alive (noted z s))"
    and "h = 0x80000006 \<Longrightarrow> fd_rpc_stream_receive z data s = fd_rpc_stream_receive_ack z b (noted z s)"
  using assms by (simp_all add: fd_rpc_stream_receive_def fd_rpc_stream_header_type_command_def k_uptime_get_def noted_def
      update_receive_keep_alive_def Let_def)

lemma receive_keep_alive_bytes: "fd_rpc_stream_receive z keep_alive_bytes s = Some (client_call received_keep_alive (noted z s))"
  using header_read[of keep_alive_bytes "0x80000004" "[]"] receive_noted(2)[of keep_alive_bytes "0x80000004"]
  by (auto simp: keep_alive_bytes_def)

lemma receive_data_bytes:
  assumes "n < 0x80000000" "length d \<le> 1024" "stream_state s = fd_rpc_stream_state_connected"
  shows "fd_rpc_stream_receive z (data_bytes n d) s =
    (let r = receive_sequence_number (stream_receive s) in
     if n < r then Some (transmit z (ack_bytes n) (noted z s))
     else if n = r then Some (let s' = client_call (received_data d) (transmit z (ack_bytes r) (noted z s))
       in s'\<lparr>stream_receive := (stream_receive s')\<lparr>receive_sequence_number := r + 1\<rparr>\<rparr>)
     else fd_rpc_stream_send_nack z (noted z s))"
proof -
  have "bit n 31 \<longleftrightarrow> bit (unat n) 31" by (simp add: bit_unsigned_iff)
  also have "\<dots> \<longleftrightarrow> odd (unat n div 2 ^ 31)" by (rule bit_iff_odd)
  finally have "\<not> bit n 31" using assms(1) by (simp add: word_less_nat_alt)
  then have h: "n AND 0x80000000 = 0"
    using and_exp_eq_0_iff_not_bit[of n 31] by simp
  obtain b where b: "fd_binary_get_uint32 (fd_binary_initialize (data_bytes n d) (of_nat (length (data_bytes n d)))) = Some (n, b)"
    using header_read[of "data_bytes n d" n d] assms(2) by (auto simp: data_bytes_def)
  have l: "length (data_bytes n d) = 4 + length d" by (simp add: data_bytes_def)
  have rb: "rd_block (data_bytes k d) 4 (length d) = Some d" for k by (simp add: data_bytes_def rd_block_def)
  have "fd_rpc_stream_receive z (data_bytes n d) s = fd_rpc_stream_receive_data z n (data_bytes n d) 4 (length d) (noted z s)"
    using receive_noted(1)[OF _ b h assms(3)] by (simp add: l)
  then show ?thesis by (simp add: fd_rpc_stream_receive_data_def send_ack_transmit rb Let_def client_call_def)
qed

lemma receive_ack_bytes:
  assumes "n < 0x80000000"
  shows "fd_rpc_stream_receive z (ack_bytes n) s =
    (let q = send_sequence_number (stream_send s) in
     if n < q then Some (noted z s)
     else if n = q then Some (client_call received_ack (stream_assert (k_sem_count_get z (send_semaphore s) = 0) ''count == 0''
       ((noted z s)\<lparr>stream_send := (stream_send s)\<lparr>send_sequence_number := q + 1\<rparr>,
         send_semaphore := k_sem_give z (send_semaphore s), last_send_data := last_send_data_none\<rparr>)))
     else fd_rpc_stream_send_disconnect z (fd_rpc_stream_disconnect z (noted z s)))"
proof -
  have "n AND NOT 0x80000000 = n"
  proof (rule bit_word_eqI)
    fix i assume "i < LENGTH(32)"
    have "\<not> bit n 31"
    proof -
      have "bit n 31 \<longleftrightarrow> bit (unat n) 31" by (simp add: bit_unsigned_iff)
      also have "\<dots> \<longleftrightarrow> odd (unat n div 2 ^ 31)" by (rule bit_iff_odd)
      finally show ?thesis using assms by (simp add: word_less_nat_alt)
    qed
    moreover have "bit (0x80000000 :: u32) i \<longleftrightarrow> i = 31" using bit_exp_iff[of 31 i, where 'a="32 word"] by auto
    ultimately show "bit (n AND NOT 0x80000000) i = bit n i" using \<open>i < LENGTH(32)\<close> by (auto simp: bit_simps)
  qed
  moreover obtain b where b: "fd_binary_get_uint32 (fd_binary_initialize (ack_bytes n) (of_nat (length (ack_bytes n)))) = Some (0x80000006, b)"
      "bin_ok b" "bin_next (le_bytes 4 n) b"
    using header_read[of "ack_bytes n" "0x80000006" "le_bytes 4 n"] by (auto simp: ack_bytes_def)
  moreover have "fd_binary_get_uint32 b = Some (n, bin_advance 4 b)" using get_specs(4)[OF b(2,3)] by simp
  moreover have "fd_rpc_stream_receive z (ack_bytes n) s = fd_rpc_stream_receive_ack z b (noted z s)"
    by (rule receive_noted(3)[OF _ b(1) refl]) (simp add: ack_bytes_def)
  ultimately show ?thesis
    by (simp add: fd_rpc_stream_receive_ack_def Let_def stream_assert_def client_call_def)
qed

section \<open>Two ends and what is between them\<close>

datatype side = left_end | right_end

fun peer :: "side \<Rightarrow> side" where
  "peer left_end = right_end"
| "peer right_end = left_end"

lemma peer_peer [simp]: "peer (peer x) = x" "peer x \<noteq> x" "x \<noteq> peer x"
  by (cases x; simp)+

lemma not_side: "y \<noteq> x \<longleftrightarrow> y = peer x"
  by (cases x; cases y) simp_all

definition wire :: "'k fd_rpc_stream_t \<Rightarrow> u8 list set" where
  "wire s = {b. send_command b \<in> set (stream_calls s)}"

definition received :: "'k fd_rpc_stream_t \<Rightarrow> u8 list list" where
  "received s = concat (map (\<lambda>c. case c of received_data d \<Rightarrow> [d] | _ \<Rightarrow> []) (stream_calls s))"

text \<open>The documented behaviour of a semaphore with limit 1.\<close>

definition semaphore_laws :: "'k zephyr \<Rightarrow> bool" where
  "semaphore_laws z \<longleftrightarrow> k_sem_count_get z (k_sem_init z 1 1) = 1 \<and> (\<forall>k. k_sem_count_get z (k_sem_give z (k_sem_reset z k)) = 1) \<and>
     (\<forall>k. k_sem_count_get z k = 0 \<longrightarrow> k_sem_count_get z (k_sem_give z k) = 1) \<and>
     (\<forall>k t k'. k_sem_take z k t = (True, k') \<longrightarrow> k_sem_count_get z k = k_sem_count_get z k' + 1)"

definition fresh :: "'k zephyr \<Rightarrow> 'k fd_rpc_stream_t \<Rightarrow> bool" where
  "fresh z s \<longleftrightarrow> stream_state s = fd_rpc_stream_state_connected \<and> receive_sequence_number (stream_receive s) = 0 \<and>
     send_sequence_number (stream_send s) = 0 \<and> last_send_data s = last_send_data_none \<and>
     k_sem_count_get z (send_semaphore s) = 1 \<and> stream_calls s = []"

record 'k network =
  node :: "side \<Rightarrow> 'k fd_rpc_stream_t"
  sent_data :: "side \<Rightarrow> u8 list list"

text \<open>A connection, from when both ends are connected until one disconnects. A datagram that was sent may arrive at any time
  after, any number of times or never; the periodic check runs whenever it likes; data is sent as \<open>fd_rpc_channel_thread_udp_send\<close>
  does, after waiting for the semaphore.\<close>

inductive session :: "(side \<Rightarrow> 'k zephyr) \<Rightarrow> 'k network \<Rightarrow> bool" for z where
  start: "\<forall>x. fresh (z x) (node net x) \<Longrightarrow> \<forall>x. sent_data net x = [] \<Longrightarrow> session z net"
| send: "session z net \<Longrightarrow> d \<noteq> [] \<Longrightarrow> length d \<le> 1024 \<Longrightarrow> length (sent_data net x) < 2 ^ 31 \<Longrightarrow>
    fd_rpc_stream_wait_for_send_ack (z x) (node net x) = (True, s1) \<Longrightarrow> fd_rpc_stream_send_data (z x) d s1 = Some (r, s2) \<Longrightarrow>
    session z (net\<lparr>node := (node net)(x := s2), sent_data := (sent_data net)(x := sent_data net x @ [d])\<rparr>)"
| check: "session z net \<Longrightarrow> fd_rpc_stream_check (z x) (node net x) = Some s' \<Longrightarrow> stream_state s' = fd_rpc_stream_state_connected \<Longrightarrow>
    session z (net\<lparr>node := (node net)(x := s')\<rparr>)"
| receive: "session z net \<Longrightarrow> m \<in> wire (node net (peer x)) \<Longrightarrow> fd_rpc_stream_receive (z x) m (node net x) = Some s' \<Longrightarrow>
    session z (net\<lparr>node := (node net)(x := s')\<rparr>)"

definition sender_ok :: "'k zephyr \<Rightarrow> 'k fd_rpc_stream_t \<Rightarrow> u8 list list \<Rightarrow> bool" where
  "sender_ok z s D \<longleftrightarrow> stream_state s = fd_rpc_stream_state_connected \<and> length D \<le> 2 ^ 31 \<and> (\<forall>d \<in> set D. d \<noteq> [] \<and> length d \<le> 1024) \<and>
     (length D = unat (send_sequence_number (stream_send s)) \<and> last_send_data s = last_send_data_none \<and> k_sem_count_get z (send_semaphore s) = 1 \<or>
      length D = unat (send_sequence_number (stream_send s)) + 1 \<and> k_sem_count_get z (send_semaphore s) = 0 \<and>
      last_length (last_send_data s) = 4 + length (last D) \<and> length (last_command (last_send_data s)) = 1028 \<and>
      take (last_length (last_send_data s)) (last_command (last_send_data s)) = data_bytes (send_sequence_number (stream_send s)) (last D) \<and>
      data_bytes (send_sequence_number (stream_send s)) (last D) \<in> wire s)"

definition wire_ok :: "'k fd_rpc_stream_t \<Rightarrow> u8 list list \<Rightarrow> bool" where
  "wire_ok s D \<longleftrightarrow> (\<forall>b \<in> wire s. (\<exists>q < length D. b = data_bytes (of_nat q) (D ! q)) \<or>
     (\<exists>a < unat (receive_sequence_number (stream_receive s)). b = ack_bytes (of_nat a)) \<or> b = keep_alive_bytes)"

definition link_ok :: "'k fd_rpc_stream_t \<Rightarrow> 'k fd_rpc_stream_t \<Rightarrow> u8 list list \<Rightarrow> bool" where
  "link_ok s r D \<longleftrightarrow> unat (send_sequence_number (stream_send s)) \<le> unat (receive_sequence_number (stream_receive r)) \<and>
     unat (receive_sequence_number (stream_receive r)) \<le> length D \<and>
     received r = take (unat (receive_sequence_number (stream_receive r))) D"

definition session_ok :: "(side \<Rightarrow> 'k zephyr) \<Rightarrow> 'k network \<Rightarrow> bool" where
  "session_ok z net \<longleftrightarrow> (\<forall>x. sender_ok (z x) (node net x) (sent_data net x) \<and> wire_ok (node net x) (sent_data net x) \<and>
     link_ok (node net x) (node net (peer x)) (sent_data net x))"

lemma session_update:
  assumes "session_ok z net" "sender_ok (z x) s D" "wire_ok s D" "link_ok s (node net (peer x)) D" "link_ok (node net (peer x)) s (sent_data net (peer x))"
  shows "session_ok z (net\<lparr>node := (node net)(x := s), sent_data := (sent_data net)(x := D)\<rparr>)"
proof -
  have "sender_ok (z y) (((node net)(x := s)) y) (((sent_data net)(x := D)) y) \<and> wire_ok (((node net)(x := s)) y) (((sent_data net)(x := D)) y) \<and>
      link_ok (((node net)(x := s)) y) (((node net)(x := s)) (peer y)) (((sent_data net)(x := D)) y)" for y
    using assms not_side[of y x] unfolding session_ok_def by (cases "y = x") auto
  then show ?thesis by (simp add: session_ok_def)
qed

lemma session_update_node:
  assumes "session_ok z net" "sender_ok (z x) s (sent_data net x)" "wire_ok s (sent_data net x)" "link_ok s (node net (peer x)) (sent_data net x)"
    "link_ok (node net (peer x)) s (sent_data net (peer x))"
  shows "session_ok z (net\<lparr>node := (node net)(x := s)\<rparr>)"
  using session_update[OF assms] by simp

text \<open>What the steps that pass no data leave alone; they may send some datagrams.\<close>

definition stays :: "'k fd_rpc_stream_t \<Rightarrow> 'k fd_rpc_stream_t \<Rightarrow> u8 list set \<Rightarrow> bool" where
  "stays s s' B \<longleftrightarrow> stream_state s' = stream_state s \<and>
     receive_sequence_number (stream_receive s') = receive_sequence_number (stream_receive s) \<and>
     send_sequence_number (stream_send s') = send_sequence_number (stream_send s) \<and> send_semaphore s' = send_semaphore s \<and>
     last_length (last_send_data s') = last_length (last_send_data s) \<and> last_command (last_send_data s') = last_command (last_send_data s) \<and>
     (last_send_data s = last_send_data_none \<longrightarrow> last_send_data s' = last_send_data_none) \<and>
     received s' = received s \<and> wire s \<subseteq> wire s' \<and> wire s' \<subseteq> wire s \<union> B"

lemma stays_refl [simp]: "stays s s B"
  by (simp add: stays_def)

lemma stays_trans: "stays a b B \<Longrightarrow> stays b c B \<Longrightarrow> stays a c B"
  by (auto simp: stays_def)

lemma received_calls [simp]:
  "received (transmit z b s) = received s" "received (noted z s) = received s"
  by (simp_all add: received_def)

lemma wire_calls [simp]: "wire (transmit z b s) = insert b (wire s)" "wire (noted z s) = wire s"
  by (auto simp: wire_def)

lemma stays_transmit: "b \<in> B \<Longrightarrow> stays s (transmit z b s) B"
  by (auto simp: stays_def)

lemma stays_noted: "stays s (noted z s) B"
  by (auto simp: stays_def)

lemma stays_session:
  assumes "session_ok z net" "stays (node net x) s' B"
    and "\<And>b. b \<in> B \<Longrightarrow> (\<exists>q < length (sent_data net x). b = data_bytes (of_nat q) (sent_data net x ! q)) \<or>
     (\<exists>a < unat (receive_sequence_number (stream_receive (node net x))). b = ack_bytes (of_nat a)) \<or> b = keep_alive_bytes"
  shows "session_ok z (net\<lparr>node := (node net)(x := s')\<rparr>)"
proof (rule session_update_node[OF assms(1)])
  have o: "sender_ok (z x) (node net x) (sent_data net x)" "wire_ok (node net x) (sent_data net x)"
    "link_ok (node net x) (node net (peer x)) (sent_data net x)" "link_ok (node net (peer x)) (node net x) (sent_data net (peer x))"
    using assms(1) unfolding session_ok_def by (metis peer_peer(1))+
  show "sender_ok (z x) s' (sent_data net x)" using o(1) assms(2) unfolding sender_ok_def stays_def by auto
  show "wire_ok s' (sent_data net x)" using o(2) assms(2,3) unfolding wire_ok_def stays_def by (metis UnE subsetD)
  show "link_ok s' (node net (peer x)) (sent_data net x)" "link_ok (node net (peer x)) s' (sent_data net (peer x))"
    using o(3,4) assms(2) unfolding link_ok_def stays_def by simp_all
qed

lemma last_none [simp]: "last_time last_send_data_none = 0"
  by (simp add: last_send_data_none_def)

lemma check_retry_stays:
  assumes "sender_ok z s D" "check_retry z time s = Some s'"
  shows "stays s s' {data_bytes (send_sequence_number (stream_send s)) (last D) | q::unit. length D = unat (send_sequence_number (stream_send s)) + 1}"
proof (cases "last_time (last_send_data s) > 0 \<and> time > last_time (last_send_data s) + uint (last_timeout (last_send_data s))")
  case True
  then have o: "length D = unat (send_sequence_number (stream_send s)) + 1" "last_length (last_send_data s) = 4 + length (last D)"
    "length (last_command (last_send_data s)) = 1028" "last D \<in> set D" "last_send_data s \<noteq> last_send_data_none"
    "take (last_length (last_send_data s)) (last_command (last_send_data s)) = data_bytes (send_sequence_number (stream_send s)) (last D)"
    using assms(1) unfolding sender_ok_def by (auto intro: last_in_set)
  have l: "length (last D) \<le> 1024" using assms(1) o(4) by (simp add: sender_ok_def)
  obtain t where t: "double_timeout (last_timeout (last_send_data s)) = Some t"
      "s' = transmit z (data_bytes (send_sequence_number (stream_send s)) (last D))
        (s\<lparr>send_retry_count := send_retry_count s + 1, last_send_data := (last_send_data s)\<lparr>last_timeout := t\<rparr>\<rparr>)"
    using assms(2) True o(2,3,6) l by (auto simp: check_retry_def Let_def send_command_transmit split: Option.bind_splits)
  show ?thesis using o(1,5) unfolding t(2) stays_def by (auto simp: received_def wire_def)
next
  case False
  have "s' = s" using assms(2) unfolding check_retry_def if_not_P[OF False] by simp
  then show ?thesis by simp
qed

lemma tracker_check_stays: "stays s (snd (fd_rpc_stream_tracker_check tracker time s)) B"
  by (simp add: fd_rpc_stream_tracker_check_def Let_def stays_def stream_assert_def received_def wire_def)

lemma check_send_keep_alive_stays:
  assumes "check_send_keep_alive z time s = Some s'" shows "stays s s' {keep_alive_bytes}"
proof -
  obtain status s1 where c: "fd_rpc_stream_tracker_check (send_keep_alive (stream_send s)) time s = (status, s1)" by fastforce
  have a: "stays s s1 {keep_alive_bytes}" using tracker_check_stays[of s "send_keep_alive (stream_send s)" time] c by simp
  have "stays s1 (s1\<lparr>send_keep_alive_count := send_keep_alive_count s1 + 1\<rparr>) {keep_alive_bytes}" by (auto simp: stays_def received_def wire_def)
  then have "stays s1 (transmit z keep_alive_bytes (s1\<lparr>send_keep_alive_count := send_keep_alive_count s1 + 1\<rparr>)) {keep_alive_bytes}"
    by (rule stays_trans[OF _ stays_transmit]) simp
  then show ?thesis using assms a stays_trans[OF a]
    by (auto simp: check_send_keep_alive_def c send_keep_alive_transmit Let_def split: if_splits)
qed

lemma send_disconnect_disconnects: "fd_rpc_stream_send_disconnect z s = Some s' \<Longrightarrow> stream_state s' = fd_rpc_stream_state_disconnected"
  by (auto simp: fd_rpc_stream_send_disconnect_def fd_rpc_stream_disconnect_def client_call_def Let_def split: Option.bind_splits)

lemma check_receive_keep_alive_stays:
  assumes "check_receive_keep_alive z time s = Some s'" "stream_state s' = fd_rpc_stream_state_connected" shows "stays s s' B"
proof -
  obtain status s1 where c: "fd_rpc_stream_tracker_check (receive_keep_alive (stream_receive s)) time s = (status, s1)" by fastforce
  have "stays s s1 B" using tracker_check_stays[of s "receive_keep_alive (stream_receive s)" time] c by simp
  then show ?thesis using assms send_disconnect_disconnects[of z _ s']
    by (auto simp: check_receive_keep_alive_def c Let_def split: if_splits)
qed

lemma stays_mono: "stays a b B \<Longrightarrow> B \<subseteq> C \<Longrightarrow> stays a b C"
  by (auto simp: stays_def)

lemma sender_ok_stays: "sender_ok z s D \<Longrightarrow> stays s s' B \<Longrightarrow> sender_ok z s' D"
  unfolding sender_ok_def stays_def by auto

lemma check_stays:
  assumes "sender_ok z s D" "fd_rpc_stream_check z s = Some s'" "stream_state s' = fd_rpc_stream_state_connected"
  shows "stays s s' ({keep_alive_bytes} \<union> {data_bytes (send_sequence_number (stream_send s)) (last D) | q::unit. length D = unat (send_sequence_number (stream_send s)) + 1})"
proof -
  define s0 where "s0 = snd (k_uptime_get z s)"
  define time where "time = fst (k_uptime_get z s)"
  have s0: "stays s s0 B" for B by (simp add: s0_def k_uptime_get_def stays_def received_def wire_def)
  have "stream_state s = fd_rpc_stream_state_connected" using assms(1) by (simp add: sender_ok_def)
  then obtain s1 s2 where c: "check_retry z time s0 = Some s1" "check_send_keep_alive z time s1 = Some s2" "check_receive_keep_alive z time s2 = Some s'"
    using assms(2) by (auto simp: fd_rpc_stream_check_def s0_def time_def Let_def split: prod.splits Option.bind_splits)
  have a: "stays s0 s1 {data_bytes (send_sequence_number (stream_send s)) (last D) | q::unit. length D = unat (send_sequence_number (stream_send s)) + 1}"
    using check_retry_stays[OF sender_ok_stays[OF assms(1) s0] c(1)] s0 by (simp add: stays_def)
  show ?thesis
    by (rule stays_trans[OF s0 stays_trans[OF stays_mono[OF a] stays_trans[OF stays_mono[OF check_send_keep_alive_stays[OF c(2)]]
        check_receive_keep_alive_stays[OF c(3) assms(3)]]]]) auto
qed

lemma unat_Suc_less: "unat w < 2 ^ 32 - 1 \<Longrightarrow> unat (w + 1) = unat w + 1" for w :: u32
  using u32_add_no_wrap[of w 1] by simp

lemma received_client [simp]: "received (s\<lparr>stream_receive := y\<rparr>) = received s" "wire (s\<lparr>stream_receive := y\<rparr>) = wire s"
  by (simp_all add: received_def wire_def)

lemma received_call [simp]:
  "received (client_call c s) = received s @ (case c of received_data d \<Rightarrow> [d] | _ \<Rightarrow> [])"
  "wire (client_call c s) = wire s \<union> (case c of send_command b \<Rightarrow> {b} | _ \<Rightarrow> {})"
  by (auto simp: received_def wire_def client_call_def split: stream_call.splits)

lemma u32_index: "q < 2 ^ 31 \<Longrightarrow> (of_nat q :: u32) < 0x80000000" "q < 2 ^ 31 \<Longrightarrow> unat (of_nat q :: u32) = q"
  by (simp_all add: word_less_nat_alt unat_of_nat)


text \<open>What arrives: the effect of every datagram that can be on the wire.\<close>

lemma receive_session:
  assumes ok: "session_ok z net" and laws: "semaphore_laws (z x)" and m: "m \<in> wire (node net (peer x))"
  shows "\<exists>s'. fd_rpc_stream_receive (z x) m (node net x) = Some s' \<and> session_ok z (net\<lparr>node := (node net)(x := s')\<rparr>)"
proof -
  define s where "s = node net x"
  define p where "p = node net (peer x)"
  define D where "D = sent_data net x"
  define E where "E = sent_data net (peer x)"
  have o: "sender_ok (z x) s D" "wire_ok s D" "link_ok s p D" "sender_ok (z (peer x)) p E" "wire_ok p E" "link_ok p s E"
    using ok unfolding session_ok_def s_def p_def D_def E_def by (metis peer_peer(1))+
  define r where "r = receive_sequence_number (stream_receive s)"
  have conn: "stream_state s = fd_rpc_stream_state_connected" and lE: "length E \<le> 2 ^ 31" and lD: "length D \<le> 2 ^ 31"
    using o(1,4) by (simp_all add: sender_ok_def)
  have rE: "unat r \<le> length E" "received s = take (unat r) E" "unat (send_sequence_number (stream_send p)) \<le> unat r"
    using o(6) by (simp_all add: link_ok_def r_def)
  from o(5) m consider (data) q where "q < length E" "m = data_bytes (of_nat q) (E ! q)"
    | (ack) a where "a < unat (receive_sequence_number (stream_receive p))" "m = ack_bytes (of_nat a)" | (keep_alive) "m = keep_alive_bytes"
    unfolding wire_ok_def p_def by blast
  then show ?thesis
  proof cases
    case data
    have q: "q < 2 ^ 31" using data(1) lE by simp
    have d: "length (E ! q) \<le> 1024" using o(4) data(1) by (simp add: sender_ok_def)
    note rc = receive_data_bytes[OF u32_index(1)[OF q] d conn, of "z x", unfolded data(2)[symmetric] r_def[symmetric]]
    have "q \<le> unat r" using o(4) data(1) rE(3) by (auto simp: sender_ok_def)
    then consider "q < unat r" | "q = unat r" by linarith
    then show ?thesis
    proof cases
      case 1
      then have "fd_rpc_stream_receive (z x) m s = Some (transmit (z x) (ack_bytes (of_nat q)) (noted (z x) s))"
        using rc u32_index(2)[OF q] by (simp add: Let_def word_less_nat_alt)
      moreover have "session_ok z (net\<lparr>node := (node net)(x := transmit (z x) (ack_bytes (of_nat q)) (noted (z x) s))\<rparr>)"
      proof (rule stays_session[OF ok])
        show "stays (node net x) (transmit (z x) (ack_bytes (of_nat q)) (noted (z x) s)) {ack_bytes (of_nat q)}"
          unfolding s_def by (rule stays_trans[OF stays_noted stays_transmit]) simp
      qed (use 1 in \<open>auto simp: r_def s_def\<close>)
      ultimately show ?thesis by (simp add: s_def)
    next
      case 2
      then have qr: "of_nat q = r" by simp
      define s' where "s' = (let s' = client_call (received_data (E ! q)) (transmit (z x) (ack_bytes r) (noted (z x) s))
        in s'\<lparr>stream_receive := (stream_receive s')\<lparr>receive_sequence_number := r + 1\<rparr>\<rparr>)"
      have rc': "fd_rpc_stream_receive (z x) m s = Some s'" using rc qr by (simp add: s'_def Let_def)
      have r1: "unat (r + 1) = unat r + 1" by (rule unat_Suc_less) (use 2 q in simp)
      have f: "stream_state s' = stream_state s" "stream_send s' = stream_send (transmit (z x) (ack_bytes r) (noted (z x) s))"
        "receive_sequence_number (stream_receive s') = r + 1" "send_semaphore s' = send_semaphore s" "last_send_data s' = last_send_data s"
        "received s' = received s @ [E ! q]" "wire s' = insert (ack_bytes r) (wire s)"
        by (simp_all add: s'_def Let_def) (simp_all add: client_call_def)
      have "session_ok z (net\<lparr>node := (node net)(x := s')\<rparr>)"
      proof (rule session_update_node[OF ok])
        show "sender_ok (z x) s' (sent_data net x)" using o(1) f unfolding sender_ok_def D_def by auto
        show "wire_ok s' (sent_data net x)" unfolding wire_ok_def f(3,7) r1
        proof
          fix b assume "b \<in> insert (ack_bytes r) (wire s)"
          then consider "b = ack_bytes (of_nat (unat r))" | "b \<in> wire s" by auto
          then show "(\<exists>q<length (sent_data net x). b = data_bytes (of_nat q) (sent_data net x ! q)) \<or>
              (\<exists>a<unat r + 1. b = ack_bytes (of_nat a)) \<or> b = keep_alive_bytes"
          proof cases
            case 1
            then show ?thesis using less_add_one by blast
          next
            case 2
            then show ?thesis using o(2) trans_less_add1 unfolding wire_ok_def D_def r_def by blast
          qed
        qed
        show "link_ok s' (node net (peer x)) (sent_data net x)" using o(3) f(2) unfolding link_ok_def p_def D_def by simp
        show "link_ok (node net (peer x)) s' (sent_data net (peer x))"
          using rE f(3,6) r1 2 data(1) unfolding link_ok_def p_def E_def by (simp add: take_Suc_conv_app_nth)
      qed
      then show ?thesis using rc' by (simp add: s_def)
    qed
  next
    case ack
    define n where "n = send_sequence_number (stream_send s)"
    have rp: "unat (receive_sequence_number (stream_receive p)) \<le> length D" "received p = take (unat (receive_sequence_number (stream_receive p))) D"
      "unat n \<le> unat (receive_sequence_number (stream_receive p))" using o(3) by (simp_all add: link_ok_def n_def)
    have a: "a < 2 ^ 31" using ack(1) rp(1) lD by simp
    note rc = receive_ack_bytes[OF u32_index(1)[OF a], of "z x" s, unfolded ack(2)[symmetric] n_def[symmetric]]
    have "length D \<le> unat n + 1" using o(1) by (auto simp: sender_ok_def n_def)
    then consider "a < unat n" | "a = unat n" using ack(1) rp(1) by linarith
    then show ?thesis
    proof cases
      case 1
      then have "fd_rpc_stream_receive (z x) m s = Some (noted (z x) s)" using rc u32_index(2)[OF a] by (simp add: Let_def word_less_nat_alt)
      moreover have "session_ok z (net\<lparr>node := (node net)(x := noted (z x) s)\<rparr>)"
        by (rule stays_session[OF ok, of x _ "{}"]) (simp_all add: s_def stays_noted)
      ultimately show ?thesis by (simp add: s_def)
    next
      case 2
      have len: "length D = unat n + 1" using 2 ack(1) rp(1) \<open>length D \<le> unat n + 1\<close> by simp
      have count: "k_sem_count_get (z x) (send_semaphore s) = 0" using o(1) len by (auto simp: sender_ok_def n_def)
      define s' where "s' = client_call received_ack ((noted (z x) s)\<lparr>stream_send := (stream_send s)\<lparr>send_sequence_number := n + 1\<rparr>,
         send_semaphore := k_sem_give (z x) (send_semaphore s), last_send_data := last_send_data_none\<rparr>)"
      have "of_nat a = n" using 2 by simp
      then have rc': "fd_rpc_stream_receive (z x) m s = Some s'" using rc count by (simp add: s'_def Let_def)
      have n1: "unat (n + 1) = unat n + 1" by (rule unat_Suc_less) (use 2 a in simp)
      have c1: "k_sem_count_get (z x) (k_sem_give (z x) (send_semaphore s)) = 1" using laws count by (simp add: semaphore_laws_def)
      have f: "stream_state s' = stream_state s" "send_sequence_number (stream_send s') = n + 1"
        "receive_sequence_number (stream_receive s') = receive_sequence_number (stream_receive s)"
        "send_semaphore s' = k_sem_give (z x) (send_semaphore s)" "last_send_data s' = last_send_data_none" "received s' = received s" "wire s' = wire s"
        unfolding s'_def by (simp_all add: received_def wire_def client_call_def)
      have "session_ok z (net\<lparr>node := (node net)(x := s')\<rparr>)"
      proof (rule session_update_node[OF ok])
        show "sender_ok (z x) s' (sent_data net x)" using o(1) f n1 c1 len unfolding sender_ok_def D_def by simp
        show "wire_ok s' (sent_data net x)" using o(2) unfolding wire_ok_def f(3,7) D_def by simp
        show "link_ok s' (node net (peer x)) (sent_data net x)" using rp 2 ack(1) n1 unfolding link_ok_def f(2) p_def D_def by simp
        show "link_ok (node net (peer x)) s' (sent_data net (peer x))" using o(6) unfolding link_ok_def f(3,6) p_def E_def by simp
      qed
      then show ?thesis using rc' by (simp add: s_def)
    qed
  next
    case keep_alive
    have "stays (noted (z x) s) (client_call received_keep_alive (noted (z x) s)) {}"
      by (simp add: stays_def) (simp add: client_call_def)
    then have "stays (node net x) (client_call received_keep_alive (noted (z x) s)) {}"
      using stays_trans[OF stays_noted] by (simp add: s_def)
    then have "session_ok z (net\<lparr>node := (node net)(x := client_call received_keep_alive (noted (z x) s))\<rparr>)"
      by (rule stays_session[OF ok]) simp
    then show ?thesis using receive_keep_alive_bytes[of "z x" s] keep_alive by (simp add: s_def)
  qed
qed


lemma send_session:
  assumes ok: "session_ok z net" and laws: "semaphore_laws (z x)" and d: "d \<noteq> []" "length d \<le> 1024" "length (sent_data net x) < 2 ^ 31"
    and w: "fd_rpc_stream_wait_for_send_ack (z x) (node net x) = (True, s1)" and sd: "fd_rpc_stream_send_data (z x) d s1 = Some (r, s2)"
  shows "session_ok z (net\<lparr>node := (node net)(x := s2), sent_data := (sent_data net)(x := sent_data net x @ [d])\<rparr>)"
proof -
  define s where "s = node net x"
  define D where "D = sent_data net x"
  have o: "sender_ok (z x) s D" "wire_ok s D" "link_ok s (node net (peer x)) D" "link_ok (node net (peer x)) s (sent_data net (peer x))"
    using ok unfolding session_ok_def s_def D_def by (metis peer_peer(1))+
  obtain k where k: "k_sem_take (z x) (send_semaphore s) 5000 = (True, k)" "s1 = s\<lparr>send_semaphore := k\<rparr>"
    using w by (auto simp: fd_rpc_stream_wait_for_send_ack_def s_def split: prod.splits)
  have c: "k_sem_count_get (z x) (send_semaphore s) = k_sem_count_get (z x) k + 1" using laws k(1) by (simp add: semaphore_laws_def)
  then have idle: "length D = unat (send_sequence_number (stream_send s))" "last_send_data s = last_send_data_none"
    "k_sem_count_get (z x) k = 0"
    using o(1) by (auto simp: sender_ok_def)
  have "0 < length d" "length (last_command (last_send_data s1)) = 1028" "last_time (last_send_data s1) = 0"
    using d(1) idle(2) by (simp_all add: k(2) last_send_data_none_def)
  from send_data_transmit[OF this(1) d(2) this(2,3), of "z x"] obtain s' where
    s': "fd_rpc_stream_send_data (z x) d s1 = Some (True, s')" "stream_state s' = stream_state s1" "stream_receive s' = stream_receive s1"
    "send_sequence_number (stream_send s') = send_sequence_number (stream_send s1)" "send_semaphore s' = send_semaphore s1"
    "stream_calls s' = stream_calls s1 @ [send_command (data_bytes (send_sequence_number (stream_send s1)) d)]"
    "last_length (last_send_data s') = 4 + length d" "length (last_command (last_send_data s')) = 1028"
    "take (4 + length d) (last_command (last_send_data s')) = data_bytes (send_sequence_number (stream_send s1)) d" by blast
  have "s' = s2" using s'(1) sd by simp
  with s'(2-) have f: "stream_state s2 = stream_state s" "stream_receive s2 = stream_receive s"
    "send_sequence_number (stream_send s2) = send_sequence_number (stream_send s)" "send_semaphore s2 = k"
    "stream_calls s2 = stream_calls s @ [send_command (data_bytes (send_sequence_number (stream_send s)) d)]"
    "last_length (last_send_data s2) = 4 + length d" "length (last_command (last_send_data s2)) = 1028"
    "take (4 + length d) (last_command (last_send_data s2)) = data_bytes (send_sequence_number (stream_send s)) d"
    by (simp_all add: k(2))
  have g: "received s2 = received s" "wire s2 = insert (data_bytes (send_sequence_number (stream_send s)) d) (wire s)"
    using f(5) by (auto simp: received_def wire_def)
  have n: "send_sequence_number (stream_send s) = of_nat (length D)" using idle(1) by simp
  show ?thesis
  proof (rule session_update[OF ok])
    show "sender_ok (z x) s2 (sent_data net x @ [d])"
      using o(1) d idle(1) unfolding sender_ok_def f(1,3,4,6,7) D_def[symmetric] by (simp add: f(8) g(2) idle(3))
    show "wire_ok s2 (sent_data net x @ [d])" unfolding wire_ok_def g(2) f(2)
    proof
      fix b assume "b \<in> insert (data_bytes (send_sequence_number (stream_send s)) d) (wire s)"
      then consider "b = data_bytes (of_nat (length D)) ((sent_data net x @ [d]) ! length D)" | "b \<in> wire s"
        by (auto simp: n D_def)
      then show "(\<exists>q<length (sent_data net x @ [d]). b = data_bytes (of_nat q) ((sent_data net x @ [d]) ! q)) \<or>
          (\<exists>a<unat (receive_sequence_number (stream_receive s)). b = ack_bytes (of_nat a)) \<or> b = keep_alive_bytes"
      proof cases
        case 1
        then show ?thesis by (auto simp: D_def)
      next
        case 2
        then consider q where "q < length D" "b = data_bytes (of_nat q) (D ! q)"
          | "(\<exists>a<unat (receive_sequence_number (stream_receive s)). b = ack_bytes (of_nat a)) \<or> b = keep_alive_bytes"
          using o(2) unfolding wire_ok_def by blast
        then show ?thesis
        proof cases
          case 1
          then have "b = data_bytes (of_nat q) ((sent_data net x @ [d]) ! q)" "q < length (sent_data net x @ [d])"
            by (simp_all add: D_def nth_append)
          then show ?thesis by blast
        qed blast
      qed
    qed
    show "link_ok s2 (node net (peer x)) (sent_data net x @ [d])" using o(3) f(3) unfolding link_ok_def D_def by simp
    show "link_ok (node net (peer x)) s2 (sent_data net (peer x))" using o(4) f(2) g(1) unfolding link_ok_def by simp
  qed
qed

lemma session_invariant:
  assumes "session z net" "\<forall>x. semaphore_laws (z x)" shows "session_ok z net"
  using assms(1)
proof induction
  case (start net)
  then show ?case
    by (auto simp: session_ok_def sender_ok_def wire_ok_def link_ok_def fresh_def wire_def received_def)
next
  case (send net d x s1 r s2)
  then show ?case using send_session assms(2) by blast
next
  case (check net x s')
  define s where "s = node net x"
  define D where "D = sent_data net x"
  have ok: "session_ok z net" by fact
  have so: "sender_ok (z x) s D" using ok by (simp add: session_ok_def s_def D_def)
  define B where "B = {keep_alive_bytes} \<union> {data_bytes (send_sequence_number (stream_send s)) (last D) | q::unit. length D = unat (send_sequence_number (stream_send s)) + 1}"
  have "stays s s' B" unfolding B_def by (rule check_stays[OF so]) (use check in \<open>simp_all add: s_def\<close>)
  then show ?case
  proof (rule stays_session[OF ok, of x s' B, folded s_def D_def])
    fix b assume "b \<in> B"
    then consider "b = keep_alive_bytes"
      | "b = data_bytes (send_sequence_number (stream_send s)) (last D)" "length D = unat (send_sequence_number (stream_send s)) + 1"
      by (auto simp: B_def)
    then show "(\<exists>q<length D. b = data_bytes (of_nat q) (D ! q)) \<or> (\<exists>a<unat (receive_sequence_number (stream_receive s)). b = ack_bytes (of_nat a)) \<or> b = keep_alive_bytes"
    proof cases
      case 2
      then have "D \<noteq> []" by auto
      with 2 have "b = data_bytes (of_nat (length D - 1)) (D ! (length D - 1))" "length D - 1 < length D" by (auto simp: last_conv_nth)
      then show ?thesis by blast
    qed simp
  qed
next
  case (receive net m x s')
  then show ?case using receive_session[of z net x m] assms(2) by auto
qed

section \<open>Exactly once, in order\<close>

text \<open>C32: A connection delivers data reliably over an unreliable link: datagrams may be lost, repeated and overtake each other, in
  both directions, and retransmissions and keep alives may happen at any time; what an end has passed to its client is then a
  first part of what its peer was given to send, each piece whole, once and in order, all of it but the last piece at
  most, and all of it whenever the sender's semaphore is free.\<close>
theorem fd_rpc_stream_reliable:
  assumes "session z net" "\<forall>x. semaphore_laws (z x)"
  shows "received (node net (peer x)) = take (length (received (node net (peer x)))) (sent_data net x) \<and>
    length (sent_data net x) \<le> length (received (node net (peer x))) + 1 \<and>
    (0 < k_sem_count_get (z x) (send_semaphore (node net x)) \<longrightarrow> received (node net (peer x)) = sent_data net x)"
proof -
  have s: "sender_ok (z x) (node net x) (sent_data net x)" and l: "link_ok (node net x) (node net (peer x)) (sent_data net x)"
    using session_invariant[OF assms] by (simp_all add: session_ok_def)
  then show ?thesis by (auto simp: sender_ok_def link_ok_def)
qed


text \<open>C33: One delivery each way is enough: while data waits for its acknowledgement its datagram is on the wire; when it arrives,
  the peer takes it and its client has everything; an acknowledgement is then on the wire, and when that arrives the
  sender is free to send again.\<close>
theorem fd_rpc_stream_progress:
  assumes "session z net" "\<forall>x. semaphore_laws (z x)" "k_sem_count_get (z x) (send_semaphore (node net x)) = 0"
  shows "\<exists>m \<in> wire (node net x). \<exists>p. fd_rpc_stream_receive (z (peer x)) m (node net (peer x)) = Some p \<and> received p = sent_data net x \<and>
    (\<exists>a \<in> wire p. \<exists>s. fd_rpc_stream_receive (z x) a (node net x) = Some s \<and> k_sem_count_get (z x) (send_semaphore s) = 1)"
proof -
  define s where "s = node net x"
  define p where "p = node net (peer x)"
  define D where "D = sent_data net x"
  define n where "n = send_sequence_number (stream_send s)"
  define r where "r = receive_sequence_number (stream_receive p)"
  have o: "sender_ok (z x) s D" "link_ok s p D" "stream_state p = fd_rpc_stream_state_connected"
    using session_invariant[OF assms(1,2)] unfolding session_ok_def s_def p_def D_def sender_ok_def by auto
  have len: "length D = unat n + 1" "data_bytes n (last D) \<in> wire s" "length D \<le> 2 ^ 31"
    using o(1) assms(3) by (auto simp: sender_ok_def n_def s_def)
  then have ne: "D \<noteq> []" by auto
  then have l: "length (last D) \<le> 1024" using o(1) by (simp add: sender_ok_def)
  have n: "n < 0x80000000" using len by (simp add: word_less_nat_alt)
  have r: "unat n \<le> unat r" "unat r \<le> length D" "received p = take (unat r) D" using o(2) by (simp_all add: link_ok_def n_def r_def)
  have rc: "fd_rpc_stream_receive (z (peer x)) (data_bytes n (last D)) p = Some p' \<Longrightarrow> received p' = D \<Longrightarrow> ack_bytes n \<in> wire p' \<Longrightarrow> ?thesis" for p'
  proof -
    assume a: "fd_rpc_stream_receive (z (peer x)) (data_bytes n (last D)) p = Some p'" "received p' = D" "ack_bytes n \<in> wire p'"
    have "k_sem_count_get (z x) (k_sem_give (z x) (send_semaphore s)) = 1" using assms(2,3) by (simp add: semaphore_laws_def s_def)
    then have "\<exists>s'. fd_rpc_stream_receive (z x) (ack_bytes n) s = Some s' \<and> k_sem_count_get (z x) (send_semaphore s') = 1"
      using receive_ack_bytes[OF n, of "z x" s] by (simp add: n_def[symmetric] Let_def client_call_def stream_assert_def)
    then show ?thesis using a len(2) unfolding s_def p_def D_def by blast
  qed
  note rd = receive_data_bytes[OF n l o(3), of "z (peer x)", folded r_def]
  show ?thesis
  proof (cases "n < r")
    case True
    then have "unat r = length D" using r(2) len(1) by (simp add: word_less_nat_alt)
    then show ?thesis using rc[of "transmit (z (peer x)) (ack_bytes n) (noted (z (peer x)) p)"] rd True r(3) by simp
  next
    case False
    then have nr: "n = r" using r(1) by (simp add: word_less_nat_alt word_unat_eq_iff)
    have "take (unat n) D @ [last D] = D" using ne len(1) by (metis add_diff_cancel_right' append_butlast_last_id butlast_conv_take)
    then show ?thesis using rc[of "let s' = client_call (received_data (last D)) (transmit (z (peer x)) (ack_bytes r) (noted (z (peer x)) p))
       in s'\<lparr>stream_receive := (stream_receive s')\<lparr>receive_sequence_number := r + 1\<rparr>\<rparr>"] rd nr r(3)
      by (simp add: Let_def)
  qed
qed

text \<open>The periodic check repeats the datagram that waits for its acknowledgement once its time is over, and doubles the time:
  in a connection whose peer is not silent for longer than the keep alive allows, with a clock that does not go back, and
  as long as the time is short of 2^24 milliseconds.\<close>
theorem fd_rpc_stream_check_retransmits:
  fixes net :: "'k network"
  assumes "session z net" "\<forall>x. semaphore_laws (z x)" "k_sem_count_get (z x) (send_semaphore (node net x)) = 0"
    and "s = node net x" "0 < last_time (last_send_data s)" "uint (last_timeout (last_send_data s)) < 2 ^ 24"
    and "last_time (last_send_data s) + uint (last_timeout (last_send_data s)) < uptime (z x) (stream_readings s)"
    and "\<forall>i j. i \<le> j \<longrightarrow> uptime (z x) i \<le> uptime (z x) j"
    and "uptime (z x) (stream_readings s) \<le> last_active_time (receive_keep_alive (stream_receive s)) + uint (timeout (receive_keep_alive (stream_receive s)))"
  shows "\<exists>s'. fd_rpc_stream_check (z x) s = Some s' \<and>
    stream_calls s' = stream_calls s @ [send_command (data_bytes (send_sequence_number (stream_send s)) (last (sent_data net x)))] \<and>
    last_timeout (last_send_data s') = 2 * last_timeout (last_send_data s)"
proof -
  define D where "D = sent_data net x"
  define n where "n = send_sequence_number (stream_send s)"
  define now where "now = uptime (z x) (stream_readings s)"
  define t where "t = last_timeout (last_send_data s)"
  have so: "sender_ok (z x) s D" using session_invariant[OF assms(1,2)] by (simp add: session_ok_def assms(4) D_def)
  then have o: "last_length (last_send_data s) = 4 + length (last D)" "length (last_command (last_send_data s)) = 1028" "length (last D) \<le> 1024"
    "take (4 + length (last D)) (last_command (last_send_data s)) = data_bytes n (last D)" "stream_state s = fd_rpc_stream_state_connected"
    using assms(3) unfolding assms(4)[symmetric] by (auto simp: sender_ok_def n_def last_in_set length_greater_0_conv[symmetric] simp del: length_greater_0_conv)
  have t2: "double_timeout t = Some (2 * t)"
  proof -
    have "word_of_int (2 * uint t) = 2 * t" by simp
    then show ?thesis using float_round_small[of "uint t"] assms(6) by (simp add: double_timeout_def t_def Let_def)
  qed
  define s0 where "s0 = s\<lparr>stream_readings := stream_readings s + 1\<rparr>"
  define s1 where "s1 = transmit (z x) (data_bytes n (last D)) (s0\<lparr>send_retry_count := send_retry_count s0 + 1, last_send_data := (last_send_data s0)\<lparr>last_timeout := 2 * t\<rparr>\<rparr>)"
  have 1: "check_retry (z x) now s0 = Some s1"
    using assms(5,7) o t2 by (simp add: check_retry_def s0_def s1_def now_def t_def[symmetric] Let_def send_command_transmit)
  have act: "last_active_time (send_keep_alive (stream_send s1)) = uptime (z x) (stream_readings s + 1)"
    by (simp add: s1_def s0_def transmit_def update_send_keep_alive_def fd_rpc_stream_tracker_update_def client_call_def)
  have "now \<le> uptime (z x) (stream_readings s + 1)" unfolding now_def using assms(8) by simp
  then have quiet: "\<not> now - last_active_time (send_keep_alive (stream_send s1)) > uint (timeout (send_keep_alive (stream_send s1)))"
    unfolding act using uint_ge_0[of "timeout (send_keep_alive (stream_send s1))"] by linarith
  have 2: "check_send_keep_alive (z x) now s1 = Some (stream_assert (now \<ge> last_active_time (send_keep_alive (stream_send s1))) ''time >= tracker->last_active_time'' s1)"
    using quiet by (simp add: check_send_keep_alive_def fd_rpc_stream_tracker_check_def Let_def)
  define s2 where "s2 = stream_assert (now \<ge> last_active_time (send_keep_alive (stream_send s1))) ''time >= tracker->last_active_time'' s1"
  have rk: "stream_receive s2 = stream_receive s" by (simp add: s2_def stream_assert_def s1_def s0_def)
  have 3: "check_receive_keep_alive (z x) now s2 = Some (stream_assert (now \<ge> last_active_time (receive_keep_alive (stream_receive s))) ''time >= tracker->last_active_time'' s2)"
    using assms(9) unfolding check_receive_keep_alive_def rk fd_rpc_stream_tracker_check_def now_def by (simp add: Let_def)
  have "fd_rpc_stream_check (z x) s = Some (stream_assert (now \<ge> last_active_time (receive_keep_alive (stream_receive s))) ''time >= tracker->last_active_time'' s2)"
    using o(5) 1 2 3 by (simp add: fd_rpc_stream_check_def k_uptime_get_def now_def[symmetric] s0_def s2_def)
  then show ?thesis by (simp add: stream_assert_def s2_def s1_def s0_def n_def D_def t_def)
qed

lemma put_small:
  assumes "bin_ok b"
  shows "1 \<le> bin_room b \<Longrightarrow> \<exists>c. fd_binary_put_uint8 b v = Some c \<and> bin_ok c \<and> bin_written c = bin_written b @ [v] \<and> bin_room c = bin_room b - 1 \<and> bin_errors c = bin_errors b"
    and "2 \<le> bin_room b \<Longrightarrow> \<exists>c. fd_binary_put_uint16 b w = Some c \<and> bin_ok c \<and> bin_written c = bin_written b @ le_bytes 2 w \<and> bin_room c = bin_room b - 2 \<and> bin_errors c = bin_errors b"
  using put_specs(1,2)[OF assms] put_whole_facts[OF assms, of "[v]"] put_whole_facts[OF assms, of "le_bytes 2 w"] by simp_all

lemma connect_response_v1:
  "fd_rpc_stream_send_connect_response z 0 1 configuration s = Some (transmit z (le_bytes 4 (0x80000001 :: u32) @ [0, 1, 1] @ le_bytes 2 (1024 :: u16)) s)"
proof -
  obtain b where b: "put_command 64 fd_rpc_stream_command_connect_response = Some b" "bin_ok b"
      "bin_written b = le_bytes 4 (command_code fd_rpc_stream_command_connect_response OR 0x80000000)" "bin_room b = 64 - 4" "bin_errors b = 0"
    by (rule put_command_facts[of 64 fd_rpc_stream_command_connect_response]) simp_all
  have "1 \<le> bin_room b" using b(4) by simp
  from put_small(1)[OF b(2) this, of 0] obtain c where c: "fd_binary_put_uint8 b 0 = Some c" "bin_ok c" "bin_written c = bin_written b @ [0]"
      "bin_room c = bin_room b - 1" "bin_errors c = bin_errors b" by (elim exE conjE) (rule that)
  have "1 \<le> bin_room c" using b(4) c(4) by simp
  from put_small(1)[OF c(2) this, of 1] obtain d where d: "fd_binary_put_uint8 c 1 = Some d" "bin_ok d" "bin_written d = bin_written c @ [1]"
      "bin_room d = bin_room c - 1" "bin_errors d = bin_errors c" by (elim exE conjE) (rule that)
  have "1 \<le> bin_room d" using b(4) c(4) d(4) by simp
  from put_small(1)[OF d(2) this, of 1] obtain e where e: "fd_binary_put_uint8 d 1 = Some e" "bin_ok e" "bin_written e = bin_written d @ [1]"
      "bin_room e = bin_room d - 1" "bin_errors e = bin_errors d" by (elim exE conjE) (rule that)
  have "2 \<le> bin_room e" using b(4) c(4) d(4) e(4) by simp
  from put_small(2)[OF e(2) this, of 1024] obtain f where f: "fd_binary_put_uint16 e 1024 = Some f" "bin_ok f" "bin_written f = bin_written e @ le_bytes 2 (1024 :: u16)"
      "bin_room f = bin_room e - 2" "bin_errors f = bin_errors e" by (elim exE conjE) (rule that)
  have code: "command_code fd_rpc_stream_command_connect_response OR 0x80000000 = 0x80000001" by simp
  have w1: "bin_errors f = 0" by (simp only: b(5) c(5) d(5) e(5) f(5))
  have w2: "bin_written f = le_bytes 4 (0x80000001 :: u32) @ [0, 1, 1] @ le_bytes 2 (1024 :: u16)"
    by (simp only: f(3) e(3) d(3) c(3) b(3) code append_assoc append_Cons append_Nil)
  have "4 \<le> length (bin_written f)" unfolding w2 by simp
  from send_binary_transmit[OF f(2) w1 this, of z s] have t: "send_binary z f s = Some (transmit z (bin_written f) s)" .
  have "fd_rpc_stream_put_connection_configuration z d 1 configuration s = Some (f, s)"
    by (simp add: fd_rpc_stream_put_connection_configuration_def e(1) f(1))
  then show ?thesis unfolding fd_rpc_stream_send_connect_response_def b(1) c(1) bind.bind_lunit d(1) prod.case t w2[symmetric] by (simp add: t)
qed

lemma version_1_times: "float_to_milliseconds 0x40a00000 = Some 5000" "float_to_milliseconds 0x40000000 = Some 2000" "float_to_milliseconds 0x3f000000 = Some 500"
  by code_simp+

lemma receive_connect_v1:
  assumes "semaphore_laws z"
  shows "\<exists>s'. fd_rpc_stream_receive z (le_bytes 4 (0x80000000 :: u32) @ [1, window] @ le_bytes 2 (mtu :: u16)) s = Some s' \<and>
    fresh z (s'\<lparr>stream_calls := []\<rparr>) \<and>
    stream_calls s' = stream_calls s @ [send_command (le_bytes 4 (0x80000001 :: u32) @ [0, 1, 1] @ le_bytes 2 (1024 :: u16)), received_connect] \<and>
    timeout (receive_keep_alive (stream_receive s')) = 5000 \<and> timeout (send_keep_alive (stream_send s')) = 2000 \<and> last_send_data_timeout s' = 500"
proof -
  let ?m = "le_bytes 4 (0x80000000 :: u32) @ [1, window] @ le_bytes 2 mtu"
  obtain b where b: "fd_binary_get_uint32 (fd_binary_initialize ?m (of_nat (length ?m))) = Some (0x80000000, b)" "bin_ok b" "bin_next ([1, window] @ le_bytes 2 mtu) b"
    using header_read[of ?m "0x80000000" "[1, window] @ le_bytes 2 mtu"] by auto
  obtain b1 where b1: "fd_binary_get_uint8 b = Some (1, b1)" "bin_ok b1" "bin_next ([window] @ le_bytes 2 mtu) b1"
  proof -
    have n: "bin_next ([1] @ [window] @ le_bytes 2 mtu) b" using b(3) by simp
    show thesis using that get_specs(1)[OF b(2) bin_next_append(1)[OF b(2) n]] bin_advance_ok(1)[OF b(2), of 1] bin_next_append(2)[OF b(2) n] n
      by (simp add: bin_next_def)
  qed
  obtain b2 where b2: "fd_binary_get_uint8 b1 = Some (window, b2)" "bin_ok b2" "bin_next (le_bytes 2 mtu) b2"
    using get_specs(1)[OF b1(2) bin_next_append(1)[OF b1(2,3)]] bin_advance_ok(1)[OF b1(2), of 1] bin_next_append(2)[OF b1(2,3)] b1(3)
    by (simp add: bin_next_def)
  obtain b3 where b3: "fd_binary_get_uint16 b2 = Some (le_value (le_bytes 2 mtu), b3)" using get_specs(2)[OF b2(2,3)] by simp
  have r: "fd_rpc_stream_receive z ?m s = fd_rpc_stream_receive_connect_request z b (noted z s)"
    using b(1) by (simp add: fd_rpc_stream_receive_def fd_rpc_stream_header_type_command_def k_uptime_get_def noted_def
      update_receive_keep_alive_def Let_def)
  have l: "k_sem_count_get z (k_sem_give z (k_sem_reset z k)) = 1" for k using assms by (simp add: semaphore_laws_def)
  show ?thesis
    unfolding r fd_rpc_stream_receive_connect_request_def
    by (simp add: b1(1) b2(1) b3 fd_rpc_stream_get_connection_configuration_def Let_def k_uptime_get_def float_value_def version_1_times
        connect_response_v1 fresh_def l fd_rpc_stream_disconnect_def update_receive_keep_alive_def update_send_keep_alive_def client_call_def
        set_timeout_def fd_rpc_stream_tracker_update_def fd_rpc_stream_tracker_reset_def transmit_def)
qed

text \<open>A connect request of version 1 is answered and opens a connection, whatever the stream did before: sequence numbers start
  at 0, nothing waits for an acknowledgement and the semaphore is free, and the keep alives and the retry time are 5, 2 and half a second.\<close>
theorem fd_rpc_stream_receive_connect_v1:
  assumes "semaphore_laws z"
  shows "\<exists>s'. fd_rpc_stream_receive z (le_bytes 4 (0x80000000 :: u32) @ [1, window] @ le_bytes 2 (mtu :: u16)) s = Some s' \<and>
    fresh z (s'\<lparr>stream_calls := []\<rparr>) \<and>
    stream_calls s' = stream_calls s @ [send_command (le_bytes 4 (0x80000001 :: u32) @ [0, 1, 1] @ le_bytes 2 (1024 :: u16)), received_connect] \<and>
    timeout (receive_keep_alive (stream_receive s')) = 5000 \<and> timeout (send_keep_alive (stream_send s')) = 2000 \<and> last_send_data_timeout s' = 500"
  by (rule receive_connect_v1[OF assms])

text \<open>A datagram of less than 4 bytes, in a connection that has received no data yet, is undefined behaviour: the failed assertion
  does not stop the function, the missing header reads as 0, and the length that is left wraps around.\<close>
theorem fd_rpc_stream_receive_short:
  assumes "length data < 4" "stream_state s = fd_rpc_stream_state_connected" "receive_sequence_number (stream_receive s) = 0"
  shows "fd_rpc_stream_receive z data s = None"
proof -
  define b where "b = fd_binary_initialize data (of_nat (length data))"
  have ok: "bin_ok b" using initialize_facts(1)[of data] assms(1) by (simp add: b_def)
  have "unat (bin_size b) = length data" "bin_get_index b = 0" using assms(1) by (simp_all add: b_def fd_binary_initialize_def unat_of_nat)
  then have "fd_binary_get_uint32 b = Some (0, bin_error fd_binary_error_underflow b)"
    using bin_get_check_iff[OF ok, of 4] assms(1) by (simp add: fd_binary_get_uint32_def bin_get_def)
  then show ?thesis using assms
    by (simp add: fd_rpc_stream_receive_def b_def[symmetric] k_uptime_get_def Let_def fd_rpc_stream_receive_data_def
        update_receive_keep_alive_def stream_assert_def send_ack_transmit rd_block_def size_sub_def)
qed

text \<open>The sequence number 2^31 collides with the bit for commands: the receiver takes that datagram for a connect request, and when it
  goes through, drops its data and starts over with sequence number 0.\<close>
theorem fd_rpc_stream_sequence_number_overflow:
  assumes "fd_rpc_stream_receive z (data_bytes 0x80000000 d) s = Some s'" "length d \<le> 1024"
  shows "received s' = received s \<and> receive_sequence_number (stream_receive s') = 0"
proof -
  obtain b where b: "fd_binary_get_uint32 (fd_binary_initialize (data_bytes 0x80000000 d) (of_nat (length (data_bytes 0x80000000 d)))) = Some (0x80000000, b)"
    using header_read[of "data_bytes 0x80000000 d" "0x80000000" d] assms(2) by (auto simp: data_bytes_def)
  have l: "4 \<le> length (data_bytes 0x80000000 d)" by (simp add: data_bytes_def)
  have r: "fd_rpc_stream_receive z (data_bytes 0x80000000 d) s = fd_rpc_stream_receive_connect_request z b (noted z s)"
    using b l by (simp add: fd_rpc_stream_receive_def fd_rpc_stream_header_type_command_def k_uptime_get_def noted_def
      update_receive_keep_alive_def Let_def)
  have get: "fd_rpc_stream_get_connection_configuration z c v k s0 = Some (k', c', s1) \<Longrightarrow> received s1 = received s0" for c v k s0 k' c' s1
    by (auto simp: fd_rpc_stream_get_connection_configuration_def stream_assert_def received_def Let_def split: if_splits Option.bind_splits prod.splits)
  have put: "fd_rpc_stream_put_connection_configuration z c v k s0 = Some (c', s1) \<Longrightarrow> received s1 = received s0 \<and> stream_receive s1 = stream_receive s0" for c v k s0 c' s1
    by (auto simp: fd_rpc_stream_put_connection_configuration_def stream_assert_def received_def Let_def split: if_splits Option.bind_splits prod.splits)
  have sb: "send_binary z c s0 = Some s1 \<Longrightarrow> received s1 = received s0 \<and> stream_receive s1 = stream_receive s0" for c s0 s1
    by (auto simp: send_binary_def fd_rpc_stream_send_command_def stream_assert_def k_uptime_get_def update_send_keep_alive_def client_call_def
        received_def Let_def split: Option.bind_splits)
  have response: "fd_rpc_stream_send_connect_response z x v k s0 = Some s1 \<Longrightarrow> received s1 = received s0 \<and> stream_receive s1 = stream_receive s0" for x v k s0 s1
    using put sb by (fastforce simp: fd_rpc_stream_send_connect_response_def split: Option.bind_splits)
  have dis: "received (fd_rpc_stream_disconnect z s0) = received s0" "receive_sequence_number (stream_receive (fd_rpc_stream_disconnect z s0)) = 0" for s0
    by (simp_all add: fd_rpc_stream_disconnect_def Let_def stream_assert_def update_receive_keep_alive_def update_send_keep_alive_def received_def)
  have nu: "received (noted z s) = received s" by simp
  obtain v b1 where v: "fd_binary_get_uint8 b = Some (v, b1)"
    using assms(1) unfolding r by (auto simp: fd_rpc_stream_receive_connect_request_def split: Option.bind_splits)
  obtain k b2 s1 where k: "fd_rpc_stream_get_connection_configuration z b1 v no_configuration (noted z s) = Some (k, b2, s1)"
    using assms(1) v unfolding r by (auto simp: fd_rpc_stream_receive_connect_request_def split: Option.bind_splits)
  obtain s2 s3 where "fd_rpc_stream_send_connect_response z 0 v k s2 = Some s3" "s' = client_call received_connect s3"
      "received s2 = received (fd_rpc_stream_disconnect z s1)"
      "receive_sequence_number (stream_receive s2) = receive_sequence_number (stream_receive (fd_rpc_stream_disconnect z s1))"
    using assms(1) v k unfolding r fd_rpc_stream_receive_connect_request_def
    by (auto simp: Let_def k_uptime_get_def update_receive_keep_alive_def update_send_keep_alive_def received_def split: Option.bind_splits)
  then show ?thesis using response dis get[OF k] by (simp add: received_def client_call_def)
qed


section \<open>Concrete instances\<close>

text \<open>A semaphore that is its count, and a clock that makes a second of every reading.\<close>

definition instance_zephyr :: "nat zephyr" where
  "instance_zephyr = \<lparr>uptime = (\<lambda>n. 1 + 1000 * int n), k_sem_init = (\<lambda>n _. n), k_sem_count_get = (\<lambda>k. k), k_sem_reset = (\<lambda>_. 0),
     k_sem_give = (\<lambda>_. 1), k_sem_take = (\<lambda>k _. if k = 0 then (False, k) else (True, k - 1)),
     encode_configuration = (\<lambda>_ _. (True, [])), decode_configuration = (\<lambda>_ c. (True, c, 0))\<rparr>"

lemma instance_laws: "semaphore_laws instance_zephyr"
  by (simp add: semaphore_laws_def instance_zephyr_def split: if_splits)

definition instance_stream :: "nat fd_rpc_stream_t" where
  "instance_stream = (fd_rpc_stream_initialize instance_zephyr)\<lparr>stream_state := fd_rpc_stream_state_connected\<rparr>"

lemma instance_stream_facts: "fresh instance_zephyr instance_stream" "stream_readings instance_stream = 0" "last_send_data_timeout instance_stream = 500"
  "receive_keep_alive (stream_receive instance_stream) = \<lparr>timeout = 5000, last_active_time = 0\<rparr>" "send_semaphore instance_stream = 1"
  by (simp_all add: instance_stream_def fd_rpc_stream_initialize_def fresh_def instance_zephyr_def stream_assert_def
      fd_rpc_stream_tracker_initialize_def Let_def)

text \<open>Both ends are connected and the left one has sent two bytes.\<close>

lemma instance_session: "\<exists>net. session (\<lambda>_. instance_zephyr) net \<and> sent_data net left_end = [[1, 2]] \<and> node net right_end = instance_stream \<and>
  send_semaphore (node net left_end) = 0 \<and> last_time (last_send_data (node net left_end)) = 1 \<and> last_timeout (last_send_data (node net left_end)) = 500 \<and>
  stream_readings (node net left_end) = 2 \<and> stream_receive (node net left_end) = stream_receive instance_stream \<and>
  stream_calls (node net left_end) = [send_command (data_bytes 0 [1, 2])]"
proof -
  define net0 :: "nat network" where "net0 = \<lparr>node = (\<lambda>_. instance_stream), sent_data = (\<lambda>_. [])\<rparr>"
  have s0: "session (\<lambda>_. instance_zephyr) net0" by (rule session.start) (simp_all add: net0_def instance_stream_facts)
  have w: "fd_rpc_stream_wait_for_send_ack instance_zephyr (node net0 left_end) = (True, instance_stream\<lparr>send_semaphore := 0\<rparr>)"
    using instance_stream_facts(5) by (simp add: fd_rpc_stream_wait_for_send_ack_def net0_def instance_zephyr_def)
  have f: "last_send_data instance_stream = last_send_data_none" "send_sequence_number (stream_send instance_stream) = 0" "stream_calls instance_stream = []"
    using instance_stream_facts(1) by (simp_all add: fresh_def)
  then have l: "length (last_command (last_send_data (instance_stream\<lparr>send_semaphore := 0\<rparr>))) = 1028"
    "last_time (last_send_data (instance_stream\<lparr>send_semaphore := 0\<rparr>)) = 0" by (simp_all add: last_send_data_none_def)
  from send_data_transmit[of "[1, 2]", OF _ _ l, of instance_zephyr] obtain s where
    s: "fd_rpc_stream_send_data instance_zephyr [1, 2] (instance_stream\<lparr>send_semaphore := 0\<rparr>) = Some (True, s)"
    "stream_receive s = stream_receive instance_stream" "send_semaphore s = 0" "stream_calls s = [send_command (data_bytes 0 [1, 2])]"
    "last_time (last_send_data s) = 1" "last_timeout (last_send_data s) = 500" "stream_readings s = 2"
    using f instance_stream_facts by (auto simp: instance_zephyr_def)
  from session.send[OF s0 _ _ _ w s(1)] have
    "session (\<lambda>_. instance_zephyr) (net0\<lparr>node := (node net0)(left_end := s), sent_data := (sent_data net0)(left_end := sent_data net0 left_end @ [[1, 2]])\<rparr>)"
    by (simp add: net0_def)
  then show ?thesis using s(2-)
    by (intro exI[of _ "net0\<lparr>node := (node net0)(left_end := s), sent_data := (sent_data net0)(left_end := sent_data net0 left_end @ [[1, 2]])\<rparr>"])
      (simp add: net0_def)
qed

lemma fd_rpc_stream_reliable_witness:
  "\<exists>net. session (\<lambda>_. instance_zephyr) net \<and> sent_data net left_end = [[1, 2]] \<and> received (node net right_end) = [[1, 2]] \<and>
    received (node net right_end) = take (length (received (node net right_end))) (sent_data net left_end)"
proof -
  obtain net where net: "session (\<lambda>_. instance_zephyr) net" "sent_data net left_end = [[1, 2]]" "node net right_end = instance_stream"
      "stream_calls (node net left_end) = [send_command (data_bytes 0 [1, 2])]" using instance_session by blast
  have f: "stream_state instance_stream = fd_rpc_stream_state_connected" "receive_sequence_number (stream_receive instance_stream) = 0"
    "received instance_stream = []" using instance_stream_facts(1) by (simp_all add: fresh_def received_def)
  obtain s where s: "fd_rpc_stream_receive instance_zephyr (data_bytes 0 [1, 2]) instance_stream = Some s" "received s = [[1, 2]]"
    using receive_data_bytes[of 0 "[1, 2]" instance_stream instance_zephyr] f by (auto simp: Let_def)
  have "data_bytes 0 [1, 2] \<in> wire (node net (peer right_end))" using net(4) by (simp add: wire_def)
  from session.receive[OF net(1) this] s(1) net(3) have
    n: "session (\<lambda>_. instance_zephyr) (net\<lparr>node := (node net)(right_end := s)\<rparr>)" by simp
  show ?thesis using fd_rpc_stream_reliable[OF n, of left_end] n s(2) net(2) instance_laws
    by (intro exI[of _ "net\<lparr>node := (node net)(right_end := s)\<rparr>"]) simp
qed

lemma fd_rpc_stream_progress_witness:
  "\<exists>net m p. session (\<lambda>_. instance_zephyr) net \<and> sent_data net left_end = [[1, 2]] \<and> m \<in> wire (node net left_end) \<and>
    fd_rpc_stream_receive instance_zephyr m (node net right_end) = Some p \<and> received p = [[1, 2]]"
proof -
  obtain net where net: "session (\<lambda>_. instance_zephyr) net" "sent_data net left_end = [[1, 2]]" "send_semaphore (node net left_end) = 0"
    using instance_session by blast
  have "k_sem_count_get instance_zephyr (send_semaphore (node net left_end)) = 0" using net(3) by (simp add: instance_zephyr_def)
  from fd_rpc_stream_progress[OF net(1), of left_end] this net instance_laws show ?thesis by (auto simp: Bex_def)
qed

lemma fd_rpc_stream_check_retransmits_witness:
  "\<exists>net s'. session (\<lambda>_. instance_zephyr) net \<and> fd_rpc_stream_check instance_zephyr (node net left_end) = Some s' \<and>
    stream_calls s' = [send_command (data_bytes 0 [1, 2]), send_command (data_bytes (send_sequence_number (stream_send (node net left_end))) [1, 2])] \<and>
    last_timeout (last_send_data s') = 1000"
proof -
  obtain net where net: "session (\<lambda>_. instance_zephyr) net" "sent_data net left_end = [[1, 2]]" "send_semaphore (node net left_end) = 0"
      "last_time (last_send_data (node net left_end)) = 1" "last_timeout (last_send_data (node net left_end)) = 500"
      "stream_readings (node net left_end) = 2" "stream_receive (node net left_end) = stream_receive instance_stream"
      "stream_calls (node net left_end) = [send_command (data_bytes 0 [1, 2])]"
    using instance_session by blast
  have u: "uptime instance_zephyr n = 1 + 1000 * int n" for n by (simp add: instance_zephyr_def)
  have "k_sem_count_get instance_zephyr (send_semaphore (node net left_end)) = 0" using net(3) by (simp add: instance_zephyr_def)
  from fd_rpc_stream_check_retransmits[OF net(1) _ this refl] net instance_laws instance_stream_facts(4) show ?thesis by (auto simp: u)
qed

lemma fd_rpc_stream_receive_connect_v1_witness:
  "\<exists>s'. fd_rpc_stream_receive instance_zephyr (le_bytes 4 (0x80000000 :: u32) @ [1, 4] @ le_bytes 2 (1024 :: u16)) (fd_rpc_stream_initialize instance_zephyr) = Some s' \<and>
    stream_state s' = fd_rpc_stream_state_connected"
  using fd_rpc_stream_receive_connect_v1[OF instance_laws, of 4 1024 "fd_rpc_stream_initialize instance_zephyr"] by (auto simp: fresh_def)

lemma fd_rpc_stream_receive_short_witness: "fd_rpc_stream_receive instance_zephyr [1, 2, 3] instance_stream = None"
  by (rule fd_rpc_stream_receive_short) (use instance_stream_facts(1) in \<open>simp_all add: fresh_def\<close>)

lemma fd_rpc_stream_sequence_number_overflow_witness:
  "\<exists>s'. fd_rpc_stream_receive instance_zephyr (data_bytes 0x80000000 ([1, 4] @ le_bytes 2 (1024 :: u16))) instance_stream = Some s' \<and>
    received s' = [] \<and> receive_sequence_number (stream_receive s') = 0"
proof -
  obtain s' where "fd_rpc_stream_receive instance_zephyr (data_bytes 0x80000000 ([1, 4] @ le_bytes 2 (1024 :: u16))) instance_stream = Some s'"
    using receive_connect_v1[OF instance_laws, of 4 1024 instance_stream] by (auto simp: data_bytes_def)
  moreover have "received instance_stream = []" using instance_stream_facts(1) by (simp add: fresh_def received_def)
  ultimately show ?thesis using fd_rpc_stream_sequence_number_overflow by fastforce
qed

end
