(* ===== verification/FD_BootSplit.thy ===== *)
theory FD_BootSplit imports FD_Boot FD_Gateway begin

text \<open>
  \<open>subsys/boot/src/fd_boot_split_peripheral.c\<close>: the boot loader of a device whose update storage is on the other side
  of a serial link. It answers the requests of the controller, and while it carries one out it sends requests of its own,
  for the range of the update storage and for its bytes, and waits for the responses in a nested loop that goes through
  the same dispatcher.

  The global \<open>fd_boot_split_peripheral\<close> is a record, its \<open>configuration\<close> a record of its own, since nothing changes it
  after the start. What is outside is a type variable, \<open>'x\<close>: \<open>cf_transmit\<close> acts on it, and \<open>cf_arrivals\<close>, which is no
  member of the struct, is what the serial interrupt passes to \<open>fd_boot_split_peripheral_received\<close> from one poll to the
  next; interrupts are taken between two polls.

  \<open>operation\<close> points to a local variable of a function that waits. The local variables of this kind are a stack,
  \<open>sp_operations\<close>, and the pointer is a position on it: it dangles when the stack is not that high any more. Using it
  then, or using it as a pointer to the other kind of variable, is undefined. The error that \<open>update_read\<close> points to is
  the one of the caller that waits, so it is \<open>boot_code\<close>.
\<close>

section \<open>State\<close>

datatype split_operation =
  get_update_storage_operation "fd_boot_range_t option"
| update_read_operation (op_location: u32) (op_length: u32) (op_data: "u8 list option") (op_result: bool)

record 'x fd_boot_split_peripheral_t =
  sp_fifo :: fd_fifo_t
  sp_duration :: u32
  sp_operation :: "nat option"
  sp_operations :: "split_operation list"
  sp_log :: assert_log
  sp_outside :: 'x

type_synonym ('a, 'x) split = "('a, 'x fd_boot_split_peripheral_t) boot"
type_synonym 'x split_state = "'x fd_boot_split_peripheral_t boot_state"

record 'x fd_boot_split_peripheral_timer_t =
  timer_initialize :: "'x fd_boot_split_peripheral_t \<Rightarrow> 'x fd_boot_split_peripheral_t"
  timer_update :: "'x fd_boot_split_peripheral_t \<Rightarrow> 'x fd_boot_split_peripheral_t"
  timer_has_timed_out :: "'x fd_boot_split_peripheral_t \<Rightarrow> bool \<times> 'x fd_boot_split_peripheral_t"
  timer_finalize :: "'x fd_boot_split_peripheral_t \<Rightarrow> 'x fd_boot_split_peripheral_t"

text \<open>A null pointer is \<open>None\<close>.\<close>

record 'x fd_boot_split_peripheral_configuration_t =
  cf_target :: u32
  cf_source :: u32
  cf_system :: u32
  cf_subsystem :: u32
  cf_version :: fd_boot_version_t
  cf_identifier :: "u8 list option"
  cf_transmit :: "u8 list \<Rightarrow> 'x \<Rightarrow> 'x"
  cf_aftercare :: "('x \<Rightarrow> 'x) option"
  cf_timer :: "'x fd_boot_split_peripheral_timer_t option"
  cf_return_on_error :: bool
  cf_update_interface :: "'x fd_boot_split_peripheral_t fd_boot_update_interface_t"
  cf_arrivals :: "'x \<Rightarrow> u8 list \<times> 'x"

definition fd_boot_error_timeout :: u32 where "fd_boot_error_timeout = 2"

datatype fd_boot_split_operation_t =
  fd_boot_split_operation_get_identity | fd_boot_split_operation_get_executable_metadata
| fd_boot_split_operation_get_update_metadata | fd_boot_split_operation_update | fd_boot_split_operation_execute
| fd_boot_split_operation_get_update_storage | fd_boot_split_operation_update_read | fd_boot_split_operation_status_progress

fun operation_code :: "fd_boot_split_operation_t \<Rightarrow> u16" where
  "operation_code fd_boot_split_operation_get_identity = 0"
| "operation_code fd_boot_split_operation_get_executable_metadata = 1"
| "operation_code fd_boot_split_operation_get_update_metadata = 2"
| "operation_code fd_boot_split_operation_update = 3"
| "operation_code fd_boot_split_operation_execute = 4"
| "operation_code fd_boot_split_operation_get_update_storage = 5"
| "operation_code fd_boot_split_operation_update_read = 6"
| "operation_code fd_boot_split_operation_status_progress = 7"

definition fd_envelope_type_event :: u8 where "fd_envelope_type_event = 0"
definition fd_envelope_type_request :: u8 where "fd_envelope_type_request = 1"
definition fd_envelope_type_response :: u8 where "fd_envelope_type_response = 2"

definition set_split :: "('x fd_boot_split_peripheral_t \<Rightarrow> 'x fd_boot_split_peripheral_t) \<Rightarrow> 'x split_state \<Rightarrow> 'x split_state" where
  "set_split f s = s\<lparr>boot_world := f (boot_world s)\<rparr>"

section \<open>Receiving\<close>

fun fd_boot_split_peripheral_received :: "u8 list \<Rightarrow> 'x fd_boot_split_peripheral_t \<Rightarrow> 'x fd_boot_split_peripheral_t option" where
  "fd_boot_split_peripheral_received [] p = Some p"
| "fd_boot_split_peripheral_received (byte # data) p =
     do { (ok, fifo) \<leftarrow> fd_fifo_put (sp_fifo p) byte;
          fd_boot_split_peripheral_received data (p\<lparr>sp_fifo := fifo\<rparr>) }"

definition fd_boot_split_peripheral_has_first_message ::
  "'x fd_boot_split_peripheral_t \<Rightarrow> (bool \<times> 'x fd_boot_split_peripheral_t) option" where
  "fd_boot_split_peripheral_has_first_message p =
     do { let message = fd_binary_initialize (fifo_buffer (sp_fifo p)) (of_nat (fifo_tail (sp_fifo p)));
          (result, message, envelope) \<leftarrow> fd_envelope_decode message no_envelope;
          let p = p\<lparr>sp_fifo := (sp_fifo p)\<lparr>fifo_buffer := bin_buffer message\<rparr>\<rparr>;
          Some (if \<not> result then True else False, p) }"

partial_function (option) fd_boot_split_peripheral_poll ::
  "'x fd_boot_split_peripheral_timer_t \<Rightarrow> fd_binary_t \<Rightarrow> 'x fd_boot_split_peripheral_t \<Rightarrow>
   (bool \<times> fd_binary_t \<times> 'x fd_boot_split_peripheral_t) option" where
  "fd_boot_split_peripheral_poll timer message p =
     do { (byte, fifo) \<leftarrow> fd_fifo_get (sp_fifo p);
          case byte of
            None \<Rightarrow> Some (False, message, p\<lparr>sp_fifo := fifo\<rparr>)
          | Some byte \<Rightarrow>
              do { p \<leftarrow> Some (timer_update timer (p\<lparr>sp_fifo := fifo\<rparr>));
                   if byte = 0 then
                     (if bin_put_index message \<noteq> 0 then Some (True, message, p)
                      else fd_boot_split_peripheral_poll timer message p)
                   else
                     do { message \<leftarrow> fd_binary_put_uint8 message byte;
                          fd_boot_split_peripheral_poll timer message p } } }"

text \<open>The loop that waits for a message; the flag is \<open>False\<close> after a timeout.\<close>

partial_function (option) split_wait ::
  "'x fd_boot_split_peripheral_configuration_t \<Rightarrow> 'x fd_boot_split_peripheral_timer_t \<Rightarrow> fd_binary_t \<Rightarrow>
   'x fd_boot_split_peripheral_t \<Rightarrow> (bool \<times> fd_binary_t \<times> 'x fd_boot_split_peripheral_t) option" where
  "split_wait c timer message p =
     do { (data, outside) \<leftarrow> Some (cf_arrivals c (sp_outside p));
          p \<leftarrow> fd_boot_split_peripheral_received data (p\<lparr>sp_outside := outside\<rparr>);
          (found, message, p) \<leftarrow> fd_boot_split_peripheral_poll timer message p;
          if found then Some (True, message, p)
          else
            do { (timed_out, p) \<leftarrow> Some (timer_has_timed_out timer p);
                 if timed_out then Some (False, message, p) else split_wait c timer message p } }"

section \<open>Sending\<close>

text \<open>The end that \<open>fd_boot_split_peripheral_tx\<close> and \<open>fd_boot_split_peripheral_dispatch_respond\<close> share.\<close>

definition split_transmit ::
  "'x fd_boot_split_peripheral_configuration_t \<Rightarrow> fd_binary_t \<Rightarrow> fd_envelope_t \<Rightarrow> 'x split_state \<Rightarrow> (bool \<times> fd_binary_t \<times> 'x split_state) option" where
  "split_transmit c message envelope s =
     do { (ok, message, envelope, failed) \<leftarrow> fd_envelope_encode message envelope;
          let s = set_split (\<lambda>p. p\<lparr>sp_log := sp_log p @ failed\<rparr>) s;
          if \<not> ok then Some (False, message, s)
          else
            do { message \<leftarrow> fd_binary_put_uint8 message 0;
                 if bin_errors message \<noteq> 0 then Some (False, message, s)
                 else
                   do { bytes \<leftarrow> rd_block (bin_buffer message) 0 (unat (bin_put_index message));
                        Some (True, message, set_split (\<lambda>p. p\<lparr>sp_outside := cf_transmit c bytes (sp_outside p)\<rparr>) s) } } }"

definition fd_boot_split_peripheral_tx ::
  "'x fd_boot_split_peripheral_configuration_t \<Rightarrow> fd_binary_t \<Rightarrow> u8 \<Rightarrow> (unit, 'x) split" where
  "fd_boot_split_peripheral_tx c message type' s =
     do { let envelope = no_envelope\<lparr>env_target := ucast (cf_target c), env_source := ucast (cf_source c),
            env_system := ucast (cf_system c), env_subsystem := ucast (cf_subsystem c), env_type := type'\<rparr>;
          (ok, message, s) \<leftarrow> split_transmit c message envelope s;
          Some (if ok then Some () else None, s) }"

text \<open>The body of the function is under \<open>#if 0\<close>.\<close>

definition split_status_progress :: "u32 \<Rightarrow> u32 \<Rightarrow> 'x fd_boot_split_peripheral_t \<Rightarrow> 'x fd_boot_split_peripheral_t" where
  "split_status_progress a b p = p"

text \<open>A local array with a message that starts with the operation.\<close>

definition split_message :: "nat \<Rightarrow> fd_boot_split_operation_t \<Rightarrow> (fd_binary_t, 'x) split" where
  "split_message n operation =
     bnd (uninitialized n) (\<lambda>buffer.
     checked (fd_binary_put_uint16 (fd_binary_initialize buffer (of_nat n)) (operation_code operation)))"

section \<open>Operations of the peripheral on the controller\<close>

definition fd_boot_split_peripheral_get_update_storage_request ::
  "'x fd_boot_split_peripheral_configuration_t \<Rightarrow> (unit, 'x) split" where
  "fd_boot_split_peripheral_get_update_storage_request c =
     bnd (split_message 32 fd_boot_split_operation_get_update_storage) (\<lambda>message.
     fd_boot_split_peripheral_tx c message fd_envelope_type_request)"

text \<open>The variable of the operation lives until the function that waits returns.\<close>

definition with_operation :: "split_operation \<Rightarrow> ('a, 'x) split \<Rightarrow> ('a \<times> split_operation, 'x) split" where
  "with_operation operation m s =
     (let n = length (sp_operations (boot_world s));
          s = set_split (\<lambda>p. p\<lparr>sp_operations := sp_operations p @ [operation], sp_operation := Some n\<rparr>) s
      in case m s of
           None \<Rightarrow> None
         | Some (r, s) \<Rightarrow>
             Some (map_option (\<lambda>a. (a, sp_operations (boot_world s) ! n)) r,
               set_split (\<lambda>p. p\<lparr>sp_operations := take n (sp_operations p)\<rparr>) s))"

definition fd_boot_split_peripheral_io_nested :: "(unit, 'x) split \<Rightarrow> (unit, 'x) split" where
  "fd_boot_split_peripheral_io_nested io =
     bnd io (\<lambda>_ s. if sp_operation (boot_world s) \<noteq> None then fail s else ret () s)"

text \<open>The caller's range is not initialized; using it when no response has set it is undefined.\<close>

definition fd_boot_split_peripheral_get_update_storage ::
  "'x fd_boot_split_peripheral_configuration_t \<Rightarrow> (unit, 'x) split \<Rightarrow> (fd_boot_range_t, 'x) split" where
  "fd_boot_split_peripheral_get_update_storage c io =
     bnd (with_operation (get_update_storage_operation None)
       (bnd (or_error (fd_boot_split_peripheral_get_update_storage_request c)) (\<lambda>_.
        fd_boot_split_peripheral_io_nested io))) (\<lambda>(_, operation).
     case operation of get_update_storage_operation (Some r) \<Rightarrow> ret r | _ \<Rightarrow> undef)"

definition live_operation :: "'x fd_boot_split_peripheral_t \<Rightarrow> nat \<Rightarrow> split_operation option" where
  "live_operation p k = rd (sp_operations p) k"

definition fd_boot_split_peripheral_get_update_storage_response ::
  "fd_binary_t \<Rightarrow> 'x split_state \<Rightarrow> (bool \<times> fd_binary_t \<times> 'x split_state) option" where
  "fd_boot_split_peripheral_get_update_storage_response message s =
     (case sp_operation (boot_world s) of
        None \<Rightarrow> Some (True, message, s)
      | Some k \<Rightarrow>
          do { operation \<leftarrow> live_operation (boot_world s) k;
               case operation of
                 update_read_operation _ _ _ _ \<Rightarrow> None
               | get_update_storage_operation _ \<Rightarrow>
                   do { (location, message) \<leftarrow> fd_binary_get_uint32 message;
                        (len, message) \<leftarrow> fd_binary_get_uint32 message;
                        Some (True, message, set_split (\<lambda>p. p\<lparr>
                          sp_operations := (sp_operations p)[k := get_update_storage_operation
                            (Some \<lparr>range_location = location, range_length = len\<rparr>)],
                          sp_operation := None\<rparr>) s) } })"

definition fd_boot_split_peripheral_update_read_request ::
  "'x fd_boot_split_peripheral_configuration_t \<Rightarrow> u32 \<Rightarrow> u32 \<Rightarrow> (unit, 'x) split" where
  "fd_boot_split_peripheral_update_read_request c location n =
     bnd (split_message 32 fd_boot_split_operation_update_read) (\<lambda>message.
     bnd (checked (fd_binary_put_uint32 message location)) (\<lambda>message.
     bnd (checked (fd_binary_put_uint16 message (ucast n))) (\<lambda>message.
     fd_boot_split_peripheral_tx c message fd_envelope_type_request)))"

definition fd_boot_split_peripheral_update_read ::
  "'x fd_boot_split_peripheral_configuration_t \<Rightarrow> (unit, 'x) split \<Rightarrow> u32 \<Rightarrow> u32 \<Rightarrow> (u8 list, 'x) split" where
  "fd_boot_split_peripheral_update_read c io location n =
     bnd (with_operation (update_read_operation location n None False)
       (bnd (or_error (fd_boot_split_peripheral_update_read_request c location n)) (\<lambda>_.
        fd_boot_split_peripheral_io_nested io))) (\<lambda>(_, operation).
     case operation of
       update_read_operation _ _ data result \<Rightarrow> if \<not> result then fail else checked data
     | _ \<Rightarrow> undef)"

text \<open>A response that does not fit: \<open>fd_boot_set_error\<close> on the error of the operation, \<open>result = false\<close>, and the operation
  stays.\<close>

definition update_read_refused :: "nat \<Rightarrow> u32 \<Rightarrow> fd_binary_t \<Rightarrow> 'x split_state \<Rightarrow> bool \<times> fd_binary_t \<times> 'x split_state" where
  "update_read_refused k code message s =
     (True, message, set_split (\<lambda>p. p\<lparr>sp_operations := (sp_operations p)[k :=
        (case sp_operations p ! k of update_read_operation l n data _ \<Rightarrow> update_read_operation l n data False | x \<Rightarrow> x)]\<rparr>)
        (s\<lparr>boot_code := code\<rparr>))"

definition fd_boot_split_peripheral_update_read_response ::
  "fd_binary_t \<Rightarrow> 'x split_state \<Rightarrow> (bool \<times> fd_binary_t \<times> 'x split_state) option" where
  "fd_boot_split_peripheral_update_read_response message s =
     (case sp_operation (boot_world s) of
        None \<Rightarrow> Some (True, message, s)
      | Some k \<Rightarrow>
          do { operation \<leftarrow> live_operation (boot_world s) k;
               case operation of
                 get_update_storage_operation _ \<Rightarrow> None
               | update_read_operation expected_location expected_length data _ \<Rightarrow>
                   do { (location, message) \<leftarrow> fd_binary_get_uint32 message;
                        if location \<noteq> expected_location then Some (update_read_refused k 1 message s)
                        else
                          do { (len, message) \<leftarrow> fd_binary_get_uint16 message;
                               if ucast len \<noteq> expected_length then Some (update_read_refused k 1 message s)
                               else
                                 do { (result, message) \<leftarrow> fd_binary_get_uint8 message;
                                      if result = 0 then
                                        do { (code, message) \<leftarrow> fd_binary_get_uint32 message;
                                             Some (update_read_refused k code message s) }
                                      else if bin_size message - bin_get_index message \<noteq> ucast len then
                                        Some (update_read_refused k 1 message s)
                                      else
                                        do { bytes \<leftarrow> rd_block (bin_buffer message) (unat (bin_get_index message)) (unat len);
                                             Some (True, message, set_split (\<lambda>p. p\<lparr>
                                               sp_operations := (sp_operations p)[k :=
                                                 update_read_operation expected_location expected_length (Some bytes) True],
                                               sp_operation := None\<rparr>) s) } } } } })"

section \<open>Operations of the controller on the peripheral\<close>

definition response_envelope :: "fd_envelope_t \<Rightarrow> fd_envelope_t" where
  "response_envelope envelope = no_envelope\<lparr>env_target := env_source envelope, env_source := env_target envelope,
     env_system := env_system envelope, env_subsystem := env_subsystem envelope, env_type := fd_envelope_type_response\<rparr>"

text \<open>What a handler does with the response it has put together: send it, and leave the request as it is.\<close>

definition respond_with ::
  "(fd_binary_t, 'x) split \<Rightarrow> fd_binary_t \<Rightarrow> fd_envelope_t \<Rightarrow> 'x split_state fd_dispatch_respond_t \<Rightarrow> 'x split_state \<Rightarrow>
   (bool \<times> fd_binary_t \<times> 'x split_state) option" where
  "respond_with m message envelope respond s =
     (case m s of
        Some (Some response, s) \<Rightarrow>
          do { (result, response, s) \<leftarrow> respond response (response_envelope envelope) s;
               Some (result, message, s) }
      | _ \<Rightarrow> None)"

text \<open>A handler has an error of its own, which starts as 0.\<close>

definition local_error :: "('a, 'x) split \<Rightarrow> ('a option \<times> u32, 'x) split" where
  "local_error m s =
     (case m (s\<lparr>boot_code := 0\<rparr>) of
        None \<Rightarrow> None
      | Some (r, s') \<Rightarrow> Some (Some (r, boot_code s'), s'\<lparr>boot_code := boot_code s\<rparr>))"

definition fd_boot_split_peripheral_dispatch_respond ::
  "'x fd_boot_split_peripheral_configuration_t \<Rightarrow> 'x split_state fd_dispatch_respond_t" where
  "fd_boot_split_peripheral_dispatch_respond c message envelope s = split_transmit c message envelope s"

definition put_version :: "fd_boot_version_t \<Rightarrow> fd_binary_t \<Rightarrow> fd_binary_t option" where
  "put_version version response =
     do { response \<leftarrow> fd_binary_put_uint32 response (version_major version);
          response \<leftarrow> fd_binary_put_uint32 response (version_minor version);
          fd_binary_put_uint32 response (version_patch version) }"

definition fd_boot_split_peripheral_get_identity ::
  "'x fd_boot_split_peripheral_configuration_t \<Rightarrow> 'x split_state fd_dispatch_process_t" where
  "fd_boot_split_peripheral_get_identity c message envelope respond =
     respond_with
       (bnd (split_message 64 fd_boot_split_operation_get_identity) (\<lambda>response.
        checked (do { response \<leftarrow> put_version (cf_version c) response;
                      identifier \<leftarrow> cf_identifier c;
                      fd_binary_put_string response identifier })))
       message envelope respond"

fun executable_issue_code :: "fd_boot_get_executable_metadata_issue_t \<Rightarrow> u8" where
  "executable_issue_code executable_issue_trailer_magic = 0"
| "executable_issue_code executable_issue_header_magic = 1"
| "executable_issue_code executable_issue_header_version = 2"
| "executable_issue_code executable_issue_length = 3"
| "executable_issue_code executable_issue_hash = 4"

fun update_metadata_issue_code :: "fd_boot_get_update_metadata_issue_t \<Rightarrow> u8" where
  "update_metadata_issue_code update_issue_trailer_magic = 0"
| "update_metadata_issue_code update_issue_header_magic = 1"
| "update_metadata_issue_code update_issue_header_version = 2"
| "update_metadata_issue_code update_issue_length = 3"
| "update_metadata_issue_code update_issue_hash = 4"
| "update_metadata_issue_code update_issue_metadata = 5"

fun update_issue_code :: "fd_boot_update_issue_t \<Rightarrow> u8" where
  "update_issue_code update_issue_firmware = 0"
| "update_issue_code update_issue_update = 1"

definition put_executable_metadata :: "fd_boot_executable_metadata_t \<Rightarrow> fd_binary_t \<Rightarrow> fd_binary_t option" where
  "put_executable_metadata metadata response =
     do { response \<leftarrow> put_version (em_version metadata) response;
          response \<leftarrow> fd_binary_put_uint32 response (em_length metadata);
          fd_binary_put_bytes response (em_hash metadata) }"

text \<open>The result of a function of \<open>fd_boot.c\<close> that has an output parameter.\<close>

definition success_of :: "(bool \<times> 'r) option \<Rightarrow> 'r \<Rightarrow> bool \<times> 'r" where
  "success_of x r = (case x of None \<Rightarrow> (False, r) | Some y \<Rightarrow> y)"

definition fd_boot_split_peripheral_get_executable_metadata ::
  "'x fd_boot_split_peripheral_t fd_boot_update_interface_t \<Rightarrow> 'x split_state fd_dispatch_process_t" where
  "fd_boot_split_peripheral_get_executable_metadata i message envelope respond =
     respond_with
       (bnd (local_error (fd_boot_get_executable_metadata i)) (\<lambda>(r, code).
        let (success, result) = success_of r zero_executable_result in
        bnd (split_message 64 fd_boot_split_operation_get_executable_metadata) (\<lambda>response.
        checked (
          do { response \<leftarrow> fd_binary_put_uint8 response (if success then 1 else 0);
               if \<not> success then fd_binary_put_uint32 response code
               else
                 do { response \<leftarrow> fd_binary_put_uint8 response (if ex_is_valid result then 1 else 0);
                      if \<not> ex_is_valid result then fd_binary_put_uint8 response (executable_issue_code (ex_issue result))
                      else put_executable_metadata (ex_metadata result) response } }))))
       message envelope respond"

definition fd_boot_split_peripheral_get_update_metadata ::
  "'x fd_boot_split_peripheral_t fd_boot_update_interface_t \<Rightarrow> 'x split_state fd_dispatch_process_t" where
  "fd_boot_split_peripheral_get_update_metadata i message envelope respond =
     respond_with
       (bnd (local_error (fd_boot_get_update_metadata i)) (\<lambda>(r, code).
        let (success, result) = success_of r zero_update_result in
        bnd (split_message 64 fd_boot_split_operation_get_update_metadata) (\<lambda>response.
        checked (
          do { response \<leftarrow> fd_binary_put_uint8 response (if success then 1 else 0);
               if \<not> success then fd_binary_put_uint32 response code
               else
                 do { response \<leftarrow> fd_binary_put_uint8 response (if up_is_valid result then 1 else 0);
                      if \<not> up_is_valid result then fd_binary_put_uint8 response (update_metadata_issue_code (up_issue result))
                      else
                        do { response \<leftarrow> put_executable_metadata (um_executable_metadata (up_metadata result)) response;
                             response \<leftarrow> fd_binary_put_bytes response (um_hash (up_metadata result));
                             response \<leftarrow> fd_binary_put_uint32 response (um_flags (up_metadata result));
                             fd_binary_put_bytes response (um_initialization_vector (up_metadata result)) } } }))))
       message envelope respond"

definition fd_boot_split_peripheral_update ::
  "'x fd_boot_split_peripheral_t fd_boot_update_interface_t \<Rightarrow> 'x split_state fd_dispatch_process_t" where
  "fd_boot_split_peripheral_update i message envelope respond =
     respond_with
       (bnd (local_error (fd_boot_update i)) (\<lambda>(r, code).
        let (success, result) = success_of r zero_result in
        bnd (split_message 64 fd_boot_split_operation_update) (\<lambda>response.
        checked (
          do { response \<leftarrow> fd_binary_put_uint8 response (if success then 1 else 0);
               if \<not> success then fd_binary_put_uint32 response code
               else
                 do { response \<leftarrow> fd_binary_put_uint8 response (if ur_is_valid result then 1 else 0);
                      if \<not> ur_is_valid result then fd_binary_put_uint8 response (update_issue_code (ur_issue result))
                      else Some response } }))))
       message envelope respond"

definition fd_boot_split_peripheral_execute ::
  "'x fd_boot_split_peripheral_t fd_boot_update_interface_t \<Rightarrow> 'x split_state fd_dispatch_process_t" where
  "fd_boot_split_peripheral_execute i message envelope respond =
     respond_with
       (bnd (local_error
          (bnd (fd_boot_get_executable_metadata i) (\<lambda>(success, result).
           if success \<and> ex_is_valid result then fd_boot_execute i else if success then ret () else fail))) (\<lambda>(r, code).
        let success = (r \<noteq> None) in
        bnd (split_message 64 fd_boot_split_operation_execute) (\<lambda>response.
        checked (
          do { response \<leftarrow> fd_binary_put_uint8 response (if success then 1 else 0);
               if \<not> success then fd_binary_put_uint32 response code else Some response }))))
       message envelope respond"

section \<open>Dispatch\<close>

definition fd_boot_split_peripheral_dispatch_request ::
  "'x fd_boot_split_peripheral_configuration_t \<Rightarrow> 'x fd_boot_split_peripheral_t fd_boot_update_interface_t \<Rightarrow>
   'x split_state fd_dispatch_process_t" where
  "fd_boot_split_peripheral_dispatch_request c i message envelope respond s =
     do { (operation, message) \<leftarrow> fd_binary_get_uint16 message;
          if operation = operation_code fd_boot_split_operation_get_identity then
            fd_boot_split_peripheral_get_identity c message envelope respond s
          else if operation = operation_code fd_boot_split_operation_get_executable_metadata then
            fd_boot_split_peripheral_get_executable_metadata i message envelope respond s
          else if operation = operation_code fd_boot_split_operation_get_update_metadata then
            fd_boot_split_peripheral_get_update_metadata i message envelope respond s
          else if operation = operation_code fd_boot_split_operation_update then
            fd_boot_split_peripheral_update i message envelope respond s
          else if operation = operation_code fd_boot_split_operation_execute then
            fd_boot_split_peripheral_execute i message envelope respond s
          else Some (False, message, s) }"

definition fd_boot_split_peripheral_dispatch_response :: "'x split_state fd_dispatch_process_t" where
  "fd_boot_split_peripheral_dispatch_response message envelope respond s =
     do { (operation, message) \<leftarrow> fd_binary_get_uint16 message;
          if operation = operation_code fd_boot_split_operation_get_update_storage then
            fd_boot_split_peripheral_get_update_storage_response message s
          else if operation = operation_code fd_boot_split_operation_update_read then
            fd_boot_split_peripheral_update_read_response message s
          else Some (False, message, s) }"

definition fd_boot_split_peripheral_dispatch_process ::
  "'x fd_boot_split_peripheral_configuration_t \<Rightarrow> 'x fd_boot_split_peripheral_t fd_boot_update_interface_t \<Rightarrow>
   'x split_state fd_dispatch_process_t" where
  "fd_boot_split_peripheral_dispatch_process c i message envelope respond s =
     (if env_type envelope = fd_envelope_type_request then fd_boot_split_peripheral_dispatch_request c i message envelope respond s
      else if env_type envelope = fd_envelope_type_response then
        fd_boot_split_peripheral_dispatch_response message envelope respond s
      else Some (False, message, s))"

definition fd_boot_split_peripheral_dispatch_filter ::
  "'x fd_boot_split_peripheral_configuration_t \<Rightarrow> fd_envelope_t \<Rightarrow> bool" where
  "fd_boot_split_peripheral_dispatch_filter c envelope \<longleftrightarrow>
     ucast (env_system envelope) = cf_system c \<and> ucast (env_subsystem envelope) = cf_subsystem c"

section \<open>The timer\<close>

definition fd_boot_split_peripheral_timeout :: u32 where "fd_boot_split_peripheral_timeout = 100000"

definition fd_boot_split_peripheral_timer_initialize :: "'x fd_boot_split_peripheral_t \<Rightarrow> 'x fd_boot_split_peripheral_t" where
  "fd_boot_split_peripheral_timer_initialize p = p\<lparr>sp_duration := 0\<rparr>"

definition fd_boot_split_peripheral_timer_update :: "'x fd_boot_split_peripheral_t \<Rightarrow> 'x fd_boot_split_peripheral_t" where
  "fd_boot_split_peripheral_timer_update p = p\<lparr>sp_duration := 0\<rparr>"

definition fd_boot_split_peripheral_timer_has_timed_out ::
  "'x fd_boot_split_peripheral_t \<Rightarrow> bool \<times> 'x fd_boot_split_peripheral_t" where
  "fd_boot_split_peripheral_timer_has_timed_out p =
     (if sp_duration p > fd_boot_split_peripheral_timeout then (True, p) else (False, p\<lparr>sp_duration := sp_duration p + 1\<rparr>))"

definition fd_boot_split_peripheral_timer_finalize :: "'x fd_boot_split_peripheral_t \<Rightarrow> 'x fd_boot_split_peripheral_t" where
  "fd_boot_split_peripheral_timer_finalize p = p\<lparr>sp_duration := 0\<rparr>"

definition fd_boot_split_peripheral_timer :: "'x fd_boot_split_peripheral_timer_t" where
  "fd_boot_split_peripheral_timer =
     \<lparr>timer_initialize = fd_boot_split_peripheral_timer_initialize, timer_update = fd_boot_split_peripheral_timer_update,
      timer_has_timed_out = fd_boot_split_peripheral_timer_has_timed_out, timer_finalize = fd_boot_split_peripheral_timer_finalize\<rparr>"

section \<open>The loop\<close>

text \<open>The functions that \<open>fd_boot_split_peripheral_set_configuration_defaults\<close> puts into the interface.\<close>

definition split_interface ::
  "'x fd_boot_split_peripheral_configuration_t \<Rightarrow> (unit, 'x) split \<Rightarrow> 'x fd_boot_split_peripheral_t fd_boot_update_interface_t" where
  "split_interface c io = (cf_update_interface c)\<lparr>
     bi_info := (bi_info (cf_update_interface c))\<lparr>get_update_storage := fd_boot_split_peripheral_get_update_storage c io\<rparr>,
     bi_progress := split_status_progress,
     bi_update_reader := \<lparr>reader_context = (),
       reader_read = (\<lambda>_ location n. bnd (fd_boot_split_peripheral_update_read c io location n) (\<lambda>bytes. ret ((), bytes)))\<rparr>\<rparr>"

text \<open>\<open>fd_dispatch\<close> as \<open>fd_boot_split_peripheral_initialize\<close> sets it up.\<close>

definition split_dispatch ::
  "'x fd_boot_split_peripheral_configuration_t \<Rightarrow> (unit, 'x) split \<Rightarrow> 'x split_state fd_dispatch_t" where
  "split_dispatch c io =
     fst (fd_dispatch_add_process (fd_dispatch_initialize (fd_boot_split_peripheral_dispatch_respond c))
       (fd_boot_split_peripheral_dispatch_process c (split_interface c io)) (fd_boot_split_peripheral_dispatch_filter c) [])"

text \<open>One message: wait, decode, dispatch. A handler that waits for a response is in here once more: the first argument
  bounds how deep, and below that is no result.\<close>

primrec fd_boot_split_peripheral_io :: "nat \<Rightarrow> 'x fd_boot_split_peripheral_configuration_t \<Rightarrow> (unit, 'x) split" where
  "fd_boot_split_peripheral_io 0 c = undef"
| "fd_boot_split_peripheral_io (Suc depth) c =
     bnd (uninitialized 300) (\<lambda>buffer.
     bnd (checked (cf_timer c)) (\<lambda>timer s.
     do { let s = set_split (timer_initialize timer) s;
          (found, message, p) \<leftarrow> split_wait c timer (fd_binary_initialize buffer 300) (boot_world s);
          let s = s\<lparr>boot_world := timer_finalize timer p\<rparr>;
          if \<not> found then bnd (fd_boot_set_error fd_boot_error_timeout) (\<lambda>_. fail) s
          else
            do { (ok, message, envelope) \<leftarrow> fd_envelope_decode message no_envelope;
                 if \<not> ok then boot_error s
                 else
                   do { let message = message\<lparr>bin_size := bin_put_index message\<rparr>;
                        (ok, message, s) \<leftarrow> fd_dispatch_process (split_dispatch c (fd_boot_split_peripheral_io depth c))
                                              message envelope s;
                        if \<not> ok then boot_error s else ret () s } } }))"

definition fd_boot_split_peripheral_set_configuration_defaults ::
  "'x fd_boot_split_peripheral_configuration_t \<Rightarrow> 'x fd_boot_split_peripheral_configuration_t" where
  "fd_boot_split_peripheral_set_configuration_defaults c =
     (let c = (if cf_target c = 0 \<and> cf_source c = 0 \<and> cf_system c = 0 \<and> cf_subsystem c = 0
               then c\<lparr>cf_target := 1, cf_source := 0, cf_system := 0, cf_subsystem := 0\<rparr> else c);
          c = (if cf_identifier c = None then c\<lparr>cf_identifier := Some [0x66, 0x64, 0x5f, 0x62, 0x6f, 0x6f, 0x74]\<rparr> else c);
          c = (if version_major (cf_version c) = 0 \<and> version_minor (cf_version c) = 0 \<and> version_patch (cf_version c) = 0
               then c\<lparr>cf_version := \<lparr>version_major = 1, version_minor = 0, version_patch = 0\<rparr>\<rparr> else c)
      in if cf_timer c = None then c\<lparr>cf_timer := Some fd_boot_split_peripheral_timer\<rparr> else c)"

definition fd_boot_split_peripheral_initialize :: "'x \<Rightarrow> 'x fd_boot_split_peripheral_t" where
  "fd_boot_split_peripheral_initialize outside =
     \<lparr>sp_fifo = fd_fifo_initialize (replicate 300 0) 300, sp_duration = 0, sp_operation = None, sp_operations = [],
      sp_log = [], sp_outside = outside\<rparr>"

partial_function (option) fd_boot_split_peripheral_run ::
  "nat \<Rightarrow> 'x fd_boot_split_peripheral_configuration_t \<Rightarrow> 'x split_state \<Rightarrow> (unit option \<times> 'x split_state) option" where
  "fd_boot_split_peripheral_run depth c s =
     do { (r, s) \<leftarrow> fd_boot_split_peripheral_io depth c s;
          if r = None \<and> cf_return_on_error c then Some (None, s)
          else fd_boot_split_peripheral_run depth c
            (if r = None \<and> boot_code s = fd_boot_error_timeout then
               (case cf_aftercare c of
                  None \<Rightarrow> s
                | Some aftercare \<Rightarrow> set_split (\<lambda>p. p\<lparr>sp_outside := aftercare (sp_outside p)\<rparr>) s)
             else s) }"

end
