(* ===== verification/FD_BootSplitController.thy ===== *)
theory FD_BootSplitController imports FD_BootSplit begin

text \<open>
  \<open>subsys/boot/src/fd_boot_split_controller.c\<close>: the other end of the link. It sends the boot loader a request and waits for
  the response; while it waits, it serves the boot loader's own requests for the update.

  The struct is a record; its callbacks act on what is outside, \<open>'y\<close>. \<open>sc_outside\<close>, \<open>sc_arrivals\<close> (what the serial
  interrupt passes to \<open>fd_boot_split_controller_received\<close> before a poll) and \<open>sc_log\<close> are no members of it. The functions
  of the timer act on the duration, to which their context points, and on what is outside.
\<close>

section \<open>State\<close>

record 'y fd_boot_split_controller_timer_t =
  controller_timer_initialize :: "u32 \<times> 'y \<Rightarrow> u32 \<times> 'y"
  controller_timer_update :: "u32 \<times> 'y \<Rightarrow> u32 \<times> 'y"
  controller_timer_has_timed_out :: "u32 \<times> 'y \<Rightarrow> bool \<times> u32 \<times> 'y"
  controller_timer_finalize :: "u32 \<times> 'y \<Rightarrow> u32 \<times> 'y"

record 'y fd_boot_split_controller_t =
  sc_target :: u32
  sc_source :: u32
  sc_system :: u32
  sc_subsystem :: u32
  sc_get_update_storage :: "'y \<Rightarrow> fd_boot_range_t \<times> 'y"
  sc_update_read :: "u32 \<Rightarrow> u32 \<Rightarrow> 'y \<Rightarrow> u8 list \<times> 'y"
  sc_progress :: "u32 \<Rightarrow> 'y \<Rightarrow> 'y"
  sc_transmit :: "u8 list \<Rightarrow> 'y \<Rightarrow> bool \<times> 'y"
  sc_timer :: "'y fd_boot_split_controller_timer_t option"
  sc_duration :: u32
  sc_poll :: "('y \<Rightarrow> 'y) option"
  sc_fifo :: fd_fifo_t
  sc_outside :: 'y
  sc_arrivals :: "'y \<Rightarrow> u8 list \<times> 'y"
  sc_log :: assert_log

type_synonym ('a, 'y) controller = "('a, 'y fd_boot_split_controller_t) boot"
type_synonym 'y controller_state = "'y fd_boot_split_controller_t boot_state"

record fd_boot_split_controller_update_result_t =
  cr_is_valid :: bool
  cr_issue :: "u8 option"

text \<open>A callback, and a function of the timer.\<close>

definition call_outside :: "('y \<Rightarrow> 'a \<times> 'y) \<Rightarrow> 'y fd_boot_split_controller_t \<Rightarrow> 'a \<times> 'y fd_boot_split_controller_t" where
  "call_outside f k = (let (a, y) = f (sc_outside k) in (a, k\<lparr>sc_outside := y\<rparr>))"

definition call_timer :: "(u32 \<times> 'y \<Rightarrow> u32 \<times> 'y) \<Rightarrow> 'y fd_boot_split_controller_t \<Rightarrow> 'y fd_boot_split_controller_t" where
  "call_timer f k = (let (d, y) = f (sc_duration k, sc_outside k) in k\<lparr>sc_duration := d, sc_outside := y\<rparr>)"

section \<open>Requests of the boot loader\<close>

definition fd_boot_split_controller_transmit ::
  "fd_binary_t \<Rightarrow> fd_envelope_t \<Rightarrow> 'y fd_boot_split_controller_t \<Rightarrow> (bool \<times> fd_binary_t \<times> 'y fd_boot_split_controller_t) option" where
  "fd_boot_split_controller_transmit message envelope k =
     do { (ok, message, envelope, failed) \<leftarrow> fd_envelope_encode message envelope;
          let k = k\<lparr>sc_log := sc_log k @ failed\<rparr>;
          if \<not> ok then Some (False, message, k)
          else
            do { message \<leftarrow> fd_binary_put_uint8 message 0;
                 if bin_errors message \<noteq> 0 then Some (False, message, k)
                 else
                   do { bytes \<leftarrow> rd_block (bin_buffer message) 0 (unat (bin_put_index message));
                        let (result, k) = call_outside (sc_transmit k bytes) k;
                        Some (result, message, k) } } }"

definition controller_envelope :: "u8 \<Rightarrow> 'y fd_boot_split_controller_t \<Rightarrow> fd_envelope_t" where
  "controller_envelope type' k = no_envelope\<lparr>env_target := ucast (sc_target k), env_source := ucast (sc_source k),
     env_system := ucast (sc_system k), env_subsystem := ucast (sc_subsystem k), env_type := type'\<rparr>"

text \<open>\<open>stack\<close> is what the array for the response is found with.\<close>

definition fd_boot_split_controller_get_update_storage ::
  "u8 list \<Rightarrow> 'y fd_boot_split_controller_t \<Rightarrow> 'y fd_boot_split_controller_t option" where
  "fd_boot_split_controller_get_update_storage stack k =
     do { let (r, k) = call_outside (sc_get_update_storage k) k;
          let response = fd_binary_initialize (take 64 (stack @ replicate 64 0)) 64;
          response \<leftarrow> fd_binary_put_uint16 response (operation_code fd_boot_split_operation_get_update_storage);
          response \<leftarrow> fd_binary_put_uint32 response (range_location r);
          response \<leftarrow> fd_binary_put_uint32 response (range_length r);
          (result, response, k) \<leftarrow> fd_boot_split_controller_transmit response (controller_envelope fd_envelope_type_response k) k;
          Some k }"

text \<open>The sum of the two \<open>int\<close>s may overflow, and the callback writes its bytes after the header whether they fit or not.\<close>

definition fd_boot_split_controller_update_read ::
  "fd_binary_t \<Rightarrow> u8 list \<Rightarrow> 'y fd_boot_split_controller_t \<Rightarrow> 'y fd_boot_split_controller_t option" where
  "fd_boot_split_controller_update_read message stack k =
     do { (location, message) \<leftarrow> fd_binary_get_uint32 message;
          (n, message) \<leftarrow> fd_binary_get_uint16 message;
          let response = fd_binary_initialize (take 300 (stack @ replicate 300 0)) 300;
          response \<leftarrow> fd_binary_put_uint16 response (operation_code fd_boot_split_operation_update_read);
          response \<leftarrow> fd_binary_put_uint32 response location;
          response \<leftarrow> fd_binary_put_uint16 response n;
          let (r, k) = call_outside (sc_get_update_storage k) k;
          if sint location + uint n \<ge> 2 ^ 31 then None
          else
            do { (response, k) \<leftarrow>
                   (if location + ucast n \<le> range_location r + range_length r then
                      do { response \<leftarrow> fd_binary_put_uint8 response 1;
                           let (bytes, k) = call_outside (sc_update_read k location (ucast n)) k;
                           buffer \<leftarrow> wr_block (bin_buffer response) (unat (bin_put_index response)) bytes;
                           Some (response\<lparr>bin_buffer := buffer, bin_put_index := bin_put_index response + ucast n\<rparr>, k) }
                    else do { response \<leftarrow> fd_binary_put_uint8 response 0; Some (response, k) });
                 (result, response, k) \<leftarrow> fd_boot_split_controller_transmit response (controller_envelope fd_envelope_type_response k) k;
                 Some k } }"

definition fd_boot_split_controller_request ::
  "fd_binary_t \<Rightarrow> u8 list \<Rightarrow> 'y fd_boot_split_controller_t \<Rightarrow> 'y fd_boot_split_controller_t option" where
  "fd_boot_split_controller_request message stack k =
     do { (operation, message) \<leftarrow> fd_binary_get_uint16 message;
          if operation = operation_code fd_boot_split_operation_get_update_storage then
            fd_boot_split_controller_get_update_storage stack k
          else if operation = operation_code fd_boot_split_operation_update_read then
            fd_boot_split_controller_update_read message stack k
          else Some k }"

definition fd_boot_split_controller_status_progress ::
  "fd_binary_t \<Rightarrow> 'y fd_boot_split_controller_t \<Rightarrow> 'y fd_boot_split_controller_t option" where
  "fd_boot_split_controller_status_progress message k =
     do { (amount, message) \<leftarrow> fd_binary_get_float32 message;
          Some (snd (call_outside (\<lambda>y. ((), sc_progress k amount y)) k)) }"

definition fd_boot_split_controller_event ::
  "fd_binary_t \<Rightarrow> 'y fd_boot_split_controller_t \<Rightarrow> 'y fd_boot_split_controller_t option" where
  "fd_boot_split_controller_event message k =
     do { (operation, message) \<leftarrow> fd_binary_get_uint16 message;
          if operation = operation_code fd_boot_split_operation_status_progress then
            fd_boot_split_controller_status_progress message k
          else Some k }"

text \<open>\<open>True\<close> when the message is the response that the caller waits for.\<close>

definition fd_boot_split_controller_dispatch ::
  "fd_binary_t \<Rightarrow> fd_envelope_t \<Rightarrow> u8 list \<Rightarrow> 'y fd_boot_split_controller_t \<Rightarrow> (bool \<times> 'y fd_boot_split_controller_t) option" where
  "fd_boot_split_controller_dispatch message envelope stack k =
     (let response = fd_binary_initialize (bin_buffer message) (bin_put_index message) in
      if env_type envelope = fd_envelope_type_request then map_option (Pair False) (fd_boot_split_controller_request response stack k)
      else if env_type envelope = fd_envelope_type_event then map_option (Pair False) (fd_boot_split_controller_event response k)
      else if env_type envelope = fd_envelope_type_response then Some (True, k)
      else Some (False, k))"

section \<open>Waiting\<close>

fun fd_boot_split_controller_received :: "u8 list \<Rightarrow> 'y fd_boot_split_controller_t \<Rightarrow> 'y fd_boot_split_controller_t option" where
  "fd_boot_split_controller_received [] k = Some k"
| "fd_boot_split_controller_received (byte # data) k =
     do { (ok, fifo) \<leftarrow> fd_fifo_put (sc_fifo k) byte;
          fd_boot_split_controller_received data (k\<lparr>sc_fifo := fifo\<rparr>) }"

partial_function (option) fd_boot_split_controller_poll ::
  "'y fd_boot_split_controller_timer_t \<Rightarrow> fd_binary_t \<Rightarrow> 'y fd_boot_split_controller_t \<Rightarrow>
   (bool \<times> fd_binary_t \<times> 'y fd_boot_split_controller_t) option" where
  "fd_boot_split_controller_poll timer message k =
     do { (byte, fifo) \<leftarrow> fd_fifo_get (sc_fifo k);
          case byte of
            None \<Rightarrow> Some (False, message, k\<lparr>sc_fifo := fifo\<rparr>)
          | Some byte \<Rightarrow>
              do { k \<leftarrow> Some (k\<lparr>sc_fifo := fifo\<rparr>);
                   if byte = 0 then
                     (if bin_put_index message \<noteq> 0 then Some (True, message, call_timer (controller_timer_update timer) k)
                      else fd_boot_split_controller_poll timer message k)
                   else
                     do { message \<leftarrow> fd_binary_put_uint8 message byte;
                          fd_boot_split_controller_poll timer message k } } }"

definition controller_timed_out ::
  "'y fd_boot_split_controller_timer_t \<Rightarrow> 'y fd_boot_split_controller_t \<Rightarrow> bool \<times> 'y fd_boot_split_controller_t" where
  "controller_timed_out timer k =
     (let (timed_out, d, y) = controller_timer_has_timed_out timer (sc_duration k, sc_outside k)
      in (timed_out, k\<lparr>sc_duration := d, sc_outside := y\<rparr>))"

definition controller_poll_callback :: "'y fd_boot_split_controller_t \<Rightarrow> 'y fd_boot_split_controller_t" where
  "controller_poll_callback k = (case sc_poll k of None \<Rightarrow> k | Some poll \<Rightarrow> k\<lparr>sc_outside := poll (sc_outside k)\<rparr>)"

text \<open>The loop that waits for a message; the flag is \<open>False\<close> after a timeout.\<close>

partial_function (option) controller_wait ::
  "'y fd_boot_split_controller_timer_t \<Rightarrow> fd_binary_t \<Rightarrow> 'y fd_boot_split_controller_t \<Rightarrow>
   (bool \<times> fd_binary_t \<times> 'y fd_boot_split_controller_t) option" where
  "controller_wait timer message k =
     do { (data, k) \<leftarrow> Some (call_outside (sc_arrivals k) k);
          k \<leftarrow> fd_boot_split_controller_received data k;
          (found, message, k) \<leftarrow> fd_boot_split_controller_poll timer message k;
          if found then Some (True, message, k)
          else
            do { (timed_out, k) \<leftarrow> Some (controller_timed_out timer k);
                 if timed_out then Some (False, message, k)
                 else controller_wait timer message (controller_poll_callback k) } }"

definition fd_boot_split_controller_io :: "fd_binary_t \<Rightarrow> (bool \<times> fd_binary_t, 'y) controller" where
  "fd_boot_split_controller_io message =
     bnd (\<lambda>s. checked (sc_timer (boot_world s)) s) (\<lambda>timer s.
     do { (found, message, k) \<leftarrow> controller_wait timer message (call_timer (controller_timer_initialize timer) (boot_world s));
          let s = s\<lparr>boot_world := call_timer (controller_timer_finalize timer) k\<rparr>;
          if \<not> found then boot_error s
          else
            do { (ok, message, envelope) \<leftarrow> fd_envelope_decode message no_envelope;
                 if \<not> ok then boot_error s
                 else
                   do { (has_response, k) \<leftarrow> fd_boot_split_controller_dispatch message envelope (boot_stack s) (boot_world s);
                        ret (has_response, fd_binary_reset message) (s\<lparr>boot_world := k\<rparr>) } } })"

section \<open>Requests to the boot loader\<close>

definition fd_boot_split_controller_rps ::
  "fd_boot_split_operation_t \<Rightarrow> fd_binary_t \<Rightarrow> (bool \<times> fd_binary_t, 'y) controller" where
  "fd_boot_split_controller_rps operation request s =
     do { request \<leftarrow> fd_binary_put_uint16 request (operation_code operation);
          (result, request, k) \<leftarrow> fd_boot_split_controller_transmit request
             (controller_envelope fd_envelope_type_request (boot_world s)) (boot_world s);
          ret (result, request) (s\<lparr>boot_world := k\<rparr>) }"

partial_function (option) controller_rpc_loop :: "fd_binary_t \<Rightarrow> 'y controller_state \<Rightarrow> (fd_binary_t option \<times> 'y controller_state) option" where
  "controller_rpc_loop response s =
     do { (r, s) \<leftarrow> fd_boot_split_controller_io response s;
          case r of
            None \<Rightarrow> Some (None, s)
          | Some (has_response, response) \<Rightarrow> if has_response then Some (Some response, s) else controller_rpc_loop response s }"

text \<open>Request and response are in one array, of 64 bytes. Whether the request went out is not looked at.\<close>

definition fd_boot_split_controller_rpc :: "fd_boot_split_operation_t \<Rightarrow> (fd_binary_t, 'y) controller" where
  "fd_boot_split_controller_rpc operation =
     bnd (uninitialized 64) (\<lambda>buffer.
     bnd (fd_boot_split_controller_rps operation (fd_binary_initialize buffer 64)) (\<lambda>(_, request).
     bnd (controller_rpc_loop (fd_binary_initialize (bin_buffer request) 64)) (\<lambda>response.
     bnd (checked (fd_binary_get_uint16 response)) (\<lambda>(response_operation, response).
     if response_operation \<noteq> operation_code operation then boot_error else ret response))))"

text \<open>The version and the identifier, without its final zero.\<close>

definition fd_boot_split_controller_get_identity :: "nat \<Rightarrow> (fd_boot_version_t \<times> u8 list, 'y) controller" where
  "fd_boot_split_controller_get_identity identifier_size =
     bnd (fd_boot_split_controller_rpc fd_boot_split_operation_get_identity) (\<lambda>response.
     bnd (checked (fd_binary_get_uint32 response)) (\<lambda>(major, response).
     bnd (checked (fd_binary_get_uint32 response)) (\<lambda>(minor, response).
     bnd (checked (fd_binary_get_uint32 response)) (\<lambda>(patch, response).
     bnd (checked (fd_binary_get_string response)) (\<lambda>(string, response).
     if unat (str_length string) + 1 > identifier_size then boot_error
     else
       bnd (checked (rd_block (bin_buffer response) (str_data string) (unat (str_length string)))) (\<lambda>identifier.
       ret (\<lparr>version_major = major, version_minor = minor, version_patch = patch\<rparr>, identifier)))))))"

text \<open>What \<open>fd_boot_split_controller_update\<close> and \<open>fd_boot_split_controller_execute\<close> do with the response.\<close>

definition controller_result :: "fd_binary_t \<Rightarrow> (fd_boot_split_controller_update_result_t, 'y) controller" where
  "controller_result response =
     bnd (checked (fd_binary_get_uint8 response)) (\<lambda>(success, response).
     if success = 0 then
       bnd (checked (fd_binary_get_uint32 response)) (\<lambda>(code, response).
       bnd (fd_boot_set_error code) (\<lambda>_. fail))
     else
       bnd (checked (fd_binary_get_uint8 response)) (\<lambda>(is_valid, response).
       if is_valid = 0 then
         bnd (checked (fd_binary_get_uint8 response)) (\<lambda>(issue, response).
         ret \<lparr>cr_is_valid = False, cr_issue = Some issue\<rparr>)
       else ret \<lparr>cr_is_valid = True, cr_issue = None\<rparr>))"

definition fd_boot_split_controller_update :: "(fd_boot_split_controller_update_result_t, 'y) controller" where
  "fd_boot_split_controller_update = bnd (fd_boot_split_controller_rpc fd_boot_split_operation_update) controller_result"

definition fd_boot_split_controller_execute :: "(fd_boot_split_controller_update_result_t, 'y) controller" where
  "fd_boot_split_controller_execute = bnd (fd_boot_split_controller_rpc fd_boot_split_operation_execute) controller_result"

definition fd_boot_split_controller_send_execute :: "(unit, 'y) controller" where
  "fd_boot_split_controller_send_execute =
     bnd (uninitialized 64) (\<lambda>buffer.
     bnd (fd_boot_split_controller_rps fd_boot_split_operation_execute (fd_binary_initialize buffer 64)) (\<lambda>(ok, _).
     if \<not> ok then fail else ret ()))"

section \<open>The timer\<close>

definition fd_boot_split_controller_timeout :: u32 where "fd_boot_split_controller_timeout = 1000"

definition fd_boot_split_controller_timer_initialize :: "u32 \<times> 'y \<Rightarrow> u32 \<times> 'y" where
  "fd_boot_split_controller_timer_initialize = (\<lambda>(d, y). (0, y))"

definition fd_boot_split_controller_timer_update :: "u32 \<times> 'y \<Rightarrow> u32 \<times> 'y" where
  "fd_boot_split_controller_timer_update = (\<lambda>(d, y). (0, y))"

definition fd_boot_split_controller_timer_has_timed_out :: "u32 \<times> 'y \<Rightarrow> bool \<times> u32 \<times> 'y" where
  "fd_boot_split_controller_timer_has_timed_out =
     (\<lambda>(d, y). if d > fd_boot_split_controller_timeout then (True, d, y) else (False, d + 1, y))"

definition fd_boot_split_controller_timer_finalize :: "u32 \<times> 'y \<Rightarrow> u32 \<times> 'y" where
  "fd_boot_split_controller_timer_finalize = (\<lambda>(d, y). (0, y))"

definition fd_boot_split_controller_timer :: "'y fd_boot_split_controller_timer_t" where
  "fd_boot_split_controller_timer =
     \<lparr>controller_timer_initialize = fd_boot_split_controller_timer_initialize,
      controller_timer_update = fd_boot_split_controller_timer_update,
      controller_timer_has_timed_out = fd_boot_split_controller_timer_has_timed_out,
      controller_timer_finalize = fd_boot_split_controller_timer_finalize\<rparr>"

definition fd_boot_split_controller_set_defaults :: "'y fd_boot_split_controller_t \<Rightarrow> 'y fd_boot_split_controller_t" where
  "fd_boot_split_controller_set_defaults k =
     (if sc_timer k = None then k\<lparr>sc_timer := Some fd_boot_split_controller_timer\<rparr> else k)"

end
