(* ===== verification/FD_BootSplitSpec.thy ===== *)
theory FD_BootSplitSpec imports FD_BootSplitController begin

text \<open>
  What the two ends of the split boot loader do together, and what goes wrong.

  \<open>packet buffer body\<close> is an array with a message in it, \<open>wire_frame\<close> what a message is on the wire. A link is a pair of
  functions for the peripheral's configuration, \<open>link_transmit\<close> and \<open>link_arrivals\<close>, that run the controller's own code on
  what the peripheral sends; \<open>split_ready\<close> is the state between two operations on such a link. \<open>operation_over_link\<close> takes
  one request and its response all the way, and the two functions of the update interface that go over the link are
  instances of it.
\<close>

section \<open>Messages\<close>

text \<open>An array with a message in it.\<close>

definition packet :: "u8 list \<Rightarrow> u8 list \<Rightarrow> fd_binary_t" where
  "packet buffer body = bin_append body (fd_binary_initialize buffer (of_nat (length buffer)))"

lemma message_Nil: "fd_binary_initialize buffer (of_nat (length buffer)) = packet buffer []"
  by (simp add: packet_def bin_append_Nil)

lemma initialize_message: "length buffer = n \<Longrightarrow> fd_binary_initialize buffer (of_nat n) = packet buffer []"
  by (drule sym) (simp add: message_Nil)

lemma empty_facts:
  assumes small: "length buffer < 2 ^ 16"
  shows "bin_ok (fd_binary_initialize buffer (of_nat (length buffer)))" "bin_room (fd_binary_initialize buffer (of_nat (length buffer))) = length buffer"
  "unat (bin_size (fd_binary_initialize buffer (of_nat (length buffer)))) = length buffer"
  using small by (simp_all add: fd_binary_initialize_def bin_ok_def bin_room_def unat_of_nat)

lemma message_facts:
  assumes small: "length buffer < 2 ^ 16"
    and "length body \<le> length buffer"
  shows "bin_ok (packet buffer body)" "bin_written (packet buffer body) = body" "bin_errors (packet buffer body) = 0"
    "bin_room (packet buffer body) = length buffer - length body" "length (bin_buffer (packet buffer body)) = length buffer"
    "unat (bin_size (packet buffer body)) = length buffer" "unat (bin_put_index (packet buffer body)) = length body"
    "bin_get_index (packet buffer body) = 0" "bin_size (packet buffer body) = of_nat (length buffer)"
  using bin_append_ok[OF empty_facts(1)[OF small], of body] bin_append_room[OF empty_facts(1)[OF small], of body] assms empty_facts(2,3)[OF small]
  by (simp_all add: packet_def) (simp_all add: fd_binary_initialize_def bin_written_def)

lemma message_append:
  assumes small: "length buffer < 2 ^ 16"
    and "length body + length bs \<le> length buffer"
  shows "bin_append bs (packet buffer body) = packet buffer (body @ bs)"
  using bin_append_append[OF empty_facts(1)[OF small], of body bs] assms empty_facts(2)[OF small] by (simp add: packet_def)

lemma put_message:
  assumes small: "length buffer < 2 ^ 16"
  shows "length body + 1 \<le> length buffer \<Longrightarrow> fd_binary_put_uint8 (packet buffer body) v8 = Some (packet buffer (body @ [v8]))"
    "length body + 2 \<le> length buffer \<Longrightarrow> fd_binary_put_uint16 (packet buffer body) v16 = Some (packet buffer (body @ le_bytes 2 v16))"
    "length body + 4 \<le> length buffer \<Longrightarrow> fd_binary_put_uint32 (packet buffer body) v32 = Some (packet buffer (body @ le_bytes 4 v32))"
    "length body + length bs \<le> length buffer \<Longrightarrow> fd_binary_put_bytes (packet buffer body) bs = Some (packet buffer (body @ bs))"
proof -
  assume a: "length body + 1 \<le> length buffer"
  then have b: "length body \<le> length buffer" by simp
  show "fd_binary_put_uint8 (packet buffer body) v8 = Some (packet buffer (body @ [v8]))"
    using put_specs(1)[OF message_facts(1)[OF small b]] message_append[OF small, of body "[v8]"] a message_facts(4)[OF small b] by (simp add: bin_put_whole_def)
next
  assume a: "length body + 2 \<le> length buffer"
  then have b: "length body \<le> length buffer" by simp
  show "fd_binary_put_uint16 (packet buffer body) v16 = Some (packet buffer (body @ le_bytes 2 v16))"
    using put_specs(2)[OF message_facts(1)[OF small b]] message_append[OF small, of body "le_bytes 2 v16"] a message_facts(4)[OF small b]
    by (simp add: bin_put_whole_def del: le_bytes.simps)
next
  assume a: "length body + 4 \<le> length buffer"
  then have b: "length body \<le> length buffer" by simp
  show "fd_binary_put_uint32 (packet buffer body) v32 = Some (packet buffer (body @ le_bytes 4 v32))"
    using put_specs(4)[OF message_facts(1)[OF small b]] message_append[OF small, of body "le_bytes 4 v32"] a message_facts(4)[OF small b]
    by (simp add: bin_put_whole_def del: le_bytes.simps)
next
  assume a: "length body + length bs \<le> length buffer"
  then have b: "length body \<le> length buffer" by simp
  show "fd_binary_put_bytes (packet buffer body) bs = Some (packet buffer (body @ bs))"
    using put_bytes_spec[OF message_facts(1)[OF small b]] message_append[OF small, of body bs] a message_facts(4,6)[OF small b] small
    by (simp add: bin_put_whole_def)
qed

text \<open>What a message is on the wire.\<close>

definition wire_frame :: "u8 list \<Rightarrow> fd_envelope_t \<Rightarrow> u8 list" where
  "wire_frame body e = cobs_stuff [] (envelope_frame body e)"

lemma wire_frame_length: "0 < length (wire_frame body e)" "length (wire_frame body e) \<le> length body + length body div 254 + 12"
proof -
  have "(length body + 10) div 254 \<le> length body div 254 + 1" by linarith
  then show "0 < length (wire_frame body e)" "length (wire_frame body e) \<le> length body + length body div 254 + 12"
    using cobs_stuff_length[of "[]" "envelope_frame body e"] by (auto simp: wire_frame_def length_envelope_frame)
qed

lemma wire_frame_nonzero: "0 \<notin> set (wire_frame body e)"
  by (simp add: wire_frame_def cobs_stuff_nonzero)

lemma encode_message:
  assumes "length buffer < 7800" "length body + length body div 254 + 13 \<le> length buffer"
  obtains m1 m2 where "fd_envelope_encode (packet buffer body) e = Some (True, m1, envelope_filled body e, [])"
    "fd_binary_put_uint8 m1 0 = Some m2" "bin_errors m2 = 0"
    "rd_block (bin_buffer m2) 0 (unat (bin_put_index m2)) = Some (wire_frame body e @ [0])" "length (bin_buffer m2) = length buffer"
proof -
  have small: "length buffer < 2 ^ 16" and fits: "length body \<le> length buffer" using assms by simp_all
  note m = message_facts[OF small fits]
  have bound: "cobs_bound (length body + 10) \<le> length body + length body div 254 + 12"
    unfolding cobs_bound_def by linarith
  have "10 \<le> bin_room (packet buffer body)" "length body + 10 \<le> 7874"
    "cobs_bound (length body + 10) \<le> length (bin_buffer (packet buffer body))"
    using assms bound m(4,5) by linarith+
  from fd_envelope_encode_spec[OF m(1,2) this(1) m(3) this(2,3), of e]
  obtain m1 where m1: "fd_envelope_encode (packet buffer body) e = Some (True, m1, envelope_filled body e, [])"
    "bin_written m1 = wire_frame body e" "bin_errors m1 = 0" "bin_size m1 = bin_size (packet buffer body)"
    "length (bin_buffer m1) = length (bin_buffer (packet buffer body))" "bin_get_index m1 = bin_get_index (packet buffer body)"
    "unat (bin_put_index m1) = length (wire_frame body e)"
    by (auto simp: wire_frame_def)
  have lf: "length (wire_frame body e) + 1 \<le> length buffer" using wire_frame_length(2)[of body e] assms(2) by linarith
  have ok1: "bin_ok m1" using m(5,6,8) lf m1(4-7) small by (simp add: bin_ok_def)
  have fit: "unat (bin_put_index m1) + length [0 :: u8] \<le> unat (bin_size m1)"
    using lf m1(4,7) m(6) by simp
  note a = bin_append_ok[OF ok1 fit]
  have "fd_binary_put_uint8 m1 0 = Some (bin_append [0] m1)"
    using put_specs(1)[OF ok1, of 0] fit by (simp add: bin_put_whole_def bin_room_iff[OF ok1])
  moreover have "rd_block (bin_buffer (bin_append [0] m1)) 0 (unat (bin_put_index (bin_append [0] m1))) = Some (wire_frame body e @ [0])"
    using a(1,2) m1(2) unfolding bin_written_def bin_ok_def by (simp add: rd_block_def)
  ultimately show ?thesis using that[OF m1(1)] a(4,6) m1(3,5) m(5) by simp
qed

lemma split_transmit_message:
  assumes "length buffer < 7800" "length body + length body div 254 + 13 \<le> length buffer"
  shows "\<exists>m. split_transmit c (packet buffer body) e s =
    Some (True, m, set_split (\<lambda>p. p\<lparr>sp_outside := cf_transmit c (wire_frame body e @ [0]) (sp_outside p)\<rparr>) s)"
  by (rule encode_message[OF assms, of e]) (simp add: split_transmit_def set_split_def envelope_filled_def)

lemma controller_transmit_message:
  assumes "length buffer < 7800" "length body + length body div 254 + 13 \<le> length buffer"
  shows "\<exists>m. length (bin_buffer m) = length buffer \<and> fd_boot_split_controller_transmit (packet buffer body) e k =
    (let (result, k) = call_outside (sc_transmit k (wire_frame body e @ [0])) k in Some (result, m, k))"
proof (rule encode_message[OF assms, of e])
  fix m1 m2
  assume "fd_envelope_encode (packet buffer body) e = Some (True, m1, envelope_filled body e, [])"
    "fd_binary_put_uint8 m1 0 = Some m2" "bin_errors m2 = 0"
    "rd_block (bin_buffer m2) 0 (unat (bin_put_index m2)) = Some (wire_frame body e @ [0])" "length (bin_buffer m2) = length buffer"
  then show ?thesis
    by (intro exI[of _ m2]) (simp add: fd_boot_split_controller_transmit_def envelope_filled_def Let_def split: prod.splits)
qed

section \<open>Queues and polls\<close>

lemma received_all:
  assumes "fifo_inv f" "length (fifo_list f) + length data \<le> fifo_capacity f"
  shows "\<exists>f'. fifo_inv f' \<and> fifo_list f' = fifo_list f @ data \<and> fifo_capacity f' = fifo_capacity f \<and>
    (\<forall>p :: 'x fd_boot_split_peripheral_t. sp_fifo p = f \<longrightarrow> fd_boot_split_peripheral_received data p = Some (p\<lparr>sp_fifo := f'\<rparr>)) \<and>
    (\<forall>k :: 'y fd_boot_split_controller_t. sc_fifo k = f \<longrightarrow> fd_boot_split_controller_received data k = Some (k\<lparr>sc_fifo := f'\<rparr>))"
  using assms
proof (induction data arbitrary: f)
  case Nil
  then show ?case by (intro exI[of _ f]) auto
next
  case (Cons b data)
  obtain f1 where f1: "fd_fifo_put f b = Some (True, f1)" "fifo_inv f1" "fifo_list f1 = fifo_list f @ [b]" "fifo_capacity f1 = fifo_capacity f"
    using fifo_queue.put_room[OF Cons.prems(1), of b] Cons.prems(2) by auto
  from Cons.IH[OF f1(2)] Cons.prems(2) f1(3,4) obtain f2 where f2: "fifo_inv f2" "fifo_list f2 = fifo_list f1 @ data"
      "fifo_capacity f2 = fifo_capacity f1"
      "\<And>p :: 'x fd_boot_split_peripheral_t. sp_fifo p = f1 \<Longrightarrow> fd_boot_split_peripheral_received data p = Some (p\<lparr>sp_fifo := f2\<rparr>)"
      "\<And>k :: 'y fd_boot_split_controller_t. sc_fifo k = f1 \<Longrightarrow> fd_boot_split_controller_received data k = Some (k\<lparr>sc_fifo := f2\<rparr>)"
    by (auto simp del: fd_boot_split_peripheral_received.simps fd_boot_split_controller_received.simps)
  have "fd_boot_split_peripheral_received (b # data) p = Some (p\<lparr>sp_fifo := f2\<rparr>)" if "sp_fifo p = f" for p :: "'x fd_boot_split_peripheral_t"
    using f1(1) f2(4)[of "p\<lparr>sp_fifo := f1\<rparr>"] that by simp
  moreover have "fd_boot_split_controller_received (b # data) k = Some (k\<lparr>sc_fifo := f2\<rparr>)" if "sc_fifo k = f" for k :: "'y fd_boot_split_controller_t"
    using f1(1) f2(5)[of "k\<lparr>sc_fifo := f1\<rparr>"] that by simp
  ultimately show ?case using f2(1-3) f1(3,4) by (intro exI[of _ f2]) simp
qed

lemma peripheral_poll_frame:
  assumes "fifo_inv f" "fifo_list f = bs @ [0]" "0 \<notin> set bs" "length buffer < 2 ^ 16" "length done + length bs \<le> length buffer"
    "done @ bs \<noteq> []"
  shows "\<exists>f'. fifo_inv f' \<and> fifo_list f' = [] \<and> fifo_capacity f' = fifo_capacity f \<and>
    (\<forall>p :: 'x fd_boot_split_peripheral_t. sp_fifo p = f \<longrightarrow> fd_boot_split_peripheral_poll fd_boot_split_peripheral_timer (packet buffer done) p =
       Some (True, packet buffer (done @ bs), p\<lparr>sp_fifo := f', sp_duration := 0\<rparr>)) \<and>
    (\<forall>k :: 'y fd_boot_split_controller_t. sc_fifo k = f \<longrightarrow> fd_boot_split_controller_poll fd_boot_split_controller_timer (packet buffer done) k =
       Some (True, packet buffer (done @ bs), k\<lparr>sc_fifo := f', sc_duration := 0\<rparr>))"
  using assms
proof (induction bs arbitrary: f "done")
  case Nil
  obtain f' where f': "fd_fifo_get f = Some (Some 0, f')" "fifo_inv f'" "fifo_list f' = []" "fifo_capacity f' = fifo_capacity f"
    using fifo_queue.get_some[OF Nil(1)] Nil(2) by fastforce
  have "bin_put_index (packet buffer done) \<noteq> 0"
    using message_facts(7)[OF Nil(4), of "done"] Nil(5,6) by (metis append_Nil2 le_add1 le_trans length_0_conv unat_0)
  then show ?case using f'
    by (intro exI[of _ f'])
      (auto simp: fd_boot_split_peripheral_poll.simps fd_boot_split_controller_poll.simps fd_boot_split_peripheral_timer_def
        fd_boot_split_peripheral_timer_update_def fd_boot_split_controller_timer_def call_timer_def
        fd_boot_split_controller_timer_update_def)
next
  case (Cons b bs)
  obtain f1 where f1: "fd_fifo_get f = Some (Some b, f1)" "fifo_inv f1" "fifo_list f1 = bs @ [0]" "fifo_capacity f1 = fifo_capacity f"
    using fifo_queue.get_some[OF Cons.prems(1)] Cons.prems(2) by fastforce
  have room: "length (done @ [b]) + length bs \<le> length buffer" using Cons.prems(5) by simp
  have b: "b \<noteq> 0" and nz: "0 \<notin> set bs" using Cons.prems(3) by auto
  from Cons.IH[OF f1(2,3) nz Cons.prems(4) room] obtain f2 where f2: "fifo_inv f2" "fifo_list f2 = []" "fifo_capacity f2 = fifo_capacity f"
      "\<And>p :: 'x fd_boot_split_peripheral_t. sp_fifo p = f1 \<Longrightarrow> fd_boot_split_peripheral_poll fd_boot_split_peripheral_timer (packet buffer (done @ [b])) p =
         Some (True, packet buffer (done @ b # bs), p\<lparr>sp_fifo := f2, sp_duration := 0\<rparr>)"
      "\<And>k :: 'y fd_boot_split_controller_t. sc_fifo k = f1 \<Longrightarrow> fd_boot_split_controller_poll fd_boot_split_controller_timer (packet buffer (done @ [b])) k =
         Some (True, packet buffer (done @ b # bs), k\<lparr>sc_fifo := f2, sc_duration := 0\<rparr>)"
    using f1(4) by auto
  have put: "fd_binary_put_uint8 (packet buffer done) b = Some (packet buffer (done @ [b]))"
    using put_message(1)[OF Cons.prems(4)] Cons.prems(5) by simp
  have "fd_boot_split_peripheral_poll fd_boot_split_peripheral_timer (packet buffer done) p =
      Some (True, packet buffer (done @ b # bs), p\<lparr>sp_fifo := f2, sp_duration := 0\<rparr>)" if "sp_fifo p = f" for p :: "'x fd_boot_split_peripheral_t"
    using f1(1) f2(4)[of "p\<lparr>sp_fifo := f1, sp_duration := 0\<rparr>"] that b put
    by (subst fd_boot_split_peripheral_poll.simps)
      (simp add: fd_boot_split_peripheral_timer_def fd_boot_split_peripheral_timer_update_def)
  moreover have "fd_boot_split_controller_poll fd_boot_split_controller_timer (packet buffer done) k =
      Some (True, packet buffer (done @ b # bs), k\<lparr>sc_fifo := f2, sc_duration := 0\<rparr>)" if "sc_fifo k = f" for k :: "'y fd_boot_split_controller_t"
    using f1(1) f2(5)[of "k\<lparr>sc_fifo := f1\<rparr>"] that b put by (subst fd_boot_split_controller_poll.simps) simp
  ultimately show ?case using f2(1-3) by (intro exI[of _ f2]) simp
qed

section \<open>Reading a message\<close>

lemma le_value_bytes_16: "le_value (le_bytes 2 v) = (v :: u16)"
  by (rule le_value_le_bytes_2)

lemma le_value_bytes_32: "le_value (le_bytes 4 v) = (v :: u32)"
  using take_bit_word_eq_self[of 32 v] by (simp add: le_value_bytes)

lemma reads:
  assumes "bin_ok b"
  shows "bin_next (v8 # rest) b \<Longrightarrow> fd_binary_get_uint8 b = Some (v8, bin_advance 1 b) \<and> bin_ok (bin_advance 1 b) \<and> bin_next rest (bin_advance 1 b)"
    "bin_next (le_bytes 2 v16 @ rest) b \<Longrightarrow>
      fd_binary_get_uint16 b = Some (v16, bin_advance 2 b) \<and> bin_ok (bin_advance 2 b) \<and> bin_next rest (bin_advance 2 b)"
    "bin_next (le_bytes 4 v32 @ rest) b \<Longrightarrow>
      fd_binary_get_uint32 b = Some (v32, bin_advance 4 b) \<and> bin_ok (bin_advance 4 b) \<and> bin_next rest (bin_advance 4 b)"
proof -
  have ok: "bin_ok (bin_advance (length xs) b)" if "bin_next (xs @ ys) b" for xs ys
    using bin_advance_ok(1)[OF assms, of "length xs"] that by (simp add: bin_next_def)
  show "bin_next (v8 # rest) b \<Longrightarrow> fd_binary_get_uint8 b = Some (v8, bin_advance 1 b) \<and> bin_ok (bin_advance 1 b) \<and> bin_next rest (bin_advance 1 b)"
    using ok[of "[v8]" rest] bin_next_append[OF assms, of "[v8]" rest] get_specs(1)[OF assms] by simp
  show "bin_next (le_bytes 2 v16 @ rest) b \<Longrightarrow>
      fd_binary_get_uint16 b = Some (v16, bin_advance 2 b) \<and> bin_ok (bin_advance 2 b) \<and> bin_next rest (bin_advance 2 b)"
    using ok[of "le_bytes 2 v16" rest] bin_next_append[OF assms, of "le_bytes 2 v16" rest] get_specs(2)[OF assms, of "le_bytes 2 v16"]
    by (simp add: le_value_bytes_16)
  show "bin_next (le_bytes 4 v32 @ rest) b \<Longrightarrow>
      fd_binary_get_uint32 b = Some (v32, bin_advance 4 b) \<and> bin_ok (bin_advance 4 b) \<and> bin_next rest (bin_advance 4 b)"
    using ok[of "le_bytes 4 v32" rest] bin_next_append[OF assms, of "le_bytes 4 v32" rest] get_specs(4)[OF assms, of "le_bytes 4 v32"]
    by (simp add: le_value_bytes_32)
qed

lemma decode_frame:
  assumes "length buffer < 7800" "length (wire_frame body e) \<le> length buffer" "length body < 7800"
  obtains m where "fd_envelope_decode (packet buffer (wire_frame body e)) no_envelope = Some (True, m, envelope_filled body e)"
    "bin_put_index m = of_nat (length body)" "bin_get_index m = 0" "length (bin_buffer m) = length buffer" "bin_errors m = 0"
    "bin_ok (m\<lparr>bin_size := bin_put_index m\<rparr>)" "bin_next body (m\<lparr>bin_size := bin_put_index m\<rparr>)"
    "fd_binary_initialize (bin_buffer m) (bin_put_index m) = m\<lparr>bin_size := bin_put_index m, bin_put_index := 0\<rparr>"
    "bin_ok (m\<lparr>bin_size := bin_put_index m, bin_put_index := 0\<rparr>)" "bin_next body (m\<lparr>bin_size := bin_put_index m, bin_put_index := 0\<rparr>)"
    "bin_size m = of_nat (length buffer)"
proof -
  have small: "length buffer < 2 ^ 16" using assms(1) by simp
  note f = message_facts[OF small assms(2)]
  have "unat (bin_put_index (packet buffer (wire_frame body e))) \<le> length (bin_buffer (packet buffer (wire_frame body e)))"
    using f(5,7) assms(2) by simp
  from fd_envelope_decode_frame[of "packet buffer (wire_frame body e)" body e, OF _ _ this, of no_envelope] f assms(3)
  obtain m where m: "fd_envelope_decode (packet buffer (wire_frame body e)) no_envelope = Some (True, m, envelope_filled body e)"
    "bin_written m = body" "bin_errors m = 0" "bin_size m = of_nat (length buffer)" "bin_get_index m = 0" "length (bin_buffer m) = length buffer"
    "bin_put_index m = of_nat (length body)"
    by (auto simp: wire_frame_def)
  have u: "unat (bin_put_index m) = length body" using m(7) assms(3) by (simp add: unat_of_nat)
  then have t: "take (length body) (bin_buffer m) = body" using m(2) by (simp add: bin_written_def)
  have l: "length body \<le> length buffer" using t m(6) by (metis length_take min.cobounded1)
  show ?thesis
  proof (rule that[OF m(1,7,5,6,3) _ _ _ _ _ m(4)])
    show "bin_ok (m\<lparr>bin_size := bin_put_index m\<rparr>)" "bin_ok (m\<lparr>bin_size := bin_put_index m, bin_put_index := 0\<rparr>)"
      using u l m(5,6) assms(1) by (simp_all add: bin_ok_def)
    show "bin_next body (m\<lparr>bin_size := bin_put_index m\<rparr>)" "bin_next body (m\<lparr>bin_size := bin_put_index m, bin_put_index := 0\<rparr>)"
      using u t m(5) by (simp_all add: bin_next_def)
    show "fd_binary_initialize (bin_buffer m) (bin_put_index m) = m\<lparr>bin_size := bin_put_index m, bin_put_index := 0\<rparr>"
      using m(3,5) by (simp add: fd_binary_initialize_def)
  qed
qed

section \<open>The controller serves the update\<close>

text \<open>A controller that waits for a response on a working link: what it sends is collected in \<open>sc_outside\<close>. The update
  storage is \<open>r\<close>, with the bytes of \<open>file\<close>.\<close>

definition controller_ready :: "fd_boot_range_t \<Rightarrow> (u32 \<Rightarrow> nat \<Rightarrow> u8 list) \<Rightarrow> u8 list fd_boot_split_controller_t \<Rightarrow> bool" where
  "controller_ready r file k \<longleftrightarrow> fifo_inv (sc_fifo k) \<and> fifo_list (sc_fifo k) = [] \<and> 32 \<le> fifo_capacity (sc_fifo k) \<and>
     sc_timer k = Some fd_boot_split_controller_timer \<and> sc_get_update_storage k = Pair r \<and>
     sc_update_read k = (\<lambda>l n y. (file l (unat n), y)) \<and> sc_transmit k = (\<lambda>bytes y. (True, y @ bytes)) \<and>
     sc_arrivals k = Pair [] \<and> sc_outside k = []"

definition storage_request :: "u8 list" where
  "storage_request = le_bytes 2 (5 :: u16)"

definition storage_response :: "fd_boot_range_t \<Rightarrow> u8 list" where
  "storage_response r = le_bytes 2 (5 :: u16) @ le_bytes 4 (range_location r) @ le_bytes 4 (range_length r)"

definition read_request :: "u32 \<Rightarrow> u16 \<Rightarrow> u8 list" where
  "read_request location n = le_bytes 2 (6 :: u16) @ le_bytes 4 location @ le_bytes 2 n"

definition read_response :: "u32 \<Rightarrow> u16 \<Rightarrow> u8 list \<Rightarrow> u8 list" where
  "read_response location n bytes = le_bytes 2 (6 :: u16) @ le_bytes 4 location @ le_bytes 2 n @ 1 # bytes"

lemma controller_io_request:
  fixes k :: "u8 list fd_boot_split_controller_t"
  assumes "fifo_inv f" "fifo_list f = wire_frame body e @ [0]" "env_type e = fd_envelope_type_request" "length buffer = 64" "length body \<le> 40"
    "sc_fifo k = f" "sc_timer k = Some fd_boot_split_controller_timer" "sc_arrivals k = Pair []"
  shows "\<exists>f' b m. fifo_inv f' \<and> fifo_list f' = [] \<and> fifo_capacity f' = fifo_capacity f \<and> bin_ok b \<and> bin_next body b \<and>
    fd_boot_split_controller_io (packet buffer []) (x\<lparr>boot_world := k\<rparr>) =
      (case fd_boot_split_controller_request b (boot_stack x) (k\<lparr>sc_fifo := f', sc_duration := 0\<rparr>) of
         None \<Rightarrow> None
       | Some k' \<Rightarrow> Some (Some (False, m), x\<lparr>boot_world := k'\<rparr>))"
proof -
  have len: "length (wire_frame body e) \<le> 64" using wire_frame_length(2)[of body e] assms(5) by simp
  obtain f' where f': "fifo_inv f'" "fifo_list f' = []" "fifo_capacity f' = fifo_capacity f"
      "\<And>k :: u8 list fd_boot_split_controller_t. sc_fifo k = f \<Longrightarrow>
         fd_boot_split_controller_poll fd_boot_split_controller_timer (packet buffer []) k =
         Some (True, packet buffer (wire_frame body e), k\<lparr>sc_fifo := f', sc_duration := 0\<rparr>)"
    using peripheral_poll_frame[OF assms(1,2) wire_frame_nonzero, of buffer "[]"] wire_frame_length(1)[of body e] assms(4) len by auto
  have len': "length buffer < 7800" "length (wire_frame body e) \<le> length buffer" "length body < 7800" using assms(4,5) len by simp_all
  from decode_frame[OF len'] obtain m where m: "fd_envelope_decode (packet buffer (wire_frame body e)) no_envelope = Some (True, m, envelope_filled body e)"
    "fd_binary_initialize (bin_buffer m) (bin_put_index m) = m\<lparr>bin_size := bin_put_index m, bin_put_index := 0\<rparr>"
    "bin_ok (m\<lparr>bin_size := bin_put_index m, bin_put_index := 0\<rparr>)" "bin_next body (m\<lparr>bin_size := bin_put_index m, bin_put_index := 0\<rparr>)"
    by metis
  have w: "controller_wait fd_boot_split_controller_timer (packet buffer []) (k\<lparr>sc_duration := 0\<rparr>) =
      Some (True, packet buffer (wire_frame body e), k\<lparr>sc_fifo := f', sc_duration := 0\<rparr>)"
    using assms(6,8) f'(4)[of "k\<lparr>sc_duration := 0\<rparr>"] by (subst controller_wait.simps) (simp add: call_outside_def)
  have "call_timer (controller_timer_initialize fd_boot_split_controller_timer) k = k\<lparr>sc_duration := 0\<rparr>"
    "call_timer (controller_timer_finalize fd_boot_split_controller_timer) j = j\<lparr>sc_duration := 0\<rparr>" for j :: "u8 list fd_boot_split_controller_t"
    by (simp_all add: call_timer_def fd_boot_split_controller_timer_def fd_boot_split_controller_timer_initialize_def
        fd_boot_split_controller_timer_finalize_def)
  then have "fd_boot_split_controller_io (packet buffer []) (x\<lparr>boot_world := k\<rparr>) =
      (case fd_boot_split_controller_request (m\<lparr>bin_size := bin_put_index m, bin_put_index := 0\<rparr>) (boot_stack x) (k\<lparr>sc_fifo := f', sc_duration := 0\<rparr>) of
         None \<Rightarrow> None
       | Some k' \<Rightarrow> Some (Some (False, fd_binary_reset m), x\<lparr>boot_world := k'\<rparr>))"
    using w m(1) assms(3,7)
    by (simp add: fd_boot_split_controller_io_def bnd_def checked_def ret_def undef_def fd_boot_split_controller_dispatch_def m(2)
        envelope_filled_def Let_def split: option.split)
  then show ?thesis using f' m(3,4) by blast
qed

lemma controller_serves_storage:
  assumes "bin_ok b" "bin_next storage_request b" "sc_get_update_storage k = Pair r" "sc_transmit k = (\<lambda>bytes y. (True, y @ bytes))"
  shows "fd_boot_split_controller_request b stack k =
    Some (k\<lparr>sc_outside := sc_outside k @ wire_frame (storage_response r) (controller_envelope fd_envelope_type_response k) @ [0]\<rparr>)"
proof -
  define buffer where "buffer = take 64 (stack @ replicate 64 (0 :: u8))"
  have l: "length buffer = 64" by (simp add: buffer_def)
  have small: "length buffer < 2 ^ 16" by (simp add: l)
  note put = put_message[OF small, unfolded l]
  have g: "fd_binary_get_uint16 b = Some (5, bin_advance 2 b)" using reads(2)[OF assms(1), of 5 "[]"] assms(2) by (simp add: storage_request_def)
  have op: "operation_code fd_boot_split_operation_get_update_storage = 5" by simp
  obtain m where m: "fd_boot_split_controller_transmit (packet buffer (storage_response r)) (controller_envelope fd_envelope_type_response k) k =
      (let (result, k) = call_outside (sc_transmit k (wire_frame (storage_response r) (controller_envelope fd_envelope_type_response k) @ [0])) k
       in Some (result, m, k))"
    using controller_transmit_message[of buffer "storage_response r" "controller_envelope fd_envelope_type_response k" k]
    by (auto simp: l storage_response_def)
  have i: "fd_binary_initialize (take 64 (stack @ replicate 64 0)) 64 = packet buffer []"
    using initialize_message[OF l] by (simp add: buffer_def)
  have out: "call_outside (sc_get_update_storage k) k = (r, k)" using assms(3) by (simp add: call_outside_def)
  have tx: "fd_boot_split_controller_transmit (packet buffer (storage_response r)) (controller_envelope fd_envelope_type_response k) k =
      Some (True, m, k\<lparr>sc_outside := sc_outside k @ wire_frame (storage_response r) (controller_envelope fd_envelope_type_response k) @ [0]\<rparr>)"
    using m assms(4) by (simp add: call_outside_def)
  show ?thesis
    using tx unfolding fd_boot_split_controller_request_def fd_boot_split_controller_get_update_storage_def
    by (simp add: g op out i put storage_response_def del: le_bytes.simps take_append)
qed

lemma unat_ucast_16_32: "unat (ucast n :: u32) = unat n" for n :: u16
proof -
  have "unat n < 2 ^ 32" using unsigned_less[of n, where ?'a = nat] by simp
  then show ?thesis by (simp add: unsigned_ucast_eq take_bit_nat_eq_self)
qed

lemma controller_serves_read:
  assumes "bin_ok b" "bin_next (read_request location n) b" "sc_get_update_storage k = Pair r" "sc_transmit k = (\<lambda>bytes y. (True, y @ bytes))"
    "sc_update_read k = (\<lambda>l n y. (file l (unat n), y))" "length (file location (unat n)) = unat n"
    "unat n \<le> 256" "sint location + uint n < 2 ^ 31" "location + ucast n \<le> range_location r + range_length r"
  shows "fd_boot_split_controller_request b stack k =
    Some (k\<lparr>sc_outside := sc_outside k @ wire_frame (read_response location n (file location (unat n))) (controller_envelope fd_envelope_type_response k) @ [0]\<rparr>)"
proof -
  define buffer where "buffer = take 300 (stack @ replicate 300 (0 :: u8))"
  define bytes where "bytes = file location (unat n)"
  have l: "length buffer = 300" by (simp add: buffer_def)
  have small: "length buffer < 2 ^ 16" by (simp add: l)
  note put = put_message[OF small, unfolded l]
  have g: "fd_binary_get_uint16 b = Some (6, bin_advance 2 b)" "bin_ok (bin_advance 2 b)" "bin_next (le_bytes 4 location @ le_bytes 2 n) (bin_advance 2 b)"
    using reads(2)[OF assms(1), of 6 "le_bytes 4 location @ le_bytes 2 n"] assms(2) by (simp_all add: read_request_def)
  have h: "fd_binary_get_uint32 (bin_advance 2 b) = Some (location, bin_advance 4 (bin_advance 2 b))"
    "bin_ok (bin_advance 4 (bin_advance 2 b))" "bin_next (le_bytes 2 n) (bin_advance 4 (bin_advance 2 b))"
    using reads(3)[OF g(2,3)] by simp_all
  have j: "fd_binary_get_uint16 (bin_advance 4 (bin_advance 2 b)) = Some (n, bin_advance 2 (bin_advance 4 (bin_advance 2 b)))"
    using reads(2)[OF h(2), of n "[]"] h(3) by simp
  have op: "operation_code fd_boot_split_operation_update_read = 6" by simp
  let ?h = "le_bytes 2 (6 :: u16) @ le_bytes 4 location @ le_bytes 2 n @ [1]"
  have un: "unat (ucast n :: u32) = unat n" by (rule unat_ucast_16_32)
  have lb: "length bytes = unat n" using assms(6) by (simp add: bytes_def)
  have of: "of_nat (length bytes) = (ucast n :: u32)" unfolding lb by (rule of_nat_unat)
  note mh = message_facts[OF small, of ?h, unfolded l]
  have "wr_block (bin_buffer (packet buffer ?h)) (unat (bin_put_index (packet buffer ?h))) bytes =
      Some (bin_buffer (bin_append bytes (packet buffer ?h)))"
    using mh(5,7) lb assms(7) by (simp add: wr_block_def bin_append_def)
  moreover have "(packet buffer ?h)\<lparr>bin_buffer := bin_buffer (bin_append bytes (packet buffer ?h)),
      bin_put_index := bin_put_index (packet buffer ?h) + ucast n\<rparr> = bin_append bytes (packet buffer ?h)"
    by (simp add: bin_append_def of)
  moreover have "bin_append bytes (packet buffer ?h) = packet buffer (read_response location n bytes)"
    using message_append[OF small, of ?h bytes] l lb assms(7) by (simp add: read_response_def)
  moreover obtain m where "fd_boot_split_controller_transmit (packet buffer (read_response location n bytes)) (controller_envelope fd_envelope_type_response k) k =
      (let (result, k) = call_outside (sc_transmit k (wire_frame (read_response location n bytes) (controller_envelope fd_envelope_type_response k) @ [0])) k
       in Some (result, m, k))"
  proof -
    have "length (read_response location n bytes) + length (read_response location n bytes) div 254 + 13 \<le> length buffer"
      using lb assms(7) by (simp add: l read_response_def)
    then show ?thesis
      using controller_transmit_message[of buffer "read_response location n bytes" "controller_envelope fd_envelope_type_response k" k] that l by auto
  qed
  moreover have i: "fd_binary_initialize (take 300 (stack @ replicate 300 0)) 300 = packet buffer []"
    using initialize_message[OF l] by (simp add: buffer_def)
  moreover have "call_outside (sc_get_update_storage k) k = (r, k)" "call_outside (sc_update_read k location (ucast n)) k = (bytes, k)"
    using assms(3,5) un by (simp_all add: call_outside_def bytes_def)
  moreover have "call_outside (sc_transmit k z) k = (True, k\<lparr>sc_outside := sc_outside k @ z\<rparr>)" for z
    using assms(4) by (simp add: call_outside_def)
  ultimately show ?thesis
    using assms(8,9) unfolding fd_boot_split_controller_request_def fd_boot_split_controller_update_read_def bytes_def[symmetric]
    by (simp add: g h j op put del: le_bytes.simps take_append)
qed

section \<open>The link\<close>

text \<open>What the peripheral sends goes into the controller's queue; the controller, which waits for a response, deals with one
  message between two polls of the peripheral, and what it sends arrives.\<close>

definition link_transmit :: "u8 list \<Rightarrow> u8 list controller_state \<Rightarrow> u8 list controller_state" where
  "link_transmit bytes x =
     (case fd_boot_split_controller_received bytes (boot_world x) of None \<Rightarrow> x | Some k \<Rightarrow> x\<lparr>boot_world := k\<rparr>)"

definition link_arrivals :: "u8 list controller_state \<Rightarrow> u8 list \<times> u8 list controller_state" where
  "link_arrivals x =
     (case fd_boot_split_controller_io (fd_binary_initialize (replicate 64 0) 64) x of
        Some (Some _, x') \<Rightarrow> (sc_outside (boot_world x'), x'\<lparr>boot_world := (boot_world x')\<lparr>sc_outside := []\<rparr>\<rparr>)
      | _ \<Rightarrow> ([], x))"

lemma link_answers:
  assumes ready: "controller_ready r file (boot_world x)" and e: "env_type e = fd_envelope_type_request" and body: "length body \<le> 8"
    and serves: "\<And>b k stack. bin_ok b \<Longrightarrow> bin_next body b \<Longrightarrow> sc_get_update_storage k = Pair r \<Longrightarrow>
      sc_transmit k = (\<lambda>bytes y. (True, y @ bytes)) \<Longrightarrow> sc_update_read k = (\<lambda>l n y. (file l (unat n), y)) \<Longrightarrow>
      fd_boot_split_controller_request b stack k =
        Some (k\<lparr>sc_outside := sc_outside k @ wire_frame reply (controller_envelope fd_envelope_type_response k) @ [0]\<rparr>)"
  shows "\<exists>x'. link_arrivals (link_transmit (wire_frame body e @ [0]) x) =
      (wire_frame reply (controller_envelope fd_envelope_type_response (boot_world x)) @ [0], x') \<and>
    controller_ready r file (boot_world x') \<and> sc_system (boot_world x') = sc_system (boot_world x) \<and>
    sc_subsystem (boot_world x') = sc_subsystem (boot_world x)"
proof -
  define k where "k = boot_world x"
  have k: "fifo_inv (sc_fifo k)" "fifo_list (sc_fifo k) = []" "32 \<le> fifo_capacity (sc_fifo k)" "sc_timer k = Some fd_boot_split_controller_timer"
    "sc_get_update_storage k = Pair r" "sc_update_read k = (\<lambda>l n y. (file l (unat n), y))" "sc_transmit k = (\<lambda>bytes y. (True, y @ bytes))"
    "sc_arrivals k = Pair []" "sc_outside k = []"
    using ready by (simp_all add: controller_ready_def k_def)
  have "length (wire_frame body e) \<le> 20" using wire_frame_length(2)[of body e] body by simp
  then have len: "length (fifo_list (sc_fifo k)) + length (wire_frame body e @ [0]) \<le> fifo_capacity (sc_fifo k)" using k(2,3) by simp
  obtain f where f: "fifo_inv f" "fifo_list f = wire_frame body e @ [0]" "fifo_capacity f = fifo_capacity (sc_fifo k)"
      "fd_boot_split_controller_received (wire_frame body e @ [0]) k = Some (k\<lparr>sc_fifo := f\<rparr>)"
    using received_all[OF k(1) len] k(2) by auto
  then have tx: "link_transmit (wire_frame body e @ [0]) x = x\<lparr>boot_world := k\<lparr>sc_fifo := f\<rparr>\<rparr>"
    by (simp add: link_transmit_def k_def)
  have buffer: "length (replicate 64 (0 :: u8)) = 64" by simp
  have body': "length body \<le> 40" using body by simp
  from controller_io_request[OF f(1,2) e buffer body', of "k\<lparr>sc_fifo := f\<rparr>" x] k(4,8)
  obtain f' b m where io: "fifo_inv f'" "fifo_list f' = []" "fifo_capacity f' = fifo_capacity f" "bin_ok b" "bin_next body b"
      "fd_boot_split_controller_io (packet (replicate 64 0) []) (x\<lparr>boot_world := k\<lparr>sc_fifo := f\<rparr>\<rparr>) =
        (case fd_boot_split_controller_request b (boot_stack x) (k\<lparr>sc_fifo := f', sc_duration := 0\<rparr>) of
           None \<Rightarrow> None | Some k' \<Rightarrow> Some (Some (False, m), x\<lparr>boot_world := k'\<rparr>))"
    by auto
  have i: "fd_binary_initialize (replicate 64 0) 64 = packet (replicate 64 0) []" using initialize_message[OF buffer] by simp
  have envelope: "controller_envelope t (k\<lparr>sc_fifo := f', sc_duration := 0\<rparr>) = controller_envelope t k" for t
    by (simp add: controller_envelope_def)
  have "link_arrivals (x\<lparr>boot_world := k\<lparr>sc_fifo := f\<rparr>\<rparr>) =
      (wire_frame reply (controller_envelope fd_envelope_type_response k) @ [0], x\<lparr>boot_world := k\<lparr>sc_fifo := f', sc_duration := 0, sc_outside := []\<rparr>\<rparr>)"
    using serves[OF io(4,5), of "k\<lparr>sc_fifo := f', sc_duration := 0\<rparr>" "boot_stack x"] k(5-7,9)
    by (simp add: link_arrivals_def i io(6) envelope)
  moreover have "controller_ready r file (k\<lparr>sc_fifo := f', sc_duration := 0, sc_outside := []\<rparr>)"
    using io(1-3) f(3) k by (simp add: controller_ready_def)
  ultimately show ?thesis unfolding tx k_def[symmetric] by (intro exI[of _ "x\<lparr>boot_world := k\<lparr>sc_fifo := f', sc_duration := 0, sc_outside := []\<rparr>\<rparr>"]) simp
qed

section \<open>The peripheral asks for the update\<close>

text \<open>A peripheral with nothing to read, at one end of the link.\<close>

definition split_ready ::
  "fd_boot_range_t \<Rightarrow> (u32 \<Rightarrow> nat \<Rightarrow> u8 list) \<Rightarrow> u8 list controller_state fd_boot_split_peripheral_configuration_t \<Rightarrow>
   u8 list controller_state split_state \<Rightarrow> bool" where
  "split_ready r file c s \<longleftrightarrow>
     cf_transmit c = link_transmit \<and> cf_arrivals c = link_arrivals \<and> cf_timer c = Some fd_boot_split_peripheral_timer \<and>
     cf_system c < 256 \<and> cf_subsystem c < 256 \<and>
     fifo_inv (sp_fifo (boot_world s)) \<and> fifo_list (sp_fifo (boot_world s)) = [] \<and> 299 \<le> fifo_capacity (sp_fifo (boot_world s)) \<and>
     controller_ready r file (boot_world (sp_outside (boot_world s))) \<and>
     sc_system (boot_world (sp_outside (boot_world s))) = cf_system c \<and> sc_subsystem (boot_world (sp_outside (boot_world s))) = cf_subsystem c"

text \<open>A message that arrives at once is dispatched.\<close>

lemma io_response:
  assumes c: "cf_arrivals c x = (wire_frame body e @ [0], x')" "cf_timer c = Some fd_boot_split_peripheral_timer" "sp_outside (boot_world s) = x"
    "fifo_inv (sp_fifo (boot_world s))" "fifo_list (sp_fifo (boot_world s)) = []" "299 \<le> fifo_capacity (sp_fifo (boot_world s))"
    and body: "length body + length body div 254 + 13 \<le> 299"
    and e: "env_type e = fd_envelope_type_response" "ucast (env_system e) = cf_system c" "ucast (env_subsystem e) = cf_subsystem c"
  shows "\<exists>f m. fifo_inv f \<and> fifo_list f = [] \<and> fifo_capacity f = fifo_capacity (sp_fifo (boot_world s)) \<and>
    bin_ok m \<and> bin_next body m \<and> bin_get_index m = 0 \<and> bin_size m = of_nat (length body) \<and>
    fd_boot_split_peripheral_io (Suc depth) c s =
      (case fd_boot_split_peripheral_dispatch_response m (envelope_filled body e) (fd_boot_split_peripheral_dispatch_respond c)
              (set_split (\<lambda>p. p\<lparr>sp_outside := x', sp_fifo := f, sp_duration := 0\<rparr>) s) of
         None \<Rightarrow> None
       | Some (ok, _, s') \<Rightarrow> if ok then ret () s' else boot_error s')"
proof -
  define p where "p = boot_world s"
  define buffer where "buffer = take 300 (boot_stack s @ replicate 300 (0 :: u8))"
  have buffer: "length buffer = 300" by (simp add: buffer_def)
  have small: "length buffer < 2 ^ 16" by (simp add: buffer)
  note frame = wire_frame_length[of body e]
  have fits: "length (wire_frame body e) + 1 \<le> 299" using frame(2) body by linarith
  then have room: "length (fifo_list (sp_fifo p)) + length (wire_frame body e @ [0]) \<le> fifo_capacity (sp_fifo p)" using c(5,6) by (simp add: p_def)
  have inv: "fifo_inv (sp_fifo p)" using c(4) by (simp add: p_def)
  obtain f1 where f1: "fifo_inv f1" "fifo_list f1 = wire_frame body e @ [0]" "fifo_capacity f1 = fifo_capacity (sp_fifo p)"
      "\<And>q :: 'a fd_boot_split_peripheral_t. sp_fifo q = sp_fifo p \<Longrightarrow> fd_boot_split_peripheral_received (wire_frame body e @ [0]) q = Some (q\<lparr>sp_fifo := f1\<rparr>)"
    using received_all[OF inv room] c(5) by (auto simp: p_def)
  obtain f2 where f2: "fifo_inv f2" "fifo_list f2 = []" "fifo_capacity f2 = fifo_capacity f1"
      "\<And>q :: 'a fd_boot_split_peripheral_t. sp_fifo q = f1 \<Longrightarrow>
         fd_boot_split_peripheral_poll fd_boot_split_peripheral_timer (packet buffer []) q =
         Some (True, packet buffer (wire_frame body e), q\<lparr>sp_fifo := f2, sp_duration := 0\<rparr>)"
    using peripheral_poll_frame[OF f1(1,2) wire_frame_nonzero small, of "[]"] frame(1) fits buffer by auto
  have len': "length buffer < 7800" "length (wire_frame body e) \<le> length buffer" "length body < 7800" using buffer fits body by simp_all
  from decode_frame[OF len'] obtain m where m: "fd_envelope_decode (packet buffer (wire_frame body e)) no_envelope = Some (True, m, envelope_filled body e)"
    "bin_put_index m = of_nat (length body)" "bin_get_index m = 0"
    "bin_ok (m\<lparr>bin_size := bin_put_index m\<rparr>)" "bin_next body (m\<lparr>bin_size := bin_put_index m\<rparr>)" by metis
  define p' where "p' = p\<lparr>sp_outside := x', sp_fifo := f2, sp_duration := 0\<rparr>"
  have w: "split_wait c fd_boot_split_peripheral_timer (packet buffer []) (p\<lparr>sp_duration := 0\<rparr>) = Some (True, packet buffer (wire_frame body e), p')"
    using f1(4)[of "p\<lparr>sp_duration := 0, sp_outside := x'\<rparr>"] f2(4)[of "p\<lparr>sp_duration := 0, sp_outside := x', sp_fifo := f1\<rparr>"] c(1,3)
    by (subst split_wait.simps) (simp add: p'_def p_def)
  have dispatch: "fd_dispatch_process (split_dispatch c io) m' (envelope_filled body e) s' =
      fd_boot_split_peripheral_dispatch_response m' (envelope_filled body e) (fd_boot_split_peripheral_dispatch_respond c) s'" for io m' s'
    using e by (simp add: fd_dispatch_process_def fd_dispatch_get_item_def split_dispatch_def fd_dispatch_add_process_def fd_dispatch_initialize_def
        fd_dispatch_item_limit_def fd_boot_split_peripheral_dispatch_filter_def envelope_filled_def fd_boot_split_peripheral_dispatch_process_def
        fd_envelope_type_response_def fd_envelope_type_request_def Let_def)
  have i: "fd_binary_initialize (take 300 (boot_stack s @ replicate 300 0)) 300 = packet buffer []"
    using initialize_message[OF buffer] by (simp add: buffer_def)
  have t: "timer_initialize fd_boot_split_peripheral_timer q = q\<lparr>sp_duration := 0\<rparr>"
    "timer_finalize fd_boot_split_peripheral_timer q = q\<lparr>sp_duration := 0\<rparr>" for q :: "'a fd_boot_split_peripheral_t"
    by (simp_all add: fd_boot_split_peripheral_timer_def fd_boot_split_peripheral_timer_initialize_def fd_boot_split_peripheral_timer_finalize_def)
  have "set_split (\<lambda>p. p\<lparr>sp_outside := x', sp_fifo := f2, sp_duration := 0\<rparr>) s = s\<lparr>boot_world := p'\<rparr>"
    by (simp add: set_split_def p'_def p_def)
  moreover have "p'\<lparr>sp_duration := 0\<rparr> = p'" by (simp add: p'_def)
  ultimately have "fd_boot_split_peripheral_io (Suc depth) c s =
      (case fd_boot_split_peripheral_dispatch_response (m\<lparr>bin_size := bin_put_index m\<rparr>) (envelope_filled body e) (fd_boot_split_peripheral_dispatch_respond c)
              (set_split (\<lambda>p. p\<lparr>sp_outside := x', sp_fifo := f2, sp_duration := 0\<rparr>) s) of
         None \<Rightarrow> None
       | Some (ok, _, s') \<Rightarrow> if ok then ret () s' else boot_error s')"
    using w m(1) c(2)
    by (simp add: bnd_def uninitialized_def checked_def ret_def i set_split_def t p_def[symmetric] dispatch Let_def
        split: option.split prod.split del: take_append)
  then show ?thesis using f1(3) f2(1-3) m by (intro exI[of _ f2] exI[of _ "m\<lparr>bin_size := bin_put_index m\<rparr>"]) (simp add: p_def)
qed

lemma take_response:
  assumes m: "bin_ok m" "bin_next (read_response location n bytes) m" "bin_get_index m = 0" "bin_size m = of_nat (length (read_response location n bytes))"
    and n: "length bytes = unat n"
    and s: "sp_operation (boot_world s) = Some k" "k < length (sp_operations (boot_world s))"
      "sp_operations (boot_world s) ! k = update_read_operation location (ucast n) d q"
  shows "\<exists>m'. fd_boot_split_peripheral_dispatch_response m e respond s = Some (True, m', set_split (\<lambda>p. p\<lparr>
    sp_operations := (sp_operations p)[k := update_read_operation location (ucast n) (Some bytes) True], sp_operation := None\<rparr>) s)"
proof -
  have g: "fd_binary_get_uint16 m = Some (6, bin_advance 2 m)" "bin_ok (bin_advance 2 m)" "bin_next (le_bytes 4 location @ le_bytes 2 n @ 1 # bytes) (bin_advance 2 m)"
    using reads(2)[OF m(1), of 6 "le_bytes 4 location @ le_bytes 2 n @ 1 # bytes"] m(2) by (simp_all add: read_response_def)
  have h: "fd_binary_get_uint32 (bin_advance 2 m) = Some (location, bin_advance 4 (bin_advance 2 m))"
    "bin_ok (bin_advance 4 (bin_advance 2 m))" "bin_next (le_bytes 2 n @ 1 # bytes) (bin_advance 4 (bin_advance 2 m))"
    using reads(3)[OF g(2,3)] by simp_all
  have j: "fd_binary_get_uint16 (bin_advance 4 (bin_advance 2 m)) = Some (n, bin_advance 2 (bin_advance 4 (bin_advance 2 m)))"
    "bin_ok (bin_advance 2 (bin_advance 4 (bin_advance 2 m)))" "bin_next (1 # bytes) (bin_advance 2 (bin_advance 4 (bin_advance 2 m)))"
    using reads(2)[OF h(2,3)] by simp_all
  define b where "b = bin_advance 1 (bin_advance 2 (bin_advance 4 (bin_advance 2 m)))"
  have b: "fd_binary_get_uint8 (bin_advance 2 (bin_advance 4 (bin_advance 2 m))) = Some (1, b)" "bin_next bytes b"
    using reads(1)[OF j(2,3)] by (simp_all add: b_def)
  have b9: "b = bin_advance 9 m" by (simp add: b_def bin_advance_advance)
  have un: "unat n < 2 ^ 16" using unsigned_less[of n, where ?'a = nat] by simp
  have idx: "bin_get_index b = 9" "bin_size b = of_nat (9 + unat n)" "bin_buffer b = bin_buffer m"
    using m(3,4) n by (simp_all add: b9 bin_advance_def read_response_def)
  have left: "bin_size b - bin_get_index b = ucast n" using idx(1,2) by simp
  have "rd_block (bin_buffer b) 9 (unat n) = Some bytes"
    using b(2) idx n m(1,4) un unfolding bin_next_def bin_ok_def by (auto simp: rd_block_def read_response_def unat_of_nat)
  then have "rd_block (bin_buffer b) (unat (bin_get_index b)) (unat n) = Some bytes" using idx(1) by simp
  moreover have "live_operation (boot_world s) k = Some (update_read_operation location (ucast n) d q)"
    using s(2,3) by (simp add: live_operation_def rd_def)
  ultimately show ?thesis using g(1) h(1) j(1) b(1) left s(1)
    by (simp add: fd_boot_split_peripheral_dispatch_response_def fd_boot_split_peripheral_update_read_response_def)
qed

lemma take_storage_response:
  assumes m: "bin_ok m" "bin_next (storage_response r) m"
    and s: "sp_operation (boot_world s) = Some k" "k < length (sp_operations (boot_world s))"
      "sp_operations (boot_world s) ! k = get_update_storage_operation d"
  shows "\<exists>m'. fd_boot_split_peripheral_dispatch_response m e respond s = Some (True, m', set_split (\<lambda>p. p\<lparr>
    sp_operations := (sp_operations p)[k := get_update_storage_operation (Some r)], sp_operation := None\<rparr>) s)"
proof -
  have g: "fd_binary_get_uint16 m = Some (5, bin_advance 2 m)" "bin_ok (bin_advance 2 m)"
    "bin_next (le_bytes 4 (range_location r) @ le_bytes 4 (range_length r)) (bin_advance 2 m)"
    using reads(2)[OF m(1), of 5 "le_bytes 4 (range_location r) @ le_bytes 4 (range_length r)"] m(2) by (simp_all add: storage_response_def)
  have h: "fd_binary_get_uint32 (bin_advance 2 m) = Some (range_location r, bin_advance 4 (bin_advance 2 m))"
    "bin_ok (bin_advance 4 (bin_advance 2 m))" "bin_next (le_bytes 4 (range_length r)) (bin_advance 4 (bin_advance 2 m))"
    using reads(3)[OF g(2,3)] by simp_all
  have j: "fd_binary_get_uint32 (bin_advance 4 (bin_advance 2 m)) = Some (range_length r, bin_advance 4 (bin_advance 4 (bin_advance 2 m)))"
    using reads(3)[OF h(2), of "range_length r" "[]"] h(3) by simp
  have "live_operation (boot_world s) k = Some (get_update_storage_operation d)" using s(2,3) by (simp add: live_operation_def rd_def)
  moreover have r: "\<lparr>range_location = range_location r, range_length = range_length r\<rparr> = r" by simp
  ultimately show ?thesis using g(1) h(1) j(1) s(1)
    by (simp add: r fd_boot_split_peripheral_dispatch_response_def fd_boot_split_peripheral_get_update_storage_response_def)
qed

text \<open>The envelope of a request of the peripheral.\<close>

definition split_envelope :: "'x fd_boot_split_peripheral_configuration_t \<Rightarrow> fd_envelope_t" where
  "split_envelope c = no_envelope\<lparr>env_target := ucast (cf_target c), env_source := ucast (cf_source c),
     env_system := ucast (cf_system c), env_subsystem := ucast (cf_subsystem c), env_type := fd_envelope_type_request\<rparr>"

lemma requests_sent:
  "fd_boot_split_peripheral_get_update_storage_request c s = Some (Some (), set_split (\<lambda>p. p\<lparr>sp_outside :=
     cf_transmit c (wire_frame storage_request (split_envelope c) @ [0]) (sp_outside p)\<rparr>) s)"
  "fd_boot_split_peripheral_update_read_request c location n s = Some (Some (), set_split (\<lambda>p. p\<lparr>sp_outside :=
     cf_transmit c (wire_frame (read_request location (ucast n)) (split_envelope c) @ [0]) (sp_outside p)\<rparr>) s)"
proof -
  define buffer where "buffer = take 32 (boot_stack s @ replicate 32 (0 :: u8))"
  have l: "length buffer = 32" by (simp add: buffer_def)
  have small: "length buffer < 2 ^ 16" by (simp add: l)
  note put = put_message[OF small, unfolded l]
  have i: "fd_binary_initialize (take 32 (boot_stack s @ replicate 32 0)) 32 = packet buffer []"
    using initialize_message[OF l] by (simp add: buffer_def)
  note tx = split_transmit_message[of buffer, unfolded l]
  obtain m where "split_transmit c (packet buffer storage_request) (split_envelope c) s =
     Some (True, m, set_split (\<lambda>p. p\<lparr>sp_outside :=
     cf_transmit c (wire_frame storage_request (split_envelope c) @ [0]) (sp_outside p)\<rparr>) s)"
    using tx[of storage_request c _ s] by (auto simp: storage_request_def)
  then show "fd_boot_split_peripheral_get_update_storage_request c s = Some (Some (), set_split (\<lambda>p. p\<lparr>sp_outside :=
     cf_transmit c (wire_frame storage_request (split_envelope c) @ [0]) (sp_outside p)\<rparr>) s)"
    by (simp add: fd_boot_split_peripheral_get_update_storage_request_def split_message_def bnd_def uninitialized_def checked_def ret_def i put
        fd_boot_split_peripheral_tx_def split_envelope_def[symmetric] storage_request_def Let_def del: le_bytes.simps take_append)
  obtain m where "split_transmit c (packet buffer (read_request location (ucast n))) (split_envelope c) s =
     Some (True, m, set_split (\<lambda>p. p\<lparr>sp_outside :=
     cf_transmit c (wire_frame (read_request location (ucast n)) (split_envelope c) @ [0]) (sp_outside p)\<rparr>) s)"
    using tx[of "read_request location (ucast n)" c _ s] by (auto simp: read_request_def)
  then show "fd_boot_split_peripheral_update_read_request c location n s = Some (Some (), set_split (\<lambda>p. p\<lparr>sp_outside :=
     cf_transmit c (wire_frame (read_request location (ucast n)) (split_envelope c) @ [0]) (sp_outside p)\<rparr>) s)"
    by (simp add: fd_boot_split_peripheral_update_read_request_def split_message_def bnd_def uninitialized_def checked_def ret_def i put
        fd_boot_split_peripheral_tx_def split_envelope_def[symmetric] read_request_def Let_def del: le_bytes.simps take_append)
qed

lemma split_readyD:
  assumes "split_ready r file c s"
  shows "cf_transmit c = link_transmit" "cf_arrivals c = link_arrivals" "cf_timer c = Some fd_boot_split_peripheral_timer"
    "fifo_inv (sp_fifo (boot_world s))" "fifo_list (sp_fifo (boot_world s)) = []" "299 \<le> fifo_capacity (sp_fifo (boot_world s))"
    "controller_ready r file (boot_world (sp_outside (boot_world s)))"
    "sc_system (boot_world (sp_outside (boot_world s))) = cf_system c" "sc_subsystem (boot_world (sp_outside (boot_world s))) = cf_subsystem c"
    "ucast (ucast (cf_system c) :: u8) = cf_system c" "ucast (ucast (cf_subsystem c) :: u8) = cf_subsystem c"
proof -
  have u: "ucast (ucast w :: u8) = w" if "w < 256" for w :: u32
  proof -
    have "unat w < 256" using that by (simp add: word_less_nat_alt)
    then have "unat (ucast (ucast w :: u8) :: u32) = unat w" by (simp add: unsigned_ucast_eq unsigned_take_bit_eq take_bit_nat_eq_self)
    then show ?thesis by (rule word_unat_eq_iff[THEN iffD2])
  qed
  show "ucast (ucast (cf_system c) :: u8) = cf_system c" "ucast (ucast (cf_subsystem c) :: u8) = cf_subsystem c"
    using assms u by (simp_all add: split_ready_def)
qed (use assms in \<open>simp_all add: split_ready_def\<close>)

text \<open>Waiting with an operation: the request goes out, the response comes back, and a handler puts it into the operation.\<close>

lemma operation_over_link:
  assumes ready: "split_ready r file c s" and body: "length body \<le> 8" "length reply + length reply div 254 + 13 \<le> 299"
    and request: "\<And>s. request s = Some (Some (), set_split (\<lambda>p. p\<lparr>sp_outside :=
      cf_transmit c (wire_frame body (split_envelope c) @ [0]) (sp_outside p)\<rparr>) s)"
    and serves: "\<And>b k stack. bin_ok b \<Longrightarrow> bin_next body b \<Longrightarrow> sc_get_update_storage k = Pair r \<Longrightarrow>
      sc_transmit k = (\<lambda>bytes y. (True, y @ bytes)) \<Longrightarrow> sc_update_read k = (\<lambda>l n y. (file l (unat n), y)) \<Longrightarrow>
      fd_boot_split_controller_request b stack k =
        Some (k\<lparr>sc_outside := sc_outside k @ wire_frame reply (controller_envelope fd_envelope_type_response k) @ [0]\<rparr>)"
    and takes: "\<And>m e respond (s :: u8 list controller_state split_state) k. bin_ok m \<Longrightarrow> bin_next reply m \<Longrightarrow> bin_get_index m = 0 \<Longrightarrow>
      bin_size m = of_nat (length reply) \<Longrightarrow>
      sp_operation (boot_world s) = Some k \<Longrightarrow> k < length (sp_operations (boot_world s)) \<Longrightarrow> sp_operations (boot_world s) ! k = operation \<Longrightarrow>
      \<exists>m'. fd_boot_split_peripheral_dispatch_response m e respond s =
        Some (True, m', set_split (\<lambda>p. p\<lparr>sp_operations := (sp_operations p)[k := operation'], sp_operation := None\<rparr>) s)"
  shows "\<exists>s'. with_operation operation (bnd (or_error request) (\<lambda>_. fd_boot_split_peripheral_io_nested (fd_boot_split_peripheral_io (Suc depth) c))) s =
      Some (Some ((), operation'), s') \<and> split_ready r file c s' \<and> boot_code s' = boot_code s \<and> boot_stack s' = boot_stack s \<and>
    sp_operation (boot_world s') = None \<and> sp_operations (boot_world s') = sp_operations (boot_world s)"
proof -
  note d = split_readyD[OF ready]
  define n where "n = length (sp_operations (boot_world s))"
  define x where "x = sp_outside (boot_world s)"
  define s1 where "s1 = set_split (\<lambda>p. p\<lparr>sp_operations := sp_operations p @ [operation], sp_operation := Some n,
      sp_outside := link_transmit (wire_frame body (split_envelope c) @ [0]) x\<rparr>) s"
  have "env_type (split_envelope c) = fd_envelope_type_request" by (simp add: split_envelope_def)
  then have "\<exists>x'. link_arrivals (link_transmit (wire_frame body (split_envelope c) @ [0]) x) =
        (wire_frame reply (controller_envelope fd_envelope_type_response (boot_world x)) @ [0], x') \<and> controller_ready r file (boot_world x') \<and>
      sc_system (boot_world x') = sc_system (boot_world x) \<and> sc_subsystem (boot_world x') = sc_subsystem (boot_world x)"
    unfolding x_def by (rule link_answers[OF d(7) _ body(1)]) (rule serves)
  then obtain x' where
    x': "link_arrivals (link_transmit (wire_frame body (split_envelope c) @ [0]) x) =
        (wire_frame reply (controller_envelope fd_envelope_type_response (boot_world x)) @ [0], x')" "controller_ready r file (boot_world x')"
      "sc_system (boot_world x') = sc_system (boot_world x)" "sc_subsystem (boot_world x') = sc_subsystem (boot_world x)"
    by (elim exE conjE) (rule that)
  define e where "e = controller_envelope fd_envelope_type_response (boot_world x)"
  have e: "env_type e = fd_envelope_type_response" "ucast (env_system e) = cf_system c" "ucast (env_subsystem e) = cf_subsystem c"
    using d(8-11) by (simp_all add: e_def controller_envelope_def x_def)
  have s1: "boot_world s1 = (boot_world s)\<lparr>sp_operations := sp_operations (boot_world s) @ [operation], sp_operation := Some n,
      sp_outside := link_transmit (wire_frame body (split_envelope c) @ [0]) x\<rparr>" "boot_code s1 = boot_code s" "boot_stack s1 = boot_stack s"
    by (simp_all add: s1_def set_split_def)
  have arrivals: "cf_arrivals c (link_transmit (wire_frame body (split_envelope c) @ [0]) x) = (wire_frame reply e @ [0], x')"
    using x'(1) d(2) by (simp add: e_def)
  obtain f m where io: "fifo_inv f" "fifo_list f = []" "fifo_capacity f = fifo_capacity (sp_fifo (boot_world s1))"
      "bin_ok m" "bin_next reply m" "bin_get_index m = 0" "bin_size m = of_nat (length reply)"
      "fd_boot_split_peripheral_io (Suc depth) c s1 =
        (case fd_boot_split_peripheral_dispatch_response m (envelope_filled reply e) (fd_boot_split_peripheral_dispatch_respond c)
              (set_split (\<lambda>p. p\<lparr>sp_outside := x', sp_fifo := f, sp_duration := 0\<rparr>) s1) of
         None \<Rightarrow> None
       | Some (ok, _, s') \<Rightarrow> if ok then ret () s' else boot_error s')"
    using io_response[OF arrivals d(3) _ _ _ _ body(2) e, of s1 depth] s1(1) d(4-6) by auto
  define s2 where "s2 = set_split (\<lambda>p. p\<lparr>sp_outside := x', sp_fifo := f, sp_duration := 0\<rparr>) s1"
  have "sp_operation (boot_world s2) = Some n" "n < length (sp_operations (boot_world s2))" "sp_operations (boot_world s2) ! n = operation"
    by (simp_all add: s2_def set_split_def s1(1) n_def)
  from takes[OF io(4-7) this] obtain m' where
    "fd_boot_split_peripheral_dispatch_response m (envelope_filled reply e) (fd_boot_split_peripheral_dispatch_respond c) s2 =
      Some (True, m', set_split (\<lambda>p. p\<lparr>sp_operations := (sp_operations p)[n := operation'], sp_operation := None\<rparr>) s2)" by blast
  then have run: "fd_boot_split_peripheral_io (Suc depth) c s1 =
      Some (Some (), set_split (\<lambda>p. p\<lparr>sp_operations := (sp_operations p)[n := operation'], sp_operation := None\<rparr>) s2)"
    using io(8) by (simp add: s2_def[symmetric] ret_def)
  define s0 where "s0 = set_split (\<lambda>p. p\<lparr>sp_operations := sp_operations p @ [operation], sp_operation := Some n\<rparr>) s"
  define s3 where "s3 = set_split (\<lambda>p. p\<lparr>sp_operations := (sp_operations p)[n := operation'], sp_operation := None\<rparr>) s2"
  define s4 where "s4 = set_split (\<lambda>p. p\<lparr>sp_operations := take n (sp_operations p)\<rparr>) s3"
  have "request s0 = Some (Some (), s1)"
    by (simp add: request s0_def s1_def set_split_def d(1) x_def)
  moreover have "sp_operation (boot_world s3) = None" by (simp add: s3_def set_split_def)
  ultimately have "bnd (or_error request) (\<lambda>_. fd_boot_split_peripheral_io_nested (fd_boot_split_peripheral_io (Suc depth) c)) s0 = Some (Some (), s3)"
    using run by (simp add: bnd_def or_error_def fd_boot_split_peripheral_io_nested_def ret_def s3_def[symmetric]
        del: fd_boot_split_peripheral_io.simps)
  moreover have s3: "sp_operations (boot_world s3) = sp_operations (boot_world s) @ [operation']"
    by (simp add: s3_def s2_def set_split_def s1(1) n_def)
  ultimately have "with_operation operation (bnd (or_error request) (\<lambda>_. fd_boot_split_peripheral_io_nested (fd_boot_split_peripheral_io (Suc depth) c))) s =
      Some (Some ((), operation'), s4)"
    by (simp add: with_operation_def n_def[symmetric] s0_def[symmetric] s4_def[symmetric] Let_def del: fd_boot_split_peripheral_io.simps)
      (simp add: n_def)
  moreover have "split_ready r file c s4"
    using ready x'(2-4) io(1-3) d by (simp add: split_ready_def s4_def s3_def s2_def set_split_def s1(1) x_def)
  moreover have "sp_operations (boot_world s4) = sp_operations (boot_world s)"
    using s3 by (simp add: s4_def set_split_def n_def)
  moreover have "boot_code s4 = boot_code s" "boot_stack s4 = boot_stack s" "sp_operation (boot_world s4) = None"
    by (simp_all add: s4_def s3_def s2_def set_split_def s1)
  ultimately show ?thesis by blast
qed

lemma sint_small: "sint l = uint l" if "unat l < 2 ^ 31" for l :: u32
proof -
  have "uint l < 2 ^ 31" using that unfolding uint_nat by (metis of_nat_less_iff of_nat_numeral of_nat_power)
  then have "signed_take_bit 31 (uint l) = uint l"
    by (metis signed_take_bit_int_eq_self uint_ge_0 order_trans neg_le_0_iff_le zero_le_numeral zero_le_power)
  then show ?thesis by (simp add: sint_uint)
qed

text \<open>C34: Over a link that works the peripheral's reader of the update is the controller's storage: reading up to 256 bytes inside of it,
  below location \<open>2 ^ 31\<close>, returns them, and leaves both ends ready for the next operation. The request, the controller's dispatch, its response, the queues, the
  framing and the nested loop of the peripheral are all on the way.\<close>

theorem fd_boot_split_update_read_over_link:
  assumes "split_ready r file c s" "unat n \<le> 256" "unat location + unat n < 2 ^ 31" "location + n \<le> range_location r + range_length r"
    "length (file location (unat n)) = unat n"
  shows "\<exists>s'. fd_boot_split_peripheral_update_read c (fd_boot_split_peripheral_io (Suc depth) c) location n s = Some (Some (file location (unat n)), s') \<and>
    split_ready r file c s' \<and> boot_code s' = boot_code s"
proof -
  have n: "unat (ucast n :: u16) = unat n" using assms(2) by (simp add: unsigned_ucast_eq take_bit_nat_eq_self)
  have nn: "ucast (ucast n :: u16) = n" by (rule word_unat_eq_iff[THEN iffD2]) (simp only: unat_ucast_16_32 n)
  have "sint location = uint location" by (rule sint_small) (use assms(3) in linarith)
  moreover have "unat location + unat (ucast n :: u16) < 2 ^ 31" using assms(3) n by simp
  then have "int (unat location + unat (ucast n :: u16)) < 2 ^ 31" by (metis of_nat_less_iff of_nat_numeral of_nat_power)
  ultimately have over: "sint location + uint (ucast n :: u16) < 2 ^ 31" by (simp only: uint_nat of_nat_add)
  let ?bytes = "file location (unat (ucast n :: u16))"
  have l: "length ?bytes = unat (ucast n :: u16)" using assms(5) n by simp
  have reply: "length (read_response location (ucast n) ?bytes) + length (read_response location (ucast n) ?bytes) div 254 + 13 \<le> 299"
    using l n assms(2) by (simp add: read_response_def)
  have small: "unat (ucast n :: u16) \<le> 256" using n assms(2) by simp
  have inside: "location + ucast (ucast n :: u16) \<le> range_location r + range_length r" using assms(4) nn by simp
  have "\<exists>s'. with_operation (update_read_operation location n None False)
        (bnd (or_error (fd_boot_split_peripheral_update_read_request c location n)) (\<lambda>_. fd_boot_split_peripheral_io_nested (fd_boot_split_peripheral_io (Suc depth) c))) s =
      Some (Some ((), update_read_operation location n (Some ?bytes) True), s') \<and> split_ready r file c s' \<and> boot_code s' = boot_code s \<and>
    boot_stack s' = boot_stack s \<and> sp_operation (boot_world s') = None \<and> sp_operations (boot_world s') = sp_operations (boot_world s)"
  proof (rule operation_over_link[OF assms(1) _ reply])
    show "length (read_request location (ucast n)) \<le> 8" by (simp add: read_request_def)
    show "fd_boot_split_peripheral_update_read_request c location n s = Some (Some (), set_split (\<lambda>p. p\<lparr>sp_outside :=
      cf_transmit c (wire_frame (read_request location (ucast n)) (split_envelope c) @ [0]) (sp_outside p)\<rparr>) s)" for s
      by (rule requests_sent(2))
    show "fd_boot_split_controller_request b stack k = Some (k\<lparr>sc_outside := sc_outside k @
        wire_frame (read_response location (ucast n) ?bytes) (controller_envelope fd_envelope_type_response k) @ [0]\<rparr>)"
      if "bin_ok b" "bin_next (read_request location (ucast n)) b" "sc_get_update_storage k = Pair r" "sc_transmit k = (\<lambda>bytes y. (True, y @ bytes))"
        "sc_update_read k = (\<lambda>l n y. (file l (unat n), y))" for b k stack
      by (rule controller_serves_read[OF that l small over inside])
    show "\<exists>m'. fd_boot_split_peripheral_dispatch_response m e respond s = Some (True, m', set_split (\<lambda>p. p\<lparr>
        sp_operations := (sp_operations p)[k := update_read_operation location n (Some ?bytes) True], sp_operation := None\<rparr>) s)"
      if "bin_ok m" "bin_next (read_response location (ucast n) ?bytes) m" "bin_get_index m = 0" "bin_size m = of_nat (length (read_response location (ucast n) ?bytes))"
        "sp_operation (boot_world s) = Some k" "k < length (sp_operations (boot_world s))"
        "sp_operations (boot_world s) ! k = update_read_operation location n None False"
      for m e respond k and s :: "u8 list controller_state split_state"
      using take_response[OF that(1-4) l that(5,6), unfolded nn, OF that(7)] .
  qed
  then show ?thesis unfolding fd_boot_split_peripheral_update_read_def by (auto simp: bnd_def checked_def ret_def n)
qed

text \<open>The same for the range of the update storage.\<close>

theorem fd_boot_split_get_update_storage_over_link:
  assumes "split_ready r file c s"
  shows "\<exists>s'. fd_boot_split_peripheral_get_update_storage c (fd_boot_split_peripheral_io (Suc depth) c) s = Some (Some r, s') \<and>
    split_ready r file c s' \<and> boot_code s' = boot_code s"
proof -
  have "\<exists>s'. with_operation (get_update_storage_operation None)
        (bnd (or_error (fd_boot_split_peripheral_get_update_storage_request c)) (\<lambda>_. fd_boot_split_peripheral_io_nested (fd_boot_split_peripheral_io (Suc depth) c))) s =
      Some (Some ((), get_update_storage_operation (Some r)), s') \<and> split_ready r file c s' \<and> boot_code s' = boot_code s \<and>
    boot_stack s' = boot_stack s \<and> sp_operation (boot_world s') = None \<and> sp_operations (boot_world s') = sp_operations (boot_world s)"
    by (rule operation_over_link[OF assms, of storage_request "storage_response r"])
      (simp_all add: storage_request_def[THEN arg_cong[of _ _ length]] storage_response_def[THEN arg_cong[of _ _ length]] requests_sent(1)
        controller_serves_storage take_storage_response)
  then show ?thesis unfolding fd_boot_split_peripheral_get_update_storage_def by (auto simp: bnd_def ret_def)
qed

section \<open>What goes wrong\<close>

text \<open>\<open>fd_boot_split_peripheral_has_first_message\<close> says yes whatever there is: the message it decodes has a size but nothing
  written, and it is the failure to decode it that is taken for a message.\<close>

theorem fd_boot_split_has_first_message_always: "fd_boot_split_peripheral_has_first_message p = Some (True, p)"
proof -
  have "fd_cobs_decode bs 0 = Some (0, bs)" for bs by (simp add: fd_cobs_decode_def cobs_decode_loop.simps)
  then show ?thesis
    by (simp add: fd_boot_split_peripheral_has_first_message_def fd_envelope_decode_def fd_binary_initialize_def fd_envelope_size_def)
qed

text \<open>The encoder writes at least one byte more than it reads.\<close>

lemma cobs_step_grows:
  assumes "cobs_step len s = Some s'"
  shows "cs_dst s < cs_dst s' \<and> length (cs_data s') = length (cs_data s) \<and>
    (length (cs_data s) \<le> cs_dst s \<longrightarrow> length (cs_data s) \<le> cs_code_pointer s')"
proof -
  have refill: "cs_dst t' = cs_dst t \<and> cs_data t' = cs_data t \<and> cs_code_pointer t' = cs_code_pointer t" if "cobs_refill len t = Some t'" for t t'
    using that by (auto simp: cobs_refill_def split: if_splits Option.bind_splits)
  have emit: "cs_dst t < cs_dst t' \<and> length (cs_data t') = length (cs_data t) \<and>
      (length (cs_data t) \<le> cs_dst t \<longrightarrow> length (cs_data t) \<le> cs_code_pointer t')" if "cobs_emit len b t = Some t'" for b t t'
    using that by (auto simp: cobs_emit_def split: if_splits Option.bind_splits dest!: wr_SomeD)
  obtain b t u where "cobs_refill len t = Some u" "cobs_emit len b u = Some s'" "cs_dst t = cs_dst s" "cs_data t = cs_data s"
    using assms by (auto simp: cobs_step_def Let_def split: Option.bind_splits)
  then show ?thesis using refill emit by fastforce
qed

lemma cobs_loop_overruns:
  "cobs_loop len (Suc n) s = Some s' \<Longrightarrow> length (cs_data s) \<le> cs_dst s + n \<Longrightarrow>
    length (cs_data s') = length (cs_data s) \<and> length (cs_data s) \<le> cs_code_pointer s'"
proof (induction n arbitrary: s)
  case 0
  then show ?case using cobs_step_grows[of len s s'] by (auto split: Option.bind_splits)
next
  case (Suc n)
  obtain s1 where s1: "cobs_step len s = Some s1" "cobs_loop len (Suc n) s1 = Some s'"
    using Suc.prems(1) by (auto simp del: cobs_loop.simps(2) simp: cobs_loop.simps(2)[of len "Suc n"] split: Option.bind_splits)
  show ?case using Suc.IH[OF s1(2)] cobs_step_grows[OF s1(1)] Suc.prems(2) by fastforce
qed

lemma cobs_encode_overruns: "length data \<le> n \<Longrightarrow> 0 < n \<Longrightarrow> fd_cobs_encode data n sz buffer buffer_size = None"
proof (rule ccontr)
  assume n: "length data \<le> n" "0 < n" and "fd_cobs_encode data n sz buffer buffer_size \<noteq> None"
  then obtain s s' data' where s: "cobs_loop n n s = Some s'" "cs_data s = data" "cs_dst s = 1" "wr (cs_data s') (cs_code_pointer s') (cs_code s') = Some data'"
    by (auto simp: fd_cobs_encode_def Let_def split: Option.bind_splits)
  obtain k where k: "n = Suc k" using n(2) by (cases n) auto
  from cobs_loop_overruns[of n k s s'] s(1-3) n(1) k have "length (cs_data s') \<le> cs_code_pointer s'" by simp
  then show False using s(4) by (auto dest: wr_SomeD)
qed

text \<open>Once a message is full nothing more goes in, and encoding it overruns the array.\<close>

definition message_full :: "u8 list \<Rightarrow> u8 list \<Rightarrow> fd_binary_t" where
  "message_full buffer body = bin_error fd_binary_error_overflow (packet buffer body)"

lemma full_facts:
  assumes small: "length buffer < 2 ^ 16" and full: "length body = length buffer"
  shows "bin_ok (message_full buffer body)" "bin_room (message_full buffer body) = 0" "unat (bin_put_index (message_full buffer body)) = length buffer"
  "length (bin_buffer (message_full buffer body)) = length buffer" "unat (bin_size (message_full buffer body)) = length buffer"
  using message_facts[OF small, of body] full by (simp_all add: message_full_def)

lemma put_full:
  assumes small: "length buffer < 2 ^ 16" and full: "length body = length buffer"
  shows
  "fd_binary_put_uint8 (message_full buffer body) v8 = Some (message_full buffer body)"
  "fd_binary_put_uint16 (message_full buffer body) v16 = Some (message_full buffer body)"
  "fd_binary_put_uint32 (message_full buffer body) v32 = Some (message_full buffer body)"
  using put_specs(1,2,4)[OF full_facts(1)[OF assms]] full_facts(2)[OF assms] by (simp_all add: bin_put_whole_def message_full_def bin_error_idem)

lemma put_bytes_full:
  assumes small: "length buffer < 2 ^ 16" and full: "length body = length buffer"
    and "bs \<noteq> []" "length bs < 2 ^ 16"
  shows "fd_binary_put_bytes (packet buffer body) bs = Some (message_full buffer body)"
  using put_bytes_spec[of "packet buffer body" bs] message_facts[OF small, of body] assms by (simp add: bin_put_whole_def message_full_def)

lemma encode_full:
  assumes small: "length buffer < 2 ^ 16" and full: "length body = length buffer"
    and "0 < length buffer"
  shows "fd_envelope_encode (message_full buffer body) e = None"
proof -
  have "fd_cobs_encode (bin_buffer (message_full buffer body)) (unat (bin_put_index (message_full buffer body))) sz b n = None" for sz b n
    using cobs_encode_overruns full_facts(3,4)[OF small full] assms(3) by simp
  then show ?thesis by (simp add: fd_envelope_encode_def put_full[OF small full] Let_def bind_eq_None_conv split: Option.bind_splits)
qed

text \<open>C37: Reporting a valid update overruns an array: the version, length, hashes and flags fill the 64 bytes of the response, the
  initialization vector does not fit, nor does the trailer, and what is there does not fit its framing. The handler of
  \<open>get_update_metadata\<close> writes past the end of its local array for every valid update.\<close>

theorem fd_boot_split_update_metadata_overruns:
  assumes "fd_boot_get_update_metadata i (s\<lparr>boot_code := 0\<rparr>) = Some (Some (True, result), s')" "up_is_valid result"
    "length (em_hash (um_executable_metadata (up_metadata result))) = 20" "length (um_hash (up_metadata result)) = 20"
    "length (um_initialization_vector (up_metadata result)) = 16"
  shows "fd_boot_split_peripheral_get_update_metadata i message envelope (fd_boot_split_peripheral_dispatch_respond c) s = None"
proof -
  define buffer where "buffer = take 64 (boot_stack s' @ replicate 64 (0 :: u8))"
  have l: "length buffer = 64" by (simp add: buffer_def)
  have small: "length buffer < 2 ^ 16" by (simp add: l)
  note put = put_message[OF small, unfolded l]
  have i: "fd_binary_initialize (take 64 (boot_stack s' @ replicate 64 0)) 64 = packet buffer []"
    using initialize_message[OF l] by (simp add: buffer_def)
  define md where "md = up_metadata result"
  define v where "v = em_version (um_executable_metadata md)"
  have len: "length (em_hash (um_executable_metadata md)) = 20" "length (um_hash md) = 20" "length (um_initialization_vector md) = 16"
    using assms(3-5) by (simp_all add: md_def)
  define body where "body = le_bytes 2 (2 :: u16) @ [1] @ [1] @ le_bytes 4 (version_major v) @ le_bytes 4 (version_minor v) @ le_bytes 4 (version_patch v) @
    le_bytes 4 (em_length (um_executable_metadata md)) @ em_hash (um_executable_metadata md) @ um_hash md @ le_bytes 4 (um_flags md)"
  have full: "length body = length buffer" using len by (simp add: body_def l)
  have iv: "fd_binary_put_bytes (packet buffer body) (um_initialization_vector md) = Some (message_full buffer body)"
    by (rule put_bytes_full[OF small full]) (use len in auto)
  have send: "split_transmit c (message_full buffer body) e t = None" for e t
    using encode_full[OF small full] l by (simp add: split_transmit_def)
  show ?thesis
    using assms(1,2) len iv send
    by (simp add: fd_boot_split_peripheral_get_update_metadata_def respond_with_def local_error_def success_of_def bnd_def split_message_def
        uninitialized_def checked_def ret_def i put put_executable_metadata_def put_version_def md_def[symmetric] v_def[symmetric]
        fd_boot_split_peripheral_dispatch_respond_def body_def Let_def del: le_bytes.simps take_append)
qed

text \<open>A link on which nothing arrives.\<close>

definition split_silent :: "'x fd_boot_split_peripheral_configuration_t \<Rightarrow> 'x split_state \<Rightarrow> bool" where
  "split_silent c s \<longleftrightarrow> (\<forall>x. cf_arrivals c x = ([], x)) \<and> cf_timer c = Some fd_boot_split_peripheral_timer \<and>
     fifo_inv (sp_fifo (boot_world s)) \<and> fifo_list (sp_fifo (boot_world s)) = []"

lemma split_wait_ticks:
  assumes "\<And>x. cf_arrivals c x = ([], tick x)" "fifo_inv (sp_fifo p)" "fifo_list (sp_fifo p) = []" "unat (sp_duration p) + k = 100001"
  shows "split_wait c fd_boot_split_peripheral_timer m p =
    Some (False, m, p\<lparr>sp_duration := 100001, sp_outside := (tick ^^ Suc k) (sp_outside p)\<rparr>)"
  using assms(2-4)
proof (induction k arbitrary: p)
  case 0
  have poll: "fd_boot_split_peripheral_poll fd_boot_split_peripheral_timer m (p\<lparr>sp_outside := x\<rparr>) = Some (False, m, p\<lparr>sp_outside := x\<rparr>)" for x
    using fifo_queue.get_none[OF 0(1,2)] by (subst fd_boot_split_peripheral_poll.simps) simp
  have d: "sp_duration p = 100001" using 0(3) by (intro word_unat_eq_iff[THEN iffD2]) simp
  then have "100000 < sp_duration p" "p\<lparr>sp_duration := 100001, sp_outside := x\<rparr> = p\<lparr>sp_outside := x\<rparr>" for x by simp_all
  then show ?case using poll assms(1)
    by (subst split_wait.simps) (simp add: fd_boot_split_peripheral_timer_def fd_boot_split_peripheral_timer_has_timed_out_def
        fd_boot_split_peripheral_timeout_def)
next
  case (Suc k)
  let ?p = "p\<lparr>sp_outside := tick (sp_outside p)\<rparr>"
  have poll: "fd_boot_split_peripheral_poll fd_boot_split_peripheral_timer m ?p = Some (False, m, ?p)"
    using fifo_queue.get_none[OF Suc.prems(1,2)] by (subst fd_boot_split_peripheral_poll.simps) simp
  have d: "\<not> sp_duration p > 100000" using Suc.prems(3) by (simp add: word_less_nat_alt)
  have "unat (sp_duration p + 1) = unat (sp_duration p) + 1" using Suc.prems(3) by (subst u32_add_no_wrap) simp_all
  then have "split_wait c fd_boot_split_peripheral_timer m (?p\<lparr>sp_duration := sp_duration p + 1\<rparr>) =
      Some (False, m, p\<lparr>sp_duration := 100001, sp_outside := (tick ^^ Suc k) (tick (sp_outside p))\<rparr>)"
    using Suc.IH[of "?p\<lparr>sp_duration := sp_duration p + 1\<rparr>"] Suc.prems by simp
  moreover have "(tick ^^ Suc k) (tick (sp_outside p)) = (tick ^^ Suc (Suc k)) (sp_outside p)"
    by (simp only: funpow_Suc_right o_apply)
  ultimately show ?case using poll assms(1) d
    by (subst split_wait.simps) (simp add: fd_boot_split_peripheral_timer_def fd_boot_split_peripheral_timer_has_timed_out_def
        fd_boot_split_peripheral_timeout_def del: funpow.simps)
qed

lemma io_ticks:
  assumes "\<And>x. cf_arrivals c x = ([], tick x)" "cf_timer c = Some fd_boot_split_peripheral_timer"
    "fifo_inv (sp_fifo (boot_world s))" "fifo_list (sp_fifo (boot_world s)) = []"
  shows "fd_boot_split_peripheral_io (Suc depth) c s =
    Some (None, set_split (\<lambda>p. p\<lparr>sp_duration := 0, sp_outside := (tick ^^ 100002) (sp_outside p)\<rparr>) (s\<lparr>boot_code := fd_boot_error_timeout\<rparr>))"
proof -
  have n: "Suc 100001 = 100002" by simp
  have w: "split_wait c fd_boot_split_peripheral_timer m ((boot_world s)\<lparr>sp_duration := 0\<rparr>) =
      Some (False, m, (boot_world s)\<lparr>sp_duration := 100001, sp_outside := (tick ^^ 100002) (sp_outside (boot_world s))\<rparr>)" for m
    using split_wait_ticks[of c tick "(boot_world s)\<lparr>sp_duration := 0\<rparr>" 100001 m, OF assms(1)] assms(3,4) unfolding n by simp
  have t: "timer_initialize fd_boot_split_peripheral_timer p = p\<lparr>sp_duration := 0\<rparr>"
    "timer_finalize fd_boot_split_peripheral_timer p = p\<lparr>sp_duration := 0\<rparr>" for p :: "'a fd_boot_split_peripheral_t"
    by (simp_all add: fd_boot_split_peripheral_timer_def fd_boot_split_peripheral_timer_initialize_def fd_boot_split_peripheral_timer_finalize_def)
  show ?thesis using assms(2) w
    by (simp add: bnd_def uninitialized_def checked_def ret_def fail_def set_split_def t fd_boot_set_error_def)
qed

lemma io_times_out:
  assumes "split_silent c s"
  shows "fd_boot_split_peripheral_io (Suc depth) c s =
    Some (None, set_split (\<lambda>p. p\<lparr>sp_duration := 0\<rparr>) (s\<lparr>boot_code := fd_boot_error_timeout\<rparr>))"
  using io_ticks[of c id s depth] assms by (simp add: split_silent_def set_split_def del: fd_boot_split_peripheral_io.simps)

text \<open>C35: On a link on which nothing arrives the wait ends: the function that waits for a message polls the link 100002 times,
  returns \<open>false\<close> with the error code of a timeout, and nothing else has changed. The receive FIFO is empty at the start, and the
  timer is the default one, which counts polls up to the limit of 100000; \<open>tick\<close> is what one poll that receives nothing does
  outside, so that its power counts the polls.\<close>

theorem fd_boot_split_io_times_out:
  assumes "\<forall>x. cf_arrivals c x = ([], tick x)" "cf_timer c = Some fd_boot_split_peripheral_timer"
    "fifo_inv (sp_fifo (boot_world s))" "fifo_list (sp_fifo (boot_world s)) = []"
  shows "fd_boot_split_peripheral_io (Suc depth) c s =
    Some (None, s\<lparr>boot_code := 2, boot_world := (boot_world s)\<lparr>sp_duration := 0, sp_outside := (tick ^^ 100002) (sp_outside (boot_world s))\<rparr>\<rparr>)"
  using io_ticks[of c tick s depth] assms by (simp add: set_split_def fd_boot_error_timeout_def del: fd_boot_split_peripheral_io.simps)

text \<open>C36: A response that comes after the timeout is undefined behaviour: \<open>operation\<close> still points to the local variable of the function that
  has returned, and the handler of the response writes through it.\<close>

theorem fd_boot_split_late_response_dangles:
  assumes silent: "split_silent c s" and m: "bin_ok m" "bin_next (read_response location' n' bytes) m"
  shows "\<exists>s'. fd_boot_split_peripheral_update_read c (fd_boot_split_peripheral_io (Suc depth) c) location n s = Some (None, s') \<and>
    boot_code s' = fd_boot_error_timeout \<and> fd_boot_split_peripheral_dispatch_response m e respond s' = None"
proof -
  define k where "k = length (sp_operations (boot_world s))"
  define s0 where "s0 = set_split (\<lambda>p. p\<lparr>sp_operations := sp_operations p @ [update_read_operation location n None False], sp_operation := Some k\<rparr>) s"
  define s1 where "s1 = set_split (\<lambda>p. p\<lparr>sp_outside :=
     cf_transmit c (wire_frame (read_request location (ucast n)) (split_envelope c) @ [0]) (sp_outside p)\<rparr>) s0"
  define s2 where "s2 = set_split (\<lambda>p. p\<lparr>sp_duration := 0\<rparr>) (s1\<lparr>boot_code := fd_boot_error_timeout\<rparr>)"
  have "split_silent c s1" using silent by (simp add: split_silent_def s1_def s0_def set_split_def)
  note io = io_times_out[OF this, of depth, folded s2_def]
  have run: "bnd (or_error (fd_boot_split_peripheral_update_read_request c location n)) (\<lambda>_. fd_boot_split_peripheral_io_nested (fd_boot_split_peripheral_io (Suc depth) c)) s0 =
      Some (None, s2)"
    using requests_sent(2)[of c location n s0, folded s1_def] io
    by (simp add: bnd_def or_error_def fd_boot_split_peripheral_io_nested_def del: fd_boot_split_peripheral_io.simps)
  define s3 where "s3 = set_split (\<lambda>p. p\<lparr>sp_operations := take k (sp_operations p)\<rparr>) s2"
  have "fd_boot_split_peripheral_update_read c (fd_boot_split_peripheral_io (Suc depth) c) location n s = Some (None, s3)"
    using run by (simp add: fd_boot_split_peripheral_update_read_def bnd_def[of "with_operation _ _"] with_operation_def k_def[symmetric]
        s0_def[symmetric] s3_def[symmetric] Let_def del: fd_boot_split_peripheral_io.simps)
  moreover have "sp_operation (boot_world s3) = Some k" "length (sp_operations (boot_world s3)) = k" "boot_code s3 = fd_boot_error_timeout"
    by (simp_all add: s3_def s2_def s1_def s0_def set_split_def k_def)
  moreover have "fd_binary_get_uint16 m = Some (6, bin_advance 2 m)"
    using reads(2)[OF m(1), of 6 "le_bytes 4 location' @ le_bytes 2 n' @ 1 # bytes"] m(2) by (simp add: read_response_def)
  ultimately show ?thesis
    by (intro exI[of _ s3]) (simp add: fd_boot_split_peripheral_dispatch_response_def fd_boot_split_peripheral_update_read_response_def live_operation_def rd_def)
qed

text \<open>The controller trusts the length that it is asked for: for more than 291 bytes inside of the update storage its callback writes past the
  end of the array for the response.\<close>

theorem fd_boot_split_controller_read_overruns:
  assumes "bin_ok b" "bin_next (read_request location n) b" "sc_get_update_storage k = Pair r" "length (fst (sc_update_read k location (ucast n) (sc_outside k))) = unat n"
    "291 < unat n" "location + ucast n \<le> range_location r + range_length r"
  shows "fd_boot_split_controller_request b stack k = None"
proof -
  define buffer where "buffer = take 300 (stack @ replicate 300 (0 :: u8))"
  have l: "length buffer = 300" by (simp add: buffer_def)
  have small: "length buffer < 2 ^ 16" by (simp add: l)
  note put = put_message[OF small, unfolded l]
  have g: "fd_binary_get_uint16 b = Some (6, bin_advance 2 b)" "bin_ok (bin_advance 2 b)" "bin_next (le_bytes 4 location @ le_bytes 2 n) (bin_advance 2 b)"
    using reads(2)[OF assms(1), of 6 "le_bytes 4 location @ le_bytes 2 n"] assms(2) by (simp_all add: read_request_def)
  have h: "fd_binary_get_uint32 (bin_advance 2 b) = Some (location, bin_advance 4 (bin_advance 2 b))"
    "bin_ok (bin_advance 4 (bin_advance 2 b))" "bin_next (le_bytes 2 n) (bin_advance 4 (bin_advance 2 b))"
    using reads(3)[OF g(2,3)] by simp_all
  have j: "fd_binary_get_uint16 (bin_advance 4 (bin_advance 2 b)) = Some (n, bin_advance 2 (bin_advance 4 (bin_advance 2 b)))"
    using reads(2)[OF h(2), of n "[]"] h(3) by simp
  have op: "operation_code fd_boot_split_operation_update_read = 6" by simp
  let ?h = "le_bytes 2 (6 :: u16) @ le_bytes 4 location @ le_bytes 2 n @ [1]"
  obtain bytes y where y: "sc_update_read k location (ucast n) (sc_outside k) = (bytes, y)" by fastforce
  then have "length bytes = unat n" using assms(4) by simp
  then have "wr_block (bin_buffer (packet buffer ?h)) (unat (bin_put_index (packet buffer ?h))) bytes = None"
    using message_facts(5,7)[OF small, of ?h, unfolded l] assms(5) by (simp add: wr_block_def)
  moreover have i: "fd_binary_initialize (take 300 (stack @ replicate 300 0)) 300 = packet buffer []"
    using initialize_message[OF l] by (simp add: buffer_def)
  moreover have "call_outside (sc_get_update_storage k) k = (r, k)" "call_outside (sc_update_read k location (ucast n)) k = (bytes, k\<lparr>sc_outside := y\<rparr>)"
    using assms(3) y by (simp_all add: call_outside_def)
  ultimately show ?thesis
    using assms(6) unfolding fd_boot_split_controller_request_def fd_boot_split_controller_update_read_def
    by (simp add: g h j op put del: le_bytes.simps take_append)
qed

section \<open>Concrete instances\<close>

definition instance_controller :: "u8 list fd_boot_split_controller_t" where
  "instance_controller =
     \<lparr>sc_target = 0, sc_source = 0, sc_system = 0, sc_subsystem = 0,
      sc_get_update_storage = Pair \<lparr>range_location = 0, range_length = 4352\<rparr>,
      sc_update_read = (\<lambda>l n y. (replicate (unat n) 7, y)), sc_progress = (\<lambda>_ y. y), sc_transmit = (\<lambda>bytes y. (True, y @ bytes)),
      sc_timer = Some fd_boot_split_controller_timer, sc_duration = 0, sc_poll = None,
      sc_fifo = fd_fifo_initialize (replicate 128 0) 128, sc_outside = [], sc_arrivals = Pair [], sc_log = []\<rparr>"

definition no_update_interface :: "'w fd_boot_update_interface_t" where
  "no_update_interface =
     \<lparr>bi_info = \<lparr>get_executable_storage = fail, get_executable = fail, get_update_storage = fail, get_decryption = fail\<rparr>,
      bi_progress = (\<lambda>_ _ w. w), bi_feed = (\<lambda>w. w),
      bi_hash = \<lparr>hash_initialize = ret, hash_update = (\<lambda>c _. ret c), hash_finalize = (\<lambda>c. ret (replicate 20 0, c))\<rparr>,
      bi_decrypt = \<lparr>decrypt_initialize = (\<lambda>c _ _. ret c), decrypt_update = (\<lambda>c d. ret (c, d)), decrypt_finalize = ret\<rparr>,
      bi_executable_reader = \<lparr>reader_context = (), reader_read = (\<lambda>_ _ _. fail)\<rparr>,
      bi_executable_flasher = \<lparr>flasher_erase = (\<lambda>_ _ _. fail), flasher_write = (\<lambda>_ _. fail), flasher_finalize = fail\<rparr>,
      bi_update_reader = \<lparr>reader_context = (), reader_read = (\<lambda>_ _ _. fail)\<rparr>,
      bi_action = \<lparr>can_upgrade = (\<lambda>_ _. True), can_downgrade = (\<lambda>_ _. False), can_install = (\<lambda>_. True)\<rparr>,
      bi_executor = \<lparr>executor_cleanup = fail, executor_start = (\<lambda>_. fail)\<rparr>\<rparr>"

definition instance_configuration :: "('x \<Rightarrow> u8 list \<times> 'x) \<Rightarrow> (u8 list \<Rightarrow> 'x \<Rightarrow> 'x) \<Rightarrow> 'x fd_boot_split_peripheral_configuration_t" where
  "instance_configuration arrivals tx = fd_boot_split_peripheral_set_configuration_defaults
     \<lparr>cf_target = 0, cf_source = 0, cf_system = 0, cf_subsystem = 0,
      cf_version = \<lparr>version_major = 0, version_minor = 0, version_patch = 0\<rparr>, cf_identifier = None,
      cf_transmit = tx, cf_aftercare = None, cf_timer = None, cf_return_on_error = False,
      cf_update_interface = no_update_interface, cf_arrivals = arrivals\<rparr>"

lemma instance_configuration_facts:
  "cf_transmit (instance_configuration a t) = t" "cf_arrivals (instance_configuration a t) = a"
  "cf_timer (instance_configuration a t) = Some fd_boot_split_peripheral_timer" "cf_system (instance_configuration a t) = 0"
  "cf_subsystem (instance_configuration a t) = 0"
  by (simp_all add: instance_configuration_def fd_boot_split_peripheral_set_configuration_defaults_def Let_def)

definition instance_split :: "'x \<Rightarrow> 'x split_state" where
  "instance_split x = \<lparr>boot_code = 0, boot_stack = [], boot_world = fd_boot_split_peripheral_initialize x\<rparr>"

lemma instance_ready:
  "split_ready \<lparr>range_location = 0, range_length = 4352\<rparr> (\<lambda>_ n. replicate n 7) (instance_configuration link_arrivals link_transmit)
     (instance_split \<lparr>boot_code = 0, boot_stack = [], boot_world = instance_controller\<rparr>)"
  by (simp add: split_ready_def instance_configuration_facts instance_split_def fd_boot_split_peripheral_initialize_def
      controller_ready_def instance_controller_def fifo_inv_initialize)

lemma instance_silent: "split_silent (instance_configuration (Pair []) (\<lambda>_ x. x)) (instance_split ())"
  by (simp add: split_silent_def instance_configuration_facts instance_split_def fd_boot_split_peripheral_initialize_def fifo_inv_initialize)

lemma instance_read_request:
  "bin_ok (fd_binary_initialize (read_request l n) 8)" "bin_next (read_request l n) (fd_binary_initialize (read_request l n) 8)"
  by (simp_all add: bin_ok_def bin_next_def fd_binary_initialize_def read_request_def)

lemma instance_read_response:
  "bin_ok (fd_binary_initialize (read_response l n [7]) 10)" "bin_next (read_response l n [7]) (fd_binary_initialize (read_response l n [7]) 10)"
  by (simp_all add: bin_ok_def bin_next_def fd_binary_initialize_def read_response_def)

text \<open>A valid update of 192 bytes, under a hash that is always zero.\<close>

definition instance_update :: "u8 list" where
  "instance_update = [0x1e, 0xda, 0x09, 0xab, 1, 0, 0, 0, 1, 0, 0, 0, 2, 0, 0, 0, 3, 0, 0, 0] @ replicate 168 0 @ [0x0d, 0xe0, 0x1e, 0xda]"

definition instance_update_interface :: "unit fd_boot_split_peripheral_t fd_boot_update_interface_t" where
  "instance_update_interface = no_update_interface\<lparr>
     bi_info := (bi_info no_update_interface)\<lparr>get_update_storage := ret \<lparr>range_location = 0, range_length = 192\<rparr>\<rparr>,
     bi_update_reader := \<lparr>reader_context = (), reader_read = (\<lambda>_ l n. ret ((), take (unat n) (drop (unat l) instance_update)))\<rparr>\<rparr>"

lemma instance_update_valid:
  "\<exists>result s'. fd_boot_get_update_metadata instance_update_interface ((instance_split ())\<lparr>boot_code := 0\<rparr>) = Some (Some (True, result), s') \<and>
     up_is_valid result \<and> length (em_hash (um_executable_metadata (up_metadata result))) = 20 \<and> length (um_hash (up_metadata result)) = 20 \<and>
     length (um_initialization_vector (up_metadata result)) = 16"
proof -
  have "(case fd_boot_get_update_metadata instance_update_interface ((instance_split ())\<lparr>boot_code := 0\<rparr>) of
      Some (Some (True, result), s') \<Rightarrow> up_is_valid result \<and> length (em_hash (um_executable_metadata (up_metadata result))) = 20 \<and>
        length (um_hash (up_metadata result)) = 20 \<and> length (um_initialization_vector (up_metadata result)) = 16
    | _ \<Rightarrow> False)" by code_simp
  then show ?thesis by (auto split: option.splits bool.splits prod.splits)
qed

lemma fd_boot_split_update_read_over_link_witness:
  "\<exists>s'. fd_boot_split_peripheral_update_read (instance_configuration link_arrivals link_transmit)
      (fd_boot_split_peripheral_io (Suc 0) (instance_configuration link_arrivals link_transmit)) 64 16
      (instance_split \<lparr>boot_code = 0, boot_stack = [], boot_world = instance_controller\<rparr>) = Some (Some (replicate 16 7), s')"
  using fd_boot_split_update_read_over_link[OF instance_ready, of 16 64 0] by (auto simp del: fd_boot_split_peripheral_io.simps)

lemma fd_boot_split_get_update_storage_over_link_witness:
  "\<exists>s'. fd_boot_split_peripheral_get_update_storage (instance_configuration link_arrivals link_transmit)
      (fd_boot_split_peripheral_io (Suc 0) (instance_configuration link_arrivals link_transmit))
      (instance_split \<lparr>boot_code = 0, boot_stack = [], boot_world = instance_controller\<rparr>) = Some (Some \<lparr>range_location = 0, range_length = 4352\<rparr>, s')"
  using fd_boot_split_get_update_storage_over_link[OF instance_ready, of 0] by (auto simp del: fd_boot_split_peripheral_io.simps)

lemma fd_boot_split_update_metadata_overruns_witness:
  "fd_boot_split_peripheral_get_update_metadata instance_update_interface (packet [] []) no_envelope
     (fd_boot_split_peripheral_dispatch_respond (instance_configuration (Pair []) (\<lambda>_ x. x))) (instance_split ()) = None"
  using instance_update_valid fd_boot_split_update_metadata_overruns by blast

lemma fd_boot_split_io_times_out_witness:
  "\<exists>s'. fd_boot_split_peripheral_io (Suc 0) (instance_configuration (\<lambda>polls. ([], Suc polls)) (\<lambda>_ x. x)) (instance_split 0) = Some (None, s') \<and>
    boot_code s' = 2 \<and> sp_outside (boot_world s') = 100002"
  using fd_boot_split_io_times_out[of "instance_configuration (\<lambda>polls. ([], Suc polls)) (\<lambda>_ x. x)" Suc "instance_split 0" 0]
  by (simp add: instance_configuration_facts instance_split_def fd_boot_split_peripheral_initialize_def fifo_inv_initialize
      del: fd_boot_split_peripheral_io.simps)

lemma fd_boot_split_late_response_dangles_witness:
  "\<exists>s'. fd_boot_split_peripheral_update_read (instance_configuration (Pair []) (\<lambda>_ x. x))
      (fd_boot_split_peripheral_io (Suc 0) (instance_configuration (Pair []) (\<lambda>_ x. x))) 64 1 (instance_split ()) = Some (None, s') \<and>
    fd_boot_split_peripheral_dispatch_response (fd_binary_initialize (read_response 64 1 [7]) 10) no_envelope (\<lambda>_ _ _. None) s' = None"
  using fd_boot_split_late_response_dangles[OF instance_silent instance_read_response] by blast

lemma fd_boot_split_controller_read_overruns_witness:
  "fd_boot_split_controller_request (fd_binary_initialize (read_request 0 300) 8) [] instance_controller = None"
  by (rule fd_boot_split_controller_read_overruns[OF instance_read_request, where r = "\<lparr>range_location = 0, range_length = 4352\<rparr>"])
    (simp_all add: instance_controller_def)

end
