(* ===== verification/FD_Graphics.thy ===== *)
theory FD_Graphics imports FD_Float "HOL-Library.Signed_Division" begin

text \<open>
  Drawing into a frame buffer: subsys/graphics/src/fd_graphics.c.

  Coordinates are C \<open>int\<close>s: integers, and every operation on them whose result need not fit 32 bits goes through \<open>c_int\<close>,
  which has no value (\<open>None\<close>) on an overflow, as C leaves it undefined. The buffer of a display is the list of its bytes, and an access outside it is \<open>None\<close>. A display is a record with the state of the program
  (\<open>fd_graphics_t\<close>); its backend, a structure of functions on that record, is an argument of the operations that call it. A
  driver of a display that has something to do when the buffer changes or the display is switched keeps its state in
  \<open>gr_device\<close>; what it does is a parameter.
\<close>

section \<open>Arithmetic of \<open>int\<close>\<close>

definition int_ok :: "int \<Rightarrow> bool" where
  "int_ok v \<longleftrightarrow> - (2 ^ 31) \<le> v \<and> v < 2 ^ 31"

definition c_int :: "int \<Rightarrow> int option" where
  "c_int v = (if int_ok v then Some v else None)"

lemma c_int_ok [simp]: "int_ok v \<Longrightarrow> c_int v = Some v"
  by (simp add: c_int_def)

lemma c_int_Some [simp]: "c_int v = Some w \<longleftrightarrow> w = v \<and> int_ok v"
  by (auto simp: c_int_def)

text \<open>The two coordinates of a point.\<close>

definition c_point :: "int \<Rightarrow> int \<Rightarrow> (int \<times> int) option" where
  "c_point x y = do { x \<leftarrow> c_int x; y \<leftarrow> c_int y; Some (x, y) }"

lemma c_point_ok [simp]: "int_ok x \<Longrightarrow> int_ok y \<Longrightarrow> c_point x y = Some (x, y)"
  by (simp add: c_point_def)

section \<open>Areas\<close>

record fd_graphics_point_t =
  point_x :: int
  point_y :: int

record fd_graphics_area_t =
  area_x :: int
  area_y :: int
  area_width :: int
  area_height :: int

definition fd_graphics_area_empty :: fd_graphics_area_t where
  "fd_graphics_area_empty = \<lparr>area_x = 0, area_y = 0, area_width = 0, area_height = 0\<rparr>"

definition fd_graphics_area_is_empty :: "fd_graphics_area_t \<Rightarrow> bool" where
  "fd_graphics_area_is_empty a \<longleftrightarrow> area_width a = 0 \<or> area_height a = 0"

definition fd_graphics_area_is_equal :: "fd_graphics_area_t \<Rightarrow> fd_graphics_area_t \<Rightarrow> bool" where
  "fd_graphics_area_is_equal a b \<longleftrightarrow>
     area_x a = area_x b \<or> area_y a = area_y b \<or> area_width a = area_width b \<or> area_height a = area_height b"

text \<open>The operands of \<open>&&\<close> are evaluated from the left, and only as far as needed.\<close>

definition and_then :: "bool \<Rightarrow> bool option \<Rightarrow> bool option" where
  "and_then b c = (if b then c else Some False)"

definition fd_graphics_area_contains_point :: "fd_graphics_area_t \<Rightarrow> int \<Rightarrow> int \<Rightarrow> bool option" where
  "fd_graphics_area_contains_point area x y =
     and_then (area_x area \<le> x) (do {
       x2 \<leftarrow> c_int (area_x area + area_width area);
       and_then (x < x2 \<and> area_y area \<le> y) (do { y2 \<leftarrow> c_int (area_y area + area_height area); Some (y < y2) })
     })"

definition fd_graphics_area_contains :: "fd_graphics_area_t \<Rightarrow> fd_graphics_area_t \<Rightarrow> bool option" where
  "fd_graphics_area_contains a b =
     and_then (area_x a \<le> area_x b \<and> area_y a \<le> area_y b) (do {
       bx2 \<leftarrow> c_int (area_x b + area_width b);
       ax2 \<leftarrow> c_int (area_x a + area_width a);
       and_then (bx2 \<le> ax2) (do {
         by2 \<leftarrow> c_int (area_y b + area_height b);
         ay2 \<leftarrow> c_int (area_y a + area_height a);
         Some (by2 \<le> ay2)
       })
     })"

definition fd_graphics_area_intersection :: "fd_graphics_area_t \<Rightarrow> fd_graphics_area_t \<Rightarrow> fd_graphics_area_t option" where
  "fd_graphics_area_intersection a b =
     do {
       let x = max (area_x a) (area_x b);
       ax2 \<leftarrow> c_int (area_x a + area_width a);
       bx2 \<leftarrow> c_int (area_x b + area_width b);
       let x2 = min ax2 bx2;
       let y = max (area_y a) (area_y b);
       ay2 \<leftarrow> c_int (area_y a + area_height a);
       by2 \<leftarrow> c_int (area_y b + area_height b);
       let y2 = min ay2 by2;
       if x \<le> x2 \<and> y \<le> y2 then do {
         width \<leftarrow> c_int (x2 - x);
         height \<leftarrow> c_int (y2 - y);
         Some \<lparr>area_x = x, area_y = y, area_width = width, area_height = height\<rparr>
       }
       else Some fd_graphics_area_empty
     }"

definition fd_graphics_area_intersects :: "fd_graphics_area_t \<Rightarrow> fd_graphics_area_t \<Rightarrow> bool option" where
  "fd_graphics_area_intersects a b = do { area \<leftarrow> fd_graphics_area_intersection a b; Some (\<not> fd_graphics_area_is_empty area) }"

definition fd_graphics_area_union :: "fd_graphics_area_t \<Rightarrow> fd_graphics_area_t \<Rightarrow> fd_graphics_area_t option" where
  "fd_graphics_area_union a b =
     (if fd_graphics_area_is_empty a then Some b else if fd_graphics_area_is_empty b then Some a
      else do {
        let min_x = min (area_x a) (area_x b);
        a_max_x \<leftarrow> c_int (area_x a + area_width a);
        b_max_x \<leftarrow> c_int (area_x b + area_width b);
        let max_x = max a_max_x b_max_x;
        let min_y = min (area_y a) (area_y b);
        a_max_y \<leftarrow> c_int (area_y a + area_height a);
        b_max_y \<leftarrow> c_int (area_y b + area_height b);
        let max_y = max a_max_y b_max_y;
        width \<leftarrow> c_int (max_x - min_x);
        height \<leftarrow> c_int (max_y - min_y);
        Some \<lparr>area_x = min_x, area_y = min_y, area_width = width, area_height = height\<rparr>
      })"

section \<open>Memory\<close>

text \<open>An array indexed with an \<open>int\<close>, and three bytes read or written one after the other.\<close>

definition rd_at :: "'a list \<Rightarrow> int \<Rightarrow> 'a option" where
  "rd_at xs i = (if 0 \<le> i then rd xs (nat i) else None)"

definition wr_at :: "'a list \<Rightarrow> int \<Rightarrow> 'a \<Rightarrow> 'a list option" where
  "wr_at xs i x = (if 0 \<le> i then wr xs (nat i) x else None)"

definition rd3 :: "'a list \<Rightarrow> int \<Rightarrow> ('a \<times> 'a \<times> 'a) option" where
  "rd3 xs i = do { a \<leftarrow> rd_at xs i; b \<leftarrow> rd_at xs (i + 1); c \<leftarrow> rd_at xs (i + 2); Some (a, b, c) }"

definition wr3 :: "'a list \<Rightarrow> int \<Rightarrow> 'a \<times> 'a \<times> 'a \<Rightarrow> 'a list option" where
  "wr3 xs i p = (case p of (a, b, c) \<Rightarrow> do { xs \<leftarrow> wr_at xs i a; xs \<leftarrow> wr_at xs (i + 1) b; wr_at xs (i + 2) c })"

text \<open>A loop that counts up: \<open>for_loop i n body\<close> runs the body for \<open>i\<close> to \<open>i + n - 1\<close>.\<close>

fun for_loop :: "int \<Rightarrow> nat \<Rightarrow> (int \<Rightarrow> 's \<Rightarrow> 's option) \<Rightarrow> 's \<Rightarrow> 's option" where
  "for_loop i 0 body s = Some s"
| "for_loop i (Suc n) body s = do { s \<leftarrow> body i s; for_loop (i + 1) n body s }"

section \<open>Bitmaps, images and fonts\<close>

record fd_graphics_bitmap_t =
  bm_width :: int
  bm_height :: int
  bm_depth :: int
  bm_origin :: fd_graphics_point_t
  bm_data :: "u8 list"

record fd_graphics_image_t =
  im_width :: int
  im_height :: int
  im_origin :: fd_graphics_point_t
  im_data :: "u8 list"

record fd_graphics_glyph_t =
  gl_character :: int
  gl_advance :: int
  gl_bitmap :: fd_graphics_bitmap_t

text \<open>The height of a font is the bits of a \<open>float\<close>.\<close>

record fd_graphics_font_t =
  fo_name :: string
  fo_height :: u32
  fo_advance :: int
  fo_ascent :: int
  fo_glyph_count :: int
  fo_glyphs :: "fd_graphics_glyph_t list"

record fd_graphics_metrics_t =
  me_bounds :: fd_graphics_area_t
  me_advance :: int

text \<open>Where the bytes of a pixel of an image are.\<close>

definition fd_graphics_image_get_pixel :: "fd_graphics_image_t \<Rightarrow> int \<Rightarrow> int \<Rightarrow> int option" where
  "fd_graphics_image_get_pixel picture x y =
     do { i \<leftarrow> c_int (x * im_height picture); i \<leftarrow> c_int (i + y); c_int (i * 3) }"

definition fd_graphics_image_get_pixel_argb :: "fd_graphics_image_t \<Rightarrow> int \<Rightarrow> int \<Rightarrow> int option" where
  "fd_graphics_image_get_pixel_argb picture x y =
     do { i \<leftarrow> c_int (y * im_width picture); i \<leftarrow> c_int (i + x); c_int (i * 4) }"

definition fd_graphics_empty_font :: fd_graphics_font_t where
  "fd_graphics_empty_font = \<lparr>fo_name = ''empty'', fo_height = 0, fo_advance = 0, fo_ascent = 0, fo_glyph_count = 0, fo_glyphs = []\<rparr>"

text \<open>A shift by a negative number of bits, or by the width of \<open>int\<close>, is undefined.\<close>

definition fd_graphics_bitmap_get_pixel :: "fd_graphics_bitmap_t \<Rightarrow> int \<Rightarrow> int \<Rightarrow> int option" where
  "fd_graphics_bitmap_get_pixel bitmap x y =
     do {
       w \<leftarrow> c_int (bm_width bitmap * bm_depth bitmap);
       w \<leftarrow> c_int (w + 7);
       let stride = w sdiv 8;
       (if bm_depth bitmap < 0 \<or> 32 \<le> bm_depth bitmap then None else Some ());
       let bits = (drop_bit (nat (bm_depth bitmap)) 0xff00 :: u32) AND 0xff;
       row \<leftarrow> c_int (y * stride);
       column \<leftarrow> c_int (x * bm_depth bitmap);
       index \<leftarrow> c_int (row + column sdiv 8);
       let shift = column smod 8;
       if shift < 0 \<or> 8 - bm_depth bitmap - shift < 0 then None
       else do {
         byte \<leftarrow> rd_at (bm_data bitmap) index;
         Some (uint (drop_bit (nat (8 - bm_depth bitmap - shift)) ((ucast byte :: u32) AND drop_bit (nat shift) bits)))
       }
     }"

fun font_loop :: "fd_graphics_font_t \<Rightarrow> int \<Rightarrow> nat \<Rightarrow> int \<Rightarrow> fd_graphics_glyph_t option option" where
  "font_loop font i 0 character = Some None"
| "font_loop font i (Suc n) character =
     do {
       glyph \<leftarrow> rd_at (fo_glyphs font) i;
       if gl_character glyph = character then Some (Some glyph) else font_loop font (i + 1) n character
     }"

definition fd_graphics_font_get_glyph :: "fd_graphics_font_t \<Rightarrow> int \<Rightarrow> fd_graphics_glyph_t option option" where
  "fd_graphics_font_get_glyph font character = font_loop font 0 (nat (fo_glyph_count font)) character"

section \<open>Displays\<close>

text \<open>A colour is the word \<open>argb\<close>.\<close>

type_synonym fd_graphics_color_t = u32

definition color_r :: "fd_graphics_color_t \<Rightarrow> u8" where
  "color_r c = ucast (drop_bit 16 c)"

definition color_g :: "fd_graphics_color_t \<Rightarrow> u8" where
  "color_g c = ucast (drop_bit 8 c)"

definition color_b :: "fd_graphics_color_t \<Rightarrow> u8" where
  "color_b c = ucast c"

type_synonym rgb = "u8 \<times> u8 \<times> u8"

definition color_rgb :: "fd_graphics_color_t \<Rightarrow> rgb" where
  "color_rgb c = (color_r c, color_g c, color_b c)"

record 'd fd_graphics_t =
  gr_width :: int
  gr_height :: int
  gr_buffer :: "u8 list"
  gr_clipping :: fd_graphics_area_t
  gr_font :: fd_graphics_font_t
  gr_foreground :: fd_graphics_color_t
  gr_background :: fd_graphics_color_t
  gr_is_display_on :: bool
  gr_frame_buffer_size :: nat
  gr_device :: 'd
  gr_log :: assert_log

record 'd fd_graphics_backend_t =
  ba_write_background :: "'d fd_graphics_t \<Rightarrow> 'd fd_graphics_t option"
  ba_write_area :: "fd_graphics_area_t \<Rightarrow> 'd fd_graphics_t \<Rightarrow> 'd fd_graphics_t option"
  ba_write_image :: "int \<Rightarrow> int \<Rightarrow> fd_graphics_image_t \<Rightarrow> 'd fd_graphics_t \<Rightarrow> 'd fd_graphics_t option"
  ba_write_bitmap :: "int \<Rightarrow> int \<Rightarrow> fd_graphics_bitmap_t \<Rightarrow> 'd fd_graphics_t \<Rightarrow> 'd fd_graphics_t option"
  ba_update :: "(fd_graphics_area_t \<Rightarrow> 'd fd_graphics_t \<Rightarrow> 'd fd_graphics_t option) option"
  ba_display_on :: "('d fd_graphics_t \<Rightarrow> 'd fd_graphics_t option) option"
  ba_display_off :: "('d fd_graphics_t \<Rightarrow> 'd fd_graphics_t option) option"

definition screen_area :: "'d fd_graphics_t \<Rightarrow> fd_graphics_area_t" where
  "screen_area g = \<lparr>area_x = 0, area_y = 0, area_width = gr_width g, area_height = gr_height g\<rparr>"

definition fd_graphics_reset :: "'d fd_graphics_t \<Rightarrow> 'd fd_graphics_t" where
  "fd_graphics_reset g =
     g\<lparr>gr_clipping := screen_area g, gr_font := fd_graphics_empty_font, gr_background := 0xff000000, gr_foreground := 0xffffffff\<rparr>"

definition fd_graphics_initialize :: "int \<Rightarrow> int \<Rightarrow> u8 list \<Rightarrow> 'd fd_graphics_t \<Rightarrow> 'd fd_graphics_t" where
  "fd_graphics_initialize width height buffer g =
     fd_graphics_reset (g\<lparr>gr_width := width, gr_height := height, gr_buffer := buffer, gr_is_display_on := True\<rparr>)"

definition fd_graphics_set_clipping :: "fd_graphics_area_t \<Rightarrow> 'd fd_graphics_t \<Rightarrow> 'd fd_graphics_t option" where
  "fd_graphics_set_clipping area g =
     do { clipping \<leftarrow> fd_graphics_area_intersection (screen_area g) area; Some (g\<lparr>gr_clipping := clipping\<rparr>) }"

definition fd_graphics_remove_clipping :: "'d fd_graphics_t \<Rightarrow> 'd fd_graphics_t" where
  "fd_graphics_remove_clipping g = g\<lparr>gr_clipping := screen_area g\<rparr>"

definition fd_graphics_get_clipping :: "'d fd_graphics_t \<Rightarrow> fd_graphics_area_t" where
  "fd_graphics_get_clipping g = gr_clipping g"

definition fd_graphics_set_font :: "fd_graphics_font_t \<Rightarrow> 'd fd_graphics_t \<Rightarrow> 'd fd_graphics_t" where
  "fd_graphics_set_font font g = g\<lparr>gr_font := font\<rparr>"

definition fd_graphics_set_background :: "fd_graphics_color_t \<Rightarrow> 'd fd_graphics_t \<Rightarrow> 'd fd_graphics_t" where
  "fd_graphics_set_background color g = g\<lparr>gr_background := color\<rparr>"

definition fd_graphics_set_foreground :: "fd_graphics_color_t \<Rightarrow> 'd fd_graphics_t \<Rightarrow> 'd fd_graphics_t" where
  "fd_graphics_set_foreground color g = g\<lparr>gr_foreground := color\<rparr>"

definition graphics_fail :: "string \<Rightarrow> 'd fd_graphics_t \<Rightarrow> 'd fd_graphics_t" where
  "graphics_fail msg g = g\<lparr>gr_log := fd_assert False msg (gr_log g)\<rparr>"

definition fd_graphics_write_background :: "'d fd_graphics_backend_t \<Rightarrow> 'd fd_graphics_t \<Rightarrow> 'd fd_graphics_t option" where
  "fd_graphics_write_background b g = ba_write_background b g"

text \<open>The test in front of the drawing operations: the operands of \<open>||\<close> are evaluated from the left, and only as far as needed.\<close>

definition off_screen :: "int \<Rightarrow> int \<Rightarrow> int \<Rightarrow> int \<Rightarrow> 'd fd_graphics_t \<Rightarrow> bool option" where
  "off_screen x y width height g =
     (if x < 0 \<or> y < 0 then Some True
      else do {
        x2 \<leftarrow> c_int (x + width);
        if gr_width g < x2 then Some True
        else do { y2 \<leftarrow> c_int (y + height); Some (gr_height g < y2) }
      })"

definition fd_graphics_write_area ::
  "'d fd_graphics_backend_t \<Rightarrow> fd_graphics_area_t \<Rightarrow> 'd fd_graphics_t \<Rightarrow> 'd fd_graphics_t option" where
  "fd_graphics_write_area b area g =
     do {
       off \<leftarrow> off_screen (area_x area) (area_y area) (area_width area) (area_height area) g;
       if off then Some (graphics_fail ''area off screen'' g) else ba_write_area b area g
     }"

definition fd_graphics_write_image ::
  "'d fd_graphics_backend_t \<Rightarrow> int \<Rightarrow> int \<Rightarrow> fd_graphics_image_t \<Rightarrow> 'd fd_graphics_t \<Rightarrow> 'd fd_graphics_t option" where
  "fd_graphics_write_image b x y picture g =
     do {
       off \<leftarrow> off_screen x y (im_width picture) (im_height picture) g;
       if off then Some (graphics_fail ''image off screen'' g) else ba_write_image b x y picture g
     }"

definition fd_graphics_write_bitmap ::
  "'d fd_graphics_backend_t \<Rightarrow> int \<Rightarrow> int \<Rightarrow> fd_graphics_bitmap_t \<Rightarrow> 'd fd_graphics_t \<Rightarrow> 'd fd_graphics_t option" where
  "fd_graphics_write_bitmap b x y bitmap g =
     do {
       (ox, oy) \<leftarrow> c_point (x - point_x (bm_origin bitmap)) (y - point_y (bm_origin bitmap));
       off \<leftarrow> off_screen ox oy (bm_width bitmap) (bm_height bitmap) g;
       if off then Some (graphics_fail ''bitmap off screen'' g) else ba_write_bitmap b x y bitmap g
     }"

text \<open>A string is given with its length; a character that has no glyph leaves a gap.\<close>

fun write_string_loop ::
  "'d fd_graphics_backend_t \<Rightarrow> int \<Rightarrow> int \<Rightarrow> u8 list \<Rightarrow> nat \<Rightarrow> nat \<Rightarrow> 'd fd_graphics_t \<Rightarrow> 'd fd_graphics_t option" where
  "write_string_loop b cx y string i 0 g = Some g"
| "write_string_loop b cx y string i (Suc n) g =
     do {
       character \<leftarrow> rd string i;
       glyph \<leftarrow> fd_graphics_font_get_glyph (gr_font g) (uint character);
       case glyph of
         None \<Rightarrow> do { cx \<leftarrow> c_int (cx + fo_advance (gr_font g)); write_string_loop b cx y string (i + 1) n g }
       | Some glyph \<Rightarrow> do {
           g \<leftarrow> fd_graphics_write_bitmap b cx y (gl_bitmap glyph) g;
           cx \<leftarrow> c_int (cx + gl_advance glyph);
           write_string_loop b cx y string (i + 1) n g
         }
     }"

definition fd_graphics_write_string_length ::
  "'d fd_graphics_backend_t \<Rightarrow> int \<Rightarrow> int \<Rightarrow> u8 list \<Rightarrow> nat \<Rightarrow> 'd fd_graphics_t \<Rightarrow> 'd fd_graphics_t option" where
  "fd_graphics_write_string_length b x y string n g = write_string_loop b x y string 0 n g"

text \<open>The length of a string is the number of bytes before the first zero; without one \<open>strlen\<close> reads past the array.\<close>

definition string_length :: "u8 list \<Rightarrow> nat option" where
  "string_length string = (if 0 \<in> set string then Some (length (takeWhile (\<lambda>c. c \<noteq> 0) string)) else None)"

definition fd_graphics_write_string ::
  "'d fd_graphics_backend_t \<Rightarrow> int \<Rightarrow> int \<Rightarrow> u8 list \<Rightarrow> 'd fd_graphics_t \<Rightarrow> 'd fd_graphics_t option" where
  "fd_graphics_write_string b x y string g =
     do { n \<leftarrow> string_length string; fd_graphics_write_string_length b x y string n g }"

definition fd_graphics_update ::
  "'d fd_graphics_backend_t \<Rightarrow> fd_graphics_area_t \<Rightarrow> 'd fd_graphics_t \<Rightarrow> 'd fd_graphics_t option" where
  "fd_graphics_update b area g = (case ba_update b of None \<Rightarrow> Some g | Some update_area \<Rightarrow> update_area area g)"

definition fd_graphics_get_bitmap_bounds :: "fd_graphics_bitmap_t \<Rightarrow> fd_graphics_area_t option" where
  "fd_graphics_get_bitmap_bounds bitmap =
     do {
       (x, y) \<leftarrow> c_point (- point_x (bm_origin bitmap)) (- point_y (bm_origin bitmap));
       Some \<lparr>area_x = x, area_y = y, area_width = bm_width bitmap, area_height = bm_height bitmap\<rparr>
     }"

fun string_metrics_loop ::
  "fd_graphics_font_t \<Rightarrow> u8 list \<Rightarrow> nat \<Rightarrow> nat \<Rightarrow> fd_graphics_area_t \<Rightarrow> int \<Rightarrow> fd_graphics_metrics_t option" where
  "string_metrics_loop font string i 0 bounds advance = Some \<lparr>me_bounds = bounds, me_advance = advance\<rparr>"
| "string_metrics_loop font string i (Suc n) bounds advance =
     do {
       character \<leftarrow> rd string i;
       glyph \<leftarrow> fd_graphics_font_get_glyph font (uint character);
       case glyph of
         None \<Rightarrow> do {
           advance \<leftarrow> c_int (advance + fo_advance font);
           string_metrics_loop font string (i + 1) n bounds advance
         }
       | Some glyph \<Rightarrow> do {
           bitmap_bounds \<leftarrow> fd_graphics_get_bitmap_bounds (gl_bitmap glyph);
           x \<leftarrow> c_int (area_x bitmap_bounds + advance);
           bounds \<leftarrow> fd_graphics_area_union bounds (bitmap_bounds\<lparr>area_x := x\<rparr>);
           advance \<leftarrow> c_int (advance + gl_advance glyph);
           string_metrics_loop font string (i + 1) n bounds advance
         }
     }"

definition fd_graphics_get_string_metrics_length :: "u8 list \<Rightarrow> nat \<Rightarrow> 'd fd_graphics_t \<Rightarrow> fd_graphics_metrics_t option" where
  "fd_graphics_get_string_metrics_length string n g =
     string_metrics_loop (gr_font g) string 0 n \<lparr>area_x = 0, area_y = 0, area_width = 0, area_height = 0\<rparr> 0"

definition fd_graphics_get_string_metrics :: "u8 list \<Rightarrow> 'd fd_graphics_t \<Rightarrow> fd_graphics_metrics_t option" where
  "fd_graphics_get_string_metrics string g =
     do { n \<leftarrow> string_length string; fd_graphics_get_string_metrics_length string n g }"

definition fd_graphics_is_display_on :: "'d fd_graphics_t \<Rightarrow> bool" where
  "fd_graphics_is_display_on g = gr_is_display_on g"

definition fd_graphics_display_on :: "'d fd_graphics_backend_t \<Rightarrow> 'd fd_graphics_t \<Rightarrow> 'd fd_graphics_t option" where
  "fd_graphics_display_on b g =
     do {
       g \<leftarrow> (case ba_display_on b of None \<Rightarrow> Some g | Some on \<Rightarrow> on g);
       Some (g\<lparr>gr_is_display_on := True\<rparr>)
     }"

definition fd_graphics_display_off :: "'d fd_graphics_backend_t \<Rightarrow> 'd fd_graphics_t \<Rightarrow> 'd fd_graphics_t option" where
  "fd_graphics_display_off b g =
     (let g = g\<lparr>gr_is_display_on := False\<rparr> in
      case ba_display_off b of None \<Rightarrow> Some g | Some off \<Rightarrow> off g)"

text \<open>What a function does to the buffer it does to the display.\<close>

definition on_buffer :: "(u8 list \<Rightarrow> u8 list option) \<Rightarrow> 'd fd_graphics_t \<Rightarrow> 'd fd_graphics_t option" where
  "on_buffer f g = do { buffer \<leftarrow> f (gr_buffer g); Some (g\<lparr>gr_buffer := buffer\<rparr>) }"

section \<open>The backend of a buffer in memory\<close>

text \<open>It keeps the pixels column by column. The pointer that walks down a column is the index of the byte it points to.\<close>

definition fd_graphics_ram_write_background :: "'d fd_graphics_t \<Rightarrow> 'd fd_graphics_t option" where
  "fd_graphics_ram_write_background g =
     on_buffer (\<lambda>buffer. do {
       (data, buffer) \<leftarrow> for_loop 0 (nat (gr_width g)) (\<lambda>cx. for_loop 0 (nat (gr_height g)) (\<lambda>cy (data, buffer). do {
         buffer \<leftarrow> wr3 buffer data (color_rgb (gr_background g));
         Some (data + 3, buffer)
       })) (0, buffer);
       Some buffer
     }) g"

definition fd_graphics_ram_get_pixel :: "'d fd_graphics_t \<Rightarrow> int \<Rightarrow> int \<Rightarrow> int option" where
  "fd_graphics_ram_get_pixel g x y = do { i \<leftarrow> c_int (x * gr_height g); i \<leftarrow> c_int (i + y); c_int (i * 3) }"

definition ram_blend :: "u32 \<Rightarrow> u32 \<Rightarrow> u8 \<Rightarrow> u32 \<Rightarrow> u8" where
  "ram_blend s sa d da = ucast (drop_bit 8 (s * sa + ucast d * da))"

definition ram_blend_rgb :: "u32 \<times> u32 \<times> u32 \<Rightarrow> u32 \<Rightarrow> u32 \<Rightarrow> rgb \<Rightarrow> rgb" where
  "ram_blend_rgb s sa da p =
     (case s of (sr, sg, sb) \<Rightarrow> case p of (r, g, b) \<Rightarrow> (ram_blend sr sa r da, ram_blend sg sa g da, ram_blend sb sa b da))"

definition argb_components :: "fd_graphics_color_t \<Rightarrow> u32 \<times> u32 \<times> u32" where
  "argb_components src = (drop_bit 16 src AND 0xff, drop_bit 8 src AND 0xff, src AND 0xff)"

definition fd_graphics_ram_write_area :: "fd_graphics_area_t \<Rightarrow> 'd fd_graphics_t \<Rightarrow> 'd fd_graphics_t option" where
  "fd_graphics_ram_write_area unclipped_area g =
     do {
       area \<leftarrow> fd_graphics_area_intersection unclipped_area (gr_clipping g);
       let src = gr_foreground g;
       let sa = drop_bit 24 src AND 0xff;
       let da = 0xff - sa;
       (x_end, y_end) \<leftarrow> c_point (area_x area + area_width area) (area_y area + area_height area);
       on_buffer (for_loop (area_x area) (nat (x_end - area_x area)) (\<lambda>cx buffer. do {
         dst \<leftarrow> fd_graphics_ram_get_pixel g cx (area_y area);
         (dst, buffer) \<leftarrow> for_loop (area_y area) (nat (y_end - area_y area)) (\<lambda>cy (dst, buffer). do {
           p \<leftarrow> rd3 buffer dst;
           buffer \<leftarrow> wr3 buffer dst (ram_blend_rgb (argb_components src) sa da p);
           Some (dst + 3, buffer)
         }) (dst, buffer);
         Some buffer
       })) g
     }"

definition fd_graphics_ram_write_image ::
  "int \<Rightarrow> int \<Rightarrow> fd_graphics_image_t \<Rightarrow> 'd fd_graphics_t \<Rightarrow> 'd fd_graphics_t option" where
  "fd_graphics_ram_write_image x y picture g =
     do {
       dst_area \<leftarrow> fd_graphics_area_intersection
         \<lparr>area_x = x, area_y = y, area_width = im_width picture, area_height = im_height picture\<rparr> (gr_clipping g);
       (sx, sy) \<leftarrow> c_point (area_x dst_area - x) (area_y dst_area - y);
       (dx, dy) \<leftarrow> c_point (x + sx) (y + sy);
       on_buffer (for_loop 0 (nat (area_width dst_area)) (\<lambda>cx buffer. do {
         (u, v) \<leftarrow> c_point (sx + cx) (dx + cx);
         src \<leftarrow> fd_graphics_image_get_pixel picture u sy;
         dst \<leftarrow> fd_graphics_ram_get_pixel g v dy;
         (src, dst, buffer) \<leftarrow> for_loop 0 (nat (area_height dst_area)) (\<lambda>cy (src, dst, buffer). do {
           p \<leftarrow> rd3 (im_data picture) src;
           buffer \<leftarrow> wr3 buffer dst p;
           Some (src + 3, dst + 3, buffer)
         }) (src, dst, buffer);
         Some buffer
       })) g
     }"

text \<open>The alpha value as a \<open>float\<close> scaled to 255.\<close>

definition ram_alpha :: "int \<Rightarrow> int \<Rightarrow> int" where
  "ram_alpha max_alpha a =
     (let scale = float_round (255 * 2 ^ 149) max_alpha
      in float_round (float_round (scale * a) 1 + 2 ^ 148) 1 div 2 ^ 149)"

definition bitmap_max :: "fd_graphics_bitmap_t \<Rightarrow> u32 option" where
  "bitmap_max bitmap = (if bm_depth bitmap < 0 \<or> 31 \<le> bm_depth bitmap then None else Some (push_bit (nat (bm_depth bitmap)) 1 - 1))"

definition unclipped_bitmap_area :: "int \<Rightarrow> int \<Rightarrow> fd_graphics_bitmap_t \<Rightarrow> fd_graphics_area_t option" where
  "unclipped_bitmap_area rx ry bitmap =
     do {
       (x, y) \<leftarrow> c_point (rx - point_x (bm_origin bitmap)) (ry - point_y (bm_origin bitmap));
       Some \<lparr>area_x = x, area_y = y, area_width = bm_width bitmap, area_height = bm_height bitmap\<rparr>
     }"

text \<open>A bitmap of depth 0 has no greatest value: the scale is infinite and the conversion of its product to \<open>int\<close> undefined.\<close>

definition fd_graphics_ram_write_bitmap ::
  "int \<Rightarrow> int \<Rightarrow> fd_graphics_bitmap_t \<Rightarrow> 'd fd_graphics_t \<Rightarrow> 'd fd_graphics_t option" where
  "fd_graphics_ram_write_bitmap rx ry bitmap g =
     do {
       unclipped_dst_area \<leftarrow> unclipped_bitmap_area rx ry bitmap;
       let x = area_x unclipped_dst_area;
       let y = area_y unclipped_dst_area;
       dst_area \<leftarrow> fd_graphics_area_intersection unclipped_dst_area (gr_clipping g);
       (sx, sy) \<leftarrow> c_point (area_x dst_area - x) (area_y dst_area - y);
       (dx, dy) \<leftarrow> c_point (x + sx) (y + sy);
       max_alpha \<leftarrow> bitmap_max bitmap;
       on_buffer (for_loop 0 (nat (area_width dst_area)) (\<lambda>cx buffer. do {
         column \<leftarrow> c_int (dx + cx);
         dst \<leftarrow> fd_graphics_ram_get_pixel g column dy;
         (dst, buffer) \<leftarrow> for_loop 0 (nat (area_height dst_area)) (\<lambda>cy (dst, buffer). do {
           (u, v) \<leftarrow> c_point (sx + cx) (sy + cy);
           a \<leftarrow> fd_graphics_bitmap_get_pixel bitmap u v;
           p \<leftarrow> rd3 buffer dst;
           (if max_alpha = 0 then None else Some ());
           let sa = ram_alpha (uint max_alpha) a;
           let da = 255 - sa;
           buffer \<leftarrow> wr3 buffer dst (ram_blend_rgb (argb_components (gr_foreground g)) (word_of_int sa) (word_of_int da) p);
           Some (dst + 3, buffer)
         }) (dst, buffer);
         Some buffer
       })) g
     }"

definition ram_backend :: "'d fd_graphics_backend_t" where
  "ram_backend =
     \<lparr>ba_write_background = fd_graphics_ram_write_background, ba_write_area = fd_graphics_ram_write_area,
      ba_write_image = fd_graphics_ram_write_image, ba_write_bitmap = fd_graphics_ram_write_bitmap,
      ba_update = None, ba_display_on = None, ba_display_off = None\<rparr>"

definition fd_graphics_ram_initialize :: "int \<Rightarrow> int \<Rightarrow> u8 list \<Rightarrow> 'd fd_graphics_t \<Rightarrow> 'd fd_graphics_backend_t \<times> 'd fd_graphics_t" where
  "fd_graphics_ram_initialize width height buffer g = (ram_backend, fd_graphics_initialize width height buffer g)"

end
