(* ===== verification/FD_GraphicsColor.thy ===== *)
theory FD_GraphicsColor imports FD_Graphics begin

text \<open>
  The backends for displays whose frame buffer holds the pixels row by row: 24 bit colour (fd_graphics_color_8bit.c), 15 bit
  colour in two bytes (fd_graphics_color_16bit.c) and 4 bit gray, upside down and two pixels to the byte
  (fd_graphics_gray_4bit.c). The pixel operations act on the frame buffer of a display of a given width and height; an index
  into it is an \<open>uint32_t\<close> and wraps, while the coordinates are \<open>int\<close>s whose sums are checked.
\<close>

text \<open>The two loops over the pixels of an area, row by row.\<close>

definition pixel_loop :: "int \<Rightarrow> int \<Rightarrow> (int \<Rightarrow> int \<Rightarrow> 's \<Rightarrow> 's option) \<Rightarrow> 's \<Rightarrow> 's option" where
  "pixel_loop width height body = for_loop 0 (nat height) (\<lambda>cy. for_loop 0 (nat width) (\<lambda>cx. body cx cy))"

text \<open>Mixing a colour into what is there, in proportion to \<open>alpha\<close>.\<close>

definition blend :: "u32 \<Rightarrow> u32 \<Rightarrow> u8 \<Rightarrow> u8 \<Rightarrow> u8" where
  "blend max_alpha alpha s d = ucast ((ucast s * alpha + ucast d * (max_alpha - alpha)) div max_alpha)"

definition blend_rgb :: "u32 \<Rightarrow> u32 \<Rightarrow> rgb \<Rightarrow> rgb \<Rightarrow> rgb" where
  "blend_rgb max_alpha alpha s d =
     (case s of (sr, sg, sb) \<Rightarrow> case d of (r, g, b) \<Rightarrow>
       (blend max_alpha alpha sr r, blend max_alpha alpha sg g, blend max_alpha alpha sb b))"

definition image_area :: "int \<Rightarrow> int \<Rightarrow> fd_graphics_image_t \<Rightarrow> fd_graphics_area_t" where
  "image_area x y picture = \<lparr>area_x = x, area_y = y, area_width = im_width picture, area_height = im_height picture\<rparr>"

section \<open>24 bit colour\<close>

definition color_8bit_index :: "int \<Rightarrow> int \<Rightarrow> int \<Rightarrow> u32" where
  "color_8bit_index width x y = 3 * (word_of_int y * word_of_int width + word_of_int x)"

definition fd_graphics_color_8bit_set_pixel :: "int \<Rightarrow> int \<Rightarrow> int \<Rightarrow> rgb \<Rightarrow> u8 list \<Rightarrow> u8 list option" where
  "fd_graphics_color_8bit_set_pixel width x y color frame_buffer =
     (case color of (r, g, b) \<Rightarrow>
      let index = color_8bit_index width x y in do {
        frame_buffer \<leftarrow> wr frame_buffer (unat index) r;
        frame_buffer \<leftarrow> wr frame_buffer (unat (index + 1)) g;
        wr frame_buffer (unat (index + 2)) b
      })"

definition fd_graphics_color_8bit_get_pixel :: "int \<Rightarrow> int \<Rightarrow> int \<Rightarrow> u8 list \<Rightarrow> rgb option" where
  "fd_graphics_color_8bit_get_pixel width x y frame_buffer =
     (let index = color_8bit_index width x y in do {
        r \<leftarrow> rd frame_buffer (unat index);
        g \<leftarrow> rd frame_buffer (unat (index + 1));
        b \<leftarrow> rd frame_buffer (unat (index + 2));
        Some (r, g, b)
      })"

definition fd_graphics_color_8bit_write_background :: "'d fd_graphics_t \<Rightarrow> 'd fd_graphics_t option" where
  "fd_graphics_color_8bit_write_background g =
     on_buffer (\<lambda>frame_buffer. do {
       count \<leftarrow> c_int (gr_width g * gr_height g);
       (p, frame_buffer) \<leftarrow> for_loop 0 (nat count) (\<lambda>i (p, frame_buffer). do {
         frame_buffer \<leftarrow> wr3 frame_buffer p (color_rgb (gr_background g));
         Some (p + 3, frame_buffer)
       }) (0, frame_buffer);
       Some frame_buffer
     }) g"

definition fd_graphics_color_8bit_write_area :: "fd_graphics_area_t \<Rightarrow> 'd fd_graphics_t \<Rightarrow> 'd fd_graphics_t option" where
  "fd_graphics_color_8bit_write_area unclipped_area g =
     do {
       area \<leftarrow> fd_graphics_area_intersection unclipped_area (gr_clipping g);
       let dx = area_x area;
       let dy = area_y area;
       on_buffer (pixel_loop (area_width area) (area_height area) (\<lambda>cx cy frame_buffer. do {
         (x, y) \<leftarrow> c_point (dx + cx) (dy + cy);
         fd_graphics_color_8bit_set_pixel (gr_width g) x y (color_rgb (gr_foreground g)) frame_buffer
       })) g
     }"

definition image_argb :: "fd_graphics_image_t \<Rightarrow> int \<Rightarrow> int \<Rightarrow> (u8 \<times> rgb) option" where
  "image_argb picture x y =
     do {
       src \<leftarrow> fd_graphics_image_get_pixel_argb picture x y;
       alpha \<leftarrow> rd_at (im_data picture) src;
       p \<leftarrow> rd3 (im_data picture) (src + 1);
       Some (alpha, p)
     }"

definition fd_graphics_color_8bit_write_image ::
  "int \<Rightarrow> int \<Rightarrow> fd_graphics_image_t \<Rightarrow> 'd fd_graphics_t \<Rightarrow> 'd fd_graphics_t option" where
  "fd_graphics_color_8bit_write_image x y picture g =
     do {
       dst_area \<leftarrow> fd_graphics_area_intersection (image_area x y picture) (gr_clipping g);
       let dx = area_x dst_area;
       let dy = area_y dst_area;
       (sx, sy) \<leftarrow> c_point (dx - x) (dy - y);
       on_buffer (pixel_loop (area_width dst_area) (area_height dst_area) (\<lambda>cx cy frame_buffer. do {
         (u, v) \<leftarrow> c_point (sx + cx) (sy + cy);
         (alpha, s) \<leftarrow> image_argb picture u v;
         (px, py) \<leftarrow> c_point (dx + cx) (dy + cy);
         color \<leftarrow> fd_graphics_color_8bit_get_pixel (gr_width g) px py frame_buffer;
         fd_graphics_color_8bit_set_pixel (gr_width g) px py (blend_rgb 255 (ucast alpha) s color) frame_buffer
       })) g
     }"

text \<open>A division by zero, for a bitmap of depth 0, is undefined.\<close>

definition bitmap_blend :: "fd_graphics_bitmap_t \<Rightarrow> u32 \<Rightarrow> int \<Rightarrow> int \<Rightarrow> rgb \<Rightarrow> rgb \<Rightarrow> rgb option" where
  "bitmap_blend bitmap max_alpha x y s d =
     do {
       alpha \<leftarrow> fd_graphics_bitmap_get_pixel bitmap x y;
       if max_alpha = 0 then None else Some (blend_rgb max_alpha (word_of_int alpha) s d)
     }"

definition fd_graphics_color_8bit_write_bitmap ::
  "int \<Rightarrow> int \<Rightarrow> fd_graphics_bitmap_t \<Rightarrow> 'd fd_graphics_t \<Rightarrow> 'd fd_graphics_t option" where
  "fd_graphics_color_8bit_write_bitmap rx ry bitmap g =
     do {
       unclipped_dst_area \<leftarrow> unclipped_bitmap_area rx ry bitmap;
       dst_area \<leftarrow> fd_graphics_area_intersection unclipped_dst_area (gr_clipping g);
       let dx = area_x dst_area;
       let dy = area_y dst_area;
       (sx, sy) \<leftarrow> c_point (dx - area_x unclipped_dst_area) (dy - area_y unclipped_dst_area);
       max_alpha \<leftarrow> bitmap_max bitmap;
       on_buffer (pixel_loop (area_width dst_area) (area_height dst_area) (\<lambda>cx cy frame_buffer. do {
         (u, v) \<leftarrow> c_point (sx + cx) (sy + cy);
         (px, py) \<leftarrow> c_point (dx + cx) (dy + cy);
         color \<leftarrow> fd_graphics_color_8bit_get_pixel (gr_width g) px py frame_buffer;
         color \<leftarrow> bitmap_blend bitmap max_alpha u v (color_rgb (gr_foreground g)) color;
         fd_graphics_color_8bit_set_pixel (gr_width g) px py color frame_buffer
       })) g
     }"

definition color_8bit_backend :: "'d fd_graphics_backend_t" where
  "color_8bit_backend =
     \<lparr>ba_write_background = fd_graphics_color_8bit_write_background, ba_write_area = fd_graphics_color_8bit_write_area,
      ba_write_image = fd_graphics_color_8bit_write_image, ba_write_bitmap = fd_graphics_color_8bit_write_bitmap,
      ba_update = None, ba_display_on = None, ba_display_off = None\<rparr>"

text \<open>The members of the backend that the function leaves alone are those the display's driver has put there.\<close>

definition with_painters :: "'d fd_graphics_backend_t \<Rightarrow> 'd fd_graphics_backend_t \<Rightarrow> 'd fd_graphics_backend_t" where
  "with_painters painters backend =
     painters\<lparr>ba_update := ba_update backend, ba_display_on := ba_display_on backend, ba_display_off := ba_display_off backend\<rparr>"

definition fd_graphics_color_8bit_initialize ::
  "'d fd_graphics_backend_t \<Rightarrow> u8 list \<Rightarrow> nat \<Rightarrow> int \<Rightarrow> int \<Rightarrow> 'd fd_graphics_t \<Rightarrow> 'd fd_graphics_backend_t \<times> 'd fd_graphics_t" where
  "fd_graphics_color_8bit_initialize backend frame_buffer frame_buffer_size width height g =
     (with_painters color_8bit_backend backend,
      fd_graphics_initialize width height frame_buffer (g\<lparr>gr_frame_buffer_size := frame_buffer_size\<rparr>))"

section \<open>15 bit colour\<close>

text \<open>The bit fields of a pixel, from the least significant bit: blue, an unused bit, green, red.\<close>

definition rgb_word :: "rgb \<Rightarrow> u16" where
  "rgb_word color =
     (case color of (r, g, b) \<Rightarrow> push_bit 11 (ucast (drop_bit 3 r)) OR push_bit 6 (ucast (drop_bit 3 g)) OR ucast (drop_bit 3 b))"

definition word_rgb :: "u16 \<Rightarrow> rgb" where
  "word_rgb w =
     (push_bit 3 (ucast (drop_bit 11 w AND 0x1f)), push_bit 3 (ucast (drop_bit 6 w AND 0x1f)), push_bit 3 (ucast (w AND 0x1f)))"

definition color_16bit_index :: "int \<Rightarrow> int \<Rightarrow> int \<Rightarrow> u32" where
  "color_16bit_index width x y = 2 * (word_of_int y * word_of_int width + word_of_int x)"

definition fd_graphics_color_16bit_set_pixel :: "int \<Rightarrow> int \<Rightarrow> int \<Rightarrow> rgb \<Rightarrow> u8 list \<Rightarrow> u8 list option" where
  "fd_graphics_color_16bit_set_pixel width x y color frame_buffer =
     (let index = color_16bit_index width x y; w = rgb_word color in do {
        frame_buffer \<leftarrow> wr frame_buffer (unat index) (ucast (drop_bit 8 w));
        wr frame_buffer (unat (index + 1)) (ucast w)
      })"

definition fd_graphics_color_16bit_get_pixel :: "int \<Rightarrow> int \<Rightarrow> int \<Rightarrow> u8 list \<Rightarrow> rgb option" where
  "fd_graphics_color_16bit_get_pixel width x y frame_buffer =
     (let index = color_16bit_index width x y in do {
        b1 \<leftarrow> rd frame_buffer (unat index);
        b0 \<leftarrow> rd frame_buffer (unat (index + 1));
        Some (word_rgb (push_bit 8 (ucast b1) OR ucast b0))
      })"

definition fd_graphics_color_16bit_write_background :: "'d fd_graphics_t \<Rightarrow> 'd fd_graphics_t option" where
  "fd_graphics_color_16bit_write_background g =
     (let w = rgb_word (color_rgb (gr_background g)); b0 = ucast w; b1 = ucast (drop_bit 8 w) in
      on_buffer (\<lambda>frame_buffer. do {
        count \<leftarrow> c_int (gr_width g * gr_height g);
        (p, frame_buffer) \<leftarrow> for_loop 0 (nat count) (\<lambda>i (p, frame_buffer). do {
          frame_buffer \<leftarrow> wr_at frame_buffer p b0;
          frame_buffer \<leftarrow> wr_at frame_buffer (p + 1) b1;
          Some (p + 2, frame_buffer)
        }) (0, frame_buffer);
        Some frame_buffer
      }) g)"

definition fd_graphics_color_16bit_write_area :: "fd_graphics_area_t \<Rightarrow> 'd fd_graphics_t \<Rightarrow> 'd fd_graphics_t option" where
  "fd_graphics_color_16bit_write_area unclipped_area g =
     do {
       area \<leftarrow> fd_graphics_area_intersection unclipped_area (gr_clipping g);
       let dx = area_x area;
       let dy = area_y area;
       on_buffer (pixel_loop (area_width area) (area_height area) (\<lambda>cx cy frame_buffer. do {
         (x, y) \<leftarrow> c_point (dx + cx) (dy + cy);
         fd_graphics_color_16bit_set_pixel (gr_width g) x y (color_rgb (gr_foreground g)) frame_buffer
       })) g
     }"

definition fd_graphics_color_16bit_write_image ::
  "int \<Rightarrow> int \<Rightarrow> fd_graphics_image_t \<Rightarrow> 'd fd_graphics_t \<Rightarrow> 'd fd_graphics_t option" where
  "fd_graphics_color_16bit_write_image x y picture g =
     do {
       dst_area \<leftarrow> fd_graphics_area_intersection (image_area x y picture) (gr_clipping g);
       let dx = area_x dst_area;
       let dy = area_y dst_area;
       (sx, sy) \<leftarrow> c_point (dx - x) (dy - y);
       on_buffer (pixel_loop (area_width dst_area) (area_height dst_area) (\<lambda>cx cy frame_buffer. do {
         (u, v) \<leftarrow> c_point (sx + cx) (sy + cy);
         (alpha, s) \<leftarrow> image_argb picture u v;
         (px, py) \<leftarrow> c_point (dx + cx) (dy + cy);
         color \<leftarrow> fd_graphics_color_16bit_get_pixel (gr_width g) px py frame_buffer;
         fd_graphics_color_16bit_set_pixel (gr_width g) px py (blend_rgb 255 (ucast alpha) s color) frame_buffer
       })) g
     }"

definition fd_graphics_color_16bit_write_bitmap ::
  "int \<Rightarrow> int \<Rightarrow> fd_graphics_bitmap_t \<Rightarrow> 'd fd_graphics_t \<Rightarrow> 'd fd_graphics_t option" where
  "fd_graphics_color_16bit_write_bitmap rx ry bitmap g =
     do {
       unclipped_dst_area \<leftarrow> unclipped_bitmap_area rx ry bitmap;
       dst_area \<leftarrow> fd_graphics_area_intersection unclipped_dst_area (gr_clipping g);
       let dx = area_x dst_area;
       let dy = area_y dst_area;
       (sx, sy) \<leftarrow> c_point (dx - area_x unclipped_dst_area) (dy - area_y unclipped_dst_area);
       max_alpha \<leftarrow> bitmap_max bitmap;
       on_buffer (pixel_loop (area_width dst_area) (area_height dst_area) (\<lambda>cx cy frame_buffer. do {
         (u, v) \<leftarrow> c_point (sx + cx) (sy + cy);
         (px, py) \<leftarrow> c_point (dx + cx) (dy + cy);
         color \<leftarrow> fd_graphics_color_16bit_get_pixel (gr_width g) px py frame_buffer;
         color \<leftarrow> bitmap_blend bitmap max_alpha u v (color_rgb (gr_foreground g)) color;
         fd_graphics_color_16bit_set_pixel (gr_width g) px py color frame_buffer
       })) g
     }"

definition color_16bit_backend :: "'d fd_graphics_backend_t" where
  "color_16bit_backend =
     \<lparr>ba_write_background = fd_graphics_color_16bit_write_background, ba_write_area = fd_graphics_color_16bit_write_area,
      ba_write_image = fd_graphics_color_16bit_write_image, ba_write_bitmap = fd_graphics_color_16bit_write_bitmap,
      ba_update = None, ba_display_on = None, ba_display_off = None\<rparr>"

definition fd_graphics_color_16bit_initialize ::
  "'d fd_graphics_backend_t \<Rightarrow> u8 list \<Rightarrow> nat \<Rightarrow> int \<Rightarrow> int \<Rightarrow> 'd fd_graphics_t \<Rightarrow> 'd fd_graphics_backend_t \<times> 'd fd_graphics_t" where
  "fd_graphics_color_16bit_initialize backend frame_buffer frame_buffer_size width height g =
     (with_painters color_16bit_backend backend,
      fd_graphics_initialize width height frame_buffer (g\<lparr>gr_frame_buffer_size := frame_buffer_size\<rparr>))"

section \<open>4 bit gray\<close>

definition fd_graphics_gray_4bit_rgb_to_4bit_gray :: "u32 \<Rightarrow> u32 \<Rightarrow> u32 \<Rightarrow> u32" where
  "fd_graphics_gray_4bit_rgb_to_4bit_gray r g b = drop_bit 4 ((r + g + b) div 3)"

definition fd_graphics_gray_4bit_color_to_4bit_gray :: "fd_graphics_color_t \<Rightarrow> u32" where
  "fd_graphics_gray_4bit_color_to_4bit_gray color =
     fd_graphics_gray_4bit_rgb_to_4bit_gray (ucast (color_r color)) (ucast (color_g color)) (ucast (color_b color))"

definition gray_4bit_index :: "int \<Rightarrow> int \<Rightarrow> int \<Rightarrow> u32" where
  "gray_4bit_index width x y = word_of_int y * word_of_int (width sdiv 2) + word_of_int (x sdiv 2)"

definition fd_graphics_gray_4bit_set_pixel :: "int \<Rightarrow> int \<Rightarrow> int \<Rightarrow> int \<Rightarrow> u32 \<Rightarrow> u8 list \<Rightarrow> u8 list option" where
  "fd_graphics_gray_4bit_set_pixel width height lx ly gray frame_buffer =
     do {
       (x, y) \<leftarrow> c_point (width - lx) (height - ly);
       (x, y) \<leftarrow> c_point (x - 1) (y - 1);
       let index = gray_4bit_index width x y;
       byte \<leftarrow> rd frame_buffer (unat index);
       let byte = (if odd x then (ucast byte AND 0xf0) OR gray else (ucast byte AND 0x0f) OR push_bit 4 gray);
       wr frame_buffer (unat index) (ucast byte)
     }"

text \<open>\<open>sizeof\<close> of the member \<open>frame_buffer_size\<close>, a \<open>size_t\<close>, is 4.\<close>

definition fd_graphics_gray_4bit_write_background :: "'d fd_graphics_t \<Rightarrow> 'd fd_graphics_t option" where
  "fd_graphics_gray_4bit_write_background g =
     (let gray = fd_graphics_gray_4bit_color_to_4bit_gray (gr_background g);
          byte = ucast (push_bit 4 gray OR gray)
      in on_buffer (\<lambda>frame_buffer. wr_block frame_buffer 0 (replicate 4 byte)) g)"

definition fd_graphics_gray_4bit_write_area :: "fd_graphics_area_t \<Rightarrow> 'd fd_graphics_t \<Rightarrow> 'd fd_graphics_t option" where
  "fd_graphics_gray_4bit_write_area unclipped_area g =
     do {
       area \<leftarrow> fd_graphics_area_intersection unclipped_area (gr_clipping g);
       let gray = fd_graphics_gray_4bit_color_to_4bit_gray (gr_foreground g);
       let dx = area_x area;
       let dy = area_y area;
       on_buffer (pixel_loop (area_width area) (area_height area) (\<lambda>cx cy frame_buffer. do {
         (x, y) \<leftarrow> c_point (dx + cx) (dy + cy);
         fd_graphics_gray_4bit_set_pixel (gr_width g) (gr_height g) x y gray frame_buffer
       })) g
     }"

definition fd_graphics_gray_4bit_write_image ::
  "int \<Rightarrow> int \<Rightarrow> fd_graphics_image_t \<Rightarrow> 'd fd_graphics_t \<Rightarrow> 'd fd_graphics_t option" where
  "fd_graphics_gray_4bit_write_image x y picture g =
     do {
       dst_area \<leftarrow> fd_graphics_area_intersection (image_area x y picture) (gr_clipping g);
       let dx = area_x dst_area;
       let dy = area_y dst_area;
       (sx, sy) \<leftarrow> c_point (dx - x) (dy - y);
       on_buffer (pixel_loop (area_width dst_area) (area_height dst_area) (\<lambda>cx cy frame_buffer. do {
         (u, v) \<leftarrow> c_point (sx + cx) (sy + cy);
         src \<leftarrow> fd_graphics_image_get_pixel picture u v;
         (r, g', b) \<leftarrow> rd3 (im_data picture) src;
         let gray = fd_graphics_gray_4bit_rgb_to_4bit_gray (ucast r) (ucast g') (ucast b);
         (px, py) \<leftarrow> c_point (dx + cx) (dy + cy);
         fd_graphics_gray_4bit_set_pixel (gr_width g) (gr_height g) px py gray frame_buffer
       })) g
     }"

text \<open>Here the foreground is mixed with the background colour, and the sums stay \<open>uint32_t\<close>.\<close>

definition gray_mix :: "u32 \<Rightarrow> u32 \<Rightarrow> u8 \<Rightarrow> u8 \<Rightarrow> u32" where
  "gray_mix max_alpha alpha f s = (ucast f * alpha + ucast s * (max_alpha - alpha)) div max_alpha"

definition fd_graphics_gray_4bit_write_bitmap ::
  "int \<Rightarrow> int \<Rightarrow> fd_graphics_bitmap_t \<Rightarrow> 'd fd_graphics_t \<Rightarrow> 'd fd_graphics_t option" where
  "fd_graphics_gray_4bit_write_bitmap rx ry bitmap g =
     do {
       unclipped_dst_area \<leftarrow> unclipped_bitmap_area rx ry bitmap;
       dst_area \<leftarrow> fd_graphics_area_intersection unclipped_dst_area (gr_clipping g);
       let dx = area_x dst_area;
       let dy = area_y dst_area;
       (sx, sy) \<leftarrow> c_point (dx - area_x unclipped_dst_area) (dy - area_y unclipped_dst_area);
       max_alpha \<leftarrow> bitmap_max bitmap;
       on_buffer (pixel_loop (area_width dst_area) (area_height dst_area) (\<lambda>cx cy frame_buffer. do {
          (u, v) \<leftarrow> c_point (sx + cx) (sy + cy);
          alpha \<leftarrow> fd_graphics_bitmap_get_pixel bitmap u v;
          (if max_alpha = 0 then None else Some ());
          let mix = (\<lambda>component. gray_mix max_alpha (word_of_int alpha) (component (gr_foreground g)) (component (gr_background g)));
          let gray = fd_graphics_gray_4bit_rgb_to_4bit_gray (mix color_r) (mix color_g) (mix color_b);
          (px, py) \<leftarrow> c_point (dx + cx) (dy + cy);
          fd_graphics_gray_4bit_set_pixel (gr_width g) (gr_height g) px py gray frame_buffer
       })) g
     }"

definition gray_4bit_backend :: "'d fd_graphics_backend_t" where
  "gray_4bit_backend =
     \<lparr>ba_write_background = fd_graphics_gray_4bit_write_background, ba_write_area = fd_graphics_gray_4bit_write_area,
      ba_write_image = fd_graphics_gray_4bit_write_image, ba_write_bitmap = fd_graphics_gray_4bit_write_bitmap,
      ba_update = None, ba_display_on = None, ba_display_off = None\<rparr>"

definition fd_graphics_gray_4bit_initialize ::
  "'d fd_graphics_backend_t \<Rightarrow> u8 list \<Rightarrow> nat \<Rightarrow> int \<Rightarrow> int \<Rightarrow> 'd fd_graphics_t \<Rightarrow> 'd fd_graphics_backend_t \<times> 'd fd_graphics_t" where
  "fd_graphics_gray_4bit_initialize backend frame_buffer frame_buffer_size width height g =
     (with_painters gray_4bit_backend backend,
      fd_graphics_initialize width height frame_buffer (g\<lparr>gr_frame_buffer_size := frame_buffer_size\<rparr>))"

end
