(* ===== verification/FD_GraphicsSpec.thy ===== *)
theory FD_GraphicsSpec imports FD_GraphicsColor begin

text \<open>
  What the drawing operations do to the picture.

  \<open>paints\<close> says of a step that it changes the pixels of a region and no others; the loops over an area are followed once, for
  any step (\<open>pixel_loop_paints\<close>). \<open>frame_buffer\<close> is what a backend's pixel operations promise, for any layout of the
  bytes, and \<open>rgb_buffer\<close> adds reading a pixel back: what drawing an area, an image or a bitmap does is proved inside them.
  The three backends are interpretations.
\<close>

section \<open>Areas\<close>

text \<open>The geometry, on integers of any size: the points of an area, inclusion, and the areas that two areas have in common and
  that surround them. The operations of the code give these as long as the fields and the ends of the areas are C \<open>int\<close>s.\<close>

definition area_has :: "fd_graphics_area_t \<Rightarrow> int \<Rightarrow> int \<Rightarrow> bool" where
  "area_has area x y \<longleftrightarrow>
     area_x area \<le> x \<and> x < area_x area + area_width area \<and> area_y area \<le> y \<and> y < area_y area + area_height area"

definition area_covers :: "fd_graphics_area_t \<Rightarrow> fd_graphics_area_t \<Rightarrow> bool" where
  "area_covers a b \<longleftrightarrow>
     area_x a \<le> area_x b \<and> area_y a \<le> area_y b \<and>
     area_x b + area_width b \<le> area_x a + area_width a \<and> area_y b + area_height b \<le> area_y a + area_height a"

definition area_cap :: "fd_graphics_area_t \<Rightarrow> fd_graphics_area_t \<Rightarrow> fd_graphics_area_t" where
  "area_cap a b =
     (let x = max (area_x a) (area_x b);
          x2 = min (area_x a + area_width a) (area_x b + area_width b);
          y = max (area_y a) (area_y b);
          y2 = min (area_y a + area_height a) (area_y b + area_height b)
      in if x \<le> x2 \<and> y \<le> y2 then \<lparr>area_x = x, area_y = y, area_width = x2 - x, area_height = y2 - y\<rparr>
         else fd_graphics_area_empty)"

definition area_meets :: "fd_graphics_area_t \<Rightarrow> fd_graphics_area_t \<Rightarrow> bool" where
  "area_meets a b \<longleftrightarrow> \<not> fd_graphics_area_is_empty (area_cap a b)"

definition area_cup :: "fd_graphics_area_t \<Rightarrow> fd_graphics_area_t \<Rightarrow> fd_graphics_area_t" where
  "area_cup a b =
     (if fd_graphics_area_is_empty a then b else if fd_graphics_area_is_empty b then a
      else let min_x = min (area_x a) (area_x b);
               max_x = max (area_x a + area_width a) (area_x b + area_width b);
               min_y = min (area_y a) (area_y b);
               max_y = max (area_y a + area_height a) (area_y b + area_height b)
           in \<lparr>area_x = min_x, area_y = min_y, area_width = max_x - min_x, area_height = max_y - min_y\<rparr>)"

definition area_ok :: "fd_graphics_area_t \<Rightarrow> bool" where
  "area_ok a \<longleftrightarrow> int_ok (area_x a) \<and> int_ok (area_y a) \<and> int_ok (area_width a) \<and> int_ok (area_height a) \<and>
     int_ok (area_x a + area_width a) \<and> int_ok (area_y a + area_height a)"

lemma area_operations_ok:
  assumes a: "area_ok a" shows "fd_graphics_area_contains_point a x y = Some (area_has a x y)"
    and "area_ok b \<Longrightarrow> fd_graphics_area_contains a b = Some (area_covers a b)"
  using a by (auto simp: area_ok_def fd_graphics_area_contains_point_def area_has_def fd_graphics_area_contains_def area_covers_def and_then_def)

lemma intersection_ok:
  assumes "area_ok a" "area_ok b" shows "fd_graphics_area_intersection a b = Some (area_cap a b)"
proof -
  have "area_cap a b = \<lparr>area_x = max (area_x a) (area_x b), area_y = max (area_y a) (area_y b), area_width = w, area_height = h\<rparr> \<Longrightarrow>
      0 \<le> w \<Longrightarrow> 0 \<le> h \<Longrightarrow> int_ok w \<and> int_ok h" for w h
    using assms by (auto simp: area_cap_def Let_def area_ok_def int_ok_def fd_graphics_area_empty_def split: if_splits)
  then show ?thesis using assms
    by (auto simp: fd_graphics_area_intersection_def area_cap_def Let_def area_ok_def)
qed

lemma intersects_ok: "area_ok a \<Longrightarrow> area_ok b \<Longrightarrow> fd_graphics_area_intersects a b = Some (area_meets a b)"
  by (simp add: fd_graphics_area_intersects_def intersection_ok area_meets_def)

lemma union_ok:
  assumes "area_ok a" "area_ok b" "area_ok (area_cup a b)" shows "fd_graphics_area_union a b = Some (area_cup a b)"
  using assms by (auto simp: fd_graphics_area_union_def area_cup_def Let_def area_ok_def)

text \<open>An image or a bitmap, and where it is drawn: the offset of the visible part is an \<open>int\<close>, too.\<close>

definition placed_ok :: "fd_graphics_area_t \<Rightarrow> bool" where
  "placed_ok a \<longleftrightarrow> area_ok a \<and> int_ok (- area_x a) \<and> int_ok (- area_y a)"

lemma offset_ok:
  assumes "placed_ok a" "area_ok b"
  shows "c_point (area_x (area_cap a b) - area_x a) (area_y (area_cap a b) - area_y a) =
    Some (area_x (area_cap a b) - area_x a, area_y (area_cap a b) - area_y a)"
proof -
  have "int_ok (area_x (area_cap a b) - area_x a)" "int_ok (area_y (area_cap a b) - area_y a)"
    using assms by (auto simp: area_cap_def Let_def placed_ok_def area_ok_def int_ok_def fd_graphics_area_empty_def)
  then show ?thesis by (rule c_point_ok)
qed

lemma place_ok:
  assumes "placed_ok a" "area_has a x y" shows "c_point (x - area_x a) (y - area_y a) = Some (x - area_x a, y - area_y a)"
  by (rule c_point_ok) (use assms in \<open>auto simp: placed_ok_def area_ok_def area_has_def int_ok_def\<close>)

lemma contains_point_intersection [simp]:
  "area_has (area_cap a b) x y \<longleftrightarrow>
     area_has a x y \<and> area_has b x y"
  by (auto simp: area_has_def area_cap_def fd_graphics_area_empty_def Let_def)

lemma contains_point_empty [simp]: "\<not> area_has fd_graphics_area_empty x y"
  by (simp add: area_has_def fd_graphics_area_empty_def)

lemma contains_point_is_empty: "fd_graphics_area_is_empty a \<Longrightarrow> \<not> area_has a x y"
  by (auto simp: area_has_def fd_graphics_area_is_empty_def)

lemma contains_point_union:
  "area_has a x y \<or> area_has b x y \<Longrightarrow>
     area_has (area_cup a b) x y"
  using contains_point_is_empty[of a x y] contains_point_is_empty[of b x y]
  by (auto simp: area_cup_def Let_def) (auto simp: area_has_def)

lemma contains_contains_point:
  "area_covers a b \<Longrightarrow> area_has b x y \<Longrightarrow> area_has a x y"
  by (auto simp: area_covers_def area_has_def)

lemma not_intersects:
  "\<not> area_meets a b \<Longrightarrow> area_has a x y \<Longrightarrow> \<not> area_has b x y"
  using contains_point_is_empty[of "area_cap a b" x y] by (auto simp: area_meets_def)

lemma intersection_is_empty:
  "0 \<le> area_width (area_cap a b)" "0 \<le> area_height (area_cap a b)"
  by (simp_all add: area_cap_def fd_graphics_area_empty_def Let_def)

section \<open>Painting\<close>

text \<open>A step paints a region when it succeeds, keeps the buffer valid, changes the pixels of the region, each by a function of
  what it was, and leaves the others alone.\<close>

definition paints ::
  "(u8 list \<Rightarrow> bool) \<Rightarrow> (u8 list \<Rightarrow> int \<Rightarrow> int \<Rightarrow> 'c) \<Rightarrow> (int \<Rightarrow> int \<Rightarrow> bool) \<Rightarrow> (int \<Rightarrow> int \<Rightarrow> 'c \<Rightarrow> 'c) \<Rightarrow>
     u8 list \<Rightarrow> u8 list option \<Rightarrow> bool" where
  "paints valid pixel region new b r \<longleftrightarrow>
     (\<exists>b'. r = Some b' \<and> valid b' \<and>
       (\<forall>x y. pixel b' x y = (if region x y then new x y (pixel b x y) else pixel b x y)))"

lemma for_loop_paints:
  assumes "valid b" "\<And>j b. valid b \<Longrightarrow> i \<le> j \<Longrightarrow> j < i + int n \<Longrightarrow> paints valid pixel (R j) new b (body j b)"
    and "\<And>j k x y. R j x y \<Longrightarrow> R k x y \<Longrightarrow> j = k"
  shows "paints valid pixel (\<lambda>x y. \<exists>j. i \<le> j \<and> j < i + int n \<and> R j x y) new b (for_loop i n body b)"
  using assms(1,2)
proof (induction n arbitrary: i b)
  case (0 i b)
  have none: "\<not> (\<exists>j\<ge>i. j < i \<and> R j x y)" for x y by auto
  show ?case using 0 by (simp add: paints_def none)
next
  case (Suc n i b)
  have "paints valid pixel (R i) new b (body i b)" using Suc.prems by simp
  then obtain b1 where b1: "body i b = Some b1" "valid b1"
    "\<And>x y. pixel b1 x y = (if R i x y then new x y (pixel b x y) else pixel b x y)"
    by (auto simp: paints_def)
  have "paints valid pixel (\<lambda>x y. \<exists>j. i + 1 \<le> j \<and> j < i + 1 + int n \<and> R j x y) new b1 (for_loop (i + 1) n body b1)"
    using Suc.prems(2) b1(2) by (intro Suc.IH) simp_all
  then obtain b2 where b2: "for_loop (i + 1) n body b1 = Some b2" "valid b2"
    "\<And>x y. pixel b2 x y = (if \<exists>j. i + 1 \<le> j \<and> j < i + 1 + int n \<and> R j x y then new x y (pixel b1 x y) else pixel b1 x y)"
    by (auto simp: paints_def)
  define later where "later x y \<longleftrightarrow> (\<exists>j. i + 1 \<le> j \<and> j < i + 1 + int n \<and> R j x y)" for x y
  have later: "i + 1 \<le> j \<Longrightarrow> j < i + 1 + int n \<Longrightarrow> R j x y \<Longrightarrow> later x y" for j x y by (auto simp: later_def)
  have "(\<exists>j. i \<le> j \<and> j < i + int (Suc n) \<and> R j x y) \<longleftrightarrow> R i x y \<or> later x y" for x y
  proof
    assume "\<exists>j. i \<le> j \<and> j < i + int (Suc n) \<and> R j x y"
    then obtain j where j: "i \<le> j" "j < i + int (Suc n)" "R j x y" by blast
    then show "R i x y \<or> later x y" using later[of j x y] by (cases "j = i") simp_all
  next
    assume "R i x y \<or> later x y"
    then show "\<exists>j. i \<le> j \<and> j < i + int (Suc n) \<and> R j x y"
    proof
      assume "R i x y"
      then show ?thesis by (intro exI[of _ i]) simp
    next
      assume "later x y"
      then obtain j where "i + 1 \<le> j" "j < i + 1 + int n" "R j x y" by (auto simp: later_def)
      then show ?thesis by (intro exI[of _ j]) simp
    qed
  qed
  moreover have "\<not> later x y" if "R i x y" for x y
    using assms(3)[OF that] by (auto simp: later_def)
  ultimately show ?case using b1 b2(1,2) b2(3)[folded later_def] by (simp add: paints_def)
qed

lemma pixel_loop_paints:
  assumes "valid b" "0 \<le> w" "0 \<le> h"
    and "\<And>cx cy b. valid b \<Longrightarrow> 0 \<le> cx \<Longrightarrow> cx < w \<Longrightarrow> 0 \<le> cy \<Longrightarrow> cy < h \<Longrightarrow>
      paints valid pixel (\<lambda>x y. x = dx + cx \<and> y = dy + cy) new b (body cx cy b)"
  shows "paints valid pixel (area_has \<lparr>area_x = dx, area_y = dy, area_width = w, area_height = h\<rparr>) new b
    (pixel_loop w h body b)"
proof -
  have iw: "0 + int (nat w) = w" and ih: "0 + int (nat h) = h" using assms(2,3) by simp_all
  have row: "paints valid pixel (\<lambda>x y. \<exists>cx. 0 \<le> cx \<and> cx < w \<and> x = dx + cx \<and> y = dy + cy) new b
      (for_loop 0 (nat w) (\<lambda>cx. body cx cy) b)" if "valid b" "0 \<le> cy" "cy < h" for cy b
    by (rule for_loop_paints[where i = 0 and n = "nat w", unfolded iw]) (use assms(4) that in auto)
  have "paints valid pixel (\<lambda>x y. \<exists>cy. 0 \<le> cy \<and> cy < h \<and> (\<exists>cx. 0 \<le> cx \<and> cx < w \<and> x = dx + cx \<and> y = dy + cy)) new b
      (for_loop 0 (nat h) (\<lambda>cy. for_loop 0 (nat w) (\<lambda>cx. body cx cy)) b)"
    by (rule for_loop_paints[where i = 0 and n = "nat h", unfolded ih]) (use assms(1) row in auto)
  moreover have "(\<lambda>x y. \<exists>cy. 0 \<le> cy \<and> cy < h \<and> (\<exists>cx. 0 \<le> cx \<and> cx < w \<and> x = dx + cx \<and> y = dy + cy)) =
      area_has \<lparr>area_x = dx, area_y = dy, area_width = w, area_height = h\<rparr>"
    by (intro ext) (auto simp: area_has_def, presburger)
  ultimately show ?thesis by (simp add: pixel_loop_def)
qed

text \<open>A frame buffer: what is stored at a pixel is read back there, and nowhere else.\<close>

definition on_screen :: "int \<Rightarrow> int \<Rightarrow> int \<Rightarrow> int \<Rightarrow> bool" where
  "on_screen width height x y \<longleftrightarrow> 0 \<le> x \<and> x < width \<and> 0 \<le> y \<and> y < height"

definition paints_display ::
  "(u8 list \<Rightarrow> bool) \<Rightarrow> (u8 list \<Rightarrow> int \<Rightarrow> int \<Rightarrow> 'c) \<Rightarrow> (int \<Rightarrow> int \<Rightarrow> bool) \<Rightarrow> (int \<Rightarrow> int \<Rightarrow> 'c \<Rightarrow> 'c) \<Rightarrow>
     'd fd_graphics_t \<Rightarrow> 'd fd_graphics_t option \<Rightarrow> bool" where
  "paints_display valid pixel region new g r \<longleftrightarrow>
     (\<exists>b. r = Some (g\<lparr>gr_buffer := b\<rparr>) \<and> valid b \<and>
       (\<forall>x y. pixel b x y = (if region x y then new x y (pixel (gr_buffer g) x y) else pixel (gr_buffer g) x y)))"

lemma paints_on_buffer:
  "paints valid pixel region new (gr_buffer g) (f (gr_buffer g)) \<Longrightarrow> paints_display valid pixel region new g (on_buffer f g)"
  by (auto simp: paints_def paints_display_def on_buffer_def)

lemma contains_screen:
  "area_covers (screen_area g) a \<Longrightarrow> area_has a x y \<Longrightarrow> on_screen (gr_width g) (gr_height g) x y"
  by (auto simp: area_covers_def area_has_def on_screen_def screen_area_def)

locale frame_buffer =
  fixes width height :: int
    and valid :: "u8 list \<Rightarrow> bool"
    and pixel :: "u8 list \<Rightarrow> int \<Rightarrow> int \<Rightarrow> 'c"
    and fits :: "'v \<Rightarrow> bool"
    and stored :: "'v \<Rightarrow> 'c"
    and set_pixel :: "int \<Rightarrow> int \<Rightarrow> 'v \<Rightarrow> u8 list \<Rightarrow> u8 list option"
  assumes set_pixel: "valid b \<Longrightarrow> on_screen width height x y \<Longrightarrow> fits v \<Longrightarrow>
      paints valid pixel (\<lambda>x' y'. x' = x \<and> y' = y) (\<lambda>_ _ _. stored v) b (set_pixel x y v b)"
    and size: "valid b \<Longrightarrow> int_ok width \<and> int_ok height"
begin

lemma point_ok: "valid b \<Longrightarrow> on_screen width height x y \<Longrightarrow> c_point x y = Some (x, y)"
  using size[of b] by (intro c_point_ok) (auto simp: on_screen_def int_ok_def)

lemma loop:
  assumes "valid b" "\<And>x y. area_has area x y \<Longrightarrow> on_screen width height x y"
    "0 \<le> area_width area" "0 \<le> area_height area"
    and body: "\<And>cx cy b. valid b \<Longrightarrow> area_has area (area_x area + cx) (area_y area + cy) \<Longrightarrow>
      \<exists>v. body cx cy b = set_pixel (area_x area + cx) (area_y area + cy) v b \<and> fits v \<and>
        stored v = new (area_x area + cx) (area_y area + cy) (pixel b (area_x area + cx) (area_y area + cy))"
  shows "paints valid pixel (area_has area) new b (pixel_loop (area_width area) (area_height area) body b)"
proof -
  have area: "area = \<lparr>area_x = area_x area, area_y = area_y area, area_width = area_width area, area_height = area_height area\<rparr>"
    by simp
  have step: "paints valid pixel (\<lambda>x y. x = area_x area + cx \<and> y = area_y area + cy) new b (body cx cy b)"
    if c: "valid b" "0 \<le> cx" "cx < area_width area" "0 \<le> cy" "cy < area_height area" for cx cy b
  proof -
    have "area_has area (area_x area + cx) (area_y area + cy)"
      using c by (simp add: area_has_def)
    moreover from body[OF c(1) this] obtain v where v: "body cx cy b = set_pixel (area_x area + cx) (area_y area + cy) v b" "fits v"
      "stored v = new (area_x area + cx) (area_y area + cy) (pixel b (area_x area + cx) (area_y area + cy))" by blast
    ultimately show ?thesis using set_pixel[OF c(1) assms(2) v(2), of "area_x area + cx" "area_y area + cy"] v(1,3)
      by (auto simp: paints_def)
  qed
  show ?thesis using pixel_loop_paints[OF assms(1,3,4) step] by (simp only: area[symmetric])
qed

lemma display_loop:
  assumes v: "valid (gr_buffer g)" and size: "gr_width g = width" "gr_height g = height"
    and c: "area_covers (screen_area g) (gr_clipping g)"
    and a': "area' = area_cap area (gr_clipping g)"
    and body: "\<And>cx cy b. valid b \<Longrightarrow> area_has area (area_x area' + cx) (area_y area' + cy) \<Longrightarrow>
      on_screen width height (area_x area' + cx) (area_y area' + cy) \<Longrightarrow>
      \<exists>v. body cx cy b = set_pixel (area_x area' + cx) (area_y area' + cy) v b \<and> fits v \<and>
        stored v = new (area_x area' + cx) (area_y area' + cy) (pixel b (area_x area' + cx) (area_y area' + cy))"
  shows "paints_display valid pixel (\<lambda>x y. area_has area x y \<and> area_has (gr_clipping g) x y)
    new g (on_buffer (pixel_loop (area_width area') (area_height area') body) g)"
proof (rule paints_on_buffer)
  have on: "on_screen width height x y" if "area_has area' x y" for x y
    using contains_screen[OF c] that by (simp add: a' size)
  have inside: "area_has area' x y \<Longrightarrow> area_has area x y" for x y
    by (simp add: a')
  have "0 \<le> area_width area'" "0 \<le> area_height area'"
    using intersection_is_empty[of area "gr_clipping g"] by (simp_all add: a')
  then have "paints valid pixel (area_has area') new (gr_buffer g)
      (pixel_loop (area_width area') (area_height area') body (gr_buffer g))"
    by (intro loop[OF v on] body inside on)
  moreover have "area_has area' =
      (\<lambda>x y. area_has area x y \<and> area_has (gr_clipping g) x y)"
    by (intro ext) (simp add: a')
  ultimately show "paints valid pixel
      (\<lambda>x y. area_has area x y \<and> area_has (gr_clipping g) x y) new (gr_buffer g)
      (pixel_loop (area_width area') (area_height area') body (gr_buffer g))" by simp
qed

end

section \<open>Colours, images and bitmaps\<close>

text \<open>The arithmetic of the index.\<close>

lemma position_bounds:
  assumes "on_screen w h x y" shows "0 \<le> y * w + x" "y * w + x < w * h"
proof -
  have x: "0 \<le> x" "x < w" and y: "0 \<le> y" "y + 1 \<le> h" using assms by (auto simp: on_screen_def)
  have "(y + 1) * w \<le> h * w" using x y by (intro mult_right_mono) simp_all
  then show "0 \<le> y * w + x" "y * w + x < w * h" using x y by (simp_all add: algebra_simps)
qed

lemma position_inj:
  assumes "on_screen w h x y" "on_screen w h x' y'" "y * w + x = y' * w + x'" shows "x = x' \<and> y = y'"
proof -
  have "(y * w + x) div w = y" "(y' * w + x') div w = y'" using assms(1,2) by (auto simp: on_screen_def)
  then have "y = y'" using assms(3) by simp
  then show ?thesis using assms(3) by simp
qed

text \<open>The index of the first byte of a pixel of \<open>m\<close> bytes.\<close>

lemma unat_word_of_int: "0 \<le> k \<Longrightarrow> k < 2 ^ 32 \<Longrightarrow> unat (word_of_int k :: u32) = nat k"
  by (simp add: unsigned_of_int take_bit_int_eq_self)

lemma unat_index:
  assumes "on_screen w h x y" "m * (w * h) < 2 ^ 31" "0 \<le> k" "k < m"
  shows "unat (word_of_int (m * (y * w + x) + k) :: u32) = nat (m * (y * w + x)) + nat k"
proof -
  have p: "0 \<le> y * w + x" "y * w + x + 1 \<le> w * h" using position_bounds[OF assms(1)] by simp_all
  have "m * (y * w + x + 1) \<le> m * (w * h)" using p assms(3,4) by (intro mult_left_mono) simp_all
  then have "m * (y * w + x) + k < 2 ^ 32" using assms(2-4) by (simp add: algebra_simps)
  moreover have "0 \<le> m * (y * w + x)" using p(1) assms(3,4) by (intro mult_nonneg_nonneg) simp_all
  ultimately show ?thesis using assms(3) unat_word_of_int[of "m * (y * w + x) + k"] nat_add_distrib[of "m * (y * w + x)" k] by simp
qed

lemma position_room:
  assumes "on_screen w h x y" "m * (w * h) \<le> int n" "k < m" "0 \<le> k" shows "nat (m * (y * w + x)) + nat k < n"
proof -
  have p: "0 \<le> y * w + x" "y * w + x + 1 \<le> w * h" using position_bounds[OF assms(1)] by simp_all
  have "m * (y * w + x + 1) \<le> m * (w * h)" using p assms(3,4) by (intro mult_left_mono) simp_all
  then have "m * (y * w + x) + k < int n" using assms(2-4) by (simp add: algebra_simps)
  moreover have "0 \<le> m * (y * w + x)" using p(1) assms(3,4) by (intro mult_nonneg_nonneg) simp_all
  ultimately show ?thesis using assms(4) by linarith
qed

lemma position_apart:
  assumes "on_screen w h x y" "on_screen w h x' y'" "\<not> (x' = x \<and> y' = y)" "k < nat m" "l < nat m"
  shows "nat (m * (y' * w + x')) + k \<noteq> nat (m * (y * w + x)) + l"
proof -
  have p: "0 \<le> y * w + x" "0 \<le> y' * w + x'" using position_bounds[OF assms(1)] position_bounds[OF assms(2)] by simp_all
  define i j where "i = nat (y' * w + x')" and "j = nat (y * w + x)"
  have "i \<noteq> j" using position_inj[OF assms(2,1)] assms(3) eq_nat_nat_iff[OF p(2,1)] unfolding i_def j_def by blast
  have m: "nat (m * (y' * w + x')) = nat m * i" "nat (m * (y * w + x)) = nat m * j"
    using p assms(4) by (simp_all add: i_def j_def nat_mult_distrib)
  have "(nat m * i + k) div nat m = i" "(nat m * j + l) div nat m = j" using assms(4,5) by simp_all
  then show ?thesis using \<open>i \<noteq> j\<close> unfolding m by metis
qed

definition image_pixel :: "fd_graphics_image_t \<Rightarrow> int \<Rightarrow> int \<Rightarrow> u8 \<times> rgb" where
  "image_pixel picture x y =
     (let i = nat ((y * im_width picture + x) * 4); d = im_data picture in (d ! i, d ! (i + 1), d ! (i + 2), d ! (i + 3)))"

text \<open>An image whose pixels are all in its data, with a size in bytes that is an \<open>int\<close>.\<close>

definition image_ok :: "fd_graphics_image_t \<Rightarrow> bool" where
  "image_ok picture \<longleftrightarrow>
     im_width picture * im_height picture * 4 \<le> int (length (im_data picture)) \<and> im_width picture * im_height picture * 4 < 2 ^ 31"

lemma image_argb:
  assumes "on_screen (im_width picture) (im_height picture) x y" "image_ok picture"
  shows "image_argb picture x y = Some (image_pixel picture x y)"
proof -
  have p: "0 \<le> y * im_width picture + x" "y * im_width picture + x < im_width picture * im_height picture" using position_bounds[OF assms(1)] by simp_all
  define i where "i = y * im_width picture + x"
  have n: "nat (i * 4) + 3 < length (im_data picture)"
    using p assms(2)[unfolded image_ok_def, THEN conjunct1] unfolding i_def[symmetric] by linarith
  have "y * im_width picture \<le> i" "0 \<le> y * im_width picture" "0 \<le> i"
    using assms(1) p by (auto simp: i_def on_screen_def)
  moreover have "i * 4 < 2 ^ 31" using p(2)[folded i_def] assms(2)[unfolded image_ok_def, THEN conjunct2] by (metis mult_strict_right_mono order.strict_trans zero_less_numeral)
  ultimately have "int_ok (y * im_width picture)" "int_ok i" "int_ok (i * 4)" by (auto simp: int_ok_def)
  then have src: "fd_graphics_image_get_pixel_argb picture x y = Some (i * 4)"
    by (simp add: fd_graphics_image_get_pixel_argb_def i_def)
  have "nat (i * 4 + 1) = nat (i * 4) + 1" "nat (i * 4 + 2) = nat (i * 4) + 2" "nat (i * 4 + 3) = nat (i * 4) + 3" "0 \<le> i"
    using p by (simp_all add: i_def nat_add_distrib)
  then show ?thesis using n
    by (simp add: image_argb_def image_pixel_def src rd3_def rd_at_def mem_simps Let_def i_def[symmetric] add.assoc)
qed

text \<open>A bitmap whose rows and columns are all in its data, with pixels that do not straddle bytes, and with a size in bits of a
  row and in bytes of the whole that is an \<open>int\<close>.\<close>

definition bitmap_stride :: "fd_graphics_bitmap_t \<Rightarrow> int" where
  "bitmap_stride bitmap = (bm_width bitmap * bm_depth bitmap + 7) div 8"

definition bitmap_ok :: "fd_graphics_bitmap_t \<Rightarrow> bool" where
  "bitmap_ok bitmap \<longleftrightarrow> bm_depth bitmap \<in> {1, 2, 4, 8} \<and> bm_height bitmap * bitmap_stride bitmap \<le> int (length (bm_data bitmap)) \<and>
     bm_width bitmap * bm_depth bitmap + 7 < 2 ^ 31 \<and> bm_height bitmap * bitmap_stride bitmap < 2 ^ 31"

definition bitmap_alpha :: "fd_graphics_bitmap_t \<Rightarrow> int \<Rightarrow> int \<Rightarrow> int" where
  "bitmap_alpha bitmap x y =
     uint (bm_data bitmap ! nat (y * bitmap_stride bitmap + x * bm_depth bitmap div 8))
       div 2 ^ nat (8 - bm_depth bitmap - x * bm_depth bitmap mod 8) mod 2 ^ nat (bm_depth bitmap)"

lemma bitmap_mask:
  assumes "d \<in> {1, 2, 4, 8 :: nat}" "s + d \<le> 8"
  shows "uint (drop_bit (8 - d - s) ((ucast (byte :: u8) :: u32) AND drop_bit s ((drop_bit d 0xff00 :: u32) AND 0xff))) =
    uint byte div 2 ^ (8 - d - s) mod 2 ^ d"
proof -
  have "drop_bit s ((drop_bit d 0xff00 :: u32) AND 0xff) = push_bit (8 - d - s) (mask d)"
  proof -
    have "s \<in> {0..<8}" using assms by auto
    then have "s = 0 \<or> s = 1 \<or> s = 2 \<or> s = 3 \<or> s = 4 \<or> s = 5 \<or> s = 6 \<or> s = 7" by auto
    then show ?thesis using assms by (elim disjE insertE) (simp_all add: mask_eq_exp_minus_1)
  qed
  moreover have "drop_bit k ((ucast byte :: u32) AND push_bit k (mask d)) = take_bit d (drop_bit k (ucast byte))" for k
    by (rule bit_word_eqI) (auto simp: bit_simps)
  moreover have "uint (drop_bit k w) = uint w div 2 ^ k" "uint (take_bit d w) = uint w mod 2 ^ d" for k and w :: u32
    by (metis unat_drop_bit uint_nat of_nat_div of_nat_power of_nat_numeral, simp only: unsigned_take_bit_eq take_bit_int_def)
  ultimately show ?thesis by (simp only: uint_up_ucast is_up) (simp add: uint_up_ucast is_up)
qed

lemma sdiv_nonneg: "0 \<le> a \<Longrightarrow> 0 < b \<Longrightarrow> a sdiv b = a div b" "0 \<le> a \<Longrightarrow> 0 < b \<Longrightarrow> a smod b = a mod b" for a b :: int
  by (cases "a = 0"; simp add: signed_divide_int_def signed_modulo_int_def)+

lemma bitmap_row: "a < w \<Longrightarrow> a div 8 < (w + 7) div 8" for a w :: int
  by presburger

lemma bitmap_get_pixel:
  assumes "bitmap_ok bitmap" "on_screen (bm_width bitmap) (bm_height bitmap) x y"
  shows "fd_graphics_bitmap_get_pixel bitmap x y = Some (bitmap_alpha bitmap x y)"
proof -
  define d where "d = bm_depth bitmap"
  define i where "i = y * bitmap_stride bitmap + x * d div 8"
  have d: "d = 1 \<or> d = 2 \<or> d = 4 \<or> d = 8" using assms(1) by (auto simp: bitmap_ok_def d_def)
  have xy: "0 \<le> x" "x + 1 \<le> bm_width bitmap" "0 \<le> y" "y + 1 \<le> bm_height bitmap" using assms(2) by (auto simp: on_screen_def)
  have s: "x * d mod 8 + d \<le> 8" using d by (elim disjE; simp; presburger)
  have "(x + 1) * d \<le> bm_width bitmap * d" using xy(2) d by (intro mult_right_mono) auto
  then have "x * d < bm_width bitmap * d" using d by (auto simp: algebra_simps)
  then have "x * d div 8 < bitmap_stride bitmap"
    unfolding bitmap_stride_def d_def[symmetric] by (rule bitmap_row)
  then have "i < (y + 1) * bitmap_stride bitmap" and st: "0 \<le> bitmap_stride bitmap"
    using xy d by (auto simp: i_def algebra_simps intro: order.trans[OF _ less_imp_le] pos_imp_zdiv_nonneg_iff[THEN iffD2])
  moreover have "(y + 1) * bitmap_stride bitmap \<le> bm_height bitmap * bitmap_stride bitmap"
    using xy(4) st by (intro mult_right_mono)
  ultimately have "i < int (length (bm_data bitmap))" "0 \<le> i"
    using assms(1) xy d st by (auto simp: bitmap_ok_def i_def)
  moreover have "y * bitmap_stride bitmap \<le> i" "0 \<le> y * bitmap_stride bitmap" "i < 2 ^ 31"
    using xy d st assms(1) \<open>i < (y + 1) * bitmap_stride bitmap\<close>
      \<open>(y + 1) * bitmap_stride bitmap \<le> bm_height bitmap * bitmap_stride bitmap\<close>
    by (auto simp: i_def bitmap_ok_def)
  moreover have "0 \<le> x * d" "x * d < bm_width bitmap * d" "bm_width bitmap * d + 7 < 2 ^ 31"
    using xy d \<open>x * d < bm_width bitmap * d\<close> assms(1) by (auto simp: bitmap_ok_def d_def)
  ultimately have ints: "int_ok (bm_width bitmap * d)" "int_ok (bm_width bitmap * d + 7)" "int_ok (y * bitmap_stride bitmap)"
    "int_ok (x * d)" "int_ok i" and "i < int (length (bm_data bitmap))" "0 \<le> i"
    by (auto simp: int_ok_def)
  then have byte: "rd_at (bm_data bitmap) i = Some (bm_data bitmap ! nat i)"
    by (simp add: rd_at_def rd_def)
  have n: "nat (8 - d - x * d mod 8) = 8 - nat d - nat (x * d mod 8)" using d by auto
  have m: "nat d \<in> {1, 2, 4, 8}" "nat (x * d mod 8) + nat d \<le> 8" using d s by auto
  have w: "0 \<le> bm_width bitmap * d + 7" "0 \<le> x * d" "0 \<le> x * d mod 8" using xy d by auto
  have stride: "(bm_width bitmap * d + 7) sdiv 8 = bitmap_stride bitmap"
    using w(1) by (simp add: sdiv_nonneg bitmap_stride_def d_def)
  have shift: "(x * d) sdiv 8 = x * d div 8" "(x * d) smod 8 = x * d mod 8" using w(2) by (simp_all add: sdiv_nonneg)
  have c: "\<not> (d < 0 \<or> 32 \<le> d)" "\<not> (x * d mod 8 < 0 \<or> 8 - d - x * d mod 8 < 0)" using d s w(3) by auto
  show ?thesis
    unfolding fd_graphics_bitmap_get_pixel_def d_def[symmetric] c_int_ok[OF ints(1)] c_int_ok[OF ints(2)] bind.bind_lunit Let_def stride
      if_not_P[OF c(1)] c_int_ok[OF ints(3)] c_int_ok[OF ints(4)] shift i_def[symmetric] c_int_ok[OF ints(5)] if_not_P[OF c(2)] byte
    unfolding n bitmap_mask[OF m]
    by (simp only: bitmap_alpha_def i_def d_def n[unfolded d_def])
qed

lemma bitmap_alpha_bounds: "bitmap_ok bitmap \<Longrightarrow> 0 \<le> bitmap_alpha bitmap x y \<and> bitmap_alpha bitmap x y < 2 ^ nat (bm_depth bitmap)"
  by (simp add: bitmap_alpha_def)

lemma bitmap_ok_max:
  assumes "bitmap_ok bitmap"
  shows "bitmap_max bitmap = Some (2 ^ nat (bm_depth bitmap) - 1)" "(2 ^ nat (bm_depth bitmap) - 1 :: u32) \<noteq> 0"
  using assms by (auto simp: bitmap_ok_def bitmap_max_def push_bit_eq_mult)

section \<open>Colour displays\<close>

text \<open>A colour backend reads back the colour of a pixel, and so can mix an image or a bitmap into the picture.\<close>

definition bitmap_area :: "int \<Rightarrow> int \<Rightarrow> fd_graphics_bitmap_t \<Rightarrow> fd_graphics_area_t" where
  "bitmap_area rx ry bitmap =
     \<lparr>area_x = rx - point_x (bm_origin bitmap), area_y = ry - point_y (bm_origin bitmap),
      area_width = bm_width bitmap, area_height = bm_height bitmap\<rparr>"

lemma bitmap_area_ok: "placed_ok (bitmap_area rx ry bitmap) \<Longrightarrow> unclipped_bitmap_area rx ry bitmap = Some (bitmap_area rx ry bitmap)"
  by (simp add: unclipped_bitmap_area_def bitmap_area_def placed_ok_def area_ok_def)

locale rgb_buffer = frame_buffer width height valid pixel "\<lambda>_. True" stored set_pixel
  for width height :: int and valid :: "u8 list \<Rightarrow> bool" and pixel :: "u8 list \<Rightarrow> int \<Rightarrow> int \<Rightarrow> rgb"
    and stored :: "rgb \<Rightarrow> rgb" and set_pixel :: "int \<Rightarrow> int \<Rightarrow> rgb \<Rightarrow> u8 list \<Rightarrow> u8 list option" +
  fixes get_pixel :: "int \<Rightarrow> int \<Rightarrow> u8 list \<Rightarrow> rgb option"
  assumes get_pixel: "valid b \<Longrightarrow> on_screen width height x y \<Longrightarrow> get_pixel x y b = Some (pixel b x y)"
begin

lemma write_area:
  assumes "valid (gr_buffer g)" "gr_width g = width" "gr_height g = height" "area_covers (screen_area g) (gr_clipping g)"
    "area' = area_cap area (gr_clipping g)"
  shows "paints_display valid pixel (\<lambda>x y. area_has area x y \<and> area_has (gr_clipping g) x y)
    (\<lambda>x y p. stored color) g
    (on_buffer (pixel_loop (area_width area') (area_height area') (\<lambda>cx cy b. do {
       (x, y) \<leftarrow> c_point (area_x area' + cx) (area_y area' + cy);
       set_pixel x y color b
     })) g)"
proof (rule display_loop[OF assms])
  fix cx cy b
  let ?x = "area_x area' + cx" and ?y = "area_y area' + cy"
  assume v: "valid b" and o: "on_screen width height ?x ?y"
  show "\<exists>v. (do { (x, y) \<leftarrow> c_point ?x ?y; set_pixel x y color b }) = set_pixel ?x ?y v b \<and> True \<and> stored v = stored color"
    unfolding point_ok[OF v o] bind.bind_lunit prod.case by blast
qed

lemma mix_bitmap:
  fixes rx ry :: int and bitmap :: fd_graphics_bitmap_t
  defines "a \<equiv> bitmap_area rx ry bitmap"
  assumes "valid (gr_buffer g)" "gr_width g = width" "gr_height g = height" "area_covers (screen_area g) (gr_clipping g)"
    "area' = area_cap a (gr_clipping g)" and ok: "bitmap_ok bitmap" "placed_ok a"
  shows "paints_display valid pixel
    (\<lambda>x y. area_has a x y \<and> area_has (gr_clipping g) x y)
    (\<lambda>x y p. stored (blend_rgb (2 ^ nat (bm_depth bitmap) - 1) (word_of_int (bitmap_alpha bitmap (x - area_x a) (y - area_y a))) color p)) g
    (on_buffer (pixel_loop (area_width area') (area_height area') (\<lambda>cx cy b. do {
       (u, v) \<leftarrow> c_point (area_x area' - area_x a + cx) (area_y area' - area_y a + cy);
       (x, y) \<leftarrow> c_point (area_x area' + cx) (area_y area' + cy);
       old \<leftarrow> get_pixel x y b;
       mixed \<leftarrow> bitmap_blend bitmap (2 ^ nat (bm_depth bitmap) - 1) u v color old;
       set_pixel x y mixed b
     })) g)"
proof (rule display_loop[OF assms(2-6)])
  fix cx cy b
  let ?x = "area_x area' + cx" and ?y = "area_y area' + cy"
  assume v: "valid b" and c: "area_has a ?x ?y" and o: "on_screen width height ?x ?y"
  have e: "area_x area' - area_x a + cx = ?x - area_x a" "area_y area' - area_y a + cy = ?y - area_y a" by simp_all
  have "on_screen (bm_width bitmap) (bm_height bitmap) (?x - area_x a) (?y - area_y a)"
    using c by (auto simp: a_def area_has_def bitmap_area_def on_screen_def)
  from bitmap_get_pixel[OF ok(1) this]
  have blend: "bitmap_blend bitmap (2 ^ nat (bm_depth bitmap) - 1) (?x - area_x a) (?y - area_y a) color p =
    Some (blend_rgb (2 ^ nat (bm_depth bitmap) - 1) (word_of_int (bitmap_alpha bitmap (?x - area_x a) (?y - area_y a))) color p)" for p
    by (simp only: bitmap_blend_def bind.bind_lunit if_not_P[OF bitmap_ok_max(2)[OF ok(1)]])
  show "\<exists>v. (do { (u, v) \<leftarrow> c_point (area_x area' - area_x a + cx) (area_y area' - area_y a + cy);
       (x, y) \<leftarrow> c_point ?x ?y;
       old \<leftarrow> get_pixel x y b;
       mixed \<leftarrow> bitmap_blend bitmap (2 ^ nat (bm_depth bitmap) - 1) u v color old;
       set_pixel x y mixed b }) = set_pixel ?x ?y v b \<and> True \<and> stored v =
    stored (blend_rgb (2 ^ nat (bm_depth bitmap) - 1) (word_of_int (bitmap_alpha bitmap (?x - area_x a) (?y - area_y a))) color (pixel b ?x ?y))"
    unfolding e place_ok[OF ok(2) c] point_ok[OF v o] bind.bind_lunit prod.case get_pixel[OF v o] blend by blast
qed

lemma mix_image:
  fixes x y :: int and picture :: fd_graphics_image_t
  defines "a \<equiv> image_area x y picture"
  assumes "valid (gr_buffer g)" "gr_width g = width" "gr_height g = height" "area_covers (screen_area g) (gr_clipping g)"
    "area' = area_cap a (gr_clipping g)" and ok: "image_ok picture" "placed_ok a"
  shows "paints_display valid pixel
    (\<lambda>x' y'. area_has a x' y' \<and> area_has (gr_clipping g) x' y')
    (\<lambda>x' y' p. stored (case image_pixel picture (x' - x) (y' - y) of (alpha, s) \<Rightarrow> blend_rgb 255 (ucast alpha) s p)) g
    (on_buffer (pixel_loop (area_width area') (area_height area') (\<lambda>cx cy b. do {
       (u, v) \<leftarrow> c_point (area_x area' - x + cx) (area_y area' - y + cy);
       (alpha, s) \<leftarrow> image_argb picture u v;
       (px, py) \<leftarrow> c_point (area_x area' + cx) (area_y area' + cy);
       color \<leftarrow> get_pixel px py b;
       set_pixel px py (blend_rgb 255 (ucast alpha) s color) b
     })) g)"
proof (rule display_loop[OF assms(2-6)])
  fix cx cy b
  let ?x = "area_x area' + cx" and ?y = "area_y area' + cy"
  assume v: "valid b" and c: "area_has a ?x ?y" and o: "on_screen width height ?x ?y"
  have e: "area_x area' - x + cx = ?x - area_x a" "area_y area' - y + cy = ?y - area_y a" "?x - x = ?x - area_x a" "?y - y = ?y - area_y a"
    by (simp_all add: a_def image_area_def)
  have "on_screen (im_width picture) (im_height picture) (?x - area_x a) (?y - area_y a)"
    using c by (auto simp: a_def area_has_def image_area_def on_screen_def)
  note argb = image_argb[OF this ok(1)]
  show "\<exists>v. (do { (u, v) \<leftarrow> c_point (area_x area' - x + cx) (area_y area' - y + cy);
      (alpha, s) \<leftarrow> image_argb picture u v;
      (px, py) \<leftarrow> c_point ?x ?y;
      color \<leftarrow> get_pixel px py b;
      set_pixel px py (blend_rgb 255 (ucast alpha) s color) b }) =
    set_pixel ?x ?y v b \<and> True \<and> stored v = stored
      (case image_pixel picture (?x - x) (?y - y) of (alpha, s) \<Rightarrow> blend_rgb 255 (ucast alpha) s (pixel b ?x ?y))"
    unfolding e place_ok[OF ok(2) c] bind.bind_lunit prod.case argb
    by (cases "image_pixel picture (?x - area_x a) (?y - area_y a)")
      (simp add: point_ok[OF v o] get_pixel[OF v o] del: split_paired_Ex, blast)
qed

end

section \<open>24 bit colour\<close>

definition color_8bit_valid :: "int \<Rightarrow> int \<Rightarrow> u8 list \<Rightarrow> bool" where
  "color_8bit_valid w h b \<longleftrightarrow> 3 * (w * h) \<le> int (length b) \<and> 3 * (w * h) < 2 ^ 31 \<and> int_ok w \<and> int_ok h"

definition color_8bit_pixel :: "int \<Rightarrow> int \<Rightarrow> u8 list \<Rightarrow> int \<Rightarrow> int \<Rightarrow> rgb" where
  "color_8bit_pixel w h b x y =
     (if on_screen w h x y
      then let i = nat (3 * (y * w + x)) in (b ! i, b ! (i + 1), b ! (i + 2)) else (0, 0, 0))"

lemma color_8bit_index_facts:
  assumes "on_screen w h x y" "3 * (w * h) < 2 ^ 31"
  shows "unat (color_8bit_index w x y) = nat (3 * (y * w + x))" "unat (color_8bit_index w x y + 1) = nat (3 * (y * w + x)) + 1"
    "unat (color_8bit_index w x y + 2) = nat (3 * (y * w + x)) + 2"
proof -
  have "color_8bit_index w x y + word_of_int k = word_of_int (3 * (y * w + x) + k)" for k
    by (simp add: color_8bit_index_def)
  from unat_index[OF assms, of 0, folded this[of 0]] unat_index[OF assms, of 1, folded this[of 1]] unat_index[OF assms, of 2, folded this[of 2]]
  show "unat (color_8bit_index w x y) = nat (3 * (y * w + x))" "unat (color_8bit_index w x y + 1) = nat (3 * (y * w + x)) + 1"
    "unat (color_8bit_index w x y + 2) = nat (3 * (y * w + x)) + 2" by simp_all
qed

lemma color_8bit_set:
  assumes v: "color_8bit_valid w h b" and o: "on_screen w h x y"
  shows "paints (color_8bit_valid w h) (color_8bit_pixel w h) (\<lambda>x' y'. x' = x \<and> y' = y) (\<lambda>_ _ _. c) b
    (fd_graphics_color_8bit_set_pixel w x y c b)"
proof -
  obtain r g bl where c: "c = (r, g, bl)" by (metis prod.exhaust)
  define i where "i = nat (3 * (y * w + x))"
  have s: "3 * (w * h) < 2 ^ 31" using v by (simp add: color_8bit_valid_def)
  have i: "i + 2 < length b" using position_room[OF o, of 3 "length b" 2] v by (simp add: i_def color_8bit_valid_def)
  note ix = color_8bit_index_facts[OF o s, folded i_def]
  let ?b = "b[i := r, i + 1 := g, i + 2 := bl]"
  have "fd_graphics_color_8bit_set_pixel w x y c b = Some ?b"
    using i by (simp add: fd_graphics_color_8bit_set_pixel_def c ix mem_simps)
  moreover have "color_8bit_valid w h ?b" using v by (simp add: color_8bit_valid_def)
  moreover have "color_8bit_pixel w h ?b x' y' = (if x' = x \<and> y' = y then c else color_8bit_pixel w h b x' y')" for x' y'
  proof (cases "on_screen w h x' y' \<and> \<not> (x' = x \<and> y' = y)")
    case True
    then have on: "on_screen w h x' y'" and ne: "\<not> (x' = x \<and> y' = y)" by blast+
    define j where "j = nat (3 * (y' * w + x'))"
    have apart: "j + k \<noteq> i + l" if "k < 3" "l < 3" for k l
      using position_apart[OF o on ne, of k 3 l] that by (simp add: i_def j_def)
    have "?b ! (j + k) = b ! (j + k)" if "k < 3" for k
      using apart[OF that, of 0] apart[OF that, of 1] apart[OF that, of 2] by simp
    from this[of 0] this[of 1] this[of 2] show ?thesis
      unfolding color_8bit_pixel_def if_P[OF on] if_not_P[OF ne] j_def[symmetric] Let_def by simp
  next
    case False
    then consider "\<not> on_screen w h x' y'" | "x' = x" "y' = y" by blast
    then show ?thesis
    proof cases
      case 1
      then have ne: "\<not> (x' = x \<and> y' = y)" using o by blast
      show ?thesis unfolding color_8bit_pixel_def if_not_P[OF 1] if_not_P[OF ne] ..
    next
      case 2
      then show ?thesis using i unfolding 2 color_8bit_pixel_def if_P[OF o] i_def[symmetric] Let_def by (simp add: c)
    qed
  qed
  ultimately show ?thesis by (auto simp: paints_def)
qed

lemma color_8bit_get:
  assumes v: "color_8bit_valid w h b" and o: "on_screen w h x y"
  shows "fd_graphics_color_8bit_get_pixel w x y b = Some (color_8bit_pixel w h b x y)"
proof -
  have s: "3 * (w * h) < 2 ^ 31" using v by (simp add: color_8bit_valid_def)
  have "nat (3 * (y * w + x)) + 2 < length b" using position_room[OF o, of 3 "length b" 2] v by (simp add: color_8bit_valid_def)
  then show ?thesis
    unfolding fd_graphics_color_8bit_get_pixel_def color_8bit_pixel_def if_P[OF o] Let_def color_8bit_index_facts[OF o s]
    by (simp add: mem_simps del: distrib_left_numeral)
qed

interpretation color_8bit: rgb_buffer w h "color_8bit_valid w h" "color_8bit_pixel w h" "\<lambda>c. c"
    "fd_graphics_color_8bit_set_pixel w" "fd_graphics_color_8bit_get_pixel w" for w h
  by unfold_locales (rule color_8bit_set color_8bit_get; assumption | simp add: color_8bit_valid_def)+

text \<open>Filling the buffer with a pixel of any number of bytes.\<close>

lemma fill_loop:
  assumes step: "\<And>i p b. p + length ys \<le> length b \<Longrightarrow>
      body i (int p, b) = Some (int p + int (length ys), take p b @ ys @ drop (p + length ys) b)"
    and room: "p + n * length ys \<le> length b"
  shows "for_loop i n body (int p, b) =
    Some (int (p + n * length ys), take p b @ concat (replicate n ys) @ drop (p + n * length ys) b)"
  using room
proof (induction n arbitrary: i p b)
  case 0
  then show ?case by simp
next
  case (Suc n i p b)
  let ?b = "take p b @ ys @ drop (p + length ys) b"
  have l: "length ?b = length b" using Suc.prems by simp
  have "for_loop i (Suc n) body (int p, b) = for_loop (i + 1) n body (int (p + length ys), ?b)"
    using Suc.prems step[of p b i] by simp
  also have "\<dots> = Some (int (p + length ys + n * length ys),
      take (p + length ys) ?b @ concat (replicate n ys) @ drop (p + length ys + n * length ys) ?b)"
    using Suc.prems l by (intro Suc.IH) simp
  also have "take (p + length ys) ?b = take p b @ ys" using Suc.prems by simp
  also have "drop (p + length ys + n * length ys) ?b = drop (p + Suc n * length ys) b" using Suc.prems by (simp add: ac_simps)
  finally show ?case by (simp add: ac_simps)
qed

lemma length_replicated: "length (concat (replicate n ys)) = n * length ys"
  by (induction n) simp_all

lemma nth_replicated:
  assumes "j < n" "k < m" "length ys = m" shows "concat (replicate n ys) ! (m * j + k) = ys ! k"
  using assms
proof (induction n arbitrary: j)
  case (Suc n)
  then show ?case by (cases j) (simp_all add: nth_append)
qed simp

lemma wr3_at: "p + 3 \<le> length b \<Longrightarrow> wr3 b (int p) (x, y, z) = Some (take p b @ [x, y, z] @ drop (p + 3) b)"
proof -
  assume p: "p + 3 \<le> length b"
  have "wr3 b (int p) (x, y, z) = Some (b[p := x, p + 1 := y, p + 2 := z])"
    using p by (simp add: wr3_def wr_at_def wr_def nat_add_distrib)
  also have "b[p := x, p + 1 := y, p + 2 := z] = take p b @ [x, y, z] @ drop (p + 3) b"
  proof (rule nth_equalityI)
    fix i assume i: "i < length (b[p := x, p + 1 := y, p + 2 := z])"
    consider "i < p" | "i = p" | "i = p + 1" | "i = p + 2" | k where "i = p + 3 + k" by atomize_elim presburger
    then show "b[p := x, p + 1 := y, p + 2 := z] ! i = (take p b @ [x, y, z] @ drop (p + 3) b) ! i"
      by cases (use p i in \<open>auto simp: nth_append\<close>)
  qed (use p in simp)
  finally show ?thesis .
qed

lemma color_8bit_write_background:
  assumes v: "color_8bit_valid (gr_width g) (gr_height g) (gr_buffer g)" and n: "0 \<le> gr_width g" "0 \<le> gr_height g"
  shows "paints_display (color_8bit_valid (gr_width g) (gr_height g)) (color_8bit_pixel (gr_width g) (gr_height g))
    (on_screen (gr_width g) (gr_height g)) (\<lambda>x y p. color_rgb (gr_background g)) g (fd_graphics_color_8bit_write_background g)"
proof -
  define w h b where "w = gr_width g" and "h = gr_height g" and "b = gr_buffer g"
  obtain x y z where c: "color_rgb (gr_background g) = (x, y, z)" by (metis prod.exhaust)
  have room: "0 + nat (w * h) * length [x, y, z] \<le> length b" 
  proof -
    have "3 * (w * h) \<le> int (length b)" "0 \<le> w * h" using v n by (simp_all add: color_8bit_valid_def w_def h_def b_def)
    then have "3 * nat (w * h) \<le> length b" by linarith
    then show ?thesis by simp
  qed
  have count: "int_ok (w * h)"
  proof -
    have "3 * (w * h) < 2 ^ 31" "0 \<le> w * h" using v n by (simp_all add: color_8bit_valid_def w_def h_def)
    then show ?thesis by (simp add: int_ok_def)
  qed
  let ?b = "concat (replicate (nat (w * h)) [x, y, z]) @ drop (0 + nat (w * h) * length [x, y, z]) b"
  have "for_loop 0 (nat (w * h)) (\<lambda>i (p, fb). do { fb \<leftarrow> wr3 fb p (x, y, z); Some (p + 3, fb) }) (int 0, b) =
      Some (int (0 + nat (w * h) * length [x, y, z]), take 0 b @ concat (replicate (nat (w * h)) [x, y, z]) @ drop (0 + nat (w * h) * length [x, y, z]) b)"
    by (rule fill_loop[OF _ room]) (simp add: wr3_at numeral_3_eq_3)
  then have r: "fd_graphics_color_8bit_write_background g = Some (g\<lparr>gr_buffer := ?b\<rparr>)"
    using count by (simp add: fd_graphics_color_8bit_write_background_def on_buffer_def c w_def h_def b_def)
  have l: "length ?b = length b" using room by (simp add: length_replicated)
  have "color_8bit_pixel w h ?b u t = (x, y, z)" if o: "on_screen w h u t" for u t
  proof -
    define j where "j = nat (t * w + u)"
    have p: "0 \<le> t * w + u" "t * w + u < w * h" using position_bounds[OF o] by simp_all
    have j: "nat (3 * (t * w + u)) = 3 * j" "j < nat (w * h)" using p by (simp_all add: j_def nat_mult_distrib)
    have lc: "length (concat (replicate (nat (w * h)) [x, y, z])) = 3 * nat (w * h)" by (simp add: length_replicated)
    have "?b ! (3 * j + k) = [x, y, z] ! k" if "k < 3" for k
      using nth_replicated[OF j(2), of k 3 "[x, y, z]"] that j(2) lc by (simp add: nth_append)
    from this[of 0] this[of 1] this[of 2] show ?thesis
      unfolding color_8bit_pixel_def if_P[OF o] j(1) Let_def by simp
  qed
  moreover have "color_8bit_pixel w h a u t = (0, 0, 0)" if "\<not> on_screen w h u t" for a u t using that by (simp add: color_8bit_pixel_def)
  ultimately show ?thesis using v l
    by (auto simp: paints_display_def r c color_8bit_valid_def w_def h_def b_def)
qed

section \<open>15 bit colour\<close>

definition color_16bit_valid :: "int \<Rightarrow> int \<Rightarrow> u8 list \<Rightarrow> bool" where
  "color_16bit_valid w h b \<longleftrightarrow> 2 * (w * h) \<le> int (length b) \<and> 2 * (w * h) < 2 ^ 31 \<and> int_ok w \<and> int_ok h"

definition color_16bit_pixel :: "int \<Rightarrow> int \<Rightarrow> u8 list \<Rightarrow> int \<Rightarrow> int \<Rightarrow> rgb" where
  "color_16bit_pixel w h b x y =
     (if on_screen w h x y
      then let i = nat (2 * (y * w + x)) in word_rgb (push_bit 8 (ucast (b ! i)) OR ucast (b ! (i + 1))) else (0, 0, 0))"

text \<open>What is left of a colour: five bits of each component.\<close>

definition quantized :: "rgb \<Rightarrow> rgb" where
  "quantized c = (case c of (r, g, b) \<Rightarrow> (r AND 0xf8, g AND 0xf8, b AND 0xf8))"

lemma bytes_join: "push_bit 8 (ucast (ucast (drop_bit 8 w) :: u8)) OR ucast (ucast w :: u8) = (w :: u16)"
  by (rule bit_word_eqI) (auto simp: bit_simps)

lemma masks: "(0xf8 :: u8) = push_bit 3 (mask 5)" "(0x1f :: u16) = mask 5" "(0xf0 :: u32) = push_bit 4 (mask 4)" "(0x0f :: u32) = mask 4"
    "(0x0f :: u8) = mask 4"
  by (simp_all add: mask_eq_exp_minus_1)

lemma five_bits:
  "(push_bit 3 (ucast (drop_bit 11 (push_bit 11 (ucast (drop_bit 3 r)) OR push_bit 6 (ucast (drop_bit 3 g)) OR ucast (drop_bit 3 b) :: u16) AND 0x1f)) :: u8) = r AND 0xf8"
  "(push_bit 3 (ucast (drop_bit 6 (push_bit 11 (ucast (drop_bit 3 r)) OR push_bit 6 (ucast (drop_bit 3 g)) OR ucast (drop_bit 3 b) :: u16) AND 0x1f)) :: u8) = g AND 0xf8"
  "(push_bit 3 (ucast ((push_bit 11 (ucast (drop_bit 3 r)) OR push_bit 6 (ucast (drop_bit 3 g)) OR ucast (drop_bit 3 b) :: u16) AND 0x1f)) :: u8) = b AND 0xf8"
  for r g b :: u8
  unfolding masks by (rule bit_word_eqI; auto simp: bit_simps dest: bit_imp_le_length)+

lemma word_rgb_rgb_word: "word_rgb (rgb_word c) = quantized c"
  by (cases c) (simp only: word_rgb_def rgb_word_def quantized_def prod.case five_bits)

lemma color_16bit_index_facts:
  assumes "on_screen w h x y" "2 * (w * h) < 2 ^ 31"
  shows "unat (color_16bit_index w x y) = nat (2 * (y * w + x))" "unat (color_16bit_index w x y + 1) = nat (2 * (y * w + x)) + 1"
proof -
  have "color_16bit_index w x y + word_of_int k = word_of_int (2 * (y * w + x) + k)" for k
    by (simp add: color_16bit_index_def)
  from unat_index[OF assms, of 0, folded this[of 0]] unat_index[OF assms, of 1, folded this[of 1]]
  show "unat (color_16bit_index w x y) = nat (2 * (y * w + x))" "unat (color_16bit_index w x y + 1) = nat (2 * (y * w + x)) + 1"
    by simp_all
qed

lemma color_16bit_set:
  assumes v: "color_16bit_valid w h b" and o: "on_screen w h x y"
  shows "paints (color_16bit_valid w h) (color_16bit_pixel w h) (\<lambda>x' y'. x' = x \<and> y' = y) (\<lambda>_ _ _. quantized c) b
    (fd_graphics_color_16bit_set_pixel w x y c b)"
proof -
  define i where "i = nat (2 * (y * w + x))"
  have s: "2 * (w * h) < 2 ^ 31" using v by (simp add: color_16bit_valid_def)
  have i: "i + 1 < length b" using position_room[OF o, of 2 "length b" 1] v by (simp add: i_def color_16bit_valid_def)
  note ix = color_16bit_index_facts[OF o s, folded i_def]
  let ?b = "b[i := ucast (drop_bit 8 (rgb_word c)), i + 1 := ucast (rgb_word c)]"
  have "fd_graphics_color_16bit_set_pixel w x y c b = Some ?b"
    using i by (simp add: fd_graphics_color_16bit_set_pixel_def ix mem_simps Let_def del: drop_bit_eq_div)
  moreover have "color_16bit_valid w h ?b" using v by (simp add: color_16bit_valid_def)
  moreover have "color_16bit_pixel w h ?b x' y' = (if x' = x \<and> y' = y then quantized c else color_16bit_pixel w h b x' y')" for x' y'
  proof (cases "on_screen w h x' y' \<and> \<not> (x' = x \<and> y' = y)")
    case True
    then have on: "on_screen w h x' y'" and ne: "\<not> (x' = x \<and> y' = y)" by blast+
    define j where "j = nat (2 * (y' * w + x'))"
    have apart: "j + k \<noteq> i + l" if "k < 2" "l < 2" for k l
      using position_apart[OF o on ne, of k 2 l] that by (simp add: i_def j_def)
    have "?b ! (j + k) = b ! (j + k)" if "k < 2" for k
      using apart[OF that, of 0] apart[OF that, of 1] by simp
    from this[of 0] this[of 1] show ?thesis
      unfolding color_16bit_pixel_def if_P[OF on] if_not_P[OF ne] j_def[symmetric] Let_def by simp
  next
    case False
    then consider "\<not> on_screen w h x' y'" | "x' = x" "y' = y" by blast
    then show ?thesis
    proof cases
      case 1
      then have ne: "\<not> (x' = x \<and> y' = y)" using o by blast
      show ?thesis unfolding color_16bit_pixel_def if_not_P[OF 1] if_not_P[OF ne] ..
    next
      case 2
      have "?b ! i = ucast (drop_bit 8 (rgb_word c))" "?b ! (i + 1) = ucast (rgb_word c)" using i by simp_all
      then show ?thesis unfolding 2 color_16bit_pixel_def if_P[OF o] i_def[symmetric] Let_def
        by (simp only: bytes_join word_rgb_rgb_word simp_thms if_True)
    qed
  qed
  ultimately show ?thesis by (auto simp: paints_def)
qed

lemma color_16bit_get:
  assumes v: "color_16bit_valid w h b" and o: "on_screen w h x y"
  shows "fd_graphics_color_16bit_get_pixel w x y b = Some (color_16bit_pixel w h b x y)"
proof -
  have s: "2 * (w * h) < 2 ^ 31" using v by (simp add: color_16bit_valid_def)
  have "nat (2 * (y * w + x)) + 1 < length b" using position_room[OF o, of 2 "length b" 1] v by (simp add: color_16bit_valid_def)
  then show ?thesis
    unfolding fd_graphics_color_16bit_get_pixel_def color_16bit_pixel_def if_P[OF o] Let_def color_16bit_index_facts[OF o s]
    by (simp add: mem_simps del: distrib_left_numeral)
qed

interpretation color_16bit: rgb_buffer w h "color_16bit_valid w h" "color_16bit_pixel w h" quantized
    "fd_graphics_color_16bit_set_pixel w" "fd_graphics_color_16bit_get_pixel w" for w h
  by unfold_locales (rule color_16bit_set color_16bit_get; assumption | simp add: color_16bit_valid_def)+

lemma wr2_at: "p + 2 \<le> length b \<Longrightarrow>
    (do { b \<leftarrow> wr_at b (int p) x; b \<leftarrow> wr_at b (int p + 1) y; Some (int p + 2, b) }) =
      Some (int p + int (length [x, y]), take p b @ [x, y] @ drop (p + length [x, y]) b)"
proof -
  assume p: "p + 2 \<le> length b"
  have "b[p := x, p + 1 := y] = take p b @ [x, y] @ drop (p + 2) b"
  proof (rule nth_equalityI)
    fix i assume i: "i < length (b[p := x, p + 1 := y])"
    consider "i < p" | "i = p" | "i = p + 1" | k where "i = p + 2 + k" by atomize_elim presburger
    then show "b[p := x, p + 1 := y] ! i = (take p b @ [x, y] @ drop (p + 2) b) ! i"
      by cases (use p i in \<open>auto simp: nth_append\<close>)
  qed (use p in simp)
  then show ?thesis using p by (simp add: wr_at_def wr_def nat_add_distrib)
qed

lemma bit_high: "bit w (8 + n) \<Longrightarrow> n < 8" for w :: u16
  by (drule bit_imp_le_length) simp

lemma color_16bit_write_background:
  assumes v: "color_16bit_valid (gr_width g) (gr_height g) (gr_buffer g)" and n: "0 \<le> gr_width g" "0 \<le> gr_height g"
  defines "word \<equiv> rgb_word (color_rgb (gr_background g))"
  shows "paints_display (color_16bit_valid (gr_width g) (gr_height g)) (color_16bit_pixel (gr_width g) (gr_height g))
    (on_screen (gr_width g) (gr_height g)) (\<lambda>x y p. word_rgb (push_bit 8 word OR drop_bit 8 word)) g
    (fd_graphics_color_16bit_write_background g)"
proof -
  define w h b where "w = gr_width g" and "h = gr_height g" and "b = gr_buffer g"
  define lo hi :: u8 where "lo = ucast word" and "hi = ucast (drop_bit 8 word)"
  have room: "0 + nat (w * h) * length [lo, hi] \<le> length b"
  proof -
    have "2 * (w * h) \<le> int (length b)" "0 \<le> w * h" using v n by (simp_all add: color_16bit_valid_def w_def h_def b_def)
    then have "2 * nat (w * h) \<le> length b" by linarith
    then show ?thesis by simp
  qed
  have count: "int_ok (w * h)"
  proof -
    have "2 * (w * h) < 2 ^ 31" "0 \<le> w * h" using v n by (simp_all add: color_16bit_valid_def w_def h_def)
    then show ?thesis unfolding int_ok_def by linarith
  qed
  let ?b = "concat (replicate (nat (w * h)) [lo, hi]) @ drop (0 + nat (w * h) * length [lo, hi]) b"
  have "for_loop 0 (nat (w * h)) (\<lambda>i (p, fb). do { fb \<leftarrow> wr_at fb p lo; fb \<leftarrow> wr_at fb (p + 1) hi; Some (p + 2, fb) }) (int 0, b) =
      Some (int (0 + nat (w * h) * length [lo, hi]), take 0 b @ concat (replicate (nat (w * h)) [lo, hi]) @ drop (0 + nat (w * h) * length [lo, hi]) b)"
    by (rule fill_loop[OF _ room]) (simp only: prod.case, rule wr2_at, simp)
  then have r: "fd_graphics_color_16bit_write_background g = Some (g\<lparr>gr_buffer := ?b\<rparr>)"
    using count by (simp add: fd_graphics_color_16bit_write_background_def on_buffer_def word_def[symmetric] Let_def lo_def hi_def w_def h_def b_def
        del: drop_bit_eq_div)
  have l: "length ?b = length b" using room by (simp add: length_replicated)
  have "(ucast lo :: u16) = take_bit 8 word" "(ucast hi :: u16) = drop_bit 8 word"
    by (rule bit_word_eqI; auto simp: lo_def hi_def bit_simps dest: bit_high)+
  then have join: "push_bit 8 (ucast lo) OR ucast hi = push_bit 8 word OR drop_bit 8 word"
    by (simp only:) (rule bit_word_eqI, auto simp: bit_simps)
  have "color_16bit_pixel w h ?b u t = word_rgb (push_bit 8 word OR drop_bit 8 word)" if o: "on_screen w h u t" for u t
  proof -
    define j where "j = nat (t * w + u)"
    have p: "0 \<le> t * w + u" "t * w + u < w * h" using position_bounds[OF o] by simp_all
    have j: "nat (2 * (t * w + u)) = 2 * j" "j < nat (w * h)" using p by (simp_all add: j_def nat_mult_distrib)
    have lc: "length (concat (replicate (nat (w * h)) [lo, hi])) = 2 * nat (w * h)" by (simp add: length_replicated)
    have "?b ! (2 * j + k) = [lo, hi] ! k" if "k < 2" for k
      using nth_replicated[OF j(2), of k 2 "[lo, hi]"] that j(2) lc by (simp add: nth_append)
    from this[of 0] this[of 1] join show ?thesis
      unfolding color_16bit_pixel_def if_P[OF o] j(1) Let_def by simp
  qed
  moreover have "color_16bit_pixel w h a u t = (0, 0, 0)" if "\<not> on_screen w h u t" for a u t using that by (simp add: color_16bit_pixel_def)
  ultimately show ?thesis using v l
    by (auto simp: paints_display_def r color_16bit_valid_def w_def h_def b_def)
qed

section \<open>4 bit gray\<close>

definition gray_4bit_valid :: "int \<Rightarrow> int \<Rightarrow> u8 list \<Rightarrow> bool" where
  "gray_4bit_valid w h b \<longleftrightarrow> even w \<and> w div 2 * h \<le> int (length b) \<and> w div 2 * h < 2 ^ 31 \<and> int_ok w \<and> int_ok h"

definition gray_4bit_pixel :: "int \<Rightarrow> int \<Rightarrow> u8 list \<Rightarrow> int \<Rightarrow> int \<Rightarrow> u8" where
  "gray_4bit_pixel w h b lx ly =
     (if on_screen w h lx ly
      then let x = w - lx - 1; y = h - ly - 1; byte = b ! nat (y * (w div 2) + x div 2)
           in if odd x then byte AND 0x0f else drop_bit 4 byte
      else 0)"

lemma nibbles:
  fixes gray :: u32
  assumes "gray < 16"
  shows "drop_bit 4 (ucast ((ucast byte AND 0xf0) OR gray) :: u8) = drop_bit 4 byte" "(ucast ((ucast byte AND 0xf0) OR gray) :: u8) AND 0x0f = ucast gray"
    "drop_bit 4 (ucast ((ucast byte AND 0x0f) OR push_bit 4 gray) :: u8) = ucast gray" "(ucast ((ucast byte AND 0x0f) OR push_bit 4 gray) :: u8) AND 0x0f = byte AND 0x0f"
proof -
  have "uint gray < 16" using assms by (simp add: word_less_def)
  then have "uint (take_bit 4 gray) = uint gray" by (simp only: unsigned_take_bit_eq take_bit_int_def) simp
  then have "gray = take_bit 4 gray" by (metis word_uint_eqI)
  then have low: "bit gray n \<Longrightarrow> n < 4" for n by (metis bit_take_bit_iff)
  show "drop_bit 4 (ucast ((ucast byte AND 0xf0) OR gray) :: u8) = drop_bit 4 byte"
    unfolding masks by (rule bit_word_eqI) (auto simp: bit_simps dest!: low dest: bit_imp_le_length)
  show "(ucast ((ucast byte AND 0xf0) OR gray) :: u8) AND 0x0f = ucast gray"
    unfolding masks by (rule bit_word_eqI) (auto simp: bit_simps dest: low bit_imp_le_length)
  show "drop_bit 4 (ucast ((ucast byte AND 0x0f) OR push_bit 4 gray) :: u8) = ucast gray"
    unfolding masks by (rule bit_word_eqI) (auto simp: bit_simps dest: low bit_imp_le_length)
  show "(ucast ((ucast byte AND 0x0f) OR push_bit 4 gray) :: u8) AND 0x0f = byte AND 0x0f"
    unfolding masks by (rule bit_word_eqI) (auto simp: bit_simps dest: low bit_imp_le_length)
qed

lemma gray_4bit_set:
  assumes v: "gray_4bit_valid w h b" and o: "on_screen w h x y" and g: "gray < 16"
  shows "paints (gray_4bit_valid w h) (gray_4bit_pixel w h) (\<lambda>x' y'. x' = x \<and> y' = y) (\<lambda>_ _ _. ucast gray) b
    (fd_graphics_gray_4bit_set_pixel w h x y gray b)"
proof -
  define half where "half = w div 2"
  have w: "w = 2 * half" using v by (simp add: gray_4bit_valid_def half_def)
  define place where "place u t = nat ((h - t - 1) * half + (w - u - 1) div 2)" for u t
  have column: "on_screen half h ((w - u - 1) div 2) (h - t - 1)" if "on_screen w h u t" for u t
    using that unfolding w on_screen_def by presburger
  have room: "half * h \<le> int (length b)" "1 * (half * h) < 2 ^ 31" using v by (simp_all add: gray_4bit_valid_def half_def)
  define i where "i = place x y"
  have i: "i < length b" using position_room[OF column[OF o], of 1 "length b" 0] room(1) by (simp add: i_def place_def)
  have "gray_4bit_index w (w - x - 1) (h - y - 1) = word_of_int (1 * ((h - y - 1) * half + (w - x - 1) div 2) + 0)"
    using o by (simp add: gray_4bit_index_def sdiv_nonneg w on_screen_def)
  then have ix: "unat (gray_4bit_index w (w - x - 1) (h - y - 1)) = i"
    using unat_index[OF column[OF o] room(2), of 0] by (simp only: i_def place_def mult_1)
  define byte :: u8 where "byte = (if odd (w - x - 1) then ucast ((ucast (b ! i) AND 0xf0) OR gray) else ucast ((ucast (b ! i) AND 0x0f) OR push_bit 4 gray))"
  have points: "c_point (w - x) (h - y) = Some (w - x, h - y)" "c_point (w - x - 1) (h - y - 1) = Some (w - x - 1, h - y - 1)"
    using v o by (auto simp: gray_4bit_valid_def on_screen_def int_ok_def c_point_def c_int_def)
  have "fd_graphics_gray_4bit_set_pixel w h x y gray b = Some (b[i := byte])"
    unfolding fd_graphics_gray_4bit_set_pixel_def points bind.bind_lunit prod.case Let_def ix rd_in[OF i] wr_in[OF i] bind.bind_lunit byte_def by (cases "odd (w - x - 1)") simp_all
  moreover have "gray_4bit_valid w h (b[i := byte])" using v by (simp add: gray_4bit_valid_def)
  moreover have "gray_4bit_pixel w h (b[i := byte]) x' y' = (if x' = x \<and> y' = y then ucast gray else gray_4bit_pixel w h b x' y')" for x' y'
  proof (cases "on_screen w h x' y'")
    case True
    have pixel: "gray_4bit_pixel w h a x' y' = (if odd (w - x' - 1) then a ! place x' y' AND 0x0f else drop_bit 4 (a ! place x' y'))" for a
      unfolding gray_4bit_pixel_def if_P[OF True] Let_def place_def half_def ..
    show ?thesis
    proof (cases "place x' y' = i")
      case False
      then have ne: "\<not> (x' = x \<and> y' = y)" by (auto simp: i_def)
      show ?thesis unfolding pixel if_not_P[OF ne] nth_list_update_neq[OF not_sym[OF False]] ..
    next
      case eq: True
      have nonneg: "0 \<le> (h - y' - 1) * half + (w - x' - 1) div 2" "0 \<le> (h - y - 1) * half + (w - x - 1) div 2"
        using position_bounds(1)[OF column[OF True]] position_bounds(1)[OF column[OF o]] by simp_all
      have "(h - y' - 1) * half + (w - x' - 1) div 2 = (h - y - 1) * half + (w - x - 1) div 2"
        using eq eq_nat_nat_iff[OF nonneg] unfolding i_def place_def by blast
      from position_inj[OF column[OF True] column[OF o] this]
      have same: "(w - x' - 1) div 2 = (w - x - 1) div 2" "y' = y" by simp_all
      have parity: "x' = x \<longleftrightarrow> (odd (w - x' - 1) \<longleftrightarrow> odd (w - x - 1))" using same(1) by presburger
      show ?thesis unfolding pixel eq nth_list_update_eq[OF i] byte_def
        using parity same(2) by (auto simp only: nibbles[OF g] split: if_splits)
    qed
  next
    case False
    then have ne: "\<not> (x' = x \<and> y' = y)" using o by blast
    show ?thesis unfolding gray_4bit_pixel_def if_not_P[OF False] if_not_P[OF ne] ..
  qed
  ultimately show ?thesis by (auto simp: paints_def)
qed

interpretation gray_4bit: frame_buffer w h "gray_4bit_valid w h" "gray_4bit_pixel w h" "\<lambda>gray. gray < 16" ucast
    "fd_graphics_gray_4bit_set_pixel w h" for w h
  by unfold_locales (rule gray_4bit_set; assumption | simp add: gray_4bit_valid_def)+

lemma gray_of_sum: "uint s \<le> 765 \<Longrightarrow> drop_bit 4 (s div 3) < (16 :: u32)"
proof -
  assume "uint s \<le> 765"
  then have n: "unat s \<le> 765" unfolding unat_eq_nat_uint by linarith
  have three: "unat (3 :: u32) = 3" by simp
  have "unat (drop_bit 4 (s div 3)) = unat s div 3 div 2 ^ 4"
    unfolding unat_drop_bit unat_div_distrib three ..
  also have "\<dots> \<le> 765 div 3 div 2 ^ 4" using n by (intro div_le_mono)
  finally have "unat (drop_bit 4 (s div 3)) < 16" by simp
  moreover have "unat (16 :: u32) = 16" by simp
  ultimately show ?thesis unfolding word_less_nat_alt by simp
qed

lemma gray_fits: "fd_graphics_gray_4bit_color_to_4bit_gray c < 16"
proof -
  have "uint (ucast (color_r c) :: u32) \<le> 255" "uint (ucast (color_g c) :: u32) \<le> 255" "uint (ucast (color_b c) :: u32) \<le> 255"
    using uint_lt2p[of "color_r c"] uint_lt2p[of "color_g c"] uint_lt2p[of "color_b c"] by (simp_all add: uint_up_ucast is_up)
  then have "uint (ucast (color_r c) + ucast (color_g c) + ucast (color_b c) :: u32) \<le> 765"
    by (simp add: uint_word_ariths)
  then show ?thesis
    unfolding fd_graphics_gray_4bit_color_to_4bit_gray_def fd_graphics_gray_4bit_rgb_to_4bit_gray_def by (rule gray_of_sum)
qed

section \<open>Properties\<close>

text \<open>A display ready to draw on: its sizes are C \<open>int\<close>s, its buffer is large enough, and the clipping area is on the screen.\<close>

definition color_8bit_ready :: "'d fd_graphics_t \<Rightarrow> bool" where
  "color_8bit_ready g \<longleftrightarrow> color_8bit_valid (gr_width g) (gr_height g) (gr_buffer g) \<and>
     area_covers (screen_area g) (gr_clipping g) \<and> area_ok (gr_clipping g)"

lemma color_8bit_readyD:
  "color_8bit_ready g \<Longrightarrow> color_8bit_valid (gr_width g) (gr_height g) (gr_buffer g)"
  "color_8bit_ready g \<Longrightarrow> area_covers (screen_area g) (gr_clipping g)" "color_8bit_ready g \<Longrightarrow> area_ok (gr_clipping g)"
  by (simp_all add: color_8bit_ready_def)

abbreviation color_8bit_paints ::
  "(int \<Rightarrow> int \<Rightarrow> bool) \<Rightarrow> (int \<Rightarrow> int \<Rightarrow> rgb \<Rightarrow> rgb) \<Rightarrow> 'd fd_graphics_t \<Rightarrow> 'd fd_graphics_t option \<Rightarrow> bool" where
  "color_8bit_paints region new g r \<equiv>
     paints_display (color_8bit_valid (gr_width g) (gr_height g)) (color_8bit_pixel (gr_width g) (gr_height g)) region new g r"

lemma color_8bit_write_area_exact:
  assumes "color_8bit_ready g" "area_ok area"
  shows "color_8bit_paints (\<lambda>u v. area_has area u v \<and> area_has (gr_clipping g) u v)
      (\<lambda>u v p. color_rgb (gr_foreground g)) g (fd_graphics_color_8bit_write_area area g)"
proof -
  note g = color_8bit_readyD(1)[OF assms(1)] refl refl color_8bit_readyD(2)[OF assms(1)] refl
  show ?thesis
    unfolding fd_graphics_color_8bit_write_area_def intersection_ok[OF assms(2) color_8bit_readyD(3)[OF assms(1)]] bind.bind_lunit Let_def
    using color_8bit.write_area[OF g] by blast
qed

lemma color_8bit_write_bitmap_exact:
  assumes "color_8bit_ready g" "bitmap_ok bitmap" "placed_ok (bitmap_area x y bitmap)"
  shows "color_8bit_paints (\<lambda>u v. area_has (bitmap_area x y bitmap) u v \<and> area_has (gr_clipping g) u v)
      (\<lambda>u v p. blend_rgb (2 ^ nat (bm_depth bitmap) - 1)
        (word_of_int (bitmap_alpha bitmap (u - area_x (bitmap_area x y bitmap)) (v - area_y (bitmap_area x y bitmap))))
        (color_rgb (gr_foreground g)) p) g
      (fd_graphics_color_8bit_write_bitmap x y bitmap g)"
proof -
  note g = color_8bit_readyD(1)[OF assms(1)] refl refl color_8bit_readyD(2)[OF assms(1)] refl
  note clip = color_8bit_readyD(3)[OF assms(1)]
  have area: "area_ok (bitmap_area x y bitmap)" using assms(3) by (simp add: placed_ok_def)
  show ?thesis
    unfolding fd_graphics_color_8bit_write_bitmap_def bitmap_area_ok[OF assms(3)] intersection_ok[OF area clip] bind.bind_lunit Let_def
      offset_ok[OF assms(3) clip] bitmap_ok_max(1)[OF assms(2)] prod.case
    using color_8bit.mix_bitmap[OF g assms(2,3)] by blast
qed

lemma color_8bit_write_image_exact:
  assumes "color_8bit_ready g" "image_ok picture" "placed_ok (image_area x y picture)"
  shows "color_8bit_paints (\<lambda>u v. area_has (image_area x y picture) u v \<and> area_has (gr_clipping g) u v)
      (\<lambda>u v p. case image_pixel picture (u - x) (v - y) of (alpha, s) \<Rightarrow> blend_rgb 255 (ucast alpha) s p) g
      (fd_graphics_color_8bit_write_image x y picture g)"
proof -
  note g = color_8bit_readyD(1)[OF assms(1)] refl refl color_8bit_readyD(2)[OF assms(1)] refl
  note clip = color_8bit_readyD(3)[OF assms(1)]
  have area: "area_ok (image_area x y picture)" using assms(3) by (simp add: placed_ok_def)
  have xy: "area_x (image_area x y picture) = x" "area_y (image_area x y picture) = y" by (simp_all add: image_area_def)
  show ?thesis
    unfolding fd_graphics_color_8bit_write_image_def intersection_ok[OF area clip] bind.bind_lunit Let_def
      offset_ok[OF assms(3) clip, unfolded xy] prod.case
    using color_8bit.mix_image[OF g assms(2,3)] by blast
qed

text \<open>C38: Drawing on the 24 bit display is exact: the pixels of the area, image or bitmap that the clipping leaves become the
  foreground colour, the image's pixel or the foreground colour mixed in by its alpha value, no other pixel changes, no
  access is outside the buffer, the image or the bitmap, and no operation on \<open>int\<close>s overflows. Conditions: the display is
  ready (sizes that are \<open>int\<close>s, a buffer of three bytes for every pixel and less than 2^31 bytes in all, a clipping area on the
  screen); position, size and far end of the area, the image and the bitmap are \<open>int\<close>s (\<open>area_ok\<close>), and for image and bitmap
  the negated position, too (\<open>placed_ok\<close>); the data of the image and of the bitmap have all their pixels and less than 2^31
  bytes, and the bitmap has 1, 2, 4 or 8 bits per pixel.\<close>

theorem fd_graphics_color_8bit_draws:
  assumes "color_8bit_ready g" "area_ok area" "image_ok picture" "placed_ok (image_area x y picture)"
    "bitmap_ok bitmap" "placed_ok (bitmap_area x y bitmap)"
  shows "color_8bit_paints (\<lambda>u v. area_has area u v \<and> area_has (gr_clipping g) u v)
      (\<lambda>u v p. color_rgb (gr_foreground g)) g (fd_graphics_color_8bit_write_area area g) \<and>
    color_8bit_paints (\<lambda>u v. area_has (image_area x y picture) u v \<and> area_has (gr_clipping g) u v)
      (\<lambda>u v p. case image_pixel picture (u - x) (v - y) of (alpha, s) \<Rightarrow> blend_rgb 255 (ucast alpha) s p) g
      (fd_graphics_color_8bit_write_image x y picture g) \<and>
    color_8bit_paints (\<lambda>u v. area_has (bitmap_area x y bitmap) u v \<and> area_has (gr_clipping g) u v)
      (\<lambda>u v p. blend_rgb (2 ^ nat (bm_depth bitmap) - 1)
        (word_of_int (bitmap_alpha bitmap (u - area_x (bitmap_area x y bitmap)) (v - area_y (bitmap_area x y bitmap))))
        (color_rgb (gr_foreground g)) p) g
      (fd_graphics_color_8bit_write_bitmap x y bitmap g)"
  using color_8bit_write_area_exact[OF assms(1,2)] color_8bit_write_image_exact[OF assms(1,3,4)]
    color_8bit_write_bitmap_exact[OF assms(1,5,6)] by blast

text \<open>The sum of position and width of an area is not checked before it overflows: with an area from 1 of the greatest width
  the drawing operation is undefined.\<close>

lemma fd_graphics_color_8bit_write_area_overflows:
  "fd_graphics_color_8bit_write_area \<lparr>area_x = 1, area_y = 0, area_width = 2 ^ 31 - 1, area_height = 1\<rparr> g = None"
  by (simp add: fd_graphics_color_8bit_write_area_def fd_graphics_area_intersection_def c_int_def int_ok_def)

text \<open>Clearing the 15 bit display writes the two bytes of a pixel in the other order than every other operation reads and
  writes them: the background that appears is the colour whose word has its bytes swapped.\<close>

theorem fd_graphics_color_16bit_background_swapped:
  assumes "color_16bit_valid (gr_width g) (gr_height g) (gr_buffer g)" "on_screen (gr_width g) (gr_height g) x y"
  shows "\<exists>g'. fd_graphics_color_16bit_write_background g = Some g' \<and>
    (let word = rgb_word (color_rgb (gr_background g)) in
     fd_graphics_color_16bit_get_pixel (gr_width g) x y (gr_buffer g') = Some (word_rgb (push_bit 8 word OR drop_bit 8 word)) \<and>
     (color_rgb (gr_background g) = (255, 0, 0) \<longrightarrow>
        fd_graphics_color_16bit_get_pixel (gr_width g) x y (gr_buffer g') = Some (0, 24, 192)))"
proof -
  have "0 \<le> gr_width g" "0 \<le> gr_height g" using assms(2) by (auto simp: on_screen_def)
  from color_16bit_write_background[OF assms(1) this]
  obtain b where b: "fd_graphics_color_16bit_write_background g = Some (g\<lparr>gr_buffer := b\<rparr>)" "color_16bit_valid (gr_width g) (gr_height g) b"
    "color_16bit_pixel (gr_width g) (gr_height g) b x y =
       word_rgb (push_bit 8 (rgb_word (color_rgb (gr_background g))) OR drop_bit 8 (rgb_word (color_rgb (gr_background g))))"
    using assms(2) by (auto simp: paints_display_def)
  have "word_rgb (push_bit 8 (rgb_word (255, 0, 0)) OR drop_bit 8 (rgb_word (255, 0, 0))) = (0, 24, 192)"
    by (simp add: word_rgb_def rgb_word_def)
  then show ?thesis using b(1,3) color_16bit_get[OF b(2) assms(2)] by (simp add: Let_def)
qed

text \<open>Clearing the gray display clears four bytes: the eight pixels at the bottom right.\<close>

theorem fd_graphics_gray_4bit_background_four_bytes:
  assumes "gray_4bit_valid (gr_width g) (gr_height g) (gr_buffer g)" "4 \<le> length (gr_buffer g)"
    "on_screen (gr_width g) (gr_height g) x y" "8 \<le> gr_width g" "y < gr_height g - 1 \<or> x < gr_width g - 8"
  shows "\<exists>g'. fd_graphics_gray_4bit_write_background g = Some g' \<and>
    gray_4bit_pixel (gr_width g) (gr_height g) (gr_buffer g') x y = gray_4bit_pixel (gr_width g) (gr_height g) (gr_buffer g) x y"
proof -
  define half where "half = gr_width g div 2"
  have w: "gr_width g = 2 * half" using assms(1) by (simp add: gray_4bit_valid_def half_def)
  define i where "i = (gr_height g - y - 1) * half + (gr_width g - x - 1) div 2"
  have y: "0 \<le> gr_height g - y - 1" and x: "0 \<le> (gr_width g - x - 1) div 2" using assms(3) by (auto simp: on_screen_def)
  have "4 \<le> i"
  proof (cases "x < gr_width g - 8")
    case True
    moreover have "0 \<le> (gr_height g - y - 1) * half" using y assms(4) w by (intro mult_nonneg_nonneg) simp_all
    ultimately show ?thesis unfolding i_def by linarith
  next
    case False
    then have "1 * half \<le> (gr_height g - y - 1) * half" using assms(4,5) w by (intro mult_right_mono) simp_all
    then show ?thesis using assms(4) w x unfolding i_def by linarith
  qed
  then have "(replicate 4 byte @ drop 4 b) ! nat i = b ! nat i" if "4 \<le> length b" for byte :: u8 and b
    using that \<open>4 \<le> i\<close> by (auto simp: nth_append)
  then show ?thesis using assms(2)
    by (simp add: fd_graphics_gray_4bit_write_background_def on_buffer_def wr_block_def gray_4bit_pixel_def Let_def i_def half_def)
qed

text \<open>The equality test of areas takes two areas that share a coordinate for the same.\<close>

lemma fd_graphics_area_is_equal_weak:
  "fd_graphics_area_is_equal \<lparr>area_x = 0, area_y = 0, area_width = 8, area_height = 8\<rparr> \<lparr>area_x = 0, area_y = 100, area_width = 20, area_height = 30\<rparr>"
  by (simp add: fd_graphics_area_is_equal_def)

text \<open>A bitmap of depth 3, which the header allows, has pixels that straddle bytes: reading one shifts by a negative number.\<close>

lemma fd_graphics_bitmap_depth_3: "bm_depth bitmap = 3 \<Longrightarrow> fd_graphics_bitmap_get_pixel bitmap 2 y = None"
  by (auto simp: fd_graphics_bitmap_get_pixel_def Let_def signed_divide_int_def signed_modulo_int_def bind_eq_None_conv)

text \<open>The buffer in memory mixes with a shift instead of a division: opaque white is drawn a shade darker.\<close>

lemma ram_blend_not_opaque: "ram_blend 255 255 d 0 = 254"
  by (simp add: ram_blend_def)

text \<open>The gray display draws areas exactly, upside down in its buffer and with two pixels in a byte.\<close>

lemma fd_graphics_gray_4bit_write_area_exact:
  assumes "gray_4bit_valid (gr_width g) (gr_height g) (gr_buffer g)" "area_covers (screen_area g) (gr_clipping g)"
    "area_ok (gr_clipping g)" "area_ok area"
  shows "paints_display (gray_4bit_valid (gr_width g) (gr_height g)) (gray_4bit_pixel (gr_width g) (gr_height g))
    (\<lambda>x y. area_has area x y \<and> area_has (gr_clipping g) x y)
    (\<lambda>x y p. ucast (fd_graphics_gray_4bit_color_to_4bit_gray (gr_foreground g))) g (fd_graphics_gray_4bit_write_area area g)"
  unfolding fd_graphics_gray_4bit_write_area_def Let_def intersection_ok[OF assms(4,3)] bind.bind_lunit
  by (rule gray_4bit.display_loop[OF assms(1) refl refl assms(2) refl]) (simp add: gray_4bit.point_ok, use gray_fits in blast)

text \<open>Mixing in an opaque colour replaces what is there, and a transparent one leaves it.\<close>

lemma blend_ends:
  assumes "max_alpha \<in> {1, 3, 15, 255}"
  shows "blend max_alpha max_alpha s d = s" "blend max_alpha 0 s d = d"
proof -
  have u: "unat (ucast c * max_alpha div max_alpha :: u32) = unat (ucast c :: u32)" for c :: u8
  proof -
    have "uint (ucast c :: u32) \<le> 255" using uint_lt2p[of c] by (simp add: uint_up_ucast is_up)
    then have "unat (ucast c :: u32) < 256" unfolding unat_eq_nat_uint by linarith
    moreover have "unat max_alpha \<le> 255" "0 < unat max_alpha" using assms by auto
    ultimately have "unat (ucast c :: u32) * unat max_alpha \<le> 255 * 255" by (intro mult_le_mono) simp_all
    then have "unat (ucast c * max_alpha :: u32) = unat (ucast c :: u32) * unat max_alpha" by (simp add: unat_mult_lem[THEN iffD1])
    then show ?thesis using \<open>0 < unat max_alpha\<close> by (simp add: unat_div_distrib)
  qed
  have "ucast (ucast c :: u32) = c" for c :: u8 by (simp add: ucast_down_ucast_id is_down)
  then show "blend max_alpha max_alpha s d = s" "blend max_alpha 0 s d = d"
    using u[folded word_unat_eq_iff] by (simp_all add: blend_def)
qed

section \<open>Instances\<close>

definition instance_display :: "unit fd_graphics_t" where
  "instance_display =
     \<lparr>gr_width = 8, gr_height = 2, gr_buffer = replicate 48 0,
      gr_clipping = \<lparr>area_x = 0, area_y = 0, area_width = 8, area_height = 2\<rparr>, gr_font = fd_graphics_empty_font,
      gr_foreground = 0xffffffff, gr_background = 0xffff0000, gr_is_display_on = True, gr_frame_buffer_size = 48,
      gr_device = (), gr_log = []\<rparr>"

definition instance_bitmap :: fd_graphics_bitmap_t where
  "instance_bitmap =
     \<lparr>bm_width = 2, bm_height = 1, bm_depth = 4, bm_origin = \<lparr>point_x = 0, point_y = 0\<rparr>, bm_data = [0xf0]\<rparr>"

definition instance_image :: fd_graphics_image_t where
  "instance_image =
     \<lparr>im_width = 1, im_height = 1, im_origin = \<lparr>point_x = 0, point_y = 0\<rparr>, im_data = [255, 1, 2, 3]\<rparr>"

lemma instance_facts:
  "color_8bit_ready instance_display" "area_ok \<lparr>area_x = 1, area_y = 0, area_width = 2, area_height = 1\<rparr>" "image_ok instance_image"
  "placed_ok (image_area 3 1 instance_image)" "bitmap_ok instance_bitmap" "placed_ok (bitmap_area 3 1 instance_bitmap)"
  by (simp_all add: instance_display_def instance_image_def instance_bitmap_def color_8bit_ready_def color_8bit_valid_def area_ok_def
      int_ok_def area_covers_def screen_area_def image_ok_def image_area_def placed_ok_def bitmap_area_def bitmap_ok_def bitmap_stride_def)

lemma fd_graphics_color_8bit_draws_witness:
  "\<exists>b. fd_graphics_color_8bit_write_area \<lparr>area_x = 1, area_y = 0, area_width = 2, area_height = 1\<rparr> instance_display =
      Some (instance_display\<lparr>gr_buffer := b\<rparr>) \<and>
    color_8bit_pixel 8 2 b 1 0 = (255, 255, 255) \<and> color_8bit_pixel 8 2 b 0 0 = (0, 0, 0)"
proof -
  have size: "gr_width instance_display = 8" "gr_height instance_display = 2" by (simp_all add: instance_display_def)
  from fd_graphics_color_8bit_draws[OF instance_facts, THEN conjunct1]
  obtain b where b: "fd_graphics_color_8bit_write_area \<lparr>area_x = 1, area_y = 0, area_width = 2, area_height = 1\<rparr> instance_display =
      Some (instance_display\<lparr>gr_buffer := b\<rparr>)"
    and p: "\<And>u v. color_8bit_pixel 8 2 b u v =
      (if area_has \<lparr>area_x = 1, area_y = 0, area_width = 2, area_height = 1\<rparr> u v \<and>
          area_has (gr_clipping instance_display) u v
       then color_rgb (gr_foreground instance_display) else color_8bit_pixel 8 2 (gr_buffer instance_display) u v)"
    unfolding paints_display_def size by blast
  have "color_8bit_pixel 8 2 b 1 0 = (255, 255, 255)"
    unfolding p[of 1 0] by (simp add: instance_display_def area_has_def color_rgb_def color_r_def color_g_def color_b_def)
  moreover have "color_8bit_pixel 8 2 b 0 0 = (0, 0, 0)"
    unfolding p[of 0 0] by (simp add: instance_display_def area_has_def color_8bit_pixel_def on_screen_def)
  ultimately show ?thesis using b by blast
qed

lemma fd_graphics_color_16bit_background_swapped_witness:
  "\<exists>g'. fd_graphics_color_16bit_write_background instance_display = Some g' \<and>
    fd_graphics_color_16bit_get_pixel 8 3 1 (gr_buffer g') = Some (0, 24, 192)"
proof -
  have "color_16bit_valid (gr_width instance_display) (gr_height instance_display) (gr_buffer instance_display)"
    "on_screen (gr_width instance_display) (gr_height instance_display) 3 1"
    by (simp_all add: instance_display_def color_16bit_valid_def on_screen_def int_ok_def)
  from fd_graphics_color_16bit_background_swapped[OF this] show ?thesis
    by (auto simp: Let_def instance_display_def color_rgb_def color_r_def color_g_def color_b_def)
qed

lemma fd_graphics_gray_4bit_background_four_bytes_witness:
  "\<exists>g'. fd_graphics_gray_4bit_write_background instance_display = Some g' \<and> gray_4bit_pixel 8 2 (gr_buffer g') 0 0 = 0"
proof -
  have "gray_4bit_valid (gr_width instance_display) (gr_height instance_display) (gr_buffer instance_display)" "4 \<le> length (gr_buffer instance_display)"
    "on_screen (gr_width instance_display) (gr_height instance_display) 0 0" "8 \<le> gr_width instance_display"
    "0 < gr_height instance_display - 1 \<or> 0 < gr_width instance_display - 8"
    by (simp_all add: instance_display_def gray_4bit_valid_def on_screen_def int_ok_def)
  from fd_graphics_gray_4bit_background_four_bytes[OF this] show ?thesis
    by (auto simp: instance_display_def gray_4bit_pixel_def on_screen_def)
qed

end
