(* ===== verification/FD_Drawing.thy ===== *)
theory FD_Drawing imports FD_GraphicsColor begin

text \<open>
  Views and drawings: subsys/graphics/src/fd_view.c, fd_drawing.c and fd_drawing_rectangle.c, _image, _icon, _text and _battery.

  A view is what the application asks for. A drawing keeps the view, the view that was last laid out and the area that it
  covers. Images, bitmaps, fonts and strings are reached by pointers, here addresses in \<open>fd_memory\<close>: views are compared
  with \<open>memcmp\<close>, which compares the pointers and not what they point to (and the padding, which is left out here).
\<close>

section \<open>Memory\<close>

record fd_memory =
  mem_images :: "nat \<Rightarrow> fd_graphics_image_t option"
  mem_bitmaps :: "nat \<Rightarrow> fd_graphics_bitmap_t option"
  mem_fonts :: "nat \<Rightarrow> fd_graphics_font_t option"
  mem_strings :: "nat \<Rightarrow> u8 list option"

section \<open>Strings of views\<close>

record fd_view_resource_string_t =
  rs_revision :: u32
  rs_string :: nat
  rs_length :: nat
  rs_size :: nat

text \<open>The new pointer replaces the old one; the test is for the same pointer, not the same string.\<close>

definition fd_view_string_update_reference ::
  "nat \<Rightarrow> fd_view_resource_string_t \<Rightarrow> fd_memory \<Rightarrow> assert_log \<Rightarrow> (fd_view_resource_string_t \<times> assert_log) option" where
  "fd_view_string_update_reference string resource m failures =
     (let failures = fd_assert (rs_size resource = 0) ''resource->size == 0'' failures in
      if rs_string resource = string then Some (resource, failures)
      else do {
        bytes \<leftarrow> mem_strings m string;
        n \<leftarrow> string_length bytes;
        Some (resource\<lparr>rs_string := string, rs_length := n, rs_revision := rs_revision resource + 1\<rparr>, failures)
      })"

text \<open>The string is copied to where the resource points, without its zero and without a look at the size of what is there.\<close>

definition fd_view_string_update ::
  "u8 list \<Rightarrow> fd_view_resource_string_t \<Rightarrow> fd_memory \<Rightarrow> assert_log \<Rightarrow> (fd_view_resource_string_t \<times> fd_memory \<times> assert_log) option" where
  "fd_view_string_update string resource m failures =
     (let failures = fd_assert (0 < rs_size resource) ''resource->size > 0'' failures in do {
        n \<leftarrow> string_length string;
        old \<leftarrow> mem_strings m (rs_string resource);
        same \<leftarrow> (if rs_length resource = n then do { bytes \<leftarrow> rd_block old 0 n; Some (bytes = take n string) } else Some False);
        if same then Some (resource, m, failures)
        else do {
          bytes \<leftarrow> wr_block old 0 (take n string);
          Some (resource\<lparr>rs_length := n, rs_revision := rs_revision resource + 1\<rparr>,
            m\<lparr>mem_strings := (mem_strings m)(rs_string resource \<mapsto> bytes)\<rparr>, failures)
        }
      })"

text \<open>What \<open>snprintf\<close> prints for \<open>%d\<close> and \<open>%s\<close>, in ASCII.\<close>

fun decimal :: "nat \<Rightarrow> u8 list" where
  "decimal n = (if n < 10 then [of_nat (48 + n)] else decimal (n div 10) @ [of_nat (48 + n mod 10)])"

declare decimal.simps [simp del]

definition print_int :: "int \<Rightarrow> u8 list" where
  "print_int v = (if v < 0 then 45 # decimal (nat (- v)) else decimal (nat v))"

text \<open>With a size of 0 \<open>snprintf\<close> leaves the local array as it is, without a value.\<close>

definition fd_view_string_update_int_suffix ::
  "int \<Rightarrow> u8 list option \<Rightarrow> fd_view_resource_string_t \<Rightarrow> fd_memory \<Rightarrow> assert_log \<Rightarrow>
     (fd_view_resource_string_t \<times> fd_memory \<times> assert_log) option" where
  "fd_view_string_update_int_suffix v suffix resource m failures =
     do {
       let size = (if rs_size resource < 8 then rs_size resource else 8);
       suffix \<leftarrow> (case suffix of None \<Rightarrow> Some [] | Some s \<Rightarrow> do { n \<leftarrow> string_length s; Some (take n s) });
       if size = 0 then None
       else fd_view_string_update (take (size - 1) (print_int v @ suffix) @ [0]) resource m failures
     }"

definition fd_view_string_update_int ::
  "int \<Rightarrow> fd_view_resource_string_t \<Rightarrow> fd_memory \<Rightarrow> assert_log \<Rightarrow> (fd_view_resource_string_t \<times> fd_memory \<times> assert_log) option" where
  "fd_view_string_update_int v resource m failures = fd_view_string_update_int_suffix v None resource m failures"

section \<open>Views\<close>

datatype fd_view_alignment_t =
  fd_view_alignment_origin | fd_view_alignment_min | fd_view_alignment_max | fd_view_alignment_center

record fd_view_alignments_t =
  al_x :: fd_view_alignment_t
  al_y :: fd_view_alignment_t

record fd_view_t =
  view_visible :: bool
  view_location :: fd_graphics_point_t
  view_alignments :: fd_view_alignments_t

record fd_view_rectangle_t = fd_view_t +
  vr_area :: fd_graphics_area_t
  vr_color :: fd_graphics_color_t

record fd_view_image_t = fd_view_t +
  vi_revision :: u32
  vi_image :: nat

record fd_view_icon_t = fd_view_t +
  vc_revision :: u32
  vc_bitmap :: nat
  vc_color :: fd_graphics_color_t

record fd_view_text_t = fd_view_t +
  vt_string :: fd_view_resource_string_t
  vt_font_revision :: u32
  vt_font :: nat
  vt_color :: fd_graphics_color_t

datatype fd_view_battery_status_t =
  fd_view_battery_status_unpowered | fd_view_battery_status_powered | fd_view_battery_status_charging

text \<open>The state of charge is the bits of a \<open>float\<close>.\<close>

record fd_view_battery_t = fd_view_t +
  vb_state_of_charge :: u32
  vb_status :: fd_view_battery_status_t
  vb_color :: fd_graphics_color_t

section \<open>Alignment\<close>

text \<open>One coordinate of the origin: the two switches of \<open>fd_drawing_align\<close>, and of the layouts that repeat them, differ in
  nothing else.\<close>

definition align_coordinate :: "fd_view_alignment_t \<Rightarrow> int \<Rightarrow> int \<Rightarrow> int \<Rightarrow> int option" where
  "align_coordinate alignment start extent location =
     (case alignment of
        fd_view_alignment_origin \<Rightarrow> Some location
      | fd_view_alignment_min \<Rightarrow> c_int (location - start)
      | fd_view_alignment_max \<Rightarrow> do { e \<leftarrow> c_int (start + extent); c_int (location - e) }
      | fd_view_alignment_center \<Rightarrow> do { c \<leftarrow> c_int (start + extent sdiv 2); c_int (location - c) })"

definition fd_drawing_align ::
  "fd_graphics_area_t \<Rightarrow> fd_graphics_point_t \<Rightarrow> fd_view_alignments_t \<Rightarrow> fd_graphics_point_t option" where
  "fd_drawing_align area location alignments =
     do {
       x \<leftarrow> align_coordinate (al_x alignments) (area_x area) (area_width area) (point_x location);
       y \<leftarrow> align_coordinate (al_y alignments) (area_y area) (area_height area) (point_y location);
       Some \<lparr>point_x = x, point_y = y\<rparr>
     }"

definition move_area :: "fd_graphics_point_t \<Rightarrow> fd_graphics_area_t \<Rightarrow> fd_graphics_area_t option" where
  "move_area origin area =
     do {
       (x, y) \<leftarrow> c_point (area_x area + point_x origin) (area_y area + point_y origin);
       Some (area\<lparr>area_x := x, area_y := y\<rparr>)
     }"

definition move_point :: "fd_graphics_point_t \<Rightarrow> fd_graphics_point_t \<Rightarrow> fd_graphics_point_t option" where
  "move_point by p =
     do { (x, y) \<leftarrow> c_point (point_x p + point_x by) (point_y p + point_y by); Some \<lparr>point_x = x, point_y = y\<rparr> }"

section \<open>The bitmaps of the battery\<close>

definition fd_bitmap_battery :: fd_graphics_bitmap_t where
  "fd_bitmap_battery =
     \<lparr>bm_width = 38, bm_height = 12, bm_depth = 4, bm_origin = \<lparr>point_x = 0, point_y = 0\<rparr>, bm_data = [
    0x02, 0xae, 0xff, 0xff, 0xff, 0xff, 0xff, 0xff, 0xff, 0xff, 0xff, 0xff, 0xff, 0xff, 0xff, 0xfe, 0xa2, 0x00, 0x00,
    0x2e, 0xff, 0xff, 0xff, 0xff, 0xff, 0xff, 0xff, 0xff, 0xff, 0xff, 0xff, 0xff, 0xff, 0xff, 0xff, 0xfe, 0x20, 0x00,
    0xaf, 0xb2, 0x00, 0x00, 0x00, 0x00, 0x00, 0x00, 0x00, 0x00, 0x00, 0x00, 0x00, 0x00, 0x00, 0x03, 0xcf, 0x90, 0x00,
    0xef, 0x20, 0x00, 0x00, 0x00, 0x00, 0x00, 0x00, 0x00, 0x00, 0x00, 0x00, 0x00, 0x00, 0x00, 0x00, 0x3f, 0xee, 0xe4,
    0xff, 0x00, 0x00, 0x00, 0x00, 0x00, 0x00, 0x00, 0x00, 0x00, 0x00, 0x00, 0x00, 0x00, 0x00, 0x00, 0x0f, 0xff, 0xfc,
    0xff, 0x00, 0x00, 0x00, 0x00, 0x00, 0x00, 0x00, 0x00, 0x00, 0x00, 0x00, 0x00, 0x00, 0x00, 0x00, 0x0f, 0xff, 0xff,
    0xff, 0x00, 0x00, 0x00, 0x00, 0x00, 0x00, 0x00, 0x00, 0x00, 0x00, 0x00, 0x00, 0x00, 0x00, 0x00, 0x0f, 0xff, 0xff,
    0xff, 0x00, 0x00, 0x00, 0x00, 0x00, 0x00, 0x00, 0x00, 0x00, 0x00, 0x00, 0x00, 0x00, 0x00, 0x00, 0x0f, 0xff, 0xfe,
    0xef, 0x30, 0x00, 0x00, 0x00, 0x00, 0x00, 0x00, 0x00, 0x00, 0x00, 0x00, 0x00, 0x00, 0x00, 0x00, 0x2f, 0xee, 0xe5,
    0x9f, 0xc3, 0x00, 0x00, 0x00, 0x00, 0x00, 0x00, 0x00, 0x00, 0x00, 0x00, 0x00, 0x00, 0x00, 0x02, 0xbf, 0xa0, 0x00,
    0x2e, 0xff, 0xff, 0xff, 0xff, 0xff, 0xff, 0xff, 0xff, 0xff, 0xff, 0xff, 0xff, 0xff, 0xff, 0xff, 0xfe, 0x20, 0x00,
    0x02, 0x9e, 0xff, 0xff, 0xff, 0xff, 0xff, 0xff, 0xff, 0xff, 0xff, 0xff, 0xff, 0xff, 0xff, 0xfe, 0xa2, 0x00, 0x00]\<rparr>"

definition fd_bitmap_charging :: fd_graphics_bitmap_t where
  "fd_bitmap_charging =
     \<lparr>bm_width = 12, bm_height = 12, bm_depth = 4, bm_origin = \<lparr>point_x = 0, point_y = 6\<rparr>, bm_data = [
    0x00, 0x00, 0x00, 0x40, 0x00, 0x00, 0x00, 0x00, 0x00, 0xc1, 0x00, 0x00, 0x00, 0x00, 0x00, 0xf5, 0x00, 0x00, 0x00,
    0x00, 0x00, 0xfd, 0x10, 0x00, 0x00, 0x44, 0x44, 0xff, 0x60, 0x00, 0x00, 0x7f, 0xff, 0xff, 0xe1, 0x00, 0x00, 0x1d,
    0xff, 0xff, 0xf7, 0x00, 0x00, 0x06, 0xff, 0x44, 0x44, 0x00, 0x00, 0x01, 0xdf, 0x00, 0x00, 0x00, 0x00, 0x00, 0x5f,
    0x00, 0x00, 0x00, 0x00, 0x00, 0x0c, 0x00, 0x00, 0x00, 0x00, 0x00, 0x04, 0x00, 0x00, 0x00]\<rparr>"

definition fd_bitmap_powered :: fd_graphics_bitmap_t where
  "fd_bitmap_powered =
     \<lparr>bm_width = 6, bm_height = 6, bm_depth = 4, bm_origin = \<lparr>point_x = 0, point_y = 3\<rparr>, bm_data = [
    0x02, 0x77, 0x20, 0x2e, 0xff, 0xe2, 0x7f, 0xff, 0xf7, 0x6f, 0xff, 0xf6, 0x2e, 0xff, 0xe2, 0x02, 0x77, 0x20]\<rparr>"

section \<open>Rectangles\<close>

record fd_drawing_rectangle_t =
  dr_view :: fd_view_rectangle_t
  dr_previous_view :: fd_view_rectangle_t
  dr_area :: fd_graphics_area_t

definition fd_drawing_rectangle_layout :: "fd_drawing_rectangle_t \<Rightarrow> fd_drawing_rectangle_t option" where
  "fd_drawing_rectangle_layout d =
     (let view = dr_view d in
      if \<not> view_visible view then Some (d\<lparr>dr_area := fd_graphics_area_empty\<rparr>)
      else do {
        let area = vr_area view;
        origin \<leftarrow> fd_drawing_align area (view_location view) (view_alignments view);
        area \<leftarrow> move_area origin area;
        Some (d\<lparr>dr_area := area\<rparr>)
      })"

type_synonym change = "(fd_graphics_area_t \<times> bool) option"

text \<open>An update returns the change that it reports, if the view is not the one that was last laid out.\<close>

definition fd_drawing_rectangle_update :: "fd_drawing_rectangle_t \<Rightarrow> (fd_drawing_rectangle_t \<times> change) option" where
  "fd_drawing_rectangle_update d =
     (if dr_previous_view d = dr_view d then Some (d, None)
      else do {
        let old_area = dr_area d;
        d \<leftarrow> fd_drawing_rectangle_layout d;
        let new_area = dr_area d;
        area \<leftarrow> fd_graphics_area_union old_area new_area;
        opaque \<leftarrow> fd_graphics_area_contains new_area old_area;
        Some (d\<lparr>dr_previous_view := dr_view d\<rparr>, Some (area, opaque))
      })"

definition fd_drawing_rectangle_render ::
  "'d fd_graphics_backend_t \<Rightarrow> fd_drawing_rectangle_t \<Rightarrow> 'd fd_graphics_t \<Rightarrow> 'd fd_graphics_t option" where
  "fd_drawing_rectangle_render backend d g =
     (let view = dr_previous_view d in
      if \<not> view_visible view then Some g
      else fd_graphics_write_area backend (dr_area d) (fd_graphics_set_foreground (vr_color view) g))"

section \<open>Images\<close>

record fd_drawing_image_t =
  di_view :: fd_view_image_t
  di_previous_view :: fd_view_image_t
  di_area :: fd_graphics_area_t
  di_origin :: fd_graphics_point_t

definition fd_drawing_image_layout :: "fd_memory \<Rightarrow> fd_drawing_image_t \<Rightarrow> fd_drawing_image_t option" where
  "fd_drawing_image_layout m d =
     (let view = di_view d in
      if \<not> view_visible view then Some (d\<lparr>di_area := fd_graphics_area_empty, di_origin := view_location view\<rparr>)
      else do {
        picture \<leftarrow> mem_images m (vi_image view);
        let area = \<lparr>area_x = 0, area_y = 0, area_width = im_width picture, area_height = im_height picture\<rparr>;
        origin \<leftarrow> fd_drawing_align area (view_location view) (view_alignments view);
        area \<leftarrow> move_area origin area;
        origin \<leftarrow> move_point (im_origin picture) origin;
        Some (d\<lparr>di_area := area, di_origin := origin\<rparr>)
      })"

definition fd_drawing_image_update :: "fd_memory \<Rightarrow> fd_drawing_image_t \<Rightarrow> (fd_drawing_image_t \<times> change) option" where
  "fd_drawing_image_update m d =
     (if di_previous_view d = di_view d then Some (d, None)
      else do {
        let old_area = di_area d;
        d \<leftarrow> fd_drawing_image_layout m d;
        let new_area = di_area d;
        area \<leftarrow> fd_graphics_area_union old_area new_area;
        opaque \<leftarrow> fd_graphics_area_contains new_area old_area;
        Some (d\<lparr>di_previous_view := di_view d\<rparr>, Some (area, opaque))
      })"

definition fd_drawing_image_render ::
  "'d fd_graphics_backend_t \<Rightarrow> fd_memory \<Rightarrow> fd_drawing_image_t \<Rightarrow> 'd fd_graphics_t \<Rightarrow> 'd fd_graphics_t option" where
  "fd_drawing_image_render backend m d g =
     (let view = di_previous_view d in
      if \<not> view_visible view then Some g
      else do {
        picture \<leftarrow> mem_images m (vi_image view);
        fd_graphics_write_image backend (point_x (di_origin d)) (point_y (di_origin d)) picture g
      })"

section \<open>Icons\<close>

record fd_drawing_icon_t =
  dc_view :: fd_view_icon_t
  dc_previous_view :: fd_view_icon_t
  dc_area :: fd_graphics_area_t
  dc_origin :: fd_graphics_point_t

definition fd_drawing_icon_layout :: "fd_memory \<Rightarrow> fd_drawing_icon_t \<Rightarrow> fd_drawing_icon_t option" where
  "fd_drawing_icon_layout m d =
     (let view = dc_view d in
      if \<not> view_visible view then Some (d\<lparr>dc_area := fd_graphics_area_empty, dc_origin := view_location view\<rparr>)
      else do {
        bitmap \<leftarrow> mem_bitmaps m (vc_bitmap view);
        let area = \<lparr>area_x = 0, area_y = 0, area_width = bm_width bitmap, area_height = bm_height bitmap\<rparr>;
        origin \<leftarrow> fd_drawing_align area (view_location view) (view_alignments view);
        area \<leftarrow> move_area origin area;
        origin \<leftarrow> move_point (bm_origin bitmap) origin;
        Some (d\<lparr>dc_area := area, dc_origin := origin\<rparr>)
      })"

definition fd_drawing_icon_update :: "fd_memory \<Rightarrow> fd_drawing_icon_t \<Rightarrow> (fd_drawing_icon_t \<times> change) option" where
  "fd_drawing_icon_update m d =
     (if dc_previous_view d = dc_view d then Some (d, None)
      else do {
        let old_area = dc_area d;
        d \<leftarrow> fd_drawing_icon_layout m d;
        let new_area = dc_area d;
        area \<leftarrow> fd_graphics_area_union old_area new_area;
        opaque \<leftarrow> fd_graphics_area_contains new_area old_area;
        Some (d\<lparr>dc_previous_view := dc_view d\<rparr>, Some (area, opaque))
      })"

definition fd_drawing_icon_render ::
  "'d fd_graphics_backend_t \<Rightarrow> fd_memory \<Rightarrow> fd_drawing_icon_t \<Rightarrow> 'd fd_graphics_t \<Rightarrow> 'd fd_graphics_t option" where
  "fd_drawing_icon_render backend m d g =
     (let view = dc_previous_view d in
      if \<not> view_visible view then Some g
      else do {
        bitmap \<leftarrow> mem_bitmaps m (vc_bitmap view);
        fd_graphics_write_bitmap backend (point_x (dc_origin d)) (point_y (dc_origin d)) bitmap
          (fd_graphics_set_foreground (vc_color view) g)
      })"

section \<open>Text\<close>

text \<open>A text with buffers of its own has the addresses of the two and their size, and copies the one to the other when it has
  been laid out.\<close>

record fd_drawing_text_t =
  dt_view :: fd_view_text_t
  dt_previous_view :: fd_view_text_t
  dt_area :: fd_graphics_area_t
  dt_origin :: fd_graphics_point_t
  dt_update :: "(nat \<times> nat \<times> nat) option"

definition fd_drawing_text_n_update :: "nat \<times> nat \<times> nat \<Rightarrow> fd_memory \<Rightarrow> fd_memory option" where
  "fd_drawing_text_n_update buffers m =
     (case buffers of (buffer, previous_buffer, n) \<Rightarrow> do {
        bytes \<leftarrow> mem_strings m buffer;
        block \<leftarrow> rd_block bytes 0 n;
        old \<leftarrow> mem_strings m previous_buffer;
        new \<leftarrow> wr_block old 0 block;
        Some (m\<lparr>mem_strings := (mem_strings m)(previous_buffer \<mapsto> new)\<rparr>)
      })"

definition fd_drawing_text_n_setup :: "nat \<times> nat \<times> nat \<Rightarrow> fd_drawing_text_t \<Rightarrow> fd_drawing_text_t" where
  "fd_drawing_text_n_setup buffers d =
     (case buffers of (buffer, previous_buffer, n) \<Rightarrow>
        let view = dt_view d; previous_view = dt_previous_view d in
        d\<lparr>dt_view := view\<lparr>vt_string := (vt_string view)\<lparr>rs_string := buffer, rs_size := n\<rparr>\<rparr>,
          dt_previous_view := previous_view\<lparr>vt_string := (vt_string previous_view)\<lparr>rs_string := previous_buffer, rs_size := n\<rparr>\<rparr>,
          dt_update := Some buffers\<rparr>)"

text \<open>The layout sets the font of the display to measure the string.\<close>

definition fd_drawing_text_layout ::
  "fd_memory \<Rightarrow> fd_drawing_text_t \<Rightarrow> 'd fd_graphics_t \<Rightarrow> (fd_drawing_text_t \<times> 'd fd_graphics_t) option" where
  "fd_drawing_text_layout m d g =
     (let view = dt_view d in
      if \<not> view_visible view then Some (d\<lparr>dt_area := fd_graphics_area_empty, dt_origin := view_location view\<rparr>, g)
      else do {
        font \<leftarrow> mem_fonts m (vt_font view);
        let g = fd_graphics_set_font font g;
        string \<leftarrow> mem_strings m (rs_string (vt_string view));
        metrics \<leftarrow> fd_graphics_get_string_metrics_length string (rs_length (vt_string view)) g;
        let area = me_bounds metrics;
        origin \<leftarrow> fd_drawing_align area (view_location view) (view_alignments view);
        area \<leftarrow> move_area origin area;
        Some (d\<lparr>dt_area := area, dt_origin := origin\<rparr>, g)
      })"

definition fd_drawing_text_update ::
  "fd_memory \<Rightarrow> fd_drawing_text_t \<Rightarrow> 'd fd_graphics_t \<Rightarrow> (fd_drawing_text_t \<times> change \<times> fd_memory \<times> 'd fd_graphics_t) option" where
  "fd_drawing_text_update m d g =
     (if dt_previous_view d = dt_view d then Some (d, None, m, g)
      else do {
        let old_area = dt_area d;
        (d, g) \<leftarrow> fd_drawing_text_layout m d g;
        let new_area = dt_area d;
        area \<leftarrow> fd_graphics_area_union old_area new_area;
        let d = d\<lparr>dt_previous_view := dt_view d\<rparr>;
        m \<leftarrow> (case dt_update d of None \<Rightarrow> Some m | Some buffers \<Rightarrow> fd_drawing_text_n_update buffers m);
        Some (d, Some (area, False), m, g)
      })"

definition fd_drawing_text_render ::
  "'d fd_graphics_backend_t \<Rightarrow> fd_memory \<Rightarrow> fd_drawing_text_t \<Rightarrow> 'd fd_graphics_t \<Rightarrow> 'd fd_graphics_t option" where
  "fd_drawing_text_render backend m d g =
     (let view = dt_previous_view d in
      if \<not> view_visible view then Some g
      else do {
        font \<leftarrow> mem_fonts m (vt_font view);
        let g = fd_graphics_set_foreground (vt_color view) (fd_graphics_set_font font g);
        string \<leftarrow> mem_strings m (rs_string (vt_string view));
        fd_graphics_write_string_length backend (point_x (dt_origin d)) (point_y (dt_origin d)) string (rs_length (vt_string view)) g
      })"

section \<open>Battery\<close>

record fd_drawing_battery_t =
  db_view :: fd_view_battery_t
  db_previous_view :: fd_view_battery_t
  db_area :: fd_graphics_area_t
  db_origin :: fd_graphics_point_t

definition fd_drawing_battery_initialize :: fd_drawing_battery_t where
  "fd_drawing_battery_initialize =
     (let nowhere = \<lparr>point_x = 0, point_y = 0\<rparr>;
          view = \<lparr>view_visible = False, view_location = nowhere,
                  view_alignments = \<lparr>al_x = fd_view_alignment_origin, al_y = fd_view_alignment_origin\<rparr>,
                  vb_state_of_charge = 0, vb_status = fd_view_battery_status_unpowered, vb_color = 0\<rparr>
      in \<lparr>db_view = view, db_previous_view = view, db_area = fd_graphics_area_empty, db_origin = nowhere\<rparr>)"

definition fd_drawing_battery_layout :: "fd_drawing_battery_t \<Rightarrow> fd_drawing_battery_t option" where
  "fd_drawing_battery_layout d =
     (let view = db_view d in
      if \<not> view_visible view then Some (d\<lparr>db_area := fd_graphics_area_empty, db_origin := view_location view\<rparr>)
      else do {
        let area = \<lparr>area_x = 0, area_y = 0, area_width = bm_width fd_bitmap_charging + 2 + bm_width fd_bitmap_battery,
                    area_height = bm_height fd_bitmap_battery\<rparr>;
        origin \<leftarrow> fd_drawing_align area (view_location view) (view_alignments view);
        Some (d\<lparr>db_area := area\<lparr>area_x := point_x origin, area_y := point_y origin\<rparr>\<rparr>)
      })"

definition fd_drawing_battery_update :: "fd_drawing_battery_t \<Rightarrow> (fd_drawing_battery_t \<times> change) option" where
  "fd_drawing_battery_update d =
     (if db_previous_view d = db_view d then Some (d, None)
      else do {
        let old_area = db_area d;
        d \<leftarrow> fd_drawing_battery_layout d;
        let new_area = db_area d;
        area \<leftarrow> fd_graphics_area_union old_area new_area;
        Some (d\<lparr>db_previous_view := db_view d\<rparr>, Some (area, False))
      })"

text \<open>\<open>(int)round(state_of_charge * (float)n)\<close>: the product is rounded to single precision, then halves away from zero; a
  result that is not an \<open>int\<close> is undefined.\<close>

definition battery_bar_width :: "u32 \<Rightarrow> int \<Rightarrow> int option" where
  "battery_bar_width state_of_charge n =
     do {
       u \<leftarrow> float_value state_of_charge;
       let p = u * n;
       let r = (2 * float_round \<bar>p\<bar> 1 + 2 ^ 149) div 2 ^ 150;
       let v = (if p < 0 then - r else r);
       if - (2 ^ 31) \<le> v \<and> v < 2 ^ 31 then Some v else None
     }"

text \<open>Where the battery begins, after the sign for charging.\<close>

definition battery_start :: "fd_graphics_area_t \<Rightarrow> int option" where
  "battery_start area = do { x \<leftarrow> c_int (area_x area + bm_width fd_bitmap_charging); c_int (x + 2) }"

definition fd_drawing_battery_render ::
  "'d fd_graphics_backend_t \<Rightarrow> fd_drawing_battery_t \<Rightarrow> 'd fd_graphics_t \<Rightarrow> 'd fd_graphics_t option" where
  "fd_drawing_battery_render backend d g =
     (let view = db_previous_view d; area = db_area d in
      if \<not> view_visible view then Some g
      else do {
        let g = fd_graphics_set_foreground (vb_color view) g;
        x \<leftarrow> battery_start area;
        g \<leftarrow> fd_graphics_write_bitmap backend x (area_y area) fd_bitmap_battery g;
        width \<leftarrow> battery_bar_width (vb_state_of_charge view) (bm_width fd_bitmap_battery - 11);
        (x, y) \<leftarrow> c_point (x + 4) (area_y area + 4);
        height \<leftarrow> c_int (area_height area - 8);
        g \<leftarrow> fd_graphics_write_area backend \<lparr>area_x = x, area_y = y, area_width = width, area_height = height\<rparr> g;
        y \<leftarrow> c_int (area_y area + area_height area sdiv 2);
        case vb_status view of
          fd_view_battery_status_charging \<Rightarrow> fd_graphics_write_bitmap backend (area_x area) y fd_bitmap_charging g
        | fd_view_battery_status_powered \<Rightarrow> fd_graphics_write_bitmap backend (area_x area) y fd_bitmap_powered g
        | fd_view_battery_status_unpowered \<Rightarrow> Some g
      })"

section \<open>Drawings\<close>

text \<open>An object and its class.\<close>

datatype fd_drawing_t =
    fd_drawing_rectangle fd_drawing_rectangle_t
  | fd_drawing_image fd_drawing_image_t
  | fd_drawing_icon fd_drawing_icon_t
  | fd_drawing_text fd_drawing_text_t
  | fd_drawing_battery fd_drawing_battery_t

definition drawing_update ::
  "fd_memory \<Rightarrow> fd_drawing_t \<Rightarrow> 'd fd_graphics_t \<Rightarrow> (fd_drawing_t \<times> change \<times> fd_memory \<times> 'd fd_graphics_t) option" where
  "drawing_update m drawing g =
     (case drawing of
        fd_drawing_rectangle d \<Rightarrow> do { (d, change) \<leftarrow> fd_drawing_rectangle_update d; Some (fd_drawing_rectangle d, change, m, g) }
      | fd_drawing_image d \<Rightarrow> do { (d, change) \<leftarrow> fd_drawing_image_update m d; Some (fd_drawing_image d, change, m, g) }
      | fd_drawing_icon d \<Rightarrow> do { (d, change) \<leftarrow> fd_drawing_icon_update m d; Some (fd_drawing_icon d, change, m, g) }
      | fd_drawing_text d \<Rightarrow> do { (d, change, m, g) \<leftarrow> fd_drawing_text_update m d g; Some (fd_drawing_text d, change, m, g) }
      | fd_drawing_battery d \<Rightarrow> do { (d, change) \<leftarrow> fd_drawing_battery_update d; Some (fd_drawing_battery d, change, m, g) })"

definition drawing_render ::
  "'d fd_graphics_backend_t \<Rightarrow> fd_memory \<Rightarrow> fd_drawing_t \<Rightarrow> 'd fd_graphics_t \<Rightarrow> 'd fd_graphics_t option" where
  "drawing_render backend m drawing g =
     (case drawing of
        fd_drawing_rectangle d \<Rightarrow> fd_drawing_rectangle_render backend d g
      | fd_drawing_image d \<Rightarrow> fd_drawing_image_render backend m d g
      | fd_drawing_icon d \<Rightarrow> fd_drawing_icon_render backend m d g
      | fd_drawing_text d \<Rightarrow> fd_drawing_text_render backend m d g
      | fd_drawing_battery d \<Rightarrow> fd_drawing_battery_render backend d g)"

definition drawing_get_area :: "fd_drawing_t \<Rightarrow> fd_graphics_area_t" where
  "drawing_get_area drawing =
     (case drawing of
        fd_drawing_rectangle d \<Rightarrow> dr_area d | fd_drawing_image d \<Rightarrow> di_area d | fd_drawing_icon d \<Rightarrow> dc_area d
      | fd_drawing_text d \<Rightarrow> dt_area d | fd_drawing_battery d \<Rightarrow> db_area d)"

text \<open>A plane has room for a number of drawings.\<close>

definition fd_drawing_plane_add :: "nat \<Rightarrow> fd_drawing_t \<Rightarrow> fd_drawing_t list \<Rightarrow> assert_log \<Rightarrow> fd_drawing_t list \<times> assert_log" where
  "fd_drawing_plane_add room drawing plane failures =
     (if room \<le> length plane then (plane, fd_assert False ''too many drawings'' failures) else (plane @ [drawing], failures))"

definition fd_drawing_touched :: "fd_drawing_t \<Rightarrow> int \<Rightarrow> int \<Rightarrow> bool option" where
  "fd_drawing_touched drawing x y = fd_graphics_area_contains_point (drawing_get_area drawing) x y"

end
