(* ===== verification/FD_Canvas.thy ===== *)
theory FD_Canvas imports FD_Drawing begin

text \<open>
  The canvas, subsys/graphics/src/fd_canvas.c: it asks every drawing of every plane what has changed, and draws again what
  lies in the smallest area around all the changes, at once or in a work queue of the system.

  The planes are reached by pointers and shared with the application and the copy that the renderer works on: here numbers
  into \<open>cv_drawings\<close>. What the queue answers when the work is submitted is \<open>cv_submit_result\<close>; the work itself,
  \<open>fd_canvas_render_work\<close>, runs when the system runs it. The measurements of time are left out.
\<close>

record fd_canvas_change_t =
  ch_area :: fd_graphics_area_t
  ch_opaque :: bool

record fd_canvas_render_state_t =
  st_planes :: "nat list"
  st_change :: fd_canvas_change_t

record 'd fd_canvas_t =
  cv_planes :: "nat list"
  cv_drawings :: "nat \<Rightarrow> fd_drawing_t list"
  cv_memory :: fd_memory
  cv_graphics :: "'d fd_graphics_t"
  cv_change :: fd_canvas_change_t
  cv_work_queue :: bool
  cv_submit_result :: int
  cv_is_rendering :: bool
  cv_render_state :: fd_canvas_render_state_t
  cv_log :: assert_log

definition no_change :: "bool \<Rightarrow> fd_canvas_change_t" where
  "no_change opaque = \<lparr>ch_area = fd_graphics_area_empty, ch_opaque = opaque\<rparr>"

definition black :: fd_graphics_color_t where
  "black = 0xff000000"

definition white :: fd_graphics_color_t where
  "white = 0xffffffff"

fun render_drawings ::
  "'d fd_graphics_backend_t \<Rightarrow> fd_memory \<Rightarrow> fd_graphics_area_t \<Rightarrow> fd_drawing_t list \<Rightarrow> 'd fd_graphics_t \<Rightarrow> 'd fd_graphics_t option" where
  "render_drawings backend m area [] g = Some g"
| "render_drawings backend m area (drawing # drawings) g =
     do {
       visible \<leftarrow> fd_graphics_area_intersects area (drawing_get_area drawing);
       g \<leftarrow> (if \<not> visible then Some g else drawing_render backend m drawing g);
       render_drawings backend m area drawings g
     }"

fun render_planes ::
  "'d fd_graphics_backend_t \<Rightarrow> fd_memory \<Rightarrow> fd_graphics_area_t \<Rightarrow> (nat \<Rightarrow> fd_drawing_t list) \<Rightarrow> nat list \<Rightarrow>
     'd fd_graphics_t \<Rightarrow> 'd fd_graphics_t option" where
  "render_planes backend m area drawings [] g = Some g"
| "render_planes backend m area drawings (plane # planes) g =
     do {
       g \<leftarrow> render_drawings backend m area (drawings plane) g;
       render_planes backend m area drawings planes g
     }"

definition fd_canvas_render :: "'d fd_graphics_backend_t \<Rightarrow> 'd fd_canvas_t \<Rightarrow> 'd fd_canvas_t option" where
  "fd_canvas_render backend canvas =
     (let state = cv_render_state canvas; area = ch_area (st_change state) in
      if fd_graphics_area_is_empty area then Some canvas
      else do {
        g \<leftarrow> fd_graphics_set_clipping area (fd_graphics_reset (cv_graphics canvas));
        g \<leftarrow> (if \<not> ch_opaque (st_change state) then fd_graphics_write_area backend area (fd_graphics_set_foreground black g)
             else Some g);
        let g = fd_graphics_set_foreground white (fd_graphics_set_background black g);
        g \<leftarrow> render_planes backend (cv_memory canvas) area (cv_drawings canvas) (st_planes state) g;
        g \<leftarrow> fd_graphics_update backend area (fd_graphics_reset g);
        Some (canvas\<lparr>cv_graphics := g\<rparr>)
      })"

definition fd_canvas_add_change :: "fd_graphics_area_t \<Rightarrow> bool \<Rightarrow> 'd fd_canvas_t \<Rightarrow> 'd fd_canvas_t option" where
  "fd_canvas_add_change area opaque canvas =
     do {
       inside \<leftarrow> fd_graphics_area_contains (screen_area (cv_graphics canvas)) area;
       whole \<leftarrow> fd_graphics_area_union (ch_area (cv_change canvas)) area;
       Some (canvas\<lparr>cv_log := fd_assert inside ''fd_graphics_area_contains(graphics_area, area)'' (cv_log canvas),
         cv_change := \<lparr>ch_area = whole, ch_opaque = (ch_opaque (cv_change canvas) \<and> opaque)\<rparr>\<rparr>)
     }"

fun update_drawings ::
  "fd_drawing_t list \<Rightarrow> 'd fd_canvas_t \<Rightarrow> (fd_drawing_t list \<times> 'd fd_canvas_t) option" where
  "update_drawings [] canvas = Some ([], canvas)"
| "update_drawings (drawing # drawings) canvas =
     do {
       (drawing, change, m, g) \<leftarrow> drawing_update (cv_memory canvas) drawing (cv_graphics canvas);
       let canvas = canvas\<lparr>cv_memory := m, cv_graphics := g\<rparr>;
       canvas \<leftarrow> (case change of None \<Rightarrow> Some canvas | Some (area, opaque) \<Rightarrow> fd_canvas_add_change area opaque canvas);
       (drawings, canvas) \<leftarrow> update_drawings drawings canvas;
       Some (drawing # drawings, canvas)
     }"

fun update_planes :: "nat list \<Rightarrow> 'd fd_canvas_t \<Rightarrow> 'd fd_canvas_t option" where
  "update_planes [] canvas = Some canvas"
| "update_planes (plane # planes) canvas =
     do {
       (drawings, canvas) \<leftarrow> update_drawings (cv_drawings canvas plane) canvas;
       update_planes planes (canvas\<lparr>cv_drawings := (cv_drawings canvas)(plane := drawings)\<rparr>)
     }"

definition fd_canvas_update ::
  "'d fd_graphics_backend_t \<Rightarrow> fd_graphics_area_t \<Rightarrow> bool \<Rightarrow> 'd fd_canvas_t \<Rightarrow> 'd fd_canvas_t option" where
  "fd_canvas_update backend area opaque canvas =
     do {
      canvas \<leftarrow> fd_canvas_add_change area opaque canvas;
      if cv_is_rendering canvas then Some canvas
      else if \<not> fd_graphics_is_display_on (cv_graphics canvas) then Some canvas
      else do {
        canvas \<leftarrow> update_planes (cv_planes canvas) canvas;
        if fd_graphics_area_is_empty (ch_area (cv_change canvas)) then Some canvas
        else
          let canvas = canvas\<lparr>cv_render_state := \<lparr>st_planes = cv_planes canvas, st_change = cv_change canvas\<rparr>,
                              cv_change := no_change True\<rparr>
          in if \<not> cv_work_queue canvas then fd_canvas_render backend canvas
             else Some (canvas\<lparr>cv_is_rendering := True, cv_log := fd_assert (cv_submit_result canvas = 1) ''result == 1'' (cv_log canvas)\<rparr>)
      }
     }"

definition fd_canvas_render_work :: "'d fd_graphics_backend_t \<Rightarrow> 'd fd_canvas_t \<Rightarrow> 'd fd_canvas_t option" where
  "fd_canvas_render_work backend canvas =
     do { canvas \<leftarrow> fd_canvas_render backend canvas; Some (canvas\<lparr>cv_is_rendering := False\<rparr>) }"

text \<open>All members are zero; the pointer to the display is set by the application afterwards, and the memory and what the
  system answers are not members.\<close>

definition fd_canvas_initialize :: "'d fd_canvas_t \<Rightarrow> 'd fd_canvas_t" where
  "fd_canvas_initialize canvas =
     canvas\<lparr>cv_planes := [], cv_change := no_change False, cv_work_queue := False, cv_is_rendering := False,
       cv_render_state := \<lparr>st_planes = [], st_change = no_change False\<rparr>\<rparr>"

end
