(* ===== verification/FD_CanvasSpec.thy ===== *)
theory FD_CanvasSpec imports FD_GraphicsSpec FD_Canvas begin

text \<open>
  What a canvas shows. For a canvas of rectangles on the 24 bit display, drawing only what has changed gives the same picture
  as drawing everything: \<open>picture\<close> is the colour of the last drawing over a pixel, and \<open>fd_canvas_update_shows\<close> follows the
  change through the layout of the drawings, the area that collects the changes, the flag that saves the clearing, and the
  clipped drawing. For icons the flag is wrong, and the old icon shows through.
\<close>

section \<open>Rectangles\<close>

fun covers :: "fd_drawing_t \<Rightarrow> int \<Rightarrow> int \<Rightarrow> bool" where
  "covers (fd_drawing_rectangle d) x y \<longleftrightarrow> view_visible (dr_previous_view d) \<and> area_has (dr_area d) x y"
| "covers _ x y \<longleftrightarrow> False"

fun paint_color :: "fd_drawing_t \<Rightarrow> rgb" where
  "paint_color (fd_drawing_rectangle d) = color_rgb (vr_color (dr_previous_view d))"
| "paint_color _ = (0, 0, 0)"

text \<open>The colour of a pixel: that of the last drawing that covers it, or what it was.\<close>

definition picture :: "fd_drawing_t list \<Rightarrow> int \<Rightarrow> int \<Rightarrow> rgb \<Rightarrow> rgb" where
  "picture drawings x y p = fold (\<lambda>d p. if covers d x y then paint_color d else p) drawings p"

lemma picture_simps [simp]: "picture [] x y p = p"
    "picture (d # ds) x y p = picture ds x y (if covers d x y then paint_color d else p)"
    "picture (ds @ es) x y p = picture es x y (picture ds x y p)"
  by (simp_all add: picture_def)

lemma picture_covered: "\<exists>d\<in>set ds. covers d x y \<Longrightarrow> picture ds x y p = picture ds x y q"
proof (induction ds arbitrary: p q)
  case (Cons e ds)
  show ?case
  proof (cases "covers e x y")
    case False
    then have "\<exists>d\<in>set ds. covers d x y" using Cons.prems by auto
    from Cons.IH[OF this, of p q] False show ?thesis by (simp only: picture_simps if_False)
  qed simp
qed simp

lemma picture_uncovered: "\<forall>d\<in>set ds. \<not> covers d x y \<Longrightarrow> picture ds x y p = p"
  by (induction ds) auto

text \<open>An area on the display, and a rectangle that is there before and after it is laid out, with no overflow in the layout.\<close>

definition on_display :: "'d fd_graphics_t \<Rightarrow> fd_graphics_area_t \<Rightarrow> bool" where
  "on_display g a \<longleftrightarrow> area_covers (screen_area g) a \<and> 0 \<le> area_width a \<and> 0 \<le> area_height a \<and>
     int_ok (gr_width g) \<and> int_ok (gr_height g)"

fun rectangle_fits :: "'d fd_graphics_t \<Rightarrow> fd_drawing_t \<Rightarrow> bool" where
  "rectangle_fits g (fd_drawing_rectangle d) \<longleftrightarrow> on_display g (dr_area d) \<and>
     (case fd_drawing_rectangle_layout d of None \<Rightarrow> False | Some d' \<Rightarrow> on_display g (dr_area d'))"
| "rectangle_fits g _ \<longleftrightarrow> False"

fun updated :: "fd_drawing_t \<Rightarrow> fd_drawing_t" where
  "updated (fd_drawing_rectangle d) =
     fd_drawing_rectangle (case fd_drawing_rectangle_update d of None \<Rightarrow> d | Some (d', change) \<Rightarrow> d')"
| "updated d = d"

fun change_of :: "fd_drawing_t \<Rightarrow> change" where
  "change_of (fd_drawing_rectangle d) = (case fd_drawing_rectangle_update d of None \<Rightarrow> None | Some (d', change) \<Rightarrow> change)"
| "change_of _ = None"

definition add_change :: "fd_drawing_t \<Rightarrow> fd_canvas_change_t \<Rightarrow> fd_canvas_change_t" where
  "add_change d ch =
     (case change_of d of None \<Rightarrow> ch
      | Some (area, opaque) \<Rightarrow> \<lparr>ch_area = area_cup (ch_area ch) area, ch_opaque = (ch_opaque ch \<and> opaque)\<rparr>)"

lemma on_display_union: "on_display g a \<Longrightarrow> on_display g b \<Longrightarrow> on_display g (area_cup a b)"
  by (cases "fd_graphics_area_is_empty a"; cases "fd_graphics_area_is_empty b")
    (simp_all add: on_display_def area_cup_def area_covers_def Let_def min_def max_def)

lemma on_display_ok:
  assumes "on_display g a" shows "area_ok a" "area_ok (screen_area g)" "placed_ok a"
  using assms by (auto simp: on_display_def area_covers_def screen_area_def area_ok_def placed_ok_def int_ok_def)

lemma on_display_operations:
  assumes "on_display g a" "on_display g b"
  shows "fd_graphics_area_union a b = Some (area_cup a b)" "fd_graphics_area_contains a b = Some (area_covers a b)"
    "fd_graphics_area_intersects a b = Some (area_meets a b)"
  using assms[THEN on_display_ok(1)] on_display_ok(1)[OF on_display_union[OF assms]]
  by (simp_all add: union_ok area_operations_ok intersects_ok)

lemma union_not_empty:
  "0 \<le> area_width a \<Longrightarrow> 0 \<le> area_height a \<Longrightarrow> 0 \<le> area_width b \<Longrightarrow> 0 \<le> area_height b \<Longrightarrow>
     fd_graphics_area_is_empty (area_cup a b) \<longleftrightarrow> fd_graphics_area_is_empty a \<and> fd_graphics_area_is_empty b"
  by (cases "fd_graphics_area_is_empty a"; cases "fd_graphics_area_is_empty b")
    (simp_all add: area_cup_def fd_graphics_area_is_empty_def Let_def min_def max_def)

lemma update_rectangle:
  assumes "rectangle_fits g (fd_drawing_rectangle r)"
  obtains (same) "dr_previous_view r = dr_view r" "fd_drawing_rectangle_update r = Some (r, None)"
  | (changed) l where "fd_drawing_rectangle_layout r = Some l" "on_display g (dr_area l)" "dr_view l = dr_view r"
      "view_visible (dr_view r) \<or> dr_area l = fd_graphics_area_empty"
      "fd_drawing_rectangle_update r =
         Some (l\<lparr>dr_previous_view := dr_view l\<rparr>, Some (area_cup (dr_area r) (dr_area l), area_covers (dr_area l) (dr_area r)))"
proof (cases "dr_previous_view r = dr_view r")
  case True
  then show ?thesis by (intro same) (simp_all add: fd_drawing_rectangle_update_def)
next
  case False
  obtain l where l: "fd_drawing_rectangle_layout r = Some l" "on_display g (dr_area l)" "on_display g (dr_area r)"
    using assms by (auto split: option.splits)
  have "dr_view l = dr_view r" "view_visible (dr_view r) \<or> dr_area l = fd_graphics_area_empty"
    using l(1) by (auto simp: fd_drawing_rectangle_layout_def Let_def split: if_splits Option.bind_splits)
  then show ?thesis
    using changed[OF l(1,2)] False l(1) on_display_operations[OF l(3,2)] on_display_operations[OF l(2,3)]
    by (simp add: fd_drawing_rectangle_update_def Let_def)
qed

lemma change_of_facts:
  assumes "rectangle_fits g d" "change_of d = Some (area, opaque)"
  shows "on_display g area"
    "covers d x y \<Longrightarrow> area_has area x y" "covers (updated d) x y \<Longrightarrow> area_has area x y"
    "opaque \<Longrightarrow> covers d x y \<Longrightarrow> covers (updated d) x y"
proof -
  obtain r where d: "d = fd_drawing_rectangle r" using assms(1) by (cases d) auto
  have r: "on_display g (dr_area r)" using assms(1) by (simp add: d)
  from assms(1)[unfolded d] obtain l where l: "on_display g (dr_area l)" "dr_view l = dr_view r"
      "view_visible (dr_view r) \<or> dr_area l = fd_graphics_area_empty"
      "fd_drawing_rectangle_update r =
         Some (l\<lparr>dr_previous_view := dr_view l\<rparr>, Some (area_cup (dr_area r) (dr_area l), area_covers (dr_area l) (dr_area r)))"
    by (rule update_rectangle) (use assms(2) in \<open>auto simp: d\<close>)
  then have e: "area = area_cup (dr_area r) (dr_area l)" "opaque = area_covers (dr_area l) (dr_area r)"
    "updated d = fd_drawing_rectangle (l\<lparr>dr_previous_view := dr_view l\<rparr>)"
    using assms(2) by (auto simp: d)
  show "on_display g area" using on_display_union[OF r l(1)] by (simp add: e(1))
  show "covers d x y \<Longrightarrow> area_has area x y" "covers (updated d) x y \<Longrightarrow> area_has area x y"
    unfolding e(3) by (auto simp: d e(1) intro!: contains_point_union)
  show "opaque \<Longrightarrow> covers d x y \<Longrightarrow> covers (updated d) x y"
    using contains_contains_point[of "dr_area l" "dr_area r" x y] l(2,3) unfolding e(3) by (auto simp: d e(2))
qed

lemma unchanged:
  assumes "rectangle_fits g d" "change_of d = None" shows "updated d = d"
proof -
  obtain r where d: "d = fd_drawing_rectangle r" using assms(1) by (cases d) auto
  show ?thesis using assms(1)[unfolded d] by (rule update_rectangle) (use assms(2) in \<open>auto simp: d\<close>)
qed

lemma add_change_grows:
  assumes "area_has (ch_area ch) x y" shows "area_has (ch_area (fold add_change ds ch)) x y"
  using assms
  by (induction ds arbitrary: ch) (auto simp: add_change_def contains_point_union split: option.split)

lemma add_changes:
  assumes "\<forall>d\<in>set ds. rectangle_fits g d" "on_display g (ch_area ch)"
  defines "summed \<equiv> fold add_change ds ch"
  shows "on_display g (ch_area summed)" "ch_opaque summed \<Longrightarrow> ch_opaque ch"
    "d \<in> set ds \<Longrightarrow> \<not> area_has (ch_area summed) x y \<Longrightarrow> covers (updated d) x y \<longleftrightarrow> covers d x y"
    "d \<in> set ds \<Longrightarrow> \<not> area_has (ch_area summed) x y \<Longrightarrow> covers d x y \<Longrightarrow> updated d = d"
    "ch_opaque summed \<Longrightarrow> d \<in> set ds \<Longrightarrow> covers d x y \<Longrightarrow> covers (updated d) x y"
proof -
  have "on_display g (ch_area (fold add_change ds ch)) \<and> (ch_opaque (fold add_change ds ch) \<longrightarrow> ch_opaque ch) \<and>
    (\<forall>d\<in>set ds. \<forall>x y. (\<not> area_has (ch_area (fold add_change ds ch)) x y \<longrightarrow>
        (covers (updated d) x y \<longleftrightarrow> covers d x y) \<and> (covers d x y \<longrightarrow> updated d = d)) \<and>
      (ch_opaque (fold add_change ds ch) \<longrightarrow> covers d x y \<longrightarrow> covers (updated d) x y))"
    using assms(1,2)
  proof (induction ds arbitrary: ch)
    case (Cons e ds ch)
    have fits: "rectangle_fits g e" and rest: "\<forall>d\<in>set ds. rectangle_fits g d" using Cons.prems(1) by simp_all
    show ?case
    proof (cases "change_of e")
      case None
      then show ?thesis using Cons.IH[OF rest Cons.prems(2)] unchanged[OF fits] by (auto simp: add_change_def)
    next
      case (Some p)
      obtain area opaque where p: "p = (area, opaque)" by fastforce
      note f = change_of_facts[OF fits Some[unfolded p]]
      have ch: "add_change e ch = \<lparr>ch_area = area_cup (ch_area ch) area, ch_opaque = (ch_opaque ch \<and> opaque)\<rparr>"
        by (simp add: add_change_def Some p)
      have "on_display g (ch_area (add_change e ch))" using on_display_union[OF Cons.prems(2) f(1)] by (simp add: ch)
      note IH = Cons.IH[OF rest this]
      have grows: "area_has area x y \<Longrightarrow>
          area_has (ch_area (fold add_change ds (add_change e ch))) x y" for x y
        by (rule add_change_grows) (simp add: ch contains_point_union)
      have e: "\<not> area_has (ch_area (fold add_change ds (add_change e ch))) x y \<Longrightarrow> \<not> covers e x y \<and> \<not> covers (updated e) x y"
        for x y using f(2,3) grows by blast
      have o: "ch_opaque (fold add_change ds (add_change e ch)) \<Longrightarrow> ch_opaque ch \<and> opaque" using IH by (simp add: ch)
      show ?thesis using IH e o f(4) by auto
    qed
  qed simp
  then show "on_display g (ch_area summed)" "ch_opaque summed \<Longrightarrow> ch_opaque ch"
    "d \<in> set ds \<Longrightarrow> \<not> area_has (ch_area summed) x y \<Longrightarrow> covers (updated d) x y \<longleftrightarrow> covers d x y"
    "d \<in> set ds \<Longrightarrow> \<not> area_has (ch_area summed) x y \<Longrightarrow> covers d x y \<Longrightarrow> updated d = d"
    "ch_opaque summed \<Longrightarrow> d \<in> set ds \<Longrightarrow> covers d x y \<Longrightarrow> covers (updated d) x y"
    unfolding summed_def by blast+
qed

text \<open>Outside of what has changed the picture is as it was.\<close>

lemma picture_outside:
  assumes "\<forall>d\<in>set ds. (covers (updated d) x y \<longleftrightarrow> covers d x y) \<and> (covers d x y \<longrightarrow> updated d = d)"
  shows "picture (map updated ds) x y p = picture ds x y p"
  using assms by (induction ds arbitrary: p) auto

text \<open>Inside, without what was there: the new picture over black is the new picture over the old one, if nothing that is not
  covered any more was covered before.\<close>

lemma picture_inside:
  assumes "\<forall>d\<in>set ds. covers d x y \<longrightarrow> covers (updated d) x y"
  shows "picture (map updated ds) x y (picture ds x y p) = picture (map updated ds) x y p"
proof (cases "\<exists>d\<in>set ds. covers (updated d) x y")
  case True
  then show ?thesis by (intro picture_covered) auto
next
  case False
  then show ?thesis using assms picture_uncovered[of ds x y p] by auto
qed

section \<open>Asking the drawings\<close>

lemma same_members [simp]: "c\<lparr>cv_memory := cv_memory c, cv_graphics := cv_graphics c\<rparr> = c"
  by (cases c) simp

text \<open>A canvas with a change added.\<close>

definition with_change :: "fd_graphics_area_t \<Rightarrow> bool \<Rightarrow> 'd fd_canvas_t \<Rightarrow> 'd fd_canvas_t" where
  "with_change area opaque c =
     c\<lparr>cv_change := \<lparr>ch_area = area_cup (ch_area (cv_change c)) area, ch_opaque = (ch_opaque (cv_change c) \<and> opaque)\<rparr>\<rparr>"

lemma add_change_ok:
  assumes "on_display (cv_graphics c) area" "on_display (cv_graphics c) (ch_area (cv_change c))"
  shows "fd_canvas_add_change area opaque c = Some (with_change area opaque c)"
  using assms on_display_operations(1)[OF assms(2,1)] area_operations_ok(2)[OF on_display_ok(2,1)[OF assms(1)]]
  by (cases c) (simp add: fd_canvas_add_change_def with_change_def on_display_def)

lemma update_drawings_rectangles:
  assumes "\<forall>d\<in>set ds. rectangle_fits (cv_graphics c) d" "on_display (cv_graphics c) (ch_area (cv_change c))"
  shows "update_drawings ds c = Some (map updated ds, c\<lparr>cv_change := fold add_change ds (cv_change c)\<rparr>)"
  using assms
proof (induction ds arbitrary: c)
  case (Cons d ds c)
  have fits: "rectangle_fits (cv_graphics c) d" using Cons.prems(1) by simp
  then obtain r where d: "d = fd_drawing_rectangle r" by (cases d) auto
  have u: "drawing_update (cv_memory c) d (cv_graphics c) = Some (updated d, change_of d, cv_memory c, cv_graphics c)"
    using fits[unfolded d] by (rule update_rectangle) (simp_all add: d drawing_update_def)
  let ?c = "c\<lparr>cv_change := add_change d (cv_change c)\<rparr>"
  have c: "(case change_of d of None \<Rightarrow> Some c | Some (area, opaque) \<Rightarrow> fd_canvas_add_change area opaque c) = Some ?c"
    using change_of_facts(1)[OF fits] add_change_ok[OF _ Cons.prems(2)]
    by (auto simp: add_change_def with_change_def split: option.split)
  have "on_display (cv_graphics c) (ch_area (add_change d (cv_change c)))"
    using change_of_facts(1)[OF fits] on_display_union[OF Cons.prems(2)] Cons.prems(2) by (auto simp: add_change_def split: option.split)
  from Cons.IH[of ?c] this Cons.prems(1) have "update_drawings ds ?c = Some (map updated ds, ?c\<lparr>cv_change := fold add_change ds (cv_change ?c)\<rparr>)"
    by simp
  then show ?case
    by (simp only: update_drawings.simps u bind.bind_lunit prod.case Let_def same_members c) simp
qed simp

lemma update_planes_rectangles:
  assumes "distinct planes" "\<forall>plane\<in>set planes. \<forall>d\<in>set (cv_drawings c plane). rectangle_fits (cv_graphics c) d"
    "on_display (cv_graphics c) (ch_area (cv_change c))"
  shows "update_planes planes c = Some (c\<lparr>
      cv_drawings := (\<lambda>plane. if plane \<in> set planes then map updated (cv_drawings c plane) else cv_drawings c plane),
      cv_change := fold add_change (concat (map (cv_drawings c) planes)) (cv_change c)\<rparr>)"
  using assms
proof (induction planes arbitrary: c)
  case (Cons plane planes c)
  let ?ds = "cv_drawings c plane"
  let ?c = "c\<lparr>cv_change := fold add_change ?ds (cv_change c), cv_drawings := (cv_drawings c)(plane := map updated ?ds)\<rparr>"
  have fits: "\<forall>d\<in>set ?ds. rectangle_fits (cv_graphics c) d" using Cons.prems(2) by simp
  have "on_display (cv_graphics c) (ch_area (fold add_change ?ds (cv_change c)))"
    by (rule add_changes(1)[OF fits Cons.prems(3)])
  moreover have same: "cv_drawings ?c p = cv_drawings c p" if "p \<in> set planes" for p
    using that Cons.prems(1) by auto
  ultimately have "update_planes planes ?c = Some (?c\<lparr>
      cv_drawings := (\<lambda>p. if p \<in> set planes then map updated (cv_drawings ?c p) else cv_drawings ?c p),
      cv_change := fold add_change (concat (map (cv_drawings ?c) planes)) (cv_change ?c)\<rparr>)"
    using Cons.prems by (intro Cons.IH) auto
  moreover have "map ((cv_drawings c)(plane := map updated ?ds)) planes = map (cv_drawings c) planes"
    using Cons.prems(1) by (intro map_cong) auto
  moreover have "(\<lambda>p. if p \<in> set planes then map updated (cv_drawings ?c p) else cv_drawings ?c p) =
      (\<lambda>p. if p \<in> set (plane # planes) then map updated (cv_drawings c p) else cv_drawings c p)"
    using same Cons.prems(1) by (auto intro!: ext)
  ultimately show ?case
    using update_drawings_rectangles[OF fits Cons.prems(3)] by simp
qed (simp add: fun_eq_iff)

section \<open>Drawing\<close>

text \<open>A backend that draws in 24 bit colour and whose driver keeps to its own state.\<close>

definition draws_8bit :: "'d fd_graphics_backend_t \<Rightarrow> bool" where
  "draws_8bit b \<longleftrightarrow> ba_write_area b = fd_graphics_color_8bit_write_area \<and>
     ba_write_bitmap b = fd_graphics_color_8bit_write_bitmap \<and>
     (\<forall>update_area area g. ba_update b = Some update_area \<longrightarrow> (\<exists>device. update_area area g = Some (g\<lparr>gr_device := device\<rparr>)))"

abbreviation pixel_of :: "'d fd_graphics_t \<Rightarrow> int \<Rightarrow> int \<Rightarrow> rgb" where
  "pixel_of g \<equiv> color_8bit_pixel (gr_width g) (gr_height g) (gr_buffer g)"

lemma write_area_8bit:
  assumes b: "draws_8bit b" and g: "color_8bit_ready g" and area: "on_display g area"
  obtains buffer where "fd_graphics_write_area b area g = Some (g\<lparr>gr_buffer := buffer\<rparr>)" "color_8bit_ready (g\<lparr>gr_buffer := buffer\<rparr>)"
    "\<And>x y. pixel_of (g\<lparr>gr_buffer := buffer\<rparr>) x y =
       (if area_has area x y \<and> area_has (gr_clipping g) x y
        then color_rgb (gr_foreground g) else pixel_of g x y)"
proof -
  have "fd_graphics_write_area b area g = fd_graphics_color_8bit_write_area area g"
    using b area on_display_ok(1)[OF area]
    by (simp add: fd_graphics_write_area_def off_screen_def draws_8bit_def on_display_def area_covers_def screen_area_def area_ok_def)
  moreover have "color_8bit_paints (\<lambda>u v. area_has area u v \<and> area_has (gr_clipping g) u v)
      (\<lambda>u v p. color_rgb (gr_foreground g)) g (fd_graphics_color_8bit_write_area area g)"
    by (rule color_8bit_write_area_exact[OF g on_display_ok(1)[OF area]])
  ultimately show ?thesis using that g unfolding paints_display_def by (auto simp: color_8bit_ready_def screen_area_def)
qed

lemma render_drawings_rectangles:
  assumes b: "draws_8bit b" and g: "color_8bit_ready g" and fits: "\<forall>d\<in>set ds. (\<exists>r. d = fd_drawing_rectangle r) \<and> on_display g (drawing_get_area d)"
    and clip: "\<And>x y. area_has (gr_clipping g) x y \<Longrightarrow> area_has area x y" and area: "area_ok area"
  obtains buffer color where "render_drawings b m area ds g = Some (g\<lparr>gr_buffer := buffer, gr_foreground := color\<rparr>)"
    "color_8bit_ready (g\<lparr>gr_buffer := buffer, gr_foreground := color\<rparr>)"
    "\<And>x y. pixel_of (g\<lparr>gr_buffer := buffer, gr_foreground := color\<rparr>) x y =
       (if area_has (gr_clipping g) x y then picture ds x y (pixel_of g x y) else pixel_of g x y)"
  using g fits clip
proof (induction ds arbitrary: g thesis)
  case Nil
  have "render_drawings b m area [] g = Some (g\<lparr>gr_buffer := gr_buffer g, gr_foreground := gr_foreground g\<rparr>)" by simp
  from Nil.prems(1)[OF this] Nil.prems(2) show ?case by simp
next
  case (Cons d ds g)
  obtain r where d: "d = fd_drawing_rectangle r" and on: "on_display g (dr_area r)"
    using Cons.prems(3) by (auto simp: drawing_get_area_def)
  have rest: "\<forall>d\<in>set ds. (\<exists>r. d = fd_drawing_rectangle r) \<and> on_display h (drawing_get_area d)"
    if "gr_width h = gr_width g" "gr_height h = gr_height g" for h :: "'a fd_graphics_t"
    using Cons.prems(3) that by (simp add: on_display_def screen_area_def)
  show ?case
  proof (cases "area_meets area (dr_area r) \<and> view_visible (dr_previous_view r)")
    case False
    then have skip: "render_drawings b m area (d # ds) g = render_drawings b m area ds g"
      using intersects_ok[OF area on_display_ok(1)[OF on]]
      by (auto simp: d drawing_get_area_def drawing_render_def fd_drawing_rectangle_render_def)
    have "\<not> covers d x y" if "area_has (gr_clipping g) x y" for x y
      using False not_intersects[of area "dr_area r" x y] Cons.prems(4)[OF that] by (auto simp: d)
    then have p: "picture (d # ds) x y q = picture ds x y q" if "area_has (gr_clipping g) x y" for x y q
      using that by simp
    show ?thesis
    proof (rule Cons.IH[OF _ Cons.prems(2) rest[OF refl refl] Cons.prems(4)])
      fix buffer color
      assume ih: "render_drawings b m area ds g = Some (g\<lparr>gr_buffer := buffer, gr_foreground := color\<rparr>)"
        "color_8bit_ready (g\<lparr>gr_buffer := buffer, gr_foreground := color\<rparr>)"
        "\<And>x y. pixel_of (g\<lparr>gr_buffer := buffer, gr_foreground := color\<rparr>) x y =
           (if area_has (gr_clipping g) x y then picture ds x y (pixel_of g x y) else pixel_of g x y)"
      show thesis
      proof (rule Cons.prems(1))
        show "render_drawings b m area (d # ds) g = Some (g\<lparr>gr_buffer := buffer, gr_foreground := color\<rparr>)"
          unfolding skip by (rule ih(1))
        show "pixel_of (g\<lparr>gr_buffer := buffer, gr_foreground := color\<rparr>) x y =
          (if area_has (gr_clipping g) x y then picture (d # ds) x y (pixel_of g x y) else pixel_of g x y)" for x y
          unfolding ih(3)[of x y] by (rule if_cong[OF refl]) (simp only: p, rule refl)
      qed (rule ih(2))
    qed
  next
    case True
    let ?g = "g\<lparr>gr_foreground := vr_color (dr_previous_view r)\<rparr>"
    have "color_8bit_ready ?g" "on_display ?g (dr_area r)"
      using Cons.prems(2) on by (simp_all add: color_8bit_ready_def on_display_def screen_area_def)
    from write_area_8bit[OF b this]
    obtain buffer where w: "fd_graphics_write_area b (dr_area r) ?g = Some (?g\<lparr>gr_buffer := buffer\<rparr>)" "color_8bit_ready (?g\<lparr>gr_buffer := buffer\<rparr>)"
      "\<And>x y. pixel_of (?g\<lparr>gr_buffer := buffer\<rparr>) x y =
         (if area_has (dr_area r) x y \<and> area_has (gr_clipping ?g) x y
          then color_rgb (gr_foreground ?g) else pixel_of ?g x y)" by blast
    let ?h = "?g\<lparr>gr_buffer := buffer\<rparr>"
    have step: "render_drawings b m area (d # ds) g = render_drawings b m area ds ?h"
      using True w(1) intersects_ok[OF area on_display_ok(1)[OF on]] by (simp add: d drawing_get_area_def drawing_render_def fd_drawing_rectangle_render_def fd_graphics_set_foreground_def Let_def)
    have clip: "gr_clipping ?h = gr_clipping g" by simp
    show ?thesis
    proof (rule Cons.IH[of ?h])
      show "color_8bit_ready ?h" by (rule w(2))
      show "\<forall>d\<in>set ds. (\<exists>r. d = fd_drawing_rectangle r) \<and> on_display ?h (drawing_get_area d)" by (rule rest) simp_all
      show "area_has (gr_clipping ?h) x y \<Longrightarrow> area_has area x y" for x y
        using Cons.prems(4) by simp
    next
      fix buffer' color'
      assume ih: "render_drawings b m area ds ?h = Some (?h\<lparr>gr_buffer := buffer', gr_foreground := color'\<rparr>)"
        "color_8bit_ready (?h\<lparr>gr_buffer := buffer', gr_foreground := color'\<rparr>)"
        "\<And>x y. pixel_of (?h\<lparr>gr_buffer := buffer', gr_foreground := color'\<rparr>) x y =
           (if area_has (gr_clipping ?h) x y then picture ds x y (pixel_of ?h x y) else pixel_of ?h x y)"
      have same: "?h\<lparr>gr_buffer := buffer', gr_foreground := color'\<rparr> = g\<lparr>gr_buffer := buffer', gr_foreground := color'\<rparr>" by simp
      show thesis
      proof (rule Cons.prems(1))
        show "render_drawings b m area (d # ds) g = Some (g\<lparr>gr_buffer := buffer', gr_foreground := color'\<rparr>)"
          using step ih(1) same by metis
        show "color_8bit_ready (g\<lparr>gr_buffer := buffer', gr_foreground := color'\<rparr>)" using ih(2) same by metis
        show "pixel_of (g\<lparr>gr_buffer := buffer', gr_foreground := color'\<rparr>) x y =
          (if area_has (gr_clipping g) x y then picture (d # ds) x y (pixel_of g x y) else pixel_of g x y)" for x y
          using ih(3)[of x y] w(3)[of x y] True by (simp add: d)
      qed
    qed
  qed
qed

lemma render_planes_concat:
  "render_planes b m area drawings planes g = render_drawings b m area (concat (map drawings planes)) g"
proof (induction planes arbitrary: g)
  case (Cons plane planes)
  have "render_drawings b m area (ds @ es) g = do { g \<leftarrow> render_drawings b m area ds g; render_drawings b m area es g }" for ds es g
    by (induction ds arbitrary: g) (auto split: Option.bind_splits)
  moreover have "render_planes b m area drawings planes = render_drawings b m area (concat (map drawings planes))"
    by (rule ext) (rule Cons.IH)
  ultimately show ?case by simp
qed simp

lemma clip_on_display:
  assumes "on_display g a" shows "fd_graphics_set_clipping a g = Some (g\<lparr>gr_clipping := a\<rparr>)"
proof -
  have "area_cap (screen_area g) a = a"
    using assms by (simp add: on_display_def area_cap_def area_covers_def screen_area_def Let_def max_def min_def)
  then show ?thesis using intersection_ok[OF on_display_ok(2,1)[OF assms]] by (simp add: fd_graphics_set_clipping_def)
qed

lemma reset_display [simp]: "on_display (fd_graphics_reset g) = on_display g"
  by (simp add: on_display_def fd_graphics_reset_def screen_area_def fun_eq_iff)

lemma same_device: "g\<lparr>gr_device := gr_device g\<rparr> = g"
  by (cases g) simp

text \<open>What drawing leaves alone.\<close>

definition same_screen :: "'d fd_graphics_t \<Rightarrow> 'd fd_graphics_t \<Rightarrow> bool" where
  "same_screen g h \<longleftrightarrow> gr_width h = gr_width g \<and> gr_height h = gr_height g \<and> gr_is_display_on h = gr_is_display_on g"

lemma fd_canvas_render_rectangles:
  assumes b: "draws_8bit b" and v: "color_8bit_valid (gr_width g) (gr_height g) (gr_buffer g)" and g: "g = cv_graphics c"
    and area: "on_display g area" "\<not> fd_graphics_area_is_empty area" and change: "st_change (cv_render_state c) = \<lparr>ch_area = area, ch_opaque = opaque\<rparr>"
    and ds: "ds = concat (map (cv_drawings c) (st_planes (cv_render_state c)))"
    and fits: "\<forall>d\<in>set ds. (\<exists>r. d = fd_drawing_rectangle r) \<and> on_display g (drawing_get_area d)"
  obtains h where "fd_canvas_render b c = Some (c\<lparr>cv_graphics := h\<rparr>)" "same_screen g h" "color_8bit_valid (gr_width h) (gr_height h) (gr_buffer h)"
    "\<And>x y. pixel_of h x y = (if area_has area x y
       then picture ds x y (if opaque then pixel_of g x y else (0, 0, 0)) else pixel_of g x y)"
proof -
  define g1 where "g1 = (fd_graphics_reset g)\<lparr>gr_clipping := area\<rparr>"
  have set: "fd_graphics_set_clipping area (fd_graphics_reset g) = Some g1"
    using clip_on_display[of "fd_graphics_reset g" area] area(1) by (simp add: g1_def)
  have g1: "gr_clipping g1 = area" "gr_width g1 = gr_width g" "gr_height g1 = gr_height g" "gr_buffer g1 = gr_buffer g"
      "gr_is_display_on g1 = gr_is_display_on g"
    by (simp_all add: g1_def fd_graphics_reset_def screen_area_def)
  have screen: "screen_area h = screen_area g" "on_display h = on_display g" if "gr_width h = gr_width g" "gr_height h = gr_height g" for h :: "'a fd_graphics_t"
    using that by (simp_all add: screen_area_def on_display_def fun_eq_iff)
  have ready: "color_8bit_ready h" if "gr_width h = gr_width g" "gr_height h = gr_height g" "gr_clipping h = area" "color_8bit_valid (gr_width g) (gr_height g) (gr_buffer h)"
    for h :: "'a fd_graphics_t"
    using that(3,4) area(1) on_display_ok(1)[OF area(1)]
    unfolding color_8bit_ready_def screen(1)[OF that(1,2)] that(1,2) by (simp add: on_display_def)
  obtain g2 where g2: "(if \<not> opaque then fd_graphics_write_area b area (fd_graphics_set_foreground black g1) else Some g1) = Some g2"
    "gr_width g2 = gr_width g" "gr_height g2 = gr_height g" "gr_clipping g2 = area" "gr_is_display_on g2 = gr_is_display_on g"
    "color_8bit_valid (gr_width g) (gr_height g) (gr_buffer g2)"
    "\<And>x y. pixel_of g2 x y = (if area_has area x y \<and> \<not> opaque then (0, 0, 0) else pixel_of g x y)"
  proof (cases opaque)
    case True
    then show ?thesis using g1 v by (intro that[of g1]) simp_all
  next
    case False
    let ?g = "fd_graphics_set_foreground black g1"
    have rdy: "color_8bit_ready ?g" by (rule ready) (use g1 v in \<open>simp_all add: fd_graphics_set_foreground_def\<close>)
    have on: "on_display ?g area" using area(1) g1 screen(2)[of ?g] by (simp add: fd_graphics_set_foreground_def)
    from write_area_8bit[OF b rdy on] obtain buffer where w: "fd_graphics_write_area b area ?g = Some (?g\<lparr>gr_buffer := buffer\<rparr>)" "color_8bit_ready (?g\<lparr>gr_buffer := buffer\<rparr>)"
      "\<And>x y. pixel_of (?g\<lparr>gr_buffer := buffer\<rparr>) x y =
         (if area_has area x y \<and> area_has (gr_clipping ?g) x y
          then color_rgb (gr_foreground ?g) else pixel_of ?g x y)"
      by blast
    have "color_rgb black = (0, 0, 0)" by (simp add: black_def color_rgb_def color_r_def color_g_def color_b_def)
    then show ?thesis using False g1 w
      by (intro that[of "?g\<lparr>gr_buffer := buffer\<rparr>"]) (simp_all add: fd_graphics_set_foreground_def color_8bit_ready_def)
  qed
  define g3 where "g3 = fd_graphics_set_foreground white (fd_graphics_set_background black g2)"
  have g3: "gr_width g3 = gr_width g" "gr_height g3 = gr_height g" "gr_clipping g3 = area" "gr_is_display_on g3 = gr_is_display_on g"
    "gr_buffer g3 = gr_buffer g2"
    using g2 by (simp_all add: g3_def fd_graphics_set_foreground_def fd_graphics_set_background_def)
  have rdy: "color_8bit_ready g3" by (rule ready) (use g3 g2(6) in simp_all)
  have fits3: "\<forall>d\<in>set ds. (\<exists>r. d = fd_drawing_rectangle r) \<and> on_display g3 (drawing_get_area d)" using fits screen(2)[OF g3(1,2)] by simp
  have clip: "area_has (gr_clipping g3) x y \<Longrightarrow> area_has area x y" for x y
    by (simp add: g3(3))
  obtain buffer color where r: "render_drawings b (cv_memory c) area ds g3 = Some (g3\<lparr>gr_buffer := buffer, gr_foreground := color\<rparr>)"
    "color_8bit_ready (g3\<lparr>gr_buffer := buffer, gr_foreground := color\<rparr>)"
    "\<And>x y. pixel_of (g3\<lparr>gr_buffer := buffer, gr_foreground := color\<rparr>) x y =
       (if area_has (gr_clipping g3) x y then picture ds x y (pixel_of g3 x y) else pixel_of g3 x y)"
    by (rule render_drawings_rectangles[OF b rdy fits3 clip on_display_ok(1)[OF area(1)], where m = "cv_memory c"]) (assumption, rule that)
  let ?g4 = "fd_graphics_reset (g3\<lparr>gr_buffer := buffer, gr_foreground := color\<rparr>)"
  obtain device where u: "fd_graphics_update b area ?g4 = Some (?g4\<lparr>gr_device := device\<rparr>)"
  proof (cases "ba_update b")
    case None
    then show ?thesis by (intro that[of "gr_device ?g4"]) (simp only: same_device fd_graphics_update_def option.case)
  next
    case (Some update_area)
    then show ?thesis using b that by (auto simp: fd_graphics_update_def draws_8bit_def)
  qed
  let ?h = "?g4\<lparr>gr_device := device\<rparr>"
  have "fd_canvas_render b c = Some (c\<lparr>cv_graphics := ?h\<rparr>)"
    unfolding fd_canvas_render_def change g[symmetric] Let_def fd_canvas_change_t.simps if_not_P[OF area(2)] set g2(1) bind.bind_lunit
      g3_def[symmetric] render_planes_concat ds[symmetric] r(1) u ..
  moreover have "same_screen g ?h" using g3 by (simp add: same_screen_def fd_graphics_reset_def)
  moreover have "color_8bit_valid (gr_width ?h) (gr_height ?h) (gr_buffer ?h)" using r(2) by (simp add: fd_graphics_reset_def color_8bit_ready_def)
  moreover have "pixel_of ?h x y = (if area_has area x y
       then picture ds x y (if opaque then pixel_of g x y else (0, 0, 0)) else pixel_of g x y)" for x y
    using r(3)[of x y] g2(7)[of x y] g3 g2(2,3) by (simp add: fd_graphics_reset_def)
  ultimately show ?thesis using that by blast
qed

section \<open>The canvas\<close>

definition canvas_drawings :: "'d fd_canvas_t \<Rightarrow> fd_drawing_t list" where
  "canvas_drawings c = concat (map (cv_drawings c) (cv_planes c))"

text \<open>A canvas of rectangles that draws at once on a display that is on. The rectangles are on the screen where they are and
  where their views put them.\<close>

definition canvas_ready :: "'d fd_graphics_backend_t \<Rightarrow> 'd fd_canvas_t \<Rightarrow> bool" where
  "canvas_ready b c \<longleftrightarrow>
     draws_8bit b \<and> color_8bit_valid (gr_width (cv_graphics c)) (gr_height (cv_graphics c)) (gr_buffer (cv_graphics c)) \<and>
     gr_is_display_on (cv_graphics c) \<and> \<not> cv_is_rendering c \<and> \<not> cv_work_queue c \<and> distinct (cv_planes c) \<and>
     on_display (cv_graphics c) (ch_area (cv_change c)) \<and> (\<forall>d\<in>set (canvas_drawings c). rectangle_fits (cv_graphics c) d)"

text \<open>The display shows the picture of the drawings, but for the area of a change that is to be cleared.\<close>

definition shown :: "'d fd_canvas_t \<Rightarrow> bool" where
  "shown c \<longleftrightarrow>
     (\<forall>x y. on_screen (gr_width (cv_graphics c)) (gr_height (cv_graphics c)) x y \<longrightarrow>
        area_has (ch_area (cv_change c)) x y \<and> \<not> ch_opaque (cv_change c) \<or>
        pixel_of (cv_graphics c) x y = picture (canvas_drawings c) x y (0, 0, 0))"

lemma shown_with_change: "shown c \<Longrightarrow> shown (with_change area opaque c)"
  by (auto simp: shown_def with_change_def canvas_drawings_def intro: contains_point_union)

lemma shown_whole_screen: "shown (with_change (screen_area (cv_graphics c)) False c)"
proof -
  have "area_has (screen_area (cv_graphics c)) x y" if "on_screen (gr_width (cv_graphics c)) (gr_height (cv_graphics c)) x y" for x y
    using that by (simp add: screen_area_def area_has_def on_screen_def)
  then show ?thesis by (auto simp: shown_def with_change_def intro!: contains_point_union)
qed

lemma drawings_updated:
  "concat (map (\<lambda>plane. if plane \<in> set planes then map updated (f plane) else f plane) planes) = map updated (concat (map f planes))"
proof -
  have "concat (map (\<lambda>plane. if plane \<in> A then map updated (f plane) else f plane) ps) = map updated (concat (map f ps))" if "set ps \<subseteq> A" for ps A
    using that by (induction ps) simp_all
  then show ?thesis by simp
qed

lemma updated_view:
  assumes "rectangle_fits g d"
  shows "\<exists>r. updated d = fd_drawing_rectangle r \<and> dr_previous_view r = dr_view r \<and> on_display g (dr_area r)"
proof -
  obtain r where d: "d = fd_drawing_rectangle r" using assms(1) by (cases d) auto
  show ?thesis using assms(1)[unfolded d] by (rule update_rectangle) (use assms in \<open>auto simp: d\<close>)
qed

lemma layout_view:
  assumes "dr_view a = dr_view b" "fd_drawing_rectangle_layout a = Some l"
  shows "\<exists>l'. fd_drawing_rectangle_layout b = Some l' \<and> dr_area l' = dr_area l"
  using assms by (auto simp: fd_drawing_rectangle_layout_def Let_def split: if_splits Option.bind_splits)

lemma updated_fits:
  assumes "rectangle_fits g d" shows "rectangle_fits g (updated d)"
proof -
  obtain r where d: "d = fd_drawing_rectangle r" using assms by (cases d) auto
  show ?thesis
    using assms[unfolded d]
  proof (cases rule: update_rectangle)
    case same
    then show ?thesis using assms by (simp add: d)
  next
    case (changed l)
    then show ?thesis
      using layout_view[of r "l\<lparr>dr_previous_view := dr_view l\<rparr>" l] by (auto simp: d)
  qed
qed

text \<open>C39: Drawing only what has changed is right, on a canvas of rectangles that draws at once on a 24 bit display that is on
  (\<open>canvas_ready\<close>: the rectangles lie on the display where they are and where their views put them, and their layout does not
  overflow): after an update every pixel of the display has the colour that drawing all
  the rectangles of all the planes over black, in order, would give it, whatever moved, appeared or disappeared; all views have
  been laid out, nothing is left to draw, and the canvas is ready for the next update.\<close>

theorem fd_canvas_update_shows:
  assumes ready: "canvas_ready b c" and area: "on_display (cv_graphics c) area" and shown: "shown (with_change area opaque c)"
  shows "\<exists>c'. fd_canvas_update b area opaque c = Some c' \<and> canvas_drawings c' = map updated (canvas_drawings c) \<and>
    (\<forall>x y. on_screen (gr_width (cv_graphics c)) (gr_height (cv_graphics c)) x y \<longrightarrow>
      pixel_of (cv_graphics c') x y = picture (canvas_drawings c') x y (0, 0, 0)) \<and>
    shown c' \<and> canvas_ready b c' \<and> fd_graphics_area_is_empty (ch_area (cv_change c')) \<and> cv_log c' = cv_log c"
proof -
  define g where "g = cv_graphics c"
  define c1 where "c1 = with_change area opaque c"
  note r = ready[unfolded canvas_ready_def, folded g_def]
  have c1: "cv_graphics c1 = g" "cv_planes c1 = cv_planes c" "cv_drawings c1 = cv_drawings c" "cv_is_rendering c1 = cv_is_rendering c"
    "cv_work_queue c1 = cv_work_queue c" "cv_log c1 = cv_log c" "on_display g (ch_area (cv_change c1))"
    using area r on_display_union by (auto simp: c1_def with_change_def g_def)
  have add: "fd_canvas_add_change area opaque c = Some c1"
    unfolding c1_def by (rule add_change_ok) (use area r in \<open>simp_all add: g_def\<close>)
  define ds where "ds = canvas_drawings c"
  have fits: "\<forall>d\<in>set ds. rectangle_fits g d" using r by (simp add: ds_def)
  define ch where "ch = fold add_change ds (cv_change c1)"
  note facts = add_changes[OF fits c1(7), folded ch_def]
  define c2 where "c2 = c1\<lparr>cv_drawings := (\<lambda>plane. if plane \<in> set (cv_planes c) then map updated (cv_drawings c plane) else cv_drawings c plane),
    cv_change := ch\<rparr>"
  have "update_planes (cv_planes c1) c1 = Some c2"
    using update_planes_rectangles[of "cv_planes c1" c1, unfolded c1(1-3)] r c1(2,7) fits by (simp add: c2_def ch_def ds_def canvas_drawings_def)
  then have u: "fd_canvas_update b area opaque c =
      (if fd_graphics_area_is_empty (ch_area ch) then Some c2
       else fd_canvas_render b (c2\<lparr>cv_render_state := \<lparr>st_planes = cv_planes c2, st_change = ch\<rparr>, cv_change := no_change True\<rparr>))"
    using r c1 unfolding fd_canvas_update_def add bind.bind_lunit Let_def fd_graphics_is_display_on_def by (simp add: c2_def)
  define new where "new = map updated ds"
  have c2: "canvas_drawings c2 = new" "cv_graphics c2 = g" "cv_planes c2 = cv_planes c" "cv_log c2 = cv_log c"
    using drawings_updated[of "cv_planes c" "cv_drawings c"] c1 by (simp_all add: c2_def canvas_drawings_def ds_def new_def)
  have old: "pixel_of g x y = picture ds x y (0, 0, 0)"
    if "on_screen (gr_width g) (gr_height g) x y" "\<not> (area_has (ch_area ch) x y \<and> \<not> ch_opaque ch)" for x y
    using shown that add_change_grows[of "cv_change c1" x y ds] facts(2) c1 unfolding shown_def c1_def[symmetric] ch_def
    by (auto simp: ds_def canvas_drawings_def)
  have outside: "pixel_of g x y = picture new x y (0, 0, 0)"
    if "on_screen (gr_width g) (gr_height g) x y" "\<not> area_has (ch_area ch) x y" for x y
    using old[OF that(1)] that(2) picture_outside[of ds x y "(0, 0, 0)"] facts(3,4) by (simp add: new_def)
  have inside: "picture new x y (if ch_opaque ch then pixel_of g x y else (0, 0, 0)) = picture new x y (0, 0, 0)"
    if "on_screen (gr_width g) (gr_height g) x y" for x y
  proof (cases "ch_opaque ch")
    case True
    then show ?thesis using old[OF that] picture_inside[of ds x y "(0, 0, 0)"] facts(5) by (simp add: new_def)
  qed simp
  have views: "\<forall>d\<in>set new. \<exists>r. d = fd_drawing_rectangle r \<and> dr_previous_view r = dr_view r \<and> on_display g (dr_area r)"
    using fits updated_view by (auto simp: new_def)
  have again: "rectangle_fits g d" if "d \<in> set new" for d
    using that fits updated_fits by (auto simp: new_def)
  show ?thesis
  proof (cases "fd_graphics_area_is_empty (ch_area ch)")
    case True
    have "\<not> area_has (ch_area ch) x y" for x y by (rule contains_point_is_empty[OF True])
    then have p: "\<forall>x y. on_screen (gr_width g) (gr_height g) x y \<longrightarrow> pixel_of g x y = picture new x y (0, 0, 0)" using outside by blast
    have "canvas_ready b c2" "shown c2" "fd_graphics_area_is_empty (ch_area (cv_change c2))"
      using r c1 c2 again True facts(1) p by (simp_all add: canvas_ready_def shown_def c2_def)
    then show ?thesis using u True c2 p unfolding g_def[symmetric] ds_def[symmetric] new_def[symmetric] by auto
  next
    case False
    define c3 where "c3 = c2\<lparr>cv_render_state := \<lparr>st_planes = cv_planes c2, st_change = ch\<rparr>, cv_change := no_change True\<rparr>"
    have c3: "cv_graphics c3 = g" "canvas_drawings c3 = new" "st_change (cv_render_state c3) = \<lparr>ch_area = ch_area ch, ch_opaque = ch_opaque ch\<rparr>"
      "new = concat (map (cv_drawings c3) (st_planes (cv_render_state c3)))"
      using c2 by (simp_all add: c3_def canvas_drawings_def)
    have db: "draws_8bit b" and v: "color_8bit_valid (gr_width g) (gr_height g) (gr_buffer g)" using r by blast+
    have vs: "\<forall>d\<in>set new. (\<exists>r. d = fd_drawing_rectangle r) \<and> on_display g (drawing_get_area d)"
      using views by (auto simp: drawing_get_area_def)
    obtain h where h: "fd_canvas_render b c3 = Some (c3\<lparr>cv_graphics := h\<rparr>)" "same_screen g h" "color_8bit_valid (gr_width h) (gr_height h) (gr_buffer h)"
      "\<And>x y. pixel_of h x y = (if area_has (ch_area ch) x y
         then picture new x y (if ch_opaque ch then pixel_of g x y else (0, 0, 0)) else pixel_of g x y)"
      by (rule fd_canvas_render_rectangles[OF db v c3(1)[symmetric] facts(1) False c3(3,4) vs]) (rule that)
    have p: "\<forall>x y. on_screen (gr_width g) (gr_height g) x y \<longrightarrow> pixel_of h x y = picture new x y (0, 0, 0)"
      using h(4) inside outside by simp
    have screen: "screen_area h = screen_area g" "on_display h = on_display g" "gr_width h = gr_width g" "gr_height h = gr_height g" "gr_is_display_on h = gr_is_display_on g"
      using h(2) by (simp_all add: same_screen_def screen_area_def on_display_def fun_eq_iff)
    let ?c = "c3\<lparr>cv_graphics := h\<rparr>"
    have d: "canvas_drawings ?c = new" "cv_change ?c = no_change True" "cv_log ?c = cv_log c"
      using c3(2) c2(4) by (simp_all add: canvas_drawings_def c3_def)
    have "rectangle_fits h d" if "d \<in> set new" for d using again[OF that] by (cases d) (auto simp: screen(2) split: option.splits)
    moreover have "on_display h fd_graphics_area_empty"
    proof -
      have "0 \<le> gr_width g \<and> 0 \<le> gr_height g \<and> int_ok (gr_width g) \<and> int_ok (gr_height g)"
        using facts(1) by (auto simp: on_display_def area_covers_def screen_area_def)
      then show ?thesis
        by (simp add: screen(2)) (simp add: on_display_def area_covers_def screen_area_def fd_graphics_area_empty_def)
    qed
    ultimately have "canvas_ready b ?c"
      using r h(3) d screen(5) c1 by (simp add: canvas_ready_def no_change_def c3_def c2_def)
    moreover have "shown ?c" using p screen(3,4) d(1) by (simp add: shown_def)
    moreover have "fd_graphics_area_is_empty (ch_area (cv_change ?c))"
      by (simp add: d(2) no_change_def fd_graphics_area_is_empty_def fd_graphics_area_empty_def)
    moreover have "fd_canvas_update b area opaque c = Some ?c" using u False h(1) by (simp add: c3_def)
    ultimately show ?thesis using p d unfolding g_def[symmetric] ds_def[symmetric] new_def[symmetric]
      by (intro exI[of _ ?c]) simp
  qed
qed

section \<open>Icons\<close>

lemma icon_layout_area:
  assumes "fd_drawing_icon_layout m d = Some d'" "view_visible (dc_view d)" "mem_bitmaps m (vc_bitmap (dc_view d)) = Some bitmap"
  shows "bitmap_area (point_x (dc_origin d')) (point_y (dc_origin d')) bitmap = dc_area d'" "dc_view d' = dc_view d"
  using assms by (auto simp: fd_drawing_icon_layout_def Let_def bitmap_area_def move_area_def move_point_def c_point_def
      split: Option.bind_splits)

lemma blend_transparent:
  assumes "bitmap_ok bitmap" shows "blend_rgb (2 ^ nat (bm_depth bitmap) - 1) 0 s p = p"
proof -
  have "(2 ^ nat (bm_depth bitmap) - 1 :: u32) \<in> {1, 3, 15, 255}" using assms by (auto simp: bitmap_ok_def)
  from blend_ends(2)[OF this] show ?thesis by (simp add: blend_rgb_def split: prod.split)
qed

lemma write_bitmap_8bit:
  assumes b: "draws_8bit b" and g: "color_8bit_ready g" and on: "on_display g (bitmap_area rx ry bitmap)" and ok: "bitmap_ok bitmap"
  obtains buffer where "fd_graphics_write_bitmap b rx ry bitmap g = Some (g\<lparr>gr_buffer := buffer\<rparr>)"
    "\<And>x y. bitmap_alpha bitmap (x - area_x (bitmap_area rx ry bitmap)) (y - area_y (bitmap_area rx ry bitmap)) = 0 \<Longrightarrow>
       pixel_of (g\<lparr>gr_buffer := buffer\<rparr>) x y = pixel_of g x y"
proof -
  have "fd_graphics_write_bitmap b rx ry bitmap g = fd_graphics_color_8bit_write_bitmap rx ry bitmap g"
    using b on on_display_ok(1)[OF on]
    by (simp add: fd_graphics_write_bitmap_def off_screen_def draws_8bit_def on_display_def area_covers_def screen_area_def bitmap_area_def
        area_ok_def)
  moreover note color_8bit_write_bitmap_exact[OF g ok on_display_ok(3)[OF on]]
  ultimately show ?thesis using that unfolding paints_display_def by (auto simp: blend_transparent[OF ok])
qed

text \<open>C40: An icon is mixed into what is there, but an icon whose bitmap is replaced by one that covers the same area reports the change
  as opaque, and the area is not cleared: where the new bitmap is transparent, the old icon stays on the display.\<close>

theorem fd_canvas_icon_shows_through:
  assumes b: "draws_8bit b" and v: "color_8bit_valid (gr_width (cv_graphics c)) (gr_height (cv_graphics c)) (gr_buffer (cv_graphics c))"
    and c: "gr_is_display_on (cv_graphics c)" "\<not> cv_is_rendering c" "\<not> cv_work_queue c" "cv_planes c = [p]" "cv_drawings c p = [fd_drawing_icon d]"
      "cv_change c = no_change True"
    and d: "dc_previous_view d \<noteq> dc_view d" "view_visible (dc_view d)" "mem_bitmaps (cv_memory c) (vc_bitmap (dc_view d)) = Some bitmap"
      "fd_drawing_icon_layout (cv_memory c) d = Some d'"
    and on: "on_display (cv_graphics c) (dc_area d)" "on_display (cv_graphics c) (dc_area d')"
    and area: "\<not> fd_graphics_area_is_empty (dc_area d')" "area_covers (dc_area d') (dc_area d)"
    and bitmap: "bitmap_ok bitmap" "bitmap_alpha bitmap (x - area_x (dc_area d')) (y - area_y (dc_area d')) = 0"
  shows "\<exists>c'. fd_canvas_update b fd_graphics_area_empty True c = Some c' \<and> pixel_of (cv_graphics c') x y = pixel_of (cv_graphics c) x y"
proof -
  define g where "g = cv_graphics c"
  define c1 where "c1 = with_change fd_graphics_area_empty True c"
  define A where "A = area_cup (dc_area d) (dc_area d')"
  have A: "on_display g A" "\<not> fd_graphics_area_is_empty A"
    using on on_display_union area(1) union_not_empty[of "dc_area d" "dc_area d'"] by (auto simp: A_def g_def on_display_def)
  note lay = icon_layout_area[OF d(4,2,3)]
  have e: "area_cup fd_graphics_area_empty a = a" for a
    by (simp add: area_cup_def fd_graphics_area_is_empty_def fd_graphics_area_empty_def)
  have c1: "cv_graphics c1 = g" "cv_planes c1 = [p]" "cv_drawings c1 = cv_drawings c" "cv_change c1 = no_change True" "cv_memory c1 = cv_memory c"
    "cv_is_rendering c1 = cv_is_rendering c" "cv_work_queue c1 = cv_work_queue c"
    using c e by (simp_all add: c1_def with_change_def g_def no_change_def)
  have empty: "on_display g fd_graphics_area_empty"
    using on(1) by (auto simp: g_def on_display_def area_covers_def screen_area_def fd_graphics_area_empty_def)
  have add: "fd_canvas_add_change fd_graphics_area_empty True c = Some c1" "fd_canvas_add_change A True c1 = Some (with_change A True c1)"
    using add_change_ok[of c fd_graphics_area_empty True] add_change_ok[of c1 A True] empty A(1) c(6) c1
    by (simp_all add: c1_def[symmetric] g_def no_change_def)
  let ?d = "d'\<lparr>dc_previous_view := dc_view d'\<rparr>"
  have "drawing_update (cv_memory c) (fd_drawing_icon d) g = Some (fd_drawing_icon ?d, Some (A, True), cv_memory c, g)"
    using d area(2) on_display_operations[OF on] on_display_operations[OF on(2,1)]
    by (simp add: drawing_update_def fd_drawing_icon_update_def Let_def A_def)
  moreover have same: "c1\<lparr>cv_memory := cv_memory c, cv_graphics := g\<rparr> = c1"
    using same_members[of c1] unfolding c1(1,5) .
  ultimately have "update_planes [p] c1 = Some ((with_change A True c1)\<lparr>cv_drawings := (cv_drawings c)(p := [fd_drawing_icon ?d])\<rparr>)"
    by (simp only: update_planes.simps update_drawings.simps c1(1,3,5) c(5) bind.bind_lunit prod.case Let_def option.case same add(2))
      (simp add: with_change_def c1(3))
  moreover define c2 where "c2 = (with_change A True c1)\<lparr>cv_drawings := (cv_drawings c)(p := [fd_drawing_icon ?d])\<rparr>"
  moreover have c2: "cv_graphics c2 = g" "cv_planes c2 = [p]" "cv_change c2 = \<lparr>ch_area = A, ch_opaque = True\<rparr>" "cv_memory c2 = cv_memory c"
    "cv_work_queue c2 = cv_work_queue c"
    using c1 e by (simp_all add: c2_def with_change_def no_change_def)
  ultimately have u: "fd_canvas_update b fd_graphics_area_empty True c =
      fd_canvas_render b (c2\<lparr>cv_render_state := \<lparr>st_planes = [p], st_change = \<lparr>ch_area = A, ch_opaque = True\<rparr>\<rparr>, cv_change := no_change True\<rparr>)"
    using c c1 A(2) unfolding fd_canvas_update_def add(1) bind.bind_lunit Let_def fd_graphics_is_display_on_def by (simp add: g_def)
  define g1 where "g1 = fd_graphics_set_foreground white (fd_graphics_set_background black ((fd_graphics_reset g)\<lparr>gr_clipping := A\<rparr>))"
  have set: "fd_graphics_set_clipping A (fd_graphics_reset g) = Some ((fd_graphics_reset g)\<lparr>gr_clipping := A\<rparr>)"
    using clip_on_display[of "fd_graphics_reset g" A] A(1) by simp
  have g1: "gr_clipping g1 = A" "gr_width g1 = gr_width g" "gr_height g1 = gr_height g" "gr_buffer g1 = gr_buffer g"
    by (simp_all add: g1_def fd_graphics_reset_def screen_area_def fd_graphics_set_foreground_def fd_graphics_set_background_def)
  let ?g = "fd_graphics_set_foreground (vc_color (dc_view d)) g1"
  have "color_8bit_ready ?g" using v A(1) on_display_ok(1)[OF A(1)] g1 by (simp add: color_8bit_ready_def fd_graphics_set_foreground_def g_def on_display_def screen_area_def)
  moreover have "on_display ?g (bitmap_area (point_x (dc_origin d')) (point_y (dc_origin d')) bitmap)"
    using on(2) g1 by (simp add: lay on_display_def screen_area_def fd_graphics_set_foreground_def g_def)
  ultimately obtain buffer where w: "fd_graphics_write_bitmap b (point_x (dc_origin d')) (point_y (dc_origin d')) bitmap ?g = Some (?g\<lparr>gr_buffer := buffer\<rparr>)"
    "pixel_of (?g\<lparr>gr_buffer := buffer\<rparr>) x y = pixel_of ?g x y"
    using write_bitmap_8bit[OF b _ _ bitmap(1), of ?g "point_x (dc_origin d')" "point_y (dc_origin d')"] bitmap(2) unfolding lay(1) by metis
  have draw: "drawing_render b (cv_memory c) (fd_drawing_icon ?d) g1 = Some (?g\<lparr>gr_buffer := buffer\<rparr>)"
    using d(2,3) w(1) by (simp add: drawing_render_def fd_drawing_icon_render_def lay(2) Let_def)
  have "\<exists>h. render_planes b (cv_memory c) A ((cv_drawings c)(p := [fd_drawing_icon ?d])) [p] g1 = Some h \<and>
      gr_width h = gr_width g \<and> gr_height h = gr_height g \<and> pixel_of h x y = pixel_of g x y"
    using draw w(2) g1 on_display_operations(3)[OF A(1) on(2)[folded g_def]]
    by (cases "area_meets A (dc_area d')") (simp_all add: fd_graphics_set_foreground_def drawing_get_area_def)
  then obtain h where h: "render_planes b (cv_memory c) A ((cv_drawings c)(p := [fd_drawing_icon ?d])) [p] g1 = Some h"
      "gr_width h = gr_width g" "gr_height h = gr_height g" "pixel_of h x y = pixel_of g x y" by blast
  obtain device where "fd_graphics_update b A (fd_graphics_reset h) = Some ((fd_graphics_reset h)\<lparr>gr_device := device\<rparr>)"
  proof (cases "ba_update b")
    case None
    then show ?thesis by (intro that[of "gr_device (fd_graphics_reset h)"]) (simp only: same_device fd_graphics_update_def option.case)
  next
    case (Some update_area)
    then show ?thesis using b that by (auto simp: fd_graphics_update_def draws_8bit_def)
  qed
  then have dev: "fd_graphics_update b A (fd_graphics_reset h) = Some ((fd_graphics_reset h)\<lparr>gr_device := device\<rparr>)" .
  define c3 where "c3 = c2\<lparr>cv_render_state := \<lparr>st_planes = [p], st_change = \<lparr>ch_area = A, ch_opaque = True\<rparr>\<rparr>, cv_change := no_change True\<rparr>"
  have c3: "cv_graphics c3 = g" "cv_memory c3 = cv_memory c" "cv_drawings c3 = (cv_drawings c)(p := [fd_drawing_icon ?d])"
    "cv_render_state c3 = \<lparr>st_planes = [p], st_change = \<lparr>ch_area = A, ch_opaque = True\<rparr>\<rparr>"
    using c2 by (simp_all add: c3_def) (simp add: c2_def)
  have "fd_canvas_render b c3 = Some (c3\<lparr>cv_graphics := (fd_graphics_reset h)\<lparr>gr_device := device\<rparr>\<rparr>)"
    unfolding fd_canvas_render_def Let_def c3 fd_canvas_change_t.simps fd_canvas_render_state_t.simps if_not_P[OF A(2)]
      not_True_eq_False if_False bind.bind_lunit set g1_def[symmetric] h(1) dev ..
  then have "fd_canvas_update b fd_graphics_area_empty True c = Some (c3\<lparr>cv_graphics := (fd_graphics_reset h)\<lparr>gr_device := device\<rparr>\<rparr>)"
    unfolding u c3_def .
  then show ?thesis using h(2-4) by (simp add: fd_graphics_reset_def g_def)
qed

section \<open>Strings\<close>

text \<open>A string longer than the buffer of a view's resource is copied all the same, past its end.\<close>

lemma fd_view_string_update_overruns:
  assumes "string_length string = Some n" "mem_strings m (rs_string resource) = Some old" "length old < n" "rs_length resource \<noteq> n"
    "n \<le> length string"
  shows "fd_view_string_update string resource m failures = None"
  using assms by (simp add: fd_view_string_update_def Let_def wr_block_def)

text \<open>After its first update a text with two buffers renders from the one that the application writes: the update copies the
  view over the previous one, with the pointer in it.\<close>

lemma fd_drawing_text_previous_buffer_unused:
  assumes "fd_drawing_text_update m d g = Some (d', change, m', g')" "dt_previous_view d \<noteq> dt_view d"
  shows "rs_string (vt_string (dt_previous_view d')) = rs_string (vt_string (dt_view d'))"
  using assms by (auto simp: fd_drawing_text_update_def Let_def split: Option.bind_splits prod.splits)

section \<open>Instances\<close>

definition instance_memory :: fd_memory where
  "instance_memory =
     \<lparr>mem_images = (\<lambda>_. None), mem_bitmaps = [0 \<mapsto> instance_bitmap, 1 \<mapsto> instance_bitmap\<lparr>bm_data := [0x0f]\<rparr>],
      mem_fonts = (\<lambda>_. None), mem_strings = (\<lambda>_. None)\<rparr>"

definition instance_canvas :: "u8 list \<Rightarrow> fd_drawing_t \<Rightarrow> unit fd_canvas_t" where
  "instance_canvas buffer drawing =
     \<lparr>cv_planes = [0], cv_drawings = (\<lambda>_. [drawing]), cv_memory = instance_memory, cv_graphics = instance_display\<lparr>gr_buffer := buffer\<rparr>,
      cv_change = no_change True, cv_work_queue = False, cv_submit_result = 1, cv_is_rendering = False,
      cv_render_state = \<lparr>st_planes = [], st_change = no_change True\<rparr>, cv_log = []\<rparr>"

definition instance_alignments :: fd_view_alignments_t where
  "instance_alignments = \<lparr>al_x = fd_view_alignment_min, al_y = fd_view_alignment_min\<rparr>"

definition instance_rectangle :: fd_drawing_rectangle_t where
  "instance_rectangle =
     (let view = \<lparr>view_visible = True, view_location = \<lparr>point_x = 2, point_y = 0\<rparr>, view_alignments = instance_alignments,
        vr_area = \<lparr>area_x = 0, area_y = 0, area_width = 3, area_height = 1\<rparr>, vr_color = 0xffff0000\<rparr>
      in \<lparr>dr_view = view, dr_previous_view = view\<lparr>view_visible := False\<rparr>, dr_area = fd_graphics_area_empty\<rparr>)"

definition instance_icon :: fd_drawing_icon_t where
  "instance_icon =
     (let view = \<lparr>view_visible = True, view_location = \<lparr>point_x = 0, point_y = 0\<rparr>, view_alignments = instance_alignments,
        vc_revision = 0, vc_bitmap = 1, vc_color = 0xffffffff\<rparr>
      in \<lparr>dc_view = view, dc_previous_view = view\<lparr>vc_bitmap := 0\<rparr>,
          dc_area = \<lparr>area_x = 0, area_y = 0, area_width = 2, area_height = 1\<rparr>, dc_origin = \<lparr>point_x = 0, point_y = 0\<rparr>\<rparr>)"

lemma instance_draws: "draws_8bit color_8bit_backend"
  by (simp add: draws_8bit_def color_8bit_backend_def)

lemma instance_layout:
  "fd_drawing_rectangle_layout instance_rectangle =
     Some (instance_rectangle\<lparr>dr_area := \<lparr>area_x = 2, area_y = 0, area_width = 3, area_height = 1\<rparr>\<rparr>)"
  by (simp add: fd_drawing_rectangle_layout_def instance_rectangle_def Let_def fd_drawing_align_def align_coordinate_def instance_alignments_def
      move_area_def c_point_def c_int_def int_ok_def)

lemma fd_canvas_update_shows_witness:
  "\<exists>c'. fd_canvas_update color_8bit_backend \<lparr>area_x = 0, area_y = 0, area_width = 8, area_height = 2\<rparr> False
      (instance_canvas (replicate 48 7) (fd_drawing_rectangle instance_rectangle)) = Some c' \<and>
    pixel_of (cv_graphics c') 2 0 = (255, 0, 0) \<and> pixel_of (cv_graphics c') 5 0 = (0, 0, 0)"
proof -
  let ?c = "instance_canvas (replicate 48 7) (fd_drawing_rectangle instance_rectangle)"
  have screen: "screen_area (cv_graphics ?c) = \<lparr>area_x = 0, area_y = 0, area_width = 8, area_height = 2\<rparr>"
    by (simp add: instance_canvas_def screen_area_def instance_display_def)
  have on: "on_display (cv_graphics ?c) (screen_area (cv_graphics ?c))"
    unfolding on_display_def screen by (simp add: area_covers_def instance_canvas_def instance_display_def int_ok_def)
  have ds: "canvas_drawings ?c = [fd_drawing_rectangle instance_rectangle]" by (simp add: canvas_drawings_def instance_canvas_def)
  have "rectangle_fits (cv_graphics ?c) (fd_drawing_rectangle instance_rectangle)"
    by (simp add: instance_layout on_display_def screen)
      (simp add: instance_rectangle_def Let_def area_covers_def fd_graphics_area_empty_def instance_canvas_def instance_display_def int_ok_def)
  then have "canvas_ready color_8bit_backend ?c"
    unfolding canvas_ready_def ds
    by (simp add: instance_draws on_display_def screen)
      (simp add: instance_canvas_def instance_display_def color_8bit_valid_def no_change_def area_covers_def fd_graphics_area_empty_def int_ok_def)
  from fd_canvas_update_shows[OF this on shown_whole_screen]
  obtain c' where c': "fd_canvas_update color_8bit_backend (screen_area (cv_graphics ?c)) False ?c = Some c'"
    "canvas_drawings c' = map updated (canvas_drawings ?c)"
    "\<And>x y. on_screen (gr_width (cv_graphics ?c)) (gr_height (cv_graphics ?c)) x y \<Longrightarrow>
      pixel_of (cv_graphics c') x y = picture (canvas_drawings c') x y (0, 0, 0)" by blast
  have size: "gr_width (cv_graphics ?c) = 8" "gr_height (cv_graphics ?c) = 2" by (simp_all add: instance_canvas_def instance_display_def)
  have ur: "updated (fd_drawing_rectangle instance_rectangle) = fd_drawing_rectangle (instance_rectangle\<lparr>
      dr_area := \<lparr>area_x = 2, area_y = 0, area_width = 3, area_height = 1\<rparr>, dr_previous_view := dr_view instance_rectangle\<rparr>)"
  proof -
    have "dr_previous_view instance_rectangle \<noteq> dr_view instance_rectangle" by (simp add: instance_rectangle_def Let_def)
    moreover have "dr_area instance_rectangle = fd_graphics_area_empty" by (simp add: instance_rectangle_def Let_def)
    ultimately show ?thesis
      by (simp add: fd_drawing_rectangle_update_def Let_def instance_layout fd_graphics_area_union_def fd_graphics_area_is_empty_def
          fd_graphics_area_empty_def fd_graphics_area_contains_def and_then_def c_int_def int_ok_def)
  qed
  have view: "view_visible (dr_view instance_rectangle)" "color_rgb (vr_color (dr_view instance_rectangle)) = (255, 0, 0)"
    by (simp_all add: instance_rectangle_def Let_def color_rgb_def color_r_def color_g_def color_b_def)
  have "pixel_of (cv_graphics c') x y = (if area_has \<lparr>area_x = 2, area_y = 0, area_width = 3, area_height = 1\<rparr> x y then (255, 0, 0) else (0, 0, 0))"
    if "on_screen 8 2 x y" for x y
    using c'(3)[of x y] that by (simp add: size c'(2) ds ur view del: updated.simps)
  from this[of 2 0] this[of 5 0] c'(1) show ?thesis unfolding screen
    by (simp add: on_screen_def area_has_def)
qed

lemma fd_canvas_icon_shows_through_witness:
  "\<exists>c'. fd_canvas_update color_8bit_backend fd_graphics_area_empty True (instance_canvas (replicate 48 255) (fd_drawing_icon instance_icon)) = Some c' \<and>
    pixel_of (cv_graphics c') 0 0 = (255, 255, 255)"
proof -
  let ?c = "instance_canvas (replicate 48 255) (fd_drawing_icon instance_icon)"
  let ?b = "instance_bitmap\<lparr>bm_data := [0x0f]\<rparr>"
  let ?a = "\<lparr>area_x = 0, area_y = 0, area_width = 2, area_height = 1\<rparr>"
  have size: "gr_width (cv_graphics ?c) = 8" "gr_height (cv_graphics ?c) = 2" "gr_buffer (cv_graphics ?c) = replicate 48 255"
    by (simp_all add: instance_canvas_def instance_display_def)
  have lay: "fd_drawing_icon_layout (cv_memory ?c) instance_icon = Some (instance_icon\<lparr>dc_area := ?a, dc_origin := \<lparr>point_x = 0, point_y = 0\<rparr>\<rparr>)"
    by (simp add: fd_drawing_icon_layout_def instance_icon_def Let_def instance_canvas_def instance_memory_def instance_bitmap_def fd_drawing_align_def
        align_coordinate_def instance_alignments_def move_area_def move_point_def c_point_def c_int_def int_ok_def)
  have "color_8bit_valid (gr_width (cv_graphics ?c)) (gr_height (cv_graphics ?c)) (gr_buffer (cv_graphics ?c))"
    unfolding size by (simp add: color_8bit_valid_def int_ok_def)
  moreover have "gr_is_display_on (cv_graphics ?c)" "\<not> cv_is_rendering ?c" "\<not> cv_work_queue ?c" "cv_planes ?c = [0]"
    "cv_drawings ?c 0 = [fd_drawing_icon instance_icon]" "cv_change ?c = no_change True"
    by (simp_all add: instance_canvas_def instance_display_def)
  moreover have "dc_previous_view instance_icon \<noteq> dc_view instance_icon" "view_visible (dc_view instance_icon)"
    "mem_bitmaps (cv_memory ?c) (vc_bitmap (dc_view instance_icon)) = Some ?b"
    by (simp_all add: instance_icon_def Let_def instance_canvas_def instance_memory_def)
  moreover note lay
  moreover have "on_display (cv_graphics ?c) ?a" by (simp add: on_display_def area_covers_def screen_area_def size int_ok_def)
  then have "on_display (cv_graphics ?c) (dc_area instance_icon)"
    "on_display (cv_graphics ?c) (dc_area (instance_icon\<lparr>dc_area := ?a, dc_origin := \<lparr>point_x = 0, point_y = 0\<rparr>\<rparr>))"
    by (simp_all add: instance_icon_def Let_def)
  moreover have "\<not> fd_graphics_area_is_empty (dc_area (instance_icon\<lparr>dc_area := ?a, dc_origin := \<lparr>point_x = 0, point_y = 0\<rparr>\<rparr>))"
    "area_covers (dc_area (instance_icon\<lparr>dc_area := ?a, dc_origin := \<lparr>point_x = 0, point_y = 0\<rparr>\<rparr>)) (dc_area instance_icon)"
    by (simp_all add: fd_graphics_area_is_empty_def area_covers_def instance_icon_def Let_def)
  moreover have "bitmap_ok ?b"
    "bitmap_alpha ?b (0 - area_x (dc_area (instance_icon\<lparr>dc_area := ?a, dc_origin := \<lparr>point_x = 0, point_y = 0\<rparr>\<rparr>)))
       (0 - area_y (dc_area (instance_icon\<lparr>dc_area := ?a, dc_origin := \<lparr>point_x = 0, point_y = 0\<rparr>\<rparr>))) = 0"
    by (simp_all add: bitmap_ok_def bitmap_stride_def bitmap_alpha_def instance_bitmap_def)
  ultimately obtain c' where "fd_canvas_update color_8bit_backend fd_graphics_area_empty True ?c = Some c'"
    "pixel_of (cv_graphics c') 0 0 = pixel_of (cv_graphics ?c) 0 0"
    using fd_canvas_icon_shows_through[OF instance_draws] by blast
  moreover have "pixel_of (cv_graphics ?c) 0 0 = (255, 255, 255)"
    unfolding size by (simp add: color_8bit_pixel_def on_screen_def)
  ultimately show ?thesis by simp
qed

end
