(* ===== verification/FD_Countdown.thy ===== *)
theory FD_Countdown imports FD_Float begin

text \<open>
  What timers and delayed work have in common: something counts down in steps of time, and when its time is over it is called,
  once. The interface is a step of the provider's state, the time that is \<open>left\<close>, if it counts down at all, and the number
  of \<open>calls\<close> so far. The client's result, proved here, is that it is called in the step in which the time that has
  passed reaches its duration, and never again.

  Times are floats. In steps in which the duration can be counted, by less than 2^24 of a unit, they are exact.
\<close>

primrec steps :: "('e \<Rightarrow> 's \<Rightarrow> 's option) \<Rightarrow> 'e list \<Rightarrow> 's \<Rightarrow> 's option" where
  "steps step [] s = Some s"
| "steps step (e # es) s = do { s \<leftarrow> step e s; steps step es s }"

lemma float_sub_pos: "float_sub d e \<le> 0 \<longleftrightarrow> d \<le> e"
proof -
  have p: "float_round n 1 = 0 \<longleftrightarrow> n = 0" if "0 \<le> n" for n
  proof (cases "n < 2 ^ 24")
    case True
    then show ?thesis using float_round_small that by simp
  next
    case False
    then have n: "\<not> bitlen n \<le> 24" using bitlen_le_iff_power[of n 24] by simp
    define k where "k = nat (bitlen n - 24)"
    have "2 ^ k \<le> n"
    proof (rule ccontr)
      assume "\<not> 2 ^ k \<le> n"
      then have "bitlen n \<le> int k" unfolding bitlen_le_iff_power by simp
      then show False using n by (simp add: k_def)
    qed
    then have "0 < n div 2 ^ k" by (simp add: pos_imp_zdiv_pos_iff)
    then show ?thesis using False by (auto simp: float_round_def Let_def k_def)
  qed
  show ?thesis using p[of "d - e"] p[of "e - d"] float_round_nonneg[of "d - e"] float_round_nonneg[of "e - d"]
    by (auto simp: float_sub_def float_near_def)
qed

lemma float_sub_exact:
  assumes "0 \<le> k" "k \<le> m" "m < 2 ^ 24" shows "float_sub (m * 2 ^ u) (k * 2 ^ u) = (m - k) * 2 ^ u"
  using float_round_exact[of "m - k" u] assms
  by (simp add: float_sub_def float_near_def left_diff_distrib[symmetric] mult_less_0_iff)

locale countdown =
  fixes step :: "real32 \<Rightarrow> 's \<Rightarrow> 's option"
    and left :: "'s \<Rightarrow> real32 option"
    and calls :: "'s \<Rightarrow> nat"
    and inv :: "'s \<Rightarrow> bool"
  assumes step: "inv s \<Longrightarrow> \<exists>s'. step e s = Some s' \<and> inv s' \<and>
    (case left s of
       None \<Rightarrow> left s' = None \<and> calls s' = calls s
     | Some d \<Rightarrow> if d \<le> e then left s' = None \<and> calls s' = Suc (calls s) else left s' = Some (float_sub d e) \<and> calls s' = calls s)"
begin

lemma stopped:
  assumes "inv s" "left s = None" shows "\<exists>s'. steps step es s = Some s' \<and> inv s' \<and> left s' = None \<and> calls s' = calls s"
  using assms
proof (induction es arbitrary: s)
  case (Cons e es)
  obtain s1 where "step e s = Some s1" "inv s1" "left s1 = None" "calls s1 = calls s" using step[OF Cons.prems(1), of e] Cons.prems(2) by auto
  then show ?case using Cons.IH[of s1] by auto
qed simp

lemma fires_once:
  assumes "inv s" "left s = Some (m * 2 ^ u)" "0 \<le> m" "m < 2 ^ 24" "\<forall>e\<in>set es. 0 \<le> e \<and> 2 ^ u dvd e"
  shows "\<exists>s'. steps step es s = Some s' \<and> inv s' \<and> (left s' = None \<longleftrightarrow> es \<noteq> [] \<and> m * 2 ^ u \<le> sum_list es) \<and>
    calls s' = calls s + (if es \<noteq> [] \<and> m * 2 ^ u \<le> sum_list es then 1 else 0)"
  using assms
proof (induction es arbitrary: s m)
  case (Cons e es)
  obtain s1 where s1: "step e s = Some s1" "inv s1"
    "if m * 2 ^ u \<le> e then left s1 = None \<and> calls s1 = Suc (calls s) else left s1 = Some (float_sub (m * 2 ^ u) e) \<and> calls s1 = calls s"
    using step[OF Cons.prems(1), of e] Cons.prems(2) by auto
  obtain k where k: "e = k * 2 ^ u" "0 \<le> k" using Cons.prems(5) by (auto simp: dvd_def zero_le_mult_iff mult.commute)
  have later: "0 \<le> sum_list es" using Cons.prems(5) by (intro sum_list_nonneg) simp
  show ?case
  proof (cases "m * 2 ^ u \<le> e")
    case True
    then show ?thesis using stopped[OF s1(2), of es] s1 later by auto
  next
    case False
    then have m: "0 \<le> m - k" "m - k < 2 ^ 24" "m - k \<noteq> 0" using k Cons.prems(4) by (simp_all add: not_le)
    have "left s1 = Some ((m - k) * 2 ^ u)" "calls s1 = calls s"
      using s1(3) False float_sub_exact[of k m u] m k Cons.prems(4) by simp_all
    then show ?thesis using Cons.IH[OF s1(2) _ m(1,2)] Cons.prems(5) s1(1) False
      by (auto simp: k(1) left_diff_distrib)
  qed
qed simp

end

end
