(* ===== verification/FD_Timer.thy ===== *)
theory FD_Timer imports FD_Countdown begin

text \<open>
  \<open>subsys/base/src/fd_timer.c\<close>: timers that count down and call back, moved on by the ticks of the application.

  Timers are objects of the application, here addresses into \<open>ts_memory\<close>. A callback is the parameter \<open>run\<close>, applied to the
  function, the context and the whole state, for it may call the module again; \<open>'w\<close> is the state of the application.
\<close>

record fd_timer_t =
  tm_context :: nat
  tm_callback :: nat
  tm_countdown :: real32
  tm_active :: bool
  tm_triggered :: bool

record 'w fd_timer_singleton_t =
  ts_memory :: "nat \<Rightarrow> fd_timer_t"
  ts_timers :: "nat list"
  ts_timestamp :: real32
  ts_log :: assert_log
  ts_world :: 'w

definition fd_timer_limit :: nat where
  "fd_timer_limit = 32"

definition fd_timer_initialize :: "'w fd_timer_singleton_t \<Rightarrow> 'w fd_timer_singleton_t" where
  "fd_timer_initialize s = s\<lparr>ts_timers := [], ts_timestamp := 0\<rparr>"

definition fd_timer_get_timestamp :: "'w fd_timer_singleton_t \<Rightarrow> real32" where
  "fd_timer_get_timestamp s = ts_timestamp s"

definition modify_timer :: "nat \<Rightarrow> (fd_timer_t \<Rightarrow> fd_timer_t) \<Rightarrow> 'w fd_timer_singleton_t \<Rightarrow> 'w fd_timer_singleton_t" where
  "modify_timer timer f s = s\<lparr>ts_memory := (ts_memory s)(timer := f (ts_memory s timer))\<rparr>"

definition fd_timer_add_with_identifier :: "nat \<Rightarrow> nat \<Rightarrow> 'w fd_timer_singleton_t \<Rightarrow> 'w fd_timer_singleton_t" where
  "fd_timer_add_with_identifier timer callback s =
     (let s = modify_timer timer (\<lambda>t. t\<lparr>tm_callback := callback, tm_active := False, tm_triggered := False, tm_countdown := 0\<rparr>) s in
      if fd_timer_limit \<le> length (ts_timers s) then s\<lparr>ts_log := fd_assert False ''timer limit'' (ts_log s)\<rparr>
      else s\<lparr>ts_timers := ts_timers s @ [timer]\<rparr>)"

definition fd_timer_start :: "nat \<Rightarrow> real32 \<Rightarrow> 'w fd_timer_singleton_t \<Rightarrow> 'w fd_timer_singleton_t" where
  "fd_timer_start timer duration = modify_timer timer (\<lambda>t. t\<lparr>tm_countdown := duration, tm_active := True, tm_triggered := False\<rparr>)"

definition fd_timer_stop :: "nat \<Rightarrow> 'w fd_timer_singleton_t \<Rightarrow> 'w fd_timer_singleton_t" where
  "fd_timer_stop timer = modify_timer timer (\<lambda>t. t\<lparr>tm_countdown := 0, tm_active := False, tm_triggered := False\<rparr>)"

definition schedule_timer :: "real32 \<Rightarrow> fd_timer_t \<Rightarrow> fd_timer_t" where
  "schedule_timer elapsed t =
     (if \<not> tm_active t then t
      else if tm_countdown t \<le> elapsed then t\<lparr>tm_active := False, tm_triggered := True, tm_countdown := 0\<rparr>
      else t\<lparr>tm_countdown := float_sub (tm_countdown t) elapsed\<rparr>)"

definition fd_timer_schedule :: "real32 \<Rightarrow> 'w fd_timer_singleton_t \<Rightarrow> 'w fd_timer_singleton_t" where
  "fd_timer_schedule elapsed s = fold (\<lambda>timer. modify_timer timer (schedule_timer elapsed)) (ts_timers s) s"

text \<open>The list is read anew in every round: a callback may add a timer.\<close>

function timer_callback_loop ::
  "(nat \<Rightarrow> nat \<Rightarrow> 'w fd_timer_singleton_t \<Rightarrow> 'w fd_timer_singleton_t option) \<Rightarrow> nat \<Rightarrow> 'w fd_timer_singleton_t \<Rightarrow> 'w fd_timer_singleton_t option" where
  "timer_callback_loop run i s =
     (if length (ts_timers s) \<le> i then Some s
      else if fd_timer_limit \<le> i then None
      else let timer = ts_timers s ! i; t = ts_memory s timer in
        if tm_triggered t then do {
          s \<leftarrow> run (tm_callback t) (tm_context t) (modify_timer timer (\<lambda>t. t\<lparr>tm_triggered := False\<rparr>) s);
          timer_callback_loop run (Suc i) s
        }
        else timer_callback_loop run (Suc i) s)"
  by pat_completeness auto
termination by (relation "measure (\<lambda>(run, i, s). fd_timer_limit - i)") auto

declare timer_callback_loop.simps [simp del]

definition fd_timer_callback ::
  "(nat \<Rightarrow> nat \<Rightarrow> 'w fd_timer_singleton_t \<Rightarrow> 'w fd_timer_singleton_t option) \<Rightarrow> 'w fd_timer_singleton_t \<Rightarrow> 'w fd_timer_singleton_t option" where
  "fd_timer_callback run s = timer_callback_loop run 0 s"

definition fd_timer_update ::
  "(nat \<Rightarrow> nat \<Rightarrow> 'w fd_timer_singleton_t \<Rightarrow> 'w fd_timer_singleton_t option) \<Rightarrow> real32 \<Rightarrow> 'w fd_timer_singleton_t \<Rightarrow> 'w fd_timer_singleton_t option" where
  "fd_timer_update run elapsed s =
     fd_timer_callback run (fd_timer_schedule elapsed (s\<lparr>ts_timestamp := float_add (ts_timestamp s) elapsed\<rparr>))"

section \<open>One update\<close>

lemma modify_timer_sel [simp]:
  "ts_timers (modify_timer a f s) = ts_timers s" "ts_timestamp (modify_timer a f s) = ts_timestamp s" "ts_log (modify_timer a f s) = ts_log s"
  "ts_world (modify_timer a f s) = ts_world s" "ts_memory (modify_timer a f s) = (ts_memory s)(a := f (ts_memory s a))"
  by (simp_all add: modify_timer_def)

lemma fd_timer_schedule_eq:
  assumes "distinct (ts_timers s)"
  shows "fd_timer_schedule e s = s\<lparr>ts_memory := \<lambda>a. if a \<in> set (ts_timers s) then schedule_timer e (ts_memory s a) else ts_memory s a\<rparr>"
proof -
  have "fold (\<lambda>a. modify_timer a (schedule_timer e)) as s = s\<lparr>ts_memory := \<lambda>a. if a \<in> set as then schedule_timer e (ts_memory s a) else ts_memory s a\<rparr>"
    if "distinct as" for as using that
  proof (induction as arbitrary: s)
    case (Cons a as)
    have "distinct as" using Cons.prems by simp
    from Cons.IH[OF this, of "modify_timer a (schedule_timer e) s"] show ?case
      using Cons.prems by simp (rule fd_timer_singleton_t.equality, auto simp: fun_eq_iff)
  qed simp
  then show ?thesis using assms by (simp add: fd_timer_schedule_def)
qed

text \<open>Callbacks that keep a list of who was called, and leave the timers alone.\<close>

definition note_call :: "nat \<Rightarrow> nat \<Rightarrow> (nat \<times> nat) list fd_timer_singleton_t \<Rightarrow> (nat \<times> nat) list fd_timer_singleton_t option" where
  "note_call f c s = Some (s\<lparr>ts_world := ts_world s @ [(f, c)]\<rparr>)"

definition timer_call :: "fd_timer_t \<Rightarrow> nat \<times> nat" where
  "timer_call t = (tm_callback t, tm_context t)"

lemma timer_callback_loop_notes:
  assumes "distinct (ts_timers s)" "length (ts_timers s) \<le> fd_timer_limit" "i \<le> length (ts_timers s)"
  shows "timer_callback_loop note_call i s = Some (s\<lparr>
    ts_memory := \<lambda>a. if a \<in> set (drop i (ts_timers s)) then (ts_memory s a)\<lparr>tm_triggered := False\<rparr> else ts_memory s a,
    ts_world := ts_world s @ map (\<lambda>a. timer_call (ts_memory s a)) (filter (\<lambda>a. tm_triggered (ts_memory s a)) (drop i (ts_timers s)))\<rparr>)"
  using assms(1,3,2)
proof (induction "length (ts_timers s) - i" arbitrary: i s)
  case 0
  then show ?case by (simp add: timer_callback_loop.simps[of note_call i s])
next
  case (Suc n)
  then have i: "i < length (ts_timers s)" by simp
  define a where "a = ts_timers s ! i"
  have d: "drop i (ts_timers s) = a # drop (Suc i) (ts_timers s)" using i by (simp add: a_def Cons_nth_drop_Suc)
  have na: "a \<notin> set (drop (Suc i) (ts_timers s))" using Suc.prems(1) distinct_drop[of "ts_timers s" i] by (simp add: d)
  define r where "r = tm_triggered (ts_memory s a)"
  define s1 where "s1 = (if r then (modify_timer a (\<lambda>t. t\<lparr>tm_triggered := False\<rparr>) s)\<lparr>ts_world := ts_world s @ [timer_call (ts_memory s a)]\<rparr> else s)"
  have 1: "timer_callback_loop note_call i s = timer_callback_loop note_call (Suc i) s1"
    using i Suc.prems(3) by (subst timer_callback_loop.simps) (simp add: a_def[symmetric] note_call_def s1_def r_def timer_call_def Let_def)
  have t: "ts_timers s1 = ts_timers s" by (simp add: s1_def)
  have m: "ts_memory s1 = (ts_memory s)(a := (ts_memory s a)\<lparr>tm_triggered := False\<rparr>)" by (auto simp: s1_def r_def fun_eq_iff)
  have o: "\<And>b. b \<in> set (drop (Suc i) (ts_timers s)) \<Longrightarrow> ts_memory s1 b = ts_memory s b" using na by (auto simp: m)
  have f: "filter (\<lambda>b. tm_triggered (ts_memory s1 b)) (drop (Suc i) (ts_timers s)) = filter (\<lambda>b. tm_triggered (ts_memory s b)) (drop (Suc i) (ts_timers s))"
    "map (\<lambda>b. timer_call (ts_memory s1 b)) (filter P (drop (Suc i) (ts_timers s))) = map (\<lambda>b. timer_call (ts_memory s b)) (filter P (drop (Suc i) (ts_timers s)))" for P
    using o by (auto cong: filter_cong map_cong)
  have "timer_callback_loop note_call (Suc i) s1 = Some (s1\<lparr>
      ts_memory := \<lambda>b. if b \<in> set (drop (Suc i) (ts_timers s)) then (ts_memory s1 b)\<lparr>tm_triggered := False\<rparr> else ts_memory s1 b,
      ts_world := ts_world s1 @ map (\<lambda>b. timer_call (ts_memory s b)) (filter (\<lambda>b. tm_triggered (ts_memory s b)) (drop (Suc i) (ts_timers s)))\<rparr>)"
    using Suc.hyps(1)[of s1 "Suc i"] Suc.hyps(2) Suc.prems i unfolding t f by simp
  moreover have "(\<lambda>b. if b \<in> set (drop (Suc i) (ts_timers s)) then (ts_memory s1 b)\<lparr>tm_triggered := False\<rparr> else ts_memory s1 b) =
      (\<lambda>b. if b \<in> set (drop i (ts_timers s)) then (ts_memory s b)\<lparr>tm_triggered := False\<rparr> else ts_memory s b)"
    using na by (auto simp: d m fun_eq_iff)
  ultimately show ?case unfolding 1 by (simp add: d r_def s1_def)
qed


definition timer_due :: "real32 \<Rightarrow> fd_timer_t \<Rightarrow> bool" where
  "timer_due e t \<longleftrightarrow> tm_triggered (schedule_timer e t)"

lemma fd_timer_update_notes:
  assumes "distinct (ts_timers s)" "length (ts_timers s) \<le> fd_timer_limit"
  shows "fd_timer_update note_call e s = Some (s\<lparr>ts_timestamp := float_add (ts_timestamp s) e,
    ts_memory := \<lambda>a. if a \<in> set (ts_timers s) then (schedule_timer e (ts_memory s a))\<lparr>tm_triggered := False\<rparr> else ts_memory s a,
    ts_world := ts_world s @ map (\<lambda>a. timer_call (ts_memory s a)) (filter (\<lambda>a. timer_due e (ts_memory s a)) (ts_timers s))\<rparr>)"
proof -
  define s1 where "s1 = fd_timer_schedule e (s\<lparr>ts_timestamp := float_add (ts_timestamp s) e\<rparr>)"
  have s1: "s1 = s\<lparr>ts_timestamp := float_add (ts_timestamp s) e,
      ts_memory := \<lambda>a. if a \<in> set (ts_timers s) then schedule_timer e (ts_memory s a) else ts_memory s a\<rparr>"
    unfolding s1_def by (subst fd_timer_schedule_eq) (use assms(1) in \<open>simp_all cong: if_cong\<close>)
  have c: "timer_call (schedule_timer e t) = timer_call t" for t by (simp add: timer_call_def schedule_timer_def)
  have "map (\<lambda>a. timer_call (ts_memory s1 a)) (filter (\<lambda>a. tm_triggered (ts_memory s1 a)) (ts_timers s)) =
      map (\<lambda>a. timer_call (ts_memory s a)) (filter (\<lambda>a. timer_due e (ts_memory s a)) (ts_timers s))"
    by (simp add: s1 c timer_due_def cong: filter_cong map_cong)
  moreover have "(\<lambda>a. if a \<in> set (ts_timers s) then (ts_memory s1 a)\<lparr>tm_triggered := False\<rparr> else ts_memory s1 a) =
      (\<lambda>a. if a \<in> set (ts_timers s) then (schedule_timer e (ts_memory s a))\<lparr>tm_triggered := False\<rparr> else ts_memory s a)"
    by (simp add: s1 fun_eq_iff)
  ultimately show ?thesis
    unfolding fd_timer_update_def fd_timer_callback_def s1_def[symmetric]
    using timer_callback_loop_notes[of s1 0] assms by (simp add: s1)
qed

section \<open>Properties\<close>

text \<open>A list of timers with room for all of them, in which one timer can be told from the others by its call.\<close>

definition timer_alone :: "nat \<Rightarrow> nat \<times> nat \<Rightarrow> 'w fd_timer_singleton_t \<Rightarrow> bool" where
  "timer_alone a c s \<longleftrightarrow> distinct (ts_timers s) \<and> length (ts_timers s) \<le> fd_timer_limit \<and> a \<in> set (ts_timers s) \<and>
     (\<forall>b\<in>set (ts_timers s). timer_call (ts_memory s b) = c \<longleftrightarrow> b = a)"

definition timer_left :: "nat \<Rightarrow> 'w fd_timer_singleton_t \<Rightarrow> real32 option" where
  "timer_left a s = (if tm_active (ts_memory s a) then Some (tm_countdown (ts_memory s a)) else None)"

lemma count_calls:
  assumes "distinct xs" "a \<in> set xs" "\<forall>b\<in>set xs. f b = c \<longleftrightarrow> b = a"
  shows "count_list (map f (filter P xs)) c = (if P a then 1 else 0)"
  using assms by (induction xs) (auto simp: count_list_0_iff)

interpretation timer_countdown: countdown "fd_timer_update note_call" "timer_left a" "\<lambda>s. count_list (ts_world s) c"
  "\<lambda>s. timer_alone a c s \<and> \<not> tm_triggered (ts_memory s a)" for a c
proof
  fix s :: "(nat \<times> nat) list fd_timer_singleton_t" and e :: real32
  assume inv: "timer_alone a c s \<and> \<not> tm_triggered (ts_memory s a)"
  note a = inv[unfolded timer_alone_def]
  define s' where "s' = s\<lparr>ts_timestamp := float_add (ts_timestamp s) e,
    ts_memory := \<lambda>a. if a \<in> set (ts_timers s) then (schedule_timer e (ts_memory s a))\<lparr>tm_triggered := False\<rparr> else ts_memory s a,
    ts_world := ts_world s @ map (\<lambda>a. timer_call (ts_memory s a)) (filter (\<lambda>a. timer_due e (ts_memory s a)) (ts_timers s))\<rparr>"
  have u: "fd_timer_update note_call e s = Some s'" using fd_timer_update_notes[of s e] a by (simp add: s'_def)
  have "timer_call (ts_memory s' b) = timer_call (ts_memory s b)" for b
    by (simp add: s'_def timer_call_def schedule_timer_def)
  moreover have "ts_timers s' = ts_timers s" by (simp add: s'_def)
  moreover have m: "ts_memory s' a = (schedule_timer e (ts_memory s a))\<lparr>tm_triggered := False\<rparr>" using a by (simp add: s'_def)
  ultimately have "timer_alone a c s' \<and> \<not> tm_triggered (ts_memory s' a)" using a by (simp add: timer_alone_def)
  moreover have "count_list (ts_world s') c = count_list (ts_world s) c + (if timer_due e (ts_memory s a) then 1 else 0)"
    using count_calls[of "ts_timers s" a "\<lambda>a. timer_call (ts_memory s a)" c "\<lambda>a. timer_due e (ts_memory s a)"] a by (simp add: s'_def)
  ultimately show "\<exists>s'. fd_timer_update note_call e s = Some s' \<and> (timer_alone a c s' \<and> \<not> tm_triggered (ts_memory s' a)) \<and>
      (case timer_left a s of
         None \<Rightarrow> timer_left a s' = None \<and> count_list (ts_world s') c = count_list (ts_world s) c
       | Some d \<Rightarrow> if d \<le> e then timer_left a s' = None \<and> count_list (ts_world s') c = Suc (count_list (ts_world s) c)
         else timer_left a s' = Some (float_sub d e) \<and> count_list (ts_world s') c = count_list (ts_world s) c)"
    using u inv by (auto simp: timer_left_def m schedule_timer_def timer_due_def)
qed

text \<open>A timer that is started calls back once, in the update in which the time that has passed reaches its duration, and never
  again: whatever the steps of time are, in which its duration can be counted (the floats are then exact).\<close>

theorem fd_timer_fires_once:
  assumes "timer_alone a c s" "d = m * 2 ^ u" "0 \<le> m" "m < 2 ^ 24" "\<forall>e\<in>set es. 0 \<le> e \<and> 2 ^ u dvd e"
  shows "\<exists>s'. steps (fd_timer_update note_call) es (fd_timer_start a d s) = Some s' \<and>
    (tm_active (ts_memory s' a) \<longleftrightarrow> es = [] \<or> sum_list es < d) \<and>
    count_list (ts_world s') c = count_list (ts_world s) c + (if es \<noteq> [] \<and> d \<le> sum_list es then 1 else 0)"
proof -
  have "timer_alone a c (fd_timer_start a d s)" using assms(1) by (auto simp: timer_alone_def fd_timer_start_def timer_call_def)
  then show ?thesis
    using timer_countdown.fires_once[of a c "fd_timer_start a d s" m u es] assms(2-)
    by (auto simp: fd_timer_start_def timer_left_def split: if_splits)
qed

text \<open>The tick of the watch, 0.020f.\<close>

definition tick :: real32 where
  "tick = float_ratio 20 1000"

lemma tick_bounds: "0 \<le> tick" "tick < 2 ^ 144"
  by code_simp+

text \<open>In the last quarter of a million seconds before 2^19 seconds the floats are 1/32 of a second apart.\<close>

definition timestamp_ok :: "real32 \<Rightarrow> bool" where
  "timestamp_ok t \<longleftrightarrow> 0 \<le> t \<and> t \<le> 2 ^ 168 \<and> (2 ^ 167 \<le> t \<longrightarrow> 2 ^ 144 dvd t)"

lemma timestamp_ok_tick:
  assumes "timestamp_ok t" shows "timestamp_ok (float_add t tick)"
proof -
  note t = assms[unfolded timestamp_ok_def]
  define n where "n = t + tick"
  have f: "float_add t tick = float_round n 1" and n: "0 \<le> n" using t tick_bounds(1) by (simp_all add: float_add_def float_near_def n_def)
  show ?thesis
  proof (cases "t = 2 ^ 168")
    case True
    then have "float_add t tick = 2 ^ 168" by (simp only:) code_simp
    then show ?thesis by (simp add: timestamp_ok_def)
  next
    case False
    have le: "n \<le> 2 ^ 168"
    proof (cases "2 ^ 167 \<le> t")
      case True
      then obtain k where k: "t = 2 ^ 144 * k" using t by (auto simp: dvd_def)
      then have "k < 2 ^ 24" using t False by simp
      then show ?thesis using tick_bounds(2) by (simp add: n_def k)
    next
      case False
      then show ?thesis using tick_bounds(2) by (simp add: n_def)
    qed
    have "2 ^ 144 dvd float_round n 1" if "2 ^ 167 \<le> float_round n 1"
    proof (cases "2 ^ 167 \<le> n")
      case True
      then show ?thesis by (intro float_round_dvd) simp
    next
      case False
      then have "float_round n 1 \<le> 2 ^ 167" using n by (intro float_round_le_power) simp_all
      then have "float_round n 1 = 2 ^ 144 * 2 ^ 23" using that by simp
      then show ?thesis by (metis dvd_triv_left)
    qed
    then show ?thesis using float_round_le_power[OF n le] float_round_nonneg[OF n] by (simp add: timestamp_ok_def f)
  qed
qed

text \<open>The timestamp of the watch stops after six days: with ticks of 0.020f it never passes 2^19 seconds, however many there are,
  because half of the distance to the next float is more than a tick.\<close>

theorem fd_timer_timestamp_stops:
  fixes s :: "(nat \<times> nat) list fd_timer_singleton_t"
  assumes "distinct (ts_timers s)" "length (ts_timers s) \<le> fd_timer_limit" "ts_timestamp s = 0"
  shows "\<exists>s'. steps (fd_timer_update note_call) (replicate n tick) s = Some s' \<and> fd_timer_get_timestamp s' \<le> 2 ^ 19 * 2 ^ 149"
proof -
  have "timestamp_ok (ts_timestamp s)" using assms(3) by (simp add: timestamp_ok_def)
  with assms(1,2) have "\<exists>s'. steps (fd_timer_update note_call) (replicate n tick) s = Some s' \<and> timestamp_ok (ts_timestamp s')"
  proof (induction n arbitrary: s)
    case (Suc n)
    show ?case unfolding replicate_Suc steps.simps fd_timer_update_notes[OF Suc.prems(1,2)] bind.bind_lunit
      by (rule Suc.IH) (use Suc.prems timestamp_ok_tick in simp_all)
  qed simp
  then show ?thesis by (auto simp: timestamp_ok_def fd_timer_get_timestamp_def)
qed

section \<open>Instances\<close>

text \<open>A timer of half a second and another one, both with the same callback, and ticks of a quarter of a second.\<close>

definition two_timers :: "(nat \<times> nat) list fd_timer_singleton_t" where
  "two_timers = fd_timer_add_with_identifier 1 7 (fd_timer_add_with_identifier 0 7 (fd_timer_initialize
     \<lparr>ts_memory = \<lambda>a. \<lparr>tm_context = a, tm_callback = 0, tm_countdown = 0, tm_active = False, tm_triggered = False\<rparr>,
      ts_timers = [], ts_timestamp = 0, ts_log = [], ts_world = []\<rparr>))"

lemma fd_timer_fires_once_witness:
  "\<exists>s'. steps (fd_timer_update note_call) [2 ^ 147, 2 ^ 147, 2 ^ 147] (fd_timer_start 0 (2 ^ 148) two_timers) = Some s' \<and>
    \<not> tm_active (ts_memory s' 0) \<and> count_list (ts_world s') (7, 0) = 1"
proof -
  have a: "timer_alone 0 (7, 0) two_timers" "ts_world two_timers = []"
    by (simp_all add: timer_alone_def two_timers_def fd_timer_add_with_identifier_def fd_timer_initialize_def timer_call_def fd_timer_limit_def)
  show ?thesis using fd_timer_fires_once[OF a(1), of "2 ^ 148" 2 147 "[2 ^ 147, 2 ^ 147, 2 ^ 147]"] by (simp add: a(2))
qed

lemma fd_timer_timestamp_stops_witness:
  "\<exists>s'. steps (fd_timer_update note_call) [tick, tick] two_timers = Some s' \<and> fd_timer_get_timestamp s' \<le> 2 ^ 19 * 2 ^ 149"
  using fd_timer_timestamp_stops[of two_timers 2]
  by (simp add: two_timers_def fd_timer_add_with_identifier_def fd_timer_initialize_def fd_timer_limit_def numeral_2_eq_2)

end
