(* ===== verification/FD_Event.thy ===== *)
theory FD_Event imports FD_Prelude begin

text \<open>
  \<open>subsys/base/src/fd_event.c\<close>: events that are set from anywhere, also from interrupts, and delivered to their consumers by the
  main loop.

  A callback is the parameter \<open>run\<close>, applied to the function, the identifier of the event and the whole state: it may set
  events and call the module again, and so may interrupts that come while it runs. \<open>'w\<close> is the state of the application.
  The variant that waits for an interrupt (\<open>FD_EVENT_WAIT\<close>) is not compiled in and left out.
\<close>

record fd_event_item_t =
  ei_name :: string
  ei_identifier :: nat
  ei_is_set :: bool

record fd_event_consumer_t =
  ec_identifier :: nat
  ec_callback :: nat

record 'w fd_event_t =
  ev_items :: "fd_event_item_t list"
  ev_item_count :: nat
  ev_consumers :: "fd_event_consumer_t list"
  ev_log :: assert_log
  ev_world :: 'w

definition fd_event_item_limit :: nat where
  "fd_event_item_limit = 32"

definition fd_event_consumer_limit :: nat where
  "fd_event_consumer_limit = 32"

definition fd_event_initialize :: "'w fd_event_t \<Rightarrow> 'w fd_event_t" where
  "fd_event_initialize s =
     s\<lparr>ev_items := replicate fd_event_item_limit \<lparr>ei_name = '''', ei_identifier = 0, ei_is_set = False\<rparr>, ev_item_count := 0, ev_consumers := []\<rparr>"

text \<open>A new item takes the flag over that is in its place.\<close>

definition fd_event_get_identifier :: "string \<Rightarrow> 'w fd_event_t \<Rightarrow> (nat \<times> 'w fd_event_t) option" where
  "fd_event_get_identifier name s =
     (case find (\<lambda>item. name = ei_name item) (take (ev_item_count s) (ev_items s)) of
        Some item \<Rightarrow> Some (ei_identifier item, s)
      | None \<Rightarrow> do {
          let s = s\<lparr>ev_log := fd_assert (ev_item_count s < fd_event_item_limit) ''fd_event.item_count < fd_event_item_limit'' (ev_log s)\<rparr>;
          item \<leftarrow> rd (ev_items s) (ev_item_count s);
          items \<leftarrow> wr (ev_items s) (ev_item_count s) (item\<lparr>ei_name := name, ei_identifier := ev_item_count s\<rparr>);
          Some (ev_item_count s, s\<lparr>ev_items := items, ev_item_count := ev_item_count s + 1\<rparr>)
        })"

definition fd_event_add_callback :: "nat \<Rightarrow> nat \<Rightarrow> 'w fd_event_t \<Rightarrow> 'w fd_event_t option" where
  "fd_event_add_callback identifier callback s =
     (let s = s\<lparr>ev_log := fd_assert (length (ev_consumers s) < fd_event_consumer_limit) ''fd_event.consumer_count < fd_event_consumer_limit''
                (fd_assert (identifier < ev_item_count s) ''identifier < fd_event.item_count'' (ev_log s))\<rparr> in
      if fd_event_consumer_limit \<le> length (ev_consumers s) then None
      else Some (s\<lparr>ev_consumers := ev_consumers s @ [\<lparr>ec_identifier = identifier, ec_callback = callback\<rparr>]\<rparr>))"

definition fd_event_set :: "nat \<Rightarrow> 'w fd_event_t \<Rightarrow> 'w fd_event_t option" where
  "fd_event_set identifier s =
     do {
       let s = s\<lparr>ev_log := fd_assert (identifier < ev_item_count s) ''identifier < fd_event.item_count'' (ev_log s)\<rparr>;
       item \<leftarrow> rd (ev_items s) identifier;
       items \<leftarrow> wr (ev_items s) identifier (item\<lparr>ei_is_set := True\<rparr>);
       Some (s\<lparr>ev_items := items\<rparr>)
     }"

definition fd_event_set_from_interrupt :: "nat \<Rightarrow> 'w fd_event_t \<Rightarrow> 'w fd_event_t option" where
  "fd_event_set_from_interrupt = fd_event_set"

text \<open>With interrupts disabled the flags are read and cleared. \<open>is_set\<close> has a value for the items there are, and none after them.\<close>

definition event_snapshot :: "'w fd_event_t \<Rightarrow> bool list \<times> 'w fd_event_t" where
  "event_snapshot s =
     (map ei_is_set (take (ev_item_count s) (ev_items s)),
      s\<lparr>ev_items := map (\<lambda>item. item\<lparr>ei_is_set := False\<rparr>) (take (ev_item_count s) (ev_items s)) @ drop (ev_item_count s) (ev_items s)\<rparr>)"

text \<open>The list of consumers is read anew in every round: a callback may add one.\<close>

function event_consumer_loop ::
  "(nat \<Rightarrow> nat \<Rightarrow> 'w fd_event_t \<Rightarrow> 'w fd_event_t option) \<Rightarrow> bool list \<Rightarrow> nat \<Rightarrow> 'w fd_event_t \<Rightarrow> 'w fd_event_t option" where
  "event_consumer_loop run is_set i s =
     (if length (ev_consumers s) \<le> i then Some s
      else if fd_event_consumer_limit \<le> i then None
      else let consumer = ev_consumers s ! i; identifier = ec_identifier consumer in do {
        set \<leftarrow> rd is_set identifier;
        s \<leftarrow> (if set then run (ec_callback consumer) identifier s else Some s);
        event_consumer_loop run is_set (Suc i) s
      })"
  by pat_completeness auto
termination by (relation "measure (\<lambda>(run, is_set, i, s). fd_event_consumer_limit - i)") auto

declare event_consumer_loop.simps [simp del]

definition fd_event_process :: "(nat \<Rightarrow> nat \<Rightarrow> 'w fd_event_t \<Rightarrow> 'w fd_event_t option) \<Rightarrow> 'w fd_event_t \<Rightarrow> 'w fd_event_t option" where
  "fd_event_process run s =
     (case event_snapshot s of (is_set, s) \<Rightarrow> if True \<in> set is_set then event_consumer_loop run is_set 0 s else Some s)"

section \<open>Identifiers\<close>

text \<open>The state is in order: the arrays have their sizes, an item has its index as its identifier, the names differ, and the
  consumers wait for events there are.\<close>

definition event_ok :: "'w fd_event_t \<Rightarrow> bool" where
  "event_ok s \<longleftrightarrow> length (ev_items s) = fd_event_item_limit \<and> ev_item_count s \<le> fd_event_item_limit \<and>
     (\<forall>i<ev_item_count s. ei_identifier (ev_items s ! i) = i) \<and> distinct (map ei_name (take (ev_item_count s) (ev_items s))) \<and>
     length (ev_consumers s) \<le> fd_event_consumer_limit \<and> (\<forall>c\<in>set (ev_consumers s). ec_identifier c < ev_item_count s)"

lemma event_ok_initialize: "event_ok (fd_event_initialize s)"
  by (simp add: event_ok_def fd_event_initialize_def)

lemma event_ok_set:
  assumes "event_ok s" "identifier < ev_item_count s"
  obtains s' where "fd_event_set identifier s = Some s'" "event_ok s'" "ev_log s' = ev_log s" "ev_item_count s' = ev_item_count s"
    "ev_consumers s' = ev_consumers s" "\<And>i. i < ev_item_count s \<Longrightarrow> ei_is_set (ev_items s' ! i) \<longleftrightarrow> i = identifier \<or> ei_is_set (ev_items s ! i)"
proof -
  note ok = assms(1)[unfolded event_ok_def]
  define items where "items = (ev_items s)[identifier := (ev_items s ! identifier)\<lparr>ei_is_set := True\<rparr>]"
  have len: "length items = length (ev_items s)" by (simp add: items_def)
  have nth: "items ! i = (if i = identifier then (ev_items s ! i)\<lparr>ei_is_set := True\<rparr> else ev_items s ! i)" if "i < ev_item_count s" for i
    using that ok by (auto simp: items_def nth_list_update)
  have "map ei_name (take (ev_item_count s) items) = map ei_name (take (ev_item_count s) (ev_items s))"
    by (rule nth_equalityI) (use ok in \<open>auto simp: nth len\<close>)
  then have "event_ok (s\<lparr>ev_items := items\<rparr>)" using ok by (auto simp: event_ok_def nth len)
  moreover have "fd_event_set identifier s = Some (s\<lparr>ev_items := items\<rparr>)"
    using assms ok by (simp add: fd_event_set_def rd_def wr_def items_def fd_assert_holds)
  ultimately show ?thesis using nth by (intro that[of "s\<lparr>ev_items := items\<rparr>"]) auto
qed

text \<open>A name always gets the same identifier, and no two names the same one.\<close>

lemma fd_event_get_identifier_names:
  assumes "event_ok s" "ev_item_count s < fd_event_item_limit"
  obtains i s' where "fd_event_get_identifier name s = Some (i, s')" "event_ok s'" "i < ev_item_count s'" "ei_name (ev_items s' ! i) = name"
    "ev_item_count s \<le> ev_item_count s'" "\<And>j. j < ev_item_count s \<Longrightarrow> ei_name (ev_items s' ! j) = ei_name (ev_items s ! j)" "ev_log s' = ev_log s"
proof (cases "find (\<lambda>item. name = ei_name item) (take (ev_item_count s) (ev_items s))")
  case (Some item)
  then obtain i where i: "i < ev_item_count s" "item = ev_items s ! i" "ei_name item = name"
    by (auto simp: find_Some_iff)
  then have "ei_identifier item = i" using assms(1) by (simp add: event_ok_def)
  then show ?thesis using Some i assms(1) by (intro that[of i s]) (auto simp: fd_event_get_identifier_def)
next
  case None
  note ok = assms(1)[unfolded event_ok_def]
  define n where "n = ev_item_count s"
  have new: "name \<notin> set (map ei_name (take n (ev_items s)))" using None by (auto simp: find_None_iff n_def)
  define items where "items = (ev_items s)[n := (ev_items s ! n)\<lparr>ei_name := name, ei_identifier := n\<rparr>]"
  have t: "take (Suc n) items = take n (ev_items s) @ [(ev_items s ! n)\<lparr>ei_name := name, ei_identifier := n\<rparr>]"
    using ok assms(2) by (simp add: items_def n_def take_Suc_conv_app_nth)
  have nth: "items ! j = (if j = n then (ev_items s ! n)\<lparr>ei_name := name, ei_identifier := n\<rparr> else ev_items s ! j)" if "j \<le> n" for j
    using that ok assms(2) by (simp add: items_def n_def nth_list_update)
  have "event_ok (s\<lparr>ev_items := items, ev_item_count := Suc n\<rparr>)"
    using ok assms(2) new by (auto simp: event_ok_def t nth less_Suc_eq_le n_def[symmetric]) (auto simp: items_def n_def)
  then show ?thesis
    using None ok assms(2) nth
    by (intro that[of n "s\<lparr>ev_items := items, ev_item_count := Suc n\<rparr>"])
       (auto simp: fd_event_get_identifier_def rd_def wr_def fd_assert_holds items_def n_def)
qed

section \<open>Delivery\<close>

text \<open>The calls to a list of consumers.\<close>

primrec event_calls ::
  "(nat \<Rightarrow> nat \<Rightarrow> 'w fd_event_t \<Rightarrow> 'w fd_event_t option) \<Rightarrow> fd_event_consumer_t list \<Rightarrow> 'w fd_event_t \<Rightarrow> 'w fd_event_t option" where
  "event_calls run [] s = Some s"
| "event_calls run (c # cs) s = do { s \<leftarrow> run (ec_callback c) (ec_identifier c) s; event_calls run cs s }"

lemma event_consumer_loop_calls:
  assumes "\<And>f e s s'. run f e s = Some s' \<Longrightarrow> ev_consumers s' = ev_consumers s"
    and "length (ev_consumers s) \<le> fd_event_consumer_limit" "\<forall>c\<in>set (ev_consumers s). ec_identifier c < length is_set" "i \<le> length (ev_consumers s)"
  shows "event_consumer_loop run is_set i s = event_calls run (filter (\<lambda>c. is_set ! ec_identifier c) (drop i (ev_consumers s))) s"
  using assms(2-)
proof (induction "length (ev_consumers s) - i" arbitrary: i s)
  case 0
  then show ?case by (subst event_consumer_loop.simps) simp
next
  case (Suc n)
  then have i: "i < length (ev_consumers s)" by simp
  have d: "drop i (ev_consumers s) = ev_consumers s ! i # drop (Suc i) (ev_consumers s)" using i by (simp add: Cons_nth_drop_Suc)
  have r: "rd is_set (ec_identifier (ev_consumers s ! i)) = Some (is_set ! ec_identifier (ev_consumers s ! i))"
    using Suc.prems(2) i by (simp add: rd_def)
  have IH: "event_consumer_loop run is_set (Suc i) s' = event_calls run (filter (\<lambda>c. is_set ! ec_identifier c) (drop (Suc i) (ev_consumers s))) s'"
    if "ev_consumers s' = ev_consumers s" for s'
    using Suc.hyps(1)[of s' "Suc i"] Suc.hyps(2) Suc.prems i that by simp
  show ?case
    using i Suc.prems(1) r IH assms(1)
    by (subst event_consumer_loop.simps) (auto simp: d Let_def intro!: Option.bind_cong)
qed

text \<open>The main loop delivers an event that is set to every consumer that waits for it, in the order in which they were added, once;
  it clears exactly the flags it has read before the first callback runs, so an event that a callback or an interrupt sets
  meanwhile is not lost and not delivered twice: it is set when the call returns.\<close>

theorem fd_event_process_delivers:
  assumes "event_ok s" and "\<forall>f e s s'. run f e s = Some s' \<longrightarrow> ev_consumers s' = ev_consumers s"
  shows "\<exists>s0. fd_event_process run s = event_calls run (filter (\<lambda>c. ei_is_set (ev_items s ! ec_identifier c)) (ev_consumers s)) s0 \<and>
    event_ok s0 \<and> ev_world s0 = ev_world s \<and> ev_log s0 = ev_log s \<and> ev_consumers s0 = ev_consumers s \<and> ev_item_count s0 = ev_item_count s \<and>
    (\<forall>i<ev_item_count s. ev_items s0 ! i = (ev_items s ! i)\<lparr>ei_is_set := False\<rparr>)"
proof -
  note ok = assms(1)[unfolded event_ok_def]
  define n where "n = ev_item_count s"
  define is_set where "is_set = fst (event_snapshot s)"
  define s0 where "s0 = snd (event_snapshot s)"
  have is_set: "is_set = map ei_is_set (take n (ev_items s))" and s0: "s0 = s\<lparr>ev_items := map (\<lambda>item. item\<lparr>ei_is_set := False\<rparr>) (take n (ev_items s)) @ drop n (ev_items s)\<rparr>"
    by (simp_all add: is_set_def s0_def event_snapshot_def n_def)
  have len: "length is_set = n" using ok by (simp add: is_set n_def)
  have nth: "\<forall>i<n. is_set ! i = ei_is_set (ev_items s ! i)" "\<forall>i<n. ev_items s0 ! i = (ev_items s ! i)\<lparr>ei_is_set := False\<rparr>"
    using ok by (auto simp: is_set s0 n_def nth_append)
  have names: "map ei_name (take n (ev_items s0)) = map ei_name (take n (ev_items s))" using ok by (simp add: s0 n_def)
  have sel: "ev_world s0 = ev_world s" "ev_log s0 = ev_log s" "ev_consumers s0 = ev_consumers s" "ev_item_count s0 = n" by (simp_all add: s0 n_def)
  have "event_ok s0"
    using ok nth(2) names sel by (simp add: event_ok_def n_def[symmetric]) (simp add: s0)
  have f: "filter (\<lambda>c. is_set ! ec_identifier c) (ev_consumers s) = filter (\<lambda>c. ei_is_set (ev_items s ! ec_identifier c)) (ev_consumers s)"
    using ok nth(1) by (intro filter_cong) (auto simp: n_def)
  have p: "fd_event_process run s = (if True \<in> set is_set then event_consumer_loop run is_set 0 s0 else Some s0)"
    by (simp add: fd_event_process_def is_set_def s0_def split: prod.split)
  have "fd_event_process run s = event_calls run (filter (\<lambda>c. ei_is_set (ev_items s ! ec_identifier c)) (ev_consumers s)) s0"
  proof (cases "True \<in> set is_set")
    case True
    then show ?thesis using p event_consumer_loop_calls[where run = run and s = s0 and is_set = is_set and i = 0, OF assms(2)[rule_format]] ok len sel f by (simp add: n_def)
  next
    case False
    then have "filter (\<lambda>c. is_set ! ec_identifier c) (ev_consumers s) = []" using ok len by (auto simp: filter_empty_conv n_def) (metis nth_mem)
    then show ?thesis using p False f by simp
  qed
  then show ?thesis using \<open>event_ok s0\<close> sel nth(2) by (auto simp: n_def)
qed

text \<open>A callback that makes a new event and waits for it reads a flag that has no value, if an event was delivered.\<close>

lemma fd_event_process_new_event:
  assumes "event_ok s" "ev_consumers s = [\<lparr>ec_identifier = e, ec_callback = f\<rparr>]" "ei_is_set (ev_items s ! e)"
    and "\<And>s. run f e s = do { (i, s) \<leftarrow> fd_event_get_identifier name s; fd_event_add_callback i g s }"
    and "name \<notin> set (map ei_name (take (ev_item_count s) (ev_items s)))"
  shows "fd_event_process run s = None"
proof -
  note ok = assms(1)[unfolded event_ok_def]
  obtain is_set s0 where snap: "event_snapshot s = (is_set, s0)" by (cases "event_snapshot s")
  have e: "e < ev_item_count s" using ok assms(2) by simp
  have is_set: "is_set = map ei_is_set (take (ev_item_count s) (ev_items s))" and s0: "ev_item_count s0 = ev_item_count s" "ev_consumers s0 = ev_consumers s"
    and names: "map ei_name (take (ev_item_count s) (ev_items s0)) = map ei_name (take (ev_item_count s) (ev_items s))"
    using snap ok by (auto simp: event_snapshot_def)
  have set: "length is_set = ev_item_count s" "is_set ! e" using ok e assms(3) by (simp_all add: is_set)
  then have "True \<in> set is_set" using e by (metis nth_mem)
  moreover have "event_consumer_loop run is_set 0 s0 = None"
  proof (cases "run f e s0")
    case None
    then show ?thesis using set e assms(2) by (subst event_consumer_loop.simps) (simp add: s0 rd_def fd_event_consumer_limit_def)
  next
    case (Some s1)
    have "find (\<lambda>item. name = ei_name item) (take (ev_item_count s) (ev_items s0)) = None"
      using assms(5) unfolding names[symmetric] by (auto simp: find_None_iff)
    then have s1: "ev_consumers s1 = [\<lparr>ec_identifier = e, ec_callback = f\<rparr>, \<lparr>ec_identifier = ev_item_count s, ec_callback = g\<rparr>]"
      using Some assms(2,4) s0
      by (auto simp: fd_event_get_identifier_def fd_event_add_callback_def Let_def split: bind_splits if_splits)
    have "event_consumer_loop run is_set (Suc 0) s1 = None"
      using set(1) by (subst event_consumer_loop.simps) (simp add: s1 rd_def fd_event_consumer_limit_def)
    then show ?thesis using Some set e assms(2) by (subst event_consumer_loop.simps) (simp add: s0 rd_def fd_event_consumer_limit_def)
  qed
  ultimately show ?thesis by (simp add: fd_event_process_def snap)
qed

section \<open>Instances\<close>

text \<open>Two consumers of an event and one of another; the callback notes its call and sets the other event.\<close>

definition note_and_set :: "nat \<Rightarrow> nat \<Rightarrow> (nat \<times> nat) list fd_event_t \<Rightarrow> (nat \<times> nat) list fd_event_t option" where
  "note_and_set f e s = fd_event_set 1 (s\<lparr>ev_world := ev_world s @ [(f, e)]\<rparr>)"

definition three_consumers :: "(nat \<times> nat) list fd_event_t option" where
  "three_consumers =
     do {
       let s = fd_event_initialize \<lparr>ev_items = [], ev_item_count = 0, ev_consumers = [], ev_log = [], ev_world = []\<rparr>;
       (a, s) \<leftarrow> fd_event_get_identifier ''button'' s;
       (b, s) \<leftarrow> fd_event_get_identifier ''timer'' s;
       s \<leftarrow> fd_event_add_callback a 5 s;
       s \<leftarrow> fd_event_add_callback b 6 s;
       s \<leftarrow> fd_event_add_callback a 7 s;
       fd_event_set_from_interrupt a s
     }"

lemma note_and_set_consumers: "note_and_set f e s = Some s' \<Longrightarrow> ev_consumers s' = ev_consumers s"
  by (auto simp: note_and_set_def fd_event_set_def Let_def split: bind_splits)

lemma fd_event_process_delivers_witness:
  "\<exists>s s0. three_consumers = Some s \<and> fd_event_process note_and_set s = event_calls note_and_set [\<lparr>ec_identifier = 0, ec_callback = 5\<rparr>, \<lparr>ec_identifier = 0, ec_callback = 7\<rparr>] s0 \<and>
    ev_world s0 = [] \<and> \<not> ei_is_set (ev_items s0 ! 0)"
proof -
  define s where "s = the three_consumers"
  have s: "three_consumers = Some s" "ev_item_count s = 2" "ev_world s = []" "ei_is_set (ev_items s ! 0)" "\<not> ei_is_set (ev_items s ! 1)"
    "ev_consumers s = [\<lparr>ec_identifier = 0, ec_callback = 5\<rparr>, \<lparr>ec_identifier = 1, ec_callback = 6\<rparr>, \<lparr>ec_identifier = 0, ec_callback = 7\<rparr>]"
    "length (ev_items s) = 32" "map ei_name (take 2 (ev_items s)) = [''button'', ''timer'']" "ei_identifier (ev_items s ! 0) = 0" "ei_identifier (ev_items s ! 1) = 1"
    unfolding s_def by code_simp+
  have "event_ok s" using s by (simp add: event_ok_def fd_event_item_limit_def fd_event_consumer_limit_def less_2_cases_iff)
  then obtain s0 where 1: "fd_event_process note_and_set s =
      event_calls note_and_set (filter (\<lambda>c. ei_is_set (ev_items s ! ec_identifier c)) (ev_consumers s)) s0"
    "ev_world s0 = ev_world s" "\<forall>i<ev_item_count s. ev_items s0 ! i = (ev_items s ! i)\<lparr>ei_is_set := False\<rparr>"
    using fd_event_process_delivers[where run = note_and_set and s = s] note_and_set_consumers by blast
  have 2: "filter (\<lambda>c. ei_is_set (ev_items s ! ec_identifier c)) (ev_consumers s) =
      [\<lparr>ec_identifier = 0, ec_callback = 5\<rparr>, \<lparr>ec_identifier = 0, ec_callback = 7\<rparr>]" using s by simp
  show ?thesis using s(1-3) 1 unfolding 2 by (intro exI[of _ s] exI[of _ s0]) simp
qed

end
