(* ===== verification/FD_Work.thy ===== *)
theory FD_Work imports FD_Countdown begin

text \<open>
  \<open>subsys/base/src/fd_work.c\<close>: queues of tasks that the main loop runs when their delay is over.

  A task is a function with a context; running it is the parameter \<open>run\<close>, applied to the function, the context and the whole
  state, for a task may submit tasks; \<open>'w\<close> is the state of the application. The items of a queue are the first
  \<open>item_count\<close> elements of its array: those after them are zero, as initialization and clearing leave them.
\<close>

record fd_work_task_t =
  wt_function :: nat
  wt_context :: nat

record fd_work_queue_configuration_t =
  wc_name :: string
  wc_stack_size :: nat
  wc_priority :: int
  wc_task_limit :: nat

record fd_work_item_t =
  wi_task :: fd_work_task_t
  wi_is_queued :: bool
  wi_delay :: real32

record fd_work_queue_impl_t =
  wq_configuration :: fd_work_queue_configuration_t
  wq_items :: "fd_work_item_t list"

record 'w fd_work_t =
  fw_queues :: "nat \<Rightarrow> fd_work_queue_impl_t"
  fw_queue_count :: nat
  fw_log :: assert_log
  fw_world :: 'w

datatype fd_work_queue_submit_result_t =
    fd_work_queue_submit_result_not_queued
  | fd_work_queue_submit_result_queued_already
  | fd_work_queue_submit_result_queued
  | fd_work_queue_submit_result_queued_while_running

datatype fd_work_queue_wait_result_t = fd_work_queue_wait_result_waited | fd_work_queue_wait_result_no_wait

type_synonym 'w work_run = "nat \<Rightarrow> nat \<Rightarrow> 'w fd_work_t \<Rightarrow> 'w fd_work_t option"

definition fd_work_queue_limit :: nat where
  "fd_work_queue_limit = 4"

definition fd_work_task_limit :: nat where
  "fd_work_task_limit = 8"

definition work_assert :: "bool \<Rightarrow> string \<Rightarrow> 'w fd_work_t \<Rightarrow> 'w fd_work_t" where
  "work_assert condition message s = s\<lparr>fw_log := fd_assert condition message (fw_log s)\<rparr>"

definition set_items :: "nat \<Rightarrow> fd_work_item_t list \<Rightarrow> 'w fd_work_t \<Rightarrow> 'w fd_work_t" where
  "set_items queue items s = s\<lparr>fw_queues := (fw_queues s)(queue := (fw_queues s queue)\<lparr>wq_items := items\<rparr>)\<rparr>"

definition queue_items :: "nat \<Rightarrow> 'w fd_work_t \<Rightarrow> fd_work_item_t list" where
  "queue_items queue s = wq_items (fw_queues s queue)"

definition fd_work_initialize :: "'w fd_work_t \<Rightarrow> 'w fd_work_t" where
  "fd_work_initialize s =
     s\<lparr>fw_queues := \<lambda>_. \<lparr>wq_configuration = \<lparr>wc_name = '''', wc_stack_size = 0, wc_priority = 0, wc_task_limit = 0\<rparr>, wq_items = []\<rparr>,
       fw_queue_count := 0\<rparr>"

text \<open>The identifier of the queue is returned, also that of a queue there is no room for.\<close>

definition fd_work_queue_initialize :: "fd_work_queue_configuration_t \<Rightarrow> 'w fd_work_t \<Rightarrow> nat \<times> 'w fd_work_t" where
  "fd_work_queue_initialize configuration s =
     (let queue = fw_queue_count s;
          s = work_assert (queue < fd_work_queue_limit) ''fd_work.queue_count < fd_work_queue_limit'' s in
      if fd_work_queue_limit \<le> queue then (queue, s)
      else let s = work_assert (wc_task_limit configuration \<le> fd_work_task_limit) ''configuration->task_limit <= fd_work_task_limit'' s in
        (queue, s\<lparr>fw_queue_count := queue + 1, fw_queues := (fw_queues s)(queue := (fw_queues s queue)\<lparr>wq_configuration := configuration\<rparr>)\<rparr>))"

definition fd_work_queue_clear :: "nat \<Rightarrow> 'w fd_work_t \<Rightarrow> 'w fd_work_t" where
  "fd_work_queue_clear queue s = (if fd_work_queue_limit \<le> queue then s else set_items queue [] s)"

fun fd_work_item_for_task :: "fd_work_item_t list \<Rightarrow> fd_work_task_t \<Rightarrow> nat option" where
  "fd_work_item_for_task [] task = None"
| "fd_work_item_for_task (item # items) task =
     (if wi_task item = task then Some 0 else map_option Suc (fd_work_item_for_task items task))"

definition queue_item :: "nat \<Rightarrow> real32 \<Rightarrow> nat \<Rightarrow> 'w fd_work_t \<Rightarrow> fd_work_queue_submit_result_t \<times> 'w fd_work_t" where
  "queue_item queue delay i s =
     (let items = queue_items queue s in
      if wi_is_queued (items ! i) then (fd_work_queue_submit_result_queued_already, s)
      else (fd_work_queue_submit_result_queued, set_items queue (items[i := (items ! i)\<lparr>wi_is_queued := True, wi_delay := delay\<rparr>]) s))"

definition fd_work_queue_submit_with_delay ::
  "nat \<Rightarrow> fd_work_task_t \<Rightarrow> real32 \<Rightarrow> 'w fd_work_t \<Rightarrow> fd_work_queue_submit_result_t \<times> 'w fd_work_t" where
  "fd_work_queue_submit_with_delay queue task delay s =
     (let s = work_assert (queue < fd_work_queue_limit) ''queue->identifier < fd_work_queue_limit'' s in
      if fd_work_queue_limit \<le> queue then (fd_work_queue_submit_result_queued, s)
      else case fd_work_item_for_task (queue_items queue s) task of
        Some i \<Rightarrow> queue_item queue delay i s
      | None \<Rightarrow>
          let items = queue_items queue s;
              s = work_assert (length items < fd_work_task_limit) ''impl->item_count < fd_work_task_limit'' s in
          if fd_work_task_limit \<le> length items then (fd_work_queue_submit_result_queued, s)
          else queue_item queue delay (length items) (set_items queue (items @ [\<lparr>wi_task = task, wi_is_queued = False, wi_delay = 0\<rparr>]) s))"

definition fd_work_queue_submit :: "nat \<Rightarrow> fd_work_task_t \<Rightarrow> 'w fd_work_t \<Rightarrow> fd_work_queue_submit_result_t \<times> 'w fd_work_t" where
  "fd_work_queue_submit queue task = fd_work_queue_submit_with_delay queue task 0"

definition take_item :: "nat \<Rightarrow> nat \<Rightarrow> 'w fd_work_t \<Rightarrow> 'w fd_work_t" where
  "take_item queue i s = set_items queue ((queue_items queue s)[i := (queue_items queue s ! i)\<lparr>wi_is_queued := False\<rparr>]) s"

definition fd_work_queue_cancel_task :: "nat \<Rightarrow> fd_work_task_t \<Rightarrow> 'w fd_work_t \<Rightarrow> fd_work_queue_wait_result_t \<times> 'w fd_work_t" where
  "fd_work_queue_cancel_task queue task s =
     (let s = work_assert (queue < fd_work_queue_limit) ''queue->identifier < fd_work_queue_limit'' s in
      if fd_work_queue_limit \<le> queue then (fd_work_queue_wait_result_waited, s)
      else (fd_work_queue_wait_result_waited,
        case fd_work_item_for_task (queue_items queue s) task of None \<Rightarrow> s | Some i \<Rightarrow> take_item queue i s))"

definition fd_work_queue_wait_for_task ::
  "'w work_run \<Rightarrow> nat \<Rightarrow> fd_work_task_t \<Rightarrow> 'w fd_work_t \<Rightarrow> (fd_work_queue_wait_result_t \<times> 'w fd_work_t) option" where
  "fd_work_queue_wait_for_task run queue task s =
     (let s = work_assert (queue < fd_work_queue_limit) ''queue->identifier < fd_work_queue_limit'' s in
      if fd_work_queue_limit \<le> queue then Some (fd_work_queue_wait_result_waited, s)
      else do {
        s \<leftarrow> (case fd_work_item_for_task (queue_items queue s) task of
               None \<Rightarrow> Some s
             | Some i \<Rightarrow> if wi_is_queued (queue_items queue s ! i) then run (wt_function task) (wt_context task) (take_item queue i s) else Some s);
        Some (fd_work_queue_wait_result_waited, s)
      })"

definition fd_work_queue_wait :: "nat \<Rightarrow> 'w fd_work_t \<Rightarrow> fd_work_queue_wait_result_t \<times> 'w fd_work_t" where
  "fd_work_queue_wait queue s = (fd_work_queue_wait_result_waited, s)"

text \<open>The items are read anew in every round: a task may submit tasks, or clear the queue.\<close>

function work_process_loop :: "'w work_run \<Rightarrow> nat \<Rightarrow> real32 \<Rightarrow> nat \<Rightarrow> bool \<Rightarrow> 'w fd_work_t \<Rightarrow> (bool \<times> 'w fd_work_t) option" where
  "work_process_loop run queue elapsed i any_work_left s =
     (let items = queue_items queue s in
      if length items \<le> i then Some (any_work_left, s)
      else if fd_work_task_limit \<le> i then None
      else let item = items ! i in
        if \<not> wi_is_queued item then work_process_loop run queue elapsed (Suc i) any_work_left s
        else let delay = float_sub (wi_delay item) elapsed;
                 s = set_items queue (items[i := item\<lparr>wi_delay := delay\<rparr>]) s in
          if delay \<le> 0 then do {
            s \<leftarrow> run (wt_function (wi_task item)) (wt_context (wi_task item)) (take_item queue i s);
            work_process_loop run queue elapsed (Suc i) any_work_left s
          }
          else work_process_loop run queue elapsed (Suc i) True s)"
  by pat_completeness auto
termination by (relation "measure (\<lambda>(run, queue, elapsed, i, any, s). fd_work_task_limit - i)") auto

declare work_process_loop.simps [simp del]

definition fd_work_queue_impl_process :: "'w work_run \<Rightarrow> nat \<Rightarrow> real32 \<Rightarrow> 'w fd_work_t \<Rightarrow> (bool \<times> 'w fd_work_t) option" where
  "fd_work_queue_impl_process run queue elapsed = work_process_loop run queue elapsed 0 False"

text \<open>A queue that is not there has work left: the constant that is returned, \<open>fd_work_queue_submit_result_queued\<close>, is not zero.\<close>

definition fd_work_queue_process :: "'w work_run \<Rightarrow> nat \<Rightarrow> real32 \<Rightarrow> 'w fd_work_t \<Rightarrow> (bool \<times> 'w fd_work_t) option" where
  "fd_work_queue_process run queue elapsed s =
     (let s = work_assert (queue < fd_work_queue_limit) ''queue->identifier < fd_work_queue_limit'' s in
      if fd_work_queue_limit \<le> queue then Some (True, s) else fd_work_queue_impl_process run queue elapsed s)"

function work_process_all_loop :: "'w work_run \<Rightarrow> real32 \<Rightarrow> nat \<Rightarrow> bool \<Rightarrow> 'w fd_work_t \<Rightarrow> (bool \<times> 'w fd_work_t) option" where
  "work_process_all_loop run elapsed queue any_work_left s =
     (if fw_queue_count s \<le> queue then Some (any_work_left, s)
      else if fd_work_queue_limit \<le> queue then None
      else do {
        (left, s) \<leftarrow> fd_work_queue_impl_process run queue elapsed s;
        work_process_all_loop run elapsed (Suc queue) (if left then True else any_work_left) s
      })"
  by pat_completeness auto
termination by (relation "measure (\<lambda>(run, elapsed, queue, any, s). fd_work_queue_limit - queue)") auto

declare work_process_all_loop.simps [simp del]

definition fd_work_queue_process_all :: "'w work_run \<Rightarrow> real32 \<Rightarrow> 'w fd_work_t \<Rightarrow> (bool \<times> 'w fd_work_t) option" where
  "fd_work_queue_process_all run elapsed = work_process_all_loop run elapsed 0 False"

section \<open>One call\<close>

lemma set_items_simps [simp]:
  "queue_items q (set_items q items s) = items" "set_items q a (set_items q b s) = set_items q a s"
  "fw_world (set_items q items s) = fw_world s" "fw_log (set_items q items s) = fw_log s"
  "set_items q (queue_items q s) s = s" "queue_items q (s\<lparr>fw_world := w\<rparr>) = queue_items q s"
  "set_items q items (s\<lparr>fw_world := w\<rparr>) = (set_items q items s)\<lparr>fw_world := w\<rparr>"
  by (simp_all add: set_items_def queue_items_def)

lemma work_assert_holds [simp]: "c \<Longrightarrow> work_assert c message s = s"
  by (simp add: work_assert_def fd_assert_holds)

text \<open>Tasks that note that they run, and leave the queues alone.\<close>

definition note_task :: "(nat \<times> nat) list work_run" where
  "note_task f c s = Some (s\<lparr>fw_world := fw_world s @ [(f, c)]\<rparr>)"

definition task_call :: "fd_work_task_t \<Rightarrow> nat \<times> nat" where
  "task_call task = (wt_function task, wt_context task)"

definition item_due :: "real32 \<Rightarrow> fd_work_item_t \<Rightarrow> bool" where
  "item_due e item \<longleftrightarrow> wi_is_queued item \<and> wi_delay item \<le> e"

definition process_item :: "real32 \<Rightarrow> fd_work_item_t \<Rightarrow> fd_work_item_t" where
  "process_item e item =
     (if \<not> wi_is_queued item then item
      else item\<lparr>wi_delay := float_sub (wi_delay item) e, wi_is_queued := \<not> wi_delay item \<le> e\<rparr>)"

lemma work_process_loop_notes:
  assumes "queue_items q s = xs @ ys" "length (xs @ ys) \<le> fd_work_task_limit"
  shows "work_process_loop note_task q e (length xs) any s = Some (any \<or> (\<exists>item\<in>set ys. wi_is_queued (process_item e item)),
    (set_items q (xs @ map (process_item e) ys) s)\<lparr>fw_world := fw_world s @ map (task_call \<circ> wi_task) (filter (item_due e) ys)\<rparr>)"
  using assms
proof (induction ys arbitrary: xs any s)
  case Nil
  then have "queue_items q s = xs" by simp
  then show ?case using set_items_simps(5)[of q s] by (subst work_process_loop.simps) simp
next
  case (Cons item ys)
  define s1 where "s1 = (set_items q ((xs @ [process_item e item]) @ ys) s)\<lparr>
    fw_world := fw_world s @ (if item_due e item then [task_call (wi_task item)] else [])\<rparr>"
  have same: "set_items q (xs @ item # ys) s = s" using set_items_simps(5)[of q s] Cons.prems(1) by simp
  have world: "(set_items q items s)\<lparr>fw_world := fw_world s\<rparr> = set_items q items s" for items by (simp add: set_items_def)
  have queued: "item\<lparr>wi_delay := d, wi_is_queued := True\<rparr> = item\<lparr>wi_delay := d\<rparr>" if "wi_is_queued item" for d
    using that by (cases item) simp
  have 1: "work_process_loop note_task q e (length xs) any s =
      work_process_loop note_task q e (length (xs @ [process_item e item])) (any \<or> wi_is_queued (process_item e item)) s1"
    using Cons.prems
    by (subst work_process_loop.simps)
       (auto simp: Let_def item_due_def process_item_def float_sub_pos note_task_def task_call_def take_item_def s1_def nth_append same world queued)
  have "queue_items q s1 = (xs @ [process_item e item]) @ ys" by (simp add: s1_def)
  from Cons.IH[OF this] Cons.prems(2) show ?case unfolding 1 by (simp add: s1_def disj_assoc)
qed

lemma fd_work_queue_process_notes:
  assumes "q < fd_work_queue_limit" "length (queue_items q s) \<le> fd_work_task_limit"
  shows "fd_work_queue_process note_task q e s = Some (\<exists>item\<in>set (queue_items q s). wi_is_queued (process_item e item),
    (set_items q (map (process_item e) (queue_items q s)) s)\<lparr>
      fw_world := fw_world s @ map (task_call \<circ> wi_task) (filter (item_due e) (queue_items q s))\<rparr>)"
  using work_process_loop_notes[of q s "[]" "queue_items q s" e False] assms
  by (simp add: fd_work_queue_process_def fd_work_queue_impl_process_def)

section \<open>Tasks\<close>

text \<open>A queue has an item for a task at most.\<close>

definition work_ok :: "nat \<Rightarrow> 'w fd_work_t \<Rightarrow> bool" where
  "work_ok q s \<longleftrightarrow> q < fd_work_queue_limit \<and> length (queue_items q s) \<le> fd_work_task_limit \<and> distinct (map wi_task (queue_items q s))"

text \<open>The delay that is left of a task that waits in a queue.\<close>

definition task_left :: "nat \<Rightarrow> fd_work_task_t \<Rightarrow> 'w fd_work_t \<Rightarrow> real32 option" where
  "task_left q task s = map_option wi_delay (find (\<lambda>item. wi_task item = task \<and> wi_is_queued item) (queue_items q s))"

definition task_known :: "nat \<Rightarrow> fd_work_task_t \<Rightarrow> 'w fd_work_t \<Rightarrow> bool" where
  "task_known q task s \<longleftrightarrow> task \<in> wi_task ` set (queue_items q s)"

lemma process_item_task [simp]: "wi_task (process_item e item) = wi_task item"
  by (simp add: process_item_def)

lemma process_items:
  fixes task :: fd_work_task_t
  assumes "distinct (map wi_task items)"
  defines "waits \<equiv> find (\<lambda>item. wi_task item = task \<and> wi_is_queued item) items"
  shows "map_option wi_delay (find (\<lambda>item. wi_task item = task \<and> wi_is_queued item) (map (process_item e) items)) =
      (case waits of None \<Rightarrow> None | Some item \<Rightarrow> if wi_delay item \<le> e then None else Some (float_sub (wi_delay item) e))" (is ?left)
    and "count_list (map (task_call \<circ> wi_task) (filter (item_due e) items)) (task_call task) =
      (case waits of None \<Rightarrow> 0 | Some item \<Rightarrow> if wi_delay item \<le> e then 1 else 0)" (is ?calls)
proof -
  have c: "task_call a = task_call b \<longleftrightarrow> a = b" for a b by (cases a; cases b) (simp add: task_call_def)
  have "?left \<and> ?calls" using assms(1) unfolding waits_def
  proof (induction items)
    case (Cons item items)
    have "wi_task x \<noteq> wi_task item" if "x \<in> set items" for x using Cons.prems that by (metis distinct.simps(2) image_eqI list.set_map list.simps(9))
    then have n: "find (\<lambda>item. wi_task item = task \<and> wi_is_queued item) items = None"
      "find (\<lambda>item. wi_task item = task \<and> wi_is_queued item) (map (process_item e) items) = None"
      "task_call task \<notin> (task_call \<circ> wi_task) ` set (filter (item_due e) items)" if "wi_task item = task"
      using that by (auto simp: find_None_iff c) blast
    show ?case using Cons n
      by (cases "wi_task item = task") (auto simp: process_item_def item_due_def c count_list_0_iff)
  qed simp
  then show ?left ?calls by simp_all
qed

interpretation work_countdown: countdown "\<lambda>e s. map_option snd (fd_work_queue_process note_task q e s)" "task_left q task"
  "\<lambda>s. count_list (fw_world s) (task_call task)" "work_ok q" for q task
proof
  fix s :: "(nat \<times> nat) list fd_work_t" and e :: real32
  assume ok: "work_ok q s"
  define s' where "s' = (set_items q (map (process_item e) (queue_items q s)) s)\<lparr>
      fw_world := fw_world s @ map (task_call \<circ> wi_task) (filter (item_due e) (queue_items q s))\<rparr>"
  have "map_option snd (fd_work_queue_process note_task q e s) = Some s'"
    using fd_work_queue_process_notes[of q s e] ok by (simp add: work_ok_def s'_def)
  moreover have "work_ok q s'" using ok by (simp add: work_ok_def s'_def comp_def)
  moreover note process_items[where items = "queue_items q s" and task = task and e = e]
  ultimately show "\<exists>s'. map_option snd (fd_work_queue_process note_task q e s) = Some s' \<and> work_ok q s' \<and>
      (case task_left q task s of
         None \<Rightarrow> task_left q task s' = None \<and> count_list (fw_world s') (task_call task) = count_list (fw_world s) (task_call task)
       | Some d \<Rightarrow> if d \<le> e then task_left q task s' = None \<and> count_list (fw_world s') (task_call task) = Suc (count_list (fw_world s) (task_call task))
         else task_left q task s' = Some (float_sub d e) \<and> count_list (fw_world s') (task_call task) = count_list (fw_world s) (task_call task))"
    using ok by (auto simp: task_left_def work_ok_def s'_def split: option.splits)
qed

lemma item_for_task:
  "case fd_work_item_for_task items task of None \<Rightarrow> task \<notin> wi_task ` set items | Some i \<Rightarrow> i < length items \<and> wi_task (items ! i) = task"
  by (induction items) (auto split: option.splits)

lemma task_left_iff:
  assumes "work_ok q s"
  shows "task_left q task s = Some d \<longleftrightarrow> (\<exists>item\<in>set (queue_items q s). wi_task item = task \<and> wi_is_queued item \<and> wi_delay item = d)"
proof -
  have "map_option wi_delay (find (\<lambda>item. wi_task item = task \<and> wi_is_queued item) items) = Some d \<longleftrightarrow>
      (\<exists>item\<in>set items. wi_task item = task \<and> wi_is_queued item \<and> wi_delay item = d)" if "distinct (map wi_task items)" for items
    using that by (induction items) (auto simp: image_iff)
  from this[of "queue_items q s"] assms show ?thesis by (simp only: task_left_def work_ok_def)
qed

lemma find_snoc: "\<not> P x \<Longrightarrow> find P (xs @ [x]) = find P xs"
  by (induction xs) simp_all

lemma task_left_None:
  assumes "work_ok q s"
  shows "task_left q task s = None \<longleftrightarrow> (\<forall>item\<in>set (queue_items q s). wi_task item = task \<longrightarrow> \<not> wi_is_queued item)"
  using task_left_iff[OF assms, of task] by (metis not_None_eq)

text \<open>What a submission does to the tasks that wait: a task that waits already keeps its delay, another one gets the delay it is
  submitted with if it has an item or there is room for one, and the tasks besides it wait as before.\<close>

lemma queue_item_waits:
  assumes ok: "work_ok q s" and i: "i < length (queue_items q s)" "wi_task (queue_items q s ! i) = task" "\<not> wi_is_queued (queue_items q s ! i)"
  obtains s' where "queue_item q d i s = (fd_work_queue_submit_result_queued, s')" "work_ok q s'"
    "task_left q task s' = Some d" "\<And>t. t \<noteq> task \<Longrightarrow> task_left q t s' = task_left q t s" "fw_world s' = fw_world s" "fw_log s' = fw_log s"
proof -
  define new where "new = (queue_items q s ! i)\<lparr>wi_is_queued := True, wi_delay := d\<rparr>"
  define s' where "s' = set_items q ((queue_items q s)[i := new]) s"
  have t: "wi_task new = task" "wi_is_queued new" "wi_delay new = d" using i by (simp_all add: new_def)
  have "map wi_task ((queue_items q s)[i := new]) = map wi_task (queue_items q s)"
    using i(1,2) t by (simp add: map_update) (metis length_map list_update_id nth_map)
  then have ok': "work_ok q s'" using ok by (simp add: work_ok_def s'_def)
  have "set (queue_items q s') = insert new (set (queue_items q s) - {queue_items q s ! i})"
    using ok i(1) by (simp add: s'_def work_ok_def distinct_map set_update_distinct)
  then have members: "item \<in> set (queue_items q s') \<longleftrightarrow> item = new \<or> item \<in> set (queue_items q s) \<and> item \<noteq> queue_items q s ! i" for item
    by blast
  have "task_left q task s' = Some d" using members[of new] t by (auto simp: task_left_iff[OF ok'])
  moreover have "task_left q u s' = task_left q u s" if "u \<noteq> task" for u
  proof -
    have "task_left q u s' = Some e \<longleftrightarrow> task_left q u s = Some e" for e
      unfolding task_left_iff[OF ok'] task_left_iff[OF ok] using members t that i(2) by auto
    then show ?thesis by (metis not_None_eq)
  qed
  moreover have "queue_item q d i s = (fd_work_queue_submit_result_queued, s')" using i(3) by (simp add: queue_item_def s'_def new_def Let_def)
  ultimately show ?thesis using ok' by (intro that[of s']) (simp_all add: s'_def)
qed

lemma fd_work_queue_submit_again:
  assumes ok: "work_ok q s" and waits: "task_left q task s = Some e"
  shows "fd_work_queue_submit_with_delay q task d s = (fd_work_queue_submit_result_queued_already, s)"
proof -
  obtain item where item: "item \<in> set (queue_items q s)" "wi_task item = task" "wi_is_queued item"
    using waits task_left_iff[OF ok] by auto
  then obtain i where i: "fd_work_item_for_task (queue_items q s) task = Some i" "i < length (queue_items q s)" "wi_task (queue_items q s ! i) = task"
    using item_for_task[where items = "queue_items q s" and task = task] by (auto split: option.splits)
  then have "queue_items q s ! i = item" using ok item by (metis distinct_map inj_on_def nth_mem work_ok_def)
  then show ?thesis using i item ok by (simp add: fd_work_queue_submit_with_delay_def work_ok_def queue_item_def Let_def)
qed

lemma fd_work_queue_submit_waits:
  assumes ok: "work_ok q s" and room: "task_known q task s \<or> length (queue_items q s) < fd_work_task_limit" and idle: "task_left q task s = None"
  obtains s' where "fd_work_queue_submit_with_delay q task d s = (fd_work_queue_submit_result_queued, s')" "work_ok q s'"
    "task_left q task s' = Some d" "\<And>t. t \<noteq> task \<Longrightarrow> task_left q t s' = task_left q t s" "fw_world s' = fw_world s" "fw_log s' = fw_log s"
proof -
  note q = ok[unfolded work_ok_def, THEN conjunct1]
  show ?thesis
  proof (cases "fd_work_item_for_task (queue_items q s) task")
    case (Some i)
    then have i: "i < length (queue_items q s)" "wi_task (queue_items q s ! i) = task" using item_for_task[where items = "queue_items q s" and task = task] by simp_all
    then have "\<not> wi_is_queued (queue_items q s ! i)" using idle by (simp add: task_left_None[OF ok])
    from queue_item_waits[OF ok i this, of d] that show ?thesis using Some q by (auto simp: fd_work_queue_submit_with_delay_def)
  next
    case None
    then have new: "task \<notin> wi_task ` set (queue_items q s)" using item_for_task[where items = "queue_items q s" and task = task] by simp
    define s1 where "s1 = set_items q (queue_items q s @ [\<lparr>wi_task = task, wi_is_queued = False, wi_delay = 0\<rparr>]) s"
    have len: "length (queue_items q s) < fd_work_task_limit" using room new by (simp add: task_known_def)
    have ok1: "work_ok q s1" using ok new len by (simp add: work_ok_def s1_def)
    have "task_left q t s1 = task_left q t s" for t by (simp add: task_left_def s1_def find_snoc)
    with queue_item_waits[OF ok1, of "length (queue_items q s)" task d] that show ?thesis
      using None q len by (auto simp: fd_work_queue_submit_with_delay_def Let_def s1_def)
  qed
qed

section \<open>Properties\<close>

text \<open>A task that is submitted runs once, when the queue is processed and the time that has passed since reaches its delay, and
  never again until it is submitted again: whatever the steps of time are, in which the delay can be counted. Submitting it
  again while it waits is answered so and changes nothing, not even the delay.\<close>

theorem fd_work_task_runs_once:
  assumes ok: "work_ok q s" "task_known q task s \<or> length (queue_items q s) < fd_work_task_limit" "task_left q task s = None"
    and delay: "d = m * 2 ^ u" "0 \<le> m" "m < 2 ^ 24" "\<forall>e\<in>set es. 0 \<le> e \<and> 2 ^ u dvd e"
  shows "\<exists>s1 s2. fd_work_queue_submit_with_delay q task d s = (fd_work_queue_submit_result_queued, s1) \<and>
    fd_work_queue_submit_with_delay q task d' s1 = (fd_work_queue_submit_result_queued_already, s1) \<and>
    steps (\<lambda>e s. map_option snd (fd_work_queue_process note_task q e s)) es s1 = Some s2 \<and>
    (task_left q task s2 = None \<longleftrightarrow> es \<noteq> [] \<and> d \<le> sum_list es) \<and>
    count_list (fw_world s2) (task_call task) = count_list (fw_world s) (task_call task) + (if es \<noteq> [] \<and> d \<le> sum_list es then 1 else 0)"
proof -
  obtain s1 where s1: "fd_work_queue_submit_with_delay q task d s = (fd_work_queue_submit_result_queued, s1)" "work_ok q s1"
    "task_left q task s1 = Some d" "fw_world s1 = fw_world s" "fw_log s1 = fw_log s"
    by (rule fd_work_queue_submit_waits[OF ok, of d])
  then show ?thesis
    using work_countdown.fires_once[OF s1(2), of task m u es] fd_work_queue_submit_again[OF s1(2,3)] delay by auto
qed

text \<open>The items of a queue are never given back: when eight tasks have been submitted, a ninth one is refused although all of them
  have run and nothing waits. The caller is told that it is queued, and it never runs.\<close>

theorem fd_work_queue_full_of_finished:
  assumes ok: "work_ok q s" "length (queue_items q s) = fd_work_task_limit" "\<not> task_known q task s"
  shows "\<exists>s1. fd_work_queue_submit_with_delay q task d s = (fd_work_queue_submit_result_queued, s1) \<and> fw_log s1 \<noteq> fw_log s \<and>
    (\<exists>s2. steps (\<lambda>e s. map_option snd (fd_work_queue_process note_task q e s)) es s1 = Some s2 \<and>
      count_list (fw_world s2) (task_call task) = count_list (fw_world s) (task_call task))"
proof -
  have "fd_work_item_for_task (queue_items q s) task = None"
    using item_for_task[where items = "queue_items q s" and task = task] ok(3) by (auto simp: task_known_def split: option.splits)
  then obtain s1 where s1: "fd_work_queue_submit_with_delay q task d s = (fd_work_queue_submit_result_queued, s1)"
    "queue_items q s1 = queue_items q s" "fw_world s1 = fw_world s" "fw_log s1 \<noteq> fw_log s"
    using ok(1,2) by (simp add: fd_work_queue_submit_with_delay_def work_ok_def work_assert_def fd_assert_def queue_items_def Let_def)
  then have "work_ok q s1" "task_left q task s1 = None"
    using ok by (auto simp: work_ok_def task_left_def task_known_def find_None_iff)
  from work_countdown.stopped[OF this, of es] s1 show ?thesis by auto
qed

text \<open>A task that submits itself again is not counted as work that is left.\<close>

lemma fd_work_queue_process_resubmitted:
  assumes "queue_items q s = [\<lparr>wi_task = task, wi_is_queued = True, wi_delay = 0\<rparr>]" "q < fd_work_queue_limit"
    and "\<And>s. run (wt_function task) (wt_context task) s = Some (snd (fd_work_queue_submit_with_delay q task d s))"
  shows "\<exists>s'. fd_work_queue_process run q 0 s = Some (False, s') \<and> task_left q task s' = Some d"
  using assms
  by (simp add: fd_work_queue_process_def fd_work_queue_impl_process_def work_process_loop.simps[of run q _ 0] work_process_loop.simps[of run q _ "Suc 0"] float_sub_pos
      fd_work_queue_submit_with_delay_def queue_item_def take_item_def task_left_def fd_work_task_limit_def Let_def)

section \<open>Instances\<close>

definition one_queue :: "(nat \<times> nat) list fd_work_t" where
  "one_queue = snd (fd_work_queue_initialize \<lparr>wc_name = ''work'', wc_stack_size = 1024, wc_priority = 0, wc_task_limit = 8\<rparr>
     (fd_work_initialize \<lparr>fw_queues = undefined, fw_queue_count = 0, fw_log = [], fw_world = []\<rparr>))"

definition work_task :: "nat \<Rightarrow> fd_work_task_t" where
  "work_task i = \<lparr>wt_function = 9, wt_context = i\<rparr>"

text \<open>Eight tasks have been submitted and have run.\<close>

definition eight_tasks :: "(nat \<times> nat) list fd_work_t option" where
  "eight_tasks = map_option snd (fd_work_queue_process note_task 0 1 (fold (\<lambda>i s. snd (fd_work_queue_submit 0 (work_task i) s)) [0..<8] one_queue))"

lemma one_queue_items: "queue_items 0 one_queue = []" "fw_world one_queue = []"
  by (simp_all add: one_queue_def fd_work_queue_initialize_def fd_work_initialize_def queue_items_def fd_work_queue_limit_def fd_work_task_limit_def)

lemma fd_work_task_runs_once_witness:
  "\<exists>s1 s2. fd_work_queue_submit_with_delay 0 (work_task 3) (2 ^ 148) one_queue = (fd_work_queue_submit_result_queued, s1) \<and>
    steps (\<lambda>e s. map_option snd (fd_work_queue_process note_task 0 e s)) [2 ^ 147, 2 ^ 147, 2 ^ 147] s1 = Some s2 \<and>
    count_list (fw_world s2) (9, 3) = 1"
proof -
  have ok: "work_ok 0 one_queue" "length (queue_items 0 one_queue) < fd_work_task_limit" "task_left 0 (work_task 3) one_queue = None"
    by (simp_all add: work_ok_def one_queue_items task_left_def fd_work_queue_limit_def fd_work_task_limit_def)
  have c: "task_call (work_task 3) = (9, 3)" by (simp add: task_call_def work_task_def)
  show ?thesis
    using fd_work_task_runs_once[OF ok(1) disjI2[OF ok(2)] ok(3), of "2 ^ 148" 2 147 "[2 ^ 147, 2 ^ 147, 2 ^ 147]" 0]
    by (auto simp: c one_queue_items)
qed

lemma fd_work_queue_full_of_finished_witness:
  "\<exists>s s1. eight_tasks = Some s \<and> map wi_is_queued (queue_items 0 s) = replicate 8 False \<and>
    fd_work_queue_submit_with_delay 0 (work_task 8) 0 s = (fd_work_queue_submit_result_queued, s1) \<and>
    (\<exists>s2. steps (\<lambda>e s. map_option snd (fd_work_queue_process note_task 0 e s)) [2 ^ 149, 2 ^ 149] s1 = Some s2 \<and> count_list (fw_world s2) (9, 8) = 0)"
proof -
  define s where "s = the eight_tasks"
  have "\<not> Option.is_none eight_tasks" by code_simp
  then have s0: "eight_tasks = Some s" unfolding s_def by (metis is_none_simps(1) option.collapse)
  have s: "map wi_is_queued (queue_items 0 s) = replicate 8 False" "map wi_task (queue_items 0 s) = map work_task [0..<8]"
    "fw_world s = map (\<lambda>i. (9, i)) [0..<8]"
    unfolding s_def by code_simp+
  have l: "length (queue_items 0 s) = 8" using s(2) by (metis length_map length_upt diff_zero)
  have k: "wi_task ` set (queue_items 0 s) = work_task ` {0..<8}" using s(2) by (metis list.set_map set_upt)
  have ok: "work_ok 0 s" "length (queue_items 0 s) = fd_work_task_limit" "\<not> task_known 0 (work_task 8) s"
    using s(2) l k by (auto simp: work_ok_def task_known_def fd_work_queue_limit_def fd_work_task_limit_def work_task_def distinct_map inj_on_def)
  have "count_list (fw_world s) (task_call (work_task 8)) = 0" "task_call (work_task 8) = (9, 8)"
    using s(3) by (auto simp: task_call_def work_task_def count_list_0_iff)
  then show ?thesis
    using fd_work_queue_full_of_finished[OF ok, of 0 "[2 ^ 149, 2 ^ 149]"] s0 s(1) by - (rule exI[of _ s], auto)
qed

end
