(* ===== verification/FD_Animation.thy ===== *)
theory FD_Animation imports FD_Countdown begin

text \<open>
  \<open>subsys/base/src/fd_animation.c\<close>: players that go through the steps of a sequence in ticks of 25 ms.

  The functions of a step are the parameter \<open>run\<close>, applied to the call and the whole state, for they may start and stop
  animations; \<open>'w\<close> is the state of the application. Sequences are constants. The timer of the kernel, which submits
  \<open>fd_animation_work\<close> to a work queue, is \<open>an_timer\<close>: whether it runs.
\<close>

record fd_animation_step_t =
  as_duration :: real32
  as_context :: nat
  as_start :: "nat option"
  as_waypoint :: "nat option"
  as_stop :: "nat option"

datatype fd_animation_type_t = fd_animation_type_once | fd_animation_type_repeating

record fd_animation_sequence_t =
  aq_steps :: "fd_animation_step_t list"
  aq_context :: nat
  aq_finalize :: "nat option"
  aq_type :: fd_animation_type_t

text \<open>The macros that declare sequences. The type that is asked for is not used.\<close>

definition fd_animation_sequence_declare ::
  "fd_animation_type_t \<Rightarrow> nat option \<Rightarrow> fd_animation_step_t list \<Rightarrow> fd_animation_sequence_t" where
  "fd_animation_sequence_declare sequence_type finalize list =
     \<lparr>aq_steps = list, aq_context = 0, aq_finalize = finalize, aq_type = fd_animation_type_once\<rparr>"

definition fd_animation_once_declare :: "nat option \<Rightarrow> fd_animation_step_t list \<Rightarrow> fd_animation_sequence_t" where
  "fd_animation_once_declare = fd_animation_sequence_declare fd_animation_type_once"

definition fd_animation_repeating_declare :: "nat option \<Rightarrow> fd_animation_step_t list \<Rightarrow> fd_animation_sequence_t" where
  "fd_animation_repeating_declare = fd_animation_sequence_declare fd_animation_type_repeating"

record fd_animation_player_t =
  pl_sequence :: "fd_animation_sequence_t option"
  pl_step :: nat
  pl_elapsed :: real32
  pl_stop :: bool
  pl_cancel :: bool
  pl_next :: "fd_animation_sequence_t option"

record 'w fd_animation_t =
  an_memory :: "nat \<Rightarrow> fd_animation_player_t"
  an_players :: "nat list"
  an_active :: bool
  an_timer :: bool
  an_log :: assert_log
  an_world :: 'w

datatype animation_call = call_start nat nat | call_waypoint nat nat real32 | call_stop nat nat | call_finalize nat nat

type_synonym 'w animation_run = "animation_call \<Rightarrow> 'w fd_animation_t \<Rightarrow> 'w fd_animation_t option"

definition animation_player_limit :: nat where
  "animation_player_limit = 4"

definition run_if :: "'w animation_run \<Rightarrow> (nat \<Rightarrow> animation_call) \<Rightarrow> nat option \<Rightarrow> 'w fd_animation_t \<Rightarrow> 'w fd_animation_t option" where
  "run_if run call f s = (case f of None \<Rightarrow> Some s | Some f \<Rightarrow> run (call f) s)"

definition modify_player :: "nat \<Rightarrow> (fd_animation_player_t \<Rightarrow> fd_animation_player_t) \<Rightarrow> 'w fd_animation_t \<Rightarrow> 'w fd_animation_t" where
  "modify_player p f s = s\<lparr>an_memory := (an_memory s)(p := f (an_memory s p))\<rparr>"

text \<open>The tick, 0.025f seconds.\<close>

definition animation_tick :: real32 where
  "animation_tick = float_ratio 25 1000"

definition start_step :: "'w animation_run \<Rightarrow> nat \<Rightarrow> fd_animation_sequence_t \<Rightarrow> 'w fd_animation_t \<Rightarrow> 'w fd_animation_t option" where
  "start_step run p q s =
     do { step \<leftarrow> rd (aq_steps q) (pl_step (an_memory s p)); run_if run (\<lambda>f. call_start f (as_context step)) (as_start step) s }"

text \<open>The end of the last step: the sequence is over, or it starts again. The type is read through the player, whose sequence the
  function that stops the step may have changed.\<close>

definition end_sequence :: "'w animation_run \<Rightarrow> nat \<Rightarrow> fd_animation_sequence_t \<Rightarrow> 'w fd_animation_t \<Rightarrow> 'w fd_animation_t option" where
  "end_sequence run p q s =
     do {
       let s = modify_player p (\<lambda>pl. pl\<lparr>pl_step := 0\<rparr>) s;
       current \<leftarrow> pl_sequence (an_memory s p);
       if aq_type current = fd_animation_type_once \<or> pl_stop (an_memory s p) then do {
         s \<leftarrow> run_if run (\<lambda>f. call_finalize f (aq_context q)) (aq_finalize q)
                (modify_player p (\<lambda>pl. pl\<lparr>pl_sequence := None, pl_stop := False, pl_cancel := False\<rparr>) s);
         case pl_next (an_memory s p) of
           None \<Rightarrow> Some s
         | Some q \<Rightarrow> start_step run p q (modify_player p (\<lambda>pl. pl\<lparr>pl_next := None, pl_sequence := Some q\<rparr>) s)
       }
       else start_step run p q s
     }"

definition fd_animation_player_tick :: "'w animation_run \<Rightarrow> nat \<Rightarrow> 'w fd_animation_t \<Rightarrow> 'w fd_animation_t option" where
  "fd_animation_player_tick run p s =
     (case pl_sequence (an_memory s p) of
        None \<Rightarrow> Some s
      | Some q \<Rightarrow> do {
          let s = modify_player p (\<lambda>pl. pl\<lparr>pl_elapsed := float_add (pl_elapsed pl) animation_tick\<rparr>) s;
          step \<leftarrow> rd (aq_steps q) (pl_step (an_memory s p));
          let elapsed = pl_elapsed (an_memory s p);
          if elapsed < as_duration step \<and> \<not> pl_cancel (an_memory s p)
          then run_if run (\<lambda>f. call_waypoint f (as_context step) (float_div elapsed (as_duration step))) (as_waypoint step) s
          else do {
            s \<leftarrow> run_if run (\<lambda>f. call_stop f (as_context step)) (as_stop step) s;
            let s = modify_player p (\<lambda>pl. pl\<lparr>pl_elapsed := 0, pl_step := pl_step pl + 1\<rparr>) s;
            if length (aq_steps q) \<le> pl_step (an_memory s p) then end_sequence run p q s else start_step run p q s
          }
        })"

function animation_work_loop :: "'w animation_run \<Rightarrow> nat \<Rightarrow> 'w fd_animation_t \<Rightarrow> 'w fd_animation_t option" where
  "animation_work_loop run i s =
     (if length (an_players s) \<le> i then Some s
      else if animation_player_limit \<le> i then None
      else do { s \<leftarrow> fd_animation_player_tick run (an_players s ! i) s; animation_work_loop run (Suc i) s })"
  by pat_completeness auto
termination by (relation "measure (\<lambda>(run, i, s). animation_player_limit - i)") auto

declare animation_work_loop.simps [simp del]

definition fd_animation_work :: "'w animation_run \<Rightarrow> 'w fd_animation_t \<Rightarrow> 'w fd_animation_t option" where
  "fd_animation_work run s =
     do {
       s \<leftarrow> animation_work_loop run 0 s;
       if \<exists>p\<in>set (an_players s). pl_sequence (an_memory s p) \<noteq> None then Some s
       else Some (s\<lparr>an_timer := False, an_active := False\<rparr>)
     }"

definition fd_animation_initialize :: "'w fd_animation_t \<Rightarrow> 'w fd_animation_t" where
  "fd_animation_initialize s = s\<lparr>an_players := [], an_active := False, an_timer := False\<rparr>"

definition fd_animation_player_initialize :: "nat \<Rightarrow> 'w fd_animation_t \<Rightarrow> 'w fd_animation_t option" where
  "fd_animation_player_initialize p s =
     (let s = s\<lparr>an_log := fd_assert (length (an_players s) < animation_player_limit) ''fd_animation.player_count < ARRAY_SIZE(fd_animation.players)'' (an_log s)\<rparr>;
          s = modify_player p (\<lambda>_. \<lparr>pl_sequence = None, pl_step = 0, pl_elapsed = 0, pl_stop = False, pl_cancel = False, pl_next = None\<rparr>) s in
      if animation_player_limit \<le> length (an_players s) then None else Some (s\<lparr>an_players := an_players s @ [p]\<rparr>))"

definition fd_animation_start :: "'w animation_run \<Rightarrow> nat \<Rightarrow> fd_animation_sequence_t \<Rightarrow> 'w fd_animation_t \<Rightarrow> 'w fd_animation_t option" where
  "fd_animation_start run p q s =
     do {
       s \<leftarrow> (if pl_sequence (an_memory s p) \<noteq> None then Some (modify_player p (\<lambda>pl. pl\<lparr>pl_stop := True, pl_next := Some q\<rparr>) s)
             else start_step run p q
               (modify_player p (\<lambda>pl. pl\<lparr>pl_sequence := Some q, pl_step := 0, pl_elapsed := 0, pl_stop := False, pl_cancel := False\<rparr>) s));
       Some (if \<not> an_active s then s\<lparr>an_active := True, an_timer := True\<rparr> else s)
     }"

definition fd_animation_stop :: "nat \<Rightarrow> 'w fd_animation_t \<Rightarrow> 'w fd_animation_t" where
  "fd_animation_stop p = modify_player p (\<lambda>pl. pl\<lparr>pl_stop := True\<rparr>)"

definition fd_animation_cancel :: "nat \<Rightarrow> 'w fd_animation_t \<Rightarrow> 'w fd_animation_t" where
  "fd_animation_cancel p = modify_player p (\<lambda>pl. pl\<lparr>pl_next := None, pl_stop := True, pl_cancel := True\<rparr>)"

definition fd_animation_bezier_ease_in :: "real32 \<Rightarrow> real32" where
  "fd_animation_bezier_ease_in t = float_mul (float_mul t t) (float_sub (float_ratio 3 1) (float_mul (float_ratio 2 1) t))"

definition fd_animation_bezier_ease_out :: "real32 \<Rightarrow> real32" where
  "fd_animation_bezier_ease_out t = float_sub (float_ratio 1 1) (fd_animation_bezier_ease_in t)"

definition fd_animation_bezier_ease_in_out :: "real32 \<Rightarrow> real32" where
  "fd_animation_bezier_ease_in_out t =
     (if t \<le> float_ratio 1 2 then fd_animation_bezier_ease_in (float_mul t (float_ratio 2 1))
      else fd_animation_bezier_ease_out (float_mul (float_sub t (float_ratio 1 2)) (float_ratio 2 1)))"

section \<open>Playing a sequence\<close>

text \<open>Functions that note that they are called, and leave the players alone.\<close>

definition note_animation :: "animation_call list animation_run" where
  "note_animation call s = Some (s\<lparr>an_world := an_world s @ [call]\<rparr>)"

definition noted :: "(nat \<Rightarrow> animation_call) \<Rightarrow> nat option \<Rightarrow> animation_call list" where
  "noted call f = (case f of None \<Rightarrow> [] | Some f \<Rightarrow> [call f])"

lemma run_if_note [simp]: "run_if note_animation call f s = Some (s\<lparr>an_world := an_world s @ noted call f\<rparr>)"
  by (cases f) (simp_all add: run_if_def note_animation_def noted_def)

lemma modify_player_sel [simp]:
  "an_memory (modify_player p f s) p = f (an_memory s p)" "an_world (modify_player p f s) = an_world s" "an_players (modify_player p f s) = an_players s"
  by (simp_all add: modify_player_def)

text \<open>The calls of a log, without the waypoints.\<close>

definition marks :: "animation_call list \<Rightarrow> animation_call list" where
  "marks = filter (\<lambda>call. case call of call_waypoint _ _ _ \<Rightarrow> False | _ \<Rightarrow> True)"

lemma marks_simps [simp]:
  "marks [] = []" "marks (xs @ ys) = marks xs @ marks ys" "marks (noted (\<lambda>f. call_waypoint f c t) g) = []"
  "marks (noted (\<lambda>f. call_start f c) g) = noted (\<lambda>f. call_start f c) g" "marks (noted (\<lambda>f. call_stop f c) g) = noted (\<lambda>f. call_stop f c) g"
  "marks (noted (\<lambda>f. call_finalize f c) g) = noted (\<lambda>f. call_finalize f c) g"
  by (simp_all add: marks_def noted_def split: option.split)

definition start_call :: "fd_animation_step_t \<Rightarrow> animation_call list" where
  "start_call step = noted (\<lambda>f. call_start f (as_context step)) (as_start step)"

definition stop_call :: "fd_animation_step_t \<Rightarrow> animation_call list" where
  "stop_call step = noted (\<lambda>f. call_stop f (as_context step)) (as_stop step)"

text \<open>The time after a number of ticks, in floats.\<close>

primrec ticks_time :: "nat \<Rightarrow> real32" where
  "ticks_time 0 = 0"
| "ticks_time (Suc n) = float_add (ticks_time n) animation_tick"

definition playing :: "nat \<Rightarrow> fd_animation_sequence_t \<Rightarrow> nat \<Rightarrow> real32 \<Rightarrow> 'w fd_animation_t \<Rightarrow> bool" where
  "playing p q i elapsed s \<longleftrightarrow> (let pl = an_memory s p in pl_sequence pl = Some q \<and> pl_step pl = i \<and> pl_elapsed pl = elapsed \<and>
     \<not> pl_stop pl \<and> \<not> pl_cancel pl \<and> pl_next pl = None)"

lemma steps_append: "steps f (xs @ ys) s = steps f xs s \<bind> steps f ys"
  by (induction xs arbitrary: s) (auto split: bind_splits)

lemma tick_waypoint:
  assumes "playing p q i e s" "i < length (aq_steps q)" "float_add e animation_tick < as_duration (aq_steps q ! i)"
  obtains s' where "fd_animation_player_tick note_animation p s = Some s'" "playing p q i (float_add e animation_tick) s'" "marks (an_world s') = marks (an_world s)"
  using assms by (auto simp: fd_animation_player_tick_def playing_def rd_def Let_def intro: that)

lemma tick_next:
  assumes "playing p q i e s" "Suc i < length (aq_steps q)" "as_duration (aq_steps q ! i) \<le> float_add e animation_tick"
  obtains s' where "fd_animation_player_tick note_animation p s = Some s'" "playing p q (Suc i) 0 s'"
    "marks (an_world s') = marks (an_world s) @ stop_call (aq_steps q ! i) @ start_call (aq_steps q ! Suc i)"
  using assms by (auto simp: fd_animation_player_tick_def playing_def rd_def start_step_def stop_call_def start_call_def Let_def intro: that)

lemma tick_last:
  assumes "playing p q i e s" "Suc i = length (aq_steps q)" "as_duration (aq_steps q ! i) \<le> float_add e animation_tick" "aq_type q = fd_animation_type_once"
  obtains s' where "fd_animation_player_tick note_animation p s = Some s'" "pl_sequence (an_memory s' p) = None"
    "marks (an_world s') = marks (an_world s) @ stop_call (aq_steps q ! i) @ noted (\<lambda>f. call_finalize f (aq_context q)) (aq_finalize q)"
  using assms by (auto simp: fd_animation_player_tick_def playing_def rd_def end_sequence_def stop_call_def Let_def intro: that)

abbreviation "note_ticks p n \<equiv> steps (\<lambda>_. fd_animation_player_tick note_animation p) (replicate n ())"

lemma note_ticks_add: "note_ticks p m s = Some s1 \<Longrightarrow> note_ticks p n s1 = Some s2 \<Longrightarrow> note_ticks p (m + n) s = Some s2"
  by (simp add: replicate_add steps_append)

lemma step_ends:
  assumes "playing p q i (ticks_time j) s" "i < length (aq_steps q)" "as_duration (aq_steps q ! i) \<le> ticks_time (Suc (j + k))"
  shows "\<exists>n e s'. note_ticks p n s = Some s' \<and> playing p q i e s' \<and> as_duration (aq_steps q ! i) \<le> float_add e animation_tick \<and>
    marks (an_world s') = marks (an_world s)"
  using assms(1,3)
proof (induction k arbitrary: j s)
  case 0
  then show ?case by (intro exI[of _ 0] exI[of _ "ticks_time j"] exI[of _ s]) simp
next
  case (Suc k)
  show ?case
  proof (cases "as_duration (aq_steps q ! i) \<le> ticks_time (Suc j)")
    case True
    then show ?thesis using Suc.prems(1) by (intro exI[of _ 0] exI[of _ "ticks_time j"] exI[of _ s]) simp
  next
    case False
    then obtain s1 where s1: "fd_animation_player_tick note_animation p s = Some s1" "playing p q i (ticks_time (Suc j)) s1" "marks (an_world s1) = marks (an_world s)"
      using tick_waypoint[OF Suc.prems(1) assms(2)] by (auto simp: not_le)
    obtain n e s' where "note_ticks p n s1 = Some s'" "playing p q i e s'" "as_duration (aq_steps q ! i) \<le> float_add e animation_tick"
      "marks (an_world s') = marks (an_world s1)"
      using Suc.IH[OF s1(2)] Suc.prems(2) by auto
    then show ?thesis using s1 by (intro exI[of _ "Suc n"] exI[of _ e] exI[of _ s']) simp
  qed
qed

lemma diff_step: "Suc k = n - i \<Longrightarrow> k = n - Suc i" for n :: nat
  by linarith

lemma rest_plays:
  assumes "playing p q i 0 s" "i < length (aq_steps q)" "aq_type q = fd_animation_type_once"
    and "\<forall>step\<in>set (aq_steps q). \<exists>n. as_duration step \<le> ticks_time (Suc n)"
  shows "\<exists>n s'. note_ticks p n s = Some s' \<and> pl_sequence (an_memory s' p) = None \<and>
    marks (an_world s') = marks (an_world s) @ stop_call (aq_steps q ! i) @
      concat (map (\<lambda>step. start_call step @ stop_call step) (drop (Suc i) (aq_steps q))) @
      noted (\<lambda>f. call_finalize f (aq_context q)) (aq_finalize q)"
  using assms(1,2)
proof (induction "length (aq_steps q) - i" arbitrary: i s)
  case (Suc k)
  obtain m where m: "as_duration (aq_steps q ! i) \<le> ticks_time (Suc (0 + m))"
    using bspec[OF assms(4) nth_mem[OF Suc.prems(2)]] unfolding add_0 by blast
  obtain n e s1 where s1: "note_ticks p n s = Some s1" "playing p q i e s1" "as_duration (aq_steps q ! i) \<le> float_add e animation_tick"
    "marks (an_world s1) = marks (an_world s)"
    using step_ends[of p q i 0 s m] Suc.prems m by auto
  show ?case
  proof (cases "Suc i = length (aq_steps q)")
    case True
    obtain s2 where s2: "fd_animation_player_tick note_animation p s1 = Some s2" "pl_sequence (an_memory s2 p) = None"
      "marks (an_world s2) = marks (an_world s1) @ stop_call (aq_steps q ! i) @ noted (\<lambda>f. call_finalize f (aq_context q)) (aq_finalize q)"
      by (rule tick_last[OF s1(2) True s1(3) assms(3)])
    then have "note_ticks p (n + 1) s = Some s2" using note_ticks_add[OF s1(1), of 1 s2] by simp
    then show ?thesis using s2 s1(4) True by (intro exI[of _ "n + 1"] exI[of _ s2]) simp
  next
    case False
    then have i: "Suc i < length (aq_steps q)" using Suc.prems(2) by simp
    obtain s2 where s2: "fd_animation_player_tick note_animation p s1 = Some s2" "playing p q (Suc i) 0 s2"
      "marks (an_world s2) = marks (an_world s1) @ stop_call (aq_steps q ! i) @ start_call (aq_steps q ! Suc i)"
      by (rule tick_next[OF s1(2) i s1(3)])
    obtain n' s3 where s3: "note_ticks p n' s2 = Some s3" "pl_sequence (an_memory s3 p) = None"
      "marks (an_world s3) = marks (an_world s2) @ stop_call (aq_steps q ! Suc i) @
        concat (map (\<lambda>step. start_call step @ stop_call step) (drop (Suc (Suc i)) (aq_steps q))) @ noted (\<lambda>f. call_finalize f (aq_context q)) (aq_finalize q)"
      using Suc.hyps(1)[OF diff_step[OF Suc.hyps(2)] s2(2) i] by blast
    have "note_ticks p (n + (1 + n')) s = Some s3" using note_ticks_add[OF s1(1), of "1 + n'" s3] s2(1) s3(1) by simp
    then show ?thesis using s1(4) s2(3) s3(2,3) i by (intro exI[of _ "n + (1 + n')"] exI[of _ s3]) (simp add: Cons_nth_drop_Suc[symmetric])
  qed
qed simp

text \<open>A sequence that a player is given plays through: every step is started and stopped once, in order, then the sequence is
  finalized and the player is free, after as many ticks as the durations take (they must be within reach of a float that
  grows by 0.025f).\<close>

theorem fd_animation_plays_once:
  assumes "pl_sequence (an_memory s p) = None" "pl_next (an_memory s p) = None" "aq_steps q \<noteq> []" "aq_type q = fd_animation_type_once"
    and "\<forall>step\<in>set (aq_steps q). \<exists>n. as_duration step \<le> ticks_time (Suc n)"
  shows "\<exists>s1 n s2. fd_animation_start note_animation p q s = Some s1 \<and> note_ticks p n s1 = Some s2 \<and> pl_sequence (an_memory s2 p) = None \<and>
    marks (an_world s2) = marks (an_world s) @ concat (map (\<lambda>step. start_call step @ stop_call step) (aq_steps q)) @
      noted (\<lambda>f. call_finalize f (aq_context q)) (aq_finalize q)"
proof -
  obtain s1 where s1: "fd_animation_start note_animation p q s = Some s1" "playing p q 0 0 s1"
    "marks (an_world s1) = marks (an_world s) @ start_call (aq_steps q ! 0)"
    using assms(1-3) by (auto simp: fd_animation_start_def start_step_def rd_def playing_def start_call_def Let_def)
  from rest_plays[OF s1(2) _ assms(4,5)] assms(3) s1 show ?thesis
    by (cases "aq_steps q") auto
qed

text \<open>A sequence that is declared as repeating plays once.\<close>

lemma fd_animation_repeating_declare_once: "fd_animation_repeating_declare = fd_animation_once_declare"
  by (simp add: fd_animation_repeating_declare_def fd_animation_once_declare_def fd_animation_sequence_declare_def fun_eq_iff)

section \<open>Instances\<close>

definition two_steps :: fd_animation_sequence_t where
  "two_steps = fd_animation_once_declare (Some 9)
     [\<lparr>as_duration = float_ratio 1 10, as_context = 0, as_start = Some 1, as_waypoint = Some 2, as_stop = None\<rparr>,
      \<lparr>as_duration = float_ratio 1 20, as_context = 1, as_start = Some 1, as_waypoint = None, as_stop = Some 3\<rparr>]"

definition one_player :: "animation_call list fd_animation_t" where
  "one_player = the (fd_animation_player_initialize 0 (fd_animation_initialize
     \<lparr>an_memory = (\<lambda>_. \<lparr>pl_sequence = None, pl_step = 0, pl_elapsed = 0, pl_stop = False, pl_cancel = False, pl_next = None\<rparr>),
      an_players = [], an_active = False, an_timer = False, an_log = [], an_world = []\<rparr>))"

lemma fd_animation_plays_once_witness:
  "\<exists>s1 n s2. fd_animation_start note_animation 0 two_steps one_player = Some s1 \<and> note_ticks 0 n s1 = Some s2 \<and> pl_sequence (an_memory s2 0) = None \<and>
    marks (an_world s2) = [call_start 1 0, call_start 1 1, call_stop 3 1, call_finalize 9 0]"
proof -
  have "as_duration step \<le> ticks_time (Suc 4)" if "step \<in> set (aq_steps two_steps)" for step
    using that by (simp add: two_steps_def fd_animation_once_declare_def fd_animation_sequence_declare_def) (auto, code_simp+)
  then have d: "\<forall>step\<in>set (aq_steps two_steps). \<exists>n. as_duration step \<le> ticks_time (Suc n)" by blast
  have p: "pl_sequence (an_memory one_player 0) = None" "pl_next (an_memory one_player 0) = None" "an_world one_player = []"
    by (simp_all add: one_player_def fd_animation_player_initialize_def fd_animation_initialize_def animation_player_limit_def Let_def)
  show ?thesis
    using fd_animation_plays_once[OF p(1,2) _ _ d]
    by (simp add: p(3) two_steps_def fd_animation_once_declare_def fd_animation_sequence_declare_def start_call_def stop_call_def noted_def)
qed

end
