(* ===== verification/FD_Ux.thy ===== *)
theory FD_Ux imports FD_Timer FD_Canvas begin

text \<open>
  \<open>subsys/ux/src/fd_ux.c\<close>: the user interface on a display. It is on, idle or off, shows one of its screens through the canvas,
  and goes idle when nothing happens for a number of ticks.

  The functions of the application are called through \<open>ui_call\<close>, with what they are given; they act on the whole state,
  for they may call the module again. \<open>'d\<close> is the state of the display's driver, \<open>'w\<close> that of the application. The
  configurations that are kept in the key value store (when the store is compiled in) and their keys are left out.
\<close>

datatype fd_ux_state_t = fd_ux_state_on | fd_ux_state_idle | fd_ux_state_off

text \<open>A function pointer that may be \<open>NULL\<close> is an option.\<close>

record fd_ux_screen_t =
  us_id :: nat
  us_planes :: "nat list"
  us_preview :: nat
  us_activate :: nat
  us_deactivate :: nat
  us_animate :: "nat option"
  us_button :: "nat option"
  us_touch :: "nat option"

record fd_ux_listener_t =
  ul_context :: nat
  ul_state_changed :: "nat option"

record fd_ux_configuration_t =
  uc_identifier :: nat
  uc_screens :: "fd_ux_screen_t list"
  uc_initial_screen :: nat
  uc_idle_ticks :: u32
  uc_state_changed :: "nat option"
  uc_screen_changed :: "nat option"
  uc_get_idle_transition_state :: "nat option"
  uc_plane :: "nat option"
  uc_work_queue :: bool

record 'd fd_ux_t =
  ux_configuration :: fd_ux_configuration_t
  ux_listeners :: "fd_ux_listener_t list"
  ux_canvas :: "'d fd_canvas_t"
  ux_screen :: "nat option"
  ux_animation :: bool
  ux_update_enabled :: bool
  ux_idle_ticks :: u32
  ux_state :: fd_ux_state_t

text \<open>Interfaces are objects of the application, at addresses; the manager lists the initialized ones.\<close>

record ('d, 'w) ux_world =
  uw_uxs :: "nat \<Rightarrow> 'd fd_ux_t"
  uw_manager :: "nat list"
  uw_log :: assert_log
  uw_world :: 'w

datatype ux_call =
    call_animate nat
  | call_preview nat
  | call_activate nat
  | call_deactivate nat
  | call_state_changed nat fd_ux_state_t fd_ux_state_t
  | call_screen_changed nat "nat option" nat
  | call_listener nat nat fd_ux_state_t fd_ux_state_t

record ('d, 'w) ux_interface =
  ui_backend :: "'d fd_graphics_backend_t"
  ui_call :: "ux_call \<Rightarrow> ('d, 'w) ux_world \<Rightarrow> ('d, 'w) ux_world option"
  ui_transition :: "nat \<Rightarrow> ('d, 'w) ux_world \<Rightarrow> (fd_ux_state_t \<times> ('d, 'w) ux_world) option"

definition modify_ux :: "nat \<Rightarrow> ('d fd_ux_t \<Rightarrow> 'd fd_ux_t) \<Rightarrow> ('d, 'w) ux_world \<Rightarrow> ('d, 'w) ux_world" where
  "modify_ux u f w = w\<lparr>uw_uxs := (uw_uxs w)(u := f (uw_uxs w u))\<rparr>"

definition call_if :: "('d, 'w) ux_interface \<Rightarrow> (nat \<Rightarrow> ux_call) \<Rightarrow> nat option \<Rightarrow> ('d, 'w) ux_world \<Rightarrow> ('d, 'w) ux_world option" where
  "call_if iface call f w = (case f of None \<Rightarrow> Some w | Some f \<Rightarrow> ui_call iface (call f) w)"

definition fd_ux_get :: "nat \<Rightarrow> ('d, 'w) ux_world \<Rightarrow> nat option" where
  "fd_ux_get identifier w = find (\<lambda>u. uc_identifier (ux_configuration (uw_uxs w u)) = identifier) (uw_manager w)"

text \<open>The screen that is active; there is none before the initialization, and its members are then read through \<open>NULL\<close>.\<close>

definition ux_active_screen :: "'d fd_ux_t \<Rightarrow> fd_ux_screen_t option" where
  "ux_active_screen ux = do { i \<leftarrow> ux_screen ux; rd (uc_screens (ux_configuration ux)) i }"

definition canvas_update ::
  "('d, 'w) ux_interface \<Rightarrow> nat \<Rightarrow> fd_graphics_area_t \<Rightarrow> bool \<Rightarrow> ('d, 'w) ux_world \<Rightarrow> ('d, 'w) ux_world option" where
  "canvas_update iface u area opaque w =
     do {
       canvas \<leftarrow> fd_canvas_update (ui_backend iface) area opaque (ux_canvas (uw_uxs w u));
       Some (modify_ux u (\<lambda>ux. ux\<lparr>ux_canvas := canvas\<rparr>) w)
     }"

definition fd_ux_update :: "('d, 'w) ux_interface \<Rightarrow> nat \<Rightarrow> ('d, 'w) ux_world \<Rightarrow> ('d, 'w) ux_world option" where
  "fd_ux_update iface u = canvas_update iface u fd_graphics_area_empty True"

definition fd_ux_get_update_enabled :: "'d fd_ux_t \<Rightarrow> bool" where
  "fd_ux_get_update_enabled ux = (\<not> ux_update_enabled ux)"

definition fd_ux_set_update_enabled :: "nat \<Rightarrow> bool \<Rightarrow> ('d, 'w) ux_world \<Rightarrow> ('d, 'w) ux_world" where
  "fd_ux_set_update_enabled u enabled = modify_ux u (\<lambda>ux. ux\<lparr>ux_update_enabled := enabled\<rparr>)"

definition fd_ux_set_idle_ticks :: "nat \<Rightarrow> u32 \<Rightarrow> ('d, 'w) ux_world \<Rightarrow> ('d, 'w) ux_world" where
  "fd_ux_set_idle_ticks u ticks =
     modify_ux u (\<lambda>ux. ux\<lparr>ux_configuration := (ux_configuration ux)\<lparr>uc_idle_ticks := ticks\<rparr>, ux_idle_ticks := 0\<rparr>)"

definition fd_ux_get_state :: "'d fd_ux_t \<Rightarrow> fd_ux_state_t" where
  "fd_ux_get_state ux = ux_state ux"

definition animate :: "('d, 'w) ux_interface \<Rightarrow> nat \<Rightarrow> ('d, 'w) ux_world \<Rightarrow> ('d, 'w) ux_world option" where
  "animate iface u w =
     do { screen \<leftarrow> ux_active_screen (uw_uxs w u); call_if iface call_animate (us_animate screen) w }"

function listener_loop ::
  "('d, 'w) ux_interface \<Rightarrow> nat \<Rightarrow> fd_ux_state_t \<Rightarrow> fd_ux_state_t \<Rightarrow> nat \<Rightarrow> ('d, 'w) ux_world \<Rightarrow> ('d, 'w) ux_world option" where
  "listener_loop iface u old new i w =
     (let listeners = ux_listeners (uw_uxs w u) in
      if length listeners \<le> i then Some w
      else if 4 \<le> i then None
      else do {
        w \<leftarrow> call_if iface (\<lambda>f. call_listener f (ul_context (listeners ! i)) old new) (ul_state_changed (listeners ! i)) w;
        listener_loop iface u old new (Suc i) w
      })"
  by pat_completeness auto
termination by (relation "measure (\<lambda>(iface, u, old, new, i, w). 4 - i)") auto

declare listener_loop.simps [simp del]

definition fd_ux_set_state :: "('d, 'w) ux_interface \<Rightarrow> nat \<Rightarrow> fd_ux_state_t \<Rightarrow> ('d, 'w) ux_world \<Rightarrow> ('d, 'w) ux_world option" where
  "fd_ux_set_state iface u state w =
     (let old = ux_state (uw_uxs w u) in
      if state = old then Some w
      else do {
        let w = modify_ux u (\<lambda>ux. ux\<lparr>ux_idle_ticks := 0, ux_state := state\<rparr>) w;
        w \<leftarrow> (if state = fd_ux_state_on then do { w \<leftarrow> animate iface u w; fd_ux_update iface u w } else Some w);
        w \<leftarrow> call_if iface (\<lambda>f. call_state_changed f old state) (uc_state_changed (ux_configuration (uw_uxs w u))) w;
        listener_loop iface u old state 0 w
      })"

definition fd_ux_active :: "('d, 'w) ux_interface \<Rightarrow> nat \<Rightarrow> ('d, 'w) ux_world \<Rightarrow> ('d, 'w) ux_world option" where
  "fd_ux_active iface u w =
     (case ux_state (uw_uxs w u) of
        fd_ux_state_on \<Rightarrow> Some (modify_ux u (\<lambda>ux. ux\<lparr>ux_idle_ticks := 0\<rparr>) w)
      | fd_ux_state_idle \<Rightarrow> fd_ux_set_state iface u fd_ux_state_on w
      | fd_ux_state_off \<Rightarrow> Some w)"

definition fd_ux_should_idle :: "'d fd_ux_t \<Rightarrow> bool" where
  "fd_ux_should_idle ux \<longleftrightarrow> ux_state ux = fd_ux_state_on \<and> uc_idle_ticks (ux_configuration ux) \<noteq> 0 \<and>
     uc_idle_ticks (ux_configuration ux) < ux_idle_ticks ux"

text \<open>One round of the loop of \<open>fd_ux_tick\<close>, and whether it leaves the function.\<close>

definition ux_tick_one :: "('d, 'w) ux_interface \<Rightarrow> nat \<Rightarrow> ('d, 'w) ux_world \<Rightarrow> (bool \<times> ('d, 'w) ux_world) option" where
  "ux_tick_one iface u w =
     (let counts = uc_idle_ticks (ux_configuration (uw_uxs w u)) \<noteq> 0 \<and> ux_state (uw_uxs w u) = fd_ux_state_on;
          w = (if counts then modify_ux u (\<lambda>ux. ux\<lparr>ux_idle_ticks := ux_idle_ticks ux + 1\<rparr>) w else w) in
      if counts \<and> fd_ux_should_idle (uw_uxs w u) then do {
        (state, w) \<leftarrow> (case uc_get_idle_transition_state (ux_configuration (uw_uxs w u)) of
                         None \<Rightarrow> Some (fd_ux_state_idle, w) | Some f \<Rightarrow> ui_transition iface f w);
        w \<leftarrow> fd_ux_set_state iface u state w;
        Some (True, w)
      }
      else if ux_update_enabled (uw_uxs w u) then do {
        w \<leftarrow> animate iface u w;
        w \<leftarrow> (if ux_state (uw_uxs w u) = fd_ux_state_on then fd_ux_update iface u w else Some w);
        Some (False, w)
      }
      else Some (False, w))"

function ux_tick_loop :: "('d, 'w) ux_interface \<Rightarrow> nat \<Rightarrow> ('d, 'w) ux_world \<Rightarrow> ('d, 'w) ux_world option" where
  "ux_tick_loop iface i w =
     (if length (uw_manager w) \<le> i then Some w
      else if 4 \<le> i then None
      else do {
        (return, w) \<leftarrow> ux_tick_one iface (uw_manager w ! i) w;
        if return then Some w else ux_tick_loop iface (Suc i) w
      })"
  by pat_completeness auto
termination by (relation "measure (\<lambda>(iface, i, w). 4 - i)") auto

declare ux_tick_loop.simps [simp del]

definition fd_ux_tick :: "('d, 'w) ux_interface \<Rightarrow> ('d, 'w) ux_world \<Rightarrow> ('d, 'w) ux_world option" where
  "fd_ux_tick iface = ux_tick_loop iface 0"

definition fd_ux_add_listener :: "nat \<Rightarrow> fd_ux_listener_t \<Rightarrow> ('d, 'w) ux_world \<Rightarrow> ('d, 'w) ux_world option" where
  "fd_ux_add_listener u listener w =
     (let n = length (ux_listeners (uw_uxs w u));
          w = w\<lparr>uw_log := fd_assert (n < 4) ''ux->listener_count < (sizeof(ux->listeners) / sizeof(ux->listeners[0]))'' (uw_log w)\<rparr> in
      if 4 \<le> n then None else Some (modify_ux u (\<lambda>ux. ux\<lparr>ux_listeners := ux_listeners ux @ [listener]\<rparr>) w))"

text \<open>The planes of the screen and that of the configuration are copied into an array of ten.\<close>

definition fd_ux_set_screen_to :: "('d, 'w) ux_interface \<Rightarrow> nat \<Rightarrow> nat \<Rightarrow> bool \<Rightarrow> ('d, 'w) ux_world \<Rightarrow> ('d, 'w) ux_world option" where
  "fd_ux_set_screen_to iface u screen_id preview w =
     do {
       screen \<leftarrow> rd (uc_screens (ux_configuration (uw_uxs w u))) screen_id;
       if ux_screen (uw_uxs w u) = Some screen_id then Some w
       else do {
         w \<leftarrow> (case ux_screen (uw_uxs w u) of
                 None \<Rightarrow> Some w
               | Some i \<Rightarrow> do { active \<leftarrow> ux_active_screen (uw_uxs w u); ui_call iface (call_deactivate (us_deactivate active)) w });
         let old_screen = ux_screen (uw_uxs w u);
         screen \<leftarrow> rd (uc_screens (ux_configuration (uw_uxs w u))) screen_id;
         let planes = us_planes screen @ (case uc_plane (ux_configuration (uw_uxs w u)) of None \<Rightarrow> [] | Some plane \<Rightarrow> [plane]);
         if 10 < length planes then None
         else do {
           let w = modify_ux u (\<lambda>ux. ux\<lparr>ux_screen := Some screen_id, ux_canvas := (ux_canvas ux)\<lparr>cv_planes := planes\<rparr>\<rparr>) w;
           w \<leftarrow> ui_call iface (if preview then call_preview (us_preview screen) else call_activate (us_activate screen)) w;
           w \<leftarrow> canvas_update iface u (screen_area (cv_graphics (ux_canvas (uw_uxs w u)))) False w;
           call_if iface (\<lambda>f. call_screen_changed f old_screen screen_id) (uc_screen_changed (ux_configuration (uw_uxs w u))) w
         }
       }
     }"

definition fd_ux_get_screen :: "'d fd_ux_t \<Rightarrow> nat option" where
  "fd_ux_get_screen ux =
     (case ux_screen ux of None \<Rightarrow> Some 0 | Some i \<Rightarrow> do { screen \<leftarrow> rd (uc_screens (ux_configuration ux)) i; Some (us_id screen) })"

definition fd_ux_set_screen :: "('d, 'w) ux_interface \<Rightarrow> nat \<Rightarrow> nat \<Rightarrow> ('d, 'w) ux_world \<Rightarrow> ('d, 'w) ux_world option" where
  "fd_ux_set_screen iface u screen_id = fd_ux_set_screen_to iface u screen_id False"

definition fd_ux_set_screen_preview :: "('d, 'w) ux_interface \<Rightarrow> nat \<Rightarrow> nat \<Rightarrow> ('d, 'w) ux_world \<Rightarrow> ('d, 'w) ux_world option" where
  "fd_ux_set_screen_preview iface u screen_id = fd_ux_set_screen_to iface u screen_id True"

definition fd_ux_set_animation :: "nat \<Rightarrow> bool \<Rightarrow> ('d, 'w) ux_world \<Rightarrow> ('d, 'w) ux_world" where
  "fd_ux_set_animation u animation = modify_ux u (\<lambda>ux. ux\<lparr>ux_animation := animation\<rparr>)"

text \<open>The display of the configuration and what the canvas works on besides its members are in \<open>canvas\<close>.\<close>

definition fd_ux_initialize ::
  "('d, 'w) ux_interface \<Rightarrow> nat \<Rightarrow> fd_ux_configuration_t \<Rightarrow> 'd fd_canvas_t \<Rightarrow> ('d, 'w) ux_world \<Rightarrow> ('d, 'w) ux_world option" where
  "fd_ux_initialize iface u configuration canvas w =
     (let n = length (uw_manager w);
          w = w\<lparr>uw_log := fd_assert (n < 4) ''fd_ux_manager.ux_count < (sizeof(fd_ux_manager.uxs) / sizeof(fd_ux_manager.uxs[0]))'' (uw_log w)\<rparr> in
      if 4 \<le> n then None
      else
        let screens = map (\<lambda>id. (uc_screens configuration ! id)\<lparr>us_id := id\<rparr>) [0..<length (uc_screens configuration)];
            ux = \<lparr>ux_configuration = configuration\<lparr>uc_screens := screens\<rparr>, ux_listeners = [],
                  ux_canvas = (fd_canvas_initialize canvas)\<lparr>cv_work_queue := uc_work_queue configuration\<rparr>,
                  ux_screen = None, ux_animation = True, ux_update_enabled = True, ux_idle_ticks = 0, ux_state = fd_ux_state_on\<rparr>
        in fd_ux_set_screen iface u (uc_initial_screen configuration)
             (w\<lparr>uw_manager := uw_manager w @ [u], uw_uxs := (uw_uxs w)(u := ux)\<rparr>))"

datatype fd_ux_frame_buffer_type_t = fd_ux_frame_buffer_type_gray | fd_ux_frame_buffer_type_color

record fd_ux_frame_buffer_metadata_t =
  fb_width :: u32
  fb_height :: u32
  fb_type :: fd_ux_frame_buffer_type_t
  fb_components :: "u32 \<times> u32 \<times> u32"

definition fd_ux_get_frame_buffer :: "'d fd_ux_t \<Rightarrow> (u8 list \<times> int) option" where
  "fd_ux_get_frame_buffer ux =
     (let g = cv_graphics (ux_canvas ux) in
      do { n \<leftarrow> c_int (gr_width g * gr_height g); n \<leftarrow> c_int (n * 3); Some (gr_buffer g, n) })"

definition fd_ux_get_frame_buffer_metadata :: "'d fd_ux_t \<Rightarrow> fd_ux_frame_buffer_metadata_t" where
  "fd_ux_get_frame_buffer_metadata ux =
     (let g = cv_graphics (ux_canvas ux) in
      \<lparr>fb_width = word_of_int (gr_width g), fb_height = word_of_int (gr_height g), fb_type = fd_ux_frame_buffer_type_color,
       fb_components = (6, 6, 6)\<rparr>)"

end
