(* ===== verification/FD_UxInput.thy ===== *)
theory FD_UxInput imports FD_Ux begin

text \<open>
  Buttons and touches of the user interface: \<open>subsys/ux/src/fd_button.c\<close>, \<open>fd_ux_button.c\<close> and \<open>fd_ux_touch.c\<close>.

  Buttons are read when a pin changes and once more when the debounce time of 50 ms is over; only then what has happened is
  reported as pressed and released events. An event goes to the callback of the configuration or to the screen that is active;
  one that wakes the display up, and the release that follows it, go to nobody.

  The timer of a group of buttons is the one at its own address in the state of \<open>FD_Timer\<close>, whose world is the state of
  \<open>FD_Ux\<close>, whose world holds the buttons and touches. The registration with the pins' interrupts is left out: a change of a
  pin is a call of \<open>fd_ux_button_change\<close>.
\<close>

section \<open>Events\<close>

datatype fd_button_action_t = fd_button_action_released | fd_button_action_pressed

record fd_button_event_t =
  be_action :: fd_button_action_t
  be_buttons :: u32
  be_holds :: u32
  be_chords :: u32
  be_timestamp :: real32
  be_duration :: real32

definition fd_button_was_pressed :: "fd_button_event_t \<Rightarrow> u32 \<Rightarrow> bool" where
  "fd_button_was_pressed event m \<longleftrightarrow> be_action event = fd_button_action_pressed \<and> be_buttons event AND m \<noteq> 0"

definition fd_button_was_released :: "fd_button_event_t \<Rightarrow> u32 \<Rightarrow> bool" where
  "fd_button_was_released event m \<longleftrightarrow> be_action event = fd_button_action_released \<and> be_buttons event AND m \<noteq> 0"

definition fd_button_was_pressed_exclusively :: "fd_button_event_t \<Rightarrow> u32 \<Rightarrow> bool" where
  "fd_button_was_pressed_exclusively event m \<longleftrightarrow> fd_button_was_pressed event m \<and> be_holds event = 0 \<and> be_chords event = 0"

definition fd_button_was_released_exclusively :: "fd_button_event_t \<Rightarrow> u32 \<Rightarrow> bool" where
  "fd_button_was_released_exclusively event m \<longleftrightarrow> fd_button_was_released event m \<and> be_holds event = 0 \<and> be_chords event = 0"

datatype fd_touch_action_t = fd_touch_action_released | fd_touch_action_pressed

datatype fd_touch_gesture_t =
    fd_touch_gesture_none | fd_touch_gesture_slide_up | fd_touch_gesture_slide_down | fd_touch_gesture_slide_left
  | fd_touch_gesture_slide_right | fd_touch_gesture_click | fd_touch_gesture_double_click | fd_touch_gesture_press

record fd_touch_event_t =
  te_action :: fd_touch_action_t
  te_gesture :: fd_touch_gesture_t
  te_x :: int
  te_y :: int

section \<open>State\<close>

record fd_ux_button_configuration_t =
  bc_identifier :: nat
  bc_ux :: nat
  bc_gpios :: "nat list"
  bc_callback :: "nat option"

record fd_ux_button_state_t =
  bs_press_timestamp :: real32
  bs_release_timestamp :: real32
  bs_chords :: u32
  bs_press_sent :: bool

record fd_ux_button_t =
  bt_configuration :: fd_ux_button_configuration_t
  bt_buttons :: u32
  bt_states :: "fd_ux_button_state_t list"
  bt_consume_release :: bool

record fd_ux_touch_configuration_t =
  tc_identifier :: nat
  tc_ux :: nat
  tc_callback :: "nat option"

record fd_ux_touch_t =
  tt_configuration :: fd_ux_touch_configuration_t
  tt_consume_release :: bool
  tt_touchs :: u32

record 'a ux_inputs =
  in_buttons :: "nat \<Rightarrow> fd_ux_button_t"
  in_button_manager :: "nat list"
  in_touchs :: "nat \<Rightarrow> fd_ux_touch_t"
  in_touch_manager :: "nat list"
  in_pins :: "nat \<Rightarrow> bool"
  in_rest :: 'a

definition button_limit :: nat where
  "button_limit = 2"

section \<open>Debouncing\<close>

definition button_bit :: "nat \<Rightarrow> u32" where
  "button_bit i = push_bit i 1"

definition on_states :: "(nat \<Rightarrow> fd_ux_button_state_t \<Rightarrow> fd_ux_button_state_t) \<Rightarrow> fd_ux_button_t \<Rightarrow> fd_ux_button_t" where
  "on_states f b = b\<lparr>bt_states := map (\<lambda>i. f i (bt_states b ! i)) [0..<button_limit]\<rparr>"

definition note_times :: "u32 \<Rightarrow> u32 \<Rightarrow> real32 \<Rightarrow> nat \<Rightarrow> fd_ux_button_state_t \<Rightarrow> fd_ux_button_state_t" where
  "note_times pressed released timestamp i s =
     (let button = button_bit i;
          s = (if button AND pressed \<noteq> 0 then s\<lparr>bs_press_timestamp := timestamp\<rparr> else s)
      in if button AND released \<noteq> 0 then s\<lparr>bs_release_timestamp := timestamp\<rparr> else s)"

definition note_chords :: "u32 \<Rightarrow> nat \<Rightarrow> fd_ux_button_state_t \<Rightarrow> fd_ux_button_state_t" where
  "note_chords buttons i s = (if bs_press_timestamp s \<noteq> 0 then s\<lparr>bs_chords := bs_chords s OR buttons\<rparr> else s)"

definition fd_ux_button_check :: "u32 \<Rightarrow> real32 \<Rightarrow> fd_ux_button_t \<Rightarrow> fd_ux_button_t" where
  "fd_ux_button_check buttons timestamp b =
     (let pressed = buttons AND NOT (bt_buttons b); released = NOT buttons AND bt_buttons b
      in on_states (note_chords buttons) (on_states (note_times pressed released timestamp) b))"

text \<open>One round of the loop of \<open>fd_ux_button_timeout_logic\<close>, with the events that it sends.\<close>

definition report_button :: "u32 \<Rightarrow> u32 \<Rightarrow> nat \<Rightarrow> fd_ux_button_state_t \<Rightarrow> fd_ux_button_state_t \<times> fd_button_event_t list" where
  "report_button holds pressed i s =
     (let button = button_bit i;
          chords = bs_chords s AND NOT button;
          event = (\<lambda>action timestamp duration. \<lparr>be_action = action, be_buttons = button, be_holds = holds AND NOT button,
                     be_chords = chords, be_timestamp = timestamp, be_duration = duration\<rparr>) in
      if bs_press_timestamp s \<noteq> 0 \<and> bs_press_sent s \<and> button AND pressed \<noteq> 0 then (s, [])
      else
        let (s, sent) = (if bs_press_timestamp s \<noteq> 0 \<and> \<not> bs_press_sent s
              then (s\<lparr>bs_press_sent := True\<rparr>, [event fd_button_action_pressed (bs_press_timestamp s) 0]) else (s, []))
        in if bs_release_timestamp s \<noteq> 0 then
             let timestamp = bs_release_timestamp s; duration = float_sub timestamp (bs_press_timestamp s)
             in (s\<lparr>bs_press_timestamp := 0, bs_press_sent := False, bs_release_timestamp := 0, bs_chords := 0\<rparr>,
                 sent @ [event fd_button_action_released timestamp duration])
           else (s, sent))"

definition fd_ux_button_timeout_logic :: "u32 \<Rightarrow> real32 \<Rightarrow> fd_ux_button_t \<Rightarrow> fd_ux_button_t \<times> fd_button_event_t list" where
  "fd_ux_button_timeout_logic buttons timestamp b =
     (let holds = buttons OR bt_buttons b; pressed = buttons AND NOT (bt_buttons b);
          b = (fd_ux_button_check buttons timestamp b)\<lparr>bt_buttons := buttons\<rparr>
      in (on_states (\<lambda>i s. fst (report_button holds pressed i s)) b,
          concat (map (\<lambda>i. snd (report_button holds pressed i (bt_states b ! i))) [0..<button_limit])))"

definition fd_ux_button_change_logic :: "u32 \<Rightarrow> real32 \<Rightarrow> fd_ux_button_t \<Rightarrow> fd_ux_button_t" where
  "fd_ux_button_change_logic buttons timestamp b = (fd_ux_button_check buttons timestamp b)\<lparr>bt_buttons := buttons\<rparr>"

section \<open>Delivery\<close>

type_synonym ('d, 'a) ux_app = "('d, 'a ux_inputs) ux_world"

definition modify_button :: "nat \<Rightarrow> (fd_ux_button_t \<Rightarrow> fd_ux_button_t) \<Rightarrow> ('d, 'a) ux_app \<Rightarrow> ('d, 'a) ux_app" where
  "modify_button k f w = w\<lparr>uw_world := (uw_world w)\<lparr>in_buttons := (in_buttons (uw_world w))(k := f (in_buttons (uw_world w) k))\<rparr>\<rparr>"

definition modify_touch :: "nat \<Rightarrow> (fd_ux_touch_t \<Rightarrow> fd_ux_touch_t) \<Rightarrow> ('d, 'a) ux_app \<Rightarrow> ('d, 'a) ux_app" where
  "modify_touch k f w = w\<lparr>uw_world := (uw_world w)\<lparr>in_touchs := (in_touchs (uw_world w))(k := f (in_touchs (uw_world w) k))\<rparr>\<rparr>"

text \<open>The functions of the application that take events: a callback (and who calls it) or the function of a screen.\<close>

record ('d, 'a) input_interface =
  ii_ux :: "('d, 'a ux_inputs) ux_interface"
  ii_button :: "nat \<Rightarrow> nat option \<Rightarrow> fd_button_event_t \<Rightarrow> ('d, 'a) ux_app \<Rightarrow> ('d, 'a) ux_app option"
  ii_touch :: "nat \<Rightarrow> nat option \<Rightarrow> fd_touch_event_t \<Rightarrow> ('d, 'a) ux_app \<Rightarrow> ('d, 'a) ux_app option"

definition fd_ux_button_get :: "nat \<Rightarrow> ('d, 'a) ux_app \<Rightarrow> nat option" where
  "fd_ux_button_get identifier w =
     find (\<lambda>k. bc_identifier (bt_configuration (in_buttons (uw_world w) k)) = identifier) (in_button_manager (uw_world w))"

text \<open>A pressed button pulls its pin low.\<close>

definition fd_ux_read_buttons :: "nat \<Rightarrow> ('d, 'a) ux_app \<Rightarrow> u32" where
  "fd_ux_read_buttons k w =
     (let gpios = bc_gpios (bt_configuration (in_buttons (uw_world w) k)) in
      fold (\<lambda>i buttons. if \<not> in_pins (uw_world w) (gpios ! i) then buttons OR button_bit i else buttons) [0..<length gpios] 0)"

definition fd_ux_button_is_any_pressed :: "fd_ux_button_t \<Rightarrow> bool" where
  "fd_ux_button_is_any_pressed b \<longleftrightarrow> bt_buttons b \<noteq> 0"

definition fd_ux_button_event :: "('d, 'a) input_interface \<Rightarrow> nat \<Rightarrow> fd_button_event_t \<Rightarrow> ('d, 'a) ux_app \<Rightarrow> ('d, 'a) ux_app option" where
  "fd_ux_button_event iface k event w =
     (let b = in_buttons (uw_world w) k; u = bc_ux (bt_configuration b) in
      if fd_ux_get_state (uw_uxs w u) \<noteq> fd_ux_state_on then
        if be_action event = fd_button_action_pressed
        then fd_ux_set_state (ii_ux iface) u fd_ux_state_on (modify_button k (\<lambda>b. b\<lparr>bt_consume_release := True\<rparr>) w)
        else Some w
      else if bt_consume_release b \<and> be_action event = fd_button_action_released
      then Some (modify_button k (\<lambda>b. b\<lparr>bt_consume_release := False\<rparr>) w)
      else do {
        w \<leftarrow> fd_ux_active (ii_ux iface) u w;
        screen \<leftarrow> ux_active_screen (uw_uxs w u);
        case us_button screen of None \<Rightarrow> Some w | Some f \<Rightarrow> ii_button iface f None event w
      })"

definition fd_ux_button_send :: "('d, 'a) input_interface \<Rightarrow> nat \<Rightarrow> fd_button_event_t \<Rightarrow> ('d, 'a) ux_app \<Rightarrow> ('d, 'a) ux_app option" where
  "fd_ux_button_send iface k event w =
     (case bc_callback (bt_configuration (in_buttons (uw_world w) k)) of
        Some f \<Rightarrow> ii_button iface f (Some k) event w
      | None \<Rightarrow> fd_ux_button_event iface k event w)"

primrec send_all ::
  "(fd_button_event_t \<Rightarrow> ('d, 'a) ux_app \<Rightarrow> ('d, 'a) ux_app option) \<Rightarrow> fd_button_event_t list \<Rightarrow> ('d, 'a) ux_app \<Rightarrow> ('d, 'a) ux_app option" where
  "send_all send [] w = Some w"
| "send_all send (e # es) w = do { w \<leftarrow> send e w; send_all send es w }"

type_synonym ('d, 'a) ux_system = "('d, 'a) ux_app fd_timer_singleton_t"

text \<open>The states of the buttons are not touched by what receives the events: they are sent when all are known.\<close>

definition fd_ux_button_timeout :: "('d, 'a) input_interface \<Rightarrow> nat \<Rightarrow> ('d, 'a) ux_system \<Rightarrow> ('d, 'a) ux_system option" where
  "fd_ux_button_timeout iface k s =
     (let w = ts_world s; buttons = fd_ux_read_buttons k w;
          (b, events) = fd_ux_button_timeout_logic buttons (fd_timer_get_timestamp s) (in_buttons (uw_world w) k)
      in do { w \<leftarrow> send_all (fd_ux_button_send iface k) events (modify_button k (\<lambda>_. b) w); Some (s\<lparr>ts_world := w\<rparr>) })"

definition fd_ux_button_change :: "nat \<Rightarrow> ('d, 'a) ux_system \<Rightarrow> ('d, 'a) ux_system" where
  "fd_ux_button_change k s =
     (if tm_active (ts_memory s k) then s
      else let w = ts_world s; buttons = fd_ux_read_buttons k w
           in fd_timer_start k (float_ratio 5 100)
                (s\<lparr>ts_world := modify_button k (fd_ux_button_change_logic buttons (fd_timer_get_timestamp s)) w\<rparr>))"

text \<open>The function that the timer calls back has a number of the application's choice, as does the listener, which does
  nothing.\<close>

definition fd_ux_button_initialize ::
  "nat \<Rightarrow> nat \<Rightarrow> nat \<Rightarrow> fd_ux_button_configuration_t \<Rightarrow> ('d, 'a) ux_system \<Rightarrow> ('d, 'a) ux_system option" where
  "fd_ux_button_initialize timeout listener k configuration s =
     (let w = ts_world s; manager = in_button_manager (uw_world w);
          log = fd_assert (length (bc_gpios configuration) \<le> button_limit) ''configuration->count <= CONFIG_FIREFLY_SUBSYS_UX_BUTTON_LIMIT''
            (fd_assert (length manager < 4) ''fd_ux_button_manager.ux_button_count < (sizeof(fd_ux_button_manager.ux_buttons) / sizeof(fd_ux_button_manager.ux_buttons[0]))''
              (ts_log s));
          b = \<lparr>bt_configuration = configuration, bt_buttons = 0,
               bt_states = replicate button_limit \<lparr>bs_press_timestamp = 0, bs_release_timestamp = 0, bs_chords = 0, bs_press_sent = False\<rparr>,
               bt_consume_release = False\<rparr> in
      if 4 \<le> length manager then None
      else do {
        let w = w\<lparr>uw_world := (uw_world w)\<lparr>in_button_manager := manager @ [k], in_buttons := (in_buttons (uw_world w))(k := b)\<rparr>\<rparr>;
        let s = modify_timer k (\<lambda>t. t\<lparr>tm_context := k\<rparr>) (s\<lparr>ts_world := w, ts_log := log\<rparr>);
        let s = fd_timer_add_with_identifier k timeout s;
        w \<leftarrow> fd_ux_add_listener (bc_ux configuration) \<lparr>ul_context = k, ul_state_changed = Some listener\<rparr> (ts_world s);
        Some (s\<lparr>ts_world := w\<rparr>)
      })"

section \<open>Touches\<close>

definition fd_ux_touch_get :: "nat \<Rightarrow> ('d, 'a) ux_app \<Rightarrow> nat option" where
  "fd_ux_touch_get identifier w =
     find (\<lambda>k. tc_identifier (tt_configuration (in_touchs (uw_world w) k)) = identifier) (in_touch_manager (uw_world w))"

definition fd_ux_touch_is_any_pressed :: "fd_ux_touch_t \<Rightarrow> bool" where
  "fd_ux_touch_is_any_pressed t \<longleftrightarrow> tt_touchs t \<noteq> 0"

definition fd_ux_touch_ux_state_changed :: "nat \<Rightarrow> ('d, 'a) ux_app \<Rightarrow> ('d, 'a) ux_app" where
  "fd_ux_touch_ux_state_changed k = modify_touch k (\<lambda>t. t\<lparr>tt_consume_release := fd_ux_touch_is_any_pressed t\<rparr>)"

definition fd_ux_touch_event :: "('d, 'a) input_interface \<Rightarrow> nat \<Rightarrow> fd_touch_event_t \<Rightarrow> ('d, 'a) ux_app \<Rightarrow> ('d, 'a) ux_app option" where
  "fd_ux_touch_event iface k event w =
     (let w = modify_touch k (\<lambda>t. t\<lparr>tt_touchs := (if te_action event = fd_touch_action_pressed then 1 else 0)\<rparr>) w;
          t = in_touchs (uw_world w) k; u = tc_ux (tt_configuration t) in
      if tt_consume_release t then
        Some (if tt_touchs t = 0 then modify_touch k (\<lambda>t. t\<lparr>tt_consume_release := False\<rparr>) w else w)
      else if fd_ux_get_state (uw_uxs w u) \<noteq> fd_ux_state_on then fd_ux_set_state (ii_ux iface) u fd_ux_state_on w
      else do {
        w \<leftarrow> fd_ux_active (ii_ux iface) u w;
        screen \<leftarrow> ux_active_screen (uw_uxs w u);
        case us_touch screen of None \<Rightarrow> Some w | Some f \<Rightarrow> ii_touch iface f None event w
      })"

definition fd_ux_touch_send ::
  "('d, 'a) input_interface \<Rightarrow> nat \<Rightarrow> fd_touch_action_t \<Rightarrow> fd_touch_gesture_t \<Rightarrow> int \<Rightarrow> int \<Rightarrow> ('d, 'a) ux_app \<Rightarrow> ('d, 'a) ux_app option" where
  "fd_ux_touch_send iface k action gesture x y w =
     (let event = \<lparr>te_action = action, te_gesture = gesture, te_x = x, te_y = y\<rparr> in
      case tc_callback (tt_configuration (in_touchs (uw_world w) k)) of
        Some f \<Rightarrow> ii_touch iface f (Some k) event w
      | None \<Rightarrow> fd_ux_touch_event iface k event w)"

definition fd_ux_touch_initialize :: "nat \<Rightarrow> nat \<Rightarrow> fd_ux_touch_configuration_t \<Rightarrow> ('d, 'a) ux_app \<Rightarrow> ('d, 'a) ux_app option" where
  "fd_ux_touch_initialize listener k configuration w =
     (let manager = in_touch_manager (uw_world w);
          log = fd_assert (length manager < 4) ''fd_ux_touch_manager.ux_touch_count < (sizeof(fd_ux_touch_manager.ux_touchs) / sizeof(fd_ux_touch_manager.ux_touchs[0]))'' (uw_log w);
          t = \<lparr>tt_configuration = configuration, tt_consume_release = False, tt_touchs = 0\<rparr> in
      if 4 \<le> length manager then None
      else fd_ux_add_listener (tc_ux configuration) \<lparr>ul_context = k, ul_state_changed = Some listener\<rparr>
        (w\<lparr>uw_log := log, uw_world := (uw_world w)\<lparr>in_touch_manager := manager @ [k], in_touchs := (in_touchs (uw_world w))(k := t)\<rparr>\<rparr>))"

end
