(* ===== verification/FD_UxSpec.thy ===== *)
theory FD_UxSpec imports FD_UxInput begin

text \<open>
  What the user interface promises. For a button, the events alternate between pressed and released and the last one says what
  the button does, as long as no release bounces; when one does, a button that is held is reported as released. A display that
  nobody uses goes idle after its number of ticks.
\<close>

section \<open>Buttons\<close>

lemma button_bit_and: "i < 32 \<Longrightarrow> button_bit i AND w \<noteq> 0 \<longleftrightarrow> bit w i"
  using and_exp_eq_0_iff_not_bit[of w i] by (simp add: button_bit_def push_bit_eq_mult and.commute)

lemma bit_button_bit: "i < 32 \<Longrightarrow> bit (button_bit i) n \<longleftrightarrow> n = i"
  by (auto simp: button_bit_def bit_exp_iff)

lemma button_bit_inj: "i < 32 \<Longrightarrow> j < 32 \<Longrightarrow> button_bit i = button_bit j \<longleftrightarrow> i = j"
  by (metis bit_button_bit)

text \<open>A change of a pin and the end of the debounce time that follows it: the buttons that are read, and the times.\<close>

type_synonym round = "(u32 \<times> real32) \<times> (u32 \<times> real32)"

definition button_round :: "round \<Rightarrow> fd_ux_button_t \<Rightarrow> fd_ux_button_t \<times> fd_button_event_t list" where
  "button_round r b = (case r of ((c, t), (d, t')) \<Rightarrow> fd_ux_button_timeout_logic d t' (fd_ux_button_change_logic c t b))"

primrec button_rounds :: "round list \<Rightarrow> fd_ux_button_t \<Rightarrow> fd_ux_button_t \<times> fd_button_event_t list" where
  "button_rounds [] b = (b, [])"
| "button_rounds (r # rs) b = (case button_round r b of (b, es) \<Rightarrow> case button_rounds rs b of (b, es') \<Rightarrow> (b, es @ es'))"

definition actions :: "nat \<Rightarrow> fd_button_event_t list \<Rightarrow> fd_button_action_t list" where
  "actions i es = map be_action (filter (\<lambda>e. be_buttons e = button_bit i) es)"

text \<open>The actions alternate, from a button that is up or down to one that is.\<close>

primrec follows :: "bool \<Rightarrow> fd_button_action_t list \<Rightarrow> bool \<Rightarrow> bool" where
  "follows down [] down' \<longleftrightarrow> down = down'"
| "follows down (a # as) down' \<longleftrightarrow> a = (if down then fd_button_action_released else fd_button_action_pressed) \<and> follows (\<not> down) as down'"

text \<open>No reading at the end of the debounce time finds a button down again that was down before and was read as up at the change,
  and no time is 0, which stands for no time.\<close>

primrec settled :: "nat \<Rightarrow> bool \<Rightarrow> round list \<Rightarrow> bool" where
  "settled i down [] \<longleftrightarrow> True"
| "settled i down (r # rs) \<longleftrightarrow> (case r of ((c, t), (d, t')) \<Rightarrow>
     \<not> (down \<and> \<not> bit c i \<and> bit d i) \<and> t \<noteq> 0 \<and> t' \<noteq> 0 \<and> settled i (bit d i) rs)"

lemma on_states_sel [simp]:
  "bt_buttons (on_states f b) = bt_buttons b" "length (bt_states (on_states f b)) = button_limit"
  "i < button_limit \<Longrightarrow> bt_states (on_states f b) ! i = f i (bt_states b ! i)"
  by (simp_all add: on_states_def)

lemma actions_report:
  assumes "i < button_limit" "\<And>j. j < button_limit \<Longrightarrow> \<forall>e\<in>set (es j). be_buttons e = button_bit j"
  shows "actions i (concat (map es [0..<button_limit])) = map be_action (es i)"
proof -
  have f: "filter (\<lambda>e. be_buttons e = button_bit i) (es j) = (if j = i then es j else [])" if "j < button_limit" for j
    using assms(2)[OF that] that assms(1) button_bit_inj[of i j] by (auto simp: filter_empty_conv button_limit_def intro!: filter_True)
  have "filter (\<lambda>e. be_buttons e = button_bit i) (concat (map es js)) = concat (map (\<lambda>j. if j = i then es j else []) js)"
    if "set js \<subseteq> {..<button_limit}" for js using that f by (induction js) auto
  from this[of "[0..<button_limit]"] have "filter (\<lambda>e. be_buttons e = button_bit i) (concat (map es [0..<button_limit])) =
      concat (map (\<lambda>j. if j = i then es j else []) [0..<button_limit])" by (simp add: atLeast0LessThan)
  then have "actions i (concat (map es [0..<button_limit])) = map be_action (concat (map (\<lambda>j. if j = i then es j else []) [0..<button_limit]))"
    by (simp add: actions_def)
  also have "concat (map (\<lambda>j. if j = i then es j else []) [0..<button_limit]) = es i"
    using assms(1) by (auto simp: button_limit_def upt_rec less_2_cases_iff)
  finally show ?thesis .
qed

lemma report_button_buttons: "\<forall>e\<in>set (snd (report_button holds pressed i s)). be_buttons e = button_bit i"
  by (auto simp: report_button_def Let_def)

lemma note_bits:
  assumes "i < 32"
  shows "note_times p r t i s =
    (let s = (if bit p i then s\<lparr>bs_press_timestamp := t\<rparr> else s) in if bit r i then s\<lparr>bs_release_timestamp := t\<rparr> else s)"
  using button_bit_and[OF assms] by (simp add: note_times_def Let_def)

text \<open>One button in a round, by what there is a time for: a press, a release, and whether the press has been sent. The arguments say
  where the button was, and what is read at the change and at the end of the debounce time.\<close>

type_synonym flags = "bool \<times> bool \<times> bool"

definition state_flags :: "fd_ux_button_state_t \<Rightarrow> flags" where
  "state_flags s = (bs_press_timestamp s \<noteq> 0, bs_release_timestamp s \<noteq> 0, bs_press_sent s)"

fun flag_round :: "bool \<Rightarrow> bool \<Rightarrow> bool \<Rightarrow> flags \<Rightarrow> flags \<times> fd_button_action_t list" where
  "flag_round b c d (press, release, sent) =
     (let press = press \<or> c \<and> \<not> b \<or> d \<and> \<not> c; release = release \<or> \<not> c \<and> b \<or> \<not> d \<and> c in
      if press \<and> sent \<and> d \<and> \<not> c then ((press, release, sent), [])
      else let (sent, as) = (if press \<and> \<not> sent then (True, [fd_button_action_pressed]) else (sent, []))
           in if release then ((False, False, False), as @ [fd_button_action_released]) else ((press, release, sent), as))"

lemma report_flags:
  assumes i: "i < 32" and t: "t \<noteq> 0" "t' \<noteq> 0"
  shows "case report_button holds (d AND NOT c) i (note_chords d i (note_times (d AND NOT c) (NOT d AND c) t' i
      (note_chords c i (note_times (c AND NOT b) (NOT c AND b) t i s)))) of
    (s', es) \<Rightarrow> (state_flags s', map be_action es) = flag_round (bit b i) (bit c i) (bit d i) (state_flags s)"
proof -
  define s1 where "s1 = note_chords c i (note_times (c AND NOT b) (NOT c AND b) t i s)"
  define s2 where "s2 = note_chords d i (note_times (d AND NOT c) (NOT d AND c) t' i s1)"
  have s1: "state_flags s1 = (bs_press_timestamp s \<noteq> 0 \<or> bit c i \<and> \<not> bit b i, bs_release_timestamp s \<noteq> 0 \<or> \<not> bit c i \<and> bit b i, bs_press_sent s)"
    using i t by (simp add: s1_def state_flags_def note_bits[OF i] note_chords_def Let_def bit_and_iff bit_not_iff)
  have s2: "state_flags s2 = (fst (state_flags s1) \<or> bit d i \<and> \<not> bit c i, fst (snd (state_flags s1)) \<or> \<not> bit d i \<and> bit c i, snd (snd (state_flags s1)))"
    using i t by (simp add: s2_def state_flags_def note_bits[OF i] note_chords_def Let_def bit_and_iff bit_not_iff)
  have p: "button_bit i AND (d AND NOT c) \<noteq> 0 \<longleftrightarrow> bit d i \<and> \<not> bit c i"
    using i by (simp add: button_bit_and bit_and_iff bit_not_iff)
  have f: "case report_button holds (d AND NOT c) i s2 of (s', es) \<Rightarrow> (state_flags s', map be_action es) =
      (let (press, release, sent) = state_flags s2 in
       if press \<and> sent \<and> bit d i \<and> \<not> bit c i then ((press, release, sent), [])
       else let (sent, as) = (if press \<and> \<not> sent then (True, [fd_button_action_pressed]) else (sent, []))
            in if release then ((False, False, False), as @ [fd_button_action_released]) else ((press, release, sent), as))"
    by (cases "bs_press_timestamp s2 = 0"; cases "bs_release_timestamp s2 = 0"; cases "bs_press_sent s2"; cases "bit d i \<and> \<not> bit c i")
       (simp_all add: report_button_def state_flags_def p Let_def)
  show ?thesis unfolding s1_def[symmetric] s2_def[symmetric] using f unfolding s2 s1 by (simp add: state_flags_def Let_def)
qed

lemma button_round_flags:
  assumes "i < button_limit" "t \<noteq> 0" "t' \<noteq> 0"
  shows "bt_buttons (fst (button_round ((c, t), (d, t')) b)) = d"
    and "(state_flags (bt_states (fst (button_round ((c, t), (d, t')) b)) ! i), actions i (snd (button_round ((c, t), (d, t')) b))) =
      flag_round (bit (bt_buttons b) i) (bit c i) (bit d i) (state_flags (bt_states b ! i))"
proof -
  have i: "i < 32" using assms(1) by (simp add: button_limit_def)
  note defs = button_round_def fd_ux_button_timeout_logic_def fd_ux_button_change_logic_def fd_ux_button_check_def Let_def
  show "bt_buttons (fst (button_round ((c, t), (d, t')) b)) = d" by (simp add: defs)
  show "(state_flags (bt_states (fst (button_round ((c, t), (d, t')) b)) ! i), actions i (snd (button_round ((c, t), (d, t')) b))) =
      flag_round (bit (bt_buttons b) i) (bit c i) (bit d i) (state_flags (bt_states b ! i))"
    using report_flags[OF i assms(2,3), where holds = "d OR c" and b = "bt_buttons b" and s = "bt_states b ! i"]
      assms(1) actions_report[OF assms(1) report_button_buttons]
    by (simp add: defs split_def)
qed

lemma flag_round_settled:
  "\<not> (b \<and> \<not> c \<and> d) \<Longrightarrow> fst (flag_round b c d (b, False, b)) = (d, False, d) \<and> follows b (snd (flag_round b c d (b, False, b))) d"
  by (cases b; cases c; cases d) simp_all

definition button_rests :: "nat \<Rightarrow> fd_ux_button_t \<Rightarrow> bool" where
  "button_rests i b \<longleftrightarrow> (let down = bit (bt_buttons b) i in state_flags (bt_states b ! i) = (down, False, down))"

text \<open>Whatever is done with the buttons, as long as no release bounces: the events of a button alternate between pressed and
  released, beginning with pressed, and after the debounce time the last event says whether the button is down.\<close>

theorem fd_ux_button_alternates:
  assumes "i < button_limit" "button_rests i b" "settled i (bit (bt_buttons b) i) rs"
  shows "follows (bit (bt_buttons b) i) (actions i (snd (button_rounds rs b))) (bit (bt_buttons (fst (button_rounds rs b))) i)"
proof -
  have app: "follows p as q \<Longrightarrow> follows q as' r \<Longrightarrow> follows p (as @ as') r" for p q r as as'
    by (induction as arbitrary: p) auto
  show ?thesis using assms(2,3)
  proof (induction rs arbitrary: b)
    case (Cons r rs)
    obtain c t d t' where r: "r = ((c, t), (d, t'))" by (metis prod.collapse)
    define b1 where "b1 = fst (button_round r b)"
    have s: "t \<noteq> 0" "t' \<noteq> 0" "\<not> (bit (bt_buttons b) i \<and> \<not> bit c i \<and> bit d i)" "settled i (bit d i) rs" using Cons.prems(2) by (simp_all add: r)
    note 1 = button_round_flags[OF assms(1) s(1,2), of c d b, folded r b1_def] and 2 = flag_round_settled[OF s(3)]
    have "state_flags (bt_states b ! i) = (bit (bt_buttons b) i, False, bit (bt_buttons b) i)" using Cons.prems(1) by (simp add: button_rests_def Let_def)
    note 3 = 1(2)[unfolded this]
    have "state_flags (bt_states b1 ! i) = (bit d i, False, bit d i)" using arg_cong[OF 3, of fst] 2 by (simp only: fst_conv)
    moreover have "follows (bit (bt_buttons b) i) (actions i (snd (button_round r b))) (bit d i)" using arg_cong[OF 3, of snd] 2 by (simp only: snd_conv)
    ultimately have b1: "button_rests i b1" "bt_buttons b1 = d" "follows (bit (bt_buttons b) i) (actions i (snd (button_round r b))) (bit d i)"
      using 1(1) by (simp_all add: button_rests_def Let_def)
    show ?case using app[OF b1(3) Cons.IH[OF b1(1), unfolded b1(2), OF s(4)]] by (simp add: actions_def split_def b1_def)
  qed (simp add: actions_def)
qed

definition button_at_rest :: "fd_ux_button_configuration_t \<Rightarrow> fd_ux_button_t" where
  "button_at_rest configuration = \<lparr>bt_configuration = configuration, bt_buttons = 0,
     bt_states = replicate button_limit \<lparr>bs_press_timestamp = 0, bs_release_timestamp = 0, bs_chords = 0, bs_press_sent = False\<rparr>,
     bt_consume_release = False\<rparr>"

lemma button_at_rest_rests: "i < button_limit \<Longrightarrow> button_rests i (button_at_rest configuration)"
  by (simp add: button_rests_def button_at_rest_def state_flags_def Let_def)

text \<open>A release that bounces leaves its time behind: when the other button is pressed, the button that is still held is reported as
  released, and once more when it is let go.\<close>

theorem fd_ux_button_released_while_held:
  assumes "0 \<notin> {t1, t2, t3, t4, t5, t6, t7, t8}"
  shows "actions 0 (snd (button_rounds [((1, t1), (1, t2)), ((0, t3), (1, t4)), ((3, t5), (3, t6)), ((2, t7), (2, t8))] (button_at_rest configuration))) =
    [fd_button_action_pressed, fd_button_action_released, fd_button_action_released]"
proof -
  have t: "t1 \<noteq> 0" "t2 \<noteq> 0" "t3 \<noteq> 0" "t4 \<noteq> 0" "t5 \<noteq> 0" "t6 \<noteq> 0" "t7 \<noteq> 0" "t8 \<noteq> 0" using assms by auto
  define b0 where "b0 = button_at_rest configuration"
  define b1 where "b1 = fst (button_round ((1, t1), (1, t2)) b0)"
  define b2 where "b2 = fst (button_round ((0, t3), (1, t4)) b1)"
  define b3 where "b3 = fst (button_round ((3, t5), (3, t6)) b2)"
  have l: "0 < button_limit" and bits: "bit (3 :: u32) 0" "\<not> bit (2 :: u32) 0" by (simp_all add: button_limit_def)
  have 0: "bt_buttons b0 = 0" "state_flags (bt_states b0 ! 0) = (False, False, False)"
    by (simp_all add: b0_def button_at_rest_def state_flags_def l)
  note 1 = button_round_flags[OF l t(1,2), of 1 1 b0, folded b1_def, unfolded 0]
  note 2 = button_round_flags[OF l t(3,4), of 0 1 b1, folded b2_def, unfolded 1(1)]
  note 3 = button_round_flags[OF l t(5,6), of 3 3 b2, folded b3_def, unfolded 2(1)]
  note 4 = button_round_flags[OF l t(7,8), of 2 2 b3, unfolded 3(1)]
  have f: "state_flags (bt_states b1 ! 0) = (True, False, True)" "state_flags (bt_states b2 ! 0) = (True, True, True)"
    "state_flags (bt_states b3 ! 0) = (False, False, False)"
    using 1(2) 2(2) 3(2) by (auto simp: bits)
  have a: "actions 0 (snd (button_round ((1, t1), (1, t2)) b0)) = [fd_button_action_pressed]" "actions 0 (snd (button_round ((0, t3), (1, t4)) b1)) = []"
    "actions 0 (snd (button_round ((3, t5), (3, t6)) b2)) = [fd_button_action_released]"
    "actions 0 (snd (button_round ((2, t7), (2, t8)) b3)) = [fd_button_action_released]"
    using 1(2) 2(2) 3(2) 4(2) by (auto simp: bits f)
  have app: "actions 0 (xs @ ys) = actions 0 xs @ actions 0 ys" for xs ys by (simp add: actions_def)
  show ?thesis using a by (simp add: split_def app b0_def[symmetric] b1_def[symmetric] b2_def[symmetric] b3_def[symmetric] actions_def)
qed

section \<open>Idling\<close>

text \<open>Functions of the application that note that they are called, and leave the interface alone; the idle state is \<open>state\<close>.\<close>

definition noting :: "'d fd_graphics_backend_t \<Rightarrow> fd_ux_state_t \<Rightarrow> ('d, ux_call list) ux_interface" where
  "noting b state = \<lparr>ui_backend = b, ui_call = (\<lambda>call w. Some (w\<lparr>uw_world := uw_world w @ [call]\<rparr>)), ui_transition = (\<lambda>f w. Some (state, w))\<rparr>"

definition calls_of :: "(nat \<Rightarrow> ux_call) \<Rightarrow> nat option \<Rightarrow> ux_call list" where
  "calls_of call f = (case f of None \<Rightarrow> [] | Some f \<Rightarrow> [call f])"

lemma modify_ux_sel [simp]:
  "uw_uxs (modify_ux u f w) u = f (uw_uxs w u)" "uw_manager (modify_ux u f w) = uw_manager w" "uw_world (modify_ux u f w) = uw_world w"
  by (simp_all add: modify_ux_def)

lemma call_if_noting [simp]: "call_if (noting b state) call f w = Some (w\<lparr>uw_world := uw_world w @ calls_of call f\<rparr>)"
  by (cases f) (simp_all add: call_if_def noting_def calls_of_def)

lemma noting_sel [simp]: "ui_backend (noting b state) = b" "ui_transition (noting b state) f w = Some (state, w)"
  by (simp_all add: noting_def)

definition listener_calls :: "fd_ux_state_t \<Rightarrow> fd_ux_state_t \<Rightarrow> fd_ux_listener_t list \<Rightarrow> ux_call list" where
  "listener_calls old new listeners = concat (map (\<lambda>l. calls_of (\<lambda>f. call_listener f (ul_context l) old new) (ul_state_changed l)) listeners)"

lemma listener_loop_noting:
  assumes "length (ux_listeners (uw_uxs w u)) \<le> 4" "i \<le> length (ux_listeners (uw_uxs w u))"
  shows "listener_loop (noting b state) u old new i w =
    Some (w\<lparr>uw_world := uw_world w @ listener_calls old new (drop i (ux_listeners (uw_uxs w u)))\<rparr>)"
  using assms
proof (induction "length (ux_listeners (uw_uxs w u)) - i" arbitrary: i w)
  case 0
  then show ?case by (subst listener_loop.simps) (simp add: listener_calls_def)
next
  case (Suc n)
  then have i: "i < length (ux_listeners (uw_uxs w u))" by simp
  define w1 where "w1 = w\<lparr>uw_world := uw_world w @ calls_of (\<lambda>f. call_listener f (ul_context (ux_listeners (uw_uxs w u) ! i)) old new)
    (ul_state_changed (ux_listeners (uw_uxs w u) ! i))\<rparr>"
  have "listener_loop (noting b state) u old new i w = listener_loop (noting b state) u old new (Suc i) w1"
    using i Suc.prems(1) by (subst listener_loop.simps) (simp add: w1_def Let_def)
  then show ?case
    using Suc.hyps(1)[of w1 "Suc i"] Suc.hyps(2) Suc.prems i by (simp add: w1_def listener_calls_def Cons_nth_drop_Suc[symmetric])
qed

lemma unat_inc: "x < y \<Longrightarrow> unat (x + 1) = Suc (unat x)" for x y :: u32
proof -
  have "unat y < 2 ^ 32" using unsigned_less[of y] by simp
  then show "x < y \<Longrightarrow> unat (x + 1) = Suc (unat x)" by (simp add: word_less_nat_alt unat_word_ariths)
qed

text \<open>An interface that is on and shows a screen, with a canvas that can be updated again and again.\<close>

definition ux_on :: "('d fd_canvas_t \<Rightarrow> bool) \<Rightarrow> fd_ux_screen_t \<Rightarrow> 'd fd_ux_t \<Rightarrow> bool" where
  "ux_on calm screen ux \<longleftrightarrow> ux_state ux = fd_ux_state_on \<and> ux_update_enabled ux \<and> ux_active_screen ux = Some screen \<and> calm (ux_canvas ux) \<and>
     length (ux_listeners ux) \<le> 4 \<and> 0 < uc_idle_ticks (ux_configuration ux) \<and> uc_idle_ticks (ux_configuration ux) < - 1"

definition idle_state :: "fd_ux_state_t \<Rightarrow> 'd fd_ux_t \<Rightarrow> fd_ux_state_t" where
  "idle_state state ux = (if uc_get_idle_transition_state (ux_configuration ux) = None then fd_ux_state_idle else state)"

definition idle_calls :: "fd_ux_state_t \<Rightarrow> 'd fd_ux_t \<Rightarrow> ux_call list" where
  "idle_calls state ux = calls_of (\<lambda>f. call_state_changed f fd_ux_state_on (idle_state state ux)) (uc_state_changed (ux_configuration ux)) @
     listener_calls fd_ux_state_on (idle_state state ux) (ux_listeners ux)"

lemma ux_tick_counts:
  assumes calm: "\<forall>c. calm c \<longrightarrow> (\<exists>c'. fd_canvas_update b fd_graphics_area_empty True c = Some c' \<and> calm c')"
    and w: "uw_manager w = [u]" "ux_on calm screen (uw_uxs w u)" "ux_idle_ticks (uw_uxs w u) < uc_idle_ticks (ux_configuration (uw_uxs w u))"
  obtains w' where "fd_ux_tick (noting b state) w = Some w'" "uw_manager w' = [u]" "ux_on calm screen (uw_uxs w' u)"
    "ux_idle_ticks (uw_uxs w' u) = ux_idle_ticks (uw_uxs w u) + 1" "ux_configuration (uw_uxs w' u) = ux_configuration (uw_uxs w u)"
    "ux_listeners (uw_uxs w' u) = ux_listeners (uw_uxs w u)" "uw_world w' = uw_world w @ calls_of call_animate (us_animate screen)"
proof -
  define ux where "ux = uw_uxs w u"
  note on = w(2)[unfolded ux_on_def, folded ux_def]
  obtain c where c: "fd_canvas_update b fd_graphics_area_empty True (ux_canvas ux) = Some c" "calm c" using calm on by blast
  have "ux_idle_ticks ux + 1 \<le> uc_idle_ticks (ux_configuration ux)" using w(3) unfolding ux_def[symmetric] by (rule inc_le)
  then have idle: "\<not> uc_idle_ticks (ux_configuration ux) < ux_idle_ticks ux + 1" by simp
  have screen: "ux_active_screen (ux\<lparr>ux_idle_ticks := ux_idle_ticks ux + 1\<rparr>) = Some screen" using on by (simp add: ux_active_screen_def)
  let ?w = "modify_ux u (\<lambda>ux. ux\<lparr>ux_idle_ticks := ux_idle_ticks ux + 1\<rparr>) w"
  let ?w' = "modify_ux u (\<lambda>ux. ux\<lparr>ux_canvas := c\<rparr>) (?w\<lparr>uw_world := uw_world w @ calls_of call_animate (us_animate screen)\<rparr>)"
  have "ux_tick_one (noting b state) u w = Some (False, ?w')"
    using on idle screen c(1)
    by (simp add: ux_tick_one_def ux_def[symmetric] fd_ux_should_idle_def animate_def fd_ux_update_def canvas_update_def modify_ux_def word_neq_0_conv)
  then have "fd_ux_tick (noting b state) w = Some ?w'"
    using w(1) by (simp add: fd_ux_tick_def ux_tick_loop.simps[of _ 0] ux_tick_loop.simps[of _ "Suc 0"])
  moreover have "ux_on calm screen (uw_uxs ?w' u)"
    using on c(2) screen by (simp add: ux_on_def modify_ux_def ux_def[symmetric]) (simp add: ux_active_screen_def)
  ultimately show ?thesis by (intro that[of ?w']) (simp_all add: w(1) modify_ux_def)
qed

lemma fd_ux_set_state_noting:
  assumes "t \<noteq> ux_state (uw_uxs w u)" "t \<noteq> fd_ux_state_on" "length (ux_listeners (uw_uxs w u)) \<le> 4"
  shows "fd_ux_set_state (noting b state) u t w = Some ((modify_ux u (\<lambda>ux. ux\<lparr>ux_idle_ticks := 0, ux_state := t\<rparr>) w)\<lparr>uw_world := uw_world w @
    calls_of (\<lambda>f. call_state_changed f (ux_state (uw_uxs w u)) t) (uc_state_changed (ux_configuration (uw_uxs w u))) @
    listener_calls (ux_state (uw_uxs w u)) t (ux_listeners (uw_uxs w u))\<rparr>)"
  using assms by (simp add: fd_ux_set_state_def listener_loop_noting Let_def)

lemma ux_tick_idles:
  assumes w: "uw_manager w = [u]" "ux_on calm screen (uw_uxs w u)" "ux_idle_ticks (uw_uxs w u) = uc_idle_ticks (ux_configuration (uw_uxs w u))"
    and t: "idle_state state (uw_uxs w u) \<noteq> fd_ux_state_on"
  shows "\<exists>w'. fd_ux_tick (noting b state) w = Some w' \<and> ux_state (uw_uxs w' u) = idle_state state (uw_uxs w u) \<and>
    ux_idle_ticks (uw_uxs w' u) = 0 \<and> uw_world w' = uw_world w @ idle_calls state (uw_uxs w u)"
proof -
  define ux where "ux = uw_uxs w u"
  note on = w(2)[unfolded ux_on_def, folded ux_def]
  have late: "uc_idle_ticks (ux_configuration ux) < ux_idle_ticks ux + 1"
    using on w(3) unat_inc[of "uc_idle_ticks (ux_configuration ux)" "- 1"] by (simp add: word_less_nat_alt ux_def)
  define w1 where "w1 = modify_ux u (\<lambda>ux. ux\<lparr>ux_idle_ticks := ux_idle_ticks ux + 1\<rparr>) w"
  have w1: "uw_uxs w1 u = ux\<lparr>ux_idle_ticks := ux_idle_ticks ux + 1\<rparr>" "uw_world w1 = uw_world w" by (simp_all add: w1_def ux_def)
  have transition: "(case uc_get_idle_transition_state (ux_configuration ux) of
      None \<Rightarrow> Some (fd_ux_state_idle, v) | Some f \<Rightarrow> ui_transition (noting b state) f v) = Some (idle_state state ux, v)" for v
    by (simp add: idle_state_def split: option.split)
  obtain w2 where w2: "fd_ux_set_state (noting b state) u (idle_state state ux) w1 = Some w2" "ux_state (uw_uxs w2 u) = idle_state state ux"
    "ux_idle_ticks (uw_uxs w2 u) = 0" "uw_world w2 = uw_world w @ idle_calls state ux"
    using fd_ux_set_state_noting[of "idle_state state ux" w1 u b state] on t by (simp add: w1 ux_def[symmetric] idle_calls_def)
  have "ux_tick_one (noting b state) u w = Some (True, w2)"
    using on late w2(1) by (simp add: ux_tick_one_def ux_def[symmetric] w1_def transition fd_ux_should_idle_def word_neq_0_conv Let_def)
  then show ?thesis using w(1) w2 by (simp add: fd_ux_tick_def ux_tick_loop.simps[of _ 0] ux_def)
qed

text \<open>When nothing happens, an interface that has a time limit stays on for as many ticks, animating its screen and updating its display
  in each, and with the next one it goes to its idle state and tells so, once, to the application and the listeners.\<close>

theorem fd_ux_tick_idles:
  assumes calm: "\<forall>c. calm c \<longrightarrow> (\<exists>c'. fd_canvas_update b fd_graphics_area_empty True c = Some c' \<and> calm c')"
    and w: "uw_manager w = [u]" "ux_on calm screen (uw_uxs w u)" "ux_idle_ticks (uw_uxs w u) = 0"
    and t: "idle_state state (uw_uxs w u) \<noteq> fd_ux_state_on" and n: "n = unat (uc_idle_ticks (ux_configuration (uw_uxs w u)))"
  shows "\<exists>w1 w2. steps (\<lambda>_. fd_ux_tick (noting b state)) (replicate n ()) w = Some w1 \<and> ux_state (uw_uxs w1 u) = fd_ux_state_on \<and>
    uw_world w1 = uw_world w @ concat (replicate n (calls_of call_animate (us_animate screen))) \<and>
    fd_ux_tick (noting b state) w1 = Some w2 \<and> ux_state (uw_uxs w2 u) = idle_state state (uw_uxs w u) \<and>
    uw_world w2 = uw_world w1 @ idle_calls state (uw_uxs w u)"
proof -
  define limit where "limit = uc_idle_ticks (ux_configuration (uw_uxs w u))"
  have "\<exists>w1. steps (\<lambda>_. fd_ux_tick (noting b state)) (replicate k ()) v = Some w1 \<and> uw_manager w1 = [u] \<and> ux_on calm screen (uw_uxs w1 u) \<and>
      ux_idle_ticks (uw_uxs w1 u) = ux_idle_ticks (uw_uxs v u) + of_nat k \<and> ux_configuration (uw_uxs w1 u) = ux_configuration (uw_uxs v u) \<and>
      ux_listeners (uw_uxs w1 u) = ux_listeners (uw_uxs v u) \<and> uw_world w1 = uw_world v @ concat (replicate k (calls_of call_animate (us_animate screen)))"
    if "uw_manager v = [u]" "ux_on calm screen (uw_uxs v u)" "uc_idle_ticks (ux_configuration (uw_uxs v u)) = limit"
      "unat (ux_idle_ticks (uw_uxs v u)) + k \<le> unat limit" for k v
    using that
  proof (induction k arbitrary: v)
    case (Suc k)
    have less: "ux_idle_ticks (uw_uxs v u) < limit" using Suc.prems(4) by (simp add: word_less_nat_alt)
    obtain v1 where v1: "fd_ux_tick (noting b state) v = Some v1" "uw_manager v1 = [u]" "ux_on calm screen (uw_uxs v1 u)"
      "ux_idle_ticks (uw_uxs v1 u) = ux_idle_ticks (uw_uxs v u) + 1" "ux_configuration (uw_uxs v1 u) = ux_configuration (uw_uxs v u)"
      "ux_listeners (uw_uxs v1 u) = ux_listeners (uw_uxs v u)" "uw_world v1 = uw_world v @ calls_of call_animate (us_animate screen)"
      by (rule ux_tick_counts[OF calm Suc.prems(1,2)]) (use less Suc.prems(3) in simp_all)
    have "unat (ux_idle_ticks (uw_uxs v u) + 1) = unat (ux_idle_ticks (uw_uxs v u)) + 1" using unat_inc[OF less] by simp
    then show ?case using Suc.IH[OF v1(2,3)] Suc.prems(3,4) v1 by (auto simp: algebra_simps)
  qed simp
  from this[OF w(1,2) limit_def[symmetric], of n] obtain w1 where w1: "steps (\<lambda>_. fd_ux_tick (noting b state)) (replicate n ()) w = Some w1"
    "uw_manager w1 = [u]" "ux_on calm screen (uw_uxs w1 u)" "ux_idle_ticks (uw_uxs w1 u) = limit" "ux_configuration (uw_uxs w1 u) = ux_configuration (uw_uxs w u)"
    "ux_listeners (uw_uxs w1 u) = ux_listeners (uw_uxs w u)" "uw_world w1 = uw_world w @ concat (replicate n (calls_of call_animate (us_animate screen)))"
    using w(3) n by (auto simp: limit_def)
  have same: "idle_state state (uw_uxs w1 u) = idle_state state (uw_uxs w u)" "idle_calls state (uw_uxs w1 u) = idle_calls state (uw_uxs w u)"
    using w1(5,6) by (simp_all add: idle_state_def idle_calls_def)
  from ux_tick_idles[OF w1(2,3), of state b] w1 t show ?thesis unfolding same by (auto simp: ux_on_def limit_def)
qed

text \<open>Whether updates are enabled is answered the wrong way round.\<close>

lemma fd_ux_get_update_enabled_negated: "fd_ux_get_update_enabled (uw_uxs (fd_ux_set_update_enabled u enabled w) u) = (\<not> enabled)"
  by (simp add: fd_ux_get_update_enabled_def fd_ux_set_update_enabled_def)

section \<open>Instances\<close>

definition watch_buttons :: fd_ux_button_configuration_t where
  "watch_buttons = \<lparr>bc_identifier = 0, bc_ux = 0, bc_gpios = [9, 10], bc_callback = None\<rparr>"

lemma fd_ux_button_alternates_witness:
  "follows False (actions 0 (snd (button_rounds [((1, 1), (1, 2)), ((1, 3), (0, 4)), ((1, 5), (0, 6))] (button_at_rest watch_buttons)))) False"
proof -
  have b: "bt_buttons (button_at_rest watch_buttons) = 0" by (simp add: button_at_rest_def)
  have "bt_buttons (fst (button_rounds [((1, 1), (1, 2)), ((1, 3), (0, 4)), ((1, 5), (0, 6))] (button_at_rest watch_buttons))) = 0"
    using button_round_flags(1)[where i = 0] by (simp add: split_def button_limit_def)
  then show ?thesis
    using fd_ux_button_alternates[of 0 "button_at_rest watch_buttons" "[((1, 1), (1, 2)), ((1, 3), (0, 4)), ((1, 5), (0, 6))]"]
      button_at_rest_rests[of 0 watch_buttons] by (simp add: b button_limit_def)
qed

lemma fd_ux_button_released_while_held_witness:
  "actions 0 (snd (button_rounds [((1, 1), (1, 2)), ((0, 3), (1, 4)), ((3, 5), (3, 6)), ((2, 7), (2, 8))] (button_at_rest watch_buttons))) =
    [fd_button_action_pressed, fd_button_action_released, fd_button_action_released]"
  by (rule fd_ux_button_released_while_held) simp

text \<open>A display with one screen that animates and has no planes.\<close>

definition watch_display :: "unit fd_graphics_t" where
  "watch_display = fd_graphics_initialize 4 2 (replicate 24 0)
     \<lparr>gr_width = 0, gr_height = 0, gr_buffer = [], gr_clipping = fd_graphics_area_empty, gr_font = fd_graphics_empty_font, gr_foreground = 0,
      gr_background = 0, gr_is_display_on = False, gr_frame_buffer_size = 24, gr_device = (), gr_log = []\<rparr>"

definition watch_canvas :: "unit fd_canvas_t" where
  "watch_canvas = \<lparr>cv_planes = [], cv_drawings = (\<lambda>_. []),
     cv_memory = \<lparr>mem_images = (\<lambda>_. None), mem_bitmaps = (\<lambda>_. None), mem_fonts = (\<lambda>_. None), mem_strings = (\<lambda>_. None)\<rparr>,
     cv_graphics = watch_display, cv_change = no_change True, cv_work_queue = False, cv_submit_result = 1, cv_is_rendering = False,
     cv_render_state = \<lparr>st_planes = [], st_change = no_change True\<rparr>, cv_log = []\<rparr>"

definition watch_screen :: fd_ux_screen_t where
  "watch_screen = \<lparr>us_id = 0, us_planes = [], us_preview = 1, us_activate = 2, us_deactivate = 3, us_animate = Some 4, us_button = None, us_touch = None\<rparr>"

definition watch_ux :: "(unit, ux_call list) ux_world" where
  "watch_ux = \<lparr>uw_uxs = (\<lambda>_. \<lparr>ux_configuration = \<lparr>uc_identifier = 0, uc_screens = [watch_screen], uc_initial_screen = 0, uc_idle_ticks = 3,
       uc_state_changed = Some 5, uc_screen_changed = None, uc_get_idle_transition_state = None, uc_plane = None, uc_work_queue = False\<rparr>,
       ux_listeners = [\<lparr>ul_context = 6, ul_state_changed = Some 7\<rparr>], ux_canvas = watch_canvas, ux_screen = Some 0, ux_animation = True,
       ux_update_enabled = True, ux_idle_ticks = 0, ux_state = fd_ux_state_on\<rparr>),
     uw_manager = [0], uw_log = [], uw_world = []\<rparr>"

definition canvas_calm :: "unit fd_canvas_t \<Rightarrow> bool" where
  "canvas_calm c \<longleftrightarrow> cv_planes c = [] \<and> fd_graphics_area_is_empty (ch_area (cv_change c)) \<and> \<not> cv_is_rendering c \<and> gr_is_display_on (cv_graphics c) \<and>
     gr_width (cv_graphics c) = 4 \<and> gr_height (cv_graphics c) = 2"

lemma canvas_calm_update:
  "canvas_calm c \<Longrightarrow> \<exists>c'. fd_canvas_update ram_backend fd_graphics_area_empty True c = Some c' \<and> canvas_calm c'"
  by (auto simp: canvas_calm_def fd_canvas_update_def fd_canvas_add_change_def fd_graphics_area_union_def fd_graphics_is_display_on_def
      fd_graphics_area_is_empty_def fd_graphics_area_empty_def fd_graphics_area_contains_def screen_area_def int_ok_def and_then_def Let_def)

lemma fd_ux_tick_idles_witness:
  "\<exists>w1 w2. steps (\<lambda>_. fd_ux_tick (noting ram_backend fd_ux_state_off)) [(), (), ()] watch_ux = Some w1 \<and> ux_state (uw_uxs w1 0) = fd_ux_state_on \<and>
    fd_ux_tick (noting ram_backend fd_ux_state_off) w1 = Some w2 \<and> ux_state (uw_uxs w2 0) = fd_ux_state_idle \<and>
    uw_world w2 = [call_animate 4, call_animate 4, call_animate 4, call_state_changed 5 fd_ux_state_on fd_ux_state_idle,
      call_listener 7 6 fd_ux_state_on fd_ux_state_idle]"
proof -
  have "(3 :: u32) < - 1" by code_simp
  then have on: "ux_on canvas_calm watch_screen (uw_uxs watch_ux 0)"
    by (simp add: ux_on_def watch_ux_def ux_active_screen_def rd_def canvas_calm_def watch_canvas_def watch_display_def fd_graphics_initialize_def
        fd_graphics_reset_def no_change_def fd_graphics_area_is_empty_def fd_graphics_area_empty_def)
  have i: "idle_state fd_ux_state_off (uw_uxs watch_ux 0) = fd_ux_state_idle" "ux_idle_ticks (uw_uxs watch_ux 0) = 0" "uw_manager watch_ux = [0]"
    "uw_world watch_ux = []" "unat (uc_idle_ticks (ux_configuration (uw_uxs watch_ux 0))) = 3"
    "idle_calls fd_ux_state_off (uw_uxs watch_ux 0) =
       [call_state_changed 5 fd_ux_state_on fd_ux_state_idle, call_listener 7 6 fd_ux_state_on fd_ux_state_idle]"
    by (simp_all add: idle_state_def idle_calls_def watch_ux_def listener_calls_def calls_of_def)
  have a: "concat (replicate 3 (calls_of call_animate (us_animate watch_screen))) = [call_animate 4, call_animate 4, call_animate 4]"
    by (simp add: watch_screen_def calls_of_def numeral_3_eq_3)
  have r: "replicate 3 () = [(), (), ()]" by (simp add: numeral_3_eq_3)
  show ?thesis
    using fd_ux_tick_idles[of canvas_calm ram_backend watch_ux 0 watch_screen fd_ux_state_off 3] canvas_calm_update on i
    unfolding a r by auto
qed

end
