(* ===== verification/Spec2Isabelle.thy ===== *)
theory Spec2Isabelle
  imports FD_Prelude FD_Queue FD_Fifo FD_ObjectFifo FD_Cobs FD_Crc FD_Ieee754 FD_Binary FD_Envelope
    FD_Gateway FD_Sha1 FD_Aes FD_Boot FD_BootSpec FD_BootNrf53 FD_Calendar FD_Bit FD_Delta
    FD_KeyValueStore FD_KeyValueLog FD_KeyValueSpec FD_Double FD_Eval FD_EvalParse FD_EvalSpec FD_RpcStream FD_RpcStreamSpec
    FD_BootSplit FD_BootSplitController FD_BootSplitSpec
    FD_Graphics FD_GraphicsColor FD_GraphicsSpec FD_Drawing FD_Canvas FD_CanvasSpec
    FD_Countdown FD_Timer FD_Event FD_Work FD_Animation FD_Ux FD_UxInput FD_UxSpec
begin

text \<open>
  Firefly Zephyr: verification of the portable parts of the firmware library.

  The repository is a library for firmware on the Zephyr operating system (nRF5 devices, mostly), with a few applications.
  The modelled part is the code that computes and decides: everything that is the same on a host. The code that moves bits
  between registers, calls the kernel or waits for hardware is behind it, and is a parameter of the model where the modelled
  code calls it.

  \<^bold>\<open>How the parts work together.\<close>
  Messages between processors (subsys/base) are written with the binary writer, get an envelope with a checksum (CRC-16),
  are stuffed (COBS) so that a zero byte ends them, and are routed by a gateway to the dispatcher of their target. On top of
  this the split boot loader (subsys/boot) asks for its update over a serial link: the peripheral owns the flash and runs
  the boot loader core, the controller owns the update and serves reads of it. The core checks hashes (SHA-1) of the
  executable and the update, decrypts (AES-128 in CBC mode), compares versions, and erases, writes and starts. The key value
  store (subsys/storage) keeps protobuf messages in pages of flash. The RPC stream (subsys/rpc) makes a reliable, ordered
  stream out of datagrams. The canvas (subsys/graphics) asks the drawings of the application for changes and draws them again
  through a backend with a frame buffer. The user interface (subsys/ux) puts the screens of the application on a canvas, takes buttons
  and touches, and goes idle; timers, events, work queues and animations (subsys/base) are what the main loop moves on in ticks.

  \<^bold>\<open>Conventions.\<close>
  Definitions have the names of the functions they translate. A struct is a record whose members carry a prefix, an enum a
  datatype, an integer a word of its width, a \<open>size_t\<close> that stays below the size of an object a natural number. Memory that the
  code may access is a list of bytes: a read or write outside of it, a shift by more than the width, a division that C leaves
  undefined is \<open>None\<close>, so that \<open>\<exists>r. f x = Some r\<close> also says that nothing of this kind happens. A failed \<open>fd_assert\<close> is
  logged and the code goes on, as the macro does. Callbacks are functions over the state of the application, a type variable.
  Names from the library that clash with a function of the source get a suffix.

  \<^bold>\<open>The theories\<close>, in the order they build on each other:

  \<^item> \<open>FD_Prelude\<close>: byte lists with bounded reads and writes, the log of assertions, ring buffers.
  \<^item> \<open>FD_Queue\<close>: the contract of a bounded queue, a locale; \<open>FD_Fifo\<close> (fd_fifo.c) and \<open>FD_ObjectFifo\<close> (fd_object_fifo.c) are its
    instances: any sequence of calls behaves as one on a list.
  \<^item> \<open>FD_Cobs\<close> (fd_cobs.c): encoder and decoder work in place in one array; the encoding is free of zeros, of known length, and
    decodes to the message. The encoder reads ahead through a queue; an invariant of its layout says that the bytes it has
    not read yet are not overwritten.
  \<^item> \<open>FD_Crc\<close> (fd_crc16.c, fd_crc32.c): both are equal to polynomial division bit by bit, and detect bursts.
  \<^item> \<open>FD_Ieee754\<close> (fd_ieee754.c): half precision and single precision on their bits.
  \<^item> \<open>FD_Binary\<close> (fd_binary.c): the writer never leaves its buffer, sticky error flags tell what did not fit, and fields come back.
  \<^item> \<open>FD_Envelope\<close> (fd_envelope.c) and \<open>FD_Gateway\<close> (fd_dispatch.c, fd_gateway.c): a message sent by one gateway reaches the
    dispatcher of the other as it was; corruption of two adjacent bytes is noticed.
  \<^item> \<open>FD_Sha1\<close> (sha1.c, fd_crypto_sha.c) and \<open>FD_Aes\<close> (fd_crypto_aes.c): equal to the textbook definitions, in whatever pieces the data
    comes. The locales \<open>incremental_hash\<close> and \<open>block_decrypter\<close> are what the boot loader relies on.
  \<^item> \<open>FD_Boot\<close> (fd_boot.c), \<open>FD_BootSpec\<close> (a weakest precondition calculus, and the locale \<open>boot_platform\<close>: what the core
    guarantees over any platform that keeps its contract), \<open>FD_BootNrf53\<close> (fd_boot_nrf53.c, the defaults of fd_boot.c, and
    the two boot applications): the platform keeps the contract, so an update is installed exactly when the versions call for it,
    what was announced is what is in flash, and only a valid executable starts.
  \<^item> \<open>FD_BootSplit\<close> (fd_boot_split_peripheral.c), \<open>FD_BootSplitController\<close> (fd_boot_split_controller.c), \<open>FD_BootSplitSpec\<close>: the two ends of
    the serial link. The peripheral waits for a response inside of a handler, and dispatches further messages while it waits.
    \<open>FD_BootNrf53\<close> uses an abstract link; \<open>FD_BootSplitSpec\<close> shows that the real one delivers the bytes of the storage.
  \<^item> \<open>FD_Calendar\<close> (fd_calendar.c), \<open>FD_Bit\<close> (fd_bit.c), \<open>FD_Delta\<close> (fd_delta.c): the Gregorian calendar, fields of bits, and delta
    compression; the encodings come back.
  \<^item> \<open>FD_KeyValueStore\<close> (fd_key_value_store.c), \<open>FD_KeyValueLog\<close>, \<open>FD_KeyValueSpec\<close>: the flash as a log of records per page, an invariant of
    every state that completed calls, and resets between them, can reach (a step relation), and lookup, set, remove, erase and
    start over it.
  \<^item> \<open>FD_Double\<close> (the \<open>double\<close> of C on its bits), \<open>FD_Eval\<close> (fd_eval.c), \<open>FD_EvalParse\<close>, \<open>FD_EvalSpec\<close>: tokenizer, precedence climbing
    parser and evaluation; a printed expression is parsed to itself and evaluated to its value.
  \<^item> \<open>FD_RpcStream\<close> (fd_rpc_stream.c), \<open>FD_RpcStreamSpec\<close>: two ends over a link that loses, repeats and reorders; what is received is
    always a prefix of what was sent, and one delivery each way makes progress.
  \<^item> \<open>FD_Graphics\<close> (fd_graphics.c), \<open>FD_GraphicsColor\<close> (fd_graphics_color_8bit.c, fd_graphics_color_16bit.c, fd_graphics_gray_4bit.c),
    \<open>FD_GraphicsSpec\<close> (the locales \<open>frame_buffer\<close> and \<open>rgb_buffer\<close>, with the three backends as instances): an operation changes
    exactly the pixels of its clipped area.
  \<^item> \<open>FD_Drawing\<close> (fd_view.c, fd_drawing.c, fd_drawing_rectangle.c, _image, _icon, _text, _battery), \<open>FD_Canvas\<close> (fd_canvas.c),
    \<open>FD_CanvasSpec\<close>: drawing only what has changed shows the same picture as drawing everything.
  \<^item> \<open>FD_Countdown\<close> (the locale \<open>countdown\<close>: something counts down and is called once), \<open>FD_Timer\<close> (fd_timer.c) and \<open>FD_Work\<close>
    (fd_work.c), its two instances; \<open>FD_Event\<close> (fd_event.c): every event that is set is delivered to its consumers, and what is set during
    the delivery waits for the next; \<open>FD_Animation\<close> (fd_animation.c, fd_animation.h): a sequence plays through its steps in order.
  \<^item> \<open>FD_Ux\<close> (fd_ux.c), \<open>FD_UxInput\<close> (fd_button.c, fd_ux_button.c, fd_ux_touch.c), \<open>FD_UxSpec\<close>: presses and releases that alternate, a
    display that goes idle after its ticks. Functions of the application are arguments that act on the whole state.
  \<^item> \<open>FD_Float\<close>: the \<open>float\<close> of C for values that are finite, as integer multiples of 2^-149, rounded to the nearest even.

  \<^bold>\<open>Bounds and fuel.\<close>
  Loops over data are structural or have a measure. The parser of expressions takes fuel, \<open>parser_fuel\<close>, twice the length of the
  text and two: \<open>fd_eval_parse_total\<close> shows that it never runs out. The loop of the COBS encoder is bounded by the bytes that
  are left. A search in the key value store for a page to collect may not end, so the loops over pages are partial functions,
  and \<open>kvs_reachable_returns\<close> shows that they return when records fit a page. The wait for a message of the split boot loader is a
  partial function with the depth of nested handlers as an argument: \<open>fd_boot_split_io_times_out\<close> shows that it ends after
  exactly 100002 polls when nothing arrives (the limit is 100000; the comparison is strict and comes after the poll). Lengths are bounded where the code's types bound them: messages of up to 7864 bytes (the
  length field of an envelope after stuffing, and what the writer's 16 bit counts allow), reads of up to 256 bytes over the link,
  arrays below 2^32 bytes, pieces of a hashed message up to 2^32 - 64 bytes. Coordinates of the graphics are ints: every sum,
  difference and product of them goes through \<open>c_int\<close>, which is \<open>None\<close> outside of 32 bits, and the properties of drawing state
  the areas for which no overflow happens.

  \<^bold>\<open>Parameters and what is assumed of them.\<close>
  The flash controller of the nRF53 erases pages to ones and can only clear bits, as its manual says (\<open>nvmc_model\<close> is the
  instance). This is assumed for addresses inside of the flash of 1 MiB; a load, store or jump through an address outside of it
  is \<open>None\<close>. The update storage of the boot loader is behind a link: a read fails or returns the bytes of one file that stays
  the same during a call of the core (\<open>link_to\<close>); a controller that changes the file between the check and the installation is
  outside of the properties. The protobuf library decodes what it has encoded. The clock and the semaphore of the kernel, the bytes that
  arrive on a serial line, the driver of a display (it does not touch the frame buffer), and the functions of the
  application are arguments. No hypothesis is left without an instance: the witnesses evaluate the model at concrete inputs.

  \<^bold>\<open>Where the code does not do what it means to\<close> is stated as a theorem next to the properties: overruns
  (\<open>fd_cobs_encode_overruns\<close>, \<open>fd_binary_remove_overrun\<close>, \<open>fd_boot_split_update_metadata_overruns\<close>,
  \<open>fd_view_string_update_overruns\<close>), dangling pointers (\<open>fd_boot_split_late_response_dangles\<close>), loops that do not end
  (\<open>fd_key_value_store_add_oversize_diverges\<close>, \<open>fd_eval_calculate_heap_exhausted\<close>), an old value that comes back
  (\<open>fd_key_value_store_remove_older_value\<close>), time that stops (\<open>fd_timer_timestamp_stops\<close>), tasks that never run
  (\<open>fd_work_queue_full_of_finished\<close>), a button that is released while it is held (\<open>fd_ux_button_released_while_held\<close>), and pictures that are wrong (\<open>fd_canvas_icon_shows_through\<close>,
  \<open>fd_graphics_color_16bit_background_swapped\<close>, \<open>fd_graphics_gray_4bit_background_four_bytes\<close>).

  \<^bold>\<open>Resets.\<close> A reset of the key value store happens between calls. In the middle of a call the code does not keep the invariant
  of the flash: a reset while a page is collected leaves no page free, and one while a record is programmed leaves a part of it.
  A reset of the boot loader during an installation leaves a part of the image in flash; the start-up code after it starts only what
  passes the check (\<open>serial_peripheral_main_starts_valid\<close>).

  \<^bold>\<open>Not modelled\<close>: device drivers and the glue to Zephyr (registers, interrupts and kernel calls are all they consist of);
  Bluetooth, USB, the display controllers and the SD card (protocols of other parties, over I/O); the serial wire debugger and the context switch
  of subsys/rtos (they work on registers and stacks); the generated protobuf descriptors and fonts; the RPC server and its channels (they
  pass messages between nanopb, threads and the stream); the applications but for the boot loaders, and the tools on the host.
\<close>

end
